(* ===== verification/Parallel_Copy.thy ===== *)
theory Parallel_Copy
  imports Prelude
begin

text \<open>
  Parallel-copy resolution of the ARM64 backend
  (\<^verbatim>\<open>nocter-arm64/src/parallel_copy_schedule.rs\<close>): simultaneous assignments between physical
  locations are ordered into single copies, and a cycle is broken by saving one source into the
  register bank's temporary. The theory holds the scheduler as the source has it, the meaning of
  its actions on a location store, and the proof that running the schedule performs the
  simultaneous assignment.
\<close>

section \<open>The schedule\<close>

datatype 'l parallel_source = Location 'l | Temporary

record ('l, 'm) parallel_copy =
  destination :: 'l
  source :: "'l parallel_source"
  metadata :: 'm

datatype ('l, 'm) parallel_action =
    Save 'l
  | Copy 'l "'l parallel_source" 'm

datatype materialization_error = InvalidParallelCopy

text \<open>\<open>candidate_ready\<close> is the closure given to \<open>position\<close>: no pending copy reads the destination.\<close>

definition candidate_ready ::
  "('l, 'm) parallel_copy list \<Rightarrow> ('l, 'm) parallel_copy \<Rightarrow> bool" where
  "candidate_ready pending candidate \<longleftrightarrow>
     \<not> list_ex (\<lambda>copy. source copy = Location (destination candidate)) pending"

text \<open>The \<open>find_map\<close> over the pending copies: the first source that is a location.\<close>

fun first_location :: "('l, 'm) parallel_copy list \<Rightarrow> 'l option" where
  "first_location [] = None"
| "first_location (copy # rest) =
     (case source copy of Location l \<Rightarrow> Some l | Temporary \<Rightarrow> first_location rest)"

definition redirect :: "'l \<Rightarrow> ('l, 'm) parallel_copy \<Rightarrow> ('l, 'm) parallel_copy" where
  "redirect s copy = (if source copy = Location s then copy\<lparr>source := Temporary\<rparr> else copy)"

definition location_sources :: "('l, 'm) parallel_copy list \<Rightarrow> nat" where
  "location_sources pending = length (filter (\<lambda>copy. source copy \<noteq> Temporary) pending)"

lemma location_sources_remove_at: "location_sources (remove_at i pending) \<le> location_sources pending"
proof (cases "i < length pending")
  case True
  have "location_sources pending = location_sources (take i pending @ pending ! i # drop (Suc i) pending)"
    using True by (simp add: remove_at_split [symmetric])
  then show ?thesis by (simp add: location_sources_def remove_at_def)
qed (simp add: remove_at_def)

lemma first_location_Some:
  "first_location pending = Some s \<Longrightarrow> \<exists>copy \<in> set pending. source copy = Location s"
  by (induction pending) (auto split: parallel_source.splits)

lemma first_location_None:
  "first_location pending = None \<longleftrightarrow> (\<forall>copy \<in> set pending. source copy = Temporary)"
  by (induction pending) (auto split: parallel_source.splits)

lemma redirect_not_Temporary:
  "source (redirect s copy) \<noteq> Temporary \<longleftrightarrow> source copy \<noteq> Temporary \<and> source copy \<noteq> Location s"
  by (auto simp: redirect_def)

lemma location_sources_redirect_le: "location_sources (map (redirect s) pending) \<le> location_sources pending"
  by (induction pending) (auto simp: location_sources_def redirect_not_Temporary)

lemma location_sources_redirect:
  "\<exists>copy \<in> set pending. source copy = Location s \<Longrightarrow>
     location_sources (map (redirect s) pending) < location_sources pending"
proof (induction pending)
  case (Cons c cs)
  then show ?case
    using location_sources_redirect_le [of s cs]
    by (auto simp: location_sources_def redirect_not_Temporary)
qed simp

text \<open>The \<open>while\<close> loop over the pending copies, with the actions emitted so far.\<close>

function schedule_loop ::
  "('l, 'm) parallel_copy list \<Rightarrow> ('l, 'm) parallel_action list
     \<Rightarrow> materialization_error + ('l, 'm) parallel_action list" where
  "schedule_loop pending actions =
     (if pending = [] then Inr actions
      else case position (candidate_ready pending) pending of
        Some i \<Rightarrow>
          (let copy = pending ! i in
           schedule_loop (remove_at i pending)
             (actions @ [Copy (destination copy) (source copy) (metadata copy)]))
      | None \<Rightarrow>
          (case first_location pending of
             None \<Rightarrow> Inl InvalidParallelCopy
           | Some s \<Rightarrow> schedule_loop (map (redirect s) pending) (actions @ [Save s])))"
  by pat_completeness auto
termination
proof (relation "measure (\<lambda>(pending, actions). length pending + location_sources pending)")
  fix pending :: "('l, 'm) parallel_copy list" and actions :: "('l, 'm) parallel_action list" and i
  assume "pending \<noteq> []" and "position (candidate_ready pending) pending = Some i"
  then have "length (remove_at i pending) < length pending"
    by (auto dest: position_SomeD)
  then show "((remove_at i pending, actions @ [Copy (destination x) (source x) (metadata x)]),
      pending, actions) \<in> measure (\<lambda>(pending, actions). length pending + location_sources pending)"
    for x
    using location_sources_remove_at [of i pending] by simp
next
  fix pending :: "('l, 'm) parallel_copy list" and actions :: "('l, 'm) parallel_action list" and s
  assume "first_location pending = Some s"
  then show "((map (redirect s) pending, actions @ [Save s]), pending, actions)
      \<in> measure (\<lambda>(pending, actions). length pending + location_sources pending)"
    using location_sources_redirect [of pending s] first_location_Some by fastforce
qed simp

declare schedule_loop.simps [simp del]

text \<open>The \<open>retain\<close> at the entry: copies of a location onto itself are dropped.\<close>

definition retained :: "('l, 'm) parallel_copy list \<Rightarrow> ('l, 'm) parallel_copy list" where
  "retained pending = filter (\<lambda>copy. source copy \<noteq> Location (destination copy)) pending"

definition schedule ::
  "('l, 'm) parallel_copy list \<Rightarrow> materialization_error + ('l, 'm) parallel_action list" where
  "schedule pending = schedule_loop (retained pending) []"

section \<open>Meaning of a schedule\<close>

text \<open>
  A store gives the contents of every location and of the bank's temporary. \<open>move\<close> is what one
  emitted move does to a value under its metadata (the identity for general registers, a
  width-dependent move for floating registers).
\<close>

record ('l, 'v) store =
  cells :: "'l \<Rightarrow> 'v"
  scratch :: 'v

fun read_source :: "('l, 'v) store \<Rightarrow> 'l parallel_source \<Rightarrow> 'v" where
  "read_source st (Location l) = cells st l"
| "read_source st Temporary = scratch st"

fun run_action ::
  "('m \<Rightarrow> 'v \<Rightarrow> 'v) \<Rightarrow> ('l, 'm) parallel_action \<Rightarrow> ('l, 'v) store \<Rightarrow> ('l, 'v) store" where
  "run_action move (Save l) st = st\<lparr>scratch := cells st l\<rparr>"
| "run_action move (Copy d s m) st =
     st\<lparr>cells := (cells st)(d := move m (read_source st s))\<rparr>"

definition run_actions ::
  "('m \<Rightarrow> 'v \<Rightarrow> 'v) \<Rightarrow> ('l, 'm) parallel_action list \<Rightarrow> ('l, 'v) store \<Rightarrow> ('l, 'v) store" where
  "run_actions move actions st = fold (run_action move) actions st"

lemma run_actions_append [simp]:
  "run_actions move (xs @ ys) st = run_actions move ys (run_actions move xs st)"
  by (simp add: run_actions_def)

lemma run_actions_single [simp]: "run_actions move [a] st = run_action move a st"
  by (simp add: run_actions_def)

text \<open>What the copies ask for: every destination receives the value its source held before.\<close>

definition simultaneous ::
  "('m \<Rightarrow> 'v \<Rightarrow> 'v) \<Rightarrow> ('l, 'm) parallel_copy list \<Rightarrow> ('l, 'v) store \<Rightarrow> 'l \<Rightarrow> 'v" where
  "simultaneous move copies st l =
     (case find (\<lambda>copy. destination copy = l) copies of
        None \<Rightarrow> cells st l
      | Some copy \<Rightarrow> move (metadata copy) (read_source st (source copy)))"

lemma simultaneous_at:
  assumes "distinct (map destination copies)" and "copy \<in> set copies"
  shows "simultaneous move copies st (destination copy)
    = move (metadata copy) (read_source st (source copy))"
proof -
  have "find (\<lambda>c. destination c = destination copy) copies = Some copy"
    using assms by (induction copies) (auto simp: image_iff)
  then show ?thesis by (simp add: simultaneous_def)
qed

lemma simultaneous_other:
  "l \<notin> destination ` set copies \<Longrightarrow> simultaneous move copies st l = cells st l"
proof -
  assume "l \<notin> destination ` set copies"
  then have "find (\<lambda>c. destination c = l) copies = None"
    by (auto simp: find_None_iff image_iff)
  then show ?thesis by (simp add: simultaneous_def)
qed

section \<open>The loop never fails\<close>

text \<open>
  When no copy is ready, every destination is still read by some pending copy, so a location
  source exists and the error branch is dead.
\<close>

lemma stuck_has_location:
  assumes "pending \<noteq> []" and "position (candidate_ready pending) pending = None"
  shows "first_location pending \<noteq> None"
proof
  assume none: "first_location pending = None"
  from assms(1) obtain c where "c \<in> set pending" by (cases pending) auto
  with assms(2) obtain c' where "c' \<in> set pending" "source c' = Location (destination c)"
    by (auto simp: position_None_iff candidate_ready_def list_ex_iff)
  with none show False by (auto simp: first_location_None)
qed

lemma schedule_loop_total: "\<exists>out. schedule_loop pending actions = Inr out"
proof (induction pending actions rule: schedule_loop.induct)
  case (1 pending actions)
  show ?case
  proof (cases "pending = []")
    case False
    show ?thesis
    proof (cases "position (candidate_ready pending) pending")
      case None
      then obtain s where "first_location pending = Some s"
        using stuck_has_location False by blast
      with "1.IH"(1) [OF False None this] None False show ?thesis
        by (subst schedule_loop.simps) simp
    next
      case (Some i)
      with "1.IH"(2) [OF False Some refl] False show ?thesis
        by (subst schedule_loop.simps) (simp add: Let_def)
    qed
  qed (simp add: schedule_loop.simps)
qed

text \<open>
  With one pending copy per destination, being stuck also means that no pending copy still reads
  the temporary: there are as many copies as destinations, and every destination is read.
\<close>

lemma stuck_no_temporary:
  assumes stuck: "position (candidate_ready pending) pending = None"
    and dist: "distinct (map destination pending)"
    and "copy \<in> set pending"
  shows "source copy \<noteq> Temporary"
proof
  assume temp: "source copy = Temporary"
  have "Location ` destination ` set pending \<subseteq> source ` (set pending - {copy})"
  proof
    fix x assume "x \<in> Location ` destination ` set pending"
    then obtain c where c: "c \<in> set pending" "x = Location (destination c)" by auto
    then obtain c' where c': "c' \<in> set pending" "source c' = x"
      using stuck by (auto simp: position_None_iff candidate_ready_def list_ex_iff)
    with c temp have "c' \<in> set pending - {copy}" by auto
    with c' show "x \<in> source ` (set pending - {copy})" by blast
  qed
  then have "card (Location ` destination ` set pending) \<le> card (set pending - {copy})"
    by (meson List.finite_set card_image_le card_mono dual_order.trans finite_Diff finite_imageI)
  moreover have "card (Location ` destination ` set pending) = card (set pending)"
    using dist by (auto simp: card_image inj_on_def image_image distinct_map)
  moreover have "card (set pending - {copy}) < card (set pending)"
    using assms(3) by (meson List.finite_set card_Diff1_less)
  ultimately show False by simp
qed

section \<open>The schedule performs the simultaneous assignment\<close>

text \<open>
  The loop invariant relates the store reached so far to the final contents \<open>goal\<close>: every pending
  copy still delivers what its destination must get, and everything else is already in place.
\<close>

definition on_course ::
  "('m \<Rightarrow> 'v \<Rightarrow> 'v) \<Rightarrow> ('l \<Rightarrow> 'v) \<Rightarrow> ('l, 'm) parallel_copy list \<Rightarrow> ('l, 'v) store \<Rightarrow> bool" where
  "on_course move goal pending st \<longleftrightarrow>
     distinct (map destination pending)
     \<and> (\<forall>copy \<in> set pending. move (metadata copy) (read_source st (source copy)) = goal (destination copy))
     \<and> (\<forall>l. l \<notin> destination ` set pending \<longrightarrow> cells st l = goal l)"

lemma on_course_done: "on_course move goal [] st \<Longrightarrow> cells st = goal"
  by (auto simp: on_course_def)

lemma on_course_copy:
  assumes inv: "on_course move goal pending st"
    and ready: "position (candidate_ready pending) pending = Some i"
  defines "c \<equiv> pending ! i"
  shows "on_course move goal (remove_at i pending)
    (run_action move (Copy (destination c) (source c) (metadata c)) st)"
proof -
  have i: "i < length pending" and free: "candidate_ready pending c"
    using position_SomeD [OF ready] by (auto simp: c_def)
  have dist: "distinct (map destination pending)" using inv by (simp add: on_course_def)
  have rest: "set (remove_at i pending) = {x \<in> set pending. destination x \<noteq> destination c}"
    unfolding c_def by (rule set_remove_at_distinct [OF i dist])
  have c: "c \<in> set pending" using i by (simp add: c_def)
  have unread: "source x \<noteq> Location (destination c)" if "x \<in> set pending" for x
    using free that by (auto simp: candidate_ready_def list_ex_iff)
  have same: "read_source (run_action move (Copy (destination c) (source c) (metadata c)) st) (source x)
      = read_source st (source x)" if "x \<in> set pending" for x
    using unread [OF that] by (cases "source x") auto
  show ?thesis
    unfolding on_course_def
  proof (intro conjI ballI allI impI)
    show "distinct (map destination (remove_at i pending))"
      using dist by (rule distinct_map_remove_at)
  next
    fix x assume "x \<in> set (remove_at i pending)"
    then have "x \<in> set pending" by (simp add: rest)
    with inv same [OF this] show "move (metadata x) (read_source
        (run_action move (Copy (destination c) (source c) (metadata c)) st) (source x)) = goal (destination x)"
      by (simp add: on_course_def)
  next
    fix l assume "l \<notin> destination ` set (remove_at i pending)"
    then have "l = destination c \<or> l \<notin> destination ` set pending" by (auto simp: rest)
    with inv c show "cells (run_action move (Copy (destination c) (source c) (metadata c)) st) l = goal l"
      by (auto simp: on_course_def)
  qed
qed

lemma on_course_save:
  assumes inv: "on_course move goal pending st"
    and stuck: "position (candidate_ready pending) pending = None"
  shows "on_course move goal (map (redirect s) pending) (run_action move (Save s) st)"
proof -
  have dist: "distinct (map destination pending)" using inv by (simp add: on_course_def)
  have dest: "destination (redirect s c) = destination c" "metadata (redirect s c) = metadata c" for c
    by (auto simp: redirect_def)
  have "read_source (run_action move (Save s) st) (source (redirect s c)) = read_source st (source c)"
    if "c \<in> set pending" for c
    using stuck_no_temporary [OF stuck dist that] by (cases "source c") (auto simp: redirect_def)
  then show ?thesis
    using inv by (auto simp: on_course_def dest comp_def image_image)
qed

lemma schedule_loop_correct:
  "on_course move goal pending (run_actions move actions st) \<Longrightarrow>
   schedule_loop pending actions = Inr out \<Longrightarrow> cells (run_actions move out st) = goal"
proof (induction pending actions rule: schedule_loop.induct)
  case (1 pending actions)
  show ?case
  proof (cases "pending = []")
    case True
    with "1.prems" show ?thesis by (simp add: schedule_loop.simps on_course_done)
  next
    case False
    show ?thesis
    proof (cases "position (candidate_ready pending) pending")
      case None
      then obtain s where s: "first_location pending = Some s"
        using stuck_has_location False by blast
      have "schedule_loop (map (redirect s) pending) (actions @ [Save s]) = Inr out"
        using "1.prems"(2) False None s by (subst (asm) schedule_loop.simps) simp
      then show ?thesis
        using "1.IH"(1) [OF False None s] on_course_save [OF "1.prems"(1) None] by simp
    next
      case (Some i)
      let ?c = "pending ! i"
      have "schedule_loop (remove_at i pending)
          (actions @ [Copy (destination ?c) (source ?c) (metadata ?c)]) = Inr out"
        using "1.prems"(2) False Some by (subst (asm) schedule_loop.simps) (simp add: Let_def)
      then show ?thesis
        using "1.IH"(2) [OF False Some refl] on_course_copy [OF "1.prems"(1) Some] by simp
    qed
  qed
qed

lemma schedule_correct_aux:
  assumes "distinct (map destination copies)"
  shows "\<exists>out. schedule copies = Inr out
    \<and> cells (run_actions move out st) = simultaneous move (retained copies) st"
proof -
  obtain out where out: "schedule copies = Inr out"
    using schedule_loop_total unfolding schedule_def by blast
  have dist: "distinct (map destination (retained copies))"
    using assms by (simp add: retained_def distinct_map_filter)
  have "on_course move (simultaneous move (retained copies) st) (retained copies) (run_actions move [] st)"
    using dist by (auto simp: on_course_def run_actions_def simultaneous_at simultaneous_other)
  from schedule_loop_correct [OF this] out show ?thesis
    unfolding schedule_def by blast
qed

text \<open>
  C2: scheduling simultaneous copies with one copy per destination always succeeds, and running the
  emitted saves and moves in order leaves every location with what the copies asked for: a
  destination holds the moved value its source held before any of the copies ran, and a location
  that is no destination, or is copied onto itself, is unchanged.
\<close>

theorem schedule_correct:
  assumes "distinct (map destination copies)"
  shows "\<exists>out. schedule copies = Inr out
    \<and> cells (run_actions move out st) = simultaneous move (retained copies) st"
  using assms by (rule schedule_correct_aux)

theorem schedule_correct_witness:
  "\<exists>out. schedule [\<lparr>destination = 2, source = Location 1, metadata = ()\<rparr>,
                 \<lparr>destination = 1, source = Location (2 :: nat), metadata = ()\<rparr>] = Inr out
    \<and> cells (run_actions (\<lambda>_ v. v) out \<lparr>cells = (\<lambda>l. 10 * l), scratch = (0 :: nat)\<rparr>) 1 = 20
    \<and> cells (run_actions (\<lambda>_ v. v) out \<lparr>cells = (\<lambda>l. 10 * l), scratch = (0 :: nat)\<rparr>) 2 = 10"
  using schedule_correct [of "[\<lparr>destination = 2, source = Location 1, metadata = ()\<rparr>,
      \<lparr>destination = 1, source = Location (2 :: nat), metadata = ()\<rparr>]" "\<lambda>_ v. v"
      "\<lparr>cells = (\<lambda>l. 10 * l), scratch = (0 :: nat)\<rparr>"]
  by (auto simp: simultaneous_def retained_def fun_eq_iff)

end
