(* ===== verification/Arm64_Register.thy ===== *)
theory Arm64_Register
  imports Prelude "HOL-Library.Product_Lexorder"
begin

text \<open>
  Physical registers of the ARM64 backend and their roles in the Nocter ABI
  (\<^verbatim>\<open>nocter-arm64/src/register.rs\<close>, \<^verbatim>\<open>nocter-arm64/src/abi.rs\<close>). The sources hide the register
  number behind a constructor that rejects numbers outside the bank; \<open>valid_register\<close> and
  \<open>valid_float_register\<close> say that a value came from it.
\<close>

section \<open>Register banks\<close>

datatype arm64_register = Arm64Register (number: u8)

definition register_new :: "u8 \<Rightarrow> arm64_register option" where
  "register_new n = (if n < 31 then Some (Arm64Register n) else None)"

datatype arm64_float_register = Arm64FloatRegister (float_number: u8)

definition float_register_new :: "u8 \<Rightarrow> arm64_float_register option" where
  "float_register_new n = (if n < 32 then Some (Arm64FloatRegister n) else None)"

definition valid_register :: "arm64_register \<Rightarrow> bool" where
  "valid_register r \<longleftrightarrow> number r < 31"

definition valid_float_register :: "arm64_float_register \<Rightarrow> bool" where
  "valid_float_register r \<longleftrightarrow> float_number r < 32"

lemma register_new_Some: "register_new n = Some r \<longleftrightarrow> valid_register r \<and> number r = n"
  by (cases r) (auto simp: register_new_def valid_register_def)

lemma float_register_new_Some:
  "float_register_new n = Some r \<longleftrightarrow> valid_float_register r \<and> float_number r = n"
  by (cases r) (auto simp: float_register_new_def valid_float_register_def)

section \<open>Register operands\<close>

datatype arm64_data_register = DataGeneral arm64_register | DataZero

fun data_encoding :: "arm64_data_register \<Rightarrow> u32" where
  "data_encoding (DataGeneral r) = ucast (number r)"
| "data_encoding DataZero = 31"

datatype arm64_base_register = BaseGeneral arm64_register | BaseStackPointer

fun base_encoding :: "arm64_base_register \<Rightarrow> u32" where
  "base_encoding (BaseGeneral r) = ucast (number r)"
| "base_encoding BaseStackPointer = 31"

datatype arm64_add_subtract_destination =
    DestinationGeneral arm64_register
  | DestinationStackPointer
  | DestinationZero

fun destination_encoding :: "arm64_add_subtract_destination \<Rightarrow> u32" where
  "destination_encoding (DestinationGeneral r) = ucast (number r)"
| "destination_encoding DestinationStackPointer = 31"
| "destination_encoding DestinationZero = 31"

section \<open>ABI roles\<close>

datatype arm64_abi_register_role =
    ArgumentAndResult
  | IndirectResult
  | AllocationContext
  | ProcessContext
  | CallerSaved
  | CompilerScratch
  | Reserved
  | CalleeSaved
  | FramePointer
  | LinkRole

text \<open>The \<open>Arm64DarwinV1\<close> schema of the runtime contract.\<close>

definition argument_register_count :: u8 where "argument_register_count = 8"
definition floating_argument_register_count :: u8 where "floating_argument_register_count = 8"
definition indirect_result_register :: u8 where "indirect_result_register = 8"

definition argument_register :: "u8 \<Rightarrow> arm64_register option" where
  "argument_register index =
     (if index < argument_register_count then register_new index else None)"

definition floating_argument_register :: "u8 \<Rightarrow> arm64_float_register option" where
  "floating_argument_register index =
     (if index < floating_argument_register_count then float_register_new index else None)"

definition floating_scratch_register :: "u8 \<Rightarrow> arm64_float_register option" where
  "floating_scratch_register index = (if index < 2 then float_register_new (30 + index) else None)"

definition compiler_scratch_register :: "u8 \<Rightarrow> arm64_register option" where
  "compiler_scratch_register index =
     (if index = 0 then register_new 16
      else if index = 1 then register_new 17
      else if index = 2 then register_new 15
      else None)"

definition is_floating_allocatable :: "arm64_float_register \<Rightarrow> bool" where
  "is_floating_allocatable r \<longleftrightarrow> 16 \<le> float_number r \<and> float_number r \<le> 29"

text \<open>\<open>None\<close> is the \<open>unreachable!\<close> arm.\<close>

definition role :: "arm64_register \<Rightarrow> arm64_abi_register_role option" where
  "role r =
     (let n = number r in
      if n < argument_register_count then Some ArgumentAndResult
      else if n = indirect_result_register then Some IndirectResult
      else if n = 9 then Some AllocationContext
      else if n = 10 then Some ProcessContext
      else if 11 \<le> n \<and> n \<le> 14 then Some CallerSaved
      else if 15 \<le> n \<and> n \<le> 17 then Some CompilerScratch
      else if n = 18 then Some Reserved
      else if 19 \<le> n \<and> n \<le> 28 then Some CalleeSaved
      else if n = 29 then Some FramePointer
      else if n = 30 then Some LinkRole
      else None)"

definition is_allocatable :: "arm64_register \<Rightarrow> bool" where
  "is_allocatable r \<longleftrightarrow> role r = Some CallerSaved \<or> role r = Some CalleeSaved"

definition is_callee_saved :: "arm64_register \<Rightarrow> bool" where
  "is_callee_saved r \<longleftrightarrow> role r = Some CalleeSaved"

text \<open>The numbers of a bank, as the ranges \<open>0..31\<close> and \<open>0..32\<close> enumerate them.\<close>

definition general_bank :: "arm64_register list" where
  "general_bank = List.map_filter register_new (map word_of_nat [0..<31])"

definition floating_bank :: "arm64_float_register list" where
  "floating_bank = List.map_filter float_register_new (map word_of_nat [0..<32])"


end
