(* ===== verification/Register_Allocation.thy ===== *)
theory Register_Allocation
  imports Arm64_Register "HOL-Library.Multiset"
begin

text \<open>
  Linear-scan register allocation of the ARM64 backend
  (\<^verbatim>\<open>nocter-arm64/src/register_allocation.rs\<close>): the builder that collects live ranges and calls, the
  scan that assigns a physical register or a spill slot to every range, and the proof that two
  ranges that are live together never share a location, that a range which survives a call gets a
  callee-saved register or a spill slot, and that spill slots are never reused.
\<close>

section \<open>Virtual registers\<close>

datatype arm64_register_class = General | Floating

datatype arm64_virtual_register = VirtualRegister (index: nat) (bank: arm64_register_class)

datatype arm64_spill_slot_id = SpillSlotId nat

datatype arm64_allocated_location =
    GeneralRegister arm64_register
  | FloatRegister arm64_float_register
  | Spill arm64_spill_slot_id

text \<open>The derived orders: variants in declaration order, structs lexicographically.\<close>

fun class_rank :: "arm64_register_class \<Rightarrow> nat" where
  "class_rank General = 0"
| "class_rank Floating = 1"

instantiation arm64_register_class :: linorder
begin

definition less_eq_arm64_register_class :: "arm64_register_class \<Rightarrow> arm64_register_class \<Rightarrow> bool" where
  "less_eq_arm64_register_class a b \<longleftrightarrow> class_rank a \<le> class_rank b"

definition less_arm64_register_class :: "arm64_register_class \<Rightarrow> arm64_register_class \<Rightarrow> bool" where
  "less_arm64_register_class a b \<longleftrightarrow> class_rank a < class_rank b"

instance
proof
  fix a b :: arm64_register_class
  show "a \<le> b \<Longrightarrow> b \<le> a \<Longrightarrow> a = b"
    by (cases a; cases b) (simp_all add: less_eq_arm64_register_class_def)
qed (auto simp: less_eq_arm64_register_class_def less_arm64_register_class_def)

end

fun virtual_register_key :: "arm64_virtual_register \<Rightarrow> nat \<times> arm64_register_class" where
  "virtual_register_key (VirtualRegister i c) = (i, c)"

lemma virtual_register_key_inject [simp]:
  "virtual_register_key a = virtual_register_key b \<longleftrightarrow> a = b"
  by (cases a; cases b) auto

instantiation arm64_virtual_register :: linorder
begin

definition less_eq_arm64_virtual_register ::
  "arm64_virtual_register \<Rightarrow> arm64_virtual_register \<Rightarrow> bool" where
  "less_eq_arm64_virtual_register a b \<longleftrightarrow> virtual_register_key a \<le> virtual_register_key b"

definition less_arm64_virtual_register ::
  "arm64_virtual_register \<Rightarrow> arm64_virtual_register \<Rightarrow> bool" where
  "less_arm64_virtual_register a b \<longleftrightarrow> virtual_register_key a < virtual_register_key b"

instance
proof
  fix a b :: arm64_virtual_register
  show "a \<le> b \<Longrightarrow> b \<le> a \<Longrightarrow> a = b"
    unfolding less_eq_arm64_virtual_register_def by (metis antisym virtual_register_key_inject)
  show "a < b \<longleftrightarrow> a \<le> b \<and> \<not> b \<le> a"
    unfolding less_eq_arm64_virtual_register_def less_arm64_virtual_register_def
    by (rule less_le_not_le)
qed (auto simp only: less_eq_arm64_virtual_register_def linear intro: order.trans)

end

record register_allocation =
  alloc_locations :: "arm64_allocated_location list"
  preserved_registers :: "arm64_register list"
  alloc_spill_count :: nat

definition location_of ::
  "register_allocation \<Rightarrow> arm64_virtual_register \<Rightarrow> arm64_allocated_location option" where
  "location_of allocation register = list_get (alloc_locations allocation) (index register)"

section \<open>Collecting live ranges\<close>

record live_range =
  range_start :: nat
  range_end :: nat
  range_class :: arm64_register_class

record allocation_builder =
  ranges :: "live_range list"
  calls :: "nat list"
  call_crossing :: "arm64_virtual_register list"

text \<open>The two \<open>BTreeSet\<close>s are kept as the sorted lists of their elements.\<close>

definition btree_insert :: "'a::linorder \<Rightarrow> 'a list \<Rightarrow> 'a list" where
  "btree_insert x xs = (if x \<in> set xs then xs else insort x xs)"

lemma set_btree_insert [simp]: "set (btree_insert x xs) = insert x (set xs)"
  by (auto simp: btree_insert_def set_insort_key)

datatype register_allocation_error =
    UnknownVirtualRegister arm64_virtual_register
  | UseBeforeDefinition arm64_virtual_register nat nat

definition builder_new :: allocation_builder where
  "builder_new = \<lparr>ranges = [], calls = [], call_crossing = []\<rparr>"

definition define_register ::
  "nat \<Rightarrow> arm64_register_class \<Rightarrow> allocation_builder \<Rightarrow> arm64_virtual_register \<times> allocation_builder" where
  "define_register at c b =
     (VirtualRegister (length (ranges b)) c,
      b\<lparr>ranges := ranges b @ [\<lparr>range_start = at, range_end = at, range_class = c\<rparr>]\<rparr>)"

definition use_at ::
  "arm64_virtual_register \<Rightarrow> nat \<Rightarrow> allocation_builder
     \<Rightarrow> (register_allocation_error + unit) \<times> allocation_builder" where
  "use_at register at b =
     (case list_get (ranges b) (index register) of
        None \<Rightarrow> (Inl (UnknownVirtualRegister register), b)
      | Some live \<Rightarrow>
          (if range_class live \<noteq> bank register then (Inl (UnknownVirtualRegister register), b)
           else if at < range_start live
             then (Inl (UseBeforeDefinition register (range_start live) at), b)
           else (Inr (),
             b\<lparr>ranges := (ranges b)[index register := live\<lparr>range_end := max (range_end live) at\<rparr>]\<rparr>)))"

definition record_call :: "nat \<Rightarrow> allocation_builder \<Rightarrow> allocation_builder" where
  "record_call at b = b\<lparr>calls := btree_insert at (calls b)\<rparr>"

definition mark_call_crossing ::
  "arm64_virtual_register \<Rightarrow> allocation_builder
     \<Rightarrow> (register_allocation_error + unit) \<times> allocation_builder" where
  "mark_call_crossing register b =
     (case list_get (ranges b) (index register) of
        None \<Rightarrow> (Inl (UnknownVirtualRegister register), b)
      | Some live \<Rightarrow>
          (if range_class live \<noteq> bank register then (Inl (UnknownVirtualRegister register), b)
           else (Inr (), b\<lparr>call_crossing := btree_insert register (call_crossing b)\<rparr>)))"

section \<open>The linear scan\<close>

record interval =
  interval_register :: arm64_virtual_register
  interval_start :: nat
  interval_end :: nat
  crosses_call :: bool

datatype arm64_physical_register =
    PhysicalGeneral arm64_register
  | PhysicalFloating arm64_float_register

record active_interval =
  active_interval :: interval
  physical :: arm64_physical_register

text \<open>
  The panics of the scan: \<open>BTreeSet::range\<close> on a non-empty set refuses two equal excluded bounds,
  and the \<open>expect\<close> meets a location that was never assigned. (Intervals carry the indices of the
  enumeration that made them, so the location table is never indexed out of range.)
\<close>

datatype allocation_panic = EqualExcludedBounds | MissingLocation

definition range_between :: "nat \<Rightarrow> nat \<Rightarrow> nat list \<Rightarrow> allocation_panic + nat list" where
  "range_between low high xs =
     (if xs \<noteq> [] \<and> low = high then Inl EqualExcludedBounds
      else Inr (filter (\<lambda>x. low < x \<and> x < high) xs))"

definition make_interval ::
  "nat list \<Rightarrow> arm64_virtual_register list \<Rightarrow> nat \<Rightarrow> live_range \<Rightarrow> allocation_panic + interval" where
  "make_interval call_set crossing i live =
     (let register = VirtualRegister i (range_class live) in
      if register \<in> set crossing
      then Inr \<lparr>interval_register = register, interval_start = range_start live,
                interval_end = range_end live, crosses_call = True\<rparr>
      else and_then (range_between (range_start live) (range_end live) call_set)
        (\<lambda>between. Inr \<lparr>interval_register = register, interval_start = range_start live,
                         interval_end = range_end live, crosses_call = between \<noteq> []\<rparr>))"

fun make_intervals ::
  "nat list \<Rightarrow> arm64_virtual_register list \<Rightarrow> nat \<Rightarrow> live_range list \<Rightarrow> allocation_panic + interval list" where
  "make_intervals call_set crossing i [] = Inr []"
| "make_intervals call_set crossing i (live # rest) =
     and_then (make_interval call_set crossing i live) (\<lambda>first.
     and_then (make_intervals call_set crossing (Suc i) rest) (\<lambda>others. Inr (first # others)))"

definition eligible :: "arm64_physical_register \<Rightarrow> interval \<Rightarrow> bool" where
  "eligible p i =
     (case (p, bank (interval_register i), crosses_call i) of
        (PhysicalGeneral r, General, crosses) \<Rightarrow> \<not> crosses \<or> is_callee_saved r
      | (PhysicalFloating r, Floating, False) \<Rightarrow> True
      | _ \<Rightarrow> False)"

fun allocated_location :: "arm64_physical_register \<Rightarrow> arm64_allocated_location" where
  "allocated_location (PhysicalGeneral r) = GeneralRegister r"
| "allocated_location (PhysicalFloating r) = FloatRegister r"

definition available_register ::
  "active_interval list \<Rightarrow> interval \<Rightarrow> arm64_physical_register option" where
  "available_register active i =
     (let is_available = (\<lambda>candidate. list_all (\<lambda>a. physical a \<noteq> candidate) active) in
      case (bank (interval_register i), crosses_call i) of
        (General, crosses) \<Rightarrow>
          find is_available
            (map PhysicalGeneral
              (filter (\<lambda>r. is_allocatable r \<and> (\<not> crosses \<or> is_callee_saved r)) general_bank))
      | (Floating, True) \<Rightarrow> None
      | (Floating, False) \<Rightarrow>
          find is_available (map PhysicalFloating (filter is_floating_allocatable floating_bank)))"

text \<open>\<open>max_by_key\<close> over the eligible actives with their positions; a later equal key wins.\<close>

definition victim_key :: "active_interval \<Rightarrow> nat \<times> arm64_virtual_register" where
  "victim_key a = (interval_end (active_interval a), interval_register (active_interval a))"

fun max_victim ::
  "interval \<Rightarrow> nat \<Rightarrow> active_interval list \<Rightarrow> (nat \<times> active_interval) option
     \<Rightarrow> (nat \<times> active_interval) option" where
  "max_victim i at [] best = best"
| "max_victim i at (a # rest) best =
     (if eligible (physical a) i
      then (case best of
              None \<Rightarrow> max_victim i (Suc at) rest (Some (at, a))
            | Some (q, b) \<Rightarrow>
                (if victim_key b \<le> victim_key a
                 then max_victim i (Suc at) rest (Some (at, a))
                 else max_victim i (Suc at) rest (Some (q, b))))
      else max_victim i (Suc at) rest best)"

record scan =
  locations :: "arm64_allocated_location option list"
  active :: "active_interval list"
  spill_count :: nat

definition scan_step :: "interval \<Rightarrow> scan \<Rightarrow> scan" where
  "scan_step i s =
     (let live = filter (\<lambda>a. interval_start i \<le> interval_end (active_interval a)) (active s);
          place = (\<lambda>r l ls. ls[index r := Some l]) in
      case available_register live i of
        Some p \<Rightarrow>
          s\<lparr>locations := place (interval_register i) (allocated_location p) (locations s),
            active := live @ [\<lparr>active_interval = i, physical = p\<rparr>]\<rparr>
      | None \<Rightarrow>
          (case max_victim i 0 live None of
             Some (q, victim) \<Rightarrow>
               (if interval_end i < interval_end (active_interval victim)
                then s\<lparr>locations :=
                         place (interval_register i) (allocated_location (physical victim))
                           (place (interval_register (active_interval victim))
                              (Spill (SpillSlotId (spill_count s))) (locations s)),
                       active := live[q := \<lparr>active_interval = i, physical = physical victim\<rparr>],
                       spill_count := Suc (spill_count s)\<rparr>
                else s\<lparr>locations := place (interval_register i)
                                      (Spill (SpillSlotId (spill_count s))) (locations s),
                       active := live,
                       spill_count := Suc (spill_count s)\<rparr>)
           | None \<Rightarrow>
               s\<lparr>locations := place (interval_register i)
                               (Spill (SpillSlotId (spill_count s))) (locations s),
                 active := live,
                 spill_count := Suc (spill_count s)\<rparr>))"

fun expect_all :: "arm64_allocated_location option list \<Rightarrow> allocation_panic + arm64_allocated_location list" where
  "expect_all [] = Inr []"
| "expect_all (None # rest) = Inl MissingLocation"
| "expect_all (Some l # rest) = and_then (expect_all rest) (\<lambda>ls. Inr (l # ls))"

fun preserved_register :: "arm64_allocated_location \<Rightarrow> arm64_register option" where
  "preserved_register (GeneralRegister r) = (if is_callee_saved r then Some r else None)"
| "preserved_register (FloatRegister r) = None"
| "preserved_register (Spill s) = None"

text \<open>Collecting registers into a \<open>BTreeSet\<close> and back: each once, in ascending number.\<close>

definition collect_registers :: "arm64_register list \<Rightarrow> arm64_register list" where
  "collect_registers rs = sort_key number (remdups rs)"

definition allocate ::
  "live_range list \<Rightarrow> nat list \<Rightarrow> arm64_virtual_register list \<Rightarrow> allocation_panic + register_allocation" where
  "allocate live_ranges call_set crossing =
     and_then (make_intervals call_set crossing 0 live_ranges) (\<lambda>intervals.
       let sorted = sort_key (\<lambda>i. (interval_start i, interval_register i)) intervals;
           s = fold scan_step sorted
                 \<lparr>locations = replicate (length intervals) None, active = [], spill_count = 0\<rparr> in
       and_then (expect_all (locations s)) (\<lambda>placed.
         Inr \<lparr>alloc_locations = placed,
              preserved_registers = collect_registers (List.map_filter preserved_register placed),
              alloc_spill_count = spill_count s\<rparr>))"

definition finish :: "allocation_builder \<Rightarrow> allocation_panic + register_allocation" where
  "finish b = allocate (ranges b) (calls b) (call_crossing b)"

section \<open>What the scan maintains\<close>

abbreviation slot :: "interval \<Rightarrow> nat" where
  "slot i \<equiv> index (interval_register i)"

definition overlap :: "interval \<Rightarrow> interval \<Rightarrow> bool" where
  "overlap i j \<longleftrightarrow> interval_start i \<le> interval_end j \<and> interval_start j \<le> interval_end i"

text \<open>The registers the ABI lets an interval live in.\<close>

definition suits :: "arm64_physical_register \<Rightarrow> interval \<Rightarrow> bool" where
  "suits p i \<longleftrightarrow>
     (case p of
        PhysicalGeneral r \<Rightarrow> bank (interval_register i) = General \<and> is_allocatable r
          \<and> valid_register r \<and> (crosses_call i \<longrightarrow> is_callee_saved r)
      | PhysicalFloating r \<Rightarrow> bank (interval_register i) = Floating \<and> is_floating_allocatable r
          \<and> valid_float_register r \<and> \<not> crosses_call i)"

definition is_spill :: "arm64_allocated_location \<Rightarrow> bool" where
  "is_spill l \<longleftrightarrow> (\<exists>k. l = Spill (SpillSlotId k))"

lemma allocated_location_simps [simp]:
  "allocated_location p = allocated_location q \<longleftrightarrow> p = q"
  "\<not> is_spill (allocated_location p)"
  "allocated_location p \<noteq> Spill k"
  "Spill k \<noteq> allocated_location p"
  "is_spill (Spill (SpillSlotId n))"
  by (cases p; cases q; simp add: is_spill_def)+

lemma location_cases:
  obtains p where "l = allocated_location p" | k where "l = Spill (SpillSlotId k)"
  by (cases l)
    (metis allocated_location.simps arm64_spill_slot_id.exhaust)+

lemma general_bank_valid: "r \<in> set general_bank \<Longrightarrow> valid_register r"
  by (auto simp: general_bank_def in_set_map_filter register_new_Some)

lemma floating_bank_valid: "r \<in> set floating_bank \<Longrightarrow> valid_float_register r"
  by (auto simp: floating_bank_def in_set_map_filter float_register_new_Some)

lemma available_register_SomeD:
  assumes "available_register actives i = Some p"
  shows "suits p i" and "p \<notin> physical ` set actives"
  using assms
  by (auto simp: available_register_def Let_def suits_def list_all_iff general_bank_valid
      floating_bank_valid split: arm64_register_class.splits bool.splits dest!: find_SomeD)

lemma eligible_suits:
  "eligible p i \<Longrightarrow> suits p v \<Longrightarrow> suits p i"
  by (auto simp: eligible_def suits_def split: arm64_physical_register.splits
      arm64_register_class.splits bool.splits)

lemma max_victim_SomeD:
  "max_victim i at rest best = Some (q, v) \<Longrightarrow> best = Some (q, v)
    \<or> (\<exists>k < length rest. q = at + k \<and> rest ! k = v \<and> eligible (physical v) i)"
proof (induction rest arbitrary: at best)
  case (Cons a rest)
  have here: "best = Some (q, v) \<or> (at = q \<and> a = v \<and> eligible (physical a) i)
      \<or> (\<exists>k < length rest. q = Suc at + k \<and> rest ! k = v \<and> eligible (physical v) i)"
  proof (cases best)
    case None
    with Cons.prems show ?thesis
      by (auto split: if_splits dest!: Cons.IH)
  next
    case (Some qb)
    with Cons.prems show ?thesis
      by (cases qb) (auto split: if_splits dest!: Cons.IH)
  qed
  then show ?case
    by (metis add_0_right add_Suc_shift length_Cons nth_Cons_0 nth_Cons_Suc Suc_less_eq zero_less_Suc)
qed simp

definition placed :: "scan \<Rightarrow> interval \<Rightarrow> arm64_allocated_location option" where
  "placed s i = locations s ! slot i"

text \<open>
  The scan invariant for the set \<open>D\<close> of intervals already placed, when every interval still to come
  starts at \<open>low\<close> or later.
\<close>

definition table_ok :: "interval set \<Rightarrow> scan \<Rightarrow> bool" where
  "table_ok D s \<longleftrightarrow>
     inj_on slot D \<and> slot ` D \<subseteq> {..<length (locations s)}
     \<and> (\<forall>i \<in> D. placed s i \<noteq> None)"

definition placement_ok :: "scan \<Rightarrow> interval \<Rightarrow> bool" where
  "placement_ok s i \<longleftrightarrow>
     (\<forall>p. placed s i = Some (allocated_location p) \<longrightarrow> suits p i)
     \<and> (\<forall>k. placed s i = Some (Spill (SpillSlotId k)) \<longrightarrow> k < spill_count s)"

definition no_sharing :: "interval set \<Rightarrow> scan \<Rightarrow> bool" where
  "no_sharing D s \<longleftrightarrow>
     (\<forall>i \<in> D. \<forall>j \<in> D. i \<noteq> j \<longrightarrow> placed s i = placed s j \<longrightarrow>
        \<not> overlap i j \<and> (\<exists>p. placed s i = Some (allocated_location p)))"

definition active_ok :: "nat \<Rightarrow> interval set \<Rightarrow> scan \<Rightarrow> bool" where
  "active_ok low D s \<longleftrightarrow>
     distinct (map physical (active s))
     \<and> (\<forall>a \<in> set (active s). active_interval a \<in> D
          \<and> placed s (active_interval a) = Some (allocated_location (physical a)))
     \<and> (\<forall>i \<in> D. \<forall>p. placed s i = Some (allocated_location p) \<longrightarrow>
          \<lparr>active_interval = i, physical = p\<rparr> \<in> set (active s) \<or> interval_end i < low)"

definition scan_ok :: "nat \<Rightarrow> interval set \<Rightarrow> scan \<Rightarrow> bool" where
  "scan_ok low D s \<longleftrightarrow>
     table_ok D s \<and> (\<forall>i \<in> D. placement_ok s i) \<and> no_sharing D s \<and> active_ok low D s"

subsection \<open>The steps of the scan\<close>

definition retire_actives :: "nat \<Rightarrow> scan \<Rightarrow> scan" where
  "retire_actives low s = s\<lparr>active := filter (\<lambda>a. low \<le> interval_end (active_interval a)) (active s)\<rparr>"

lemma retire_simps [simp]:
  "locations (retire_actives low s) = locations s"
  "spill_count (retire_actives low s) = spill_count s"
  "placed (retire_actives low s) i = placed s i"
  "active (retire_actives low s) = filter (\<lambda>a. low \<le> interval_end (active_interval a)) (active s)"
  by (simp_all add: retire_actives_def placed_def)

lemma distinct_map_filter_actives: "distinct (map f xs) \<Longrightarrow> distinct (map f (filter P xs))"
  by (induction xs) auto

lemma retire_ok:
  assumes "scan_ok low D s" and "low \<le> low'"
  shows "scan_ok low' D (retire_actives low' s)"
proof -
  have "active_ok low' D (retire_actives low' s)"
    using assms unfolding scan_ok_def active_ok_def
    by (fastforce simp: distinct_map_filter_actives)
  then show ?thesis
    using assms by (simp add: scan_ok_def table_ok_def placement_ok_def no_sharing_def)
qed

definition settle :: "interval \<Rightarrow> arm64_allocated_location \<Rightarrow> scan \<Rightarrow> scan" where
  "settle i l s = s\<lparr>locations := (locations s)[slot i := Some l]\<rparr>"

lemma settle_simps [simp]:
  "length (locations (settle i l s)) = length (locations s)"
  "spill_count (settle i l s) = spill_count s"
  "active (settle i l s) = active s"
  by (simp_all add: settle_def)

lemma placed_settle:
  "slot i < length (locations s) \<Longrightarrow>
     placed (settle i l s) j = (if slot j = slot i then Some l else placed s j)"
  by (simp add: settle_def placed_def)

lemma table_ok_insert:
  assumes "table_ok D s" and "slot i \<notin> slot ` D" and "slot i < length (locations s)"
    and "length (locations t) = length (locations s)"
    and "\<And>j. j \<in> D \<Longrightarrow> placed t j = placed s j" and "placed t i \<noteq> None"
  shows "table_ok (insert i D) t"
proof -
  have "inj_on slot (insert i D)"
    using assms(1,2) by (simp add: table_ok_def inj_on_insert) blast
  with assms show ?thesis by (auto simp: table_ok_def)
qed

lemma no_sharing_insert:
  assumes "no_sharing D s" and old: "\<And>j. j \<in> D \<Longrightarrow> placed t j = placed s j"
    and i: "\<And>j. j \<in> D \<Longrightarrow> placed s j = placed t i \<Longrightarrow>
      \<not> overlap i j \<and> (\<exists>p. placed t i = Some (allocated_location p))"
  shows "no_sharing (insert i D) t"
  unfolding no_sharing_def
proof (intro ballI impI)
  fix j k assume jk: "j \<in> insert i D" "k \<in> insert i D" "j \<noteq> k" "placed t j = placed t k"
  consider "j = i" "k \<in> D" | "k = i" "j \<in> D" | "j \<in> D" "k \<in> D" using jk by blast
  then show "\<not> overlap j k \<and> (\<exists>p. placed t j = Some (allocated_location p))"
  proof cases
    case 1 with i [of k] old [of k] jk show ?thesis by simp
  next
    case 2 with i [of j] old [of j] jk show ?thesis by (simp add: overlap_def) argo
  next
    case 3 with assms(1) old jk show ?thesis by (simp add: no_sharing_def)
  qed
qed

text \<open>A free register suits the next interval.\<close>

lemma settle_register_ok:
  assumes ok: "scan_ok (interval_start i) D s"
    and new: "slot i \<notin> slot ` D" "slot i < length (locations s)"
    and p: "suits p i" "p \<notin> physical ` set (active s)"
  shows "scan_ok (interval_start i) (insert i D)
    ((settle i (allocated_location p) s)\<lparr>active := active s @ [\<lparr>active_interval = i, physical = p\<rparr>]\<rparr>)"
    (is "scan_ok _ _ ?t")
proof -
  have old: "placed ?t j = placed s j" if "j \<in> D" for j
    using new that by (cases "slot i = slot j") (auto simp: placed_def settle_def)
  have now: "placed ?t i = Some (allocated_location p)"
    using new by (simp add: placed_def settle_def)
  have free: "interval_end j < interval_start i"
    if "j \<in> D" "placed s j = Some (allocated_location p)" for j
    using ok that p(2) unfolding scan_ok_def active_ok_def
    by (metis active_interval.select_convs(2) image_eqI)
  have "table_ok (insert i D) ?t"
    by (rule table_ok_insert [of D s]) (use ok new old now in \<open>auto simp: scan_ok_def\<close>)
  moreover have "\<forall>j \<in> insert i D. placement_ok ?t j"
    using ok p(1) old now by (auto simp: scan_ok_def placement_ok_def)
  moreover have "no_sharing (insert i D) ?t"
  proof (rule no_sharing_insert)
    fix j assume "j \<in> D" and "placed s j = placed ?t i"
    with free now show "\<not> overlap i j \<and> (\<exists>p. placed ?t i = Some (allocated_location p))"
      by (fastforce simp: overlap_def)
  qed (use ok old in \<open>auto simp: scan_ok_def\<close>)
  moreover have "active_ok (interval_start i) (insert i D) ?t"
    using ok p(2) old now unfolding scan_ok_def active_ok_def by auto
  ultimately show ?thesis by (simp add: scan_ok_def)
qed

text \<open>The next interval is spilled itself.\<close>

lemma settle_spill_ok:
  assumes ok: "scan_ok low D s"
    and new: "slot i \<notin> slot ` D" "slot i < length (locations s)"
  shows "scan_ok low (insert i D)
    ((settle i (Spill (SpillSlotId (spill_count s))) s)\<lparr>spill_count := Suc (spill_count s)\<rparr>)"
    (is "scan_ok _ _ ?t")
proof -
  have old: "placed ?t j = placed s j" if "j \<in> D" for j
    using new that by (cases "slot i = slot j") (auto simp: placed_def settle_def)
  have now: "placed ?t i = Some (Spill (SpillSlotId (spill_count s)))"
    using new by (simp add: placed_def settle_def)
  have fresh: "placed s j \<noteq> Some (Spill (SpillSlotId (spill_count s)))" if "j \<in> D" for j
    using ok that by (auto simp: scan_ok_def placement_ok_def)
  have "table_ok (insert i D) ?t"
    by (rule table_ok_insert [of D s]) (use ok new old now in \<open>auto simp: scan_ok_def\<close>)
  moreover have "\<forall>j \<in> insert i D. placement_ok ?t j"
    using ok old now by (auto simp: scan_ok_def placement_ok_def less_SucI)
  moreover have "no_sharing (insert i D) ?t"
    using ok old now fresh by (intro no_sharing_insert [of D s]) (auto simp: scan_ok_def)
  moreover have "active_ok low (insert i D) ?t"
    using ok old now unfolding scan_ok_def active_ok_def by auto
  ultimately show ?thesis by (simp add: scan_ok_def)
qed

text \<open>An active interval gives its register up for a spill slot.\<close>

lemma evict_ok:
  assumes ok: "scan_ok low D s" and v: "v \<in> set (active s)"
  shows "scan_ok low D
    ((settle (active_interval v) (Spill (SpillSlotId (spill_count s))) s)
      \<lparr>active := filter (\<lambda>a. physical a \<noteq> physical v) (active s), spill_count := Suc (spill_count s)\<rparr>)"
    (is "scan_ok _ _ ?t")
proof -
  let ?v = "active_interval v" and ?l = "Spill (SpillSlotId (spill_count s))"
  have vD: "?v \<in> D" and vl: "placed s ?v = Some (allocated_location (physical v))"
    using ok v by (auto simp: scan_ok_def active_ok_def)
  have inj: "inj_on slot D" and len: "slot ?v < length (locations s)"
    using ok vD by (auto simp: scan_ok_def table_ok_def)
  have at: "placed ?t j = (if j = ?v then Some ?l else placed s j)" if "j \<in> D" for j
    using inj vD that len by (auto simp: placed_def settle_def nth_list_update inj_on_def)
  have fresh: "placed s j \<noteq> Some ?l" if "j \<in> D" for j
    using ok that by (auto simp: scan_ok_def placement_ok_def)
  have same: "active_interval a = ?v \<longleftrightarrow> physical a = physical v" if "a \<in> set (active s)" for a
    using ok that v vl unfolding scan_ok_def active_ok_def
    by (metis (no_types, lifting) allocated_location_simps(1) distinct_map inj_onD option.inject)
  have "table_ok D ?t"
    using ok at by (auto simp: scan_ok_def table_ok_def)
  moreover have "\<forall>j \<in> D. placement_ok ?t j"
    using ok at by (auto simp: scan_ok_def placement_ok_def less_SucI)
  moreover have "no_sharing D ?t"
    unfolding no_sharing_def
  proof (intro ballI impI)
    fix j k assume jk: "j \<in> D" "k \<in> D" "j \<noteq> k" "placed ?t j = placed ?t k"
    with at [of j] at [of k] fresh [of j] fresh [of k] have "j \<noteq> ?v" "k \<noteq> ?v"
      by (auto split: if_splits)
    with ok jk at [of j] at [of k]
    show "\<not> overlap j k \<and> (\<exists>p. placed ?t j = Some (allocated_location p))"
      by (simp add: scan_ok_def no_sharing_def)
  qed
  moreover have "active_ok low D ?t"
    unfolding active_ok_def
  proof (intro conjI ballI allI impI)
    show "distinct (map physical (active ?t))"
      using ok by (simp add: scan_ok_def active_ok_def distinct_map_filter_actives)
  next
    fix a assume "a \<in> set (active ?t)"
    then have a: "a \<in> set (active s)" "physical a \<noteq> physical v" by auto
    then show "active_interval a \<in> D" using ok by (simp add: scan_ok_def active_ok_def)
    with at [OF this] same [OF a(1)] a ok
    show "placed ?t (active_interval a) = Some (allocated_location (physical a))"
      by (simp add: scan_ok_def active_ok_def)
  next
    fix j p assume j: "j \<in> D" "placed ?t j = Some (allocated_location p)"
    with at [of j] have keep: "j \<noteq> ?v" "placed s j = Some (allocated_location p)"
      by (auto split: if_splits)
    with ok j have "\<lparr>active_interval = j, physical = p\<rparr> \<in> set (active s) \<or> interval_end j < low"
      by (simp add: scan_ok_def active_ok_def)
    with same keep(1) show "\<lparr>active_interval = j, physical = p\<rparr> \<in> set (active ?t) \<or> interval_end j < low"
      by fastforce
  qed
  ultimately show ?thesis by (simp add: scan_ok_def)
qed

lemma set_update_remove_at:
  "q < length xs \<Longrightarrow> set (xs[q := x]) = insert x (set (remove_at q xs))"
  by (auto simp: remove_at_def upd_conv_take_nth_drop)

lemma remove_at_physical:
  assumes "distinct (map physical xs)" and "q < length xs"
  shows "set (remove_at q xs) = set (filter (\<lambda>a. physical a \<noteq> physical (xs ! q)) xs)"
  using set_remove_at_distinct [OF assms(2,1)] by simp

text \<open>The invariant reads the active list as a set without repeated registers.\<close>

lemma scan_ok_active_cong:
  assumes "scan_ok low D s" and "set xs = set (active s)" and "distinct (map physical xs)"
  shows "scan_ok low D (s\<lparr>active := xs\<rparr>)"
  using assms
  by (simp add: scan_ok_def table_ok_def placement_ok_def no_sharing_def active_ok_def placed_def)

lemma scan_step_ok:
  assumes ok: "scan_ok low D s" and low: "low \<le> interval_start i"
    and new: "slot i \<notin> slot ` D" "slot i < length (locations s)"
  shows "scan_ok (interval_start i) (insert i D) (scan_step i s)"
proof -
  define t where "t = retire_actives (interval_start i) s"
  have t: "scan_ok (interval_start i) D t" unfolding t_def using ok low by (rule retire_ok)
  have fields: "locations t = locations s" "spill_count t = spill_count s"
    by (simp_all add: t_def)
  have live: "filter (\<lambda>a. interval_start i \<le> interval_end (active_interval a)) (active s) = active t"
    by (simp add: t_def)
  have spilled: "scan_ok (interval_start i) (insert i D)
      (s\<lparr>locations := (locations s)[slot i := Some (Spill (SpillSlotId (spill_count s)))],
         active := active t, spill_count := Suc (spill_count s)\<rparr>)"
  proof -
    have "(settle i (Spill (SpillSlotId (spill_count t))) t)\<lparr>spill_count := Suc (spill_count t)\<rparr>
      = s\<lparr>locations := (locations s)[slot i := Some (Spill (SpillSlotId (spill_count s)))],
         active := active t, spill_count := Suc (spill_count s)\<rparr>"
      by (simp add: settle_def t_def retire_actives_def)
    with settle_spill_ok [OF t new(1)] new(2) show ?thesis by (simp add: fields)
  qed
  show ?thesis
  proof (cases "available_register (active t) i")
    case (Some p)
    from settle_register_ok [OF t new(1) _ available_register_SomeD [OF Some]] new(2) Some
    show ?thesis by (simp add: scan_step_def live settle_def) (simp add: t_def retire_actives_def)
  next
    case None
    show ?thesis
    proof (cases "max_victim i 0 (active t) None")
      case None
      with \<open>available_register (active t) i = None\<close> spilled show ?thesis
        by (simp add: scan_step_def live)
    next
      case (Some qv)
      then obtain q v where qv: "max_victim i 0 (active t) None = Some (q, v)" by (cases qv) auto
      show ?thesis
      proof (cases "interval_end i < interval_end (active_interval v)")
        case False
        with None qv spilled show ?thesis by (simp add: scan_step_def live)
      next
        case True
        from max_victim_SomeD [OF qv]
        have q: "q < length (active t)" "active t ! q = v" "eligible (physical v) i" by auto
        then have v: "v \<in> set (active t)" by auto
        define u where "u = (settle (active_interval v) (Spill (SpillSlotId (spill_count t))) t)
          \<lparr>active := filter (\<lambda>a. physical a \<noteq> physical v) (active t), spill_count := Suc (spill_count t)\<rparr>"
        have u: "scan_ok (interval_start i) D u" unfolding u_def using t v by (rule evict_ok)
        have "active_interval v \<in> D" "placed t (active_interval v) = Some (allocated_location (physical v))"
          using t v by (auto simp: scan_ok_def active_ok_def)
        then have "suits (physical v) i"
          using t q(3) by (auto simp: scan_ok_def placement_ok_def intro: eligible_suits)
        moreover have "physical v \<notin> physical ` set (active u)" by (auto simp: u_def)
        moreover have "slot i < length (locations u)" using new(2) by (simp add: u_def fields)
        ultimately have "scan_ok (interval_start i) (insert i D)
          ((settle i (allocated_location (physical v)) u)
            \<lparr>active := active u @ [\<lparr>active_interval = i, physical = physical v\<rparr>]\<rparr>)"
          (is "scan_ok _ _ ?w")
          using settle_register_ok [OF u new(1)] by blast
        moreover have "distinct (map physical (active t))"
          using t by (simp add: scan_ok_def active_ok_def)
        moreover from this have "map physical ((active t)[q := \<lparr>active_interval = i, physical = physical v\<rparr>])
            = map physical (active t)"
          using q(1,2) list_update_id [of "map physical (active t)" q] by (simp add: map_update)
        moreover have "set ((active t)[q := \<lparr>active_interval = i, physical = physical v\<rparr>])
            = set (active u @ [\<lparr>active_interval = i, physical = physical v\<rparr>])"
          using q(1,2) calculation(2) by (simp add: u_def set_update_remove_at remove_at_physical)
        ultimately have "scan_ok (interval_start i) (insert i D)
            (?w\<lparr>active := (active t)[q := \<lparr>active_interval = i, physical = physical v\<rparr>]\<rparr>)"
          by - (rule scan_ok_active_cong, simp_all)
        moreover have "scan_step i s
            = ?w\<lparr>active := (active t)[q := \<lparr>active_interval = i, physical = physical v\<rparr>]\<rparr>"
          using None qv True
          by (simp add: scan_step_def live) (simp add: u_def settle_def t_def retire_actives_def)
        ultimately show ?thesis by simp
      qed
    qed
  qed
qed

subsection \<open>The whole scan\<close>

lemma scan_step_length [simp]: "length (locations (scan_step i s)) = length (locations s)"
  by (auto simp: scan_step_def Let_def split: option.splits)

lemma fold_scan_length [simp]: "length (locations (fold scan_step is s)) = length (locations s)"
  by (induction "is" arbitrary: s) auto

lemma fold_scan_ok:
  assumes "scan_ok low D s" and "sorted (map interval_start is)" and "distinct (map slot is)"
    and "slot ` set is \<inter> slot ` D = {}" and "\<forall>i \<in> set is. low \<le> interval_start i"
    and "\<forall>i \<in> set is. slot i < length (locations s)"
  shows "\<exists>high. scan_ok high (D \<union> set is) (fold scan_step is s)"
  using assms
proof (induction "is" arbitrary: low D s)
  case (Cons i "is")
  have "scan_ok (interval_start i) (insert i D) (scan_step i s)"
    using Cons.prems by (intro scan_step_ok [of low]) auto
  then have "\<exists>high. scan_ok high (insert i D \<union> set is) (fold scan_step is (scan_step i s))"
    by (rule Cons.IH) (use Cons.prems in auto)
  then show ?case by simp
qed auto

definition survives_call ::
  "nat list \<Rightarrow> arm64_virtual_register list \<Rightarrow> nat \<Rightarrow> live_range \<Rightarrow> bool" where
  "survives_call call_set crossing k live \<longleftrightarrow>
     VirtualRegister k (range_class live) \<in> set crossing
     \<or> (\<exists>c \<in> set call_set. range_start live < c \<and> c < range_end live)"

definition interval_for ::
  "nat list \<Rightarrow> arm64_virtual_register list \<Rightarrow> nat \<Rightarrow> live_range \<Rightarrow> interval" where
  "interval_for call_set crossing k live =
     \<lparr>interval_register = VirtualRegister k (range_class live), interval_start = range_start live,
      interval_end = range_end live, crosses_call = survives_call call_set crossing k live\<rparr>"

definition bounds_panic :: "nat list \<Rightarrow> arm64_virtual_register list \<Rightarrow> nat \<Rightarrow> live_range \<Rightarrow> bool" where
  "bounds_panic call_set crossing k live \<longleftrightarrow>
     call_set \<noteq> [] \<and> range_start live = range_end live
     \<and> VirtualRegister k (range_class live) \<notin> set crossing"

lemma make_interval_eq:
  "make_interval call_set crossing k live =
     (if bounds_panic call_set crossing k live then Inl EqualExcludedBounds
      else Inr (interval_for call_set crossing k live))"
  by (auto simp: make_interval_def range_between_def bounds_panic_def interval_for_def Let_def
      survives_call_def filter_empty_conv)

lemma make_intervals_Inr:
  "make_intervals call_set crossing k lives = Inr out \<longleftrightarrow>
     (\<forall>j < length lives. \<not> bounds_panic call_set crossing (k + j) (lives ! j))
     \<and> out = map (\<lambda>j. interval_for call_set crossing (k + j) (lives ! j)) [0..<length lives]"
proof (induction lives arbitrary: k out)
  case (Cons live lives)
  have split: "[0..<Suc n] = 0 # map Suc [0..<n]" for n
    by (simp add: upt_conv_Cons map_Suc_upt)
  show ?case
    by (auto simp: Cons.IH make_interval_eq All_less_Suc2 split comp_def simp del: upt_Suc)
qed auto

lemma make_intervals_Inl:
  "make_intervals call_set crossing k lives = Inl e \<Longrightarrow>
     e = EqualExcludedBounds \<and> (\<exists>j < length lives. bounds_panic call_set crossing (k + j) (lives ! j))"
proof (induction lives arbitrary: k)
  case (Cons live lives)
  show ?case
  proof (cases "bounds_panic call_set crossing k live")
    case True
    with Cons.prems show ?thesis by (auto simp: make_interval_eq intro: exI [of _ 0])
  next
    case False
    with Cons.prems Cons.IH [of "Suc k"] show ?thesis
      by (auto simp: make_interval_eq and_then_Inl intro: exI [where x = "Suc j" for j])
  qed
qed simp

lemma expect_all_Inr: "None \<notin> set ls \<Longrightarrow> expect_all ls = Inr (map the ls)"
  by (induction ls rule: expect_all.induct) auto

text \<open>What the allocation of a set of live ranges is, once the intervals could be formed.\<close>

lemma allocate_scan:
  assumes "make_intervals call_set crossing 0 lives = Inr is"
  obtains s high where
    "scan_ok high (set is) s"
    "length (locations s) = length lives"
    "allocate lives call_set crossing =
      Inr \<lparr>alloc_locations = map the (locations s),
           preserved_registers = collect_registers (List.map_filter preserved_register (map the (locations s))),
           alloc_spill_count = spill_count s\<rparr>"
proof -
  define start where
    "start = \<lparr>locations = replicate (length is) None, active = [], spill_count = 0\<rparr>"
  define sorted_is where "sorted_is = sort_key (\<lambda>i. (interval_start i, interval_register i)) is"
  define s where "s = fold scan_step sorted_is start"
  have shape: "is = map (\<lambda>j. interval_for call_set crossing j (lives ! j)) [0..<length lives]"
    using assms by (simp add: make_intervals_Inr)
  have slots: "map slot is = [0..<length lives]"
    by (simp add: shape interval_for_def comp_def)
  have "sorted (map (\<lambda>i. (interval_start i, interval_register i)) sorted_is)"
    by (simp add: sorted_is_def)
  then have "sorted (map fst (map (\<lambda>i. (interval_start i, interval_register i)) sorted_is))"
    by (induction sorted_is) (auto simp: less_eq_prod_def)
  then have ordered: "sorted (map interval_start sorted_is)" by (simp add: comp_def)
  have "mset (map slot sorted_is) = mset (map slot is)" by (simp add: sorted_is_def)
  then have unique: "distinct (map slot sorted_is)"
    unfolding slots by (metis distinct_upt mset_eq_imp_distinct_iff)
  have sets: "set sorted_is = set is" by (simp add: sorted_is_def)
  have start: "scan_ok 0 {} start"
    by (simp add: scan_ok_def table_ok_def no_sharing_def active_ok_def start_def)
  have bound: "\<forall>i \<in> set is. slot i < length (locations start)"
    by (auto simp: start_def shape interval_for_def)
  obtain high where high: "scan_ok high (set is) s"
    using fold_scan_ok [OF start ordered unique] bound unfolding s_def sets by auto
  have len: "length (locations s) = length lives" by (simp add: s_def start_def shape)
  have "\<exists>i \<in> set is. slot i = k" if "k < length lives" for k
    using that by (auto simp: shape interval_for_def)
  then have "locations s ! k \<noteq> None" if "k < length (locations s)" for k
    using high that unfolding scan_ok_def table_ok_def placed_def len by metis
  then have "expect_all (locations s) = Inr (map the (locations s))"
    by (intro expect_all_Inr) (metis in_set_conv_nth)
  then have "allocate lives call_set crossing =
      Inr \<lparr>alloc_locations = map the (locations s),
           preserved_registers = collect_registers (List.map_filter preserved_register (map the (locations s))),
           alloc_spill_count = spill_count s\<rparr>"
    using assms by (simp add: allocate_def Let_def s_def sorted_is_def start_def)
  with high len show ?thesis by (rule that)
qed

section \<open>What an allocation promises\<close>

definition live_together :: "live_range \<Rightarrow> live_range \<Rightarrow> bool" where
  "live_together a b \<longleftrightarrow> range_start a \<le> range_end b \<and> range_start b \<le> range_end a"

text \<open>The location the ABI allows for a range.\<close>

fun location_allowed ::
  "arm64_register_class \<Rightarrow> bool \<Rightarrow> nat \<Rightarrow> arm64_allocated_location \<Rightarrow> bool" where
  "location_allowed c survives spills (GeneralRegister r) \<longleftrightarrow>
     c = General \<and> is_allocatable r \<and> valid_register r \<and> (survives \<longrightarrow> is_callee_saved r)"
| "location_allowed c survives spills (FloatRegister r) \<longleftrightarrow>
     c = Floating \<and> is_floating_allocatable r \<and> valid_float_register r \<and> \<not> survives"
| "location_allowed c survives spills (Spill (SpillSlotId k)) \<longleftrightarrow> k < spills"

lemma suits_allowed:
  "suits p i \<longleftrightarrow> location_allowed (bank (interval_register i)) (crosses_call i) n (allocated_location p)"
  by (cases p) (auto simp: suits_def)

lemma is_spill_iff: "is_spill l \<longleftrightarrow> (\<forall>p. l \<noteq> allocated_location p)"
  by (rule location_cases [of l]) auto

lemma allocate_Inr_scan:
  assumes "allocate lives call_set crossing = Inr a"
  obtains s high where
    "scan_ok high ((\<lambda>j. interval_for call_set crossing j (lives ! j)) ` {..<length lives}) s"
    "length (locations s) = length lives"
    "alloc_locations a = map the (locations s)"
    "alloc_spill_count a = spill_count s"
    "preserved_registers a = collect_registers (List.map_filter preserved_register (alloc_locations a))"
proof -
  obtain "is" where is_: "make_intervals call_set crossing 0 lives = Inr is"
    using assms by (auto simp: allocate_def)
  then have set_is: "set is = (\<lambda>j. interval_for call_set crossing j (lives ! j)) ` {..<length lives}"
    by (auto simp: make_intervals_Inr atLeast0LessThan)
  from allocate_scan [OF is_] obtain s high where
    "scan_ok high (set is) s" "length (locations s) = length lives"
    "allocate lives call_set crossing =
      Inr \<lparr>alloc_locations = map the (locations s),
           preserved_registers = collect_registers (List.map_filter preserved_register (map the (locations s))),
           alloc_spill_count = spill_count s\<rparr>" .
  with assms that show ?thesis unfolding set_is by auto
qed

lemma slot_interval_for [simp]: "slot (interval_for call_set crossing j live) = j"
  by (simp add: interval_for_def)

lemma placed_allocation:
  assumes "scan_ok high ((\<lambda>j. interval_for cs cr j (lives ! j)) ` {..<length lives}) s"
    and "length (locations s) = length lives" and "j < length lives"
  shows "placed s (interval_for cs cr j (lives ! j)) = Some (map the (locations s) ! j)"
  using assms by (force simp: scan_ok_def table_ok_def placed_def)

lemma allocation_no_sharing_aux:
  assumes "allocate lives cs cr = Inr a" and "j < length lives" and "k < length lives" and "j \<noteq> k"
    and "alloc_locations a ! j = alloc_locations a ! k"
  shows "\<not> live_together (lives ! j) (lives ! k) \<and> \<not> is_spill (alloc_locations a ! j)"
proof -
  let ?i = "\<lambda>j. interval_for cs cr j (lives ! j)"
  from allocate_Inr_scan [OF assms(1)] obtain s high where s:
    "scan_ok high (?i ` {..<length lives}) s" "length (locations s) = length lives"
    "alloc_locations a = map the (locations s)" by metis
  have at: "placed s (?i m) = Some (alloc_locations a ! m)" if "m < length lives" for m
    using placed_allocation [OF s(1,2) that] s(3) by simp
  have "?i j \<noteq> ?i k" using assms(4) by (metis slot_interval_for)
  then have "\<not> overlap (?i j) (?i k) \<and> (\<exists>p. placed s (?i j) = Some (allocated_location p))"
    using s(1) assms(2,3,5) at by (auto simp: scan_ok_def no_sharing_def)
  then show ?thesis
    using at [OF assms(2)] by (auto simp: overlap_def live_together_def interval_for_def)
qed

lemma allocation_allowed_aux:
  assumes "allocate lives cs cr = Inr a" and "j < length lives"
  shows "location_allowed (range_class (lives ! j)) (survives_call cs cr j (lives ! j))
    (alloc_spill_count a) (alloc_locations a ! j)"
proof -
  let ?i = "interval_for cs cr j (lives ! j)"
  from allocate_Inr_scan [OF assms(1)] obtain s high where s:
    "scan_ok high ((\<lambda>j. interval_for cs cr j (lives ! j)) ` {..<length lives}) s"
    "length (locations s) = length lives" "alloc_locations a = map the (locations s)"
    "alloc_spill_count a = spill_count s" by metis
  have at: "placed s ?i = Some (alloc_locations a ! j)"
    using placed_allocation [OF s(1,2) assms(2)] s(3) by simp
  have ok: "placement_ok s ?i" using s(1) assms(2) by (auto simp: scan_ok_def)
  have fields: "bank (interval_register ?i) = range_class (lives ! j)"
    "crosses_call ?i = survives_call cs cr j (lives ! j)" by (simp_all add: interval_for_def)
  show ?thesis
  proof (rule location_cases [of "alloc_locations a ! j"])
    fix p assume "alloc_locations a ! j = allocated_location p"
    with ok at suits_allowed [of p ?i "alloc_spill_count a"] fields
    show ?thesis by (simp add: placement_ok_def)
  next
    fix k assume "alloc_locations a ! j = Spill (SpillSlotId k)"
    with ok at s(4) show ?thesis by (simp add: placement_ok_def)
  qed
qed

lemma preserved_aux:
  assumes "allocate lives cs cr = Inr a"
  shows "set (preserved_registers a) = {r. GeneralRegister r \<in> set (alloc_locations a) \<and> is_callee_saved r}"
    and "sorted_wrt (\<lambda>x y. number x < number y) (preserved_registers a)"
proof -
  have pres: "preserved_registers a = collect_registers (List.map_filter preserved_register (alloc_locations a))"
    using allocate_Inr_scan [OF assms] by metis
  have "preserved_register l = Some r \<longleftrightarrow> l = GeneralRegister r \<and> is_callee_saved r" for l r
    by (cases l) auto
  then show "set (preserved_registers a) =
      {r. GeneralRegister r \<in> set (alloc_locations a) \<and> is_callee_saved r}"
    by (auto simp: pres collect_registers_def in_set_map_filter)
  have inj: "inj number" by (auto intro: injI arm64_register.expand)
  let ?rs = "sort_key number (remdups (List.map_filter preserved_register (alloc_locations a)))"
  have "sorted (map number ?rs)" by simp
  moreover have "distinct (map number ?rs)"
    using inj by (simp add: distinct_map inj_on_def)
  ultimately have "sorted_wrt (<) (map number ?rs)" by (simp add: strict_sorted_iff)
  then show "sorted_wrt (\<lambda>x y. number x < number y) (preserved_registers a)"
    by (simp add: pres collect_registers_def sorted_wrt_map)
qed

lemma allocate_outcome:
  "(\<exists>a. allocate lives cs cr = Inr a \<and> length (alloc_locations a) = length lives)
     \<and> (\<forall>j < length lives. \<not> bounds_panic cs cr j (lives ! j))
   \<or> allocate lives cs cr = Inl EqualExcludedBounds
     \<and> (\<exists>j < length lives. bounds_panic cs cr j (lives ! j))"
proof (cases "make_intervals cs cr 0 lives")
  case (Inl e)
  with make_intervals_Inl [OF Inl] show ?thesis by (auto simp: allocate_def)
next
  case (Inr "is")
  then have "\<forall>j < length lives. \<not> bounds_panic cs cr j (lives ! j)"
    by (simp add: make_intervals_Inr)
  moreover from allocate_scan [OF Inr]
  obtain a where "allocate lives cs cr = Inr a" "length (alloc_locations a) = length lives"
    by (metis length_map register_allocation.select_convs(1))
  ultimately show ?thesis by blast
qed

section \<open>The builder\<close>

text \<open>
  The calls a selector may make on the builder. Handles come from \<open>define_register\<close>, but the fallible
  operations are given any register: they reject the ones the builder does not know.
\<close>

inductive builder_step :: "allocation_builder \<Rightarrow> allocation_builder \<Rightarrow> bool" where
  step_define: "define_register at c b = (r, b') \<Longrightarrow> builder_step b b'"
| step_use: "use_at r at b = (res, b') \<Longrightarrow> builder_step b b'"
| step_call: "builder_step b (record_call at b)"
| step_crossing: "mark_call_crossing r b = (res, b') \<Longrightarrow> builder_step b b'"

definition known_register :: "allocation_builder \<Rightarrow> arm64_virtual_register \<Rightarrow> bool" where
  "known_register b r \<longleftrightarrow>
     index r < length (ranges b) \<and> range_class (ranges b ! index r) = bank r"

definition builder_inv :: "allocation_builder \<Rightarrow> bool" where
  "builder_inv b \<longleftrightarrow>
     (\<forall>live \<in> set (ranges b). range_start live \<le> range_end live)
     \<and> (\<forall>r \<in> set (call_crossing b). known_register b r)
     \<and> sorted (calls b) \<and> distinct (calls b)"

inductive_cases builder_stepE: "builder_step b b'"

lemma builder_inv_define [inv_intros]:
  "builder_inv b \<Longrightarrow> builder_inv (snd (define_register at c b))"
  by (auto simp: builder_inv_def define_register_def known_register_def nth_append)

lemma builder_inv_use [inv_intros]: "builder_inv b \<Longrightarrow> builder_inv (snd (use_at r at b))"
proof -
  assume inv: "builder_inv b"
  show ?thesis
  proof (cases "list_get (ranges b) (index r)")
    case (Some live)
    then have live: "index r < length (ranges b)" "ranges b ! index r = live" by auto
    then have "live \<in> set (ranges b)" by auto
    with inv have le: "range_start live \<le> range_end live" by (simp add: builder_inv_def)
    let ?b = "b\<lparr>ranges := (ranges b)[index r := live\<lparr>range_end := max (range_end live) at\<rparr>]\<rparr>"
    have "builder_inv ?b"
      using inv le live by (auto simp: builder_inv_def known_register_def nth_list_update
          dest!: set_update_subset_insert [THEN subsetD])
    with inv Some show ?thesis by (simp add: use_at_def del: list_get_Some_iff)
  qed (use inv in \<open>simp add: use_at_def del: list_get_None_iff\<close>)
qed

lemma builder_inv_call [inv_intros]: "builder_inv b \<Longrightarrow> builder_inv (record_call at b)"
  by (auto simp: builder_inv_def record_call_def known_register_def btree_insert_def
      sorted_insort distinct_insort)

lemma builder_inv_crossing [inv_intros]: "builder_inv b \<Longrightarrow> builder_inv (snd (mark_call_crossing r b))"
  by (auto simp: builder_inv_def mark_call_crossing_def known_register_def split: option.splits)

interpretation builder: transition_system "\<lambda>b. b = builder_new" builder_step builder_inv
proof
  show "b = builder_new \<Longrightarrow> builder_inv b" for b by (simp add: builder_inv_def builder_new_def)
  show "builder_inv b \<Longrightarrow> builder_step b b' \<Longrightarrow> builder_inv b'" for b b'
    by (elim builder_stepE) (metis inv_intros snd_conv)+
qed

section \<open>Properties\<close>

text \<open>
  C3: in an allocation, two virtual registers never share a location while both are live (their
  ranges meet, end points included), and no two virtual registers ever share a spill slot.
\<close>

theorem allocation_no_sharing:
  assumes "allocate lives cs cr = Inr a" and "j < length lives" and "k < length lives" and "j \<noteq> k"
    and "alloc_locations a ! j = alloc_locations a ! k"
  shows "\<not> live_together (lives ! j) (lives ! k) \<and> \<not> is_spill (alloc_locations a ! j)"
  using assms by (rule allocation_no_sharing_aux)

abbreviation general_range :: "nat \<Rightarrow> nat \<Rightarrow> live_range" where
  "general_range s e \<equiv> \<lparr>range_start = s, range_end = e, range_class = General\<rparr>"

lemma example_reuse:
  "allocate [general_range 0 1, general_range 2 5, general_range 0 4] [3] [] =
     Inr \<lparr>alloc_locations = [GeneralRegister (Arm64Register 11), GeneralRegister (Arm64Register 20),
            GeneralRegister (Arm64Register 19)],
          preserved_registers = [Arm64Register 19, Arm64Register 20], alloc_spill_count = 0\<rparr>"
  by code_simp

lemma example_shared:
  "allocate [general_range 0 1, general_range 2 5] [] [] =
     Inr \<lparr>alloc_locations = [GeneralRegister (Arm64Register 11), GeneralRegister (Arm64Register 11)],
          preserved_registers = [], alloc_spill_count = 0\<rparr>"
  by code_simp

theorem allocation_no_sharing_witness:
  "\<not> live_together (general_range 0 1) (general_range 2 5) \<and> \<not> is_spill (GeneralRegister (Arm64Register 11))"
  using allocation_no_sharing [OF example_shared, of 0 1] by simp

text \<open>
  C21: an allocation gives every virtual register a location of its own bank that the ABI leaves to
  the allocator, and a register that is live across a call is placed in a callee-saved register or
  in a spill slot; spill slots are numbered below the reported count.
\<close>

theorem allocation_respects_abi:
  assumes "allocate lives cs cr = Inr a" and "j < length lives"
  shows "length (alloc_locations a) = length lives
    \<and> location_allowed (range_class (lives ! j)) (survives_call cs cr j (lives ! j))
        (alloc_spill_count a) (alloc_locations a ! j)"
  using allocation_allowed_aux [OF assms] allocate_outcome [of lives cs cr] assms(1) by auto

theorem allocation_respects_abi_witness:
  "location_allowed General True 0 (GeneralRegister (Arm64Register 20))"
  using allocation_respects_abi [OF example_reuse, of 1]
  by (simp add: survives_call_def)

text \<open>
  The preserved registers of an allocation are exactly the callee-saved registers it uses, each
  once and in ascending order.
\<close>

theorem preserved_registers_exact:
  assumes "allocate lives cs cr = Inr a"
  shows "set (preserved_registers a) = {r. GeneralRegister r \<in> set (alloc_locations a) \<and> is_callee_saved r}
    \<and> sorted_wrt (\<lambda>x y. number x < number y) (preserved_registers a)"
  using preserved_aux [OF assms] by blast

theorem preserved_registers_exact_witness:
  "is_callee_saved (Arm64Register 19) \<and> is_callee_saved (Arm64Register 20)
     \<and> \<not> is_callee_saved (Arm64Register 11)"
proof -
  have "r \<in> {Arm64Register 19, Arm64Register 20} \<longleftrightarrow>
      r \<in> {Arm64Register 11, Arm64Register 20, Arm64Register 19} \<and> is_callee_saved r" for r
    using preserved_registers_exact [OF example_reuse] by auto
  from this [of "Arm64Register 19"] this [of "Arm64Register 20"] this [of "Arm64Register 11"]
  show ?thesis by simp
qed


text \<open>
  A builder that was only given definitions, uses and call-crossing marks, as the selector
  does, always yields an allocation; and the ranges of any reachable builder end no earlier than
  they start.
\<close>

theorem reachable_builder_allocates:
  assumes "reachable_from (\<lambda>b. b = builder_new) builder_step b"
  shows "builder_inv b \<and> (calls b = [] \<longrightarrow> (\<exists>a. finish b = Inr a))"
  using builder.reachable_inv [OF assms] allocate_outcome [of "ranges b" "calls b" "call_crossing b"]
  by (auto simp: finish_def bounds_panic_def)

theorem reachable_builder_allocates_witness:
  "\<exists>a. finish (snd (define_register 4 Floating builder_new)) = Inr a"
proof -
  have "reachable_from (\<lambda>b. b = builder_new) builder_step builder_new"
    by (rule reachable_start) simp
  moreover have "builder_step builder_new (snd (define_register 4 Floating builder_new))"
    by (rule step_define) (rule surjective_pairing)
  ultimately have "reachable_from (\<lambda>b. b = builder_new) builder_step
      (snd (define_register 4 Floating builder_new))"
    by (rule reachable_step)
  from reachable_builder_allocates [OF this] show ?thesis
    by (simp add: define_register_def builder_new_def)
qed

end
