(* ===== verification/Arm64_Encode.thy ===== *)
theory Arm64_Encode
  imports Arm64_Register "HOL-Library.Signed_Division"
begin

text \<open>
  The instruction subset of the ARM64 backend and its encoder
  (\<^verbatim>\<open>nocter-arm64/src/instruction.rs\<close>, \<^verbatim>\<open>nocter-arm64/src/encode.rs\<close>,
  \<^verbatim>\<open>nocter-arm64/src/floating_encoding.rs\<close>). Every helper of the sources is a definition of its
  own; an \<open>unreachable!\<close> arm is the result \<open>Unreachable\<close>, which \<open>encode\<close> is shown never to return.
\<close>

section \<open>Instructions\<close>

text \<open>An \<open>i64\<close> displacement is kept as the integer it denotes.\<close>

type_synonym i64 = int

datatype arm64_data_size = Bits32 | Bits64

datatype arm64_load_store_size = Byte | Half | Word | Double

datatype arm64_add_subtract = AddOp | SubtractOp

datatype arm64_logical = LogicalAnd | LogicalOr | LogicalExclusiveOr | LogicalAndSetFlags

datatype arm64_move_wide = MoveZero | MoveKeep

datatype arm64_shift = ShiftLeft | ShiftRightLogical | ShiftRightArithmetic | ShiftRotateRight

datatype arm64_float_binary = FloatAdd | FloatSubtract | FloatMultiply | FloatDivide

datatype arm64_float_rounding = Floor | Ceil | Truncate | TiesEven

datatype arm64_branch_condition =
    Equal | NotEqual | CarrySet | CarryClear | Minus | Plus | Overflow | NoOverflow
  | UnsignedHigher | UnsignedLowerOrSame | SignedGreaterOrEqual | SignedLess | SignedGreater
  | SignedLessOrEqual

datatype arm64_system_register = CounterFrequency | CounterVirtual

fun invert :: "arm64_branch_condition \<Rightarrow> arm64_branch_condition" where
  "invert Equal = NotEqual"
| "invert NotEqual = Equal"
| "invert CarrySet = CarryClear"
| "invert CarryClear = CarrySet"
| "invert Minus = Plus"
| "invert Plus = Minus"
| "invert Overflow = NoOverflow"
| "invert NoOverflow = Overflow"
| "invert UnsignedHigher = UnsignedLowerOrSame"
| "invert UnsignedLowerOrSame = UnsignedHigher"
| "invert SignedGreaterOrEqual = SignedLess"
| "invert SignedLess = SignedGreaterOrEqual"
| "invert SignedGreater = SignedLessOrEqual"
| "invert SignedLessOrEqual = SignedGreater"

fun condition_encoding :: "arm64_branch_condition \<Rightarrow> u8" where
  "condition_encoding Equal = 0"
| "condition_encoding NotEqual = 1"
| "condition_encoding CarrySet = 2"
| "condition_encoding CarryClear = 3"
| "condition_encoding Minus = 4"
| "condition_encoding Plus = 5"
| "condition_encoding Overflow = 6"
| "condition_encoding NoOverflow = 7"
| "condition_encoding UnsignedHigher = 8"
| "condition_encoding UnsignedLowerOrSame = 9"
| "condition_encoding SignedGreaterOrEqual = 10"
| "condition_encoding SignedLess = 11"
| "condition_encoding SignedGreater = 12"
| "condition_encoding SignedLessOrEqual = 13"

text \<open>The fields of each constructor come in the order of the source's struct variants.\<close>

datatype (plugins only: code size) arm64_instruction =
    NoOperation
  | ClearExclusive
  | InstructionSynchronizationBarrier
  | AddressPage arm64_register i64
  | AddSubtractImmediate arm64_data_size arm64_add_subtract bool arm64_add_subtract_destination
      arm64_base_register u16 bool
  | AddSubtractRegister arm64_data_size arm64_add_subtract bool arm64_data_register
      arm64_data_register arm64_data_register
  | AddSubtractExtendedRegister arm64_add_subtract bool arm64_add_subtract_destination
      arm64_base_register arm64_register u8
  | LogicalRegister arm64_data_size arm64_logical arm64_data_register arm64_data_register
      arm64_data_register
  | MoveWide arm64_data_size arm64_move_wide arm64_register u16 u8
  | MultiplyAdd arm64_data_size arm64_register arm64_register arm64_register arm64_data_register bool
  | MultiplyHigh bool arm64_register arm64_register arm64_register
  | MultiplyLong bool arm64_register arm64_register arm64_register
  | Divide arm64_data_size arm64_register arm64_register arm64_register bool
  | VariableShift arm64_data_size arm64_shift arm64_register arm64_register arm64_register
  | CountLeadingZeros arm64_register arm64_register
  | BitfieldExtend arm64_data_size bool u8 arm64_register arm64_register
  | LoadUnsigned arm64_load_store_size arm64_data_register arm64_base_register u32
  | LoadSigned arm64_load_store_size arm64_data_size arm64_data_register arm64_base_register u32
  | StoreUnsigned arm64_load_store_size arm64_data_register arm64_base_register u32
  | LoadAcquire arm64_data_size arm64_data_register arm64_base_register
  | StoreRelease arm64_data_size arm64_data_register arm64_base_register
  | LoadAcquireExclusive arm64_data_size arm64_data_register arm64_base_register
  | StoreReleaseExclusive arm64_data_size arm64_register arm64_data_register arm64_base_register
  | FloatLoad arm64_data_size arm64_float_register arm64_base_register u32
  | FloatStore arm64_data_size arm64_float_register arm64_base_register u32
  | FloatMove arm64_data_size arm64_float_register arm64_float_register
  | FloatMoveFromGeneral arm64_data_size arm64_float_register arm64_register
  | FloatMoveToGeneral arm64_data_size arm64_register arm64_float_register
  | FloatFromInteger arm64_data_size arm64_data_size bool arm64_float_register arm64_register
  | FloatWiden arm64_float_register arm64_float_register
  | FloatNarrow arm64_float_register arm64_float_register
  | FloatToInteger bool arm64_register arm64_float_register
  | FloatNegate arm64_data_size arm64_float_register arm64_float_register
  | FloatRound arm64_data_size arm64_float_rounding arm64_float_register arm64_float_register
  | FloatBinary arm64_data_size arm64_float_binary arm64_float_register arm64_float_register
      arm64_float_register
  | FloatCompare arm64_data_size arm64_float_register arm64_float_register
  | ConditionalSet arm64_data_size arm64_register arm64_branch_condition
  | Branch i64 bool
  | BranchConditional i64 arm64_branch_condition
  | BranchRegister arm64_register bool
  | Return arm64_register
  | Break u16
  | SupervisorCall u16
  | ReadSystemRegister arm64_register arm64_system_register

datatype arm64_encoding_error =
    InvalidRegisterRole
  | ImmediateOutOfRange
  | InvalidShift
  | InvalidLoadExtension
  | OffsetOutOfRange
  | MisalignedBranch
  | BranchOutOfRange
  | MisalignedPageAddress
  | PageAddressOutOfRange
  | Unreachable

section \<open>Field helpers\<close>

abbreviation at_bit :: "u32 \<Rightarrow> nat \<Rightarrow> u32" where
  "at_bit value n \<equiv> push_bit n value"

definition reg_field :: "arm64_register \<Rightarrow> u32" where
  "reg_field r = ucast (number r)"

definition float_field :: "arm64_float_register \<Rightarrow> u32" where
  "float_field r = ucast (float_number r)"

fun size_bit :: "arm64_data_size \<Rightarrow> u32" where
  "size_bit Bits32 = 0"
| "size_bit Bits64 = 0x80000000"

fun size_base :: "arm64_data_size \<Rightarrow> u32 \<Rightarrow> u32 \<Rightarrow> u32" where
  "size_base Bits32 single double = single"
| "size_base Bits64 single double = double"

definition add_subtract_bits :: "arm64_add_subtract \<Rightarrow> bool \<Rightarrow> u32" where
  "add_subtract_bits operation set_flags =
     (case operation of AddOp \<Rightarrow> 0 | SubtractOp \<Rightarrow> 0x40000000)
     OR (if set_flags then 0x20000000 else 0)"

fun logical_bits :: "arm64_logical \<Rightarrow> u32" where
  "logical_bits LogicalAnd = 0"
| "logical_bits LogicalOr = 0x20000000"
| "logical_bits LogicalExclusiveOr = 0x40000000"
| "logical_bits LogicalAndSetFlags = 0x60000000"

fun variable_shift_bits :: "arm64_shift \<Rightarrow> u32" where
  "variable_shift_bits ShiftLeft = 0x1ac02000"
| "variable_shift_bits ShiftRightLogical = 0x1ac02400"
| "variable_shift_bits ShiftRightArithmetic = 0x1ac02800"
| "variable_shift_bits ShiftRotateRight = 0x1ac02c00"

definition validate_add_subtract_destination ::
  "arm64_add_subtract_destination \<Rightarrow> bool \<Rightarrow> arm64_encoding_error + unit" where
  "validate_add_subtract_destination destination set_flags =
     (case (destination, set_flags) of
        (DestinationStackPointer, True) \<Rightarrow> Inl InvalidRegisterRole
      | (DestinationZero, False) \<Rightarrow> Inl InvalidRegisterRole
      | (DestinationGeneral _, _) \<Rightarrow> Inr ()
      | (DestinationStackPointer, False) \<Rightarrow> Inr ()
      | (DestinationZero, True) \<Rightarrow> Inr ())"

definition move_wide_halfword :: "arm64_data_size \<Rightarrow> u8 \<Rightarrow> arm64_encoding_error + u8" where
  "move_wide_halfword sz shift =
     (if shift mod 16 \<noteq> 0 then Inl InvalidShift
      else let halfword = shift div 16 in
        case sz of
          Bits32 \<Rightarrow> if halfword < 2 then Inr halfword else Inl InvalidShift
        | Bits64 \<Rightarrow> if halfword < 4 then Inr halfword else Inl InvalidShift)"

text \<open>
  \<open>signed_scaled_by\<close>: a is_signed displacement in units of \<open>2 ^ scale\<close> as a two's complement field of
  the given number of bits. No step leaves the \<open>i64\<close> range for the scales and widths in use.
\<close>

definition signed_scaled_by ::
  "i64 \<Rightarrow> nat \<Rightarrow> nat \<Rightarrow> arm64_encoding_error \<Rightarrow> arm64_encoding_error \<Rightarrow> arm64_encoding_error + u32" where
  "signed_scaled_by displacement scale bits misaligned out_of_range =
     (let unit = 2 ^ scale in
      if displacement smod unit \<noteq> 0 then Inl misaligned
      else let units = displacement sdiv unit;
               minimum = - (2 ^ (bits - 1));
               maximum = 2 ^ (bits - 1) - 1 in
        if units < minimum \<or> units > maximum then Inl out_of_range
        else let encoded = (if units < 0 then 2 ^ bits + units else units) in
          if 0 \<le> encoded \<and> encoded < 2 ^ 32 then Inr (word_of_int encoded) else Inl out_of_range)"

definition signed_scaled :: "i64 \<Rightarrow> nat \<Rightarrow> arm64_encoding_error + u32" where
  "signed_scaled displacement bits =
     signed_scaled_by displacement 2 bits MisalignedBranch BranchOutOfRange"

section \<open>Integer arithmetic\<close>

definition encode_add_subtract_immediate ::
  "arm64_data_size \<Rightarrow> arm64_add_subtract \<Rightarrow> bool \<Rightarrow> arm64_add_subtract_destination \<Rightarrow> u32 \<Rightarrow> u16
     \<Rightarrow> bool \<Rightarrow> arm64_encoding_error + u32" where
  "encode_add_subtract_immediate sz operation set_flags destination source immediate shift_12 =
     and_then (validate_add_subtract_destination destination set_flags) (\<lambda>_.
       if 0xfff < immediate then Inl ImmediateOutOfRange
       else Inr (size_bit sz OR add_subtract_bits operation set_flags OR 0x11000000
         OR at_bit (if shift_12 then 1 else 0) 22 OR at_bit (ucast immediate) 10
         OR at_bit source 5 OR destination_encoding destination))"

definition encode_add_subtract_register ::
  "arm64_data_size \<Rightarrow> arm64_add_subtract \<Rightarrow> bool \<Rightarrow> u32 \<Rightarrow> u32 \<Rightarrow> u32 \<Rightarrow> u32" where
  "encode_add_subtract_register sz operation set_flags destination left right =
     size_bit sz OR add_subtract_bits operation set_flags OR 0x0b000000 OR at_bit right 16
     OR at_bit left 5 OR destination"

definition encode_add_subtract_extended ::
  "arm64_add_subtract \<Rightarrow> bool \<Rightarrow> arm64_add_subtract_destination \<Rightarrow> arm64_base_register
     \<Rightarrow> arm64_register \<Rightarrow> u8 \<Rightarrow> arm64_encoding_error + u32" where
  "encode_add_subtract_extended operation set_flags destination left right shift =
     and_then (validate_add_subtract_destination destination set_flags) (\<lambda>_.
       if 4 < shift then Inl InvalidShift
       else Inr (0x80000000 OR add_subtract_bits operation set_flags OR 0x0b200000
         OR at_bit (reg_field right) 16 OR at_bit 3 13 OR at_bit (ucast shift) 10
         OR at_bit (base_encoding left) 5 OR destination_encoding destination))"

definition encode_logical_register ::
  "arm64_data_size \<Rightarrow> arm64_logical \<Rightarrow> u32 \<Rightarrow> u32 \<Rightarrow> u32 \<Rightarrow> u32" where
  "encode_logical_register sz operation destination left right =
     size_bit sz OR logical_bits operation OR 0x0a000000 OR at_bit right 16 OR at_bit left 5
     OR destination"

definition encode_move_wide ::
  "arm64_data_size \<Rightarrow> arm64_move_wide \<Rightarrow> arm64_register \<Rightarrow> u16 \<Rightarrow> u8 \<Rightarrow> arm64_encoding_error + u32" where
  "encode_move_wide sz operation destination immediate shift =
     and_then (move_wide_halfword sz shift) (\<lambda>halfword.
       Inr (size_bit sz OR (case operation of MoveZero \<Rightarrow> 0x52800000 | MoveKeep \<Rightarrow> 0x72800000)
         OR at_bit (ucast halfword) 21 OR at_bit (ucast immediate) 5 OR reg_field destination))"

definition encode_multiply_add ::
  "arm64_data_size \<Rightarrow> arm64_register \<Rightarrow> arm64_register \<Rightarrow> arm64_register \<Rightarrow> u32 \<Rightarrow> bool \<Rightarrow> u32" where
  "encode_multiply_add sz destination left right addend subtract_product =
     size_bit sz OR 0x1b000000 OR at_bit (reg_field right) 16
     OR at_bit (if subtract_product then 1 else 0) 15 OR at_bit addend 10
     OR at_bit (reg_field left) 5 OR reg_field destination"

definition encode_multiply_high ::
  "bool \<Rightarrow> arm64_register \<Rightarrow> arm64_register \<Rightarrow> arm64_register \<Rightarrow> u32" where
  "encode_multiply_high is_signed destination left right =
     (if is_signed then 0x9b407c00 else 0x9bc07c00) OR at_bit (reg_field right) 16
     OR at_bit (reg_field left) 5 OR reg_field destination"

definition encode_multiply_long ::
  "bool \<Rightarrow> arm64_register \<Rightarrow> arm64_register \<Rightarrow> arm64_register \<Rightarrow> u32" where
  "encode_multiply_long is_signed destination left right =
     (if is_signed then 0x9b207c00 else 0x9ba07c00) OR at_bit (reg_field right) 16
     OR at_bit (reg_field left) 5 OR reg_field destination"

definition encode_divide ::
  "arm64_data_size \<Rightarrow> arm64_register \<Rightarrow> arm64_register \<Rightarrow> arm64_register \<Rightarrow> bool \<Rightarrow> u32" where
  "encode_divide sz destination left right is_signed =
     size_bit sz OR (if is_signed then 0x1ac00c00 else 0x1ac00800) OR at_bit (reg_field right) 16
     OR at_bit (reg_field left) 5 OR reg_field destination"

definition encode_variable_shift ::
  "arm64_data_size \<Rightarrow> arm64_shift \<Rightarrow> arm64_register \<Rightarrow> arm64_register \<Rightarrow> arm64_register \<Rightarrow> u32" where
  "encode_variable_shift sz operation destination value amount =
     size_bit sz OR variable_shift_bits operation OR at_bit (reg_field amount) 16
     OR at_bit (reg_field value) 5 OR reg_field destination"

definition encode_count_leading_zeros :: "arm64_register \<Rightarrow> arm64_register \<Rightarrow> u32" where
  "encode_count_leading_zeros destination source =
     0xdac01000 OR at_bit (reg_field source) 5 OR reg_field destination"

definition encode_bitfield_extend ::
  "arm64_data_size \<Rightarrow> bool \<Rightarrow> u8 \<Rightarrow> arm64_register \<Rightarrow> arm64_register \<Rightarrow> arm64_encoding_error + u32" where
  "encode_bitfield_extend sz is_signed source_bits destination source =
     (let register_bits = (case sz of Bits32 \<Rightarrow> 32 | Bits64 \<Rightarrow> 64) in
      if source_bits = 0 \<or> register_bits < source_bits then Inl InvalidShift
      else Inr ((case (sz, is_signed) of
                   (Bits32, True) \<Rightarrow> 0x13000000
                 | (Bits32, False) \<Rightarrow> 0x53000000
                 | (Bits64, True) \<Rightarrow> 0x93400000
                 | (Bits64, False) \<Rightarrow> 0xd3400000)
        OR at_bit (ucast (source_bits - 1)) 10 OR at_bit (reg_field source) 5 OR reg_field destination))"

section \<open>Floating-point encodings\<close>

definition float_from_integer ::
  "arm64_data_size \<Rightarrow> arm64_data_size \<Rightarrow> bool \<Rightarrow> arm64_float_register \<Rightarrow> arm64_register \<Rightarrow> u32" where
  "float_from_integer source_sz target_sz is_signed destination source =
     (case (source_sz, target_sz, is_signed) of
        (Bits32, Bits32, True) \<Rightarrow> 0x1e220000
      | (Bits32, Bits32, False) \<Rightarrow> 0x1e230000
      | (Bits32, Bits64, True) \<Rightarrow> 0x1e620000
      | (Bits32, Bits64, False) \<Rightarrow> 0x1e630000
      | (Bits64, Bits32, True) \<Rightarrow> 0x9e220000
      | (Bits64, Bits32, False) \<Rightarrow> 0x9e230000
      | (Bits64, Bits64, True) \<Rightarrow> 0x9e620000
      | (Bits64, Bits64, False) \<Rightarrow> 0x9e630000)
     OR at_bit (reg_field source) 5 OR float_field destination"

definition float_rounding ::
  "arm64_data_size \<Rightarrow> arm64_float_rounding \<Rightarrow> arm64_float_register \<Rightarrow> arm64_float_register \<Rightarrow> u32" where
  "float_rounding sz operation destination source =
     (case operation of
        Floor \<Rightarrow> size_base sz 0x1e254000 0x1e654000
      | Ceil \<Rightarrow> size_base sz 0x1e24c000 0x1e64c000
      | Truncate \<Rightarrow> size_base sz 0x1e25c000 0x1e65c000
      | TiesEven \<Rightarrow> size_base sz 0x1e244000 0x1e644000)
     OR at_bit (float_field source) 5 OR float_field destination"

definition float_arithmetic :: "arm64_instruction \<Rightarrow> arm64_encoding_error + u32" where
  "float_arithmetic instruction =
     (case instruction of
        FloatMove sz destination source \<Rightarrow>
          Inr (size_base sz 0x1e204000 0x1e604000 OR at_bit (float_field source) 5
            OR float_field destination)
      | FloatMoveFromGeneral sz destination source \<Rightarrow>
          Inr (size_base sz 0x1e270000 0x9e670000 OR at_bit (reg_field source) 5
            OR float_field destination)
      | FloatMoveToGeneral sz destination source \<Rightarrow>
          Inr (size_base sz 0x1e260000 0x9e660000 OR at_bit (float_field source) 5
            OR reg_field destination)
      | FloatFromInteger source_sz target_sz is_signed destination source \<Rightarrow>
          Inr (float_from_integer source_sz target_sz is_signed destination source)
      | FloatWiden destination source \<Rightarrow>
          Inr (0x1e22c000 OR at_bit (float_field source) 5 OR float_field destination)
      | FloatNarrow destination source \<Rightarrow>
          Inr (0x1e624000 OR at_bit (float_field source) 5 OR float_field destination)
      | FloatToInteger is_signed destination source \<Rightarrow>
          Inr ((if is_signed then 0x9e780000 else 0x9e790000) OR at_bit (float_field source) 5
            OR reg_field destination)
      | FloatNegate sz destination source \<Rightarrow>
          Inr (size_base sz 0x1e214000 0x1e614000 OR at_bit (float_field source) 5
            OR float_field destination)
      | FloatRound sz operation destination source \<Rightarrow>
          Inr (float_rounding sz operation destination source)
      | FloatBinary sz operation destination left right \<Rightarrow>
          Inr ((case operation of
                  FloatAdd \<Rightarrow> size_base sz 0x1e202800 0x1e602800
                | FloatSubtract \<Rightarrow> size_base sz 0x1e203800 0x1e603800
                | FloatMultiply \<Rightarrow> size_base sz 0x1e200800 0x1e600800
                | FloatDivide \<Rightarrow> size_base sz 0x1e201800 0x1e601800)
            OR at_bit (float_field right) 16 OR at_bit (float_field left) 5 OR float_field destination)
      | FloatCompare sz left right \<Rightarrow>
          Inr (size_base sz 0x1e202000 0x1e602000 OR at_bit (float_field right) 16
            OR at_bit (float_field left) 5)
      | _ \<Rightarrow> Inl Unreachable)"

definition float_memory :: "arm64_instruction \<Rightarrow> arm64_encoding_error + u32" where
  "float_memory instruction =
     and_then
       (case instruction of
          FloatLoad sz destination base offset \<Rightarrow>
            Inr (sz, True, float_field destination, base_encoding base, offset)
        | FloatStore sz source base offset \<Rightarrow>
            Inr (sz, False, float_field source, base_encoding base, offset)
        | _ \<Rightarrow> Inl Unreachable)
       (\<lambda>(sz, load, data, base, offset).
          let (bytes, base_word) =
            (case (sz, load) of
               (Bits32, False) \<Rightarrow> (4, 0xbd000000)
             | (Bits32, True) \<Rightarrow> (4, 0xbd400000)
             | (Bits64, False) \<Rightarrow> (8, 0xfd000000)
             | (Bits64, True) \<Rightarrow> (8, 0xfd400000)) in
          if offset mod bytes \<noteq> 0 \<or> 0xfff < offset div bytes then Inl OffsetOutOfRange
          else Inr (base_word OR at_bit (offset div bytes) 10 OR at_bit base 5 OR data))"

section \<open>Memory\<close>

definition encode_load_store ::
  "arm64_load_store_size \<Rightarrow> bool \<Rightarrow> u32 \<Rightarrow> u32 \<Rightarrow> u32 \<Rightarrow> arm64_encoding_error + u32" where
  "encode_load_store sz load data base offset =
     (let (bytes, instruction) =
        (case (sz, load) of
           (Byte, False) \<Rightarrow> (1, 0x39000000)
         | (Byte, True) \<Rightarrow> (1, 0x39400000)
         | (Half, False) \<Rightarrow> (2, 0x79000000)
         | (Half, True) \<Rightarrow> (2, 0x79400000)
         | (Word, False) \<Rightarrow> (4, 0xb9000000)
         | (Word, True) \<Rightarrow> (4, 0xb9400000)
         | (Double, False) \<Rightarrow> (8, 0xf9000000)
         | (Double, True) \<Rightarrow> (8, 0xf9400000)) in
      if offset mod bytes \<noteq> 0 \<or> 0xfff < offset div bytes then Inl OffsetOutOfRange
      else Inr (instruction OR at_bit (offset div bytes) 10 OR at_bit base 5 OR data))"

datatype atomic_memory_operation =
    AtomicLoadAcquire | AtomicStoreRelease | AtomicLoadAcquireExclusive | AtomicStoreReleaseExclusive

definition encode_atomic_load_store ::
  "arm64_data_size \<Rightarrow> atomic_memory_operation \<Rightarrow> u32 \<Rightarrow> u32 \<Rightarrow> u32 \<Rightarrow> u32" where
  "encode_atomic_load_store sz operation status data base =
     (case sz of Bits32 \<Rightarrow> 0 | Bits64 \<Rightarrow> 0x40000000)
     OR (case operation of
           AtomicLoadAcquire \<Rightarrow> 0x88dffc00
         | AtomicStoreRelease \<Rightarrow> 0x889ffc00
         | AtomicLoadAcquireExclusive \<Rightarrow> 0x885ffc00
         | AtomicStoreReleaseExclusive \<Rightarrow> 0x8800fc00 OR at_bit status 16)
     OR at_bit base 5 OR data"

definition encode_signed_load ::
  "arm64_load_store_size \<Rightarrow> arm64_data_size \<Rightarrow> u32 \<Rightarrow> u32 \<Rightarrow> u32 \<Rightarrow> arm64_encoding_error + u32" where
  "encode_signed_load sz destination_sz data base offset =
     and_then
       (case (sz, destination_sz) of
          (Byte, Bits32) \<Rightarrow> Inr (1, 0x39c00000)
        | (Byte, Bits64) \<Rightarrow> Inr (1, 0x39800000)
        | (Half, Bits32) \<Rightarrow> Inr (2, 0x79c00000)
        | (Half, Bits64) \<Rightarrow> Inr (2, 0x79800000)
        | (Word, Bits64) \<Rightarrow> Inr (4, 0xb9800000)
        | (Word, Bits32) \<Rightarrow> Inl InvalidLoadExtension
        | (Double, _) \<Rightarrow> Inl InvalidLoadExtension)
       (\<lambda>(bytes, instruction).
          if offset mod bytes \<noteq> 0 \<or> 0xfff < offset div bytes then Inl OffsetOutOfRange
          else Inr (instruction OR at_bit (offset div bytes) 10 OR at_bit base 5 OR data))"

section \<open>The encoder\<close>

definition encode_add_subtract :: "arm64_instruction \<Rightarrow> arm64_encoding_error + u32" where
  "encode_add_subtract instruction =
     (case instruction of
        AddSubtractImmediate sz operation set_flags destination source immediate shift_12 \<Rightarrow>
          encode_add_subtract_immediate sz operation set_flags destination (base_encoding source)
            immediate shift_12
      | AddSubtractRegister sz operation set_flags destination left right \<Rightarrow>
          Inr (encode_add_subtract_register sz operation set_flags (data_encoding destination)
            (data_encoding left) (data_encoding right))
      | AddSubtractExtendedRegister operation set_flags destination left right shift \<Rightarrow>
          encode_add_subtract_extended operation set_flags destination left right shift
      | _ \<Rightarrow> Inl Unreachable)"

definition is_float_arithmetic :: "arm64_instruction \<Rightarrow> bool" where
  "is_float_arithmetic instruction =
     (case instruction of
        FloatMove _ _ _ \<Rightarrow> True
      | FloatMoveFromGeneral _ _ _ \<Rightarrow> True
      | FloatMoveToGeneral _ _ _ \<Rightarrow> True
      | FloatFromInteger _ _ _ _ _ \<Rightarrow> True
      | FloatWiden _ _ \<Rightarrow> True
      | FloatNarrow _ _ \<Rightarrow> True
      | FloatToInteger _ _ _ \<Rightarrow> True
      | FloatNegate _ _ _ \<Rightarrow> True
      | FloatRound _ _ _ _ \<Rightarrow> True
      | FloatBinary _ _ _ _ _ \<Rightarrow> True
      | FloatCompare _ _ _ \<Rightarrow> True
      | _ \<Rightarrow> False)"

definition encode_arithmetic :: "arm64_instruction \<Rightarrow> arm64_encoding_error + u32" where
  "encode_arithmetic instruction =
     (case instruction of
        AddSubtractImmediate _ _ _ _ _ _ _ \<Rightarrow> encode_add_subtract instruction
      | AddSubtractRegister _ _ _ _ _ _ \<Rightarrow> encode_add_subtract instruction
      | AddSubtractExtendedRegister _ _ _ _ _ _ \<Rightarrow> encode_add_subtract instruction
      | LogicalRegister sz operation destination left right \<Rightarrow>
          Inr (encode_logical_register sz operation (data_encoding destination)
            (data_encoding left) (data_encoding right))
      | MoveWide sz operation destination immediate shift \<Rightarrow>
          encode_move_wide sz operation destination immediate shift
      | MultiplyAdd sz destination left right addend subtract_product \<Rightarrow>
          Inr (encode_multiply_add sz destination left right (data_encoding addend) subtract_product)
      | MultiplyHigh is_signed destination left right \<Rightarrow>
          Inr (encode_multiply_high is_signed destination left right)
      | MultiplyLong is_signed destination left right \<Rightarrow>
          Inr (encode_multiply_long is_signed destination left right)
      | Divide sz destination left right is_signed \<Rightarrow>
          Inr (encode_divide sz destination left right is_signed)
      | VariableShift sz operation destination value amount \<Rightarrow>
          Inr (encode_variable_shift sz operation destination value amount)
      | CountLeadingZeros destination source \<Rightarrow> Inr (encode_count_leading_zeros destination source)
      | BitfieldExtend sz is_signed source_bits destination source \<Rightarrow>
          encode_bitfield_extend sz is_signed source_bits destination source
      | _ \<Rightarrow> (if is_float_arithmetic instruction then float_arithmetic instruction else Inl Unreachable))"

definition encode_memory :: "arm64_instruction \<Rightarrow> arm64_encoding_error + u32" where
  "encode_memory instruction =
     (case instruction of
        LoadUnsigned sz destination base offset \<Rightarrow>
          encode_load_store sz True (data_encoding destination) (base_encoding base) offset
      | LoadSigned sz destination_sz destination base offset \<Rightarrow>
          encode_signed_load sz destination_sz (data_encoding destination) (base_encoding base) offset
      | StoreUnsigned sz source base offset \<Rightarrow>
          encode_load_store sz False (data_encoding source) (base_encoding base) offset
      | LoadAcquire sz destination base \<Rightarrow>
          Inr (encode_atomic_load_store sz AtomicLoadAcquire 0 (data_encoding destination) (base_encoding base))
      | StoreRelease sz source base \<Rightarrow>
          Inr (encode_atomic_load_store sz AtomicStoreRelease 0 (data_encoding source) (base_encoding base))
      | LoadAcquireExclusive sz destination base \<Rightarrow>
          Inr (encode_atomic_load_store sz AtomicLoadAcquireExclusive 0 (data_encoding destination)
            (base_encoding base))
      | StoreReleaseExclusive sz status source base \<Rightarrow>
          Inr (encode_atomic_load_store sz AtomicStoreReleaseExclusive (reg_field status)
            (data_encoding source) (base_encoding base))
      | FloatLoad _ _ _ _ \<Rightarrow> float_memory instruction
      | FloatStore _ _ _ _ \<Rightarrow> float_memory instruction
      | _ \<Rightarrow> Inl Unreachable)"

definition encode_conditional_set ::
  "arm64_data_size \<Rightarrow> arm64_register \<Rightarrow> arm64_branch_condition \<Rightarrow> u32" where
  "encode_conditional_set sz destination condition =
     size_bit sz OR 0x1a800400 OR at_bit 31 16
     OR at_bit (ucast (condition_encoding (invert condition))) 12 OR at_bit 31 5
     OR reg_field destination"

definition encode_control :: "arm64_instruction \<Rightarrow> arm64_encoding_error + u32" where
  "encode_control instruction =
     (case instruction of
        NoOperation \<Rightarrow> Inr 0xd503201f
      | ClearExclusive \<Rightarrow> Inr 0xd5033f5f
      | InstructionSynchronizationBarrier \<Rightarrow> Inr 0xd5033fdf
      | AddressPage destination displacement \<Rightarrow>
          and_then (signed_scaled_by displacement 12 21 MisalignedPageAddress PageAddressOutOfRange)
            (\<lambda>immediate. let low = immediate AND 3; high = drop_bit 2 immediate in
              Inr (0x90000000 OR at_bit low 29 OR at_bit high 5 OR reg_field destination))
      | ConditionalSet sz destination condition \<Rightarrow> Inr (encode_conditional_set sz destination condition)
      | Branch displacement link \<Rightarrow>
          and_then (signed_scaled displacement 26) (\<lambda>immediate.
            Inr ((if link then 0x94000000 else 0x14000000) OR immediate))
      | BranchConditional displacement condition \<Rightarrow>
          and_then (signed_scaled displacement 19) (\<lambda>immediate.
            Inr (0x54000000 OR at_bit immediate 5 OR ucast (condition_encoding condition)))
      | BranchRegister target link \<Rightarrow>
          Inr ((if link then 0xd63f0000 else 0xd61f0000) OR at_bit (reg_field target) 5)
      | Return target \<Rightarrow> Inr (0xd65f0000 OR at_bit (reg_field target) 5)
      | Break immediate \<Rightarrow> Inr (0xd4200000 OR at_bit (ucast immediate) 5)
      | SupervisorCall immediate \<Rightarrow> Inr (0xd4000001 OR at_bit (ucast immediate) 5)
      | ReadSystemRegister destination register \<Rightarrow>
          Inr ((case register of CounterFrequency \<Rightarrow> 0xd53be000 | CounterVirtual \<Rightarrow> 0xd53be040)
            OR reg_field destination)
      | _ \<Rightarrow> Inl Unreachable)"

datatype instruction_category = Arithmetic | Memory | Control

definition category :: "arm64_instruction \<Rightarrow> instruction_category" where
  "category instruction =
     (case instruction of
        LoadUnsigned _ _ _ _ \<Rightarrow> Memory
      | LoadSigned _ _ _ _ _ \<Rightarrow> Memory
      | StoreUnsigned _ _ _ _ \<Rightarrow> Memory
      | LoadAcquire _ _ _ \<Rightarrow> Memory
      | StoreRelease _ _ _ \<Rightarrow> Memory
      | LoadAcquireExclusive _ _ _ \<Rightarrow> Memory
      | StoreReleaseExclusive _ _ _ _ \<Rightarrow> Memory
      | FloatLoad _ _ _ _ \<Rightarrow> Memory
      | FloatStore _ _ _ _ \<Rightarrow> Memory
      | NoOperation \<Rightarrow> Control
      | ClearExclusive \<Rightarrow> Control
      | InstructionSynchronizationBarrier \<Rightarrow> Control
      | AddressPage _ _ \<Rightarrow> Control
      | ConditionalSet _ _ _ \<Rightarrow> Control
      | Branch _ _ \<Rightarrow> Control
      | BranchConditional _ _ \<Rightarrow> Control
      | BranchRegister _ _ \<Rightarrow> Control
      | Return _ \<Rightarrow> Control
      | Break _ \<Rightarrow> Control
      | SupervisorCall _ \<Rightarrow> Control
      | ReadSystemRegister _ _ \<Rightarrow> Control
      | _ \<Rightarrow> Arithmetic)"

definition encode :: "arm64_instruction \<Rightarrow> arm64_encoding_error + u32" where
  "encode instruction =
     (case category instruction of
        Arithmetic \<Rightarrow> encode_arithmetic instruction
      | Memory \<Rightarrow> encode_memory instruction
      | Control \<Rightarrow> encode_control instruction)"

text \<open>\<open>u32::to_le_bytes\<close> over the encoded word.\<close>

definition to_le_bytes :: "u32 \<Rightarrow> u8 list" where
  "to_le_bytes w = [ucast w, ucast (drop_bit 8 w), ucast (drop_bit 16 w), ucast (drop_bit 24 w)]"

definition encode_bytes :: "arm64_instruction \<Rightarrow> arm64_encoding_error + u8 list" where
  "encode_bytes instruction = and_then (encode instruction) (\<lambda>w. Inr (to_le_bytes w))"

end
