(* ===== verification/Arm64_Decode.thy ===== *)
theory Arm64_Decode
  imports Arm64_Encode
begin

text \<open>
  A reference decoder for the encoder of \<^verbatim>\<open>nocter-arm64/src/encode.rs\<close>, and the proof that it
  returns the encoded instruction. The decoder is part of the specification: every instruction form
  is a mask, the value of the word under it and a reader of the remaining fields, as the
  architecture lays them out. No two forms can match the same word, so the encoding of valid
  operands is unambiguous.
\<close>

section \<open>Reading fields\<close>

definition bits :: "u32 \<Rightarrow> nat \<Rightarrow> nat \<Rightarrow> u32" where
  "bits w low count = take_bit count (drop_bit low w)"

definition to_reg :: "u32 \<Rightarrow> arm64_register" where
  "to_reg x = Arm64Register (ucast x)"

definition to_float :: "u32 \<Rightarrow> arm64_float_register" where
  "to_float x = Arm64FloatRegister (ucast x)"

definition to_data :: "u32 \<Rightarrow> arm64_data_register" where
  "to_data x = (if x = 31 then DataZero else DataGeneral (to_reg x))"

definition to_base :: "u32 \<Rightarrow> arm64_base_register" where
  "to_base x = (if x = 31 then BaseStackPointer else BaseGeneral (to_reg x))"

definition to_destination :: "bool \<Rightarrow> u32 \<Rightarrow> arm64_add_subtract_destination" where
  "to_destination set_flags x =
     (if x \<noteq> 31 then DestinationGeneral (to_reg x)
      else if set_flags then DestinationZero else DestinationStackPointer)"

definition to_size :: "u32 \<Rightarrow> arm64_data_size" where
  "to_size x = (if x = 0 then Bits32 else Bits64)"

definition to_condition :: "u32 \<Rightarrow> arm64_branch_condition" where
  "to_condition x =
     [Equal, NotEqual, CarrySet, CarryClear, Minus, Plus, Overflow, NoOverflow, UnsignedHigher,
      UnsignedLowerOrSame, SignedGreaterOrEqual, SignedLess, SignedGreater, SignedLessOrEqual]
      ! (unat x mod 14)"

abbreviation reg_at :: "u32 \<Rightarrow> nat \<Rightarrow> arm64_register" where
  "reg_at w low \<equiv> to_reg (bits w low 5)"

abbreviation float_at :: "u32 \<Rightarrow> nat \<Rightarrow> arm64_float_register" where
  "float_at w low \<equiv> to_float (bits w low 5)"

abbreviation data_at :: "u32 \<Rightarrow> nat \<Rightarrow> arm64_data_register" where
  "data_at w low \<equiv> to_data (bits w low 5)"

abbreviation base_at :: "u32 \<Rightarrow> nat \<Rightarrow> arm64_base_register" where
  "base_at w low \<equiv> to_base (bits w low 5)"

abbreviation size_at :: "u32 \<Rightarrow> nat \<Rightarrow> arm64_data_size" where
  "size_at w low \<equiv> to_size (bits w low 1)"

abbreviation condition_at :: "u32 \<Rightarrow> nat \<Rightarrow> arm64_branch_condition" where
  "condition_at w low \<equiv> to_condition (bits w low 4)"

abbreviation add_subtract_at :: "u32 \<Rightarrow> arm64_add_subtract" where
  "add_subtract_at w \<equiv> (if bits w 30 1 = 0 then AddOp else SubtractOp)"

abbreviation flags_at :: "u32 \<Rightarrow> bool" where
  "flags_at w \<equiv> bits w 29 1 = 1"

abbreviation destination_at :: "u32 \<Rightarrow> arm64_add_subtract_destination" where
  "destination_at w \<equiv> to_destination (flags_at w) (bits w 0 5)"

text \<open>A two's complement field of the given width.\<close>

definition signed_units :: "nat \<Rightarrow> u32 \<Rightarrow> int" where
  "signed_units count x = (if 2 ^ (count - 1) \<le> uint x then uint x - 2 ^ count else uint x)"

section \<open>The forms\<close>

type_synonym decode_form = "u32 \<times> u32 \<times> (u32 \<Rightarrow> arm64_instruction)"

definition control_forms :: "decode_form list" where
  "control_forms = [
     (0xffffffff, 0xd503201f, \<lambda>w. NoOperation)
   , (0xffffffff, 0xd5033f5f, \<lambda>w. ClearExclusive)
   , (0xffffffff, 0xd5033fdf, \<lambda>w. InstructionSynchronizationBarrier)
   , (0x9f000000, 0x90000000, \<lambda>w. AddressPage (reg_at w 0) (4096 * signed_units 21 (bits w 29 2 OR push_bit 2 (bits w 5 19))))
   , (0x7fff0fe0, 0x1a9f07e0, \<lambda>w. ConditionalSet (size_at w 31) (reg_at w 0) (invert (condition_at w 12)))
   , (0xfc000000, 0x14000000, \<lambda>w. Branch (4 * signed_units 26 (bits w 0 26)) False)
   , (0xfc000000, 0x94000000, \<lambda>w. Branch (4 * signed_units 26 (bits w 0 26)) True)
   , (0xff000010, 0x54000000, \<lambda>w. BranchConditional (4 * signed_units 19 (bits w 5 19)) (condition_at w 0))
   , (0xfffffc1f, 0xd61f0000, \<lambda>w. BranchRegister (reg_at w 5) False)
   , (0xfffffc1f, 0xd63f0000, \<lambda>w. BranchRegister (reg_at w 5) True)
   , (0xfffffc1f, 0xd65f0000, \<lambda>w. Return (reg_at w 5))
   , (0xffe0001f, 0xd4200000, \<lambda>w. Break (ucast (bits w 5 16)))
   , (0xffe0001f, 0xd4000001, \<lambda>w. SupervisorCall (ucast (bits w 5 16)))
   , (0xffffffe0, 0xd53be000, \<lambda>w. ReadSystemRegister (reg_at w 0) CounterFrequency)
   , (0xffffffe0, 0xd53be040, \<lambda>w. ReadSystemRegister (reg_at w 0) CounterVirtual)]"

definition arithmetic_forms :: "decode_form list" where
  "arithmetic_forms = [
     (0x1f800000, 0x11000000, \<lambda>w. AddSubtractImmediate (size_at w 31) (add_subtract_at w) (flags_at w) (destination_at w) (base_at w 5) (ucast (bits w 10 12)) (bits w 22 1 = 1))
   , (0x1fe0fc00, 0x0b000000, \<lambda>w. AddSubtractRegister (size_at w 31) (add_subtract_at w) (flags_at w) (data_at w 0) (data_at w 5) (data_at w 16))
   , (0x9fe0e000, 0x8b206000, \<lambda>w. AddSubtractExtendedRegister (add_subtract_at w) (flags_at w) (destination_at w) (base_at w 5) (reg_at w 16) (ucast (bits w 10 3)))
   , (0x7fe0fc00, 0x0a000000, \<lambda>w. LogicalRegister (size_at w 31) LogicalAnd (data_at w 0) (data_at w 5) (data_at w 16))
   , (0x7fe0fc00, 0x2a000000, \<lambda>w. LogicalRegister (size_at w 31) LogicalOr (data_at w 0) (data_at w 5) (data_at w 16))
   , (0x7fe0fc00, 0x4a000000, \<lambda>w. LogicalRegister (size_at w 31) LogicalExclusiveOr (data_at w 0) (data_at w 5) (data_at w 16))
   , (0x7fe0fc00, 0x6a000000, \<lambda>w. LogicalRegister (size_at w 31) LogicalAndSetFlags (data_at w 0) (data_at w 5) (data_at w 16))
   , (0x7f800000, 0x52800000, \<lambda>w. MoveWide (size_at w 31) MoveZero (reg_at w 0) (ucast (bits w 5 16)) (16 * ucast (bits w 21 2)))
   , (0x7f800000, 0x72800000, \<lambda>w. MoveWide (size_at w 31) MoveKeep (reg_at w 0) (ucast (bits w 5 16)) (16 * ucast (bits w 21 2)))
   , (0x7fe00000, 0x1b000000, \<lambda>w. MultiplyAdd (size_at w 31) (reg_at w 0) (reg_at w 5) (reg_at w 16) (data_at w 10) (bits w 15 1 = 1))
   , (0xffe0fc00, 0x9b407c00, \<lambda>w. MultiplyHigh True (reg_at w 0) (reg_at w 5) (reg_at w 16))
   , (0xffe0fc00, 0x9bc07c00, \<lambda>w. MultiplyHigh False (reg_at w 0) (reg_at w 5) (reg_at w 16))
   , (0xffe0fc00, 0x9b207c00, \<lambda>w. MultiplyLong True (reg_at w 0) (reg_at w 5) (reg_at w 16))
   , (0xffe0fc00, 0x9ba07c00, \<lambda>w. MultiplyLong False (reg_at w 0) (reg_at w 5) (reg_at w 16))
   , (0x7fe0fc00, 0x1ac00c00, \<lambda>w. Divide (size_at w 31) (reg_at w 0) (reg_at w 5) (reg_at w 16) True)
   , (0x7fe0fc00, 0x1ac00800, \<lambda>w. Divide (size_at w 31) (reg_at w 0) (reg_at w 5) (reg_at w 16) False)
   , (0x7fe0fc00, 0x1ac02000, \<lambda>w. VariableShift (size_at w 31) ShiftLeft (reg_at w 0) (reg_at w 5) (reg_at w 16))
   , (0x7fe0fc00, 0x1ac02400, \<lambda>w. VariableShift (size_at w 31) ShiftRightLogical (reg_at w 0) (reg_at w 5) (reg_at w 16))
   , (0x7fe0fc00, 0x1ac02800, \<lambda>w. VariableShift (size_at w 31) ShiftRightArithmetic (reg_at w 0) (reg_at w 5) (reg_at w 16))
   , (0x7fe0fc00, 0x1ac02c00, \<lambda>w. VariableShift (size_at w 31) ShiftRotateRight (reg_at w 0) (reg_at w 5) (reg_at w 16))
   , (0xfffffc00, 0xdac01000, \<lambda>w. CountLeadingZeros (reg_at w 0) (reg_at w 5))
   , (0xffff0000, 0x13000000, \<lambda>w. BitfieldExtend Bits32 True (ucast (bits w 10 6) + 1) (reg_at w 0) (reg_at w 5))
   , (0xffff0000, 0x53000000, \<lambda>w. BitfieldExtend Bits32 False (ucast (bits w 10 6) + 1) (reg_at w 0) (reg_at w 5))
   , (0xffff0000, 0x93400000, \<lambda>w. BitfieldExtend Bits64 True (ucast (bits w 10 6) + 1) (reg_at w 0) (reg_at w 5))
   , (0xffff0000, 0xd3400000, \<lambda>w. BitfieldExtend Bits64 False (ucast (bits w 10 6) + 1) (reg_at w 0) (reg_at w 5))]"

definition floating_forms :: "decode_form list" where
  "floating_forms = [
     (0xffbffc00, 0x1e204000, \<lambda>w. FloatMove (size_at w 22) (float_at w 0) (float_at w 5))
   , (0xfffffc00, 0x1e270000, \<lambda>w. FloatMoveFromGeneral Bits32 (float_at w 0) (reg_at w 5))
   , (0xfffffc00, 0x9e670000, \<lambda>w. FloatMoveFromGeneral Bits64 (float_at w 0) (reg_at w 5))
   , (0xfffffc00, 0x1e260000, \<lambda>w. FloatMoveToGeneral Bits32 (reg_at w 0) (float_at w 5))
   , (0xfffffc00, 0x9e660000, \<lambda>w. FloatMoveToGeneral Bits64 (reg_at w 0) (float_at w 5))
   , (0x7fbefc00, 0x1e220000, \<lambda>w. FloatFromInteger (size_at w 31) (size_at w 22) (bits w 16 1 = 0) (float_at w 0) (reg_at w 5))
   , (0xfffffc00, 0x1e22c000, \<lambda>w. FloatWiden (float_at w 0) (float_at w 5))
   , (0xfffffc00, 0x1e624000, \<lambda>w. FloatNarrow (float_at w 0) (float_at w 5))
   , (0xfffffc00, 0x9e780000, \<lambda>w. FloatToInteger True (reg_at w 0) (float_at w 5))
   , (0xfffffc00, 0x9e790000, \<lambda>w. FloatToInteger False (reg_at w 0) (float_at w 5))
   , (0xffbffc00, 0x1e214000, \<lambda>w. FloatNegate (size_at w 22) (float_at w 0) (float_at w 5))
   , (0xffbffc00, 0x1e254000, \<lambda>w. FloatRound (size_at w 22) Floor (float_at w 0) (float_at w 5))
   , (0xffbffc00, 0x1e24c000, \<lambda>w. FloatRound (size_at w 22) Ceil (float_at w 0) (float_at w 5))
   , (0xffbffc00, 0x1e25c000, \<lambda>w. FloatRound (size_at w 22) Truncate (float_at w 0) (float_at w 5))
   , (0xffbffc00, 0x1e244000, \<lambda>w. FloatRound (size_at w 22) TiesEven (float_at w 0) (float_at w 5))
   , (0xffa0fc00, 0x1e202800, \<lambda>w. FloatBinary (size_at w 22) FloatAdd (float_at w 0) (float_at w 5) (float_at w 16))
   , (0xffa0fc00, 0x1e203800, \<lambda>w. FloatBinary (size_at w 22) FloatSubtract (float_at w 0) (float_at w 5) (float_at w 16))
   , (0xffa0fc00, 0x1e200800, \<lambda>w. FloatBinary (size_at w 22) FloatMultiply (float_at w 0) (float_at w 5) (float_at w 16))
   , (0xffa0fc00, 0x1e201800, \<lambda>w. FloatBinary (size_at w 22) FloatDivide (float_at w 0) (float_at w 5) (float_at w 16))
   , (0xffa0fc1f, 0x1e202000, \<lambda>w. FloatCompare (size_at w 22) (float_at w 5) (float_at w 16))]"

definition memory_forms :: "decode_form list" where
  "memory_forms = [
     (0xffc00000, 0x39000000, \<lambda>w. StoreUnsigned Byte (data_at w 0) (base_at w 5) (bits w 10 12))
   , (0xffc00000, 0x39400000, \<lambda>w. LoadUnsigned Byte (data_at w 0) (base_at w 5) (bits w 10 12))
   , (0xffc00000, 0x79000000, \<lambda>w. StoreUnsigned Half (data_at w 0) (base_at w 5) (2 * bits w 10 12))
   , (0xffc00000, 0x79400000, \<lambda>w. LoadUnsigned Half (data_at w 0) (base_at w 5) (2 * bits w 10 12))
   , (0xffc00000, 0xb9000000, \<lambda>w. StoreUnsigned Word (data_at w 0) (base_at w 5) (4 * bits w 10 12))
   , (0xffc00000, 0xb9400000, \<lambda>w. LoadUnsigned Word (data_at w 0) (base_at w 5) (4 * bits w 10 12))
   , (0xffc00000, 0xf9000000, \<lambda>w. StoreUnsigned Double (data_at w 0) (base_at w 5) (8 * bits w 10 12))
   , (0xffc00000, 0xf9400000, \<lambda>w. LoadUnsigned Double (data_at w 0) (base_at w 5) (8 * bits w 10 12))
   , (0xffc00000, 0x39c00000, \<lambda>w. LoadSigned Byte Bits32 (data_at w 0) (base_at w 5) (bits w 10 12))
   , (0xffc00000, 0x39800000, \<lambda>w. LoadSigned Byte Bits64 (data_at w 0) (base_at w 5) (bits w 10 12))
   , (0xffc00000, 0x79c00000, \<lambda>w. LoadSigned Half Bits32 (data_at w 0) (base_at w 5) (2 * bits w 10 12))
   , (0xffc00000, 0x79800000, \<lambda>w. LoadSigned Half Bits64 (data_at w 0) (base_at w 5) (2 * bits w 10 12))
   , (0xffc00000, 0xb9800000, \<lambda>w. LoadSigned Word Bits64 (data_at w 0) (base_at w 5) (4 * bits w 10 12))
   , (0xbffffc00, 0x88dffc00, \<lambda>w. LoadAcquire (size_at w 30) (data_at w 0) (base_at w 5))
   , (0xbffffc00, 0x889ffc00, \<lambda>w. StoreRelease (size_at w 30) (data_at w 0) (base_at w 5))
   , (0xbffffc00, 0x885ffc00, \<lambda>w. LoadAcquireExclusive (size_at w 30) (data_at w 0) (base_at w 5))
   , (0xbfe0fc00, 0x8800fc00, \<lambda>w. StoreReleaseExclusive (size_at w 30) (reg_at w 16) (data_at w 0) (base_at w 5))
   , (0xffc00000, 0xbd000000, \<lambda>w. FloatStore Bits32 (float_at w 0) (base_at w 5) (4 * bits w 10 12))
   , (0xffc00000, 0xbd400000, \<lambda>w. FloatLoad Bits32 (float_at w 0) (base_at w 5) (4 * bits w 10 12))
   , (0xffc00000, 0xfd000000, \<lambda>w. FloatStore Bits64 (float_at w 0) (base_at w 5) (8 * bits w 10 12))
   , (0xffc00000, 0xfd400000, \<lambda>w. FloatLoad Bits64 (float_at w 0) (base_at w 5) (8 * bits w 10 12))]"

definition decode_forms :: "decode_form list" where
  "decode_forms = control_forms @ arithmetic_forms @ floating_forms @ memory_forms"

definition decode :: "u32 \<Rightarrow> arm64_instruction option" where
  "decode w = map_option (\<lambda>(m, v, build). build w) (find (\<lambda>(m, v, build). w AND m = v) decode_forms)"

section \<open>At most one form matches\<close>

fun conflicts :: "u32 \<times> u32 \<Rightarrow> u32 \<times> u32 \<Rightarrow> bool" where
  "conflicts (m, v) (m', v') \<longleftrightarrow> (v XOR v') AND m AND m' \<noteq> 0"

definition form_keys :: "(u32 \<times> u32) list" where
  "form_keys = map (\<lambda>(m, v, build). (m, v)) decode_forms"

lemma conflicts_exclusive: "conflicts (m, v) (m', v') \<Longrightarrow> w AND m = v \<Longrightarrow> w AND m' = v' \<Longrightarrow> False"
proof -
  assume c: "conflicts (m, v) (m', v')" and v: "w AND m = v" "w AND m' = v'"
  have "(v XOR v') AND m AND m' = 0"
    unfolding v [symmetric] by (rule bit_word_eqI) (auto simp: bit_simps)
  with c show False by simp
qed

text \<open>
  Uniqueness is decided by splitting the forms on some bits of the word, so that only forms which
  agree on those bits are compared with one another.
\<close>

fun form_matches :: "u32 \<Rightarrow> u32 \<times> u32 \<Rightarrow> bool" where
  "form_matches w (m, v) \<longleftrightarrow> w AND m = v"

fun allows :: "nat \<Rightarrow> bool \<Rightarrow> u32 \<times> u32 \<Rightarrow> bool" where
  "allows n b (m, v) \<longleftrightarrow> \<not> bit m n \<or> bit v n = b"

fun exclusive :: "nat list \<Rightarrow> (u32 \<times> u32) list \<Rightarrow> bool" where
  "exclusive [] keys \<longleftrightarrow> sorted_wrt conflicts keys"
| "exclusive (n # ns) keys \<longleftrightarrow>
     exclusive ns (filter (allows n False) keys) \<and> exclusive ns (filter (allows n True) keys)"

lemma matches_allows: "form_matches w k \<Longrightarrow> allows n (bit w n) k"
  by (cases k) (auto simp: bit_simps)

lemma exclusive_filter: "exclusive ns keys \<Longrightarrow> length (filter (form_matches w) keys) \<le> 1"
proof (induction ns arbitrary: keys)
  case Nil
  then have "sorted_wrt conflicts keys" by simp
  then show ?case
  proof (induction keys)
    case (Cons k keys)
    show ?case
    proof (cases "form_matches w k")
      case True
      have "\<not> form_matches w k'" if "k' \<in> set keys" for k'
        using Cons.prems that True conflicts_exclusive [of "fst k" "snd k" "fst k'" "snd k'" w]
        by (cases k; cases k') auto
      then have "filter (form_matches w) keys = []" by (simp add: filter_empty_conv)
      then show ?thesis by simp
    qed (use Cons in auto)
  qed simp
next
  case (Cons n ns)
  have "filter (form_matches w) keys = filter (form_matches w) (filter (allows n (bit w n)) keys)"
    by (induction keys) (auto dest: matches_allows)
  moreover have "exclusive ns (filter (allows n (bit w n)) keys)"
    using Cons.prems by (cases "bit w n") simp_all
  ultimately show ?case by (metis Cons.IH)
qed

lemma forms_exclusive: "exclusive [28, 27, 26, 25, 24, 23, 22, 21] form_keys"
  by code_simp

lemma find_filter: "find p xs = (case filter p xs of [] \<Rightarrow> None | x # _ \<Rightarrow> Some x)"
  by (induction xs) auto

lemma decode_form:
  assumes form: "(m, v, build) \<in> set decode_forms" and match: "w AND m = v"
  shows "decode w = Some (build w)"
proof -
  let ?p = "\<lambda>(m, v, build :: u32 \<Rightarrow> arm64_instruction). w AND m = v"
  have "form_matches w \<circ> (\<lambda>(m, v, build). (m, v)) = ?p" by (auto simp: fun_eq_iff)
  then have "length (filter (form_matches w) form_keys) = length (filter ?p decode_forms)"
    by (simp add: form_keys_def filter_map)
  with exclusive_filter [OF forms_exclusive, of w]
  have one: "length (filter ?p decode_forms) \<le> 1" by simp
  have "(m, v, build) \<in> set (filter ?p decode_forms)" using form match by simp
  with one have "filter ?p decode_forms = [(m, v, build)]"
    by (cases "filter ?p decode_forms") auto
  then have "find ?p decode_forms = Some (m, v, build)"
    by (simp add: find_filter)
  then show ?thesis by (simp add: decode_def)
qed

section \<open>Operand fields\<close>

text \<open>\<open>narrow n x\<close>: the value fits in \<open>n\<close> bits.\<close>

definition narrow :: "nat \<Rightarrow> u32 \<Rightarrow> bool" where
  "narrow n x \<longleftrightarrow> unat x < 2 ^ n"

lemma narrow_bit: "narrow m x \<Longrightarrow> bit x n \<Longrightarrow> n < m"
proof -
  assume "narrow m x" "bit x n"
  then have "take_bit m (unat x) = unat x" by (simp add: narrow_def take_bit_nat_eq_self_iff)
  moreover have "bit (unat x) n" using \<open>bit x n\<close> by (simp add: bit_unsigned_iff bit_imp_le_length)
  ultimately show ?thesis by (metis bit_take_bit_iff)
qed

lemma bits_or [simp]: "bits (a OR b) low count = bits a low count OR bits b low count"
  by (simp add: bits_def)

lemma bits_constant [simp]:
  "bits 0 low count = 0"
  "bits 1 low count = take_bit count (drop_bit low 1)"
  "bits (numeral n) low count = take_bit count (drop_bit low (numeral n))"
  by (simp_all add: bits_def)

text \<open>A narrow value shifted to \<open>k\<close> is read back at \<open>k\<close>, and is not seen elsewhere.\<close>

lemma bits_same:
  "narrow m x \<Longrightarrow> m \<le> count \<Longrightarrow> low + m \<le> 32 \<Longrightarrow> bits (push_bit low x) low count = x"
  unfolding bits_def by (rule bit_word_eqI) (auto simp: bit_simps dest: narrow_bit)

lemma bits_other:
  "narrow m x \<Longrightarrow> low + count \<le> k \<or> k + m \<le> low \<Longrightarrow> bits (push_bit k x) low count = 0"
  unfolding bits_def by (rule bit_word_eqI) (auto simp: bit_simps dest: narrow_bit)

lemma push_and:
  assumes "narrow m x" and "bits c k m = 0"
  shows "push_bit k x AND c = 0"
proof (rule bit_word_eqI, rule ccontr)
  fix n assume n: "n < LENGTH(32)" "bit (push_bit k x AND c) n \<noteq> bit (0::u32) n"
  then have b: "k \<le> n" "bit x (n - k)" "bit c n" by (auto simp: bit_simps)
  then have "n - k < m" using assms(1) narrow_bit by blast
  with b have "bit (bits c k m) (n - k)" by (auto simp: bits_def bit_simps)
  with assms(2) show False by simp
qed

lemma narrow_ucast: "unat n < 2 ^ m \<Longrightarrow> narrow m (ucast (n :: 'a::len word))"
  unfolding narrow_def unsigned_ucast_eq
  by (meson le_less_trans take_bit_nat_less_eq_self)

lemma narrow_of_bool: "narrow 1 (if b then 1 else 0)"
  by (simp add: narrow_def)

text \<open>The same facts for a field at position 0, which the encoder does not shift.\<close>

lemmas bits_same0 = bits_same [where low = 0, simplified]
lemmas bits_other0 = bits_other [where k = 0, simplified]
lemmas and_narrow = push_and [where k = 0, simplified]

section \<open>Valid operands\<close>

text \<open>The values the private constructors of the sources admit.\<close>

fun valid_data :: "arm64_data_register \<Rightarrow> bool" where
  "valid_data (DataGeneral r) = valid_register r"
| "valid_data DataZero = True"

fun valid_base :: "arm64_base_register \<Rightarrow> bool" where
  "valid_base (BaseGeneral r) = valid_register r"
| "valid_base BaseStackPointer = True"

fun valid_destination :: "arm64_add_subtract_destination \<Rightarrow> bool" where
  "valid_destination (DestinationGeneral r) = valid_register r"
| "valid_destination DestinationStackPointer = True"
| "valid_destination DestinationZero = True"

definition valid_operands :: "arm64_instruction \<Rightarrow> bool" where
  "valid_operands instruction =
     (case instruction of
        AddressPage d _ \<Rightarrow> valid_register d
      | AddSubtractImmediate _ _ _ d s _ _ \<Rightarrow> valid_destination d \<and> valid_base s
      | AddSubtractRegister _ _ _ d l r \<Rightarrow> valid_data d \<and> valid_data l \<and> valid_data r
      | AddSubtractExtendedRegister _ _ d l r _ \<Rightarrow> valid_destination d \<and> valid_base l \<and> valid_register r
      | LogicalRegister _ _ d l r \<Rightarrow> valid_data d \<and> valid_data l \<and> valid_data r
      | MoveWide _ _ d _ _ \<Rightarrow> valid_register d
      | MultiplyAdd _ d l r a _ \<Rightarrow> valid_register d \<and> valid_register l \<and> valid_register r \<and> valid_data a
      | MultiplyHigh _ d l r \<Rightarrow> valid_register d \<and> valid_register l \<and> valid_register r
      | MultiplyLong _ d l r \<Rightarrow> valid_register d \<and> valid_register l \<and> valid_register r
      | Divide _ d l r _ \<Rightarrow> valid_register d \<and> valid_register l \<and> valid_register r
      | VariableShift _ _ d v a \<Rightarrow> valid_register d \<and> valid_register v \<and> valid_register a
      | CountLeadingZeros d s \<Rightarrow> valid_register d \<and> valid_register s
      | BitfieldExtend _ _ _ d s \<Rightarrow> valid_register d \<and> valid_register s
      | LoadUnsigned _ d b _ \<Rightarrow> valid_data d \<and> valid_base b
      | LoadSigned _ _ d b _ \<Rightarrow> valid_data d \<and> valid_base b
      | StoreUnsigned _ s b _ \<Rightarrow> valid_data s \<and> valid_base b
      | LoadAcquire _ d b \<Rightarrow> valid_data d \<and> valid_base b
      | StoreRelease _ s b \<Rightarrow> valid_data s \<and> valid_base b
      | LoadAcquireExclusive _ d b \<Rightarrow> valid_data d \<and> valid_base b
      | StoreReleaseExclusive _ t s b \<Rightarrow> valid_register t \<and> valid_data s \<and> valid_base b
      | FloatLoad _ d b _ \<Rightarrow> valid_float_register d \<and> valid_base b
      | FloatStore _ s b _ \<Rightarrow> valid_float_register s \<and> valid_base b
      | FloatMove _ d s \<Rightarrow> valid_float_register d \<and> valid_float_register s
      | FloatMoveFromGeneral _ d s \<Rightarrow> valid_float_register d \<and> valid_register s
      | FloatMoveToGeneral _ d s \<Rightarrow> valid_register d \<and> valid_float_register s
      | FloatFromInteger _ _ _ d s \<Rightarrow> valid_float_register d \<and> valid_register s
      | FloatWiden d s \<Rightarrow> valid_float_register d \<and> valid_float_register s
      | FloatNarrow d s \<Rightarrow> valid_float_register d \<and> valid_float_register s
      | FloatToInteger _ d s \<Rightarrow> valid_register d \<and> valid_float_register s
      | FloatNegate _ d s \<Rightarrow> valid_float_register d \<and> valid_float_register s
      | FloatRound _ _ d s \<Rightarrow> valid_float_register d \<and> valid_float_register s
      | FloatBinary _ _ d l r \<Rightarrow>
          valid_float_register d \<and> valid_float_register l \<and> valid_float_register r
      | FloatCompare _ l r \<Rightarrow> valid_float_register l \<and> valid_float_register r
      | ConditionalSet _ d _ \<Rightarrow> valid_register d
      | BranchRegister t _ \<Rightarrow> valid_register t
      | Return t \<Rightarrow> valid_register t
      | ReadSystemRegister d _ \<Rightarrow> valid_register d
      | _ \<Rightarrow> True)"

lemma narrow_reg: "valid_register r \<Longrightarrow> narrow 5 (reg_field r)"
  unfolding reg_field_def valid_register_def
  by (rule narrow_ucast) (simp add: word_less_nat_alt)

lemma narrow_float: "valid_float_register r \<Longrightarrow> narrow 5 (float_field r)"
  unfolding float_field_def valid_float_register_def
  by (rule narrow_ucast) (simp add: word_less_nat_alt)

lemma encoding_fields:
  "data_encoding (DataGeneral r) = reg_field r"
  "base_encoding (BaseGeneral r) = reg_field r"
  "destination_encoding (DestinationGeneral r) = reg_field r"
  by (simp_all add: reg_field_def)

lemma narrow_31: "narrow 5 31"
  by (simp add: narrow_def)

lemma narrow_data: "valid_data d \<Longrightarrow> narrow 5 (data_encoding d)"
  by (cases d) (simp_all add: encoding_fields narrow_reg narrow_31 del: data_encoding.simps(1))

lemma narrow_base: "valid_base d \<Longrightarrow> narrow 5 (base_encoding d)"
  by (cases d) (simp_all add: encoding_fields narrow_reg narrow_31 del: base_encoding.simps(1))

lemma narrow_destination: "valid_destination d \<Longrightarrow> narrow 5 (destination_encoding d)"
  by (cases d) (simp_all add: encoding_fields narrow_reg narrow_31 del: destination_encoding.simps(1))

lemma unat_ucast_up: "LENGTH('a) \<le> LENGTH('b) \<Longrightarrow> unat (ucast (x :: 'a::len word) :: 'b::len word) = unat x"
  by (metis bintr_uint take_bit_nat_eq_self unsigned_ucast_eq unsigned_less order_less_le_trans
      one_le_numeral power_increasing)

lemma ucast_up_down: "LENGTH('a) \<le> LENGTH('b) \<Longrightarrow> ucast (ucast (x :: 'a::len word) :: 'b::len word) = x"
  by (rule bit_word_eqI) (simp add: bit_simps)

lemma to_reg_field [simp]: "to_reg (reg_field r) = r"
  by (cases r) (simp add: to_reg_def reg_field_def ucast_up_down)

lemma to_float_field [simp]: "to_float (float_field r) = r"
  by (cases r) (simp add: to_float_def float_field_def ucast_up_down)

lemma reg_field_31: "valid_register r \<Longrightarrow> reg_field r \<noteq> 31"
  by (auto simp: valid_register_def reg_field_def word_less_nat_alt word_unat_eq_iff unat_ucast_up)

lemma to_data_encoding [simp]: "valid_data d \<Longrightarrow> to_data (data_encoding d) = d"
  by (cases d) (simp_all add: to_data_def encoding_fields reg_field_31 del: data_encoding.simps(1))

lemma to_base_encoding [simp]: "valid_base d \<Longrightarrow> to_base (base_encoding d) = d"
  by (cases d) (simp_all add: to_base_def encoding_fields reg_field_31 del: base_encoding.simps(1))

lemma to_destination_encoding:
  "valid_destination d \<Longrightarrow> validate_add_subtract_destination d s = Inr u \<Longrightarrow>
     to_destination s (destination_encoding d) = d"
  by (cases d; cases s)
    (simp_all add: to_destination_def encoding_fields reg_field_31 validate_add_subtract_destination_def
      del: destination_encoding.simps(1))

lemma to_condition_encoding [simp]: "to_condition (ucast (condition_encoding c)) = c"
  by (cases c) (simp_all add: to_condition_def)

lemma narrow_condition: "narrow 4 (ucast (condition_encoding c))"
  by (cases c) (simp_all add: narrow_def)

lemma invert_invert [simp]: "invert (invert c) = c"
  by (cases c) simp_all

section \<open>Scaled displacements\<close>

lemma smod_zero_iff: "(d :: int) smod 2 ^ k = 0 \<longleftrightarrow> 2 ^ k dvd d"
  using pos_mod_bound [of "2 ^ k" d]
  by (auto simp: signed_modulo_int_def sgn_if dvd_eq_mod_eq_0 zmod_zminus1_eq_if
      simp del: pos_mod_bound)

lemma sdiv_exact: "2 ^ k dvd (d :: int) \<Longrightarrow> d sdiv 2 ^ k = d div 2 ^ k"
  by (auto simp: signed_divide_int_def abs_mult sgn_mult mult_sgn_abs ac_simps abs_mult_sgn elim!: dvdE)

lemma signed_scaled_by_Inr:
  assumes n: "1 \<le> n" "n < 32"
  shows "signed_scaled_by d k n e1 e2 = Inr x \<longleftrightarrow>
    2 ^ k dvd d \<and> - (2 ^ (n - 1)) \<le> d div 2 ^ k \<and> d div 2 ^ k < 2 ^ (n - 1)
    \<and> x = word_of_int (if d div 2 ^ k < 0 then 2 ^ n + d div 2 ^ k else d div 2 ^ k)"
    (is "?l = ?r")
proof -
  have p: "(2 :: int) ^ n = 2 * 2 ^ (n - 1)" using n by (cases n) auto
  have q: "(2 :: int) ^ n < 2 ^ 32" using n by (intro power_strict_increasing) auto
  have pos: "(0 :: int) < 2 ^ (n - 1)" by simp
  let ?u = "d div 2 ^ k"
  have range: "0 \<le> (if ?u < 0 then 2 ^ n + ?u else ?u) \<and> (if ?u < 0 then 2 ^ n + ?u else ?u) < 2 ^ 32"
    if "- (2 ^ (n - 1)) \<le> ?u" "?u < 2 ^ (n - 1)"
    using that p q pos by (simp split: if_splits; linarith)
  show ?thesis
    using range by (auto simp: signed_scaled_by_def Let_def smod_zero_iff sdiv_exact)
qed

lemma signed_scaled_by_reads:
  assumes n: "1 \<le> n" "n < 32" and x: "signed_scaled_by d k n e1 e2 = Inr x"
  shows "narrow n x" and "2 ^ k * signed_units n x = d"
proof -
  let ?u = "d div 2 ^ k"
  let ?e = "if ?u < 0 then 2 ^ n + ?u else ?u"
  from x have dvd: "2 ^ k dvd d" and r: "- (2 ^ (n - 1)) \<le> ?u" "?u < 2 ^ (n - 1)"
    and xe: "x = word_of_int ?e"
    by (simp_all only: signed_scaled_by_Inr [OF n])
  have p: "(2 :: int) ^ n = 2 * 2 ^ (n - 1)" using n by (cases n) auto
  have q: "(2 :: int) ^ n < 2 ^ 32" using n by (intro power_strict_increasing) auto
  have e: "0 \<le> ?e" "?e < 2 ^ n" using r p by auto
  then have u: "uint x = ?e" using q by (simp add: xe unsigned_of_int take_bit_int_eq_self)
  then have "int (unat x) < int (2 ^ n)" using e by simp
  then show "narrow n x" unfolding narrow_def by (simp only: of_nat_less_iff)
  have "signed_units n x = ?u"
    unfolding signed_units_def u using r p by auto
  with dvd show "2 ^ k * signed_units n x = d" by simp
qed

lemma signed_scaled_reads:
  assumes "1 \<le> n" "n < 32" "signed_scaled d n = Inr x"
  shows "narrow n x" and "4 * signed_units n x = d"
  using signed_scaled_by_reads [OF assms(1,2) assms(3) [unfolded signed_scaled_def]] by simp_all

lemma narrow_imm16: "narrow 16 (ucast (x :: u16))"
  by (rule narrow_ucast, rule order_less_le_trans, rule unsigned_less) simp

lemma narrow_imm12: "\<not> 0xfff < (x :: u16) \<Longrightarrow> narrow 12 (ucast x)"
  by (rule narrow_ucast) (simp add: word_less_nat_alt)

lemma narrow_shift3: "\<not> 4 < (x :: u8) \<Longrightarrow> narrow 3 (ucast x)"
  by (rule narrow_ucast) (simp add: word_less_nat_alt)

lemma narrow_offset: "\<not> 0xfff < (x :: u32) \<Longrightarrow> narrow 12 x"
  by (simp add: narrow_def word_less_nat_alt)

lemma offset_exact: "(x :: 'a::len word) mod n = 0 \<Longrightarrow> n * (x div n) = x"
  by (metis add.right_neutral mult.commute div_mult_mod_eq)

lemma offset_exact_dvd: "2 ^ n dvd (x :: u32) \<Longrightarrow> n < 32 \<Longrightarrow> 2 ^ n * (x div 2 ^ n) = x"
proof -
  assume "2 ^ n dvd x" and n: "n < 32"
  then have "unat (2 ^ n :: u32) dvd unat x" by (simp add: exp_dvd_iff_exp_udvd udvd_iff_dvd)
  then have "x mod 2 ^ n = 0" by (simp add: word_unat_eq_iff unat_mod_distrib)
  then show ?thesis by (rule offset_exact)
qed

lemmas offset_exact_cases = offset_exact_dvd [where n = 1, simplified]
  offset_exact_dvd [where n = 2, simplified] offset_exact_dvd [where n = 3, simplified]

lemma narrow_source_bits: "n \<noteq> 0 \<Longrightarrow> \<not> 64 < (n :: u8) \<Longrightarrow> narrow 6 (ucast (n - 1))"
proof -
  assume n: "n \<noteq> 0" "\<not> 64 < n"
  then have "unat (n - 1) = unat n - 1"
    by (subst unat_sub) (simp_all add: word_le_nat_alt unat_gt_0 Suc_leI)
  then show ?thesis using n by (intro narrow_ucast) (simp add: word_less_nat_alt)
qed

lemma narrow_source_bits_32: "n \<noteq> 0 \<Longrightarrow> \<not> 32 < (n :: u8) \<Longrightarrow> narrow 6 (ucast (n - 1))"
  by (rule narrow_source_bits) (auto simp: word_less_nat_alt)

lemma narrow_halfword:
  "move_wide_halfword sz s = Inr h \<Longrightarrow> narrow 2 (ucast h)"
  unfolding move_wide_halfword_def
  by (auto simp: Let_def word_less_nat_alt intro!: narrow_ucast split: if_splits arm64_data_size.splits)

lemma halfword_exact: "move_wide_halfword sz s = Inr h \<Longrightarrow> 16 * h = s"
proof -
  assume "move_wide_halfword sz s = Inr h"
  then have "s mod 16 = 0" and "h = s div 16"
    by (auto simp: move_wide_halfword_def Let_def split: if_splits arm64_data_size.splits)
  then show ?thesis by (simp add: offset_exact)
qed

lemma narrow_take_bit: "narrow n (take_bit n x)"
  by (simp add: narrow_def unsigned_take_bit_eq)

lemma low_field: "x AND 3 = (take_bit 2 x :: u32)"
  by (simp add: take_bit_eq_mask mask_numeral)

lemma narrow_high:
  assumes "narrow 21 x"
  shows "narrow 19 (drop_bit 2 x)"
  using assms by (simp add: narrow_def unsigned_drop_bit_eq drop_bit_nat_def take_bit_nat_eq_self)

lemma low_high: "take_bit 2 x OR push_bit 2 (drop_bit 2 (x :: u32)) = x"
proof (rule bit_word_eqI)
  fix n show "bit (take_bit 2 x OR push_bit 2 (drop_bit 2 x)) n \<longleftrightarrow> bit x n" if "n < LENGTH(32)"
    using that by (cases "n < 2") (auto simp: bit_simps le_add_diff_inverse simp flip: add_2_eq_Suc)
qed

lemmas address_page_reads = signed_scaled_by_reads [where k = 12, simplified]

section \<open>Decoding returns the instruction\<close>

lemma decode_via:
  assumes "set forms \<subseteq> set decode_forms"
    and "map_of (map (\<lambda>(m, v, build). ((m, v), build)) forms) (m, v) = Some build"
    and "w AND m = v" and "build w = i"
  shows "decode w = Some i"
proof -
  have "((m, v), build) \<in> set (map (\<lambda>(m, v, build). ((m, v), build)) forms)"
    using assms(2) by (rule map_of_SomeD)
  then have "(m, v, build) \<in> set decode_forms" using assms(1) by auto
  from decode_form [OF this assms(3)] assms(4) show ?thesis by simp
qed

lemma form_groups:
  "set control_forms \<subseteq> set decode_forms"
  "set arithmetic_forms \<subseteq> set decode_forms"
  "set floating_forms \<subseteq> set decode_forms"
  "set memory_forms \<subseteq> set decode_forms"
  by (auto simp: decode_forms_def)

lemmas via_control = decode_via [OF form_groups(1)]
lemmas via_arithmetic = decode_via [OF form_groups(2)]
lemmas via_floating = decode_via [OF form_groups(3)]
lemmas via_memory = decode_via [OF form_groups(4)]

lemmas form_lists = control_forms_def arithmetic_forms_def floating_forms_def memory_forms_def

lemmas field_widths = narrow_reg narrow_float narrow_data narrow_base narrow_destination
  narrow_condition narrow_of_bool narrow_imm16 narrow_imm12 narrow_shift3 narrow_offset
  narrow_halfword narrow_source_bits narrow_source_bits_32

lemmas field_reads = field_widths [THEN bits_same] field_widths [THEN bits_other]
  field_widths [THEN bits_same0] field_widths [THEN bits_other0]

lemmas field_masks = bit.conj_disj_distrib2 field_widths [THEN push_and] field_widths [THEN and_narrow]

lemmas encode_unfold = encode_def category_def encode_arithmetic_def encode_memory_def
  encode_control_def encode_add_subtract_def is_float_arithmetic_def float_arithmetic_def
  float_memory_def Let_def valid_operands_def

lemma decode_no_operation:
  assumes "valid_operands (NoOperation)" and "encode (NoOperation) = Inr w"
  shows "decode w = Some (NoOperation)"
  using assms
  by - (rule via_control [of "0xffffffff" "0xd503201f"], simp add: form_lists,
    (auto simp: encode_unfold  field_masks split: if_splits)[1],
    (auto simp: encode_unfold  field_reads to_size_def split: if_splits))

lemma decode_clear_exclusive:
  assumes "valid_operands (ClearExclusive)" and "encode (ClearExclusive) = Inr w"
  shows "decode w = Some (ClearExclusive)"
  using assms
  by - (rule via_control [of "0xffffffff" "0xd5033f5f"], simp add: form_lists,
    (auto simp: encode_unfold  field_masks split: if_splits)[1],
    (auto simp: encode_unfold  field_reads to_size_def split: if_splits))

lemma decode_barrier:
  assumes "valid_operands (InstructionSynchronizationBarrier)" and "encode (InstructionSynchronizationBarrier) = Inr w"
  shows "decode w = Some (InstructionSynchronizationBarrier)"
  using assms
  by - (rule via_control [of "0xffffffff" "0xd5033fdf"], simp add: form_lists,
    (auto simp: encode_unfold  field_masks split: if_splits)[1],
    (auto simp: encode_unfold  field_reads to_size_def split: if_splits))

lemma decode_conditional_set:
  assumes "valid_operands (ConditionalSet sz d c)" and "encode (ConditionalSet sz d c) = Inr w"
  shows "decode w = Some (ConditionalSet sz d c)"
  using assms
  by - (rule via_control [of "0x7fff0fe0" "0x1a9f07e0"], simp add: form_lists,
    (cases sz; auto simp: encode_unfold encode_conditional_set_def field_masks split: if_splits)[1],
    (cases sz; auto simp: encode_unfold encode_conditional_set_def field_reads to_size_def split: if_splits))

lemma decode_branch_register:
  assumes "valid_operands (BranchRegister t False)" and "encode (BranchRegister t False) = Inr w"
  shows "decode w = Some (BranchRegister t False)"
  using assms
  by - (rule via_control [of "0xfffffc1f" "0xd61f0000"], simp add: form_lists,
    (auto simp: encode_unfold  field_masks split: if_splits)[1],
    (auto simp: encode_unfold  field_reads to_size_def split: if_splits))

lemma decode_branch_register_link:
  assumes "valid_operands (BranchRegister t True)" and "encode (BranchRegister t True) = Inr w"
  shows "decode w = Some (BranchRegister t True)"
  using assms
  by - (rule via_control [of "0xfffffc1f" "0xd63f0000"], simp add: form_lists,
    (auto simp: encode_unfold  field_masks split: if_splits)[1],
    (auto simp: encode_unfold  field_reads to_size_def split: if_splits))

lemma decode_return:
  assumes "valid_operands (Return t)" and "encode (Return t) = Inr w"
  shows "decode w = Some (Return t)"
  using assms
  by - (rule via_control [of "0xfffffc1f" "0xd65f0000"], simp add: form_lists,
    (auto simp: encode_unfold  field_masks split: if_splits)[1],
    (auto simp: encode_unfold  field_reads to_size_def split: if_splits))

lemma decode_break:
  assumes "valid_operands (Break i)" and "encode (Break i) = Inr w"
  shows "decode w = Some (Break i)"
  using assms
  by - (rule via_control [of "0xffe0001f" "0xd4200000"], simp add: form_lists,
    (auto simp: encode_unfold ucast_up_down field_masks split: if_splits)[1],
    (auto simp: encode_unfold ucast_up_down field_reads to_size_def split: if_splits))

lemma decode_supervisor_call:
  assumes "valid_operands (SupervisorCall i)" and "encode (SupervisorCall i) = Inr w"
  shows "decode w = Some (SupervisorCall i)"
  using assms
  by - (rule via_control [of "0xffe0001f" "0xd4000001"], simp add: form_lists,
    (auto simp: encode_unfold ucast_up_down field_masks split: if_splits)[1],
    (auto simp: encode_unfold ucast_up_down field_reads to_size_def split: if_splits))

lemma decode_counter_frequency:
  assumes "valid_operands (ReadSystemRegister d CounterFrequency)" and "encode (ReadSystemRegister d CounterFrequency) = Inr w"
  shows "decode w = Some (ReadSystemRegister d CounterFrequency)"
  using assms
  by - (rule via_control [of "0xffffffe0" "0xd53be000"], simp add: form_lists,
    (auto simp: encode_unfold  field_masks split: if_splits)[1],
    (auto simp: encode_unfold  field_reads to_size_def split: if_splits))

lemma decode_counter_virtual:
  assumes "valid_operands (ReadSystemRegister d CounterVirtual)" and "encode (ReadSystemRegister d CounterVirtual) = Inr w"
  shows "decode w = Some (ReadSystemRegister d CounterVirtual)"
  using assms
  by - (rule via_control [of "0xffffffe0" "0xd53be040"], simp add: form_lists,
    (auto simp: encode_unfold  field_masks split: if_splits)[1],
    (auto simp: encode_unfold  field_reads to_size_def split: if_splits))

lemma decode_add_subtract_immediate:
  assumes "valid_operands (AddSubtractImmediate sz o1 f d s i h)" and "encode (AddSubtractImmediate sz o1 f d s i h) = Inr w"
  shows "decode w = Some (AddSubtractImmediate sz o1 f d s i h)"
  using assms
  by - (rule via_arithmetic [of "0x1f800000" "0x11000000"], simp add: form_lists,
    (cases sz; cases o1; cases f; cases h; auto simp: encode_unfold encode_add_subtract_immediate_def add_subtract_bits_def to_destination_encoding ucast_up_down field_masks split: if_splits)[1],
    (cases sz; cases o1; cases f; cases h; auto simp: encode_unfold encode_add_subtract_immediate_def add_subtract_bits_def to_destination_encoding ucast_up_down field_reads to_size_def split: if_splits))

lemma decode_add_subtract_register:
  assumes "valid_operands (AddSubtractRegister sz o1 f d l r)" and "encode (AddSubtractRegister sz o1 f d l r) = Inr w"
  shows "decode w = Some (AddSubtractRegister sz o1 f d l r)"
  using assms
  by - (rule via_arithmetic [of "0x1fe0fc00" "0x0b000000"], simp add: form_lists,
    (cases sz; cases o1; cases f; auto simp: encode_unfold encode_add_subtract_register_def add_subtract_bits_def field_masks split: if_splits)[1],
    (cases sz; cases o1; cases f; auto simp: encode_unfold encode_add_subtract_register_def add_subtract_bits_def field_reads to_size_def split: if_splits))

lemma decode_add_subtract_extended:
  assumes "valid_operands (AddSubtractExtendedRegister o1 f d l r h)" and "encode (AddSubtractExtendedRegister o1 f d l r h) = Inr w"
  shows "decode w = Some (AddSubtractExtendedRegister o1 f d l r h)"
  using assms
  by - (rule via_arithmetic [of "0x9fe0e000" "0x8b206000"], simp add: form_lists,
    (cases o1; cases f; auto simp: encode_unfold encode_add_subtract_extended_def add_subtract_bits_def to_destination_encoding ucast_up_down field_masks split: if_splits)[1],
    (cases o1; cases f; auto simp: encode_unfold encode_add_subtract_extended_def add_subtract_bits_def to_destination_encoding ucast_up_down field_reads to_size_def split: if_splits))

lemma decode_logical_and:
  assumes "valid_operands (LogicalRegister sz LogicalAnd d l r)" and "encode (LogicalRegister sz LogicalAnd d l r) = Inr w"
  shows "decode w = Some (LogicalRegister sz LogicalAnd d l r)"
  using assms
  by - (rule via_arithmetic [of "0x7fe0fc00" "0x0a000000"], simp add: form_lists,
    (cases sz; auto simp: encode_unfold encode_logical_register_def field_masks split: if_splits)[1],
    (cases sz; auto simp: encode_unfold encode_logical_register_def field_reads to_size_def split: if_splits))

lemma decode_logical_or:
  assumes "valid_operands (LogicalRegister sz LogicalOr d l r)" and "encode (LogicalRegister sz LogicalOr d l r) = Inr w"
  shows "decode w = Some (LogicalRegister sz LogicalOr d l r)"
  using assms
  by - (rule via_arithmetic [of "0x7fe0fc00" "0x2a000000"], simp add: form_lists,
    (cases sz; auto simp: encode_unfold encode_logical_register_def field_masks split: if_splits)[1],
    (cases sz; auto simp: encode_unfold encode_logical_register_def field_reads to_size_def split: if_splits))

lemma decode_logical_exclusive_or:
  assumes "valid_operands (LogicalRegister sz LogicalExclusiveOr d l r)" and "encode (LogicalRegister sz LogicalExclusiveOr d l r) = Inr w"
  shows "decode w = Some (LogicalRegister sz LogicalExclusiveOr d l r)"
  using assms
  by - (rule via_arithmetic [of "0x7fe0fc00" "0x4a000000"], simp add: form_lists,
    (cases sz; auto simp: encode_unfold encode_logical_register_def field_masks split: if_splits)[1],
    (cases sz; auto simp: encode_unfold encode_logical_register_def field_reads to_size_def split: if_splits))

lemma decode_logical_and_set_flags:
  assumes "valid_operands (LogicalRegister sz LogicalAndSetFlags d l r)" and "encode (LogicalRegister sz LogicalAndSetFlags d l r) = Inr w"
  shows "decode w = Some (LogicalRegister sz LogicalAndSetFlags d l r)"
  using assms
  by - (rule via_arithmetic [of "0x7fe0fc00" "0x6a000000"], simp add: form_lists,
    (cases sz; auto simp: encode_unfold encode_logical_register_def field_masks split: if_splits)[1],
    (cases sz; auto simp: encode_unfold encode_logical_register_def field_reads to_size_def split: if_splits))

lemma decode_move_wide_zero:
  assumes "valid_operands (MoveWide sz MoveZero d i s)" and "encode (MoveWide sz MoveZero d i s) = Inr w"
  shows "decode w = Some (MoveWide sz MoveZero d i s)"
  using assms
  by - (rule via_arithmetic [of "0x7f800000" "0x52800000"], simp add: form_lists,
    (cases sz; auto simp: encode_unfold encode_move_wide_def halfword_exact ucast_up_down field_masks split: if_splits)[1],
    (cases sz; auto simp: encode_unfold encode_move_wide_def halfword_exact ucast_up_down field_reads to_size_def split: if_splits))

lemma decode_move_wide_keep:
  assumes "valid_operands (MoveWide sz MoveKeep d i s)" and "encode (MoveWide sz MoveKeep d i s) = Inr w"
  shows "decode w = Some (MoveWide sz MoveKeep d i s)"
  using assms
  by - (rule via_arithmetic [of "0x7f800000" "0x72800000"], simp add: form_lists,
    (cases sz; auto simp: encode_unfold encode_move_wide_def halfword_exact ucast_up_down field_masks split: if_splits)[1],
    (cases sz; auto simp: encode_unfold encode_move_wide_def halfword_exact ucast_up_down field_reads to_size_def split: if_splits))

lemma decode_multiply_add:
  assumes "valid_operands (MultiplyAdd sz d l r a s)" and "encode (MultiplyAdd sz d l r a s) = Inr w"
  shows "decode w = Some (MultiplyAdd sz d l r a s)"
  using assms
  by - (rule via_arithmetic [of "0x7fe00000" "0x1b000000"], simp add: form_lists,
    (cases sz; cases s; auto simp: encode_unfold encode_multiply_add_def field_masks split: if_splits)[1],
    (cases sz; cases s; auto simp: encode_unfold encode_multiply_add_def field_reads to_size_def split: if_splits))

lemma decode_multiply_high_signed:
  assumes "valid_operands (MultiplyHigh True d l r)" and "encode (MultiplyHigh True d l r) = Inr w"
  shows "decode w = Some (MultiplyHigh True d l r)"
  using assms
  by - (rule via_arithmetic [of "0xffe0fc00" "0x9b407c00"], simp add: form_lists,
    (auto simp: encode_unfold encode_multiply_high_def field_masks split: if_splits)[1],
    (auto simp: encode_unfold encode_multiply_high_def field_reads to_size_def split: if_splits))

lemma decode_multiply_high_unsigned:
  assumes "valid_operands (MultiplyHigh False d l r)" and "encode (MultiplyHigh False d l r) = Inr w"
  shows "decode w = Some (MultiplyHigh False d l r)"
  using assms
  by - (rule via_arithmetic [of "0xffe0fc00" "0x9bc07c00"], simp add: form_lists,
    (auto simp: encode_unfold encode_multiply_high_def field_masks split: if_splits)[1],
    (auto simp: encode_unfold encode_multiply_high_def field_reads to_size_def split: if_splits))

lemma decode_multiply_long_signed:
  assumes "valid_operands (MultiplyLong True d l r)" and "encode (MultiplyLong True d l r) = Inr w"
  shows "decode w = Some (MultiplyLong True d l r)"
  using assms
  by - (rule via_arithmetic [of "0xffe0fc00" "0x9b207c00"], simp add: form_lists,
    (auto simp: encode_unfold encode_multiply_long_def field_masks split: if_splits)[1],
    (auto simp: encode_unfold encode_multiply_long_def field_reads to_size_def split: if_splits))

lemma decode_multiply_long_unsigned:
  assumes "valid_operands (MultiplyLong False d l r)" and "encode (MultiplyLong False d l r) = Inr w"
  shows "decode w = Some (MultiplyLong False d l r)"
  using assms
  by - (rule via_arithmetic [of "0xffe0fc00" "0x9ba07c00"], simp add: form_lists,
    (auto simp: encode_unfold encode_multiply_long_def field_masks split: if_splits)[1],
    (auto simp: encode_unfold encode_multiply_long_def field_reads to_size_def split: if_splits))

lemma decode_divide_signed:
  assumes "valid_operands (Divide sz d l r True)" and "encode (Divide sz d l r True) = Inr w"
  shows "decode w = Some (Divide sz d l r True)"
  using assms
  by - (rule via_arithmetic [of "0x7fe0fc00" "0x1ac00c00"], simp add: form_lists,
    (cases sz; auto simp: encode_unfold encode_divide_def field_masks split: if_splits)[1],
    (cases sz; auto simp: encode_unfold encode_divide_def field_reads to_size_def split: if_splits))

lemma decode_divide_unsigned:
  assumes "valid_operands (Divide sz d l r False)" and "encode (Divide sz d l r False) = Inr w"
  shows "decode w = Some (Divide sz d l r False)"
  using assms
  by - (rule via_arithmetic [of "0x7fe0fc00" "0x1ac00800"], simp add: form_lists,
    (cases sz; auto simp: encode_unfold encode_divide_def field_masks split: if_splits)[1],
    (cases sz; auto simp: encode_unfold encode_divide_def field_reads to_size_def split: if_splits))

lemma decode_shift_left:
  assumes "valid_operands (VariableShift sz ShiftLeft d v a)" and "encode (VariableShift sz ShiftLeft d v a) = Inr w"
  shows "decode w = Some (VariableShift sz ShiftLeft d v a)"
  using assms
  by - (rule via_arithmetic [of "0x7fe0fc00" "0x1ac02000"], simp add: form_lists,
    (cases sz; auto simp: encode_unfold encode_variable_shift_def field_masks split: if_splits)[1],
    (cases sz; auto simp: encode_unfold encode_variable_shift_def field_reads to_size_def split: if_splits))

lemma decode_shift_right_logical:
  assumes "valid_operands (VariableShift sz ShiftRightLogical d v a)" and "encode (VariableShift sz ShiftRightLogical d v a) = Inr w"
  shows "decode w = Some (VariableShift sz ShiftRightLogical d v a)"
  using assms
  by - (rule via_arithmetic [of "0x7fe0fc00" "0x1ac02400"], simp add: form_lists,
    (cases sz; auto simp: encode_unfold encode_variable_shift_def field_masks split: if_splits)[1],
    (cases sz; auto simp: encode_unfold encode_variable_shift_def field_reads to_size_def split: if_splits))

lemma decode_shift_right_arithmetic:
  assumes "valid_operands (VariableShift sz ShiftRightArithmetic d v a)" and "encode (VariableShift sz ShiftRightArithmetic d v a) = Inr w"
  shows "decode w = Some (VariableShift sz ShiftRightArithmetic d v a)"
  using assms
  by - (rule via_arithmetic [of "0x7fe0fc00" "0x1ac02800"], simp add: form_lists,
    (cases sz; auto simp: encode_unfold encode_variable_shift_def field_masks split: if_splits)[1],
    (cases sz; auto simp: encode_unfold encode_variable_shift_def field_reads to_size_def split: if_splits))

lemma decode_shift_rotate_right:
  assumes "valid_operands (VariableShift sz ShiftRotateRight d v a)" and "encode (VariableShift sz ShiftRotateRight d v a) = Inr w"
  shows "decode w = Some (VariableShift sz ShiftRotateRight d v a)"
  using assms
  by - (rule via_arithmetic [of "0x7fe0fc00" "0x1ac02c00"], simp add: form_lists,
    (cases sz; auto simp: encode_unfold encode_variable_shift_def field_masks split: if_splits)[1],
    (cases sz; auto simp: encode_unfold encode_variable_shift_def field_reads to_size_def split: if_splits))

lemma decode_count_leading_zeros:
  assumes "valid_operands (CountLeadingZeros d s)" and "encode (CountLeadingZeros d s) = Inr w"
  shows "decode w = Some (CountLeadingZeros d s)"
  using assms
  by - (rule via_arithmetic [of "0xfffffc00" "0xdac01000"], simp add: form_lists,
    (auto simp: encode_unfold encode_count_leading_zeros_def field_masks split: if_splits)[1],
    (auto simp: encode_unfold encode_count_leading_zeros_def field_reads to_size_def split: if_splits))

lemma decode_extend_signed_32:
  assumes "valid_operands (BitfieldExtend Bits32 True n d s)" and "encode (BitfieldExtend Bits32 True n d s) = Inr w"
  shows "decode w = Some (BitfieldExtend Bits32 True n d s)"
  using assms
  by - (rule via_arithmetic [of "0xffff0000" "0x13000000"], simp add: form_lists,
    (auto simp: encode_unfold encode_bitfield_extend_def ucast_up_down field_masks split: if_splits)[1],
    (auto simp: encode_unfold encode_bitfield_extend_def ucast_up_down field_reads to_size_def split: if_splits))

lemma decode_extend_unsigned_32:
  assumes "valid_operands (BitfieldExtend Bits32 False n d s)" and "encode (BitfieldExtend Bits32 False n d s) = Inr w"
  shows "decode w = Some (BitfieldExtend Bits32 False n d s)"
  using assms
  by - (rule via_arithmetic [of "0xffff0000" "0x53000000"], simp add: form_lists,
    (auto simp: encode_unfold encode_bitfield_extend_def ucast_up_down field_masks split: if_splits)[1],
    (auto simp: encode_unfold encode_bitfield_extend_def ucast_up_down field_reads to_size_def split: if_splits))

lemma decode_extend_signed_64:
  assumes "valid_operands (BitfieldExtend Bits64 True n d s)" and "encode (BitfieldExtend Bits64 True n d s) = Inr w"
  shows "decode w = Some (BitfieldExtend Bits64 True n d s)"
  using assms
  by - (rule via_arithmetic [of "0xffff0000" "0x93400000"], simp add: form_lists,
    (auto simp: encode_unfold encode_bitfield_extend_def ucast_up_down field_masks split: if_splits)[1],
    (auto simp: encode_unfold encode_bitfield_extend_def ucast_up_down field_reads to_size_def split: if_splits))

lemma decode_extend_unsigned_64:
  assumes "valid_operands (BitfieldExtend Bits64 False n d s)" and "encode (BitfieldExtend Bits64 False n d s) = Inr w"
  shows "decode w = Some (BitfieldExtend Bits64 False n d s)"
  using assms
  by - (rule via_arithmetic [of "0xffff0000" "0xd3400000"], simp add: form_lists,
    (auto simp: encode_unfold encode_bitfield_extend_def ucast_up_down field_masks split: if_splits)[1],
    (auto simp: encode_unfold encode_bitfield_extend_def ucast_up_down field_reads to_size_def split: if_splits))

lemma decode_float_move:
  assumes "valid_operands (FloatMove sz d s)" and "encode (FloatMove sz d s) = Inr w"
  shows "decode w = Some (FloatMove sz d s)"
  using assms
  by - (rule via_floating [of "0xffbffc00" "0x1e204000"], simp add: form_lists,
    (cases sz; auto simp: encode_unfold  field_masks split: if_splits)[1],
    (cases sz; auto simp: encode_unfold  field_reads to_size_def split: if_splits))

lemma decode_float_from_general_32:
  assumes "valid_operands (FloatMoveFromGeneral Bits32 d s)" and "encode (FloatMoveFromGeneral Bits32 d s) = Inr w"
  shows "decode w = Some (FloatMoveFromGeneral Bits32 d s)"
  using assms
  by - (rule via_floating [of "0xfffffc00" "0x1e270000"], simp add: form_lists,
    (auto simp: encode_unfold  field_masks split: if_splits)[1],
    (auto simp: encode_unfold  field_reads to_size_def split: if_splits))

lemma decode_float_to_general_32:
  assumes "valid_operands (FloatMoveToGeneral Bits32 d s)" and "encode (FloatMoveToGeneral Bits32 d s) = Inr w"
  shows "decode w = Some (FloatMoveToGeneral Bits32 d s)"
  using assms
  by - (rule via_floating [of "0xfffffc00" "0x1e260000"], simp add: form_lists,
    (auto simp: encode_unfold  field_masks split: if_splits)[1],
    (auto simp: encode_unfold  field_reads to_size_def split: if_splits))

lemma decode_float_from_general_64:
  assumes "valid_operands (FloatMoveFromGeneral Bits64 d s)" and "encode (FloatMoveFromGeneral Bits64 d s) = Inr w"
  shows "decode w = Some (FloatMoveFromGeneral Bits64 d s)"
  using assms
  by - (rule via_floating [of "0xfffffc00" "0x9e670000"], simp add: form_lists,
    (auto simp: encode_unfold  field_masks split: if_splits)[1],
    (auto simp: encode_unfold  field_reads to_size_def split: if_splits))

lemma decode_float_to_general_64:
  assumes "valid_operands (FloatMoveToGeneral Bits64 d s)" and "encode (FloatMoveToGeneral Bits64 d s) = Inr w"
  shows "decode w = Some (FloatMoveToGeneral Bits64 d s)"
  using assms
  by - (rule via_floating [of "0xfffffc00" "0x9e660000"], simp add: form_lists,
    (auto simp: encode_unfold  field_masks split: if_splits)[1],
    (auto simp: encode_unfold  field_reads to_size_def split: if_splits))

lemma decode_float_from_integer:
  assumes "valid_operands (FloatFromInteger sz tz g d s)" and "encode (FloatFromInteger sz tz g d s) = Inr w"
  shows "decode w = Some (FloatFromInteger sz tz g d s)"
  using assms
  by - (rule via_floating [of "0x7fbefc00" "0x1e220000"], simp add: form_lists,
    (cases sz; cases tz; cases g; auto simp: encode_unfold float_from_integer_def field_masks split: if_splits)[1],
    (cases sz; cases tz; cases g; auto simp: encode_unfold float_from_integer_def field_reads to_size_def split: if_splits))

lemma decode_float_widen:
  assumes "valid_operands (FloatWiden d s)" and "encode (FloatWiden d s) = Inr w"
  shows "decode w = Some (FloatWiden d s)"
  using assms
  by - (rule via_floating [of "0xfffffc00" "0x1e22c000"], simp add: form_lists,
    (auto simp: encode_unfold  field_masks split: if_splits)[1],
    (auto simp: encode_unfold  field_reads to_size_def split: if_splits))

lemma decode_float_narrow:
  assumes "valid_operands (FloatNarrow d s)" and "encode (FloatNarrow d s) = Inr w"
  shows "decode w = Some (FloatNarrow d s)"
  using assms
  by - (rule via_floating [of "0xfffffc00" "0x1e624000"], simp add: form_lists,
    (auto simp: encode_unfold  field_masks split: if_splits)[1],
    (auto simp: encode_unfold  field_reads to_size_def split: if_splits))

lemma decode_float_to_signed:
  assumes "valid_operands (FloatToInteger True d s)" and "encode (FloatToInteger True d s) = Inr w"
  shows "decode w = Some (FloatToInteger True d s)"
  using assms
  by - (rule via_floating [of "0xfffffc00" "0x9e780000"], simp add: form_lists,
    (auto simp: encode_unfold  field_masks split: if_splits)[1],
    (auto simp: encode_unfold  field_reads to_size_def split: if_splits))

lemma decode_float_to_unsigned:
  assumes "valid_operands (FloatToInteger False d s)" and "encode (FloatToInteger False d s) = Inr w"
  shows "decode w = Some (FloatToInteger False d s)"
  using assms
  by - (rule via_floating [of "0xfffffc00" "0x9e790000"], simp add: form_lists,
    (auto simp: encode_unfold  field_masks split: if_splits)[1],
    (auto simp: encode_unfold  field_reads to_size_def split: if_splits))

lemma decode_float_negate:
  assumes "valid_operands (FloatNegate sz d s)" and "encode (FloatNegate sz d s) = Inr w"
  shows "decode w = Some (FloatNegate sz d s)"
  using assms
  by - (rule via_floating [of "0xffbffc00" "0x1e214000"], simp add: form_lists,
    (cases sz; auto simp: encode_unfold  field_masks split: if_splits)[1],
    (cases sz; auto simp: encode_unfold  field_reads to_size_def split: if_splits))

lemma decode_float_round_floor:
  assumes "valid_operands (FloatRound sz Floor d s)" and "encode (FloatRound sz Floor d s) = Inr w"
  shows "decode w = Some (FloatRound sz Floor d s)"
  using assms
  by - (rule via_floating [of "0xffbffc00" "0x1e254000"], simp add: form_lists,
    (cases sz; auto simp: encode_unfold float_rounding_def field_masks split: if_splits)[1],
    (cases sz; auto simp: encode_unfold float_rounding_def field_reads to_size_def split: if_splits))

lemma decode_float_round_ceil:
  assumes "valid_operands (FloatRound sz Ceil d s)" and "encode (FloatRound sz Ceil d s) = Inr w"
  shows "decode w = Some (FloatRound sz Ceil d s)"
  using assms
  by - (rule via_floating [of "0xffbffc00" "0x1e24c000"], simp add: form_lists,
    (cases sz; auto simp: encode_unfold float_rounding_def field_masks split: if_splits)[1],
    (cases sz; auto simp: encode_unfold float_rounding_def field_reads to_size_def split: if_splits))

lemma decode_float_round_truncate:
  assumes "valid_operands (FloatRound sz Truncate d s)" and "encode (FloatRound sz Truncate d s) = Inr w"
  shows "decode w = Some (FloatRound sz Truncate d s)"
  using assms
  by - (rule via_floating [of "0xffbffc00" "0x1e25c000"], simp add: form_lists,
    (cases sz; auto simp: encode_unfold float_rounding_def field_masks split: if_splits)[1],
    (cases sz; auto simp: encode_unfold float_rounding_def field_reads to_size_def split: if_splits))

lemma decode_float_round_tieseven:
  assumes "valid_operands (FloatRound sz TiesEven d s)" and "encode (FloatRound sz TiesEven d s) = Inr w"
  shows "decode w = Some (FloatRound sz TiesEven d s)"
  using assms
  by - (rule via_floating [of "0xffbffc00" "0x1e244000"], simp add: form_lists,
    (cases sz; auto simp: encode_unfold float_rounding_def field_masks split: if_splits)[1],
    (cases sz; auto simp: encode_unfold float_rounding_def field_reads to_size_def split: if_splits))

lemma decode_float_add:
  assumes "valid_operands (FloatBinary sz FloatAdd d l r)" and "encode (FloatBinary sz FloatAdd d l r) = Inr w"
  shows "decode w = Some (FloatBinary sz FloatAdd d l r)"
  using assms
  by - (rule via_floating [of "0xffa0fc00" "0x1e202800"], simp add: form_lists,
    (cases sz; auto simp: encode_unfold  field_masks split: if_splits)[1],
    (cases sz; auto simp: encode_unfold  field_reads to_size_def split: if_splits))

lemma decode_float_subtract:
  assumes "valid_operands (FloatBinary sz FloatSubtract d l r)" and "encode (FloatBinary sz FloatSubtract d l r) = Inr w"
  shows "decode w = Some (FloatBinary sz FloatSubtract d l r)"
  using assms
  by - (rule via_floating [of "0xffa0fc00" "0x1e203800"], simp add: form_lists,
    (cases sz; auto simp: encode_unfold  field_masks split: if_splits)[1],
    (cases sz; auto simp: encode_unfold  field_reads to_size_def split: if_splits))

lemma decode_float_multiply:
  assumes "valid_operands (FloatBinary sz FloatMultiply d l r)" and "encode (FloatBinary sz FloatMultiply d l r) = Inr w"
  shows "decode w = Some (FloatBinary sz FloatMultiply d l r)"
  using assms
  by - (rule via_floating [of "0xffa0fc00" "0x1e200800"], simp add: form_lists,
    (cases sz; auto simp: encode_unfold  field_masks split: if_splits)[1],
    (cases sz; auto simp: encode_unfold  field_reads to_size_def split: if_splits))

lemma decode_float_divide:
  assumes "valid_operands (FloatBinary sz FloatDivide d l r)" and "encode (FloatBinary sz FloatDivide d l r) = Inr w"
  shows "decode w = Some (FloatBinary sz FloatDivide d l r)"
  using assms
  by - (rule via_floating [of "0xffa0fc00" "0x1e201800"], simp add: form_lists,
    (cases sz; auto simp: encode_unfold  field_masks split: if_splits)[1],
    (cases sz; auto simp: encode_unfold  field_reads to_size_def split: if_splits))

lemma decode_float_compare:
  assumes "valid_operands (FloatCompare sz l r)" and "encode (FloatCompare sz l r) = Inr w"
  shows "decode w = Some (FloatCompare sz l r)"
  using assms
  by - (rule via_floating [of "0xffa0fc1f" "0x1e202000"], simp add: form_lists,
    (cases sz; auto simp: encode_unfold  field_masks split: if_splits)[1],
    (cases sz; auto simp: encode_unfold  field_reads to_size_def split: if_splits))

lemma decode_store_byte:
  assumes "valid_operands (StoreUnsigned Byte d b off)" and "encode (StoreUnsigned Byte d b off) = Inr w"
  shows "decode w = Some (StoreUnsigned Byte d b off)"
  using assms
  by - (rule via_memory [of "0xffc00000" "0x39000000"], simp add: form_lists,
    (auto simp: encode_unfold encode_load_store_def offset_exact_cases field_masks split: if_splits)[1],
    (auto simp: encode_unfold encode_load_store_def offset_exact_cases field_reads to_size_def split: if_splits))

lemma decode_load_byte:
  assumes "valid_operands (LoadUnsigned Byte d b off)" and "encode (LoadUnsigned Byte d b off) = Inr w"
  shows "decode w = Some (LoadUnsigned Byte d b off)"
  using assms
  by - (rule via_memory [of "0xffc00000" "0x39400000"], simp add: form_lists,
    (auto simp: encode_unfold encode_load_store_def offset_exact_cases field_masks split: if_splits)[1],
    (auto simp: encode_unfold encode_load_store_def offset_exact_cases field_reads to_size_def split: if_splits))

lemma decode_store_half:
  assumes "valid_operands (StoreUnsigned Half d b off)" and "encode (StoreUnsigned Half d b off) = Inr w"
  shows "decode w = Some (StoreUnsigned Half d b off)"
  using assms
  by - (rule via_memory [of "0xffc00000" "0x79000000"], simp add: form_lists,
    (auto simp: encode_unfold encode_load_store_def offset_exact_cases field_masks split: if_splits)[1],
    (auto simp: encode_unfold encode_load_store_def offset_exact_cases field_reads to_size_def split: if_splits))

lemma decode_load_half:
  assumes "valid_operands (LoadUnsigned Half d b off)" and "encode (LoadUnsigned Half d b off) = Inr w"
  shows "decode w = Some (LoadUnsigned Half d b off)"
  using assms
  by - (rule via_memory [of "0xffc00000" "0x79400000"], simp add: form_lists,
    (auto simp: encode_unfold encode_load_store_def offset_exact_cases field_masks split: if_splits)[1],
    (auto simp: encode_unfold encode_load_store_def offset_exact_cases field_reads to_size_def split: if_splits))

lemma decode_store_word:
  assumes "valid_operands (StoreUnsigned Word d b off)" and "encode (StoreUnsigned Word d b off) = Inr w"
  shows "decode w = Some (StoreUnsigned Word d b off)"
  using assms
  by - (rule via_memory [of "0xffc00000" "0xb9000000"], simp add: form_lists,
    (auto simp: encode_unfold encode_load_store_def offset_exact_cases field_masks split: if_splits)[1],
    (auto simp: encode_unfold encode_load_store_def offset_exact_cases field_reads to_size_def split: if_splits))

lemma decode_load_word:
  assumes "valid_operands (LoadUnsigned Word d b off)" and "encode (LoadUnsigned Word d b off) = Inr w"
  shows "decode w = Some (LoadUnsigned Word d b off)"
  using assms
  by - (rule via_memory [of "0xffc00000" "0xb9400000"], simp add: form_lists,
    (auto simp: encode_unfold encode_load_store_def offset_exact_cases field_masks split: if_splits)[1],
    (auto simp: encode_unfold encode_load_store_def offset_exact_cases field_reads to_size_def split: if_splits))

lemma decode_store_double:
  assumes "valid_operands (StoreUnsigned Double d b off)" and "encode (StoreUnsigned Double d b off) = Inr w"
  shows "decode w = Some (StoreUnsigned Double d b off)"
  using assms
  by - (rule via_memory [of "0xffc00000" "0xf9000000"], simp add: form_lists,
    (auto simp: encode_unfold encode_load_store_def offset_exact_cases field_masks split: if_splits)[1],
    (auto simp: encode_unfold encode_load_store_def offset_exact_cases field_reads to_size_def split: if_splits))

lemma decode_load_double:
  assumes "valid_operands (LoadUnsigned Double d b off)" and "encode (LoadUnsigned Double d b off) = Inr w"
  shows "decode w = Some (LoadUnsigned Double d b off)"
  using assms
  by - (rule via_memory [of "0xffc00000" "0xf9400000"], simp add: form_lists,
    (auto simp: encode_unfold encode_load_store_def offset_exact_cases field_masks split: if_splits)[1],
    (auto simp: encode_unfold encode_load_store_def offset_exact_cases field_reads to_size_def split: if_splits))

lemma decode_load_signed_byte_32:
  assumes "valid_operands (LoadSigned Byte Bits32 d b off)" and "encode (LoadSigned Byte Bits32 d b off) = Inr w"
  shows "decode w = Some (LoadSigned Byte Bits32 d b off)"
  using assms
  by - (rule via_memory [of "0xffc00000" "0x39c00000"], simp add: form_lists,
    (auto simp: encode_unfold encode_signed_load_def offset_exact_cases field_masks split: if_splits)[1],
    (auto simp: encode_unfold encode_signed_load_def offset_exact_cases field_reads to_size_def split: if_splits))

lemma decode_load_signed_byte_64:
  assumes "valid_operands (LoadSigned Byte Bits64 d b off)" and "encode (LoadSigned Byte Bits64 d b off) = Inr w"
  shows "decode w = Some (LoadSigned Byte Bits64 d b off)"
  using assms
  by - (rule via_memory [of "0xffc00000" "0x39800000"], simp add: form_lists,
    (auto simp: encode_unfold encode_signed_load_def offset_exact_cases field_masks split: if_splits)[1],
    (auto simp: encode_unfold encode_signed_load_def offset_exact_cases field_reads to_size_def split: if_splits))

lemma decode_load_signed_half_32:
  assumes "valid_operands (LoadSigned Half Bits32 d b off)" and "encode (LoadSigned Half Bits32 d b off) = Inr w"
  shows "decode w = Some (LoadSigned Half Bits32 d b off)"
  using assms
  by - (rule via_memory [of "0xffc00000" "0x79c00000"], simp add: form_lists,
    (auto simp: encode_unfold encode_signed_load_def offset_exact_cases field_masks split: if_splits)[1],
    (auto simp: encode_unfold encode_signed_load_def offset_exact_cases field_reads to_size_def split: if_splits))

lemma decode_load_signed_half_64:
  assumes "valid_operands (LoadSigned Half Bits64 d b off)" and "encode (LoadSigned Half Bits64 d b off) = Inr w"
  shows "decode w = Some (LoadSigned Half Bits64 d b off)"
  using assms
  by - (rule via_memory [of "0xffc00000" "0x79800000"], simp add: form_lists,
    (auto simp: encode_unfold encode_signed_load_def offset_exact_cases field_masks split: if_splits)[1],
    (auto simp: encode_unfold encode_signed_load_def offset_exact_cases field_reads to_size_def split: if_splits))

lemma decode_load_signed_word_64:
  assumes "valid_operands (LoadSigned Word Bits64 d b off)" and "encode (LoadSigned Word Bits64 d b off) = Inr w"
  shows "decode w = Some (LoadSigned Word Bits64 d b off)"
  using assms
  by - (rule via_memory [of "0xffc00000" "0xb9800000"], simp add: form_lists,
    (auto simp: encode_unfold encode_signed_load_def offset_exact_cases field_masks split: if_splits)[1],
    (auto simp: encode_unfold encode_signed_load_def offset_exact_cases field_reads to_size_def split: if_splits))

lemma decode_load_acquire:
  assumes "valid_operands (LoadAcquire sz d b)" and "encode (LoadAcquire sz d b) = Inr w"
  shows "decode w = Some (LoadAcquire sz d b)"
  using assms
  by - (rule via_memory [of "0xbffffc00" "0x88dffc00"], simp add: form_lists,
    (cases sz; auto simp: encode_unfold encode_atomic_load_store_def field_masks split: if_splits)[1],
    (cases sz; auto simp: encode_unfold encode_atomic_load_store_def field_reads to_size_def split: if_splits))

lemma decode_store_release:
  assumes "valid_operands (StoreRelease sz d b)" and "encode (StoreRelease sz d b) = Inr w"
  shows "decode w = Some (StoreRelease sz d b)"
  using assms
  by - (rule via_memory [of "0xbffffc00" "0x889ffc00"], simp add: form_lists,
    (cases sz; auto simp: encode_unfold encode_atomic_load_store_def field_masks split: if_splits)[1],
    (cases sz; auto simp: encode_unfold encode_atomic_load_store_def field_reads to_size_def split: if_splits))

lemma decode_load_acquire_exclusive:
  assumes "valid_operands (LoadAcquireExclusive sz d b)" and "encode (LoadAcquireExclusive sz d b) = Inr w"
  shows "decode w = Some (LoadAcquireExclusive sz d b)"
  using assms
  by - (rule via_memory [of "0xbffffc00" "0x885ffc00"], simp add: form_lists,
    (cases sz; auto simp: encode_unfold encode_atomic_load_store_def field_masks split: if_splits)[1],
    (cases sz; auto simp: encode_unfold encode_atomic_load_store_def field_reads to_size_def split: if_splits))

lemma decode_store_release_exclusive:
  assumes "valid_operands (StoreReleaseExclusive sz t d b)" and "encode (StoreReleaseExclusive sz t d b) = Inr w"
  shows "decode w = Some (StoreReleaseExclusive sz t d b)"
  using assms
  by - (rule via_memory [of "0xbfe0fc00" "0x8800fc00"], simp add: form_lists,
    (cases sz; auto simp: encode_unfold encode_atomic_load_store_def field_masks split: if_splits)[1],
    (cases sz; auto simp: encode_unfold encode_atomic_load_store_def field_reads to_size_def split: if_splits))

lemma decode_float_store_32:
  assumes "valid_operands (FloatStore Bits32 d b off)" and "encode (FloatStore Bits32 d b off) = Inr w"
  shows "decode w = Some (FloatStore Bits32 d b off)"
  using assms
  by - (rule via_memory [of "0xffc00000" "0xbd000000"], simp add: form_lists,
    (auto simp: encode_unfold offset_exact_cases field_masks split: if_splits)[1],
    (auto simp: encode_unfold offset_exact_cases field_reads to_size_def split: if_splits))

lemma decode_float_load_32:
  assumes "valid_operands (FloatLoad Bits32 d b off)" and "encode (FloatLoad Bits32 d b off) = Inr w"
  shows "decode w = Some (FloatLoad Bits32 d b off)"
  using assms
  by - (rule via_memory [of "0xffc00000" "0xbd400000"], simp add: form_lists,
    (auto simp: encode_unfold offset_exact_cases field_masks split: if_splits)[1],
    (auto simp: encode_unfold offset_exact_cases field_reads to_size_def split: if_splits))

lemma decode_float_store_64:
  assumes "valid_operands (FloatStore Bits64 d b off)" and "encode (FloatStore Bits64 d b off) = Inr w"
  shows "decode w = Some (FloatStore Bits64 d b off)"
  using assms
  by - (rule via_memory [of "0xffc00000" "0xfd000000"], simp add: form_lists,
    (auto simp: encode_unfold offset_exact_cases field_masks split: if_splits)[1],
    (auto simp: encode_unfold offset_exact_cases field_reads to_size_def split: if_splits))

lemma decode_float_load_64:
  assumes "valid_operands (FloatLoad Bits64 d b off)" and "encode (FloatLoad Bits64 d b off) = Inr w"
  shows "decode w = Some (FloatLoad Bits64 d b off)"
  using assms
  by - (rule via_memory [of "0xffc00000" "0xfd400000"], simp add: form_lists,
    (auto simp: encode_unfold offset_exact_cases field_masks split: if_splits)[1],
    (auto simp: encode_unfold offset_exact_cases field_reads to_size_def split: if_splits))

lemma decode_address_page:
  assumes "valid_operands (AddressPage d off)" and "encode (AddressPage d off) = Inr w"
  shows "decode w = Some (AddressPage d off)"
proof -
  obtain x where x: "signed_scaled_by off 12 21 MisalignedPageAddress PageAddressOutOfRange = Inr x"
    and w: "w = 0x90000000 OR at_bit (take_bit 2 x) 29 OR at_bit (drop_bit 2 x) 5 OR reg_field d"
    and d: "valid_register d"
    using assms by (auto simp: encode_unfold low_field)
  note reads = signed_scaled_by_reads [OF _ _ x, simplified]
  note widths = narrow_take_bit [of 2 x] narrow_high [OF reads(1)] narrow_reg [OF d]
  show ?thesis
    by (rule via_control [of "0x9f000000" "0x90000000"], simp add: form_lists,
      simp add: w bit.conj_disj_distrib2 widths [THEN push_and] widths [THEN and_narrow],
      simp add: w widths [THEN bits_same] widths [THEN bits_other] widths [THEN bits_same0]
        widths [THEN bits_other0] low_high reads(2))
qed

lemma decode_branch:
  assumes "encode (Branch off link) = Inr w"
  shows "decode w = Some (Branch off link)"
proof -
  obtain x where x: "signed_scaled off 26 = Inr x"
    and w: "w = (if link then 0x94000000 else 0x14000000) OR x"
    using assms by (auto simp: encode_unfold)
  note reads = signed_scaled_reads [OF _ _ x, simplified]
  show ?thesis
  proof (cases link)
    case True
    show ?thesis
      by (rule via_control [of "0xfc000000" "0x94000000"], simp add: form_lists,
        simp add: w True bit.conj_disj_distrib2 reads(1) [THEN and_narrow],
        simp add: w True reads(1) [THEN bits_same0] reads(2))
  next
    case False
    show ?thesis
      by (rule via_control [of "0xfc000000" "0x14000000"], simp add: form_lists,
        simp add: w False bit.conj_disj_distrib2 reads(1) [THEN and_narrow],
        simp add: w False reads(1) [THEN bits_same0] reads(2))
  qed
qed

lemma decode_branch_conditional:
  assumes "encode (BranchConditional off c) = Inr w"
  shows "decode w = Some (BranchConditional off c)"
proof -
  obtain x where x: "signed_scaled off 19 = Inr x"
    and w: "w = 0x54000000 OR at_bit x 5 OR ucast (condition_encoding c)"
    using assms by (auto simp: encode_unfold)
  note reads = signed_scaled_reads [OF _ _ x, simplified]
  note widths = reads(1) narrow_condition [of c]
  show ?thesis
    by (rule via_control [of "0xff000010" "0x54000000"], simp add: form_lists,
      simp add: w bit.conj_disj_distrib2 widths [THEN push_and] widths [THEN and_narrow],
      simp add: w widths [THEN bits_same] widths [THEN bits_other] widths [THEN bits_same0]
        widths [THEN bits_other0] reads(2))
qed

lemmas decode_rules =
  decode_no_operation decode_clear_exclusive decode_barrier decode_conditional_set
  decode_branch_register decode_branch_register_link decode_return decode_break
  decode_supervisor_call decode_counter_frequency decode_counter_virtual decode_add_subtract_immediate
  decode_add_subtract_register decode_add_subtract_extended decode_logical_and decode_logical_or
  decode_logical_exclusive_or decode_logical_and_set_flags decode_move_wide_zero decode_move_wide_keep
  decode_multiply_add decode_multiply_high_signed decode_multiply_high_unsigned decode_multiply_long_signed
  decode_multiply_long_unsigned decode_divide_signed decode_divide_unsigned decode_shift_left
  decode_shift_right_logical decode_shift_right_arithmetic decode_shift_rotate_right decode_count_leading_zeros
  decode_extend_signed_32 decode_extend_unsigned_32 decode_extend_signed_64 decode_extend_unsigned_64
  decode_float_move decode_float_from_general_32 decode_float_to_general_32 decode_float_from_general_64
  decode_float_to_general_64 decode_float_from_integer decode_float_widen decode_float_narrow
  decode_float_to_signed decode_float_to_unsigned decode_float_negate decode_float_round_floor
  decode_float_round_ceil decode_float_round_truncate decode_float_round_tieseven decode_float_add
  decode_float_subtract decode_float_multiply decode_float_divide decode_float_compare
  decode_store_byte decode_load_byte decode_store_half decode_load_half
  decode_store_word decode_load_word decode_store_double decode_load_double
  decode_load_signed_byte_32 decode_load_signed_byte_64 decode_load_signed_half_32 decode_load_signed_half_64
  decode_load_signed_word_64 decode_load_acquire decode_store_release decode_load_acquire_exclusive
  decode_store_release_exclusive decode_float_store_32 decode_float_load_32 decode_float_store_64
  decode_float_load_64 decode_address_page decode_branch decode_branch_conditional

text \<open>
  Every instruction is one of the forms above; the cases below only split the enumerations the
  forms are indexed by.
\<close>

lemma decode_encode_aux:
  assumes "valid_operands i" and "encode i = Inr w"
  shows "decode w = Some i"
proof (cases i)
  case (ReadSystemRegister d r)
  with assms show ?thesis by (cases r) (simp_all add: decode_rules)
next
  case (BranchRegister t link)
  with assms show ?thesis by (cases link) (simp_all add: decode_rules)
next
  case (LogicalRegister sz operation d l r)
  with assms show ?thesis by (cases operation) (simp_all add: decode_rules)
next
  case (MoveWide sz operation d imm shift)
  with assms show ?thesis by (cases operation) (simp_all add: decode_rules)
next
  case (MultiplyHigh g d l r)
  with assms show ?thesis by (cases g) (simp_all add: decode_rules)
next
  case (MultiplyLong g d l r)
  with assms show ?thesis by (cases g) (simp_all add: decode_rules)
next
  case (Divide sz d l r g)
  with assms show ?thesis by (cases g) (simp_all add: decode_rules)
next
  case (VariableShift sz operation d v a)
  with assms show ?thesis by (cases operation) (simp_all add: decode_rules)
next
  case (BitfieldExtend sz g n d s)
  with assms show ?thesis by (cases sz; cases g) (simp_all add: decode_rules)
next
  case (LoadUnsigned sz d b off)
  with assms show ?thesis by (cases sz) (simp_all add: decode_rules)
next
  case (StoreUnsigned sz d b off)
  with assms show ?thesis by (cases sz) (simp_all add: decode_rules)
next
  case (LoadSigned sz dz d b off)
  with assms show ?thesis
    by (cases sz; cases dz) (simp_all add: decode_rules encode_unfold encode_signed_load_def)
next
  case (FloatLoad sz d b off)
  with assms show ?thesis by (cases sz) (simp_all add: decode_rules)
next
  case (FloatStore sz d b off)
  with assms show ?thesis by (cases sz) (simp_all add: decode_rules)
next
  case (FloatMoveFromGeneral sz d s)
  with assms show ?thesis by (cases sz) (simp_all add: decode_rules)
next
  case (FloatMoveToGeneral sz d s)
  with assms show ?thesis by (cases sz) (simp_all add: decode_rules)
next
  case (FloatToInteger g d s)
  with assms show ?thesis by (cases g) (simp_all add: decode_rules)
next
  case (FloatRound sz operation d s)
  with assms show ?thesis by (cases operation) (simp_all add: decode_rules)
next
  case (FloatBinary sz operation d l r)
  with assms show ?thesis by (cases operation) (simp_all add: decode_rules)
qed (use assms in \<open>simp_all add: decode_rules\<close>)

lemma encode_not_unreachable_aux: "encode i \<noteq> Inl Unreachable"
proof (cases i)
  case (AddSubtractImmediate sz operation f d s imm h)
  then show ?thesis
    by (cases d; cases f) (auto simp: encode_unfold encode_add_subtract_immediate_def
        validate_add_subtract_destination_def)
next
  case (AddSubtractExtendedRegister operation f d l r shift)
  then show ?thesis
    by (cases d; cases f) (auto simp: encode_unfold encode_add_subtract_extended_def
        validate_add_subtract_destination_def)
next
  case (LoadSigned sz dz d b off)
  then show ?thesis
    by (cases sz; cases dz) (auto simp: encode_unfold encode_signed_load_def)
next
  case (LoadUnsigned sz d b off)
  then show ?thesis by (cases sz) (auto simp: encode_unfold encode_load_store_def)
next
  case (StoreUnsigned sz d b off)
  then show ?thesis by (cases sz) (auto simp: encode_unfold encode_load_store_def)
next
  case (FloatLoad sz d b off)
  then show ?thesis by (cases sz) (auto simp: encode_unfold)
next
  case (FloatStore sz d b off)
  then show ?thesis by (cases sz) (auto simp: encode_unfold)
next
  case (MoveWide sz operation d imm shift)
  then show ?thesis
    by (cases sz) (auto simp: encode_unfold encode_move_wide_def move_wide_halfword_def and_then_Inl)
next
  case (BitfieldExtend sz g n d s)
  then show ?thesis by (cases sz) (auto simp: encode_unfold encode_bitfield_extend_def)
qed (auto simp: encode_unfold and_then_Inl signed_scaled_def signed_scaled_by_def split: if_splits)

text \<open>
  C9: decoding the word of an encoded instruction gives the instruction back, for every instruction
  whose registers exist; so the encoder never produces the same word for two instructions.
\<close>

theorem decode_encode:
  assumes "valid_operands i" and "encode i = Inr w"
  shows "decode w = Some i"
  using assms by (rule decode_encode_aux)

theorem decode_encode_witness:
  "decode 0x9ac20c20 = Some (Divide Bits64 (Arm64Register 0) (Arm64Register 1) (Arm64Register 2) True)"
proof -
  have "valid_operands (Divide Bits64 (Arm64Register 0) (Arm64Register 1) (Arm64Register 2) True)"
    by (simp add: valid_operands_def valid_register_def)
  moreover have "encode (Divide Bits64 (Arm64Register 0) (Arm64Register 1) (Arm64Register 2) True)
      = Inr 0x9ac20c20"
    by (simp add: encode_unfold encode_divide_def reg_field_def)
  ultimately show ?thesis by (rule decode_encode)
qed

text \<open>
  A branch is encodable exactly when its displacement is a multiple of four within 128 MiB
  (28 signed bits), a conditional branch within 1 MiB (21 signed bits), and the page of an address
  exactly when the displacement is a multiple of 4096 within 4 GiB.
\<close>

theorem branch_range:
  "((\<exists>w. encode (Branch off link) = Inr w) \<longleftrightarrow> 4 dvd off \<and> - (2 ^ 27) \<le> off \<and> off < 2 ^ 27)
   \<and> ((\<exists>w. encode (BranchConditional off c) = Inr w) \<longleftrightarrow> 4 dvd off \<and> - (2 ^ 20) \<le> off \<and> off < 2 ^ 20)
   \<and> ((\<exists>w. encode (AddressPage d off) = Inr w) \<longleftrightarrow> 4096 dvd off \<and> - (2 ^ 32) \<le> off \<and> off < 2 ^ 32)"
  using signed_scaled_by_Inr [of 26 off 2] signed_scaled_by_Inr [of 19 off 2]
    signed_scaled_by_Inr [of 21 off 12]
  by (auto simp: encode_unfold signed_scaled_def)

text \<open>
  The encoder rejects operands with one of its documented errors and never reaches the
  arms the source marks unreachable.
\<close>

theorem encode_not_unreachable: "encode i \<noteq> Inl Unreachable"
  by (rule encode_not_unreachable_aux)

end
