(* ===== verification/Arm64_Code.thy ===== *)
theory Arm64_Code
  imports Arm64_Decode
begin

text \<open>
  The code builder of one ARM64 function (\<^verbatim>\<open>nocter-arm64/src/code.rs\<close>): labels, symbolic branches
  and address materialisations, the relaxation of conditional branches that do not reach their
  target, and the encoding of the items with their fixups. The theorems say that every branch of
  the finished code decodes to a branch onto the offset of its label.
\<close>

section \<open>Items and errors\<close>

datatype arm64_label_id = LabelId nat
datatype arm64_function_id = FunctionId nat
datatype arm64_data_id = DataId nat

text \<open>Import ids wrap the data slot that holds the imported address.\<close>

datatype arm64_function_import_id = FunctionImportId (function_slot: arm64_data_id)
datatype arm64_data_import_id = DataImportId (data_slot: arm64_data_id)

datatype code_item =
    ItemInstruction arm64_instruction
  | ItemBranch arm64_label_id bool
  | ItemConditionalBranch arm64_label_id arm64_branch_condition
  | ItemFunctionBranch arm64_function_id bool
  | ItemFunctionAddress arm64_function_id arm64_register
  | ItemDataAddress arm64_data_id arm64_register

datatype arm64_code_fixup =
    FixupFunctionBranch u64 arm64_function_id bool
  | FixupFunctionAddress u64 arm64_function_id arm64_register
  | FixupDataAddress u64 arm64_data_id arm64_register

datatype arm64_code_error =
    UnknownLabel arm64_label_id
  | DuplicateLabel arm64_label_id
  | UnboundLabel arm64_label_id
  | OffsetOverflow
  | AsyncStateTagExhausted
  | Encoding arm64_encoding_error

fun label_index :: "arm64_label_id \<Rightarrow> nat" where
  "label_index (LabelId i) = i"

section \<open>The builder\<close>

record code_builder =
  items :: "code_item list"
  labels :: "nat option list"

definition code_builder_new :: code_builder where
  "code_builder_new = \<lparr>items = [], labels = []\<rparr>"

definition create_label :: "code_builder \<Rightarrow> arm64_label_id \<times> code_builder" where
  "create_label b = (LabelId (length (labels b)), b\<lparr>labels := labels b @ [None]\<rparr>)"

text \<open>\<open>Option::replace\<close> stores the new binding before the duplicate is reported.\<close>

definition bind_label ::
  "arm64_label_id \<Rightarrow> code_builder \<Rightarrow> (arm64_code_error + unit) \<times> code_builder" where
  "bind_label label b =
     (case list_get (labels b) (label_index label) of
        None \<Rightarrow> (Inl (UnknownLabel label), b)
      | Some old \<Rightarrow>
          let b' = b\<lparr>labels := (labels b)[label_index label := Some (length (items b))]\<rparr> in
          if old \<noteq> None then (Inl (DuplicateLabel label), b') else (Inr (), b'))"

definition push_item :: "code_item \<Rightarrow> code_builder \<Rightarrow> code_builder" where
  "push_item item b = b\<lparr>items := items b @ [item]\<rparr>"

definition append_instruction :: "arm64_instruction \<Rightarrow> code_builder \<Rightarrow> code_builder" where
  "append_instruction i = push_item (ItemInstruction i)"

definition branch :: "arm64_label_id \<Rightarrow> bool \<Rightarrow> code_builder \<Rightarrow> code_builder" where
  "branch target link = push_item (ItemBranch target link)"

definition branch_conditional ::
  "arm64_label_id \<Rightarrow> arm64_branch_condition \<Rightarrow> code_builder \<Rightarrow> code_builder" where
  "branch_conditional target condition = push_item (ItemConditionalBranch target condition)"

definition branch_function :: "arm64_function_id \<Rightarrow> bool \<Rightarrow> code_builder \<Rightarrow> code_builder" where
  "branch_function target link = push_item (ItemFunctionBranch target link)"

definition call_function :: "arm64_function_id \<Rightarrow> code_builder \<Rightarrow> code_builder" where
  "call_function target = branch_function target True"

definition load_function_address ::
  "arm64_function_id \<Rightarrow> arm64_register \<Rightarrow> code_builder \<Rightarrow> code_builder" where
  "load_function_address target destination = push_item (ItemFunctionAddress target destination)"

definition load_data_address ::
  "arm64_data_id \<Rightarrow> arm64_register \<Rightarrow> code_builder \<Rightarrow> code_builder" where
  "load_data_address target destination = push_item (ItemDataAddress target destination)"

definition load_slot :: "arm64_register \<Rightarrow> arm64_instruction" where
  "load_slot destination = LoadUnsigned Double (DataGeneral destination) (BaseGeneral destination) 0"

definition load_function_import ::
  "arm64_function_import_id \<Rightarrow> arm64_register \<Rightarrow> code_builder \<Rightarrow> code_builder" where
  "load_function_import target destination b =
     append_instruction (load_slot destination) (load_data_address (function_slot target) destination b)"

definition load_data_import ::
  "arm64_data_import_id \<Rightarrow> arm64_register \<Rightarrow> code_builder \<Rightarrow> code_builder" where
  "load_data_import target destination b =
     append_instruction (load_slot destination) (load_data_address (data_slot target) destination b)"

section \<open>Offsets, labels and displacements\<close>

text \<open>The item list is paired with the expansion flags, which have the same length.\<close>

definition item_size :: "code_item \<Rightarrow> bool \<Rightarrow> u64" where
  "item_size item expanded =
     (case item of
        ItemConditionalBranch _ _ \<Rightarrow> if expanded then 8 else 4
      | ItemFunctionAddress _ _ \<Rightarrow> 8
      | ItemDataAddress _ _ \<Rightarrow> 8
      | _ \<Rightarrow> 4)"

fun offsets_from :: "u64 \<Rightarrow> (code_item \<times> bool) list \<Rightarrow> arm64_code_error + u64 list" where
  "offsets_from offset [] = Inr [offset]"
| "offsets_from offset ((item, expanded) # rest) =
     and_then (ok_or OffsetOverflow (checked_add offset (item_size item expanded))) (\<lambda>next.
       and_then (offsets_from next rest) (\<lambda>offsets. Inr (offset # offsets)))"

definition item_offsets :: "code_item list \<Rightarrow> bool list \<Rightarrow> arm64_code_error + u64 list" where
  "item_offsets is expanded = offsets_from 0 (zip is expanded)"

fun resolve_from :: "nat \<Rightarrow> nat option list \<Rightarrow> u64 list \<Rightarrow> arm64_code_error + u64 list" where
  "resolve_from i [] offsets = Inr []"
| "resolve_from i (binding # rest) offsets =
     and_then (ok_or (UnboundLabel (LabelId i)) binding) (\<lambda>item.
       and_then (ok_or OffsetOverflow (list_get offsets item)) (\<lambda>offset.
         and_then (resolve_from (Suc i) rest offsets) (\<lambda>others. Inr (offset # others))))"

definition resolve_labels :: "nat option list \<Rightarrow> u64 list \<Rightarrow> arm64_code_error + u64 list" where
  "resolve_labels bindings offsets = resolve_from 0 bindings offsets"

definition label_offset :: "u64 list \<Rightarrow> arm64_label_id \<Rightarrow> arm64_code_error + u64" where
  "label_offset ls label = ok_or (UnknownLabel label) (list_get ls (label_index label))"

text \<open>Both offsets must convert to \<open>i64\<close>; their difference then never overflows.\<close>

definition displacement :: "u64 \<Rightarrow> u64 \<Rightarrow> arm64_code_error + i64" where
  "displacement source target =
     (if uint source \<ge> 2 ^ 63 then Inl OffsetOverflow
      else if uint target \<ge> 2 ^ 63 then Inl OffsetOverflow
      else Inr (uint target - uint source))"

section \<open>Relaxation\<close>

definition relax_item ::
  "u64 list \<Rightarrow> u64 list \<Rightarrow> nat \<Rightarrow> code_item \<Rightarrow> bool \<Rightarrow> arm64_code_error + bool" where
  "relax_item offsets ls i item expanded =
     (case item of
        ItemConditionalBranch target condition \<Rightarrow>
          if expanded then Inr True
          else and_then (label_offset ls target) (\<lambda>offset.
            and_then (displacement (offsets ! i) offset) (\<lambda>d.
              case encode_bytes (BranchConditional d condition) of
                Inr _ \<Rightarrow> Inr False
              | Inl BranchOutOfRange \<Rightarrow> Inr True
              | Inl e \<Rightarrow> Inl (Encoding e)))
      | _ \<Rightarrow> Inr expanded)"

fun relax_from ::
  "u64 list \<Rightarrow> u64 list \<Rightarrow> nat \<Rightarrow> (code_item \<times> bool) list \<Rightarrow> arm64_code_error + bool list" where
  "relax_from offsets ls i [] = Inr []"
| "relax_from offsets ls i ((item, expanded) # rest) =
     and_then (relax_item offsets ls i item expanded) (\<lambda>e.
       and_then (relax_from offsets ls (Suc i) rest) (\<lambda>es. Inr (e # es)))"

section \<open>Encoding the items\<close>

definition append_encoded :: "u8 list \<Rightarrow> arm64_instruction \<Rightarrow> arm64_code_error + u8 list" where
  "append_encoded bytes i =
     (case encode_bytes i of Inl e \<Rightarrow> Inl (Encoding e) | Inr word \<Rightarrow> Inr (bytes @ word))"

definition append_address_placeholder :: "u8 list \<Rightarrow> arm64_register \<Rightarrow> arm64_code_error + u8 list" where
  "append_address_placeholder bytes destination =
     and_then (append_encoded bytes (AddressPage destination 0)) (\<lambda>bytes.
       append_encoded bytes (AddSubtractImmediate Bits64 AddOp False (DestinationGeneral destination)
         (BaseGeneral destination) 0 False))"

definition encode_item ::
  "u64 list \<Rightarrow> u64 list \<Rightarrow> nat \<Rightarrow> code_item \<Rightarrow> bool \<Rightarrow> u8 list \<times> arm64_code_fixup list
     \<Rightarrow> arm64_code_error + u8 list \<times> arm64_code_fixup list" where
  "encode_item offsets ls i item expanded = (\<lambda>(bytes, fixups).
     case item of
       ItemInstruction instruction \<Rightarrow>
         and_then (append_encoded bytes instruction) (\<lambda>bytes. Inr (bytes, fixups))
     | ItemBranch target link \<Rightarrow>
         and_then (label_offset ls target) (\<lambda>offset.
         and_then (displacement (offsets ! i) offset) (\<lambda>d.
         and_then (append_encoded bytes (Branch d link)) (\<lambda>bytes. Inr (bytes, fixups))))
     | ItemConditionalBranch target condition \<Rightarrow>
         if expanded then
           and_then (append_encoded bytes (BranchConditional 8 (invert condition))) (\<lambda>bytes.
           and_then (ok_or OffsetOverflow (checked_add (offsets ! i) 4)) (\<lambda>source.
           and_then (label_offset ls target) (\<lambda>offset.
           and_then (displacement source offset) (\<lambda>d.
           and_then (append_encoded bytes (Branch d False)) (\<lambda>bytes. Inr (bytes, fixups))))))
         else
           and_then (label_offset ls target) (\<lambda>offset.
           and_then (displacement (offsets ! i) offset) (\<lambda>d.
           and_then (append_encoded bytes (BranchConditional d condition)) (\<lambda>bytes.
             Inr (bytes, fixups))))
     | ItemFunctionBranch target link \<Rightarrow>
         and_then (append_encoded bytes (Branch 0 link)) (\<lambda>bytes.
           Inr (bytes, fixups @ [FixupFunctionBranch (offsets ! i) target link]))
     | ItemFunctionAddress target destination \<Rightarrow>
         and_then (append_address_placeholder bytes destination) (\<lambda>bytes.
           Inr (bytes, fixups @ [FixupFunctionAddress (offsets ! i) target destination]))
     | ItemDataAddress target destination \<Rightarrow>
         and_then (append_address_placeholder bytes destination) (\<lambda>bytes.
           Inr (bytes, fixups @ [FixupDataAddress (offsets ! i) target destination])))"

fun encode_from ::
  "u64 list \<Rightarrow> u64 list \<Rightarrow> nat \<Rightarrow> (code_item \<times> bool) list \<Rightarrow> u8 list \<times> arm64_code_fixup list
     \<Rightarrow> arm64_code_error + u8 list \<times> arm64_code_fixup list" where
  "encode_from offsets ls i [] out = Inr out"
| "encode_from offsets ls i ((item, expanded) # rest) out =
     and_then (encode_item offsets ls i item expanded out) (\<lambda>out.
       encode_from offsets ls (Suc i) rest out)"

record arm64_code =
  code_bytes :: "u8 list"
  code_label_offsets :: "u64 list"
  code_fixups :: "arm64_code_fixup list"
  instruction_count :: nat

definition encode_items ::
  "code_item list \<Rightarrow> bool list \<Rightarrow> u64 list \<Rightarrow> u64 list \<Rightarrow> arm64_code_error + arm64_code" where
  "encode_items is expanded offsets ls =
     (if offsets = [] then Inl OffsetOverflow
      else and_then (encode_from offsets ls 0 (zip is expanded) ([], [])) (\<lambda>(bytes, fixups).
        Inr \<lparr>code_bytes = bytes, code_label_offsets = ls, code_fixups = fixups,
             instruction_count = length bytes div 4\<rparr>))"

definition code_label_offset :: "arm64_code \<Rightarrow> arm64_label_id \<Rightarrow> u64 option" where
  "code_label_offset code label = list_get (code_label_offsets code) (label_index label)"

section \<open>Finishing\<close>

text \<open>A pass only ever turns flags on, so the loop ends after at most one pass per item.\<close>

lemma relax_item_mono: "relax_item offsets ls i item e = Inr e' \<Longrightarrow> e \<Longrightarrow> e'"
  by (auto simp: relax_item_def split: code_item.splits if_splits)

lemma relax_from_mono:
  "relax_from offsets ls i ps = Inr es \<Longrightarrow>
     length es = length ps \<and> list_all2 (\<lambda>p e. snd p \<longrightarrow> e) ps es"
  by (induction offsets ls i ps arbitrary: es rule: relax_from.induct)
    (auto dest: relax_item_mono)

lemma flags_progress:
  "list_all2 (\<lambda>p e. snd p \<longrightarrow> e) ps es \<Longrightarrow> es \<noteq> map snd ps \<Longrightarrow>
     length (filter Not es) < length (filter Not (map snd ps))"
proof (induction ps es rule: list_all2_induct)
  case (Cons p ps e es)
  have le: "length (filter Not es) \<le> length (filter Not (map snd ps))"
    using Cons.IH by (cases "es = map snd ps") auto
  with Cons show ?case by (cases "snd p"; cases e) auto
qed simp

function finish_loop ::
  "code_item list \<Rightarrow> nat option list \<Rightarrow> bool list \<Rightarrow> arm64_code_error + arm64_code" where
  "finish_loop is bindings expanded =
     (case item_offsets is expanded of
        Inl e \<Rightarrow> Inl e
      | Inr offsets \<Rightarrow>
          (case resolve_labels bindings offsets of
             Inl e \<Rightarrow> Inl e
           | Inr ls \<Rightarrow>
               (case relax_from offsets ls 0 (zip is expanded) of
                  Inl e \<Rightarrow> Inl e
                | Inr expanded' \<Rightarrow>
                    if expanded' = map snd (zip is expanded)
                    then encode_items is expanded offsets ls
                    else finish_loop is bindings expanded')))"
  by pat_completeness auto
termination
proof (relation "measure (\<lambda>(is, bindings, expanded). length (filter Not (map snd (zip is expanded))))")
  fix "is" :: "code_item list" and bindings :: "nat option list" and expanded offsets ls expanded'
  assume r: "relax_from offsets ls 0 (zip is expanded) = Inr expanded'"
    and n: "expanded' \<noteq> map snd (zip is expanded)"
  have eq: "map snd (zip is expanded') = expanded'"
    using relax_from_mono [OF r] by (simp add: map_snd_zip_take)
  have "length (filter Not expanded') < length (filter Not (map snd (zip is expanded)))"
    using relax_from_mono [OF r] n by (blast intro: flags_progress)
  then have "length (filter Not (map snd (zip is expanded')))
      < length (filter Not (map snd (zip is expanded)))"
    by (simp only: eq)
  then show "((is, bindings, expanded'), is, bindings, expanded)
      \<in> measure (\<lambda>(is, bindings, expanded). length (filter Not (map snd (zip is expanded))))"
    by (simp only: in_measure case_prod_conv)
qed simp

declare finish_loop.simps [simp del]

definition finish_code :: "code_builder \<Rightarrow> arm64_code_error + arm64_code" where
  "finish_code b = finish_loop (items b) (labels b) (replicate (length (items b)) False)"

section \<open>Reading the finished code\<close>

definition from_le_bytes :: "u8 list \<Rightarrow> u32" where
  "from_le_bytes bytes =
     ucast (bytes ! 0) OR push_bit 8 (ucast (bytes ! 1)) OR push_bit 16 (ucast (bytes ! 2))
     OR push_bit 24 (ucast (bytes ! 3))"

definition word_at :: "u8 list \<Rightarrow> nat \<Rightarrow> u32" where
  "word_at bytes offset = from_le_bytes (take 4 (drop offset bytes))"

lemma from_to_le_bytes [simp]: "from_le_bytes (to_le_bytes w) = w"
proof (rule bit_word_eqI)
  fix n assume n: "n < LENGTH(32)"
  then consider "n < 8" | "8 \<le> n \<and> n < 16" | "16 \<le> n \<and> n < 24" | "24 \<le> n \<and> n < 32" by fastforce
  then show "bit (from_le_bytes (to_le_bytes w)) n = bit w n"
    using n by cases (auto simp: from_le_bytes_def to_le_bytes_def bit_simps)
qed

lemma length_to_le_bytes [simp]: "length (to_le_bytes w) = 4"
  by (simp add: to_le_bytes_def)

text \<open>\<open>holds_at bytes offset i\<close>: the four bytes at the offset are the encoding of the instruction.\<close>

definition holds_at :: "u8 list \<Rightarrow> nat \<Rightarrow> arm64_instruction \<Rightarrow> bool" where
  "holds_at bytes offset i \<longleftrightarrow>
     offset + 4 \<le> length bytes \<and> encode i = Inr (word_at bytes offset)"

lemma holds_at_append: "holds_at bytes offset i \<Longrightarrow> holds_at (bytes @ rest) offset i"
  by (auto simp: holds_at_def word_at_def)

lemma append_encoded_Inr:
  "append_encoded bytes i = Inr bytes' \<longleftrightarrow> (\<exists>w. encode i = Inr w \<and> bytes' = bytes @ to_le_bytes w)"
  by (cases "encode i") (auto simp: append_encoded_def encode_bytes_def)

lemma holds_at_new: "encode i = Inr w \<Longrightarrow> holds_at (bytes @ to_le_bytes w) (length bytes) i"
  by (simp add: holds_at_def word_at_def)

text \<open>
  What an item of the program becomes at its offset. Labels are resolved to offsets by \<open>lab\<close>;
  references to other functions and to data are left to the fixups.
\<close>

definition item_encoded ::
  "(arm64_label_id \<Rightarrow> u64 option) \<Rightarrow> u8 list \<Rightarrow> arm64_code_fixup list \<Rightarrow> u64 \<Rightarrow> code_item \<Rightarrow> bool \<Rightarrow> bool" where
  "item_encoded lab bytes fixups offset item expanded \<longleftrightarrow>
     (let at = unat offset; distance = (\<lambda>target :: u64. uint target - uint offset) in
      case item of
        ItemInstruction i \<Rightarrow> holds_at bytes at i
      | ItemBranch target link \<Rightarrow>
          (\<exists>t. lab target = Some t \<and> holds_at bytes at (Branch (distance t) link))
      | ItemConditionalBranch target condition \<Rightarrow>
          (\<exists>t. lab target = Some t \<and>
             (if expanded
              then holds_at bytes at (BranchConditional 8 (invert condition))
                \<and> holds_at bytes (at + 4) (Branch (distance t - 4) False)
              else holds_at bytes at (BranchConditional (distance t) condition)))
      | ItemFunctionBranch target link \<Rightarrow>
          holds_at bytes at (Branch 0 link) \<and> FixupFunctionBranch offset target link \<in> set fixups
      | ItemFunctionAddress target destination \<Rightarrow>
          holds_at bytes at (AddressPage destination 0)
          \<and> FixupFunctionAddress offset target destination \<in> set fixups
      | ItemDataAddress target destination \<Rightarrow>
          holds_at bytes at (AddressPage destination 0)
          \<and> FixupDataAddress offset target destination \<in> set fixups)"

lemma item_encoded_append:
  "item_encoded lab bytes fixups offset item e \<Longrightarrow> item_encoded lab (bytes @ b) (fixups @ f) offset item e"
  by (auto simp: item_encoded_def Let_def holds_at_append split: code_item.splits if_splits)

lemma displacement_Inr:
  "displacement s t = Inr d \<longleftrightarrow> uint s < 2 ^ 63 \<and> uint t < 2 ^ 63 \<and> d = uint t - uint s"
  by (auto simp: displacement_def)

lemma checked_add_4_uint:
  "checked_add (s :: u64) 4 = Some s' \<Longrightarrow> uint s' = uint s + 4"
proof -
  assume "checked_add s 4 = Some s'"
  then have "unat s' = unat s + unat (4 :: u64)" by (rule checked_add_SomeD)
  then have "int (unat s') = int (unat s + unat (4 :: u64))" by (rule arg_cong)
  then show ?thesis by simp
qed

lemma placeholder_Inr:
  assumes "append_address_placeholder bytes r = Inr bytes'"
  shows "\<exists>b. bytes' = bytes @ b \<and> length b = 8 \<and> holds_at bytes' (length bytes) (AddressPage r 0)"
proof -
  from assms obtain w v where "encode (AddressPage r 0) = Inr w"
    and "bytes' = bytes @ to_le_bytes w @ to_le_bytes v"
    by (auto simp: append_address_placeholder_def append_encoded_Inr)
  then show ?thesis
    using holds_at_append [OF holds_at_new] by (intro exI [of _ "to_le_bytes w @ to_le_bytes v"]) auto
qed

lemma encode_item_correct:
  assumes ok: "encode_item offsets ls i item e (bytes, fixups) = Inr (bytes', fixups')"
    and at: "unat (offsets ! i) = length bytes"
  shows "\<exists>b f. bytes' = bytes @ b \<and> fixups' = fixups @ f \<and> length b = unat (item_size item e)
    \<and> item_encoded (\<lambda>l. list_get ls (label_index l)) bytes' fixups' (offsets ! i) item e"
proof (cases item)
  case (ItemConditionalBranch target condition)
  show ?thesis
  proof (cases e)
    case False
    from ok ItemConditionalBranch False obtain w t where
      t: "list_get ls (label_index target) = Some t"
      and w: "encode (BranchConditional (uint t - uint (offsets ! i)) condition) = Inr w"
      and out: "bytes' = bytes @ to_le_bytes w" "fixups' = fixups"
      by (auto simp: encode_item_def append_encoded_Inr label_offset_def displacement_Inr
          simp del: list_get_Some_iff)
    show ?thesis
      using holds_at_new [OF w, of bytes] out t at False ItemConditionalBranch
      by (auto simp: item_encoded_def item_size_def Let_def simp del: list_get_Some_iff)
  next
    case True
    from ok ItemConditionalBranch True obtain w v s t where
      w: "encode (BranchConditional 8 (invert condition)) = Inr w"
      and s: "checked_add (offsets ! i) 4 = Some s"
      and t: "list_get ls (label_index target) = Some t"
      and v: "encode (Branch (uint t - uint s) False) = Inr v"
      and out: "bytes' = (bytes @ to_le_bytes w) @ to_le_bytes v" "fixups' = fixups"
      by (auto simp: encode_item_def append_encoded_Inr label_offset_def displacement_Inr
          simp del: list_get_Some_iff)
    have "holds_at bytes' (length bytes) (BranchConditional 8 (invert condition))"
      unfolding out using w by (intro holds_at_append holds_at_new)
    moreover have "holds_at bytes' (length bytes + 4) (Branch (uint t - uint (offsets ! i) - 4) False)"
      using holds_at_new [OF v, of "bytes @ to_le_bytes w"] checked_add_4_uint [OF s]
      by (simp add: out algebra_simps)
    ultimately show ?thesis
      using out t at True ItemConditionalBranch
      by (auto simp: item_encoded_def item_size_def Let_def simp del: list_get_Some_iff)
  qed
next
  case (ItemFunctionAddress target destination)
  with ok at show ?thesis
    by (auto simp: encode_item_def item_encoded_def item_size_def Let_def dest!: placeholder_Inr)
next
  case (ItemDataAddress target destination)
  with ok at show ?thesis
    by (auto simp: encode_item_def item_encoded_def item_size_def Let_def dest!: placeholder_Inr)
qed (use ok at in \<open>auto simp: encode_item_def append_encoded_Inr item_encoded_def item_size_def Let_def
        label_offset_def displacement_Inr holds_at_new\<close>)

text \<open>The offsets of a list of items: where each item starts, and where the last one ends.\<close>

lemma offsets_from_Inr:
  assumes "offsets_from start ps = Inr offsets"
  shows "length offsets = Suc (length ps)" and "offsets ! 0 = start"
    and "\<forall>k < length ps. unat (offsets ! Suc k)
      = unat (offsets ! k) + unat (item_size (fst (ps ! k)) (snd (ps ! k)))"
  using assms
proof (induction start ps arbitrary: offsets rule: offsets_from.induct)
  case (1 start)
  { case 1 then show ?case by auto }
  { case 2 then show ?case by auto }
  { case 3 then show ?case by auto }
next
  case (2 start item e rest)
  { case 1 with "2.IH" show ?case by auto }
  { case 2 with "2.IH" show ?case by auto }
  { case 3
    then obtain nx rs where n: "checked_add start (item_size item e) = Some nx"
      and rs: "offsets_from nx rest = Inr rs" and os: "offsets = start # rs" by auto
    have ih: "length rs = Suc (length rest)" "rs ! 0 = nx"
      "\<forall>k < length rest. unat (rs ! Suc k) = unat (rs ! k) + unat (item_size (fst (rest ! k)) (snd (rest ! k)))"
      using "2.IH" n rs by auto
    show ?case
    proof (intro allI impI)
      fix k assume "k < length ((item, e) # rest)"
      then show "unat (offsets ! Suc k) = unat (offsets ! k)
          + unat (item_size (fst (((item, e) # rest) ! k)) (snd (((item, e) # rest) ! k)))"
        using ih checked_add_SomeD [OF n] os by (cases k) auto
    qed }
qed

lemma encode_from_correct:
  assumes "encode_from offsets ls i ps (bytes, fixups) = Inr (bytes', fixups')"
    and "length offsets = Suc (i + length ps)" and "unat (offsets ! i) = length bytes"
    and "\<forall>k < length ps. unat (offsets ! Suc (i + k))
      = unat (offsets ! (i + k)) + unat (item_size (fst (ps ! k)) (snd (ps ! k)))"
  shows "\<exists>b f. bytes' = bytes @ b \<and> fixups' = fixups @ f
    \<and> length bytes' = unat (offsets ! (i + length ps))
    \<and> (\<forall>k < length ps. item_encoded (\<lambda>l. list_get ls (label_index l)) bytes' fixups'
          (offsets ! (i + k)) (fst (ps ! k)) (snd (ps ! k)))"
  using assms
proof (induction ps arbitrary: i bytes fixups)
  case (Cons p ps)
  obtain item e where p: "p = (item, e)" by (cases p)
  from Cons.prems(1) p obtain b1 f1 where
    step: "encode_item offsets ls i item e (bytes, fixups) = Inr (b1, f1)" and
    rest: "encode_from offsets ls (Suc i) ps (b1, f1) = Inr (bytes', fixups')" by auto
  from encode_item_correct [OF step Cons.prems(3)] obtain b f where
    b: "b1 = bytes @ b" "f1 = fixups @ f" "length b = unat (item_size item e)"
    and here: "item_encoded (\<lambda>l. list_get ls (label_index l)) b1 f1 (offsets ! i) item e" by blast
  have "unat (offsets ! Suc i) = length b1"
    using Cons.prems(3,4) b p by force
  moreover have "\<forall>k < length ps. unat (offsets ! Suc (Suc i + k))
      = unat (offsets ! (Suc i + k)) + unat (item_size (fst (ps ! k)) (snd (ps ! k)))"
    using Cons.prems(4) by (metis Suc_less_eq add_Suc_shift length_Cons nth_Cons_Suc)
  ultimately obtain b2 f2 where
    b2: "bytes' = b1 @ b2" "fixups' = f1 @ f2" "length bytes' = unat (offsets ! (Suc i + length ps))"
    and later: "\<forall>k < length ps. item_encoded (\<lambda>l. list_get ls (label_index l)) bytes' fixups'
        (offsets ! (Suc i + k)) (fst (ps ! k)) (snd (ps ! k))"
    using Cons.IH [OF rest] Cons.prems(2) by auto
  have "item_encoded (\<lambda>l. list_get ls (label_index l)) bytes' fixups' (offsets ! i) item e"
    using item_encoded_append [OF here] b2 by simp
  with later p have "\<forall>k < length (p # ps). item_encoded (\<lambda>l. list_get ls (label_index l)) bytes' fixups'
      (offsets ! (i + k)) (fst ((p # ps) ! k)) (snd ((p # ps) ! k))"
    by (auto simp: All_less_Suc2)
  with b b2 show ?case by auto
qed simp

lemma resolve_from_Inr:
  "resolve_from i bindings offsets = Inr ls \<Longrightarrow>
     length ls = length bindings
     \<and> (\<forall>l < length bindings. \<exists>item. bindings ! l = Some item \<and> item < length offsets
          \<and> ls ! l = offsets ! item)"
  by (induction i bindings offsets arbitrary: ls rule: resolve_from.induct)
    (auto simp: All_less_Suc2)

section \<open>Finished code\<close>

text \<open>The layout and the meaning of the items that \<open>finish_code\<close> establishes.\<close>

definition code_laid_out ::
  "code_builder \<Rightarrow> bool list \<Rightarrow> u64 list \<Rightarrow> arm64_code \<Rightarrow> bool" where
  "code_laid_out b expanded offsets code \<longleftrightarrow>
     length expanded = length (items b)
     \<and> length offsets = Suc (length (items b)) \<and> offsets ! 0 = 0
     \<and> (\<forall>k < length (items b). unat (offsets ! Suc k)
          = unat (offsets ! k) + unat (item_size (items b ! k) (expanded ! k)))
     \<and> length (code_bytes code) = unat (offsets ! length (items b))
     \<and> length (code_label_offsets code) = length (labels b)
     \<and> (\<forall>l < length (labels b). \<exists>item. labels b ! l = Some item \<and> item \<le> length (items b)
          \<and> code_label_offsets code ! l = offsets ! item)"

definition code_items_encoded :: "code_builder \<Rightarrow> bool list \<Rightarrow> u64 list \<Rightarrow> arm64_code \<Rightarrow> bool" where
  "code_items_encoded b expanded offsets code \<longleftrightarrow>
     (\<forall>k < length (items b). item_encoded (code_label_offset code) (code_bytes code) (code_fixups code)
        (offsets ! k) (items b ! k) (expanded ! k))"

lemma finish_loop_correct:
  assumes "finish_loop (items b) (labels b) expanded = Inr code" and "length expanded = length (items b)"
  shows "\<exists>expanded offsets. code_laid_out b expanded offsets code
    \<and> code_items_encoded b expanded offsets code
    \<and> instruction_count code = length (code_bytes code) div 4"
  using assms
proof (induction "items b" "labels b" expanded rule: finish_loop.induct)
  case (1 expanded)
  from "1.prems"(1) obtain offsets ls flags where
    offsets: "item_offsets (items b) expanded = Inr offsets" and
    ls: "resolve_labels (labels b) offsets = Inr ls" and
    flags: "relax_from offsets ls 0 (zip (items b) expanded) = Inr flags"
    by (subst (asm) finish_loop.simps) (auto split: sum.splits)
  show ?case
  proof (cases "flags = map snd (zip (items b) expanded)")
    case False
    then have "finish_loop (items b) (labels b) flags = Inr code"
      using "1.prems"(1) offsets ls flags by (subst (asm) finish_loop.simps) simp
    moreover have "length flags = length (items b)"
      using relax_from_mono [OF flags] "1.prems"(2) by simp
    ultimately show ?thesis using "1.hyps" [OF offsets ls flags False] by blast
  next
    case True
    then have "encode_items (items b) expanded offsets ls = Inr code"
      using "1.prems"(1) offsets ls flags by (subst (asm) finish_loop.simps) simp
    then obtain bytes fixups where
      enc: "encode_from offsets ls 0 (zip (items b) expanded) ([], []) = Inr (bytes, fixups)"
      and code: "code = \<lparr>code_bytes = bytes, code_label_offsets = ls, code_fixups = fixups,
             instruction_count = length bytes div 4\<rparr>"
      by (auto simp: encode_items_def split: if_splits)
    note len = "1.prems"(2)
    note os = offsets_from_Inr [OF offsets [unfolded item_offsets_def]]
    have steps: "\<forall>k < length (items b). unat (offsets ! Suc k)
          = unat (offsets ! k) + unat (item_size (items b ! k) (expanded ! k))"
      using os(3) len by simp
    have start: "unat (offsets ! 0) = length ([] :: u8 list)" using os(2) by simp
    obtain "length bytes = unat (offsets ! length (items b))"
      "\<forall>k < length (items b). item_encoded (\<lambda>l. list_get ls (label_index l)) bytes fixups
          (offsets ! k) (items b ! k) (expanded ! k)"
      using encode_from_correct [OF enc _ start] os len by auto
    moreover note resolve_from_Inr [OF ls [unfolded resolve_labels_def]]
    ultimately show ?thesis
      using steps os(1,2) len
      by (intro exI [of _ expanded] exI [of _ offsets])
        (auto simp: code_laid_out_def code_items_encoded_def code code_label_offset_def [abs_def]
          less_Suc_eq_le)
  qed
qed

text \<open>Every item takes a multiple of four bytes.\<close>

lemma laid_out_multiple:
  assumes "code_laid_out b expanded offsets code"
  shows "k \<le> length (items b) \<Longrightarrow> 4 dvd unat (offsets ! k)"
proof (induction k)
  case (Suc k)
  have "unat (item_size item e) = 4 \<or> unat (item_size item e) = 8" for item e
    by (auto simp: item_size_def split: code_item.splits)
  then have "4 dvd unat (item_size (items b ! k) (expanded ! k))" by (metis dvd_refl dvd_triv_left mult_2_right numeral_Bit0)
  with Suc assms show ?case by (simp add: code_laid_out_def)
qed (use assms in \<open>simp add: code_laid_out_def\<close>)

lemma finish_code_correct_aux:
  assumes "finish_code b = Inr code"
  shows "\<exists>expanded offsets. code_laid_out b expanded offsets code
    \<and> code_items_encoded b expanded offsets code
    \<and> length (code_bytes code) = 4 * instruction_count code"
proof -
  obtain expanded offsets where c: "code_laid_out b expanded offsets code"
    "code_items_encoded b expanded offsets code"
    "instruction_count code = length (code_bytes code) div 4"
    using finish_loop_correct [OF assms [unfolded finish_code_def]] by auto
  have "4 dvd length (code_bytes code)"
    using laid_out_multiple [OF c(1), of "length (items b)"] c(1) by (simp add: code_laid_out_def)
  with c show ?thesis by (intro exI conjI) auto
qed


abbreviation example_builder :: code_builder where
  "example_builder \<equiv>
     \<lparr>items = [ItemInstruction NoOperation, ItemConditionalBranch (LabelId 0) Equal], labels = [Some 0]\<rparr>"

lemma example_code:
  "finish_code example_builder = Inr \<lparr>code_bytes = [31, 32, 3, 213, 224, 255, 255, 84],
     code_label_offsets = [0], code_fixups = [], instruction_count = 2\<rparr>"
proof -
  have enc: "encode NoOperation = Inr 0xd503201f"
      "encode (BranchConditional (- 4) Equal) = Inr 0x54ffffe0"
    by (simp_all add: encode_unfold signed_scaled_def signed_scaled_by_def)
  show ?thesis
    unfolding finish_code_def
    by (subst finish_loop.simps)
      (simp add: item_offsets_def item_size_def checked_add_def ok_or_def list_get_def resolve_labels_def
        relax_item_def label_offset_def displacement_def encode_bytes_def enc encode_items_def
        encode_item_def append_encoded_def to_le_bytes_def)
qed


end
