(* ===== verification/Alignment.thy ===== *)
theory Alignment
  imports Prelude
begin

text \<open>
  Power-of-two alignment of 64-bit offsets, as the layout code of the back ends uses it:
  \<open>u64::is_power_of_two\<close> and the rounding \<open>(value + mask) & !mask\<close>.
\<close>

definition is_power_of_two :: "u64 \<Rightarrow> bool" where
  "is_power_of_two w \<longleftrightarrow> list_ex (\<lambda>n. w = 2 ^ n) [0..<64]"

definition round_with_mask :: "u64 \<Rightarrow> u64 \<Rightarrow> u64" where
  "round_with_mask v m = v AND NOT m"

lemma unat_power_two: "n < 64 \<Longrightarrow> unat (2 ^ n :: u64) = 2 ^ n"
proof -
  assume n: "n < 64"
  then have "(2 :: nat) ^ n < 2 ^ 64" by (intro power_strict_increasing) auto
  moreover have "unat (word_of_nat (2 ^ n) :: u64) = 2 ^ n mod 2 ^ 64"
    by (simp only: unsigned_of_nat take_bit_eq_mod) simp
  ultimately show ?thesis by simp
qed

lemma is_power_of_two_iff: "is_power_of_two w \<longleftrightarrow> (\<exists>n < 64. unat w = 2 ^ n)"
proof -
  have "w = 2 ^ n \<longleftrightarrow> unat w = 2 ^ n" if "n < 64" for n
    using that by (metis unat_power_two word_unat_eq_iff)
  then show ?thesis by (auto simp: is_power_of_two_def list_ex_iff)
qed

lemma power_of_two_numerals [simp]:
  "is_power_of_two 1" "is_power_of_two 2" "is_power_of_two 4" "is_power_of_two 8" "is_power_of_two 16"
  unfolding is_power_of_two_iff
  by (rule exI [of _ 0], simp, rule exI [of _ 1], simp, rule exI [of _ 2], simp,
    rule exI [of _ 3], simp, rule exI [of _ 4], simp)

lemma power_of_two_pos: "is_power_of_two a \<Longrightarrow> 0 < unat a"
  by (auto simp: is_power_of_two_iff)

text \<open>Of two powers of two, the smaller divides the larger.\<close>

lemma power_of_two_dvd:
  "is_power_of_two a \<Longrightarrow> is_power_of_two b \<Longrightarrow> a \<le> b \<Longrightarrow> unat a dvd unat b"
  by (auto simp: is_power_of_two_iff word_le_nat_alt le_imp_power_dvd power_increasing_iff)

lemma power_of_two_max: "is_power_of_two a \<Longrightarrow> is_power_of_two b \<Longrightarrow> is_power_of_two (max a b)"
  by (simp add: max_def)

lemma power_of_two_dvd_max:
  "is_power_of_two a \<Longrightarrow> is_power_of_two b \<Longrightarrow> unat a dvd unat (max a b) \<and> unat b dvd unat (max a b)"
  by (auto simp: max_def power_of_two_dvd)

lemma and_not_low_bits: "n < 64 \<Longrightarrow> unat (w AND NOT (2 ^ n - 1 :: u64)) = unat w div 2 ^ n * 2 ^ n"
proof -
  assume n: "n < 64"
  have "w AND NOT (2 ^ n - 1) = w AND NOT (mask n)" by (simp add: mask_eq_exp_minus_1)
  also have "\<dots> = push_bit n (drop_bit n w)"
    by (rule bit_word_eqI) (auto simp: bit_simps)
  also have "unat \<dots> = unat w div 2 ^ n * 2 ^ n mod 2 ^ 64"
    using n by (simp add: push_bit_eq_mult drop_bit_eq_div unat_word_ariths(2) unat_div unat_power_two)
  also have "\<dots> = unat w div 2 ^ n * 2 ^ n"
  proof (rule mod_less)
    have "unat w div 2 ^ n * 2 ^ n \<le> unat w" by simp
    also have "\<dots> < 2 ^ 64" using unsigned_less [of w] by simp
    finally show "unat w div 2 ^ n * 2 ^ n < 2 ^ 64" .
  qed
  finally show ?thesis .
qed

text \<open>
  What rounding gives when the addition of the mask does not overflow: the least multiple of the
  alignment that is not below the value.
\<close>

lemma round_up_unat:
  assumes a: "is_power_of_two a" and s: "checked_add v (a - 1) = Some s"
  shows "unat a dvd unat (round_with_mask s (a - 1))"
    and "unat v \<le> unat (round_with_mask s (a - 1))"
    and "unat (round_with_mask s (a - 1)) < unat v + unat a"
proof -
  from a obtain n where n: "n < 64" "unat a = 2 ^ n" by (auto simp: is_power_of_two_iff)
  then have an: "a = 2 ^ n" by (simp add: word_unat_eq_iff unat_power_two)
  have "unat (a - 1) = 2 ^ n - 1"
    using n power_of_two_pos [OF a] by (simp add: unat_sub word_le_nat_alt Suc_leI)
  with checked_add_SomeD [OF s] have su: "unat s = unat v + (2 ^ n - 1)" by simp
  have r: "unat (round_with_mask s (a - 1)) = (unat v + (2 ^ n - 1)) div 2 ^ n * 2 ^ n"
    unfolding round_with_mask_def an and_not_low_bits [OF n(1)] su ..
  show "unat a dvd unat (round_with_mask s (a - 1))" by (simp add: r n)
  have "(unat v + (2 ^ n - 1)) div 2 ^ n * 2 ^ n + (unat v + (2 ^ n - 1)) mod 2 ^ n = unat v + (2 ^ n - 1)"
    by (rule div_mult_mod_eq)
  moreover have "(unat v + (2 ^ n - 1)) mod 2 ^ n < 2 ^ n" by simp
  ultimately show "unat v \<le> unat (round_with_mask s (a - 1))" 
    and "unat (round_with_mask s (a - 1)) < unat v + unat a"
    unfolding r n(2) by linarith+
qed

end
