(* ===== verification/Object_Layout.thy ===== *)
theory Object_Layout
  imports Alignment
begin

text \<open>
  Sequential placement of stack and async-frame objects in the ARM64 backend
  (\<^verbatim>\<open>nocter-arm64/src/object_layout.rs\<close>). The theorems say that the objects added to a sequence
  are aligned, do not overlap, and lie inside the finished bytes.
\<close>

datatype object_layout_error = InvalidAlignment u64 | SizeOverflow

record object_range =
  range_offset :: u64
  range_size :: u64
  range_alignment :: u64

record object_sequence =
  next_offset :: u64
  seq_alignment :: u64
  maximum_alignment :: u64

definition sequence_new :: "u64 \<Rightarrow> u64 \<Rightarrow> u64 \<Rightarrow> object_sequence" where
  "sequence_new start minimum maximum =
     \<lparr>next_offset = start, seq_alignment = minimum, maximum_alignment = maximum\<rparr>"

definition validate_alignment :: "u64 \<Rightarrow> u64 \<Rightarrow> object_layout_error + unit" where
  "validate_alignment alignment maximum =
     (if \<not> is_power_of_two alignment \<or> maximum < alignment then Inl (InvalidAlignment alignment)
      else Inr ())"

text \<open>The subtraction of one wraps for a zero alignment, which callers have already rejected.\<close>

definition object_align_up :: "u64 \<Rightarrow> u64 \<Rightarrow> object_layout_error + u64" where
  "object_align_up value alignment =
     (let m = alignment - 1 in
      ok_or SizeOverflow (map_option (\<lambda>v. round_with_mask v m) (checked_add value m)))"

text \<open>\<open>add\<close> leaves the sequence as it was when the alignment is rejected or the offset overflows.\<close>

definition add_object ::
  "u64 \<Rightarrow> u64 \<Rightarrow> object_sequence \<Rightarrow> (object_layout_error + object_range) \<times> object_sequence" where
  "add_object bytes alignment s =
     (case validate_alignment alignment (maximum_alignment s) of
        Inl e \<Rightarrow> (Inl e, s)
      | Inr _ \<Rightarrow>
          (case object_align_up (next_offset s) alignment of
             Inl e \<Rightarrow> (Inl e, s)
           | Inr offset \<Rightarrow>
               (case checked_add offset bytes of
                  None \<Rightarrow> (Inl SizeOverflow, s)
                | Some e \<Rightarrow>
                    (Inr \<lparr>range_offset = offset, range_size = bytes, range_alignment = alignment\<rparr>,
                     s\<lparr>next_offset := e, seq_alignment := max (seq_alignment s) alignment\<rparr>))))"

definition finish_sequence :: "u64 \<Rightarrow> object_sequence \<Rightarrow> object_layout_error + u64 \<times> u64" where
  "finish_sequence final_alignment s =
     and_then (validate_alignment final_alignment (maximum_alignment s)) (\<lambda>_.
     and_then (object_align_up (next_offset s) (max final_alignment (seq_alignment s))) (\<lambda>bytes.
       Inr (bytes, seq_alignment s)))"

definition finish_with_trailer ::
  "u64 \<Rightarrow> u64 \<Rightarrow> object_sequence \<Rightarrow> object_layout_error + u64 \<times> u64 \<times> u64" where
  "finish_with_trailer trailer_size final_alignment s =
     and_then (validate_alignment final_alignment (maximum_alignment s)) (\<lambda>_.
     and_then (ok_or SizeOverflow (checked_add (next_offset s) trailer_size)) (\<lambda>unaligned.
     and_then (object_align_up unaligned (max final_alignment (seq_alignment s))) (\<lambda>bytes.
       Inr (bytes, bytes - trailer_size, seq_alignment s))))"

section \<open>Sequences of objects\<close>

text \<open>The objects of a frame, added one after another as the frame layouts do.\<close>

fun add_objects ::
  "(u64 \<times> u64) list \<Rightarrow> object_sequence \<Rightarrow> object_layout_error + object_range list \<times> object_sequence" where
  "add_objects [] s = Inr ([], s)"
| "add_objects ((bytes, alignment) # rest) s =
     (case add_object bytes alignment s of
        (Inl e, s') \<Rightarrow> Inl e
      | (Inr r, s') \<Rightarrow> and_then (add_objects rest s') (\<lambda>(rs, s''). Inr (r # rs, s'')))"

definition range_stop :: "object_range \<Rightarrow> nat" where
  "range_stop r = unat (range_offset r) + unat (range_size r)"

definition sequence_ok :: "object_sequence \<Rightarrow> bool" where
  "sequence_ok s \<longleftrightarrow> is_power_of_two (seq_alignment s)"

lemma object_align_up_Inr:
  assumes "object_align_up v a = Inr r" and "is_power_of_two a"
  shows "unat a dvd unat r" and "unat v \<le> unat r" and "unat r < unat v + unat a"
proof -
  from assms(1) obtain s where s: "checked_add v (a - 1) = Some s" and r: "r = round_with_mask s (a - 1)"
    by (auto simp: object_align_up_def Let_def)
  from round_up_unat [OF assms(2) s] r
  show "unat a dvd unat r" and "unat v \<le> unat r" and "unat r < unat v + unat a" by simp_all
qed

lemma add_object_Inr:
  assumes "add_object bytes alignment s = (Inr r, s')"
  shows "unat (next_offset s) \<le> unat (range_offset r)" and "range_stop r = unat (next_offset s')"
    and "unat (range_alignment r) dvd unat (range_offset r)"
    and "range_size r = bytes" and "range_alignment r = alignment" and "is_power_of_two alignment"
    and "seq_alignment s' = max (seq_alignment s) alignment"
    and "maximum_alignment s' = maximum_alignment s"
proof -
  from assms obtain offset e where
    v: "validate_alignment alignment (maximum_alignment s) = Inr ()" and
    o: "object_align_up (next_offset s) alignment = Inr offset" and
    e: "checked_add offset bytes = Some e" and
    r: "r = \<lparr>range_offset = offset, range_size = bytes, range_alignment = alignment\<rparr>" and
    s': "s' = s\<lparr>next_offset := e, seq_alignment := max (seq_alignment s) alignment\<rparr>"
    by (auto simp: add_object_def split: sum.splits option.splits)
  have p: "is_power_of_two alignment" using v by (auto simp: validate_alignment_def split: if_splits)
  note a = object_align_up_Inr [OF o p]
  show "unat (next_offset s) \<le> unat (range_offset r)" using a r by simp
  show "range_stop r = unat (next_offset s')"
    using checked_add_SomeD [OF e] r s' by (simp add: range_stop_def)
  show "unat (range_alignment r) dvd unat (range_offset r)" using a r by simp
  show "range_size r = bytes" "range_alignment r = alignment"
    "seq_alignment s' = max (seq_alignment s) alignment"
    "maximum_alignment s' = maximum_alignment s" using r s' by simp_all
  show "is_power_of_two alignment" by (rule p)
qed

lemma add_objects_Inr:
  assumes "add_objects requests s = Inr (rs, s')" and "sequence_ok s"
  shows "sequence_ok s'
    \<and> map (\<lambda>r. (range_size r, range_alignment r)) rs = requests
    \<and> unat (next_offset s) \<le> unat (next_offset s') \<and> seq_alignment s \<le> seq_alignment s'
    \<and> sorted_wrt (\<lambda>a b. range_stop a \<le> unat (range_offset b)) rs
    \<and> (\<forall>r \<in> set rs. unat (next_offset s) \<le> unat (range_offset r) \<and> range_stop r \<le> unat (next_offset s')
        \<and> unat (range_alignment r) dvd unat (range_offset r)
        \<and> unat (range_alignment r) dvd unat (seq_alignment s'))"
  using assms
proof (induction requests s arbitrary: rs s' rule: add_objects.induct)
  case (2 bytes alignment rest s)
  from "2.prems"(1) obtain r t ts where
    r: "add_object bytes alignment s = (Inr r, t)" and
    ts: "add_objects rest t = Inr (ts, s')" and rs: "rs = r # ts"
    by (auto split: prod.splits sum.splits)
  note new = add_object_Inr [OF r]
  have t: "sequence_ok t" using "2.prems"(2) new by (simp add: sequence_ok_def power_of_two_max)
  have stop: "unat (next_offset s) \<le> unat (next_offset t)"
    using new(1,2) by (simp add: range_stop_def)
  have ih: "sequence_ok s'"
    "map (\<lambda>r. (range_size r, range_alignment r)) ts = rest"
    "unat (next_offset t) \<le> unat (next_offset s')" "seq_alignment t \<le> seq_alignment s'"
    "sorted_wrt (\<lambda>a b. range_stop a \<le> unat (range_offset b)) ts"
    "\<forall>r \<in> set ts. unat (next_offset t) \<le> unat (range_offset r) \<and> range_stop r \<le> unat (next_offset s')
        \<and> unat (range_alignment r) dvd unat (range_offset r)
        \<and> unat (range_alignment r) dvd unat (seq_alignment s')"
    using "2.IH" [OF r [symmetric] refl ts t] by blast+
  have "alignment \<le> seq_alignment s'" using ih(4) new(7) by (simp add: max_def split: if_splits)
  then have "unat alignment dvd unat (seq_alignment s')"
    using new(6) ih(1) by (auto simp: sequence_ok_def intro: power_of_two_dvd)
  moreover have "seq_alignment s \<le> seq_alignment s'" using ih(4) new(7) by simp
  ultimately show ?case
    using ih new stop rs by (auto simp: sequence_ok_def intro: order_trans)
qed simp

lemma frame_layout_aux:
  assumes added: "add_objects requests (sequence_new start minimum maximum) = Inr (rs, s)"
    and minimum: "is_power_of_two minimum"
    and finish: "finish_sequence final_alignment s = Inr (bytes, alignment)"
  shows "map (\<lambda>r. (range_size r, range_alignment r)) rs = requests
    \<and> sorted_wrt (\<lambda>a b. range_stop a \<le> unat (range_offset b)) rs
    \<and> unat alignment dvd unat bytes
    \<and> (\<forall>r \<in> set rs. unat start \<le> unat (range_offset r) \<and> range_stop r \<le> unat bytes
        \<and> unat (range_alignment r) dvd unat (range_offset r)
        \<and> unat (range_alignment r) dvd unat alignment)"
proof -
  have ok: "sequence_ok (sequence_new start minimum maximum)"
    using minimum by (simp add: sequence_ok_def sequence_new_def)
  note placed = add_objects_Inr [OF added ok]
  from finish have v: "is_power_of_two final_alignment"
    and up: "object_align_up (next_offset s) (max final_alignment (seq_alignment s)) = Inr bytes"
    and al: "alignment = seq_alignment s"
    by (auto simp: finish_sequence_def validate_alignment_def split: if_splits)
  have p: "is_power_of_two (seq_alignment s)" using placed by (simp add: sequence_ok_def)
  note bytes = object_align_up_Inr [OF up power_of_two_max [OF v p]]
  have "unat alignment dvd unat bytes"
    using bytes(1) power_of_two_dvd_max [OF v p] unfolding al by (blast intro: dvd_trans)
  with placed bytes(2) show ?thesis by (auto simp: sequence_new_def al)
qed

text \<open>
  C23: the objects of a finished frame have the requested sizes and alignments, start at aligned
  offsets after the frame's reserved prefix, follow one another without overlap, and end inside the
  frame, whose size is a multiple of an alignment that every object's alignment divides.
\<close>

theorem frame_layout_correct:
  assumes "add_objects requests (sequence_new start minimum maximum) = Inr (rs, s)"
    and "is_power_of_two minimum" and "finish_sequence final_alignment s = Inr (bytes, alignment)"
  shows "map (\<lambda>r. (range_size r, range_alignment r)) rs = requests
    \<and> sorted_wrt (\<lambda>a b. range_stop a \<le> unat (range_offset b)) rs
    \<and> unat alignment dvd unat bytes
    \<and> (\<forall>r \<in> set rs. unat start \<le> unat (range_offset r) \<and> range_stop r \<le> unat bytes
        \<and> unat (range_alignment r) dvd unat (range_offset r)
        \<and> unat (range_alignment r) dvd unat alignment)"
  using assms by (rule frame_layout_aux)

lemma example_objects:
  "add_objects [(1, 1), (8, 8)] (sequence_new 16 8 16) =
     Inr ([\<lparr>range_offset = 16, range_size = 1, range_alignment = 1\<rparr>,
           \<lparr>range_offset = 24, range_size = 8, range_alignment = 8\<rparr>],
          \<lparr>next_offset = 32, seq_alignment = 8, maximum_alignment = 16\<rparr>)"
  by (simp add: add_object_def sequence_new_def validate_alignment_def object_align_up_def
      round_with_mask_def checked_add_def ok_or_def)

theorem frame_layout_correct_witness:
  "(8 :: nat) dvd 24 \<and> range_stop \<lparr>range_offset = 16, range_size = 1, range_alignment = 1\<rparr> \<le> 24"
proof -
  have p: "is_power_of_two 8" by simp
  have f: "finish_sequence 16 \<lparr>next_offset = 32, seq_alignment = 8, maximum_alignment = 16\<rparr> = Inr (32, 8)"
    by (simp add: finish_sequence_def validate_alignment_def object_align_up_def round_with_mask_def
        checked_add_def ok_or_def)
  from frame_layout_correct [OF example_objects p f] show ?thesis by simp
qed

end
