(* ===== verification/Btree_Map.thy ===== *)
theory Btree_Map
  imports Prelude
begin

text \<open>
  Ordered maps. \<open>map_interface\<close> is what the sources use of a map: an empty map, lookup and
  insertion with replacement. \<open>std::collections::BTreeMap\<close> is modelled as the list of its entries
  in ascending key order, which is also the order in which it is iterated.
\<close>

locale map_interface =
  fixes empty :: "'m"
    and lookup :: "'m \<Rightarrow> 'k \<Rightarrow> 'v option"
    and insert :: "'k \<Rightarrow> 'v \<Rightarrow> 'm \<Rightarrow> 'm"
    and inv :: "'m \<Rightarrow> bool"
  assumes inv_empty: "inv empty"
    and inv_insert: "inv m \<Longrightarrow> inv (insert k v m)"
    and lookup_empty: "lookup empty k = None"
    and lookup_insert: "inv m \<Longrightarrow> lookup (insert k v m) j = (if j = k then Some v else lookup m j)"
begin

lemma inv_inserts: "inv m \<Longrightarrow> inv (fold (\<lambda>(k, v). insert k v) entries m)"
  by (induction entries arbitrary: m) (auto simp: inv_insert)

lemma lookup_inserts:
  "inv m \<Longrightarrow> lookup (fold (\<lambda>(k, v). insert k v) entries m) k =
     (case map_of (rev entries) k of Some v \<Rightarrow> Some v | None \<Rightarrow> lookup m k)"
proof (induction entries arbitrary: m)
  case (Cons e entries)
  then show ?case
    by (cases e) (auto simp: inv_insert lookup_insert map_add_def split: option.splits)
qed simp

text \<open>What a map holds does not depend on the order in which distinct keys were inserted.\<close>

lemma inserts_order_irrelevant:
  assumes "inv m" and "distinct (map fst xs)" and "set xs = set ys" and "distinct (map fst ys)"
  shows "lookup (fold (\<lambda>(k, v). insert k v) xs m) k = lookup (fold (\<lambda>(k, v). insert k v) ys m) k"
proof -
  have "map_of (rev xs) = map_of (rev ys)"
    using assms by (intro map_of_inject_set [THEN iffD2]) (auto simp: rev_map [symmetric])
  then show ?thesis using assms(1) by (simp add: lookup_inserts)
qed

end

section \<open>Entries in key order\<close>

type_synonym ('k, 'v) btree_map = "('k \<times> 'v) list"

fun bt_insert :: "'k::linorder \<Rightarrow> 'v \<Rightarrow> ('k, 'v) btree_map \<Rightarrow> ('k, 'v) btree_map" where
  "bt_insert k v [] = [(k, v)]"
| "bt_insert k v ((j, w) # rest) =
     (if k < j then (k, v) # (j, w) # rest
      else if k = j then (k, v) # rest
      else (j, w) # bt_insert k v rest)"

definition bt_get :: "('k, 'v) btree_map \<Rightarrow> 'k \<Rightarrow> 'v option" where
  "bt_get m k = map_of m k"

definition bt_contains :: "('k, 'v) btree_map \<Rightarrow> 'k \<Rightarrow> bool" where
  "bt_contains m k \<longleftrightarrow> bt_get m k \<noteq> None"

definition bt_sorted :: "('k::linorder, 'v) btree_map \<Rightarrow> bool" where
  "bt_sorted m \<longleftrightarrow> sorted_wrt (<) (map fst m)"

lemma bt_insert_keys: "set (map fst (bt_insert k v m)) = insert k (set (map fst m))"
  by (induction k v m rule: bt_insert.induct) auto

lemma bt_sorted_insert: "bt_sorted m \<Longrightarrow> bt_sorted (bt_insert k v m)"
  unfolding bt_sorted_def
proof (induction k v m rule: bt_insert.induct)
  case (2 k v j w rest)
  then show ?case
    using bt_insert_keys [of k v rest] by auto
qed simp

lemma bt_get_insert: "bt_sorted m \<Longrightarrow> bt_get (bt_insert k v m) j = (if j = k then Some v else bt_get m j)"
  unfolding bt_get_def by (induction k v m rule: bt_insert.induct) (auto simp: bt_sorted_def)

lemma bt_get_Some_iff: "bt_sorted m \<Longrightarrow> bt_get m k = Some v \<longleftrightarrow> (k, v) \<in> set m"
  unfolding bt_get_def bt_sorted_def strict_sorted_iff by (intro map_of_eq_Some_iff) simp

lemma bt_contains_iff: "bt_contains m k \<longleftrightarrow> k \<in> fst ` set m"
  by (simp add: bt_contains_def bt_get_def map_of_eq_None_iff)

definition bt_remove :: "'k \<Rightarrow> ('k, 'v) btree_map \<Rightarrow> ('k, 'v) btree_map" where
  "bt_remove k m = filter (\<lambda>(j, _). j \<noteq> k) m"

lemma bt_get_remove [simp]: "bt_get (bt_remove k m) j = (if j = k then None else bt_get m j)"
  unfolding bt_get_def bt_remove_def by (induction m) auto

lemma bt_sorted_remove: "bt_sorted m \<Longrightarrow> bt_sorted (bt_remove k m)"
  unfolding bt_sorted_def bt_remove_def by (induction m) auto

lemma bt_sorted_Nil [simp]: "bt_sorted []"
  by (simp add: bt_sorted_def)

lemma bt_get_Nil [simp]: "bt_get [] k = None"
  by (simp add: bt_get_def)

lemma bt_Nil_iff: "m = [] \<longleftrightarrow> (\<forall>k. bt_get m k = None)"
  by (cases m) (auto simp: bt_get_def)

lemma bt_sorted_single [simp]: "bt_sorted [e]"
  by (simp add: bt_sorted_def)

lemma bt_get_single [simp]: "bt_get [(k, v)] j = (if j = k then Some v else None)"
  by (simp add: bt_get_def)

interpretation btree: map_interface "[]" bt_get bt_insert bt_sorted
proof
  show "bt_sorted []" by simp
  show "bt_get [] k = None" for k by simp
qed (simp_all add: bt_sorted_insert bt_get_insert)

section \<open>Ordered sets\<close>

text \<open>\<open>BTreeSet\<close> is a map to unit, as the standard library implements it.\<close>

type_synonym 'k btree_set = "('k, unit) btree_map"

definition bset_insert :: "'k::linorder \<Rightarrow> 'k btree_set \<Rightarrow> 'k btree_set" where
  "bset_insert k s = bt_insert k () s"

definition bset_elements :: "'k btree_set \<Rightarrow> 'k list" where
  "bset_elements s = map fst s"

lemma bset_elements_iff [simp]: "k \<in> set (bset_elements s) \<longleftrightarrow> bt_contains s k"
  by (simp add: bset_elements_def bt_contains_iff)

lemma bset_sorted_insert [simp]: "bt_sorted s \<Longrightarrow> bt_sorted (bset_insert k s)"
  by (simp add: bset_insert_def bt_sorted_insert)

lemma bset_contains_insert [simp]: "bt_sorted s \<Longrightarrow> bt_contains (bset_insert k s) j \<longleftrightarrow> j = k \<or> bt_contains s j"
  by (simp add: bset_insert_def bt_contains_def bt_get_insert)

lemma bt_contains_remove [simp]: "bt_contains (bt_remove k m) j \<longleftrightarrow> j \<noteq> k \<and> bt_contains m j"
  by (simp add: bt_contains_def)

lemma bt_contains_Nil [simp]: "\<not> bt_contains [] k"
  by (simp add: bt_contains_def)

lemma bt_contains_single [simp]: "bt_contains [(k, v)] j \<longleftrightarrow> j = k"
  by (simp add: bt_contains_def)

end
