(* ===== verification/Runtime_Types.thy ===== *)
theory Runtime_Types
  imports Btree_Map
begin

text \<open>
  Concrete runtime types and their closed table
  (\<^verbatim>\<open>nocter-runtime-contract/src/types.rs\<close>, \<^verbatim>\<open>representation.rs\<close> and
  \<^verbatim>\<open>runtime_storage.rs\<close> of the same crate). The theorems say that a finished table is closed
  under the references of its types and that its primitive index is exact.
\<close>

section \<open>Identities\<close>

datatype type_id = TypeId nat

fun type_number :: "type_id \<Rightarrow> nat" where
  "type_number (TypeId n) = n"

instantiation type_id :: linorder
begin

definition less_eq_type_id :: "type_id \<Rightarrow> type_id \<Rightarrow> bool" where
  "less_eq_type_id a b \<longleftrightarrow> type_number a \<le> type_number b"

definition less_type_id :: "type_id \<Rightarrow> type_id \<Rightarrow> bool" where
  "less_type_id a b \<longleftrightarrow> type_number a < type_number b"

instance
proof
  fix a b :: type_id
  show "a \<le> b \<Longrightarrow> b \<le> a \<Longrightarrow> a = b"
    by (cases a; cases b) (simp add: less_eq_type_id_def)
qed (auto simp: less_eq_type_id_def less_type_id_def)

end

datatype field_id = FieldId nat
datatype variant_id = VariantId nat
datatype parameter_id = ParameterId nat
datatype capture_id = CaptureId nat

datatype borrow_capability = Readonly | ReadWrite

section \<open>Types\<close>

datatype runtime_primitive =
    Bool | Char | Float32 | Float64 | Signed nat | Unsigned nat | Isize | Usize | Error | Text
  | Void | Never

datatype runtime_storage_role = FileCompletion | FileOwner | NetworkOwner

datatype runtime_type =
    Primitive runtime_primitive
  | Pointer type_id
  | Borrow borrow_capability type_id
  | Slice type_id
  | FixedArray type_id u64
  | Tuple "type_id list"
  | PackEntry type_id type_id
  | Aggregate
  | Closure
  | ErasedCallable
  | Callable
  | Optional type_id
  | Fallible type_id
  | Future type_id
  | Storage runtime_storage_role
  | Opaque

text \<open>Size and alignment of a storage role under the only runtime ABI, \<open>Arm64DarwinV1\<close>.\<close>

fun storage_layout :: "runtime_storage_role \<Rightarrow> (u64 \<times> u64) option" where
  "storage_layout FileCompletion = Some (88, 8)"
| "storage_layout FileOwner = Some (8, 8)"
| "storage_layout NetworkOwner = Some (48, 8)"

record runtime_variant =
  variant :: variant_id
  variant_payload :: "(parameter_id \<times> type_id) list"

datatype runtime_representation =
    StructRepresentation "(field_id \<times> type_id) list"
  | EnumRepresentation "runtime_variant list"
  | OpaqueRepresentation type_id
  | ClosureRepresentation "(capture_id \<times> type_id) list"

section \<open>The table\<close>

record runtime_type_table =
  entries :: "(type_id, runtime_type) btree_map"
  primitives :: "(runtime_primitive \<times> type_id) list"

text \<open>The primitive index is only looked up, so its key order is immaterial.\<close>

definition table_get :: "runtime_type_table \<Rightarrow> type_id \<Rightarrow> runtime_type option" where
  "table_get t ty = bt_get (entries t) ty"

definition table_primitive :: "runtime_type_table \<Rightarrow> runtime_primitive \<Rightarrow> type_id option" where
  "table_primitive t p = map_of (primitives t) p"

datatype table_build_error =
    DuplicateType type_id
  | DuplicatePrimitive runtime_primitive
  | InvalidTupleArity type_id nat
  | UnknownReference type_id type_id

definition table_builder_new :: runtime_type_table where
  "table_builder_new = \<lparr>entries = [], primitives = []\<rparr>"

definition table_insert ::
  "type_id \<Rightarrow> runtime_type \<Rightarrow> runtime_type_table \<Rightarrow> (table_build_error + unit) \<times> runtime_type_table" where
  "table_insert ty kind b =
     (if bt_contains (entries b) ty then (Inl (DuplicateType ty), b)
      else case kind of
        Primitive p \<Rightarrow>
          if table_primitive b p \<noteq> None then (Inl (DuplicatePrimitive p), b)
          else (Inr (), b\<lparr>primitives := (p, ty) # primitives b, entries := bt_insert ty kind (entries b)\<rparr>)
      | _ \<Rightarrow> (Inr (), b\<lparr>entries := bt_insert ty kind (entries b)\<rparr>))"

definition require_entry ::
  "(type_id, runtime_type) btree_map \<Rightarrow> type_id \<Rightarrow> type_id \<Rightarrow> table_build_error + unit" where
  "require_entry es owner referenced =
     (if bt_contains es referenced then Inr () else Inl (UnknownReference owner referenced))"

fun require_entries ::
  "(type_id, runtime_type) btree_map \<Rightarrow> type_id \<Rightarrow> type_id list \<Rightarrow> table_build_error + unit" where
  "require_entries es owner [] = Inr ()"
| "require_entries es owner (referenced # rest) =
     and_then (require_entry es owner referenced) (\<lambda>_. require_entries es owner rest)"

definition check_entry ::
  "(type_id, runtime_type) btree_map \<Rightarrow> type_id \<Rightarrow> runtime_type \<Rightarrow> table_build_error + unit" where
  "check_entry es owner kind =
     (case kind of
        Pointer ty \<Rightarrow> require_entry es owner ty
      | Slice ty \<Rightarrow> require_entry es owner ty
      | Optional ty \<Rightarrow> require_entry es owner ty
      | Fallible ty \<Rightarrow> require_entry es owner ty
      | Future ty \<Rightarrow> require_entry es owner ty
      | Borrow _ referent \<Rightarrow> require_entry es owner referent
      | FixedArray element _ \<Rightarrow> require_entry es owner element
      | Tuple elements \<Rightarrow>
          if length elements < 2 then Inl (InvalidTupleArity owner (length elements))
          else require_entries es owner elements
      | PackEntry key value \<Rightarrow>
          and_then (require_entry es owner key) (\<lambda>_. require_entry es owner value)
      | _ \<Rightarrow> Inr ())"

fun check_entries ::
  "(type_id, runtime_type) btree_map \<Rightarrow> (type_id \<times> runtime_type) list \<Rightarrow> table_build_error + unit" where
  "check_entries es [] = Inr ()"
| "check_entries es ((owner, kind) # rest) =
     and_then (check_entry es owner kind) (\<lambda>_. check_entries es rest)"

definition table_finish :: "runtime_type_table \<Rightarrow> table_build_error + runtime_type_table" where
  "table_finish b = and_then (check_entries (entries b) (entries b)) (\<lambda>_. Inr b)"

section \<open>Closed tables\<close>

text \<open>The types a type mentions by identity.\<close>

fun references :: "runtime_type \<Rightarrow> type_id set" where
  "references (Pointer ty) = {ty}"
| "references (Slice ty) = {ty}"
| "references (Optional ty) = {ty}"
| "references (Fallible ty) = {ty}"
| "references (Future ty) = {ty}"
| "references (Borrow c ty) = {ty}"
| "references (FixedArray ty n) = {ty}"
| "references (Tuple tys) = set tys"
| "references (PackEntry key value) = {key, value}"
| "references _ = {}"

fun arity_ok :: "runtime_type \<Rightarrow> bool" where
  "arity_ok (Tuple tys) \<longleftrightarrow> 2 \<le> length tys"
| "arity_ok _ \<longleftrightarrow> True"

lemma require_entry_Inr [simp]: "require_entry es owner ty = Inr u \<longleftrightarrow> bt_contains es ty"
  by (simp add: require_entry_def)

lemma require_entries_Inr [simp]:
  "require_entries es owner tys = Inr u \<longleftrightarrow> (\<forall>ty \<in> set tys. bt_contains es ty)"
  by (induction tys) auto

lemma check_entry_Inr [simp]:
  "check_entry es owner kind = Inr u \<longleftrightarrow> arity_ok kind \<and> (\<forall>ty \<in> references kind. bt_contains es ty)"
  by (cases kind) (auto simp: check_entry_def)

lemma check_entries_Inr [simp]:
  "check_entries es xs = Inr u \<longleftrightarrow>
     (\<forall>(owner, kind) \<in> set xs. arity_ok kind \<and> (\<forall>ty \<in> references kind. bt_contains es ty))"
  by (induction es xs rule: check_entries.induct) auto

definition closed_table :: "runtime_type_table \<Rightarrow> bool" where
  "closed_table t \<longleftrightarrow>
     (\<forall>ty kind. table_get t ty = Some kind \<longrightarrow>
        arity_ok kind \<and> (\<forall>r \<in> references kind. table_get t r \<noteq> None))"

section \<open>The builder as a transition system\<close>

inductive table_step :: "runtime_type_table \<Rightarrow> runtime_type_table \<Rightarrow> bool" where
  step_insert: "table_insert ty kind b = (r, b') \<Longrightarrow> table_step b b'"

inductive_simps table_step_iff: "table_step b b'"

definition table_inv :: "runtime_type_table \<Rightarrow> bool" where
  "table_inv b \<longleftrightarrow>
     bt_sorted (entries b)
     \<and> (\<forall>p ty. table_primitive b p = Some ty \<longleftrightarrow> table_get b ty = Some (Primitive p))"

lemma table_inv_insert:
  assumes inv: "table_inv b"
  shows "table_inv (snd (table_insert ty kind b))"
proof (cases "bt_contains (entries b) ty")
  case False
  then have new: "bt_get (entries b) ty = None" by (simp add: bt_contains_def)
  have sorted: "bt_sorted (entries b)" using inv by (simp add: table_inv_def)
  note get = bt_get_insert [OF sorted]
  show ?thesis
  proof (cases "\<exists>p. kind = Primitive p")
    case True
    then obtain p where p: "kind = Primitive p" by blast
    show ?thesis
    proof (cases "table_primitive b p")
      case None
      with inv new p show ?thesis
        by (auto simp: table_insert_def False table_inv_def get table_get_def table_primitive_def
            bt_sorted_insert) (metis option.distinct(1))
    qed (use inv False p in \<open>simp add: table_insert_def\<close>)
  next
    case False
    then have "snd (table_insert ty kind b) = b\<lparr>entries := bt_insert ty kind (entries b)\<rparr>"
      using \<open>\<not> bt_contains (entries b) ty\<close> by (cases kind) (simp_all add: table_insert_def)
    with inv new False show ?thesis
      by (auto simp: table_inv_def get table_get_def table_primitive_def bt_sorted_insert)
  qed
qed (use inv in \<open>simp add: table_insert_def\<close>)

interpretation type_table: transition_system "\<lambda>b. b = table_builder_new" table_step table_inv
proof
  show "b = table_builder_new \<Longrightarrow> table_inv b" for b
    by (simp add: table_inv_def table_builder_new_def bt_sorted_def table_get_def bt_get_def
        table_primitive_def)
  show "table_inv b \<Longrightarrow> table_step b b' \<Longrightarrow> table_inv b'" for b b'
    by (auto simp: table_step_iff) (metis snd_conv table_inv_insert)
qed

lemma table_finish_Inr:
  assumes "table_inv b"
  shows "table_finish b = Inr t \<longleftrightarrow> t = b \<and> closed_table b"
proof -
  have "(\<forall>(owner, kind) \<in> set (entries b). arity_ok kind \<and> (\<forall>ty \<in> references kind. bt_contains (entries b) ty))
      \<longleftrightarrow> closed_table b"
    using assms
    by (auto simp: closed_table_def table_get_def table_inv_def bt_get_Some_iff bt_contains_def)
  then show ?thesis by (auto simp: table_finish_def)
qed

text \<open>
  C24: a runtime type table built by insertions can be finished exactly when every tuple has at
  least two elements and every type it refers to is in the table; the finished table is the one that
  was built, and its primitive index gives the identity of a primitive exactly when the table gives
  that primitive for the identity.
\<close>

theorem finished_table_closed:
  assumes "reachable_from (\<lambda>b. b = table_builder_new) table_step b"
  shows "(\<forall>t. table_finish b = Inr t \<longleftrightarrow> t = b \<and> closed_table b)
    \<and> (\<forall>p ty. table_primitive b p = Some ty \<longleftrightarrow> table_get b ty = Some (Primitive p))"
  using type_table.reachable_inv [OF assms] table_finish_Inr by (auto simp: table_inv_def)

theorem finished_table_closed_witness:
  "table_primitive (snd (table_insert (TypeId 3) (Primitive Bool) table_builder_new)) Bool = Some (TypeId 3)"
proof -
  have "reachable_from (\<lambda>b. b = table_builder_new) table_step table_builder_new"
    by (rule reachable_start) simp
  moreover have "table_step table_builder_new (snd (table_insert (TypeId 3) (Primitive Bool) table_builder_new))"
    by (rule step_insert) (rule surjective_pairing)
  ultimately have "reachable_from (\<lambda>b. b = table_builder_new) table_step
      (snd (table_insert (TypeId 3) (Primitive Bool) table_builder_new))"
    by (rule reachable_step)
  from finished_table_closed [OF this] show ?thesis
    by (simp add: table_insert_def table_builder_new_def bt_contains_def bt_get_def table_primitive_def
        table_get_def)
qed

end
