(* ===== verification/Machine_Layout.thy ===== *)
theory Machine_Layout
  imports Runtime_Types Alignment
begin

text \<open>
  Stored layouts of concrete runtime types (\<^verbatim>\<open>nocter-machine/src/layout.rs\<close>, and the value class
  of \<^verbatim>\<open>nocter-machine/src/transport.rs\<close>). The recursive \<open>layout\<close>/\<open>compute\<close> pair of the sources is
  bounded here by fuel; the active set makes every cycle an error, and the theorems show that as
  much fuel as there are types never runs out. They also show that every layout in the store is
  well formed: members are aligned, disjoint and inside the size, and the size is a multiple of the
  alignment.
\<close>

section \<open>Layouts\<close>

datatype machine_scalar = ScalarBool | ScalarFloat32 | ScalarFloat64 | ScalarInteger u8 bool

datatype machine_outcome_kind = OutcomeOptional | OutcomeFallible

text \<open>
  The sources have one record each for fields, tuple elements, payloads and captures; all four are a
  type and an offset.
\<close>

record member_layout =
  member_ty :: type_id
  member_offset :: u64

record enum_variant_layout =
  variant_tag :: u8
  variant_members :: "member_layout list"

datatype machine_layout_kind =
    KindScalar machine_scalar
  | KindPointer
  | KindView u64 u64
  | KindErrorHandle
  | KindRuntimeStorage runtime_storage_role
  | KindStruct "member_layout list"
  | KindTuple "member_layout list"
  | KindEnum u64 u64 "enum_variant_layout list"
  | KindFixedArray type_id u64 u64
  | KindClosure "member_layout list"
  | KindErasedCallable u64 u64 u64 u64
  | KindPackEntry member_layout member_layout
  | KindOutcome machine_outcome_kind u64 u64 "type_id option" "type_id option"
  | KindOpaque type_id

record machine_layout =
  layout_size :: u64
  layout_alignment :: u64
  layout_kind :: machine_layout_kind

datatype machine_value_class = ZeroClass | Direct u8 | Float32Class | Float64Class | Indirect

datatype machine_layout_error =
    UnknownType type_id
  | MissingPrimitive runtime_primitive
  | InvalidIntegerWidth nat
  | UnsizedOrSymbolicType type_id
  | MissingRepresentation type_id
  | InvalidRepresentation type_id
  | RecursiveValue type_id
  | LayoutOverflow type_id
  | InvalidTypeAlignment type_id u64
  | UnsupportedRuntimeStorage type_id
  | OutOfFuel

text \<open>The machine target of \<open>Arm64DarwinV1\<close>.\<close>

definition word_size :: u64 where "word_size = 8"
definition pointer_size :: u64 where "pointer_size = 8"
definition pointer_alignment :: u64 where "pointer_alignment = 8"
definition direct_value_word_limit :: u64 where "direct_value_word_limit = 2"
definition error_handle_size :: u64 where "error_handle_size = 8"
definition error_handle_alignment :: u64 where "error_handle_alignment = 8"

definition class_for_layout :: "machine_layout \<Rightarrow> machine_value_class" where
  "class_for_layout l =
     (if layout_size l = 0 then ZeroClass
      else if layout_kind l = KindScalar ScalarFloat32 then Float32Class
      else if layout_kind l = KindScalar ScalarFloat64 then Float64Class
      else let words = layout_size l div word_size
               + (if layout_size l mod word_size = 0 then 0 else 1) in
        if words \<le> direct_value_word_limit
        then (if words < 256 then Direct (ucast words) else Indirect)
        else Indirect)"

section \<open>The builder\<close>

record layout_program =
  types :: runtime_type_table
  representations :: "type_id \<rightharpoonup> runtime_representation"

record layout_builder =
  layouts :: "type_id \<rightharpoonup> machine_layout"
  classes :: "type_id \<rightharpoonup> machine_value_class"
  active_types :: "type_id set"
  field_layouts :: "type_id \<times> field_id \<rightharpoonup> member_layout"
  variant_layouts :: "type_id \<times> variant_id \<rightharpoonup> enum_variant_layout"
  payload_layouts :: "type_id \<times> variant_id \<times> parameter_id \<rightharpoonup> member_layout"
  capture_layouts :: "type_id \<times> capture_id \<rightharpoonup> member_layout"

definition layout_builder_new :: layout_builder where
  "layout_builder_new =
     \<lparr>layouts = Map.empty, classes = Map.empty, active_types = {}, field_layouts = Map.empty,
      variant_layouts = Map.empty, payload_layouts = Map.empty, capture_layouts = Map.empty\<rparr>"

text \<open>
  A step of the builder either fails, and then the whole construction is dropped, or returns a value
  and the new builder.
\<close>

type_synonym 'a layout_step = "layout_builder \<Rightarrow> machine_layout_error + 'a \<times> layout_builder"

definition lift_step :: "machine_layout_error + 'a \<Rightarrow> 'a layout_step" where
  "lift_step r s = and_then r (\<lambda>x. Inr (x, s))"

definition bind_step :: "'a layout_step \<Rightarrow> ('a \<Rightarrow> 'b layout_step) \<Rightarrow> 'b layout_step" where
  "bind_step m f s = and_then (m s) (\<lambda>(x, s'). f x s')"

definition align_up :: "u64 \<Rightarrow> u64 \<Rightarrow> type_id \<Rightarrow> machine_layout_error + u64" where
  "align_up value alignment ty =
     and_then (ok_or (InvalidTypeAlignment ty alignment) (checked_sub alignment 1)) (\<lambda>m.
       if \<not> is_power_of_two alignment then Inl (InvalidTypeAlignment ty alignment)
       else ok_or (LayoutOverflow ty) (map_option (\<lambda>v. round_with_mask v m) (checked_add value m)))"

definition checked_size :: "type_id \<Rightarrow> u64 \<Rightarrow> u64 \<Rightarrow> machine_layout_error + u64" where
  "checked_size ty a b = ok_or (LayoutOverflow ty) (checked_add a b)"

definition integer_layout :: "nat \<Rightarrow> bool \<Rightarrow> machine_layout_error + u64 \<times> u64 \<times> machine_layout_kind" where
  "integer_layout bits is_signed =
     (if 255 < bits then Inl (InvalidIntegerWidth bits)
      else let bytes = word_of_nat (bits div 8) in
        Inr (bytes, bytes, KindScalar (ScalarInteger (word_of_nat bits) is_signed)))"

definition primitive_layout :: "type_id \<Rightarrow> runtime_primitive \<Rightarrow> machine_layout_error + machine_layout" where
  "primitive_layout ty p =
     and_then
       (case p of
          Bool \<Rightarrow> Inr (1, 1, KindScalar ScalarBool)
        | Char \<Rightarrow> integer_layout 32 False
        | Float32 \<Rightarrow> Inr (4, 4, KindScalar ScalarFloat32)
        | Float64 \<Rightarrow> Inr (8, 8, KindScalar ScalarFloat64)
        | Signed bits \<Rightarrow> integer_layout bits True
        | Unsigned bits \<Rightarrow> integer_layout bits False
        | Isize \<Rightarrow> integer_layout 64 True
        | Usize \<Rightarrow> integer_layout 64 False
        | Error \<Rightarrow> Inr (error_handle_size, error_handle_alignment, KindErrorHandle)
        | Text \<Rightarrow> Inl (UnsizedOrSymbolicType ty)
        | Void \<Rightarrow> Inl (UnsizedOrSymbolicType ty)
        | Never \<Rightarrow> Inl (UnsizedOrSymbolicType ty))
       (\<lambda>(bytes, alignment, kind).
          Inr \<lparr>layout_size = bytes, layout_alignment = alignment, layout_kind = kind\<rparr>)"

definition pointer_layout :: machine_layout where
  "pointer_layout =
     \<lparr>layout_size = pointer_size, layout_alignment = pointer_alignment, layout_kind = KindPointer\<rparr>"

definition is_void :: "runtime_type_table \<Rightarrow> type_id \<Rightarrow> bool" where
  "is_void t ty \<longleftrightarrow> table_get t ty = Some (Primitive Void)"

definition is_completion_type :: "runtime_type_table \<Rightarrow> type_id \<Rightarrow> bool" where
  "is_completion_type t ty \<longleftrightarrow>
     table_get t ty = Some (Primitive Void) \<or> table_get t ty = Some (Primitive Never)"

definition require_primitive :: "runtime_type_table \<Rightarrow> runtime_primitive \<Rightarrow> machine_layout_error + type_id" where
  "require_primitive t p = ok_or (MissingPrimitive p) (table_primitive t p)"

text \<open>\<open>member_offsets\<close>: the loop over the members, with the size, alignment and offsets so far.\<close>

fun member_offsets_from ::
  "(type_id \<Rightarrow> machine_layout layout_step) \<Rightarrow> type_id \<Rightarrow> u64 \<Rightarrow> u64 \<Rightarrow> u64 list \<Rightarrow> type_id list
     \<Rightarrow> (u64 \<times> u64 \<times> u64 list) layout_step" where
  "member_offsets_from lay owner so_far alignment offsets [] =
     lift_step (and_then (align_up so_far alignment owner) (\<lambda>total. Inr (total, alignment, offsets)))"
| "member_offsets_from lay owner so_far alignment offsets (member # rest) =
     bind_step (lay member) (\<lambda>l.
     bind_step (lift_step (align_up so_far (layout_alignment l) owner)) (\<lambda>offset.
     bind_step (lift_step (checked_size owner offset (layout_size l))) (\<lambda>stop.
       member_offsets_from lay owner stop (max alignment (layout_alignment l)) (offsets @ [offset]) rest)))"

definition member_offsets ::
  "(type_id \<Rightarrow> machine_layout layout_step) \<Rightarrow> type_id \<Rightarrow> type_id list \<Rightarrow> (u64 \<times> u64 \<times> u64 list) layout_step" where
  "member_offsets lay owner members = member_offsets_from lay owner 0 1 [] members"

fun record_fields ::
  "type_id \<Rightarrow> ((field_id \<times> type_id) \<times> u64) list \<Rightarrow> member_layout list layout_step" where
  "record_fields ty [] s = Inr ([], s)"
| "record_fields ty (((f, fty), offset) # rest) s =
     (let l = \<lparr>member_ty = fty, member_offset = offset\<rparr> in
      if field_layouts s (ty, f) \<noteq> None then Inl (InvalidRepresentation ty)
      else bind_step (record_fields ty rest) (\<lambda>ls s. Inr (l # ls, s))
             (s\<lparr>field_layouts := (field_layouts s)((ty, f) \<mapsto> l)\<rparr>))"

definition structure_layout ::
  "(type_id \<Rightarrow> machine_layout layout_step) \<Rightarrow> type_id \<Rightarrow> (field_id \<times> type_id) list \<Rightarrow> machine_layout layout_step" where
  "structure_layout lay ty fs =
     bind_step (member_offsets lay ty (map snd fs)) (\<lambda>(total, alignment, offsets).
     bind_step (record_fields ty (zip fs offsets)) (\<lambda>ls s.
       Inr (\<lparr>layout_size = total, layout_alignment = alignment, layout_kind = KindStruct ls\<rparr>, s)))"

definition tuple_layout ::
  "(type_id \<Rightarrow> machine_layout layout_step) \<Rightarrow> type_id \<Rightarrow> type_id list \<Rightarrow> machine_layout layout_step" where
  "tuple_layout lay ty elements =
     bind_step (member_offsets lay ty elements) (\<lambda>(total, alignment, offsets) s.
       Inr (\<lparr>layout_size = total, layout_alignment = alignment,
             layout_kind = KindTuple (map (\<lambda>(e, offset). \<lparr>member_ty = e, member_offset = offset\<rparr>)
               (zip elements offsets))\<rparr>, s))"

fun record_captures ::
  "type_id \<Rightarrow> ((capture_id \<times> type_id) \<times> u64) list \<Rightarrow> member_layout list layout_step" where
  "record_captures ty [] s = Inr ([], s)"
| "record_captures ty (((c, cty), offset) # rest) s =
     (let l = \<lparr>member_ty = cty, member_offset = offset\<rparr> in
      if capture_layouts s (ty, c) \<noteq> None then Inl (InvalidRepresentation ty)
      else bind_step (record_captures ty rest) (\<lambda>ls s. Inr (l # ls, s))
             (s\<lparr>capture_layouts := (capture_layouts s)((ty, c) \<mapsto> l)\<rparr>))"

definition closure_layout ::
  "layout_program \<Rightarrow> (type_id \<Rightarrow> machine_layout layout_step) \<Rightarrow> type_id \<Rightarrow> machine_layout layout_step" where
  "closure_layout prog lay ty =
     (case representations prog ty of
        Some (ClosureRepresentation cs) \<Rightarrow>
          bind_step (member_offsets lay ty (map snd cs)) (\<lambda>(total, alignment, offsets).
          bind_step (record_captures ty (zip cs offsets)) (\<lambda>ls s.
            Inr (\<lparr>layout_size = total, layout_alignment = alignment, layout_kind = KindClosure ls\<rparr>, s)))
      | _ \<Rightarrow> lift_step (Inl (MissingRepresentation ty)))"

fun variant_offsets ::
  "(type_id \<Rightarrow> machine_layout layout_step) \<Rightarrow> type_id \<Rightarrow> u64 \<Rightarrow> u64 \<Rightarrow> u64 list list \<Rightarrow> runtime_variant list
     \<Rightarrow> (u64 \<times> u64 \<times> u64 list list) layout_step" where
  "variant_offsets lay ty alignment bytes relative [] = lift_step (Inr (alignment, bytes, relative))"
| "variant_offsets lay ty alignment bytes relative (v # rest) =
     bind_step (member_offsets lay ty (map snd (variant_payload v))) (\<lambda>(b, a, offsets).
       variant_offsets lay ty (max alignment a) (max bytes b) (relative @ [offsets]) rest)"

fun record_payloads ::
  "type_id \<Rightarrow> variant_id \<Rightarrow> u64 \<Rightarrow> ((parameter_id \<times> type_id) \<times> u64) list \<Rightarrow> member_layout list layout_step" where
  "record_payloads ty v payload_offset [] s = Inr ([], s)"
| "record_payloads ty v payload_offset (((p, pty), offset) # rest) s =
     and_then (checked_size ty payload_offset offset) (\<lambda>at.
       let l = \<lparr>member_ty = pty, member_offset = at\<rparr> in
       if payload_layouts s (ty, v, p) \<noteq> None then Inl (InvalidRepresentation ty)
       else bind_step (record_payloads ty v payload_offset rest) (\<lambda>ls s. Inr (l # ls, s))
              (s\<lparr>payload_layouts := (payload_layouts s)((ty, v, p) \<mapsto> l)\<rparr>))"

fun record_variants ::
  "type_id \<Rightarrow> u64 \<Rightarrow> nat \<Rightarrow> (runtime_variant \<times> u64 list) list \<Rightarrow> enum_variant_layout list layout_step" where
  "record_variants ty payload_offset tag [] = lift_step (Inr [])"
| "record_variants ty payload_offset tag ((v, offsets) # rest) =
     bind_step (record_payloads ty (variant v) payload_offset (zip (variant_payload v) offsets)) (\<lambda>members s.
       if 255 < tag then Inl (InvalidRepresentation ty)
       else let l = \<lparr>variant_tag = word_of_nat tag, variant_members = members\<rparr> in
         if variant_layouts s (ty, variant v) \<noteq> None then Inl (InvalidRepresentation ty)
         else bind_step (record_variants ty payload_offset (Suc tag) rest) (\<lambda>ls s. Inr (l # ls, s))
                (s\<lparr>variant_layouts := (variant_layouts s)((ty, variant v) \<mapsto> l)\<rparr>))"

definition enumeration_layout ::
  "(type_id \<Rightarrow> machine_layout layout_step) \<Rightarrow> type_id \<Rightarrow> runtime_variant list \<Rightarrow> machine_layout layout_step" where
  "enumeration_layout lay ty vs =
     (if vs = [] \<or> 256 < length vs then lift_step (Inl (InvalidRepresentation ty))
      else
        bind_step (variant_offsets lay ty 1 0 [] vs) (\<lambda>(alignment, bytes, relative).
        bind_step (lift_step (align_up 1 alignment ty)) (\<lambda>payload_offset.
        bind_step (lift_step (checked_size ty payload_offset bytes)) (\<lambda>unaligned.
        bind_step (lift_step (align_up unaligned alignment ty)) (\<lambda>total.
        bind_step (record_variants ty payload_offset 0 (zip vs relative)) (\<lambda>ls s.
          Inr (\<lparr>layout_size = total, layout_alignment = alignment,
                layout_kind = KindEnum 0 payload_offset ls\<rparr>, s)))))))"

definition nominal_layout ::
  "layout_program \<Rightarrow> (type_id \<Rightarrow> machine_layout layout_step) \<Rightarrow> type_id \<Rightarrow> machine_layout layout_step" where
  "nominal_layout prog lay ty =
     (case representations prog ty of
        None \<Rightarrow> lift_step (Inl (MissingRepresentation ty))
      | Some (StructRepresentation fs) \<Rightarrow> structure_layout lay ty fs
      | Some (EnumRepresentation vs) \<Rightarrow> enumeration_layout lay ty vs
      | Some (OpaqueRepresentation _) \<Rightarrow> lift_step (Inl (InvalidRepresentation ty))
      | Some (ClosureRepresentation _) \<Rightarrow> lift_step (Inl (InvalidRepresentation ty)))"

definition outcome_layout ::
  "type_id \<Rightarrow> machine_outcome_kind \<Rightarrow> (machine_layout \<times> type_id) option \<Rightarrow> (machine_layout \<times> type_id) option
     \<Rightarrow> machine_layout_error + machine_layout" where
  "outcome_layout ty kind primary alternate =
     (let of_alignment = (\<lambda>part. case part of None \<Rightarrow> 1 | Some (l, _) \<Rightarrow> layout_alignment l);
          of_size = (\<lambda>part. case part of None \<Rightarrow> 0 | Some (l, _) \<Rightarrow> layout_size l);
          alignment = max (of_alignment primary) (of_alignment alternate);
          payload_size = max (of_size primary) (of_size alternate) in
      and_then (align_up 1 alignment ty) (\<lambda>payload_offset.
      and_then (checked_size ty payload_offset payload_size) (\<lambda>unaligned.
      and_then (align_up unaligned alignment ty) (\<lambda>total.
        Inr \<lparr>layout_size = total, layout_alignment = alignment,
             layout_kind = KindOutcome kind 0 payload_offset (map_option snd primary)
               (map_option snd alternate)\<rparr>))))"

definition view_layout :: machine_layout where
  "view_layout =
     \<lparr>layout_size = word_size * 2, layout_alignment = word_size, layout_kind = KindView 0 word_size\<rparr>"

definition erased_callable_layout :: machine_layout where
  "erased_callable_layout =
     \<lparr>layout_size = pointer_size * 4, layout_alignment = pointer_alignment,
      layout_kind = KindErasedCallable 0 pointer_size (pointer_size * 2) (pointer_size * 3)\<rparr>"

definition compute_layout ::
  "layout_program \<Rightarrow> (type_id \<Rightarrow> machine_layout layout_step) \<Rightarrow> type_id \<Rightarrow> runtime_type
     \<Rightarrow> machine_layout layout_step" where
  "compute_layout prog lay ty kind =
     (case kind of
        Primitive p \<Rightarrow> lift_step (primitive_layout ty p)
      | Storage role \<Rightarrow>
          lift_step (and_then (ok_or (UnsupportedRuntimeStorage ty) (storage_layout role))
            (\<lambda>(bytes, alignment). Inr \<lparr>layout_size = bytes, layout_alignment = alignment,
               layout_kind = KindRuntimeStorage role\<rparr>))
      | Pointer _ \<Rightarrow> lift_step (Inr pointer_layout)
      | Future _ \<Rightarrow> lift_step (Inr pointer_layout)
      | Borrow _ referent \<Rightarrow>
          lift_step (and_then (ok_or (UnknownType referent) (table_get (types prog) referent)) (\<lambda>r.
            case r of
              Primitive Text \<Rightarrow> Inr view_layout
            | Slice _ \<Rightarrow> Inr view_layout
            | _ \<Rightarrow> Inr pointer_layout))
      | FixedArray element count \<Rightarrow>
          bind_step (lay element) (\<lambda>l.
            lift_step (and_then (align_up (layout_size l) (layout_alignment l) ty) (\<lambda>stride.
              and_then (ok_or (LayoutOverflow ty) (checked_mul stride count)) (\<lambda>total.
                Inr \<lparr>layout_size = total, layout_alignment = layout_alignment l,
                     layout_kind = KindFixedArray element count stride\<rparr>))))
      | Tuple elements \<Rightarrow> tuple_layout lay ty elements
      | PackEntry key value \<Rightarrow>
          bind_step (lay key) (\<lambda>k.
          bind_step (lay value) (\<lambda>v.
            lift_step (and_then (align_up (layout_size k) (layout_alignment v) ty) (\<lambda>value_offset.
              let alignment = max (layout_alignment k) (layout_alignment v) in
              and_then (checked_size ty value_offset (layout_size v)) (\<lambda>unaligned.
              and_then (align_up unaligned alignment ty) (\<lambda>total.
                Inr \<lparr>layout_size = total, layout_alignment = alignment,
                     layout_kind = KindPackEntry \<lparr>member_ty = key, member_offset = 0\<rparr>
                       \<lparr>member_ty = value, member_offset = value_offset\<rparr>\<rparr>))))))
      | Aggregate \<Rightarrow> nominal_layout prog lay ty
      | Closure \<Rightarrow> closure_layout prog lay ty
      | ErasedCallable \<Rightarrow> lift_step (Inr erased_callable_layout)
      | Optional payload \<Rightarrow>
          bind_step (lay payload) (\<lambda>l.
            lift_step (outcome_layout ty OutcomeOptional (Some (l, payload)) None))
      | Fallible payload \<Rightarrow>
          bind_step (if is_void (types prog) payload then lift_step (Inr None)
                     else bind_step (lay payload) (\<lambda>l. lift_step (Inr (Some (l, payload))))) (\<lambda>primary.
          bind_step (lift_step (require_primitive (types prog) Error)) (\<lambda>error.
          bind_step (lay error) (\<lambda>alternate.
            lift_step (outcome_layout ty OutcomeFallible primary (Some (alternate, error))))))
      | Opaque \<Rightarrow>
          (case representations prog ty of
             Some (OpaqueRepresentation witness) \<Rightarrow>
               bind_step (lay witness) (\<lambda>l.
                 lift_step (Inr \<lparr>layout_size = layout_size l, layout_alignment = layout_alignment l,
                                 layout_kind = KindOpaque witness\<rparr>))
           | _ \<Rightarrow> lift_step (Inl (MissingRepresentation ty)))
      | Slice _ \<Rightarrow> lift_step (Inl (UnsizedOrSymbolicType ty))
      | Callable \<Rightarrow> lift_step (Inl (UnsizedOrSymbolicType ty)))"

fun layout :: "layout_program \<Rightarrow> nat \<Rightarrow> type_id \<Rightarrow> machine_layout layout_step" where
  "layout prog 0 ty s = Inl OutOfFuel"
| "layout prog (Suc fuel) ty s =
     (case layouts s ty of
        Some l \<Rightarrow> Inr (l, s)
      | None \<Rightarrow>
          if ty \<in> active_types s then Inl (RecursiveValue ty)
          else let s = s\<lparr>active_types := insert ty (active_types s)\<rparr> in
            and_then (ok_or (UnknownType ty) (table_get (types prog) ty)) (\<lambda>kind.
            and_then (compute_layout prog (layout prog fuel) ty kind s) (\<lambda>(l, s).
              Inr (l, s\<lparr>active_types := active_types s - {ty},
                        layouts := (layouts s)(ty \<mapsto> l),
                        classes := (classes s)(ty \<mapsto> class_for_layout l)\<rparr>))))"

text \<open>The loop over the root types that ends \<open>MachineLayoutPlan::build\<close>.\<close>

fun layout_roots :: "layout_program \<Rightarrow> nat \<Rightarrow> type_id list \<Rightarrow> unit layout_step" where
  "layout_roots prog fuel [] s = Inr ((), s)"
| "layout_roots prog fuel (ty # rest) s =
     (if is_completion_type (types prog) ty then layout_roots prog fuel rest s
      else bind_step (layout prog fuel ty) (\<lambda>_. layout_roots prog fuel rest) s)"

definition build_layouts :: "layout_program \<Rightarrow> nat \<Rightarrow> type_id list \<Rightarrow> machine_layout_error + layout_builder" where
  "build_layouts prog fuel roots = and_then (layout_roots prog fuel roots layout_builder_new) (\<lambda>(_, s). Inr s)"

section \<open>Well-formed layouts\<close>

type_synonym layout_store = "type_id \<rightharpoonup> machine_layout"

definition member_stop :: "layout_store \<Rightarrow> member_layout \<Rightarrow> nat" where
  "member_stop store m =
     unat (member_offset m) + (case store (member_ty m) of None \<Rightarrow> 0 | Some l \<Rightarrow> unat (layout_size l))"

text \<open>
  The members lie between \<open>low\<close> and \<open>high\<close>, at offsets aligned for their types, one after another,
  and their alignments divide that of the whole.
\<close>

definition member_ok :: "layout_store \<Rightarrow> nat \<Rightarrow> nat \<Rightarrow> u64 \<Rightarrow> member_layout \<Rightarrow> bool" where
  "member_ok store low high alignment m \<longleftrightarrow>
     (\<exists>l. store (member_ty m) = Some l
        \<and> low \<le> unat (member_offset m) \<and> unat (member_offset m) + unat (layout_size l) \<le> high
        \<and> unat (layout_alignment l) dvd unat (member_offset m)
        \<and> unat (layout_alignment l) dvd unat alignment)"

definition members_ok :: "layout_store \<Rightarrow> nat \<Rightarrow> nat \<Rightarrow> u64 \<Rightarrow> member_layout list \<Rightarrow> bool" where
  "members_ok store low high alignment ms \<longleftrightarrow>
     (\<forall>m \<in> set ms. member_ok store low high alignment m)
     \<and> sorted_wrt (\<lambda>a b. member_stop store a \<le> unat (member_offset b)) ms"

definition sized :: "machine_layout \<Rightarrow> bool" where
  "sized l \<longleftrightarrow> is_power_of_two (layout_alignment l) \<and> unat (layout_alignment l) dvd unat (layout_size l)"

definition kind_ok :: "layout_store \<Rightarrow> machine_layout \<Rightarrow> bool" where
  "kind_ok store l \<longleftrightarrow>
     (let bytes = unat (layout_size l); alignment = layout_alignment l in
      case layout_kind l of
        KindScalar scalar \<Rightarrow>
          alignment = layout_size l
          \<and> (case scalar of
               ScalarBool \<Rightarrow> bytes = 1
             | ScalarFloat32 \<Rightarrow> bytes = 4
             | ScalarFloat64 \<Rightarrow> bytes = 8
             | ScalarInteger bits _ \<Rightarrow> 8 * bytes = unat bits)
      | KindStruct ms \<Rightarrow> members_ok store 0 bytes alignment ms
      | KindTuple ms \<Rightarrow> members_ok store 0 bytes alignment ms
      | KindClosure ms \<Rightarrow> members_ok store 0 bytes alignment ms
      | KindPackEntry k v \<Rightarrow> members_ok store 0 bytes alignment [k, v]
      | KindEnum tag_offset payload_offset vs \<Rightarrow>
          tag_offset = 0 \<and> 1 \<le> unat payload_offset \<and> unat payload_offset \<le> bytes
          \<and> length vs \<le> 256 \<and> map variant_tag vs = map word_of_nat [0..<length vs]
          \<and> (\<forall>v \<in> set vs. members_ok store (unat payload_offset) bytes alignment (variant_members v))
      | KindFixedArray element count stride \<Rightarrow>
          (\<exists>e. store element = Some e \<and> unat (layout_size e) \<le> unat stride
             \<and> unat (layout_alignment e) dvd unat stride \<and> bytes = unat stride * unat count
             \<and> alignment = layout_alignment e)
      | KindOutcome kind tag_offset payload_offset primary alternate \<Rightarrow>
          tag_offset = 0 \<and> 1 \<le> unat payload_offset \<and> unat payload_offset \<le> bytes
          \<and> (\<forall>ty \<in> set_option primary \<union> set_option alternate.
               member_ok store (unat payload_offset) bytes alignment
                 \<lparr>member_ty = ty, member_offset = payload_offset\<rparr>)
      | KindOpaque witness \<Rightarrow>
          (\<exists>w. store witness = Some w \<and> layout_size w = layout_size l
             \<and> layout_alignment w = layout_alignment l)
      | _ \<Rightarrow> True)"

text \<open>The types a layout holds by value, and the relation that a stored type holds another.\<close>

fun components :: "machine_layout_kind \<Rightarrow> type_id list" where
  "components (KindStruct ms) = map member_ty ms"
| "components (KindTuple ms) = map member_ty ms"
| "components (KindClosure ms) = map member_ty ms"
| "components (KindPackEntry k v) = [member_ty k, member_ty v]"
| "components (KindEnum _ _ vs) = concat (map (\<lambda>v. map member_ty (variant_members v)) vs)"
| "components (KindFixedArray element _ _) = [element]"
| "components (KindOutcome _ _ _ primary alternate) =
     (case primary of None \<Rightarrow> [] | Some ty \<Rightarrow> [ty]) @ (case alternate of None \<Rightarrow> [] | Some ty \<Rightarrow> [ty])"
| "components (KindOpaque witness) = [witness]"
| "components _ = []"

definition held_by :: "layout_store \<Rightarrow> (type_id \<times> type_id) set" where
  "held_by store = {(part, whole). \<exists>l. store whole = Some l \<and> part \<in> set (components (layout_kind l))}"

definition store_ok :: "layout_builder \<Rightarrow> bool" where
  "store_ok s \<longleftrightarrow>
     (\<forall>ty l. layouts s ty = Some l \<longrightarrow>
        sized l \<and> kind_ok (layouts s) l \<and> classes s ty = Some (class_for_layout l))
     \<and> acyclic (held_by (layouts s))"

definition grows :: "layout_builder \<Rightarrow> layout_builder \<Rightarrow> bool" where
  "grows s s' \<longleftrightarrow>
     layouts s \<subseteq>\<^sub>m layouts s' \<and> active_types s' = active_types s
     \<and> (\<forall>ty \<in> active_types s. layouts s' ty = layouts s ty)"

text \<open>Integer types have one of the widths of the language.\<close>

definition standard_widths :: "runtime_type_table \<Rightarrow> bool" where
  "standard_widths t \<longleftrightarrow>
     (\<forall>ty bits. table_get t ty = Some (Primitive (Signed bits))
          \<or> table_get t ty = Some (Primitive (Unsigned bits)) \<longrightarrow> bits \<in> {8, 16, 32, 64})"

section \<open>Growth of the store\<close>

lemma grows_refl [simp]: "grows s s"
  by (simp add: grows_def)

lemma grows_trans: "grows s t \<Longrightarrow> grows t u \<Longrightarrow> grows s u"
  by (auto simp: grows_def intro: map_le_trans)

lemma grows_le: "grows s s' \<Longrightarrow> layouts s \<subseteq>\<^sub>m layouts s'"
  by (simp add: grows_def)

lemma map_le_Some: "m \<subseteq>\<^sub>m m' \<Longrightarrow> m k = Some v \<Longrightarrow> m' k = Some v"
  by (metis domI map_le_def)

lemma member_ok_mono:
  "m \<subseteq>\<^sub>m m' \<Longrightarrow> member_ok m low high a x \<Longrightarrow> member_ok m' low high a x"
  by (auto simp: member_ok_def dest: map_le_Some)

lemma member_stop_mono:
  "m \<subseteq>\<^sub>m m' \<Longrightarrow> m (member_ty x) \<noteq> None \<Longrightarrow> member_stop m' x = member_stop m x"
  by (auto simp: member_stop_def dest: map_le_Some)

lemma members_ok_mono:
  assumes le: "m \<subseteq>\<^sub>m m'" and ok: "members_ok m low high a xs"
  shows "members_ok m' low high a xs"
proof -
  have "m (member_ty x) \<noteq> None" if "x \<in> set xs" for x
    using ok that by (auto simp: members_ok_def member_ok_def)
  then have "sorted_wrt (\<lambda>a b. member_stop m' a \<le> unat (member_offset b)) xs"
    using ok le by (auto simp: members_ok_def member_stop_mono elim!: sorted_wrt_mono_rel [rotated])
  with ok le show ?thesis by (auto simp: members_ok_def intro: member_ok_mono)
qed

lemma kind_ok_mono: "m \<subseteq>\<^sub>m m' \<Longrightarrow> kind_ok m l \<Longrightarrow> kind_ok m' l"
  by (cases "layout_kind l")
    (auto simp: kind_ok_def Let_def intro: members_ok_mono member_ok_mono dest: map_le_Some)

text \<open>Widening the bounds of a member list.\<close>

lemma members_ok_widen:
  assumes "members_ok m low high a xs" and "low' \<le> low" and "high \<le> high'" and "unat a dvd unat a'"
  shows "members_ok m low' high' a' xs"
  using assms by (force simp: members_ok_def member_ok_def intro: dvd_trans)

section \<open>Placement of members\<close>

lemma align_up_Inr:
  assumes "align_up v a ty = Inr r"
  shows "is_power_of_two a" and "unat a dvd unat r" and "unat v \<le> unat r"
proof -
  from assms have p: "is_power_of_two a" by (auto simp: align_up_def split: if_splits)
  from assms obtain s m where m: "checked_sub a 1 = Some m" and s: "checked_add v m = Some s"
    and r: "r = round_with_mask s m"
    by (auto simp: align_up_def split: if_splits)
  have "m = a - 1" using m by (simp add: checked_sub_def split: if_splits)
  with round_up_unat [OF p] s r p
  show "is_power_of_two a" "unat a dvd unat r" "unat v \<le> unat r" by auto
qed

lemma checked_size_Inr: "checked_size ty a b = Inr r \<Longrightarrow> unat r = unat a + unat b"
  by (auto simp: checked_size_def dest: checked_add_SomeD)

lemma bind_step_Inr [simp]:
  "bind_step m f s = Inr r \<longleftrightarrow> (\<exists>x t. m s = Inr (x, t) \<and> f x t = Inr r)"
  by (auto simp: bind_step_def)

lemma lift_step_Inr [simp]: "lift_step r s = Inr (x, t) \<longleftrightarrow> r = Inr x \<and> t = s"
  by (auto simp: lift_step_def)

definition call_ok :: "(type_id \<Rightarrow> machine_layout layout_step) \<Rightarrow> bool" where
  "call_ok lay \<longleftrightarrow>
     (\<forall>ty s l s'. store_ok s \<longrightarrow> lay ty s = Inr (l, s') \<longrightarrow>
        store_ok s' \<and> grows s s' \<and> layouts s' ty = Some l)"

lemma call_okD:
  assumes "call_ok lay" and "store_ok s" and "lay ty s = Inr (l, s')"
  shows "store_ok s'" and "grows s s'" and "layouts s' ty = Some l" and "sized l"
proof -
  have all: "store_ok s' \<and> grows s s' \<and> layouts s' ty = Some l"
    using assms unfolding call_ok_def by blast
  then show "store_ok s'" "grows s s'" "layouts s' ty = Some l" by simp_all
  from all show "sized l" unfolding store_ok_def by blast
qed

abbreviation member_list :: "type_id list \<Rightarrow> u64 list \<Rightarrow> member_layout list" where
  "member_list tys offsets \<equiv> map (\<lambda>(ty, offset). \<lparr>member_ty = ty, member_offset = offset\<rparr>) (zip tys offsets)"

lemma member_offsets_from_Inr:
  assumes "call_ok lay" and "store_ok s" and "is_power_of_two al"
    and "member_offsets_from lay owner so_far al offsets ms s = Inr ((extent, al', offsets'), s')"
  shows "\<exists>new. offsets' = offsets @ new \<and> length new = length ms
    \<and> store_ok s' \<and> grows s s' \<and> is_power_of_two al' \<and> al \<le> al'
    \<and> unat so_far \<le> unat extent \<and> unat al' dvd unat extent
    \<and> members_ok (layouts s') (unat so_far) (unat extent) al' (member_list ms new)"
  using assms
proof (induction ms arbitrary: so_far al offsets s)
  case Nil
  then show ?case by (auto simp: members_ok_def dest: align_up_Inr)
next
  case (Cons ty ms)
  from Cons.prems(4) obtain l t offset stop where
    l: "lay ty s = Inr (l, t)" and o: "align_up so_far (layout_alignment l) owner = Inr offset" and
    stop: "checked_size owner offset (layout_size l) = Inr stop" and
    rest: "member_offsets_from lay owner stop (max al (layout_alignment l)) (offsets @ [offset]) ms t
      = Inr ((extent, al', offsets'), s')"
    by auto
  note call = call_okD [OF Cons.prems(1,2) l]
  have p: "is_power_of_two (layout_alignment l)" using call(4) by (simp add: sized_def)
  from Cons.IH [OF Cons.prems(1) call(1) power_of_two_max [OF Cons.prems(3) p] rest]
  obtain new where ih: "offsets' = (offsets @ [offset]) @ new" "length new = length ms"
    "store_ok s'" "grows t s'" "is_power_of_two al'" "max al (layout_alignment l) \<le> al'"
    "unat stop \<le> unat extent" "unat al' dvd unat extent"
    "members_ok (layouts s') (unat stop) (unat extent) al' (member_list ms new)" by blast
  note o = align_up_Inr [OF o]
  have sz: "unat stop = unat offset + unat (layout_size l)" by (rule checked_size_Inr [OF stop])
  have lay': "layouts s' ty = Some l" using call(3) ih(4) by (meson grows_le map_le_Some)
  have "unat (layout_alignment l) dvd unat al'"
    using power_of_two_dvd [OF p ih(5)] ih(6) by simp
  then have "member_ok (layouts s') (unat so_far) (unat extent) al' \<lparr>member_ty = ty, member_offset = offset\<rparr>"
    using lay' o ih(7) sz by (simp add: member_ok_def)
  moreover have "members_ok (layouts s') (unat so_far) (unat extent) al' (member_list ms new)"
    using ih(9) by (rule members_ok_widen) (use o sz in auto)
  moreover have "unat stop \<le> unat (member_offset m)" if "m \<in> set (member_list ms new)" for m
    using ih(9) that by (auto simp: members_ok_def member_ok_def)
  ultimately have "members_ok (layouts s') (unat so_far) (unat extent) al'
      (member_list (ty # ms) (offset # new))"
    using lay' sz by (auto simp: members_ok_def member_stop_def)
  moreover have "grows s s'" using call(2) ih(4) by (rule grows_trans)
  ultimately show ?case
    using ih o sz by (intro exI [of _ "offset # new"]) (auto intro: order_trans)
qed

lemma member_offsets_Inr:
  assumes "call_ok lay" and "store_ok s"
    and "member_offsets lay owner ms s = Inr ((extent, al, offsets), s')"
  shows "length offsets = length ms" and "store_ok s'" and "grows s s'" and "is_power_of_two al"
    and "unat al dvd unat extent"
    and "members_ok (layouts s') 0 (unat extent) al (member_list ms offsets)"
  using member_offsets_from_Inr [OF assms(1,2) _ assms(3) [unfolded member_offsets_def]] by auto

section \<open>The member tables\<close>

text \<open>Recording members changes only the tables of members, and returns them in order.\<close>

definition same_store :: "layout_builder \<Rightarrow> layout_builder \<Rightarrow> bool" where
  "same_store s s' \<longleftrightarrow>
     layouts s' = layouts s \<and> classes s' = classes s \<and> active_types s' = active_types s"

lemma same_store_ok: "same_store s s' \<Longrightarrow> store_ok s \<Longrightarrow> store_ok s'"
  by (simp add: same_store_def store_ok_def)

lemma same_store_grows: "same_store s s' \<Longrightarrow> grows s s'"
  by (simp add: same_store_def grows_def)

lemma record_fields_Inr:
  "record_fields ty xs s = Inr (ls, s') \<Longrightarrow>
     same_store s s' \<and> ls = map (\<lambda>((f, t), offset). \<lparr>member_ty = t, member_offset = offset\<rparr>) xs"
  by (induction ty xs s arbitrary: ls s' rule: record_fields.induct)
    (auto simp: same_store_def Let_def split: if_splits)

lemma record_captures_Inr:
  "record_captures ty xs s = Inr (ls, s') \<Longrightarrow>
     same_store s s' \<and> ls = map (\<lambda>((f, t), offset). \<lparr>member_ty = t, member_offset = offset\<rparr>) xs"
  by (induction ty xs s arbitrary: ls s' rule: record_captures.induct)
    (auto simp: same_store_def Let_def split: if_splits)

lemma record_payloads_Inr:
  "record_payloads ty v base xs s = Inr (ls, s') \<Longrightarrow>
     same_store s s' \<and> length ls = length xs
     \<and> (\<forall>k < length xs. member_ty (ls ! k) = snd (fst (xs ! k))
          \<and> unat (member_offset (ls ! k)) = unat base + unat (snd (xs ! k)))"
proof (induction ty v base xs s arbitrary: ls s' rule: record_payloads.induct)
  case (2 ty v base p pty offset rest s)
  from "2.prems" obtain at ls' where
    at: "checked_size ty base offset = Inr at" and free: "payload_layouts s (ty, v, p) = None" and
    rest: "record_payloads ty v base rest
        (s\<lparr>payload_layouts := (payload_layouts s)((ty, v, p) \<mapsto> \<lparr>member_ty = pty, member_offset = at\<rparr>)\<rparr>)
      = Inr (ls', s')" and
    ls: "ls = \<lparr>member_ty = pty, member_offset = at\<rparr> # ls'"
    by (auto simp: Let_def split: if_splits)
  have ih: "same_store (s\<lparr>payload_layouts := (payload_layouts s)((ty, v, p) \<mapsto>
        \<lparr>member_ty = pty, member_offset = at\<rparr>)\<rparr>) s'" "length ls' = length rest"
    "\<forall>k < length rest. member_ty (ls' ! k) = snd (fst (rest ! k))
          \<and> unat (member_offset (ls' ! k)) = unat base + unat (snd (rest ! k))"
    using "2.IH" [OF refl _ rest] free by auto
  then show ?case
    using ls checked_size_Inr [OF at] by (auto simp: same_store_def nth_Cons split: nat.splits)
qed (auto simp: same_store_def)

lemma map_snd_zip_fields:
  "length offsets = length fs \<Longrightarrow>
     map (\<lambda>((f, t), offset). \<lparr>member_ty = t, member_offset = offset\<rparr>) (zip fs offsets)
     = member_list (map snd fs) offsets"
  by (induction fs offsets rule: list_induct2') auto

text \<open>Payload members are the members of their variant moved behind the tag.\<close>

lemma shifted_members_ok:
  assumes ok: "members_ok m 0 extent al (member_list tys offsets)" and len: "length offsets = length tys"
    and ls: "length ls = length tys"
      "\<forall>k < length tys. member_ty (ls ! k) = tys ! k
         \<and> unat (member_offset (ls ! k)) = unat base + unat (offsets ! k)"
    and base: "unat al' dvd unat base" and al: "unat al dvd unat al'"
  shows "members_ok m (unat base) (unat base + extent) al' ls"
proof -
  let ?old = "member_list tys offsets"
  have at: "?old ! k = \<lparr>member_ty = tys ! k, member_offset = offsets ! k\<rparr>" if "k < length tys" for k
    using that len by simp
  have "member_ok m (unat base) (unat base + extent) al' (ls ! k)" if k: "k < length tys" for k
  proof -
    have "?old ! k \<in> set ?old" using k len by (intro nth_mem) simp
    with ok have "member_ok m 0 extent al (?old ! k)" unfolding members_ok_def by blast
    then obtain l where "m (tys ! k) = Some l" "unat (offsets ! k) + unat (layout_size l) \<le> extent"
      "unat (layout_alignment l) dvd unat (offsets ! k)" "unat (layout_alignment l) dvd unat al"
      by (auto simp: member_ok_def at [OF k])
    then show ?thesis
      using ls(2) k base al by (auto simp: member_ok_def intro: dvd_add dvd_trans)
  qed
  moreover have "member_stop m (ls ! i) \<le> unat (member_offset (ls ! j))" if ij: "i < j" "j < length tys" for i j
  proof -
    have "member_stop m (?old ! i) \<le> unat (member_offset (?old ! j))"
      using ok ij len by (simp add: members_ok_def sorted_wrt_iff_nth_less)
    then show ?thesis
      using ls(2) ij at by (simp add: member_stop_def)
  qed
  ultimately show ?thesis
    using ls(1) by (auto simp: members_ok_def sorted_wrt_iff_nth_less in_set_conv_nth)
qed

lemma variant_offsets_Inr:
  assumes "call_ok lay" and "store_ok s" and "is_power_of_two al"
    and "variant_offsets lay ty al bytes relative vs s = Inr ((al', bytes', relative'), s')"
  shows "\<exists>new. relative' = relative @ new \<and> length new = length vs
    \<and> store_ok s' \<and> grows s s' \<and> is_power_of_two al' \<and> al \<le> al' \<and> bytes \<le> bytes'
    \<and> (\<forall>k < length vs. length (new ! k) = length (variant_payload (vs ! k))
         \<and> members_ok (layouts s') 0 (unat bytes') al'
             (member_list (map snd (variant_payload (vs ! k))) (new ! k)))"
  using assms
proof (induction vs arbitrary: al bytes relative s)
  case (Cons v vs)
  from Cons.prems(4) obtain b a offsets t where
    m: "member_offsets lay ty (map snd (variant_payload v)) s = Inr ((b, a, offsets), t)" and
    rest: "variant_offsets lay ty (max al a) (max bytes b) (relative @ [offsets]) vs t
      = Inr ((al', bytes', relative'), s')"
    by auto
  note m = member_offsets_Inr [OF Cons.prems(1,2) m]
  from Cons.IH [OF Cons.prems(1) m(2) power_of_two_max [OF Cons.prems(3) m(4)] rest]
  obtain new where ih: "relative' = (relative @ [offsets]) @ new" "length new = length vs"
    "store_ok s'" "grows t s'" "is_power_of_two al'" "max al a \<le> al'" "max bytes b \<le> bytes'"
    "\<forall>k < length vs. length (new ! k) = length (variant_payload (vs ! k))
         \<and> members_ok (layouts s') 0 (unat bytes') al'
             (member_list (map snd (variant_payload (vs ! k))) (new ! k))" by blast
  have "members_ok (layouts s') 0 (unat b) a (member_list (map snd (variant_payload v)) offsets)"
    using m(6) ih(4) by (meson grows_le members_ok_mono)
  moreover have "a \<le> al'" "unat b \<le> unat bytes'" using ih(6,7) by (simp_all add: word_le_nat_alt [symmetric])
  ultimately have "members_ok (layouts s') 0 (unat bytes') al'
      (member_list (map snd (variant_payload v)) offsets)"
    using power_of_two_dvd [OF m(4) ih(5)] by (auto elim!: members_ok_widen)
  then have "\<forall>k < length (v # vs). length ((offsets # new) ! k) = length (variant_payload ((v # vs) ! k))
         \<and> members_ok (layouts s') 0 (unat bytes') al'
             (member_list (map snd (variant_payload ((v # vs) ! k))) ((offsets # new) ! k))"
    using ih(8) m(1) by (auto simp: All_less_Suc2)
  moreover have "grows s s'" using m(3) ih(4) by (rule grows_trans)
  ultimately show ?case
    using ih by (intro exI [of _ "offsets # new"]) auto
qed auto

lemma record_variants_Inr:
  assumes "record_variants ty base tag xs s = Inr (ls, s')"
    and "\<forall>(v, offsets) \<in> set xs. length offsets = length (variant_payload v)
      \<and> members_ok (layouts s) 0 extent al (member_list (map snd (variant_payload v)) offsets)"
    and "unat al dvd unat base"
  shows "same_store s s' \<and> map variant_tag ls = map word_of_nat [tag..<tag + length xs]
    \<and> (\<forall>l \<in> set ls. members_ok (layouts s) (unat base) (unat base + extent) al (variant_members l))"
  using assms
proof (induction ty base tag xs arbitrary: ls s s' rule: record_variants.induct)
  case (1 ty base tag)
  then show ?case by (auto simp: same_store_def)
next
  case (2 ty base tag v offsets rest)
  from "2.prems"(1) obtain members t ls' where
    m: "record_payloads ty (variant v) base (zip (variant_payload v) offsets) s = Inr (members, t)" and
    tag: "\<not> 255 < tag" and free: "\<not> variant_layouts t (ty, variant v) \<noteq> None" and
    rest: "record_variants ty base (Suc tag) rest (t\<lparr>variant_layouts := (variant_layouts t)
      ((ty, variant v) \<mapsto> \<lparr>variant_tag = word_of_nat tag, variant_members = members\<rparr>)\<rparr>) = Inr (ls', s')" and
    ls: "ls = \<lparr>variant_tag = word_of_nat tag, variant_members = members\<rparr> # ls'"
    by (auto simp: Let_def split: if_splits)
  note pay = record_payloads_Inr [OF m]
  have here: "length offsets = length (variant_payload v)"
    "members_ok (layouts s) 0 extent al (member_list (map snd (variant_payload v)) offsets)"
    using "2.prems"(2) by auto
  have same: "layouts t = layouts s" using pay by (simp add: same_store_def)
  have ih: "same_store (t\<lparr>variant_layouts := (variant_layouts t)
      ((ty, variant v) \<mapsto> \<lparr>variant_tag = word_of_nat tag, variant_members = members\<rparr>)\<rparr>) s'
    \<and> map variant_tag ls' = map word_of_nat [Suc tag..<Suc tag + length rest]
    \<and> (\<forall>l \<in> set ls'. members_ok (layouts s) (unat base) (unat base + extent) al (variant_members l))"
    using "2.IH" [OF tag refl free rest] "2.prems"(2,3) same by simp
  have "members_ok (layouts s) (unat base) (unat base + extent) al members"
    by (rule shifted_members_ok [OF here(2)])
      (use pay here(1) "2.prems"(3) in auto)
  moreover have "[tag..<tag + length ((v, offsets) # rest)] = tag # [Suc tag..<Suc tag + length rest]"
    by (subst upt_conv_Cons) simp_all
  ultimately show ?case
    using ih ls pay by (simp add: same_store_def del: upt_Suc)
qed

section \<open>Every computed layout is well formed\<close>

lemma outcome_layout_Inr:
  assumes "outcome_layout ty kind primary alternate = Inr l"
    and parts: "\<forall>(pl, pty) \<in> set_option primary \<union> set_option alternate. store pty = Some pl \<and> sized pl"
  shows "sized l \<and> kind_ok store l"
proof -
  let ?al = "\<lambda>part. case part of None \<Rightarrow> 1 | Some (l, _) \<Rightarrow> layout_alignment l"
  let ?sz = "\<lambda>part. case part of None \<Rightarrow> 0 | Some (l, _) \<Rightarrow> layout_size l"
  define al bytes where "al = max (?al primary) (?al alternate)" and "bytes = max (?sz primary) (?sz alternate)"
  from assms(1) obtain base unaligned extent where
    base: "align_up 1 al ty = Inr base" and un: "checked_size ty base bytes = Inr unaligned" and
    extent: "align_up unaligned al ty = Inr extent" and
    l: "l = \<lparr>layout_size = extent, layout_alignment = al,
             layout_kind = KindOutcome kind 0 base (map_option snd primary) (map_option snd alternate)\<rparr>"
    by (auto simp: outcome_layout_def Let_def al_def bytes_def)
  note base = align_up_Inr [OF base] and extent = align_up_Inr [OF extent]
  have un: "unat unaligned = unat base + unat bytes" by (rule checked_size_Inr [OF un])
  have part: "member_ok store (unat base) (unat extent) al \<lparr>member_ty = pty, member_offset = base\<rparr>"
    if p: "(pl, pty) \<in> set_option primary \<union> set_option alternate" for pl pty
  proof -
    have pl: "store pty = Some pl" "sized pl" using parts p by auto
    have "layout_alignment pl \<le> al" "layout_size pl \<le> bytes"
      using p by (auto simp: al_def bytes_def le_max_iff_disj)
    then have "unat (layout_alignment pl) dvd unat al" "unat (layout_size pl) \<le> unat bytes"
      using pl(2) base(1) by (auto simp: sized_def word_le_nat_alt [symmetric] intro: power_of_two_dvd)
    then show ?thesis
      using pl(1) base(2) extent(3) un by (auto simp: member_ok_def intro: dvd_trans)
  qed
  have "\<forall>ty \<in> set_option (map_option snd primary) \<union> set_option (map_option snd alternate).
      member_ok store (unat base) (unat extent) al \<lparr>member_ty = ty, member_offset = base\<rparr>"
    using part by (cases primary; cases alternate) fastforce+
  moreover have "1 \<le> unat base" using base(3) by simp
  moreover have "unat base \<le> unat extent" using extent(3) un by simp
  ultimately show ?thesis
    using extent by (simp add: l sized_def kind_ok_def Let_def)
qed

lemma primitive_layout_Inr:
  assumes "primitive_layout ty p = Inr l"
    and "\<And>bits. p = Signed bits \<or> p = Unsigned bits \<Longrightarrow> bits \<in> {8, 16, 32, 64}"
  shows "sized l \<and> kind_ok store l"
  using assms
  by (cases p) (auto simp: primitive_layout_def integer_layout_def sized_def kind_ok_def Let_def
      error_handle_size_def error_handle_alignment_def split: if_splits)

definition computed_ok :: "layout_builder \<Rightarrow> machine_layout \<times> layout_builder \<Rightarrow> bool" where
  "computed_ok s = (\<lambda>(l, s'). store_ok s' \<and> grows s s' \<and> sized l \<and> kind_ok (layouts s') l)"

lemma structure_layout_ok:
  assumes "call_ok lay" and "store_ok s" and "structure_layout lay ty fs s = Inr r"
  shows "computed_ok s r"
proof -
  from assms(3) obtain extent al offsets t ls s' where
    m: "member_offsets lay ty (map snd fs) s = Inr ((extent, al, offsets), t)" and
    rec: "record_fields ty (zip fs offsets) t = Inr (ls, s')" and
    r: "r = (\<lparr>layout_size = extent, layout_alignment = al, layout_kind = KindStruct ls\<rparr>, s')"
    by (auto simp: structure_layout_def)
  note m = member_offsets_Inr [OF assms(1,2) m] and rec = record_fields_Inr [OF rec]
  have "ls = member_list (map snd fs) offsets" using rec m(1) by (simp add: map_snd_zip_fields)
  moreover have "layouts s' = layouts t" using rec by (simp add: same_store_def)
  moreover have "grows s s'" using m(3) rec by (blast intro: grows_trans same_store_grows)
  ultimately show ?thesis
    using m rec by (auto simp: computed_ok_def r sized_def kind_ok_def Let_def intro: same_store_ok)
qed

lemma closure_layout_ok:
  assumes "call_ok lay" and "store_ok s" and "closure_layout prog lay ty s = Inr r"
  shows "computed_ok s r"
proof -
  from assms(3) obtain cs extent al offsets t ls s' where
    m: "member_offsets lay ty (map snd cs) s = Inr ((extent, al, offsets), t)" and
    rec: "record_captures ty (zip cs offsets) t = Inr (ls, s')" and
    r: "r = (\<lparr>layout_size = extent, layout_alignment = al, layout_kind = KindClosure ls\<rparr>, s')"
    by (auto simp: closure_layout_def lift_step_def split: option.splits runtime_representation.splits)
  note m = member_offsets_Inr [OF assms(1,2) m] and rec = record_captures_Inr [OF rec]
  have "ls = member_list (map snd cs) offsets" using rec m(1) by (simp add: map_snd_zip_fields)
  moreover have "layouts s' = layouts t" using rec by (simp add: same_store_def)
  moreover have "grows s s'" using m(3) rec by (blast intro: grows_trans same_store_grows)
  ultimately show ?thesis
    using m rec by (auto simp: computed_ok_def r sized_def kind_ok_def Let_def intro: same_store_ok)
qed

lemma tuple_layout_ok:
  assumes "call_ok lay" and "store_ok s" and "tuple_layout lay ty elements s = Inr r"
  shows "computed_ok s r"
proof -
  from assms(3) obtain extent al offsets s' where
    m: "member_offsets lay ty elements s = Inr ((extent, al, offsets), s')" and
    r: "r = (\<lparr>layout_size = extent, layout_alignment = al,
      layout_kind = KindTuple (member_list elements offsets)\<rparr>, s')"
    by (auto simp: tuple_layout_def)
  from member_offsets_Inr [OF assms(1,2) m] show ?thesis
    by (simp add: computed_ok_def r sized_def kind_ok_def Let_def)
qed

lemma enumeration_layout_ok:
  assumes "call_ok lay" and "store_ok s" and "enumeration_layout lay ty vs s = Inr r"
  shows "computed_ok s r"
proof -
  have "is_power_of_two 1" by simp
  from assms(3) obtain al bytes relative t base unaligned extent ls s' where
    v: "variant_offsets lay ty 1 0 [] vs s = Inr ((al, bytes, relative), t)" and
    base: "align_up 1 al ty = Inr base" and un: "checked_size ty base bytes = Inr unaligned" and
    extent: "align_up unaligned al ty = Inr extent" and
    rec: "record_variants ty base 0 (zip vs relative) t = Inr (ls, s')" and
    few: "length vs \<le> 256" and
    r: "r = (\<lparr>layout_size = extent, layout_alignment = al, layout_kind = KindEnum 0 base ls\<rparr>, s')"
    by (auto simp: enumeration_layout_def lift_step_def split: if_splits)
  from variant_offsets_Inr [OF assms(1,2) \<open>is_power_of_two 1\<close> v] have rel:
    "length relative = length vs" "store_ok t" "grows s t"
    "\<forall>k < length vs. length (relative ! k) = length (variant_payload (vs ! k))
       \<and> members_ok (layouts t) 0 (unat bytes) al (member_list (map snd (variant_payload (vs ! k))) (relative ! k))"
    by auto
  note base = align_up_Inr [OF base] and extent = align_up_Inr [OF extent]
  have un: "unat unaligned = unat base + unat bytes" by (rule checked_size_Inr [OF un])
  have members: "\<forall>(v, offsets) \<in> set (zip vs relative). length offsets = length (variant_payload v)
      \<and> members_ok (layouts t) 0 (unat bytes) al (member_list (map snd (variant_payload v)) offsets)"
    using rel(1,4) by (auto simp: set_zip)
  note rec = record_variants_Inr [OF rec members base(2)]
  have "members_ok (layouts t) (unat base) (unat extent) al (variant_members l)" if "l \<in> set ls" for l
    using rec that extent(3) un by (auto elim!: members_ok_widen)
  moreover have "length ls = length vs"
    using arg_cong [where f = length, OF conjunct1 [OF conjunct2 [OF rec]]] rel(1) by simp
  moreover have "grows s s'" using rel(3) rec by (blast intro: grows_trans same_store_grows)
  moreover have "layouts s' = layouts t" using rec by (simp add: same_store_def)
  ultimately show ?thesis
    using rec rel(1,2) base extent un few
    by (auto simp: computed_ok_def r sized_def kind_ok_def Let_def intro: same_store_ok)
qed

lemma lift_step_Inr_iff [simp]: "lift_step r s = Inr x \<longleftrightarrow> (\<exists>v. r = Inr v \<and> x = (v, s))"
  by (cases r) (auto simp: lift_step_def)

lemma sized_standard [simp]:
  "sized pointer_layout" "sized view_layout" "sized erased_callable_layout"
  "kind_ok store pointer_layout" "kind_ok store view_layout" "kind_ok store erased_callable_layout"
  by (simp_all add: sized_def kind_ok_def Let_def pointer_layout_def view_layout_def
      erased_callable_layout_def pointer_size_def pointer_alignment_def word_size_def)

lemma fixed_array_layout_ok:
  assumes "call_ok lay" and "store_ok s"
    and "compute_layout prog lay ty (FixedArray element count) s = Inr r"
  shows "computed_ok s r"
proof -
  from assms(3) obtain l s' stride extent where
    l: "lay element s = Inr (l, s')" and stride: "align_up (layout_size l) (layout_alignment l) ty = Inr stride"
    and extent: "checked_mul stride count = Some extent" and
    r: "r = (\<lparr>layout_size = extent, layout_alignment = layout_alignment l,
              layout_kind = KindFixedArray element count stride\<rparr>, s')"
    by (auto simp: compute_layout_def)
  note call = call_okD [OF assms(1,2) l] and stride = align_up_Inr [OF stride]
  have "unat extent = unat stride * unat count" using checked_mul_SomeD [OF extent] by auto
  with call stride show ?thesis
    by (simp add: computed_ok_def r sized_def kind_ok_def Let_def)
qed

lemma pack_entry_layout_ok:
  assumes "call_ok lay" and "store_ok s"
    and "compute_layout prog lay ty (PackEntry key value) s = Inr r"
  shows "computed_ok s r"
proof -
  from assms(3) obtain k t v s' at unaligned extent where
    k: "lay key s = Inr (k, t)" and v: "lay value t = Inr (v, s')" and
    at: "align_up (layout_size k) (layout_alignment v) ty = Inr at" and
    un: "checked_size ty at (layout_size v) = Inr unaligned" and
    extent: "align_up unaligned (max (layout_alignment k) (layout_alignment v)) ty = Inr extent" and
    r: "r = (\<lparr>layout_size = extent, layout_alignment = max (layout_alignment k) (layout_alignment v),
              layout_kind = KindPackEntry \<lparr>member_ty = key, member_offset = 0\<rparr>
                \<lparr>member_ty = value, member_offset = at\<rparr>\<rparr>, s')"
    by (auto simp: compute_layout_def Let_def)
  note ck = call_okD [OF assms(1,2) k]
  note cv = call_okD [OF assms(1) ck(1) v] and at = align_up_Inr [OF at] and extent = align_up_Inr [OF extent]
  have un: "unat unaligned = unat at + unat (layout_size v)" by (rule checked_size_Inr [OF un])
  have "layouts s' key = Some k" using ck(3) cv(2) by (meson grows_le map_le_Some)
  moreover have "unat (layout_alignment k) dvd unat (max (layout_alignment k) (layout_alignment v))"
    "unat (layout_alignment v) dvd unat (max (layout_alignment k) (layout_alignment v))"
    using power_of_two_dvd [OF _ extent(1)] ck(4) cv(4) by (simp_all add: sized_def)
  moreover have "grows s s'" using ck(2) cv(2) by (rule grows_trans)
  ultimately show ?thesis
    using cv at extent un
    by (auto simp: computed_ok_def r sized_def kind_ok_def Let_def members_ok_def member_ok_def member_stop_def)
qed

lemma optional_layout_ok:
  assumes "call_ok lay" and "store_ok s"
    and "compute_layout prog lay ty (Optional payload) s = Inr r"
  shows "computed_ok s r"
proof -
  from assms(3) obtain p s' l where
    p: "lay payload s = Inr (p, s')" and
    l: "outcome_layout ty OutcomeOptional (Some (p, payload)) None = Inr l" and r: "r = (l, s')"
    by (auto simp: compute_layout_def)
  note call = call_okD [OF assms(1,2) p]
  have "sized l \<and> kind_ok (layouts s') l" using outcome_layout_Inr [OF l] call by simp
  with call r show ?thesis by (simp add: computed_ok_def)
qed

lemma fallible_layout_ok:
  assumes "call_ok lay" and "store_ok s"
    and "compute_layout prog lay ty (Fallible payload) s = Inr r"
  shows "computed_ok s r"
proof -
  from assms(3) obtain primary t error e s' l where
    p: "(if is_void (types prog) payload then lift_step (Inr None)
         else bind_step (lay payload) (\<lambda>l. lift_step (Inr (Some (l, payload))))) s = Inr (primary, t)" and
    e: "lay error t = Inr (e, s')" and
    l: "outcome_layout ty OutcomeFallible primary (Some (e, error)) = Inr l" and r: "r = (l, s')"
    by (auto simp: compute_layout_def)
  have t: "store_ok t" "grows s t"
    "\<forall>(pl, pty) \<in> set_option primary. layouts t pty = Some pl \<and> sized pl"
    using p assms(2) call_okD [OF assms(1,2)] by (auto split: if_splits)
  note call = call_okD [OF assms(1) t(1) e]
  have "\<forall>(pl, pty) \<in> set_option primary \<union> set_option (Some (e, error)).
      layouts s' pty = Some pl \<and> sized pl"
    using t(3) call grows_le [OF call(2)] by (auto dest: map_le_Some)
  then have "sized l \<and> kind_ok (layouts s') l" by (rule outcome_layout_Inr [OF l])
  with call r grows_trans [OF t(2)] show ?thesis by (simp add: computed_ok_def)
qed

lemma storage_layout_ok:
  "storage_layout role = Some (bytes, alignment) \<Longrightarrow>
     is_power_of_two alignment \<and> unat alignment dvd unat bytes"
  by (cases role) auto

lemma borrow_layout_cases:
  assumes "compute_layout prog lay ty (Borrow c referent) s = Inr r"
  shows "r = (view_layout, s) \<or> r = (pointer_layout, s)"
proof -
  from assms obtain kind where kind: "table_get (types prog) referent = Some kind"
    by (auto simp: compute_layout_def)
  show ?thesis
  proof (cases kind)
    case (Primitive p)
    with assms kind show ?thesis by (cases p) (simp_all add: compute_layout_def)
  qed (use assms kind in \<open>simp_all add: compute_layout_def\<close>)
qed

lemma compute_layout_ok:
  assumes "call_ok lay" and "store_ok s" and "compute_layout prog lay ty kind s = Inr r"
    and "table_get (types prog) ty = Some kind" and "standard_widths (types prog)"
  shows "computed_ok s r"
proof (cases kind)
  case (Primitive p)
  with assms(4,5) have "bits \<in> {8, 16, 32, 64}" if "p = Signed bits \<or> p = Unsigned bits" for bits
    using that unfolding standard_widths_def by blast
  with primitive_layout_Inr [of ty p _ "layouts s"] Primitive assms(2,3) show ?thesis
    by (cases r) (auto simp: compute_layout_def computed_ok_def)
next
  case (Borrow c referent)
  with assms(3) borrow_layout_cases have "r = (view_layout, s) \<or> r = (pointer_layout, s)" by blast
  with assms(2) show ?thesis by (auto simp: computed_ok_def)
next
  case (Storage role)
  with assms(2,3) show ?thesis
    by (cases r) (auto simp: compute_layout_def computed_ok_def sized_def kind_ok_def Let_def
        dest: storage_layout_ok)
next
  case Opaque
  then obtain witness l s' where w: "lay witness s = Inr (l, s')" and
    r: "r = (\<lparr>layout_size = layout_size l, layout_alignment = layout_alignment l,
        layout_kind = KindOpaque witness\<rparr>, s')"
    using assms(3) by (auto simp: compute_layout_def lift_step_def
        split: option.splits runtime_representation.splits)
  from call_okD [OF assms(1,2) w] show ?thesis
    by (simp add: computed_ok_def r sized_def kind_ok_def Let_def)
next
  case Aggregate
  then show ?thesis
    using assms(3) structure_layout_ok [OF assms(1,2)] enumeration_layout_ok [OF assms(1,2)]
    by (auto simp: compute_layout_def nominal_layout_def lift_step_def
        split: option.splits runtime_representation.splits)
next
  case Closure
  then show ?thesis
    using assms(3) closure_layout_ok [OF assms(1,2)] by (simp add: compute_layout_def)
next
  case (Tuple elements)
  then show ?thesis
    using assms(3) tuple_layout_ok [OF assms(1,2)] by (simp add: compute_layout_def)
next
  case (FixedArray e n)
  then show ?thesis using assms fixed_array_layout_ok by blast
next
  case (PackEntry k v)
  then show ?thesis using assms pack_entry_layout_ok by blast
next
  case (Optional p)
  then show ?thesis using assms optional_layout_ok by blast
next
  case (Fallible p)
  then show ?thesis using assms fallible_layout_ok by blast
qed (use assms(2,3) in \<open>auto simp: compute_layout_def computed_ok_def lift_step_def\<close>)

text \<open>Closing a type: its layout enters the store and it leaves the active set.\<close>

definition close_type :: "type_id \<Rightarrow> machine_layout \<Rightarrow> layout_builder \<Rightarrow> layout_builder" where
  "close_type ty l s =
     s\<lparr>active_types := active_types s - {ty}, layouts := (layouts s)(ty \<mapsto> l),
       classes := (classes s)(ty \<mapsto> class_for_layout l)\<rparr>"

lemma kind_ok_components:
  "kind_ok store l \<Longrightarrow> part \<in> set (components (layout_kind l)) \<Longrightarrow> store part \<noteq> None"
  by (cases "layout_kind l")
    (auto simp: kind_ok_def Let_def members_ok_def member_ok_def split: option.splits, (blast+)?)

lemma acyclic_add_whole:
  assumes "acyclic r" and whole: "\<forall>(a, b) \<in> r'. b = w" and "w \<notin> Domain (r \<union> r')"
  shows "acyclic (r \<union> r')"
proof -
  have "(a, b) \<in> r\<^sup>+ \<or> b = w" if "(a, b) \<in> (r \<union> r')\<^sup>+" for a b
    using that
  proof induction
    case (base b)
    with whole show ?case by auto
  next
    case (step b c)
    with assms(3) have "(a, b) \<in> r\<^sup>+" by auto
    with step.hyps(2) whole show ?case by (auto intro: trancl_into_trancl)
  qed
  moreover have "(w, w) \<notin> (r \<union> r')\<^sup>+"
    using assms(3) by (metis Domain.DomainI trancl_domain)
  ultimately show ?thesis using assms(1) unfolding acyclic_def by blast
qed

lemma held_by_insert:
  assumes closed: "\<forall>ty l. store ty = Some l \<longrightarrow> kind_ok store l" and "acyclic (held_by store)"
    and "kind_ok store l" and "store ty = None"
  shows "acyclic (held_by (store(ty \<mapsto> l)))"
proof -
  let ?new = "{(part, whole). whole = ty \<and> part \<in> set (components (layout_kind l))}"
  have "held_by (store(ty \<mapsto> l)) = held_by store \<union> ?new"
    using assms(4) by (auto simp: held_by_def)
  moreover have "ty \<notin> Domain (held_by store \<union> ?new)"
    using closed assms(3,4) by (auto simp: held_by_def dest: kind_ok_components)
  ultimately show ?thesis
    using acyclic_add_whole [OF assms(2), of ?new ty] by auto
qed

lemma close_type_ok:
  assumes "computed_ok (s\<lparr>active_types := insert ty (active_types s)\<rparr>) (l, s')"
    and "layouts s ty = None" and "ty \<notin> active_types s"
  shows "store_ok (close_type ty l s')" and "grows s (close_type ty l s')"
proof -
  from assms(1) have c: "store_ok s'" "sized l" "kind_ok (layouts s') l" "layouts s \<subseteq>\<^sub>m layouts s'"
    "active_types s' = insert ty (active_types s)"
    "\<forall>t \<in> insert ty (active_types s). layouts s' t = layouts s t"
    by (simp_all add: computed_ok_def grows_def)
  have le: "layouts s' \<subseteq>\<^sub>m (layouts s')(ty \<mapsto> l)" using c(6) assms(2) by (auto simp: map_le_def)
  have "acyclic (held_by ((layouts s')(ty \<mapsto> l)))"
    by (rule held_by_insert) (use c assms(2) in \<open>auto simp: store_ok_def\<close>)
  then show "store_ok (close_type ty l s')"
    using c(1-3) kind_ok_mono [OF le] by (auto simp: store_ok_def close_type_def)
  show "grows s (close_type ty l s')"
    using c assms(2,3) map_le_trans [OF c(4) le] by (auto simp: grows_def close_type_def)
qed

lemma layout_call_ok:
  assumes "standard_widths (types prog)"
  shows "call_ok (layout prog fuel)"
proof (induction fuel)
  case 0
  then show ?case by (simp add: call_ok_def)
next
  case (Suc fuel)
  have "store_ok s' \<and> grows s s' \<and> layouts s' ty = Some l"
    if ok: "store_ok s" and run: "layout prog (Suc fuel) ty s = Inr (l, s')" for ty s l s'
  proof (cases "layouts s ty")
    case (Some l')
    with ok run show ?thesis by simp
  next
    case None
    let ?s = "s\<lparr>active_types := insert ty (active_types s)\<rparr>"
    from run None obtain kind t where fresh: "ty \<notin> active_types s"
      and kind: "table_get (types prog) ty = Some kind"
      and c: "compute_layout prog (layout prog fuel) ty kind ?s = Inr (l, t)"
      and s': "s' = close_type ty l t"
      by (auto simp: Let_def close_type_def split: if_splits)
    have "store_ok ?s" using ok by (simp add: store_ok_def)
    from compute_layout_ok [OF Suc.IH this c kind assms] close_type_ok None fresh
    show ?thesis by (auto simp: s') (simp add: close_type_def)
  qed
  then show ?case unfolding call_ok_def by blast
qed

section \<open>Fuel\<close>

text \<open>
  A step is fueled above a set of active types when it cannot run out of fuel there and keeps those
  types active.
\<close>

definition fueled :: "type_id set \<Rightarrow> 'a layout_step \<Rightarrow> bool" where
  "fueled A m \<longleftrightarrow>
     (\<forall>s. A \<subseteq> active_types s \<longrightarrow> m s \<noteq> Inl OutOfFuel \<and> (\<forall>x s'. m s = Inr (x, s') \<longrightarrow> A \<subseteq> active_types s'))"

lemma fueledD:
  assumes "fueled A m" and "A \<subseteq> active_types s"
  shows "m s \<noteq> Inl OutOfFuel" and "m s = Inr (x, s') \<Longrightarrow> A \<subseteq> active_types s'"
  using assms unfolding fueled_def by auto

lemma fueled_bind:
  assumes m: "fueled A m" and f: "\<And>x. fueled A (f x)"
  shows "fueled A (bind_step m f)"
  unfolding fueled_def
proof (intro allI impI conjI)
  fix s :: layout_builder assume A: "A \<subseteq> active_types s"
  show "bind_step m f s \<noteq> Inl OutOfFuel"
    using fueledD [OF m A] fueledD(1) [OF f] by (auto simp: bind_step_def and_then_Inl)
  fix y s' assume "bind_step m f s = Inr (y, s')"
  then obtain x t where "m s = Inr (x, t)" and "f x t = Inr (y, s')" by auto
  then show "A \<subseteq> active_types s'" using fueledD(2) [OF m A] fueledD(2) [OF f] by blast
qed

lemma fueled_lift: "r \<noteq> Inl OutOfFuel \<Longrightarrow> fueled A (lift_step r)"
  by (auto simp: fueled_def lift_step_def and_then_Inl)

lemma fueled_result: "fueled A (\<lambda>s. Inr (g x, s))"
  by (simp add: fueled_def)

lemma fueled_split: "(\<And>a b. fueled A (f a b)) \<Longrightarrow> fueled A (case p of (a, b) \<Rightarrow> f a b)"
  by (cases p) simp

text \<open>Two steps agree when the second gives the first's result wherever that is not an empty tank.\<close>

definition steps_agree :: "'a layout_step \<Rightarrow> 'a layout_step \<Rightarrow> bool" where
  "steps_agree m m' \<longleftrightarrow> (\<forall>s. m s \<noteq> Inl OutOfFuel \<longrightarrow> m' s = m s)"

lemma agrees_refl: "steps_agree m m"
  by (simp add: steps_agree_def)

lemma agrees_bind:
  assumes "steps_agree m m'" and "\<And>x. steps_agree (f x) (f' x)"
  shows "steps_agree (bind_step m f) (bind_step m' f')"
  unfolding steps_agree_def
proof (intro allI impI)
  fix s :: layout_builder assume ne: "bind_step m f s \<noteq> Inl OutOfFuel"
  then have "m s \<noteq> Inl OutOfFuel" by (auto simp: bind_step_def)
  with assms(1) have m: "m' s = m s" by (simp add: steps_agree_def)
  show "bind_step m' f' s = bind_step m f s"
  proof (cases "m s")
    case (Inr r)
    with ne assms(2) m show ?thesis by (cases r) (simp add: bind_step_def steps_agree_def)
  qed (simp add: bind_step_def m)
qed

lemma agrees_split: "(\<And>a b. steps_agree (f a b) (f' a b)) \<Longrightarrow> steps_agree (case p of (a, b) \<Rightarrow> f a b) (case p of (a, b) \<Rightarrow> f' a b)"
  by (cases p) simp

named_theorems fuel_intros

declare fueled_bind [fuel_intros] fueled_lift [fuel_intros] fueled_result [fuel_intros]
  fueled_split [fuel_intros] agrees_bind [fuel_intros] agrees_refl [fuel_intros] agrees_split [fuel_intros]

text \<open>Only the recursion itself can run out of fuel.\<close>

lemma no_fuel_error [simp]:
  "align_up v a ty \<noteq> Inl OutOfFuel" "checked_size ty v w \<noteq> Inl OutOfFuel"
  "require_primitive t p \<noteq> Inl OutOfFuel" "primitive_layout ty p \<noteq> Inl OutOfFuel"
  "outcome_layout ty k x y \<noteq> Inl OutOfFuel"
  by (auto simp: align_up_def checked_size_def require_primitive_def primitive_layout_def integer_layout_def
      outcome_layout_def and_then_Inl Let_def split: runtime_primitive.splits if_splits)

lemma member_offsets_from_fueled:
  "(\<And>m. fueled A (lay m)) \<Longrightarrow> fueled A (member_offsets_from lay owner at al offsets ms)"
  by (induction ms arbitrary: at al offsets)
    (auto intro!: fuel_intros simp: and_then_Inl)

lemma member_offsets_from_agrees:
  "(\<And>m. steps_agree (lay m) (lay' m)) \<Longrightarrow>
     steps_agree (member_offsets_from lay owner at al offsets ms) (member_offsets_from lay' owner at al offsets ms)"
  by (induction ms arbitrary: at al offsets) (auto intro!: fuel_intros)

lemma variant_offsets_fueled:
  "(\<And>m. fueled A (lay m)) \<Longrightarrow> fueled A (variant_offsets lay ty al bytes relative vs)"
  by (induction vs arbitrary: al bytes relative)
    (auto intro!: fuel_intros member_offsets_from_fueled simp: member_offsets_def)

lemma variant_offsets_agrees:
  "(\<And>m. steps_agree (lay m) (lay' m)) \<Longrightarrow>
     steps_agree (variant_offsets lay ty al bytes relative vs) (variant_offsets lay' ty al bytes relative vs)"
  by (induction vs arbitrary: al bytes relative)
    (auto intro!: fuel_intros member_offsets_from_agrees simp: member_offsets_def)

text \<open>The member tables.\<close>

lemma fueled_same_store:
  assumes "\<And>s. m s \<noteq> Inl OutOfFuel" and "\<And>s x s'. m s = Inr (x, s') \<Longrightarrow> same_store s s'"
  shows "fueled A m"
  using assms by (auto simp: fueled_def same_store_def)

lemma record_fields_fueled: "fueled A (record_fields ty xs)"
proof (rule fueled_same_store)
  show "record_fields ty xs s \<noteq> Inl OutOfFuel" for s
    by (induction ty xs s rule: record_fields.induct)
      (auto simp: Let_def bind_step_def and_then_Inl)
qed (blast dest: record_fields_Inr)

lemma record_captures_fueled: "fueled A (record_captures ty xs)"
proof (rule fueled_same_store)
  show "record_captures ty xs s \<noteq> Inl OutOfFuel" for s
    by (induction ty xs s rule: record_captures.induct)
      (auto simp: Let_def bind_step_def and_then_Inl)
qed (blast dest: record_captures_Inr)

lemma record_payloads_fueled: "fueled A (record_payloads ty v base xs)"
proof (rule fueled_same_store)
  show "record_payloads ty v base xs s \<noteq> Inl OutOfFuel" for s
    by (induction ty v base xs s rule: record_payloads.induct)
      (auto simp: Let_def bind_step_def and_then_Inl)
qed (blast dest: record_payloads_Inr)

lemma fueled_error: "e \<noteq> OutOfFuel \<Longrightarrow> fueled A (\<lambda>s. Inl e)"
  by (simp add: fueled_def)

lemma fueled_if:
  assumes m: "fueled A m" and n: "fueled A n"
  shows "fueled A (\<lambda>s. if c s then m s else n s)"
  unfolding fueled_def
proof (intro allI impI)
  fix s :: layout_builder assume A: "A \<subseteq> active_types s"
  note mn = fueledD [OF m A] fueledD [OF n A]
  show "(if c s then m s else n s) \<noteq> Inl OutOfFuel \<and>
    (\<forall>x s'. (if c s then m s else n s) = Inr (x, s') \<longrightarrow> A \<subseteq> active_types s')"
  proof (cases "c s")
    case True
    show ?thesis unfolding if_P [OF True] by (intro conjI allI impI) (rule mn(1), erule mn(2))
  next
    case False
    show ?thesis unfolding if_not_P [OF False] by (intro conjI allI impI) (rule mn(3), erule mn(4))
  qed
qed

lemma fueled_recorded:
  assumes "fueled A m"
  shows "fueled A (\<lambda>s. m (s\<lparr>variant_layouts := g s\<rparr>))"
  unfolding fueled_def
proof (intro allI impI)
  fix s :: layout_builder assume "A \<subseteq> active_types s"
  then have "A \<subseteq> active_types (s\<lparr>variant_layouts := g s\<rparr>)" by simp
  note f = fueledD [OF assms this]
  show "m (s\<lparr>variant_layouts := g s\<rparr>) \<noteq> Inl OutOfFuel \<and>
    (\<forall>x s'. m (s\<lparr>variant_layouts := g s\<rparr>) = Inr (x, s') \<longrightarrow> A \<subseteq> active_types s')"
    using f(1) by (intro conjI allI impI) (assumption, erule f(2))
qed

lemma record_variants_fueled: "fueled A (record_variants ty base tag xs)"
proof (induction ty base tag xs rule: record_variants.induct)
  case (2 ty base tag v offsets rest)
  let ?step = "\<lambda>members s. if 255 < tag then Inl (InvalidRepresentation ty)
       else let l = \<lparr>variant_tag = word_of_nat tag, variant_members = members\<rparr> in
         if variant_layouts s (ty, variant v) \<noteq> None then Inl (InvalidRepresentation ty)
         else bind_step (record_variants ty base (Suc tag) rest) (\<lambda>ls s. Inr (l # ls, s))
                (s\<lparr>variant_layouts := (variant_layouts s)((ty, variant v) \<mapsto> l)\<rparr>)"
  have "fueled A (?step members)" for members
  proof (cases "255 < tag")
    case False
    have rest: "fueled A (record_variants ty base (Suc tag) rest)"
      using "2.IH" [OF False refl, of layout_builder_new] by (simp add: layout_builder_new_def)
    have "fueled A (bind_step (record_variants ty base (Suc tag) rest) (\<lambda>ls s. Inr (l # ls, s)))" for l
      using rest by (auto simp: fueled_def bind_step_def and_then_Inl)
    then show ?thesis
      unfolding Let_def if_not_P [OF False]
      by (intro fueled_if fueled_error fueled_recorded) simp_all
  qed (simp add: fueled_def)
  then show ?case by (simp add: fueled_bind record_payloads_fueled)
qed (auto intro!: fuel_intros)

lemma borrow_case_no_error [simp]:
  "(case r of Primitive Text \<Rightarrow> Inr a | Slice _ \<Rightarrow> Inr a | _ \<Rightarrow> Inr b) \<noteq> Inl e"
  by (cases r) (auto split: runtime_primitive.splits)

lemma compute_layout_fueled:
  assumes "\<And>m. fueled A (lay m)"
  shows "fueled A (compute_layout prog lay ty kind)"
  by (cases kind) (auto simp: compute_layout_def nominal_layout_def structure_layout_def member_offsets_def
     tuple_layout_def closure_layout_def enumeration_layout_def and_then_Inl Let_def assms
     intro!: fuel_intros member_offsets_from_fueled variant_offsets_fueled record_fields_fueled
       record_captures_fueled record_variants_fueled
     split: option.splits runtime_representation.splits)

lemma compute_layout_agrees:
  assumes "\<And>m. steps_agree (lay m) (lay' m)"
  shows "steps_agree (compute_layout prog lay ty kind) (compute_layout prog lay' ty kind)"
  by (cases kind) (auto simp: compute_layout_def nominal_layout_def structure_layout_def member_offsets_def
     tuple_layout_def closure_layout_def enumeration_layout_def and_then_Inl Let_def assms
     intro!: fuel_intros member_offsets_from_agrees variant_offsets_agrees
     split: option.splits runtime_representation.splits)

lemma layout_fueled:
  assumes "card (set (map fst (entries (types prog))) - A) < fuel"
  shows "fueled A (layout prog fuel ty)"
  using assms
proof (induction fuel arbitrary: A ty)
  case (Suc fuel)
  let ?keys = "set (map fst (entries (types prog)))"
  have "layout prog (Suc fuel) ty s \<noteq> Inl OutOfFuel
      \<and> (\<forall>l s'. layout prog (Suc fuel) ty s = Inr (l, s') \<longrightarrow> A \<subseteq> active_types s')"
    if A: "A \<subseteq> active_types s" for s
  proof (cases "layouts s ty = None \<and> ty \<notin> active_types s \<and> table_get (types prog) ty \<noteq> None")
    case True
    then obtain kind where kind: "table_get (types prog) ty = Some kind" by auto
    let ?s = "s\<lparr>active_types := insert ty (active_types s)\<rparr>"
    have "ty \<in> ?keys - A"
      using True A kind by (auto simp: table_get_def bt_get_def dest!: map_of_SomeD intro: rev_image_eqI)
    then have "card (?keys - insert ty A) < card (?keys - A)"
      by (intro psubset_card_mono) auto
    with Suc.prems have "fueled (insert ty A) (layout prog fuel m)" for m by (intro Suc.IH) simp
    then have "fueled (insert ty A) (compute_layout prog (layout prog fuel) ty kind)"
      by (rule compute_layout_fueled)
    moreover have "insert ty A \<subseteq> active_types ?s" using A by auto
    ultimately have "compute_layout prog (layout prog fuel) ty kind ?s \<noteq> Inl OutOfFuel"
      "\<And>l s'. compute_layout prog (layout prog fuel) ty kind ?s = Inr (l, s') \<Longrightarrow> insert ty A \<subseteq> active_types s'"
      by (rule fueledD)+
    moreover have "ty \<notin> A" using True A by auto
    ultimately show ?thesis using True kind by (auto simp: Let_def and_then_Inl)
  qed (use A in \<open>auto simp: Let_def and_then_Inl split: option.splits\<close>)
  then show ?case unfolding fueled_def by blast
qed simp

lemma layout_agrees: "fuel \<le> more_fuel \<Longrightarrow> steps_agree (layout prog fuel ty) (layout prog more_fuel ty)"
proof (induction fuel arbitrary: ty more_fuel)
  case 0
  then show ?case by (simp add: steps_agree_def)
next
  case (Suc fuel)
  then obtain n where n: "more_fuel = Suc n" "fuel \<le> n" by (cases more_fuel) auto
  have c: "steps_agree (compute_layout prog (layout prog fuel) ty kind) (compute_layout prog (layout prog n) ty kind)"
    for kind using Suc.IH n(2) by (intro compute_layout_agrees) blast
  show ?case unfolding steps_agree_def
  proof (intro allI impI)
    fix s assume ne: "layout prog (Suc fuel) ty s \<noteq> Inl OutOfFuel"
    let ?s = "s\<lparr>active_types := insert ty (active_types s)\<rparr>"
    have "compute_layout prog (layout prog n) ty kind ?s = compute_layout prog (layout prog fuel) ty kind ?s"
      if "layouts s ty = None" "ty \<notin> active_types s" "table_get (types prog) ty = Some kind" for kind
    proof -
      have "compute_layout prog (layout prog fuel) ty kind ?s \<noteq> Inl OutOfFuel"
        using ne that by (auto simp: Let_def ok_or_def)
      with c [of kind] show ?thesis by (simp add: steps_agree_def)
    qed
    then show "layout prog more_fuel ty s = layout prog (Suc fuel) ty s"
      by (auto simp: n Let_def ok_or_def split: option.split)
  qed
qed

lemma layout_roots_fueled:
  assumes "card (set (map fst (entries (types prog)))) < fuel"
  shows "fueled {} (layout_roots prog fuel roots)"
proof (induction roots)
  case (Cons ty rest)
  then show ?case
    using fueled_bind [OF layout_fueled [of prog "{}" fuel ty] Cons.IH] assms by (simp add: fueled_def)
qed (simp add: fueled_def)

lemma layout_roots_agrees:
  "fuel \<le> more_fuel \<Longrightarrow> steps_agree (layout_roots prog fuel roots) (layout_roots prog more_fuel roots)"
proof (induction roots)
  case (Cons ty rest)
  then show ?case
    using agrees_bind [OF layout_agrees [of fuel more_fuel prog ty] Cons.IH] by (simp add: steps_agree_def)
qed (simp add: steps_agree_def)

section \<open>Properties\<close>

definition sufficient_fuel :: "layout_program \<Rightarrow> nat" where
  "sufficient_fuel prog = Suc (length (entries (types prog)))"

lemma build_layouts_fuel:
  assumes "sufficient_fuel prog \<le> fuel"
  shows "build_layouts prog fuel roots \<noteq> Inl OutOfFuel
    \<and> build_layouts prog fuel roots = build_layouts prog (sufficient_fuel prog) roots"
proof -
  have "card (set (map fst (entries (types prog)))) < sufficient_fuel prog"
    by (simp add: sufficient_fuel_def less_Suc_eq_le) (metis card_length length_map list.set_map)
  then have ne: "layout_roots prog f roots layout_builder_new \<noteq> Inl OutOfFuel"
    if "sufficient_fuel prog \<le> f" for f
    using fueledD(1) [OF layout_roots_fueled] that by simp
  moreover have "layout_roots prog fuel roots layout_builder_new
      = layout_roots prog (sufficient_fuel prog) roots layout_builder_new"
    using layout_roots_agrees [OF assms] ne by (auto simp: steps_agree_def)
  ultimately show ?thesis using assms by (auto simp: build_layouts_def and_then_Inl)
qed

lemma layout_roots_ok:
  assumes "standard_widths (types prog)" and "store_ok s" and "layout_roots prog fuel roots s = Inr ((), s')"
  shows "store_ok s' \<and> layouts s \<subseteq>\<^sub>m layouts s'
    \<and> (\<forall>ty \<in> set roots. is_completion_type (types prog) ty \<or> layouts s' ty \<noteq> None)"
  using assms(2,3)
proof (induction roots arbitrary: s)
  case (Cons ty rest)
  show ?case
  proof (cases "is_completion_type (types prog) ty")
    case False
    with Cons.prems obtain l t where "layout prog fuel ty s = Inr (l, t)"
      and rest: "layout_roots prog fuel rest t = Inr ((), s')" by auto
    note call = call_okD [OF layout_call_ok [OF assms(1)] Cons.prems(1) this(1)]
    from Cons.IH [OF call(1) rest] call show ?thesis
      by (auto dest: map_le_Some grows_le intro: map_le_trans)
  qed (use Cons in simp)
qed simp

lemma build_layouts_ok:
  assumes "standard_widths (types prog)" and "build_layouts prog fuel roots = Inr s"
  shows "store_ok s \<and> (\<forall>ty \<in> set roots. is_completion_type (types prog) ty \<or> layouts s ty \<noteq> None)"
proof -
  have "store_ok layout_builder_new" by (simp add: store_ok_def layout_builder_new_def held_by_def acyclic_def)
  with assms layout_roots_ok show ?thesis by (auto simp: build_layouts_def)
qed

text \<open>
  C6: every layout the plan stores has a power-of-two alignment dividing its size; its members, fields,
  payloads, captures or elements are themselves stored, aligned for their types, in order, disjoint and
  inside the layout; an enumeration tags its variants 0, 1, 2, ...; the value class stored for a type is
  that of its layout; and every root other than the completion types has a layout.
\<close>

theorem layouts_well_formed:
  assumes "standard_widths (types prog)" and "build_layouts prog fuel roots = Inr s"
  shows "(\<forall>ty l. layouts s ty = Some l \<longrightarrow>
       sized l \<and> kind_ok (layouts s) l \<and> classes s ty = Some (class_for_layout l))
     \<and> (\<forall>ty \<in> set roots. is_completion_type (types prog) ty \<or> layouts s ty \<noteq> None)"
  using build_layouts_ok [OF assms] by (simp add: store_ok_def)

definition sample_program :: layout_program where
  "sample_program =
     \<lparr>types = \<lparr>entries = [(TypeId 10, Primitive Bool), (TypeId 11, Primitive (Signed 64)),
                 (TypeId 12, Tuple [TypeId 10, TypeId 11]), (TypeId 13, Optional (TypeId 12))],
              primitives = [(Bool, TypeId 10), (Signed 64, TypeId 11)]\<rparr>,
      representations = Map.empty\<rparr>"

lemma sample_widths: "standard_widths (types sample_program)"
  by (auto simp: standard_widths_def sample_program_def table_get_def bt_get_def split: if_splits)

lemma sample_types [simp]:
  "table_get (types sample_program) (TypeId 10) = Some (Primitive Bool)"
  "table_get (types sample_program) (TypeId 11) = Some (Primitive (Signed 64))"
  "table_get (types sample_program) (TypeId 12) = Some (Tuple [TypeId 10, TypeId 11])"
  "table_get (types sample_program) (TypeId 13) = Some (Optional (TypeId 12))"
  by (simp_all add: sample_program_def table_get_def bt_get_def)

lemmas layout_evaluation =
  build_layouts_def is_completion_type_def bind_step_def lift_step_def layout_builder_new_def Let_def
  compute_layout_def primitive_layout_def integer_layout_def tuple_layout_def member_offsets_def
  outcome_layout_def align_up_def checked_size_def ok_or_def checked_add_def checked_sub_def
  round_with_mask_def

lemma sample_builds:
  "\<exists>s l. build_layouts sample_program (Suc (Suc (Suc (Suc (Suc 0))))) [TypeId 13] = Inr s
     \<and> layouts s (TypeId 13) = Some l \<and> layout_size l = 24"
  by (simp add: layout_evaluation del: bind_step_Inr lift_step_Inr lift_step_Inr_iff and_then_Inr)

theorem layouts_well_formed_witness:
  "\<exists>s l. build_layouts sample_program 5 [TypeId 13] = Inr s \<and> layouts s (TypeId 13) = Some l
     \<and> sized l \<and> kind_ok (layouts s) l \<and> layout_size l = 24"
proof -
  have five: "5 = Suc (Suc (Suc (Suc (Suc 0))))" by simp
  from sample_builds obtain s l where s: "build_layouts sample_program 5 [TypeId 13] = Inr s"
    and l: "layouts s (TypeId 13) = Some l" "layout_size l = 24"
    unfolding five by blast
  from layouts_well_formed [OF sample_widths s] l show ?thesis using s by blast
qed

text \<open>
  C25: no type holds itself by value, however deeply: the relation "is a part of" between the types that
  have layouts is acyclic.
\<close>

theorem layouts_not_recursive:
  assumes "standard_widths (types prog)" and "build_layouts prog fuel roots = Inr s"
  shows "acyclic (held_by (layouts s))"
  using build_layouts_ok [OF assms] by (simp add: store_ok_def)

theorem layouts_not_recursive_witness:
  "\<exists>s. build_layouts sample_program 5 [TypeId 13] = Inr s \<and> layouts s (TypeId 13) \<noteq> None
     \<and> acyclic (held_by (layouts s))"
proof -
  have five: "5 = Suc (Suc (Suc (Suc (Suc 0))))" by simp
  from sample_builds obtain s l where s: "build_layouts sample_program 5 [TypeId 13] = Inr s"
    and l: "layouts s (TypeId 13) = Some l"
    unfolding five by blast
  from layouts_not_recursive [OF sample_widths s] s l show ?thesis by auto
qed

text \<open>
  The recursion over types ends: with more fuel than the table has entries the plan never runs out of
  it, and any further fuel changes nothing, so the result is that of the unbounded recursion of the sources.
\<close>

theorem layouts_terminate:
  assumes "length (entries (types prog)) < fuel"
  shows "build_layouts prog fuel roots \<noteq> Inl OutOfFuel
    \<and> build_layouts prog fuel roots = build_layouts prog (sufficient_fuel prog) roots"
  by (rule build_layouts_fuel) (use assms in \<open>simp add: sufficient_fuel_def\<close>)

theorem layouts_terminate_witness:
  "build_layouts sample_program 9 [TypeId 13] = build_layouts sample_program 5 [TypeId 13]"
proof -
  have "length (entries (types sample_program)) = 4" by (simp add: sample_program_def)
  then have "length (entries (types sample_program)) < 9" and "sufficient_fuel sample_program = 5"
    by (simp_all add: sufficient_fuel_def)
  with layouts_terminate [of sample_program 9 "[TypeId 13]"] show ?thesis by simp
qed

end
