(* ===== verification/Machine_Transport.thy ===== *)
theory Machine_Transport
  imports Machine_Layout
begin

text \<open>
  The calling convention of machine functions (\<^verbatim>\<open>nocter-machine/src/transport.rs\<close>): arguments are
  placed left to right in registers of two banks and in an outgoing stack area, results in registers or
  caller storage, and the signatures of runtime calls are interned. Of a MIR body the planner reads the
  operations in order, and of an operation only whether it is a call and to what.
\<close>

section \<open>Locations\<close>

record register_span =
  span_first :: u8
  span_words :: u8

record stack_slot =
  slot_offset :: u64
  slot_size :: u64
  slot_alignment :: u64

datatype argument_location = InRegisters register_span | OnStack stack_slot

record argument_abi =
  argument_ty :: type_id
  argument_class :: machine_value_class
  argument_at :: "argument_location option"

datatype result_location = Omitted | ResultRegisters register_span | CallerStorage u8

record returned_value =
  returned_ty :: type_id
  returned_class :: machine_value_class
  returned_at :: result_location

datatype result_abi = Completion | Diverging | Returned returned_value

record pack_abi =
  pack_element :: type_id
  pack_next :: type_id
  pack_next_result :: result_abi
  pack_pointer :: register_span

record callable_abi =
  abi_arguments :: "argument_abi list"
  abi_pack :: "pack_abi option"
  abi_result :: result_abi
  stack_argument_size :: u64

datatype machine_abi_error =
    UnknownAbiType type_id
  | MissingRuntimePrimitive runtime_primitive
  | MissingLayout type_id
  | MissingParameterLocal nat
  | CompletionArgument type_id
  | MismatchedFunctionIdentity nat nat
  | InvalidDirectResult type_id u8
  | ZeroValueHasLocation
  | InvalidStackAlignment u64
  | StackOverflow
  | SignatureIndexedTwice

text \<open>\<open>SignatureIndexedTwice\<close> is the failed assertion of the signature index, a panic.\<close>

text \<open>The facts of \<open>Arm64DarwinV1\<close> the planner reads.\<close>

definition stack_alignment :: u64 where "stack_alignment = 16"
definition general_argument_registers :: u8 where "general_argument_registers = 8"
definition floating_argument_registers :: u8 where "floating_argument_registers = 8"
definition direct_result_registers :: u8 where "direct_result_registers = 2"
definition indirect_result_pointer :: u8 where "indirect_result_pointer = 8"
definition pack_pointer_register :: u8 where "pack_pointer_register = 0"

section \<open>Placement\<close>

record machine_layout_store =
  stored_layouts :: "type_id \<rightharpoonup> machine_layout"
  stored_classes :: "type_id \<rightharpoonup> machine_value_class"

definition store_of :: "layout_builder \<Rightarrow> machine_layout_store" where
  "store_of s = \<lparr>stored_layouts = layouts s, stored_classes = classes s\<rparr>"

definition stack_align_up :: "u64 \<Rightarrow> u64 \<Rightarrow> machine_abi_error + u64" where
  "stack_align_up value alignment =
     (if \<not> is_power_of_two alignment then Inl (InvalidStackAlignment alignment)
      else ok_or StackOverflow
             (map_option (\<lambda>v. round_with_mask v (alignment - 1)) (checked_add value (alignment - 1))))"

definition require_layout ::
  "runtime_type_table \<Rightarrow> machine_layout_store \<Rightarrow> type_id \<Rightarrow> machine_abi_error + machine_layout" where
  "require_layout t store ty =
     (if table_get t ty = None then Inl (UnknownAbiType ty)
      else ok_or (MissingLayout ty) (stored_layouts store ty))"

fun stack_transport :: "machine_layout \<Rightarrow> machine_value_class \<Rightarrow> machine_abi_error + u64 \<times> u64" where
  "stack_transport l ZeroClass = Inl ZeroValueHasLocation"
| "stack_transport l (Direct words) =
     ok_or StackOverflow (map_option (\<lambda>b. (b, max (layout_alignment l) word_size))
       (checked_mul word_size (ucast words)))"
| "stack_transport l Float32Class = Inr (word_size, max (layout_alignment l) word_size)"
| "stack_transport l Float64Class = Inr (word_size, max (layout_alignment l) word_size)"
| "stack_transport l Indirect = Inr (pointer_size, pointer_alignment)"

record placement =
  window_open :: bool
  next_general :: u8
  next_float :: u8
  next_stack :: u64

fun transport_words :: "machine_value_class \<Rightarrow> u8" where
  "transport_words ZeroClass = 0"
| "transport_words (Direct words) = words"
| "transport_words _ = 1"

definition is_floating :: "machine_value_class \<Rightarrow> bool" where
  "is_floating c \<longleftrightarrow> c = Float32Class \<or> c = Float64Class"

definition place_on_stack ::
  "machine_layout \<Rightarrow> machine_value_class \<Rightarrow> placement \<Rightarrow> machine_abi_error + argument_location option \<times> placement" where
  "place_on_stack l c p =
     (let p = (if is_floating c then p else p\<lparr>window_open := False\<rparr>) in
      and_then (stack_transport l c) (\<lambda>(bytes, alignment).
      and_then (stack_align_up (next_stack p) alignment) (\<lambda>offset.
      and_then (ok_or StackOverflow (checked_add offset bytes)) (\<lambda>stop.
        Inr (Some (OnStack \<lparr>slot_offset = offset, slot_size = bytes, slot_alignment = alignment\<rparr>),
             p\<lparr>next_stack := stop\<rparr>)))))"

definition place ::
  "machine_layout \<Rightarrow> machine_value_class \<Rightarrow> placement \<Rightarrow> machine_abi_error + argument_location option \<times> placement" where
  "place l c p =
     (let words = transport_words c in
      if words = 0 then Inr (None, p)
      else if is_floating c \<and> next_float p < floating_argument_registers then
        Inr (Some (InRegisters \<lparr>span_first = next_float p, span_words = 1\<rparr>),
             p\<lparr>next_float := next_float p + 1\<rparr>)
      else if \<not> is_floating c \<and> window_open p
          \<and> (case checked_add (next_general p) words of
               None \<Rightarrow> False | Some stop \<Rightarrow> stop \<le> general_argument_registers) then
        Inr (Some (InRegisters \<lparr>span_first = next_general p, span_words = words\<rparr>),
             p\<lparr>next_general := next_general p + words\<rparr>)
      else place_on_stack l c p)"

definition plan_argument ::
  "runtime_type_table \<Rightarrow> machine_layout_store \<Rightarrow> type_id \<Rightarrow> placement \<Rightarrow> machine_abi_error + argument_abi \<times> placement" where
  "plan_argument t store ty p =
     (if is_completion_type t ty then Inl (CompletionArgument ty)
      else
        and_then (require_layout t store ty) (\<lambda>l.
        and_then (ok_or (UnknownAbiType ty) (stored_classes store ty)) (\<lambda>c.
        and_then (place l c p) (\<lambda>(at, p).
          Inr (\<lparr>argument_ty = ty, argument_class = c, argument_at = at\<rparr>, p)))))"

fun plan_arguments ::
  "runtime_type_table \<Rightarrow> machine_layout_store \<Rightarrow> type_id list \<Rightarrow> placement
     \<Rightarrow> machine_abi_error + argument_abi list \<times> placement" where
  "plan_arguments t store [] p = Inr ([], p)"
| "plan_arguments t store (ty # rest) p =
     and_then (plan_argument t store ty p) (\<lambda>(a, p).
     and_then (plan_arguments t store rest p) (\<lambda>(as, p). Inr (a # as, p)))"

definition plan_result ::
  "runtime_type_table \<Rightarrow> machine_layout_store \<Rightarrow> type_id \<Rightarrow> machine_abi_error + result_abi" where
  "plan_result t store ty =
     (case table_get t ty of
        None \<Rightarrow> Inl (UnknownAbiType ty)
      | Some (Primitive Void) \<Rightarrow> Inr Completion
      | Some (Primitive Never) \<Rightarrow> Inr Diverging
      | Some _ \<Rightarrow>
          and_then (require_layout t store ty) (\<lambda>_.
          and_then (ok_or (UnknownAbiType ty) (stored_classes store ty)) (\<lambda>c.
          and_then
            (case c of
               ZeroClass \<Rightarrow> Inr Omitted
             | Direct words \<Rightarrow>
                 if words > direct_result_registers then Inl (InvalidDirectResult ty words)
                 else Inr (ResultRegisters \<lparr>span_first = 0, span_words = words\<rparr>)
             | Float32Class \<Rightarrow> Inr (ResultRegisters \<lparr>span_first = 0, span_words = 1\<rparr>)
             | Float64Class \<Rightarrow> Inr (ResultRegisters \<lparr>span_first = 0, span_words = 1\<rparr>)
             | Indirect \<Rightarrow> Inr (CallerStorage indirect_result_pointer))
            (\<lambda>at. Inr (Returned \<lparr>returned_ty = ty, returned_class = c, returned_at = at\<rparr>)))))"

definition start_placement :: "pack_abi option \<Rightarrow> placement" where
  "start_placement pack =
     \<lparr>window_open = True,
      next_general = (case pack of None \<Rightarrow> 0
        | Some p \<Rightarrow> span_first (pack_pointer p) + span_words (pack_pointer p)),
      next_float = 0, next_stack = 0\<rparr>"

definition plan_signature ::
  "runtime_type_table \<Rightarrow> machine_layout_store \<Rightarrow> type_id list \<Rightarrow> type_id \<Rightarrow> pack_abi option
     \<Rightarrow> machine_abi_error + callable_abi" where
  "plan_signature t store parameters result pack =
     and_then (plan_arguments t store parameters (start_placement pack)) (\<lambda>(arguments, p).
     and_then (stack_align_up (next_stack p) stack_alignment) (\<lambda>stack.
     and_then (plan_result t store result) (\<lambda>r.
       Inr \<lparr>abi_arguments = arguments, abi_pack = pack, abi_result = r, stack_argument_size = stack\<rparr>)))"

section \<open>Runtime calls and functions\<close>

record call_signature =
  signature_parameters :: "type_id list"
  signature_result :: type_id

datatype call_target =
    DirectCall nat
  | StandardPrimitiveCall call_signature
  | TargetServiceCall call_signature
  | StructuralCall
  | ErasedCallableCall call_signature

datatype mir_operation = CallOperation call_target | OtherOperation

record mir_function =
  function_parameters :: "nat list"
  function_locals :: "type_id list"
  function_result :: type_id
  function_pack :: "(type_id \<times> type_id) option"
  function_body :: "mir_operation list"

datatype mir_root = ProcessRoot "mir_operation list" | TestRoots "mir_operation list list"

text \<open>The signature index has two levels, by parameters and by result.\<close>

type_synonym signature_index = "type_id list \<rightharpoonup> (type_id \<rightharpoonup> nat)"

definition index_get :: "signature_index \<Rightarrow> call_signature \<Rightarrow> nat option" where
  "index_get ix sig =
     Option.bind (ix (signature_parameters sig)) (\<lambda>by_result. by_result (signature_result sig))"

definition index_insert ::
  "signature_index \<Rightarrow> call_signature \<Rightarrow> nat \<Rightarrow> machine_abi_error + signature_index" where
  "index_insert ix sig n =
     (let by_result = (case ix (signature_parameters sig) of None \<Rightarrow> Map.empty | Some m \<Rightarrow> m) in
      if by_result (signature_result sig) \<noteq> None then Inl SignatureIndexedTwice
      else Inr (ix(signature_parameters sig \<mapsto> by_result(signature_result sig \<mapsto> n))))"

record call_table =
  ordinary_index :: signature_index
  erased_index :: signature_index
  call_abis :: "callable_abi list"

definition call_table_empty :: call_table where
  "call_table_empty = \<lparr>ordinary_index = Map.empty, erased_index = Map.empty, call_abis = []\<rparr>"

definition calls_get :: "call_table \<Rightarrow> call_signature \<Rightarrow> bool \<Rightarrow> nat option" where
  "calls_get tbl sig erased = index_get (if erased then erased_index tbl else ordinary_index tbl) sig"

definition calls_insert ::
  "call_table \<Rightarrow> call_signature \<Rightarrow> bool \<Rightarrow> nat \<Rightarrow> machine_abi_error + call_table" where
  "calls_insert tbl sig erased n =
     (if erased then map_sum id (\<lambda>ix. tbl\<lparr>erased_index := ix\<rparr>) (index_insert (erased_index tbl) sig n)
      else map_sum id (\<lambda>ix. tbl\<lparr>ordinary_index := ix\<rparr>) (index_insert (ordinary_index tbl) sig n))"

definition plan_erased_signature ::
  "runtime_type_table \<Rightarrow> machine_layout_store \<Rightarrow> call_signature \<Rightarrow> machine_abi_error + callable_abi" where
  "plan_erased_signature t store sig =
     and_then (ok_or (MissingRuntimePrimitive Usize) (table_primitive t Usize)) (\<lambda>environment.
       plan_signature t store (environment # signature_parameters sig) (signature_result sig) None)"

definition plan_call ::
  "runtime_type_table \<Rightarrow> machine_layout_store \<Rightarrow> call_signature \<Rightarrow> bool \<Rightarrow> machine_abi_error + callable_abi" where
  "plan_call t store sig erased =
     (if erased then plan_erased_signature t store sig
      else plan_signature t store (signature_parameters sig) (signature_result sig) None)"

fun runtime_call :: "mir_operation \<Rightarrow> (call_signature \<times> bool) option" where
  "runtime_call (CallOperation (StandardPrimitiveCall sig)) = Some (sig, False)"
| "runtime_call (CallOperation (TargetServiceCall sig)) = Some (sig, False)"
| "runtime_call (CallOperation (ErasedCallableCall sig)) = Some (sig, True)"
| "runtime_call _ = None"

fun collect_runtime_calls ::
  "runtime_type_table \<Rightarrow> machine_layout_store \<Rightarrow> mir_operation list \<Rightarrow> call_table
     \<Rightarrow> machine_abi_error + call_table" where
  "collect_runtime_calls t store [] tbl = Inr tbl"
| "collect_runtime_calls t store (operation # rest) tbl =
     (case runtime_call operation of
        None \<Rightarrow> collect_runtime_calls t store rest tbl
      | Some (sig, erased) \<Rightarrow>
          if calls_get tbl sig erased \<noteq> None then collect_runtime_calls t store rest tbl
          else
            and_then (plan_call t store sig erased) (\<lambda>abi.
            and_then (calls_insert tbl sig erased (length (call_abis tbl))) (\<lambda>tbl'.
              collect_runtime_calls t store rest (tbl'\<lparr>call_abis := call_abis tbl @ [abi]\<rparr>))))"

fun parameter_types :: "type_id list \<Rightarrow> nat list \<Rightarrow> machine_abi_error + type_id list" where
  "parameter_types locals [] = Inr []"
| "parameter_types locals (p # rest) =
     and_then (ok_or (MissingParameterLocal p) (list_get locals p)) (\<lambda>ty.
     and_then (parameter_types locals rest) (\<lambda>tys. Inr (ty # tys)))"

definition plan_pack ::
  "runtime_type_table \<Rightarrow> machine_layout_store \<Rightarrow> (type_id \<times> type_id) option \<Rightarrow> machine_abi_error + pack_abi option" where
  "plan_pack t store pack =
     (case pack of
        None \<Rightarrow> Inr None
      | Some (element, nxt) \<Rightarrow>
          and_then (require_layout t store element) (\<lambda>_.
          and_then (require_layout t store nxt) (\<lambda>_.
          and_then (plan_result t store nxt) (\<lambda>r.
            Inr (Some \<lparr>pack_element = element, pack_next = nxt, pack_next_result = r,
              pack_pointer = \<lparr>span_first = pack_pointer_register, span_words = 1\<rparr>\<rparr>)))))"

definition plan_function ::
  "runtime_type_table \<Rightarrow> machine_layout_store \<Rightarrow> mir_function \<Rightarrow> machine_abi_error + callable_abi" where
  "plan_function t store f =
     and_then (parameter_types (function_locals f) (function_parameters f)) (\<lambda>parameters.
     and_then (plan_pack t store (function_pack f)) (\<lambda>pack.
       plan_signature t store parameters (function_result f) pack))"

fun plan_functions ::
  "runtime_type_table \<Rightarrow> machine_layout_store \<Rightarrow> (nat \<times> mir_function) list \<Rightarrow> callable_abi list \<Rightarrow> call_table
     \<Rightarrow> machine_abi_error + callable_abi list \<times> call_table" where
  "plan_functions t store [] callables tbl = Inr (callables, tbl)"
| "plan_functions t store ((expected, f) # rest) callables tbl =
     and_then (plan_function t store f) (\<lambda>abi.
       let actual = length callables in
       if actual \<noteq> expected then Inl (MismatchedFunctionIdentity expected actual)
       else and_then (collect_runtime_calls t store (function_body f) tbl) (\<lambda>tbl.
         plan_functions t store rest (callables @ [abi]) tbl))"

fun collect_roots ::
  "runtime_type_table \<Rightarrow> machine_layout_store \<Rightarrow> mir_operation list list \<Rightarrow> call_table \<Rightarrow> machine_abi_error + call_table" where
  "collect_roots t store [] tbl = Inr tbl"
| "collect_roots t store (body # rest) tbl =
     and_then (collect_runtime_calls t store body tbl) (\<lambda>tbl. collect_roots t store rest tbl)"

fun root_bodies :: "mir_root \<Rightarrow> mir_operation list list" where
  "root_bodies (ProcessRoot body) = [body]"
| "root_bodies (TestRoots bodies) = bodies"

record abi_plan =
  plan_callables :: "callable_abi list"
  plan_calls :: call_table

definition build_abi_plan ::
  "runtime_type_table \<Rightarrow> machine_layout_store \<Rightarrow> (nat \<times> mir_function) list \<Rightarrow> mir_root
     \<Rightarrow> machine_abi_error + abi_plan" where
  "build_abi_plan t store functions root =
     and_then (plan_functions t store functions [] call_table_empty) (\<lambda>(callables, tbl).
     and_then (collect_roots t store (root_bodies root) tbl) (\<lambda>tbl.
       Inr \<lparr>plan_callables = callables, plan_calls = tbl\<rparr>))"

section \<open>Where arguments lie\<close>

text \<open>The registers an argument takes, as numbers of its bank, and the bytes of the stack area.\<close>

fun span_registers :: "register_span \<Rightarrow> nat set" where
  "span_registers s = {unat (span_first s) ..< unat (span_first s) + unat (span_words s)}"

definition registers_of :: "bool \<Rightarrow> argument_abi \<Rightarrow> nat set" where
  "registers_of floating a =
     (case argument_at a of
        Some (InRegisters s) \<Rightarrow> if is_floating (argument_class a) = floating then span_registers s else {}
      | _ \<Rightarrow> {})"

definition stack_of :: "argument_abi \<Rightarrow> nat set" where
  "stack_of a =
     (case argument_at a of
        Some (OnStack s) \<Rightarrow> {unat (slot_offset s) ..< unat (slot_offset s) + unat (slot_size s)}
      | _ \<Rightarrow> {})"

definition slot_ok :: "argument_abi \<Rightarrow> bool" where
  "slot_ok a \<longleftrightarrow>
     (\<forall>s. argument_at a = Some (OnStack s) \<longrightarrow>
        is_power_of_two (slot_alignment s) \<and> unat (slot_alignment s) dvd unat (slot_offset s) \<and> 0 < unat (slot_size s))"

definition apart :: "argument_abi \<Rightarrow> argument_abi \<Rightarrow> bool" where
  "apart a b \<longleftrightarrow>
     (\<forall>floating. registers_of floating a \<inter> registers_of floating b = {}) \<and> stack_of a \<inter> stack_of b = {}"

text \<open>What one placement changes, and what it gives the argument.\<close>

definition reaches :: "placement \<Rightarrow> placement \<Rightarrow> bool" where
  "reaches p p' \<longleftrightarrow>
     next_general p \<le> next_general p' \<and> next_float p \<le> next_float p' \<and> next_stack p \<le> next_stack p'
     \<and> (window_open p' \<longrightarrow> window_open p)
     \<and> (next_general p \<le> general_argument_registers \<longrightarrow> next_general p' \<le> general_argument_registers)
     \<and> (next_float p \<le> floating_argument_registers \<longrightarrow> next_float p' \<le> floating_argument_registers)"

definition between :: "placement \<Rightarrow> placement \<Rightarrow> argument_abi \<Rightarrow> bool" where
  "between p p' a \<longleftrightarrow>
     registers_of False a \<subseteq> {unat (next_general p) ..< unat (next_general p')}
     \<and> registers_of True a \<subseteq> {unat (next_float p) ..< unat (next_float p')}
     \<and> stack_of a \<subseteq> {unat (next_stack p) ..< unat (next_stack p')}"

definition settled_argument :: "placement \<Rightarrow> argument_abi \<Rightarrow> bool" where
  "settled_argument p a \<longleftrightarrow>
     slot_ok a \<and> (argument_at a = None \<longleftrightarrow> transport_words (argument_class a) = 0)
     \<and> (\<not> window_open p \<longrightarrow> registers_of False a = {})"

text \<open>Once a general argument went to the stack, no later one takes a general register.\<close>

definition no_backfill :: "argument_abi \<Rightarrow> argument_abi \<Rightarrow> bool" where
  "no_backfill a b \<longleftrightarrow>
     (\<not> is_floating (argument_class a) \<and> (\<exists>s. argument_at a = Some (OnStack s)) \<longrightarrow> registers_of False b = {})"

lemma reaches_refl [simp]: "reaches p p"
  by (simp add: reaches_def)

lemma reaches_trans: "reaches p q \<Longrightarrow> reaches q r \<Longrightarrow> reaches p r"
  by (auto simp: reaches_def)

lemma between_widen:
  assumes "between q r a" and "reaches p q" and "reaches r r'"
  shows "between p r' a"
proof -
  have "{unat (next_general q) ..< unat (next_general r)} \<subseteq> {unat (next_general p) ..< unat (next_general r')}"
    "{unat (next_float q) ..< unat (next_float r)} \<subseteq> {unat (next_float p) ..< unat (next_float r')}"
    "{unat (next_stack q) ..< unat (next_stack r)} \<subseteq> {unat (next_stack p) ..< unat (next_stack r')}"
    using assms(2,3) by (auto simp: reaches_def word_le_nat_alt)
  with assms(1) show ?thesis unfolding between_def by blast
qed

lemma between_apart: "between p q a \<Longrightarrow> between q r b \<Longrightarrow> apart a b"
  by (force simp: between_def apart_def all_bool_eq)

lemma stack_align_up_Inr:
  assumes "stack_align_up v a = Inr r"
  shows "is_power_of_two a" and "unat a dvd unat r" and "unat v \<le> unat r"
proof -
  from assms have p: "is_power_of_two a" by (auto simp: stack_align_up_def split: if_splits)
  from assms obtain s where s: "checked_add v (a - 1) = Some s" and r: "r = round_with_mask s (a - 1)"
    by (auto simp: stack_align_up_def split: if_splits)
  with round_up_unat [OF p] p show "is_power_of_two a" "unat a dvd unat r" "unat v \<le> unat r" by auto
qed

lemma unat_byte_word: "unat (ucast (w :: u8) :: u64) = unat w"
proof -
  have "unat w < 2 ^ 8" using unsigned_less [of w] by simp
  then show ?thesis by (simp add: unsigned_ucast_eq take_bit_nat_eq_self)
qed

lemma stack_transport_Inr:
  "stack_transport l c = Inr (b, a) \<Longrightarrow> transport_words c \<noteq> 0 \<Longrightarrow> 0 < unat b"
  by (cases c) (auto simp: word_size_def pointer_size_def unat_byte_word word_unat_eq_iff dest!: checked_mul_SomeD)

lemma place_on_stack_ok:
  assumes "place_on_stack l c p = Inr (at, p')" and "transport_words c \<noteq> 0"
  shows "\<exists>s. at = Some (OnStack s) \<and> is_power_of_two (slot_alignment s)
    \<and> unat (slot_alignment s) dvd unat (slot_offset s) \<and> 0 < unat (slot_size s)
    \<and> unat (next_stack p) \<le> unat (slot_offset s)
    \<and> unat (slot_offset s) + unat (slot_size s) = unat (next_stack p')
    \<and> next_general p' = next_general p \<and> next_float p' = next_float p
    \<and> (window_open p' \<longleftrightarrow> window_open p \<and> is_floating c)"
proof -
  let ?p = "if is_floating c then p else p\<lparr>window_open := False\<rparr>"
  from assms(1) obtain bytes alignment offset stop where
    t: "stack_transport l c = Inr (bytes, alignment)" and
    o: "stack_align_up (next_stack ?p) alignment = Inr offset" and
    stop: "checked_add offset bytes = Some stop" and
    at: "at = Some (OnStack \<lparr>slot_offset = offset, slot_size = bytes, slot_alignment = alignment\<rparr>)" and
    p': "p' = ?p\<lparr>next_stack := stop\<rparr>"
    by (auto simp: place_on_stack_def Let_def simp del: if_split_asm)
  note o = stack_align_up_Inr [OF o]
  show ?thesis
    using o stack_transport_Inr [OF t assms(2)] checked_add_SomeD [OF stop] at p'
    by (auto split: if_splits)
qed

lemma place_cases:
  assumes "place l c p = Inr (at, p')"
  shows "transport_words c = 0 \<and> at = None \<and> p' = p
    \<or> transport_words c \<noteq> 0 \<and> is_floating c \<and> next_float p < floating_argument_registers
      \<and> at = Some (InRegisters \<lparr>span_first = next_float p, span_words = 1\<rparr>)
      \<and> p' = p\<lparr>next_float := next_float p + 1\<rparr>
    \<or> (\<exists>stop. transport_words c \<noteq> 0 \<and> \<not> is_floating c \<and> window_open p
      \<and> checked_add (next_general p) (transport_words c) = Some stop \<and> stop \<le> general_argument_registers
      \<and> at = Some (InRegisters \<lparr>span_first = next_general p, span_words = transport_words c\<rparr>)
      \<and> p' = p\<lparr>next_general := next_general p + transport_words c\<rparr>)
    \<or> transport_words c \<noteq> 0 \<and> place_on_stack l c p = Inr (at, p')"
  using assms unfolding place_def Let_def
  by (cases "checked_add (next_general p) (transport_words c)") (simp_all split: if_split_asm)

lemma place_ok:
  assumes "place l c p = Inr (at, p')" and "next_general p \<le> general_argument_registers"
    and a: "a = \<lparr>argument_ty = ty, argument_class = c, argument_at = at\<rparr>"
  shows "reaches p p' \<and> between p p' a \<and> settled_argument p a
    \<and> (\<not> is_floating c \<and> (\<exists>s. at = Some (OnStack s)) \<longrightarrow> \<not> window_open p')"
proof -
  consider (none) "transport_words c = 0" "at = None" "p' = p"
    | (float) "transport_words c \<noteq> 0" "is_floating c" "next_float p < floating_argument_registers"
      "at = Some (InRegisters \<lparr>span_first = next_float p, span_words = 1\<rparr>)"
      "p' = p\<lparr>next_float := next_float p + 1\<rparr>"
    | (general) stop where "transport_words c \<noteq> 0" "\<not> is_floating c" "window_open p"
      "checked_add (next_general p) (transport_words c) = Some stop" "stop \<le> general_argument_registers"
      "at = Some (InRegisters \<lparr>span_first = next_general p, span_words = transport_words c\<rparr>)"
      "p' = p\<lparr>next_general := next_general p + transport_words c\<rparr>"
    | (stack) "transport_words c \<noteq> 0" "place_on_stack l c p = Inr (at, p')"
    using place_cases [OF assms(1)] by blast
  then show ?thesis
  proof cases
    case none
    then show ?thesis by (simp add: a between_def settled_argument_def registers_of_def stack_of_def slot_ok_def)
  next
    case float
    then have "unat (next_float p + 1) = unat (next_float p) + 1"
      by (simp add: floating_argument_registers_def unat_word_ariths word_less_nat_alt)
    with float show ?thesis
      by (auto simp: a reaches_def between_def settled_argument_def registers_of_def stack_of_def slot_ok_def
          floating_argument_registers_def word_le_nat_alt word_less_nat_alt)
  next
    case general
    have "stop = next_general p + transport_words c"
      using general(4) by (auto simp: checked_add_def split: if_splits)
    with general(5) checked_add_SomeD [OF general(4)]
    have "unat (next_general p + transport_words c) = unat (next_general p) + unat (transport_words c)"
      "next_general p + transport_words c \<le> general_argument_registers" by simp_all
    with general show ?thesis
      by (auto simp: a reaches_def between_def settled_argument_def registers_of_def stack_of_def slot_ok_def
          word_le_nat_alt)
  next
    case stack
    from place_on_stack_ok [OF stack(2,1)] obtain s where s: "at = Some (OnStack s)"
      "is_power_of_two (slot_alignment s)" "unat (slot_alignment s) dvd unat (slot_offset s)"
      "0 < unat (slot_size s)" "unat (next_stack p) \<le> unat (slot_offset s)"
      "unat (slot_offset s) + unat (slot_size s) = unat (next_stack p')"
      "next_general p' = next_general p" "next_float p' = next_float p"
      "window_open p' \<longleftrightarrow> window_open p \<and> is_floating c" by blast
    then have "unat (next_stack p) \<le> unat (next_stack p')" by linarith
    with s stack(1) show ?thesis
      by (auto simp: a reaches_def between_def settled_argument_def registers_of_def stack_of_def slot_ok_def
          word_le_nat_alt)
  qed
qed

lemma plan_argument_ok:
  assumes "plan_argument t store ty p = Inr (a, p')" and "next_general p \<le> general_argument_registers"
  shows "argument_ty a = ty \<and> stored_classes store ty = Some (argument_class a)
    \<and> reaches p p' \<and> between p p' a \<and> settled_argument p a
    \<and> (\<not> is_floating (argument_class a) \<and> (\<exists>s. argument_at a = Some (OnStack s)) \<longrightarrow> \<not> window_open p')"
proof -
  from assms(1) obtain l c at where "stored_classes store ty = Some c"
    and at: "place l c p = Inr (at, p')" and a: "a = \<lparr>argument_ty = ty, argument_class = c, argument_at = at\<rparr>"
    by (auto simp: plan_argument_def split: if_splits)
  with place_ok [OF at assms(2) a] show ?thesis by simp
qed

lemma plan_arguments_ok:
  assumes "plan_arguments t store tys p = Inr (as, p')" and "next_general p \<le> general_argument_registers"
  shows "map argument_ty as = tys \<and> reaches p p'
    \<and> (\<forall>a \<in> set as. between p p' a \<and> slot_ok a
         \<and> (argument_at a = None \<longleftrightarrow> transport_words (argument_class a) = 0)
         \<and> stored_classes store (argument_ty a) = Some (argument_class a)
         \<and> (\<not> window_open p \<longrightarrow> registers_of False a = {}))
    \<and> sorted_wrt apart as \<and> sorted_wrt no_backfill as"
  using assms
proof (induction tys arbitrary: p as)
  case (Cons ty tys)
  from Cons.prems(1) obtain a q as' where a: "plan_argument t store ty p = Inr (a, q)"
    and rest: "plan_arguments t store tys q = Inr (as', p')" and as: "as = a # as'" by auto
  note head = plan_argument_ok [OF a Cons.prems(2)]
  have "next_general q \<le> general_argument_registers"
    using head Cons.prems(2) by (simp add: reaches_def)
  note tail = Cons.IH [OF rest this]
  have "between p p' a" using head tail by (blast intro: between_widen reaches_refl)
  moreover have "between p p' b" "apart a b" if "b \<in> set as'" for b
    using head tail that by (blast intro: between_widen between_apart reaches_refl)+
  moreover have "no_backfill a b" if "b \<in> set as'" for b
    using head tail that by (simp add: no_backfill_def)
  moreover have "\<not> window_open p \<Longrightarrow> \<not> window_open q" using head by (auto simp: reaches_def)
  ultimately show ?case
    using head tail reaches_trans [of p q p'] by (auto simp: as settled_argument_def)
qed simp

text \<open>The part of the registers a pack pointer takes.\<close>

definition pack_registers :: "pack_abi option \<Rightarrow> nat set" where
  "pack_registers pack = (case pack of None \<Rightarrow> {} | Some q \<Rightarrow> span_registers (pack_pointer q))"

definition pack_ok :: "pack_abi option \<Rightarrow> bool" where
  "pack_ok pack \<longleftrightarrow>
     (\<forall>q \<in> set_option pack. unat (span_first (pack_pointer q)) + unat (span_words (pack_pointer q)) \<le> 8)"

definition signature_ok ::
  "machine_layout_store \<Rightarrow> type_id list \<Rightarrow> callable_abi \<Rightarrow> bool" where
  "signature_ok store parameters abi \<longleftrightarrow>
     map argument_ty (abi_arguments abi) = parameters
     \<and> (\<forall>a \<in> set (abi_arguments abi).
          registers_of False a \<subseteq> {..<8} - pack_registers (abi_pack abi)
          \<and> registers_of True a \<subseteq> {..<8}
          \<and> stack_of a \<subseteq> {..<unat (stack_argument_size abi)} \<and> slot_ok a
          \<and> (argument_at a = None \<longleftrightarrow> transport_words (argument_class a) = 0)
          \<and> stored_classes store (argument_ty a) = Some (argument_class a))
     \<and> sorted_wrt apart (abi_arguments abi) \<and> sorted_wrt no_backfill (abi_arguments abi)
     \<and> 16 dvd unat (stack_argument_size abi)"

lemma plan_signature_ok:
  assumes "plan_signature t store parameters result pack = Inr abi" and "pack_ok pack"
  shows "signature_ok store parameters abi \<and> abi_pack abi = pack \<and> plan_result t store result = Inr (abi_result abi)"
proof -
  from assms(1) obtain as p stack r where
    as: "plan_arguments t store parameters (start_placement pack) = Inr (as, p)" and
    stack: "stack_align_up (next_stack p) stack_alignment = Inr stack" and
    r: "plan_result t store result = Inr r" and
    abi: "abi = \<lparr>abi_arguments = as, abi_pack = pack, abi_result = r, stack_argument_size = stack\<rparr>"
    by (auto simp: plan_signature_def)
  let ?p = "start_placement pack"
  have start: "unat (next_general ?p) \<le> 8 \<and> pack_registers pack \<subseteq> {..<unat (next_general ?p)}"
    using assms(2)
    by (auto simp: start_placement_def pack_ok_def pack_registers_def unat_word_ariths split: option.splits)
  then have "next_general ?p \<le> general_argument_registers"
    by (simp add: general_argument_registers_def word_le_nat_alt)
  note args = plan_arguments_ok [OF as this]
  have limits: "unat (next_general p) \<le> 8" "unat (next_float p) \<le> 8" "unat (next_stack p) \<le> unat stack"
    using args \<open>next_general ?p \<le> general_argument_registers\<close> stack_align_up_Inr(3) [OF stack]
    by (auto simp: reaches_def word_le_nat_alt start_placement_def general_argument_registers_def
        floating_argument_registers_def)
  have "registers_of False a \<subseteq> {..<8} - pack_registers pack \<and> registers_of True a \<subseteq> {..<8}
      \<and> stack_of a \<subseteq> {..<unat stack}" if "a \<in> set as" for a
  proof -
    from args that have "between ?p p a" by blast
    with limits start show ?thesis unfolding between_def by fastforce
  qed
  moreover have "16 dvd unat stack" using stack_align_up_Inr(2) [OF stack] by (simp add: stack_alignment_def)
  ultimately show ?thesis using args r by (simp add: signature_ok_def abi)
qed

section \<open>Interning\<close>

lemma index_get_insert:
  assumes "index_insert ix sig n = Inr ix'"
  shows "index_get ix' s = (if s = sig then Some n else index_get ix s)"
proof -
  have "s = sig \<longleftrightarrow> signature_parameters s = signature_parameters sig \<and> signature_result s = signature_result sig"
    by (cases s; cases sig) simp
  then show ?thesis using assms
    by (auto simp: index_insert_def index_get_def Let_def split: if_splits option.splits)
qed

lemma index_insert_fresh: "index_get ix sig = None \<Longrightarrow> \<exists>ix'. index_insert ix sig n = Inr ix'"
  by (auto simp: index_insert_def index_get_def Let_def split: option.splits)

lemma calls_insert_fresh: "calls_get tbl sig e = None \<Longrightarrow> \<exists>tbl'. calls_insert tbl sig e n = Inr tbl'"
  by (cases e) (auto simp: calls_insert_def calls_get_def dest!: index_insert_fresh [where n = n])

lemma calls_get_insert:
  assumes "calls_insert tbl sig e n = Inr tbl'"
  shows "calls_get tbl' s b = (if s = sig \<and> b = e then Some n else calls_get tbl s b)"
    and "call_abis tbl' = call_abis tbl"
proof -
  obtain ix where ix: "index_insert (if e then erased_index tbl else ordinary_index tbl) sig n = Inr ix"
    and tbl': "tbl' = (if e then tbl\<lparr>erased_index := ix\<rparr> else tbl\<lparr>ordinary_index := ix\<rparr>)"
    using assms by (cases e) (auto simp: calls_insert_def map_sum_def split: sum.splits)
  show "calls_get tbl' s b = (if s = sig \<and> b = e then Some n else calls_get tbl s b)"
    using index_get_insert [OF ix, of s] by (cases e; cases b) (simp_all add: tbl' calls_get_def)
  show "call_abis tbl' = call_abis tbl" by (simp add: tbl')
qed

lemma calls_get_abis [simp]: "calls_get (tbl\<lparr>call_abis := as\<rparr>) s b = calls_get tbl s b"
  by (simp add: calls_get_def)

text \<open>Every interned signature has the ABI planned for it, identities are dense and never shared.\<close>

definition calls_inv :: "runtime_type_table \<Rightarrow> machine_layout_store \<Rightarrow> call_table \<Rightarrow> bool" where
  "calls_inv t store tbl \<longleftrightarrow>
     (\<forall>sig e n. calls_get tbl sig e = Some n \<longrightarrow>
        n < length (call_abis tbl) \<and> plan_call t store sig e = Inr (call_abis tbl ! n))
     \<and> (\<forall>n < length (call_abis tbl). \<exists>!(sig, e). calls_get tbl sig e = Some n)"

definition calls_grow :: "call_table \<Rightarrow> call_table \<Rightarrow> bool" where
  "calls_grow tbl tbl' \<longleftrightarrow> (\<forall>sig e n. calls_get tbl sig e = Some n \<longrightarrow> calls_get tbl' sig e = Some n)"

lemma calls_grow_trans: "calls_grow a b \<Longrightarrow> calls_grow b c \<Longrightarrow> calls_grow a c"
  by (simp add: calls_grow_def)

lemma calls_inv_empty: "calls_inv t store call_table_empty"
  by (simp add: calls_inv_def call_table_empty_def calls_get_def index_get_def)

lemma calls_inv_insert:
  assumes inv: "calls_inv t store tbl" and abi: "plan_call t store sig e = Inr abi"
    and ins: "calls_insert tbl sig e (length (call_abis tbl)) = Inr tbl'"
  shows "calls_inv t store (tbl'\<lparr>call_abis := call_abis tbl @ [abi]\<rparr>)"
proof -
  let ?n = "length (call_abis tbl)" and ?t = "tbl'\<lparr>call_abis := call_abis tbl @ [abi]\<rparr>"
  note get = calls_get_insert [OF ins]
  have old: "calls_get tbl s b = Some m \<Longrightarrow> m < ?n" for s b m
    using inv by (auto simp: calls_inv_def)
  have "\<exists>!(s, b). calls_get ?t s b = Some m" if "m < Suc ?n" for m
  proof (cases "m = ?n")
    case True
    with old have "calls_get ?t s b = Some m \<longleftrightarrow> (s, b) = (sig, e)" for s b
      by (auto simp: get(1))
    then show ?thesis by (intro ex1I [of _ "(sig, e)"]) auto
  next
    case False
    with that inv have "\<exists>!(s, b). calls_get tbl s b = Some m" by (auto simp: calls_inv_def)
    moreover have "calls_get ?t s b = Some m \<longleftrightarrow> calls_get tbl s b = Some m \<and> \<not> (s = sig \<and> b = e)" for s b
      using False by (auto simp: get(1))
    moreover have "calls_get tbl sig e = None"
      using ins by (auto simp: calls_insert_def calls_get_def index_insert_def index_get_def Let_def
          split: if_splits option.splits)
    ultimately have "calls_get ?t s b = Some m \<longleftrightarrow> calls_get tbl s b = Some m" for s b
      by (cases "s = sig \<and> b = e") auto
    with \<open>\<exists>!(s, b). calls_get tbl s b = Some m\<close> show ?thesis by simp
  qed
  moreover have "calls_get ?t s b = Some m \<longrightarrow> m < Suc ?n \<and> plan_call t store s b = Inr ((call_abis tbl @ [abi]) ! m)"
    for s b m
    using inv abi old by (auto simp: get(1) calls_inv_def nth_append less_Suc_eq)
  ultimately show ?thesis unfolding calls_inv_def by simp
qed

lemma collect_ok:
  assumes "collect_runtime_calls t store ops tbl = Inr tbl'" and "calls_inv t store tbl"
  shows "calls_inv t store tbl' \<and> calls_grow tbl tbl'
    \<and> (\<forall>op \<in> set ops. \<forall>sig e. runtime_call op = Some (sig, e) \<longrightarrow> calls_get tbl' sig e \<noteq> None)"
  using assms
proof (induction ops arbitrary: tbl)
  case (Cons op ops)
  show ?case
  proof (cases "runtime_call op")
    case None
    with Cons show ?thesis by auto
  next
    case (Some r)
    obtain sig e where r: "runtime_call op = Some (sig, e)" using Some by (cases r) auto
    show ?thesis
    proof (cases "calls_get tbl sig e")
      case (Some n)
      then have "collect_runtime_calls t store ops tbl = Inr tbl'" using Cons.prems(1) r by simp
      from Cons.IH [OF this Cons.prems(2)] show ?thesis
        using r Some by (auto simp: calls_grow_def)
    next
      case None
      with Cons.prems(1) r obtain abi tbl1 where abi: "plan_call t store sig e = Inr abi"
        and ins: "calls_insert tbl sig e (length (call_abis tbl)) = Inr tbl1"
        and rest: "collect_runtime_calls t store ops (tbl1\<lparr>call_abis := call_abis tbl @ [abi]\<rparr>) = Inr tbl'"
        by auto
      have "calls_grow tbl (tbl1\<lparr>call_abis := call_abis tbl @ [abi]\<rparr>)"
        using None by (auto simp: calls_grow_def calls_get_insert [OF ins])
      with Cons.IH [OF rest calls_inv_insert [OF Cons.prems(2) abi ins]] show ?thesis
        using r by (auto simp: calls_get_insert [OF ins] intro: calls_grow_trans)
          (auto simp: calls_grow_def calls_get_insert [OF ins])
    qed
  qed
qed (simp add: calls_grow_def)

lemma collect_roots_ok:
  assumes "collect_roots t store bodies tbl = Inr tbl'" and "calls_inv t store tbl"
  shows "calls_inv t store tbl' \<and> calls_grow tbl tbl'
    \<and> (\<forall>body \<in> set bodies. \<forall>op \<in> set body. \<forall>sig e. runtime_call op = Some (sig, e) \<longrightarrow> calls_get tbl' sig e \<noteq> None)"
  using assms
proof (induction bodies arbitrary: tbl)
  case (Cons body bodies)
  from Cons.prems(1) obtain tbl1 where b: "collect_runtime_calls t store body tbl = Inr tbl1"
    and rest: "collect_roots t store bodies tbl1 = Inr tbl'" by auto
  note head = collect_ok [OF b Cons.prems(2)]
  from Cons.IH [OF rest] head show ?case unfolding calls_grow_def by (auto 4 4)
qed (simp add: calls_grow_def)

lemma plan_functions_ok:
  assumes "plan_functions t store fs callables tbl = Inr (callables', tbl')" and "calls_inv t store tbl"
  shows "calls_inv t store tbl' \<and> calls_grow tbl tbl'
    \<and> map fst fs = [length callables..<length callables + length fs]
    \<and> (\<exists>new. callables' = callables @ new \<and> map (Inr :: _ \<Rightarrow> machine_abi_error + callable_abi) new = map (\<lambda>(_, f). plan_function t store f) fs)
    \<and> (\<forall>(_, f) \<in> set fs. \<forall>op \<in> set (function_body f). \<forall>sig e.
         runtime_call op = Some (sig, e) \<longrightarrow> calls_get tbl' sig e \<noteq> None)"
  using assms
proof (induction fs arbitrary: callables tbl)
  case (Cons ef fs)
  obtain n f where ef: "ef = (n, f)" by (cases ef)
  from Cons.prems(1) ef obtain abi tbl1 where abi: "plan_function t store f = Inr abi"
    and n: "n = length callables" and b: "collect_runtime_calls t store (function_body f) tbl = Inr tbl1"
    and rest: "plan_functions t store fs (callables @ [abi]) tbl1 = Inr (callables', tbl')"
    by (auto simp: Let_def split: if_splits)
  note head = collect_ok [OF b Cons.prems(2)]
  note tail = Cons.IH [OF rest conjunct1 [OF head]]
  have calls: "runtime_call op = Some (sig, e) \<Longrightarrow> calls_get tbl' sig e \<noteq> None"
    if "op \<in> set (function_body f)" for op sig e
    using head tail that unfolding calls_grow_def by (metis not_None_eq)
  have "map fst (ef # fs) = [length callables..<length callables + length (ef # fs)]"
    using tail n ef upt_conv_Cons [of "length callables" "length callables + length (ef # fs)"] by simp
  moreover have "\<exists>new. callables' = callables @ new
      \<and> map Inr new = map (\<lambda>(_, f). plan_function t store f) (ef # fs)"
    using tail abi ef by (auto intro: exI [of _ "abi # _"])
  moreover have "calls_grow tbl tbl'" using head tail by (auto simp: calls_grow_def)
  ultimately show ?case using tail calls ef by auto
qed (simp add: calls_grow_def)

section \<open>Planning always succeeds on laid out types\<close>

lemma words_of_size:
  fixes n :: u64
  shows "unat (n div 8 + (if n mod 8 = 0 then 0 else 1)) = (unat n + 7) div 8"
proof -
  have "unat n < 2 ^ 64" using unsigned_less [of n] by simp
  then have "unat (n div 8 + 1) = unat n div 8 + 1"
    by (simp add: unat_word_ariths unat_div_distrib)
  moreover have "n mod 8 = 0 \<longleftrightarrow> unat n mod 8 = 0"
    by (simp add: unat_mod_distrib word_unat_eq_iff)
  moreover have "(unat n + 7) div 8 = unat n div 8 + (if unat n mod 8 = 0 then 0 else 1)"
    by presburger
  ultimately show ?thesis by (simp add: unat_div_distrib)
qed

lemma class_for_layout_cases:
  "class_for_layout l = ZeroClass \<and> layout_size l = 0
   \<or> (\<exists>w. class_for_layout l = Direct w \<and> 1 \<le> unat w \<and> unat w \<le> 2 \<and> unat w = (unat (layout_size l) + 7) div 8)
   \<or> class_for_layout l = Float32Class \<and> layout_kind l = KindScalar ScalarFloat32
   \<or> class_for_layout l = Float64Class \<and> layout_kind l = KindScalar ScalarFloat64
   \<or> class_for_layout l = Indirect \<and> 16 < unat (layout_size l)"
proof -
  let ?w = "layout_size l div 8 + (if layout_size l mod 8 = 0 then 0 else 1)"
  note w = words_of_size [of "layout_size l"]
  have le: "?w \<le> 2 \<longleftrightarrow> unat (layout_size l) \<le> 16" unfolding word_le_nat_alt w by auto
  have small: "?w < 256" if "?w \<le> 2" using that by (rule order_le_less_trans) simp
  have "unat (ucast ?w :: u8) = unat ?w" if "?w \<le> 2"
  proof -
    have "unat ?w \<le> 2" using that by (simp only: word_le_nat_alt) simp
    then have "unat ?w < 2 ^ 8" by simp
    then show ?thesis by (simp only: unsigned_ucast_eq) (simp add: take_bit_nat_eq_self)
  qed
  moreover have "unat (layout_size l) = 0 \<longleftrightarrow> layout_size l = 0" by (simp add: word_unat_eq_iff)
  ultimately show ?thesis
    using le small w
    by (auto simp: class_for_layout_def Let_def word_size_def direct_value_word_limit_def)
qed

lemma word_size_power [simp]: "is_power_of_two word_size" "is_power_of_two pointer_alignment"
  by (simp_all add: word_size_def pointer_alignment_def)

lemma max_word_size:
  "is_power_of_two a \<Longrightarrow> unat a \<le> 16 \<Longrightarrow> is_power_of_two (max a word_size) \<and> unat (max a word_size) \<le> 16"
  by (auto simp: power_of_two_max max_def) (simp add: word_size_def)

lemma stack_transport_total:
  assumes "sized l" and "kind_ok store l" and "transport_words (class_for_layout l) \<noteq> 0"
  shows "\<exists>b a. stack_transport l (class_for_layout l) = Inr (b, a)
    \<and> unat b \<le> 16 \<and> unat a \<le> 16 \<and> is_power_of_two a"
proof -
  have p: "is_power_of_two (layout_alignment l)" "unat (layout_alignment l) dvd unat (layout_size l)"
    using assms(1) by (simp_all add: sized_def)
  from class_for_layout_cases [of l] consider
      (direct) w where "class_for_layout l = Direct w" "unat w \<le> 2" "1 \<le> unat w"
        "unat w = (unat (layout_size l) + 7) div 8"
    | (float) "class_for_layout l = Float32Class \<and> layout_kind l = KindScalar ScalarFloat32
        \<or> class_for_layout l = Float64Class \<and> layout_kind l = KindScalar ScalarFloat64"
    | (indirect) "class_for_layout l = Indirect"
    using assms(3) by force
  then show ?thesis
  proof cases
    case direct
    then have "unat (layout_size l) \<le> 16" "0 < unat (layout_size l)" by linarith+
    with p(2) have "unat (layout_alignment l) \<le> 16" by (meson dvd_imp_le le_trans)
    note a = max_word_size [OF p(1) this]
    have m: "unat word_size * unat (ucast w :: u64) \<le> 16"
      using direct(2) by (simp add: word_size_def unat_byte_word)
    then have "checked_mul word_size (ucast w) = Some (word_size * ucast w)" by (simp add: checked_mul_def)
    with m a direct(1) checked_mul_SomeD [OF this] show ?thesis by simp
  next
    case float
    with assms(2) have "unat (layout_alignment l) \<le> 8"
      by (auto simp: kind_ok_def Let_def)
    then have "unat (layout_alignment l) \<le> 16" by linarith
    note a = max_word_size [OF p(1) this]
    have "unat word_size \<le> 16" by (simp add: word_size_def)
    with float a show ?thesis by auto
  next
    case indirect
    then show ?thesis by (simp add: pointer_size_def pointer_alignment_def)
  qed
qed

lemma stack_align_up_total:
  assumes "is_power_of_two a" and "unat v + unat a \<le> 2 ^ 64"
  shows "\<exists>r. stack_align_up v a = Inr r \<and> unat r < unat v + unat a"
proof -
  have "0 < unat a" using assms(1) by (rule power_of_two_pos)
  then have "unat (a - 1) = unat a - 1" by (simp add: unat_sub word_le_nat_alt Suc_leI)
  then have s: "checked_add v (a - 1) = Some (v + (a - 1))"
    using assms(2) \<open>0 < unat a\<close> by (simp add: checked_add_def)
  with assms(1) round_up_unat(3) [OF assms(1) s] show ?thesis by (simp add: stack_align_up_def)
qed

lemma place_total:
  assumes "sized l" and "kind_ok store l" and "unat (next_stack p) + 32 < 2 ^ 64"
  shows "\<exists>at p'. place l (class_for_layout l) p = Inr (at, p') \<and> unat (next_stack p') \<le> unat (next_stack p) + 32"
proof (cases "transport_words (class_for_layout l) = 0")
  case True
  then show ?thesis by (simp add: place_def)
next
  case False
  from stack_transport_total [OF assms(1,2) False] obtain b a where
    t: "stack_transport l (class_for_layout l) = Inr (b, a)" "unat b \<le> 16" "unat a \<le> 16" "is_power_of_two a"
    by blast
  have "unat (next_stack p) + unat a \<le> 2 ^ 64" using t(3) assms(3) by linarith
  from stack_align_up_total [OF t(4) this] obtain r where
    r: "stack_align_up (next_stack p) a = Inr r" "unat r < unat (next_stack p) + unat a" by blast
  have lt: "unat r + unat b < 2 ^ 64" using r(2) t(2,3) assms(3) by linarith
  then have stop: "checked_add r b = Some (r + b)" by (simp add: checked_add_def)
  have "unat (r + b) \<le> unat (next_stack p) + 32"
    using checked_add_SomeD [OF stop] r(2) t(2,3) by linarith
  then have "\<exists>at p'. place_on_stack l (class_for_layout l) p = Inr (at, p')
      \<and> unat (next_stack p') \<le> unat (next_stack p) + 32"
    using t(1) r(1) stop by (simp add: place_on_stack_def Let_def)
  then show ?thesis using False by (auto simp: place_def Let_def)
qed

text \<open>A type that can be passed: known, laid out and no completion type.\<close>

definition passable :: "runtime_type_table \<Rightarrow> layout_builder \<Rightarrow> type_id \<Rightarrow> bool" where
  "passable t s ty \<longleftrightarrow> table_get t ty \<noteq> None \<and> \<not> is_completion_type t ty \<and> layouts s ty \<noteq> None"

lemma passable_layout:
  assumes "store_ok s" and "passable t s ty"
  obtains l where "require_layout t (store_of s) ty = Inr l"
    and "stored_classes (store_of s) ty = Some (class_for_layout l)" and "sized l" and "kind_ok (layouts s) l"
  using assms by (auto simp: passable_def store_ok_def require_layout_def store_of_def)

lemma plan_arguments_total:
  assumes "store_ok s" and "\<forall>ty \<in> set tys. passable t s ty" and "unat (next_stack p) + 32 * (length tys + 1) < 2 ^ 64"
  shows "\<exists>as p'. plan_arguments t (store_of s) tys p = Inr (as, p')
    \<and> unat (next_stack p') \<le> unat (next_stack p) + 32 * length tys"
  using assms(2,3)
proof (induction tys arbitrary: p)
  case (Cons ty tys)
  from Cons.prems(1) have "passable t s ty" by simp
  from passable_layout [OF assms(1) this] obtain l where
    l: "require_layout t (store_of s) ty = Inr l" "stored_classes (store_of s) ty = Some (class_for_layout l)"
    "sized l" "kind_ok (layouts s) l" .
  have "unat (next_stack p) + 32 < 2 ^ 64" using Cons.prems(2) by simp
  from place_total [OF l(3,4) this] obtain at q where
    q: "place l (class_for_layout l) p = Inr (at, q)" "unat (next_stack q) \<le> unat (next_stack p) + 32" by blast
  have "unat (next_stack q) + 32 * (length tys + 1) < 2 ^ 64" using q(2) Cons.prems(2) by simp
  from Cons.IH [OF _ this] Cons.prems(1) obtain as p' where
    "plan_arguments t (store_of s) tys q = Inr (as, p')"
    "unat (next_stack p') \<le> unat (next_stack q) + 32 * length tys" by auto
  with l q(1,2) \<open>passable t s ty\<close> show ?case by (auto simp: plan_argument_def passable_def)
qed simp

lemma plan_result_total:
  assumes "store_ok s" and "table_get t ty \<noteq> None" and "is_completion_type t ty \<or> layouts s ty \<noteq> None"
  shows "\<exists>r. plan_result t (store_of s) ty = Inr r"
proof (cases "is_completion_type t ty")
  case True
  then show ?thesis by (auto simp: is_completion_type_def plan_result_def)
next
  case False
  with assms(2,3) have "passable t s ty" by (simp add: passable_def)
  from passable_layout [OF assms(1) this] obtain l where
    l: "require_layout t (store_of s) ty = Inr l" "stored_classes (store_of s) ty = Some (class_for_layout l)" .
  from assms(2) obtain kind where kind: "table_get t ty = Some kind" by auto
  have e: "plan_result t (store_of s) ty =
      and_then (require_layout t (store_of s) ty) (\<lambda>_.
      and_then (ok_or (UnknownAbiType ty) (stored_classes (store_of s) ty)) (\<lambda>c.
      and_then
        (case c of
           ZeroClass \<Rightarrow> Inr Omitted
         | Direct words \<Rightarrow>
             if words > direct_result_registers then Inl (InvalidDirectResult ty words)
             else Inr (ResultRegisters \<lparr>span_first = 0, span_words = words\<rparr>)
         | Float32Class \<Rightarrow> Inr (ResultRegisters \<lparr>span_first = 0, span_words = 1\<rparr>)
         | Float64Class \<Rightarrow> Inr (ResultRegisters \<lparr>span_first = 0, span_words = 1\<rparr>)
         | Indirect \<Rightarrow> Inr (CallerStorage indirect_result_pointer))
        (\<lambda>at. Inr (Returned \<lparr>returned_ty = ty, returned_class = c, returned_at = at\<rparr>))))"
  proof (cases kind)
    case (Primitive p)
    with False kind show ?thesis by (cases p) (simp_all add: plan_result_def is_completion_type_def)
  qed (simp_all add: plan_result_def kind)
  from class_for_layout_cases [of l] show ?thesis unfolding e
    by (auto simp: l ok_or_def direct_result_registers_def word_less_nat_alt)
qed

lemma plan_signature_total:
  assumes "store_ok s" and "\<forall>ty \<in> set parameters. passable t s ty"
    and "table_get t result \<noteq> None" and "is_completion_type t result \<or> layouts s result \<noteq> None"
    and "length parameters < 2 ^ 58"
  shows "\<exists>abi. plan_signature t (store_of s) parameters result pack = Inr abi"
proof -
  have start: "next_stack (start_placement pack) = 0" by (simp add: start_placement_def)
  have "unat (next_stack (start_placement pack)) + 32 * (length parameters + 1) < 2 ^ 64"
    using assms(5) by (simp add: start)
  from plan_arguments_total [OF assms(1,2) this] obtain as p where
    p: "plan_arguments t (store_of s) parameters (start_placement pack) = Inr (as, p)"
    "unat (next_stack p) \<le> 32 * length parameters" by (auto simp: start)
  have "is_power_of_two stack_alignment" "unat (next_stack p) + unat stack_alignment \<le> 2 ^ 64"
    using p(2) assms(5) by (simp_all add: stack_alignment_def)
  from stack_align_up_total [OF this] plan_result_total [OF assms(1,3,4)] p(1)
  show ?thesis by (auto simp: plan_signature_def)
qed

lemma plan_no_panic [simp]:
  "stack_align_up v a \<noteq> Inl SignatureIndexedTwice" "require_layout t store ty \<noteq> Inl SignatureIndexedTwice"
  "stack_transport l c \<noteq> Inl SignatureIndexedTwice" "place l c p \<noteq> Inl SignatureIndexedTwice"
  "plan_result t store ty \<noteq> Inl SignatureIndexedTwice"
proof -
  show a: "stack_align_up v a \<noteq> Inl SignatureIndexedTwice" for v a by (simp add: stack_align_up_def)
  show r: "require_layout t store ty \<noteq> Inl SignatureIndexedTwice" for t store ty by (simp add: require_layout_def)
  show t: "stack_transport l c \<noteq> Inl SignatureIndexedTwice" for l c by (cases c) simp_all
  show "place l c p \<noteq> Inl SignatureIndexedTwice"
    using a t by (auto simp: place_def place_on_stack_def Let_def and_then_Inl split: option.splits)
  show "plan_result t store ty \<noteq> Inl SignatureIndexedTwice"
    using r by (auto simp: plan_result_def and_then_Inl
        split: option.splits runtime_type.splits runtime_primitive.splits machine_value_class.splits if_splits)
qed

lemma plan_arguments_no_panic [simp]: "plan_arguments t store tys p \<noteq> Inl SignatureIndexedTwice"
  by (induction tys arbitrary: p) (auto simp: and_then_Inl plan_argument_def)

lemma plan_calls_no_panic [simp]:
  "plan_signature t store ps r pack \<noteq> Inl SignatureIndexedTwice"
  "plan_call t store sig e \<noteq> Inl SignatureIndexedTwice"
  "plan_function t store f \<noteq> Inl SignatureIndexedTwice"
proof -
  show s: "plan_signature t store ps r pack \<noteq> Inl SignatureIndexedTwice" for ps r pack
    by (auto simp: plan_signature_def and_then_Inl)
  show "plan_call t store sig e \<noteq> Inl SignatureIndexedTwice"
    using s by (auto simp: plan_call_def plan_erased_signature_def and_then_Inl)
  have "parameter_types locals ps \<noteq> Inl SignatureIndexedTwice" for locals ps
    by (induction ps) (auto simp: and_then_Inl)
  moreover have "plan_pack t store pack \<noteq> Inl SignatureIndexedTwice" for pack
    by (auto simp: plan_pack_def and_then_Inl split: option.splits)
  ultimately show "plan_function t store f \<noteq> Inl SignatureIndexedTwice"
    using s by (auto simp: plan_function_def and_then_Inl)
qed

lemma collect_no_panic:
  "calls_inv t store tbl \<Longrightarrow> collect_runtime_calls t store ops tbl \<noteq> Inl SignatureIndexedTwice"
proof (induction ops arbitrary: tbl)
  case (Cons op ops)
  show ?case
  proof (cases "runtime_call op")
    case None
    with Cons show ?thesis by simp
  next
    case (Some r)
    obtain sig e where r: "runtime_call op = Some (sig, e)" using Some by (cases r) auto
    show ?thesis
    proof (cases "calls_get tbl sig e")
      case None
      from calls_insert_fresh [OF this] obtain tbl1 where
        ins: "calls_insert tbl sig e (length (call_abis tbl)) = Inr tbl1" by blast
      show ?thesis
      proof (cases "plan_call t store sig e")
        case (Inr abi)
        from Cons.IH [OF calls_inv_insert [OF Cons.prems Inr ins]] show ?thesis
          using r None Inr ins by simp
      next
        case (Inl err)
        then have "err \<noteq> SignatureIndexedTwice" using plan_calls_no_panic(2) by metis
        with Inl r None show ?thesis by simp
      qed
    qed (use Cons r in simp)
  qed
qed simp

lemma collect_roots_no_panic:
  "calls_inv t store tbl \<Longrightarrow> collect_roots t store bodies tbl \<noteq> Inl SignatureIndexedTwice"
proof (induction bodies arbitrary: tbl)
  case (Cons body bodies)
  then show ?case using collect_no_panic [OF Cons.prems] by (auto simp: and_then_Inl dest: collect_ok)
qed simp

lemma plan_functions_no_panic:
  "calls_inv t store tbl \<Longrightarrow> plan_functions t store fs callables tbl \<noteq> Inl SignatureIndexedTwice"
proof (induction fs arbitrary: callables tbl)
  case (Cons ef fs)
  then show ?case using collect_no_panic [OF Cons.prems]
    by (cases ef) (auto simp: and_then_Inl Let_def dest: collect_ok)
qed simp

section \<open>Properties\<close>


lemma sample_store:
  obtains s where "build_layouts sample_program 5 [TypeId 13] = Inr s" and "store_ok s"
    and "passable (types sample_program) s (TypeId 13)"
proof -
  have five: "5 = Suc (Suc (Suc (Suc (Suc 0))))" by simp
  from sample_builds obtain s where s: "build_layouts sample_program 5 [TypeId 13] = Inr s"
    "layouts s (TypeId 13) \<noteq> None"
    unfolding five by fastforce
  moreover have "store_ok s" using build_layouts_ok [OF sample_widths s(1)] by simp
  ultimately show thesis by (intro that) (auto simp: passable_def is_completion_type_def)
qed


text \<open>
  Planning and layout fit together: whenever the parameter types and the result are known types
  that the layout plan was built for, a signature of fewer than \<open>2 ^ 58\<close> parameters is planned without
  error.
\<close>

theorem laid_out_signatures_plan:
  assumes "standard_widths (types prog)" and "build_layouts prog fuel roots = Inr s"
    and "\<forall>ty \<in> set parameters. ty \<in> set roots \<and> table_get (types prog) ty \<noteq> None \<and> \<not> is_completion_type (types prog) ty"
    and "result \<in> set roots" and "table_get (types prog) result \<noteq> None" and "length parameters < 2 ^ 58"
  shows "\<exists>abi. plan_signature (types prog) (store_of s) parameters result pack = Inr abi"
proof -
  note ok = build_layouts_ok [OF assms(1,2)]
  have "\<forall>ty \<in> set parameters. passable (types prog) s ty"
    using ok assms(3) unfolding passable_def by blast
  moreover have "is_completion_type (types prog) result \<or> layouts s result \<noteq> None"
    using ok assms(4) by blast
  ultimately show ?thesis using plan_signature_total ok assms(5,6) by blast
qed

theorem laid_out_signatures_plan_witness:
  "\<exists>s abi. build_layouts sample_program 5 [TypeId 13] = Inr s
     \<and> plan_signature (types sample_program) (store_of s) [TypeId 13] (TypeId 13) None = Inr abi"
proof -
  from sample_store obtain s where s: "build_layouts sample_program 5 [TypeId 13] = Inr s" .
  from laid_out_signatures_plan [OF sample_widths this, of "[TypeId 13]" "TypeId 13" None] s
  show ?thesis by (auto simp: is_completion_type_def)
qed

text \<open>
  C27: a finished ABI plan has, in order, the convention planned for every function, and for every
  runtime call in any body exactly one interned convention: the one planned for its signature, under an
  identity that no other signature has.
\<close>

theorem abi_plan_complete:
  assumes "build_abi_plan t store functions root = Inr plan"
  shows "map fst functions = [0..<length functions]
    \<and> map Inr (plan_callables plan) = map (\<lambda>(_, f). plan_function t store f) functions
    \<and> (\<forall>body \<in> set (map (function_body \<circ> snd) functions) \<union> set (root_bodies root).
         \<forall>op \<in> set body. \<forall>sig e. runtime_call op = Some (sig, e) \<longrightarrow>
           (\<exists>n. calls_get (plan_calls plan) sig e = Some n \<and> n < length (call_abis (plan_calls plan))
              \<and> plan_call t store sig e = Inr (call_abis (plan_calls plan) ! n)))
    \<and> (\<forall>n < length (call_abis (plan_calls plan)). \<exists>!(sig, e). calls_get (plan_calls plan) sig e = Some n)"
proof -
  from assms obtain callables tbl tbl' where
    f: "plan_functions t store functions [] call_table_empty = Inr (callables, tbl)" and
    r: "collect_roots t store (root_bodies root) tbl = Inr tbl'" and
    plan: "plan = \<lparr>plan_callables = callables, plan_calls = tbl'\<rparr>"
    by (auto simp: build_abi_plan_def)
  note fs = plan_functions_ok [OF f calls_inv_empty]
  note rs = collect_roots_ok [OF r conjunct1 [OF fs]]
  have "calls_get tbl' sig e \<noteq> None"
    if "body \<in> set (map (function_body \<circ> snd) functions) \<union> set (root_bodies root)" "op \<in> set body"
      "runtime_call op = Some (sig, e)" for body op sig e
  proof (cases "body \<in> set (root_bodies root)")
    case True
    with rs that show ?thesis by blast
  next
    case False
    with that have "calls_get tbl sig e \<noteq> None" using fs by fastforce
    then obtain n where "calls_get tbl sig e = Some n" by auto
    moreover have "calls_grow tbl tbl'" using rs by simp
    ultimately have "calls_get tbl' sig e = Some n" unfolding calls_grow_def by blast
    then show ?thesis by simp
  qed
  moreover have "calls_get tbl' sig e = Some n \<Longrightarrow> n < length (call_abis tbl')
      \<and> plan_call t store sig e = Inr (call_abis tbl' ! n)" for sig e n
    using rs by (simp add: calls_inv_def)
  ultimately have "\<forall>body \<in> set (map (function_body \<circ> snd) functions) \<union> set (root_bodies root).
      \<forall>op \<in> set body. \<forall>sig e. runtime_call op = Some (sig, e) \<longrightarrow>
        (\<exists>n. calls_get tbl' sig e = Some n \<and> n < length (call_abis tbl')
           \<and> plan_call t store sig e = Inr (call_abis tbl' ! n))" by blast
  moreover have "\<forall>n < length (call_abis tbl'). \<exists>!(sig, e). calls_get tbl' sig e = Some n"
    using rs by (simp add: calls_inv_def)
  ultimately show ?thesis using fs by (simp add: plan)
qed

theorem abi_plan_complete_witness:
  "\<exists>s plan n. build_layouts sample_program 5 [TypeId 13] = Inr s
     \<and> build_abi_plan (types sample_program) (store_of s) [] (ProcessRoot [CallOperation (TargetServiceCall
           \<lparr>signature_parameters = [], signature_result = TypeId 13\<rparr>)]) = Inr plan
     \<and> calls_get (plan_calls plan) \<lparr>signature_parameters = [], signature_result = TypeId 13\<rparr> False = Some n"
proof -
  let ?sig = "\<lparr>signature_parameters = [], signature_result = TypeId 13\<rparr>"
  let ?root = "ProcessRoot [CallOperation (TargetServiceCall ?sig)]"
  from sample_store obtain s where s: "build_layouts sample_program 5 [TypeId 13] = Inr s" "store_ok s"
    "passable (types sample_program) s (TypeId 13)" .
  then obtain abi where abi: "plan_call (types sample_program) (store_of s) ?sig False = Inr abi"
    using plan_signature_total [OF s(2), of "[]" "types sample_program" "TypeId 13" None]
    by (auto simp: passable_def plan_call_def)
  have fresh: "calls_get call_table_empty ?sig False = None"
    by (simp add: calls_get_def call_table_empty_def index_get_def)
  from calls_insert_fresh [OF this] obtain tbl where
    "calls_insert call_table_empty ?sig False (length (call_abis call_table_empty)) = Inr tbl" by blast
  with abi fresh obtain plan where
    plan: "build_abi_plan (types sample_program) (store_of s) [] ?root = Inr plan"
    by (auto simp: build_abi_plan_def)
  have "\<exists>n. calls_get (plan_calls plan) ?sig False = Some n"
    using abi_plan_complete [OF plan] by (auto simp: ex_bool_eq)
  with s(1) plan show ?thesis by blast
qed

text \<open>the assertion that a signature is indexed once never fails.\<close>

theorem abi_plan_no_panic: "build_abi_plan t store functions root \<noteq> Inl SignatureIndexedTwice"
proof -
  have "plan_functions t store functions [] call_table_empty \<noteq> Inl SignatureIndexedTwice"
    by (rule plan_functions_no_panic [OF calls_inv_empty])
  moreover have "collect_roots t store (root_bodies root) tbl \<noteq> Inl SignatureIndexedTwice"
    if "plan_functions t store functions [] call_table_empty = Inr (callables, tbl)" for callables tbl
    using plan_functions_ok [OF that calls_inv_empty] collect_roots_no_panic by blast
  ultimately show ?thesis by (auto simp: build_abi_plan_def and_then_Inl)
qed

end
