(* ===== verification/Persistent_Map.thy ===== *)
theory Persistent_Map
  imports Btree_Map
begin

text \<open>
  The persistent ordered map of the incremental computation engine
  (\<^verbatim>\<open>nocter-persistent/src/map.rs\<close>): a path-copying AVL tree. Sharing of subtrees is invisible to a
  purely functional tree. The \<open>expect\<close>s of the rotations are values here (\<open>None\<close> is the panic); the
  theorems show that none is reached, that the tree stays balanced and ordered, and that its height
  fits the width the sources give it.
\<close>

section \<open>Nodes\<close>

datatype ('k, 'v) map_node =
    Absent
  | MapNode (left: "('k, 'v) map_node") (node_key: 'k) (node_value: 'v) (right: "('k, 'v) map_node")
      (stored_height: nat)

fun node_height :: "('k, 'v) map_node \<Rightarrow> nat" where
  "node_height Absent = 0"
| "node_height (MapNode _ _ _ _ h) = h"

definition map_node_new :: "'k \<Rightarrow> 'v \<Rightarrow> ('k, 'v) map_node \<Rightarrow> ('k, 'v) map_node \<Rightarrow> ('k, 'v) map_node" where
  "map_node_new k v l r = MapNode l k v r (1 + max (node_height l) (node_height r))"

record ('k, 'v) persistent_map =
  root :: "('k, 'v) map_node"
  len :: nat

definition persistent_map_default :: "('k, 'v) persistent_map" where
  "persistent_map_default = \<lparr>root = Absent, len = 0\<rparr>"

fun node_get :: "('k::linorder, 'v) map_node \<Rightarrow> 'k \<Rightarrow> 'v option" where
  "node_get Absent k = None"
| "node_get (MapNode l j v r _) k =
     (if k < j then node_get l k else if j < k then node_get r k else Some v)"

definition persistent_get :: "('k::linorder, 'v) persistent_map \<Rightarrow> 'k \<Rightarrow> 'v option" where
  "persistent_get m k = node_get (root m) k"

definition contains_key :: "('k::linorder, 'v) persistent_map \<Rightarrow> 'k \<Rightarrow> bool" where
  "contains_key m k \<longleftrightarrow> persistent_get m k \<noteq> None"

section \<open>Rotations and insertion\<close>

fun rotate_left_node :: "('k, 'v) map_node \<Rightarrow> ('k, 'v) map_node option" where
  "rotate_left_node (MapNode l k v (MapNode pl pk pv pr _) _) =
     Some (map_node_new pk pv (map_node_new k v l pl) pr)"
| "rotate_left_node _ = None"

fun rotate_right_node :: "('k, 'v) map_node \<Rightarrow> ('k, 'v) map_node option" where
  "rotate_right_node (MapNode (MapNode pl pk pv pr _) k v r _) =
     Some (map_node_new pk pv pl (map_node_new k v pr r))"
| "rotate_right_node _ = None"

fun rebalance :: "('k, 'v) map_node \<Rightarrow> ('k, 'v) map_node option" where
  "rebalance Absent = None"
| "rebalance (MapNode l k v r h) =
     (let balance = int (node_height l) - int (node_height r) in
      if balance > 1 then
        (case l of
           Absent \<Rightarrow> None
         | MapNode ll _ _ lr _ \<Rightarrow>
             if node_height ll < node_height lr
             then Option.bind (rotate_left_node l) (\<lambda>l'. rotate_right_node (map_node_new k v l' r))
             else rotate_right_node (MapNode l k v r h))
      else if balance < - 1 then
        (case r of
           Absent \<Rightarrow> None
         | MapNode rl _ _ rr _ \<Rightarrow>
             if node_height rr < node_height rl
             then Option.bind (rotate_right_node r) (\<lambda>r'. rotate_left_node (map_node_new k v l r'))
             else rotate_left_node (MapNode l k v r h))
      else Some (MapNode l k v r h))"

fun insert_node ::
  "('k::linorder, 'v) map_node \<Rightarrow> 'k \<Rightarrow> 'v \<Rightarrow> (('k, 'v) map_node \<times> bool) option" where
  "insert_node Absent k v = Some (map_node_new k v Absent Absent, True)"
| "insert_node (MapNode l j w r h) k v =
     (if k = j then Some (MapNode l j w r h, False)
      else if k < j then
        Option.bind (insert_node l k v) (\<lambda>(l', inserted).
          if \<not> inserted then Some (MapNode l j w r h, False)
          else map_option (\<lambda>t. (t, True)) (rebalance (map_node_new j w l' r)))
      else
        Option.bind (insert_node r k v) (\<lambda>(r', inserted).
          if \<not> inserted then Some (MapNode l j w r h, False)
          else map_option (\<lambda>t. (t, True)) (rebalance (map_node_new j w l r'))))"

definition insert_absent ::
  "'k::linorder \<Rightarrow> 'v \<Rightarrow> ('k, 'v) persistent_map \<Rightarrow> (bool \<times> ('k, 'v) persistent_map) option" where
  "insert_absent k v m =
     map_option (\<lambda>(t, inserted). (inserted, if inserted then \<lparr>root = t, len = len m + 1\<rparr> else m))
       (insert_node (root m) k v)"

section \<open>The tree invariant\<close>

fun tree_entries :: "('k, 'v) map_node \<Rightarrow> ('k \<times> 'v) list" where
  "tree_entries Absent = []"
| "tree_entries (MapNode l k v r _) = tree_entries l @ (k, v) # tree_entries r"

fun tree_height :: "('k, 'v) map_node \<Rightarrow> nat" where
  "tree_height Absent = 0"
| "tree_height (MapNode l _ _ r _) = 1 + max (tree_height l) (tree_height r)"

text \<open>Stored heights are the heights, and siblings differ by at most one level.\<close>

fun balanced :: "('k, 'v) map_node \<Rightarrow> bool" where
  "balanced Absent = True"
| "balanced (MapNode l k v r h) \<longleftrightarrow>
     balanced l \<and> balanced r \<and> h = 1 + max (node_height l) (node_height r)
     \<and> node_height l \<le> node_height r + 1 \<and> node_height r \<le> node_height l + 1"

definition persistent_ok :: "('k::linorder, 'v) persistent_map \<Rightarrow> bool" where
  "persistent_ok m \<longleftrightarrow>
     balanced (root m) \<and> bt_sorted (tree_entries (root m)) \<and> len m = length (tree_entries (root m))"

lemma node_height_new [simp]: "node_height (map_node_new k v l r) = 1 + max (node_height l) (node_height r)"
  by (simp add: map_node_new_def)

lemma entries_new [simp]: "tree_entries (map_node_new k v l r) = tree_entries l @ (k, v) # tree_entries r"
  by (simp add: map_node_new_def)

lemma balanced_new [simp]:
  "balanced (map_node_new k v l r) \<longleftrightarrow>
     balanced l \<and> balanced r \<and> node_height l \<le> node_height r + 1 \<and> node_height r \<le> node_height l + 1"
  by (auto simp: map_node_new_def)

lemma balanced_height: "balanced t \<Longrightarrow> node_height t = tree_height t"
  by (induction t) auto

text \<open>The AVL bound: a balanced tree of height \<open>h\<close> holds at least \<open>2 ^ (h div 2) - 1\<close> entries.\<close>

lemma balanced_size: "balanced t \<Longrightarrow> 2 ^ (tree_height t div 2) \<le> length (tree_entries t) + 1"
proof (induction t)
  case (MapNode l k v r h)
  then have ih: "2 ^ (tree_height l div 2) \<le> length (tree_entries l) + 1"
    "2 ^ (tree_height r div 2) \<le> length (tree_entries r) + 1"
    and near: "tree_height l \<le> tree_height r + 1" "tree_height r \<le> tree_height l + 1"
    by (auto simp: balanced_height)
  let ?m = "min (tree_height l) (tree_height r)"
  have "(1 + max (tree_height l) (tree_height r)) div 2 \<le> Suc (?m div 2)"
    using near by (simp add: max_def min_def) presburger
  then have "(2 :: nat) ^ ((1 + max (tree_height l) (tree_height r)) div 2) \<le> 2 * 2 ^ (?m div 2)"
    by (metis power_Suc power_increasing one_le_numeral)
  moreover have "(2 :: nat) ^ (?m div 2) \<le> 2 ^ (tree_height l div 2)"
    "(2 :: nat) ^ (?m div 2) \<le> 2 ^ (tree_height r div 2)"
    by (auto intro!: power_increasing div_le_mono)
  ultimately have "2 ^ ((1 + max (tree_height l) (tree_height r)) div 2)
      \<le> length (tree_entries l) + 1 + (length (tree_entries r) + 1)"
    using ih by linarith
  then show ?case by simp
qed simp

section \<open>Rebalancing\<close>

text \<open>
  A node whose subtrees are balanced and differ by at most two levels is rebalanced without panic,
  keeps its entries and gets the taller subtree's height or one more.
\<close>

lemma rebalance_ok:
  assumes "balanced l" and "balanced r" and "node_height l \<le> node_height r + 2" and "node_height r \<le> node_height l + 2"
  shows "\<exists>t. rebalance (map_node_new k v l r) = Some t \<and> balanced t
    \<and> tree_entries t = tree_entries l @ (k, v) # tree_entries r
    \<and> max (node_height l) (node_height r) \<le> node_height t
    \<and> node_height t \<le> 1 + max (node_height l) (node_height r)
    \<and> (node_height l \<le> node_height r + 1 \<and> node_height r \<le> node_height l + 1 \<longrightarrow>
         t = map_node_new k v l r)"
proof -
  consider (fits) "node_height l \<le> node_height r + 1" "node_height r \<le> node_height l + 1"
    | (tall_left) "node_height l = node_height r + 2" | (tall_right) "node_height r = node_height l + 2"
    using assms(3,4) by linarith
  then show ?thesis
  proof cases
    case fits
    then show ?thesis using assms by (auto simp: map_node_new_def)
  next
    case tall_left
    then obtain ll lk lv lr lh where l: "l = MapNode ll lk lv lr lh" by (cases l) auto
    show ?thesis
      using assms tall_left unfolding l
      by (cases lr) (auto simp: map_node_new_def max_def split: if_splits)
  next
    case tall_right
    then obtain rl rk rv rr rh where r: "r = MapNode rl rk rv rr rh" by (cases r) auto
    show ?thesis
      using assms tall_right unfolding r
      by (cases rl) (auto simp: map_node_new_def max_def split: if_splits)
  qed
qed

section \<open>Insertion\<close>

lemma bt_sorted_split:
  "bt_sorted (xs @ (j, w) # ys) \<longleftrightarrow>
     bt_sorted xs \<and> bt_sorted ys \<and> (\<forall>(i, _) \<in> set xs. i < j) \<and> (\<forall>(i, _) \<in> set ys. j < i)"
  by (force simp: bt_sorted_def sorted_wrt_append intro: less_trans)

lemma bt_insert_before:
  "k < j \<Longrightarrow> bt_insert k v (xs @ (j, w) # ys) = bt_insert k v xs @ (j, w) # ys"
  by (induction xs) auto

lemma bt_insert_after:
  "\<forall>(i, _) \<in> set xs. i < k \<Longrightarrow> bt_insert k v (xs @ ys) = xs @ bt_insert k v ys"
  by (induction xs) auto

lemma insert_node_ok:
  assumes "balanced t" and "bt_sorted (tree_entries t)"
  shows "\<exists>t' inserted. insert_node t k v = Some (t', inserted) \<and> balanced t'
    \<and> (inserted \<longleftrightarrow> k \<notin> fst ` set (tree_entries t))
    \<and> tree_entries t' = (if inserted then bt_insert k v (tree_entries t) else tree_entries t)
    \<and> node_height t \<le> node_height t' \<and> node_height t' \<le> node_height t + 1"
  using assms
proof (induction t)
  case Absent
  then show ?case by (auto simp: map_node_new_def)
next
  case (MapNode l j w r h)
  note sorted = MapNode.prems(2) [simplified bt_sorted_split tree_entries.simps]
  consider "k = j" | "k < j" | "j < k" by fastforce
  then show ?case
  proof cases
    case 1
    with MapNode.prems show ?thesis by (intro exI [of _ "MapNode l j w r h"] exI [of _ False]) auto
  next
    case 2
    have not_right: "k \<notin> fst ` set (tree_entries r)" using sorted 2 by force
    from MapNode.IH(1) MapNode.prems sorted obtain l' ins where l': "insert_node l k v = Some (l', ins)"
      "balanced l'" "ins \<longleftrightarrow> k \<notin> fst ` set (tree_entries l)"
      "tree_entries l' = (if ins then bt_insert k v (tree_entries l) else tree_entries l)"
      "node_height l \<le> node_height l'" "node_height l' \<le> node_height l + 1" by auto
    from rebalance_ok [of l' r j w] l' MapNode.prems(1) obtain t where
      "rebalance (map_node_new j w l' r) = Some t" "balanced t"
      "tree_entries t = tree_entries l' @ (j, w) # tree_entries r"
      "max (node_height l') (node_height r) \<le> node_height t"
      "node_height t \<le> 1 + max (node_height l') (node_height r)"
      "node_height l' \<le> node_height r + 1 \<and> node_height r \<le> node_height l' + 1 \<longrightarrow> t = map_node_new j w l' r"
      by auto
    with l' MapNode.prems(1) 2 not_right show ?thesis
      by (cases ins) (auto simp: bt_insert_before)
  next
    case 3
    have not_left: "k \<notin> fst ` set (tree_entries l)" using sorted 3 by force
    from MapNode.IH(2) MapNode.prems sorted obtain r' ins where r': "insert_node r k v = Some (r', ins)"
      "balanced r'" "ins \<longleftrightarrow> k \<notin> fst ` set (tree_entries r)"
      "tree_entries r' = (if ins then bt_insert k v (tree_entries r) else tree_entries r)"
      "node_height r \<le> node_height r'" "node_height r' \<le> node_height r + 1" by auto
    from rebalance_ok [of l r' j w] r' MapNode.prems(1) obtain t where
      "rebalance (map_node_new j w l r') = Some t" "balanced t"
      "tree_entries t = tree_entries l @ (j, w) # tree_entries r'"
      "max (node_height l) (node_height r') \<le> node_height t"
      "node_height t \<le> 1 + max (node_height l) (node_height r')"
      "node_height l \<le> node_height r' + 1 \<and> node_height r' \<le> node_height l + 1 \<longrightarrow> t = map_node_new j w l r'"
      by auto
    moreover have "bt_insert k v (tree_entries l @ (j, w) # tree_entries r)
        = tree_entries l @ (j, w) # bt_insert k v (tree_entries r)"
      using bt_insert_after [of "tree_entries l @ [(j, w)]" k v "tree_entries r"] sorted 3
      by force
    ultimately show ?thesis
      using r' MapNode.prems(1) 3 not_left by (cases ins) auto
  qed
qed

lemma node_get_entries: "bt_sorted (tree_entries t) \<Longrightarrow> node_get t k = bt_get (tree_entries t) k"
proof (induction t)
  case (MapNode l j w r h)
  note sorted = MapNode.prems [simplified bt_sorted_split tree_entries.simps]
  have "j < k \<Longrightarrow> k \<notin> fst ` set (tree_entries l)" "k < j \<Longrightarrow> k \<notin> fst ` set (tree_entries r)"
    "j \<notin> fst ` set (tree_entries l)"
    using sorted by force+
  then have "j < k \<Longrightarrow> map_of (tree_entries l) k = None" "k < j \<Longrightarrow> map_of (tree_entries r) k = None"
    "map_of (tree_entries l) j = None"
    by (auto simp: map_of_eq_None_iff)
  then show ?case using MapNode.IH sorted
    by (auto simp: bt_get_def map_add_def split: option.splits)
qed (simp add: bt_get_def)

lemma length_bt_insert: "k \<notin> fst ` set m \<Longrightarrow> length (bt_insert k v m) = Suc (length m)"
  by (induction k v m rule: bt_insert.induct) auto

lemma insert_absent_ok:
  assumes "persistent_ok m"
  shows "\<exists>inserted m'. insert_absent k v m = Some (inserted, m') \<and> persistent_ok m'
    \<and> (inserted \<longleftrightarrow> persistent_get m k = None)
    \<and> tree_entries (root m') = (if inserted then bt_insert k v (tree_entries (root m)) else tree_entries (root m))"
proof -
  from assms have ok: "balanced (root m)" "bt_sorted (tree_entries (root m))"
    "len m = length (tree_entries (root m))" by (auto simp: persistent_ok_def)
  from insert_node_ok [OF ok(1,2), of k v] obtain t ins where
    t: "insert_node (root m) k v = Some (t, ins)" "balanced t" "ins \<longleftrightarrow> k \<notin> fst ` set (tree_entries (root m))"
    "tree_entries t = (if ins then bt_insert k v (tree_entries (root m)) else tree_entries (root m))" by blast
  have "persistent_get m k = None \<longleftrightarrow> k \<notin> fst ` set (tree_entries (root m))"
    using ok(2) by (simp add: persistent_get_def node_get_entries bt_get_def map_of_eq_None_iff)
  with t ok show ?thesis
    by (cases ins) (auto simp: insert_absent_def persistent_ok_def bt_sorted_insert length_bt_insert)
qed

section \<open>The interface\<close>

text \<open>A sequence of insertions, as a run of the engine makes them.\<close>

fun insert_all :: "('k \<Rightarrow> 'v \<Rightarrow> 'm \<Rightarrow> (bool \<times> 'm) option) \<Rightarrow> ('k \<times> 'v) list \<Rightarrow> 'm \<Rightarrow> 'm option" where
  "insert_all ins [] m = Some m"
| "insert_all ins ((k, v) # rest) m = Option.bind (ins k v m) (\<lambda>(_, m'). insert_all ins rest m')"

text \<open>
  A map that only takes absent keys. A provider whose insertions cannot fail also gives the map that
  the engine's clients see: inserting keeps what is there.
\<close>

locale absent_map =
  fixes empty :: "'m"
    and lookup :: "'m \<Rightarrow> 'k \<Rightarrow> 'v option"
    and insert :: "'k \<Rightarrow> 'v \<Rightarrow> 'm \<Rightarrow> (bool \<times> 'm) option"
    and inv :: "'m \<Rightarrow> bool"
  assumes inv_empty: "inv empty"
    and lookup_empty: "lookup empty k = None"
    and insert_total: "inv m \<Longrightarrow> \<exists>b m'. insert k v m = Some (b, m')"
    and insert_inv: "inv m \<Longrightarrow> insert k v m = Some (b, m') \<Longrightarrow> inv m'"
    and insert_flag: "inv m \<Longrightarrow> insert k v m = Some (b, m') \<Longrightarrow> b \<longleftrightarrow> lookup m k = None"
    and insert_lookup: "inv m \<Longrightarrow> insert k v m = Some (b, m') \<Longrightarrow>
      lookup m' j = (case lookup m j of Some w \<Rightarrow> Some w | None \<Rightarrow> if j = k then Some v else None)"
begin

lemma insert_all_lookup:
  "inv m \<Longrightarrow> \<exists>m'. insert_all insert xs m = Some m' \<and> inv m'
     \<and> (\<forall>j. lookup m' j = (case lookup m j of Some w \<Rightarrow> Some w | None \<Rightarrow> map_of xs j))"
proof (induction xs arbitrary: m)
  case (Cons e xs)
  obtain k v where e: "e = (k, v)" by (cases e)
  obtain b m1 where m1: "insert k v m = Some (b, m1)" using insert_total [OF Cons.prems] by blast
  from Cons.IH [OF insert_inv [OF Cons.prems m1]] obtain m' where m':
    "insert_all insert xs m1 = Some m'" "inv m'"
    "\<forall>j. lookup m' j = (case lookup m1 j of Some w \<Rightarrow> Some w | None \<Rightarrow> map_of xs j)" by blast
  then show ?case
    using insert_lookup [OF Cons.prems m1] e m1 by (auto split: option.splits)
qed (auto split: option.splits)

end

interpretation pmap: absent_map persistent_map_default persistent_get insert_absent persistent_ok
proof
  show "persistent_ok persistent_map_default"
    by (simp add: persistent_ok_def persistent_map_default_def bt_sorted_def)
  show "persistent_get persistent_map_default k = None" for k
    by (simp add: persistent_get_def persistent_map_default_def)
  fix m :: "('k::linorder, 'v) persistent_map" and k v b m'
  assume ok: "persistent_ok m"
  show "\<exists>b m'. insert_absent k v m = Some (b, m')" using insert_absent_ok [OF ok] by blast
  assume run: "insert_absent k v m = Some (b, m')"
  from insert_absent_ok [OF ok, of k v] run have m': "persistent_ok m'" "b \<longleftrightarrow> persistent_get m k = None"
    "tree_entries (root m') = (if b then bt_insert k v (tree_entries (root m)) else tree_entries (root m))"
    by auto
  then show "persistent_ok m'" "b \<longleftrightarrow> persistent_get m k = None" by simp_all
  have sorted: "bt_sorted (tree_entries (root m))" "bt_sorted (tree_entries (root m'))"
    using ok m'(1) by (simp_all add: persistent_ok_def)
  show "persistent_get m' j
      = (case persistent_get m j of Some w \<Rightarrow> Some w | None \<Rightarrow> if j = k then Some v else None)" for j
    using m'(2,3) sorted
    by (auto simp: persistent_get_def node_get_entries bt_get_insert split: option.splits)
qed

section \<open>Properties\<close>

text \<open>
  C18: inserting any sequence of entries into the empty persistent map never panics; the map then
  holds for every key the first value inserted for it, its entries are in strictly ascending key order
  and counted by \<open>len\<close>, and its tree is balanced.
\<close>

theorem persistent_map_correct:
  "\<exists>m. insert_all insert_absent xs persistent_map_default = Some m
     \<and> persistent_get m = map_of xs
     \<and> bt_sorted (tree_entries (root m)) \<and> len m = length (tree_entries (root m)) \<and> balanced (root m)"
  using pmap.insert_all_lookup [OF pmap.inv_empty, of xs]
  by (auto simp: pmap.lookup_empty persistent_ok_def)

text \<open>
  Heights fit their 32-bit field with room to spare: a valid map with fewer than \<open>2 ^ 64\<close> entries
  has a height below 130.
\<close>

theorem persistent_height_bounded:
  assumes "persistent_ok m" and "len m < 2 ^ 64"
  shows "node_height (root m) < 130"
proof (rule ccontr)
  assume "\<not> node_height (root m) < 130"
  with assms(1) have "65 \<le> tree_height (root m) div 2"
    by (simp add: persistent_ok_def balanced_height)
  then have "(2 :: nat) ^ 65 \<le> 2 ^ (tree_height (root m) div 2)" by (rule power_increasing) simp
  also have "\<dots> \<le> len m + 1" using assms(1) balanced_size [of "root m"] by (simp add: persistent_ok_def)
  finally show False using assms(2) by simp
qed

theorem persistent_height_bounded_witness: "node_height (root (persistent_map_default :: (nat, nat) persistent_map)) < 130"
  using persistent_height_bounded [OF pmap.inv_empty] by (simp add: persistent_map_default_def)

end
