(* ===== verification/Persistent_Vector.thy ===== *)
theory Persistent_Vector
  imports Prelude
begin

text \<open>
  The append-only persistent vector (\<^verbatim>\<open>nocter-persistent/src/vector.rs\<close>): a 32-way tree indexed by
  five bits per level. Lengths, indices and shifts are naturals; \<open>usize\<close> is 64 bits wide, which
  \<open>capacity\<close> writes out. The \<open>unreachable!\<close> and \<open>expect\<close> arms are the value \<open>None\<close> of the updating
  functions. The vector is shown to implement the list of its values.
\<close>

section \<open>Nodes\<close>

datatype 'a vector_node =
    Branch "'a vector_node option list"
  | Leaf "'a option list"

record 'a persistent_vector =
  root :: "'a vector_node"
  shift :: nat
  len :: nat

definition branch_bits :: nat where "branch_bits = 5"
definition branch_factor :: nat where "branch_factor = 32"

text \<open>\<open>(index >> shift) & BRANCH_MASK\<close>.\<close>

definition slot_at :: "nat \<Rightarrow> nat \<Rightarrow> nat" where
  "slot_at index s = (index div 2 ^ s) mod branch_factor"

definition empty_slots :: "'a option list" where
  "empty_slots = replicate branch_factor None"

definition vector_default :: "'a persistent_vector" where
  "vector_default = \<lparr>root = Leaf empty_slots, shift = 0, len = 0\<rparr>"

definition capacity :: "nat \<Rightarrow> nat" where
  "capacity s = (if s + branch_bits < 64 then 2 ^ (s + branch_bits) else 2 ^ 64 - 1)"

section \<open>Operations\<close>

function get_at :: "'a vector_node \<Rightarrow> nat \<Rightarrow> nat \<Rightarrow> 'a option" where
  "get_at node s index =
     (if 0 < s then
        (case node of
           Leaf _ \<Rightarrow> None
         | Branch children \<Rightarrow>
             (case children ! slot_at index s of
                None \<Rightarrow> None
              | Some child \<Rightarrow> get_at child (s - branch_bits) index))
      else
        (case node of
           Branch _ \<Rightarrow> None
         | Leaf values \<Rightarrow> values ! (index mod branch_factor)))"
  by pat_completeness auto
termination by (relation "measure (\<lambda>(_, s, _). s)") (auto simp: branch_bits_def)

declare get_at.simps [simp del]

definition vector_get :: "'a persistent_vector \<Rightarrow> nat \<Rightarrow> 'a option" where
  "vector_get v index = (if len v \<le> index then None else get_at (root v) (shift v) index)"

function new_path :: "nat \<Rightarrow> nat \<Rightarrow> 'a \<Rightarrow> 'a vector_node" where
  "new_path s index x =
     (if s = 0 then Leaf (empty_slots[index mod branch_factor := Some x])
      else Branch (empty_slots[slot_at index s := Some (new_path (s - branch_bits) index x)]))"
  by pat_completeness auto
termination by (relation "measure (\<lambda>(s, _, _). s)") (auto simp: branch_bits_def)

declare new_path.simps [simp del]

function push_at :: "'a vector_node \<Rightarrow> nat \<Rightarrow> nat \<Rightarrow> 'a \<Rightarrow> 'a vector_node option" where
  "push_at node s index x =
     (if s = 0 then
        (case node of
           Branch _ \<Rightarrow> None
         | Leaf current \<Rightarrow> Some (Leaf (current[index mod branch_factor := Some x])))
      else
        (case node of
           Leaf _ \<Rightarrow> None
         | Branch current \<Rightarrow>
             (let slot = slot_at index s in
              case current ! slot of
                Some child \<Rightarrow>
                  map_option (\<lambda>c. Branch (current[slot := Some c])) (push_at child (s - branch_bits) index x)
              | None \<Rightarrow> Some (Branch (current[slot := Some (new_path (s - branch_bits) index x)])))))"
  by pat_completeness auto
termination by (relation "measure (\<lambda>(_, s, _, _). s)") (auto simp: branch_bits_def)

declare push_at.simps [simp del]

definition vector_push :: "'a \<Rightarrow> 'a persistent_vector \<Rightarrow> 'a persistent_vector option" where
  "vector_push x v =
     (if len v = capacity (shift v)
      then Some \<lparr>root = Branch (empty_slots[0 := Some (root v), 1 := Some (new_path (shift v) (len v) x)]),
                 shift = shift v + branch_bits, len = len v + 1\<rparr>
      else map_option (\<lambda>r. v\<lparr>root := r, len := len v + 1\<rparr>) (push_at (root v) (shift v) (len v) x))"

function set_at :: "'a vector_node \<Rightarrow> nat \<Rightarrow> nat \<Rightarrow> 'a \<Rightarrow> 'a vector_node option" where
  "set_at node s index x =
     (if s = 0 then
        (case node of
           Branch _ \<Rightarrow> None
         | Leaf current \<Rightarrow> Some (Leaf (current[index mod branch_factor := Some x])))
      else
        (case node of
           Leaf _ \<Rightarrow> None
         | Branch current \<Rightarrow>
             (let slot = slot_at index s in
              case current ! slot of
                None \<Rightarrow> None
              | Some child \<Rightarrow>
                  map_option (\<lambda>c. Branch (current[slot := Some c])) (set_at child (s - branch_bits) index x))))"
  by pat_completeness auto
termination by (relation "measure (\<lambda>(_, s, _, _). s)") (auto simp: branch_bits_def)

declare set_at.simps [simp del]

text \<open>The outer option is the panic, the inner one the result of the sources.\<close>

definition vector_set :: "nat \<Rightarrow> 'a \<Rightarrow> 'a persistent_vector \<Rightarrow> (unit option \<times> 'a persistent_vector) option" where
  "vector_set index x v =
     (if len v \<le> index then Some (None, v)
      else map_option (\<lambda>r. (Some (), v\<lparr>root := r\<rparr>)) (set_at (root v) (shift v) index x))"

section \<open>What a tree stores\<close>

text \<open>
  A tree of depth \<open>d\<close> stores at most \<open>32 ^ (d + 1)\<close> values, densely from the left: child \<open>k\<close> is present
  exactly when there is a value for it and stores its block of them.
\<close>

definition span :: "nat \<Rightarrow> nat" where "span d = 32 ^ (d + 1)"

definition block :: "nat \<Rightarrow> nat \<Rightarrow> 'a list \<Rightarrow> 'a list" where
  "block d k xs = take (span d) (drop (k * span d) xs)"

fun stores :: "nat \<Rightarrow> 'a vector_node \<Rightarrow> 'a list \<Rightarrow> bool" where
  "stores 0 (Leaf vs) xs \<longleftrightarrow> length xs \<le> 32 \<and> vs = map Some xs @ replicate (32 - length xs) None"
| "stores 0 (Branch _) xs = False"
| "stores (Suc d) (Leaf _) xs = False"
| "stores (Suc d) (Branch cs) xs \<longleftrightarrow>
     length cs = 32 \<and> length xs \<le> span (Suc d)
     \<and> (\<forall>k < 32. case cs ! k of
          None \<Rightarrow> length xs \<le> k * span d
        | Some c \<Rightarrow> k * span d < length xs \<and> stores d c (block d k xs))"

definition holds :: "'a persistent_vector \<Rightarrow> 'a list \<Rightarrow> bool" where
  "holds v xs \<longleftrightarrow> len v = length xs \<and> (\<exists>d. shift v = 5 * d \<and> stores d (root v) xs)"

lemma span_Suc: "span (Suc d) = 32 * span d"
  by (simp add: span_def)

lemma span_pos [simp]: "0 < span d"
  by (simp add: span_def)

lemma span_shift: "span d = 2 ^ (5 * (d + 1))"
  by (simp add: span_def power_add power_mult)

lemma slot_at_span: "slot_at i (5 * Suc d) = i div span d mod 32"
  by (simp add: slot_at_def span_shift branch_factor_def)

lemma shift_down [simp]: "5 * Suc d - branch_bits = 5 * d"
  by (simp add: branch_bits_def)

lemma empty_slots_32: "empty_slots = replicate 32 None"
  by (simp add: empty_slots_def branch_factor_def)

text \<open>An index and a block of the values: the index is reduced to its place in the block.\<close>

lemma block_nth:
  assumes "i < length xs" and "length xs \<le> span (Suc d)"
  shows "i div span d < 32" and "i mod span d < length (block d (i div span d) xs)"
    and "block d (i div span d) xs ! (i mod span d) = xs ! i"
proof -
  have "i < 32 * span d" using assms by (simp add: span_Suc)
  then show "i div span d < 32" by (simp add: less_mult_imp_div_less)
  have i: "i div span d * span d + i mod span d = i" by simp
  then show "i mod span d < length (block d (i div span d) xs)"
    using assms(1) by (simp add: block_def) (metis i less_diff_conv add.commute)
  have "i div span d * span d \<le> length xs"
    using assms(1) by (metis div_times_less_eq_dividend less_imp_le order_trans)
  then show "block d (i div span d) xs ! (i mod span d) = xs ! i"
    using i by (simp add: block_def)
qed

text \<open>The two parts of an index at depth \<open>Suc d\<close>.\<close>

lemma index_split:
  "i div span d mod 32 = i mod span (Suc d) div span d" "i mod span d = i mod span (Suc d) mod span d"
proof -
  have "i mod span (Suc d) = span d * (i div span d mod 32) + i mod span d"
    by (simp add: span_Suc mult.commute [of 32] mod_mult2_eq)
  then show "i div span d mod 32 = i mod span (Suc d) div span d" "i mod span d = i mod span (Suc d) mod span d"
    by simp_all
qed

lemma stores_length: "stores d node xs \<Longrightarrow> length xs \<le> span d"
  by (cases d; cases node) (auto simp: span_def)

lemma stores_Suc:
  assumes "stores (Suc d) node xs"
  obtains cs where "node = Branch cs" and "length cs = 32"
    and "\<forall>k c. k < 32 \<longrightarrow> cs ! k = Some c \<longrightarrow> k * span d < length xs \<and> stores d c (block d k xs)"
    and "\<forall>k. k < 32 \<longrightarrow> cs ! k = None \<longrightarrow> length xs \<le> k * span d"
proof -
  obtain cs where "node = Branch cs" using assms by (cases node) auto
  then show thesis using assms by (intro that [of cs]) (auto split: option.splits)
qed

section \<open>Reading\<close>

lemma get_at_stores:
  "stores d node xs \<Longrightarrow>
     get_at node (5 * d) i = (if i mod span d < length xs then Some (xs ! (i mod span d)) else None)"
proof (induction d arbitrary: node xs)
  case 0
  then obtain vs where "node = Leaf vs" "vs = map Some xs @ replicate (32 - length xs) None" "length xs \<le> 32"
    by (cases node) auto
  moreover have "i mod 32 < 32" by simp
  ultimately show ?case by (simp add: get_at.simps branch_factor_def nth_append span_def)
next
  case (Suc d)
  obtain cs where cs: "node = Branch cs" "length cs = 32"
    "\<forall>k c. k < 32 \<longrightarrow> cs ! k = Some c \<longrightarrow> k * span d < length xs \<and> stores d c (block d k xs)"
    "\<forall>k. k < 32 \<longrightarrow> cs ! k = None \<longrightarrow> length xs \<le> k * span d"
    using stores_Suc [OF Suc.prems] by blast
  define j where "j = i mod span (Suc d)"
  let ?k = "j div span d"
  have j: "j < span (Suc d)" by (simp add: j_def)
  then have k: "?k < 32" by (simp add: span_Suc less_mult_imp_div_less)
  have split: "?k * span d + j mod span d = j" by simp
  have slot: "slot_at i (5 * Suc d) = ?k" by (simp only: slot_at_span index_split(1) j_def)
  have low: "i mod span d = j mod span d" unfolding j_def by (rule index_split(2))
  show ?case
  proof (cases "cs ! ?k")
    case None
    then have "length xs \<le> ?k * span d" using cs(4) k by blast
    then have "length xs \<le> j" using split by linarith
    then show ?thesis using None by (subst get_at.simps) (simp add: cs(1) slot j_def del: mult_Suc_right)
  next
    case (Some c)
    then have c: "stores d c (block d ?k xs)" using cs(3) k by blast
    have "j mod span d < length (block d ?k xs) \<longleftrightarrow> j < length xs"
      by (simp add: block_def) (use split in linarith)
    moreover have "block d ?k xs ! (j mod span d) = xs ! j" if "j < length xs"
      using block_nth(3) [OF that stores_length [OF Suc.prems]] .
    ultimately show ?thesis
      using Suc.IH [OF c] Some
      by (subst get_at.simps) (simp add: cs(1) slot low j_def [symmetric] del: mult_Suc_right)
  qed
qed

lemma holds_get: "holds v xs \<Longrightarrow> vector_get v i = (if i < length xs then Some (xs ! i) else None)"
proof -
  assume "holds v xs"
  then obtain d where d: "len v = length xs" "shift v = 5 * d" "stores d (root v) xs" by (auto simp: holds_def)
  have "i mod span d = i" if "i < length xs" using stores_length [OF d(3)] that by simp
  then show ?thesis using get_at_stores [OF d(3), of i] d(1,2) by (simp add: vector_get_def)
qed

section \<open>Appending\<close>

lemma block_append:
  assumes "length xs < span (Suc d)"
  shows "k < length xs div span d \<Longrightarrow> block d k (xs @ [x]) = block d k xs"
    and "k = length xs div span d \<Longrightarrow> block d k (xs @ [x]) = block d k xs @ [x]"
proof -
  let ?q = "length xs div span d"
  assume "k < ?q"
  then have "(k + 1) * span d \<le> ?q * span d" by (intro mult_le_mono1) simp
  also have "\<dots> \<le> length xs" by simp
  finally show "block d k (xs @ [x]) = block d k xs" by (simp add: block_def)
next
  assume k: "k = length xs div span d"
  have "length xs - k * span d = length xs mod span d" using k by (simp add: minus_div_mult_eq_mod)
  moreover have "length xs mod span d < span d" by simp
  moreover have "k * span d \<le> length xs" using k by simp
  moreover have "1 \<le> span d - length xs mod span d"
    using \<open>length xs mod span d < span d\<close> by linarith
  ultimately show "block d k (xs @ [x]) = block d k xs @ [x]" by (simp add: block_def)
qed

lemma length_block: "length (block d k xs) = min (length xs - k * span d) (span d)"
  by (simp add: block_def)

lemma new_path_stores: "i mod span d = 0 \<Longrightarrow> stores d (new_path (5 * d) i x) [x]"
proof (induction d)
  case 0
  then have "i mod 32 = 0" by (simp add: span_def)
  moreover have "replicate 32 None = (None :: 'a option) # replicate 31 None"
    using replicate_Suc [of 31 "None :: 'a option"] by simp
  ultimately show ?case
    by (simp add: new_path.simps branch_factor_def empty_slots_32)
next
  case (Suc d)
  have "slot_at i (5 * Suc d) = 0"
    using Suc.prems by (simp only: slot_at_span index_split(1)) simp
  have "i mod span d = 0"
    using Suc.prems index_split(2) [of i d] by simp
  from \<open>slot_at i (5 * Suc d) = 0\<close> have "new_path (5 * Suc d) i x = Branch (empty_slots[0 := Some (new_path (5 * d) i x)])"
    by (subst new_path.simps) (simp del: mult_Suc_right)
  moreover have "stores (Suc d) (Branch (empty_slots[0 := Some c])) [x]" if "stores d c [x]" for c
  proof -
    have one: "1 \<le> span d" "1 \<le> span (Suc d)"
      using span_pos [of d] span_pos [of "Suc d"] by linarith+
    then have first: "block d 0 [x] = [x]" unfolding block_def by (intro trans [OF take_all]) simp_all
    have "case empty_slots[0 := Some c] ! k of
        None \<Rightarrow> length [x] \<le> k * span d
      | Some c \<Rightarrow> k * span d < length [x] \<and> stores d c (block d k [x])" if "k < 32" for k
    proof (cases "k = 0")
      case True
      with \<open>stores d c [x]\<close> one first show ?thesis by (simp add: empty_slots_32)
    next
      case False
      then have "empty_slots[0 := Some c] ! k = None" using \<open>k < 32\<close> by (simp add: empty_slots_32)
      moreover have "length [x] \<le> k * span d" using False one(1) by (cases k) auto
      ultimately show ?thesis by simp
    qed
    with one(2) show ?thesis by (simp add: empty_slots_32)
  qed
  ultimately show ?case using Suc.IH [OF \<open>i mod span d = 0\<close>] by simp
qed

text \<open>Appending to the block the new index falls in extends the tree's list by one value.\<close>

lemma stores_append:
  assumes cs: "length cs = 32" and len: "length xs < span (Suc d)"
    and old: "\<forall>k < 32. case cs ! k of
          None \<Rightarrow> length xs \<le> k * span d
        | Some c \<Rightarrow> k * span d < length xs \<and> stores d c (block d k xs)"
    and new: "stores d c (block d (length xs div span d) xs @ [x])"
  shows "stores (Suc d) (Branch (cs[length xs div span d := Some c])) (xs @ [x])"
proof -
  let ?q = "length xs div span d"
  have q: "?q < 32" using len by (simp add: span_Suc less_mult_imp_div_less)
  have "case cs[?q := Some c] ! k of
      None \<Rightarrow> length (xs @ [x]) \<le> k * span d
    | Some c \<Rightarrow> k * span d < length (xs @ [x]) \<and> stores d c (block d k (xs @ [x]))" if k: "k < 32" for k
  proof -
    consider "k < ?q" | "k = ?q" | "?q < k" by linarith
    then show ?thesis
    proof cases
      case 1
      then have "k * span d < ?q * span d" by simp
      also have "\<dots> \<le> length xs" by simp
      finally have "k * span d < length xs" .
      with 1 show ?thesis
        using old [rule_format, OF k] block_append(1) [OF len 1] by (auto split: option.splits)
    next
      case 2
      have "?q * span d < length (xs @ [x])" by (simp add: less_Suc_eq_le)
      with 2 new cs q show ?thesis using block_append(2) [OF len refl] by simp
    next
      case 3
      have "length xs < (?q + 1) * span d" using dividend_less_div_times [of "span d" "length xs"] by simp
      also have "\<dots> \<le> k * span d" using 3 by (intro mult_le_mono1) simp
      finally have "length xs < k * span d" .
      with 3 show ?thesis using old [rule_format, OF k] by (auto split: option.splits)
    qed
  qed
  with cs len show ?thesis by simp
qed

lemma push_at_stores:
  "stores d node xs \<Longrightarrow> length xs < span d \<Longrightarrow> i mod span d = length xs \<Longrightarrow>
     \<exists>node'. push_at node (5 * d) i x = Some node' \<and> stores d node' (xs @ [x])"
proof (induction d arbitrary: node xs)
  case 0
  then obtain vs where vs: "node = Leaf vs" "vs = map Some xs @ replicate (32 - length xs) None"
    by (cases node) auto
  from 0 have l: "length xs < 32" "i mod 32 = length xs" by (simp_all add: span_def)
  then have "replicate (32 - length xs) None = (None :: 'a option) # replicate (32 - Suc (length xs)) None"
    by (metis Suc_diff_Suc replicate_Suc)
  then show ?case using vs l by (simp add: push_at.simps branch_factor_def list_update_append)
next
  case (Suc d)
  obtain cs where cs: "node = Branch cs" "length cs = 32"
    "\<forall>k c. k < 32 \<longrightarrow> cs ! k = Some c \<longrightarrow> k * span d < length xs \<and> stores d c (block d k xs)"
    "\<forall>k. k < 32 \<longrightarrow> cs ! k = None \<longrightarrow> length xs \<le> k * span d"
    using stores_Suc [OF Suc.prems(1)] by blast
  let ?q = "length xs div span d"
  have q: "?q < 32" using Suc.prems(2) by (simp add: span_Suc less_mult_imp_div_less)
  have slot: "slot_at i (5 * Suc d) = ?q" by (simp only: slot_at_span index_split(1) Suc.prems(3))
  have low: "i mod span d = length xs mod span d" using index_split(2) [of i d] Suc.prems(3) by simp
  have len: "length (block d ?q xs) = length xs mod span d"
    by (simp add: length_block minus_div_mult_eq_mod min_def not_le less_imp_le)
  have old: "\<forall>k < 32. case cs ! k of
          None \<Rightarrow> length xs \<le> k * span d
        | Some c \<Rightarrow> k * span d < length xs \<and> stores d c (block d k xs)"
    using cs(3,4) by (auto split: option.split)
  show ?case
  proof (cases "cs ! ?q")
    case None
    then have "length xs \<le> ?q * span d" using cs(4) q by blast
    then have "length xs mod span d = 0" by (simp add: modulo_nat_def)
    then have "block d ?q xs = []" "i mod span d = 0" using len low by simp_all
    then have "stores d (new_path (5 * d) i x) (block d ?q xs @ [x])" by (simp add: new_path_stores)
    from stores_append [OF cs(2) Suc.prems(2) old this] show ?thesis
      using None by (subst push_at.simps) (simp add: cs(1) slot Let_def del: mult_Suc_right stores.simps)
  next
    case (Some c)
    then have "stores d c (block d ?q xs)" using cs(3) q by blast
    from Suc.IH [OF this] len low obtain c' where
      c': "push_at c (5 * d) i x = Some c'" "stores d c' (block d ?q xs @ [x])" by auto
    from stores_append [OF cs(2) Suc.prems(2) old c'(2)] show ?thesis
      using Some c'(1) by (subst push_at.simps) (simp add: cs(1) slot Let_def del: mult_Suc_right stores.simps)
  qed
qed

text \<open>A full tree becomes the first child of a new root.\<close>

lemma grow_stores:
  assumes "stores d node xs" and "length xs = span d"
  shows "stores (Suc d) (Branch (empty_slots[0 := Some node, 1 := Some (new_path (5 * d) (length xs) x)])) (xs @ [x])"
proof -
  let ?cs = "empty_slots[0 := Some node]"
  have b: "block d 0 xs = xs" "block d 1 xs = []" using assms(2) by (simp_all add: block_def)
  have one: "length xs div span d = 1" using assms(2) by simp
  have "stores d (new_path (5 * d) (length xs) x) (block d (length xs div span d) xs @ [x])"
    unfolding one b(2) using assms(2) by (simp add: new_path_stores)
  moreover have "case ?cs ! k of None \<Rightarrow> length xs \<le> k * span d
      | Some c \<Rightarrow> k * span d < length xs \<and> stores d c (block d k xs)" if "k < 32" for k
  proof (cases "k = 0")
    case True
    with assms b show ?thesis by (simp add: empty_slots_32)
  next
    case False
    then show ?thesis using that assms(2) by (cases k) (simp_all add: empty_slots_32)
  qed
  moreover have "length xs < span (Suc d)" using assms(2) span_pos [of d] by (simp add: span_Suc del: span_pos)
  ultimately have "stores (Suc d) (Branch (?cs[length xs div span d :=
      Some (new_path (5 * d) (length xs) x)])) (xs @ [x])"
    by (intro stores_append) (simp_all add: empty_slots_32)
  then show ?thesis unfolding one .
qed

lemma holds_push:
  assumes "holds v xs" and "length xs < 2 ^ 60"
  shows "\<exists>v'. vector_push x v = Some v' \<and> holds v' (xs @ [x])"
proof -
  from assms(1) obtain d where d: "len v = length xs" "shift v = 5 * d" "stores d (root v) xs"
    by (auto simp: holds_def)
  note l = stores_length [OF d(3)]
  show ?thesis
  proof (cases "length xs = span d")
    case True
    then have "(2 :: nat) ^ (5 * (d + 1)) < 2 ^ 60"
      using assms(2) by (simp only: span_shift)
    then have "5 * (d + 1) < 60" by (rule power_less_imp_less_exp [rotated]) simp
    then have "5 * d + branch_bits < 64" by (simp add: branch_bits_def)
    then have "len v = capacity (shift v)"
      using True d by (simp add: capacity_def span_shift branch_bits_def add.commute)
    then show ?thesis using grow_stores [OF d(3) True, of x] d
      by (simp add: vector_push_def holds_def branch_bits_def del: stores.simps) (metis mult_Suc_right add.commute)
  next
    case False
    have "len v \<noteq> capacity (shift v)"
      using False d assms(2) by (auto simp: capacity_def span_shift branch_bits_def add.commute)
    moreover have "length xs < span d" using l False by simp
    ultimately show ?thesis
      using push_at_stores [OF d(3), of "length xs" x] d
      by (auto simp: vector_push_def holds_def)
  qed
qed

section \<open>Replacing\<close>

lemma block_update:
  assumes "j < length xs" and "length xs \<le> span (Suc d)"
  shows "block d k (xs[j := x]) = (if k = j div span d then (block d k xs)[j mod span d := x] else block d k xs)"
proof (rule nth_equalityI)
  show "length (block d k (xs[j := x]))
      = length (if k = j div span d then (block d k xs)[j mod span d := x] else block d k xs)"
    by (simp add: length_block)
  fix n assume "n < length (block d k (xs[j := x]))"
  then have n: "n < span d" "k * span d + n < length xs" by (auto simp: length_block)
  have "k = j div span d \<and> n = j mod span d \<longleftrightarrow> k * span d + n = j"
    using n(1) by auto
  then show "block d k (xs[j := x]) ! n
      = (if k = j div span d then (block d k xs)[j mod span d := x] else block d k xs) ! n"
    using n by (auto simp: block_def nth_list_update)
qed

lemma set_at_stores:
  "stores d node xs \<Longrightarrow> i mod span d < length xs \<Longrightarrow>
     \<exists>node'. set_at node (5 * d) i x = Some node' \<and> stores d node' (xs[i mod span d := x])"
proof (induction d arbitrary: node xs)
  case 0
  then obtain vs where vs: "node = Leaf vs" "vs = map Some xs @ replicate (32 - length xs) None"
    by (cases node) auto
  from 0 have "i mod 32 < length xs" "length xs \<le> 32" by (cases node; simp add: span_def)+
  then show ?case using vs
    by (simp add: set_at.simps branch_factor_def span_def list_update_append map_update)
next
  case (Suc d)
  obtain cs where cs: "node = Branch cs" "length cs = 32"
    "\<forall>k c. k < 32 \<longrightarrow> cs ! k = Some c \<longrightarrow> k * span d < length xs \<and> stores d c (block d k xs)"
    "\<forall>k. k < 32 \<longrightarrow> cs ! k = None \<longrightarrow> length xs \<le> k * span d"
    using stores_Suc [OF Suc.prems(1)] by blast
  define j where "j = i mod span (Suc d)"
  let ?q = "j div span d"
  have j: "j < length xs" "length xs \<le> span (Suc d)"
    using Suc.prems(2) stores_length [OF Suc.prems(1)] by (simp_all add: j_def)
  note blk = block_nth [OF j]
  have slot: "slot_at i (5 * Suc d) = ?q" by (simp only: slot_at_span index_split(1) j_def)
  have low: "i mod span d = j mod span d" unfolding j_def by (rule index_split(2))
  have "?q * span d \<le> j" by simp
  then have "\<not> length xs \<le> ?q * span d" using j(1) by linarith
  then obtain c where c: "cs ! ?q = Some c" using cs(4) blk(1) by (cases "cs ! ?q") blast+
  then have "stores d c (block d ?q xs)" using cs(3) blk(1) by blast
  from Suc.IH [OF this] blk(2) low obtain c' where
    c': "set_at c (5 * d) i x = Some c'" "stores d c' ((block d ?q xs)[j mod span d := x])" by auto
  have "case cs[?q := Some c'] ! k of
      None \<Rightarrow> length (xs[j := x]) \<le> k * span d
    | Some c \<Rightarrow> k * span d < length (xs[j := x]) \<and> stores d c (block d k (xs[j := x]))" if k: "k < 32" for k
  proof (cases "k = ?q")
    case True
    with c' cs(2) blk(1) \<open>\<not> length xs \<le> ?q * span d\<close> show ?thesis by (simp add: block_update [OF j])
  next
    case False
    with cs(3,4) k show ?thesis by (auto simp: block_update [OF j] split: option.split)
  qed
  then have "stores (Suc d) (Branch (cs[?q := Some c'])) (xs[j := x])" using cs(2) j(2) by simp
  then show ?case
    using c c'(1) by (subst set_at.simps)
      (simp add: cs(1) slot Let_def j_def [symmetric] del: mult_Suc_right stores.simps)
qed

lemma holds_set:
  assumes "holds v xs"
  shows "\<exists>v'. vector_set i x v = Some (if i < length xs then Some () else None, v') \<and> holds v' (xs[i := x])"
proof -
  from assms obtain d where d: "len v = length xs" "shift v = 5 * d" "stores d (root v) xs"
    by (auto simp: holds_def)
  show ?thesis
  proof (cases "i < length xs")
    case True
    then have "i mod span d = i" using stores_length [OF d(3)] by simp
    with set_at_stores [OF d(3), of i x] True d show ?thesis by (auto simp: vector_set_def holds_def)
  next
    case False
    with assms d show ?thesis by (simp add: vector_set_def list_update_beyond)
  qed
qed

lemma holds_default: "holds vector_default []"
  by (simp add: holds_def vector_default_def empty_slots_32)

section \<open>Iteration\<close>

text \<open>
  A frame is a node and the next slot to visit; the top of the stack comes first. An index beyond the
  32 slots would panic, which is \<open>None\<close>.
\<close>

datatype 'a vector_frame =
    BranchFrame "'a vector_node option list" nat
  | LeafFrame "'a option list" nat

fun frame_new :: "'a vector_node \<Rightarrow> 'a vector_frame" where
  "frame_new (Branch children) = BranchFrame children 0"
| "frame_new (Leaf values) = LeafFrame values 0"

record 'a vector_iter =
  frames :: "'a vector_frame list"
  remaining :: nat

definition vector_iter_new :: "'a persistent_vector \<Rightarrow> 'a vector_iter" where
  "vector_iter_new v = \<lparr>frames = [frame_new (root v)], remaining = len v\<rparr>"

fun weight :: "'a vector_node \<Rightarrow> nat" where
  "weight (Leaf vs) = Suc (length vs)"
| "weight (Branch cs) = Suc (sum_list (map (\<lambda>c. case c of None \<Rightarrow> 1 | Some n \<Rightarrow> Suc (weight n)) cs))"

definition slot_weight :: "'a vector_node option \<Rightarrow> nat" where
  "slot_weight c = (case c of None \<Rightarrow> 1 | Some n \<Rightarrow> Suc (weight n))"

fun frame_weight :: "'a vector_frame \<Rightarrow> nat" where
  "frame_weight (BranchFrame cs n) = Suc (sum_list (map slot_weight (drop n cs)))"
| "frame_weight (LeafFrame vs n) = Suc (length (drop n vs))"

lemma frame_weight_new [simp]: "frame_weight (frame_new node) = weight node"
  by (cases node) (auto simp: slot_weight_def cong: map_cong)

function iter_next :: "'a vector_frame list \<Rightarrow> nat \<Rightarrow> ('a option \<times> 'a vector_frame list \<times> nat) option" where
  "iter_next [] left = Some (None, [], left)"
| "iter_next (BranchFrame cs n # rest) left =
     (if n = branch_factor then iter_next rest left
      else case list_get cs n of
        None \<Rightarrow> None
      | Some None \<Rightarrow> iter_next (BranchFrame cs (n + 1) # rest) left
      | Some (Some child) \<Rightarrow> iter_next (frame_new child # BranchFrame cs (n + 1) # rest) left)"
| "iter_next (LeafFrame vs n # rest) left =
     (if n = branch_factor then iter_next rest left
      else case list_get vs n of
        None \<Rightarrow> None
      | Some None \<Rightarrow> iter_next (LeafFrame vs (n + 1) # rest) left
      | Some (Some x) \<Rightarrow> Some (Some x, LeafFrame vs (n + 1) # rest, left - 1))"
  by pat_completeness auto
termination
proof (relation "measure (\<lambda>(fs, _). sum_list (map frame_weight fs))", goal_cases)
  case (3 cs n rest left a)
  then show ?case by (simp add: Cons_nth_drop_Suc [symmetric] slot_weight_def)
next
  case (4 cs n rest left a child)
  then show ?case by (simp add: Cons_nth_drop_Suc [symmetric] slot_weight_def)
next
  case (6 vs n rest left a)
  then show ?case by (simp add: Cons_nth_drop_Suc [symmetric])
qed auto

declare iter_next.simps(2,3) [simp del]

text \<open>What a loop over the iterator sees in its first \<open>n\<close> calls.\<close>

fun collect_items :: "nat \<Rightarrow> 'a vector_frame list \<Rightarrow> nat \<Rightarrow> 'a list option" where
  "collect_items 0 fs left = None"
| "collect_items (Suc n) fs left =
     (case iter_next fs left of
        None \<Rightarrow> None
      | Some (None, _, _) \<Rightarrow> Some []
      | Some (Some x, fs', left') \<Rightarrow> map_option (\<lambda>xs. x # xs) (collect_items n fs' left'))"

fun node_values :: "'a vector_node \<Rightarrow> 'a list" where
  "node_values (Leaf vs) = List.map_filter id vs"
| "node_values (Branch cs) = concat (map (\<lambda>c. case c of None \<Rightarrow> [] | Some n \<Rightarrow> node_values n) cs)"

definition slot_values :: "'a vector_node option \<Rightarrow> 'a list" where
  "slot_values c = (case c of None \<Rightarrow> [] | Some n \<Rightarrow> node_values n)"

fun shaped :: "'a vector_node \<Rightarrow> bool" where
  "shaped (Leaf vs) \<longleftrightarrow> length vs = 32"
| "shaped (Branch cs) \<longleftrightarrow> length cs = 32 \<and> list_all (\<lambda>c. case c of None \<Rightarrow> True | Some n \<Rightarrow> shaped n) cs"

fun frame_shaped :: "'a vector_frame \<Rightarrow> bool" where
  "frame_shaped (LeafFrame vs n) \<longleftrightarrow> length vs = 32 \<and> n \<le> 32"
| "frame_shaped (BranchFrame cs n) \<longleftrightarrow> length cs = 32 \<and> n \<le> 32 \<and> (\<forall>c. Some c \<in> set cs \<longrightarrow> shaped c)"

fun frame_values :: "'a vector_frame \<Rightarrow> 'a list" where
  "frame_values (LeafFrame vs n) = List.map_filter id (drop n vs)"
| "frame_values (BranchFrame cs n) = concat (map slot_values (drop n cs))"

lemma frame_new_simps [simp]:
  "frame_shaped (frame_new node) = shaped node" "frame_values (frame_new node) = node_values node"
  by (cases node; auto simp: list_all_iff slot_values_def [abs_def] split: option.splits)+

text \<open>One call yields the first pending value and leaves the others pending.\<close>

lemma iter_next_ok:
  assumes "list_all frame_shaped fs"
  shows "case concat (map frame_values fs) of
      [] \<Rightarrow> iter_next fs left = Some (None, [], left)
    | x # ys \<Rightarrow> \<exists>fs'. iter_next fs left = Some (Some x, fs', left - 1)
        \<and> list_all frame_shaped fs' \<and> concat (map frame_values fs') = ys"
  using assms
proof (induction fs left rule: iter_next.induct)
  case (2 cs n rest left)
  show ?case
  proof (cases "n = 32")
    case True
    then have step: "iter_next (BranchFrame cs n # rest) left = iter_next rest left"
      by (subst iter_next.simps) (simp add: branch_factor_def list_get_def)
    from 2 True show ?thesis unfolding step by (simp add: branch_factor_def)
  next
    case False
    with "2.prems" have n: "n < length cs" "length cs = 32" by auto
    then have d: "drop n cs = cs ! n # drop (Suc n) cs" by (simp add: Cons_nth_drop_Suc)
    show ?thesis
    proof (cases "cs ! n")
      case None
      then have step: "iter_next (BranchFrame cs n # rest) left = iter_next (BranchFrame cs (n + 1) # rest) left"
        using n False by (subst iter_next.simps) (simp add: branch_factor_def list_get_def)
      from 2 n d False None show ?thesis unfolding step by (simp add: branch_factor_def slot_values_def)
    next
      case (Some c)
      then have step: "iter_next (BranchFrame cs n # rest) left
          = iter_next (frame_new c # BranchFrame cs (n + 1) # rest) left"
        using n False by (subst iter_next.simps) (simp add: branch_factor_def list_get_def)
      have "shaped c"
        using Some [symmetric] nth_mem [OF n(1)] "2.prems" by simp
      with 2 n d False Some show ?thesis unfolding step by (simp add: branch_factor_def slot_values_def)
    qed
  qed
next
  case (3 vs n rest left)
  show ?case
  proof (cases "n = 32")
    case True
    then have step: "iter_next (LeafFrame vs n # rest) left = iter_next rest left"
      by (subst iter_next.simps) (simp add: branch_factor_def list_get_def)
    from 3 True show ?thesis unfolding step by (simp add: branch_factor_def List.map_filter_simps)
  next
    case False
    with "3.prems" have n: "n < length vs" "length vs = 32" by auto
    then have d: "drop n vs = vs ! n # drop (Suc n) vs" by (simp add: Cons_nth_drop_Suc)
    show ?thesis
    proof (cases "vs ! n")
      case None
      then have step: "iter_next (LeafFrame vs n # rest) left = iter_next (LeafFrame vs (n + 1) # rest) left"
        using n False by (subst iter_next.simps) (simp add: branch_factor_def list_get_def)
      from 3 n d False None show ?thesis unfolding step by (simp add: branch_factor_def List.map_filter_simps)
    next
      case (Some x)
      then have step: "iter_next (LeafFrame vs n # rest) left = Some (Some x, LeafFrame vs (n + 1) # rest, left - 1)"
        using n False by (subst iter_next.simps) (simp add: branch_factor_def list_get_def)
      from 3 n d False Some show ?thesis unfolding step by (simp add: branch_factor_def List.map_filter_simps)
    qed
  qed
qed simp

lemma collect_items_ok:
  "list_all frame_shaped fs \<Longrightarrow> length (concat (map frame_values fs)) < n \<Longrightarrow>
     collect_items n fs left = Some (concat (map frame_values fs))"
proof (induction n arbitrary: fs left)
  case (Suc n)
  show ?case
  proof (cases "concat (map frame_values fs)")
    case Nil
    with iter_next_ok [OF Suc.prems(1), of left] show ?thesis by simp
  next
    case (Cons x ys)
    with iter_next_ok [OF Suc.prems(1), of left] obtain fs' where
      "iter_next fs left = Some (Some x, fs', left - 1)" "list_all frame_shaped fs'"
      "concat (map frame_values fs') = ys" by auto
    with Suc.IH [of fs' "left - 1"] Suc.prems(2) Cons show ?thesis by simp
  qed
qed simp

lemma concat_blocks: "concat (map (\<lambda>k. block d k xs) [0..<n]) = take (n * span d) xs"
proof (induction n)
  case (Suc n)
  have "take (Suc n * span d) xs = take (n * span d) xs @ take (span d) (drop (n * span d) xs)"
    by (simp add: take_add [symmetric] add.commute)
  with Suc show ?case by (simp add: block_def)
qed simp

lemma stores_values: "stores d node xs \<Longrightarrow> node_values node = xs \<and> shaped node"
proof (induction d arbitrary: node xs)
  case 0
  then obtain vs where "node = Leaf vs" "vs = map Some xs @ replicate (32 - length xs) None" "length xs \<le> 32"
    by (cases node) auto
  moreover have "List.map_filter id (map Some xs @ replicate m None) = xs" for m
    by (induction xs) (simp_all add: List.map_filter_simps List.map_filter_def)
  ultimately show ?case by simp
next
  case (Suc d)
  obtain cs where cs: "node = Branch cs" "length cs = 32"
    "\<forall>k c. k < 32 \<longrightarrow> cs ! k = Some c \<longrightarrow> k * span d < length xs \<and> stores d c (block d k xs)"
    "\<forall>k. k < 32 \<longrightarrow> cs ! k = None \<longrightarrow> length xs \<le> k * span d"
    using stores_Suc [OF Suc.prems] by blast
  have "slot_values (cs ! k) = block d k xs" if "k < 32" for k
    using cs(3,4) that Suc.IH by (cases "cs ! k") (auto simp: slot_values_def block_def)
  then have "map slot_values cs = map (\<lambda>k. block d k xs) [0..<32]"
    using cs(2) by (intro nth_equalityI) simp_all
  then have "node_values node = take (32 * span d) xs"
    by (simp add: cs(1) slot_values_def [abs_def, symmetric] concat_blocks)
  moreover have "shaped node"
    using cs(1-3) Suc.IH by (auto simp: list_all_length split: option.splits)
  ultimately show ?case using stores_length [OF Suc.prems] by (simp add: span_Suc)
qed

lemma holds_items:
  assumes "holds v xs"
  shows "collect_items (Suc (len v)) (frames (vector_iter_new v)) (remaining (vector_iter_new v)) = Some xs"
proof -
  from assms obtain d where d: "len v = length xs" "stores d (root v) xs" by (auto simp: holds_def)
  from stores_values [OF d(2)] collect_items_ok [of "[frame_new (root v)]" "Suc (len v)" "len v"] d(1)
  show ?thesis by (simp add: vector_iter_new_def del: collect_items.simps)
qed

section \<open>The interface\<close>

text \<open>What a client of an indexed sequence relies on: it stands for a list.\<close>

locale sequence_interface =
  fixes stands :: "'s \<Rightarrow> 'a list \<Rightarrow> bool"
    and empty :: 's
    and get :: "'s \<Rightarrow> nat \<Rightarrow> 'a option"
    and push :: "'a \<Rightarrow> 's \<Rightarrow> 's option"
    and limit :: nat
  assumes stands_empty: "stands empty []"
    and stands_get: "stands s xs \<Longrightarrow> get s i = (if i < length xs then Some (xs ! i) else None)"
    and stands_push: "stands s xs \<Longrightarrow> length xs < limit \<Longrightarrow> \<exists>s'. push x s = Some s' \<and> stands s' (xs @ [x])"
begin

lemma push_run:
  "stands s xs \<Longrightarrow> length xs + length ys \<le> limit \<Longrightarrow>
     \<exists>s'. fold (\<lambda>y r. Option.bind r (push y)) ys (Some s) = Some s' \<and> stands s' (xs @ ys)"
proof (induction ys arbitrary: s xs)
  case (Cons y ys)
  then obtain t where "push y s = Some t" "stands t (xs @ [y])" using stands_push [of s xs y] by auto
  with Cons.IH [of t "xs @ [y]"] Cons.prems(2) show ?case by simp
qed simp

text \<open>Two sequences that stand for the same list cannot be told apart by reading.\<close>

lemma get_unique: "stands s xs \<Longrightarrow> stands t xs \<Longrightarrow> get s = get t"
  by (simp add: fun_eq_iff stands_get)

lemma stands_unique:
  assumes "stands s xs" and "stands s ys"
  shows "xs = ys"
proof -
  have eq: "(if i < length xs then Some (xs ! i) else None) = (if i < length ys then Some (ys ! i) else None)" for i
    using stands_get [OF assms(1), of i] stands_get [OF assms(2), of i] by simp
  have lt: "i < length xs \<longleftrightarrow> i < length ys" for i using eq [of i] by (auto split: if_splits)
  have "length xs = length ys" using lt [of "length xs"] lt [of "length ys"] by auto
  moreover have "xs ! i = ys ! i" if "i < length xs" for i using eq [of i] lt [of i] that by auto
  ultimately show ?thesis by (intro nth_equalityI) auto
qed

end

interpretation pvec: sequence_interface holds vector_default vector_get vector_push "2 ^ 60"
  by unfold_locales (auto simp: holds_default holds_get holds_push)

section \<open>Properties\<close>



text \<open>
  a vector that stands for a list stands for the updated list after \<open>set\<close>; an index out of range
  changes nothing and is reported; no internal path is ever missing.
\<close>

theorem persistent_vector_set:
  assumes "holds v xs"
  shows "\<exists>v'. vector_set i x v = Some (if i < length xs then Some () else None, v') \<and> holds v' (xs[i := x])"
  using assms by (rule holds_set)

theorem persistent_vector_set_witness:
  "\<exists>v'. vector_set 3 (5 :: nat) vector_default = Some (None, v') \<and> holds v' []"
  using persistent_vector_set [OF holds_default, of 3 "5 :: nat"] by simp

end
