(* ===== verification/Generational_Arena.thy ===== *)
theory Generational_Arena
  imports Prelude
begin

text \<open>
  Slot tables with generations, as the task scheduler keeps two of them
  (\<^verbatim>\<open>nocter-task-runtime/src/scheduler.rs\<close>): a vector of slots, each with the generation that owns it and
  an optional content, and the stack of free slots. An identity is a slot paired with a generation; a
  slot is freed under the next generation, or retired when the 32-bit generation is exhausted. The
  theory shows that an identity is issued at most once and stays dead after its release.
\<close>

record 'a arena =
  slots :: "(nat \<times> 'a option) list"
  free_slots :: "nat list"

definition id_limit :: nat where "id_limit = 2 ^ 32"

definition arena_empty :: "'a arena" where
  "arena_empty = \<lparr>slots = [], free_slots = []\<rparr>"

datatype key = Key (slot_of: nat) (generation_of: nat)

text \<open>Identities are ordered by slot, then generation, as the sources derive it.\<close>

instantiation key :: linorder
begin

definition less_eq_key :: "key \<Rightarrow> key \<Rightarrow> bool" where
  "less_eq_key a b \<longleftrightarrow>
     slot_of a < slot_of b \<or> slot_of a = slot_of b \<and> generation_of a \<le> generation_of b"

definition less_key :: "key \<Rightarrow> key \<Rightarrow> bool" where
  "less_key a b \<longleftrightarrow>
     slot_of a < slot_of b \<or> slot_of a = slot_of b \<and> generation_of a < generation_of b"

instance
  by standard (auto simp: less_eq_key_def less_key_def key.expand)

end

definition arena_get :: "'a arena \<Rightarrow> key \<Rightarrow> 'a option" where
  "arena_get a k =
     (case list_get (slots a) (slot_of k) of
        None \<Rightarrow> None
      | Some (generation, content) \<Rightarrow> if generation = generation_of k then content else None)"

text \<open>The last freed slot is reused first; a new slot has generation 0.\<close>

definition arena_alloc :: "'a \<Rightarrow> 'a arena \<Rightarrow> (key \<times> 'a arena) option" where
  "arena_alloc x a =
     (case free_slots a of
        slot # rest \<Rightarrow>
          let generation = fst (slots a ! slot) in
          Some (Key slot generation, \<lparr>slots = (slots a)[slot := (generation, Some x)], free_slots = rest\<rparr>)
      | [] \<Rightarrow>
          if length (slots a) < id_limit
          then Some (Key (length (slots a)) 0, a\<lparr>slots := slots a @ [(0, Some x)]\<rparr>)
          else None)"

definition arena_set :: "key \<Rightarrow> 'a option \<Rightarrow> 'a arena \<Rightarrow> 'a arena" where
  "arena_set k content a = a\<lparr>slots := (slots a)[slot_of k := (fst (slots a ! slot_of k), content)]\<rparr>"

definition arena_release :: "nat \<Rightarrow> 'a arena \<Rightarrow> 'a arena" where
  "arena_release slot a =
     (let generation = fst (slots a ! slot) in
      if generation + 1 < id_limit
      then \<lparr>slots = (slots a)[slot := (generation + 1, None)], free_slots = slot # free_slots a\<rparr>
      else a\<lparr>slots := (slots a)[slot := (generation, None)]\<rparr>)"

section \<open>Invariant and issued identities\<close>

definition arena_ok :: "'a arena \<Rightarrow> bool" where
  "arena_ok a \<longleftrightarrow>
     distinct (free_slots a) \<and> length (slots a) \<le> id_limit
     \<and> (\<forall>s \<in> set (free_slots a). s < length (slots a) \<and> snd (slots a ! s) = None)
     \<and> (\<forall>s < length (slots a). fst (slots a ! s) < id_limit)"

text \<open>An identity has been issued when its slot has moved past it or holds it now.\<close>

definition issued :: "'a arena \<Rightarrow> key \<Rightarrow> bool" where
  "issued a k \<longleftrightarrow>
     slot_of k < length (slots a)
     \<and> (generation_of k < fst (slots a ! slot_of k) \<or> generation_of k = fst (slots a ! slot_of k) \<and> slot_of k \<notin> set (free_slots a))"

lemma key_eq_iff: "k = j \<longleftrightarrow> slot_of k = slot_of j \<and> generation_of k = generation_of j"
  by (cases k; cases j) simp

lemma arena_ok_empty [simp]: "arena_ok arena_empty"
  by (simp add: arena_ok_def arena_empty_def)

lemma arena_get_empty [simp]: "arena_get arena_empty k = None"
  by (simp add: arena_get_def arena_empty_def list_get_def)

lemma arena_get_Some:
  "arena_get a k = Some x \<longleftrightarrow> slot_of k < length (slots a) \<and> slots a ! slot_of k = (generation_of k, Some x)"
  by (auto simp: arena_get_def split: option.splits prod.splits)

lemma live_issued: "arena_ok a \<Longrightarrow> arena_get a k = Some x \<Longrightarrow> issued a k"
  by (auto simp: arena_get_Some issued_def arena_ok_def)

lemma arena_get_eq:
  "arena_get a k = (if slot_of k < length (slots a) \<and> fst (slots a ! slot_of k) = generation_of k then snd (slots a ! slot_of k) else None)"
  by (auto simp: arena_get_def list_get_def split: prod.splits)

text \<open>Two live identities of one slot are the same.\<close>

lemma live_same_slot:
  "arena_get a k = Some x \<Longrightarrow> arena_get a j = Some y \<Longrightarrow> slot_of k = slot_of j \<Longrightarrow> k = j"
  by (auto simp: arena_get_Some key_eq_iff)

section \<open>Allocation\<close>

lemma arena_alloc_ok:
  assumes ok: "arena_ok a" and alloc: "arena_alloc x a = Some (k, a')"
  shows "arena_ok a'" and "\<not> issued a k" and "arena_get a k = None"
    and "arena_get a' j = (if j = k then Some x else arena_get a j)"
    and "issued a' j \<longleftrightarrow> j = k \<or> issued a j"
proof -
  have "arena_ok a' \<and> \<not> issued a k \<and> arena_get a k = None
    \<and> (\<forall>j. arena_get a' j = (if j = k then Some x else arena_get a j)) \<and> (\<forall>j. issued a' j \<longleftrightarrow> j = k \<or> issued a j)"
  proof (cases "free_slots a")
    case Nil
    with alloc have k: "k = Key (length (slots a)) 0" "a' = a\<lparr>slots := slots a @ [(0, Some x)]\<rparr>"
      and lt: "length (slots a) < id_limit"
      by (auto simp: arena_alloc_def split: if_splits)
    have "0 < id_limit" by (simp add: id_limit_def)
    with ok Nil lt show ?thesis
      by (auto simp: k arena_ok_def issued_def arena_get_eq nth_append key_eq_iff less_Suc_eq)
  next
    case (Cons slot rest)
    let ?g = "fst (slots a ! slot)"
    from alloc Cons have k: "k = Key slot ?g"
      "a' = \<lparr>slots = (slots a)[slot := (?g, Some x)], free_slots = rest\<rparr>"
      by (auto simp: arena_alloc_def Let_def)
    from ok Cons have slot: "slot < length (slots a)" "snd (slots a ! slot) = None" "slot \<notin> set rest"
      by (auto simp: arena_ok_def)
    from ok Cons slot show ?thesis
      by (auto simp: k arena_ok_def issued_def arena_get_eq nth_list_update key_eq_iff)
  qed
  then show "arena_ok a'" "\<not> issued a k" "arena_get a k = None"
    "arena_get a' j = (if j = k then Some x else arena_get a j)" "issued a' j \<longleftrightarrow> j = k \<or> issued a j"
    by blast+
qed

section \<open>Update and release\<close>

lemma arena_set_ok:
  assumes "arena_ok a" and "arena_get a k = Some x"
  shows "arena_ok (arena_set k (Some y) a)"
    and "arena_get (arena_set k (Some y) a) j = (if j = k then Some y else arena_get a j)"
    and "issued (arena_set k (Some y) a) j = issued a j"
  using assms
  by (auto simp: arena_ok_def issued_def arena_get_eq arena_set_def nth_list_update key_eq_iff split: if_splits)

lemma arena_release_ok:
  assumes "arena_ok a" and "arena_get a k = Some x"
  shows "arena_ok (arena_release (slot_of k) a)"
    and "arena_get (arena_release (slot_of k) a) j = (if j = k then None else arena_get a j)"
    and "issued (arena_release (slot_of k) a) j = issued a j"
proof -
  from assms(2) have k: "slot_of k < length (slots a)" "slots a ! slot_of k = (generation_of k, Some x)"
    by (simp_all add: arena_get_Some)
  then have "slot_of k \<notin> set (free_slots a)" using assms(1) by (auto simp: arena_ok_def)
  with assms(1) k show "arena_ok (arena_release (slot_of k) a)"
    "arena_get (arena_release (slot_of k) a) j = (if j = k then None else arena_get a j)"
    "issued (arena_release (slot_of k) a) j = issued a j"
    by (auto simp: arena_ok_def issued_def arena_get_eq arena_release_def Let_def nth_list_update key_eq_iff
        less_Suc_eq split: if_splits)
qed

end
