(* ===== verification/Task_Scheduler.thy ===== *)
theory Task_Scheduler
  imports Generational_Arena "HOL-Library.Product_Lexorder"
begin

text \<open>
  The single-threaded task scheduler of the asynchronous runtime
  (\<^verbatim>\<open>nocter-task-runtime/src/scheduler.rs\<close>, \<open>identity.rs\<close>, \<open>reactor.rs\<close>). Tasks and reactor registrations
  live in generational slot tables; a vector of slots and its free stack are one arena here. The reactor
  is the trait parameter of the sources: a state and three operations on it. Every operation takes the
  scheduler and returns its result with the scheduler it leaves behind, also when it fails.
\<close>

section \<open>State\<close>

type_synonym task_id = key
type_synonym registration_id = key

datatype cancellation_kind = PendingFrame | CompletedOutput

datatype task_state =
    StateRunnable | StateRunning | StateWaiting | StateCompleted | StateCancelling cancellation_kind

datatype task_slot_state =
    Runnable | Running | Waiting "registration_id list" | Completed | Cancelling cancellation_kind

fun public_state :: "task_slot_state \<Rightarrow> task_state" where
  "public_state Runnable = StateRunnable"
| "public_state Running = StateRunning"
| "public_state (Waiting _) = StateWaiting"
| "public_state Completed = StateCompleted"
| "public_state (Cancelling kind) = StateCancelling kind"

datatype scheduler_progress = Resume task_id | Idle

datatype 'e scheduler_error =
    UnknownTask task_id
  | InvalidTaskState task_id task_state
  | EmptyWaitSet task_id
  | CapacityExhausted
  | ReactorError 'e

text \<open>The reactor trait. Waiting may block for ever, which is the result \<open>None\<close>.\<close>

record ('r, 'i, 'e) reactor_ops =
  reactor_register :: "registration_id \<Rightarrow> 'i \<Rightarrow> 'r \<Rightarrow> ('e + unit) \<times> 'r"
  reactor_deregister :: "registration_id \<Rightarrow> 'i \<Rightarrow> 'r \<Rightarrow> 'r"
  reactor_wait :: "'r \<Rightarrow> (('e + registration_id list) \<times> 'r) option"

record ('r, 'i) scheduler =
  reactor :: 'r
  tasks :: "task_slot_state arena"
  registrations :: "(task_id \<times> 'i) arena"
  runnable :: "task_id list"

definition scheduler_new :: "'r \<Rightarrow> ('r, 'i) scheduler" where
  "scheduler_new r = \<lparr>reactor = r, tasks = arena_empty, registrations = arena_empty, runnable = []\<rparr>"

type_synonym ('r, 'i, 'e, 'a) scheduler_result = "('e scheduler_error + 'a) \<times> ('r, 'i) scheduler"

definition task_state_of :: "('r, 'i) scheduler \<Rightarrow> task_id \<Rightarrow> task_state option" where
  "task_state_of s t = map_option public_state (arena_get (tasks s) t)"

definition has_progress_source :: "('r, 'i) scheduler \<Rightarrow> bool" where
  "has_progress_source s \<longleftrightarrow>
     list_ex (\<lambda>(_, content). case content of Some Runnable \<Rightarrow> True | Some (Waiting _) \<Rightarrow> True | _ \<Rightarrow> False)
       (slots (tasks s))"

definition has_active_registration :: "('r, 'i) scheduler \<Rightarrow> bool" where
  "has_active_registration s \<longleftrightarrow> list_ex (\<lambda>(_, content). content \<noteq> None) (slots (registrations s))"

section \<open>Task states\<close>

definition require_state ::
  "task_id \<Rightarrow> task_state \<Rightarrow> ('r, 'i) scheduler \<Rightarrow> 'e scheduler_error + unit" where
  "require_state t expected s =
     (case task_state_of s t of
        None \<Rightarrow> Inl (UnknownTask t)
      | Some actual \<Rightarrow> if actual \<noteq> expected then Inl (InvalidTaskState t actual) else Inr ())"

text \<open>\<open>task_slot_mut\<close> finds the slot when its generation matches, whatever its content.\<close>

definition owns_slot :: "('r, 'i) scheduler \<Rightarrow> task_id \<Rightarrow> bool" where
  "owns_slot s t \<longleftrightarrow> (case list_get (slots (tasks s)) (slot_of t) of None \<Rightarrow> False | Some (g, _) \<Rightarrow> g = generation_of t)"

definition store_state ::
  "task_id \<Rightarrow> task_slot_state \<Rightarrow> ('r, 'i) scheduler \<Rightarrow> ('r, 'i, 'e, unit) scheduler_result" where
  "store_state t st s =
     (if owns_slot s t then (Inr (), s\<lparr>tasks := arena_set t (Some st) (tasks s)\<rparr>)
      else (Inl (UnknownTask t), s))"

definition take_state ::
  "task_id \<Rightarrow> ('r, 'i) scheduler \<Rightarrow> ('r, 'i, 'e, task_slot_state) scheduler_result" where
  "take_state t s =
     (case arena_get (tasks s) t of
        None \<Rightarrow> (Inl (UnknownTask t), s)
      | Some st \<Rightarrow> (Inr st, s\<lparr>tasks := arena_set t None (tasks s)\<rparr>))"

definition transition_state ::
  "task_id \<Rightarrow> task_state \<Rightarrow> task_slot_state \<Rightarrow> ('r, 'i) scheduler \<Rightarrow> ('r, 'i, 'e, unit) scheduler_result" where
  "transition_state t expected st s =
     (case require_state t expected s of
        Inl e \<Rightarrow> (Inl e, s)
      | Inr _ \<Rightarrow> store_state t st s)"

definition spawn :: "('r, 'i) scheduler \<Rightarrow> ('r, 'i, 'e, task_id) scheduler_result" where
  "spawn s =
     (case arena_alloc Runnable (tasks s) of
        None \<Rightarrow> (Inl CapacityExhausted, s)
      | Some (t, a) \<Rightarrow> (Inr t, s\<lparr>tasks := a, runnable := runnable s @ [t]\<rparr>))"

fun take_runnable_from ::
  "task_id list \<Rightarrow> ('r, 'i) scheduler \<Rightarrow> ('r, 'i, 'e, task_id option) scheduler_result" where
  "take_runnable_from [] s = (Inr None, s\<lparr>runnable := []\<rparr>)"
| "take_runnable_from (t # rest) s =
     (if task_state_of s t = Some StateRunnable then
        (case transition_state t StateRunnable Running (s\<lparr>runnable := rest\<rparr>) of
           (Inl e, s) \<Rightarrow> (Inl e, s)
         | (Inr _, s) \<Rightarrow> (Inr (Some t), s))
      else take_runnable_from rest s)"

definition take_runnable :: "('r, 'i) scheduler \<Rightarrow> ('r, 'i, 'e, task_id option) scheduler_result" where
  "take_runnable s = take_runnable_from (runnable s) s"

definition yield_now :: "task_id \<Rightarrow> ('r, 'i) scheduler \<Rightarrow> ('r, 'i, 'e, unit) scheduler_result" where
  "yield_now t s =
     (case transition_state t StateRunning Runnable s of
        (Inl e, s) \<Rightarrow> (Inl e, s)
      | (Inr _, s) \<Rightarrow> (Inr (), s\<lparr>runnable := runnable s @ [t]\<rparr>))"

definition complete :: "task_id \<Rightarrow> ('r, 'i) scheduler \<Rightarrow> ('r, 'i, 'e, unit) scheduler_result" where
  "complete t s = transition_state t StateRunning Completed s"

definition release_task :: "task_id \<Rightarrow> ('r, 'i) scheduler \<Rightarrow> ('r, 'i) scheduler" where
  "release_task t s = s\<lparr>tasks := arena_release (slot_of t) (tasks s)\<rparr>"

definition finish_cancellation :: "task_id \<Rightarrow> ('r, 'i) scheduler \<Rightarrow> ('r, 'i, 'e, unit) scheduler_result" where
  "finish_cancellation t s =
     (case task_state_of s t of
        None \<Rightarrow> (Inl (UnknownTask t), s)
      | Some (StateCancelling _) \<Rightarrow> (Inr (), release_task t s)
      | Some actual \<Rightarrow> (Inl (InvalidTaskState t actual), s))"

definition consume_completed :: "task_id \<Rightarrow> ('r, 'i) scheduler \<Rightarrow> ('r, 'i, 'e, unit) scheduler_result" where
  "consume_completed t s =
     (case require_state t StateCompleted s of
        Inl e \<Rightarrow> (Inl e, s)
      | Inr _ \<Rightarrow> (Inr (), release_task t s))"

section \<open>Registrations\<close>

definition release_registration :: "registration_id \<Rightarrow> ('r, 'i) scheduler \<Rightarrow> ('r, 'i) scheduler" where
  "release_registration r s = s\<lparr>registrations := arena_release (slot_of r) (registrations s)\<rparr>"

definition remove_registration ::
  "('r, 'i, 'e) reactor_ops \<Rightarrow> registration_id \<Rightarrow> ('r, 'i) scheduler \<Rightarrow> ('r, 'i) scheduler" where
  "remove_registration ops r s =
     (case arena_get (registrations s) r of
        None \<Rightarrow> s
      | Some (_, i) \<Rightarrow>
          let s = release_registration r s in
          s\<lparr>reactor := reactor_deregister ops r i (reactor s)\<rparr>)"

definition remove_registrations ::
  "('r, 'i, 'e) reactor_ops \<Rightarrow> registration_id list \<Rightarrow> ('r, 'i) scheduler \<Rightarrow> ('r, 'i) scheduler" where
  "remove_registrations ops rs s = fold (remove_registration ops) rs s"

definition remove_registrations_reverse ::
  "('r, 'i, 'e) reactor_ops \<Rightarrow> registration_id list \<Rightarrow> ('r, 'i) scheduler \<Rightarrow> ('r, 'i) scheduler" where
  "remove_registrations_reverse ops rs s = remove_registrations ops (rev rs) s"

declare remove_registrations_reverse_def [simp]

definition allocate_registration ::
  "task_id \<Rightarrow> 'i \<Rightarrow> ('r, 'i) scheduler \<Rightarrow> ('r, 'i, 'e, registration_id) scheduler_result" where
  "allocate_registration t i s =
     (case arena_alloc (t, i) (registrations s) of
        None \<Rightarrow> (Inl CapacityExhausted, s)
      | Some (r, a) \<Rightarrow> (Inr r, s\<lparr>registrations := a\<rparr>))"

text \<open>The loop of \<open>suspend\<close>; a failure removes what it installed, last first.\<close>

fun install_wait_set ::
  "('r, 'i, 'e) reactor_ops \<Rightarrow> task_id \<Rightarrow> 'i list \<Rightarrow> registration_id list \<Rightarrow> ('r, 'i) scheduler
     \<Rightarrow> ('r, 'i, 'e, registration_id list) scheduler_result" where
  "install_wait_set ops t [] installed s = (Inr installed, s)"
| "install_wait_set ops t (i # interests) installed s =
     (case allocate_registration t i s of
        (Inl e, s) \<Rightarrow> (Inl e, remove_registrations_reverse ops installed s)
      | (Inr r, s) \<Rightarrow>
          (case reactor_register ops r i (reactor s) of
             (Inl e, re) \<Rightarrow>
               (Inl (ReactorError e),
                remove_registrations_reverse ops installed (release_registration r (s\<lparr>reactor := re\<rparr>)))
           | (Inr _, re) \<Rightarrow> install_wait_set ops t interests (installed @ [r]) (s\<lparr>reactor := re\<rparr>)))"

definition suspend ::
  "('r, 'i, 'e) reactor_ops \<Rightarrow> task_id \<Rightarrow> 'i list \<Rightarrow> ('r, 'i) scheduler
     \<Rightarrow> ('r, 'i, 'e, registration_id list) scheduler_result" where
  "suspend ops t interests s =
     (case require_state t StateRunning s of
        Inl e \<Rightarrow> (Inl e, s)
      | Inr _ \<Rightarrow>
          if interests = [] then (Inl (EmptyWaitSet t), s)
          else
            (case install_wait_set ops t interests [] s of
               (Inl e, s) \<Rightarrow> (Inl e, s)
             | (Inr rs, s) \<Rightarrow>
                 (case transition_state t StateRunning (Waiting rs) s of
                    (Inl e, s) \<Rightarrow> (Inl e, s)
                  | (Inr _, s) \<Rightarrow> (Inr rs, s))))"

definition cancel ::
  "('r, 'i, 'e) reactor_ops \<Rightarrow> task_id \<Rightarrow> ('r, 'i) scheduler \<Rightarrow> ('r, 'i, 'e, cancellation_kind) scheduler_result" where
  "cancel ops t s =
     (case take_state t s of
        (Inl e, s) \<Rightarrow> (Inl e, s)
      | (Inr st, s) \<Rightarrow>
          let publish = (\<lambda>kind s. case store_state t (Cancelling kind) s of
                (Inl e, s) \<Rightarrow> (Inl e, s) | (Inr _, s) \<Rightarrow> (Inr kind, s));
              refuse = (case store_state t st s of
                (Inl e, s) \<Rightarrow> (Inl e, s) | (Inr _, s) \<Rightarrow> (Inl (InvalidTaskState t (public_state st)), s)) in
          (case st of
             Runnable \<Rightarrow> publish PendingFrame s
           | Waiting rs \<Rightarrow> publish PendingFrame (remove_registrations ops rs s)
           | Completed \<Rightarrow> publish CompletedOutput s
           | Running \<Rightarrow> refuse
           | Cancelling _ \<Rightarrow> refuse))"

section \<open>Events\<close>

fun wake_ready ::
  "('r, 'i, 'e) reactor_ops \<Rightarrow> (registration_id \<times> task_id) list \<Rightarrow> ('r, 'i) scheduler
     \<Rightarrow> ('r, 'i, 'e, unit) scheduler_result" where
  "wake_ready ops [] s = (Inr (), s)"
| "wake_ready ops ((r, t) # rest) s =
     (case arena_get (tasks s) t of
        Some (Waiting rs) \<Rightarrow>
          if r \<notin> set rs then wake_ready ops rest s
          else
            (case transition_state t StateWaiting Runnable (remove_registrations ops rs s) of
               (Inl e, s) \<Rightarrow> (Inl e, s)
             | (Inr _, s) \<Rightarrow> wake_ready ops rest (s\<lparr>runnable := runnable s @ [t]\<rparr>))
      | _ \<Rightarrow> wake_ready ops rest s)"

definition ready_events ::
  "registration_id list \<Rightarrow> ('r, 'i) scheduler \<Rightarrow> (registration_id \<times> task_id) list" where
  "ready_events events s =
     sort (List.map_filter (\<lambda>r. map_option (\<lambda>(t, _). (r, t)) (arena_get (registrations s) r)) events)"

definition accept_events ::
  "('r, 'i, 'e) reactor_ops \<Rightarrow> registration_id list \<Rightarrow> ('r, 'i) scheduler \<Rightarrow> ('r, 'i, 'e, unit) scheduler_result" where
  "accept_events ops events s = wake_ready ops (ready_events events s) s"

text \<open>\<open>None\<close>: the reactor never returns.\<close>

definition next_progress ::
  "('r, 'i, 'e) reactor_ops \<Rightarrow> ('r, 'i) scheduler \<Rightarrow> ('r, 'i, 'e, scheduler_progress) scheduler_result option" where
  "next_progress ops s =
     (case take_runnable s of
        (Inl e, s) \<Rightarrow> Some (Inl e, s)
      | (Inr (Some t), s) \<Rightarrow> Some (Inr (Resume t), s)
      | (Inr None, s) \<Rightarrow>
          if \<not> has_active_registration s then Some (Inr Idle, s)
          else
            (case reactor_wait ops (reactor s) of
               None \<Rightarrow> None
             | Some (Inl e, re) \<Rightarrow> Some (Inl (ReactorError e), s\<lparr>reactor := re\<rparr>)
             | Some (Inr events, re) \<Rightarrow>
                 (case accept_events ops events (s\<lparr>reactor := re\<rparr>) of
                    (Inl e, s) \<Rightarrow> Some (Inl e, s)
                  | (Inr _, s) \<Rightarrow>
                      (case take_runnable s of
                         (Inl e, s) \<Rightarrow> Some (Inl e, s)
                       | (Inr (Some t), s) \<Rightarrow> Some (Inr (Resume t), s)
                       | (Inr None, s) \<Rightarrow> Some (Inr Idle, s)))))"

section \<open>Shutdown\<close>

definition retained_tasks :: "('r, 'i) scheduler \<Rightarrow> task_id list" where
  "retained_tasks s =
     List.map_filter (\<lambda>(slot, (generation, content)). map_option (\<lambda>_. Key slot generation) content)
       (enumerate 0 (slots (tasks s)))"

fun cancel_all ::
  "('r, 'i, 'e) reactor_ops \<Rightarrow> task_id list \<Rightarrow> ('r, 'i) scheduler
     \<Rightarrow> ('r, 'i, 'e, (task_id \<times> cancellation_kind) list) scheduler_result" where
  "cancel_all ops [] s = (Inr [], s)"
| "cancel_all ops (t # rest) s =
     (case cancel ops t s of
        (Inl e, s) \<Rightarrow> (Inl e, s)
      | (Inr kind, s) \<Rightarrow>
          (case cancel_all ops rest s of
             (Inl e, s) \<Rightarrow> (Inl e, s)
           | (Inr cs, s) \<Rightarrow> (Inr ((t, kind) # cs), s)))"

definition busy :: "('r, 'i) scheduler \<Rightarrow> task_id \<Rightarrow> task_state option" where
  "busy s t =
     (case task_state_of s t of
        Some StateRunning \<Rightarrow> Some StateRunning
      | Some (StateCancelling kind) \<Rightarrow> Some (StateCancelling kind)
      | _ \<Rightarrow> None)"

definition begin_shutdown ::
  "('r, 'i, 'e) reactor_ops \<Rightarrow> ('r, 'i) scheduler
     \<Rightarrow> ('r, 'i, 'e, (task_id \<times> cancellation_kind) list) scheduler_result" where
  "begin_shutdown ops s =
     (if list_ex (\<lambda>t. id_limit \<le> slot_of t) (retained_tasks s) then (Inl CapacityExhausted, s)
      else
        (case List.map_filter (\<lambda>t. map_option (\<lambda>actual. (t, actual)) (busy s t)) (retained_tasks s) of
           (t, actual) # _ \<Rightarrow> (Inl (InvalidTaskState t actual), s)
         | [] \<Rightarrow> cancel_all ops (retained_tasks s) s))"

end
