(* ===== verification/Scheduler_Invariant.thy ===== *)
theory Scheduler_Invariant
  imports Task_Scheduler
begin

text \<open>
  The invariant of the task scheduler (\<^verbatim>\<open>nocter-task-runtime/src/scheduler.rs\<close>) and its preservation by every
  public operation: both slot tables are well formed, registrations and wait sets name each other, and
  the queue holds each runnable task exactly once. The effect of event delivery, suspension,
  cancellation and shutdown is stated beside it.
\<close>

section \<open>The invariant\<close>

text \<open>
  While a running task \<open>t\<close> is being suspended, the registrations \<open>extra\<close> are already its own. Between
  operations there are none.
\<close>

definition links_ok :: "task_id \<Rightarrow> registration_id list \<Rightarrow> ('r, 'i) scheduler \<Rightarrow> bool" where
  "links_ok t extra s \<longleftrightarrow>
     (\<forall>r u i. arena_get (registrations s) r = Some (u, i) \<longrightarrow>
        (u = t \<and> r \<in> set extra) \<or> (\<exists>rs. arena_get (tasks s) u = Some (Waiting rs) \<and> r \<in> set rs))
     \<and> (\<forall>u rs. arena_get (tasks s) u = Some (Waiting rs) \<longrightarrow>
          rs \<noteq> [] \<and> distinct rs \<and> (\<forall>r \<in> set rs. \<exists>i. arena_get (registrations s) r = Some (u, i)))
     \<and> distinct extra \<and> (\<forall>r \<in> set extra. \<exists>i. arena_get (registrations s) r = Some (t, i))"

text \<open>
  Every queued identity was issued; a runnable task is queued exactly once, a running, waiting or
  completed one not at all. The queue may hold identities of cancelled tasks.
\<close>

fun queued_ok :: "task_slot_state \<Rightarrow> nat \<Rightarrow> bool" where
  "queued_ok Runnable n = (n = 1)"
| "queued_ok (Cancelling _) n = True"
| "queued_ok _ n = (n = 0)"

definition queue_ok :: "('r, 'i) scheduler \<Rightarrow> bool" where
  "queue_ok s \<longleftrightarrow>
     (\<forall>t \<in> set (runnable s). issued (tasks s) t)
     \<and> (\<forall>t st. arena_get (tasks s) t = Some st \<longrightarrow> queued_ok st (count_list (runnable s) t))"

definition scheduler_ok_at :: "task_id \<Rightarrow> registration_id list \<Rightarrow> ('r, 'i) scheduler \<Rightarrow> bool" where
  "scheduler_ok_at t extra s \<longleftrightarrow>
     arena_ok (tasks s) \<and> arena_ok (registrations s) \<and> links_ok t extra s \<and> queue_ok s"

definition scheduler_ok :: "('r, 'i) scheduler \<Rightarrow> bool" where
  "scheduler_ok s \<longleftrightarrow> scheduler_ok_at (Key 0 0) [] s"

lemma scheduler_ok_any: "scheduler_ok s \<longleftrightarrow> scheduler_ok_at t [] s"
  by (auto simp: scheduler_ok_def scheduler_ok_at_def links_ok_def)

lemma scheduler_ok_new: "scheduler_ok (scheduler_new r)"
  by (simp add: scheduler_ok_def scheduler_ok_at_def scheduler_new_def links_ok_def queue_ok_def)

lemma scheduler_okD:
  assumes "scheduler_ok s"
  shows "arena_ok (tasks s)" and "arena_ok (registrations s)" and "links_ok t [] s" and "queue_ok s"
  using assms by (auto simp: scheduler_ok_any [of s t] scheduler_ok_at_def)

lemma queued: "scheduler_ok s \<Longrightarrow> arena_get (tasks s) t = Some st \<Longrightarrow> queued_ok st (count_list (runnable s) t)"
  by (auto simp: scheduler_ok_def scheduler_ok_at_def queue_ok_def)

lemma links_cong:
  assumes "\<And>u rs. arena_get (tasks s') u = Some (Waiting rs) \<longleftrightarrow> arena_get (tasks s) u = Some (Waiting rs)"
    and "registrations s' = registrations s"
  shows "links_ok t extra s' = links_ok t extra s"
  unfolding links_ok_def assms ..

section \<open>Changing the state of a task\<close>

definition waits :: "task_slot_state \<Rightarrow> bool" where
  "waits st \<longleftrightarrow> (\<exists>rs. st = Waiting rs)"

lemma waits_simps [simp]:
  "\<not> waits Runnable" "\<not> waits Running" "\<not> waits Completed" "\<not> waits (Cancelling k)" "waits (Waiting rs)"
  by (auto simp: waits_def)

text \<open>A live task that does not wait changes to a state that does not wait.\<close>

lemma change_state_ok:
  assumes ok: "scheduler_ok s" and live: "arena_get (tasks s) t = Some st" and st: "\<not> waits st" "\<not> waits st'"
    and queue: "\<forall>u \<in> set q. u \<noteq> t \<longrightarrow> u \<in> set (runnable s)" "\<forall>u. u \<noteq> t \<longrightarrow> count_list q u = count_list (runnable s) u"
      "queued_ok st' (count_list q t)"
  shows "scheduler_ok (s\<lparr>tasks := arena_set t (Some st') (tasks s), runnable := q\<rparr>)"
proof -
  note okD = scheduler_okD [OF ok]
  note set = arena_set_ok [OF okD(1) live]
  have "links_ok (Key 0 0) [] (s\<lparr>tasks := arena_set t (Some st') (tasks s), runnable := q\<rparr>)
      = links_ok (Key 0 0) [] s"
    by (rule links_cong) (use live st in \<open>auto simp: set(2) waits_def\<close>)
  moreover have "queue_ok (s\<lparr>tasks := arena_set t (Some st') (tasks s), runnable := q\<rparr>)"
    using okD(4) queue live_issued [OF okD(1) live] by (auto simp: queue_ok_def set(2,3))
  ultimately show ?thesis
    using okD set(1) by (simp add: scheduler_ok_def scheduler_ok_at_def)
qed

lemma owns_live: "arena_get (tasks s) t = Some st \<Longrightarrow> owns_slot s t"
  by (auto simp: arena_get_Some owns_slot_def list_get_def)

lemma transition_state_eq:
  "transition_state t expected st' s =
     (case arena_get (tasks s) t of
        None \<Rightarrow> (Inl (UnknownTask t), s)
      | Some st \<Rightarrow>
          if public_state st \<noteq> expected then (Inl (InvalidTaskState t (public_state st)), s)
          else (Inr (), s\<lparr>tasks := arena_set t (Some st') (tasks s)\<rparr>))"
  by (auto simp: transition_state_def require_state_def task_state_of_def store_state_def owns_live
      split: option.splits)

lemma public_state_iff [simp]:
  "public_state st = StateRunnable \<longleftrightarrow> st = Runnable" "public_state st = StateRunning \<longleftrightarrow> st = Running"
  "public_state st = StateCompleted \<longleftrightarrow> st = Completed"
  "public_state st = StateCancelling k \<longleftrightarrow> st = Cancelling k"
  "public_state st = StateWaiting \<longleftrightarrow> waits st"
  by (cases st; simp add: waits_def)+

lemma task_state_iff:
  "task_state_of s t = Some StateRunnable \<longleftrightarrow> arena_get (tasks s) t = Some Runnable"
  "task_state_of s t = Some StateRunning \<longleftrightarrow> arena_get (tasks s) t = Some Running"
  "task_state_of s t = Some StateCompleted \<longleftrightarrow> arena_get (tasks s) t = Some Completed"
  "task_state_of s t = Some (StateCancelling k) \<longleftrightarrow> arena_get (tasks s) t = Some (Cancelling k)"
  "task_state_of s t = Some StateWaiting \<longleftrightarrow> (\<exists>rs. arena_get (tasks s) t = Some (Waiting rs))"
  by (auto simp: task_state_of_def waits_def)

lemma spawn_ok:
  assumes ok: "scheduler_ok s" and run: "spawn s = (res, s')"
  shows "scheduler_ok s'"
proof (cases "arena_alloc Runnable (tasks s)")
  case None
  with assms show ?thesis by (simp add: spawn_def)
next
  case (Some ta)
  obtain t a where ta: "arena_alloc Runnable (tasks s) = Some (t, a)" using Some by (cases ta) auto
  note okD = scheduler_okD [OF ok]
  note alloc = arena_alloc_ok [OF okD(1) ta]
  have s': "s' = s\<lparr>tasks := a, runnable := runnable s @ [t]\<rparr>" using run ta by (simp add: spawn_def)
  have fresh: "t \<notin> set (runnable s)" using okD(4) alloc(2) by (auto simp: queue_ok_def)
  have "links_ok (Key 0 0) [] s' = links_ok (Key 0 0) [] s"
    by (rule links_cong) (use alloc(3) in \<open>auto simp: s' alloc(4)\<close>)
  moreover have "queue_ok s'"
    using okD(4) fresh by (auto simp: queue_ok_def s' alloc(4,5) count_list_0_iff)
  ultimately show ?thesis using okD alloc(1) by (simp add: scheduler_ok_def scheduler_ok_at_def s')
qed

text \<open>Dropping queue entries that are not runnable.\<close>

lemma drop_queue_ok:
  assumes ok: "scheduler_ok s" and q: "runnable s = dropped @ q"
    and none: "\<forall>t \<in> set dropped. arena_get (tasks s) t \<noteq> Some Runnable"
  shows "scheduler_ok (s\<lparr>runnable := q\<rparr>)"
proof -
  note okD = scheduler_okD [OF ok]
  have "queued_ok st (count_list q t)" if "arena_get (tasks s) t = Some st" for t st
  proof -
    have old: "queued_ok st (count_list dropped t + count_list q t)"
      using queued [OF ok that] q by simp
    show ?thesis
    proof (cases "st = Runnable")
      case True
      with none that have "count_list dropped t = 0" by (auto simp: count_list_0_iff)
      with old show ?thesis by simp
    qed (use old in \<open>cases st; simp\<close>)
  qed
  then have "queue_ok (s\<lparr>runnable := q\<rparr>)" using okD(4) q by (auto simp: queue_ok_def)
  then show ?thesis using okD by (simp add: scheduler_ok_def scheduler_ok_at_def links_ok_def)
qed

text \<open>
  \<open>take_runnable\<close> takes the first runnable identity of the queue and drops the dead ones before it.
\<close>

lemma take_runnable_from_eq:
  "take_runnable_from q s =
     (case dropWhile (\<lambda>t. arena_get (tasks s) t \<noteq> Some Runnable) q of
        [] \<Rightarrow> (Inr None, s\<lparr>runnable := []\<rparr>)
      | t # rest \<Rightarrow> (Inr (Some t), s\<lparr>tasks := arena_set t (Some Running) (tasks s), runnable := rest\<rparr>))"
  by (induction q) (auto simp: task_state_iff transition_state_eq)

lemma take_runnable_ok:
  assumes ok: "scheduler_ok s" and run: "take_runnable s = (res, s')"
  shows "scheduler_ok s' \<and> reactor s' = reactor s \<and> registrations s' = registrations s"
proof -
  let ?p = "\<lambda>t. arena_get (tasks s) t \<noteq> Some Runnable"
  have split: "runnable s = takeWhile ?p (runnable s) @ dropWhile ?p (runnable s)" by simp
  have none: "\<forall>t \<in> set (takeWhile ?p (runnable s)). ?p t" by (auto dest: set_takeWhileD)
  note dropped = drop_queue_ok [OF ok split none]
  show ?thesis
  proof (cases "dropWhile ?p (runnable s)")
    case Nil
    with run dropped show ?thesis by (auto simp: take_runnable_def take_runnable_from_eq)
  next
    case (Cons t rest)
    let ?s = "s\<lparr>runnable := t # rest\<rparr>"
    have live: "arena_get (tasks s) t = Some Runnable" using Cons by (auto simp: dropWhile_eq_Cons_conv)
    have "scheduler_ok ?s" using dropped Cons by simp
    moreover from queued [OF this, of t Runnable] live have "count_list (t # rest) t = 1" by simp
    ultimately have "scheduler_ok (?s\<lparr>tasks := arena_set t (Some Running) (tasks ?s), runnable := rest\<rparr>)"
      using live by (intro change_state_ok [where st = Runnable]) auto
    with run Cons show ?thesis by (auto simp: take_runnable_def take_runnable_from_eq)
  qed
qed

lemma yield_now_ok:
  assumes ok: "scheduler_ok s" and run: "yield_now t s = (res, s')"
  shows "scheduler_ok s'"
proof (cases "arena_get (tasks s) t = Some Running")
  case True
  then have "count_list (runnable s) t = 0" using queued [OF ok True] by simp
  then have "scheduler_ok (s\<lparr>tasks := arena_set t (Some Runnable) (tasks s), runnable := runnable s @ [t]\<rparr>)"
    by (intro change_state_ok [OF ok True]) auto
  with run True show ?thesis by (auto simp: yield_now_def transition_state_eq)
next
  case False
  with run ok show ?thesis by (auto simp: yield_now_def transition_state_eq split: option.splits if_splits)
qed

lemma complete_ok:
  assumes ok: "scheduler_ok s" and run: "complete t s = (res, s')"
  shows "scheduler_ok s'"
proof (cases "arena_get (tasks s) t = Some Running")
  case True
  then have "count_list (runnable s) t = 0" using queued [OF ok True] by simp
  then have "scheduler_ok (s\<lparr>tasks := arena_set t (Some Completed) (tasks s), runnable := runnable s\<rparr>)"
    by (intro change_state_ok [OF ok True]) auto
  with run True show ?thesis by (auto simp: complete_def transition_state_eq)
next
  case False
  with run ok show ?thesis by (auto simp: complete_def transition_state_eq split: option.splits if_splits)
qed

lemma release_ok:
  assumes ok: "scheduler_ok s" and live: "arena_get (tasks s) t = Some st" and st: "\<not> waits st"
  shows "scheduler_ok (release_task t s)"
proof -
  note okD = scheduler_okD [OF ok]
  note rel = arena_release_ok [OF okD(1) live]
  have "links_ok (Key 0 0) [] (release_task t s) = links_ok (Key 0 0) [] s"
    by (rule links_cong) (use live st in \<open>auto simp: release_task_def rel(2) waits_def\<close>)
  moreover have "queue_ok (release_task t s)"
    using okD(4) by (auto simp: queue_ok_def release_task_def rel(2,3))
  ultimately show ?thesis using okD rel(1) by (simp add: scheduler_ok_def scheduler_ok_at_def release_task_def)
qed

lemma finish_cancellation_ok: "scheduler_ok s \<Longrightarrow> finish_cancellation t s = (res, s') \<Longrightarrow> scheduler_ok s'"
  by (auto simp: finish_cancellation_def task_state_of_def split: option.splits task_state.splits
      intro: release_ok)

lemma consume_completed_ok: "scheduler_ok s \<Longrightarrow> consume_completed t s = (res, s') \<Longrightarrow> scheduler_ok s'"
  by (auto simp: consume_completed_def require_state_def task_state_of_def split: option.splits if_splits
      intro: release_ok)

section \<open>Registrations\<close>

definition same_tasks :: "('r, 'i) scheduler \<Rightarrow> ('r, 'i) scheduler \<Rightarrow> bool" where
  "same_tasks s s' \<longleftrightarrow> tasks s' = tasks s \<and> runnable s' = runnable s"

lemma remove_registration_get:
  assumes "arena_ok (registrations s)"
  shows "arena_ok (registrations (remove_registration ops r s))"
    and "arena_get (registrations (remove_registration ops r s)) q
      = (if q = r then None else arena_get (registrations s) q)"
    and "same_tasks s (remove_registration ops r s)"
proof -
  have "arena_ok (registrations (remove_registration ops r s))
    \<and> arena_get (registrations (remove_registration ops r s)) q
        = (if q = r then None else arena_get (registrations s) q)
    \<and> same_tasks s (remove_registration ops r s)"
  proof (cases "arena_get (registrations s) r")
    case None
    with assms show ?thesis by (simp add: remove_registration_def same_tasks_def)
  next
    case (Some ti)
    with arena_release_ok [OF assms Some] show ?thesis
      by (cases ti) (auto simp: remove_registration_def release_registration_def Let_def same_tasks_def)
  qed
  then show "arena_ok (registrations (remove_registration ops r s))"
    "arena_get (registrations (remove_registration ops r s)) q
      = (if q = r then None else arena_get (registrations s) q)"
    "same_tasks s (remove_registration ops r s)" by blast+
qed

lemma remove_registrations_get:
  "arena_ok (registrations s) \<Longrightarrow>
     arena_ok (registrations (remove_registrations ops rs s))
     \<and> (\<forall>q. arena_get (registrations (remove_registrations ops rs s)) q
            = (if q \<in> set rs then None else arena_get (registrations s) q))
     \<and> same_tasks s (remove_registrations ops rs s)"
proof (induction rs arbitrary: s)
  case (Cons r rs)
  note r = remove_registration_get [OF Cons.prems, of ops r]
  from Cons.IH [OF r(1)] r(2,3) show ?case
    by (auto simp: remove_registrations_def same_tasks_def)
qed (simp add: remove_registrations_def same_tasks_def)

lemmas removed = remove_registrations_get [THEN conjunct1]
  remove_registrations_get [THEN conjunct2, THEN conjunct1, rule_format]
  remove_registrations_get [THEN conjunct2, THEN conjunct2]

text \<open>A waiting task leaves its wait set: its registrations go, and it takes a state that does not wait.\<close>

lemma detach_ok:
  assumes ok: "scheduler_ok s" and live: "arena_get (tasks s) t = Some (Waiting rs)"
    and st: "\<not> waits st'" and q: "q = runnable s @ (if st' = Runnable then [t] else [])" and st2: "st' \<noteq> Running" "st' \<noteq> Completed"
  shows "scheduler_ok ((remove_registrations ops rs s)\<lparr>tasks := arena_set t (Some st') (tasks s), runnable := q\<rparr>)"
proof -
  note okD = scheduler_okD [OF ok]
  note set = arena_set_ok [OF okD(1) live]
  let ?s = "(remove_registrations ops rs s)\<lparr>tasks := arena_set t (Some st') (tasks s), runnable := q\<rparr>"
  note gone = remove_registrations_get [OF okD(2), of ops rs]
  have link: "arena_get (registrations s) r = Some (u, i) \<Longrightarrow>
      \<exists>rs. arena_get (tasks s) u = Some (Waiting rs) \<and> r \<in> set rs" for r u i
    using okD(3) [of "Key 0 0"] by (auto simp: links_ok_def)
  have wait: "arena_get (tasks s) u = Some (Waiting rs) \<Longrightarrow>
      rs \<noteq> [] \<and> distinct rs \<and> (\<forall>r \<in> set rs. \<exists>i. arena_get (registrations s) r = Some (u, i))" for u rs
    using okD(3) [of "Key 0 0"] by (auto simp: links_ok_def)
  have "links_ok (Key 0 0) [] ?s"
    unfolding links_ok_def
  proof (intro conjI allI impI)
    fix r u i assume "arena_get (registrations ?s) r = Some (u, i)"
    with gone have r: "r \<notin> set rs" "arena_get (registrations s) r = Some (u, i)" by (auto split: if_splits)
    from link [OF r(2)] obtain rs' where rs': "arena_get (tasks s) u = Some (Waiting rs')" "r \<in> set rs'" by blast
    with live r(1) have "u \<noteq> t" by auto
    with rs' show "u = Key 0 0 \<and> r \<in> set [] \<or> (\<exists>rs. arena_get (tasks ?s) u = Some (Waiting rs) \<and> r \<in> set rs)"
      by (auto simp: set(2))
  next
    fix u rs' assume u: "arena_get (tasks ?s) u = Some (Waiting rs')"
    with st have ne: "u \<noteq> t" and old: "arena_get (tasks s) u = Some (Waiting rs')"
      by (auto simp: set(2) waits_def split: if_splits)
    note w = wait [OF old]
    then show "rs' \<noteq> []" "distinct rs'" by simp_all
    have "r \<notin> set rs" if "r \<in> set rs'" for r
    proof
      assume "r \<in> set rs"
      with wait [OF live] obtain i where "arena_get (registrations s) r = Some (t, i)" by blast
      with w that ne show False by auto
    qed
    with w gone show "\<forall>r \<in> set rs'. \<exists>i. arena_get (registrations ?s) r = Some (u, i)" by simp
  qed simp_all
  moreover have "queue_ok ?s"
  proof -
    have "count_list (runnable s) t = 0" using queued [OF ok live] by simp
    then have "queued_ok st' (count_list q t)" using st2 st by (cases st') (auto simp: q)
    moreover have "queued_ok st (count_list q u)" if "arena_get (tasks s) u = Some st" "u \<noteq> t" for u st
      using queued [OF ok that(1)] that(2) by (simp add: q)
    moreover have "\<forall>u \<in> set q. issued (tasks s) u"
      using okD(4) live_issued [OF okD(1) live] by (auto simp: q queue_ok_def)
    ultimately show ?thesis by (auto simp: queue_ok_def set(2,3))
  qed
  ultimately show ?thesis using gone set(1) by (simp add: scheduler_ok_def scheduler_ok_at_def)
qed

lemma owns_removed: "arena_ok (registrations s) \<Longrightarrow> owns_slot (remove_registrations ops rs s) t = owns_slot s t"
  using removed(3) [of s ops rs] by (simp add: owns_slot_def same_tasks_def)

section \<open>Cancellation\<close>

lemma remove_registration_frame [simp]:
  "remove_registration ops r (s\<lparr>tasks := T\<rparr>) = (remove_registration ops r s)\<lparr>tasks := T\<rparr>"
  "remove_registration ops r (s\<lparr>runnable := q\<rparr>) = (remove_registration ops r s)\<lparr>runnable := q\<rparr>"
  by (auto simp: remove_registration_def release_registration_def Let_def split: option.splits)

lemma remove_registrations_frame [simp]:
  "remove_registrations ops rs (s\<lparr>tasks := T\<rparr>) = (remove_registrations ops rs s)\<lparr>tasks := T\<rparr>"
  by (induction rs arbitrary: s) (auto simp: remove_registrations_def)

lemma arena_set_twice [simp]: "arena_set k x (arena_set k y a) = arena_set k x a"
  by (cases "slot_of k < length (slots a)") (auto simp: arena_set_def list_update_beyond)

lemma keep_runnable: "runnable s = q \<Longrightarrow> s\<lparr>tasks := T, runnable := q\<rparr> = s\<lparr>tasks := T\<rparr>"
  by (cases s) simp

lemma arena_set_back: "arena_get a k = Some x \<Longrightarrow> arena_set k (Some x) a = a"
  by (cases a) (auto simp: arena_set_def arena_get_Some list_update_same_conv)

lemma owns_taken: "arena_get (tasks s) t = Some st \<Longrightarrow> owns_slot (s\<lparr>tasks := arena_set t x (tasks s)\<rparr>) t"
  by (auto simp: arena_get_Some owns_slot_def list_get_def arena_set_def)

lemma cancel_eq:
  assumes "arena_ok (registrations s)"
  shows "cancel ops t s =
     (case arena_get (tasks s) t of
        None \<Rightarrow> (Inl (UnknownTask t), s)
      | Some Runnable \<Rightarrow> (Inr PendingFrame, s\<lparr>tasks := arena_set t (Some (Cancelling PendingFrame)) (tasks s)\<rparr>)
      | Some (Waiting rs) \<Rightarrow>
          (Inr PendingFrame, (remove_registrations ops rs s)\<lparr>tasks := arena_set t (Some (Cancelling PendingFrame)) (tasks s)\<rparr>)
      | Some Completed \<Rightarrow> (Inr CompletedOutput, s\<lparr>tasks := arena_set t (Some (Cancelling CompletedOutput)) (tasks s)\<rparr>)
      | Some st \<Rightarrow> (Inl (InvalidTaskState t (public_state st)), s))"
proof (cases "arena_get (tasks s) t")
  case None
  then show ?thesis by (simp add: cancel_def take_state_def)
next
  case (Some st)
  note own = owns_taken [OF Some, of None]
  have own_removed: "owns_slot ((remove_registrations ops rs s)\<lparr>tasks := arena_set t None (tasks s)\<rparr>) t" for rs
    using own by (simp add: owns_slot_def)
  show ?thesis
    using own own_removed Some
    by (cases st) (simp_all add: cancel_def take_state_def store_state_def Let_def arena_set_back)
qed

lemma cancel_ok:
  assumes ok: "scheduler_ok s" and run: "cancel ops t s = (res, s')"
  shows "scheduler_ok s'"
proof -
  note eq = cancel_eq [OF scheduler_okD(2) [OF ok], of ops t]
  have change: "scheduler_ok (s\<lparr>tasks := arena_set t (Some (Cancelling k)) (tasks s)\<rparr>)"
    if "arena_get (tasks s) t = Some st" "\<not> waits st" for st k
    using change_state_ok [OF ok that(1), of "Cancelling k" "runnable s"] that(2) by simp
  show ?thesis
  proof (cases "arena_get (tasks s) t")
    case None
    with eq run ok show ?thesis by simp
  next
    case (Some st)
    show ?thesis
    proof (cases st)
      case (Waiting rs)
      with Some have live: "arena_get (tasks s) t = Some (Waiting rs)" by simp
      have "runnable (remove_registrations ops rs s) = runnable s"
        using removed(3) [OF scheduler_okD(2) [OF ok]] by (auto simp: same_tasks_def)
      then have "scheduler_ok ((remove_registrations ops rs s)\<lparr>tasks :=
          arena_set t (Some (Cancelling PendingFrame)) (tasks s)\<rparr>)"
        using detach_ok [OF ok live, of "Cancelling PendingFrame" "runnable s" ops] by (simp add: keep_runnable)
      with eq run Some Waiting show ?thesis by simp
    qed (use eq run ok Some change in auto)
  qed
qed

section \<open>Events\<close>

text \<open>
  Accepting events never fails; it wakes exactly the tasks whose wait set holds one of the events, and
  an event whose registration is no longer active wakes nothing.
\<close>

lemma wake_ready_ok:
  assumes "scheduler_ok s"
  shows "\<exists>s'. wake_ready ops ready s = (Inr (), s') \<and> scheduler_ok s'
    \<and> (\<forall>t. arena_get (tasks s') t =
          (if \<exists>rs r. arena_get (tasks s) t = Some (Waiting rs) \<and> (r, t) \<in> set ready \<and> r \<in> set rs
           then Some Runnable else arena_get (tasks s) t))
    \<and> (\<forall>t. issued (tasks s') t = issued (tasks s) t)"
  using assms
proof (induction ready arbitrary: s)
  case (Cons rt ready)
  obtain r t where rt: "rt = (r, t)" by (cases rt)
  show ?case
  proof (cases "\<exists>rs. arena_get (tasks s) t = Some (Waiting rs) \<and> r \<in> set rs")
    case False
    then have "wake_ready ops (rt # ready) s = wake_ready ops ready s"
      by (auto simp: rt split: option.splits task_slot_state.splits)
    moreover have "(\<exists>rs q. arena_get (tasks s) u = Some (Waiting rs) \<and> (q, u) \<in> set (rt # ready) \<and> q \<in> set rs)
        \<longleftrightarrow> (\<exists>rs q. arena_get (tasks s) u = Some (Waiting rs) \<and> (q, u) \<in> set ready \<and> q \<in> set rs)" for u
      using False by (auto simp: rt)
    ultimately show ?thesis using Cons.IH [OF Cons.prems] by (simp only:)
  next
    case True
    then obtain rs where live: "arena_get (tasks s) t = Some (Waiting rs)" and r: "r \<in> set rs" by blast
    have same: "tasks (remove_registrations ops rs s) = tasks s" "runnable (remove_registrations ops rs s) = runnable s"
      using removed(3) [OF scheduler_okD(2) [OF Cons.prems]] by (auto simp: same_tasks_def)
    let ?s = "(remove_registrations ops rs s)\<lparr>tasks := arena_set t (Some Runnable) (tasks s), runnable := runnable s @ [t]\<rparr>"
    have step: "wake_ready ops (rt # ready) s = wake_ready ops ready ?s"
      using live r same by (simp add: rt transition_state_eq)
    have "scheduler_ok ?s" by (rule detach_ok [OF Cons.prems live]) simp_all
    from Cons.IH [OF this] obtain s' where s': "wake_ready ops ready ?s = (Inr (), s')" "scheduler_ok s'"
      "\<forall>u. arena_get (tasks s') u =
          (if \<exists>rs r. arena_get (tasks ?s) u = Some (Waiting rs) \<and> (r, u) \<in> set ready \<and> r \<in> set rs
           then Some Runnable else arena_get (tasks ?s) u)"
      "\<forall>t. issued (tasks s') t = issued (tasks ?s) t" by blast
    note set = arena_set_ok [OF scheduler_okD(1) [OF Cons.prems] live, of Runnable]
    have "arena_get (tasks s') u =
          (if \<exists>rs r. arena_get (tasks s) u = Some (Waiting rs) \<and> (r, u) \<in> set (rt # ready) \<and> r \<in> set rs
           then Some Runnable else arena_get (tasks s) u)" for u
      using s'(3) live r by (cases "u = t") (auto simp: rt set(2))
    with s' step show ?thesis by (simp add: set(3))
  qed
qed simp

lemma ready_events_set:
  "(r, t) \<in> set (ready_events events s) \<longleftrightarrow> r \<in> set events \<and> (\<exists>i. arena_get (registrations s) r = Some (t, i))"
  by (force simp: ready_events_def in_set_map_filter)

lemma accept_events_ok:
  assumes "scheduler_ok s"
  shows "\<exists>s'. accept_events ops events s = (Inr (), s') \<and> scheduler_ok s'
    \<and> (\<forall>t. arena_get (tasks s') t =
          (if \<exists>rs. arena_get (tasks s) t = Some (Waiting rs) \<and> set rs \<inter> set events \<noteq> {}
           then Some Runnable else arena_get (tasks s) t))
    \<and> (\<forall>t. issued (tasks s') t = issued (tasks s) t)"
proof -
  have "\<exists>i. arena_get (registrations s) r = Some (t, i)"
    if "arena_get (tasks s) t = Some (Waiting rs)" "r \<in> set rs" for t rs r
    using scheduler_okD(3) [OF assms, of "Key 0 0"] that by (auto simp: links_ok_def)
  then have "(\<exists>rs r. arena_get (tasks s) t = Some (Waiting rs) \<and> (r, t) \<in> set (ready_events events s) \<and> r \<in> set rs)
      \<longleftrightarrow> (\<exists>rs. arena_get (tasks s) t = Some (Waiting rs) \<and> set rs \<inter> set events \<noteq> {})" for t
    unfolding ready_events_set by blast
  then show ?thesis
    using wake_ready_ok [OF assms, of ops "ready_events events s"] by (simp add: accept_events_def)
qed

lemma reactor_frame [simp]: "scheduler_ok (s\<lparr>reactor := re\<rparr>) = scheduler_ok s"
  by (simp add: scheduler_ok_def scheduler_ok_at_def links_ok_def queue_ok_def)

lemma next_progress_ok:
  fixes ops :: "('r, 'i, 'e) reactor_ops"
  assumes ok: "scheduler_ok s" and run: "next_progress ops s = Some (res, s')"
  shows "scheduler_ok s'"
proof -
  obtain r1 s1 where take: "(take_runnable s :: ('r, 'i, 'e, _) scheduler_result) = (r1, s1)" by (rule prod.exhaust)
  have ok1: "scheduler_ok s1" using take_runnable_ok [OF ok take] by simp
  show ?thesis
  proof (cases "\<exists>events re. r1 = Inr None \<and> has_active_registration s1 \<and> reactor_wait ops (reactor s1) = Some (Inr events, re)")
    case False
    with run take ok1 show ?thesis
      by (auto simp: next_progress_def split: sum.splits option.splits prod.splits if_splits)
  next
    case True
    then obtain events re where e: "r1 = Inr None" "has_active_registration s1"
      "reactor_wait ops (reactor s1) = Some (Inr events, re)" by blast
    have "scheduler_ok (s1\<lparr>reactor := re\<rparr>)" using ok1 by simp
    from accept_events_ok [OF this, of ops events] obtain s2 where
      s2: "accept_events ops events (s1\<lparr>reactor := re\<rparr>) = (Inr (), s2)" "scheduler_ok s2" by blast
    obtain r3 s3 where s3: "(take_runnable s2 :: ('r, 'i, 'e, _) scheduler_result) = (r3, s3)" by (rule prod.exhaust)
    have "scheduler_ok s3" using take_runnable_ok [OF s2(2) s3] by simp
    moreover have "s' = s3"
      using run take e s2(1) s3 by (auto simp: next_progress_def split: sum.splits option.splits)
    ultimately show ?thesis by simp
  qed
qed

section \<open>Suspension\<close>

lemma install_ok:
  assumes "scheduler_ok_at t installed s" and "arena_get (tasks s) t = Some Running"
    and "install_wait_set ops t interests installed s = (res, s')"
  shows "same_tasks s s' \<and>
    (case res of
       Inl _ \<Rightarrow> scheduler_ok s' \<and> (\<forall>q. arena_get (registrations s') q
          = (if q \<in> set installed then None else arena_get (registrations s) q))
     | Inr rs \<Rightarrow> scheduler_ok_at t rs s' \<and> length rs = length installed + length interests)"
  using assms
proof (induction interests arbitrary: installed s)
  case Nil
  then show ?case by (auto simp: same_tasks_def)
next
  case (Cons i interests)
  from Cons.prems(1) have ok: "arena_ok (tasks s)" "arena_ok (registrations s)" "links_ok t installed s" "queue_ok s"
    by (simp_all add: scheduler_ok_at_def)
  text \<open>Removing what was installed restores the state before the suspension.\<close>
  have undo: "scheduler_ok (remove_registrations ops (rev installed) u) \<and> same_tasks s (remove_registrations ops (rev installed) u)
      \<and> (\<forall>q. arena_get (registrations (remove_registrations ops (rev installed) u)) q
           = (if q \<in> set installed then None else arena_get (registrations s) q))"
    if u: "same_tasks s u" "arena_ok (registrations u)" "\<forall>q. arena_get (registrations u) q = arena_get (registrations s) q" for u
  proof -
    let ?u = "remove_registrations ops (rev installed) u"
    have tasks: "tasks ?u = tasks s" "runnable ?u = runnable s"
      using removed(3) [OF u(2)] u(1) by (auto simp: same_tasks_def)
    have regs: "arena_get (registrations ?u) q = (if q \<in> set installed then None else arena_get (registrations s) q)" for q
      using removed(2) [OF u(2), of ops "rev installed" q] u(3) by simp
    have "links_ok (Key 0 0) [] ?u"
      unfolding links_ok_def tasks
    proof (intro conjI allI impI)
      fix q v j assume "arena_get (registrations ?u) q = Some (v, j)"
      then have "q \<notin> set installed" "arena_get (registrations s) q = Some (v, j)" by (auto simp: regs split: if_splits)
      with ok(3) show "v = Key 0 0 \<and> q \<in> set [] \<or> (\<exists>rs. arena_get (tasks s) v = Some (Waiting rs) \<and> q \<in> set rs)"
        by (auto simp: links_ok_def)
    next
      fix v rs assume v: "arena_get (tasks s) v = Some (Waiting rs)"
      with ok(3) have rs: "rs \<noteq> []" "distinct rs" "\<forall>q \<in> set rs. \<exists>j. arena_get (registrations s) q = Some (v, j)"
        by (simp_all add: links_ok_def)
      then show "rs \<noteq> []" "distinct rs" by simp_all
      have "v \<noteq> t" using v Cons.prems(2) by auto
      have "q \<notin> set installed" if "q \<in> set rs" for q
      proof
        assume "q \<in> set installed"
        with ok(3) obtain j where "arena_get (registrations s) q = Some (t, j)" by (auto simp: links_ok_def)
        with rs(3) that \<open>v \<noteq> t\<close> show False by auto
      qed
      with rs(3) show "\<forall>q \<in> set rs. \<exists>j. arena_get (registrations ?u) q = Some (v, j)" by (simp add: regs)
    qed simp_all
    moreover have "queue_ok ?u" using ok(4) by (simp add: queue_ok_def tasks)
    ultimately show ?thesis
      using ok(1) removed(1) [OF u(2)] regs tasks by (simp add: scheduler_ok_def scheduler_ok_at_def same_tasks_def)
  qed
  show ?case
  proof (cases "arena_alloc (t, i) (registrations s)")
    case None
    with Cons.prems(3) undo [of s] ok(2) show ?thesis
      by (auto simp: allocate_registration_def same_tasks_def)
  next
    case (Some ra)
    obtain r a where alloc: "arena_alloc (t, i) (registrations s) = Some (r, a)" using Some by (cases ra) auto
    note new = arena_alloc_ok [OF ok(2) alloc]
    obtain reply re where reg: "reactor_register ops r i (reactor s) = (reply, re)"
      by (cases "reactor_register ops r i (reactor s)")
    show ?thesis
    proof (cases reply)
      case (Inl e)
      have live: "arena_get a r = Some (t, i)" by (simp add: new(4))
      note rel = arena_release_ok [OF new(1) live]
      let ?u = "release_registration r (s\<lparr>registrations := a, reactor := re\<rparr>)"
      have "arena_get (registrations ?u) q = arena_get (registrations s) q" for q
        using new(3) by (simp add: release_registration_def rel(2) new(4))
      with undo [of ?u] rel(1) have "scheduler_ok (remove_registrations ops (rev installed) ?u)
          \<and> same_tasks s (remove_registrations ops (rev installed) ?u)
          \<and> (\<forall>q. arena_get (registrations (remove_registrations ops (rev installed) ?u)) q
               = (if q \<in> set installed then None else arena_get (registrations s) q))"
        by (simp add: release_registration_def same_tasks_def)
      with Cons.prems(3) alloc reg Inl show ?thesis by (auto simp: allocate_registration_def)
    next
      case (Inr unit)
      let ?u = "s\<lparr>registrations := a, reactor := re\<rparr>"
      have fresh: "r \<notin> set installed" using ok(3) new(3) by (auto simp: links_ok_def)
      have "links_ok t (installed @ [r]) ?u"
        using ok(3) new(3) fresh unfolding links_ok_def by (auto simp: new(4) split: if_splits) fastforce+
      then have at: "scheduler_ok_at t (installed @ [r]) ?u"
        using ok new(1) by (simp add: scheduler_ok_at_def queue_ok_def)
      have run: "install_wait_set ops t interests (installed @ [r]) ?u = (res, s')"
        using Cons.prems(3) alloc reg Inr by (simp add: allocate_registration_def)
      have "arena_get (tasks ?u) t = Some Running" using Cons.prems(2) by simp
      from Cons.IH [OF at this run] new(3,4) show ?thesis
        by (auto simp: same_tasks_def split: sum.splits)
    qed
  qed
qed

lemma suspend_ok:
  fixes ops :: "('r, 'i, 'e) reactor_ops"
  assumes ok: "scheduler_ok s" and run: "suspend ops t interests s = (res, s')"
  shows "scheduler_ok s' \<and>
    (case res of
       Inl _ \<Rightarrow> same_tasks s s' \<and> (\<forall>q. arena_get (registrations s') q = arena_get (registrations s) q)
     | Inr rs \<Rightarrow> arena_get (tasks s) t = Some Running \<and> arena_get (tasks s') t = Some (Waiting rs)
         \<and> length rs = length interests \<and> rs \<noteq> []
         \<and> (\<forall>u. u \<noteq> t \<longrightarrow> arena_get (tasks s') u = arena_get (tasks s) u) \<and> runnable s' = runnable s)"
proof (cases "arena_get (tasks s) t = Some Running \<and> interests \<noteq> []")
  case False
  with run ok show ?thesis
    by (auto simp: suspend_def require_state_def task_state_of_def same_tasks_def
        split: option.splits if_splits)
next
  case True
  then have live: "arena_get (tasks s) t = Some Running" and ne: "interests \<noteq> []" by simp_all
  obtain r1 :: "'e scheduler_error + registration_id list" and s1
    where inst: "install_wait_set ops t interests [] s = (r1, s1)" by (rule prod.exhaust)
  have at: "scheduler_ok_at t [] s" using ok by (simp add: scheduler_ok_any [of s t])
  note inst_ok = install_ok [OF at live inst]
  have req: "(require_state t StateRunning s :: 'e scheduler_error + unit) = Inr ()" using live by (simp add: require_state_def task_state_of_def)
  show ?thesis
  proof (cases r1)
    case (Inl e)
    with run req ne inst have "res = Inl e" "s' = s1" by (auto simp: suspend_def)
    with inst_ok Inl show ?thesis by simp
  next
    case (Inr rs)
    with inst_ok have s1: "scheduler_ok_at t rs s1" "length rs = length interests" "tasks s1 = tasks s"
      "runnable s1 = runnable s" by (auto simp: same_tasks_def)
    then have okD: "arena_ok (tasks s)" "arena_ok (registrations s1)" "links_ok t rs s1" "queue_ok s1"
      by (simp_all add: scheduler_ok_at_def)
    note set = arena_set_ok [OF okD(1) live]
    let ?s = "s1\<lparr>tasks := arena_set t (Some (Waiting rs)) (tasks s)\<rparr>"
    have res: "res = Inr rs" "s' = ?s"
      using run req ne inst Inr s1(3) live by (simp_all add: suspend_def transition_state_eq)
    have ne_rs: "rs \<noteq> []" using s1(2) ne by auto
    have "links_ok (Key 0 0) [] ?s"
      unfolding links_ok_def
    proof (intro conjI allI impI)
      fix q u i assume "arena_get (registrations ?s) q = Some (u, i)"
      then have "arena_get (registrations s1) q = Some (u, i)" by simp
      with okD(3) have "u = t \<and> q \<in> set rs \<or> (\<exists>ws. arena_get (tasks s) u = Some (Waiting ws) \<and> q \<in> set ws)"
        by (auto simp: links_ok_def s1(3))
      with live show "u = Key 0 0 \<and> q \<in> set [] \<or> (\<exists>ws. arena_get (tasks ?s) u = Some (Waiting ws) \<and> q \<in> set ws)"
        by (auto simp: set(2))
    next
      fix u ws assume u: "arena_get (tasks ?s) u = Some (Waiting ws)"
      have "ws \<noteq> [] \<and> distinct ws \<and> (\<forall>q \<in> set ws. \<exists>i. arena_get (registrations s1) q = Some (u, i))"
      proof (cases "u = t")
        case True
        with u have "ws = rs" by (simp add: set(2))
        with True okD(3) ne_rs show ?thesis by (simp add: links_ok_def)
      next
        case False
        with u have "arena_get (tasks s1) u = Some (Waiting ws)" by (simp add: set(2) s1(3))
        with okD(3) show ?thesis by (simp add: links_ok_def)
      qed
      then show "ws \<noteq> []" "distinct ws" "\<forall>q \<in> set ws. \<exists>i. arena_get (registrations ?s) q = Some (u, i)" by simp_all
    qed simp_all
    moreover have "queue_ok ?s"
      using okD(4) queued [OF ok live] by (auto simp: queue_ok_def set(2,3) s1(3,4))
    ultimately show ?thesis
      using okD set(1) live s1(2,4) ne_rs by (simp add: scheduler_ok_def scheduler_ok_at_def res set(2))
  qed
qed

section \<open>Shutdown\<close>

lemma enumerate_eq_map: "enumerate n xs = map (\<lambda>i. (n + i, xs ! i)) [0..<length xs]"
  by (rule nth_equalityI) (auto simp: nth_enumerate_eq)

lemma retained_eq:
  "retained_tasks s = List.map_filter
     (\<lambda>i. map_option (\<lambda>_. Key i (fst (slots (tasks s) ! i))) (snd (slots (tasks s) ! i))) [0..<length (slots (tasks s))]"
  by (simp add: retained_tasks_def enumerate_eq_map List.map_filter_def filter_map comp_def case_prod_beta)

lemma in_retained: "t \<in> set (retained_tasks s) \<longleftrightarrow> arena_get (tasks s) t \<noteq> None"
  by (cases t) (auto simp: retained_eq in_set_map_filter arena_get_Some prod_eq_iff)

lemma distinct_map_filter:
  "distinct xs \<Longrightarrow> (\<And>x y z. f x = Some z \<Longrightarrow> f y = Some z \<Longrightarrow> x = y) \<Longrightarrow> distinct (List.map_filter f xs)"
  by (induction xs) (fastforce simp: map_filter_simps in_set_map_filter split: option.splits)+

lemma distinct_retained: "distinct (retained_tasks s)"
  unfolding retained_eq by (rule distinct_map_filter) auto

text \<open>The owner of a registration waits for it.\<close>

lemma link_waits:
  assumes "scheduler_ok s" and "arena_get (registrations s) r = Some (u, i)"
  shows "\<exists>rs. arena_get (tasks s) u = Some (Waiting rs) \<and> r \<in> set rs"
  using scheduler_okD(3) [OF assms(1), of "Key 0 0"] assms(2) by (auto simp: links_ok_def)

text \<open>The task states cancellation accepts, and what it publishes for them.\<close>

fun cleanup :: "task_slot_state \<Rightarrow> cancellation_kind" where
  "cleanup Completed = CompletedOutput"
| "cleanup _ = PendingFrame"

definition cancellable :: "task_slot_state \<Rightarrow> bool" where
  "cancellable st \<longleftrightarrow> st = Runnable \<or> waits st \<or> st = Completed"

lemma cancel_effect:
  assumes ok: "scheduler_ok s" and live: "arena_get (tasks s) t = Some st"
  shows "cancellable st \<Longrightarrow> \<exists>s'. cancel ops t s = (Inr (cleanup st), s') \<and> scheduler_ok s'
      \<and> (\<forall>u. arena_get (tasks s') u = (if u = t then Some (Cancelling (cleanup st)) else arena_get (tasks s) u))
      \<and> (\<forall>r i. arena_get (registrations s') r \<noteq> Some (t, i))"
    and "\<not> cancellable st \<Longrightarrow> cancel ops t s = (Inl (InvalidTaskState t (public_state st)), s)"
proof -
  note okD = scheduler_okD [OF ok]
  note eq = cancel_eq [OF okD(2), of ops t]
  note set = arena_set_ok [OF okD(1) live]
  show "\<not> cancellable st \<Longrightarrow> cancel ops t s = (Inl (InvalidTaskState t (public_state st)), s)"
    using eq live by (cases st) (auto simp: cancellable_def)
  assume c: "cancellable st"
  obtain res s' where run: "cancel ops t s = (res, s')" by (rule prod.exhaust)
  have ok': "scheduler_ok s'" using cancel_ok [OF ok run] .
  have "res = Inr (cleanup st) \<and> tasks s' = arena_set t (Some (Cancelling (cleanup st))) (tasks s)"
    using eq run live c by (cases st) (auto simp: cancellable_def)
  moreover from this have "\<forall>u. arena_get (tasks s') u
      = (if u = t then Some (Cancelling (cleanup st)) else arena_get (tasks s) u)" by (simp add: set(2))
  moreover from this have "arena_get (tasks s') t \<noteq> Some (Waiting rs)" for rs by simp
  then have "\<forall>r i. arena_get (registrations s') r \<noteq> Some (t, i)"
    using link_waits [OF ok'] by blast
  ultimately show "\<exists>s'. cancel ops t s = (Inr (cleanup st), s') \<and> scheduler_ok s'
      \<and> (\<forall>u. arena_get (tasks s') u = (if u = t then Some (Cancelling (cleanup st)) else arena_get (tasks s) u))
      \<and> (\<forall>r i. arena_get (registrations s') r \<noteq> Some (t, i))"
    using run ok' by auto
qed

lemma cancel_all_effect:
  assumes "scheduler_ok s" and "distinct ts" and "\<forall>t \<in> set ts. \<exists>st. arena_get (tasks s) t = Some st \<and> cancellable st"
  shows "\<exists>s'. cancel_all ops ts s = (Inr (map (\<lambda>t. (t, cleanup (the (arena_get (tasks s) t)))) ts), s') \<and> scheduler_ok s'
    \<and> (\<forall>u. arena_get (tasks s') u = (if u \<in> set ts then Some (Cancelling (cleanup (the (arena_get (tasks s) u))))
         else arena_get (tasks s) u))"
  using assms
proof (induction ts arbitrary: s)
  case (Cons t ts)
  then obtain st where st: "arena_get (tasks s) t = Some st" "cancellable st" by auto
  from cancel_effect(1) [OF Cons.prems(1) st, of ops] obtain s1 where
    s1: "cancel ops t s = (Inr (cleanup st), s1)" "scheduler_ok s1"
    "\<forall>u. arena_get (tasks s1) u = (if u = t then Some (Cancelling (cleanup st)) else arena_get (tasks s) u)" by blast
  have "\<forall>u \<in> set ts. \<exists>st. arena_get (tasks s1) u = Some st \<and> cancellable st"
    using Cons.prems(2,3) s1(3) by auto
  from Cons.IH [OF s1(2) _ this] Cons.prems(2) obtain s' where
    s': "cancel_all ops ts s1 = (Inr (map (\<lambda>t. (t, cleanup (the (arena_get (tasks s1) t)))) ts), s')" "scheduler_ok s'"
    "\<forall>u. arena_get (tasks s') u = (if u \<in> set ts then Some (Cancelling (cleanup (the (arena_get (tasks s1) u))))
         else arena_get (tasks s1) u)" by auto
  have "map (\<lambda>t. (t, cleanup (the (arena_get (tasks s1) t)))) ts = map (\<lambda>t. (t, cleanup (the (arena_get (tasks s) t)))) ts"
    using s1(3) Cons.prems(2) by (intro map_cong) auto
  with s1 s' st Cons.prems(2) show ?case by auto
qed simp

text \<open>Shutdown either refuses without any change, or cancels every retained task.\<close>

lemma begin_shutdown_effect:
  assumes ok: "scheduler_ok s"
  shows "(\<exists>t st. arena_get (tasks s) t = Some st \<and> \<not> cancellable st
        \<and> begin_shutdown ops s = (Inl (InvalidTaskState t (public_state st)), s))
    \<or> (\<exists>s'. begin_shutdown ops s
          = (Inr (map (\<lambda>t. (t, cleanup (the (arena_get (tasks s) t)))) (retained_tasks s)), s')
        \<and> scheduler_ok s'
        \<and> (\<forall>u. arena_get (tasks s') u = map_option (\<lambda>st. Cancelling (cleanup st)) (arena_get (tasks s) u))
        \<and> (\<forall>r. arena_get (registrations s') r = None))"
proof -
  note okD = scheduler_okD [OF ok]
  have "\<not> list_ex (\<lambda>t. id_limit \<le> slot_of t) (retained_tasks s)"
    using okD(1) by (auto simp: list_ex_iff in_retained arena_get_Some arena_ok_def dest: spec)
  let ?busy = "List.map_filter (\<lambda>t. map_option (\<lambda>actual. (t, actual)) (busy s t)) (retained_tasks s)"
  have busy: "busy s t = (case arena_get (tasks s) t of None \<Rightarrow> None
      | Some st \<Rightarrow> if cancellable st then None else Some (public_state st))" for t
  proof (cases "arena_get (tasks s) t")
    case (Some st)
    then show ?thesis by (cases st) (auto simp: busy_def task_state_of_def cancellable_def)
  qed (simp add: busy_def task_state_of_def)
  show ?thesis
  proof (cases ?busy)
    case (Cons ta rest)
    then have "ta \<in> set ?busy" by simp
    then obtain t st where "ta = (t, public_state st)" "arena_get (tasks s) t = Some st" "\<not> cancellable st"
      by (auto simp: in_set_map_filter busy split: option.splits if_splits)
    with Cons \<open>\<not> list_ex _ _\<close> show ?thesis by (auto simp: begin_shutdown_def)
  next
    case Nil
    then have "\<forall>t \<in> set (retained_tasks s). \<exists>st. arena_get (tasks s) t = Some st \<and> cancellable st"
      by (auto simp: filter_empty_conv List.map_filter_def busy in_retained split: option.splits if_splits)
        (metis in_retained option.distinct(1))
    from cancel_all_effect [OF ok distinct_retained this, of ops] obtain s' where s':
      "cancel_all ops (retained_tasks s) s
        = (Inr (map (\<lambda>t. (t, cleanup (the (arena_get (tasks s) t)))) (retained_tasks s)), s')"
      "scheduler_ok s'"
      "\<forall>u. arena_get (tasks s') u = (if u \<in> set (retained_tasks s)
         then Some (Cancelling (cleanup (the (arena_get (tasks s) u)))) else arena_get (tasks s) u)" by blast
    have tasks: "arena_get (tasks s') u = map_option (\<lambda>st. Cancelling (cleanup st)) (arena_get (tasks s) u)" for u
      using s'(3) by (cases "arena_get (tasks s) u") (auto simp: in_retained)
    moreover have "arena_get (registrations s') r = None" for r
    proof (cases "arena_get (registrations s') r")
      case (Some ui)
      with scheduler_okD(3) [OF s'(2), of "Key 0 0"] tasks show ?thesis
        by (cases ui) (fastforce simp: links_ok_def)
    qed
    moreover have "begin_shutdown ops s = cancel_all ops (retained_tasks s) s"
      using Nil \<open>\<not> list_ex _ _\<close> by (simp add: begin_shutdown_def)
    ultimately show ?thesis using s'(1,2) by auto
  qed
qed

end
