(* ===== verification/Scheduler_Steps.thy ===== *)
theory Scheduler_Steps
  imports Scheduler_Invariant
begin

text \<open>
  The task scheduler as a transition system: one step per public operation of
  \<^verbatim>\<open>nocter-task-runtime/src/scheduler.rs\<close>, whatever its result. The properties of the scheduler hold in every
  state it can reach.
\<close>

inductive scheduler_step :: "('r, 'i, 'e) reactor_ops \<Rightarrow> ('r, 'i) scheduler \<Rightarrow> ('r, 'i) scheduler \<Rightarrow> bool"
  for ops :: "('r, 'i, 'e) reactor_ops" where
  step_spawn: "(spawn s :: ('r, 'i, 'e, _) scheduler_result) = (res, s') \<Longrightarrow> scheduler_step ops s s'"
| step_progress: "next_progress ops s = Some (res, s') \<Longrightarrow> scheduler_step ops s s'"
| step_yield: "(yield_now t s :: ('r, 'i, 'e, _) scheduler_result) = (res, s') \<Longrightarrow> scheduler_step ops s s'"
| step_suspend: "suspend ops t interests s = (res, s') \<Longrightarrow> scheduler_step ops s s'"
| step_complete: "(complete t s :: ('r, 'i, 'e, _) scheduler_result) = (res, s') \<Longrightarrow> scheduler_step ops s s'"
| step_cancel: "cancel ops t s = (res, s') \<Longrightarrow> scheduler_step ops s s'"
| step_finish: "(finish_cancellation t s :: ('r, 'i, 'e, _) scheduler_result) = (res, s') \<Longrightarrow> scheduler_step ops s s'"
| step_consume: "(consume_completed t s :: ('r, 'i, 'e, _) scheduler_result) = (res, s') \<Longrightarrow> scheduler_step ops s s'"
| step_shutdown: "begin_shutdown ops s = (res, s') \<Longrightarrow> scheduler_step ops s s'"

definition scheduler_start :: "('r, 'i) scheduler \<Rightarrow> bool" where
  "scheduler_start s \<longleftrightarrow> (\<exists>r. s = scheduler_new r)"

abbreviation scheduler_reachable :: "('r, 'i, 'e) reactor_ops \<Rightarrow> ('r, 'i) scheduler \<Rightarrow> bool" where
  "scheduler_reachable ops \<equiv> reachable_from scheduler_start (scheduler_step ops)"

lemma begin_shutdown_ok:
  assumes "scheduler_ok s" and "begin_shutdown ops s = (res, s')"
  shows "scheduler_ok s'"
  using begin_shutdown_effect [OF assms(1), of ops] assms by auto

lemma scheduler_step_ok:
  assumes "scheduler_ok s" and "scheduler_step ops s s'"
  shows "scheduler_ok s'"
  using assms(2,1)
  by cases (blast intro: spawn_ok next_progress_ok yield_now_ok suspend_ok [THEN conjunct1] complete_ok cancel_ok
      finish_cancellation_ok consume_completed_ok begin_shutdown_ok)+

interpretation scheduler: transition_system scheduler_start "scheduler_step ops" scheduler_ok
  for ops :: "('r, 'i, 'e) reactor_ops"
  by unfold_locales (auto simp: scheduler_start_def scheduler_ok_new intro: scheduler_step_ok)

section \<open>Issued identities\<close>

text \<open>No operation forgets an identity it issued.\<close>

definition keeps_issued :: "('r, 'i) scheduler \<Rightarrow> ('r, 'i) scheduler \<Rightarrow> bool" where
  "keeps_issued s s' \<longleftrightarrow> (\<forall>t. issued (tasks s) t \<longrightarrow> issued (tasks s') t)"

lemma keeps_issued_refl [simp]: "keeps_issued s s"
  by (simp add: keeps_issued_def)

lemma keeps_issued_trans: "keeps_issued s u \<Longrightarrow> keeps_issued u v \<Longrightarrow> keeps_issued s v"
  by (simp add: keeps_issued_def)

lemma keeps_issued_set:
  assumes "scheduler_ok s" and "arena_get (tasks s) t = Some st"
  shows "tasks s' = arena_set t (Some st') (tasks s) \<Longrightarrow> keeps_issued s s'"
  using arena_set_ok(3) [OF scheduler_okD(1) [OF assms(1)] assms(2)] by (simp add: keeps_issued_def)

lemma transition_keeps_issued:
  "scheduler_ok s \<Longrightarrow> transition_state t expected st s = (res, s') \<Longrightarrow> keeps_issued s s'"
  by (auto simp: transition_state_eq split: option.splits if_splits intro: keeps_issued_set)

lemma spawn_issued:
  assumes "scheduler_ok s" and "spawn s = (Inr t, s')"
  shows "\<not> issued (tasks s) t" and "issued (tasks s') t"
proof -
  from assms(2) obtain a where "arena_alloc Runnable (tasks s) = Some (t, a)" "tasks s' = a"
    by (auto simp: spawn_def split: option.splits)
  with arena_alloc_ok(2,5) [OF scheduler_okD(1) [OF assms(1)]]
  show "\<not> issued (tasks s) t" "issued (tasks s') t" by blast+
qed

lemma spawn_keeps_issued:
  assumes "scheduler_ok s" and "spawn s = (res, s')"
  shows "keeps_issued s s'"
  using assms arena_alloc_ok(5) [OF scheduler_okD(1) [OF assms(1)]]
  by (auto simp: spawn_def keeps_issued_def split: option.splits)

lemma take_runnable_keeps_issued:
  assumes "scheduler_ok s" and "take_runnable s = (res, s')"
  shows "keeps_issued s s'"
proof (cases "dropWhile (\<lambda>t. arena_get (tasks s) t \<noteq> Some Runnable) (runnable s)")
  case Nil
  with assms(2) show ?thesis by (auto simp: take_runnable_def take_runnable_from_eq keeps_issued_def)
next
  case (Cons t rest)
  then have "arena_get (tasks s) t = Some Runnable" by (auto simp: dropWhile_eq_Cons_conv)
  with Cons assms show ?thesis
    by (auto simp: take_runnable_def take_runnable_from_eq intro: keeps_issued_set)
qed

lemma next_progress_keeps_issued:
  fixes ops :: "('r, 'i, 'e) reactor_ops"
  assumes ok: "scheduler_ok s" and run: "next_progress ops s = Some (res, s')"
  shows "keeps_issued s s'"
proof -
  obtain r1 s1 where take: "(take_runnable s :: ('r, 'i, 'e, _) scheduler_result) = (r1, s1)" by (rule prod.exhaust)
  have s1: "scheduler_ok s1" "keeps_issued s s1"
    using take_runnable_ok [OF ok take] take_runnable_keeps_issued [OF ok take] by simp_all
  show ?thesis
  proof (cases "\<exists>events re. r1 = Inr None \<and> has_active_registration s1 \<and> reactor_wait ops (reactor s1) = Some (Inr events, re)")
    case False
    with run take s1(2) show ?thesis
      by (auto simp: next_progress_def keeps_issued_def split: sum.splits option.splits prod.splits if_splits)
  next
    case True
    then obtain events re where e: "r1 = Inr None" "has_active_registration s1"
      "reactor_wait ops (reactor s1) = Some (Inr events, re)" by blast
    have "scheduler_ok (s1\<lparr>reactor := re\<rparr>)" using s1(1) by simp
    from accept_events_ok [OF this, of ops events] obtain s2 where
      s2: "accept_events ops events (s1\<lparr>reactor := re\<rparr>) = (Inr (), s2)" "scheduler_ok s2"
      "\<forall>t. issued (tasks s2) t = issued (tasks s1) t" by auto
    obtain r3 s3 where s3: "(take_runnable s2 :: ('r, 'i, 'e, _) scheduler_result) = (r3, s3)" by (rule prod.exhaust)
    have "s' = s3"
      using run take e s2(1) s3 by (auto simp: next_progress_def split: sum.splits option.splits)
    with s1(2) s2(3) take_runnable_keeps_issued [OF s2(2) s3] show ?thesis by (simp add: keeps_issued_def)
  qed
qed

lemma release_keeps_issued:
  assumes "scheduler_ok s" and "arena_get (tasks s) t = Some st"
  shows "keeps_issued s (release_task t s)"
  using arena_release_ok(3) [OF scheduler_okD(1) [OF assms(1)] assms(2)] by (simp add: keeps_issued_def release_task_def)

lemma suspend_keeps_issued:
  fixes ops :: "('r, 'i, 'e) reactor_ops"
  assumes ok: "scheduler_ok s" and run: "suspend ops t interests s = (res, s')"
  shows "keeps_issued s s'"
proof (cases "arena_get (tasks s) t = Some Running \<and> interests \<noteq> []")
  case False
  with run show ?thesis
    by (auto simp: suspend_def require_state_def task_state_of_def split: option.splits if_splits)
next
  case True
  then have live: "arena_get (tasks s) t = Some Running" by simp
  obtain r1 :: "'e scheduler_error + registration_id list" and s1
    where inst: "install_wait_set ops t interests [] s = (r1, s1)" by (rule prod.exhaust)
  have "scheduler_ok_at t [] s" using ok by (simp add: scheduler_ok_any [of s t])
  with install_ok [OF _ live inst] have s1: "tasks s1 = tasks s" by (auto simp: same_tasks_def)
  have "tasks s' = tasks s \<or> (\<exists>rs. tasks s' = arena_set t (Some (Waiting rs)) (tasks s))"
    using run inst s1 live
    by (auto simp: suspend_def transition_state_eq split: sum.splits if_splits)
  then show ?thesis using keeps_issued_set [OF ok live] by (auto simp: keeps_issued_def)
qed

lemma cancel_keeps_issued:
  assumes ok: "scheduler_ok s" and run: "cancel ops t s = (res, s')"
  shows "keeps_issued s s'"
  using cancel_eq [OF scheduler_okD(2) [OF ok], of ops t] run keeps_issued_set [OF ok, of t]
  by (auto split: option.splits task_slot_state.splits)

lemma cancel_all_keeps_issued:
  "scheduler_ok s \<Longrightarrow> cancel_all ops ts s = (res, s') \<Longrightarrow> keeps_issued s s'"
proof (induction ts arbitrary: s res s')
  case (Cons t ts)
  obtain r1 :: "'c scheduler_error + cancellation_kind" and s1 where
    c: "cancel ops t s = (r1, s1)" by (rule prod.exhaust)
  obtain r2 :: "'c scheduler_error + (task_id \<times> cancellation_kind) list" and s2 where
    all: "cancel_all ops ts s1 = (r2, s2)" by (rule prod.exhaust)
  have "keeps_issued s s1" "keeps_issued s1 s2"
    using cancel_keeps_issued [OF Cons.prems(1) c] Cons.IH [OF cancel_ok [OF Cons.prems(1) c] all] .
  with Cons.prems(2) c all show ?case by (auto split: sum.splits intro: keeps_issued_trans)
qed simp

lemma shutdown_keeps_issued:
  "scheduler_ok s \<Longrightarrow> begin_shutdown ops s = (res, s') \<Longrightarrow> keeps_issued s s'"
  by (auto simp: begin_shutdown_def split: if_splits list.splits intro: cancel_all_keeps_issued)

lemma scheduler_step_keeps_issued:
  assumes "scheduler_ok s" and "scheduler_step ops s s'"
  shows "keeps_issued s s'"
  using assms(2)
proof cases
  case (step_yield t res)
  with transition_keeps_issued [OF assms(1), of t StateRunning Runnable] show ?thesis
    by (fastforce simp: yield_now_def keeps_issued_def split: prod.splits sum.splits)
next
  case (step_complete t res)
  with transition_keeps_issued [OF assms(1)] show ?thesis by (auto simp: complete_def)
next
  case (step_finish t res)
  with release_keeps_issued [OF assms(1)] show ?thesis
    by (auto simp: finish_cancellation_def task_state_of_def split: option.splits task_state.splits)
next
  case (step_consume t res)
  with release_keeps_issued [OF assms(1)] show ?thesis
    by (auto simp: consume_completed_def require_state_def task_state_of_def split: option.splits if_splits)
qed (use assms(1) in \<open>blast intro: spawn_keeps_issued next_progress_keeps_issued suspend_keeps_issued
  cancel_keeps_issued shutdown_keeps_issued\<close>)+

lemma steps_keep_issued:
  "(scheduler_step ops)\<^sup>*\<^sup>* s s' \<Longrightarrow> scheduler_ok s \<Longrightarrow> scheduler_ok s' \<and> keeps_issued s s'"
  by (induction rule: rtranclp_induct)
    (auto intro: scheduler_step_ok scheduler_step_keeps_issued keeps_issued_trans)

section \<open>Properties\<close>

lemma registration_iff:
  assumes "scheduler_ok s"
  shows "(\<exists>i. arena_get (registrations s) r = Some (t, i))
    \<longleftrightarrow> (\<exists>rs. arena_get (tasks s) t = Some (Waiting rs) \<and> r \<in> set rs)"
  using link_waits [OF assms] scheduler_okD(3) [OF assms, of "Key 0 0"] by (auto simp: links_ok_def)


text \<open>A run: one task is spawned, resumed and suspended on two interests; the reactor lists them.\<close>

definition demo_ops :: "((registration_id \<times> nat) list, nat, nat) reactor_ops" where
  "demo_ops = \<lparr>reactor_register = (\<lambda>r i q. if i < 100 then (Inr (), (r, i) # q) else (Inl i, q)),
     reactor_deregister = (\<lambda>r i q. filter (\<lambda>e. e \<noteq> (r, i)) q),
     reactor_wait = (\<lambda>q. Some (Inr (map fst q), q))\<rparr>"

definition demo_running :: "((registration_id \<times> nat) list, nat) scheduler" where
  "demo_running = \<lparr>reactor = [], tasks = \<lparr>slots = [(0, Some Running)], free_slots = []\<rparr>,
     registrations = arena_empty, runnable = []\<rparr>"

definition demo_waiting :: "((registration_id \<times> nat) list, nat) scheduler" where
  "demo_waiting = \<lparr>reactor = [(Key 1 0, 7), (Key 0 0, 5)],
     tasks = \<lparr>slots = [(0, Some (Waiting [Key 0 0, Key 1 0]))], free_slots = []\<rparr>,
     registrations = \<lparr>slots = [(0, Some (Key 0 0, 5)), (0, Some (Key 0 0, 7))], free_slots = []\<rparr>, runnable = []\<rparr>"

lemmas demo_simps = spawn_def next_progress_def take_runnable_def task_state_of_def transition_state_def require_state_def
  store_state_def owns_slot_def suspend_def allocate_registration_def arena_alloc_def arena_get_def arena_set_def
  list_get_def scheduler_new_def arena_empty_def Let_def id_limit_def

lemma demo_run:
  "(spawn (scheduler_new []) :: (_, nat, nat, _) scheduler_result)
     = (Inr (Key 0 0), demo_running\<lparr>tasks := \<lparr>slots = [(0, Some Runnable)], free_slots = []\<rparr>, runnable := [Key 0 0]\<rparr>)"
  "next_progress demo_ops (demo_running\<lparr>tasks := \<lparr>slots = [(0, Some Runnable)], free_slots = []\<rparr>, runnable := [Key 0 0]\<rparr>)
     = Some (Inr (Resume (Key 0 0)), demo_running)"
  "suspend demo_ops (Key 0 0) [5, 7] demo_running = (Inr [Key 0 0, Key 1 0], demo_waiting)"
  by (simp_all add: demo_simps demo_running_def demo_ops_def demo_waiting_def)

lemma demo_reachable: "scheduler_reachable demo_ops demo_running" "scheduler_reachable demo_ops demo_waiting"
proof -
  have "scheduler_reachable demo_ops (scheduler_new [])"
    by (rule reachable_start) (auto simp: scheduler_start_def)
  from reachable_step [OF this step_spawn [OF demo_run(1)]]
  show run: "scheduler_reachable demo_ops demo_running"
    by (rule reachable_step) (rule step_progress [OF demo_run(2)])
  show "scheduler_reachable demo_ops demo_waiting"
    by (rule reachable_step [OF run step_suspend [OF demo_run(3)]])
qed


text \<open>
  C28: Delivering events never fails; it makes runnable exactly the waiting tasks whose wait set holds
  one of the events, and detaches all registrations of those tasks and no others. A stale event wakes
  nothing.
\<close>

theorem events_wake_their_tasks:
  assumes "scheduler_reachable ops s"
  shows "\<exists>s'. accept_events ops events s = (Inr (), s')
    \<and> (\<forall>t. arena_get (tasks s') t =
          (if \<exists>rs. arena_get (tasks s) t = Some (Waiting rs) \<and> set rs \<inter> set events \<noteq> {}
           then Some Runnable else arena_get (tasks s) t))
    \<and> (\<forall>r t. (\<exists>i. arena_get (registrations s') r = Some (t, i)) \<longleftrightarrow>
          (\<exists>i. arena_get (registrations s) r = Some (t, i)) \<and> arena_get (tasks s') t \<noteq> Some Runnable)"
proof -
  have ok: "scheduler_ok s" by (rule scheduler.reachable_inv [OF assms])
  from accept_events_ok [OF ok, of ops events] obtain s' where s': "accept_events ops events s = (Inr (), s')"
    "scheduler_ok s'" and tasks: "\<And>t. arena_get (tasks s') t =
          (if \<exists>rs. arena_get (tasks s) t = Some (Waiting rs) \<and> set rs \<inter> set events \<noteq> {}
           then Some Runnable else arena_get (tasks s) t)" by auto
  have "(\<exists>i. arena_get (registrations s') r = Some (t, i)) \<longleftrightarrow>
      (\<exists>i. arena_get (registrations s) r = Some (t, i)) \<and> arena_get (tasks s') t \<noteq> Some Runnable" for r t
    unfolding registration_iff [OF ok] registration_iff [OF s'(2)] tasks [of t] by auto
  with s'(1) tasks show ?thesis by blast
qed

lemma events_wake_their_tasks_witness:
  "\<exists>s'. accept_events demo_ops [Key 1 0, Key 9 9] demo_waiting = (Inr (), s')
    \<and> arena_get (tasks s') (Key 0 0) = Some Runnable"
proof -
  have waiting: "arena_get (tasks demo_waiting) (Key 0 0) = Some (Waiting [Key 0 0, Key 1 0])"
    by (simp add: demo_waiting_def arena_get_def list_get_def)
  from events_wake_their_tasks [OF demo_reachable(2), of "[Key 1 0, Key 9 9]"] obtain s' where
    "accept_events demo_ops [Key 1 0, Key 9 9] demo_waiting = (Inr (), s')"
    "\<And>t. arena_get (tasks s') t =
          (if \<exists>rs. arena_get (tasks demo_waiting) t = Some (Waiting rs) \<and> set rs \<inter> set [Key 1 0, Key 9 9] \<noteq> {}
           then Some Runnable else arena_get (tasks demo_waiting) t)" by blast
  then show ?thesis using waiting by auto
qed

text \<open>
  C29: Suspending is atomic: when it fails, whatever fails, the tasks, the run queue and the active
  registrations are those before the call; when it succeeds, the task was running and waits on one new
  registration per interest, and no other task changed.
\<close>

theorem suspend_atomic:
  assumes "scheduler_reachable ops s" and "suspend ops t interests s = (res, s')"
  shows "case res of
      Inl _ \<Rightarrow> tasks s' = tasks s \<and> runnable s' = runnable s
        \<and> (\<forall>q. arena_get (registrations s') q = arena_get (registrations s) q)
    | Inr rs \<Rightarrow> arena_get (tasks s) t = Some Running \<and> arena_get (tasks s') t = Some (Waiting rs)
        \<and> length rs = length interests \<and> rs \<noteq> [] \<and> runnable s' = runnable s
        \<and> (\<forall>u. u \<noteq> t \<longrightarrow> arena_get (tasks s') u = arena_get (tasks s) u)"
  using suspend_ok [OF scheduler.reachable_inv [OF assms(1)] assms(2)]
  by (auto simp: same_tasks_def split: sum.splits)

lemma suspend_atomic_witness:
  "tasks (snd (suspend demo_ops (Key 0 0) [5, 200] demo_running)) = tasks demo_running"
proof -
  have "suspend demo_ops (Key 0 0) [5, 200] demo_running
      = (Inl (ReactorError 200), snd (suspend demo_ops (Key 0 0) [5, 200] demo_running))"
    by (simp add: demo_simps demo_running_def demo_ops_def release_registration_def remove_registrations_def
        remove_registration_def arena_release_def)
  from suspend_atomic [OF demo_reachable(1) this] show ?thesis by simp
qed

text \<open>
  C30: A task identity is issued at most once: however many operations lie between two spawns, the second
  returns an identity different from the first, also when its slot was released and used again.
\<close>

theorem task_identities_unique:
  assumes "scheduler_reachable ops s" and "(spawn s :: ('r, 'i, 'e, _) scheduler_result) = (Inr t, s1)"
    and "(scheduler_step (ops :: ('r, 'i, 'e) reactor_ops))\<^sup>*\<^sup>* s1 s2"
    and "(spawn s2 :: ('r, 'i, 'e, _) scheduler_result) = (Inr u, s3)"
  shows "u \<noteq> t"
proof -
  have ok: "scheduler_ok s" by (rule scheduler.reachable_inv [OF assms(1)])
  have ok1: "scheduler_ok s1" by (rule spawn_ok [OF ok assms(2)])
  from steps_keep_issued [OF assms(3) ok1] have s2: "scheduler_ok s2" "keeps_issued s1 s2" by simp_all
  with spawn_issued(2) [OF ok assms(2)] have "issued (tasks s2) t" by (simp add: keeps_issued_def)
  with spawn_issued(1) [OF s2(1) assms(4)] show ?thesis by blast
qed

lemma task_identities_unique_witness: "Key 0 1 \<noteq> Key 0 0"
proof -
  let ?new = "scheduler_new [] :: ((registration_id \<times> nat) list, nat) scheduler"
  let ?spawned = "demo_running\<lparr>tasks := \<lparr>slots = [(0, Some Runnable)], free_slots = []\<rparr>, runnable := [Key 0 0]\<rparr>"
  let ?done = "demo_running\<lparr>tasks := \<lparr>slots = [(0, Some Completed)], free_slots = []\<rparr>\<rparr>"
  let ?free = "demo_running\<lparr>tasks := \<lparr>slots = [(1, None)], free_slots = [0]\<rparr>\<rparr>"
  let ?again = "demo_running\<lparr>tasks := \<lparr>slots = [(1, Some Runnable)], free_slots = []\<rparr>, runnable := [Key 0 1]\<rparr>"
  have "(complete (Key 0 0) demo_running :: (_, _, nat, _) scheduler_result) = (Inr (), ?done)"
    "(consume_completed (Key 0 0) ?done :: (_, _, nat, _) scheduler_result) = (Inr (), ?free)"
    "(spawn ?free :: (_, _, nat, _) scheduler_result) = (Inr (Key 0 1), ?again)"
    by (simp_all add: demo_simps demo_running_def complete_def consume_completed_def release_task_def arena_release_def)
  note runs = this
  have steps: "(scheduler_step demo_ops)\<^sup>*\<^sup>* ?spawned ?free"
    using step_progress [OF demo_run(2)] step_complete [OF runs(1)] step_consume [OF runs(2)]
    by (meson rtranclp.rtrancl_into_rtrancl rtranclp.rtrancl_refl)
  have start: "scheduler_reachable demo_ops ?new" by (rule reachable_start) (auto simp: scheduler_start_def)
  show ?thesis by (rule task_identities_unique [OF start demo_run(1) steps runs(3)])
qed

text \<open>
  Shutdown is all or nothing: it is refused without any change while a task runs or is being
  cancelled; otherwise every retained task is published for cancellation, with the storage to destroy,
  and no registration stays active.
\<close>

theorem shutdown_all_or_nothing:
  assumes "scheduler_reachable ops s"
  shows "(\<exists>t st. arena_get (tasks s) t = Some st \<and> (st = Running \<or> (\<exists>kind. st = Cancelling kind))
        \<and> begin_shutdown ops s = (Inl (InvalidTaskState t (public_state st)), s))
    \<or> (\<exists>s' cs. begin_shutdown ops s = (Inr cs, s') \<and> distinct (map fst cs)
        \<and> (\<forall>t kind. (t, kind) \<in> set cs \<longleftrightarrow>
              (\<exists>st. arena_get (tasks s) t = Some st \<and> kind = (if st = Completed then CompletedOutput else PendingFrame)))
        \<and> (\<forall>t. arena_get (tasks s') t = map_option (\<lambda>st. Cancelling (if st = Completed then CompletedOutput else PendingFrame))
              (arena_get (tasks s) t))
        \<and> (\<forall>r. arena_get (registrations s') r = None))"
proof -
  have ok: "scheduler_ok s" by (rule scheduler.reachable_inv [OF assms])
  have clean: "cleanup st = (if st = Completed then CompletedOutput else PendingFrame)" for st by (cases st) auto
  have kinds: "\<not> cancellable st \<longleftrightarrow> st = Running \<or> (\<exists>kind. st = Cancelling kind)" for st
    by (cases st) (auto simp: cancellable_def)
  have map: "distinct (map fst (map (\<lambda>t. (t, cleanup (the (arena_get (tasks s) t)))) (retained_tasks s)))"
    by (simp add: comp_def distinct_retained)
  have listed: "(t, kind) \<in> set (map (\<lambda>t. (t, cleanup (the (arena_get (tasks s) t)))) (retained_tasks s)) \<longleftrightarrow>
      (\<exists>st. arena_get (tasks s) t = Some st \<and> kind = cleanup st)" for t kind
    by (auto simp: in_retained)
  show ?thesis
    using begin_shutdown_effect [OF ok, of ops] map listed unfolding kinds clean by blast
qed

lemma shutdown_all_or_nothing_witness:
  "\<exists>s' cs. begin_shutdown demo_ops demo_waiting = (Inr cs, s') \<and> (Key 0 0, PendingFrame) \<in> set cs"
proof -
  have live: "arena_get (tasks demo_waiting) t = Some st \<Longrightarrow> \<exists>rs. st = Waiting rs" for t st
    by (auto simp: demo_waiting_def arena_get_def list_get_def split: if_splits)
  have "arena_get (tasks demo_waiting) (Key 0 0) = Some (Waiting [Key 0 0, Key 1 0])"
    by (simp add: demo_waiting_def arena_get_def list_get_def)
  then show ?thesis using shutdown_all_or_nothing [OF demo_reachable(2)] live by fastforce
qed

end
