(* ===== verification/Reactor_Contract.thy ===== *)
theory Reactor_Contract
  imports Scheduler_Steps
begin

text \<open>
  What the scheduler relies on from its reactor (\<^verbatim>\<open>nocter-task-runtime/src/reactor.rs\<close>), as a locale: a
  failed registration is not retained, deregistering removes exactly the identity, and waiting drops at
  most registrations whose events it delivers. Under it the reactor and the scheduler hold the same
  registrations after every scheduler operation, so the reactor is never asked twice for one identity.
\<close>

definition active :: "('r, 'i) scheduler \<Rightarrow> registration_id set" where
  "active s = {r. arena_get (registrations s) r \<noteq> None}"

locale reactor_contract =
  fixes ops :: "('r, 'i, 'e) reactor_ops"
    and good :: "'r \<Rightarrow> bool"
    and held :: "'r \<Rightarrow> registration_id set"
  assumes register_laws: "\<lbrakk>good re; r \<notin> held re; reactor_register ops r i re = (res, re')\<rbrakk> \<Longrightarrow>
      good re' \<and> held re' = (case res of Inl _ \<Rightarrow> held re | Inr _ \<Rightarrow> insert r (held re))"
    and deregister_laws: "good re \<Longrightarrow>
      good (reactor_deregister ops r i re) \<and> held (reactor_deregister ops r i re) = held re - {r}"
    and wait_laws: "\<lbrakk>good re; reactor_wait ops re = Some (woken, re')\<rbrakk> \<Longrightarrow>
      good re' \<and> held re' \<subseteq> held re \<and> held re - held re' \<subseteq> (case woken of Inl _ \<Rightarrow> {} | Inr events \<Rightarrow> set events)"
begin

text \<open>\<open>gap\<close>: registrations the reactor may have dropped because their events are being delivered.\<close>

definition agrees_up_to :: "registration_id set \<Rightarrow> ('r, 'i) scheduler \<Rightarrow> bool" where
  "agrees_up_to gap s \<longleftrightarrow> good (reactor s) \<and> held (reactor s) \<subseteq> active s \<and> active s - held (reactor s) \<subseteq> gap"

definition agrees :: "('r, 'i) scheduler \<Rightarrow> bool" where
  "agrees s \<longleftrightarrow> good (reactor s) \<and> held (reactor s) = active s"

lemma agrees_iff: "agrees s \<longleftrightarrow> agrees_up_to {} s"
  by (auto simp: agrees_def agrees_up_to_def)

lemma agrees_cong:
  "reactor s' = reactor s \<Longrightarrow> registrations s' = registrations s \<Longrightarrow> agrees_up_to gap s' = agrees_up_to gap s"
  by (simp add: agrees_up_to_def active_def)

lemma remove_registration_agrees:
  assumes "arena_ok (registrations s)" and "agrees_up_to gap s"
  shows "agrees_up_to gap (remove_registration ops r s)"
proof (cases "arena_get (registrations s) r")
  case None
  with assms show ?thesis by (simp add: remove_registration_def)
next
  case (Some ti)
  obtain t i where ti: "arena_get (registrations s) r = Some (t, i)" using Some by (cases ti) auto
  have "active (remove_registration ops r s) = active s - {r}"
    using remove_registration_get(2) [OF assms(1), of ops r] by (auto simp: active_def)
  moreover have "reactor (remove_registration ops r s) = reactor_deregister ops r i (reactor s)"
    using ti by (simp add: remove_registration_def release_registration_def Let_def)
  ultimately show ?thesis
    using assms(2) deregister_laws [of "reactor s" r i] by (auto simp: agrees_up_to_def)
qed

lemma remove_registrations_agrees:
  "arena_ok (registrations s) \<Longrightarrow> agrees_up_to gap s \<Longrightarrow> agrees_up_to gap (remove_registrations ops rs s)"
proof (induction rs arbitrary: s)
  case (Cons r rs)
  with remove_registration_get(1) remove_registration_agrees show ?case
    by (fastforce simp: remove_registrations_def)
qed (simp add: remove_registrations_def)

lemma wake_ready_agrees:
  assumes "scheduler_ok s" and "agrees_up_to gap s" and "wake_ready ops ready s = (res, s')"
  shows "agrees_up_to gap s'"
  using assms
proof (induction ready arbitrary: s)
  case (Cons rt ready)
  obtain r t where rt: "rt = (r, t)" by (cases rt)
  show ?case
  proof (cases "\<exists>rs. arena_get (tasks s) t = Some (Waiting rs) \<and> r \<in> set rs")
    case False
    then have "wake_ready ops (rt # ready) s = wake_ready ops ready s"
      by (auto simp: rt split: option.splits task_slot_state.splits)
    with Cons.IH [OF Cons.prems(1,2)] Cons.prems(3) show ?thesis by simp
  next
    case True
    then obtain rs where live: "arena_get (tasks s) t = Some (Waiting rs)" and r: "r \<in> set rs" by blast
    note regs = scheduler_okD(2) [OF Cons.prems(1)]
    have same: "tasks (remove_registrations ops rs s) = tasks s" "runnable (remove_registrations ops rs s) = runnable s"
      using removed(3) [OF regs] by (auto simp: same_tasks_def)
    let ?s = "(remove_registrations ops rs s)\<lparr>tasks := arena_set t (Some Runnable) (tasks s), runnable := runnable s @ [t]\<rparr>"
    have "wake_ready ops (rt # ready) s = wake_ready ops ready ?s"
      using live r same by (simp add: rt transition_state_eq)
    moreover have "scheduler_ok ?s" by (rule detach_ok [OF Cons.prems(1) live]) simp_all
    moreover have "agrees_up_to gap ?s"
      using remove_registrations_agrees [OF regs Cons.prems(2), of rs] by (simp add: agrees_up_to_def active_def)
    ultimately show ?thesis using Cons.IH Cons.prems(3) by simp
  qed
qed simp

lemma accept_events_agrees:
  assumes ok: "scheduler_ok s" and up: "agrees_up_to (set events) s"
    and run: "(accept_events ops events s :: ('r, 'i, 'e, unit) scheduler_result) = (res, s')"
  shows "agrees s'"
proof -
  have "agrees_up_to (set events) s'"
    using wake_ready_agrees [OF ok up] run by (simp add: accept_events_def)
  moreover have "r \<notin> set events" if "r \<in> active s'" for r
  proof -
    from accept_events_ok [OF ok, of ops events] run have s': "scheduler_ok s'"
      "\<And>t. arena_get (tasks s') t =
          (if \<exists>rs. arena_get (tasks s) t = Some (Waiting rs) \<and> set rs \<inter> set events \<noteq> {}
           then Some Runnable else arena_get (tasks s) t)" by auto
    from that obtain u i where "arena_get (registrations s') r = Some (u, i)" by (auto simp: active_def)
    from link_waits [OF s'(1) this] obtain rs where rs: "arena_get (tasks s') u = Some (Waiting rs)" "r \<in> set rs" by blast
    then show ?thesis using s'(2) [of u] by (auto split: if_splits)
  qed
  ultimately show ?thesis by (auto simp: agrees_def agrees_up_to_def)
qed

lemma next_progress_agrees:
  assumes ok: "scheduler_ok s" and agr: "agrees s" and run: "next_progress ops s = Some (res, s')"
  shows "agrees s'"
proof -
  obtain r1 s1 where take: "(take_runnable s :: ('r, 'i, 'e, _) scheduler_result) = (r1, s1)" by (rule prod.exhaust)
  have s1: "scheduler_ok s1" "agrees s1"
    using take_runnable_ok [OF ok take] agr by (auto simp: agrees_def active_def)
  show ?thesis
  proof (cases "r1 = Inr None \<and> has_active_registration s1")
    case False
    with run take s1(2) show ?thesis
      by (auto simp: next_progress_def split: sum.splits option.splits)
  next
    case True
    with run take obtain wres re where wait: "reactor_wait ops (reactor s1) = Some (wres, re)"
      by (auto simp: next_progress_def split: option.splits)
    have good: "good (reactor s1)" using s1(2) by (simp add: agrees_def)
    note laws = wait_laws [OF good wait]
    show ?thesis
    proof (cases wres)
      case (Inl e)
      with laws have "good re" "held re = held (reactor s1)" by auto
      with run take True wait Inl s1(2) show ?thesis
        by (auto simp: next_progress_def agrees_def active_def)
    next
      case (Inr events)
      have ok2: "scheduler_ok (s1\<lparr>reactor := re\<rparr>)" using s1(1) by simp
      have up: "agrees_up_to (set events) (s1\<lparr>reactor := re\<rparr>)"
        using laws s1(2) Inr by (auto simp: agrees_up_to_def agrees_def active_def)
      obtain s2 where s2: "accept_events ops events (s1\<lparr>reactor := re\<rparr>) = (Inr (), s2)" "scheduler_ok s2"
        using accept_events_ok [OF ok2, of ops events] by blast
      have agr2: "agrees s2" by (rule accept_events_agrees [OF ok2 up s2(1)])
      obtain r3 s3 where s3: "(take_runnable s2 :: ('r, 'i, 'e, _) scheduler_result) = (r3, s3)" by (rule prod.exhaust)
      have "agrees s3" using take_runnable_ok [OF s2(2) s3] agr2 by (auto simp: agrees_def active_def)
      moreover have "s' = s3"
        using run take True wait Inr s2(1) s3 by (auto simp: next_progress_def split: sum.splits option.splits)
      ultimately show ?thesis by simp
    qed
  qed
qed

lemma install_agrees:
  assumes "arena_ok (registrations s)" and "agrees s"
    and "install_wait_set ops t interests installed s = (res, s')"
  shows "agrees s'"
  using assms
proof (induction interests arbitrary: installed s)
  case (Cons i interests)
  note undo = remove_registrations_agrees [where gap = "{}", folded agrees_iff]
  show ?case
  proof (cases "arena_alloc (t, i) (registrations s)")
    case None
    with Cons.prems undo show ?thesis by (auto simp: allocate_registration_def)
  next
    case (Some ra)
    obtain r a where alloc: "arena_alloc (t, i) (registrations s) = Some (r, a)" using Some by (cases ra) auto
    note new = arena_alloc_ok [OF Cons.prems(1) alloc]
    obtain reply re where reg: "reactor_register ops r i (reactor s) = (reply, re)"
      by (cases "reactor_register ops r i (reactor s)")
    have fresh: "good (reactor s)" "r \<notin> held (reactor s)"
      using Cons.prems(2) new(3) by (auto simp: agrees_def active_def)
    note laws = register_laws [OF fresh reg]
    show ?thesis
    proof (cases reply)
      case (Inl e)
      have live: "arena_get a r = Some (t, i)" by (simp add: new(4))
      note rel = arena_release_ok [OF new(1) live]
      let ?u = "release_registration r (s\<lparr>registrations := a, reactor := re\<rparr>)"
      have "arena_get (registrations ?u) q = arena_get (registrations s) q" for q
        using new(3) by (simp add: release_registration_def rel(2) new(4))
      with laws Inl Cons.prems(2) have "agrees ?u"
        by (simp add: agrees_def active_def) (simp add: release_registration_def)
      moreover have "arena_ok (registrations ?u)" using rel(1) by (simp add: release_registration_def)
      ultimately have "agrees (remove_registrations ops (rev installed) ?u)" by (rule undo [rotated])
      with Cons.prems(3) alloc reg Inl show ?thesis by (auto simp: allocate_registration_def)
    next
      case (Inr unit)
      let ?u = "s\<lparr>registrations := a, reactor := re\<rparr>"
      have "active ?u = insert r (active s)" by (auto simp: active_def new(4))
      with laws Inr Cons.prems(2) have "agrees ?u" by (simp add: agrees_def)
      moreover have "arena_ok (registrations ?u)" using new(1) by simp
      moreover have "install_wait_set ops t interests (installed @ [r]) ?u = (res, s')"
        using Cons.prems(3) alloc reg Inr by (simp add: allocate_registration_def)
      ultimately show ?thesis using Cons.IH by blast
    qed
  qed
qed simp

lemma agrees_keep:
  "reactor s' = reactor s \<Longrightarrow> registrations s' = registrations s \<Longrightarrow> agrees s' = agrees s"
  by (simp add: agrees_def active_def)

lemma transition_state_keeps:
  "transition_state t expected st s = (res, s') \<Longrightarrow> reactor s' = reactor s \<and> registrations s' = registrations s"
  by (auto simp: transition_state_eq split: option.splits if_splits)

lemma suspend_agrees:
  assumes ok: "scheduler_ok s" and agr: "agrees s" and run: "suspend ops t interests s = (res, s')"
  shows "agrees s'"
proof -
  obtain r1 :: "'e scheduler_error + registration_id list" and s1
    where inst: "install_wait_set ops t interests [] s = (r1, s1)" by (rule prod.exhaust)
  have s1: "agrees s1" by (rule install_agrees [OF scheduler_okD(2) [OF ok] agr inst])
  show ?thesis
  proof (cases r1)
    case (Inl e)
    with run inst s1 agr show ?thesis by (auto simp: suspend_def split: sum.splits if_splits)
  next
    case (Inr rs)
    obtain r2 :: "'e scheduler_error + unit" and s2
      where tr: "transition_state t StateRunning (Waiting rs) s1 = (r2, s2)" by (rule prod.exhaust)
    have "agrees s2" using s1 agrees_keep transition_state_keeps [OF tr] by blast
    with run inst Inr tr agr show ?thesis by (auto simp: suspend_def split: sum.splits if_splits)
  qed
qed

lemma cancel_agrees:
  assumes ok: "scheduler_ok s" and agr: "agrees s" and run: "cancel ops t s = (res, s')"
  shows "agrees s'"
proof -
  note regs = scheduler_okD(2) [OF ok]
  have "agrees ((remove_registrations ops rs s)\<lparr>tasks := T\<rparr>)" for rs T
    using remove_registrations_agrees [OF regs, of "{}" rs] agr by (simp add: agrees_iff agrees_up_to_def active_def)
  with cancel_eq [OF regs, of ops t] run agr show ?thesis
    by (auto simp: agrees_def active_def split: option.splits task_slot_state.splits)
qed

lemma cancel_all_agrees:
  "scheduler_ok s \<Longrightarrow> agrees s \<Longrightarrow> cancel_all ops ts s = (res, s') \<Longrightarrow> agrees s'"
proof (induction ts arbitrary: s res s')
  case (Cons t ts)
  obtain r1 :: "'e scheduler_error + cancellation_kind" and s1 where
    c: "cancel ops t s = (r1, s1)" by (rule prod.exhaust)
  have s1: "scheduler_ok s1" "agrees s1"
    using cancel_ok [OF Cons.prems(1) c] cancel_agrees [OF Cons.prems(1,2) c] .
  obtain r2 :: "'e scheduler_error + (task_id \<times> cancellation_kind) list" and s2 where
    all: "cancel_all ops ts s1 = (r2, s2)" by (rule prod.exhaust)
  have "agrees s2" by (rule Cons.IH [OF s1 all])
  with Cons.prems(3) c all s1(2) show ?case by (auto split: sum.splits)
qed simp

lemma begin_shutdown_agrees:
  assumes "scheduler_ok s" and "agrees s" and "begin_shutdown ops s = (res, s')"
  shows "agrees s'"
  using assms cancel_all_agrees [OF assms(1,2)]
  by (auto simp: begin_shutdown_def split: if_splits list.splits prod.splits)

lemma step_agrees:
  assumes ok: "scheduler_ok s" and agr: "agrees s" and step: "scheduler_step ops s s'"
  shows "agrees s'"
  using step
proof cases
  case (step_spawn res)
  then show ?thesis using agr by (auto simp: spawn_def agrees_def active_def split: option.splits)
next
  case (step_progress res)
  then show ?thesis by (rule next_progress_agrees [OF ok agr])
next
  case (step_yield t res)
  then have "reactor s' = reactor s \<and> registrations s' = registrations s"
    by (auto simp: yield_now_def transition_state_eq split: option.splits if_splits)
  with agr agrees_keep show ?thesis by blast
next
  case (step_suspend t interests res)
  then show ?thesis by (rule suspend_agrees [OF ok agr])
next
  case (step_complete t res)
  with agr agrees_keep show ?thesis unfolding complete_def using transition_state_keeps by blast
next
  case (step_cancel t res)
  then show ?thesis by (rule cancel_agrees [OF ok agr])
next
  case (step_finish t res)
  then have "reactor s' = reactor s \<and> registrations s' = registrations s"
    by (auto simp: finish_cancellation_def release_task_def split: option.splits task_state.splits)
  with agr agrees_keep show ?thesis by blast
next
  case (step_consume t res)
  then have "reactor s' = reactor s \<and> registrations s' = registrations s"
    by (auto simp: consume_completed_def release_task_def split: sum.splits)
  with agr agrees_keep show ?thesis by blast
next
  case (step_shutdown res)
  then show ?thesis by (rule begin_shutdown_agrees [OF ok agr])
qed

lemma new_agrees: "good re \<Longrightarrow> held re = {} \<Longrightarrow> agrees (scheduler_new re)"
  by (simp add: agrees_def active_def scheduler_new_def)

definition connected_start :: "('r, 'i) scheduler \<Rightarrow> bool" where
  "connected_start s \<longleftrightarrow> (\<exists>re. good re \<and> held re = {} \<and> s = scheduler_new re)"

end

text \<open>A scheduler over a reactor that keeps the contract is a transition system of its own.\<close>

sublocale reactor_contract \<subseteq> connected: transition_system connected_start "scheduler_step ops" "\<lambda>s. scheduler_ok s \<and> agrees s"
  by unfold_locales (auto simp: connected_start_def scheduler_ok_new intro: new_agrees scheduler_step_ok step_agrees)

end
