(* ===== verification/Darwin_Reactor.thy ===== *)
theory Darwin_Reactor
  imports Reactor_Contract Btree_Map
begin

text \<open>
  The Darwin adapter of the reactor trait (\<^verbatim>\<open>nocter-darwin-reactor/src/reactor.rs\<close>). The native event queue
  (\<^verbatim>\<open>nocter-darwin-event-queue\<close>, a wrapper of kqueue) and the clock are parameters: a native state and
  the operations the adapter calls on it. Waiting on the queue may block for ever, which is \<open>None\<close>.
  The adapter multiplexes registrations: one native observation serves every registration of its
  descriptor direction or process, timers are kept by deadline, and a process that is already gone is
  ready at once.
\<close>

section \<open>State\<close>

datatype readiness_direction = DirReadable | DirWritable

datatype reactor_interest =
    InterestDescriptor u64 readiness_direction
  | InterestTimer u64
  | InterestProcessExit u64

datatype event_filter = FilterReadable int | FilterWritable int | FilterProcessExit int

record native_event =
  event_token :: u64
  event_filter_of :: event_filter
  event_failed :: bool

datatype registration_location =
    AtDescriptor int readiness_direction
  | AtTimer u64
  | AtProcess int
  | AtImmediate

datatype native_location =
    NativeDescriptor int readiness_direction
  | NativeProcess int

record native_state =
  native_token :: u64
  native_members :: "registration_id btree_set"

record descriptor_state =
  readable_state :: "native_state option"
  writable_state :: "native_state option"

definition descriptor_state_default :: descriptor_state where
  "descriptor_state_default = \<lparr>readable_state = None, writable_state = None\<rparr>"

fun state_of_direction :: "descriptor_state \<Rightarrow> readiness_direction \<Rightarrow> native_state option" where
  "state_of_direction d DirReadable = readable_state d"
| "state_of_direction d DirWritable = writable_state d"

fun with_direction :: "readiness_direction \<Rightarrow> native_state option \<Rightarrow> descriptor_state \<Rightarrow> descriptor_state" where
  "with_direction DirReadable n d = d\<lparr>readable_state := n\<rparr>"
| "with_direction DirWritable n d = d\<lparr>writable_state := n\<rparr>"

definition descriptor_is_empty :: "descriptor_state \<Rightarrow> bool" where
  "descriptor_is_empty d \<longleftrightarrow> readable_state d = None \<and> writable_state d = None"

text \<open>The event queue and the clock. Durations are nanoseconds.\<close>

record ('q, 'x) native_ops =
  queue_register :: "event_filter \<Rightarrow> u64 \<Rightarrow> 'q \<Rightarrow> ('x + unit) \<times> 'q"
  queue_deregister :: "event_filter \<Rightarrow> 'q \<Rightarrow> ('x + unit) \<times> 'q"
  queue_wait :: "nat \<Rightarrow> nat option \<Rightarrow> 'q \<Rightarrow> (('x + native_event list) \<times> 'q) option"
  is_interrupted :: "'x \<Rightarrow> bool"
  is_missing_subject :: "'x \<Rightarrow> bool"
  clock_now :: "'q \<Rightarrow> u64 \<times> 'q"
  clock_duration_until :: "u64 \<Rightarrow> 'q \<Rightarrow> nat \<times> 'q"

datatype 'x darwin_reactor_error =
    DuplicateRegistration registration_id
  | InvalidDescriptor u64
  | InvalidProcess u64
  | TokenExhausted
  | FailedNativeEvent event_filter
  | NativeError 'x

record 'q darwin_reactor =
  native :: 'q
  next_token :: u64
  locations :: "(registration_id, registration_location) btree_map"
  descriptors :: "(int, descriptor_state) btree_map"
  processes :: "(int, native_state) btree_map"
  native_tokens :: "(u64, native_location) btree_map"
  timers :: "(u64, registration_id btree_set) btree_map"
  immediate :: "registration_id btree_set"

definition darwin_reactor_new :: "'q \<Rightarrow> 'q darwin_reactor" where
  "darwin_reactor_new q = \<lparr>native = q, next_token = 0, locations = [], descriptors = [], processes = [],
     native_tokens = [], timers = [], immediate = []\<rparr>"

fun descriptor_filter :: "int \<Rightarrow> readiness_direction \<Rightarrow> event_filter" where
  "descriptor_filter d DirReadable = FilterReadable d"
| "descriptor_filter d DirWritable = FilterWritable d"

text \<open>\<open>i32::try_from\<close> of a 64-bit value.\<close>

definition to_i32 :: "u64 \<Rightarrow> int option" where
  "to_i32 v = (if uint v < 2 ^ 31 then Some (uint v) else None)"

section \<open>Registering\<close>

type_synonym ('q, 'x, 'a) darwin_result = "('x darwin_reactor_error + 'a) \<times> 'q darwin_reactor"

definition allocate_token :: "'q darwin_reactor \<Rightarrow> ('q, 'x, u64) darwin_result" where
  "allocate_token r =
     (case checked_add (next_token r) 1 of
        None \<Rightarrow> (Inl TokenExhausted, r)
      | Some n \<Rightarrow> (Inr (next_token r), r\<lparr>next_token := n\<rparr>))"

definition locate :: "registration_id \<Rightarrow> registration_location \<Rightarrow> 'q darwin_reactor \<Rightarrow> 'q darwin_reactor" where
  "locate reg l r = r\<lparr>locations := bt_insert reg l (locations r)\<rparr>"

definition register_descriptor ::
  "('q, 'x) native_ops \<Rightarrow> registration_id \<Rightarrow> u64 \<Rightarrow> readiness_direction \<Rightarrow> 'q darwin_reactor
     \<Rightarrow> ('q, 'x, unit) darwin_result" where
  "register_descriptor ops reg raw direction r =
     (case to_i32 raw of
        None \<Rightarrow> (Inl (InvalidDescriptor raw), r)
      | Some descriptor \<Rightarrow>
          if descriptor < 0 then (Inl (InvalidDescriptor (- 1)), r)
          else
            (case Option.bind (bt_get (descriptors r) descriptor) (\<lambda>d. map_option (Pair d) (state_of_direction d direction)) of
               Some (d, n) \<Rightarrow>
                 let n = n\<lparr>native_members := bset_insert reg (native_members n)\<rparr> in
                 (Inr (), locate reg (AtDescriptor descriptor direction)
                    (r\<lparr>descriptors := bt_insert descriptor (with_direction direction (Some n) d) (descriptors r)\<rparr>))
             | None \<Rightarrow>
                 (case allocate_token r of
                    (Inl e, r) \<Rightarrow> (Inl e, r)
                  | (Inr token, r) \<Rightarrow>
                      (case queue_register ops (descriptor_filter descriptor direction) token (native r) of
                         (Inl e, q) \<Rightarrow> (Inl (NativeError e), r\<lparr>native := q\<rparr>)
                       | (Inr _, q) \<Rightarrow>
                           let d = (case bt_get (descriptors r) descriptor of Some d \<Rightarrow> d | None \<Rightarrow> descriptor_state_default);
                               n = \<lparr>native_token = token, native_members = bset_insert reg []\<rparr> in
                           (Inr (), locate reg (AtDescriptor descriptor direction)
                              (r\<lparr>native := q,
                                 descriptors := bt_insert descriptor (with_direction direction (Some n) d) (descriptors r),
                                 native_tokens := bt_insert token (NativeDescriptor descriptor direction) (native_tokens r)\<rparr>))))))"

definition register_process ::
  "('q, 'x) native_ops \<Rightarrow> registration_id \<Rightarrow> u64 \<Rightarrow> 'q darwin_reactor \<Rightarrow> ('q, 'x, unit) darwin_result" where
  "register_process ops reg raw r =
     (case to_i32 raw of
        None \<Rightarrow> (Inl (InvalidProcess raw), r)
      | Some process \<Rightarrow>
          if \<not> 0 < process then (Inl (InvalidProcess raw), r)
          else
            (case bt_get (processes r) process of
               Some n \<Rightarrow>
                 let n = n\<lparr>native_members := bset_insert reg (native_members n)\<rparr> in
                 (Inr (), locate reg (AtProcess process) (r\<lparr>processes := bt_insert process n (processes r)\<rparr>))
             | None \<Rightarrow>
                 (case allocate_token r of
                    (Inl e, r) \<Rightarrow> (Inl e, r)
                  | (Inr token, r) \<Rightarrow>
                      (case queue_register ops (FilterProcessExit process) token (native r) of
                         (Inl e, q) \<Rightarrow>
                           if is_missing_subject ops e
                           then (Inr (), locate reg AtImmediate
                                   (r\<lparr>native := q, immediate := bset_insert reg (immediate r)\<rparr>))
                           else (Inl (NativeError e), r\<lparr>native := q\<rparr>)
                       | (Inr _, q) \<Rightarrow>
                           let n = \<lparr>native_token = token, native_members = bset_insert reg []\<rparr> in
                           (Inr (), locate reg (AtProcess process)
                              (r\<lparr>native := q, processes := bt_insert process n (processes r),
                                 native_tokens := bt_insert token (NativeProcess process) (native_tokens r)\<rparr>))))))"

definition register_timer :: "registration_id \<Rightarrow> u64 \<Rightarrow> 'q darwin_reactor \<Rightarrow> 'q darwin_reactor" where
  "register_timer reg deadline r =
     (let s = (case bt_get (timers r) deadline of Some s \<Rightarrow> s | None \<Rightarrow> []) in
      locate reg (AtTimer deadline) (r\<lparr>timers := bt_insert deadline (bset_insert reg s) (timers r)\<rparr>))"

definition darwin_register ::
  "('q, 'x) native_ops \<Rightarrow> registration_id \<Rightarrow> reactor_interest \<Rightarrow> 'q darwin_reactor \<Rightarrow> ('q, 'x, unit) darwin_result" where
  "darwin_register ops reg interest r =
     (if bt_contains (locations r) reg then (Inl (DuplicateRegistration reg), r)
      else
        (case interest of
           InterestDescriptor descriptor direction \<Rightarrow> register_descriptor ops reg descriptor direction r
         | InterestTimer deadline \<Rightarrow> (Inr (), register_timer reg deadline r)
         | InterestProcessExit process \<Rightarrow> register_process ops reg process r))"

section \<open>Deregistering\<close>

definition remove_descriptor_registration ::
  "('q, 'x) native_ops \<Rightarrow> registration_id \<Rightarrow> int \<Rightarrow> readiness_direction \<Rightarrow> 'q darwin_reactor \<Rightarrow> 'q darwin_reactor" where
  "remove_descriptor_registration ops reg descriptor direction r =
     (case bt_get (descriptors r) descriptor of
        None \<Rightarrow> r
      | Some d \<Rightarrow>
          (case state_of_direction d direction of
             None \<Rightarrow> r
           | Some n \<Rightarrow>
               let members = bt_remove reg (native_members n);
                   last = (members = []);
                   d = with_direction direction (if last then None else Some (n\<lparr>native_members := members\<rparr>)) d;
                   r = (if last
                        then r\<lparr>native_tokens := bt_remove (native_token n) (native_tokens r),
                               native := snd (queue_deregister ops (descriptor_filter descriptor direction) (native r))\<rparr>
                        else r) in
               r\<lparr>descriptors := (if descriptor_is_empty d then bt_remove descriptor (descriptors r)
                                 else bt_insert descriptor d (descriptors r))\<rparr>))"

definition remove_process_registration ::
  "('q, 'x) native_ops \<Rightarrow> registration_id \<Rightarrow> int \<Rightarrow> 'q darwin_reactor \<Rightarrow> 'q darwin_reactor" where
  "remove_process_registration ops reg process r =
     (case bt_get (processes r) process of
        None \<Rightarrow> r
      | Some n \<Rightarrow>
          let members = bt_remove reg (native_members n) in
          if members = []
          then r\<lparr>processes := bt_remove process (processes r),
                 native_tokens := bt_remove (native_token n) (native_tokens r),
                 native := snd (queue_deregister ops (FilterProcessExit process) (native r))\<rparr>
          else r\<lparr>processes := bt_insert process (n\<lparr>native_members := members\<rparr>) (processes r)\<rparr>)"

definition remove_timer_registration :: "registration_id \<Rightarrow> u64 \<Rightarrow> 'q darwin_reactor \<Rightarrow> 'q darwin_reactor" where
  "remove_timer_registration reg deadline r =
     (case bt_get (timers r) deadline of
        None \<Rightarrow> r
      | Some s \<Rightarrow>
          let s = bt_remove reg s in
          r\<lparr>timers := (if s = [] then bt_remove deadline (timers r) else bt_insert deadline s (timers r))\<rparr>)"

definition darwin_deregister ::
  "('q, 'x) native_ops \<Rightarrow> registration_id \<Rightarrow> reactor_interest \<Rightarrow> 'q darwin_reactor \<Rightarrow> 'q darwin_reactor" where
  "darwin_deregister ops reg interest r =
     (case bt_get (locations r) reg of
        None \<Rightarrow> r
      | Some location \<Rightarrow>
          let r = r\<lparr>locations := bt_remove reg (locations r)\<rparr> in
          (case location of
             AtDescriptor descriptor direction \<Rightarrow> remove_descriptor_registration ops reg descriptor direction r
           | AtTimer deadline \<Rightarrow> remove_timer_registration reg deadline r
           | AtProcess process \<Rightarrow> remove_process_registration ops reg process r
           | AtImmediate \<Rightarrow> r\<lparr>immediate := bt_remove reg (immediate r)\<rparr>))"

section \<open>Waiting\<close>

definition wait_timeout :: "('q, 'x) native_ops \<Rightarrow> 'q darwin_reactor \<Rightarrow> nat option \<times> 'q darwin_reactor" where
  "wait_timeout ops r =
     (case timers r of
        [] \<Rightarrow> (None, r)
      | (deadline, _) # _ \<Rightarrow>
          (case clock_duration_until ops deadline (native r) of (d, q) \<Rightarrow> (Some d, r\<lparr>native := q\<rparr>)))"

definition native_timeout :: "('q, 'x) native_ops \<Rightarrow> bool \<Rightarrow> 'q darwin_reactor \<Rightarrow> nat option \<times> 'q darwin_reactor" where
  "native_timeout ops ready_now r = (if ready_now then (Some 0, r) else wait_timeout ops r)"

text \<open>The loop retries a wait that a signal interrupted, with a newly computed timeout.\<close>

partial_function (option) wait_events ::
  "('q, 'x) native_ops \<Rightarrow> bool \<Rightarrow> 'q darwin_reactor \<Rightarrow> (('x darwin_reactor_error + native_event list) \<times> 'q darwin_reactor) option" where
  "wait_events ops ready_now r =
     (let timeout = fst (native_timeout ops ready_now r); r = snd (native_timeout ops ready_now r) in
      Option.bind (queue_wait ops (length (native_tokens r)) timeout (native r)) (\<lambda>(reply, q).
        (case reply of
           Inr events \<Rightarrow> Some (Inr events, r\<lparr>native := q\<rparr>)
         | Inl e \<Rightarrow>
             if is_interrupted ops e then wait_events ops ready_now (r\<lparr>native := q\<rparr>)
             else Some (Inl (NativeError e), r\<lparr>native := q\<rparr>))))"

fun collect_native_events ::
  "'q darwin_reactor \<Rightarrow> native_event list \<Rightarrow> registration_id list \<Rightarrow> 'x darwin_reactor_error + registration_id list" where
  "collect_native_events r [] ready = Inr ready"
| "collect_native_events r (event # events) ready =
     (case bt_get (native_tokens r) (event_token event) of
        None \<Rightarrow> collect_native_events r events ready
      | Some location \<Rightarrow>
          if event_failed event then Inl (FailedNativeEvent (event_filter_of event))
          else
            (case location of
               NativeDescriptor descriptor direction \<Rightarrow>
                 if event_filter_of event = descriptor_filter descriptor direction
                 then
                   (case Option.bind (bt_get (descriptors r) descriptor) (\<lambda>d. state_of_direction d direction) of
                      Some n \<Rightarrow> collect_native_events r events (ready @ bset_elements (native_members n))
                    | None \<Rightarrow> collect_native_events r events ready)
                 else collect_native_events r events ready
             | NativeProcess process \<Rightarrow>
                 if event_filter_of event = FilterProcessExit process
                 then
                   (case bt_get (processes r) process of
                      Some n \<Rightarrow> collect_native_events r events (ready @ bset_elements (native_members n))
                    | None \<Rightarrow> collect_native_events r events ready)
                 else collect_native_events r events ready))"

definition collect_expired_timers ::
  "('q, 'x) native_ops \<Rightarrow> 'q darwin_reactor \<Rightarrow> registration_id list \<Rightarrow> registration_id list \<times> 'q darwin_reactor" where
  "collect_expired_timers ops r ready =
     (case clock_now ops (native r) of
        (now, q) \<Rightarrow>
          (ready @ concat (map (\<lambda>(_, s). bset_elements s) (filter (\<lambda>(deadline, _). deadline \<le> now) (timers r))),
           r\<lparr>native := q\<rparr>))"

definition darwin_wait ::
  "('q, 'x) native_ops \<Rightarrow> 'q darwin_reactor
     \<Rightarrow> (('x darwin_reactor_error + registration_id list) \<times> 'q darwin_reactor) option" where
  "darwin_wait ops r =
     (let ready = bset_elements (immediate r) in
      case wait_events ops (ready \<noteq> []) r of
        None \<Rightarrow> None
      | Some (Inl e, r) \<Rightarrow> Some (Inl e, r)
      | Some (Inr events, r) \<Rightarrow>
          (case collect_native_events r events ready of
             Inl e \<Rightarrow> Some (Inl e, r)
           | Inr ready \<Rightarrow>
               (case collect_expired_timers ops r ready of
                  (ready, r) \<Rightarrow> Some (Inr (remdups_adj (sort ready)), r))))"

definition darwin_ops ::
  "('q, 'x) native_ops \<Rightarrow> ('q darwin_reactor, reactor_interest, 'x darwin_reactor_error) reactor_ops" where
  "darwin_ops ops =
     \<lparr>reactor_register = darwin_register ops, reactor_deregister = darwin_deregister ops,
      reactor_wait = darwin_wait ops\<rparr>"

end
