(* ===== verification/Darwin_Reactor_Correct.thy ===== *)
theory Darwin_Reactor_Correct
  imports Darwin_Reactor
begin

text \<open>
  Correctness of the Darwin adapter: the maps it keeps always describe the same registrations, waiting
  reports exactly what is due, and the adapter keeps the reactor contract, so that a scheduler over it
  never disagrees with it.
\<close>

section \<open>The indices as finite maps\<close>

text \<open>
  The adapter keeps one fact in several maps. \<open>native_at\<close> reads the native observations, and
  \<open>indices_ok\<close> says how the maps belong together.
\<close>

fun native_at :: "'q darwin_reactor \<Rightarrow> native_location \<Rightarrow> native_state option" where
  "native_at r (NativeDescriptor d direction) = Option.bind (bt_get (descriptors r) d) (\<lambda>s. state_of_direction s direction)"
| "native_at r (NativeProcess p) = bt_get (processes r) p"

fun reported_location :: "native_location \<Rightarrow> registration_location" where
  "reported_location (NativeDescriptor d direction) = AtDescriptor d direction"
| "reported_location (NativeProcess p) = AtProcess p"

type_synonym native_view = "native_location \<Rightarrow> native_state option"
type_synonym timer_view = "u64 \<Rightarrow> registration_id btree_set option"

definition joined :: "native_view \<Rightarrow> native_location \<Rightarrow> registration_id \<Rightarrow> bool" where
  "joined N l reg \<longleftrightarrow> (\<exists>n. N l = Some n \<and> bt_contains (native_members n) reg)"

fun is_member :: "native_view \<Rightarrow> timer_view \<Rightarrow> registration_id btree_set \<Rightarrow> registration_location \<Rightarrow> registration_id \<Rightarrow> bool" where
  "is_member N Tm I (AtDescriptor d direction) reg = joined N (NativeDescriptor d direction) reg"
| "is_member N Tm I (AtProcess p) reg = joined N (NativeProcess p) reg"
| "is_member N Tm I (AtTimer deadline) reg = (\<exists>s. Tm deadline = Some s \<and> bt_contains s reg)"
| "is_member N Tm I AtImmediate reg = bt_contains I reg"

definition indices_ok ::
  "(registration_id \<Rightarrow> registration_location option) \<Rightarrow> native_view \<Rightarrow> (u64 \<Rightarrow> native_location option)
     \<Rightarrow> timer_view \<Rightarrow> registration_id btree_set \<Rightarrow> u64 \<Rightarrow> bool" where
  "indices_ok L N T Tm I nx \<longleftrightarrow>
     (\<forall>reg l. L reg = Some l \<longleftrightarrow> is_member N Tm I l reg)
     \<and> (\<forall>t l. T t = Some l \<longleftrightarrow> (\<exists>n. N l = Some n \<and> native_token n = t))
     \<and> (\<forall>t. T t \<noteq> None \<longrightarrow> t < nx)
     \<and> (\<forall>l n. N l = Some n \<longrightarrow> bt_sorted (native_members n) \<and> native_members n \<noteq> [])
     \<and> (\<forall>d s. Tm d = Some s \<longrightarrow> bt_sorted s \<and> s \<noteq> [])
     \<and> bt_sorted I"

definition shape_ok :: "'q darwin_reactor \<Rightarrow> bool" where
  "shape_ok r \<longleftrightarrow> bt_sorted (locations r) \<and> bt_sorted (descriptors r) \<and> bt_sorted (processes r)
     \<and> bt_sorted (native_tokens r) \<and> bt_sorted (timers r)
     \<and> (\<forall>d s. bt_get (descriptors r) d = Some s \<longrightarrow> \<not> descriptor_is_empty s)"

definition darwin_ok :: "'q darwin_reactor \<Rightarrow> bool" where
  "darwin_ok r \<longleftrightarrow> shape_ok r \<and>
     indices_ok (bt_get (locations r)) (native_at r) (bt_get (native_tokens r)) (bt_get (timers r)) (immediate r) (next_token r)"

definition darwin_held :: "'q darwin_reactor \<Rightarrow> registration_id set" where
  "darwin_held r = {reg. bt_get (locations r) reg \<noteq> None}"

lemma location_of_inject [simp]: "reported_location l = reported_location l' \<longleftrightarrow> l = l'"
  by (cases l; cases l') auto

lemma location_of_iff [simp]:
  "reported_location k \<noteq> AtTimer e" "AtTimer e \<noteq> reported_location k"
  "reported_location k \<noteq> AtImmediate" "AtImmediate \<noteq> reported_location k"
  "AtDescriptor d direction = reported_location k \<longleftrightarrow> k = NativeDescriptor d direction"
  "AtProcess p = reported_location k \<longleftrightarrow> k = NativeProcess p"
  by (cases k; auto)+

lemma is_member_location_of [simp]: "is_member N Tm I (reported_location l) reg = joined N l reg"
  by (cases l) auto

lemma is_member_native:
  "is_member N Tm I l reg \<longleftrightarrow> (\<exists>k. l = reported_location k \<and> joined N k reg)
     \<or> (\<exists>d s. l = AtTimer d \<and> Tm d = Some s \<and> bt_contains s reg) \<or> l = AtImmediate \<and> bt_contains I reg"
  by (cases l) auto

lemma indices_okD:
  assumes "indices_ok L N T Tm I nx"
  shows "L reg = Some l \<longleftrightarrow> is_member N Tm I l reg"
    and "T t = Some k \<longleftrightarrow> (\<exists>n. N k = Some n \<and> native_token n = t)"
    and "T t = Some k \<Longrightarrow> t < nx"
    and "N k = Some n \<Longrightarrow> bt_sorted (native_members n) \<and> native_members n \<noteq> []"
    and "Tm d = Some s \<Longrightarrow> bt_sorted s \<and> s \<noteq> []"
    and "bt_sorted I"
  using assms unfolding indices_ok_def by blast+

lemma indices_ok_later: "indices_ok L N T Tm I nx \<Longrightarrow> nx \<le> nx' \<Longrightarrow> indices_ok L N T Tm I nx'"
  unfolding indices_ok_def by (meson less_le_trans)

text \<open>An identity without a location is a member of nothing.\<close>

lemma not_located:
  assumes "indices_ok L N T Tm I nx" and "L reg = None"
  shows "\<not> joined N k reg" and "Tm d = Some s \<Longrightarrow> \<not> bt_contains s reg" and "\<not> bt_contains I reg"
proof -
  have "\<not> is_member N Tm I l reg" for l using indices_okD(1) [OF assms(1), of reg l] assms(2) by simp
  from this [of "reported_location k"] this [of "AtTimer d"] this [of AtImmediate]
  show "\<not> joined N k reg" "Tm d = Some s \<Longrightarrow> \<not> bt_contains s reg" "\<not> bt_contains I reg" by auto
qed

section \<open>Joining and leaving\<close>

lemma bset_insert_ne [simp]: "bset_insert k s \<noteq> []"
  by (cases s) (auto simp: bset_insert_def split: if_splits)

lemma indices_join:
  assumes ok: "indices_ok L N T Tm I nx" and free: "L reg = None" and n: "N k = Some n"
  shows "indices_ok (L(reg \<mapsto> reported_location k)) (N(k \<mapsto> n\<lparr>native_members := bset_insert reg (native_members n)\<rparr>)) T Tm I nx"
proof -
  let ?N = "N(k \<mapsto> n\<lparr>native_members := bset_insert reg (native_members n)\<rparr>)"
  note sorted = indices_okD(4) [OF ok n]
  have joined: "joined ?N j q \<longleftrightarrow> joined N j q \<or> j = k \<and> q = reg" for j q
    using sorted n by (auto simp: joined_def)
  have "(L(reg \<mapsto> reported_location k)) q = Some l \<longleftrightarrow> is_member ?N Tm I l q" for q l
    using indices_okD(1) [OF ok, of q l] not_located [OF ok free]
    by (auto simp: is_member_native joined)
  moreover have "T t = Some j \<longleftrightarrow> (\<exists>n. ?N j = Some n \<and> native_token n = t)" for t j
    using indices_okD(2) [OF ok, of t j] n by auto
  ultimately show ?thesis
    using ok sorted unfolding indices_ok_def by (auto split: if_splits)
qed

lemma indices_new:
  assumes ok: "indices_ok L N T Tm I nx" and free: "L reg = None" and k: "N k = None" and nx: "nx < nx'"
  shows "indices_ok (L(reg \<mapsto> reported_location k)) (N(k \<mapsto> \<lparr>native_token = nx, native_members = bset_insert reg []\<rparr>))
    (T(nx \<mapsto> k)) Tm I nx'"
proof -
  let ?N = "N(k \<mapsto> \<lparr>native_token = nx, native_members = bset_insert reg []\<rparr>)"
  have joined: "joined ?N j q \<longleftrightarrow> joined N j q \<or> j = k \<and> q = reg" for j q
    using k by (auto simp: joined_def)
  have "(L(reg \<mapsto> reported_location k)) q = Some l \<longleftrightarrow> is_member ?N Tm I l q" for q l
    using indices_okD(1) [OF ok, of q l] not_located [OF ok free]
    by (auto simp: is_member_native joined)
  moreover have "(T(nx \<mapsto> k)) t = Some j \<longleftrightarrow> (\<exists>n. ?N j = Some n \<and> native_token n = t)" for t j
    using indices_okD(2,3) [OF ok, of t j] indices_okD(3) [OF ok, of nx] k by auto
  moreover have "(T(nx \<mapsto> k)) t \<noteq> None \<longrightarrow> t < nx'" for t
    using indices_okD(3) [OF ok, of t] nx by auto
  ultimately show ?thesis
    using ok unfolding indices_ok_def by (auto split: if_splits)
qed

lemma indices_timer:
  assumes ok: "indices_ok L N T Tm I nx" and free: "L reg = None"
  shows "indices_ok (L(reg \<mapsto> AtTimer d)) N T
    (Tm(d \<mapsto> bset_insert reg (case Tm d of Some s \<Rightarrow> s | None \<Rightarrow> []))) I nx"
proof -
  let ?s = "case Tm d of Some s \<Rightarrow> s | None \<Rightarrow> []"
  have sorted: "bt_sorted ?s" using indices_okD(5) [OF ok, of d] by (auto split: option.splits)
  have "(L(reg \<mapsto> AtTimer d)) q = Some l \<longleftrightarrow> is_member N (Tm(d \<mapsto> bset_insert reg ?s)) I l q" for q l
    using indices_okD(1) [OF ok, of q l] not_located [OF ok free] sorted
    by (cases l; cases "Tm d") (auto simp: joined_def)
  with ok sorted show ?thesis unfolding indices_ok_def by (auto split: if_splits)
qed

lemma indices_immediate:
  assumes ok: "indices_ok L N T Tm I nx" and free: "L reg = None"
  shows "indices_ok (L(reg \<mapsto> AtImmediate)) N T Tm (bset_insert reg I) nx"
proof -
  have "(L(reg \<mapsto> AtImmediate)) q = Some l \<longleftrightarrow> is_member N Tm (bset_insert reg I) l q" for q l
    using indices_okD(1) [OF ok, of q l] not_located [OF ok free] indices_okD(6) [OF ok]
    by (auto simp: is_member_native)
  with ok show ?thesis unfolding indices_ok_def by auto
qed

lemma indices_leave:
  assumes ok: "indices_ok L N T Tm I nx" and at: "L reg = Some (reported_location k)" and n: "N k = Some n"
    and ne: "bt_remove reg (native_members n) \<noteq> []"
  shows "indices_ok (L(reg := None)) (N(k \<mapsto> n\<lparr>native_members := bt_remove reg (native_members n)\<rparr>)) T Tm I nx"
proof -
  let ?N = "N(k \<mapsto> n\<lparr>native_members := bt_remove reg (native_members n)\<rparr>)"
  note sorted = indices_okD(4) [OF ok n]
  have joined: "joined ?N j q \<longleftrightarrow> joined N j q \<and> \<not> (j = k \<and> q = reg)" for j q
    using n by (auto simp: joined_def)
  have "(L(reg := None)) q = Some l \<longleftrightarrow> is_member ?N Tm I l q" for q l
    using indices_okD(1) [OF ok, of q l] indices_okD(1) [OF ok, of reg l] at
    by (auto simp: is_member_native joined)
  moreover have "T t = Some j \<longleftrightarrow> (\<exists>n. ?N j = Some n \<and> native_token n = t)" for t j
    using indices_okD(2) [OF ok, of t j] n by auto
  ultimately show ?thesis
    using ok sorted ne unfolding indices_ok_def by (auto split: if_splits simp: bt_sorted_remove)
qed

lemma indices_leave_last:
  assumes ok: "indices_ok L N T Tm I nx" and at: "L reg = Some (reported_location k)" and n: "N k = Some n"
    and last: "bt_remove reg (native_members n) = []"
  shows "indices_ok (L(reg := None)) (N(k := None)) (T(native_token n := None)) Tm I nx"
proof -
  have only: "bt_contains (native_members n) q \<Longrightarrow> q = reg" for q
    using bt_contains_remove [of reg "native_members n" q] last by auto
  have joined: "joined (N(k := None)) j q \<longleftrightarrow> joined N j q \<and> \<not> (j = k \<and> q = reg)" for j q
    using n only by (auto simp: joined_def)
  have "(L(reg := None)) q = Some l \<longleftrightarrow> is_member (N(k := None)) Tm I l q" for q l
    using indices_okD(1) [OF ok, of q l] indices_okD(1) [OF ok, of reg l] at
    by (auto simp: is_member_native joined)
  moreover have "(T(native_token n := None)) t = Some j \<longleftrightarrow> (\<exists>n. (N(k := None)) j = Some n \<and> native_token n = t)" for t j
    using indices_okD(2) [OF ok, of t j] indices_okD(2) [OF ok, of "native_token n" k] n
    by auto
  ultimately show ?thesis
    using ok unfolding indices_ok_def by (auto split: if_splits) blast
qed

lemma indices_leave_timer:
  assumes ok: "indices_ok L N T Tm I nx" and at: "L reg = Some (AtTimer d)" and s: "Tm d = Some s"
  shows "indices_ok (L(reg := None)) N T (Tm(d := (if bt_remove reg s = [] then None else Some (bt_remove reg s)))) I nx"
proof -
  let ?Tm = "Tm(d := (if bt_remove reg s = [] then None else Some (bt_remove reg s)))"
  have mem: "(\<exists>s. ?Tm e = Some s \<and> bt_contains s q) \<longleftrightarrow> (\<exists>s. Tm e = Some s \<and> bt_contains s q) \<and> \<not> (e = d \<and> q = reg)" for e q
    using s bt_contains_remove [of reg s q] by (cases "bt_remove reg s = []") auto
  have "(L(reg := None)) q = Some l \<longleftrightarrow> is_member N ?Tm I l q" for q l
    using indices_okD(1) [OF ok, of q l] indices_okD(1) [OF ok, of reg l] at mem [of _ q]
    by (cases l) auto
  with ok s show ?thesis unfolding indices_ok_def by (auto split: if_splits simp: bt_sorted_remove)
qed

lemma indices_leave_immediate:
  assumes ok: "indices_ok L N T Tm I nx" and at: "L reg = Some AtImmediate"
  shows "indices_ok (L(reg := None)) N T Tm (bt_remove reg I) nx"
proof -
  have "(L(reg := None)) q = Some l \<longleftrightarrow> is_member N Tm (bt_remove reg I) l q" for q l
    using indices_okD(1) [OF ok, of q l] indices_okD(1) [OF ok, of reg l] at
    by (auto simp: is_member_native)
  with ok show ?thesis unfolding indices_ok_def by (auto simp: bt_sorted_remove)
qed

section \<open>The operations on the indices\<close>

lemma native_at_frame [simp]:
  "native_at (r\<lparr>native := q\<rparr>) = native_at r" "native_at (r\<lparr>next_token := n\<rparr>) = native_at r"
  "native_at (r\<lparr>locations := L\<rparr>) = native_at r" "native_at (r\<lparr>native_tokens := T\<rparr>) = native_at r"
  "native_at (r\<lparr>timers := m\<rparr>) = native_at r" "native_at (r\<lparr>immediate := I\<rparr>) = native_at r"
  by (rule ext, rename_tac k, case_tac k; simp)+

lemma state_of_with_direction [simp]:
  "state_of_direction (with_direction direction x s) e = (if e = direction then x else state_of_direction s e)"
  by (cases direction; cases e) auto

lemma state_of_default [simp]: "state_of_direction descriptor_state_default e = None"
  by (cases e) (auto simp: descriptor_state_default_def)

lemma descriptor_is_empty_iff: "descriptor_is_empty s \<longleftrightarrow> (\<forall>e. state_of_direction s e = None)"
  by (metis (full_types) descriptor_is_empty_def readiness_direction.exhaust state_of_direction.simps)

lemma native_at_descriptor:
  assumes "bt_sorted (descriptors r)"
    and "s = (case bt_get (descriptors r) d of Some s \<Rightarrow> s | None \<Rightarrow> descriptor_state_default)"
  shows "native_at (r\<lparr>descriptors := bt_insert d (with_direction direction x s) (descriptors r)\<rparr>)
      = (native_at r)(NativeDescriptor d direction := x)" (is ?A)
    and "descriptor_is_empty (with_direction direction x s) \<Longrightarrow>
      native_at (r\<lparr>descriptors := bt_remove d (descriptors r)\<rparr>) = (native_at r)(NativeDescriptor d direction := x)"
proof -
  have at: "state_of_direction s e = native_at r (NativeDescriptor d e)" for e
    using assms(2) by (cases "bt_get (descriptors r) d") auto
  show ?A
  proof
    fix k show "native_at (r\<lparr>descriptors := bt_insert d (with_direction direction x s) (descriptors r)\<rparr>) k
      = ((native_at r)(NativeDescriptor d direction := x)) k"
      using at by (cases k) (auto simp: bt_get_insert [OF assms(1)])
  qed
  assume empty: "descriptor_is_empty (with_direction direction x s)"
  show "native_at (r\<lparr>descriptors := bt_remove d (descriptors r)\<rparr>) = (native_at r)(NativeDescriptor d direction := x)"
  proof
    fix k show "native_at (r\<lparr>descriptors := bt_remove d (descriptors r)\<rparr>) k
      = ((native_at r)(NativeDescriptor d direction := x)) k"
    proof (cases k)
      case (NativeDescriptor e dir)
      with empty at [of dir] show ?thesis
        by (cases "e = d"; cases "dir = direction") (auto simp: descriptor_is_empty_iff split: if_splits)
    qed simp
  qed
qed

lemma native_at_process:
  "bt_sorted (processes r) \<Longrightarrow>
     native_at (r\<lparr>processes := bt_insert p n (processes r)\<rparr>) = (native_at r)(NativeProcess p := Some n)"
  "native_at (r\<lparr>processes := bt_remove p (processes r)\<rparr>) = (native_at r)(NativeProcess p := None)"
  by (rule ext, rename_tac k, case_tac k; simp add: bt_get_insert)+

lemma bt_get_upd:
  "bt_sorted m \<Longrightarrow> bt_get (bt_insert k v m) = (bt_get m)(k \<mapsto> v)"
  "bt_get (bt_remove k m) = (bt_get m)(k := None)"
  by (auto simp: bt_get_insert)

lemma darwin_okD:
  assumes "darwin_ok r"
  shows "bt_sorted (locations r)" "bt_sorted (descriptors r)" "bt_sorted (processes r)"
    "bt_sorted (native_tokens r)" "bt_sorted (timers r)"
    "bt_get (descriptors r) d = Some s \<Longrightarrow> \<not> descriptor_is_empty s"
    "indices_ok (bt_get (locations r)) (native_at r) (bt_get (native_tokens r)) (bt_get (timers r)) (immediate r) (next_token r)"
  using assms unfolding darwin_ok_def shape_ok_def by blast+

lemma darwin_ok_native [simp]: "darwin_ok (r\<lparr>native := q\<rparr>) = darwin_ok r"
  by (simp add: darwin_ok_def shape_ok_def)

lemma darwin_ok_new: "darwin_ok (darwin_reactor_new q)"
proof -
  let ?r = "darwin_reactor_new q"
  have fields: "locations ?r = []" "descriptors ?r = []" "processes ?r = []" "native_tokens ?r = []"
    "timers ?r = []" "immediate ?r = []" by (simp_all add: darwin_reactor_new_def)
  have at: "native_at ?r k = None" for k by (cases k) (simp_all add: fields)
  have "\<not> is_member (native_at ?r) (bt_get []) [] l reg" for l reg by (cases l) (auto simp: joined_def fields)
  then show ?thesis by (auto simp: darwin_ok_def at shape_ok_def indices_ok_def fields)
qed

text \<open>What registering leaves behind: a located identity, or the same locations after a failure.\<close>

definition registered ::
  "registration_id \<Rightarrow> 'q darwin_reactor \<Rightarrow> ('x darwin_reactor_error + unit) \<Rightarrow> 'q darwin_reactor \<Rightarrow> bool" where
  "registered reg r res r' \<longleftrightarrow> darwin_ok r' \<and>
     darwin_held r' = (case res of Inl _ \<Rightarrow> darwin_held r | Inr _ \<Rightarrow> insert reg (darwin_held r))"

lemma held_locate: "bt_sorted (locations r) \<Longrightarrow> darwin_held (locate reg l r) = insert reg (darwin_held r)"
  by (auto simp: darwin_held_def locate_def bt_get_insert)

lemma allocate_token_ok:
  assumes "darwin_ok r" and "allocate_token r = (res, r')"
  shows "case res of Inl _ \<Rightarrow> r' = r | Inr t \<Rightarrow> t = next_token r \<and> (\<exists>n. t < n \<and> r' = r\<lparr>next_token := n\<rparr>)"
proof -
  have "next_token r < n" if "checked_add (next_token r) 1 = Some n" for n
    using checked_add_SomeD [OF that] by (simp add: word_less_nat_alt)
  with assms(2) show ?thesis by (auto simp: allocate_token_def split: option.splits)
qed

lemma advance_token_ok:
  assumes "darwin_ok r" and "next_token r < n"
  shows "darwin_ok (r\<lparr>next_token := n\<rparr>)"
  using assms indices_ok_later [OF darwin_okD(7) [OF assms(1)], of n]
  by (simp add: darwin_ok_def shape_ok_def less_imp_le)

lemma held_frame [simp]:
  "darwin_held (r\<lparr>native := q\<rparr>) = darwin_held r" "darwin_held (r\<lparr>next_token := n\<rparr>) = darwin_held r"
  by (simp_all add: darwin_held_def)

lemma register_descriptor_ok:
  assumes ok: "darwin_ok r" and free: "reg \<notin> darwin_held r"
    and run: "register_descriptor ops reg raw direction r = (res, r')"
  shows "registered reg r res r'"
proof (cases "\<exists>d. to_i32 raw = Some d \<and> \<not> d < 0")
  case False
  with run ok show ?thesis by (auto simp: register_descriptor_def registered_def split: option.splits if_splits)
next
  case True
  then obtain d where d: "to_i32 raw = Some d" "\<not> d < 0" by blast
  note okD = darwin_okD [OF ok]
  have nloc: "bt_get (locations r) reg = None" using free by (simp add: darwin_held_def)
  let ?k = "NativeDescriptor d direction"
  show ?thesis
  proof (cases "native_at r ?k")
    case (Some n)
    then obtain s where s: "bt_get (descriptors r) d = Some s" "state_of_direction s direction = Some n"
      by (auto simp: bind_eq_Some_conv)
    let ?n = "n\<lparr>native_members := bset_insert reg (native_members n)\<rparr>"
    let ?r = "r\<lparr>descriptors := bt_insert d (with_direction direction (Some ?n) s) (descriptors r)\<rparr>"
    have r': "res = Inr ()" "r' = locate reg (AtDescriptor d direction) ?r"
      using run d s by (auto simp: register_descriptor_def Let_def)
    have at: "native_at ?r = (native_at r)(?k \<mapsto> ?n)"
      by (rule native_at_descriptor(1) [OF okD(2)]) (simp add: s)
    have "indices_ok (bt_get (locations r')) (native_at r') (bt_get (native_tokens r')) (bt_get (timers r')) (immediate r') (next_token r')"
      using indices_join [OF okD(7) nloc Some] by (simp add: r' locate_def at bt_get_upd okD(1))
    moreover have "shape_ok r'"
      using okD(1-6) by (auto simp: shape_ok_def r' locate_def bt_sorted_insert bt_get_insert descriptor_is_empty_iff split: if_splits)
    ultimately show ?thesis using okD(1) by (simp add: registered_def darwin_ok_def r' held_locate) (simp add: darwin_held_def)
  next
    case None
    then have bind: "Option.bind (bt_get (descriptors r) d) (\<lambda>s. map_option (Pair s) (state_of_direction s direction)) = None"
      by (auto simp: bind_eq_None_conv)
    obtain tres :: "'b darwin_reactor_error + u64" and r1 where tok: "allocate_token r = (tres, r1)" by (rule prod.exhaust)
    note tok_ok = allocate_token_ok [OF ok tok]
    show ?thesis
    proof (cases tres)
      case (Inl e)
      with run d bind tok tok_ok ok show ?thesis by (auto simp: register_descriptor_def registered_def)
    next
      case (Inr t)
      with tok_ok obtain n where t: "t = next_token r" "t < n" "r1 = r\<lparr>next_token := n\<rparr>" by auto
      obtain qres q where q: "queue_register ops (descriptor_filter d direction) t (native r) = (qres, q)" by (rule prod.exhaust)
      show ?thesis
      proof (cases qres)
        case (Inl e)
        with run d bind tok Inr q t have "res = Inl (NativeError e)" "r' = r1\<lparr>native := q\<rparr>"
          by (auto simp: register_descriptor_def)
        with advance_token_ok [OF ok, of n] t show ?thesis by (simp add: registered_def)
      next
        case (Inr u)
        let ?s = "case bt_get (descriptors r) d of Some d \<Rightarrow> d | None \<Rightarrow> descriptor_state_default"
        let ?n = "\<lparr>native_token = t, native_members = bset_insert reg []\<rparr>"
        let ?r = "r\<lparr>next_token := n, native := q,
          descriptors := bt_insert d (with_direction direction (Some ?n) ?s) (descriptors r)\<rparr>"
        have r': "res = Inr ()" "r' = locate reg (AtDescriptor d direction)
            (?r\<lparr>native_tokens := bt_insert t ?k (native_tokens r)\<rparr>)"
          using run d bind tok \<open>tres = Inr t\<close> q Inr t by (auto simp: register_descriptor_def Let_def)
        have at: "native_at ?r = (native_at r)(?k \<mapsto> ?n)"
          using native_at_descriptor(1) [where r = "r\<lparr>next_token := n, native := q\<rparr>" and s = ?s] okD(2) by simp
        have "indices_ok (bt_get (locations r')) (native_at r') (bt_get (native_tokens r')) (bt_get (timers r')) (immediate r') (next_token r')"
          using indices_new [OF okD(7) nloc None, of n] t by (simp add: r' locate_def at [unfolded t(1)] bt_get_upd okD(1,4))
        moreover have "shape_ok r'"
          using okD(1-6) by (auto simp: shape_ok_def r' locate_def bt_sorted_insert bt_get_insert descriptor_is_empty_iff split: if_splits)
        ultimately show ?thesis using okD(1) by (simp add: registered_def darwin_ok_def r' held_locate) (simp add: darwin_held_def)
      qed
    qed
  qed
qed


lemma register_process_ok:
  assumes ok: "darwin_ok r" and free: "reg \<notin> darwin_held r"
    and run: "register_process ops reg raw r = (res, r')"
  shows "registered reg r res r'"
proof (cases "\<exists>p. to_i32 raw = Some p \<and> 0 < p")
  case False
  with run ok show ?thesis by (auto simp: register_process_def registered_def split: option.splits if_splits)
next
  case True
  then obtain p where p: "to_i32 raw = Some p" "0 < p" by blast
  note okD = darwin_okD [OF ok]
  have nloc: "bt_get (locations r) reg = None" using free by (simp add: darwin_held_def)
  show ?thesis
  proof (cases "bt_get (processes r) p")
    case (Some n)
    let ?n = "n\<lparr>native_members := bset_insert reg (native_members n)\<rparr>"
    let ?r = "r\<lparr>processes := bt_insert p ?n (processes r)\<rparr>"
    have r': "res = Inr ()" "r' = locate reg (AtProcess p) ?r"
      using run p Some by (auto simp: register_process_def Let_def)
    have "indices_ok (bt_get (locations r')) (native_at r') (bt_get (native_tokens r')) (bt_get (timers r')) (immediate r') (next_token r')"
      using indices_join [OF okD(7) nloc, of "NativeProcess p" n] Some
      by (simp add: r' locate_def native_at_process bt_get_upd okD)
    moreover have "shape_ok r'"
      using okD(1-6) by (auto simp: shape_ok_def r' locate_def bt_sorted_insert)
    ultimately show ?thesis using okD(1) by (simp add: registered_def darwin_ok_def r' held_locate) (simp add: darwin_held_def)
  next
    case None
    obtain tres :: "'b darwin_reactor_error + u64" and r1 where tok: "allocate_token r = (tres, r1)" by (rule prod.exhaust)
    note tok_ok = allocate_token_ok [OF ok tok]
    show ?thesis
    proof (cases tres)
      case (Inl e)
      with run p None tok tok_ok ok show ?thesis by (auto simp: register_process_def registered_def)
    next
      case (Inr t)
      with tok_ok obtain n where t: "t = next_token r" "t < n" "r1 = r\<lparr>next_token := n\<rparr>" by auto
      note adv = advance_token_ok [OF ok, of n] t
      obtain qres q where q: "queue_register ops (FilterProcessExit p) t (native r) = (qres, q)" by (rule prod.exhaust)
      show ?thesis
      proof (cases "\<exists>e. qres = Inl e \<and> \<not> is_missing_subject ops e")
        case True
        with run p None tok Inr q t have "\<exists>e. res = Inl (NativeError e)" "r' = r1\<lparr>native := q\<rparr>"
          by (auto simp: register_process_def)
        with adv show ?thesis by (auto simp: registered_def)
      next
        case False
        note started = False
        show ?thesis
        proof (cases qres)
          case (Inl e)
          let ?r = "r\<lparr>next_token := n, native := q, immediate := bset_insert reg (immediate r)\<rparr>"
          have r': "res = Inr ()" "r' = locate reg AtImmediate ?r"
            using run p None tok \<open>tres = Inr t\<close> q Inl t started by (auto simp: register_process_def)
          have "indices_ok (bt_get (locations r')) (native_at r') (bt_get (native_tokens r')) (bt_get (timers r')) (immediate r') (next_token r')"
            using indices_immediate [OF indices_ok_later [OF okD(7), of n] nloc] t
            by (simp add: r' locate_def bt_get_upd okD(1) less_imp_le)
          moreover have "shape_ok r'"
            using okD(1-6) by (auto simp: shape_ok_def r' locate_def bt_sorted_insert)
          ultimately show ?thesis using okD(1) by (simp add: registered_def darwin_ok_def r' held_locate) (simp add: darwin_held_def)
        next
          case (Inr u)
          let ?n = "\<lparr>native_token = t, native_members = bset_insert reg []\<rparr>"
          let ?r = "r\<lparr>next_token := n, native := q, processes := bt_insert p ?n (processes r)\<rparr>"
          have r': "res = Inr ()" "r' = locate reg (AtProcess p)
              (?r\<lparr>native_tokens := bt_insert t (NativeProcess p) (native_tokens r)\<rparr>)"
            using run p None tok \<open>tres = Inr t\<close> q Inr t by (auto simp: register_process_def Let_def)
          have at: "native_at ?r = (native_at r)(NativeProcess p \<mapsto> ?n)"
            using native_at_process(1) [of "r\<lparr>next_token := n, native := q\<rparr>" p ?n] okD(3) by simp
          have "indices_ok (bt_get (locations r')) (native_at r') (bt_get (native_tokens r')) (bt_get (timers r')) (immediate r') (next_token r')"
            using indices_new [OF okD(7) nloc, of "NativeProcess p" n] None t
            by (simp add: r' locate_def at [unfolded t(1)] bt_get_upd okD(1,4))
          moreover have "shape_ok r'"
            using okD(1-6) by (auto simp: shape_ok_def r' locate_def bt_sorted_insert)
          ultimately show ?thesis using okD(1) by (simp add: registered_def darwin_ok_def r' held_locate) (simp add: darwin_held_def)
        qed
      qed
    qed
  qed
qed

lemma register_timer_ok:
  assumes ok: "darwin_ok r" and free: "reg \<notin> darwin_held r"
  shows "darwin_ok (register_timer reg d r) \<and> darwin_held (register_timer reg d r) = insert reg (darwin_held r)"
proof -
  note okD = darwin_okD [OF ok]
  have nloc: "bt_get (locations r) reg = None" using free by (simp add: darwin_held_def)
  let ?s = "case bt_get (timers r) d of Some s \<Rightarrow> s | None \<Rightarrow> []"
  let ?r = "r\<lparr>timers := bt_insert d (bset_insert reg ?s) (timers r)\<rparr>"
  have r': "register_timer reg d r = locate reg (AtTimer d) ?r" by (simp add: register_timer_def Let_def)
  have "indices_ok (bt_get (locations (locate reg (AtTimer d) ?r))) (native_at (locate reg (AtTimer d) ?r))
      (bt_get (native_tokens (locate reg (AtTimer d) ?r))) (bt_get (timers (locate reg (AtTimer d) ?r)))
      (immediate (locate reg (AtTimer d) ?r)) (next_token (locate reg (AtTimer d) ?r))"
    using indices_timer [OF okD(7) nloc, of d] by (simp add: locate_def bt_get_upd okD(1,5))
  moreover have "shape_ok (locate reg (AtTimer d) ?r)"
    using okD(1-6) by (auto simp: shape_ok_def locate_def bt_sorted_insert)
  ultimately show ?thesis using okD(1) by (simp add: darwin_ok_def r' held_locate) (simp add: darwin_held_def)
qed

lemma darwin_register_ok:
  assumes ok: "darwin_ok r" and free: "reg \<notin> darwin_held r"
    and run: "darwin_register ops reg interest r = (res, r')"
  shows "registered reg r res r'"
proof -
  have "\<not> bt_contains (locations r) reg" using free by (simp add: darwin_held_def bt_contains_def)
  then show ?thesis
    using run register_timer_ok [OF ok free]
    by (cases interest)
      (auto simp: darwin_register_def registered_def [of reg r "Inr ()"]
        intro: register_descriptor_ok [OF ok free] register_process_ok [OF ok free])
qed

section \<open>Deregistering keeps the indices\<close>

lemma remove_descriptor_ok:
  assumes ok: "darwin_ok r" and at: "bt_get (locations r) reg = Some (AtDescriptor d direction)"
  shows "darwin_ok (remove_descriptor_registration ops reg d direction (r\<lparr>locations := bt_remove reg (locations r)\<rparr>))
    \<and> locations (remove_descriptor_registration ops reg d direction (r\<lparr>locations := bt_remove reg (locations r)\<rparr>))
      = bt_remove reg (locations r)"
proof -
  note okD = darwin_okD [OF ok]
  let ?k = "NativeDescriptor d direction"
  have loc: "bt_get (locations r) reg = Some (reported_location ?k)" using at by simp
  with indices_okD(1) [OF okD(7), of reg "reported_location ?k"] obtain n where
    n: "native_at r ?k = Some n" "bt_contains (native_members n) reg" by (auto simp: joined_def)
  then obtain s where s: "bt_get (descriptors r) d = Some s" "state_of_direction s direction = Some n"
    by (auto simp: bind_eq_Some_conv)
  let ?ms = "bt_remove reg (native_members n)"
  define x where "x = (if ?ms = [] then None else Some (n\<lparr>native_members := ?ms\<rparr>))"
  define D where "D = (if descriptor_is_empty (with_direction direction x s) then bt_remove d (descriptors r)
    else bt_insert d (with_direction direction x s) (descriptors r))"
  let ?q = "snd (queue_deregister ops (descriptor_filter d direction) (native r))"
  let ?r = "if ?ms = []
    then r\<lparr>locations := bt_remove reg (locations r), native_tokens := bt_remove (native_token n) (native_tokens r),
         native := ?q, descriptors := D\<rparr>
    else r\<lparr>locations := bt_remove reg (locations r), descriptors := D\<rparr>"
  have r': "remove_descriptor_registration ops reg d direction (r\<lparr>locations := bt_remove reg (locations r)\<rparr>) = ?r"
    using s by (auto simp: remove_descriptor_registration_def Let_def D_def x_def)
  have D: "native_at (b\<lparr>descriptors := D\<rparr>) = (native_at r)(?k := x)"
    if "descriptors b = descriptors r" "native_at b = native_at r" for b :: "'a darwin_reactor"
    using native_at_descriptor [of b s d direction x] okD(2) s that by (simp add: D_def)
  have shape: "bt_sorted D" "bt_get D e = Some u \<Longrightarrow> \<not> descriptor_is_empty u" for e u
    using okD(2,6) by (auto simp: D_def bt_sorted_remove bt_sorted_insert bt_get_insert split: if_splits)
  show ?thesis
  proof (cases "?ms = []")
    case True
    have "darwin_ok (r\<lparr>locations := bt_remove reg (locations r), native_tokens := bt_remove (native_token n) (native_tokens r),
        native := ?q, descriptors := D\<rparr>)"
      using indices_leave_last [OF okD(7) loc n(1) True] okD(1-5) shape True
      by (simp add: darwin_ok_def shape_ok_def D bt_get_upd bt_sorted_remove x_def)
    with True show ?thesis by (simp add: r')
  next
    case False
    have "darwin_ok (r\<lparr>locations := bt_remove reg (locations r), descriptors := D\<rparr>)"
      using indices_leave [OF okD(7) loc n(1) False] okD(1-5) shape False
      by (simp add: darwin_ok_def shape_ok_def D bt_get_upd bt_sorted_remove x_def)
    with False show ?thesis by (simp add: r')
  qed
qed

lemma remove_process_ok:
  assumes ok: "darwin_ok r" and at: "bt_get (locations r) reg = Some (AtProcess p)"
  shows "darwin_ok (remove_process_registration ops reg p (r\<lparr>locations := bt_remove reg (locations r)\<rparr>))
    \<and> locations (remove_process_registration ops reg p (r\<lparr>locations := bt_remove reg (locations r)\<rparr>))
      = bt_remove reg (locations r)"
proof -
  note okD = darwin_okD [OF ok]
  let ?k = "NativeProcess p"
  have loc: "bt_get (locations r) reg = Some (reported_location ?k)" using at by simp
  with indices_okD(1) [OF okD(7), of reg "reported_location ?k"] obtain n where
    n: "native_at r ?k = Some n" "bt_contains (native_members n) reg" by (auto simp: joined_def)
  let ?ms = "bt_remove reg (native_members n)"
  let ?base = "r\<lparr>locations := bt_remove reg (locations r)\<rparr>"
  show ?thesis
  proof (cases "?ms = []")
    case True
    with indices_leave_last [OF okD(7) loc n(1) True] okD(1-6) n(1) native_at_process(2) [where r = ?base and p = p] show ?thesis
      by (auto simp: remove_process_registration_def Let_def darwin_ok_def shape_ok_def bt_get_upd bt_sorted_remove)
  next
    case False
    with indices_leave [OF okD(7) loc n(1) False] okD(1-6) n(1) native_at_process(1) [where r = ?base and p = p] show ?thesis
      by (auto simp: remove_process_registration_def Let_def darwin_ok_def shape_ok_def bt_get_upd bt_sorted_remove bt_sorted_insert)
  qed
qed

lemma remove_timer_ok:
  assumes ok: "darwin_ok r" and at: "bt_get (locations r) reg = Some (AtTimer d)"
  shows "darwin_ok (remove_timer_registration reg d (r\<lparr>locations := bt_remove reg (locations r)\<rparr>))
    \<and> locations (remove_timer_registration reg d (r\<lparr>locations := bt_remove reg (locations r)\<rparr>))
      = bt_remove reg (locations r)"
proof -
  note okD = darwin_okD [OF ok]
  from indices_okD(1) [OF okD(7), of reg "AtTimer d"] at obtain s where s: "bt_get (timers r) d = Some s" by auto
  from indices_leave_timer [OF okD(7) at s] okD(1-6) s show ?thesis
    by (auto simp: remove_timer_registration_def Let_def darwin_ok_def shape_ok_def bt_get_upd bt_sorted_remove bt_sorted_insert)
qed

lemma darwin_deregister_ok:
  assumes ok: "darwin_ok r"
  shows "darwin_ok (darwin_deregister ops reg interest r)
    \<and> darwin_held (darwin_deregister ops reg interest r) = darwin_held r - {reg}"
proof (cases "bt_get (locations r) reg")
  case None
  with ok show ?thesis by (auto simp: darwin_deregister_def darwin_held_def)
next
  case (Some l)
  note okD = darwin_okD [OF ok]
  have "darwin_ok (darwin_deregister ops reg interest r)
    \<and> locations (darwin_deregister ops reg interest r) = bt_remove reg (locations r)"
  proof (cases l)
    case AtImmediate
    with Some have at: "bt_get (locations r) reg = Some AtImmediate" by simp
    from indices_leave_immediate [OF okD(7) at] okD(1-6) at show ?thesis
      by (auto simp: darwin_deregister_def Let_def darwin_ok_def shape_ok_def bt_get_upd bt_sorted_remove)
  qed (use Some remove_descriptor_ok [OF ok, of reg _ _ ops] remove_process_ok [OF ok, of reg _ ops] remove_timer_ok [OF ok, of reg] in
      \<open>simp_all add: darwin_deregister_def Let_def\<close>)
  then show ?thesis by (auto simp: darwin_held_def)
qed

section \<open>Waiting\<close>

lemma native_timeout_native: "\<exists>q. snd (native_timeout ops now r) = r\<lparr>native := q\<rparr>"
proof (cases "now \<or> timers r = []")
  case True
  then have "snd (native_timeout ops now r) = r\<lparr>native := native r\<rparr>"
    by (auto simp: native_timeout_def wait_timeout_def)
  then show ?thesis by blast
next
  case False
  then show ?thesis
    by (auto simp: native_timeout_def wait_timeout_def split: list.splits prod.splits)
qed

text \<open>The wait loop only touches the native state; its events come from one call of the queue.\<close>

lemma wait_events_native:
  fixes ops :: "('q, 'x) native_ops"
  assumes "wait_events ops now r = Some (res, r')"
  shows "\<exists>q. r' = r\<lparr>native := q\<rparr> \<and> (\<forall>events. res = Inr events \<longrightarrow>
       (\<exists>timeout q0. queue_wait ops (length (native_tokens r)) timeout q0 = Some (Inr events, q)))"
proof -
  let ?P = "\<lambda>ops r y. \<exists>q. snd y = r\<lparr>native := q\<rparr> \<and> (\<forall>events. fst y = Inr events \<longrightarrow>
       (\<exists>timeout q0. queue_wait ops (length (native_tokens (r :: 'q darwin_reactor))) timeout q0 = Some (Inr events, q)))"
  have "?P ops r (res, r')"
  proof (rule wait_events.raw_induct [where P = "\<lambda>ops now r y. ?P ops r y", OF _ assms])
    fix wait and ops :: "('q, 'x) native_ops" and now and r :: "'q darwin_reactor" and y
    assume IH: "\<And>ops now r y. wait ops now r = Some y \<Longrightarrow> ?P ops r y"
      and body: "(let timeout = fst (native_timeout ops now r); r = snd (native_timeout ops now r) in
      Option.bind (queue_wait ops (length (native_tokens r)) timeout (native r)) (\<lambda>(reply, q).
        (case reply of
           Inl e \<Rightarrow>
             if is_interrupted ops e then wait ops now (r\<lparr>native := q\<rparr>)
             else Some (Inl (NativeError e), r\<lparr>native := q\<rparr>)
         | Inr events \<Rightarrow> Some (Inr events, r\<lparr>native := q\<rparr>)))) = Some y"
    obtain q1 where q1: "snd (native_timeout ops now r) = r\<lparr>native := q1\<rparr>"
      using native_timeout_native [of ops now r] by blast
    from body obtain reply q where
      q: "queue_wait ops (length (native_tokens r)) (fst (native_timeout ops now r)) q1 = Some (reply, q)"
      by (auto simp: Let_def q1 bind_eq_Some_conv)
    show "?P ops r y"
    proof (cases "\<exists>e. reply = Inl e \<and> is_interrupted ops e")
      case True
      then have "wait ops now (r\<lparr>native := q\<rparr>) = Some y" using body q by (auto simp: Let_def q1)
      from IH [OF this] show ?thesis by auto
    next
      case False
      with body q show ?thesis by (intro exI [of _ q]) (auto simp: Let_def q1 split: sum.splits, blast)
    qed
  qed
  then show ?thesis by simp
qed

text \<open>What an event or the clock makes ready.\<close>

definition delivered :: "'q darwin_reactor \<Rightarrow> native_event list \<Rightarrow> native_location \<Rightarrow> event_filter \<Rightarrow> bool" where
  "delivered r events k f \<longleftrightarrow>
     (\<exists>n event. native_at r k = Some n \<and> event \<in> set events \<and> event_token event = native_token n \<and> event_filter_of event = f)"

fun due :: "'q darwin_reactor \<Rightarrow> native_event list \<Rightarrow> u64 \<Rightarrow> registration_location \<Rightarrow> bool" where
  "due r events now (AtDescriptor d direction) = delivered r events (NativeDescriptor d direction) (descriptor_filter d direction)"
| "due r events now (AtProcess p) = delivered r events (NativeProcess p) (FilterProcessExit p)"
| "due r events now (AtTimer deadline) = (deadline \<le> now)"
| "due r events now AtImmediate = True"

fun filter_of :: "native_location \<Rightarrow> event_filter" where
  "filter_of (NativeDescriptor d direction) = descriptor_filter d direction"
| "filter_of (NativeProcess p) = FilterProcessExit p"

lemma collect_native_events_eq:
  "collect_native_events r (event # events) ready =
     (case bt_get (native_tokens r) (event_token event) of
        None \<Rightarrow> collect_native_events r events ready
      | Some k \<Rightarrow>
          if event_failed event then Inl (FailedNativeEvent (event_filter_of event))
          else collect_native_events r events
            (ready @ (if event_filter_of event = filter_of k
              then (case native_at r k of Some n \<Rightarrow> bset_elements (native_members n) | None \<Rightarrow> []) else [])))"
  by (auto split: option.splits native_location.splits)

lemma collect_native_events_set:
  assumes ok: "darwin_ok r"
  shows "(collect_native_events r events ready :: 'x darwin_reactor_error + _) = Inr ready' \<Longrightarrow>
    set ready' = set ready \<union> {reg. \<exists>k. joined (native_at r) k reg \<and> delivered r events k (filter_of k)}"
proof (induction events arbitrary: ready)
  case Nil
  then show ?case by (simp add: delivered_def)
next
  case (Cons event events)
  note tokens = indices_okD(2) [OF darwin_okD(7) [OF ok]]
  show ?case
  proof (cases "bt_get (native_tokens r) (event_token event)")
    case None
    then have "delivered r (event # events) k f = delivered r events k f" for k f
      using tokens [of "event_token event" k] by (auto simp: delivered_def)
    with Cons None show ?thesis by (simp add: collect_native_events_eq del: collect_native_events.simps)
  next
    case (Some k)
    with tokens [of "event_token event" k] obtain n where n: "native_at r k = Some n" "native_token n = event_token event"
      by auto
    have this_one: "native_at r j = Some m \<and> native_token m = event_token event \<longleftrightarrow> j = k \<and> m = n" for j m
      using tokens [of "event_token event" j] Some n by auto
    have del: "delivered r (event # events) j f \<longleftrightarrow> delivered r events j f \<or> j = k \<and> event_filter_of event = f" for j f
      using this_one unfolding delivered_def by (auto, metis+)
    have run: "(collect_native_events r events (ready @ (if event_filter_of event = filter_of k
        then bset_elements (native_members n) else [])) :: 'x darwin_reactor_error + _) = Inr ready'"
      using Cons.prems Some n by (simp add: collect_native_events_eq del: collect_native_events.simps split: if_splits)
    have "joined (native_at r) k reg \<longleftrightarrow> bt_contains (native_members n) reg" for reg
      using n by (simp add: joined_def)
    with Cons.IH [OF run] show ?thesis by (auto simp: del)
  qed
qed

lemma expired_timers_set:
  assumes ok: "darwin_ok r"
  shows "set (fst (collect_expired_timers ops r ready))
    = set ready \<union> {reg. \<exists>d s. bt_get (timers r) d = Some s \<and> bt_contains s reg \<and> d \<le> fst (clock_now ops (native r))}"
  using bt_get_Some_iff [OF darwin_okD(5) [OF ok]]
  by (cases "clock_now ops (native r)") (force simp: collect_expired_timers_def)

lemma due_located:
  assumes ok: "darwin_ok r"
  shows "(\<exists>l. bt_get (locations r) reg = Some l \<and> due r events now l) \<longleftrightarrow>
     bt_contains (immediate r) reg \<or> (\<exists>k. joined (native_at r) k reg \<and> delivered r events k (filter_of k))
     \<or> (\<exists>d s. bt_get (timers r) d = Some s \<and> bt_contains s reg \<and> d \<le> now)"
proof -
  note located = indices_okD(1) [OF darwin_okD(7) [OF ok]]
  have native: "due r events now (reported_location k) = delivered r events k (filter_of k)" for k by (cases k) simp_all
  show ?thesis
    unfolding located is_member_native
    by (auto simp: native) (metis due.simps(3))
qed

lemma darwin_wait_native:
  assumes "darwin_wait ops r = Some (res, r')"
  shows "\<exists>q. r' = r\<lparr>native := q\<rparr>"
proof -
  let ?now = "bset_elements (immediate r) \<noteq> []"
  from assms obtain wres r1 where w: "wait_events ops ?now r = Some (wres, r1)"
    by (auto simp: darwin_wait_def Let_def split: option.splits)
  from wait_events_native [OF w] obtain q where q: "r1 = r\<lparr>native := q\<rparr>" by blast
  show ?thesis
    using assms w q
    by (auto simp: darwin_wait_def Let_def collect_expired_timers_def split: sum.splits prod.splits)
qed

lemma distinct_remdups_adj_sorted: "sorted xs \<Longrightarrow> distinct (remdups_adj xs)"
  by (induction xs rule: remdups_adj.induct) (auto simp: order.strict_iff_order)

lemma darwin_wait_exact:
  fixes ops :: "('q, 'x) native_ops"
  assumes ok: "darwin_ok r" and run: "darwin_wait ops r = Some (Inr ids, r')"
  shows "sorted ids \<and> distinct ids \<and>
    (\<exists>events timeout q0 q1. queue_wait ops (length (native_tokens r)) timeout q0 = Some (Inr events, q1)
       \<and> set ids = {reg. \<exists>l. bt_get (locations r) reg = Some l \<and> due r events (fst (clock_now ops q1)) l})"
proof -
  let ?imm = "bset_elements (immediate r)"
  from run obtain wres r1 where w: "wait_events ops (?imm \<noteq> []) r = Some (wres, r1)"
    by (auto simp: darwin_wait_def Let_def split: option.splits)
  with run obtain events where events: "wres = Inr events" by (cases wres) (auto simp: darwin_wait_def Let_def)
  from wait_events_native [OF w] events obtain q timeout q0 where q: "r1 = r\<lparr>native := q\<rparr>"
    "queue_wait ops (length (native_tokens r)) timeout q0 = Some (Inr events, q)" by blast
  have ok1: "darwin_ok r1" using ok q by simp
  from run w events obtain ready where ready: "(collect_native_events r1 events ?imm :: 'x darwin_reactor_error + _) = Inr ready"
    by (cases "collect_native_events r1 events ?imm :: 'x darwin_reactor_error + _") (auto simp: darwin_wait_def Let_def)
  let ?all = "fst (collect_expired_timers ops r1 ready)"
  have ids: "ids = remdups_adj (sort ?all)"
    using run w events ready by (auto simp: darwin_wait_def Let_def split: prod.splits)
  have "set ids = {reg. \<exists>l. bt_get (locations r1) reg = Some l \<and> due r1 events (fst (clock_now ops q)) l}"
    unfolding due_located [OF ok1] ids
    using collect_native_events_set [OF ok1 ready] expired_timers_set [OF ok1, of ops ready] q(1)
    by auto
  moreover have "due r1 events n l = due r events n l" for n l
    by (cases l) (simp_all add: q(1) delivered_def)
  ultimately show ?thesis using q ids by (auto simp: distinct_remdups_adj_sorted)
qed

section \<open>The reactor contract\<close>

interpretation darwin: reactor_contract "darwin_ops ops" darwin_ok darwin_held
  for ops :: "('q, 'x) native_ops"
proof
  fix r :: "'q darwin_reactor" and reg i res r'
  assume "darwin_ok r" "reg \<notin> darwin_held r" "reactor_register (darwin_ops ops) reg i r = (res, r')"
  then show "darwin_ok r' \<and> darwin_held r' = (case res of Inl _ \<Rightarrow> darwin_held r | Inr _ \<Rightarrow> insert reg (darwin_held r))"
    using darwin_register_ok [of r reg ops i res r'] by (simp add: darwin_ops_def registered_def)
next
  fix r :: "'q darwin_reactor" and reg i
  assume "darwin_ok r"
  then show "darwin_ok (reactor_deregister (darwin_ops ops) reg i r)
      \<and> darwin_held (reactor_deregister (darwin_ops ops) reg i r) = darwin_held r - {reg}"
    using darwin_deregister_ok [of r ops reg i] by (simp add: darwin_ops_def)
next
  fix r :: "'q darwin_reactor" and woken r'
  assume "darwin_ok r" and "reactor_wait (darwin_ops ops) r = Some (woken, r')"
  then show "darwin_ok r' \<and> darwin_held r' \<subseteq> darwin_held r
      \<and> darwin_held r - darwin_held r' \<subseteq> (case woken of Inl _ \<Rightarrow> {} | Inr events \<Rightarrow> set events)"
    using darwin_wait_native [of ops r woken r'] by (auto simp: darwin_ops_def)
qed

section \<open>Properties\<close>

text \<open>A native queue without events whose clock stands at 10, and a run with one task and one timer.\<close>

definition demo_native :: "(unit, unit) native_ops" where
  "demo_native = \<lparr>queue_register = (\<lambda>f t q. (Inr (), q)), queue_deregister = (\<lambda>f q. (Inr (), q)),
     queue_wait = (\<lambda>n t q. Some (Inr [], q)), is_interrupted = (\<lambda>e. True), is_missing_subject = (\<lambda>e. False),
     clock_now = (\<lambda>q. (10, q)), clock_duration_until = (\<lambda>d q. (unat d - 10, q))\<rparr>"

definition demo_timer :: "unit darwin_reactor" where
  "demo_timer = register_timer (Key 0 0) 5 (darwin_reactor_new ())"

lemma demo_timer_ok: "darwin_ok demo_timer"
  using register_timer_ok [OF darwin_ok_new, of "Key 0 0" "()" 5]
  by (simp add: demo_timer_def darwin_held_def darwin_reactor_new_def)

text \<open>
  C12: In every state a scheduler over the Darwin adapter can reach, the adapter's indices are consistent
  and it holds exactly the registrations that are active in the scheduler: none leaks, none is lost, and
  no identity is registered twice.
\<close>

theorem reactor_follows_scheduler:
  assumes "reachable_from (\<lambda>s. \<exists>q. s = scheduler_new (darwin_reactor_new q)) (scheduler_step (darwin_ops ops)) s"
  shows "darwin_ok (reactor s)
    \<and> (\<forall>r. bt_contains (locations (reactor s)) r \<longleftrightarrow> (\<exists>t i. arena_get (registrations s) r = Some (t, i)))"
proof -
  have held: "darwin_held (darwin_reactor_new q) = {}" for q
    by (simp add: darwin_held_def darwin_reactor_new_def)
  have "scheduler_ok s \<and> darwin.agrees s"
    using assms
  proof (induction rule: reachable_from.induct)
    case (reachable_start s)
    then show ?case using darwin.new_agrees [OF darwin_ok_new held] by (auto simp: scheduler_ok_new)
  next
    case (reachable_step s t)
    then show ?case using darwin.connected.step_inv by blast
  qed
  then have "darwin_ok (reactor s)" "darwin_held (reactor s) = active s" by (simp_all add: darwin.agrees_def)
  then show ?thesis by (simp add: darwin_held_def active_def bt_contains_def set_eq_iff)
qed

lemma reactor_follows_scheduler_witness:
  "\<exists>s :: (unit darwin_reactor, reactor_interest) scheduler. task_state_of s (Key 0 0) = Some StateWaiting \<and> bt_contains (locations (reactor s)) (Key 0 0)"
proof -
  let ?reach = "reachable_from (\<lambda>s. \<exists>q. s = scheduler_new (darwin_reactor_new q)) (scheduler_step (darwin_ops demo_native))"
  let ?new = "scheduler_new (darwin_reactor_new ()) :: (unit darwin_reactor, reactor_interest) scheduler"
  let ?spawned = "?new\<lparr>tasks := \<lparr>slots = [(0, Some Runnable)], free_slots = []\<rparr>, runnable := [Key 0 0]\<rparr>"
  let ?running = "?new\<lparr>tasks := \<lparr>slots = [(0, Some Running)], free_slots = []\<rparr>\<rparr>"
  let ?waiting = "?new\<lparr>reactor := demo_timer, tasks := \<lparr>slots = [(0, Some (Waiting [Key 0 0]))], free_slots = []\<rparr>,
    registrations := \<lparr>slots = [(0, Some (Key 0 0, InterestTimer 5))], free_slots = []\<rparr>\<rparr>"
  have runs: "(spawn ?new :: (_, _, unit darwin_reactor_error, _) scheduler_result) = (Inr (Key 0 0), ?spawned)"
    "next_progress (darwin_ops demo_native) ?spawned = Some (Inr (Resume (Key 0 0)), ?running)"
    "suspend (darwin_ops demo_native) (Key 0 0) [InterestTimer 5] ?running = (Inr [Key 0 0], ?waiting)"
    by (simp_all add: demo_simps darwin_ops_def darwin_register_def demo_timer_def darwin_reactor_new_def)
  have "?reach ?new" by (rule reachable_start) auto
  from reachable_step [OF this step_spawn [OF runs(1)]] have "?reach ?spawned" .
  from reachable_step [OF this step_progress [OF runs(2)]] have "?reach ?running" .
  from reachable_step [OF this step_suspend [OF runs(3)]] have reach: "?reach ?waiting" .
  have "arena_get (registrations ?waiting) (Key 0 0) = Some (Key 0 0, InterestTimer 5)"
    by (simp add: arena_get_def list_get_def)
  with reactor_follows_scheduler [OF reach] have "bt_contains (locations (reactor ?waiting)) (Key 0 0)" by blast
  moreover have "task_state_of ?waiting (Key 0 0) = Some StateWaiting"
    by (simp add: task_state_of_def arena_get_def list_get_def)
  ultimately show ?thesis by blast
qed

text \<open>
  C31: Waiting reports exactly the registrations that are due, in order and without repetition: those
  ready at once, those whose native observation the queue delivered with their filter, and the timers
  whose deadline has passed on the clock.
\<close>

theorem wait_reports_due:
  assumes "darwin_ok r" and "darwin_wait ops r = Some (Inr ids, r')"
  shows "sorted ids \<and> distinct ids \<and>
    (\<exists>events timeout q0 q1. queue_wait ops (length (native_tokens r)) timeout q0 = Some (Inr events, q1)
       \<and> (\<forall>reg. reg \<in> set ids \<longleftrightarrow> (\<exists>l. bt_get (locations r) reg = Some l \<and> due r events (fst (clock_now ops q1)) l)))"
  using darwin_wait_exact [OF assms] by blast

lemma wait_reports_due_witness: "\<exists>r'. darwin_wait demo_native demo_timer = Some (Inr [Key 0 0], r')"
proof -
  have "darwin_wait demo_native demo_timer = Some (Inr [Key 0 0], demo_timer)"
    by (simp add: darwin_wait_def demo_timer_def wait_events.simps demo_native_def native_timeout_def wait_timeout_def
        register_timer_def locate_def darwin_reactor_new_def bset_insert_def bset_elements_def
        collect_expired_timers_def)
  with wait_reports_due [OF demo_timer_ok this] show ?thesis by blast
qed

text \<open>
  Waiting returns when the queue does not block for ever and interrupts it only finitely often:
  the retry loop ends.
\<close>

theorem wait_returns:
  assumes "\<forall>n timeout q. queue_wait ops n timeout q \<noteq> None"
    and "\<forall>n timeout q e q'. queue_wait ops n timeout q = Some (Inl e, q') \<and> is_interrupted ops e \<longrightarrow> m q' < (m q :: nat)"
    and "\<forall>d q. m (snd (clock_duration_until ops d q)) \<le> m q"
  shows "\<exists>res r'. darwin_wait ops r = Some (res, r')"
proof -
  have time: "m (native (snd (native_timeout ops now r))) \<le> m (native r)" for now r
    using assms(3) by (auto simp: native_timeout_def wait_timeout_def split: list.splits prod.splits) (metis snd_conv)
  have "wait_events ops now r \<noteq> None" for now
  proof (induction "m (native r)" arbitrary: r rule: less_induct)
    case less
    let ?r = "snd (native_timeout ops now r)"
    from assms(1) obtain reply q where
      q: "queue_wait ops (length (native_tokens ?r)) (fst (native_timeout ops now r)) (native ?r) = Some (reply, q)"
      by (metis not_None_eq surj_pair)
    show ?case
    proof (cases "\<exists>e. reply = Inl e \<and> is_interrupted ops e")
      case True
      with assms(2) q have "m q < m (native ?r)" by blast
      with time [of now r] have "m (native (?r\<lparr>native := q\<rparr>)) < m (native r)" by simp
      from less [OF this] q True show ?thesis by (subst wait_events.simps) (auto simp: Let_def)
    next
      case False
      with q show ?thesis by (subst wait_events.simps) (auto simp: Let_def split: sum.splits)
    qed
  qed
  then show ?thesis
    by (auto simp: darwin_wait_def Let_def split: option.splits sum.splits prod.splits)
qed

lemma wait_returns_witness: "\<exists>res r'. darwin_wait demo_native demo_timer = Some (res, r')"
  by (rule wait_returns [where m = "\<lambda>q. 0"]) (auto simp: demo_native_def)

end
