(* ===== verification/Task_Executor.thy ===== *)
theory Task_Executor
  imports Scheduler_Steps Btree_Map
begin

text \<open>
  The executor of the asynchronous runtime (\<^verbatim>\<open>nocter-task-runtime/src/executor.rs\<close>): it owns one computation
  per live task of the scheduler. Computations are the trait parameter of the sources: how one is
  resumed, cancelled and consumed, and the effect this has on the world outside the executor.
\<close>

section \<open>State\<close>

text \<open>A wait set is not empty; its constructors are the only way to build one.\<close>

datatype 'i wait_set = WaitSet 'i "'i list"

definition wait_set_one :: "'i \<Rightarrow> 'i wait_set" where
  "wait_set_one i = WaitSet i []"

definition wait_set_new :: "'i \<Rightarrow> 'i list \<Rightarrow> 'i wait_set" where
  "wait_set_new first remaining = WaitSet first remaining"

fun wait_set_interests :: "'i wait_set \<Rightarrow> 'i list" where
  "wait_set_interests (WaitSet first remaining) = first # remaining"

datatype 'i computation_poll = Pending "'i wait_set" | PollCompleted

record ('c, 'i, 'o, 'w) computation_ops =
  computation_resume :: "'c \<Rightarrow> 'w \<Rightarrow> 'i computation_poll \<times> 'c \<times> 'w"
  computation_cancel :: "'c \<Rightarrow> 'w \<Rightarrow> 'w"
  computation_consume :: "'c \<Rightarrow> 'w \<Rightarrow> 'o \<times> 'w"

datatype executor_progress = Resumed task_id | ExecutorIdle

datatype 'e executor_error =
    SchedulerFailure "'e scheduler_error"
  | Recovery "'e scheduler_error"
  | MissingComputation task_id
  | DuplicateComputation task_id

record ('r, 'i, 'c, 'w) executor =
  scheduler_of :: "('r, 'i) scheduler"
  computations :: "(task_id, 'c) btree_map"
  world :: 'w

type_synonym ('r, 'i, 'c, 'w, 'e, 'a) executor_result = "('e executor_error + 'a) \<times> ('r, 'i, 'c, 'w) executor"

definition executor_new :: "'r \<Rightarrow> 'w \<Rightarrow> ('r, 'i, 'c, 'w) executor" where
  "executor_new r w = \<lparr>scheduler_of = scheduler_new r, computations = [], world = w\<rparr>"

section \<open>Operations\<close>

definition executor_spawn :: "'c \<Rightarrow> ('r, 'i, 'c, 'w) executor \<Rightarrow> ('r, 'i, 'c, 'w, 'e, task_id) executor_result" where
  "executor_spawn c e =
     (case spawn (scheduler_of e) of
        (Inl x, s) \<Rightarrow> (Inl (SchedulerFailure x), e\<lparr>scheduler_of := s\<rparr>)
      | (Inr t, s) \<Rightarrow>
          if bt_contains (computations e) t then (Inl (DuplicateComputation t), e\<lparr>scheduler_of := s\<rparr>)
          else (Inr t, e\<lparr>scheduler_of := s, computations := bt_insert t c (computations e)\<rparr>))"

text \<open>The task goes back to the queue, then the error that made it necessary is returned.\<close>

definition recover ::
  "task_id \<Rightarrow> 'e executor_error \<Rightarrow> ('r, 'i, 'c, 'w) executor \<Rightarrow> ('r, 'i, 'c, 'w, 'e, 'a) executor_result" where
  "recover t x e =
     (case yield_now t (scheduler_of e) of
        (Inl y, s) \<Rightarrow> (Inl (Recovery y), e\<lparr>scheduler_of := s\<rparr>)
      | (Inr _, s) \<Rightarrow> (Inl x, e\<lparr>scheduler_of := s\<rparr>))"

definition poll_task ::
  "('r, 'i, 'e) reactor_ops \<Rightarrow> ('c, 'i, 'o, 'w) computation_ops \<Rightarrow> task_id \<Rightarrow> ('r, 'i, 'c, 'w) executor
     \<Rightarrow> ('r, 'i, 'c, 'w, 'e, executor_progress) executor_result" where
  "poll_task ops cops t e =
     (case bt_get (computations e) t of
        None \<Rightarrow> recover t (MissingComputation t) e
      | Some c \<Rightarrow>
          (case computation_resume cops c (world e) of
             (poll, c, w) \<Rightarrow>
               let e = e\<lparr>computations := bt_insert t c (computations e), world := w\<rparr> in
               (case poll of
                  Pending wait \<Rightarrow>
                    (case suspend ops t (wait_set_interests wait) (scheduler_of e) of
                       (Inl x, s) \<Rightarrow> recover t (SchedulerFailure x) (e\<lparr>scheduler_of := s\<rparr>)
                     | (Inr _, s) \<Rightarrow> (Inr (Resumed t), e\<lparr>scheduler_of := s\<rparr>))
                | PollCompleted \<Rightarrow>
                    (case complete t (scheduler_of e) of
                       (Inl x, s) \<Rightarrow> (Inl (SchedulerFailure x), e\<lparr>scheduler_of := s\<rparr>)
                     | (Inr _, s) \<Rightarrow> (Inr (Resumed t), e\<lparr>scheduler_of := s\<rparr>)))))"

text \<open>\<open>None\<close>: the reactor never returns.\<close>

definition executor_step ::
  "('r, 'i, 'e) reactor_ops \<Rightarrow> ('c, 'i, 'o, 'w) computation_ops \<Rightarrow> ('r, 'i, 'c, 'w) executor
     \<Rightarrow> ('r, 'i, 'c, 'w, 'e, executor_progress) executor_result option" where
  "executor_step ops cops e =
     (case next_progress ops (scheduler_of e) of
        None \<Rightarrow> None
      | Some (Inl x, s) \<Rightarrow> Some (Inl (SchedulerFailure x), e\<lparr>scheduler_of := s\<rparr>)
      | Some (Inr Idle, s) \<Rightarrow> Some (Inr ExecutorIdle, e\<lparr>scheduler_of := s\<rparr>)
      | Some (Inr (Resume t), s) \<Rightarrow> Some (poll_task ops cops t (e\<lparr>scheduler_of := s\<rparr>)))"

text \<open>The loop of \<open>run_until_idle\<close>; \<open>None\<close> is a run that never ends.\<close>

partial_function (option) run_until_idle ::
  "('r, 'i, 'e) reactor_ops \<Rightarrow> ('c, 'i, 'o, 'w) computation_ops \<Rightarrow> ('r, 'i, 'c, 'w) executor
     \<Rightarrow> ('r, 'i, 'c, 'w, 'e, unit) executor_result option" where
  "run_until_idle ops cops e =
     Option.bind (executor_step ops cops e) (\<lambda>(reply, e).
       (case reply of
          Inl x \<Rightarrow> Some (Inl x, e)
        | Inr progress \<Rightarrow>
            if progress = ExecutorIdle \<and> \<not> has_progress_source (scheduler_of e) then Some (Inr (), e)
            else run_until_idle ops cops e))"

definition executor_cancel ::
  "('r, 'i, 'e) reactor_ops \<Rightarrow> ('c, 'i, 'o, 'w) computation_ops \<Rightarrow> task_id \<Rightarrow> ('r, 'i, 'c, 'w) executor
     \<Rightarrow> ('r, 'i, 'c, 'w, 'e, unit) executor_result" where
  "executor_cancel ops cops t e =
     (if \<not> bt_contains (computations e) t then (Inl (MissingComputation t), e)
      else
        (case cancel ops t (scheduler_of e) of
           (Inl x, s) \<Rightarrow> (Inl (SchedulerFailure x), e\<lparr>scheduler_of := s\<rparr>)
         | (Inr _, s) \<Rightarrow>
             (case bt_get (computations e) t of
                None \<Rightarrow> (Inl (MissingComputation t), e\<lparr>scheduler_of := s\<rparr>)
              | Some c \<Rightarrow>
                  let e = e\<lparr>computations := bt_remove t (computations e), world := computation_cancel cops c (world e)\<rparr> in
                  (case finish_cancellation t s of
                     (Inl x, s) \<Rightarrow> (Inl (SchedulerFailure x), e\<lparr>scheduler_of := s\<rparr>)
                   | (Inr _, s) \<Rightarrow> (Inr (), e\<lparr>scheduler_of := s\<rparr>)))))"

definition executor_consume ::
  "('c, 'i, 'o, 'w) computation_ops \<Rightarrow> task_id \<Rightarrow> ('r, 'i, 'c, 'w) executor
     \<Rightarrow> ('r, 'i, 'c, 'w, 'e, 'o) executor_result" where
  "executor_consume cops t e =
     (if \<not> bt_contains (computations e) t then (Inl (MissingComputation t), e)
      else
        (case consume_completed t (scheduler_of e) of
           (Inl x, s) \<Rightarrow> (Inl (SchedulerFailure x), e\<lparr>scheduler_of := s\<rparr>)
         | (Inr _, s) \<Rightarrow>
             (case bt_get (computations e) t of
                None \<Rightarrow> (Inl (MissingComputation t), e\<lparr>scheduler_of := s\<rparr>)
              | Some c \<Rightarrow>
                  (case computation_consume cops c (world e) of
                     (out, w) \<Rightarrow>
                       (Inr out, e\<lparr>scheduler_of := s, computations := bt_remove t (computations e), world := w\<rparr>)))))"

text \<open>The loop of \<open>shutdown\<close> over the published cancellations.\<close>

fun destroy_all ::
  "('c, 'i, 'o, 'w) computation_ops \<Rightarrow> (task_id \<times> cancellation_kind) list \<Rightarrow> ('r, 'i, 'c, 'w) executor
     \<Rightarrow> ('r, 'i, 'c, 'w, 'e, unit) executor_result" where
  "destroy_all cops [] e = (Inr (), e)"
| "destroy_all cops ((t, _) # rest) e =
     (case bt_get (computations e) t of
        None \<Rightarrow> (Inl (MissingComputation t), e)
      | Some c \<Rightarrow>
          let e = e\<lparr>computations := bt_remove t (computations e), world := computation_cancel cops c (world e)\<rparr> in
          (case finish_cancellation t (scheduler_of e) of
             (Inl x, s) \<Rightarrow> (Inl (SchedulerFailure x), e\<lparr>scheduler_of := s\<rparr>)
           | (Inr _, s) \<Rightarrow> destroy_all cops rest (e\<lparr>scheduler_of := s\<rparr>)))"

definition executor_shutdown ::
  "('r, 'i, 'e) reactor_ops \<Rightarrow> ('c, 'i, 'o, 'w) computation_ops \<Rightarrow> ('r, 'i, 'c, 'w) executor
     \<Rightarrow> ('r, 'i, 'c, 'w, 'e, unit) executor_result" where
  "executor_shutdown ops cops e =
     (case begin_shutdown ops (scheduler_of e) of
        (Inl x, s) \<Rightarrow> (Inl (SchedulerFailure x), e\<lparr>scheduler_of := s\<rparr>)
      | (Inr cancellations, s) \<Rightarrow> destroy_all cops cancellations (e\<lparr>scheduler_of := s\<rparr>))"

end
