(* ===== verification/Task_Executor_Correct.thy ===== *)
theory Task_Executor_Correct
  imports Task_Executor
begin

text \<open>
  Correctness of the executor: between operations every live task has exactly one computation, no task is
  left running, and the internal inconsistencies the sources report as errors never happen.
\<close>

abbreviation live :: "('r, 'i) scheduler \<Rightarrow> task_id \<Rightarrow> task_slot_state option" where
  "live s t \<equiv> arena_get (tasks s) t"

section \<open>Progress of the scheduler\<close>

text \<open>Waiting tasks may have become runnable; nothing else changed.\<close>

definition woken :: "('r, 'i) scheduler \<Rightarrow> ('r, 'i) scheduler \<Rightarrow> bool" where
  "woken s s' \<longleftrightarrow> (\<forall>u. live s' u = live s u \<or> (\<exists>rs. live s u = Some (Waiting rs)) \<and> live s' u = Some Runnable)"

lemma woken_refl [simp]: "woken s s"
  by (simp add: woken_def)

lemma take_runnable_effect:
  assumes ok: "scheduler_ok s" and run: "take_runnable s = (res, s')"
  shows "\<exists>x. res = Inr x \<and> (\<forall>u. live s' u = (if x = Some u then Some Running else live s u))
    \<and> (\<forall>t. x = Some t \<longrightarrow> live s t = Some Runnable) \<and> (x = None \<longrightarrow> (\<forall>u. live s u \<noteq> Some Runnable))"
proof (cases "dropWhile (\<lambda>t. live s t \<noteq> Some Runnable) (runnable s)")
  case Nil
  then have "live s u \<noteq> Some Runnable" if "u \<in> set (runnable s)" for u using that by (simp add: dropWhile_eq_Nil_conv)
  moreover have "u \<in> set (runnable s)" if "live s u = Some Runnable" for u
    using queued [OF ok that] by (metis count_list_0_iff queued_ok.simps(1) zero_neq_one)
  ultimately have "\<forall>u. live s u \<noteq> Some Runnable" by blast
  moreover have "res = Inr None \<and> s' = s\<lparr>runnable := []\<rparr>"
    using run Nil by (simp add: take_runnable_def take_runnable_from_eq)
  ultimately show ?thesis by simp
next
  case (Cons t rest)
  then have t: "live s t = Some Runnable" by (auto simp: dropWhile_eq_Cons_conv)
  note set = arena_set_ok(2) [OF scheduler_okD(1) [OF ok] t]
  with Cons t run show ?thesis by (auto simp: take_runnable_def take_runnable_from_eq)
qed

lemma next_progress_effect:
  fixes ops :: "('r, 'i, 'e) reactor_ops"
  assumes ok: "scheduler_ok s" and run: "next_progress ops s = Some (res, s')"
  shows "case res of
      Inl e \<Rightarrow> (\<exists>x. e = ReactorError x) \<and> woken s s'
    | Inr Idle \<Rightarrow> woken s s' \<and> (\<forall>u. live s' u \<noteq> Some Runnable)
    | Inr (Resume t) \<Rightarrow> \<exists>s1. woken s s1 \<and> live s1 t = Some Runnable
        \<and> (\<forall>u. live s' u = (if u = t then Some Running else live s1 u))"
proof -
  obtain r1 s1 where take: "(take_runnable s :: ('r, 'i, 'e, _) scheduler_result) = (r1, s1)" by (rule prod.exhaust)
  from take_runnable_effect [OF ok take] obtain x where x: "r1 = Inr x"
    "\<forall>u. live s1 u = (if x = Some u then Some Running else live s u)"
    "\<forall>t. x = Some t \<longrightarrow> live s t = Some Runnable" "x = None \<longrightarrow> (\<forall>u. live s u \<noteq> Some Runnable)" by blast
  have ok1: "scheduler_ok s1" using take_runnable_ok [OF ok take] by simp
  show ?thesis
  proof (cases x)
    case (Some t)
    with run take x(1) have "res = Inr (Resume t)" "s' = s1" by (auto simp: next_progress_def)
    with x Some show ?thesis by (auto intro!: exI [of _ s])
  next
    case None
    with x(2) have same: "live s1 u = live s u" for u by simp
    then have woken1: "woken s s1" by (simp add: woken_def)
    show ?thesis
    proof (cases "\<exists>events re. has_active_registration s1 \<and> reactor_wait ops (reactor s1) = Some (Inr events, re)")
      case False
      with run take x(1) None have "(\<exists>e. res = Inl (ReactorError e)) \<and> live s' = live s1 \<or> res = Inr Idle \<and> s' = s1"
        by (auto simp: next_progress_def fun_eq_iff split: option.splits sum.splits prod.splits if_splits)
      with woken1 x(4) None same show ?thesis by (auto simp: woken_def fun_eq_iff)
    next
      case True
      then obtain events re where e: "has_active_registration s1"
        "reactor_wait ops (reactor s1) = Some (Inr events, re)" by blast
      have "scheduler_ok (s1\<lparr>reactor := re\<rparr>)" using ok1 by simp
      moreover have same_tasks: "tasks (s1\<lparr>reactor := re\<rparr>) = tasks s1" by simp
      ultimately obtain s2 where
        s2: "accept_events ops events (s1\<lparr>reactor := re\<rparr>) = (Inr (), s2)" "scheduler_ok s2"
        "\<forall>t. live s2 t = (if \<exists>rs. live s1 t = Some (Waiting rs) \<and> set rs \<inter> set events \<noteq> {}
           then Some Runnable else live s1 t)"
        using accept_events_ok [of "s1\<lparr>reactor := re\<rparr>" ops events] unfolding same_tasks by blast
      have woken2: "woken s s2" using s2(3) same by (auto simp: woken_def)
      obtain r3 s3 where s3: "(take_runnable s2 :: ('r, 'i, 'e, _) scheduler_result) = (r3, s3)" by (rule prod.exhaust)
      from take_runnable_effect [OF s2(2) s3] obtain y where y: "r3 = Inr y"
        "\<forall>u. live s3 u = (if y = Some u then Some Running else live s2 u)"
        "\<forall>t. y = Some t \<longrightarrow> live s2 t = Some Runnable" "y = None \<longrightarrow> (\<forall>u. live s2 u \<noteq> Some Runnable)" by blast
      have "s' = s3" "res = Inr (case y of Some t \<Rightarrow> Resume t | None \<Rightarrow> Idle)"
        using run take x(1) None e s2(1) s3 y(1)
        by (auto simp: next_progress_def split: sum.splits option.splits)
      with woken2 y show ?thesis by (cases y) (auto simp: woken_def)
    qed
  qed
qed

lemma progress_content_iff:
  "(case content of Some Runnable \<Rightarrow> True | Some (Waiting _) \<Rightarrow> True | _ \<Rightarrow> False)
     \<longleftrightarrow> (\<exists>st. content = Some st \<and> (st = Runnable \<or> waits st))"
  by (auto simp: waits_def split: option.splits task_slot_state.splits)

lemma has_progress_source_iff:
  "has_progress_source s \<longleftrightarrow> (\<exists>t st. live s t = Some st \<and> (st = Runnable \<or> waits st))"
proof -
  have "has_progress_source s \<longleftrightarrow> (\<exists>i < length (slots (tasks s)). \<exists>st. snd (slots (tasks s) ! i) = Some st
      \<and> (st = Runnable \<or> waits st))"
    unfolding has_progress_source_def list_ex_length case_prod_beta progress_content_iff ..
  also have "\<dots> \<longleftrightarrow> (\<exists>t st. live s t = Some st \<and> (st = Runnable \<or> waits st))"
    unfolding arena_get_Some prod_eq_iff by (metis fst_conv key.sel snd_conv)
  finally show ?thesis .
qed

section \<open>The invariant\<close>

definition settled :: "task_slot_state \<Rightarrow> bool" where
  "settled st \<longleftrightarrow> st = Runnable \<or> waits st \<or> st = Completed"

definition owned :: "('r, 'i) scheduler \<Rightarrow> (task_id, 'c) btree_map \<Rightarrow> bool" where
  "owned s cs \<longleftrightarrow> scheduler_ok s \<and> bt_sorted cs \<and> (\<forall>t. bt_contains cs t \<longleftrightarrow> live s t \<noteq> None)"

definition executor_ok :: "('r, 'i, 'c, 'w) executor \<Rightarrow> bool" where
  "executor_ok e \<longleftrightarrow> owned (scheduler_of e) (computations e)
     \<and> (\<forall>t st. live (scheduler_of e) t = Some st \<longrightarrow> settled st)"

text \<open>While a task is polled it is the only one that is not settled.\<close>

definition polling :: "task_id \<Rightarrow> ('r, 'i, 'c, 'w) executor \<Rightarrow> bool" where
  "polling t e \<longleftrightarrow> owned (scheduler_of e) (computations e) \<and> live (scheduler_of e) t = Some Running
     \<and> (\<forall>u st. u \<noteq> t \<longrightarrow> live (scheduler_of e) u = Some st \<longrightarrow> settled st)"

lemma settled_simps [simp]: "settled Runnable" "settled (Waiting rs)" "settled Completed" "\<not> settled Running"
  "\<not> settled (Cancelling k)"
  by (simp_all add: settled_def)

lemma executor_new_ok: "executor_ok (executor_new r w)"
  by (simp add: executor_ok_def owned_def executor_new_def scheduler_ok_new) (simp add: scheduler_new_def)

lemma owned_woken: "owned s cs \<Longrightarrow> woken s s' \<Longrightarrow> scheduler_ok s' \<Longrightarrow> owned s' cs"
  unfolding owned_def woken_def by (metis option.distinct(1))

lemma settled_woken: "woken s s' \<Longrightarrow> (\<forall>t st. live s t = Some st \<longrightarrow> settled st) \<Longrightarrow> live s' u = Some st \<Longrightarrow> settled st"
  unfolding woken_def by (metis option.inject settled_simps(1))

lemma spawn_effect:
  assumes ok: "scheduler_ok s" and run: "spawn s = (res, s')"
  shows "case res of Inl e \<Rightarrow> e = CapacityExhausted \<and> s' = s
    | Inr t \<Rightarrow> live s t = None \<and> (\<forall>u. live s' u = (if u = t then Some Runnable else live s u))"
  using run arena_alloc_ok(3,4) [OF scheduler_okD(1) [OF ok]]
  by (auto simp: spawn_def split: option.splits)

lemma executor_spawn_ok:
  fixes e :: "('r, 'i, 'c, 'w) executor"
  assumes ok: "executor_ok e" and run: "(executor_spawn c e :: ('r, 'i, 'c, 'w, 'e, _) executor_result) = (res, e')"
  shows "executor_ok e' \<and> (case res of Inl x \<Rightarrow> x = SchedulerFailure CapacityExhausted | Inr t \<Rightarrow>
    bt_get (computations e') t = Some c \<and> live (scheduler_of e') t = Some Runnable)"
proof -
  obtain r s where sp: "(spawn (scheduler_of e) :: ('r, 'i, 'e, _) scheduler_result) = (r, s)" by (rule prod.exhaust)
  have ok': "scheduler_ok (scheduler_of e)" using ok by (simp add: executor_ok_def owned_def)
  note eff = spawn_effect [OF ok' sp] and oks = spawn_ok [OF ok' sp]
  show ?thesis
  proof (cases r)
    case (Inl x)
    with run sp eff ok show ?thesis by (auto simp: executor_spawn_def executor_ok_def)
  next
    case (Inr t)
    with eff have t: "live (scheduler_of e) t = None" "\<forall>u. live s u = (if u = t then Some Runnable else live (scheduler_of e) u)"
      by simp_all
    with ok have "\<not> bt_contains (computations e) t" by (simp add: executor_ok_def owned_def)
    with run sp Inr have e': "res = Inr t" "e' = e\<lparr>scheduler_of := s, computations := bt_insert t c (computations e)\<rparr>"
      by (auto simp: executor_spawn_def)
    with ok t oks show ?thesis
      by (auto simp: executor_ok_def owned_def bt_sorted_insert bt_get_insert bt_contains_def)
  qed
qed

section \<open>Polling\<close>

lemma recover_ok:
  fixes e :: "('r, 'i, 'c, 'w) executor"
  assumes pol: "polling t e" and run: "(recover t x e :: ('r, 'i, 'c, 'w, 'e, 'a) executor_result) = (res, e')"
  shows "executor_ok e' \<and> res = Inl x \<and> live (scheduler_of e') t = Some Runnable \<and> computations e' = computations e"
proof -
  have ok: "scheduler_ok (scheduler_of e)" and at: "live (scheduler_of e) t = Some Running"
    using pol by (auto simp: polling_def owned_def)
  obtain r s where y: "(yield_now t (scheduler_of e) :: ('r, 'i, 'e, _) scheduler_result) = (r, s)" by (rule prod.exhaust)
  have oks: "scheduler_ok s" by (rule yield_now_ok [OF ok y])
  have r: "r = Inr ()" and s: "\<forall>u. live s u = (if u = t then Some Runnable else live (scheduler_of e) u)"
    using y at arena_set_ok(2) [OF scheduler_okD(1) [OF ok] at] by (auto simp: yield_now_def transition_state_eq)
  with run y have e': "res = Inl x" "e' = e\<lparr>scheduler_of := s\<rparr>" by (auto simp: recover_def)
  with pol oks s show ?thesis by (auto simp: executor_ok_def polling_def owned_def)
qed

definition poll_errors :: "'e executor_error \<Rightarrow> bool" where
  "poll_errors x \<longleftrightarrow> x = SchedulerFailure CapacityExhausted \<or> (\<exists>y. x = SchedulerFailure (ReactorError y))"

lemma install_errors:
  "install_wait_set ops t interests installed s = (Inl e, s') \<Longrightarrow> e = CapacityExhausted \<or> (\<exists>y. e = ReactorError y)"
  by (induction ops t interests installed s rule: install_wait_set.induct)
    (auto simp: allocate_registration_def split: option.splits sum.splits prod.splits)

lemma suspend_errors:
  assumes "live s t = Some Running" and "interests \<noteq> []" and "scheduler_ok s" and run: "suspend ops t interests s = (Inl e, s')"
  shows "e = CapacityExhausted \<or> (\<exists>y. e = ReactorError y)"
proof -
  obtain r1 s1 where inst: "install_wait_set ops t interests [] s = (r1, s1)" by (rule prod.exhaust)
  have at: "scheduler_ok_at t [] s" using assms(3) by (simp add: scheduler_ok_any [of s t])
  from install_ok [OF at assms(1) inst] have same: "tasks s1 = tasks s" by (simp add: same_tasks_def)
  show ?thesis
  proof (cases r1)
    case (Inl x)
    with run inst assms(1,2) have "e = x"
      by (auto simp: suspend_def require_state_def task_state_of_def)
    with install_errors inst Inl show ?thesis by blast
  next
    case (Inr rs)
    with run inst assms(1,2) same show ?thesis
      by (auto simp: suspend_def require_state_def task_state_of_def transition_state_eq)
  qed
qed

lemma complete_effect:
  assumes ok: "scheduler_ok s" and at: "live s t = Some Running" and run: "complete t s = (res, s')"
  shows "res = Inr () \<and> (\<forall>u. live s' u = (if u = t then Some Completed else live s u))"
  using run at arena_set_ok(2) [OF scheduler_okD(1) [OF ok] at] by (auto simp: complete_def transition_state_eq)

lemma poll_task_ok:
  fixes e :: "('r, 'i, 'c, 'w) executor" and ops :: "('r, 'i, 'e) reactor_ops"
  assumes pol: "polling t e" and run: "poll_task ops cops t e = (res, e')"
  shows "executor_ok e' \<and> (case res of Inl x \<Rightarrow> poll_errors x \<and> live (scheduler_of e') t = Some Runnable | Inr p \<Rightarrow> p = Resumed t)"
proof -
  let ?s = "scheduler_of e"
  have ok: "scheduler_ok ?s" and at: "live ?s t = Some Running" and own: "owned ?s (computations e)"
    and rest: "\<And>u st. u \<noteq> t \<Longrightarrow> live ?s u = Some st \<Longrightarrow> settled st"
    using pol by (auto simp: polling_def owned_def)
  from own at have "bt_contains (computations e) t" by (simp add: owned_def)
  then obtain c where c: "bt_get (computations e) t = Some c" by (auto simp: bt_contains_def)
  obtain poll c' w where resume: "computation_resume cops c (world e) = (poll, c', w)" by (rule prod_cases3)
  let ?e = "e\<lparr>computations := bt_insert t c' (computations e), world := w\<rparr>"
  have own': "owned ?s (bt_insert t c' (computations e))"
    using own at by (auto simp: owned_def bt_sorted_insert bt_contains_def bt_get_insert)
  show ?thesis
  proof (cases poll)
    case PollCompleted
    obtain r s where r: "(complete t ?s :: ('r, 'i, 'e, _) scheduler_result) = (r, s)" by (rule prod.exhaust)
    note eff = complete_effect [OF ok at r] and oks = complete_ok [OF ok r]
    have e': "res = Inr (Resumed t)" "e' = ?e\<lparr>scheduler_of := s\<rparr>"
      using run c resume PollCompleted r eff by (auto simp: poll_task_def Let_def)
    with eff oks own' rest at show ?thesis by (auto simp: executor_ok_def owned_def split: if_splits)
  next
    case (Pending wait)
    let ?is = "wait_set_interests wait"
    have ne: "?is \<noteq> []" by (cases wait) simp
    obtain r s where r: "suspend ops t ?is ?s = (r, s)" by (rule prod.exhaust)
    note eff = suspend_ok [OF ok r]
    show ?thesis
    proof (cases r)
      case (Inl x)
      with eff have same: "tasks s = tasks ?s" "scheduler_ok s" by (auto simp: same_tasks_def)
      have pol': "polling t (?e\<lparr>scheduler_of := s\<rparr>)"
        using own' same at rest by (auto simp: polling_def owned_def)
      have rec: "recover t (SchedulerFailure x) (?e\<lparr>scheduler_of := s\<rparr>) = (res, e')"
        using run c resume Pending r Inl by (simp add: poll_task_def Let_def)
      have "poll_errors (SchedulerFailure x)"
        using suspend_errors [OF at ne ok, of ops x s] r Inl by (auto simp: poll_errors_def)
      with recover_ok [OF pol' rec] show ?thesis by simp
    next
      case (Inr rs)
      with eff have st: "scheduler_ok s" "live s t = Some (Waiting rs)" "\<forall>u. u \<noteq> t \<longrightarrow> live s u = live ?s u" by simp_all
      have e': "res = Inr (Resumed t)" "e' = ?e\<lparr>scheduler_of := s\<rparr>"
        using run c resume Pending r Inr by (auto simp: poll_task_def Let_def)
      have "settled x" if "live s u = Some x" for u x
        using that rest st by (cases "u = t") auto
      moreover have "owned s (bt_insert t c' (computations e))"
        using own' st at unfolding owned_def by (metis option.distinct(1))
      ultimately show ?thesis by (simp add: e' executor_ok_def)
    qed
  qed
qed

lemma executor_step_ok:
  fixes e :: "('r, 'i, 'c, 'w) executor" and ops :: "('r, 'i, 'e) reactor_ops"
  assumes ok: "executor_ok e" and run: "executor_step ops cops e = Some (res, e')"
  shows "executor_ok e' \<and> (case res of Inl x \<Rightarrow> poll_errors x
    | Inr ExecutorIdle \<Rightarrow> \<forall>u. live (scheduler_of e') u \<noteq> Some Runnable
    | Inr (Resumed t) \<Rightarrow> True)"
proof -
  let ?s = "scheduler_of e"
  have oks: "scheduler_ok ?s" and own: "owned ?s (computations e)"
    and settled: "\<forall>t st. live ?s t = Some st \<longrightarrow> settled st"
    using ok by (auto simp: executor_ok_def owned_def)
  from run obtain r s where r: "next_progress ops ?s = Some (r, s)"
    by (auto simp: executor_step_def split: option.splits)
  note eff = next_progress_effect [OF oks r] and oks' = next_progress_ok [OF oks r]
  have keep: "executor_ok (e\<lparr>scheduler_of := s\<rparr>)" if "woken ?s s"
    using owned_woken [OF own that oks'] settled_woken [OF that settled] by (simp add: executor_ok_def)
  show ?thesis
  proof (cases r)
    case (Inl x)
    with eff run r keep show ?thesis by (auto simp: executor_step_def poll_errors_def)
  next
    case (Inr p)
    show ?thesis
    proof (cases p)
      case Idle
      with Inr eff run r keep show ?thesis by (auto simp: executor_step_def)
    next
      case (Resume t)
      with Inr eff obtain s1 where s1: "woken ?s s1" "live s1 t = Some Runnable"
        "\<forall>u. live s u = (if u = t then Some Running else live s1 u)" by auto
      have "live s1 u \<noteq> None \<longleftrightarrow> live ?s u \<noteq> None" for u using s1(1) unfolding woken_def by (metis option.distinct(1))
      then have "owned s (computations e)" using own oks' s1(2,3) by (auto simp: owned_def)
      then have "polling t (e\<lparr>scheduler_of := s\<rparr>)"
        using s1(3) settled_woken [OF s1(1) settled] by (auto simp: polling_def)
      from poll_task_ok [OF this, of ops cops res e'] run r Inr Resume show ?thesis
        by (auto simp: executor_step_def split: sum.splits executor_progress.splits)
    qed
  qed
qed

section \<open>Cancelling and consuming\<close>

lemma release_effect:
  assumes ok: "scheduler_ok s" and at: "live s t = Some st" and st: "\<not> waits st"
  shows "scheduler_ok (release_task t s) \<and> (\<forall>u. live (release_task t s) u = (if u = t then None else live s u))"
  using release_ok [OF ok at st] arena_release_ok(2) [OF scheduler_okD(1) [OF ok] at] by (simp add: release_task_def)

lemma finish_effect: "live s t = Some (Cancelling k) \<Longrightarrow> finish_cancellation t s = (Inr (), release_task t s)"
  by (simp add: finish_cancellation_def task_state_of_def)

lemma settled_cancellable: "settled st \<longleftrightarrow> cancellable st"
  by (auto simp: settled_def cancellable_def)

lemma executor_cancel_ok:
  assumes ok: "executor_ok e"
  shows "executor_cancel ops cops t e = (Inl (MissingComputation t), e) \<and> live (scheduler_of e) t = None
    \<or> (\<exists>c e'. bt_get (computations e) t = Some c \<and> executor_cancel ops cops t e = (Inr (), e') \<and> executor_ok e'
        \<and> computations e' = bt_remove t (computations e) \<and> world e' = computation_cancel cops c (world e)
        \<and> (\<forall>u. live (scheduler_of e') u = (if u = t then None else live (scheduler_of e) u)))"
proof (cases "bt_get (computations e) t")
  case None
  then have "\<not> bt_contains (computations e) t" by (simp add: bt_contains_def)
  with ok show ?thesis by (auto simp: executor_cancel_def executor_ok_def owned_def)
next
  case (Some c)
  let ?s = "scheduler_of e"
  have oks: "scheduler_ok ?s" and own: "owned ?s (computations e)"
    and settled: "\<And>t st. live ?s t = Some st \<Longrightarrow> settled st"
    using ok by (auto simp: executor_ok_def owned_def)
  from own Some obtain st where st: "live ?s t = Some st" by (auto simp: owned_def bt_contains_def)
  have "cancellable st" using settled [OF st] by (simp add: settled_cancellable)
  from cancel_effect(1) [OF oks st this, of ops] obtain s where s: "cancel ops t ?s = (Inr (cleanup st), s)" "scheduler_ok s"
    "\<forall>u. live s u = (if u = t then Some (Cancelling (cleanup st)) else live ?s u)" by blast
  have at: "live s t = Some (Cancelling (cleanup st))" using s(3) by simp
  note rel = release_effect [OF s(2) at]
  let ?e = "e\<lparr>computations := bt_remove t (computations e), world := computation_cancel cops c (world e),
    scheduler_of := release_task t s\<rparr>"
  have run: "executor_cancel ops cops t e = (Inr (), ?e)"
    using Some s(1) by (simp add: executor_cancel_def bt_contains_def Let_def finish_effect [OF at])
  have live: "\<forall>u. live (release_task t s) u = (if u = t then None else live ?s u)" using rel s(3) by simp
  have "executor_ok ?e"
    using own settled rel live by (auto simp: executor_ok_def owned_def bt_sorted_remove split: if_splits)
  with run live Some show ?thesis by auto
qed

lemma executor_consume_ok:
  fixes e :: "('r, 'i, 'c, 'w) executor"
  assumes ok: "executor_ok e"
  shows "case live (scheduler_of e) t of
      None \<Rightarrow> (executor_consume cops t e :: ('r, 'i, 'c, 'w, 'e, 'o) executor_result) = (Inl (MissingComputation t), e)
    | Some st \<Rightarrow>
        if st \<noteq> Completed then (executor_consume cops t e :: ('r, 'i, 'c, 'w, 'e, 'o) executor_result) = (Inl (SchedulerFailure (InvalidTaskState t (public_state st))), e)
        else (\<exists>c e'. bt_get (computations e) t = Some c
          \<and> (executor_consume cops t e :: ('r, 'i, 'c, 'w, 'e, 'o) executor_result) = (Inr (fst (computation_consume cops c (world e))), e') \<and> executor_ok e'
          \<and> computations e' = bt_remove t (computations e) \<and> world e' = snd (computation_consume cops c (world e))
          \<and> (\<forall>u. live (scheduler_of e') u = (if u = t then None else live (scheduler_of e) u)))"
proof (cases "live (scheduler_of e) t")
  case None
  with ok show ?thesis by (auto simp: executor_consume_def executor_ok_def owned_def)
next
  case (Some st)
  let ?s = "scheduler_of e"
  have oks: "scheduler_ok ?s" and own: "owned ?s (computations e)"
    and settled: "\<And>t st. live ?s t = Some st \<Longrightarrow> settled st"
    using ok by (auto simp: executor_ok_def owned_def)
  from own Some have has: "bt_contains (computations e) t" by (simp add: owned_def)
  then obtain c where c: "bt_get (computations e) t = Some c" by (auto simp: bt_contains_def)
  have keep: "e\<lparr>scheduler_of := scheduler_of e\<rparr> = e" by (cases e) simp
  show ?thesis
  proof (cases "st = Completed")
    case False
    then have "public_state st \<noteq> StateCompleted" by simp
    with Some has False show ?thesis
      by (simp add: executor_consume_def consume_completed_def require_state_def task_state_of_def keep)
  next
    case True
    with Some have at: "live ?s t = Some Completed" by simp
    note rel = release_effect [OF oks at]
    let ?e = "e\<lparr>scheduler_of := release_task t ?s, computations := bt_remove t (computations e),
      world := snd (computation_consume cops c (world e))\<rparr>"
    have run: "executor_consume cops t e = (Inr (fst (computation_consume cops c (world e))), ?e)"
      using has c at by (simp add: executor_consume_def consume_completed_def require_state_def task_state_of_def split: prod.splits)
    have "executor_ok ?e"
      using own settled rel by (auto simp: executor_ok_def owned_def bt_sorted_remove split: if_splits)
    with run rel c True Some show ?thesis by auto
  qed
qed

section \<open>Shutdown\<close>

lemma destroy_all_ok:
  fixes e :: "('r, 'i, 'c, 'w) executor"
  assumes "scheduler_ok (scheduler_of e)" and "bt_sorted (computations e)" and "distinct (map fst ts)"
    and "\<forall>t. bt_contains (computations e) t \<longleftrightarrow> t \<in> fst ` set ts"
    and "\<forall>t. t \<in> fst ` set ts \<longleftrightarrow> live (scheduler_of e) t \<noteq> None"
    and "\<forall>t st. live (scheduler_of e) t = Some st \<longrightarrow> (\<exists>kind. st = Cancelling kind)"
  shows "\<exists>e'. (destroy_all cops ts e :: ('r, 'i, 'c, 'w, 'e, unit) executor_result) = (Inr (), e') \<and> scheduler_ok (scheduler_of e') \<and> computations e' = []
    \<and> (\<forall>t. live (scheduler_of e') t = None)
    \<and> world e' = fold (computation_cancel cops) (map (\<lambda>(t, _). the (bt_get (computations e) t)) ts) (world e)"
  using assms
proof (induction ts arbitrary: e)
  case Nil
  then show ?case by (auto simp: bt_Nil_iff bt_contains_def)
next
  case (Cons tk ts)
  obtain t k where tk: "tk = (t, k)" by (cases tk)
  from Cons.prems(4) tk obtain c where c: "bt_get (computations e) t = Some c" by (auto simp: bt_contains_def)
  from Cons.prems(5,6) tk obtain kind where at: "live (scheduler_of e) t = Some (Cancelling kind)" by fastforce
  note rel = release_effect [OF Cons.prems(1) at]
  let ?e = "e\<lparr>computations := bt_remove t (computations e), world := computation_cancel cops c (world e),
    scheduler_of := release_task t (scheduler_of e)\<rparr>"
  have step: "(destroy_all cops (tk # ts) e :: ('r, 'i, 'c, 'w, 'e, unit) executor_result) = destroy_all cops ts ?e"
    by (simp add: tk c finish_effect [OF at] Let_def)
  have fresh: "t \<notin> fst ` set ts" using Cons.prems(3) tk by simp
  have "\<exists>e'. (destroy_all cops ts ?e :: ('r, 'i, 'c, 'w, 'e, unit) executor_result) = (Inr (), e') \<and> scheduler_ok (scheduler_of e') \<and> computations e' = []
    \<and> (\<forall>t. live (scheduler_of e') t = None)
    \<and> world e' = fold (computation_cancel cops) (map (\<lambda>(u, _). the (bt_get (computations ?e) u)) ts) (world ?e)"
  proof (rule Cons.IH)
    show "\<forall>u. bt_contains (computations ?e) u \<longleftrightarrow> u \<in> fst ` set ts"
      using Cons.prems(4) tk fresh by auto
    show "\<forall>u. u \<in> fst ` set ts \<longleftrightarrow> live (scheduler_of ?e) u \<noteq> None"
      using Cons.prems(5) tk fresh rel by auto
    show "\<forall>u st. live (scheduler_of ?e) u = Some st \<longrightarrow> (\<exists>kind. st = Cancelling kind)"
      using Cons.prems(6) rel by auto
  qed (use Cons.prems rel in \<open>auto simp: bt_sorted_remove\<close>)
  moreover have "map (\<lambda>(u, _). the (bt_get (computations ?e) u)) ts = map (\<lambda>(u, _). the (bt_get (computations e) u)) ts"
    using fresh by (intro map_cong) (auto simp: image_iff)
  ultimately have "\<exists>e'. (destroy_all cops ts ?e :: ('r, 'i, 'c, 'w, 'e, unit) executor_result) = (Inr (), e')
    \<and> scheduler_ok (scheduler_of e') \<and> computations e' = [] \<and> (\<forall>t. live (scheduler_of e') t = None)
    \<and> world e' = fold (computation_cancel cops) (map (\<lambda>(u, _). the (bt_get (computations e) u)) ts)
        (world ?e)" by (simp only:)
  then show ?case unfolding step by (simp add: tk c)
qed

text \<open>Both the slot table and the computations list the live tasks in identity order.\<close>

lemma sorted_map_filter:
  "sorted_wrt P xs \<Longrightarrow> (\<And>x y a b. P x y \<Longrightarrow> f x = Some a \<Longrightarrow> f y = Some b \<Longrightarrow> Q a b) \<Longrightarrow> sorted_wrt Q (List.map_filter f xs)"
  by (induction xs) (fastforce simp: map_filter_simps in_set_map_filter split: option.splits)+

lemma retained_computations:
  assumes "owned s cs"
  shows "retained_tasks s = map fst cs"
proof (rule strict_sorted_equal)
  show "sorted_wrt (<) (map fst cs)" using assms by (simp add: owned_def bt_sorted_def)
  show "sorted_wrt (<) (retained_tasks s)"
    unfolding retained_eq by (rule sorted_map_filter [OF sorted_wrt_upt]) (auto simp: less_key_def)
  have "t \<in> set (retained_tasks s) \<longleftrightarrow> t \<in> set (map fst cs)" for t
    using assms by (simp add: owned_def in_retained bt_contains_iff)
  then show "set (retained_tasks s) = set (map fst cs)" by blast
qed

lemma executor_shutdown_ok:
  fixes e :: "('r, 'i, 'c, 'w) executor" and ops :: "('r, 'i, 'e) reactor_ops"
  assumes ok: "executor_ok e"
  shows "\<exists>e'. executor_shutdown ops cops e = (Inr (), e') \<and> executor_ok e' \<and> computations e' = []
    \<and> (\<forall>t. live (scheduler_of e') t = None)
    \<and> world e' = fold (computation_cancel cops) (map snd (computations e)) (world e)"
proof -
  let ?s = "scheduler_of e"
  have oks: "scheduler_ok ?s" and own: "owned ?s (computations e)"
    and settled: "\<And>t st. live ?s t = Some st \<Longrightarrow> settled st"
    using ok by (auto simp: executor_ok_def owned_def)
  let ?ts = "map (\<lambda>t. (t, cleanup (the (live ?s t)))) (retained_tasks ?s)"
  from begin_shutdown_effect [OF oks, of ops] settled obtain s where s: "begin_shutdown ops ?s = (Inr ?ts, s)"
    "scheduler_ok s" "\<forall>u. live s u = map_option (\<lambda>st. Cancelling (cleanup st)) (live ?s u)"
    by (auto simp: settled_cancellable)
  let ?e = "e\<lparr>scheduler_of := s\<rparr>"
  have keys: "fst ` set ?ts = {t. live ?s t \<noteq> None}" by (force simp: in_retained)
  have "\<exists>e'. (destroy_all cops ?ts ?e :: ('r, 'i, 'c, 'w, 'e, unit) executor_result) = (Inr (), e') \<and> scheduler_ok (scheduler_of e') \<and> computations e' = []
    \<and> (\<forall>t. live (scheduler_of e') t = None)
    \<and> world e' = fold (computation_cancel cops) (map (\<lambda>(t, _). the (bt_get (computations ?e) t)) ?ts) (world ?e)"
  proof (rule destroy_all_ok)
    show "distinct (map fst ?ts)" by (simp add: comp_def distinct_retained)
    show "\<forall>t. bt_contains (computations ?e) t \<longleftrightarrow> t \<in> fst ` set ?ts"
      unfolding keys using own by (simp add: owned_def)
    show "\<forall>t. t \<in> fst ` set ?ts \<longleftrightarrow> live (scheduler_of ?e) t \<noteq> None"
      unfolding keys using s(3) by simp
  qed (use own s in \<open>auto simp: owned_def\<close>)
  moreover have "map (\<lambda>(t, _). the (bt_get (computations ?e) t)) ?ts = map snd (computations e)"
  proof -
    have "the (bt_get (computations e) t) = c" if "(t, c) \<in> set (computations e)" for t c
      using bt_get_Some_iff [of "computations e" t c] own that by (simp add: owned_def)
    then show ?thesis by (simp add: retained_computations [OF own] comp_def)
  qed
  ultimately show ?thesis
    using s(1) by (auto simp: executor_shutdown_def executor_ok_def owned_def)
qed

section \<open>Running until idle\<close>

lemma executor_no_progress:
  assumes "executor_ok e" and "\<not> has_progress_source (scheduler_of e)" and "live (scheduler_of e) t = Some st"
  shows "st = Completed"
  using assms by (auto simp: executor_ok_def has_progress_source_iff settled_def)

lemma run_until_idle_ok:
  fixes ops :: "('r, 'i, 'e) reactor_ops" and cops :: "('c, 'i, 'o, 'w) computation_ops"
  assumes run: "run_until_idle ops cops e = Some (res, e')" and ok: "executor_ok e"
  shows "executor_ok e' \<and> (case res of Inl x \<Rightarrow> poll_errors x
    | Inr _ \<Rightarrow> \<forall>t st. live (scheduler_of e') t = Some st \<longrightarrow> st = Completed)"
proof -
  let ?P = "\<lambda>e y. executor_ok e \<longrightarrow> executor_ok (snd y) \<and> (case fst y of Inl x \<Rightarrow> poll_errors x
    | Inr _ \<Rightarrow> \<forall>t st. live (scheduler_of (snd y :: ('r, 'i, 'c, 'w) executor)) t = Some st \<longrightarrow> st = Completed)"
  have "?P e (res, e')"
  proof (rule run_until_idle.raw_induct [where P = "\<lambda>ops cops e y. ?P e y", OF _ run])
    fix rec and ops :: "('r, 'i, 'e) reactor_ops" and cops :: "('c, 'i, 'o, 'w) computation_ops"
      and e :: "('r, 'i, 'c, 'w) executor" and y
    assume IH: "\<And>ops cops e y. rec ops cops e = Some y \<Longrightarrow> ?P e y"
      and body: "Option.bind (executor_step ops cops e) (\<lambda>(reply, e).
       (case reply of
          Inl x \<Rightarrow> Some (Inl x, e)
        | Inr progress \<Rightarrow>
            if progress = ExecutorIdle \<and> \<not> has_progress_source (scheduler_of e) then Some (Inr (), e)
            else rec ops cops e)) = Some y"
    from body obtain reply e1 where step: "executor_step ops cops e = Some (reply, e1)"
      by (auto simp: bind_eq_Some_conv)
    show "?P e y"
    proof
      assume "executor_ok e"
      from executor_step_ok [OF this step] have e1: "executor_ok e1" and errs: "\<And>x. reply = Inl x \<Longrightarrow> poll_errors x"
        by (auto split: sum.splits)
      show "executor_ok (snd y) \<and> (case fst y of Inl x \<Rightarrow> poll_errors x
    | Inr _ \<Rightarrow> \<forall>t st. live (scheduler_of (snd y)) t = Some st \<longrightarrow> st = Completed)"
      proof (cases reply)
        case (Inl x)
        with body step e1 errs show ?thesis by auto
      next
        case (Inr progress)
        show ?thesis
        proof (cases "progress = ExecutorIdle \<and> \<not> has_progress_source (scheduler_of e1)")
          case True
          with body step Inr have "y = (Inr (), e1)" by simp
          with e1 executor_no_progress [OF e1] True show ?thesis by simp
        next
          case False
          with body step Inr have "rec ops cops e1 = Some y" by auto
          from IH [OF this] e1 show ?thesis by blast
        qed
      qed
    qed
  qed
  with ok show ?thesis by (simp split: sum.splits)
qed

section \<open>The executor as a transition system\<close>

inductive executor_call ::
  "('r, 'i, 'e) reactor_ops \<Rightarrow> ('c, 'i, 'o, 'w) computation_ops \<Rightarrow> ('r, 'i, 'c, 'w) executor \<Rightarrow> ('r, 'i, 'c, 'w) executor \<Rightarrow> bool"
  for ops :: "('r, 'i, 'e) reactor_ops" and cops :: "('c, 'i, 'o, 'w) computation_ops" where
  call_spawn: "(executor_spawn c e :: ('r, 'i, 'c, 'w, 'e, _) executor_result) = (res, e') \<Longrightarrow> executor_call ops cops e e'"
| call_step: "executor_step ops cops e = Some (res, e') \<Longrightarrow> executor_call ops cops e e'"
| call_run: "run_until_idle ops cops e = Some (res, e') \<Longrightarrow> executor_call ops cops e e'"
| call_cancel: "executor_cancel ops cops t e = (res, e') \<Longrightarrow> executor_call ops cops e e'"
| call_consume: "(executor_consume cops t e :: ('r, 'i, 'c, 'w, 'e, 'o) executor_result) = (res, e') \<Longrightarrow> executor_call ops cops e e'"
| call_shutdown: "executor_shutdown ops cops e = (res, e') \<Longrightarrow> executor_call ops cops e e'"

definition executor_start :: "('r, 'i, 'c, 'w) executor \<Rightarrow> bool" where
  "executor_start e \<longleftrightarrow> (\<exists>r w. e = executor_new r w)"

abbreviation executor_reachable ::
  "('r, 'i, 'e) reactor_ops \<Rightarrow> ('c, 'i, 'o, 'w) computation_ops \<Rightarrow> ('r, 'i, 'c, 'w) executor \<Rightarrow> bool" where
  "executor_reachable ops cops \<equiv> reachable_from executor_start (executor_call ops cops)"

lemma executor_call_ok:
  fixes ops :: "('r, 'i, 'e) reactor_ops"
  assumes ok: "executor_ok e" and call: "executor_call ops cops e e'"
  shows "executor_ok e'"
  using call
proof cases
  case (call_spawn c res)
  with executor_spawn_ok [OF ok] show ?thesis by blast
next
  case (call_step res)
  with executor_step_ok [OF ok] show ?thesis by blast
next
  case (call_run res)
  with run_until_idle_ok [OF _ ok] show ?thesis by blast
next
  case (call_cancel t res)
  with executor_cancel_ok [OF ok, of ops cops t] ok show ?thesis by auto
next
  case (call_consume t res)
  with executor_consume_ok [where 'e = 'e, OF ok, where t = t and cops = cops] ok show ?thesis by (auto split: option.splits if_splits)
next
  case (call_shutdown res)
  with executor_shutdown_ok [OF ok, of ops cops] show ?thesis by auto
qed

interpretation executor: transition_system executor_start "executor_call ops cops" executor_ok
  for ops :: "('r, 'i, 'e) reactor_ops" and cops :: "('c, 'i, 'o, 'w) computation_ops"
  by unfold_locales (auto simp: executor_start_def executor_new_ok intro: executor_call_ok)

section \<open>Properties\<close>

text \<open>
  Computations that wait a number of times before they complete; the world lists the cancelled ones. An
  executor that was given two of them.
\<close>

definition demo_computation :: "(nat, nat, nat, nat list) computation_ops" where
  "demo_computation = \<lparr>computation_resume = (\<lambda>n w. if n = 0 then (PollCompleted, n, w) else (Pending (wait_set_one 5), n - 1, w)),
     computation_cancel = (\<lambda>n w. w @ [n]), computation_consume = (\<lambda>n w. (n, w))\<rparr>"

definition demo_executor :: "((registration_id \<times> nat) list, nat, nat, nat list) executor" where
  "demo_executor = snd (executor_spawn 3 (snd (executor_spawn 0 (executor_new [] [])
     :: ((registration_id \<times> nat) list, nat, nat, nat list, nat, _) executor_result))
     :: ((registration_id \<times> nat) list, nat, nat, nat list, nat, _) executor_result)"

lemma demo_executor_eq:
  "demo_executor = \<lparr>scheduler_of = \<lparr>reactor = [], tasks = \<lparr>slots = [(0, Some Runnable), (0, Some Runnable)], free_slots = []\<rparr>,
     registrations = arena_empty, runnable = [Key 0 0, Key 1 0]\<rparr>,
     computations = [(Key 0 0, 0), (Key 1 0, 3)], world = []\<rparr>"
  by (simp add: demo_executor_def executor_spawn_def executor_new_def demo_simps bt_contains_def less_key_def)

lemma demo_executor_reachable: "executor_reachable demo_ops demo_computation demo_executor"
proof -
  let ?new = "executor_new [] [] :: ((registration_id \<times> nat) list, nat, nat, nat list) executor"
  have start: "executor_reachable demo_ops demo_computation ?new"
    by (rule reachable_start) (auto simp: executor_start_def)
  have call: "executor_call demo_ops demo_computation e (snd (executor_spawn c e :: (_, _, _, _, nat, _) executor_result))" for c e
    by (rule call_spawn [OF prod.collapse [symmetric]])
  show ?thesis
    unfolding demo_executor_def by (intro reachable_step [OF reachable_step [OF start call] call])
qed

text \<open>
  C13: In every state the executor can reach, it owns a computation for exactly the live tasks, and no
  task is left running or half cancelled between its operations.
\<close>

theorem executor_owns_live_tasks:
  assumes "executor_reachable ops cops e"
  shows "(\<forall>t. bt_contains (computations e) t \<longleftrightarrow> task_state_of (scheduler_of e) t \<noteq> None)
    \<and> (\<forall>t. task_state_of (scheduler_of e) t \<in> {None, Some StateRunnable, Some StateWaiting, Some StateCompleted})"
proof -
  have ok: "executor_ok e" by (rule executor.reachable_inv [OF assms])
  have "task_state_of (scheduler_of e) t \<in> {None, Some StateRunnable, Some StateWaiting, Some StateCompleted}" for t
  proof (cases "live (scheduler_of e) t")
    case (Some st)
    with ok have "settled st" by (simp add: executor_ok_def)
    with Some show ?thesis by (auto simp: task_state_of_def settled_def waits_def)
  qed (simp add: task_state_of_def)
  with ok show ?thesis by (auto simp: executor_ok_def owned_def task_state_of_def)
qed

lemma executor_owns_live_tasks_witness:
  "bt_contains (computations demo_executor) (Key 1 0) \<longleftrightarrow> task_state_of (scheduler_of demo_executor) (Key 1 0) \<noteq> None"
  using executor_owns_live_tasks [OF demo_executor_reachable] by blast

text \<open>
  C32: A step of the executor fails only when the reactor fails or identities are exhausted: the internal
  inconsistencies the sources report (a missing or duplicate computation, a failed recovery) never happen,
  and after a failure every task is again runnable, waiting or completed.
\<close>

theorem executor_step_errors:
  assumes "executor_reachable ops cops e" and "executor_step ops cops e = Some (Inl x, e')"
  shows "(x = SchedulerFailure CapacityExhausted \<or> (\<exists>y. x = SchedulerFailure (ReactorError y)))
    \<and> (\<forall>t st. live (scheduler_of e') t = Some st \<longrightarrow> st = Runnable \<or> (\<exists>rs. st = Waiting rs) \<or> st = Completed)"
  using executor_step_ok [OF executor.reachable_inv [OF assms(1)] assms(2)]
  by (auto simp: poll_errors_def executor_ok_def settled_def waits_def)

definition demo_refused :: "(nat, nat, nat, nat list) computation_ops" where
  "demo_refused = demo_computation\<lparr>computation_resume := \<lambda>n w. (Pending (wait_set_new 5 [200]), n, w)\<rparr>"

lemma executor_step_errors_witness:
  "\<exists>x e'. executor_step demo_ops demo_refused demo_executor = Some (Inl x, e')
    \<and> (x = SchedulerFailure CapacityExhausted \<or> (\<exists>y. x = SchedulerFailure (ReactorError y)))"
proof -
  have "executor_reachable demo_ops demo_refused demo_executor"
  proof -
    have call: "executor_call demo_ops demo_refused e (snd (executor_spawn c e :: (_, _, _, _, nat, _) executor_result))" for c e
      by (rule call_spawn [OF prod.collapse [symmetric]])
    have start: "executor_reachable demo_ops demo_refused (executor_new [] [])"
      by (rule reachable_start) (auto simp: executor_start_def)
    show ?thesis unfolding demo_executor_def by (intro reachable_step [OF reachable_step [OF start call] call])
  qed
  moreover have "\<exists>e'. executor_step demo_ops demo_refused demo_executor = Some (Inl (SchedulerFailure (ReactorError 200)), e')"
    by (simp add: demo_executor_eq executor_step_def poll_task_def recover_def yield_now_def demo_refused_def
        demo_computation_def wait_set_new_def demo_simps demo_ops_def release_registration_def
        remove_registrations_def remove_registration_def arena_release_def bt_get_def transition_state_eq)
  ultimately show ?thesis using executor_step_errors by blast
qed

text \<open>
  C33: Shutting down a reachable executor always succeeds: every computation it owns is cancelled exactly
  once, in the order of the task identities, and no task, computation or registration is left.
\<close>

theorem shutdown_cancels_every_computation:
  assumes "executor_reachable ops cops e"
  shows "\<exists>e'. executor_shutdown ops cops e = (Inr (), e') \<and> computations e' = []
    \<and> (\<forall>t. task_state_of (scheduler_of e') t = None)
    \<and> (\<forall>r. arena_get (registrations (scheduler_of e')) r = None)
    \<and> world e' = fold (computation_cancel cops) (map snd (computations e)) (world e)"
proof -
  from executor_shutdown_ok [OF executor.reachable_inv [OF assms], of ops cops] obtain e' where
    e': "executor_shutdown ops cops e = (Inr (), e')" "executor_ok e'" "computations e' = []"
    "\<forall>t. live (scheduler_of e') t = None"
    "world e' = fold (computation_cancel cops) (map snd (computations e)) (world e)" by blast
  have "arena_get (registrations (scheduler_of e')) r = None" for r
  proof (cases "arena_get (registrations (scheduler_of e')) r")
    case (Some ti)
    with e'(2,4) link_waits [of "scheduler_of e'" r] show ?thesis by (cases ti) (auto simp: executor_ok_def owned_def)
  qed
  with e' show ?thesis by (auto simp: task_state_of_def)
qed

lemma shutdown_cancels_every_computation_witness:
  "\<exists>e'. executor_shutdown demo_ops demo_computation demo_executor = (Inr (), e') \<and> world e' = [0, 3]"
  using shutdown_cancels_every_computation [OF demo_executor_reachable]
  by (auto simp: demo_executor_eq demo_computation_def)

text \<open>
  When running until idle returns without an error, every task the executor still owns has
  completed: nothing runnable and nothing waiting was left behind.
\<close>

theorem run_until_idle_completes:
  assumes "executor_reachable ops cops e" and "run_until_idle ops cops e = Some (Inr (), e')"
  shows "\<forall>t. task_state_of (scheduler_of e') t \<in> {None, Some StateCompleted}"
proof
  fix t
  have "\<forall>t st. live (scheduler_of e') t = Some st \<longrightarrow> st = Completed"
    using run_until_idle_ok [OF assms(2) executor.reachable_inv [OF assms(1)]] by simp
  then show "task_state_of (scheduler_of e') t \<in> {None, Some StateCompleted}"
    by (cases "live (scheduler_of e') t") (auto simp: task_state_of_def)
qed

text \<open>A computation that waits once: it is suspended, woken, and completes.\<close>

definition demo_state ::
  "(registration_id \<times> nat) list \<Rightarrow> task_slot_state \<Rightarrow> (nat \<times> (task_id \<times> nat) option) list \<Rightarrow> nat list \<Rightarrow> task_id list \<Rightarrow> nat
     \<Rightarrow> ((registration_id \<times> nat) list, nat, nat, nat list) executor" where
  "demo_state re st regs free q n = \<lparr>scheduler_of = \<lparr>reactor = re, tasks = \<lparr>slots = [(0, Some st)], free_slots = []\<rparr>,
     registrations = \<lparr>slots = regs, free_slots = free\<rparr>, runnable = q\<rparr>, computations = [(Key 0 0, n)], world = []\<rparr>"

lemma demo_steps:
  "(executor_spawn 1 (executor_new [] []) :: (_, _, _, _, nat, _) executor_result) = (Inr (Key 0 0), demo_state [] Runnable [] [] [Key 0 0] 1)"
  "executor_step demo_ops demo_computation (demo_state [] Runnable [] [] [Key 0 0] 1)
     = Some (Inr (Resumed (Key 0 0)), demo_state [(Key 0 0, 5)] (Waiting [Key 0 0]) [(0, Some (Key 0 0, 5))] [] [] 0)"
  "executor_step demo_ops demo_computation (demo_state [(Key 0 0, 5)] (Waiting [Key 0 0]) [(0, Some (Key 0 0, 5))] [] [] 0)
     = Some (Inr (Resumed (Key 0 0)), demo_state [] Completed [(1, None)] [0] [] 0)"
  "executor_step demo_ops demo_computation (demo_state [] Completed [(1, None)] [0] [] 0)
     = Some (Inr ExecutorIdle, demo_state [] Completed [(1, None)] [0] [] 0)"
  by (simp_all add: demo_state_def executor_spawn_def executor_new_def executor_step_def poll_task_def complete_def
      demo_computation_def wait_set_one_def demo_simps demo_ops_def bt_get_def bt_contains_def has_active_registration_def
      accept_events_def ready_events_def map_filter_simps remove_registrations_def remove_registration_def
      release_registration_def arena_release_def)

lemma run_again: "executor_step ops cops e = Some (Inr (Resumed t), e') \<Longrightarrow> run_until_idle ops cops e = run_until_idle ops cops e'"
  by (subst run_until_idle.simps) simp

lemma run_until_idle_completes_witness:
  "\<exists>e'. run_until_idle demo_ops demo_computation (demo_state [] Runnable [] [] [Key 0 0] 1) = Some (Inr (), e')
    \<and> (\<forall>t. task_state_of (scheduler_of e') t \<in> {None, Some StateCompleted})"
proof -
  have run: "run_until_idle demo_ops demo_computation (demo_state [] Runnable [] [] [Key 0 0] 1)
      = Some (Inr (), demo_state [] Completed [(1, None)] [0] [] 0)"
    unfolding run_again [OF demo_steps(2)] run_again [OF demo_steps(3)]
    by (subst run_until_idle.simps) (simp only: demo_steps(4), simp add: has_progress_source_def demo_state_def)
  have "executor_reachable demo_ops demo_computation (executor_new [] [])"
    by (rule reachable_start) (auto simp: executor_start_def)
  then have "executor_reachable demo_ops demo_computation (demo_state [] Runnable [] [] [Key 0 0] 1)"
    by (rule reachable_step) (rule call_spawn [OF demo_steps(1)])
  from run_until_idle_completes [OF this run] run show ?thesis by blast
qed

end
