(* ===== verification/Job_Service.thy ===== *)
theory Job_Service
  imports Btree_Map
begin

text \<open>
  The service of blocking jobs (\<^verbatim>\<open>nocter-blocking-runtime/src/service.rs\<close>, \<open>identity.rs\<close>). Every operation holds
  the lock of the service, so threads interleave whole operations; the notifier runs after the lock is
  released and is counted here. A claimed job is a guard that only its worker holds.
\<close>

section \<open>Identities\<close>

datatype job_id = JobId (job_service: u64) (job_sequence: u64)

instantiation job_id :: linorder
begin

definition less_eq_job_id :: "job_id \<Rightarrow> job_id \<Rightarrow> bool" where
  "less_eq_job_id a b \<longleftrightarrow>
     job_service a < job_service b \<or> job_service a = job_service b \<and> job_sequence a \<le> job_sequence b"

definition less_job_id :: "job_id \<Rightarrow> job_id \<Rightarrow> bool" where
  "less_job_id a b \<longleftrightarrow>
     job_service a < job_service b \<or> job_service a = job_service b \<and> job_sequence a < job_sequence b"

instance
  by standard (auto simp: less_eq_job_id_def less_job_id_def job_id.expand)

end

record capacity_epoch =
  epoch_service :: u64
  epoch_sequence :: u64

definition epoch_initial :: "u64 \<Rightarrow> capacity_epoch" where
  "epoch_initial service = \<lparr>epoch_service = service, epoch_sequence = 0\<rparr>"

definition belongs_to :: "capacity_epoch \<Rightarrow> u64 \<Rightarrow> bool" where
  "belongs_to epoch service \<longleftrightarrow> epoch_service epoch = service"

text \<open>\<open>saturating_add\<close> of one.\<close>

definition epoch_advance :: "capacity_epoch \<Rightarrow> capacity_epoch" where
  "epoch_advance epoch = epoch\<lparr>epoch_sequence :=
     (case checked_add (epoch_sequence epoch) 1 of None \<Rightarrow> - 1 | Some n \<Rightarrow> n)\<rparr>"

text \<open>The process-wide counter of service identities; \<open>None\<close> is the panic of \<open>expect\<close>.\<close>

definition service_identity_allocate :: "u64 \<Rightarrow> (u64 \<times> u64) option" where
  "service_identity_allocate counter = map_option (\<lambda>n. (counter, n)) (checked_add counter 1)"

section \<open>State\<close>

record service_capacity =
  workers :: nat
  maximum_jobs :: nat

datatype service_error =
    ZeroWorkers
  | JobCapacityBelowWorkers nat nat
  | ForeignCapacityEpoch capacity_epoch
  | UnknownJob job_id
  | InvalidJobState job_id

definition service_capacity_new :: "nat \<Rightarrow> nat \<Rightarrow> service_error + service_capacity" where
  "service_capacity_new w m =
     (if w = 0 then Inl ZeroWorkers
      else if m < w then Inl (JobCapacityBelowWorkers w m)
      else Inr \<lparr>workers = w, maximum_jobs = m\<rparr>)"

datatype 'o job_outcome = JobCompleted 'o | WorkerLost

datatype 'o active_job_state = JobRunning | AbandonedRunning | JobDone "'o job_outcome"

datatype job_status = StatusQueued | StatusRunning | StatusCompleted

datatype ('i, 'o) cancellation = CancelledQueued 'i | CancelledRunning | CancelledCompleted "'o job_outcome"

datatype 'i submit_error = Closed 'i | Saturated 'i capacity_epoch | IdentityExhausted 'i

record ('i, 'o) job_service_state =
  service_identity :: u64
  capacity :: service_capacity
  accepting :: bool
  next_job :: u64
  epoch :: capacity_epoch
  queue :: "(job_id \<times> 'i) list"
  active_jobs :: "(job_id, 'o active_job_state) btree_map"
  notifications :: nat

definition job_service_new :: "u64 \<Rightarrow> service_capacity \<Rightarrow> ('i, 'o) job_service_state" where
  "job_service_new ident c = \<lparr>service_identity = ident, capacity = c, accepting = True, next_job = 0,
     epoch = epoch_initial ident, queue = [], active_jobs = [], notifications = 0\<rparr>"

definition notify :: "('i, 'o) job_service_state \<Rightarrow> ('i, 'o) job_service_state" where
  "notify s = s\<lparr>notifications := notifications s + 1\<rparr>"

definition release_capacity :: "('i, 'o) job_service_state \<Rightarrow> ('i, 'o) job_service_state" where
  "release_capacity s = s\<lparr>epoch := epoch_advance (epoch s)\<rparr>"

fun is_running :: "'o active_job_state \<Rightarrow> bool" where
  "is_running JobRunning = True"
| "is_running AbandonedRunning = True"
| "is_running (JobDone _) = False"

definition running_count :: "('i, 'o) job_service_state \<Rightarrow> nat" where
  "running_count s = length (filter (\<lambda>(_, st). is_running st) (active_jobs s))"

definition admitted_count :: "('i, 'o) job_service_state \<Rightarrow> nat" where
  "admitted_count s = length (queue s) + length (active_jobs s)"

record service_snapshot =
  snapshot_accepting :: bool
  snapshot_queued :: nat
  snapshot_running :: nat
  snapshot_completed :: nat
  snapshot_abandoned :: nat
  snapshot_epoch :: capacity_epoch

definition snapshot :: "('i, 'o) job_service_state \<Rightarrow> service_snapshot" where
  "snapshot s = \<lparr>snapshot_accepting = accepting s, snapshot_queued = length (queue s),
     snapshot_running = length (filter (\<lambda>(_, st). st = JobRunning) (active_jobs s)),
     snapshot_completed = length (filter (\<lambda>(_, st). case st of JobDone _ \<Rightarrow> True | _ \<Rightarrow> False) (active_jobs s)),
     snapshot_abandoned = length (filter (\<lambda>(_, st). st = AbandonedRunning) (active_jobs s)),
     snapshot_epoch = epoch s\<rparr>"

definition status :: "job_id \<Rightarrow> ('i, 'o) job_service_state \<Rightarrow> job_status option" where
  "status job s =
     (if list_ex (\<lambda>(queued, _). queued = job) (queue s) then Some StatusQueued
      else
        (case bt_get (active_jobs s) job of
           Some JobRunning \<Rightarrow> Some StatusRunning
         | Some (JobDone _) \<Rightarrow> Some StatusCompleted
         | _ \<Rightarrow> None))"

definition capacity_changed_since :: "capacity_epoch \<Rightarrow> ('i, 'o) job_service_state \<Rightarrow> service_error + bool" where
  "capacity_changed_since observed s =
     (if \<not> belongs_to observed (service_identity s) then Inl (ForeignCapacityEpoch observed)
      else Inr (epoch s \<noteq> observed))"

definition is_drained :: "('i, 'o) job_service_state \<Rightarrow> bool" where
  "is_drained s \<longleftrightarrow> queue s = [] \<and> active_jobs s = []"

section \<open>Operations of the service\<close>

definition submit :: "'i \<Rightarrow> ('i, 'o) job_service_state \<Rightarrow> ('i submit_error + job_id) \<times> ('i, 'o) job_service_state" where
  "submit input s =
     (if \<not> accepting s then (Inl (Closed input), s)
      else if maximum_jobs (capacity s) \<le> admitted_count s then (Inl (Saturated input (epoch s)), s)
      else
        (case checked_add (next_job s) 1 of
           None \<Rightarrow> (Inl (IdentityExhausted input), s)
         | Some n \<Rightarrow>
             let job = JobId (service_identity s) (next_job s) in
             (Inr job, s\<lparr>next_job := n, queue := queue s @ [(job, input)]\<rparr>)))"

text \<open>The claimed job is the guard of its worker.\<close>

definition claim :: "('i, 'o) job_service_state \<Rightarrow> (job_id \<times> 'i) option \<times> ('i, 'o) job_service_state" where
  "claim s =
     (if workers (capacity s) \<le> running_count s then (None, s)
      else
        (case queue s of
           [] \<Rightarrow> (None, s)
         | (job, input) # rest \<Rightarrow>
             (Some (job, input), s\<lparr>queue := rest, active_jobs := bt_insert job JobRunning (active_jobs s)\<rparr>)))"

definition cancel_job ::
  "job_id \<Rightarrow> ('i, 'o) job_service_state \<Rightarrow> (service_error + ('i, 'o) cancellation) \<times> ('i, 'o) job_service_state" where
  "cancel_job job s =
     (case position (\<lambda>(queued, _). queued = job) (queue s) of
        Some i \<Rightarrow>
          (Inr (CancelledQueued (snd (queue s ! i))), notify (release_capacity (s\<lparr>queue := remove_at i (queue s)\<rparr>)))
      | None \<Rightarrow>
          (case bt_get (active_jobs s) job of
             None \<Rightarrow> (Inl (UnknownJob job), s)
           | Some JobRunning \<Rightarrow>
               (Inr CancelledRunning, s\<lparr>active_jobs := bt_insert job AbandonedRunning (bt_remove job (active_jobs s))\<rparr>)
           | Some (JobDone outcome) \<Rightarrow>
               (Inr (CancelledCompleted outcome), notify (release_capacity (s\<lparr>active_jobs := bt_remove job (active_jobs s)\<rparr>)))
           | Some AbandonedRunning \<Rightarrow>
               (Inl (InvalidJobState job), s\<lparr>active_jobs := bt_insert job AbandonedRunning (bt_remove job (active_jobs s))\<rparr>)))"

definition consume_job ::
  "job_id \<Rightarrow> ('i, 'o) job_service_state \<Rightarrow> (service_error + 'o job_outcome) \<times> ('i, 'o) job_service_state" where
  "consume_job job s =
     (case bt_get (active_jobs s) job of
        None \<Rightarrow> (Inl (UnknownJob job), s)
      | Some (JobDone outcome) \<Rightarrow>
          (Inr outcome, notify (release_capacity (s\<lparr>active_jobs := bt_remove job (active_jobs s)\<rparr>)))
      | Some state \<Rightarrow>
          (Inl (InvalidJobState job), s\<lparr>active_jobs := bt_insert job state (bt_remove job (active_jobs s))\<rparr>))"

text \<open>The loop of \<open>begin_shutdown\<close> over the active jobs.\<close>

fun detach_active ::
  "job_id list \<Rightarrow> 'o job_outcome list \<Rightarrow> ('i, 'o) job_service_state \<Rightarrow> 'o job_outcome list \<times> ('i, 'o) job_service_state" where
  "detach_active [] completed s = (completed, s)"
| "detach_active (job # jobs) completed s =
     (case bt_get (active_jobs s) job of
        None \<Rightarrow> detach_active jobs completed s
      | Some (JobDone outcome) \<Rightarrow>
          detach_active jobs (completed @ [outcome]) (release_capacity (s\<lparr>active_jobs := bt_remove job (active_jobs s)\<rparr>))
      | Some _ \<Rightarrow>
          detach_active jobs completed (s\<lparr>active_jobs := bt_insert job AbandonedRunning (bt_remove job (active_jobs s))\<rparr>))"

definition shutdown_jobs ::
  "('i, 'o) job_service_state \<Rightarrow> ('i list \<times> 'o job_outcome list) \<times> ('i, 'o) job_service_state" where
  "shutdown_jobs s =
     (let queued = map snd (queue s);
          s = (release_capacity ^^ length queued) (s\<lparr>accepting := False, queue := []\<rparr>);
          (completed, s) = detach_active (map fst (active_jobs s)) [] s in
      ((queued, completed), notify s))"

section \<open>Operations of the guard\<close>

text \<open>\<open>drop\<close> of a guard that is not retired: the worker is lost.\<close>

definition drop_guard :: "job_id \<Rightarrow> ('i, 'o) job_service_state \<Rightarrow> ('i, 'o) job_service_state" where
  "drop_guard job s =
     (case bt_get (active_jobs s) job of
        None \<Rightarrow> s
      | Some JobRunning \<Rightarrow> notify (s\<lparr>active_jobs := bt_insert job (JobDone WorkerLost) (bt_remove job (active_jobs s))\<rparr>)
      | Some AbandonedRunning \<Rightarrow> notify (release_capacity (s\<lparr>active_jobs := bt_remove job (active_jobs s)\<rparr>))
      | Some (JobDone outcome) \<Rightarrow> s\<lparr>active_jobs := bt_insert job (JobDone outcome) (bt_remove job (active_jobs s))\<rparr>)"

text \<open>\<open>complete\<close> consumes the guard; where it returns early the guard is dropped without being retired.\<close>

definition complete_job ::
  "job_id \<Rightarrow> 'o \<Rightarrow> ('i, 'o) job_service_state \<Rightarrow> (service_error + 'o option) \<times> ('i, 'o) job_service_state" where
  "complete_job job output s =
     (case bt_get (active_jobs s) job of
        None \<Rightarrow> (Inl (UnknownJob job), drop_guard job s)
      | Some (JobDone outcome) \<Rightarrow>
          (Inl (InvalidJobState job),
           drop_guard job (s\<lparr>active_jobs := bt_insert job (JobDone outcome) (bt_remove job (active_jobs s))\<rparr>))
      | Some AbandonedRunning \<Rightarrow>
          (Inr (Some output), notify (release_capacity (s\<lparr>active_jobs := bt_remove job (active_jobs s)\<rparr>)))
      | Some JobRunning \<Rightarrow>
          (Inr None, notify (s\<lparr>active_jobs := bt_insert job (JobDone (JobCompleted output)) (bt_remove job (active_jobs s))\<rparr>)))"

end
