(* ===== verification/Btree_Multiset.thy ===== *)
theory Btree_Multiset
  imports Btree_Map "HOL-Library.Multiset"
begin

text \<open>
  The entries of an ordered map as a multiset: what insertion, replacement and removal do to it, for the
  conservation properties of the services that keep their jobs and resources in such maps.
\<close>

lemma mset_bt_insert: "\<not> bt_contains m k \<Longrightarrow> mset (bt_insert k v m) = add_mset (k, v) (mset m)"
  unfolding bt_contains_iff by (induction k v m rule: bt_insert.induct) auto

lemma mset_bt_remove: "bt_sorted m \<Longrightarrow> bt_get m k = Some v \<Longrightarrow> mset m = add_mset (k, v) (mset (bt_remove k m))"
proof (induction m)
  case (Cons e m)
  obtain j w where e: "e = (j, w)" by (cases e)
  show ?case
  proof (cases "j = k")
    case True
    with Cons.prems e have "\<forall>(i, _) \<in> set m. i \<noteq> k" by (auto simp: bt_sorted_def)
    then have "bt_remove k m = m" by (auto simp: bt_remove_def filter_id_conv)
    with True e Cons.prems(2) show ?thesis by (simp add: bt_get_def bt_remove_def)
  next
    case False
    with Cons e show ?thesis by (auto simp: bt_get_def bt_remove_def bt_sorted_def)
  qed
qed simp

lemma bt_update:
  assumes "bt_sorted m" and "bt_get m k = Some v"
  shows "bt_sorted (bt_insert k w (bt_remove k m))"
    and "bt_get (bt_insert k w (bt_remove k m)) j = (if j = k then Some w else bt_get m j)"
    and "mset (bt_insert k w (bt_remove k m)) = add_mset (k, w) (mset (bt_remove k m))"
  using assms by (auto simp: bt_sorted_insert bt_sorted_remove bt_get_insert mset_bt_insert)

lemma bt_remove_above: "\<forall>x \<in> set m. (k :: 'k :: linorder) < fst x \<Longrightarrow> bt_remove k m = m"
  by (fastforce simp: bt_remove_def filter_id_conv)

lemma map_of_above: "\<forall>x \<in> set m. j < fst x \<Longrightarrow> map_of m k = Some v \<Longrightarrow> (j :: 'k :: linorder) < k"
  by (auto dest!: map_of_SomeD)

lemma mset_bt_insert_old:
  "bt_sorted m \<Longrightarrow> bt_get m k = Some v \<Longrightarrow> mset (bt_insert k w m) = add_mset (k, w) (mset (bt_remove k m))"
proof (induction m)
  case (Cons e m)
  obtain j u where e: "e = (j, u)" by (cases e)
  from Cons.prems e have rest: "bt_sorted m" "\<forall>x \<in> set m. j < fst x" by (auto simp: bt_sorted_def)
  show ?case
  proof (cases "j = k")
    case True
    with e bt_remove_above [OF rest(2)] show ?thesis by (simp add: bt_remove_def)
  next
    case False
    with Cons.prems(2) e have get: "bt_get m k = Some v" by (simp add: bt_get_def)
    with map_of_above [OF rest(2)] have "j < k" by (simp add: bt_get_def)
    with Cons.IH [OF rest(1) get] e show ?thesis by (simp add: bt_remove_def)
  qed
qed (simp add: bt_get_def)

lemma length_bt_insert_new: "\<not> bt_contains m k \<Longrightarrow> length (bt_insert k w m) = Suc (length m)"
  by (metis mset_bt_insert size_add_mset size_mset)

lemma length_bt_remove: "bt_sorted m \<Longrightarrow> bt_get m k = Some v \<Longrightarrow> length m = Suc (length (bt_remove k m))"
  by (metis mset_bt_remove size_add_mset size_mset)

lemma length_bt_insert_old: "bt_sorted m \<Longrightarrow> bt_get m k = Some v \<Longrightarrow> length (bt_insert k w m) = length m"
  by (metis mset_bt_insert_old length_bt_remove size_add_mset size_mset)

end
