(* ===== verification/Job_Service_Correct.thy ===== *)
theory Job_Service_Correct
  imports Job_Service Btree_Multiset
begin

text \<open>
  The blocking-job service together with the guards its workers hold, as a transition system whose steps
  are whole operations in any interleaving. A ghost record keeps what was accepted, claimed, given back
  and finished, so that no job is lost or duplicated can be stated.
\<close>

section \<open>The system\<close>

record ('i, 'o) job_system =
  service :: "('i, 'o) job_service_state"
  guards :: "job_id list"
  accepted :: "(job_id \<times> 'i) list"
  claimed :: "(job_id \<times> 'i) list"
  returned :: "(job_id \<times> 'i) list"
  finished :: "job_id list"

definition done_jobs :: "('i, 'o) job_service_state \<Rightarrow> job_id list" where
  "done_jobs s = map fst (filter (\<lambda>(_, st). \<not> is_running st) (active_jobs s))"

inductive job_step :: "('i, 'o) job_system \<Rightarrow> ('i, 'o) job_system \<Rightarrow> bool" where
  job_accept: "submit i (service y) = (Inr j, s) \<Longrightarrow> job_step y (y\<lparr>service := s, accepted := accepted y @ [(j, i)]\<rparr>)"
| job_refuse: "submit i (service y) = (Inl x, s) \<Longrightarrow> job_step y (y\<lparr>service := s\<rparr>)"
| job_claim: "claim (service y) = (Some (j, i), s) \<Longrightarrow>
    job_step y (y\<lparr>service := s, guards := j # guards y, claimed := claimed y @ [(j, i)]\<rparr>)"
| job_no_claim: "claim (service y) = (None, s) \<Longrightarrow> job_step y (y\<lparr>service := s\<rparr>)"
| job_cancel_queued: "cancel_job j (service y) = (Inr (CancelledQueued i), s) \<Longrightarrow>
    job_step y (y\<lparr>service := s, returned := returned y @ [(j, i)]\<rparr>)"
| job_cancel_running: "cancel_job j (service y) = (Inr CancelledRunning, s) \<Longrightarrow> job_step y (y\<lparr>service := s\<rparr>)"
| job_cancel_done: "cancel_job j (service y) = (Inr (CancelledCompleted x), s) \<Longrightarrow>
    job_step y (y\<lparr>service := s, finished := finished y @ [j]\<rparr>)"
| job_cancel_error: "cancel_job j (service y) = (Inl x, s) \<Longrightarrow> job_step y (y\<lparr>service := s\<rparr>)"
| job_consume: "consume_job j (service y) = (Inr x, s) \<Longrightarrow>
    job_step y (y\<lparr>service := s, finished := finished y @ [j]\<rparr>)"
| job_consume_error: "consume_job j (service y) = (Inl x, s) \<Longrightarrow> job_step y (y\<lparr>service := s\<rparr>)"
| job_shutdown: "shutdown_jobs (service y) = (out, s) \<Longrightarrow>
    job_step y (y\<lparr>service := s, returned := returned y @ queue (service y),
      finished := finished y @ done_jobs (service y)\<rparr>)"
| job_complete: "j \<in> set (guards y) \<Longrightarrow> complete_job j x (service y) = (res, s) \<Longrightarrow>
    job_step y (y\<lparr>service := s, guards := remove1 j (guards y),
      finished := finished y @ (if bt_get (active_jobs (service y)) j = Some AbandonedRunning then [j] else [])\<rparr>)"
| job_drop: "j \<in> set (guards y) \<Longrightarrow> drop_guard j (service y) = s \<Longrightarrow>
    job_step y (y\<lparr>service := s, guards := remove1 j (guards y),
      finished := finished y @ (if bt_get (active_jobs (service y)) j = Some AbandonedRunning then [j] else [])\<rparr>)"

definition job_start :: "('i, 'o) job_system \<Rightarrow> bool" where
  "job_start y \<longleftrightarrow> (\<exists>ident w m c. service_capacity_new w m = Inr c
     \<and> y = \<lparr>service = job_service_new ident c, guards = [], accepted = [], claimed = [], returned = [], finished = []\<rparr>)"

abbreviation job_reachable :: "('i, 'o) job_system \<Rightarrow> bool" where
  "job_reachable \<equiv> reachable_from job_start job_step"

section \<open>The invariant\<close>

definition accounted :: "('i, 'o) job_system \<Rightarrow> bool" where
  "accounted y \<longleftrightarrow>
     mset (accepted y) = mset (queue (service y)) + mset (claimed y) + mset (returned y)
     \<and> mset (map fst (claimed y)) = mset (map fst (active_jobs (service y))) + mset (finished y)
     \<and> sorted_wrt (<) (map fst (accepted y))
     \<and> sorted_wrt (<) (map fst (claimed y) @ map fst (queue (service y)))
     \<and> (\<forall>j \<in> fst ` set (accepted y). job_service j = service_identity (service y) \<and> job_sequence j < next_job (service y))"

definition counted :: "('i, 'o) job_service_state \<Rightarrow> bool" where
  "counted s \<longleftrightarrow>
     unat (epoch_sequence (epoch s)) + admitted_count s = unat (next_job s)
     \<and> epoch_service (epoch s) = service_identity s
     \<and> admitted_count s \<le> maximum_jobs (capacity s) \<and> running_count s \<le> workers (capacity s)"

definition guarded :: "('i, 'o) job_system \<Rightarrow> bool" where
  "guarded y \<longleftrightarrow> bt_sorted (active_jobs (service y)) \<and> distinct (guards y)
     \<and> (\<forall>j. j \<in> set (guards y) \<longleftrightarrow> (\<exists>st. bt_get (active_jobs (service y)) j = Some st \<and> is_running st))"

definition job_inv :: "('i, 'o) job_system \<Rightarrow> bool" where
  "job_inv y \<longleftrightarrow> accounted y \<and> counted (service y) \<and> guarded y"

lemma running_count_mset: "running_count s = size (filter_mset (\<lambda>(_, st). is_running st) (mset (active_jobs s)))"
  by (simp add: running_count_def flip: mset_filter)

lemma keys_mset: "mset (map fst m) = image_mset fst (mset m)"
  by simp

text \<open>Releasing capacity never saturates: there are fewer releases than accepted jobs.\<close>

lemma epoch_release:
  assumes "unat (epoch_sequence (epoch s)) + 1 + n = unat (next_job s)"
  shows "unat (epoch_sequence (epoch (release_capacity s))) = unat (epoch_sequence (epoch s)) + 1"
proof -
  have "unat (next_job s) < 2 ^ LENGTH(64)" using unsigned_less [of "next_job s"] by simp
  with assms have "unat (epoch_sequence (epoch s)) + unat (1 :: u64) < 2 ^ LENGTH(64)" by simp
  then obtain v where v: "checked_add (epoch_sequence (epoch s)) 1 = Some v"
    by (auto simp: checked_add_def)
  from checked_add_SomeD [OF v] v show ?thesis by (simp add: release_capacity_def epoch_advance_def)
qed

lemma release_frame [simp]:
  "queue (release_capacity s) = queue s" "active_jobs (release_capacity s) = active_jobs s"
  "next_job (release_capacity s) = next_job s" "service_identity (release_capacity s) = service_identity s"
  "capacity (release_capacity s) = capacity s" "epoch_service (epoch (release_capacity s)) = epoch_service (epoch s)"
  "accepting (release_capacity s) = accepting s"
  "running_count (release_capacity s) = running_count s" "admitted_count (release_capacity s) = admitted_count s"
  by (simp_all add: release_capacity_def epoch_advance_def running_count_def admitted_count_def)

lemma notify_frame [simp]:
  "queue (notify s) = queue s" "active_jobs (notify s) = active_jobs s" "next_job (notify s) = next_job s"
  "service_identity (notify s) = service_identity s" "capacity (notify s) = capacity s" "epoch (notify s) = epoch s"
  "accepting (notify s) = accepting s" "counted (notify s) = counted s"
  "running_count (notify s) = running_count s" "admitted_count (notify s) = admitted_count s"
  by (simp_all add: notify_def counted_def running_count_def admitted_count_def)

section \<open>The small changes the operations are made of\<close>

text \<open>A job leaves the active table.\<close>

lemma remove_active:
  assumes inv: "job_inv y" and st: "bt_get (active_jobs (service y)) j = Some st"
    and g: "gs = (if is_running st then remove1 j (guards y) else guards y)"
  shows "job_inv (y\<lparr>service := release_capacity ((service y)\<lparr>active_jobs := bt_remove j (active_jobs (service y))\<rparr>),
    guards := gs, finished := finished y @ [j]\<rparr>)"
proof -
  let ?s = "service y" and ?A = "active_jobs (service y)"
  let ?t = "?s\<lparr>active_jobs := bt_remove j ?A\<rparr>"
  have sorted: "bt_sorted ?A" using inv by (simp add: job_inv_def guarded_def)
  note split = mset_bt_remove [OF sorted st]
  have len: "length ?A = Suc (length (bt_remove j ?A))" using arg_cong [OF split, of size] by simp
  have count: "admitted_count ?t + 1 = admitted_count ?s" "running_count ?t \<le> running_count ?s"
    using len split by (simp_all add: admitted_count_def running_count_mset)
  then have "unat (epoch_sequence (epoch ?t)) + 1 + admitted_count ?t = unat (next_job ?t)"
    using inv by (simp add: job_inv_def counted_def)
  from epoch_release [OF this] count inv have "counted (release_capacity ?t)"
    by (simp add: job_inv_def counted_def)
  moreover have "guarded (y\<lparr>service := release_capacity ?t, guards := gs, finished := finished y @ [j]\<rparr>)"
    using inv st sorted unfolding job_inv_def guarded_def g
    by (auto simp: bt_sorted_remove)
  moreover have "accounted (y\<lparr>service := release_capacity ?t, guards := gs, finished := finished y @ [j]\<rparr>)"
    using inv split by (simp add: job_inv_def accounted_def keys_mset)
  ultimately show ?thesis by (simp add: job_inv_def)
qed

text \<open>An active job changes its state.\<close>

lemma change_active:
  assumes inv: "job_inv y" and st: "bt_get (active_jobs (service y)) j = Some st" and st': "is_running st' \<longrightarrow> is_running st"
    and g: "gs = (if is_running st \<and> \<not> is_running st' then remove1 j (guards y) else guards y)"
  shows "job_inv (y\<lparr>service := (service y)\<lparr>active_jobs := bt_insert j st' (bt_remove j (active_jobs (service y)))\<rparr>, guards := gs\<rparr>)"
proof -
  let ?s = "service y" and ?A = "active_jobs (service y)"
  let ?t = "?s\<lparr>active_jobs := bt_insert j st' (bt_remove j ?A)\<rparr>"
  have sorted: "bt_sorted ?A" using inv by (simp add: job_inv_def guarded_def)
  note split = mset_bt_remove [OF sorted st] and upd = bt_update [OF sorted st, of st']
  have len: "length ?A = length (bt_insert j st' (bt_remove j ?A))"
    using arg_cong [OF split, of size] arg_cong [OF upd(3), of size] by simp
  have count: "admitted_count ?t = admitted_count ?s" "running_count ?t \<le> running_count ?s"
    using len split upd(3) st' by (simp_all add: admitted_count_def running_count_mset)
  have "counted ?t" using inv count by (simp add: job_inv_def counted_def)
  moreover have "guarded (y\<lparr>service := ?t, guards := gs\<rparr>)"
    using inv st st' upd unfolding job_inv_def guarded_def g by auto
  moreover have "accounted (y\<lparr>service := ?t, guards := gs\<rparr>)"
    using inv split upd(3) by (simp add: job_inv_def accounted_def keys_mset)
  ultimately show ?thesis by (simp add: job_inv_def)
qed

text \<open>A queued job leaves the queue.\<close>

lemma mset_remove_at: "i < length xs \<Longrightarrow> mset xs = add_mset (xs ! i) (mset (remove_at i xs))"
  using arg_cong [OF remove_at_split, of i xs mset] by (simp add: remove_at_def)

lemma sorted_remove_at: "sorted_wrt P (xs @ map f ys) \<Longrightarrow> sorted_wrt P (xs @ map f (remove_at i ys))"
proof (cases "i < length ys")
  case True
  assume "sorted_wrt P (xs @ map f ys)"
  then have "sorted_wrt P (xs @ map f (take i ys @ ys ! i # drop (Suc i) ys))"
    using remove_at_split [OF True] by simp
  then show ?thesis by (auto simp: remove_at_def sorted_wrt_append)
qed (simp add: remove_at_def)

lemma remove_queued:
  assumes inv: "job_inv y" and i: "i < length (queue (service y))"
  shows "job_inv (y\<lparr>service := release_capacity ((service y)\<lparr>queue := remove_at i (queue (service y))\<rparr>),
    returned := returned y @ [queue (service y) ! i]\<rparr>)"
proof -
  let ?s = "service y" and ?q = "queue (service y)"
  let ?t = "?s\<lparr>queue := remove_at i ?q\<rparr>"
  note split = mset_remove_at [OF i]
  have count: "admitted_count ?t + 1 = admitted_count ?s" "running_count ?t = running_count ?s"
    using i by (auto simp: admitted_count_def running_count_def)
  then have "unat (epoch_sequence (epoch ?t)) + 1 + admitted_count ?t = unat (next_job ?t)"
    using inv by (simp add: job_inv_def counted_def)
  from epoch_release [OF this] count inv have "counted (release_capacity ?t)"
    by (simp add: job_inv_def counted_def)
  moreover have "accounted (y\<lparr>service := release_capacity ?t, returned := returned y @ [?q ! i]\<rparr>)"
    using inv split sorted_remove_at [of "(<)" "map fst (claimed y)" fst ?q i] by (auto simp: job_inv_def accounted_def)
  ultimately show ?thesis using inv by (simp add: job_inv_def guarded_def)
qed

section \<open>Every operation keeps the invariant\<close>

lemma job_inv_notify [simp]:
  "job_inv (y\<lparr>service := notify s\<rparr>) = job_inv (y\<lparr>service := s\<rparr>)"
  "job_inv (y\<lparr>service := notify s, guards := g\<rparr>) = job_inv (y\<lparr>service := s, guards := g\<rparr>)"
  "job_inv (y\<lparr>service := notify s, returned := b\<rparr>) = job_inv (y\<lparr>service := s, returned := b\<rparr>)"
  "job_inv (y\<lparr>service := notify s, finished := f\<rparr>) = job_inv (y\<lparr>service := s, finished := f\<rparr>)"
  "job_inv (y\<lparr>service := notify s, guards := g, finished := f\<rparr>) = job_inv (y\<lparr>service := s, guards := g, finished := f\<rparr>)"
  "job_inv (y\<lparr>service := notify s, returned := b, finished := f\<rparr>) = job_inv (y\<lparr>service := s, returned := b, finished := f\<rparr>)"
  by (simp_all add: job_inv_def accounted_def guarded_def)

lemma job_inv_accept:
  assumes inv: "job_inv y" and run: "submit i (service y) = (Inr j, s)"
  shows "job_inv (y\<lparr>service := s, accepted := accepted y @ [(j, i)]\<rparr>)"
proof -
  let ?s = "service y"
  from run obtain n where n: "checked_add (next_job ?s) 1 = Some n" and j: "j = JobId (service_identity ?s) (next_job ?s)"
    and s: "s = ?s\<lparr>next_job := n, queue := queue ?s @ [(j, i)]\<rparr>" and room: "admitted_count ?s < maximum_jobs (capacity ?s)"
    by (auto simp: submit_def Let_def split: if_splits option.splits)
  have next_n: "unat n = unat (next_job ?s) + 1" using checked_add_SomeD [OF n] by simp
  then have lt: "next_job ?s < n" by (simp add: word_less_nat_alt)
  have old: "job_service k = service_identity ?s \<and> job_sequence k < next_job ?s" if "k \<in> fst ` set (accepted y)" for k
    using inv that by (auto simp: job_inv_def accounted_def)
  then have less: "k < j" if "k \<in> fst ` set (accepted y)" for k using that by (simp add: j less_job_id_def)
  have "set (claimed y) \<subseteq> set (accepted y)" "set (queue ?s) \<subseteq> set (accepted y)"
    using inv by (auto simp: job_inv_def accounted_def dest!: arg_cong [where f = set_mset])
  with less have "\<forall>k \<in> fst ` (set (claimed y) \<union> set (queue ?s)). k < j" by blast
  moreover have "job_sequence k < n" if "k \<in> fst ` set (accepted y)" for k
    using old [OF that] lt by auto
  ultimately have "accounted (y\<lparr>service := s, accepted := accepted y @ [(j, i)]\<rparr>)"
    using inv old less lt by (auto simp: job_inv_def accounted_def s sorted_wrt_append j)
  moreover have "counted s" using inv room next_n by (simp add: job_inv_def counted_def s admitted_count_def running_count_def)
  ultimately show ?thesis using inv by (simp add: job_inv_def guarded_def s)
qed

lemma job_inv_claim:
  assumes inv: "job_inv y" and run: "claim (service y) = (Some (j, i), s)"
  shows "job_inv (y\<lparr>service := s, guards := j # guards y, claimed := claimed y @ [(j, i)]\<rparr>)"
proof -
  let ?s = "service y" and ?A = "active_jobs (service y)"
  from run obtain rest where q: "queue ?s = (j, i) # rest" and room: "running_count ?s < workers (capacity ?s)"
    and s: "s = ?s\<lparr>queue := rest, active_jobs := bt_insert j JobRunning ?A\<rparr>"
    by (auto simp: claim_def split: if_splits list.splits)
  have sorted: "bt_sorted ?A" using inv by (simp add: job_inv_def guarded_def)
  have "fst ` set ?A \<subseteq> fst ` set (claimed y)"
  proof -
    have "set_mset (mset (map fst ?A)) \<subseteq> set_mset (mset (map fst (claimed y)))"
      using inv by (simp only: job_inv_def accounted_def) (simp add: subset_iff)
    then show ?thesis by auto
  qed
  moreover have "j \<notin> fst ` set (claimed y)"
    using inv by (auto simp: job_inv_def accounted_def q sorted_wrt_append)
  ultimately have fresh: "\<not> bt_contains ?A j" by (auto simp: bt_contains_iff)
  note ins = mset_bt_insert [OF fresh, of JobRunning]
  have "length (bt_insert j JobRunning ?A) = Suc (length ?A)" using arg_cong [OF ins, of size] by simp
  then have "admitted_count s = admitted_count ?s" by (simp add: s admitted_count_def q)
  moreover have "running_count s = Suc (running_count ?s)" using ins by (simp add: s running_count_mset)
  ultimately have "counted s" using inv room by (simp add: job_inv_def counted_def) (simp add: s)
  moreover have "guarded (y\<lparr>service := s, guards := j # guards y, claimed := claimed y @ [(j, i)]\<rparr>)"
    using inv fresh by (auto simp: job_inv_def guarded_def s bt_sorted_insert bt_get_insert bt_contains_def)
  moreover have "accounted (y\<lparr>service := s, guards := j # guards y, claimed := claimed y @ [(j, i)]\<rparr>)"
    using inv ins by (simp add: job_inv_def accounted_def s q)
  ultimately show ?thesis by (simp add: job_inv_def)
qed

lemma bt_same: "bt_sorted m \<Longrightarrow> bt_get m k = Some v \<Longrightarrow> bt_insert k v (bt_remove k m) = m"
proof (induction m)
  case (Cons e m)
  obtain j w where e: "e = (j, w)" by (cases e)
  show ?case
  proof (cases "j = k")
    case True
    with Cons.prems e have lt: "\<forall>(i, _) \<in> set m. k < i" by (auto simp: bt_sorted_def)
    then have "bt_remove k m = m" by (auto simp: bt_remove_def filter_id_conv)
    moreover from lt have "bt_insert k w m = (k, w) # m" by (cases m) auto
    ultimately show ?thesis using True e Cons.prems(2) by (simp add: bt_get_def bt_remove_def)
  next
    case False
    with Cons.prems e have "j < k" by (auto simp: bt_sorted_def bt_get_def dest!: map_of_SomeD)
    with Cons False e show ?thesis by (auto simp: bt_get_def bt_remove_def bt_sorted_def)
  qed
qed simp

lemma job_inv_same: "job_inv y \<Longrightarrow> s = service y \<Longrightarrow> job_inv (y\<lparr>service := s\<rparr>)"
  by (cases y) simp

lemma active_same:
  "job_inv y \<Longrightarrow> bt_get (active_jobs (service y)) j = Some st
     \<Longrightarrow> (service y)\<lparr>active_jobs := bt_insert j st (bt_remove j (active_jobs (service y)))\<rparr> = service y"
  by (simp add: job_inv_def guarded_def bt_same)

lemma keep_guards [simp]: "y\<lparr>service := s, guards := guards y\<rparr> = y\<lparr>service := s\<rparr>"
  "y\<lparr>service := s, guards := guards y, finished := f\<rparr> = y\<lparr>service := s, finished := f\<rparr>"
  by (cases y; simp)+

lemma job_inv_cancel:
  assumes inv: "job_inv y" and run: "cancel_job j (service y) = (res, s)"
  shows "case res of
      Inl x \<Rightarrow> s = service y
    | Inr (CancelledQueued i) \<Rightarrow> (j, i) \<in> set (queue (service y)) \<and> job_inv (y\<lparr>service := s, returned := returned y @ [(j, i)]\<rparr>)
    | Inr CancelledRunning \<Rightarrow> job_inv (y\<lparr>service := s\<rparr>)
    | Inr (CancelledCompleted x) \<Rightarrow> job_inv (y\<lparr>service := s, finished := finished y @ [j]\<rparr>)"
proof (cases "position (\<lambda>(queued, _). queued = j) (queue (service y))")
  case (Some i)
  from position_SomeD [OF Some] obtain x where i: "i < length (queue (service y))" "queue (service y) ! i = (j, x)"
    by (auto split: prod.splits)
  have "(j, x) \<in> set (queue (service y))" using i by (metis nth_mem)
  with remove_queued [OF inv i(1)] run Some i(2) show ?thesis by (auto simp: cancel_job_def)
next
  case None
  show ?thesis
  proof (cases "bt_get (active_jobs (service y)) j")
    case None
    with run \<open>position _ _ = None\<close> show ?thesis by (auto simp: cancel_job_def)
  next
    case (Some st)
    show ?thesis
    proof (cases st)
      case JobRunning
      with Some change_active [OF inv Some, of AbandonedRunning "guards y"] run None show ?thesis
        by (auto simp: cancel_job_def)
    next
      case AbandonedRunning
      with Some active_same [OF inv Some] run None show ?thesis by (auto simp: cancel_job_def)
    next
      case (JobDone x)
      with Some remove_active [OF inv Some refl] run None show ?thesis by (auto simp: cancel_job_def)
    qed
  qed
qed

lemma job_inv_consume:
  assumes inv: "job_inv y" and run: "consume_job j (service y) = (res, s)"
  shows "case res of Inl x \<Rightarrow> s = service y | Inr x \<Rightarrow> job_inv (y\<lparr>service := s, finished := finished y @ [j]\<rparr>)"
proof (cases "bt_get (active_jobs (service y)) j")
  case None
  with run show ?thesis by (auto simp: consume_job_def)
next
  case (Some st)
  show ?thesis
    using Some active_same [OF inv Some] remove_active [OF inv Some refl] run
    by (cases st) (auto simp: consume_job_def)
qed

text \<open>A guard that is completed or dropped finds its job running, so neither reports an inconsistency.\<close>

lemma guard_running:
  assumes "job_inv y" and "j \<in> set (guards y)"
  obtains "bt_get (active_jobs (service y)) j = Some JobRunning" | "bt_get (active_jobs (service y)) j = Some AbandonedRunning"
proof -
  from assms obtain st where "bt_get (active_jobs (service y)) j = Some st" "is_running st"
    by (auto simp: job_inv_def guarded_def)
  then show thesis using that by (cases st) auto
qed

lemma job_inv_complete:
  assumes inv: "job_inv y" and g: "j \<in> set (guards y)" and run: "complete_job j x (service y) = (res, s)"
  shows "job_inv (y\<lparr>service := s, guards := remove1 j (guards y),
      finished := finished y @ (if bt_get (active_jobs (service y)) j = Some AbandonedRunning then [j] else [])\<rparr>)
    \<and> res = Inr (if bt_get (active_jobs (service y)) j = Some AbandonedRunning then Some x else None)"
proof (rule guard_running [OF inv g])
  assume st: "bt_get (active_jobs (service y)) j = Some JobRunning"
  from change_active [OF inv st, of "JobDone (JobCompleted x)"] st run show ?thesis
    by (auto simp: complete_job_def)
next
  assume st: "bt_get (active_jobs (service y)) j = Some AbandonedRunning"
  from remove_active [OF inv st refl] st run show ?thesis by (auto simp: complete_job_def)
qed

lemma job_inv_drop:
  assumes inv: "job_inv y" and g: "j \<in> set (guards y)"
  shows "job_inv (y\<lparr>service := drop_guard j (service y), guards := remove1 j (guards y),
      finished := finished y @ (if bt_get (active_jobs (service y)) j = Some AbandonedRunning then [j] else [])\<rparr>)"
proof (rule guard_running [OF inv g])
  assume st: "bt_get (active_jobs (service y)) j = Some JobRunning"
  from change_active [OF inv st, of "JobDone WorkerLost"] st show ?thesis by (auto simp: drop_guard_def)
next
  assume st: "bt_get (active_jobs (service y)) j = Some AbandonedRunning"
  from remove_active [OF inv st refl] st show ?thesis by (auto simp: drop_guard_def)
qed

section \<open>Shutdown\<close>

lemma release_queue:
  assumes "job_inv y"
  shows "job_inv (y\<lparr>service := (release_capacity ^^ length (queue (service y))) ((service y)\<lparr>accepting := False, queue := []\<rparr>),
    returned := returned y @ queue (service y)\<rparr>)"
  using assms
proof (induction "queue (service y)" arbitrary: y)
  case Nil
  have "y\<lparr>service := (service y)\<lparr>accepting := False, queue := []\<rparr>, returned := returned y\<rparr>
      = y\<lparr>service := (service y)\<lparr>accepting := False\<rparr>\<rparr>" using Nil.hyps by (cases y; cases "service y") simp
  with Nil show ?case
    by (simp add: job_inv_def accounted_def counted_def guarded_def admitted_count_def running_count_def)
next
  case (Cons e q)
  let ?s = "release_capacity ((service y)\<lparr>queue := q\<rparr>)"
  let ?y = "y\<lparr>service := ?s, returned := returned y @ [e]\<rparr>"
  have "remove_at 0 (queue (service y)) = q" using Cons.hyps(2) by (simp add: remove_at_def flip: Cons.hyps(2))
  with remove_queued [OF Cons.prems, of 0] Cons.hyps(2) have inv: "job_inv ?y" by (metis length_greater_0_conv list.distinct(1) nth_Cons_0)
  have q: "q = queue (service ?y)" by simp
  have "(release_capacity ^^ length q) (release_capacity ((service y)\<lparr>accepting := False, queue := []\<rparr>))
      = (release_capacity ^^ Suc (length q)) ((service y)\<lparr>accepting := False, queue := []\<rparr>)"
    by (simp only: funpow_Suc_right comp_apply)
  moreover have "?s\<lparr>accepting := False, queue := []\<rparr> = release_capacity ((service y)\<lparr>accepting := False, queue := []\<rparr>)"
    by (simp add: release_capacity_def)
  ultimately show ?case using Cons.hyps(1) [OF q inv] by (simp flip: Cons.hyps(2))
qed

definition is_done :: "('i, 'o) job_service_state \<Rightarrow> job_id \<Rightarrow> bool" where
  "is_done s j \<longleftrightarrow> (\<exists>x. bt_get (active_jobs s) j = Some (JobDone x))"

lemma detach_active_ok:
  assumes "job_inv y" and "detach_active jobs out (service y) = (out', s)" and "distinct jobs"
  shows "job_inv (y\<lparr>service := s, finished := finished y @ filter (is_done (service y)) jobs\<rparr>)
    \<and> (\<forall>j. bt_get (active_jobs s) j = (if j \<in> set jobs then
          (if is_done (service y) j then None else map_option (\<lambda>_. AbandonedRunning) (bt_get (active_jobs (service y)) j))
        else bt_get (active_jobs (service y)) j))
    \<and> length out' = length out + length (filter (is_done (service y)) jobs)
    \<and> queue s = queue (service y) \<and> accepting s = accepting (service y)"
  using assms
proof (induction jobs arbitrary: y out)
  case Nil
  then show ?case by (cases y) auto
next
  case (Cons j jobs)
  let ?A = "active_jobs (service y)"
  have sorted: "bt_sorted ?A" using Cons.prems(1) by (simp add: job_inv_def guarded_def)
  have fresh: "j \<notin> set jobs" "distinct jobs" using Cons.prems(3) by simp_all
  show ?case
  proof (cases "bt_get ?A j")
    case None
    with Cons.IH [OF Cons.prems(1) _ fresh(2), of out] Cons.prems(2) show ?thesis by (auto simp: is_done_def)
  next
    case (Some st)
    show ?thesis
    proof (cases "is_running st")
      case True
      let ?s = "(service y)\<lparr>active_jobs := bt_insert j AbandonedRunning (bt_remove j ?A)\<rparr>"
      have inv: "job_inv (y\<lparr>service := ?s\<rparr>)"
        using change_active [OF Cons.prems(1) Some, of AbandonedRunning "guards y"] True by simp
      have get: "bt_get (bt_insert j AbandonedRunning (bt_remove j ?A)) k = (if k = j then Some AbandonedRunning else bt_get ?A k)" for k
        using bt_update(2) [OF sorted Some, of AbandonedRunning k] by simp
      have dn: "is_done ?s k = (k \<noteq> j \<and> is_done (service y) k)" "\<not> is_done (service y) j" for k
        using True Some by (auto simp: is_done_def get)
      have filt: "filter (is_done ?s) jobs = filter (is_done (service y)) jobs"
        using fresh(1) by (intro filter_cong) (auto simp: dn)
      have "detach_active jobs out (service (y\<lparr>service := ?s\<rparr>)) = (out', s)"
        using Cons.prems(2) Some True by (cases st) auto
      note IH = Cons.IH [OF inv this fresh(2)]
      have svc: "service (y\<lparr>service := ?s\<rparr>) = ?s" by simp
      from IH [unfolded svc filt] show ?thesis
        using dn Some fresh(1) by (auto simp: get)
    next
      case False
      then obtain x where x: "st = JobDone x" by (cases st) auto
      let ?s = "release_capacity ((service y)\<lparr>active_jobs := bt_remove j ?A\<rparr>)"
      have inv: "job_inv (y\<lparr>service := ?s, finished := finished y @ [j]\<rparr>)"
        using remove_active [OF Cons.prems(1) Some refl] x by simp
      have dn: "is_done ?s k = (k \<noteq> j \<and> is_done (service y) k)" "is_done (service y) j" for k
        using x Some by (auto simp: is_done_def)
      have filt: "filter (is_done ?s) jobs = filter (is_done (service y)) jobs"
        using fresh(1) by (intro filter_cong) (auto simp: dn)
      have "detach_active jobs (out @ [x]) (service (y\<lparr>service := ?s, finished := finished y @ [j]\<rparr>)) = (out', s)"
        using Cons.prems(2) Some x by simp
      note IH = Cons.IH [OF inv this fresh(2)]
      have svc: "service (y\<lparr>service := ?s, finished := finished y @ [j]\<rparr>) = ?s" by simp
      from IH [unfolded svc filt] show ?thesis
        using dn Some fresh(1) by (auto simp: )
    qed
  qed
qed

lemma job_inv_shutdown:
  assumes inv: "job_inv y" and run: "shutdown_jobs (service y) = (out, s)"
  shows "job_inv (y\<lparr>service := s, returned := returned y @ queue (service y), finished := finished y @ done_jobs (service y)\<rparr>)
    \<and> queue s = [] \<and> \<not> accepting s
    \<and> (\<forall>j. bt_get (active_jobs s) j = (if is_done (service y) j then None
          else map_option (\<lambda>_. AbandonedRunning) (bt_get (active_jobs (service y)) j)))
    \<and> fst out = map snd (queue (service y)) \<and> length (snd out) = length (done_jobs (service y))"
proof -
  let ?A = "active_jobs (service y)"
  let ?s = "(release_capacity ^^ length (queue (service y))) ((service y)\<lparr>accepting := False, queue := []\<rparr>)"
  have frame: "active_jobs ((release_capacity ^^ n) s) = active_jobs s" "queue ((release_capacity ^^ n) s) = queue s"
    "accepting ((release_capacity ^^ n) s) = accepting s" for n and s :: "('a, 'b) job_service_state"
    by (induction n) simp_all
  let ?y = "y\<lparr>service := ?s, returned := returned y @ queue (service y)\<rparr>"
  have inv': "job_inv ?y" by (rule release_queue [OF inv])
  have sorted: "bt_sorted ?A" using inv by (simp add: job_inv_def guarded_def)
  have keys: "distinct (map fst ?A)" using sorted by (simp add: bt_sorted_def strict_sorted_iff)
  obtain outs s1 where det: "detach_active (map fst ?A) [] (service ?y) = (outs, s1)" by (rule prod.exhaust)
  have same: "is_done (service ?y) = is_done (service y)" by (rule ext) (simp add: is_done_def frame)
  have "is_done (service y) j \<longleftrightarrow> \<not> is_running st" if "(j, st) \<in> set ?A" for j st
    using bt_get_Some_iff [OF sorted, of j st] that by (cases st) (auto simp: is_done_def)
  then have done_eq: "filter (is_done (service y)) (map fst ?A) = done_jobs (service y)"
    by (auto simp: done_jobs_def filter_map comp_def case_prod_beta intro!: arg_cong [where f = "map fst"] filter_cong)
  have get: "j \<notin> set (map fst ?A) \<Longrightarrow> bt_get ?A j = None" for j
    by (simp add: bt_get_def map_of_eq_None_iff)
  have run': "out = (map snd (queue (service y)), outs)" "s = notify s1"
    using run det by (auto simp: shutdown_jobs_def Let_def frame split: prod.splits)
  have order: "y\<lparr>returned := b, service := u, finished := f\<rparr> = y\<lparr>service := u, returned := b, finished := f\<rparr>" for b u f
    by (cases y) simp
  note det_ok = detach_active_ok [OF inv' det keys, unfolded same done_eq]
  have "bt_get (active_jobs s1) j = (if is_done (service y) j then None
          else map_option (\<lambda>_. AbandonedRunning) (bt_get ?A j))" for j
    using det_ok get [of j] by (cases "j \<in> set (map fst ?A)") (simp_all add: frame is_done_def)
  with det_ok show ?thesis by (simp add: run' frame order)
qed

section \<open>The service as a transition system\<close>

lemma submit_refused: "submit i s = (Inl x, s') \<Longrightarrow> s' = s"
  by (auto simp: submit_def Let_def split: if_splits option.splits)

lemma not_claimed: "claim s = (None, s') \<Longrightarrow> s' = s"
  by (auto simp: claim_def split: if_splits list.splits)

lemma job_start_inv: "job_start y \<Longrightarrow> job_inv y"
  by (auto simp: job_start_def job_inv_def accounted_def counted_def guarded_def job_service_new_def
      service_capacity_new_def epoch_initial_def admitted_count_def running_count_def split: if_splits)

lemma job_step_inv:
  assumes inv: "job_inv y" and step: "job_step y y'"
  shows "job_inv y'"
  using step
proof cases
  case (job_accept i j s)
  with job_inv_accept [OF inv] show ?thesis by simp
next
  case (job_refuse i x s)
  with job_inv_same [OF inv submit_refused [OF job_refuse(2)]] show ?thesis by simp
next
  case (job_claim j i s)
  with job_inv_claim [OF inv] show ?thesis by simp
next
  case (job_no_claim s)
  with job_inv_same [OF inv not_claimed [OF job_no_claim(2)]] show ?thesis by simp
next
  case (job_cancel_queued j i s)
  with job_inv_cancel [OF inv job_cancel_queued(2)] show ?thesis by simp
next
  case (job_cancel_running j s)
  with job_inv_cancel [OF inv job_cancel_running(2)] show ?thesis by simp
next
  case (job_cancel_done j x s)
  with job_inv_cancel [OF inv job_cancel_done(2)] show ?thesis by simp
next
  case (job_cancel_error j x s)
  with job_inv_cancel [OF inv job_cancel_error(2)] inv job_inv_same show ?thesis by simp
next
  case (job_consume j x s)
  with job_inv_consume [OF inv job_consume(2)] show ?thesis by simp
next
  case (job_consume_error j x s)
  with job_inv_consume [OF inv job_consume_error(2)] inv job_inv_same show ?thesis by simp
next
  case (job_shutdown out s)
  with job_inv_shutdown [OF inv job_shutdown(2)] show ?thesis by simp
next
  case (job_complete j x res s)
  with job_inv_complete [OF inv job_complete(2,3)] show ?thesis by simp
next
  case (job_drop j s)
  with job_inv_drop [OF inv job_drop(2)] show ?thesis by simp
qed

interpretation jobs: transition_system job_start job_step job_inv
  by unfold_locales (auto intro: job_start_inv job_step_inv)

text \<open>Identity and capacity never change, and the job counter only grows.\<close>

definition same_service :: "('i, 'o) job_service_state \<Rightarrow> ('i, 'o) job_service_state \<Rightarrow> bool" where
  "same_service s s' \<longleftrightarrow> capacity s' = capacity s \<and> service_identity s' = service_identity s
     \<and> unat (next_job s) \<le> unat (next_job s')"

lemma same_service_refl [simp]: "same_service s s"
  by (simp add: same_service_def)

lemma same_service_frame [simp]:
  "same_service s (notify s') = same_service s s'" "same_service s (release_capacity s') = same_service s s'"
  "same_service s (s'\<lparr>queue := q\<rparr>) = same_service s s'" "same_service s (s'\<lparr>active_jobs := a\<rparr>) = same_service s s'"
  "same_service s (s'\<lparr>accepting := b\<rparr>) = same_service s s'"
  by (simp_all add: same_service_def)

lemma same_service_ops:
  "submit i s = (res1, s') \<Longrightarrow> same_service s s'"
  "claim s = (res2, s') \<Longrightarrow> same_service s s'"
  "cancel_job j s = (res3, s') \<Longrightarrow> same_service s s'"
  "consume_job j s = (res4, s') \<Longrightarrow> same_service s s'"
  "same_service s (drop_guard j s)"
  by (auto simp: submit_def claim_def cancel_job_def consume_job_def drop_guard_def Let_def
      split: if_splits option.splits list.splits active_job_state.splits)
    (auto simp: same_service_def dest: checked_add_SomeD)

lemma same_service_detach: "detach_active js out s = (out', s') \<Longrightarrow> same_service u s \<Longrightarrow> same_service u s'"
  by (induction js out s arbitrary: rule: detach_active.induct)
    (auto split: option.splits active_job_state.splits)

lemma same_service_shutdown: "shutdown_jobs s = (out, s') \<Longrightarrow> same_service s s'"
proof -
  have many: "same_service s ((release_capacity ^^ n) s') = same_service s s'" for n s'
    by (induction n) simp_all
  assume "shutdown_jobs s = (out, s')"
  then show ?thesis
    by (auto simp: shutdown_jobs_def Let_def many split: prod.splits dest: same_service_detach [where u = s])
qed

lemma same_service_complete: "complete_job j x s = (res, s') \<Longrightarrow> same_service s s'"
  using same_service_ops(5) [of s j]
  by (auto simp: complete_job_def drop_guard_def split: option.splits active_job_state.splits)

lemma job_step_same: "job_step y y' \<Longrightarrow> same_service (service y) (service y')"
  by (cases rule: job_step.cases)
    (auto dest: same_service_ops(1-4) same_service_shutdown same_service_complete simp: same_service_ops)

lemma job_steps_same: "job_step\<^sup>*\<^sup>* y y' \<Longrightarrow> same_service (service y) (service y')"
proof (induction rule: rtranclp_induct)
  case (step u v)
  with job_step_same [OF step(2)] show ?case by (auto simp: same_service_def)
qed simp

section \<open>After shutdown\<close>

definition closed_ok :: "('i, 'o) job_service_state \<Rightarrow> bool" where
  "closed_ok s \<longleftrightarrow> accepting s \<or> queue s = [] \<and> (\<forall>j st. bt_get (active_jobs s) j = Some st \<longrightarrow> st = AbandonedRunning)"

lemma closed_ok_notify [simp]: "closed_ok (notify s) = closed_ok s"
  by (simp add: closed_ok_def)

lemma closed_ops:
  assumes "closed_ok s" and "bt_sorted (active_jobs s)"
  shows "submit i s = (res1, s') \<Longrightarrow> closed_ok s'" and "claim s = (res2, s') \<Longrightarrow> closed_ok s'"
    and "cancel_job j s = (res3, s') \<Longrightarrow> closed_ok s'" and "consume_job j s = (res4, s') \<Longrightarrow> closed_ok s'"
    and "closed_ok (drop_guard j s)"
  using assms
  by (auto simp: submit_def claim_def cancel_job_def consume_job_def drop_guard_def Let_def closed_ok_def
      bt_get_insert bt_sorted_remove split: if_splits option.splits list.splits active_job_state.splits)

lemma closed_complete:
  assumes "closed_ok s" and "bt_sorted (active_jobs s)" and "complete_job j x s = (res, s')"
  shows "closed_ok s'"
  using assms closed_ops(5) [OF assms(1,2), of j] 
  by (auto simp: complete_job_def closed_ok_def bt_get_insert bt_sorted_remove drop_guard_def
      split: option.splits active_job_state.splits if_splits)

lemma job_step_closed:
  assumes inv: "job_inv y" and ok: "closed_ok (service y)" and step: "job_step y y'"
  shows "closed_ok (service y')"
proof -
  have sorted: "bt_sorted (active_jobs (service y))" using inv by (simp add: job_inv_def guarded_def)
  note ops = closed_ops [OF ok sorted]
  show ?thesis
    using step
  proof cases
    case (job_shutdown out s)
    with job_inv_shutdown [OF inv job_shutdown(2)] show ?thesis by (auto simp: closed_ok_def)
  qed (use ops closed_complete [OF ok sorted] in \<open>auto dest: submit_refused not_claimed\<close>)
qed

lemma reachable_closed:
  assumes "job_reachable y"
  shows "closed_ok (service y)"
  using assms
proof (induction rule: reachable_from.induct)
  case (reachable_start y)
  then show ?case by (auto simp: job_start_def job_service_new_def closed_ok_def)
next
  case (reachable_step y y')
  then show ?case using job_step_closed jobs.reachable_inv by blast
qed

section \<open>Properties\<close>

text \<open>A run: one worker, two jobs at most; two jobs are accepted, the first is claimed.\<close>

definition demo_start :: "(nat, nat) job_system" where
  "demo_start = \<lparr>service = job_service_new 3 \<lparr>workers = 1, maximum_jobs = 2\<rparr>,
     guards = [], accepted = [], claimed = [], returned = [], finished = []\<rparr>"

definition demo_full :: "(nat, nat) job_system" where
  "demo_full = \<lparr>service = (job_service_new 3 \<lparr>workers = 1, maximum_jobs = 2\<rparr>)
       \<lparr>next_job := 2, queue := [(JobId 3 1, 8)], active_jobs := [(JobId 3 0, JobRunning)]\<rparr>,
     guards = [JobId 3 0], accepted = [(JobId 3 0, 7), (JobId 3 1, 8)], claimed = [(JobId 3 0, 7)], returned = [], finished = []\<rparr>"

lemma demo_jobs_reachable: "job_reachable demo_start" "job_reachable demo_full"
proof -
  let ?s = "service demo_start"
  let ?one = "?s\<lparr>next_job := 1, queue := [(JobId 3 0, 7)]\<rparr>"
  let ?two = "?s\<lparr>next_job := 2, queue := [(JobId 3 0, 7), (JobId 3 1, 8)]\<rparr>"
  have "service_capacity_new 1 2 = Inr \<lparr>workers = 1, maximum_jobs = 2\<rparr>" by (simp add: service_capacity_new_def)
  then show start: "job_reachable demo_start"
    by (intro reachable_start) (auto simp: job_start_def demo_start_def)
  have runs: "submit 7 ?s = (Inr (JobId 3 0), ?one)" "submit 8 ?one = (Inr (JobId 3 1), ?two)"
    "claim ?two = (Some (JobId 3 0, 7), service demo_full)"
    by (simp_all add: submit_def claim_def demo_start_def demo_full_def job_service_new_def admitted_count_def
        running_count_def checked_add_def Let_def)
  let ?y1 = "demo_start\<lparr>service := ?one, accepted := [(JobId 3 0, 7)]\<rparr>"
  let ?y2 = "?y1\<lparr>service := ?two, accepted := [(JobId 3 0, 7), (JobId 3 1, 8)]\<rparr>"
  have "job_step demo_start ?y1" using job_accept [of 7 demo_start] runs(1) by (simp add: demo_start_def)
  moreover have "job_step ?y1 ?y2" using job_accept [of 8 ?y1] runs(2) by simp
  moreover have "job_step ?y2 demo_full"
    using job_claim [of ?y2] runs(3) by (simp add: demo_full_def demo_start_def)
  ultimately show "job_reachable demo_full" using start by (meson reachable_step)
qed

text \<open>
  C34: In every interleaving the job service keeps its bounds: admitted jobs never exceed the maximum,
  running jobs never exceed the workers, and the running jobs are exactly those whose guard a worker
  holds. The capacity epoch counts the releases exactly, so it never saturates.
\<close>

theorem job_service_bounds:
  assumes "job_reachable y"
  shows "admitted_count (service y) \<le> maximum_jobs (capacity (service y))
    \<and> running_count (service y) \<le> workers (capacity (service y))
    \<and> distinct (guards y)
    \<and> (\<forall>j. j \<in> set (guards y) \<longleftrightarrow> bt_get (active_jobs (service y)) j \<in> {Some JobRunning, Some AbandonedRunning})
    \<and> unat (epoch_sequence (epoch (service y))) + admitted_count (service y) = unat (next_job (service y))"
proof -
  have inv: "job_inv y" by (rule jobs.reachable_inv [OF assms])
  have "j \<in> set (guards y) \<longleftrightarrow> bt_get (active_jobs (service y)) j \<in> {Some JobRunning, Some AbandonedRunning}" for j
    using inv guard_running [OF inv, of j] by (fastforce simp: job_inv_def guarded_def)
  with inv show ?thesis by (simp add: job_inv_def counted_def guarded_def)
qed

lemma job_service_bounds_witness: "admitted_count (service demo_full) \<le> maximum_jobs (capacity (service demo_full))"
  using job_service_bounds [OF demo_jobs_reachable(2)] by blast



text \<open>
  Completing a claimed job never reports an inconsistency: the outcome is kept for the waiter, or
  returned to the worker when the waiter has abandoned the job, which then leaves the service.
\<close>

theorem complete_never_fails:
  assumes "job_reachable y" and "j \<in> set (guards y)"
  shows "\<exists>s. complete_job j x (service y) = (if bt_get (active_jobs (service y)) j = Some AbandonedRunning
        then (Inr (Some x), s) else (Inr None, s))
    \<and> bt_get (active_jobs s) j = (if bt_get (active_jobs (service y)) j = Some AbandonedRunning then None
        else Some (JobDone (JobCompleted x)))"
proof -
  have inv: "job_inv y" by (rule jobs.reachable_inv [OF assms(1)])
  have sorted: "bt_sorted (active_jobs (service y))" using inv by (simp add: job_inv_def guarded_def)
  show ?thesis
    by (rule guard_running [OF inv assms(2)])
      (auto simp: complete_job_def bt_get_insert bt_sorted_remove sorted)
qed

lemma complete_never_fails_witness: "\<exists>s. complete_job (JobId 3 0) 5 (service demo_full) = (Inr None, s)"
  using complete_never_fails [OF demo_jobs_reachable(2), of "JobId 3 0" 5]
  by (auto simp: demo_full_def bt_get_def)

text \<open>
  A rejected submission misses no capacity: as long as the observed epoch has not changed, whatever
  ran in between, a new submission is still refused, so waiting for a change of the epoch is safe.
\<close>

theorem no_missed_capacity:
  assumes "job_reachable y" and "submit i (service y) = (Inl (Saturated i observed), s)"
    and "job_step\<^sup>*\<^sup>* y y'" and "capacity_changed_since observed (service y') = Inr False"
  shows "submit k (service y') \<in> {(Inl (Closed k), service y'), (Inl (Saturated k observed), service y')}"
proof -
  have inv: "job_inv y" by (rule jobs.reachable_inv [OF assms(1)])
  have inv': "job_inv y'" by (rule jobs.steps_inv [OF assms(3) inv])
  from assms(2) have full: "maximum_jobs (capacity (service y)) \<le> admitted_count (service y)"
    and observed: "observed = epoch (service y)"
    by (auto simp: submit_def Let_def split: if_splits option.splits)
  from assms(4) have same: "epoch (service y') = observed" by (simp add: capacity_changed_since_def split: if_splits)
  have "admitted_count (service y) \<le> admitted_count (service y')"
    using inv inv' job_steps_same [OF assms(3)] observed same by (simp add: job_inv_def counted_def same_service_def)
  with full job_steps_same [OF assms(3)] have "maximum_jobs (capacity (service y')) \<le> admitted_count (service y')"
    by (simp add: same_service_def)
  with same show ?thesis by (auto simp: submit_def)
qed

lemma no_missed_capacity_witness:
  "submit 9 (service demo_full) \<in> {(Inl (Closed 9), service demo_full), (Inl (Saturated 9 (epoch_initial 3)), service demo_full)}"
proof -
  have "submit 9 (service demo_full) = (Inl (Saturated 9 (epoch_initial 3)), service demo_full)"
    by (simp add: demo_full_def submit_def job_service_new_def admitted_count_def)
  moreover have "capacity_changed_since (epoch_initial 3) (service demo_full) = Inr False"
    by (simp add: demo_full_def capacity_changed_since_def belongs_to_def job_service_new_def epoch_initial_def)
  ultimately show ?thesis using no_missed_capacity [OF demo_jobs_reachable(2)] by blast
qed

text \<open>
  After a shutdown only abandoned running jobs are left, and when the last worker has finished or
  dropped its guard the service is drained.
\<close>

theorem shutdown_drains:
  assumes "job_reachable y" and "\<not> accepting (service y)"
  shows "queue (service y) = [] \<and> (\<forall>j. bt_get (active_jobs (service y)) j \<in> {None, Some AbandonedRunning})
    \<and> (guards y = [] \<longrightarrow> is_drained (service y))"
proof -
  have inv: "job_inv y" by (rule jobs.reachable_inv [OF assms(1)])
  from reachable_closed [OF assms(1)] assms(2) have closed: "queue (service y) = []"
    "\<And>j st. bt_get (active_jobs (service y)) j = Some st \<Longrightarrow> st = AbandonedRunning" by (auto simp: closed_ok_def)
  have "active_jobs (service y) = []" if "guards y = []"
    using inv closed(2) that unfolding bt_Nil_iff job_inv_def guarded_def
    by (metis empty_iff empty_set is_running.simps(2) not_Some_eq)
  moreover have "bt_get (active_jobs (service y)) j \<in> {None, Some AbandonedRunning}" for j
    using closed(2) [of j] by (cases "bt_get (active_jobs (service y)) j") auto
  ultimately show ?thesis using closed(1) by (simp add: is_drained_def)
qed

lemma shutdown_drains_witness:
  "\<exists>s. shutdown_jobs (service demo_start) = (([], []), s) \<and> is_drained s"
proof -
  obtain s where s: "shutdown_jobs (service demo_start) = (([], []), s)" "\<not> accepting s"
    by (simp add: shutdown_jobs_def demo_start_def job_service_new_def)
  let ?y = "demo_start\<lparr>service := s, returned := returned demo_start @ queue (service demo_start),
    finished := finished demo_start @ done_jobs (service demo_start)\<rparr>"
  have "job_reachable ?y" by (rule reachable_step [OF demo_jobs_reachable(1) job_shutdown [OF s(1)]])
  from shutdown_drains [OF this] s show ?thesis by (simp add: demo_start_def)
qed

end
