(* ===== verification/Retirement.thy ===== *)
theory Retirement
  imports Btree_Map
begin

text \<open>
  The service that retires resources on cleanup workers (\<^verbatim>\<open>nocter-blocking-runtime/src/retirement.rs\<close>,
  \<open>identity.rs\<close>). A permit reserves a slot before the resource exists, an owner holds the resource, and a
  retired resource is queued, claimed by a worker and destroyed. Every operation holds the lock of the
  service; the panics of the sources are the result \<open>None\<close>.
\<close>

section \<open>Identities\<close>

datatype retirement_id = RetirementId (retirement_service_of: u64) (retirement_sequence: u64)

instantiation retirement_id :: linorder
begin

definition less_eq_retirement_id :: "retirement_id \<Rightarrow> retirement_id \<Rightarrow> bool" where
  "less_eq_retirement_id a b \<longleftrightarrow> retirement_service_of a < retirement_service_of b
     \<or> retirement_service_of a = retirement_service_of b \<and> retirement_sequence a \<le> retirement_sequence b"

definition less_retirement_id :: "retirement_id \<Rightarrow> retirement_id \<Rightarrow> bool" where
  "less_retirement_id a b \<longleftrightarrow> retirement_service_of a < retirement_service_of b
     \<or> retirement_service_of a = retirement_service_of b \<and> retirement_sequence a < retirement_sequence b"

instance
  by standard (auto simp: less_eq_retirement_id_def less_retirement_id_def retirement_id.expand)

end

record retirement_epoch =
  repoch_service :: u64
  repoch_sequence :: u64

definition repoch_initial :: "u64 \<Rightarrow> retirement_epoch" where
  "repoch_initial ident = \<lparr>repoch_service = ident, repoch_sequence = 0\<rparr>"

definition repoch_belongs_to :: "retirement_epoch \<Rightarrow> u64 \<Rightarrow> bool" where
  "repoch_belongs_to e ident \<longleftrightarrow> repoch_service e = ident"

text \<open>\<open>u64::try_from\<close> of the number of releases, then \<open>checked_add\<close>.\<close>

definition can_cover_releases :: "retirement_epoch \<Rightarrow> nat \<Rightarrow> bool" where
  "can_cover_releases e releases \<longleftrightarrow>
     releases < 2 ^ 64 \<and> checked_add (repoch_sequence e) (word_of_nat releases) \<noteq> None"

text \<open>The panic of \<open>expect\<close> is \<open>None\<close>.\<close>

definition repoch_advance :: "retirement_epoch \<Rightarrow> retirement_epoch option" where
  "repoch_advance e = map_option (\<lambda>n. e\<lparr>repoch_sequence := n\<rparr>) (checked_add (repoch_sequence e) 1)"

section \<open>State\<close>

record retirement_capacity =
  cleanup_workers :: nat
  maximum_resources :: nat

datatype retirement_error =
    NoWorkers
  | ResourceCapacityBelowWorkers nat nat
  | ForeignRetirementEpoch retirement_epoch
  | RetirementIdentityExhausted
  | UnknownRetirement retirement_id
  | InvalidRetirementState retirement_id

datatype reserve_error = ReserveClosed | ReserveSaturated retirement_epoch | ReserveIdentityExhausted

definition retirement_capacity_new :: "nat \<Rightarrow> nat \<Rightarrow> retirement_error + retirement_capacity" where
  "retirement_capacity_new w m =
     (if w = 0 then Inl NoWorkers
      else if m < w then Inl (ResourceCapacityBelowWorkers w m)
      else Inr \<lparr>cleanup_workers = w, maximum_resources = m\<rparr>)"

datatype active_retirement = RetirementRunning | DetachedRunning | RetirementCompleted

datatype retirement_status = RetirementQueuedStatus | RetirementRunningStatus | RetirementCompletedStatus

record 'r retirement_state =
  retirement_identity :: u64
  retirement_cap :: retirement_capacity
  accepting_permits :: bool
  reserved :: nat
  unobserved_running :: nat
  next_retirement :: u64
  retirement_capacity_epoch :: retirement_epoch
  retirement_queue :: "(retirement_id option \<times> 'r) list"
  active_retirements :: "(retirement_id, active_retirement) btree_map"
  wakeups :: nat

definition retirement_new :: "u64 \<Rightarrow> retirement_capacity \<Rightarrow> 'r retirement_state" where
  "retirement_new ident c = \<lparr>retirement_identity = ident, retirement_cap = c, accepting_permits = True, reserved = 0,
     unobserved_running = 0, next_retirement = 0, retirement_capacity_epoch = repoch_initial ident,
     retirement_queue = [], active_retirements = [], wakeups = 0\<rparr>"

definition wake :: "'r retirement_state \<Rightarrow> 'r retirement_state" where
  "wake s = s\<lparr>wakeups := wakeups s + 1\<rparr>"

definition retirements_running :: "'r retirement_state \<Rightarrow> nat" where
  "retirements_running s =
     unobserved_running s + length (filter (\<lambda>(_, st). st \<noteq> RetirementCompleted) (active_retirements s))"

record retirement_snapshot =
  rs_accepting :: bool
  rs_reserved :: nat
  rs_queued :: nat
  rs_running :: nat
  rs_completed :: nat
  rs_epoch :: retirement_epoch

definition retirement_snapshot_of :: "'r retirement_state \<Rightarrow> retirement_snapshot" where
  "retirement_snapshot_of s = \<lparr>rs_accepting = accepting_permits s, rs_reserved = reserved s,
     rs_queued = length (retirement_queue s), rs_running = retirements_running s,
     rs_completed = length (filter (\<lambda>(_, st). st = RetirementCompleted) (active_retirements s)),
     rs_epoch = retirement_capacity_epoch s\<rparr>"

definition retirement_drained :: "retirement_snapshot \<Rightarrow> bool" where
  "retirement_drained p \<longleftrightarrow> rs_reserved p = 0"

text \<open>\<open>reserved\<close> is a \<open>usize\<close>; subtracting from zero panics in a debug build.\<close>

definition release_reservation :: "'r retirement_state \<Rightarrow> 'r retirement_state option" where
  "release_reservation s =
     (if reserved s = 0 then None
      else map_option (\<lambda>e. s\<lparr>reserved := reserved s - 1, retirement_capacity_epoch := e\<rparr>)
        (repoch_advance (retirement_capacity_epoch s)))"

section \<open>Operations of the service\<close>

definition reserve :: "'r retirement_state \<Rightarrow> (reserve_error + unit) \<times> 'r retirement_state" where
  "reserve s =
     (if \<not> accepting_permits s then (Inl ReserveClosed, s)
      else if reserved s = maximum_resources (retirement_cap s)
      then (Inl (ReserveSaturated (retirement_capacity_epoch s)), s)
      else if \<not> can_cover_releases (retirement_capacity_epoch s) (reserved s + 1)
      then (Inl ReserveIdentityExhausted, s)
      else (Inr (), s\<lparr>reserved := reserved s + 1\<rparr>))"

definition retirement_changed_since :: "retirement_epoch \<Rightarrow> 'r retirement_state \<Rightarrow> retirement_error + bool" where
  "retirement_changed_since observed s =
     (if \<not> repoch_belongs_to observed (retirement_identity s) then Inl (ForeignRetirementEpoch observed)
      else Inr (retirement_capacity_epoch s \<noteq> observed))"

definition queued_as :: "retirement_id \<Rightarrow> 'r retirement_state \<Rightarrow> bool" where
  "queued_as r s \<longleftrightarrow> list_ex (\<lambda>(ident, _). ident = Some r) (retirement_queue s)"

definition retirement_status_of :: "retirement_id \<Rightarrow> 'r retirement_state \<Rightarrow> retirement_status option" where
  "retirement_status_of r s =
     (if queued_as r s then Some RetirementQueuedStatus
      else
        (case bt_get (active_retirements s) r of
           Some RetirementRunning \<Rightarrow> Some RetirementRunningStatus
         | Some RetirementCompleted \<Rightarrow> Some RetirementCompletedStatus
         | _ \<Rightarrow> None))"

definition consume_retirement ::
  "retirement_id \<Rightarrow> 'r retirement_state \<Rightarrow> ((retirement_error + unit) \<times> 'r retirement_state) option" where
  "consume_retirement r s =
     (if bt_get (active_retirements s) r \<noteq> Some RetirementCompleted
      then Some (Inl (if bt_contains (active_retirements s) r \<or> queued_as r s
                      then InvalidRetirementState r else UnknownRetirement r), s)
      else map_option (\<lambda>s. (Inr (), wake s))
        (release_reservation (s\<lparr>active_retirements := bt_remove r (active_retirements s)\<rparr>)))"

definition detach_retirement ::
  "retirement_id \<Rightarrow> 'r retirement_state \<Rightarrow> ((retirement_error + unit) \<times> 'r retirement_state) option" where
  "detach_retirement r s =
     (case position (\<lambda>(ident, _). ident = Some r) (retirement_queue s) of
        Some i \<Rightarrow>
          Some (Inr (), s\<lparr>retirement_queue := (retirement_queue s)[i := (None, snd (retirement_queue s ! i))]\<rparr>)
      | None \<Rightarrow>
          (case bt_get (active_retirements s) r of
             Some RetirementRunning \<Rightarrow>
               Some (Inr (), s\<lparr>active_retirements := bt_insert r DetachedRunning (active_retirements s)\<rparr>)
           | Some RetirementCompleted \<Rightarrow>
               map_option (\<lambda>s. (Inr (), wake s))
                 (release_reservation (s\<lparr>active_retirements := bt_remove r (active_retirements s)\<rparr>))
           | _ \<Rightarrow> Some (Inl (UnknownRetirement r), s)))"

text \<open>The loop of \<open>detach_all\<close> over the active identities; the flag is \<open>changed\<close>.\<close>

fun detach_identities ::
  "retirement_id list \<Rightarrow> bool \<Rightarrow> 'r retirement_state \<Rightarrow> (bool \<times> 'r retirement_state) option" where
  "detach_identities [] changed s = Some (changed, s)"
| "detach_identities (r # rest) changed s =
     (case bt_get (active_retirements s) r of
        Some RetirementRunning \<Rightarrow>
          detach_identities rest True (s\<lparr>active_retirements := bt_insert r DetachedRunning (active_retirements s)\<rparr>)
      | Some RetirementCompleted \<Rightarrow>
          Option.bind (release_reservation (s\<lparr>active_retirements := bt_remove r (active_retirements s)\<rparr>))
            (detach_identities rest True)
      | _ \<Rightarrow> detach_identities rest changed s)"

definition detach_all :: "'r retirement_state \<Rightarrow> 'r retirement_state option" where
  "detach_all s =
     (let changed = list_ex (\<lambda>(ident, _). ident \<noteq> None) (retirement_queue s);
          s = s\<lparr>retirement_queue := map (\<lambda>(_, resource). (None, resource)) (retirement_queue s)\<rparr> in
      map_option (\<lambda>(changed, s). if changed then wake s else s)
        (detach_identities (map fst (active_retirements s)) changed s))"

text \<open>The claimed resource is the guard of its cleanup worker.\<close>

definition claim_retirement ::
  "'r retirement_state \<Rightarrow> (retirement_id option \<times> 'r) option \<times> 'r retirement_state" where
  "claim_retirement s =
     (if retirements_running s = cleanup_workers (retirement_cap s) then (None, s)
      else
        (case retirement_queue s of
           [] \<Rightarrow> (None, s)
         | (ident, resource) # rest \<Rightarrow>
             let s = s\<lparr>retirement_queue := rest\<rparr> in
             (Some (ident, resource),
              case ident of
                Some r \<Rightarrow> s\<lparr>active_retirements := bt_insert r RetirementRunning (active_retirements s)\<rparr>
              | None \<Rightarrow> s\<lparr>unobserved_running := unobserved_running s + 1\<rparr>)))"

definition close_admission :: "'r retirement_state \<Rightarrow> 'r retirement_state" where
  "close_admission s = (if \<not> accepting_permits s then s else wake (s\<lparr>accepting_permits := False\<rparr>))"

section \<open>Permits, owners and guards\<close>

definition drop_permit :: "'r retirement_state \<Rightarrow> 'r retirement_state option" where
  "drop_permit s = map_option wake (release_reservation s)"

definition retire :: "'r \<Rightarrow> 'r retirement_state \<Rightarrow> (retirement_error + retirement_id) \<times> 'r retirement_state" where
  "retire resource s =
     (case checked_add (next_retirement s) 1 of
        Some n \<Rightarrow>
          let r = RetirementId (retirement_identity s) (next_retirement s) in
          (Inr r, wake (s\<lparr>next_retirement := n, retirement_queue := retirement_queue s @ [(Some r, resource)]\<rparr>))
      | None \<Rightarrow>
          (Inl RetirementIdentityExhausted, wake (s\<lparr>retirement_queue := retirement_queue s @ [(None, resource)]\<rparr>)))"

definition drop_owner :: "'r \<Rightarrow> 'r retirement_state \<Rightarrow> 'r retirement_state" where
  "drop_owner resource s = wake (s\<lparr>retirement_queue := retirement_queue s @ [(None, resource)]\<rparr>)"

text \<open>Finishing or dropping the guard destroys the resource, then runs this; \<open>None\<close> is \<open>unreachable!\<close>.\<close>

definition finish_retirement :: "retirement_id option \<Rightarrow> 'r retirement_state \<Rightarrow> 'r retirement_state option" where
  "finish_retirement ident s =
     (case ident of
        Some r \<Rightarrow>
          (case bt_get (active_retirements s) r of
             Some RetirementRunning \<Rightarrow>
               Some (wake (s\<lparr>active_retirements := bt_insert r RetirementCompleted (active_retirements s)\<rparr>))
           | Some DetachedRunning \<Rightarrow>
               map_option wake (release_reservation (s\<lparr>active_retirements := bt_remove r (active_retirements s)\<rparr>))
           | _ \<Rightarrow> None)
      | None \<Rightarrow>
          if unobserved_running s = 0 then None
          else map_option wake (release_reservation (s\<lparr>unobserved_running := unobserved_running s - 1\<rparr>)))"

end
