(* ===== verification/Retirement_Correct.thy ===== *)
theory Retirement_Correct
  imports Retirement Btree_Multiset
begin

text \<open>
  The retirement service together with the permits, owners and worker guards that clients hold, in any
  interleaving. Every reservation is accounted for, every attached resource is destroyed exactly once at
  most, and no internal assertion of the service can fail.
\<close>

section \<open>The system\<close>

record 'r retirement_system =
  rsvc :: "'r retirement_state"
  permits :: nat
  owners :: "'r list"
  held :: "(retirement_id option \<times> 'r) list"
  attached :: "'r list"
  destroyed :: "'r list"

inductive retirement_step :: "'r retirement_system \<Rightarrow> 'r retirement_system \<Rightarrow> bool" where
  step_reserve: "reserve (rsvc z) = (Inr (), s) \<Longrightarrow> retirement_step z (z\<lparr>rsvc := s, permits := permits z + 1\<rparr>)"
| step_refuse: "reserve (rsvc z) = (Inl x, s) \<Longrightarrow> retirement_step z (z\<lparr>rsvc := s\<rparr>)"
| step_drop_permit: "permits z > 0 \<Longrightarrow> drop_permit (rsvc z) = Some s \<Longrightarrow>
    retirement_step z (z\<lparr>rsvc := s, permits := permits z - 1\<rparr>)"
| step_attach: "permits z > 0 \<Longrightarrow>
    retirement_step z (z\<lparr>permits := permits z - 1, owners := r # owners z, attached := r # attached z\<rparr>)"
| step_retire: "r \<in> set (owners z) \<Longrightarrow> retire r (rsvc z) = (x, s) \<Longrightarrow>
    retirement_step z (z\<lparr>rsvc := s, owners := remove1 r (owners z)\<rparr>)"
| step_drop_owner: "r \<in> set (owners z) \<Longrightarrow>
    retirement_step z (z\<lparr>rsvc := drop_owner r (rsvc z), owners := remove1 r (owners z)\<rparr>)"
| step_claim: "claim_retirement (rsvc z) = (Some g, s) \<Longrightarrow> retirement_step z (z\<lparr>rsvc := s, held := g # held z\<rparr>)"
| step_no_claim: "claim_retirement (rsvc z) = (None, s) \<Longrightarrow> retirement_step z (z\<lparr>rsvc := s\<rparr>)"
| step_finish: "(ident, r) \<in> set (held z) \<Longrightarrow> finish_retirement ident (rsvc z) = Some s \<Longrightarrow>
    retirement_step z (z\<lparr>rsvc := s, held := remove1 (ident, r) (held z), destroyed := r # destroyed z\<rparr>)"
| step_consume: "consume_retirement i (rsvc z) = Some (x, s) \<Longrightarrow> retirement_step z (z\<lparr>rsvc := s\<rparr>)"
| step_detach: "detach_retirement i (rsvc z) = Some (x, s) \<Longrightarrow> retirement_step z (z\<lparr>rsvc := s\<rparr>)"
| step_detach_all: "detach_all (rsvc z) = Some s \<Longrightarrow> retirement_step z (z\<lparr>rsvc := s\<rparr>)"
| step_close: "retirement_step z (z\<lparr>rsvc := close_admission (rsvc z)\<rparr>)"

definition retirement_start :: "'r retirement_system \<Rightarrow> bool" where
  "retirement_start z \<longleftrightarrow> (\<exists>ident w m c. retirement_capacity_new w m = Inr c
     \<and> z = \<lparr>rsvc = retirement_new ident c, permits = 0, owners = [], held = [], attached = [], destroyed = []\<rparr>)"

abbreviation retirement_reachable :: "'r retirement_system \<Rightarrow> bool" where
  "retirement_reachable \<equiv> reachable_from retirement_start retirement_step"

section \<open>The invariant\<close>

text \<open>The number of running retirements, by the entries of the active table.\<close>

definition running_entries :: "(retirement_id, active_retirement) btree_map \<Rightarrow> nat" where
  "running_entries m = length (filter (\<lambda>(_, st). st \<noteq> RetirementCompleted) m)"

definition reservations_ok :: "nat \<Rightarrow> 'r retirement_state \<Rightarrow> bool" where
  "reservations_ok outside s \<longleftrightarrow>
     reserved s = outside + length (retirement_queue s) + unobserved_running s + length (active_retirements s)
     \<and> unat (repoch_sequence (retirement_capacity_epoch s)) + reserved s < 2 ^ 64
     \<and> reserved s \<le> maximum_resources (retirement_cap s)
     \<and> unobserved_running s + running_entries (active_retirements s) \<le> cleanup_workers (retirement_cap s)"

text \<open>How often an identity is in use: queued, or in the active table.\<close>

definition uses :: "'r retirement_state \<Rightarrow> retirement_id \<Rightarrow> nat" where
  "uses s i = count_list (map fst (retirement_queue s)) (Some i) + (if bt_contains (active_retirements s) i then 1 else 0)"

definition identities_ok :: "'r retirement_state \<Rightarrow> bool" where
  "identities_ok s \<longleftrightarrow> bt_sorted (active_retirements s) \<and> (\<forall>i. uses s i \<le> 1)
     \<and> (\<forall>i. 0 < uses s i \<longrightarrow>
          retirement_service_of i = retirement_identity s \<and> retirement_sequence i < next_retirement s)"

definition guards_ok :: "(retirement_id option \<times> 'r) list \<Rightarrow> 'r retirement_state \<Rightarrow> bool" where
  "guards_ok gs s \<longleftrightarrow> count_list (map fst gs) None = unobserved_running s
     \<and> (\<forall>i. count_list (map fst gs) (Some i) =
          (if bt_get (active_retirements s) i \<in> {Some RetirementRunning, Some DetachedRunning} then 1 else 0))"

definition resources_ok :: "'r retirement_system \<Rightarrow> bool" where
  "resources_ok z \<longleftrightarrow>
     mset (attached z) = mset (owners z) + mset (map snd (retirement_queue (rsvc z))) + mset (map snd (held z)) + mset (destroyed z)"

definition retirement_inv :: "'r retirement_system \<Rightarrow> bool" where
  "retirement_inv z \<longleftrightarrow> reservations_ok (permits z + length (owners z)) (rsvc z) \<and> identities_ok (rsvc z)
     \<and> guards_ok (held z) (rsvc z) \<and> resources_ok z"

lemma retirements_running_eq: "retirements_running s = unobserved_running s + running_entries (active_retirements s)"
  by (simp add: retirements_running_def running_entries_def)

lemma wake_frame [simp]:
  "reservations_ok n (wake s) = reservations_ok n s" "identities_ok (wake s) = identities_ok s"
  "guards_ok gs (wake s) = guards_ok gs s" "retirement_queue (wake s) = retirement_queue s"
  "active_retirements (wake s) = active_retirements s"
  by (simp_all add: wake_def reservations_ok_def identities_ok_def guards_ok_def uses_def)

section \<open>The active table\<close>

lemma running_entries_mset: "running_entries m = size (filter_mset (\<lambda>(_, st). st \<noteq> RetirementCompleted) (mset m))"
  by (metis mset_filter running_entries_def size_mset)

lemma running_entries_insert_new:
  "\<not> bt_contains m k \<Longrightarrow> running_entries (bt_insert k w m) = running_entries m + (if w = RetirementCompleted then 0 else 1)"
  by (simp add: running_entries_mset mset_bt_insert)

lemma running_entries_remove: "running_entries (bt_remove k m) \<le> running_entries m"
  by (induction m) (auto simp: running_entries_def bt_remove_def)

lemma running_entries_insert_old:
  assumes "bt_sorted m" and "bt_get m k = Some v" and "v \<noteq> RetirementCompleted"
  shows "running_entries (bt_insert k w m) \<le> running_entries m"
  using assms(3) by (simp add: running_entries_mset mset_bt_insert_old [OF assms(1,2)] mset_bt_remove [OF assms(1,2)])

lemma reservations_remove:
  assumes "reservations_ok n s" and "bt_sorted (active_retirements s)" and "bt_get (active_retirements s) r = Some v"
  shows "reservations_ok (Suc n) (s\<lparr>active_retirements := bt_remove r (active_retirements s)\<rparr>)"
  using assms(1) length_bt_remove [OF assms(2,3)] running_entries_remove [of r "active_retirements s"]
  by (auto simp: reservations_ok_def)

lemma reservations_replace:
  assumes "reservations_ok n s" and "bt_sorted (active_retirements s)" and "bt_get (active_retirements s) r = Some v"
    and "v \<noteq> RetirementCompleted"
  shows "reservations_ok n (s\<lparr>active_retirements := bt_insert r w (active_retirements s)\<rparr>)"
  using assms(1) length_bt_insert_old [OF assms(2,3), of w] running_entries_insert_old [OF assms(2-4), of w]
  by (auto simp: reservations_ok_def)

lemma identities_mono:
  assumes "identities_ok s" and "bt_sorted (active_retirements t)" and "\<And>i. uses t i \<le> uses s i"
    and "retirement_identity t = retirement_identity s" and "next_retirement t = next_retirement s"
  shows "identities_ok t"
  using assms unfolding identities_ok_def by (metis le_trans order_less_le_trans)

lemma identities_remove:
  assumes "identities_ok s"
  shows "identities_ok (s\<lparr>active_retirements := bt_remove r (active_retirements s)\<rparr>)"
  using assms by (rule identities_mono) (use assms in \<open>auto simp: uses_def bt_sorted_remove identities_ok_def\<close>)

lemma identities_replace:
  assumes "identities_ok s" and "bt_get (active_retirements s) r = Some v"
  shows "identities_ok (s\<lparr>active_retirements := bt_insert r w (active_retirements s)\<rparr>)"
  using assms(1)
  by (rule identities_mono)
    (use assms in \<open>auto simp: uses_def bt_sorted_insert bt_get_insert bt_contains_def identities_ok_def\<close>)

text \<open>A reservation can always be released: the epoch has room for every one of them.\<close>

lemma retirement_release_ok:
  assumes "reservations_ok (Suc n) s"
  obtains e where "release_reservation s = Some (s\<lparr>reserved := reserved s - 1, retirement_capacity_epoch := e\<rparr>)"
    and "reservations_ok n (s\<lparr>reserved := reserved s - 1, retirement_capacity_epoch := e\<rparr>)"
proof -
  have "unat (repoch_sequence (retirement_capacity_epoch s)) + unat (1 :: u64) < 2 ^ LENGTH(64)"
    using assms by (simp add: reservations_ok_def)
  then obtain k where k: "checked_add (repoch_sequence (retirement_capacity_epoch s)) 1 = Some k"
    by (auto simp: checked_add_def)
  from checked_add_SomeD [OF k] k assms show thesis
    by (intro that [of "(retirement_capacity_epoch s)\<lparr>repoch_sequence := k\<rparr>"])
      (auto simp: release_reservation_def repoch_advance_def reservations_ok_def)
qed

lemma epoch_frame [simp]:
  "identities_ok (s\<lparr>reserved := n, retirement_capacity_epoch := e\<rparr>) = identities_ok s"
  "guards_ok gs (s\<lparr>reserved := n, retirement_capacity_epoch := e\<rparr>) = guards_ok gs s"
  by (simp_all add: identities_ok_def guards_ok_def uses_def)

section \<open>Every operation keeps the invariant\<close>

definition service_ok :: "nat \<Rightarrow> (retirement_id option \<times> 'r) list \<Rightarrow> 'r retirement_state \<Rightarrow> bool" where
  "service_ok n gs s \<longleftrightarrow> reservations_ok n s \<and> identities_ok s \<and> guards_ok gs s"

lemma service_wake [simp]: "service_ok n gs (wake s) = service_ok n gs s"
  by (simp add: service_ok_def)

lemma release_service:
  assumes "service_ok (Suc n) gs s"
  shows "\<exists>t. release_reservation s = Some t \<and> service_ok n gs t \<and> retirement_queue t = retirement_queue s
    \<and> active_retirements t = active_retirements s"
proof -
  have "reservations_ok (Suc n) s" using assms by (simp add: service_ok_def)
  then show ?thesis by (rule retirement_release_ok) (use assms in \<open>auto simp: service_ok_def\<close>)
qed

lemma reserve_ok:
  assumes "reserve s = (x, t)" and "service_ok n gs s"
  shows "(x = Inr () \<longrightarrow> service_ok (Suc n) gs t \<and> retirement_queue t = retirement_queue s) \<and> (\<forall>e. x = Inl e \<longrightarrow> t = s)"
proof -
  have "unat (repoch_sequence (retirement_capacity_epoch s)) + (reserved s + 1) < 2 ^ 64"
    if "can_cover_releases (retirement_capacity_epoch s) (reserved s + 1)"
  proof -
    have n: "unat (word_of_nat (reserved s + 1) :: u64) = reserved s + 1"
      using that by (simp add: can_cover_releases_def unat_of_nat del: of_nat_Suc)
    from that obtain c where c: "checked_add (repoch_sequence (retirement_capacity_epoch s)) (word_of_nat (reserved s + 1)) = Some c"
      by (auto simp: can_cover_releases_def)
    have "unat c < 2 ^ LENGTH(64)" by (rule unsigned_less)
    with checked_add_SomeD [OF c] n show ?thesis by simp
  qed
  with assms show ?thesis
    by (auto simp: reserve_def service_ok_def reservations_ok_def identities_ok_def guards_ok_def uses_def
        split: if_splits)
qed

lemma drop_permit_ok:
  assumes "service_ok (Suc n) gs s"
  shows "\<exists>t. drop_permit s = Some t \<and> service_ok n gs t \<and> retirement_queue t = retirement_queue s"
  using release_service [OF assms] by (auto simp: drop_permit_def)

lemma drop_owner_ok:
  "service_ok (Suc n) gs s \<Longrightarrow> service_ok n gs (drop_owner r s)
    \<and> map snd (retirement_queue (drop_owner r s)) = map snd (retirement_queue s) @ [r]"
  by (auto simp: drop_owner_def wake_def service_ok_def reservations_ok_def identities_ok_def guards_ok_def uses_def)

lemma retire_resource_ok:
  assumes "service_ok (Suc n) gs s" and "retire r s = (x, t)"
  shows "service_ok n gs t \<and> map snd (retirement_queue t) = map snd (retirement_queue s) @ [r]"
proof (cases "checked_add (next_retirement s) 1")
  case None
  with assms drop_owner_ok [OF assms(1), of r] show ?thesis by (auto simp: retire_def drop_owner_def)
next
  case (Some k)
  let ?i = "RetirementId (retirement_identity s) (next_retirement s)"
  from checked_add_SomeD [OF Some] have k: "next_retirement s < k"
    by (simp add: word_less_nat_alt)
  have fresh: "uses s ?i = 0"
    using assms(1) by (force simp: service_ok_def identities_ok_def)
  have t: "t = wake (s\<lparr>next_retirement := k, retirement_queue := retirement_queue s @ [(Some ?i, r)]\<rparr>)"
    using assms(2) by (simp add: retire_def Some Let_def)
  have uses: "uses t i = uses s i + (if i = ?i then 1 else 0)" for i
    by (auto simp: t wake_def uses_def)
  have "identities_ok t"
    using assms(1) k fresh unfolding service_ok_def identities_ok_def uses
    by (auto simp: t wake_def intro: less_trans)
  with assms show ?thesis
    by (auto simp: retire_def Some wake_def Let_def service_ok_def reservations_ok_def guards_ok_def)
qed

lemma claim_ok:
  assumes "claim_retirement s = (x, t)" and "service_ok n gs s"
  shows "case x of None \<Rightarrow> t = s
    | Some g \<Rightarrow> service_ok n (g # gs) t \<and> map snd (retirement_queue s) = snd g # map snd (retirement_queue t)"
proof (cases x)
  case None
  with assms show ?thesis by (auto simp: claim_retirement_def Let_def split: if_splits list.splits)
next
  case (Some g)
  then obtain i r where g: "x = Some (i, r)" by (cases g) auto
  from assms(1) g obtain rest where queue: "retirement_queue s = (i, r) # rest"
    and free: "retirements_running s \<noteq> cleanup_workers (retirement_cap s)"
    and t: "t = (case i of
        Some r \<Rightarrow> s\<lparr>retirement_queue := rest, active_retirements := bt_insert r RetirementRunning (active_retirements s)\<rparr>
      | None \<Rightarrow> s\<lparr>retirement_queue := rest, unobserved_running := unobserved_running s + 1\<rparr>)"
    by (auto simp: claim_retirement_def Let_def split: if_splits list.splits option.splits)
  show ?thesis
  proof (cases i)
    case None
    with assms(2) queue free t g show ?thesis
      by (auto simp: service_ok_def reservations_ok_def identities_ok_def guards_ok_def uses_def retirements_running_eq)
  next
    case (Some j)
    have sorted: "bt_sorted (active_retirements s)" using assms(2) by (simp add: service_ok_def identities_ok_def)
    have "uses s j \<le> 1" using assms(2) by (simp add: service_ok_def identities_ok_def)
    with queue Some have new: "\<not> bt_contains (active_retirements s) j"
      by (auto simp: uses_def split: if_splits)
    have uses: "uses t k = uses s k" for k
      using Some new by (auto simp: uses_def t queue bt_contains_def bt_get_insert sorted)
    have "identities_ok t"
      by (rule identities_mono [of s]) (use assms(2) Some sorted uses in \<open>auto simp: service_ok_def t bt_sorted_insert\<close>)
    moreover have "reservations_ok n t"
      using assms(2) Some free new
      by (auto simp: t service_ok_def reservations_ok_def queue length_bt_insert_new running_entries_insert_new
          retirements_running_eq)
    moreover have "guards_ok ((i, r) # gs) t"
      using assms(2) Some new by (auto simp: t service_ok_def guards_ok_def bt_get_insert sorted bt_contains_def)
    ultimately show ?thesis by (simp add: service_ok_def g queue t Some)
  qed
qed

lemma count_member: "x \<in> set xs \<Longrightarrow> 0 < count_list (map fst xs) (fst x)"
  by (induction xs) auto

lemma count_list_remove1: "count_list (map fst (remove1 x xs)) a = count_list (map fst xs) a - (if x \<in> set xs \<and> fst x = a then 1 else 0)"
proof (induction xs)
  case (Cons y ys)
  then show ?case using count_member [of x ys] by auto
qed simp

lemma finish_ok:
  assumes "(i, r) \<in> set gs" and "service_ok n gs s"
  shows "\<exists>t. finish_retirement i s = Some t \<and> service_ok n (remove1 (i, r) gs) t \<and> retirement_queue t = retirement_queue s"
proof (cases i)
  case None
  let ?s = "s\<lparr>unobserved_running := unobserved_running s - 1\<rparr>"
  have some: "0 < unobserved_running s"
    using count_member [OF assms(1)] assms(2) None by (simp add: service_ok_def guards_ok_def)
  then have "service_ok (Suc n) (remove1 (i, r) gs) ?s"
    using assms None
    by (auto simp: service_ok_def reservations_ok_def identities_ok_def guards_ok_def uses_def count_list_remove1)
  from release_service [OF this] some None show ?thesis by (auto simp: finish_retirement_def)
next
  case (Some j)
  have sorted: "bt_sorted (active_retirements s)" using assms(2) by (simp add: service_ok_def identities_ok_def)
  have "0 < count_list (map fst gs) (Some j)" using count_member [OF assms(1)] Some by simp
  with assms(2) consider (running) "bt_get (active_retirements s) j = Some RetirementRunning"
    | (detached) "bt_get (active_retirements s) j = Some DetachedRunning"
    by (auto simp: service_ok_def guards_ok_def split: if_splits)
  then show ?thesis
  proof cases
    case running
    let ?t = "s\<lparr>active_retirements := bt_insert j RetirementCompleted (active_retirements s)\<rparr>"
    have "service_ok n (remove1 (i, r) gs) ?t"
      using assms Some running sorted reservations_replace [of n s j] identities_replace [of s j]
      by (auto simp: service_ok_def guards_ok_def count_list_remove1 bt_get_insert)
    with running Some show ?thesis by (simp add: finish_retirement_def)
  next
    case detached
    let ?s = "s\<lparr>active_retirements := bt_remove j (active_retirements s)\<rparr>"
    have "service_ok (Suc n) (remove1 (i, r) gs) ?s"
      using assms Some detached sorted reservations_remove [of n s j] identities_remove [of s j]
      by (auto simp: service_ok_def guards_ok_def count_list_remove1)
    from release_service [OF this] detached Some show ?thesis by (auto simp: finish_retirement_def)
  qed
qed

lemma completed_removed:
  assumes "service_ok n gs s" and "bt_get (active_retirements s) r = Some RetirementCompleted"
  shows "service_ok (Suc n) gs (s\<lparr>active_retirements := bt_remove r (active_retirements s)\<rparr>)"
  using assms reservations_remove [of n s r] identities_remove [of s r]
  by (auto simp: service_ok_def guards_ok_def identities_ok_def)

lemma running_detached:
  assumes "service_ok n gs s" and "bt_get (active_retirements s) r = Some RetirementRunning"
  shows "service_ok n gs (s\<lparr>active_retirements := bt_insert r DetachedRunning (active_retirements s)\<rparr>)"
  using assms reservations_replace [of n s r] identities_replace [of s r]
  by (auto simp: service_ok_def guards_ok_def identities_ok_def bt_get_insert)

lemma consume_ok:
  assumes "service_ok n gs s"
  shows "\<exists>x t. consume_retirement r s = Some (x, t) \<and> service_ok n gs t \<and> retirement_queue t = retirement_queue s"
proof (cases "bt_get (active_retirements s) r = Some RetirementCompleted")
  case True
  from release_service [OF completed_removed [OF assms True]] True show ?thesis
    by (auto simp: consume_retirement_def)
qed (use assms in \<open>auto simp: consume_retirement_def\<close>)

lemma count_list_clear: "count_list (xs[i := None]) (Some j) \<le> count_list xs (Some j)"
proof (induction xs arbitrary: i)
  case (Cons x xs)
  then show ?case by (cases i) (auto intro: le_SucI)
qed simp

lemma retirement_detach_ok:
  assumes "service_ok n gs s"
  shows "\<exists>x t. detach_retirement r s = Some (x, t) \<and> service_ok n gs t
    \<and> map snd (retirement_queue t) = map snd (retirement_queue s)"
proof (cases "position (\<lambda>(ident, _). ident = Some r) (retirement_queue s)")
  case (Some i)
  let ?t = "s\<lparr>retirement_queue := (retirement_queue s)[i := (None, snd (retirement_queue s ! i))]\<rparr>"
  have "identities_ok ?t"
    by (rule identities_mono [of s])
      (use assms count_list_clear in \<open>auto simp: service_ok_def identities_ok_def uses_def map_update\<close>)
  with assms have "service_ok n gs ?t" by (auto simp: service_ok_def reservations_ok_def guards_ok_def)
  moreover have "map snd (retirement_queue ?t) = map snd (retirement_queue s)"
    using position_SomeD [OF Some] by (simp add: map_update list_update_same_conv)
  ultimately show ?thesis by (simp add: detach_retirement_def Some)
next
  case None
  then show ?thesis
  proof (cases "bt_get (active_retirements s) r")
    case (Some st)
    then show ?thesis
    proof (cases st)
      case RetirementRunning
      with running_detached [OF assms] Some None show ?thesis by (simp add: detach_retirement_def)
    next
      case RetirementCompleted
      with release_service [OF completed_removed [OF assms]] Some None show ?thesis
        by (fastforce simp: detach_retirement_def)
    qed (use assms Some None in \<open>simp add: detach_retirement_def\<close>)
  qed (use assms None in \<open>simp add: detach_retirement_def\<close>)
qed

text \<open>What detaching leaves of an entry.\<close>

fun detached_state :: "active_retirement option \<Rightarrow> active_retirement option" where
  "detached_state (Some RetirementCompleted) = None"
| "detached_state (Some st) = Some DetachedRunning"
| "detached_state None = None"

lemma detached_state_idem [simp]: "detached_state (detached_state st) = detached_state st"
  by (cases st rule: detached_state.cases) auto

lemma detach_identities_ok:
  "service_ok n gs s \<Longrightarrow> \<exists>c t. detach_identities rs changed s = Some (c, t) \<and> service_ok n gs t
    \<and> retirement_queue t = retirement_queue s
    \<and> (\<forall>i. bt_get (active_retirements t) i =
         (if i \<in> set rs then detached_state (bt_get (active_retirements s) i) else bt_get (active_retirements s) i))"
proof (induction rs arbitrary: changed s)
  case (Cons r rs)
  have sorted: "bt_sorted (active_retirements s)" using Cons.prems by (simp add: service_ok_def identities_ok_def)
  consider (running) "bt_get (active_retirements s) r = Some RetirementRunning"
    | (completed) "bt_get (active_retirements s) r = Some RetirementCompleted"
    | (other) "bt_get (active_retirements s) r \<in> {None, Some DetachedRunning}"
    by (cases "bt_get (active_retirements s) r" rule: detached_state.cases) auto
  then show ?case
  proof cases
    case running
    from Cons.IH [OF running_detached [OF Cons.prems running], of True] running show ?thesis
      by (auto simp: bt_get_insert sorted)
  next
    case completed
    from release_service [OF completed_removed [OF Cons.prems completed]] obtain t where
      t: "release_reservation (s\<lparr>active_retirements := bt_remove r (active_retirements s)\<rparr>) = Some t" "service_ok n gs t"
        "retirement_queue t = retirement_queue s" "active_retirements t = bt_remove r (active_retirements s)"
      by auto
    from Cons.IH [OF t(2), of True] completed t show ?thesis by auto
  next
    case other
    with Cons.IH [OF Cons.prems, of changed] show ?thesis by auto
  qed
qed simp

lemma detach_all_ok:
  assumes "service_ok n gs s"
  shows "\<exists>t. detach_all s = Some t \<and> service_ok n gs t
    \<and> map snd (retirement_queue t) = map snd (retirement_queue s)
    \<and> (\<forall>g \<in> set (retirement_queue t). fst g = None)
    \<and> (\<forall>i. bt_get (active_retirements t) i = detached_state (bt_get (active_retirements s) i))"
proof -
  let ?s = "s\<lparr>retirement_queue := map (\<lambda>(_, resource). (None, resource)) (retirement_queue s)\<rparr>"
  have "count_list (map fst (retirement_queue ?s)) (Some i) = 0" for i
    by (auto simp: count_list_0_iff)
  then have "identities_ok ?s"
    by (intro identities_mono [of s ?s]) (use assms in \<open>auto simp: service_ok_def identities_ok_def uses_def simp del: retirement_state.simps(9) map_map\<close>)
  with assms have "service_ok n gs ?s" by (auto simp: service_ok_def reservations_ok_def guards_ok_def)
  from detach_identities_ok [OF this, of "map fst (active_retirements s)" "list_ex (\<lambda>(ident, _). ident \<noteq> None) (retirement_queue s)"]
  obtain c t where t: "detach_identities (map fst (active_retirements s)) (list_ex (\<lambda>(ident, _). ident \<noteq> None) (retirement_queue s)) ?s = Some (c, t)"
      "service_ok n gs t" "retirement_queue t = retirement_queue ?s"
      "\<And>i. bt_get (active_retirements t) i = (if i \<in> fst ` set (active_retirements s)
          then detached_state (bt_get (active_retirements s) i) else bt_get (active_retirements s) i)"
    by auto
  have "bt_get (active_retirements t) i = detached_state (bt_get (active_retirements s) i)" for i
    using t(4) [of i] bt_contains_iff [of "active_retirements s" i] by (auto simp: bt_contains_def)
  moreover have "map snd (retirement_queue ?s) = map snd (retirement_queue s)" by (auto simp: case_prod_beta)
  ultimately show ?thesis
    using t by (auto simp: detach_all_def Let_def)
qed

lemma close_ok: "service_ok n gs s \<Longrightarrow> service_ok n gs (close_admission s) \<and> retirement_queue (close_admission s) = retirement_queue s"
  by (auto simp: close_admission_def wake_def service_ok_def reservations_ok_def identities_ok_def guards_ok_def uses_def)

section \<open>The system\<close>

lemma retirement_inv_alt: "retirement_inv z \<longleftrightarrow> service_ok (permits z + length (owners z)) (held z) (rsvc z) \<and> resources_ok z"
  by (auto simp: retirement_inv_def service_ok_def)

lemma retirement_start_inv: "retirement_start z \<Longrightarrow> retirement_inv z"
  by (auto simp: retirement_start_def retirement_inv_def reservations_ok_def identities_ok_def guards_ok_def
      resources_ok_def uses_def retirement_new_def repoch_initial_def running_entries_def)

lemma mset_map_remove1: "x \<in> set xs \<Longrightarrow> mset (map f xs) = add_mset (f x) (mset (map f (remove1 x xs)))"
  by (induction xs) auto

lemma length_remove1_Suc: "x \<in> set xs \<Longrightarrow> length xs = Suc (length (remove1 x xs))"
  by (induction xs) auto

lemma retirement_step_inv:
  assumes "retirement_inv z" and "retirement_step z z'"
  shows "retirement_inv z'"
  using assms(2,1)
proof (cases rule: retirement_step.cases)
  case (step_reserve s)
  with assms(1) reserve_ok [of "rsvc z" "Inr ()" s] show ?thesis
    by (auto simp: retirement_inv_alt resources_ok_def)
next
  case (step_refuse x s)
  with assms(1) reserve_ok [of "rsvc z" "Inl x" s] show ?thesis
    by (auto simp: retirement_inv_alt resources_ok_def)
next
  case (step_drop_permit s)
  then obtain n where n: "permits z = Suc n" by (auto simp: gr0_conv_Suc)
  with step_drop_permit assms(1) drop_permit_ok [of "n + length (owners z)" "held z" "rsvc z"] show ?thesis
    by (auto simp: retirement_inv_alt resources_ok_def)
next
  case (step_attach r)
  then obtain n where n: "permits z = Suc n" by (auto simp: gr0_conv_Suc)
  with step_attach assms(1) show ?thesis by (auto simp: retirement_inv_alt resources_ok_def)
next
  case (step_retire r x s)
  with assms(1) retire_resource_ok [of "permits z + length (remove1 r (owners z))" "held z" "rsvc z" r x s]
    length_remove1_Suc [OF step_retire(2)] show ?thesis
    by (auto simp: retirement_inv_alt resources_ok_def)
next
  case (step_drop_owner r)
  with assms(1) drop_owner_ok [of "permits z + length (remove1 r (owners z))" "held z" "rsvc z" r]
    length_remove1_Suc [OF step_drop_owner(2)] show ?thesis
    by (auto simp: retirement_inv_alt resources_ok_def)
next
  case (step_claim g s)
  with assms(1) claim_ok [OF step_claim(2), of "permits z + length (owners z)" "held z"] show ?thesis
    by (auto simp: retirement_inv_alt resources_ok_def simp del: mset_map)
next
  case (step_no_claim s)
  with assms(1) claim_ok [OF step_no_claim(2), of "permits z + length (owners z)" "held z"] show ?thesis
    by (auto simp: retirement_inv_alt resources_ok_def)
next
  case (step_finish i r s)
  then have "mset (map snd (held z)) = add_mset r (mset (map snd (remove1 (i, r) (held z))))"
    using mset_map_remove1 [of "(i, r)" "held z" snd] by simp
  with step_finish assms(1) finish_ok [OF step_finish(2), of "permits z + length (owners z)" "rsvc z"] show ?thesis
    by (auto simp: retirement_inv_alt resources_ok_def)
next
  case (step_consume i x s)
  with assms(1) consume_ok [of "permits z + length (owners z)" "held z" "rsvc z" i] show ?thesis
    by (auto simp: retirement_inv_alt resources_ok_def)
next
  case (step_detach i x s)
  with assms(1) retirement_detach_ok [of "permits z + length (owners z)" "held z" "rsvc z" i] show ?thesis
    by (auto simp: retirement_inv_alt resources_ok_def simp del: mset_map)
next
  case (step_detach_all s)
  with assms(1) detach_all_ok [of "permits z + length (owners z)" "held z" "rsvc z"] show ?thesis
    by (auto simp: retirement_inv_alt resources_ok_def simp del: mset_map)
next
  case step_close
  with assms(1) close_ok [of "permits z + length (owners z)" "held z" "rsvc z"] show ?thesis
    by (auto simp: retirement_inv_alt resources_ok_def)
qed

interpretation retirements: transition_system retirement_start retirement_step retirement_inv
  by unfold_locales (fact retirement_start_inv, erule retirement_step_inv)

section \<open>Properties\<close>

definition demo_retirement :: "nat retirement_system" where
  "demo_retirement = \<lparr>rsvc = retirement_new 7 \<lparr>cleanup_workers = 1, maximum_resources = 2\<rparr>, permits = 0,
     owners = [], held = [], attached = [], destroyed = []\<rparr>"

definition demo_claimed :: "nat retirement_system" where
  "demo_claimed = \<lparr>rsvc = (rsvc demo_retirement)\<lparr>reserved := 1, next_retirement := 1, wakeups := 1,
       active_retirements := [(RetirementId 7 0, RetirementRunning)]\<rparr>, permits = 0, owners = [],
     held = [(Some (RetirementId 7 0), 42)], attached = [42], destroyed = []\<rparr>"

lemma demo_retirement_reachable:
  shows "retirement_reachable demo_retirement" and "retirement_reachable demo_claimed"
proof -
  let ?s0 = "rsvc demo_retirement"
  let ?s1 = "?s0\<lparr>reserved := 1\<rparr>"
  let ?s2 = "?s1\<lparr>next_retirement := 1, retirement_queue := [(Some (RetirementId 7 0), 42)], wakeups := 1\<rparr>"
  let ?z1 = "demo_retirement\<lparr>rsvc := ?s1, permits := 1\<rparr>"
  let ?z2 = "?z1\<lparr>permits := 0, owners := [42], attached := [42]\<rparr>"
  let ?z3 = "?z2\<lparr>rsvc := ?s2, owners := []\<rparr>"
  have runs: "reserve ?s0 = (Inr (), ?s1)" "retire 42 ?s1 = (Inr (RetirementId 7 0), ?s2)"
    "claim_retirement ?s2 = (Some (Some (RetirementId 7 0), 42), rsvc demo_claimed)"
    by (simp_all add: reserve_def retire_def claim_retirement_def demo_retirement_def demo_claimed_def
        retirement_new_def repoch_initial_def can_cover_releases_def checked_add_def retirements_running_def wake_def Let_def)
  show start: "retirement_reachable demo_retirement"
    unfolding demo_retirement_def
    by (rule reachable_start, unfold retirement_start_def)
      (rule exI [of _ 7], rule exI [of _ 1], rule exI [of _ 2], simp add: retirement_capacity_new_def)
  have "retirement_step demo_retirement ?z1"
    using step_reserve [of demo_retirement] runs(1) by (simp add: demo_retirement_def)
  moreover have "retirement_step ?z1 ?z2" using step_attach [of ?z1 42] by (simp add: demo_retirement_def)
  moreover have "retirement_step ?z2 ?z3" using step_retire [of 42 ?z2] runs(2) by simp
  moreover have "retirement_step ?z3 demo_claimed"
    using step_claim [of ?z3] runs(3) by (simp add: demo_claimed_def demo_retirement_def)
  ultimately show "retirement_reachable demo_claimed" using start by (meson reachable_step)
qed

text \<open>
  C16: In every interleaving each reservation is accounted for by a permit, an owner, a queued or an active
  retirement; reservations and running cleanups keep their bounds; and every attached resource is with its
  owner, queued, held by a worker or destroyed, exactly once, so none leaks and none is destroyed twice.
\<close>

theorem retirement_accounting:
  assumes "retirement_reachable z"
  shows "reserved (rsvc z) = permits z + length (owners z) + length (retirement_queue (rsvc z))
      + unobserved_running (rsvc z) + length (active_retirements (rsvc z))
    \<and> reserved (rsvc z) \<le> maximum_resources (retirement_cap (rsvc z))
    \<and> retirements_running (rsvc z) \<le> cleanup_workers (retirement_cap (rsvc z))
    \<and> mset (attached z) = mset (owners z) + mset (map snd (retirement_queue (rsvc z)))
        + mset (map snd (held z)) + mset (destroyed z)
    \<and> (retirement_drained (retirement_snapshot_of (rsvc z)) \<longrightarrow> mset (destroyed z) = mset (attached z))"
proof -
  have inv: "retirement_inv z" by (rule retirements.reachable_inv [OF assms])
  have "held z = []" if "reserved (rsvc z) = 0"
  proof -
    from inv that have "active_retirements (rsvc z) = []" "unobserved_running (rsvc z) = 0"
      by (auto simp: retirement_inv_def reservations_ok_def)
    with inv have none: "count_list (map fst (held z)) i = 0" for i
      by (cases i) (auto simp: retirement_inv_def guards_ok_def)
    show ?thesis
    proof (cases "held z")
      case (Cons g gs)
      with none [of "fst g"] show ?thesis by simp
    qed simp
  qed
  with inv show ?thesis
    by (auto simp: retirement_inv_def reservations_ok_def resources_ok_def retirements_running_eq
        retirement_drained_def retirement_snapshot_of_def)
qed

lemma retirement_accounting_witness:
  "reserved (rsvc demo_claimed) = 1 \<and> mset (attached demo_claimed) = mset (map snd (held demo_claimed)) + mset (destroyed demo_claimed)"
  using retirement_accounting [OF demo_retirement_reachable(2)]
  by (simp add: demo_claimed_def demo_retirement_def retirement_new_def)



end
