(* ===== verification/Source_Text.thy ===== *)
theory Source_Text
  imports Prelude
begin

text \<open>
  Normalized source text (\<^verbatim>\<open>nocter-source/src/map.rs\<close>, \<open>span.rs\<close>). A text is the list of its UTF-8
  bytes, and an Isabelle character is one byte. The part of \<open>str\<close> that the front end uses is modelled
  here: validation, character boundaries, slicing (whose panic is \<open>None\<close>) and the width of a character.
\<close>

section \<open>UTF-8\<close>

type_synonym utf8_text = "char list"

definition code :: "char \<Rightarrow> nat" where
  "code c = of_char c"

definition continuation :: "char \<Rightarrow> bool" where
  "continuation c \<longleftrightarrow> 128 \<le> code c \<and> code c < 192"

text \<open>The width of the well-formed character at the front, if there is one (the Unicode table 3-7).\<close>

definition second_in :: "nat \<Rightarrow> nat \<Rightarrow> char \<Rightarrow> bool" where
  "second_in low high c \<longleftrightarrow> low \<le> code c \<and> code c \<le> high"

fun utf8_first :: "utf8_text \<Rightarrow> nat option" where
  "utf8_first [] = None"
| "utf8_first (b # rest) =
     (let n = code b in
      if n < 128 then Some 1
      else if 194 \<le> n \<and> n \<le> 223 then
        (case rest of c # _ \<Rightarrow> if continuation c then Some 2 else None | _ \<Rightarrow> None)
      else if 224 \<le> n \<and> n \<le> 239 then
        (case rest of
           c # d # _ \<Rightarrow>
             if second_in (if n = 224 then 160 else 128) (if n = 237 then 159 else 191) c \<and> continuation d
             then Some 3 else None
         | _ \<Rightarrow> None)
      else if 240 \<le> n \<and> n \<le> 244 then
        (case rest of
           c # d # e # _ \<Rightarrow>
             if second_in (if n = 240 then 144 else 128) (if n = 244 then 143 else 191) c
               \<and> continuation d \<and> continuation e
             then Some 4 else None
         | _ \<Rightarrow> None)
      else None)"

lemma utf8_first_bounds: "utf8_first bs = Some n \<Longrightarrow> 0 < n \<and> n \<le> length bs"
  by (cases bs) (auto simp: Let_def split: if_splits list.splits)

text \<open>\<open>Utf8Error::valid_up_to\<close>: the length of the longest prefix of whole characters.\<close>

function utf8_valid_up_to :: "utf8_text \<Rightarrow> nat" where
  "utf8_valid_up_to bs =
     (case utf8_first bs of
        None \<Rightarrow> 0
      | Some n \<Rightarrow> n + utf8_valid_up_to (drop n bs))"
  by pat_completeness auto

termination
  by (relation "measure length") (auto dest: utf8_first_bounds)

declare utf8_valid_up_to.simps [simp del]

definition valid_utf8 :: "utf8_text \<Rightarrow> bool" where
  "valid_utf8 bs \<longleftrightarrow> utf8_valid_up_to bs = length bs"

text \<open>\<open>char::len_utf8\<close> of the character that starts with this byte.\<close>

definition utf8_width :: "char \<Rightarrow> nat" where
  "utf8_width b = (if code b < 128 then 1 else if code b < 224 then 2 else if code b < 240 then 3 else 4)"

text \<open>\<open>str::is_char_boundary\<close>, and slicing, which panics off a boundary.\<close>

definition is_char_boundary :: "utf8_text \<Rightarrow> nat \<Rightarrow> bool" where
  "is_char_boundary bs i \<longleftrightarrow> i = 0 \<or> i = length bs \<or> i < length bs \<and> \<not> continuation (bs ! i)"

definition str_get :: "nat \<Rightarrow> nat \<Rightarrow> utf8_text \<Rightarrow> utf8_text option" where
  "str_get a b bs =
     (if a \<le> b \<and> b \<le> length bs \<and> is_char_boundary bs a \<and> is_char_boundary bs b
      then Some (take (b - a) (drop a bs)) else None)"

definition str_from :: "nat \<Rightarrow> utf8_text \<Rightarrow> utf8_text option" where
  "str_from a bs = (if a \<le> length bs \<and> is_char_boundary bs a then Some (drop a bs) else None)"

subsection \<open>Whole characters\<close>

lemma utf8_valid_le: "utf8_valid_up_to bs \<le> length bs"
proof (induction bs rule: utf8_valid_up_to.induct)
  case (1 bs)
  then show ?case
    by (subst utf8_valid_up_to.simps) (fastforce dest: utf8_first_bounds split: option.splits)
qed

lemma valid_utf8_Nil [simp]: "valid_utf8 []"
  by (simp add: valid_utf8_def utf8_valid_up_to.simps)

lemma valid_utf8_step:
  assumes "valid_utf8 bs" and "bs \<noteq> []"
  obtains n where "utf8_first bs = Some n" and "0 < n" and "n \<le> length bs" and "valid_utf8 (drop n bs)"
proof -
  from assms obtain n where n: "utf8_first bs = Some n"
    by (auto simp: valid_utf8_def utf8_valid_up_to.simps [of bs] split: option.splits)
  from utf8_first_bounds [OF n] assms(1) n have "valid_utf8 (drop n bs)"
    by (simp add: valid_utf8_def utf8_valid_up_to.simps [of bs])
  with n utf8_first_bounds [OF n] that show thesis by blast
qed

lemma valid_utf8_append_char:
  "utf8_first bs = Some n \<Longrightarrow> valid_utf8 (drop n bs) \<Longrightarrow> valid_utf8 bs"
  using utf8_first_bounds [of bs n] by (simp add: valid_utf8_def utf8_valid_up_to.simps [of bs])

lemma valid_utf8_ascii: "list_all (\<lambda>b. code b < 128) bs \<Longrightarrow> valid_utf8 bs"
proof (induction bs)
  case (Cons b bs)
  then have "utf8_first (b # bs) = Some 1" "valid_utf8 (drop 1 (b # bs))" by (auto simp: Let_def)
  then show ?case by (rule valid_utf8_append_char)
qed simp

lemma valid_utf8_induct [consumes 1, case_names empty char]:
  assumes "valid_utf8 bs" and "P []"
    and "\<And>bs n. valid_utf8 bs \<Longrightarrow> utf8_first bs = Some n \<Longrightarrow> valid_utf8 (drop n bs) \<Longrightarrow> P (drop n bs) \<Longrightarrow> P bs"
  shows "P bs"
  using assms(1)
proof (induction bs rule: length_induct)
  case (1 bs)
  show ?case
  proof (cases "bs = []")
    case False
    from valid_utf8_step [OF 1(2) False] obtain n
      where n: "utf8_first bs = Some n" "0 < n" "n \<le> length bs" "valid_utf8 (drop n bs)" .
    with 1(1) [rule_format, of "drop n bs"] have "P (drop n bs)" by simp
    with n assms(3) 1(2) show ?thesis by blast
  qed (simp add: assms(2))
qed

lemma utf8_first_cases:
  assumes "utf8_first bs = Some n"
  obtains (one) b r where "bs = b # r" and "n = 1" and "code b < 128"
    | (two) b c r where "bs = b # c # r" and "n = 2" and "194 \<le> code b" and "code b \<le> 223" and "continuation c"
    | (three) b c d r where "bs = b # c # d # r" and "n = 3" and "224 \<le> code b" and "code b \<le> 239"
        and "continuation c" and "continuation d"
    | (four) b c d e r where "bs = b # c # d # e # r" and "n = 4" and "240 \<le> code b" and "code b \<le> 244"
        and "continuation c" and "continuation d" and "continuation e"
proof (cases bs)
  case (Cons b r)
  note first = assms [unfolded Cons utf8_first.simps Let_def]
  have wide: "second_in low high c \<Longrightarrow> 128 \<le> low \<Longrightarrow> high \<le> 191 \<Longrightarrow> continuation c" for low high c
    by (simp add: second_in_def continuation_def)
  consider "code b < 128" | "194 \<le> code b \<and> code b \<le> 223" | "224 \<le> code b \<and> code b \<le> 239"
    | "240 \<le> code b \<and> code b \<le> 244"
    using first by (auto split: if_splits)
  then show thesis
  proof cases
    case 1
    with first Cons one show thesis by simp
  next
    case 2
    with first Cons two show thesis by (auto split: list.splits if_splits)
  next
    case 3
    then have "\<not> code b < 128" "\<not> (194 \<le> code b \<and> code b \<le> 223)" by auto
    with first 3 have "(case r of c # d # _ \<Rightarrow>
        if second_in (if code b = 224 then 160 else 128) (if code b = 237 then 159 else 191) c \<and> continuation d
        then Some 3 else None | _ \<Rightarrow> None) = Some n" by simp
    then obtain c d r' where "r = c # d # r'" "n = 3" "continuation d"
      "second_in (if code b = 224 then 160 else 128) (if code b = 237 then 159 else 191) c"
      by (auto split: list.splits if_split_asm)
    with wide 3 Cons three show thesis by simp
  next
    case 4
    then have "\<not> code b < 128" "\<not> (194 \<le> code b \<and> code b \<le> 223)" "\<not> (224 \<le> code b \<and> code b \<le> 239)" by auto
    with first 4 have "(case r of c # d # e # _ \<Rightarrow>
        if second_in (if code b = 240 then 144 else 128) (if code b = 244 then 143 else 191) c
          \<and> continuation d \<and> continuation e
        then Some 4 else None | _ \<Rightarrow> None) = Some n" by simp
    then obtain c d e r' where "r = c # d # e # r'" "n = 4" "continuation d" "continuation e"
      "second_in (if code b = 240 then 144 else 128) (if code b = 244 then 143 else 191) c"
      by (auto split: list.splits if_split_asm)
    with wide 4 Cons four show thesis by simp
  qed
qed (use assms in simp)

lemma utf8_first_shape:
  assumes "utf8_first bs = Some n"
  shows "n = utf8_width (hd bs)" and "\<not> continuation (hd bs)"
    and "0 < i \<Longrightarrow> i < n \<Longrightarrow> continuation (bs ! i)"
proof -
  have lead: "code b < 128 \<or> 192 \<le> code b \<Longrightarrow> \<not> continuation b" for b by (auto simp: continuation_def)
  have "n = utf8_width (hd bs) \<and> \<not> continuation (hd bs) \<and> (0 < i \<longrightarrow> i < n \<longrightarrow> continuation (bs ! i))"
    using assms
  proof (cases rule: utf8_first_cases)
    case (four b c d e r)
    moreover have "i < 4 \<Longrightarrow> 0 < i \<Longrightarrow> i = 1 \<or> i = 2 \<or> i = 3" by linarith
    ultimately show ?thesis using lead [of b] by (auto simp: utf8_width_def)
  next
    case (three b c d r)
    moreover have "i < 3 \<Longrightarrow> 0 < i \<Longrightarrow> i = 1 \<or> i = 2" by linarith
    ultimately show ?thesis using lead [of b] by (auto simp: utf8_width_def)
  next
    case (two b c r)
    moreover have "i < 2 \<Longrightarrow> 0 < i \<Longrightarrow> i = 1" by linarith
    ultimately show ?thesis using lead [of b] by (auto simp: utf8_width_def)
  qed (use lead in \<open>auto simp: utf8_width_def\<close>)
  then show "n = utf8_width (hd bs)" and "\<not> continuation (hd bs)"
    and "0 < i \<Longrightarrow> i < n \<Longrightarrow> continuation (bs ! i)" by blast+
qed

lemma utf8_first_ascii: "bs \<noteq> [] \<Longrightarrow> code (hd bs) < 128 \<Longrightarrow> utf8_first bs = Some 1"
  by (cases bs) simp_all

text \<open>A boundary of a valid text starts a valid text, and the next character ends at a boundary.\<close>

lemma valid_utf8_drop:
  assumes "valid_utf8 bs" and "is_char_boundary bs i" and "i \<le> length bs"
  shows "valid_utf8 (drop i bs)"
  using assms
proof (induction arbitrary: i rule: valid_utf8_induct)
  case (char bs n)
  consider "i = 0" | "0 < i" "i < n" | "n \<le> i" by linarith
  then show ?case
  proof cases
    case 2
    with utf8_first_shape(3) [OF char(2)] utf8_first_bounds [OF char(2)] char.prems show ?thesis
      by (auto simp: is_char_boundary_def)
  next
    case 3
    with char.prems utf8_first_bounds [OF char(2)]
    have "is_char_boundary (drop n bs) (i - n)" "i - n \<le> length (drop n bs)"
      by (auto simp: is_char_boundary_def)
    from char.IH [OF this] 3 show ?thesis by simp
  qed (use char in simp)
qed simp

lemma boundary_next:
  assumes "valid_utf8 bs" and "is_char_boundary bs i" and "i < length bs"
  shows "is_char_boundary bs (i + utf8_width (bs ! i)) \<and> i + utf8_width (bs ! i) \<le> length bs"
proof -
  have "valid_utf8 (drop i bs)" "drop i bs \<noteq> []" using valid_utf8_drop [OF assms(1,2)] assms(3) by auto
  then obtain n where n: "utf8_first (drop i bs) = Some n" "0 < n" "n \<le> length (drop i bs)" "valid_utf8 (drop n (drop i bs))"
    by (rule valid_utf8_step)
  then have width: "n = utf8_width (bs ! i)" using utf8_first_shape(1) [OF n(1)] assms(3) by (simp add: hd_drop_conv_nth)
  have "is_char_boundary bs (i + n)"
  proof (cases "i + n = length bs")
    case False
    with n(3) assms(3) have "i + n < length bs" by simp
    moreover have "drop n (drop i bs) \<noteq> []" using \<open>i + n < length bs\<close> by simp
    with n(4) obtain m where "utf8_first (drop n (drop i bs)) = Some m" by (rule valid_utf8_step)
    from utf8_first_shape(2) [OF this] have "\<not> continuation (bs ! (i + n))"
      using \<open>i + n < length bs\<close> by (simp add: hd_drop_conv_nth add.commute)
    ultimately show ?thesis by (simp add: is_char_boundary_def)
  qed (simp add: is_char_boundary_def)
  with n width show ?thesis by auto
qed

lemma utf8_width_pos [simp]: "0 < utf8_width b"
  by (simp add: utf8_width_def)

lemma ascii_boundary: "i < length bs \<Longrightarrow> code (bs ! i) < 128 \<Longrightarrow> is_char_boundary bs i"
  by (simp add: is_char_boundary_def continuation_def)

lemma ascii_next:
  "valid_utf8 bs \<Longrightarrow> i < length bs \<Longrightarrow> code (bs ! i) < 128 \<Longrightarrow> is_char_boundary bs (i + 1)"
  using boundary_next [of bs i] ascii_boundary [of i bs] by (simp add: utf8_width_def)

lemma boundary_0 [simp]: "is_char_boundary bs 0" and boundary_length [simp]: "is_char_boundary bs (length bs)"
  by (simp_all add: is_char_boundary_def)

end
