(* ===== verification/Syntax_Token.thy ===== *)
theory Syntax_Token
  imports Source_Text
begin

text \<open>
  The tokens of the language (\<^verbatim>\<open>nocter-syntax/src/token.rs\<close>) and the ranges they carry
  (\<^verbatim>\<open>nocter-source/src/span.rs\<close>). A byte offset is a natural number; the conversions to \<open>u32\<close> that can
  panic are written out where the sources make them.
\<close>

section \<open>Ranges\<close>

record text_range =
  range_start :: nat
  range_end :: nat

text \<open>\<open>TextRange::new\<close> panics on a reversed range.\<close>

definition text_range_new :: "nat \<Rightarrow> nat \<Rightarrow> text_range option" where
  "text_range_new a b = (if a \<le> b then Some \<lparr>range_start = a, range_end = b\<rparr> else None)"

definition range_empty :: "nat \<Rightarrow> text_range" where
  "range_empty a = \<lparr>range_start = a, range_end = a\<rparr>"

definition range_len :: "text_range \<Rightarrow> nat" where
  "range_len r = range_end r - range_start r"

lemma text_range_new_Some [simp]:
  "text_range_new a b = Some r \<longleftrightarrow> a \<le> b \<and> r = \<lparr>range_start = a, range_end = b\<rparr>"
  by (auto simp: text_range_new_def)

lemma range_empty_sel [simp]: "range_start (range_empty a) = a" "range_end (range_empty a) = a"
  by (simp_all add: range_empty_def)

section \<open>Keywords and punctuation\<close>

datatype keyword =
    KwAs | KwAsync | KwAwait | KwBlocking | KwBreak | KwCatch
  | KwContinue | KwConst | KwConstruct | KwElse | KwEnum | KwFalse
  | KwFor | KwFunc | KwFuture | KwIf | KwImpl | KwIn
  | KwInstance | KwInterface | KwIs | KwLet | KwLiteral | KwLoop
  | KwMatch | KwMethod | KwMove | KwNever | KwNoAlloc | KwNoTrap
  | KwNone | KwOperator | KwOtherwise | KwPrimitive | KwPub | KwRegion
  | KwReturn | KwSee | KwStruct | KwTest | KwTrue | KwType
  | KwUse | KwUsing | KwVar | KwVoid | KwWhile

primrec keyword_str :: "keyword \<Rightarrow> utf8_text" where
  "keyword_str KwAs = ''as''"
| "keyword_str KwAsync = ''async''"
| "keyword_str KwAwait = ''await''"
| "keyword_str KwBlocking = ''blocking''"
| "keyword_str KwBreak = ''break''"
| "keyword_str KwCatch = ''catch''"
| "keyword_str KwContinue = ''continue''"
| "keyword_str KwConst = ''const''"
| "keyword_str KwConstruct = ''construct''"
| "keyword_str KwElse = ''else''"
| "keyword_str KwEnum = ''enum''"
| "keyword_str KwFalse = ''false''"
| "keyword_str KwFor = ''for''"
| "keyword_str KwFunc = ''func''"
| "keyword_str KwFuture = ''future''"
| "keyword_str KwIf = ''if''"
| "keyword_str KwImpl = ''impl''"
| "keyword_str KwIn = ''in''"
| "keyword_str KwInstance = ''instance''"
| "keyword_str KwInterface = ''interface''"
| "keyword_str KwIs = ''is''"
| "keyword_str KwLet = ''let''"
| "keyword_str KwLiteral = ''literal''"
| "keyword_str KwLoop = ''loop''"
| "keyword_str KwMatch = ''match''"
| "keyword_str KwMethod = ''method''"
| "keyword_str KwMove = ''move''"
| "keyword_str KwNever = ''never''"
| "keyword_str KwNoAlloc = ''noalloc''"
| "keyword_str KwNoTrap = ''notrap''"
| "keyword_str KwNone = ''none''"
| "keyword_str KwOperator = ''operator''"
| "keyword_str KwOtherwise = ''otherwise''"
| "keyword_str KwPrimitive = ''primitive''"
| "keyword_str KwPub = ''pub''"
| "keyword_str KwRegion = ''region''"
| "keyword_str KwReturn = ''return''"
| "keyword_str KwSee = ''see''"
| "keyword_str KwStruct = ''struct''"
| "keyword_str KwTest = ''test''"
| "keyword_str KwTrue = ''true''"
| "keyword_str KwType = ''type''"
| "keyword_str KwUse = ''use''"
| "keyword_str KwUsing = ''using''"
| "keyword_str KwVar = ''var''"
| "keyword_str KwVoid = ''void''"
| "keyword_str KwWhile = ''while''"

definition all_keywords :: "keyword list" where
  "all_keywords =
     [KwAs, KwAsync, KwAwait, KwBlocking, KwBreak, KwCatch,
      KwContinue, KwConst, KwConstruct, KwElse, KwEnum, KwFalse,
      KwFor, KwFunc, KwFuture, KwIf, KwImpl, KwIn,
      KwInstance, KwInterface, KwIs, KwLet, KwLiteral, KwLoop,
      KwMatch, KwMethod, KwMove, KwNever, KwNoAlloc, KwNoTrap,
      KwNone, KwOperator, KwOtherwise, KwPrimitive, KwPub, KwRegion,
      KwReturn, KwSee, KwStruct, KwTest, KwTrue, KwType,
      KwUse, KwUsing, KwVar, KwVoid, KwWhile]"

datatype punctuation =
    PReadWrite | PRange | PExpansion | PEqualEqual | PBangEqual | PLessEqual
  | PGreaterEqual | PLogicalAnd | PLogicalOr | PShiftLeft | PShiftRight | PPlusEqual
  | PMinusEqual | PStarEqual | PSlashEqual | PPercentEqual | PHash | PDot
  | PSlash | PStar | PAmpersand | PLess | PGreater | PEqual
  | PPlus | PMinus | PPercent | PBang | PQuestion | PPipe
  | PLeftParen | PRightParen | PLeftBrace | PRightBrace | PLeftBracket | PRightBracket
  | PColon | PComma | PSemicolon

primrec punctuation_str :: "punctuation \<Rightarrow> utf8_text" where
  "punctuation_str PReadWrite = ''&+''"
| "punctuation_str PRange = ''..<''"
| "punctuation_str PExpansion = ''...''"
| "punctuation_str PEqualEqual = ''==''"
| "punctuation_str PBangEqual = ''!=''"
| "punctuation_str PLessEqual = ''<=''"
| "punctuation_str PGreaterEqual = ''>=''"
| "punctuation_str PLogicalAnd = ''&&''"
| "punctuation_str PLogicalOr = ''||''"
| "punctuation_str PShiftLeft = ''<<''"
| "punctuation_str PShiftRight = ''>>''"
| "punctuation_str PPlusEqual = ''+=''"
| "punctuation_str PMinusEqual = ''-=''"
| "punctuation_str PStarEqual = ''*=''"
| "punctuation_str PSlashEqual = ''/=''"
| "punctuation_str PPercentEqual = ''%=''"
| "punctuation_str PHash = ''#''"
| "punctuation_str PDot = ''.''"
| "punctuation_str PSlash = ''/''"
| "punctuation_str PStar = ''*''"
| "punctuation_str PAmpersand = ''&''"
| "punctuation_str PLess = ''<''"
| "punctuation_str PGreater = ''>''"
| "punctuation_str PEqual = ''=''"
| "punctuation_str PPlus = ''+''"
| "punctuation_str PMinus = ''-''"
| "punctuation_str PPercent = ''%''"
| "punctuation_str PBang = ''!''"
| "punctuation_str PQuestion = ''?''"
| "punctuation_str PPipe = ''|''"
| "punctuation_str PLeftParen = ''(''"
| "punctuation_str PRightParen = '')''"
| "punctuation_str PLeftBrace = ''{''"
| "punctuation_str PRightBrace = ''}''"
| "punctuation_str PLeftBracket = ''[''"
| "punctuation_str PRightBracket = '']''"
| "punctuation_str PColon = '':''"
| "punctuation_str PComma = '',''"
| "punctuation_str PSemicolon = '';''"

definition all_punctuation :: "punctuation list" where
  "all_punctuation =
     [PReadWrite, PRange, PExpansion, PEqualEqual, PBangEqual, PLessEqual,
      PGreaterEqual, PLogicalAnd, PLogicalOr, PShiftLeft, PShiftRight, PPlusEqual,
      PMinusEqual, PStarEqual, PSlashEqual, PPercentEqual, PHash, PDot,
      PSlash, PStar, PAmpersand, PLess, PGreater, PEqual,
      PPlus, PMinus, PPercent, PBang, PQuestion, PPipe,
      PLeftParen, PRightParen, PLeftBrace, PRightBrace, PLeftBracket, PRightBracket,
      PColon, PComma, PSemicolon]"

definition keyword_from_spelling :: "utf8_text \<Rightarrow> keyword option" where
  "keyword_from_spelling text = find (\<lambda>k. keyword_str k = text) all_keywords"

text \<open>\<open>str::starts_with\<close>.\<close>

definition starts_with :: "utf8_text \<Rightarrow> utf8_text \<Rightarrow> bool" where
  "starts_with p text \<longleftrightarrow> take (length p) text = p"

definition longest_prefix :: "utf8_text \<Rightarrow> punctuation option" where
  "longest_prefix text = find (\<lambda>p. starts_with (punctuation_str p) text) all_punctuation"

section \<open>Tokens\<close>

datatype string_delimiter = SingleLine | MultiLine

datatype token_kind =
    Identifier
  | Keyword keyword
  | IntegerLiteral
  | FloatLiteral
  | ByteLiteral
  | CharacterLiteral
  | StringStart string_delimiter
  | StringText
  | InterpolationStart
  | InterpolationEnd
  | StringEnd string_delimiter
  | Newline
  | Punctuation punctuation
  | EndOfFile

record token =
  token_kind :: token_kind
  token_range :: text_range
  joint_to_next :: bool

definition token_new :: "token_kind \<Rightarrow> text_range \<Rightarrow> token" where
  "token_new k r = \<lparr>token_kind = k, token_range = r, joint_to_next = False\<rparr>"

text \<open>Every keyword and punctuation is listed, by its own spelling.\<close>

lemma all_keywords_complete: "k \<in> set all_keywords"
  by (cases k) (simp_all add: all_keywords_def)

lemma all_punctuation_complete: "p \<in> set all_punctuation"
  by (cases p) (simp_all add: all_punctuation_def)

lemma keyword_from_spelling_SomeD: "keyword_from_spelling text = Some k \<Longrightarrow> keyword_str k = text"
  by (auto simp: keyword_from_spelling_def dest: find_SomeD)

lemma longest_prefix_SomeD: "longest_prefix text = Some p \<Longrightarrow> starts_with (punctuation_str p) text"
  by (auto simp: longest_prefix_def dest: find_SomeD)

lemma punctuation_str_nonempty: "punctuation_str p \<noteq> []"
  by (cases p) simp_all

end
