(* ===== verification/Syntax_Literal.thy ===== *)
theory Syntax_Literal
  imports Syntax_Token "HOL-Library.Monad_Syntax"
begin

text \<open>
  Spellings of literals (\<^verbatim>\<open>nocter-syntax/src/literal.rs\<close>): which integer and float tokens are valid, what an
  escape stands for, and the decoding of byte, character and string literals. A slice off a character
  boundary and an index out of range, which panic, are \<open>None\<close>.
\<close>

section \<open>ASCII classes\<close>

definition is_ascii_digit :: "char \<Rightarrow> bool" where
  "is_ascii_digit c \<longleftrightarrow> 48 \<le> code c \<and> code c \<le> 57"

definition is_ascii_lowercase :: "char \<Rightarrow> bool" where
  "is_ascii_lowercase c \<longleftrightarrow> 97 \<le> code c \<and> code c \<le> 122"

definition is_ascii_alphabetic :: "char \<Rightarrow> bool" where
  "is_ascii_alphabetic c \<longleftrightarrow> is_ascii_lowercase c \<or> 65 \<le> code c \<and> code c \<le> 90"

definition is_ascii_hexdigit :: "char \<Rightarrow> bool" where
  "is_ascii_hexdigit c \<longleftrightarrow> is_ascii_digit c \<or> 97 \<le> code c \<and> code c \<le> 102 \<or> 65 \<le> code c \<and> code c \<le> 70"

definition is_ascii_alphanumeric :: "char \<Rightarrow> bool" where
  "is_ascii_alphanumeric c \<longleftrightarrow> is_ascii_alphabetic c \<or> is_ascii_digit c"

section \<open>Numbers\<close>

definition strip_prefix :: "utf8_text \<Rightarrow> utf8_text \<Rightarrow> utf8_text option" where
  "strip_prefix p text = (if starts_with p text then Some (drop (length p) text) else None)"

definition strip_suffix :: "utf8_text \<Rightarrow> utf8_text \<Rightarrow> utf8_text option" where
  "strip_suffix p text = map_option rev (strip_prefix (rev p) (rev text))"

text \<open>Digits separated by single underscores; every accepted character is one byte.\<close>

definition separated_digits :: "(char \<Rightarrow> bool) \<Rightarrow> utf8_text \<Rightarrow> bool" where
  "separated_digits valid_digit digits \<longleftrightarrow>
     list_all (\<lambda>i. valid_digit (digits ! i)
         \<or> digits ! i = CHR ''_'' \<and> 0 < i \<and> i + 1 < length digits
           \<and> valid_digit (digits ! (i - 1)) \<and> valid_digit (digits ! (i + 1)))
       [0..<length digits]"

definition valid_integer :: "utf8_text \<Rightarrow> bool" where
  "valid_integer text =
     (let (digits, valid_digit) =
        (case strip_prefix ''0x'' text of
           Some digits \<Rightarrow> (digits, is_ascii_hexdigit)
         | None \<Rightarrow>
             (case strip_prefix ''0b'' text of
                Some digits \<Rightarrow> (digits, \<lambda>c. c = CHR ''0'' \<or> c = CHR ''1'')
              | None \<Rightarrow> (text, is_ascii_digit))) in
      digits \<noteq> [] \<and> separated_digits valid_digit digits)"

datatype float_suffix = F32 | F64

definition float_from_authored :: "utf8_text \<Rightarrow> utf8_text \<times> float_suffix option" where
  "float_from_authored authored =
     (case strip_suffix ''f32'' authored of
        Some decimal \<Rightarrow> (decimal, Some F32)
      | None \<Rightarrow>
          (case strip_suffix ''f64'' authored of
             Some decimal \<Rightarrow> (decimal, Some F64)
           | None \<Rightarrow> (authored, None)))"

definition valid_decimal_digits :: "utf8_text \<Rightarrow> bool" where
  "valid_decimal_digits text \<longleftrightarrow> text \<noteq> [] \<and> separated_digits is_ascii_digit text"

definition is_exponent :: "char \<Rightarrow> bool" where
  "is_exponent c \<longleftrightarrow> c = CHR ''e'' \<or> c = CHR ''E''"

definition valid_mantissa :: "utf8_text \<Rightarrow> bool" where
  "valid_mantissa mantissa =
     (case position (\<lambda>c. c = CHR ''.'') mantissa of
        Some i \<Rightarrow>
          let (whole, fraction) = (take i mantissa, drop (i + 1) mantissa) in
          CHR ''.'' \<notin> set fraction \<and> valid_decimal_digits whole \<and> valid_decimal_digits fraction
      | None \<Rightarrow> valid_decimal_digits mantissa)"

definition valid_exponent :: "utf8_text \<Rightarrow> bool" where
  "valid_exponent exponent =
     valid_decimal_digits
       (case exponent of c # rest \<Rightarrow> if c = CHR ''+'' \<or> c = CHR ''-'' then rest else exponent | [] \<Rightarrow> exponent)"

definition valid_float :: "utf8_text \<Rightarrow> bool" where
  "valid_float text =
     (let number = fst (float_from_authored text) in
      case position is_exponent number of
        Some i \<Rightarrow>
          \<not> list_ex is_exponent (drop (i + 1) number)
          \<and> valid_mantissa (take i number) \<and> valid_exponent (drop (i + 1) number)
      | None \<Rightarrow> CHR ''.'' \<in> set number \<and> valid_mantissa number)"

section \<open>Escapes\<close>

definition hex_value :: "char \<Rightarrow> nat option" where
  "hex_value c =
     (if is_ascii_digit c then Some (code c - 48)
      else if 97 \<le> code c \<and> code c \<le> 102 then Some (code c - 97 + 10)
      else if 65 \<le> code c \<and> code c \<le> 70 then Some (code c - 65 + 10)
      else None)"

text \<open>The bytes of the first \<open>k\<close> characters.\<close>

fun prefix_width :: "nat \<Rightarrow> utf8_text \<Rightarrow> nat" where
  "prefix_width 0 bs = 0"
| "prefix_width (Suc k) [] = 0"
| "prefix_width (Suc k) (b # bs) = utf8_width b + prefix_width k (drop (utf8_width b) (b # bs))"

definition source_character_prefix_len :: "utf8_text \<Rightarrow> nat \<Rightarrow> nat \<Rightarrow> nat \<Rightarrow> nat option" where
  "source_character_prefix_len text start limit count = map_option (prefix_width count) (str_get start limit text)"

definition simple_escape :: "char \<Rightarrow> char option" where
  "simple_escape c =
     (if c = CHR ''n'' then Some (CHR 0x0A)
      else if c = CHR ''r'' then Some (CHR 0x0D)
      else if c = CHR ''t'' then Some (CHR 0x09)
      else if c = CHR ''0'' then Some (CHR 0x00)
      else if c = CHR 0x5C then Some (CHR 0x5C)
      else if c = CHR 0x22 then Some (CHR 0x22)
      else if c = CHR 0x27 then Some (CHR 0x27)
      else if c = CHR ''$'' then Some (CHR ''$'')
      else None)"

text \<open>\<open>Inr\<close> is the decoded byte and the width of the escape, \<open>Inl\<close> the width of an invalid one.\<close>

definition decode_escape :: "utf8_text \<Rightarrow> nat \<Rightarrow> nat \<Rightarrow> (nat + char \<times> nat) option" where
  "decode_escape text start limit =
     (if \<not> (start + 1 < length text \<and> start + 1 < limit) then Some (Inl 1)
      else
        let c = text ! (start + 1) in
        case simple_escape c of
          Some b \<Rightarrow> Some (Inr (b, 2))
        | None \<Rightarrow>
            if c = CHR ''x'' then
              if start + 4 \<le> limit then
                if length text \<le> start + 3 then None
                else
                  (case (hex_value (text ! (start + 2)), hex_value (text ! (start + 3))) of
                     (Some high, Some low) \<Rightarrow> Some (Inr (char_of (high * 16 + low), 4))
                   | _ \<Rightarrow> map_option Inl (source_character_prefix_len text start limit 4))
              else map_option Inl (source_character_prefix_len text start limit 4)
            else map_option Inl (source_character_prefix_len text start limit 2))"

definition decode_byte_literal :: "utf8_text \<Rightarrow> char option option" where
  "decode_byte_literal text =
     (case Option.bind (strip_prefix (''b'' @ [CHR 0x27]) text) (strip_suffix [CHR 0x27]) of
        None \<Rightarrow> Some None
      | Some content \<Rightarrow>
          if starts_with [CHR 0x5C] content then
            map_option (case_sum (\<lambda>_. None) (\<lambda>(value, width). if width = length content then Some value else None))
              (decode_escape content 0 (length content))
          else Some (if length content = 1 then Some (hd content) else None))"

section \<open>Characters\<close>

datatype character_error = InvalidEscapeAt nat nat | InvalidLength

text \<open>The scalar value of the character at the front of a valid text.\<close>

definition scalar_value :: "utf8_text \<Rightarrow> nat" where
  "scalar_value bs =
     (let w = utf8_width (hd bs); cont = (\<lambda>i. code (bs ! i) mod 64) in
      if w = 1 then code (hd bs)
      else if w = 2 then code (hd bs) mod 32 * 64 + cont 1
      else if w = 3 then code (hd bs) mod 16 * 64 ^ 2 + cont 1 * 64 + cont 2
      else code (hd bs) mod 8 * 64 ^ 3 + cont 1 * 64 ^ 2 + cont 2 * 64 + cont 3)"

text \<open>\<open>char::from_u32\<close>.\<close>

definition is_scalar_value :: "nat \<Rightarrow> bool" where
  "is_scalar_value n \<longleftrightarrow> n < 1114112 \<and> \<not> (55296 \<le> n \<and> n \<le> 57343)"

definition hex_number :: "utf8_text \<Rightarrow> nat" where
  "hex_number digits = fold (\<lambda>c n. 16 * n + (case hex_value c of Some v \<Rightarrow> v | None \<Rightarrow> 0)) digits 0"

definition decode_unicode_escape :: "utf8_text \<Rightarrow> character_error + nat" where
  "decode_unicode_escape text =
     (case Option.bind (strip_prefix (CHR 0x5C # ''u{'') text) (strip_suffix ''}'') of
        None \<Rightarrow> Inl (InvalidEscapeAt 0 (max (length text) 1))
      | Some digits \<Rightarrow>
          if \<not> (1 \<le> length digits \<and> length digits \<le> 6) \<or> \<not> list_all is_ascii_hexdigit digits
          then Inl (InvalidEscapeAt 0 (length text))
          else if is_scalar_value (hex_number digits) then Inr (hex_number digits) else Inl InvalidLength)"

definition character_escape :: "utf8_text \<Rightarrow> nat option" where
  "character_escape escape =
     (if escape = ''n'' then Some 10 else if escape = ''r'' then Some 13 else if escape = ''t'' then Some 9
      else if escape = ''0'' then Some 0 else if escape = [CHR 0x5C] then Some 92
      else if escape = [CHR 0x22] then Some 34 else if escape = [CHR 0x27] then Some 39 else None)"

definition decode_character_content :: "utf8_text \<Rightarrow> character_error + nat" where
  "decode_character_content text =
     (case strip_prefix [CHR 0x5C] text of
        Some escape \<Rightarrow>
          (case character_escape escape of
             Some value \<Rightarrow> Inr value
           | None \<Rightarrow>
               if starts_with ''u'' escape then decode_unicode_escape text
               else Inl (InvalidEscapeAt 0 (max (length text) 1)))
      | None \<Rightarrow>
          if text = [] then Inl InvalidLength
          else if utf8_width (hd text) < length text then Inl InvalidLength
          else Inr (scalar_value text))"

definition decode_character_literal :: "utf8_text \<Rightarrow> nat option" where
  "decode_character_literal text =
     (case Option.bind (strip_prefix [CHR 0x27] text) (strip_suffix [CHR 0x27]) of
        None \<Rightarrow> None
      | Some content \<Rightarrow> (case decode_character_content content of Inr v \<Rightarrow> Some v | Inl _ \<Rightarrow> None))"

end
