(* ===== verification/Lexer.thy ===== *)
theory Lexer
  imports Syntax_Literal
begin

text \<open>
  The lexer (\<^verbatim>\<open>nocter-syntax/src/lexer.rs\<close>). Its state is the cursor and what was emitted; a slice off a
  character boundary, an index out of range and a failed conversion to \<open>u32\<close>, which panic, are \<open>None\<close>.
  Code and string literals nest through interpolation; \<open>lex_code\<close> and the loop of \<open>lex_string\<close> take fuel,
  one unit per iteration, and as every iteration moves the cursor the length of the text is enough.
\<close>

section \<open>State\<close>

datatype comment_kind = LineComment | BlockComment | ItemDocumentation | FileDocumentation

record comment =
  comment_kind :: comment_kind
  comment_range :: text_range

datatype lex_diagnostic_kind =
    UnexpectedCharacter
  | UnterminatedBlockComment
  | InvalidIntegerLiteral
  | InvalidFloatLiteral
  | UnterminatedString
  | SingleLineStringNewline
  | MultilineStringOpeningNewline
  | InvalidEscape
  | InvalidStringUtf8
  | MultilineStringIndentation
  | UnterminatedByteLiteral
  | ByteLiteralNewline
  | InvalidByteLength
  | UnterminatedCharacterLiteral
  | CharacterLiteralNewline
  | InvalidCharacterLength
  | UnterminatedInterpolation

record lex_diagnostic =
  lex_diagnostic_kind :: lex_diagnostic_kind
  lex_diagnostic_range :: text_range

record lexer =
  lex_cursor :: nat
  lex_tokens :: "token list"
  lex_comments :: "comment list"
  lex_diagnostics :: "lex_diagnostic list"

record lexed_file =
  lexed_tokens :: "token list"
  lexed_comments :: "comment list"
  lexed_diagnostics :: "lex_diagnostic list"

definition lexer_new :: lexer where
  "lexer_new = \<lparr>lex_cursor = 0, lex_tokens = [], lex_comments = [], lex_diagnostics = []\<rparr>"

section \<open>Primitives\<close>

text \<open>\<open>u32::try_from(value).expect\<close>, and the checked span of the source file.\<close>

definition offset_of :: "nat \<Rightarrow> nat option" where
  "offset_of value = (if int value < 4294967296 then Some value else None)"

definition lex_span :: "utf8_text \<Rightarrow> nat \<Rightarrow> nat \<Rightarrow> text_range option" where
  "lex_span text a b = do {
     a \<leftarrow> offset_of a;
     b \<leftarrow> offset_of b;
     r \<leftarrow> text_range_new a b;
     if range_end r \<le> length text then Some r else None }"

definition push_token :: "utf8_text \<Rightarrow> token_kind \<Rightarrow> nat \<Rightarrow> nat \<Rightarrow> lexer \<Rightarrow> lexer option" where
  "push_token text k a b l = map_option (\<lambda>r. l\<lparr>lex_tokens := lex_tokens l @ [token_new k r]\<rparr>) (lex_span text a b)"

definition push_comment :: "utf8_text \<Rightarrow> comment_kind \<Rightarrow> nat \<Rightarrow> nat \<Rightarrow> lexer \<Rightarrow> lexer option" where
  "push_comment text k a b l =
     map_option (\<lambda>r. l\<lparr>lex_comments := lex_comments l @ [\<lparr>comment_kind = k, comment_range = r\<rparr>]\<rparr>) (lex_span text a b)"

definition lex_report :: "utf8_text \<Rightarrow> lex_diagnostic_kind \<Rightarrow> nat \<Rightarrow> nat \<Rightarrow> lexer \<Rightarrow> lexer option" where
  "lex_report text k a b l =
     map_option (\<lambda>r. l\<lparr>lex_diagnostics := lex_diagnostics l
         @ [\<lparr>lex_diagnostic_kind = k, lex_diagnostic_range = r\<rparr>]\<rparr>) (lex_span text a b)"

definition looking_at :: "utf8_text \<Rightarrow> utf8_text \<Rightarrow> lexer \<Rightarrow> bool option" where
  "looking_at p text l = map_option (starts_with p) (str_from (lex_cursor l) text)"

definition char_len_at :: "utf8_text \<Rightarrow> nat \<Rightarrow> nat option" where
  "char_len_at text i =
     map_option (\<lambda>rest. case rest of [] \<Rightarrow> 1 | b # _ \<Rightarrow> utf8_width b) (str_from i text)"

text \<open>\<open>while bytes.get(cursor).is_some_and(p)\<close>.\<close>

function skip_while :: "(char \<Rightarrow> bool) \<Rightarrow> utf8_text \<Rightarrow> nat \<Rightarrow> nat" where
  "skip_while p text i = (if i < length text \<and> p (text ! i) then skip_while p text (i + 1) else i)"
  by pat_completeness auto

termination
  by (relation "measure (\<lambda>(p, text, i). length text - i)") auto

declare skip_while.simps [simp del]

definition byte_is :: "(char \<Rightarrow> bool) \<Rightarrow> utf8_text \<Rightarrow> nat \<Rightarrow> bool" where
  "byte_is p text i \<longleftrightarrow> i < length text \<and> p (text ! i)"

definition is_identifier_start :: "char \<Rightarrow> bool" where
  "is_identifier_start c \<longleftrightarrow> is_ascii_alphabetic c \<or> c = CHR ''_''"

definition is_identifier_continue :: "char \<Rightarrow> bool" where
  "is_identifier_continue c \<longleftrightarrow> is_identifier_start c \<or> is_ascii_digit c"

definition last_kind :: "lexer \<Rightarrow> token_kind option" where
  "last_kind l = (if lex_tokens l = [] then None else Some (token_kind (last (lex_tokens l))))"

section \<open>Words and numbers\<close>

definition lex_identifier :: "utf8_text \<Rightarrow> lexer \<Rightarrow> lexer option" where
  "lex_identifier text l = (let start = lex_cursor l; stop = skip_while is_identifier_continue text (start + 1) in do {
     spelling \<leftarrow> str_get start stop text;
     push_token text (case keyword_from_spelling spelling of Some k \<Rightarrow> Keyword k | None \<Rightarrow> Identifier)
       start stop (l\<lparr>lex_cursor := stop\<rparr>) })"

definition can_lex_tuple_projection :: "lexer \<Rightarrow> bool" where
  "can_lex_tuple_projection l =
     (case last_kind l of
        Some k \<Rightarrow>
          (case k of
             Identifier \<Rightarrow> True | IntegerLiteral \<Rightarrow> True | FloatLiteral \<Rightarrow> True | ByteLiteral \<Rightarrow> True
           | CharacterLiteral \<Rightarrow> True | StringEnd _ \<Rightarrow> True | InterpolationEnd \<Rightarrow> True
           | Keyword kw \<Rightarrow> kw \<in> {KwTrue, KwFalse, KwNone}
           | Punctuation p \<Rightarrow> p \<in> {PRightParen, PRightBracket, PRightBrace}
           | _ \<Rightarrow> False)
      | None \<Rightarrow> False)"

definition is_digit_or_underscore :: "char \<Rightarrow> bool" where
  "is_digit_or_underscore c \<longleftrightarrow> is_ascii_digit c \<or> c = CHR ''_''"

definition is_number_word :: "char \<Rightarrow> bool" where
  "is_number_word c \<longleftrightarrow> is_ascii_alphanumeric c \<or> c = CHR ''_''"

text \<open>A decimal fraction, unless the number follows a dot, and an exponent.\<close>

definition lex_fraction :: "utf8_text \<Rightarrow> lexer \<Rightarrow> nat \<Rightarrow> bool \<times> nat" where
  "lex_fraction text l i =
     (if last_kind l \<noteq> Some (Punctuation PDot) \<and> byte_is (\<lambda>c. c = CHR ''.'') text i
         \<and> byte_is is_ascii_digit text (i + 1)
      then (True, skip_while is_digit_or_underscore text (i + 1)) else (False, i))"

definition lex_exponent :: "utf8_text \<Rightarrow> nat \<Rightarrow> bool \<times> nat" where
  "lex_exponent text i =
     (if byte_is is_exponent text i then
        let i = i + 1;
            i = (if byte_is (\<lambda>c. c = CHR ''+'' \<or> c = CHR ''-'') text i then i + 1 else i) in
        (True, skip_while is_digit_or_underscore text i)
      else (False, i))"

definition lex_number :: "utf8_text \<Rightarrow> lexer \<Rightarrow> lexer option" where
  "lex_number text l = (let start = lex_cursor l in do {
     hex \<leftarrow> looking_at ''0x'' text l;
     binary \<leftarrow> looking_at ''0b'' text l;
     if hex \<or> binary then
       let stop = skip_while is_number_word text (start + 2) in do {
         l \<leftarrow> push_token text IntegerLiteral start stop (l\<lparr>lex_cursor := stop\<rparr>);
         candidate \<leftarrow> str_get start stop text;
         if valid_integer candidate then Some l else lex_report text InvalidIntegerLiteral start stop l }
     else
       let i = skip_while is_digit_or_underscore text start;
           (fraction, i) = lex_fraction text l i;
           (exponent, i) = lex_exponent text i;
           stop = skip_while is_number_word text i;
           float = (fraction \<or> exponent) in do {
         l \<leftarrow> push_token text (if float then FloatLiteral else IntegerLiteral) start stop (l\<lparr>lex_cursor := stop\<rparr>);
         candidate \<leftarrow> str_get start stop text;
         if (if float then valid_float candidate else valid_integer candidate) then Some l
         else lex_report text (if float then InvalidFloatLiteral else InvalidIntegerLiteral) start stop l } })"

definition lex_leading_dot_float :: "utf8_text \<Rightarrow> lexer \<Rightarrow> lexer option" where
  "lex_leading_dot_float text l =
     (let start = lex_cursor l; stop = skip_while is_number_word text (start + 1) in do {
        l \<leftarrow> push_token text FloatLiteral start stop (l\<lparr>lex_cursor := stop\<rparr>);
        lex_report text InvalidFloatLiteral start stop l })"

section \<open>Comments\<close>

definition next_char_len :: "utf8_text \<Rightarrow> lexer \<Rightarrow> nat option" where
  "next_char_len text l = char_len_at text (lex_cursor l)"

lemma char_len_at_pos: "char_len_at text i = Some n \<Longrightarrow> 0 < n"
  unfolding char_len_at_def by (cases "str_from i text") (auto split: list.splits)

text \<open>The end of a line comment: the next newline or the end of the text.\<close>

function line_comment_end :: "utf8_text \<Rightarrow> nat \<Rightarrow> nat option" where
  "line_comment_end text i =
     (if i < length text \<and> text ! i \<noteq> CHR 0x0A then do {
        n \<leftarrow> char_len_at text i;
        line_comment_end text (i + n) }
      else Some i)"
  by pat_completeness auto

termination
  by (relation "measure (\<lambda>(text, i). length text - i)") (auto dest: char_len_at_pos)

declare line_comment_end.simps [simp del]

definition line_comment_kind :: "utf8_text \<Rightarrow> comment_kind" where
  "line_comment_kind rest =
     (if starts_with ''//!'' rest then FileDocumentation
      else if starts_with ''///'' rest \<and> \<not> starts_with ''////'' rest then ItemDocumentation
      else LineComment)"

definition lex_line_comment :: "utf8_text \<Rightarrow> lexer \<Rightarrow> lexer option" where
  "lex_line_comment text l = (let start = lex_cursor l in do {
     rest \<leftarrow> str_from start text;
     stop \<leftarrow> line_comment_end text (start + 2);
     push_comment text (line_comment_kind rest) start stop (l\<lparr>lex_cursor := stop\<rparr>) })"

definition block_comment_kind :: "utf8_text \<Rightarrow> comment_kind" where
  "block_comment_kind rest =
     (if starts_with ''/*!'' rest then FileDocumentation
      else if starts_with ''/**'' rest \<and> \<not> starts_with ''/**/'' rest \<and> \<not> starts_with ''/***'' rest
      then ItemDocumentation
      else BlockComment)"

text \<open>The loop of \<open>lex_block_comment\<close>: whether the comment was closed, and the newlines inside it.\<close>

lemma push_token_cursor: "push_token text k a b l = Some l' \<Longrightarrow> lex_cursor l' = lex_cursor l"
  by (auto simp: push_token_def)

function block_comment_loop :: "utf8_text \<Rightarrow> lexer \<Rightarrow> (bool \<times> lexer) option" where
  "block_comment_loop text l =
     (let i = lex_cursor l in
      if length text \<le> i then Some (False, l)
      else do {
        close \<leftarrow> looking_at ''*/'' text l;
        if close then Some (True, l\<lparr>lex_cursor := i + 2\<rparr>)
        else if text ! i = CHR 0x0A then do {
          l \<leftarrow> push_token text Newline i (i + 1) (l\<lparr>lex_cursor := i + 1\<rparr>);
          block_comment_loop text l }
        else do {
          n \<leftarrow> next_char_len text l;
          block_comment_loop text (l\<lparr>lex_cursor := i + n\<rparr>) } })"
  by pat_completeness auto

termination
  by (relation "measure (\<lambda>(text, l). length text - lex_cursor l)")
    (auto simp: next_char_len_def dest: char_len_at_pos push_token_cursor)

declare block_comment_loop.simps [simp del]

definition lex_block_comment :: "utf8_text \<Rightarrow> lexer \<Rightarrow> lexer option" where
  "lex_block_comment text l = (let start = lex_cursor l in do {
     rest \<leftarrow> str_from start text;
     (closed, l) \<leftarrow> block_comment_loop text (l\<lparr>lex_cursor := start + 2\<rparr>);
     l \<leftarrow> push_comment text (block_comment_kind rest) start (lex_cursor l) l;
     if closed then Some l else lex_report text UnterminatedBlockComment start (lex_cursor l) l })"

section \<open>Byte and character literals\<close>

lemma str_get_SomeD:
  "str_get a b bs = Some r \<Longrightarrow> a \<le> b \<and> b \<le> length bs \<and> r = take (b - a) (drop a bs)"
  by (auto simp: str_get_def split: if_splits)

lemma prefix_width_pos: "bs \<noteq> [] \<Longrightarrow> 0 < k \<Longrightarrow> 0 < prefix_width k bs"
  by (cases k; cases bs) auto

lemma decode_escape_width:
  "decode_escape text i limit = Some r \<Longrightarrow> 0 < (case r of Inl n \<Rightarrow> n | Inr (_, n) \<Rightarrow> n)"
  by (auto simp: decode_escape_def Let_def source_character_prefix_len_def dest!: str_get_SomeD
      intro!: prefix_width_pos split: if_splits option.splits)

definition escape_source_len :: "utf8_text \<Rightarrow> nat \<Rightarrow> nat option" where
  "escape_source_len text i =
     map_option (\<lambda>r. case r of Inl n \<Rightarrow> n | Inr (_, n) \<Rightarrow> n) (decode_escape text i (length text))"

text \<open>
  The scan of a quoted literal, with the length of an escape as a parameter: the closing quote, a
  newline or the end of the text ends it.
\<close>

datatype quoted_end = Closed nat | AtNewline nat | AtEnd nat

lemma escape_source_len_pos: "escape_source_len text i = Some n \<Longrightarrow> 0 < n"
  by (auto simp: escape_source_len_def dest!: decode_escape_width)

text \<open>\<open>str::find\<close> of a character; \<open>chars().take(2)\<close> of a nonempty rest is never empty.\<close>

definition character_escape_source_len :: "utf8_text \<Rightarrow> nat \<Rightarrow> nat option" where
  "character_escape_source_len text i = do {
     remaining \<leftarrow> str_from i text;
     Some (case strip_prefix (CHR 0x5C # ''u{'') remaining of
         Some after \<Rightarrow> (case position (\<lambda>c. c = CHR ''}'') after of None \<Rightarrow> length remaining | Some k \<Rightarrow> 3 + k + 1)
       | None \<Rightarrow> max (prefix_width 2 remaining) 1) }"

lemma character_escape_source_len_pos: "character_escape_source_len text i = Some n \<Longrightarrow> 0 < n"
  by (auto simp: character_escape_source_len_def strip_prefix_def starts_with_def
      split: option.splits if_splits bind_splits)

function scan_quoted :: "(utf8_text \<Rightarrow> nat \<Rightarrow> nat option) \<Rightarrow> utf8_text \<Rightarrow> nat \<Rightarrow> quoted_end option" where
  "scan_quoted escape_len text i =
     (if length text \<le> i then Some (AtEnd i)
      else if text ! i = CHR 0x27 then Some (Closed i)
      else if text ! i = CHR 0x0A then Some (AtNewline i)
      else do {
        n \<leftarrow> (if text ! i = CHR 0x5C then escape_len text i else char_len_at text i);
        if n = 0 then None else scan_quoted escape_len text (i + n) })"
  by pat_completeness auto

termination
  by (relation "measure (\<lambda>(_, text, i). length text - i)") auto

declare scan_quoted.simps [simp del]

text \<open>The content of a byte literal: the bytes it stands for, and whether every escape was valid.\<close>

function validate_byte_loop ::
  "utf8_text \<Rightarrow> nat \<Rightarrow> nat \<Rightarrow> nat \<Rightarrow> bool \<Rightarrow> lexer \<Rightarrow> (nat \<times> bool \<times> lexer) option" where
  "validate_byte_loop text i stop count valid l =
     (if stop \<le> i then Some (count, valid, l)
      else if length text \<le> i then None
      else if text ! i = CHR 0x5C then do {
        r \<leftarrow> decode_escape text i stop;
        case r of
          Inr (_, n) \<Rightarrow> validate_byte_loop text (i + n) stop (count + 1) valid l
        | Inl n \<Rightarrow> do {
            l \<leftarrow> lex_report text InvalidEscape i (min (i + n) stop) l;
            validate_byte_loop text (max (min (i + n) stop) (i + 1)) stop count False l } }
      else do {
        n \<leftarrow> char_len_at text i;
        validate_byte_loop text (i + n) stop (count + n) valid l })"
  by pat_completeness auto

termination
  by (relation "measure (\<lambda>(text, i, stop, _). stop - i)")
    (auto dest!: char_len_at_pos decode_escape_width)

declare validate_byte_loop.simps [simp del]

definition validate_byte_content :: "utf8_text \<Rightarrow> nat \<Rightarrow> nat \<Rightarrow> lexer \<Rightarrow> lexer option" where
  "validate_byte_content text start stop l = do {
     (count, valid, l) \<leftarrow> validate_byte_loop text start stop 0 True l;
     if valid \<and> count \<noteq> 1 then lex_report text InvalidByteLength start stop l else Some l }"

definition lex_byte_literal :: "utf8_text \<Rightarrow> lexer \<Rightarrow> lexer option" where
  "lex_byte_literal text l = (let start = lex_cursor l; content = start + 2 in do {
     e \<leftarrow> scan_quoted escape_source_len text content;
     case e of
       Closed i \<Rightarrow> do {
         l \<leftarrow> push_token text ByteLiteral start (i + 1) (l\<lparr>lex_cursor := i + 1\<rparr>);
         validate_byte_content text content i l }
     | AtNewline i \<Rightarrow> lex_report text ByteLiteralNewline i (i + 1) (l\<lparr>lex_cursor := i\<rparr>)
     | AtEnd i \<Rightarrow> lex_report text UnterminatedByteLiteral start i (l\<lparr>lex_cursor := i\<rparr>) })"

definition validate_character_content :: "utf8_text \<Rightarrow> nat \<Rightarrow> nat \<Rightarrow> lexer \<Rightarrow> lexer option" where
  "validate_character_content text start stop l = do {
     content \<leftarrow> str_get start stop text;
     case decode_character_content content of
       Inr _ \<Rightarrow> Some l
     | Inl (InvalidEscapeAt off len) \<Rightarrow> lex_report text InvalidEscape (start + off) (min (start + off + len) stop) l
     | Inl InvalidLength \<Rightarrow> lex_report text InvalidCharacterLength start stop l }"

definition lex_character_literal :: "utf8_text \<Rightarrow> lexer \<Rightarrow> lexer option" where
  "lex_character_literal text l = (let start = lex_cursor l; content = start + 1 in do {
     e \<leftarrow> scan_quoted character_escape_source_len text content;
     case e of
       Closed i \<Rightarrow> do {
         l \<leftarrow> push_token text CharacterLiteral start (i + 1) (l\<lparr>lex_cursor := i + 1\<rparr>);
         validate_character_content text content i l }
     | AtNewline i \<Rightarrow> lex_report text CharacterLiteralNewline i (i + 1) (l\<lparr>lex_cursor := i\<rparr>)
     | AtEnd i \<Rightarrow> lex_report text UnterminatedCharacterLiteral start i (l\<lparr>lex_cursor := i\<rparr>) })"

section \<open>Punctuation\<close>

definition lex_punctuation_or_error :: "utf8_text \<Rightarrow> lexer \<Rightarrow> lexer option" where
  "lex_punctuation_or_error text l = (let start = lex_cursor l in do {
     rest \<leftarrow> str_from start text;
     case longest_prefix rest of
       Some p \<Rightarrow>
         let stop = start + length (punctuation_str p) in
         push_token text (Punctuation p) start stop (l\<lparr>lex_cursor := stop\<rparr>)
     | None \<Rightarrow> do {
         n \<leftarrow> next_char_len text l;
         lex_report text UnexpectedCharacter start (start + n) (l\<lparr>lex_cursor := start + n\<rparr>) } })"

section \<open>Strings\<close>

definition rfind :: "('a \<Rightarrow> bool) \<Rightarrow> 'a list \<Rightarrow> nat option" where
  "rfind p xs = map_option (\<lambda>k. length xs - 1 - k) (position p (rev xs))"

definition delimiter_len :: "string_delimiter \<Rightarrow> nat" where
  "delimiter_len d = (case d of SingleLine \<Rightarrow> 1 | MultiLine \<Rightarrow> 3)"

definition triple_quote :: utf8_text where
  "triple_quote = [CHR 0x22, CHR 0x22, CHR 0x22]"

definition is_newline :: "char \<Rightarrow> bool" where
  "is_newline c \<longleftrightarrow> c = CHR 0x0A"

definition is_blank :: "char \<Rightarrow> bool" where
  "is_blank c \<longleftrightarrow> c = CHR '' '' \<or> c = CHR 0x09"

text \<open>The start of the line that holds position \<open>i\<close>; a prefix slice off a boundary panics.\<close>

definition line_start_before :: "utf8_text \<Rightarrow> nat \<Rightarrow> nat \<Rightarrow> nat option" where
  "line_start_before text i otherwise =
     map_option (\<lambda>front. case rfind is_newline front of None \<Rightarrow> otherwise | Some k \<Rightarrow> k + 1) (str_get 0 i text)"

definition is_string_end :: "utf8_text \<Rightarrow> string_delimiter \<Rightarrow> lexer \<Rightarrow> bool option" where
  "is_string_end text d l =
     (case d of
        SingleLine \<Rightarrow> Some (byte_is (\<lambda>c. c = CHR 0x22) text (lex_cursor l))
      | MultiLine \<Rightarrow> do {
          quotes \<leftarrow> looking_at triple_quote text l;
          if \<not> quotes then Some False
          else do {
            line_start \<leftarrow> line_start_before text (lex_cursor l) 0;
            if lex_cursor l < line_start then None
            else Some (list_all is_blank (take (lex_cursor l - line_start) (drop line_start text))) } })"

function validate_string_loop ::
  "utf8_text \<Rightarrow> nat \<Rightarrow> nat \<Rightarrow> utf8_text \<Rightarrow> bool \<Rightarrow> lexer \<Rightarrow> (utf8_text \<times> bool \<times> lexer) option" where
  "validate_string_loop text i stop decoded valid l =
     (if stop \<le> i then Some (decoded, valid, l)
      else if length text \<le> i then None
      else if text ! i \<noteq> CHR 0x5C then do {
        n \<leftarrow> char_len_at text i;
        if length text < i + n then None
        else validate_string_loop text (i + n) stop (decoded @ take n (drop i text)) valid l }
      else do {
        r \<leftarrow> decode_escape text i stop;
        case r of
          Inr (b, n) \<Rightarrow> validate_string_loop text (i + n) stop (decoded @ [b]) valid l
        | Inl n \<Rightarrow> do {
            l \<leftarrow> lex_report text InvalidEscape i (min (i + n) stop) l;
            validate_string_loop text (max (min (i + n) stop) (i + 1)) stop decoded False l } })"
  by pat_completeness auto

termination
  by (relation "measure (\<lambda>(text, i, stop, _). stop - i)")
    (auto dest!: char_len_at_pos decode_escape_width)

declare validate_string_loop.simps [simp del]

definition validate_string_text :: "utf8_text \<Rightarrow> nat \<Rightarrow> nat \<Rightarrow> lexer \<Rightarrow> lexer option" where
  "validate_string_text text start stop l = do {
     (decoded, valid, l) \<leftarrow> validate_string_loop text start stop [] True l;
     if valid \<and> \<not> valid_utf8 decoded then lex_report text InvalidStringUtf8 start stop l else Some l }"

definition emit_string_text :: "utf8_text \<Rightarrow> nat \<Rightarrow> nat \<Rightarrow> lexer \<Rightarrow> lexer option" where
  "emit_string_text text start stop l =
     (if start = stop then Some l
      else do {
        l \<leftarrow> push_token text StringText start stop l;
        validate_string_text text start stop l })"

function indentation_loop :: "utf8_text \<Rightarrow> utf8_text \<Rightarrow> nat \<Rightarrow> nat \<Rightarrow> lexer \<Rightarrow> lexer option" where
  "indentation_loop text indentation line_start closing l =
     (if closing \<le> line_start then Some l
      else
        let line_end = (case position is_newline (take (closing - line_start) (drop line_start text)) of
                          None \<Rightarrow> closing | Some k \<Rightarrow> line_start + k) in do {
          l \<leftarrow> (if line_start < line_end
                  \<and> \<not> starts_with indentation (take (line_end - line_start) (drop line_start text))
                then lex_report text MultilineStringIndentation line_start line_end l else Some l);
          indentation_loop text indentation (line_end + 1) closing l })"
  by pat_completeness auto

termination
  by (relation "measure (\<lambda>(_, _, i, closing, _). closing - i)") (auto split: option.splits)

declare indentation_loop.simps [simp del]

definition validate_multiline_indentation :: "utf8_text \<Rightarrow> nat \<Rightarrow> nat \<Rightarrow> lexer \<Rightarrow> lexer option" where
  "validate_multiline_indentation text literal_start delimiter_start l =
     (let content_start = literal_start + 3 in
      if \<not> byte_is is_newline text content_start then Some l
      else do {
        closing \<leftarrow> line_start_before text delimiter_start content_start;
        if delimiter_start < closing then None
        else indentation_loop text (take (delimiter_start - closing) (drop closing text)) (content_start + 1) closing l })"

text \<open>The opening of a string literal: its delimiter, its start and the new state.\<close>

definition open_string :: "utf8_text \<Rightarrow> lexer \<Rightarrow> (string_delimiter \<times> lexer) option" where
  "open_string text l = (let start = lex_cursor l in do {
     quotes \<leftarrow> looking_at triple_quote text l;
     let d = (if quotes then MultiLine else SingleLine);
     let stop = start + delimiter_len d;
     l \<leftarrow> push_token text (StringStart d) start stop (l\<lparr>lex_cursor := stop\<rparr>);
     l \<leftarrow> (if d = MultiLine \<and> \<not> byte_is is_newline text stop
          then lex_report text MultilineStringOpeningNewline start stop l else Some l);
     Some (d, l) })"

definition close_string :: "utf8_text \<Rightarrow> string_delimiter \<Rightarrow> nat \<Rightarrow> nat \<Rightarrow> lexer \<Rightarrow> lexer option" where
  "close_string text d start text_start l = (let i = lex_cursor l in do {
     l \<leftarrow> (if d = MultiLine then validate_multiline_indentation text start i l else Some l);
     l \<leftarrow> emit_string_text text text_start i l;
     push_token text (StringEnd d) i (i + delimiter_len d) (l\<lparr>lex_cursor := i + delimiter_len d\<rparr>) })"

section \<open>Code\<close>

text \<open>The arms of \<open>lex_code\<close> that start no string and no interpolated brace.\<close>

definition lex_plain :: "utf8_text \<Rightarrow> lexer \<Rightarrow> lexer option" where
  "lex_plain text l = (let start = lex_cursor l; b = text ! start in
     if is_blank b then Some (l\<lparr>lex_cursor := start + 1\<rparr>)
     else if b = CHR 0x0A then push_token text Newline start (start + 1) (l\<lparr>lex_cursor := start + 1\<rparr>)
     else do {
       rest \<leftarrow> str_from start text;
       if starts_with ''//'' rest then lex_line_comment text l
       else if starts_with ''/*'' rest then lex_block_comment text l
       else if starts_with (''b'' @ [CHR 0x27]) rest then lex_byte_literal text l
       else if b = CHR 0x27 then lex_character_literal text l
       else if is_ascii_digit b then lex_number text l
       else if b = CHR ''.'' \<and> byte_is is_ascii_digit text (start + 1) \<and> \<not> can_lex_tuple_projection l
       then lex_leading_dot_float text l
       else if is_identifier_start b then lex_identifier text l
       else lex_punctuation_or_error text l })"

fun lex_code :: "nat \<Rightarrow> utf8_text \<Rightarrow> bool \<Rightarrow> nat \<Rightarrow> lexer \<Rightarrow> (bool \<times> lexer) option"
and lex_string :: "nat \<Rightarrow> utf8_text \<Rightarrow> string_delimiter \<Rightarrow> nat \<Rightarrow> nat \<Rightarrow> lexer \<Rightarrow> lexer option"
where
  "lex_code 0 text interpolation depth l = None"
| "lex_code (Suc n) text interpolation depth l =
     (let start = lex_cursor l in
      if length text \<le> start then
        if interpolation then
          map_option (Pair False) (lex_report text UnterminatedInterpolation start start l)
        else Some (True, l)
      else if interpolation \<and> text ! start = CHR ''}'' then
        if depth = 0 then
          map_option (Pair True) (push_token text InterpolationEnd start (start + 1) (l\<lparr>lex_cursor := start + 1\<rparr>))
        else do {
          l \<leftarrow> push_token text (Punctuation PRightBrace) start (start + 1) (l\<lparr>lex_cursor := start + 1\<rparr>);
          lex_code n text interpolation (depth - 1) l }
      else if text ! start = CHR 0x22 then do {
        (d, l) \<leftarrow> open_string text l;
        l \<leftarrow> lex_string n text d start (lex_cursor l) l;
        lex_code n text interpolation depth l }
      else if text ! start = CHR ''{'' then do {
        l \<leftarrow> push_token text (Punctuation PLeftBrace) start (start + 1) (l\<lparr>lex_cursor := start + 1\<rparr>);
        lex_code n text interpolation (if interpolation then depth + 1 else depth) l }
      else do {
        l \<leftarrow> lex_plain text l;
        lex_code n text interpolation depth l })"
| "lex_string 0 text d start text_start l = None"
| "lex_string (Suc n) text d start text_start l =
     (let i = lex_cursor l in
      if length text \<le> i then do {
        l \<leftarrow> emit_string_text text text_start i l;
        lex_report text UnterminatedString start i l }
      else do {
        done \<leftarrow> is_string_end text d l;
        if done then close_string text d start text_start l
        else do {
          dollar \<leftarrow> looking_at ''${'' text l;
          if dollar then do {
            l \<leftarrow> emit_string_text text text_start i l;
            l \<leftarrow> push_token text InterpolationStart i (i + 2) (l\<lparr>lex_cursor := i + 2\<rparr>);
            (closed, l) \<leftarrow> lex_code n text True 0 l;
            if closed then lex_string n text d start (lex_cursor l) l else Some l }
          else if text ! i = CHR 0x5C then do {
            k \<leftarrow> escape_source_len text i;
            lex_string n text d start text_start (l\<lparr>lex_cursor := i + k\<rparr>) }
          else if text ! i = CHR 0x0A \<and> d = SingleLine then do {
            l \<leftarrow> emit_string_text text text_start i l;
            lex_report text SingleLineStringNewline i (i + 1) l }
          else do {
            k \<leftarrow> next_char_len text l;
            lex_string n text d start text_start (l\<lparr>lex_cursor := i + k\<rparr>) } } })"

text \<open>\<open>attach_joint_facts\<close>: a token is joint when the next one starts where it ends.\<close>

fun attach_joint_facts :: "token list \<Rightarrow> token list" where
  "attach_joint_facts (a # b # rest) =
     a\<lparr>joint_to_next := (range_end (token_range a) = range_start (token_range b))\<rparr> # attach_joint_facts (b # rest)"
| "attach_joint_facts ts = ts"

definition lex_file :: "utf8_text \<Rightarrow> lexed_file option" where
  "lex_file text = do {
     (_, l) \<leftarrow> lex_code (length text + 1) text False 0 lexer_new;
     let stop = min (lex_cursor l) (length text);
     l \<leftarrow> push_token text EndOfFile stop stop l;
     Some \<lparr>lexed_tokens = attach_joint_facts (lex_tokens l), lexed_comments = lex_comments l,
       lexed_diagnostics = lex_diagnostics l\<rparr> }"

end
