(* ===== verification/Lexer_Correct.thy ===== *)
theory Lexer_Correct
  imports Lexer
begin

text \<open>
  Correctness of the lexer: on valid UTF-8 below the coordinate limit it never panics and always ends; the
  tokens are in order, do not overlap and spell what their kind says; and if nothing is reported, every
  byte belongs to a token or a comment or is a blank.
\<close>

section \<open>Slices of valid text\<close>

definition source_ok :: "utf8_text \<Rightarrow> bool" where
  "source_ok src \<longleftrightarrow> valid_utf8 src \<and> length src < 4294967296"

lemma source_ok_ascii: "list_all (\<lambda>b. code b < 128) src \<Longrightarrow> length src < 4294967296 \<Longrightarrow> source_ok src"
  by (simp add: source_ok_def valid_utf8_ascii)

lemma utf8_first_take:
  assumes "utf8_first bs = Some n" and "n \<le> i"
  shows "utf8_first (take i bs) = Some n"
proof -
  obtain j where i: "i = n + j" using assms(2) le_iff_add by blast
  from assms(1) show ?thesis
  proof (cases rule: utf8_first_cases)
    case (one b r)
    with i show ?thesis by simp
  next
    case (two b c r)
    with i assms(1) show ?thesis by (simp add: Let_def numeral_2_eq_2)
  next
    case (three b c d r)
    with i assms(1) show ?thesis by (simp add: Let_def numeral_3_eq_3)
  next
    case (four b c d e r)
    then have "take i bs = b # c # d # e # take j r" using i by (simp add: eval_nat_numeral)
    with four assms(1) show ?thesis by (simp add: Let_def)
  qed
qed

lemma valid_utf8_take:
  assumes "valid_utf8 bs" and "is_char_boundary bs i" and "i \<le> length bs"
  shows "valid_utf8 (take i bs)"
  using assms
proof (induction arbitrary: i rule: valid_utf8_induct)
  case (char bs n)
  consider "i = 0" | "0 < i" "i < n" | "n \<le> i" by linarith
  then show ?case
  proof cases
    case 2
    with utf8_first_shape(3) [OF char(2)] utf8_first_bounds [OF char(2)] char.prems show ?thesis
      by (auto simp: is_char_boundary_def)
  next
    case 3
    with char.prems utf8_first_bounds [OF char(2)]
    have "is_char_boundary (drop n bs) (i - n)" "i - n \<le> length (drop n bs)"
      by (auto simp: is_char_boundary_def)
    from char.IH [OF this] have rest: "valid_utf8 (drop n (take i bs))"
      using 3 by (simp add: drop_take)
    from utf8_first_take [OF char(2) 3] rest show ?thesis by (rule valid_utf8_append_char)
  qed simp
qed simp

lemma str_get_ok:
  "a \<le> b \<Longrightarrow> b \<le> length bs \<Longrightarrow> is_char_boundary bs a \<Longrightarrow> is_char_boundary bs b \<Longrightarrow>
    str_get a b bs = Some (take (b - a) (drop a bs))"
  by (simp add: str_get_def)

lemma str_from_ok: "a \<le> length bs \<Longrightarrow> is_char_boundary bs a \<Longrightarrow> str_from a bs = Some (drop a bs)"
  by (simp add: str_from_def)

lemma valid_slice:
  assumes "valid_utf8 bs" and "a \<le> b" and "b \<le> length bs" and "is_char_boundary bs a" and "is_char_boundary bs b"
  shows "valid_utf8 (take (b - a) (drop a bs))"
proof -
  have "is_char_boundary (take b bs) a" using assms by (auto simp: is_char_boundary_def)
  from valid_utf8_drop [OF valid_utf8_take [OF assms(1,5,3)] this] assms(2,3) show ?thesis
    by (simp add: drop_take)
qed

lemma boundary_slice:
  assumes "is_char_boundary (take (b - a) (drop a bs)) k" and "a + k \<le> b" and "b \<le> length bs"
    and "is_char_boundary bs a" and "is_char_boundary bs b"
  shows "is_char_boundary bs (a + k)"
  using assms by (cases "a + k = b") (auto simp: is_char_boundary_def add.commute)

lemma prefix_width_ok:
  "valid_utf8 bs \<Longrightarrow> is_char_boundary bs (prefix_width k bs) \<and> prefix_width k bs \<le> length bs"
proof (induction k bs rule: prefix_width.induct)
  case (3 k b bs)
  let ?w = "utf8_width b"
  have step: "is_char_boundary (b # bs) ?w" "?w \<le> length (b # bs)"
    using boundary_next [OF 3(2), of 0] by simp_all
  from valid_utf8_drop [OF 3(2) step] have "valid_utf8 (drop ?w (b # bs))" .
  from 3(1) [OF this] step show ?case
    using boundary_slice [of "length (b # bs)" ?w "b # bs" "prefix_width k (drop ?w (b # bs))"]
      boundary_length [of "b # bs"] by (simp add: le_diff_conv2 add.commute)
qed simp_all

text \<open>Positions in the text at which the lexer may stand.\<close>

definition at_boundary :: "utf8_text \<Rightarrow> nat \<Rightarrow> bool" where
  "at_boundary src i \<longleftrightarrow> i \<le> length src \<and> is_char_boundary src i"

lemma at_boundary_end [simp]: "at_boundary src (length src)"
  by (simp add: at_boundary_def)

lemma at_boundary_0 [simp]: "at_boundary src 0"
  by (simp add: at_boundary_def)

lemma at_boundary_ascii:
  "source_ok src \<Longrightarrow> i < length src \<Longrightarrow> code (src ! i) < 128 \<Longrightarrow> at_boundary src i \<and> at_boundary src (i + 1)"
  by (simp add: at_boundary_def source_ok_def ascii_boundary ascii_next [of src i, simplified])

lemma char_len_at_ok:
  assumes "source_ok src" and "at_boundary src i" and "i < length src"
  obtains n where "char_len_at src i = Some n" and "0 < n" and "at_boundary src (i + n)"
proof -
  obtain c r where "drop i src = c # r" "c = src ! i" using assms(3) by (metis Cons_nth_drop_Suc)
  with assms boundary_next [of src i] that [of "utf8_width (src ! i)"] show thesis
    by (simp add: char_len_at_def str_from_ok at_boundary_def source_ok_def)
qed

text \<open>No boundary lies inside a character.\<close>

lemma char_len_within:
  assumes "source_ok src" and "at_boundary src i" and "char_len_at src i = Some n" and "at_boundary src j" and "i < j"
  shows "i + n \<le> j"
proof (rule ccontr)
  assume "\<not> i + n \<le> j"
  have i: "i < length src" using assms(4,5) by (simp add: at_boundary_def)
  have "valid_utf8 (drop i src)" "drop i src \<noteq> []"
    using assms(1,2) i by (auto simp: source_ok_def at_boundary_def intro: valid_utf8_drop)
  then obtain m where m: "utf8_first (drop i src) = Some m" "m \<le> length (drop i src)" by (rule valid_utf8_step)
  obtain c r where "drop i src = c # r" using i by (metis Cons_nth_drop_Suc)
  with assms(2,3) utf8_first_shape(1) [OF m(1)] have "m = n"
    by (simp add: char_len_at_def str_from_ok at_boundary_def)
  with utf8_first_shape(3) [OF m(1), of "j - i"] \<open>\<not> i + n \<le> j\<close> assms(5) i have "continuation (src ! j)" by simp
  with assms(4,5) m(2) \<open>m = n\<close> \<open>\<not> i + n \<le> j\<close> i show False
    by (auto simp: at_boundary_def is_char_boundary_def)
qed

lemma skip_while_ok:
  assumes "source_ok src" and "\<And>c. p c \<Longrightarrow> code c < 128" and "at_boundary src i"
  shows "i \<le> skip_while p src i \<and> at_boundary src (skip_while p src i)"
  using assms
proof (induction p src i rule: skip_while.induct)
  case (1 p src i)
  show ?case
  proof (cases "i < length src \<and> p (src ! i)")
    case True
    with 1(3) at_boundary_ascii [OF 1(2), of i] have "at_boundary src (i + 1)" by blast
    from 1(1) [OF True 1(2) 1(3) this] True show ?thesis by (simp add: skip_while.simps [of p src i])
  next
    case False
    then have "skip_while p src i = i" by (subst skip_while.simps) auto
    with 1(4) show ?thesis by simp
  qed
qed

section \<open>Escapes\<close>

lemma slice_prefix_width:
  assumes "source_ok src" and "at_boundary src i" and "at_boundary src stop" and "i \<le> stop"
  shows "\<exists>n. source_character_prefix_len src i stop k = Some n \<and> at_boundary src (i + n) \<and> i + n \<le> stop
    \<and> (i < stop \<longrightarrow> 0 < k \<longrightarrow> 0 < n)"
proof -
  let ?bs = "take (stop - i) (drop i src)"
  have "valid_utf8 ?bs" using assms valid_slice by (auto simp: source_ok_def at_boundary_def)
  from prefix_width_ok [OF this, of k] assms have "at_boundary src (i + prefix_width k ?bs)" "i + prefix_width k ?bs \<le> stop"
    using boundary_slice [of stop i src "prefix_width k ?bs"] by (auto simp: at_boundary_def)
  moreover have "i < stop \<Longrightarrow> 0 < k \<Longrightarrow> 0 < prefix_width k ?bs"
    using assms by (intro prefix_width_pos) (auto simp: at_boundary_def)
  ultimately show ?thesis using assms
    by (auto simp: source_character_prefix_len_def str_get_ok at_boundary_def)
qed

lemma simple_escape_ascii: "simple_escape c = Some b \<Longrightarrow> code c < 128"
  by (auto simp: simple_escape_def code_def split: if_splits)

lemma hex_value_ascii: "hex_value c = Some v \<Longrightarrow> code c < 128"
  by (auto simp: hex_value_def is_ascii_digit_def split: if_splits)

definition escape_width :: "nat + char \<times> nat \<Rightarrow> nat" where
  "escape_width r = (case r of Inl n \<Rightarrow> n | Inr (_, n) \<Rightarrow> n)"

lemma backslash_code [simp]: "code (CHR 0x5C) = 92"
  by (simp add: code_def)

lemma decode_escape_ok:
  assumes src: "source_ok src" and i: "src ! i = CHR 0x5C" "i < stop" and stop: "at_boundary src stop"
  shows "\<exists>r. decode_escape src i stop = Some r \<and> 0 < escape_width r \<and> at_boundary src (i + escape_width r)
    \<and> i + escape_width r \<le> stop"
proof -
  have len: "stop \<le> length src" using stop by (simp add: at_boundary_def)
  have bi: "at_boundary src i" "at_boundary src (i + 1)"
    using at_boundary_ascii [OF src, of i] i len by auto
  show ?thesis
  proof (cases "i + 1 < stop")
    case False
    then show ?thesis using i bi by (simp add: decode_escape_def escape_width_def)
  next
    case True
    let ?c = "src ! (i + 1)"
    have next_: "i + 1 < length src" using True len by simp
    have prefix: "\<exists>n. source_character_prefix_len src i stop k = Some n \<and> at_boundary src (i + n) \<and> i + n \<le> stop \<and> 0 < n"
      if "0 < k" for k
      using slice_prefix_width [OF src bi(1) stop, of k] i(2) that by auto
    show ?thesis
    proof (cases "simple_escape ?c")
      case (Some b)
      then have "at_boundary src (i + 2)" using at_boundary_ascii [OF src next_] simple_escape_ascii by (simp add: numeral_2_eq_2)
      with Some True next_ show ?thesis by (simp add: decode_escape_def escape_width_def)
    next
      case None
      note plain = this
      show ?thesis
      proof (cases "?c = CHR ''x'' \<and> i + 4 \<le> stop")
        case False
        with plain True next_ prefix [of 4] prefix [of 2] show ?thesis
          by (auto simp: decode_escape_def escape_width_def)
      next
        case True
        then have idx: "i + 3 < length src" using len by simp
        show ?thesis
        proof (cases "hex_value (src ! (i + 2)) = None \<or> hex_value (src ! (i + 3)) = None")
          case True
          with \<open>?c = CHR ''x'' \<and> i + 4 \<le> stop\<close> plain idx \<open>i + 1 < stop\<close> next_ prefix [of 4] show ?thesis
            by (auto simp: decode_escape_def escape_width_def split: option.splits)
        next
          case False
          then obtain high low where hex: "hex_value (src ! (i + 2)) = Some high" "hex_value (src ! (i + 3)) = Some low" by auto
          have "at_boundary src (i + 4)" using at_boundary_ascii [OF src idx hex_value_ascii [OF hex(2)]] by (simp add: numeral_eq_Suc)
          with hex \<open>?c = CHR ''x'' \<and> i + 4 \<le> stop\<close> plain idx \<open>i + 1 < stop\<close> next_ show ?thesis
            by (simp add: decode_escape_def escape_width_def)
        qed
      qed
    qed
  qed
qed

lemma escape_source_len_ok:
  assumes "source_ok src" and "src ! i = CHR 0x5C" and "i < length src"
  shows "\<exists>n. escape_source_len src i = Some n \<and> 0 < n \<and> at_boundary src (i + n)"
  using decode_escape_ok [OF assms(1,2,3) at_boundary_end]
  by (auto simp: escape_source_len_def escape_width_def)

lemma character_escape_source_len_ok:
  assumes src: "source_ok src" and "src ! i = CHR 0x5C" and "i < length src"
  shows "\<exists>n. character_escape_source_len src i = Some n \<and> 0 < n \<and> at_boundary src (i + n)"
proof -
  let ?rest = "drop i src"
  have bi: "at_boundary src i" using at_boundary_ascii [OF src assms(3)] assms(2) by simp
  have from_: "str_from i src = Some ?rest" using bi by (simp add: at_boundary_def str_from_ok)
  show ?thesis
  proof (cases "strip_prefix (CHR 0x5C # ''u{'') ?rest")
    case None
    have "valid_utf8 ?rest" using bi src valid_utf8_drop by (auto simp: at_boundary_def source_ok_def)
    from prefix_width_ok [OF this, of 2] bi assms(3)
    have "at_boundary src (i + prefix_width 2 ?rest)"
      using boundary_slice [of "length src" i src "prefix_width 2 ?rest"] by (auto simp: at_boundary_def)
    moreover have "0 < prefix_width 2 ?rest" using assms(3) by (intro prefix_width_pos) auto
    then have "max (prefix_width 2 ?rest) 1 = prefix_width 2 ?rest" by simp
    ultimately show ?thesis
      using None from_ \<open>0 < prefix_width 2 ?rest\<close> by (simp add: character_escape_source_len_def)
  next
    case (Some after)
    then have after: "after = drop 3 ?rest" by (auto simp: strip_prefix_def eval_nat_numeral split: if_splits)
    show ?thesis
    proof (cases "position (\<lambda>c. c = CHR ''}'') after")
      case None
      with Some from_ assms(3) show ?thesis by (simp add: character_escape_source_len_def)
    next
      case (Some k)
      from position_SomeD [OF Some] after have k: "i + (3 + k) < length src" "src ! (i + (3 + k)) = CHR ''}''"
        by (auto simp: ac_simps)
      have "at_boundary src (i + (3 + k) + 1)"
        using at_boundary_ascii [OF src k(1)] k(2) by (simp add: code_def)
      then have "at_boundary src (i + (3 + k + 1))" by (simp only: add.assoc)
      then show ?thesis
        using \<open>strip_prefix _ _ = Some after\<close> Some from_ by (simp add: character_escape_source_len_def)
    qed
  qed
qed

lemma decode_character_content_offset: "decode_character_content bs = Inl (InvalidEscapeAt off len) \<Longrightarrow> off = 0"
  by (auto simp: decode_character_content_def decode_unicode_escape_def split: option.splits if_splits)

section \<open>The invariant of the lexer\<close>

text \<open>A token is a nonempty range of whole characters that spells its kind.\<close>

definition spelling :: "utf8_text \<Rightarrow> text_range \<Rightarrow> utf8_text" where
  "spelling src r = take (range_end r - range_start r) (drop (range_start r) src)"

definition token_fits :: "utf8_text \<Rightarrow> token \<Rightarrow> bool" where
  "token_fits src t \<longleftrightarrow>
     range_start (token_range t) < range_end (token_range t)
     \<and> at_boundary src (range_start (token_range t)) \<and> at_boundary src (range_end (token_range t))
     \<and> (case token_kind t of
          Punctuation p \<Rightarrow> spelling src (token_range t) = punctuation_str p
        | Keyword k \<Rightarrow> spelling src (token_range t) = keyword_str k
        | EndOfFile \<Rightarrow> False
        | _ \<Rightarrow> True)"

definition tokens_placed :: "utf8_text \<Rightarrow> token list \<Rightarrow> nat \<Rightarrow> bool" where
  "tokens_placed src ts u \<longleftrightarrow> list_all (token_fits src) ts
     \<and> sorted_wrt (\<lambda>a b. range_end (token_range a) \<le> range_start (token_range b)) ts
     \<and> (\<forall>t \<in> set ts. range_end (token_range t) \<le> u)"

definition in_range :: "nat \<Rightarrow> text_range \<Rightarrow> bool" where
  "in_range i r \<longleftrightarrow> range_start r \<le> i \<and> i < range_end r"

text \<open>Every byte before \<open>u\<close> is a blank or belongs to a token or a comment.\<close>

definition covered :: "utf8_text \<Rightarrow> token list \<Rightarrow> comment list \<Rightarrow> nat \<Rightarrow> bool" where
  "covered src ts cs u \<longleftrightarrow>
     (\<forall>i < u. is_blank (src ! i) \<or> (\<exists>t \<in> set ts. in_range i (token_range t))
        \<or> (\<exists>c \<in> set cs. in_range i (comment_range c)))"

definition lexer_ok :: "utf8_text \<Rightarrow> nat \<Rightarrow> lexer \<Rightarrow> bool" where
  "lexer_ok src u l \<longleftrightarrow> u \<le> lex_cursor l \<and> at_boundary src u \<and> at_boundary src (lex_cursor l)
     \<and> tokens_placed src (lex_tokens l) u
     \<and> (lex_diagnostics l = [] \<longrightarrow> covered src (lex_tokens l) (lex_comments l) u)"

lemma lex_span_ok:
  "source_ok src \<Longrightarrow> a \<le> b \<Longrightarrow> b \<le> length src \<Longrightarrow> lex_span src a b = Some \<lparr>range_start = a, range_end = b\<rparr>"
  by (simp add: lex_span_def offset_of_def source_ok_def text_range_new_def)

text \<open>Pushing a token that starts where the text before it ends.\<close>

lemma push_ok:
  assumes "source_ok src" and "lexer_ok src a l" and "a < b" and "at_boundary src b"
    and "token_fits src (token_new k \<lparr>range_start = a, range_end = b\<rparr>)"
    and "b \<le> c" and "at_boundary src c"
  shows "\<exists>l'. push_token src k a b (l\<lparr>lex_cursor := c\<rparr>) = Some l' \<and> lexer_ok src b l' \<and> lex_cursor l' = c
    \<and> lex_diagnostics l' = lex_diagnostics l"
proof -
  let ?t = "token_new k \<lparr>range_start = a, range_end = b\<rparr>"
  have r: "token_range ?t = \<lparr>range_start = a, range_end = b\<rparr>" by (simp add: token_new_def)
  have "tokens_placed src (lex_tokens l @ [?t]) b"
    using assms(2,3,5) by (auto simp: lexer_ok_def tokens_placed_def sorted_wrt_append r)
  moreover have "covered src (lex_tokens l @ [?t]) (lex_comments l) b" if "lex_diagnostics l = []"
    using assms(2) that by (auto simp: lexer_ok_def covered_def r in_range_def) (meson not_le)+
  ultimately show ?thesis
    using assms by (auto simp: push_token_def lex_span_ok at_boundary_def lexer_ok_def)
qed

text \<open>A report changes nothing else, and from then on coverage is no longer claimed.\<close>

lemma report_ok:
  assumes "source_ok src" and "a \<le> b" and "b \<le> length src"
  shows "\<exists>d. lex_report src k a b l = Some (l\<lparr>lex_diagnostics := lex_diagnostics l @ [d]\<rparr>)"
  using assms by (auto simp: lex_report_def lex_span_ok)

lemma reported_ok:
  assumes "lexer_ok src u l" and "u \<le> v" and "v \<le> c" and "at_boundary src v" and "at_boundary src c"
  shows "lexer_ok src v (l\<lparr>lex_cursor := c, lex_diagnostics := lex_diagnostics l @ [d]\<rparr>)"
  using assms by (fastforce simp: lexer_ok_def tokens_placed_def)

lemma reported_here:
  "lexer_ok src u l \<Longrightarrow> lexer_ok src u (l\<lparr>lex_diagnostics := lex_diagnostics l @ ds\<rparr>)"
  by (auto simp: lexer_ok_def)

lemma lexer_ok_cursor:
  "lexer_ok src u l \<Longrightarrow> u \<le> c \<Longrightarrow> at_boundary src c \<Longrightarrow> lexer_ok src u (l\<lparr>lex_cursor := c\<rparr>)"
  by (auto simp: lexer_ok_def)

lemma lexer_ok_cursorD: "lexer_ok src u l \<Longrightarrow> at_boundary src (lex_cursor l) \<and> at_boundary src u \<and> u \<le> lex_cursor l"
  by (simp add: lexer_ok_def)

text \<open>Inside a block comment newlines are tokens; everything else belongs to the comment.\<close>

definition comment_text :: "utf8_text \<Rightarrow> nat \<Rightarrow> lexer \<Rightarrow> bool" where
  "comment_text src u l \<longleftrightarrow> u \<le> lex_cursor l \<and> at_boundary src (lex_cursor l)
     \<and> tokens_placed src (lex_tokens l) (lex_cursor l)
     \<and> (lex_diagnostics l = [] \<longrightarrow> covered src (lex_tokens l) (lex_comments l) u)"

lemma comment_text_start: "lexer_ok src u l \<Longrightarrow> comment_text src u l"
  by (fastforce simp: lexer_ok_def comment_text_def tokens_placed_def)

lemma comment_ok:
  assumes "source_ok src" and "comment_text src u l"
  shows "\<exists>l'. push_comment src k u (lex_cursor l) l = Some l' \<and> lexer_ok src (lex_cursor l) l'
    \<and> lex_cursor l' = lex_cursor l"
proof -
  let ?c = "\<lparr>comment_kind = k, comment_range = \<lparr>range_start = u, range_end = lex_cursor l\<rparr>\<rparr>"
  have "covered src (lex_tokens l) (lex_comments l @ [?c]) (lex_cursor l)" if "lex_diagnostics l = []"
    unfolding covered_def
  proof (intro allI impI)
    fix i
    assume "i < lex_cursor l"
    show "is_blank (src ! i) \<or> (\<exists>t \<in> set (lex_tokens l). in_range i (token_range t))
      \<or> (\<exists>c \<in> set (lex_comments l @ [?c]). in_range i (comment_range c))"
    proof (cases "i < u")
      case True
      with assms(2) that show ?thesis by (auto simp: comment_text_def covered_def)
    next
      case False
      with \<open>i < lex_cursor l\<close> show ?thesis by (simp add: in_range_def)
    qed
  qed
  then show ?thesis
    using assms by (simp add: push_comment_def lex_span_ok at_boundary_def lexer_ok_def comment_text_def)
qed

section \<open>One construct\<close>

text \<open>A construct is lexed without panic, everything it read is accounted for and the cursor has moved.\<close>

definition advances :: "utf8_text \<Rightarrow> lexer \<Rightarrow> lexer option \<Rightarrow> bool" where
  "advances src l r \<longleftrightarrow> (\<exists>l'. r = Some l' \<and> lexer_ok src (lex_cursor l') l' \<and> lex_cursor l < lex_cursor l')"

abbreviation stands :: "utf8_text \<Rightarrow> lexer \<Rightarrow> bool" where
  "stands src l \<equiv> lexer_ok src (lex_cursor l) l"

lemma starts_with_at:
  assumes "source_ok src" and "starts_with p (drop i src)" and "list_all (\<lambda>c. code c < 128) p" and "p \<noteq> []"
  shows "i + length p \<le> length src \<and> at_boundary src i \<and> at_boundary src (i + length p)
    \<and> (\<forall>k < length p. src ! (i + k) = p ! k)"
proof -
  have p: "take (length p) (drop i src) = p" using assms(2) by (simp add: starts_with_def)
  then have len: "i + length p \<le> length src" using assms(4)
    by (metis Nat.le_diff_conv2 add.commute append_take_drop_id drop_eq_Nil length_append length_drop le_add1 linorder_le_cases take_eq_Nil)
  have nth: "src ! (i + k) = p ! k" if "k < length p" for k
    using len that p by (metis add_leE length_drop nth_drop nth_take)
  have final: "i + (length p - 1) < length src" "length p - 1 < length p" using len assms(4) by (cases p; simp)+
  have "at_boundary src (i + (length p - 1) + 1)"
    using at_boundary_ascii [OF assms(1) final(1)] nth [OF final(2)] assms(3) final(2)
    by (simp only: list_all_length)
  moreover have "i + (length p - 1) + 1 = i + length p" using assms(4) by (cases p) simp_all
  ultimately have "at_boundary src (i + length p)" by (simp only:)
  moreover have "at_boundary src i"
    using at_boundary_ascii [OF assms(1), of i] nth [of 0] assms(3,4) len by (cases p) auto
  ultimately show ?thesis using len nth by blast
qed

lemma looking_at_ok: "stands src l \<Longrightarrow> looking_at p src l = Some (starts_with p (drop (lex_cursor l) src))"
  by (simp add: looking_at_def lexer_ok_def at_boundary_def str_from_ok)

lemma fits_plain:
  "a < b \<Longrightarrow> at_boundary src a \<Longrightarrow> at_boundary src b \<Longrightarrow>
    (case k of Punctuation _ \<Rightarrow> False | Keyword _ \<Rightarrow> False | EndOfFile \<Rightarrow> False | _ \<Rightarrow> True) \<Longrightarrow>
    token_fits src (token_new k \<lparr>range_start = a, range_end = b\<rparr>)"
  by (auto simp: token_fits_def token_new_def split: token_kind.splits)

text \<open>The usual push: the token ends where the lexer will stand.\<close>

lemma push_stands:
  assumes "source_ok src" and "stands src l" and "lex_cursor l < b" and "at_boundary src b"
    and "token_fits src (token_new k \<lparr>range_start = lex_cursor l, range_end = b\<rparr>)"
  shows "\<exists>l'. push_token src k (lex_cursor l) b (l\<lparr>lex_cursor := b\<rparr>) = Some l' \<and> stands src l' \<and> lex_cursor l' = b"
  using push_ok [OF assms(1,2,3,4,5) order_refl assms(4)] by auto

lemma report_stands:
  assumes "source_ok src" and "stands src l" and "a \<le> b" and "b \<le> length src"
  shows "\<exists>l'. lex_report src k a b l = Some l' \<and> stands src l' \<and> lex_cursor l' = lex_cursor l"
  using report_ok [OF assms(1,3,4), of k l] reported_here [OF assms(2)] by fastforce

lemma identifier_ascii: "is_identifier_continue c \<Longrightarrow> code c < 128" "is_identifier_start c \<Longrightarrow> code c < 128"
  by (auto simp: is_identifier_continue_def is_identifier_start_def is_ascii_alphabetic_def is_ascii_lowercase_def
      is_ascii_digit_def code_def)

lemma number_ascii: "is_number_word c \<Longrightarrow> code c < 128" "is_digit_or_underscore c \<Longrightarrow> code c < 128"
  "is_ascii_digit c \<Longrightarrow> code c < 128"
  by (auto simp: is_number_word_def is_ascii_alphanumeric_def is_digit_or_underscore_def is_ascii_alphabetic_def
      is_ascii_lowercase_def is_ascii_digit_def code_def)

lemma lex_identifier_ok:
  assumes "source_ok src" and "stands src l" and "lex_cursor l < length src" and "is_identifier_start (src ! lex_cursor l)"
  shows "advances src l (lex_identifier src l)"
proof -
  let ?a = "lex_cursor l"
  define b where "b = skip_while is_identifier_continue src (?a + 1)"
  have a: "at_boundary src ?a" "at_boundary src (?a + 1)"
    using at_boundary_ascii [OF assms(1,3)] identifier_ascii(2) [OF assms(4)] by auto
  have b: "?a < b" "at_boundary src b" using skip_while_ok [where p = is_identifier_continue, OF assms(1) identifier_ascii(1) a(2)] by (auto simp: b_def)
  define w where "w = take (b - ?a) (drop ?a src)"
  have word: "str_get ?a b src = Some w" using a b by (simp add: at_boundary_def str_get_ok w_def)
  let ?k = "case keyword_from_spelling w of Some k \<Rightarrow> Keyword k | None \<Rightarrow> Identifier"
  have "token_fits src (token_new ?k \<lparr>range_start = ?a, range_end = b\<rparr>)"
    using a b by (auto simp: token_fits_def token_new_def spelling_def w_def [symmetric]
        split: option.splits dest: keyword_from_spelling_SomeD)
  from push_stands [OF assms(1,2) b this] b(1) show ?thesis
    unfolding lex_identifier_def Let_def b_def [symmetric] advances_def by (auto simp: word)
qed

lemma lex_number_ok:
  assumes src: "source_ok src" and l: "stands src l" and a: "lex_cursor l < length src" "is_ascii_digit (src ! lex_cursor l)"
  shows "advances src l (lex_number src l)"
proof -
  let ?a = "lex_cursor l"
  have at: "at_boundary src ?a" "at_boundary src (?a + 1)"
    using at_boundary_ascii [OF src a(1)] number_ascii(3) [OF a(2)] by auto
  have finish: "\<exists>l'. do { l \<leftarrow> push_token src k ?a b (l\<lparr>lex_cursor := b\<rparr>);
        candidate \<leftarrow> str_get ?a b src;
        if ok candidate then Some l else lex_report src e ?a b l } = Some l' \<and> stands src l' \<and> ?a < lex_cursor l'"
    if "?a < b" "at_boundary src b" "k = IntegerLiteral \<or> k = FloatLiteral" for k b ok e
  proof -
    have "token_fits src (token_new k \<lparr>range_start = ?a, range_end = b\<rparr>)"
      using that at by (intro fits_plain) auto
    from push_stands [OF src l that(1,2) this] obtain l' where
      l': "push_token src k ?a b (l\<lparr>lex_cursor := b\<rparr>) = Some l'" "stands src l'" "lex_cursor l' = b" by blast
    have b: "?a \<le> b" "b \<le> length src" using that by (auto simp: at_boundary_def)
    from report_stands [OF src l'(2) b, of e] obtain l'' where
      l'': "lex_report src e ?a b l' = Some l''" "stands src l''" "lex_cursor l'' = b" using l'(3) by auto
    have "str_get ?a b src = Some (take (b - ?a) (drop ?a src))"
      using b at(1) that(2) by (simp add: str_get_ok at_boundary_def)
    then show ?thesis using l' l'' that(1) by simp
  qed
  have digits: "?a < skip_while is_digit_or_underscore src ?a \<and> at_boundary src (skip_while is_digit_or_underscore src ?a)"
  proof -
    have "skip_while is_digit_or_underscore src ?a = skip_while is_digit_or_underscore src (?a + 1)"
      using a by (subst skip_while.simps) (simp add: is_digit_or_underscore_def)
    with skip_while_ok [where p = is_digit_or_underscore, OF src number_ascii(2) at(2)] show ?thesis by auto
  qed
  have fraction: "i \<le> snd (lex_fraction src l i) \<and> at_boundary src (snd (lex_fraction src l i))"
    if "at_boundary src i" for i
  proof (cases "fst (lex_fraction src l i)")
    case True
    then have "i + 1 < length src" "is_ascii_digit (src ! (i + 1))"
      by (auto simp: lex_fraction_def byte_is_def split: if_splits)
    then have "at_boundary src (i + 1)" using at_boundary_ascii [OF src] number_ascii(3) by blast
    from skip_while_ok [where p = is_digit_or_underscore, OF src number_ascii(2) this] True show ?thesis
      by (auto simp: lex_fraction_def split: if_splits)
  qed (use that in \<open>auto simp: lex_fraction_def split: if_splits\<close>)
  have exponent: "i \<le> snd (lex_exponent src i) \<and> at_boundary src (snd (lex_exponent src i))"
    if "at_boundary src i" for i
  proof (cases "byte_is is_exponent src i")
    case True
    let ?j = "if byte_is (\<lambda>c. c = CHR ''+'' \<or> c = CHR ''-'') src (i + 1) then i + 1 + 1 else i + 1"
    have "at_boundary src (i + 1)"
      using True at_boundary_ascii [OF src, of i] by (auto simp: byte_is_def is_exponent_def code_def)
    moreover have "at_boundary src (i + 1 + 1)" if "byte_is (\<lambda>c. c = CHR ''+'' \<or> c = CHR ''-'') src (i + 1)"
      using that at_boundary_ascii [OF src, of "i + 1"] by (auto simp: byte_is_def code_def)
    ultimately have "at_boundary src ?j" by simp
    from skip_while_ok [where p = is_digit_or_underscore, OF src number_ascii(2) this] True show ?thesis
      by (auto simp: lex_exponent_def Let_def)
  qed (use that in \<open>simp add: lex_exponent_def\<close>)
  have "\<exists>l'. lex_number src l = Some l' \<and> stands src l' \<and> ?a < lex_cursor l'"
  proof (cases "starts_with ''0x'' (drop ?a src) \<or> starts_with ''0b'' (drop ?a src)")
    case True
    then have "at_boundary src (?a + 2)"
      using starts_with_at [OF src, of "''0x''" ?a] starts_with_at [OF src, of "''0b''" ?a] by (auto simp: code_def)
    from skip_while_ok [where p = is_number_word, OF src number_ascii(1) this] have
      "?a < skip_while is_number_word src (?a + 2)" "at_boundary src (skip_while is_number_word src (?a + 2))" by auto
    from finish [OF this disjI1 [OF refl], of valid_integer InvalidIntegerLiteral] show ?thesis
      unfolding lex_number_def Let_def looking_at_ok [OF l] Option.bind.simps by (simp only: True if_True)
  next
    case False
    let ?i = "skip_while is_digit_or_underscore src ?a"
    let ?i2 = "snd (lex_fraction src l ?i)"
    let ?i3 = "snd (lex_exponent src ?i2)"
    let ?b = "skip_while is_number_word src ?i3"
    let ?float = "fst (lex_fraction src l ?i) \<or> fst (lex_exponent src ?i2)"
    have "?a < ?b" "at_boundary src ?b"
      using digits fraction [of ?i] exponent [of ?i2] skip_while_ok [where p = is_number_word, OF src number_ascii(1), of ?i3] by auto
    from finish [OF this, of "if ?float then FloatLiteral else IntegerLiteral"
        "\<lambda>c. if ?float then valid_float c else valid_integer c"
        "if ?float then InvalidFloatLiteral else InvalidIntegerLiteral"]
    show ?thesis
      unfolding lex_number_def Let_def looking_at_ok [OF l] Option.bind.simps case_prod_beta fst_conv snd_conv
      using False by (simp only: if_False) (auto split: if_splits)
  qed
  then show ?thesis by (simp add: advances_def)
qed

lemma lex_leading_dot_float_ok:
  assumes src: "source_ok src" and l: "stands src l" and a: "lex_cursor l < length src" "src ! lex_cursor l = CHR ''.''"
  shows "advances src l (lex_leading_dot_float src l)"
proof -
  let ?a = "lex_cursor l"
  define b where "b = skip_while is_number_word src (?a + 1)"
  have at: "at_boundary src ?a" "at_boundary src (?a + 1)"
    using at_boundary_ascii [OF src a(1)] a(2) by (simp_all add: code_def)
  have b: "?a < b" "at_boundary src b"
    using skip_while_ok [where p = is_number_word, OF src number_ascii(1) at(2)] by (auto simp: b_def)
  have "token_fits src (token_new FloatLiteral \<lparr>range_start = ?a, range_end = b\<rparr>)"
    using b at by (intro fits_plain) auto
  from push_stands [OF src l b this] obtain l' where
    l': "push_token src FloatLiteral ?a b (l\<lparr>lex_cursor := b\<rparr>) = Some l'" "stands src l'" "lex_cursor l' = b" by blast
  have "?a \<le> b" "b \<le> length src" using b by (auto simp: at_boundary_def)
  from report_stands [OF src l'(2) this, of InvalidFloatLiteral] l' b(1) show ?thesis
    unfolding lex_leading_dot_float_def Let_def b_def [symmetric] advances_def by auto
qed

lemma line_comment_end_ok:
  assumes "source_ok src" and "at_boundary src i"
  shows "\<exists>j. line_comment_end src i = Some j \<and> i \<le> j \<and> at_boundary src j"
  using assms
proof (induction src i rule: line_comment_end.induct)
  case (1 src i)
  show ?case
  proof (cases "i < length src \<and> src ! i \<noteq> CHR 0x0A")
    case True
    then obtain n where n: "char_len_at src i = Some n" "0 < n" "at_boundary src (i + n)"
      using char_len_at_ok [OF 1(2,3)] by blast
    from 1(1) [OF True n(1) 1(2) n(3)] True n(1) show ?thesis
      by (auto simp: line_comment_end.simps [of src i])
  next
    case False
    then have "line_comment_end src i = Some i" by (subst line_comment_end.simps) auto
    with 1(3) show ?thesis by simp
  qed
qed

lemma lex_line_comment_ok:
  assumes src: "source_ok src" and l: "stands src l" and a: "starts_with ''//'' (drop (lex_cursor l) src)"
  shows "advances src l (lex_line_comment src l)"
proof -
  let ?a = "lex_cursor l"
  have at: "at_boundary src (?a + 2)" "str_from ?a src = Some (drop ?a src)"
    using starts_with_at [OF src a] by (auto simp: code_def at_boundary_def str_from_ok)
  from line_comment_end_ok [OF src at(1)] obtain j where
    j: "line_comment_end src (?a + 2) = Some j" "?a + 2 \<le> j" "at_boundary src j" by blast
  have "comment_text src ?a (l\<lparr>lex_cursor := j\<rparr>)"
    using l j by (intro comment_text_start lexer_ok_cursor) auto
  from comment_ok [OF src this, of "line_comment_kind (drop ?a src)"] j show ?thesis
    unfolding lex_line_comment_def Let_def advances_def at(2) j(1) Option.bind.simps by auto
qed

lemma comment_newline:
  assumes "source_ok src" and "comment_text src u l" and "lex_cursor l < length src" and "src ! lex_cursor l = CHR 0x0A"
  shows "\<exists>l'. push_token src Newline (lex_cursor l) (lex_cursor l + 1) (l\<lparr>lex_cursor := lex_cursor l + 1\<rparr>) = Some l'
    \<and> comment_text src u l' \<and> lex_cursor l' = lex_cursor l + 1"
proof -
  let ?a = "lex_cursor l" and ?t = "token_new Newline \<lparr>range_start = lex_cursor l, range_end = lex_cursor l + 1\<rparr>"
  have at: "at_boundary src (?a + 1)" using at_boundary_ascii [OF assms(1,3)] assms(4) by (simp add: code_def)
  have "token_fits src ?t" using at assms(2) by (intro fits_plain) (auto simp: comment_text_def)
  then have "tokens_placed src (lex_tokens l @ [?t]) (?a + 1)"
    using assms(2) by (auto simp: comment_text_def tokens_placed_def sorted_wrt_append token_new_def)
  moreover have "covered src (lex_tokens l @ [?t]) (lex_comments l) u" if "lex_diagnostics l = []"
    using assms(2) that by (auto simp: comment_text_def covered_def)
  ultimately show ?thesis
    using assms(1,2,3) at by (auto simp: push_token_def lex_span_ok comment_text_def)
qed

lemma block_comment_loop_ok:
  assumes "source_ok src" and "comment_text src u l"
  shows "\<exists>closed l'. block_comment_loop src l = Some (closed, l') \<and> comment_text src u l' \<and> lex_cursor l \<le> lex_cursor l'"
  using assms
proof (induction src l rule: block_comment_loop.induct)
  case (1 src l)
  let ?i = "lex_cursor l"
  have at: "at_boundary src ?i" using 1(4) by (simp add: comment_text_def)
  have look: "looking_at ''*/'' src l = Some (starts_with ''*/'' (drop ?i src))"
    using at by (simp add: looking_at_def at_boundary_def str_from_ok)
  show ?case
  proof (cases "length src \<le> ?i")
    case True
    with 1(4) show ?thesis by (subst block_comment_loop.simps) auto
  next
    case more: False
    show ?thesis
    proof (cases "starts_with ''*/'' (drop ?i src)")
      case True
      then have "at_boundary src (?i + 2)" using starts_with_at [OF 1(3) True] by (simp add: code_def)
      moreover have "tokens_placed src (lex_tokens l) (?i + 2)"
        using 1(4) by (force simp: comment_text_def tokens_placed_def)
      ultimately show ?thesis using 1(4) more look True
        by (subst block_comment_loop.simps) (auto simp: comment_text_def)
    next
      case open_: False
      show ?thesis
      proof (cases "src ! ?i = CHR 0x0A")
        case True
        from comment_newline [OF 1(3,4) _ True] more obtain l' where
          l': "push_token src Newline ?i (?i + 1) (l\<lparr>lex_cursor := ?i + 1\<rparr>) = Some l'" "comment_text src u l'"
            "lex_cursor l' = ?i + 1" by auto
        have "block_comment_loop src l = block_comment_loop src l'"
          using more look open_ True l'(1) by (subst block_comment_loop.simps) simp
        with 1(1) [OF refl more look open_ True l'(1) 1(3) l'(2)] l'(3) show ?thesis by auto
      next
        case False
        from more have "?i < length src" by simp
        from char_len_at_ok [OF 1(3) at this] obtain n where
          n: "char_len_at src ?i = Some n" "0 < n" "at_boundary src (?i + n)" .
        let ?l = "l\<lparr>lex_cursor := ?i + n\<rparr>"
        have len: "next_char_len src l = Some n" using n(1) by (simp add: next_char_len_def)
        have "tokens_placed src (lex_tokens l) (?i + n)" using 1(4) by (force simp: comment_text_def tokens_placed_def)
        then have "comment_text src u ?l" using 1(4) n by (simp add: comment_text_def)
        from 1(2) [OF refl more look open_ False len 1(3) this]
        have "\<exists>closed l'. block_comment_loop src ?l = Some (closed, l') \<and> comment_text src u l' \<and> ?i + n \<le> lex_cursor l'"
          by simp
        moreover have "block_comment_loop src l = block_comment_loop src ?l"
          using more look open_ False len by (subst block_comment_loop.simps) simp
        ultimately show ?thesis by auto
      qed
    qed
  qed
qed

lemma lex_block_comment_ok:
  assumes src: "source_ok src" and l: "stands src l" and a: "starts_with ''/*'' (drop (lex_cursor l) src)"
  shows "advances src l (lex_block_comment src l)"
proof -
  let ?a = "lex_cursor l"
  have at: "at_boundary src (?a + 2)" "str_from ?a src = Some (drop ?a src)"
    using starts_with_at [OF src a] by (auto simp: code_def at_boundary_def str_from_ok)
  have "comment_text src ?a (l\<lparr>lex_cursor := ?a + 2\<rparr>)"
    using l at by (intro comment_text_start lexer_ok_cursor) auto
  from block_comment_loop_ok [OF src this] obtain closed m where
    m: "block_comment_loop src (l\<lparr>lex_cursor := ?a + 2\<rparr>) = Some (closed, m)" "comment_text src ?a m" "?a + 2 \<le> lex_cursor m"
    by auto
  from comment_ok [OF src m(2), of "block_comment_kind (drop ?a src)"] obtain n where
    n: "push_comment src (block_comment_kind (drop ?a src)) ?a (lex_cursor m) m = Some n" "stands src n"
      "lex_cursor n = lex_cursor m" by auto
  have "?a \<le> lex_cursor n" "lex_cursor n \<le> length src" using n m(3) by (auto simp: lexer_ok_def at_boundary_def)
  from report_stands [OF src n(2) this, of UnterminatedBlockComment] n m(3) show ?thesis
    unfolding lex_block_comment_def Let_def advances_def at(2) m(1) Option.bind.simps case_prod_conv n(1)
    by (cases closed) auto
qed

subsection \<open>Quoted literals\<close>

text \<open>A loop that only reports.\<close>

definition reports :: "lexer \<Rightarrow> lexer \<Rightarrow> bool" where
  "reports l l' \<longleftrightarrow> (\<exists>ds. l' = l\<lparr>lex_diagnostics := lex_diagnostics l @ ds\<rparr>)"

lemma reports_refl [simp]: "reports l l"
  unfolding reports_def by (rule exI [of _ "[]"]) simp

lemma reports_trans: "reports l m \<Longrightarrow> reports m n \<Longrightarrow> reports l n"
  by (auto simp: reports_def)

lemma reports_one [simp]: "reports l (l\<lparr>lex_diagnostics := lex_diagnostics l @ [d]\<rparr>)"
  by (auto simp: reports_def)

lemma reports_ok: "reports l l' \<Longrightarrow> lexer_ok src u l \<Longrightarrow> lexer_ok src u l' \<and> lex_cursor l' = lex_cursor l"
  by (auto simp: reports_def reported_here)

lemma validate_byte_loop_ok:
  assumes "source_ok src" and "at_boundary src i" and "at_boundary src stop" and "i \<le> stop"
  shows "\<exists>c v l'. validate_byte_loop src i stop count valid l = Some (c, v, l') \<and> reports l l'"
  using assms
proof (induction src i stop count valid l rule: validate_byte_loop.induct)
  case (1 src i stop count valid l)
  show ?case
  proof (cases "stop \<le> i")
    case True
    then show ?thesis by (subst validate_byte_loop.simps) simp
  next
    case more: False
    then have len: "\<not> length src \<le> i" using 1(6) by (simp add: at_boundary_def)
    show ?thesis
    proof (cases "src ! i = CHR 0x5C")
      case True
      from decode_escape_ok [OF 1(4) True _ 1(6)] more obtain r where
        r: "decode_escape src i stop = Some r" "at_boundary src (i + escape_width r)" "i + escape_width r \<le> stop" "0 < escape_width r"
        by auto
      show ?thesis
      proof (cases r)
        case (Inr bn)
        obtain b n where bn: "bn = (b, n)" by (cases bn)
        with Inr r have n: "at_boundary src (i + n)" "i + n \<le> stop" by (auto simp: escape_width_def)
        from 1(2) [OF more len True r(1) Inr bn [symmetric] 1(4) n(1) 1(6) n(2)] more len True r(1) Inr bn show ?thesis
          by (subst validate_byte_loop.simps) simp
      next
        case (Inl n)
        with r have n: "at_boundary src (i + n)" "i + n \<le> stop" "0 < n" by (auto simp: escape_width_def)
        then have eq: "min (i + n) stop = i + n" "max (i + n) (i + 1) = i + n" by auto
        obtain d where d: "lex_report src InvalidEscape i (i + n) l = Some (l\<lparr>lex_diagnostics := lex_diagnostics l @ [d]\<rparr>)"
          using report_ok [OF 1(4), of i "i + n"] n(2) 1(6) by (auto simp: at_boundary_def)
        have "\<exists>c v l'. validate_byte_loop src (i + n) stop count False (l\<lparr>lex_diagnostics := lex_diagnostics l @ [d]\<rparr>) = Some (c, v, l')
          \<and> reports (l\<lparr>lex_diagnostics := lex_diagnostics l @ [d]\<rparr>) l'"
          using 1(1) [OF more len True r(1) Inl _ 1(4) _ 1(6), of "l\<lparr>lex_diagnostics := lex_diagnostics l @ [d]\<rparr>"] d n eq by simp
        with more len True r(1) Inl d eq show ?thesis
          by (subst validate_byte_loop.simps) (auto intro: reports_trans [OF reports_one])
      qed
    next
      case False
      from more len char_len_at_ok [OF 1(4,5)] obtain n where n: "char_len_at src i = Some n" "0 < n" "at_boundary src (i + n)"
        by (metis not_le)
      have "i + n \<le> stop" using char_len_within [OF 1(4,5) n(1) 1(6)] more by simp
      from 1(3) [OF more len False n(1) 1(4) n(3) 1(6) this] more len False n(1) show ?thesis
        by (subst validate_byte_loop.simps) simp
    qed
  qed
qed

definition quoted_ok :: "utf8_text \<Rightarrow> nat \<Rightarrow> quoted_end \<Rightarrow> bool" where
  "quoted_ok src i e \<longleftrightarrow>
     (case e of
        Closed j \<Rightarrow> i \<le> j \<and> j < length src \<and> at_boundary src j \<and> src ! j = CHR 0x27
      | AtNewline j \<Rightarrow> i \<le> j \<and> j < length src \<and> at_boundary src j
      | AtEnd j \<Rightarrow> i \<le> j \<and> at_boundary src j)"

lemma scan_quoted_ok:
  assumes "source_ok src" and "at_boundary src i"
    and "\<And>k. src ! k = CHR 0x5C \<Longrightarrow> k < length src \<Longrightarrow> \<exists>n. esc src k = Some n \<and> 0 < n \<and> at_boundary src (k + n)"
  shows "\<exists>e. scan_quoted esc src i = Some e \<and> quoted_ok src i e"
  using assms
proof (induction esc src i rule: scan_quoted.induct)
  case (1 esc src i)
  show ?case
  proof (cases "i < length src \<and> src ! i \<noteq> CHR 0x27 \<and> src ! i \<noteq> CHR 0x0A")
    case False
    with 1(3) show ?thesis by (subst scan_quoted.simps) (auto simp: quoted_ok_def)
  next
    case True
    then have more: "\<not> length src \<le> i" "src ! i \<noteq> CHR 0x27" "src ! i \<noteq> CHR 0x0A" by auto
    have "\<exists>n. (if src ! i = CHR 0x5C then esc src i else char_len_at src i) = Some n \<and> 0 < n \<and> at_boundary src (i + n)"
    proof (cases "src ! i = CHR 0x5C")
      case True
      with 1(4) [of i] more show ?thesis by simp
    next
      case False
      with char_len_at_ok [OF 1(2,3)] more show ?thesis by (metis not_le)
    qed
    then obtain n where n: "(if src ! i = CHR 0x5C then esc src i else char_len_at src i) = Some n" "n \<noteq> 0"
        "at_boundary src (i + n)" by auto
    from 1(1) [OF more n(1,2) 1(2) n(3) 1(4)] more n show ?thesis
      by (subst scan_quoted.simps) (auto simp: quoted_ok_def split: quoted_end.splits)
  qed
qed

text \<open>What follows the scan of a byte or character literal.\<close>

lemma quoted_literal_ok:
  assumes src: "source_ok src" and l: "stands src l" and c: "lex_cursor l < c" and e: "quoted_ok src c e"
    and k: "k = ByteLiteral \<or> k = CharacterLiteral"
    and validate: "\<And>i m. src ! i = CHR 0x27 \<Longrightarrow> at_boundary src i \<Longrightarrow> c \<le> i \<Longrightarrow> \<exists>m'. validate i m = Some m' \<and> reports m m'"
  shows "advances src l (case e of
       Closed i \<Rightarrow> do {
         l \<leftarrow> push_token src k (lex_cursor l) (i + 1) (l\<lparr>lex_cursor := i + 1\<rparr>);
         validate i l }
     | AtNewline i \<Rightarrow> lex_report src d1 i (i + 1) (l\<lparr>lex_cursor := i\<rparr>)
     | AtEnd i \<Rightarrow> lex_report src d2 (lex_cursor l) i (l\<lparr>lex_cursor := i\<rparr>))"
proof (cases e)
  case (Closed i)
  with e c have i: "lex_cursor l < i + 1" "c \<le> i" "at_boundary src i" "src ! i = CHR 0x27" "i < length src"
    by (auto simp: quoted_ok_def)
  then have b: "at_boundary src (i + 1)" using at_boundary_ascii [OF src i(5)] by (simp add: code_def)
  have "token_fits src (token_new k \<lparr>range_start = lex_cursor l, range_end = i + 1\<rparr>)"
    using i(1) b k l by (intro fits_plain) (auto dest: lexer_ok_cursorD)
  from push_stands [OF src l i(1) b this] obtain m where
    m: "push_token src k (lex_cursor l) (i + 1) (l\<lparr>lex_cursor := i + 1\<rparr>) = Some m" "stands src m" "lex_cursor m = i + 1"
    by blast
  from validate [OF i(4,3,2), of m] obtain m' where m': "validate i m = Some m'" "reports m m'" by blast
  with reports_ok [OF m'(2) m(2)] m i(1) Closed show ?thesis by (simp add: advances_def)
next
  case (AtNewline i)
  with e c have i: "lex_cursor l < i" "at_boundary src i" "i < length src" by (auto simp: quoted_ok_def)
  from report_ok [OF src, of i "i + 1" d1 "l\<lparr>lex_cursor := i\<rparr>"] reported_ok [OF l, of i i] i AtNewline show ?thesis
    by (auto simp: advances_def)
next
  case (AtEnd i)
  with e c have i: "lex_cursor l < i" "at_boundary src i" by (auto simp: quoted_ok_def)
  from report_ok [OF src, of "lex_cursor l" i d2 "l\<lparr>lex_cursor := i\<rparr>"] reported_ok [OF l, of i i] i AtEnd show ?thesis
    by (auto simp: advances_def at_boundary_def)
qed

lemma reports_report:
  assumes "source_ok src" and "a \<le> b" and "b \<le> length src"
  shows "\<exists>l'. lex_report src k a b l = Some l' \<and> reports l l'"
  using report_ok [OF assms, of k l] by auto

lemma lex_byte_literal_ok:
  assumes src: "source_ok src" and l: "stands src l" and a: "starts_with (''b'' @ [CHR 0x27]) (drop (lex_cursor l) src)"
  shows "advances src l (lex_byte_literal src l)"
proof -
  let ?c = "lex_cursor l + 2"
  have c: "at_boundary src ?c" using starts_with_at [OF src a] by (simp add: code_def)
  from scan_quoted_ok [where esc = escape_source_len, OF src c escape_source_len_ok [OF src]] obtain e where
    e: "scan_quoted escape_source_len src ?c = Some e" "quoted_ok src ?c e" by blast
  have validate: "\<exists>m'. validate_byte_content src ?c i m = Some m' \<and> reports m m'"
    if "at_boundary src i" "?c \<le> i" for i m
  proof -
    from validate_byte_loop_ok [OF src c that, of 0 True m] obtain n v m' where
      m': "validate_byte_loop src ?c i 0 True m = Some (n, v, m')" "reports m m'" by blast
    from that reports_report [OF src, of ?c i InvalidByteLength m'] m' show ?thesis
      by (auto simp: validate_byte_content_def at_boundary_def intro: reports_trans)
  qed
  have "lex_byte_literal src l = (case e of
       Closed i \<Rightarrow> do {
         l \<leftarrow> push_token src ByteLiteral (lex_cursor l) (i + 1) (l\<lparr>lex_cursor := i + 1\<rparr>);
         validate_byte_content src ?c i l }
     | AtNewline i \<Rightarrow> lex_report src ByteLiteralNewline i (i + 1) (l\<lparr>lex_cursor := i\<rparr>)
     | AtEnd i \<Rightarrow> lex_report src UnterminatedByteLiteral (lex_cursor l) i (l\<lparr>lex_cursor := i\<rparr>))"
    unfolding lex_byte_literal_def Let_def e(1) Option.bind.simps by simp
  with quoted_literal_ok [OF src l _ e(2), of ByteLiteral "validate_byte_content src ?c"] validate show ?thesis by simp
qed

lemma lex_character_literal_ok:
  assumes src: "source_ok src" and l: "stands src l" and a: "src ! lex_cursor l = CHR 0x27" "lex_cursor l < length src"
  shows "advances src l (lex_character_literal src l)"
proof -
  let ?c = "lex_cursor l + 1"
  have c: "at_boundary src ?c" using at_boundary_ascii [OF src a(2)] a(1) by (simp add: code_def)
  from scan_quoted_ok [where esc = character_escape_source_len, OF src c character_escape_source_len_ok [OF src]] obtain e where
    e: "scan_quoted character_escape_source_len src ?c = Some e" "quoted_ok src ?c e" by blast
  have validate: "\<exists>m'. validate_character_content src ?c i m = Some m' \<and> reports m m'"
    if "at_boundary src i" "?c \<le> i" for i m
  proof -
    have get: "str_get ?c i src = Some (take (i - ?c) (drop ?c src))"
      using that c by (simp add: str_get_ok at_boundary_def)
    have i: "i \<le> length src" using that(1) by (simp add: at_boundary_def)
    show ?thesis
    proof (cases "decode_character_content (take (i - ?c) (drop ?c src))")
      case (Inr v)
      then show ?thesis unfolding validate_character_content_def get Option.bind.simps by simp
    next
      case (Inl err)
      show ?thesis
      proof (cases err)
        case (InvalidEscapeAt off len)
        have "off = 0" using decode_character_content_offset Inl InvalidEscapeAt by blast
        moreover have "?c \<le> min (?c + len) i" "min (?c + len) i \<le> length src" using that(2) i by auto
        from reports_report [OF src this, of InvalidEscape m] have
          "\<exists>m'. lex_report src InvalidEscape (?c + 0) (min (?c + 0 + len) i) m = Some m' \<and> reports m m'" by simp
        ultimately show ?thesis using Inl InvalidEscapeAt
          unfolding validate_character_content_def get Option.bind.simps by simp
      next
        case InvalidLength
        from reports_report [OF src that(2) i, of InvalidCharacterLength m] Inl InvalidLength show ?thesis
          unfolding validate_character_content_def get Option.bind.simps by simp
      qed
    qed
  qed
  have "lex_character_literal src l = (case e of
       Closed i \<Rightarrow> do {
         l \<leftarrow> push_token src CharacterLiteral (lex_cursor l) (i + 1) (l\<lparr>lex_cursor := i + 1\<rparr>);
         validate_character_content src ?c i l }
     | AtNewline i \<Rightarrow> lex_report src CharacterLiteralNewline i (i + 1) (l\<lparr>lex_cursor := i\<rparr>)
     | AtEnd i \<Rightarrow> lex_report src UnterminatedCharacterLiteral (lex_cursor l) i (l\<lparr>lex_cursor := i\<rparr>))"
    unfolding lex_character_literal_def Let_def e(1) Option.bind.simps by simp
  with quoted_literal_ok [OF src l _ e(2), of CharacterLiteral "validate_character_content src ?c"] validate show ?thesis by simp
qed

lemma punctuation_ascii: "list_all (\<lambda>c. code c < 128) (punctuation_str p)"
  by (cases p) (simp_all add: code_def)

lemma lex_punctuation_or_error_ok:
  assumes src: "source_ok src" and l: "stands src l" and a: "lex_cursor l < length src"
  shows "advances src l (lex_punctuation_or_error src l)"
proof -
  let ?a = "lex_cursor l"
  have at: "at_boundary src ?a" using l by (simp add: lexer_ok_def)
  have rest: "str_from ?a src = Some (drop ?a src)" using at by (simp add: at_boundary_def str_from_ok)
  show ?thesis
  proof (cases "longest_prefix (drop ?a src)")
    case (Some p)
    from longest_prefix_SomeD [OF Some] have pre: "starts_with (punctuation_str p) (drop ?a src)" .
    let ?b = "?a + length (punctuation_str p)"
    from starts_with_at [OF src pre punctuation_ascii punctuation_str_nonempty] have
      b: "at_boundary src ?b" "?a < ?b" using punctuation_str_nonempty [of p] by auto
    have "token_fits src (token_new (Punctuation p) \<lparr>range_start = ?a, range_end = ?b\<rparr>)"
      using b at pre by (simp add: token_fits_def token_new_def spelling_def starts_with_def)
    from push_stands [OF src l b(2,1) this] b(2) Some show ?thesis
      unfolding lex_punctuation_or_error_def Let_def rest Option.bind.simps advances_def by auto
  next
    case None
    from char_len_at_ok [OF src at a] obtain n where n: "char_len_at src ?a = Some n" "0 < n" "at_boundary src (?a + n)" .
    from report_ok [OF src, of ?a "?a + n" UnexpectedCharacter "l\<lparr>lex_cursor := ?a + n\<rparr>"]
      reported_ok [OF l, of "?a + n" "?a + n"] n None show ?thesis
      unfolding lex_punctuation_or_error_def Let_def rest Option.bind.simps advances_def next_char_len_def
      by (auto simp: at_boundary_def)
  qed
qed

lemma lex_plain_ok:
  assumes src: "source_ok src" and l: "stands src l" and a: "lex_cursor l < length src"
  shows "advances src l (lex_plain src l)"
proof -
  let ?a = "lex_cursor l" and ?b = "src ! lex_cursor l"
  have rest: "str_from ?a src = Some (drop ?a src)" using l by (simp add: lexer_ok_def at_boundary_def str_from_ok)
  consider (blank) "is_blank ?b" | (newline) "\<not> is_blank ?b" "?b = CHR 0x0A" | (other) "\<not> is_blank ?b" "?b \<noteq> CHR 0x0A" by blast
  then show ?thesis
  proof cases
    case blank
    then have at: "at_boundary src (?a + 1)" using at_boundary_ascii [OF src a] by (auto simp: is_blank_def code_def)
    have "stands src (l\<lparr>lex_cursor := ?a + 1\<rparr>)"
      using l at blank by (force simp: lexer_ok_def tokens_placed_def covered_def less_Suc_eq)
    with blank show ?thesis by (simp add: lex_plain_def Let_def advances_def)
  next
    case newline
    have at: "at_boundary src (?a + 1)" using at_boundary_ascii [OF src a] newline(2) by (simp add: code_def)
    have "token_fits src (token_new Newline \<lparr>range_start = ?a, range_end = ?a + 1\<rparr>)"
      using at l by (intro fits_plain) (auto dest: lexer_ok_cursorD)
    from push_stands [OF src l _ at this] newline show ?thesis by (auto simp: lex_plain_def Let_def advances_def)
  next
    case other
    show ?thesis
      unfolding lex_plain_def Let_def rest Option.bind.simps
      using other lex_line_comment_ok [OF src l] lex_block_comment_ok [OF src l] lex_byte_literal_ok [OF src l]
        lex_character_literal_ok [OF src l _ a] lex_number_ok [OF src l a] lex_leading_dot_float_ok [OF src l a]
        lex_identifier_ok [OF src l a] lex_punctuation_or_error_ok [OF src l a]
      by (simp split del: if_split) (simp split: if_split)
  qed
qed

section \<open>Strings\<close>

lemma validate_string_loop_ok:
  assumes "source_ok src" and "at_boundary src i" and "at_boundary src stop" and "i \<le> stop"
  shows "\<exists>bs v l'. validate_string_loop src i stop decoded valid l = Some (bs, v, l') \<and> reports l l'"
  using assms
proof (induction src i stop decoded valid l rule: validate_string_loop.induct)
  case (1 src i stop decoded valid l)
  show ?case
  proof (cases "stop \<le> i")
    case True
    then show ?thesis by (subst validate_string_loop.simps) simp
  next
    case more: False
    then have len: "\<not> length src \<le> i" using 1(6) by (simp add: at_boundary_def)
    show ?thesis
    proof (cases "src ! i = CHR 0x5C")
      case False
      from more len char_len_at_ok [OF 1(4,5)] obtain n where n: "char_len_at src i = Some n" "0 < n" "at_boundary src (i + n)"
        by (metis not_le)
      have within: "i + n \<le> stop" using char_len_within [OF 1(4,5) n(1) 1(6)] more by simp
      then have inside: "\<not> length src < i + n" using 1(6) by (simp add: at_boundary_def)
      from 1(1) [OF more len False n(1) inside 1(4) n(3) 1(6) within] more len False n(1) inside show ?thesis
        by (subst validate_string_loop.simps) simp
    next
      case True
      then have esc: "\<not> src ! i \<noteq> CHR 0x5C" by simp
      from decode_escape_ok [OF 1(4) True _ 1(6)] more obtain r where
        r: "decode_escape src i stop = Some r" "at_boundary src (i + escape_width r)" "i + escape_width r \<le> stop" "0 < escape_width r"
        by auto
      show ?thesis
      proof (cases r)
        case (Inr bn)
        obtain b n where bn: "bn = (b, n)" by (cases bn)
        with Inr r have n: "at_boundary src (i + n)" "i + n \<le> stop" by (auto simp: escape_width_def)
        from 1(3) [OF more len esc r(1) Inr bn [symmetric] 1(4) n(1) 1(6) n(2)] more len True r(1) Inr bn show ?thesis
          by (subst validate_string_loop.simps) simp
      next
        case (Inl n)
        with r have n: "at_boundary src (i + n)" "i + n \<le> stop" "0 < n" by (auto simp: escape_width_def)
        then have eq: "min (i + n) stop = i + n" "max (i + n) (i + 1) = i + n" by auto
        obtain d where d: "lex_report src InvalidEscape i (i + n) l = Some (l\<lparr>lex_diagnostics := lex_diagnostics l @ [d]\<rparr>)"
          using report_ok [OF 1(4), of i "i + n"] n(2) 1(6) by (auto simp: at_boundary_def)
        have "\<exists>bs v l'. validate_string_loop src (i + n) stop decoded False (l\<lparr>lex_diagnostics := lex_diagnostics l @ [d]\<rparr>) = Some (bs, v, l')
          \<and> reports (l\<lparr>lex_diagnostics := lex_diagnostics l @ [d]\<rparr>) l'"
          using 1(2) [OF more len esc r(1) Inl _ 1(4) _ 1(6), of "l\<lparr>lex_diagnostics := lex_diagnostics l @ [d]\<rparr>"] d n eq by simp
        with more len True r(1) Inl d eq show ?thesis
          by (subst validate_string_loop.simps) (auto intro: reports_trans [OF reports_one])
      qed
    qed
  qed
qed

lemma emit_string_text_ok:
  assumes src: "source_ok src" and l: "lexer_ok src a l" and c: "lex_cursor l = b"
  shows "\<exists>l'. emit_string_text src a b l = Some l' \<and> stands src l' \<and> lex_cursor l' = b"
proof (cases "a = b")
  case True
  with assms show ?thesis by (simp add: emit_string_text_def)
next
  case False
  with l c have ab: "a < b" "at_boundary src a" "at_boundary src b" by (auto simp: lexer_ok_def)
  have "token_fits src (token_new StringText \<lparr>range_start = a, range_end = b\<rparr>)" using ab by (intro fits_plain) auto
  from push_ok [OF src l ab(1,3) this order_refl ab(3)] c obtain m where
    m: "push_token src StringText a b l = Some m" "lexer_ok src b m" "lex_cursor m = b" by auto
  from validate_string_loop_ok [OF src ab(2,3), of "[]" True m] ab(1) obtain bs v n where
    n: "validate_string_loop src a b [] True m = Some (bs, v, n)" "reports m n" by auto
  have "\<exists>l'. validate_string_text src a b m = Some l' \<and> reports m l'"
    using reports_report [OF src, of a b InvalidStringUtf8 n] ab n
    by (auto simp: validate_string_text_def at_boundary_def intro: reports_trans)
  with reports_ok [OF _ m(2)] m False show ?thesis by (auto simp: emit_string_text_def)
qed

lemma rfind_less: "rfind p xs = Some k \<Longrightarrow> k < length xs"
  by (auto simp: rfind_def dest!: position_SomeD)

lemma line_start_before_ok:
  assumes "at_boundary src i" and "d \<le> i"
  shows "\<exists>k. line_start_before src i d = Some k \<and> k \<le> i"
proof -
  have get: "str_get 0 i src = Some (take i src)" using assms(1) by (simp add: str_get_def at_boundary_def)
  show ?thesis
  proof (cases "rfind is_newline (take i src)")
    case (Some k)
    with rfind_less [OF Some] show ?thesis by (simp add: line_start_before_def get)
  qed (simp add: line_start_before_def get assms(2))
qed

lemma triple_ascii: "list_all (\<lambda>c. code c < 128) triple_quote" "triple_quote \<noteq> []" "length triple_quote = 3"
  by (simp_all add: triple_quote_def code_def)

text \<open>The end of a string is recognised without panic, and then the closing delimiter is there.\<close>

lemma is_string_end_ok:
  assumes src: "source_ok src" and "at_boundary src (lex_cursor l)"
  shows "\<exists>e. is_string_end src d l = Some e \<and> (e \<longrightarrow> at_boundary src (lex_cursor l + delimiter_len d))"
proof -
  let ?i = "lex_cursor l"
  show ?thesis
  proof (cases d)
    case SingleLine
    have "at_boundary src (?i + 1)" if "byte_is (\<lambda>c. c = CHR 0x22) src ?i"
      using that at_boundary_ascii [OF src, of ?i] by (simp add: byte_is_def code_def)
    with SingleLine show ?thesis by (simp add: is_string_end_def delimiter_len_def)
  next
    case MultiLine
    have look: "looking_at triple_quote src l = Some (starts_with triple_quote (drop ?i src))"
      using assms(2) by (simp add: looking_at_def at_boundary_def str_from_ok)
    from line_start_before_ok [OF assms(2), of 0] obtain k where k: "line_start_before src ?i 0 = Some k" "k \<le> ?i" by auto
    have "at_boundary src (?i + 3)" if "starts_with triple_quote (drop ?i src)"
      using starts_with_at [OF src that triple_ascii(1,2)] triple_ascii(3) by simp
    with MultiLine look k show ?thesis
      by (cases "starts_with triple_quote (drop ?i src)") (auto simp: is_string_end_def delimiter_len_def)
  qed
qed

lemma indentation_loop_ok:
  assumes "source_ok src" and "closing \<le> length src"
  shows "\<exists>l'. indentation_loop src ind i closing l = Some l' \<and> reports l l'"
  using assms
proof (induction src ind i closing l rule: indentation_loop.induct)
  case (1 src ind i closing l)
  show ?case
  proof (cases "closing \<le> i")
    case True
    then show ?thesis by (subst indentation_loop.simps) simp
  next
    case False
    define e where "e = (case position is_newline (take (closing - i) (drop i src)) of None \<Rightarrow> closing | Some k \<Rightarrow> i + k)"
    have e: "e \<le> closing"
      using False by (auto simp: e_def split: option.splits dest!: position_SomeD)
    define r where "r = (if i < e \<and> \<not> starts_with ind (take (e - i) (drop i src))
        then lex_report src MultilineStringIndentation i e l else Some l)"
    have "\<exists>m. r = Some m \<and> reports l m"
      using reports_report [OF 1(2), of i e MultilineStringIndentation l] e 1(3) by (auto simp: r_def)
    then obtain m where m: "r = Some m" "reports l m" by blast
    from 1(1) [OF False e_def m(1) [unfolded r_def] 1(2,3)] have
      "\<exists>l'. indentation_loop src ind (e + 1) closing m = Some l' \<and> reports m l'" .
    moreover have "indentation_loop src ind i closing l = Option.bind r (indentation_loop src ind (e + 1) closing)"
      using False unfolding r_def e_def by (subst indentation_loop.simps) (simp add: Let_def)
    ultimately show ?thesis using m by (auto intro: reports_trans)
  qed
qed

lemma validate_multiline_indentation_ok:
  assumes "source_ok src" and "at_boundary src i" and "start + 3 \<le> i"
  shows "\<exists>l'. validate_multiline_indentation src start i l = Some l' \<and> reports l l'"
proof (cases "byte_is is_newline src (start + 3)")
  case True
  from line_start_before_ok [OF assms(2,3)] obtain k where k: "line_start_before src i (start + 3) = Some k" "k \<le> i" by blast
  then have "k \<le> length src" using assms(2) by (simp add: at_boundary_def)
  from indentation_loop_ok [OF assms(1) this] True k show ?thesis
    unfolding validate_multiline_indentation_def Let_def by simp
qed (simp add: validate_multiline_indentation_def)

lemma close_string_ok:
  assumes src: "source_ok src" and l: "lexer_ok src ts l" and e: "at_boundary src (lex_cursor l + delimiter_len d)"
    and s: "d = MultiLine \<longrightarrow> start + 3 \<le> lex_cursor l"
  shows "\<exists>l'. close_string src d start ts l = Some l' \<and> stands src l' \<and> lex_cursor l \<le> lex_cursor l'"
proof -
  let ?i = "lex_cursor l"
  have at: "at_boundary src ?i" using l by (simp add: lexer_ok_def)
  have "\<exists>m. (if d = MultiLine then validate_multiline_indentation src start ?i l else Some l) = Some m \<and> reports l m"
    using validate_multiline_indentation_ok [OF src at] s by auto
  then obtain m where m: "(if d = MultiLine then validate_multiline_indentation src start ?i l else Some l) = Some m"
    "reports l m" by blast
  with reports_ok [OF m(2) l] emit_string_text_ok [OF src, of ts m ?i] obtain n where
    n: "emit_string_text src ts ?i m = Some n" "stands src n" "lex_cursor n = ?i" by auto
  have d: "0 < delimiter_len d" by (simp add: delimiter_len_def split: string_delimiter.splits)
  have "token_fits src (token_new (StringEnd d) \<lparr>range_start = lex_cursor n, range_end = ?i + delimiter_len d\<rparr>)"
    using n(3) at e d by (intro fits_plain) auto
  from push_stands [OF src n(2) _ e this] n(3) d show ?thesis
    unfolding close_string_def Let_def m(1) Option.bind.simps n(1) by auto
qed

lemma open_string_ok:
  assumes src: "source_ok src" and l: "stands src l" and a: "lex_cursor l < length src" "src ! lex_cursor l = CHR 0x22"
  shows "\<exists>d l'. open_string src l = Some (d, l') \<and> stands src l' \<and> lex_cursor l' = lex_cursor l + delimiter_len d"
proof -
  let ?a = "lex_cursor l"
  define d where "d = (if starts_with triple_quote (drop ?a src) then MultiLine else SingleLine)"
  let ?b = "?a + delimiter_len d"
  have b: "at_boundary src ?b"
  proof (cases "starts_with triple_quote (drop ?a src)")
    case True
    from starts_with_at [OF src True triple_ascii(1,2)] triple_ascii(3) True show ?thesis
      by (simp add: d_def delimiter_len_def)
  next
    case False
    with at_boundary_ascii [OF src a(1)] a(2) show ?thesis by (simp add: d_def delimiter_len_def code_def)
  qed
  have len: "?a < ?b" by (simp add: delimiter_len_def split: string_delimiter.splits)
  have "token_fits src (token_new (StringStart d) \<lparr>range_start = ?a, range_end = ?b\<rparr>)"
    using len b l by (intro fits_plain) (auto simp: lexer_ok_def)
  from push_stands [OF src l len b this] obtain m where
    m: "push_token src (StringStart d) ?a ?b (l\<lparr>lex_cursor := ?b\<rparr>) = Some m" "stands src m" "lex_cursor m = ?b" by blast
  have "?b \<le> length src" using b by (simp add: at_boundary_def)
  from report_stands [OF src m(2), of ?a ?b MultilineStringOpeningNewline] len this m show ?thesis
    unfolding open_string_def Let_def looking_at_ok [OF l] Option.bind.simps d_def [symmetric] m(1) by auto
qed

section \<open>Code\<close>

text \<open>The two specifications that the fuel induction proves together.\<close>

definition code_spec :: "utf8_text \<Rightarrow> nat \<Rightarrow> bool" where
  "code_spec src n \<longleftrightarrow> (\<forall>interpolation depth l. stands src l \<longrightarrow> length src - lex_cursor l < n \<longrightarrow>
     (\<exists>b l'. lex_code n src interpolation depth l = Some (b, l') \<and> stands src l' \<and> lex_cursor l \<le> lex_cursor l'
        \<and> (interpolation \<or> lex_cursor l' = length src)))"

definition string_spec :: "utf8_text \<Rightarrow> nat \<Rightarrow> bool" where
  "string_spec src n \<longleftrightarrow> (\<forall>d start ts l. lexer_ok src ts l \<longrightarrow> length src - lex_cursor l < n \<longrightarrow>
     start + delimiter_len d \<le> lex_cursor l \<longrightarrow>
     (\<exists>l'. lex_string n src d start ts l = Some l' \<and> stands src l' \<and> lex_cursor l \<le> lex_cursor l'))"

lemma code_specD:
  "code_spec src n \<Longrightarrow> stands src l \<Longrightarrow> length src - lex_cursor l < n \<Longrightarrow>
    \<exists>b l'. lex_code n src interpolation depth l = Some (b, l') \<and> stands src l' \<and> lex_cursor l \<le> lex_cursor l'
      \<and> (interpolation \<or> lex_cursor l' = length src)"
  by (simp add: code_spec_def)

lemma string_specD:
  "string_spec src n \<Longrightarrow> lexer_ok src ts l \<Longrightarrow> length src - lex_cursor l < n \<Longrightarrow>
    start + delimiter_len d \<le> lex_cursor l \<Longrightarrow>
    \<exists>l'. lex_string n src d start ts l = Some l' \<and> stands src l' \<and> lex_cursor l \<le> lex_cursor l'"
  by (simp add: string_spec_def)

lemma push_byte:
  assumes "source_ok src" and "stands src l" and "lex_cursor l < length src" and "code (src ! lex_cursor l) < 128"
    and "k = InterpolationEnd \<or> (\<exists>p. k = Punctuation p \<and> [src ! lex_cursor l] = punctuation_str p)"
  shows "\<exists>l'. push_token src k (lex_cursor l) (lex_cursor l + 1) (l\<lparr>lex_cursor := lex_cursor l + 1\<rparr>) = Some l' \<and> stands src l'
    \<and> lex_cursor l' = lex_cursor l + 1"
proof -
  from at_boundary_ascii [OF assms(1,3,4)] have at: "at_boundary src (lex_cursor l)" "at_boundary src (lex_cursor l + 1)" by auto
  have "take 1 (drop (lex_cursor l) src) = [src ! lex_cursor l]"
    using assms(3) by (simp add: take_Suc_conv_app_nth [of 0, simplified] hd_drop_conv_nth take_Suc)
  then have "token_fits src (token_new k \<lparr>range_start = lex_cursor l, range_end = lex_cursor l + 1\<rparr>)"
    using at assms(5) by (auto simp: token_fits_def token_new_def spelling_def)
  from push_stands [OF assms(1,2) _ at(2) this] show ?thesis by simp
qed

lemma lex_code_step:
  assumes src: "source_ok src" and code: "code_spec src n" and str: "string_spec src n"
  shows "code_spec src (Suc n)"
  unfolding code_spec_def
proof (intro allI impI)
  fix interpolation depth l
  assume l: "stands src l" and fuel: "length src - lex_cursor l < Suc n"
  let ?a = "lex_cursor l" and ?goal = "\<lambda>r. \<exists>b l'. r = Some (b, l') \<and> stands src l' \<and> lex_cursor l \<le> lex_cursor l'
        \<and> (interpolation \<or> lex_cursor l' = length src)"
  have again: "?goal (lex_code n src interpolation d l')" if "stands src l'" "?a < lex_cursor l'" for l' d
  proof -
    have "length src - lex_cursor l' < n" using that fuel by (auto simp: lexer_ok_def at_boundary_def)
    from code_specD [OF code that(1) this, of interpolation d] that(2) show ?thesis by auto
  qed
  show "?goal (lex_code (Suc n) src interpolation depth l)"
  proof (cases "length src \<le> ?a")
    case True
    then have "?a = length src" using l by (auto simp: lexer_ok_def at_boundary_def)
    with report_stands [OF src l, of ?a ?a UnterminatedInterpolation] l True show ?thesis by (cases interpolation) (auto simp: Let_def)
  next
    case False
    then have a: "?a < length src" by simp
    show ?thesis
    proof (cases "interpolation \<and> src ! ?a = CHR ''}''")
      case True
      note brace = this
      have ascii: "code (src ! ?a) < 128" using True by (simp add: code_def)
      show ?thesis
      proof (cases "depth = 0")
        case True
        from push_byte [OF src l a ascii, of InterpolationEnd] brace True False show ?thesis by auto
      next
        case deep: False
        from push_byte [OF src l a ascii, of "Punctuation PRightBrace"] brace obtain m where
          m: "push_token src (Punctuation PRightBrace) ?a (?a + 1) (l\<lparr>lex_cursor := ?a + 1\<rparr>) = Some m" "stands src m"
            "lex_cursor m = ?a + 1" by auto
        have "lex_code (Suc n) src interpolation depth l = lex_code n src interpolation (depth - 1) m"
          using brace deep False m(1) by simp
        with again [OF m(2), of "depth - 1"] m(3) show ?thesis by simp
      qed
    next
      case plain: False
      show ?thesis
      proof (cases "src ! ?a = CHR 0x22")
        case True
        from open_string_ok [OF src l a True] obtain d m where
          m: "open_string src l = Some (d, m)" "stands src m" "lex_cursor m = ?a + delimiter_len d" by blast
        have d: "0 < delimiter_len d" by (simp add: delimiter_len_def split: string_delimiter.splits)
        have "length src - lex_cursor m < n" using fuel a m(3) d by linarith
        from string_specD [OF str m(2) this, where d = d and start = ?a] m(3) d obtain k where
          k: "lex_string n src d ?a (lex_cursor m) m = Some k" "stands src k" "lex_cursor m \<le> lex_cursor k" by auto
        have "lex_code (Suc n) src interpolation depth l = lex_code n src interpolation depth k"
          using False plain True m(1) k(1) by simp
        with again [OF k(2), of depth] k(3) m(3) d show ?thesis by simp
      next
        case no_string: False
        show ?thesis
        proof (cases "src ! ?a = CHR ''{''")
          case True
          then have ascii: "code (src ! ?a) < 128" by (simp add: code_def)
          from push_byte [OF src l a ascii, of "Punctuation PLeftBrace"] True obtain m where
            m: "push_token src (Punctuation PLeftBrace) ?a (?a + 1) (l\<lparr>lex_cursor := ?a + 1\<rparr>) = Some m" "stands src m"
              "lex_cursor m = ?a + 1" by auto
          have "lex_code (Suc n) src interpolation depth l
              = lex_code n src interpolation (if interpolation then depth + 1 else depth) m"
            using False plain no_string True m(1) by simp
          with again [OF m(2), of "if interpolation then depth + 1 else depth"] m(3) show ?thesis by simp
        next
          case no_brace: False
          from lex_plain_ok [OF src l a] obtain m where m: "lex_plain src l = Some m" "stands src m" "?a < lex_cursor m"
            by (auto simp: advances_def)
          have "lex_code (Suc n) src interpolation depth l = lex_code n src interpolation depth m"
            using False plain no_string no_brace m(1) by simp
          with again [OF m(2,3), of depth] show ?thesis by simp
        qed
      qed
    qed
  qed
qed

lemma lex_string_step:
  assumes src: "source_ok src" and code: "code_spec src n" and str: "string_spec src n"
  shows "string_spec src (Suc n)"
  unfolding string_spec_def
proof (intro allI impI)
  fix d start ts l
  assume l: "lexer_ok src ts l" and fuel: "length src - lex_cursor l < Suc n"
    and start: "start + delimiter_len d \<le> lex_cursor l"
  let ?i = "lex_cursor l" and ?goal = "\<lambda>r. \<exists>l'. r = Some l' \<and> stands src l' \<and> lex_cursor l \<le> lex_cursor l'"
  have at: "at_boundary src ?i" "ts \<le> ?i" using l by (auto simp: lexer_ok_def)
  have skip: "?goal (lex_string n src d start ts (l\<lparr>lex_cursor := ?i + k\<rparr>))"
    if "0 < k" "at_boundary src (?i + k)" for k
  proof -
    have "lexer_ok src ts (l\<lparr>lex_cursor := ?i + k\<rparr>)" using l at(2) that(2) by (intro lexer_ok_cursor) auto
    moreover have "length src - (?i + k) < n" using that fuel unfolding at_boundary_def by linarith
    ultimately obtain l' where
      "lex_string n src d start ts (l\<lparr>lex_cursor := ?i + k\<rparr>) = Some l'" "stands src l'" "?i + k \<le> lex_cursor l'"
      using string_specD [OF str, where d = d and start = start and l = "l\<lparr>lex_cursor := ?i + k\<rparr>"] start by auto
    then show ?thesis by auto
  qed
  obtain m where m: "emit_string_text src ts ?i l = Some m" "stands src m" "lex_cursor m = ?i"
    using emit_string_text_ok [OF src l refl] by blast
  show "?goal (lex_string (Suc n) src d start ts l)"
  proof (cases "length src \<le> ?i")
    case True
    have "start \<le> ?i" "?i \<le> length src" using start at(1) by (auto simp: at_boundary_def)
    from report_stands [OF src m(2) this, of UnterminatedString] True m show ?thesis by auto
  next
    case False
    then have i: "?i < length src" by simp
    from is_string_end_ok [OF src at(1), of d] obtain e where
      e: "is_string_end src d l = Some e" "e \<Longrightarrow> at_boundary src (?i + delimiter_len d)" by auto
    show ?thesis
    proof (cases e)
      case True
      have "d = MultiLine \<longrightarrow> start + 3 \<le> ?i" using start by (auto simp: delimiter_len_def)
      from close_string_ok [OF src l e(2) [OF True] this] e(1) True False show ?thesis by auto
    next
      case open_: False
      have look: "looking_at ''${'' src l = Some (starts_with ''${'' (drop ?i src))"
        using at(1) by (simp add: looking_at_def at_boundary_def str_from_ok)
      show ?thesis
      proof (cases "starts_with ''${'' (drop ?i src)")
        case True
        have two: "at_boundary src (?i + 2)" using starts_with_at [OF src True] by (simp add: code_def)
        have "token_fits src (token_new InterpolationStart \<lparr>range_start = lex_cursor m, range_end = ?i + 2\<rparr>)"
          using two at m(3) by (intro fits_plain) auto
        from push_stands [OF src m(2) _ two this] m(3) obtain k where
          k: "push_token src InterpolationStart ?i (?i + 2) (m\<lparr>lex_cursor := ?i + 2\<rparr>) = Some k" "stands src k"
            "lex_cursor k = ?i + 2" by auto
        have "length src - lex_cursor k < n" using fuel i k(3) by linarith
        from code_specD [OF code k(2) this, of True 0] obtain b j where
          j: "lex_code n src True 0 k = Some (b, j)" "stands src j" "lex_cursor k \<le> lex_cursor j" by auto
        have "lex_string (Suc n) src d start ts l
            = (if b then lex_string n src d start (lex_cursor j) j else Some j)"
          using False e(1) open_ look True m(1) k(1) j(1) by simp
        moreover have "length src - lex_cursor j < n" using fuel i j(3) k(3) by linarith
        ultimately show ?thesis
          using string_specD [OF str j(2), where d = d and start = start] j(2,3) k(3) start by auto
      next
        case no_dollar: False
        show ?thesis
        proof (cases "src ! ?i = CHR 0x5C")
          case True
          from escape_source_len_ok [OF src True i] obtain k where
            k: "escape_source_len src ?i = Some k" "0 < k" "at_boundary src (?i + k)" by blast
          have "lex_string (Suc n) src d start ts l = lex_string n src d start ts (l\<lparr>lex_cursor := ?i + k\<rparr>)"
            using False e(1) open_ look no_dollar True k(1) by simp
          with skip [OF k(2,3)] show ?thesis by simp
        next
          case no_escape: False
          show ?thesis
          proof (cases "src ! ?i = CHR 0x0A \<and> d = SingleLine")
            case True
            from report_stands [OF src m(2), of ?i "?i + 1" SingleLineStringNewline] i m
            show ?thesis using False e(1) open_ look no_dollar no_escape True by auto
          next
            case no_newline: False
            from char_len_at_ok [OF src at(1) i] obtain k where
              k: "char_len_at src ?i = Some k" "0 < k" "at_boundary src (?i + k)" .
            have "lex_string (Suc n) src d start ts l = lex_string n src d start ts (l\<lparr>lex_cursor := ?i + k\<rparr>)"
              using False e(1) open_ look no_dollar no_escape no_newline k(1) by (auto simp: next_char_len_def)
            with skip [OF k(2,3)] show ?thesis by simp
          qed
        qed
      qed
    qed
  qed
qed

lemma lex_specs:
  assumes "source_ok src"
  shows "code_spec src n \<and> string_spec src n"
proof (induction n)
  case 0
  show ?case by (simp add: code_spec_def string_spec_def)
next
  case (Suc n)
  then show ?case using lex_code_step [OF assms] lex_string_step [OF assms] by blast
qed


section \<open>A whole file\<close>

lemma attach_length [simp]: "length (attach_joint_facts ts) = length ts"
  by (induction ts rule: attach_joint_facts.induct) auto

lemma attach_nth:
  "i < length ts \<Longrightarrow> attach_joint_facts ts ! i = (if Suc i < length ts
      then (ts ! i)\<lparr>joint_to_next := (range_end (token_range (ts ! i)) = range_start (token_range (ts ! Suc i)))\<rparr>
      else ts ! i)"
proof (induction ts arbitrary: i rule: attach_joint_facts.induct)
  case (1 a b rest)
  then show ?case by (cases i) auto
qed auto

lemma attach_kind: "i < length ts \<Longrightarrow> token_kind (attach_joint_facts ts ! i) = token_kind (ts ! i)"
  and attach_range: "i < length ts \<Longrightarrow> token_range (attach_joint_facts ts ! i) = token_range (ts ! i)"
  by (auto simp: attach_nth)

lemma token_fits_attach:
  assumes "i < length ts"
  shows "token_fits src (attach_joint_facts ts ! i) \<longleftrightarrow> token_fits src (ts ! i)"
  unfolding token_fits_def attach_kind [OF assms] attach_range [OF assms] ..

lemma covered_mono:
  assumes "covered src ts cs u" and "token_range ` set ts \<subseteq> token_range ` set ts'"
  shows "covered src ts' cs u"
  unfolding covered_def
proof (intro allI impI)
  fix i assume "i < u"
  with assms(1) consider "is_blank (src ! i)" | t where "t \<in> set ts" "in_range i (token_range t)"
    | c where "c \<in> set cs" "in_range i (comment_range c)"
    unfolding covered_def by metis
  then show "is_blank (src ! i) \<or> (\<exists>t \<in> set ts'. in_range i (token_range t))
      \<or> (\<exists>c \<in> set cs. in_range i (comment_range c))"
  proof cases
    case 2
    then obtain t' where "t' \<in> set ts'" "token_range t' = token_range t" using assms(2) by force
    with 2 show ?thesis by metis
  qed auto
qed

lemma attach_ranges: "token_range ` set (attach_joint_facts ts) = token_range ` set ts"
proof -
  have "map token_range (attach_joint_facts ts) = map token_range ts"
    by (rule nth_equalityI) (auto simp: attach_range)
  then show ?thesis by (metis list.set_map)
qed

text \<open>What \<open>lex_file\<close> returns, in terms of the lexer that has read the whole text.\<close>

lemma lex_result:
  assumes "source_ok src"
  obtains f l where "lex_file src = Some f" and "stands src l" and "lex_cursor l = length src"
    and "lexed_tokens f = attach_joint_facts (lex_tokens l
        @ [token_new EndOfFile \<lparr>range_start = length src, range_end = length src\<rparr>])"
    and "lexed_comments f = lex_comments l" and "lexed_diagnostics f = lex_diagnostics l"
proof -
  have "stands src lexer_new"
    by (simp add: lexer_ok_def lexer_new_def tokens_placed_def covered_def)
  from code_specD [OF conjunct1 [OF lex_specs [OF assms, of "length src + 1"]] this, of False 0] obtain b l where
    l: "lex_code (length src + 1) src False 0 lexer_new = Some (b, l)" "stands src l" "lex_cursor l = length src"
    by (auto simp: lexer_new_def)
  have "lex_span src (length src) (length src) = Some \<lparr>range_start = length src, range_end = length src\<rparr>"
    using assms by (simp add: lex_span_ok)
  then have "push_token src EndOfFile (length src) (length src) l
      = Some (l\<lparr>lex_tokens := lex_tokens l @ [token_new EndOfFile \<lparr>range_start = length src, range_end = length src\<rparr>]\<rparr>)"
    by (simp add: push_token_def)
  with l that show thesis by (simp add: lex_file_def Let_def del: lex_code.simps)
qed

lemma sample_source: "source_ok ''f(a>>1)''" "source_ok ''f(x) // x''"
  by (auto intro!: source_ok_ascii simp: code_def)

lemma lex_sample:
  "map_option (\<lambda>f. map token_kind (lexed_tokens f)) (lex_file ''f(a>>1)'')
    = Some [Identifier, Punctuation PLeftParen, Identifier, Punctuation PShiftRight, IntegerLiteral,
        Punctuation PRightParen, EndOfFile]"
  by code_simp

lemma lex_commented: "map_option lexed_diagnostics (lex_file ''f(x) // x'') = Some []"
  by code_simp

lemma lex_file_placed:
  assumes "source_ok src" and "lex_file src = Some f"
  shows "\<exists>ts e. lexed_tokens f = ts @ [e] \<and> token_kind e = EndOfFile
    \<and> token_range e = \<lparr>range_start = length src, range_end = length src\<rparr>
    \<and> tokens_placed src ts (length src)
    \<and> (\<forall>i < length ts. joint_to_next (ts ! i)
          = (range_end (token_range (ts ! i)) = range_start (token_range (lexed_tokens f ! Suc i))))"
proof -
  from lex_result [OF assms(1)] assms(2) obtain l where
    l: "stands src l" "lex_cursor l = length src" and
    f: "lexed_tokens f = attach_joint_facts (lex_tokens l
        @ [token_new EndOfFile \<lparr>range_start = length src, range_end = length src\<rparr>])" (is "_ = attach_joint_facts ?all")
    by (metis option.inject)
  let ?n = "length (lex_tokens l)" and ?ts = "take (length (lex_tokens l)) (lexed_tokens f)"
  have n: "length (lexed_tokens f) = Suc ?n" using f by simp
  have e: "lexed_tokens f = ?ts @ [lexed_tokens f ! ?n]"
    using take_Suc_conv_app_nth [of ?n "lexed_tokens f"] n by simp
  have kind: "token_kind (lexed_tokens f ! ?n) = EndOfFile"
    "token_range (lexed_tokens f ! ?n) = \<lparr>range_start = length src, range_end = length src\<rparr>"
    using f by (auto simp: attach_nth token_new_def)
  have ts: "token_range (?ts ! i) = token_range (lex_tokens l ! i)" "token_fits src (?ts ! i) = token_fits src (lex_tokens l ! i)"
    if "i < ?n" for i
    using that f by (auto simp: attach_range token_fits_attach nth_append)
  from l have placed: "tokens_placed src (lex_tokens l) (length src)" by (simp add: lexer_ok_def)
  have len: "length ?ts = ?n" using n by simp
  have "tokens_placed src ?ts (length src)"
    unfolding tokens_placed_def list_all_length sorted_wrt_iff_nth_less all_set_conv_all_nth len
    using placed ts unfolding tokens_placed_def list_all_length sorted_wrt_iff_nth_less all_set_conv_all_nth by simp
  moreover have "joint_to_next (?ts ! i)
      = (range_end (token_range (?ts ! i)) = range_start (token_range (lexed_tokens f ! Suc i)))" if "i < ?n" for i
    using that f by (auto simp: attach_nth)
  ultimately show ?thesis using e kind len by (intro exI [of _ ?ts] exI [of _ "lexed_tokens f ! ?n"]) auto
qed

section \<open>Properties\<close>

text \<open>
  C36: the lexer never panics and always returns: on every text that is valid UTF-8 and below 4 GiB,
  every slice it takes is on a character boundary, every range it makes fits its 32-bit offsets, and the
  mutually recursive scan of code and string literals ends.
\<close>

theorem lex_returns:
  assumes "source_ok src"
  shows "\<exists>f. lex_file src = Some f"
  using lex_result [OF assms] by metis

theorem lex_returns_witness: "\<exists>f. lex_file ''f(a>>1)'' = Some f"
  by (rule lex_returns [OF sample_source(1)])

text \<open>
  C7: the tokens of a file are in source order and do not overlap, each starts and ends on a character
  boundary, punctuation and keyword tokens spell what their kind says, the last token and no other is the
  empty end-of-file token at the end of the text, and the joint fact of a token says exactly whether the next
  token starts where it ends.
\<close>

theorem lex_tokens_placed:
  assumes "source_ok src" and "lex_file src = Some f"
  shows "\<exists>ts e. lexed_tokens f = ts @ [e] \<and> token_kind e = EndOfFile
    \<and> token_range e = \<lparr>range_start = length src, range_end = length src\<rparr>
    \<and> tokens_placed src ts (length src)
    \<and> (\<forall>i < length ts. joint_to_next (ts ! i)
          = (range_end (token_range (ts ! i)) = range_start (token_range (lexed_tokens f ! Suc i))))"
  by (rule lex_file_placed [OF assms])

theorem lex_tokens_placed_witness:
  "\<exists>f ts e. lex_file ''f(a>>1)'' = Some f \<and> lexed_tokens f = ts @ [e] \<and> token_kind e = EndOfFile
    \<and> tokens_placed ''f(a>>1)'' ts 7"
proof -
  from lex_sample obtain f where "lex_file ''f(a>>1)'' = Some f" by auto
  with lex_tokens_placed [OF sample_source(1) this] show ?thesis by (auto simp: eval_nat_numeral)
qed

text \<open>
  C8: if the lexer reports nothing, it lost nothing: every byte of the text lies in a token or in a comment, or
  is one of the blanks the lexer skips.
\<close>

theorem lex_covers:
  assumes "source_ok src" and "lex_file src = Some f" and "lexed_diagnostics f = []"
  shows "covered src (lexed_tokens f) (lexed_comments f) (length src)"
proof -
  from lex_result [OF assms(1)] assms(2,3) obtain l where
    l: "stands src l" "lex_cursor l = length src" "lex_diagnostics l = []" "lexed_comments f = lex_comments l" and
    f: "lexed_tokens f = attach_joint_facts (lex_tokens l
        @ [token_new EndOfFile \<lparr>range_start = length src, range_end = length src\<rparr>])"
    by (metis option.inject)
  then have "covered src (lex_tokens l) (lexed_comments f) (length src)" by (simp add: lexer_ok_def)
  then show ?thesis by (rule covered_mono) (auto simp: f attach_ranges)
qed

theorem lex_covers_witness:
  "\<exists>f. lex_file ''f(x) // x'' = Some f \<and> covered ''f(x) // x'' (lexed_tokens f) (lexed_comments f) 9"
proof -
  from lex_commented obtain f where "lex_file ''f(x) // x'' = Some f" "lexed_diagnostics f = []" by auto
  with lex_covers [OF sample_source(2) this] show ?thesis by (auto simp: eval_nat_numeral)
qed

end
