(* ===== verification/Syntax_Tree.thy ===== *)
theory Syntax_Tree
  imports Syntax_Token "HOL-Library.Monad_Syntax"
begin

text \<open>
  The syntax tree of \<open>nocter-syntax\<close> (\<open>tree.rs\<close>, \<open>diagnostic.rs\<close>): the events a parser emits and
  \<open>build_tree\<close>, which turns them into flat arenas of nodes and child elements. A node kind is represented by
  its stable spelling (\<open>NodeKind::as_str\<close>); source identities are left out, because one parse has one source.
  \<open>None\<close> is a panic.
\<close>

section \<open>Kinds and diagnostics\<close>

type_synonym node_kind = string

definition all_node_kinds :: "node_kind list" where
  "all_node_kinds = [
    ''source_file'', ''package_directive'', ''directive_value'', ''directive_record'', ''directive_field'',
    ''string_literal'', ''source_visibility_declaration'', ''source_visibility_path'', ''use_declaration'',
    ''visibility'', ''module_path'', ''module_alias'', ''import_selection'', ''selected_name'', ''item'',
    ''target_directive'', ''constant_declaration'', ''static_declaration'', ''function_declaration'',
    ''primitive_type_declaration'', ''type_alias_declaration'', ''struct_declaration'', ''struct_field'',
    ''enum_declaration'', ''enum_variant'', ''enum_payload'', ''interface_declaration'',
    ''associated_type_declaration'', ''interface_bounds'', ''interface_method'',
    ''interface_default_modifier'', ''compile_time_modifier'', ''no_allocation_modifier'',
    ''no_trap_modifier'', ''blocking_modifier'', ''async_modifier'', ''construct_declaration'',
    ''construction_function'', ''literal_declaration'', ''literal_shape'', ''instance_declaration'',
    ''inherent_method'', ''method_signature'', ''receiver'', ''coercion_declaration'',
    ''coercion_provenance'', ''equality_operator'', ''ordering_operator'', ''index_operator'',
    ''expansion_operator'', ''interface_implementation'', ''interface_application'',
    ''associated_bindings'', ''associated_type_binding'', ''drop_declaration'', ''test_declaration'',
    ''generic_parameters'', ''type_generic_parameter'', ''constant_generic_parameter'', ''parameters'',
    ''parameter'', ''argument_pack_modifier'', ''argument_pack_value_type'', ''callable_tail'',
    ''provenance_clause'', ''block'', ''block_use_declaration'', ''executable_sequence'',
    ''expression_statement'', ''body_result'', ''binding_statement'', ''binding_pattern'',
    ''type_annotation'', ''assignment_statement'', ''assignment_target'', ''return_statement'',
    ''break_statement'', ''continue_statement'', ''drop_statement'', ''while_statement'',
    ''loop_statement'', ''for_statement'', ''for_await_statement'', ''for_bindings'', ''for_source'',
    ''region_statement'', ''named_place'', ''allocator_place'', ''expression'', ''recovery_expression'',
    ''recovery_clause'', ''logical_or_expression'', ''logical_and_expression'', ''equality_expression'',
    ''ordering_expression'', ''shift_expression'', ''additive_expression'', ''multiplicative_expression'',
    ''conversion_expression'', ''unary_expression'', ''move_expression'', ''await_expression'',
    ''outcome_expression'', ''postfix_expression'', ''call_suffix'', ''keyed_argument'', ''member_suffix'',
    ''tuple_element_suffix'', ''index_suffix'', ''if_expression'', ''if_condition'', ''else_clause'',
    ''match_expression'', ''match_arm'', ''enum_pattern'', ''enum_pattern_payload'', ''payload_slot'',
    ''closure_expression'', ''closure_head'', ''closure_captures'', ''closure_capture'',
    ''closure_parameters'', ''closure_parameter'', ''closure_result'', ''struct_literal'',
    ''struct_initializer'', ''field_initializer'', ''typed_sequence_literal'', ''sequence_body'',
    ''sequence_element'', ''typed_mapping_literal'', ''mapping_body'', ''mapping_element'',
    ''spread_expression'', ''typed_string_literal'', ''allocation_override'', ''array_literal'',
    ''array_repeat_literal'', ''string_expression'', ''string_part'', ''generic_owner_member'',
    ''reference_expression'', ''grouped_expression'', ''tuple_expression'', ''scalar_literal'', ''type'',
    ''self_type'', ''pointer_type'', ''borrow_type'', ''future_type'', ''callable_type'',
    ''erased_callable_modifier'', ''callable_parameters'', ''callable_parameter'', ''named_type'',
    ''generic_arguments'', ''generic_argument'', ''slice_type'', ''fixed_array_type'', ''grouped_type'',
    ''tuple_type'', ''opaque_result'', ''where_clause'', ''interface_predicate'', ''callable_predicate'',
    ''copy_predicate'', ''type_equality_predicate'', ''operator_predicate'', ''coercion_predicate'',
    ''expansion_predicate'', ''declaration_type_pattern'', ''pattern_arguments'', ''error'']"

datatype expected_syntax =
    ExpectedToken token_kind
  | ExpectedKeyword keyword
  | ExpectedPunctuation punctuation
  | ExpectedContextual utf8_text
  | ExpectedName
  | ExpectedVisibility
  | ExpectedPackageDirectiveName
  | ExpectedDirectiveValue
  | ExpectedStringLiteral
  | ExpectedModuleSegment
  | ExpectedType
  | ExpectedParameter
  | ExpectedTargetableItem
  | ExpectedItem
  | ExpectedDeclarationMember
  | ExpectedAssociatedTypeBinding
  | ExpectedDeclarationTypePattern
  | ExpectedReceiver
  | ExpectedBlock
  | ExpectedLiteralShape
  | ExpectedExpression
  | ExpectedBindingPattern
  | ExpectedAssignmentTarget
  | ExpectedEnumPattern
  | ExpectedClosureHead
  | ExpectedPredicate
  | ExpectedInterface
  | ExpectedNewline

datatype parse_diagnostic_kind = Expected expected_syntax | LateDependencyDeclaration | NestingLimit

record parse_diagnostic =
  parse_diagnostic_kind :: parse_diagnostic_kind
  parse_diagnostic_range :: text_range

section \<open>Events and nodes\<close>

record syntax_token =
  lexical :: nat
  syntax_kind :: token_kind
  syntax_range :: text_range

record missing_syntax =
  missing_expected :: expected_syntax
  missing_range :: text_range

text \<open>\<open>Event\<close>: a start event holds the kind, the offset and the distance to its forward parent.\<close>

datatype event =
    StartEvent node_kind nat "nat option"
  | TokenEvent syntax_token
  | MissingEvent missing_syntax
  | FinishEvent

datatype syntax_element =
    NodeElement nat
  | TokenElement syntax_token
  | MissingElement missing_syntax

record syntax_node =
  node_kind :: node_kind
  node_range :: text_range
  first_child :: nat
  child_count :: nat

record built_tree =
  tree_nodes :: "syntax_node list"
  tree_elements :: "syntax_element list"
  tree_root :: nat

section \<open>Building a tree\<close>

record frame =
  frame_kind :: node_kind
  frame_offset :: nat
  frame_children :: "syntax_element list"

record builder =
  open_frames :: "frame list"
  built_nodes :: "syntax_node list"
  built_elements :: "syntax_element list"
  built_root :: "nat option"
  consumed_starts :: "bool list"

definition tree_builder_new :: "event list \<Rightarrow> builder" where
  "tree_builder_new events = \<lparr>open_frames = [], built_nodes = [], built_elements = [], built_root = None,
     consumed_starts = replicate (length events) False\<rparr>"

text \<open>\<open>NodeId::new\<close> checks that the index fits 32 bits.\<close>

definition node_id :: "nat \<Rightarrow> nat option" where
  "node_id i = (if int i < 4294967296 then Some i else None)"

text \<open>The chain of forward parents of a start event, innermost first; every member is consumed.\<close>

function forward_chain ::
  "event list \<Rightarrow> nat \<Rightarrow> bool list \<Rightarrow> ((node_kind \<times> nat) list \<times> bool list) option" where
  "forward_chain events i consumed =
     (if consumed ! i then None
      else case events ! i of
        StartEvent k offset forward_parent \<Rightarrow>
          (case forward_parent of
             None \<Rightarrow> Some ([(k, offset)], consumed[i := True])
           | Some d \<Rightarrow>
               if d = 0 \<or> length events \<le> i + d then None
               else map_option (\<lambda>(chain, c). ((k, offset) # chain, c))
                      (forward_chain events (i + d) (consumed[i := True])))
      | _ \<Rightarrow> None)"
  by pat_completeness auto

termination
  by (relation "measure (\<lambda>(events, i, consumed). length events - i)") auto

declare forward_chain.simps [simp del]

definition element_range :: "syntax_node list \<Rightarrow> syntax_element \<Rightarrow> text_range option" where
  "element_range nodes e =
     (case e of
        NodeElement i \<Rightarrow> if i < length nodes then Some (node_range (nodes ! i)) else None
      | TokenElement t \<Rightarrow> Some (syntax_range t)
      | MissingElement m \<Rightarrow> Some (missing_range m))"

text \<open>\<open>child_range\<close>, with the offset of the frame for a node without children.\<close>

definition child_range :: "syntax_node list \<Rightarrow> nat \<Rightarrow> syntax_element list \<Rightarrow> text_range option" where
  "child_range nodes offset children =
     (if children = [] then Some (range_empty offset)
      else do {
        first \<leftarrow> element_range nodes (hd children);
        final \<leftarrow> element_range nodes (last children);
        text_range_new (range_start first) (range_end final) })"

definition add_child :: "syntax_element \<Rightarrow> frame list \<Rightarrow> frame list option" where
  "add_child e frames =
     (case frames of
        [] \<Rightarrow> None
      | f # rest \<Rightarrow> Some (f\<lparr>frame_children := frame_children f @ [e]\<rparr> # rest))"

definition finish_node :: "builder \<Rightarrow> builder option" where
  "finish_node b =
     (case open_frames b of
        [] \<Rightarrow> None
      | f # rest \<Rightarrow> do {
          span \<leftarrow> child_range (built_nodes b) (frame_offset f) (frame_children f);
          i \<leftarrow> node_id (length (built_nodes b));
          let node = \<lparr>node_kind = frame_kind f, node_range = span, first_child = length (built_elements b),
            child_count = length (frame_children f)\<rparr>;
          (frames, root) \<leftarrow>
            (if rest = [] then (if built_root b = None then Some ([], Some i) else None)
             else map_option (\<lambda>fs. (fs, built_root b)) (add_child (NodeElement i) rest));
          Some (b\<lparr>open_frames := frames, built_nodes := built_nodes b @ [node],
            built_elements := built_elements b @ frame_children f, built_root := root\<rparr>) })"

text \<open>One turn of the loop of \<open>build_tree\<close>.\<close>

definition build_event :: "event list \<Rightarrow> nat \<Rightarrow> builder \<Rightarrow> builder option" where
  "build_event events i b =
     (case events ! i of
        StartEvent _ _ _ \<Rightarrow>
          if consumed_starts b ! i then Some b
          else map_option (\<lambda>(chain, c). b\<lparr>
              open_frames := map (\<lambda>(k, offset). \<lparr>frame_kind = k, frame_offset = offset, frame_children = []\<rparr>) chain
                @ open_frames b,
              consumed_starts := c\<rparr>)
            (forward_chain events i (consumed_starts b))
      | TokenEvent t \<Rightarrow> map_option (\<lambda>fs. b\<lparr>open_frames := fs\<rparr>) (add_child (TokenElement t) (open_frames b))
      | MissingEvent m \<Rightarrow> map_option (\<lambda>fs. b\<lparr>open_frames := fs\<rparr>) (add_child (MissingElement m) (open_frames b))
      | FinishEvent \<Rightarrow> finish_node b)"

fun build_events :: "event list \<Rightarrow> nat list \<Rightarrow> builder \<Rightarrow> builder option" where
  "build_events events [] b = Some b"
| "build_events events (i # is) b = do {
     b \<leftarrow> build_event events i b;
     build_events events is b }"

definition build_tree :: "event list \<Rightarrow> built_tree option" where
  "build_tree events = do {
     b \<leftarrow> build_events events [0..<length events] (tree_builder_new events);
     (if open_frames b = [] then do {
        root \<leftarrow> built_root b;
        Some \<lparr>tree_nodes = built_nodes b, tree_elements = built_elements b, tree_root = root\<rparr> }
      else None) }"

end
