(* ===== verification/Parser_State.thy ===== *)
theory Parser_State
  imports Syntax_Literal Syntax_Tree
begin

text \<open>
  The state of the parser of \<open>nocter-syntax\<close> and its primitives (\<open>parser/mod.rs\<close>, \<open>parser/newline.rs\<close>,
  \<open>contextual.rs\<close>, \<open>name.rs\<close>). A step is a function from a parser to \<open>Some\<close> of its result and the next parser; \<open>None\<close>
  is a panic or a loop that never ends. The results of the \<open>expect\<close> family are left out, since no caller reads
  them. \<open>current_kind\<close> is total: outside the tokens it is the end of file, and every step that follows such a read
  panics there.
\<close>

section \<open>Names\<close>

datatype contextual_spelling =
    CtxCopy | CtxWhere | CtxSome | CtxAny | CtxFrom | CtxDefault | CtxCoerce | CtxDrop
  | CtxStatic | CtxLowerSelf | CtxUpperSelf | CtxError | CtxDiscard | CtxTarget

primrec contextual_str :: "contextual_spelling \<Rightarrow> utf8_text" where
  "contextual_str CtxCopy = ''copy''"
| "contextual_str CtxWhere = ''where''"
| "contextual_str CtxSome = ''some''"
| "contextual_str CtxAny = ''any''"
| "contextual_str CtxFrom = ''from''"
| "contextual_str CtxDefault = ''default''"
| "contextual_str CtxCoerce = ''coerce''"
| "contextual_str CtxDrop = ''drop''"
| "contextual_str CtxStatic = ''static''"
| "contextual_str CtxLowerSelf = ''self''"
| "contextual_str CtxUpperSelf = ''Self''"
| "contextual_str CtxError = ''error''"
| "contextual_str CtxDiscard = ''_''"
| "contextual_str CtxTarget = ''target''"

definition is_name_start :: "char \<Rightarrow> bool" where
  "is_name_start b \<longleftrightarrow> is_ascii_alphabetic b \<or> b = CHR ''_''"

definition is_name_continue :: "char \<Rightarrow> bool" where
  "is_name_continue b \<longleftrightarrow> is_name_start b \<or> is_ascii_digit b"

definition is_valid_name :: "utf8_text \<Rightarrow> bool" where
  "is_valid_name text \<longleftrightarrow>
     (case text of [] \<Rightarrow> False | b # rest \<Rightarrow> is_name_start b \<and> list_all is_name_continue rest)
     \<and> text \<noteq> contextual_str CtxDiscard \<and> text \<noteq> contextual_str CtxUpperSelf
     \<and> keyword_from_spelling text = None"

section \<open>State\<close>

record parser =
  source_text :: utf8_text
  source_tokens :: "token list"
  par_cursor :: nat
  par_events :: "event list"
  par_diagnostics :: "parse_diagnostic list"
  par_nesting :: nat
  par_split :: "syntax_token option"

definition max_nesting :: nat where
  "max_nesting = 256"

definition parser_new :: "utf8_text \<Rightarrow> token list \<Rightarrow> parser" where
  "parser_new src tokens = \<lparr>source_text = src, source_tokens = tokens, par_cursor = 0, par_events = [],
     par_diagnostics = [], par_nesting = 0, par_split = None\<rparr>"

definition parser_finish :: "parser \<Rightarrow> (event list \<times> parse_diagnostic list) option" where
  "parser_finish p = (if par_split p = None then Some (par_events p, par_diagnostics p) else None)"

definition kind_at :: "parser \<Rightarrow> nat \<Rightarrow> token_kind" where
  "kind_at p i = (if i < length (source_tokens p) then token_kind (source_tokens p ! i) else EndOfFile)"

text \<open>\<open>tokens[i].kind()\<close>, which panics outside the tokens.\<close>

definition token_kind_at :: "parser \<Rightarrow> nat \<Rightarrow> token_kind option" where
  "token_kind_at p i = (if i < length (source_tokens p) then Some (token_kind (source_tokens p ! i)) else None)"

definition current_kind :: "parser \<Rightarrow> token_kind" where
  "current_kind p = (case par_split p of Some t \<Rightarrow> syntax_kind t | None \<Rightarrow> kind_at p (par_cursor p))"

definition current_span :: "parser \<Rightarrow> text_range option" where
  "current_span p =
     (case par_split p of
        Some t \<Rightarrow> Some (syntax_range t)
      | None \<Rightarrow>
          if par_cursor p < length (source_tokens p) then Some (token_range (source_tokens p ! par_cursor p)) else None)"

definition current_text :: "parser \<Rightarrow> utf8_text option" where
  "current_text p = do {
     span \<leftarrow> current_span p;
     str_get (range_start span) (range_end span) (source_text p) }"

definition nth_kind :: "nat \<Rightarrow> parser \<Rightarrow> token_kind option" where
  "nth_kind distance p = (if par_split p = None then Some (kind_at p (par_cursor p + distance)) else None)"

definition at_kind :: "token_kind \<Rightarrow> parser \<Rightarrow> bool" where
  "at_kind k p \<longleftrightarrow> current_kind p = k"

abbreviation at_keyword :: "keyword \<Rightarrow> parser \<Rightarrow> bool" where
  "at_keyword k \<equiv> at_kind (Keyword k)"

abbreviation at_punctuation :: "punctuation \<Rightarrow> parser \<Rightarrow> bool" where
  "at_punctuation c \<equiv> at_kind (Punctuation c)"

definition contextual_at :: "nat \<Rightarrow> contextual_spelling \<Rightarrow> parser \<Rightarrow> bool" where
  "contextual_at i spelling p \<longleftrightarrow>
     i < length (source_tokens p)
     \<and> (let token = source_tokens p ! i in
         token_kind token = Identifier
         \<and> str_get (range_start (token_range token)) (range_end (token_range token)) (source_text p)
            = Some (contextual_str spelling))"

definition at_contextual :: "contextual_spelling \<Rightarrow> parser \<Rightarrow> bool" where
  "at_contextual spelling p \<longleftrightarrow> contextual_at (par_cursor p) spelling p"

section \<open>Events\<close>

definition push_event :: "event \<Rightarrow> parser \<Rightarrow> parser" where
  "push_event e p = p\<lparr>par_events := par_events p @ [e]\<rparr>"

text \<open>A marker is the index of its start event, and so is a completed marker.\<close>

definition start :: "parser \<Rightarrow> (nat \<times> parser) option" where
  "start p = do {
     span \<leftarrow> current_span p;
     Some (length (par_events p), push_event (StartEvent ''error'' (range_start span) None) p) }"

definition complete_node :: "nat \<Rightarrow> node_kind \<Rightarrow> parser \<Rightarrow> parser option" where
  "complete_node marker k p =
     (if marker < length (par_events p) then
        (case par_events p ! marker of
           StartEvent _ offset forward_parent \<Rightarrow>
             Some (push_event FinishEvent
               (p\<lparr>par_events := (par_events p)[marker := StartEvent k offset forward_parent]\<rparr>))
         | _ \<Rightarrow> None)
      else None)"

definition precede :: "nat \<Rightarrow> parser \<Rightarrow> (nat \<times> parser) option" where
  "precede completed p =
     (if completed < length (par_events p) then
        (case par_events p ! completed of
           StartEvent k offset None \<Rightarrow>
             let i = length (par_events p) in
             Some (i, push_event (StartEvent ''error'' offset None)
               (p\<lparr>par_events := (par_events p)[completed := StartEvent k offset (Some (i - completed))]\<rparr>))
         | _ \<Rightarrow> None)
      else None)"

definition bump :: "parser \<Rightarrow> parser option" where
  "bump p =
     (case par_split p of
        Some t \<Rightarrow> Some (push_event (TokenEvent t) (p\<lparr>par_split := None, par_cursor := par_cursor p + 1\<rparr>))
      | None \<Rightarrow>
          if par_cursor p < length (source_tokens p) then
            let token = source_tokens p ! par_cursor p;
              t = \<lparr>lexical = par_cursor p, syntax_kind = token_kind token, syntax_range = token_range token\<rparr> in
            Some (push_event (TokenEvent t)
              (if token_kind token = EndOfFile then p else p\<lparr>par_cursor := par_cursor p + 1\<rparr>))
          else None)"

definition split_current :: "token_kind \<Rightarrow> token_kind \<Rightarrow> parser \<Rightarrow> parser option" where
  "split_current first second p =
     (if par_split p = None \<and> par_cursor p < length (source_tokens p) then
        let whole = token_range (source_tokens p ! par_cursor p); middle = range_start whole + 1 in
        if range_len whole = 2 then do {
          left \<leftarrow> text_range_new (range_start whole) middle;
          right \<leftarrow> text_range_new middle (range_end whole);
          Some (push_event (TokenEvent \<lparr>lexical = par_cursor p, syntax_kind = first, syntax_range = left\<rparr>)
            (p\<lparr>par_split := Some \<lparr>lexical = par_cursor p, syntax_kind = second, syntax_range = right\<rparr>\<rparr>)) }
        else None
      else None)"

section \<open>Diagnostics\<close>

definition report :: "parse_diagnostic_kind \<Rightarrow> text_range \<Rightarrow> parser \<Rightarrow> parser" where
  "report k span p = p\<lparr>par_diagnostics := par_diagnostics p
     @ [\<lparr>parse_diagnostic_kind = k, parse_diagnostic_range = span\<rparr>]\<rparr>"

definition diagnostic :: "parse_diagnostic_kind \<Rightarrow> parser \<Rightarrow> parser option" where
  "diagnostic k p = do { span \<leftarrow> current_span p; Some (report k span p) }"

text \<open>\<open>SourceFile::span\<close> checks that a span ends inside the text.\<close>

definition empty_current_span :: "parser \<Rightarrow> text_range option" where
  "empty_current_span p = do {
     span \<leftarrow> current_span p;
     (if range_start span \<le> length (source_text p) then Some (range_empty (range_start span)) else None) }"

definition report_missing :: "expected_syntax \<Rightarrow> parser \<Rightarrow> parser option" where
  "report_missing expected p = do {
     span \<leftarrow> empty_current_span p;
     Some (report (Expected expected) span
       (push_event (MissingEvent \<lparr>missing_expected = expected, missing_range = span\<rparr>) p)) }"

definition error_token :: "expected_syntax \<Rightarrow> parser \<Rightarrow> parser option" where
  "error_token expected p =
     (if at_kind EndOfFile p then report_missing expected p
      else do {
        p \<leftarrow> diagnostic (Expected expected) p;
        (marker, p) \<leftarrow> start p;
        p \<leftarrow> bump p;
        complete_node marker ''error'' p })"

section \<open>Eating and expecting tokens\<close>

definition eat :: "token_kind \<Rightarrow> parser \<Rightarrow> (bool \<times> parser) option" where
  "eat k p = (if at_kind k p then do { p \<leftarrow> bump p; Some (True, p) } else Some (False, p))"

abbreviation eat_keyword :: "keyword \<Rightarrow> parser \<Rightarrow> (bool \<times> parser) option" where
  "eat_keyword k \<equiv> eat (Keyword k)"

abbreviation eat_punctuation :: "punctuation \<Rightarrow> parser \<Rightarrow> (bool \<times> parser) option" where
  "eat_punctuation c \<equiv> eat (Punctuation c)"

definition eat_type_greater :: "parser \<Rightarrow> (bool \<times> parser) option" where
  "eat_type_greater p = do {
     (eaten, p) \<leftarrow> eat_punctuation PGreater p;
     if eaten then Some (True, p)
     else if at_punctuation PShiftRight p then do {
       p \<leftarrow> split_current (Punctuation PGreater) (Punctuation PGreater) p;
       Some (True, p) }
     else Some (False, p) }"

definition expect_type_greater :: "parser \<Rightarrow> parser option" where
  "expect_type_greater p = do {
     (eaten, p) \<leftarrow> eat_type_greater p;
     if eaten then Some p else report_missing (ExpectedPunctuation PGreater) p }"

definition expect :: "token_kind \<Rightarrow> parser \<Rightarrow> parser option" where
  "expect k p = (if at_kind k p then bump p else report_missing (ExpectedToken k) p)"

definition expect_keyword :: "keyword \<Rightarrow> parser \<Rightarrow> parser option" where
  "expect_keyword k p = (if at_keyword k p then bump p else report_missing (ExpectedKeyword k) p)"

definition expect_punctuation :: "punctuation \<Rightarrow> parser \<Rightarrow> parser option" where
  "expect_punctuation c p = (if at_punctuation c p then bump p else report_missing (ExpectedPunctuation c) p)"

definition expect_name :: "parser \<Rightarrow> parser option" where
  "expect_name p =
     (if at_kind Identifier p then do {
        text \<leftarrow> current_text p;
        if is_valid_name text then bump p else error_token ExpectedName p }
      else report_missing ExpectedName p)"

definition expect_name_or_discard :: "parser \<Rightarrow> parser option" where
  "expect_name_or_discard p = (if at_contextual CtxDiscard p then bump p else expect_name p)"

definition expect_contextual :: "contextual_spelling \<Rightarrow> parser \<Rightarrow> parser option" where
  "expect_contextual spelling p =
     (if at_contextual spelling p then bump p else report_missing (ExpectedContextual (contextual_str spelling)) p)"

definition expect_identifier_text :: "utf8_text \<Rightarrow> parser \<Rightarrow> parser option" where
  "expect_identifier_text text p =
     (if at_kind Identifier p then do {
        current \<leftarrow> current_text p;
        if current = text then bump p else report_missing (ExpectedContextual text) p }
      else report_missing (ExpectedContextual text) p)"

text \<open>\<open>eat_newlines\<close>, with the number of newlines eaten.\<close>

partial_function (option) eat_newlines :: "parser \<Rightarrow> (nat \<times> parser) option" where
  [code]: "eat_newlines p = do {
     (eaten, p) \<leftarrow> eat Newline p;
     if eaten then do { (n, p) \<leftarrow> eat_newlines p; Some (n + 1, p) }
     else Some (0, p) }"

section \<open>Recovery\<close>

partial_function (option) bump_until :: "token_kind list \<Rightarrow> parser \<Rightarrow> parser option" where
  [code]: "bump_until boundaries p =
     (if at_kind EndOfFile p \<or> current_kind p \<in> set boundaries then Some p
      else do { p \<leftarrow> bump p; bump_until boundaries p })"

definition recover_until :: "token_kind list \<Rightarrow> parser \<Rightarrow> parser option" where
  "recover_until boundaries p =
     (if at_kind EndOfFile p \<or> current_kind p \<in> set boundaries then Some p
      else do {
        (marker, p) \<leftarrow> start p;
        p \<leftarrow> bump_until boundaries p;
        complete_node marker ''error'' p })"

definition recover_to_line_end :: "parser \<Rightarrow> parser option" where
  "recover_to_line_end = recover_until [Newline]"

definition require_line_end :: "parser \<Rightarrow> parser option" where
  "require_line_end p =
     (if at_kind EndOfFile p then Some p
      else do {
        (n, p) \<leftarrow> eat_newlines p;
        if 0 < n then Some p
        else do {
          p \<leftarrow> report_missing ExpectedNewline p;
          p \<leftarrow> recover_to_line_end p;
          (_, p) \<leftarrow> eat_newlines p;
          Some p } })"

text \<open>The depth loop of \<open>recover_balanced\<close>.\<close>

partial_function (option) bump_balanced :: "punctuation \<Rightarrow> punctuation \<Rightarrow> nat \<Rightarrow> parser \<Rightarrow> parser option" where
  [code]: "bump_balanced opening closing depth p =
     (if depth = 0 \<or> at_kind EndOfFile p then Some p
      else do {
        q \<leftarrow> bump p;
        bump_balanced opening closing
          (if at_punctuation opening p then depth + 1 else if at_punctuation closing p then depth - 1 else depth) q })"

definition recover_balanced :: "punctuation \<Rightarrow> punctuation \<Rightarrow> parser \<Rightarrow> parser option" where
  "recover_balanced opening closing p = do {
     (marker, p) \<leftarrow> start p;
     p \<leftarrow> bump_balanced opening closing 1 p;
     complete_node marker ''error'' p }"

section \<open>Nesting\<close>

definition enter_nesting :: "parser \<Rightarrow> (bool \<times> parser) option" where
  "enter_nesting p =
     (if par_nesting p = max_nesting then do { p \<leftarrow> diagnostic NestingLimit p; Some (False, p) }
      else Some (True, p\<lparr>par_nesting := par_nesting p + 1\<rparr>))"

definition leave_nesting :: "parser \<Rightarrow> parser option" where
  "leave_nesting p = (if 0 < par_nesting p then Some (p\<lparr>par_nesting := par_nesting p - 1\<rparr>) else None)"

section \<open>Lists\<close>

definition at_list_end :: "punctuation \<Rightarrow> parser \<Rightarrow> bool" where
  "at_list_end closing p \<longleftrightarrow> at_punctuation closing p \<or> at_kind EndOfFile p"

text \<open>The loop of \<open>comma_list\<close>.\<close>

partial_function (option) comma_loop ::
  "punctuation \<Rightarrow> expected_syntax \<Rightarrow> (parser \<Rightarrow> parser option) \<Rightarrow> parser \<Rightarrow> parser option" where
  [code]: "comma_loop closing expected element p = do {
     q \<leftarrow> element p;
     q \<leftarrow> (if par_cursor q = par_cursor p then error_token expected q else Some q);
     (comma, q) \<leftarrow> eat_punctuation PComma q;
     (_, q) \<leftarrow> eat_newlines q;
     if at_list_end closing q then Some q
     else if comma then comma_loop closing expected element q
     else do {
       q \<leftarrow> report_missing (ExpectedPunctuation PComma) q;
       comma_loop closing expected element q } }"

definition comma_list ::
  "punctuation \<Rightarrow> bool \<Rightarrow> expected_syntax \<Rightarrow> (parser \<Rightarrow> parser option) \<Rightarrow> parser \<Rightarrow> parser option" where
  "comma_list closing allow_empty expected element p = do {
     (_, p) \<leftarrow> eat_newlines p;
     if at_list_end closing p then (if allow_empty then Some p else report_missing expected p)
     else comma_loop closing expected element p }"

text \<open>The newline that must follow an element of a sequence of lines, with recovery up to the next boundary.\<close>

definition separate_lines :: "punctuation \<Rightarrow> parser \<Rightarrow> parser option" where
  "separate_lines closing p = do {
     (n, p) \<leftarrow> eat_newlines p;
     if n = 0 then do {
       p \<leftarrow> report_missing ExpectedNewline p;
       p \<leftarrow> recover_until [Newline, Punctuation closing] p;
       (_, p) \<leftarrow> eat_newlines p;
       Some p }
     else Some p }"

partial_function (option) line_loop ::
  "punctuation \<Rightarrow> expected_syntax \<Rightarrow> (parser \<Rightarrow> parser option) \<Rightarrow> parser \<Rightarrow> parser option" where
  [code]: "line_loop closing expected element p =
     (if at_list_end closing p then Some p
      else do {
        q \<leftarrow> element p;
        q \<leftarrow> (if par_cursor q = par_cursor p \<and> par_split q = par_split p then error_token expected q else Some q);
        if at_list_end closing q then Some q
        else do {
          q \<leftarrow> separate_lines closing q;
          line_loop closing expected element q } })"

definition line_sequence ::
  "punctuation \<Rightarrow> expected_syntax \<Rightarrow> (parser \<Rightarrow> parser option) \<Rightarrow> parser \<Rightarrow> parser option" where
  "line_sequence closing expected element p = do {
     (_, p) \<leftarrow> eat_newlines p;
     line_loop closing expected element p }"

definition braced_line_sequence_with_minimum ::
  "expected_syntax \<Rightarrow> (parser \<Rightarrow> parser option) \<Rightarrow> bool \<Rightarrow> parser \<Rightarrow> parser option" where
  "braced_line_sequence_with_minimum expected element require_element p =
     (if at_punctuation PLeftBrace p then do {
        p \<leftarrow> bump p;
        (entered, p) \<leftarrow> enter_nesting p;
        if entered then do {
          p \<leftarrow> (if require_element then do {
                (_, p) \<leftarrow> eat_newlines p;
                if at_punctuation PRightBrace p then report_missing expected p else Some p }
              else Some p);
          p \<leftarrow> line_sequence PRightBrace expected element p;
          p \<leftarrow> expect_punctuation PRightBrace p;
          leave_nesting p }
        else recover_balanced PLeftBrace PRightBrace p }
      else report_missing (ExpectedPunctuation PLeftBrace) p)"

section \<open>Transactions\<close>

text \<open>
  \<open>rollback\<close> to a checkpoint, which is the earlier parser: the events and diagnostics are truncated, but the first
  nesting diagnostic of the rejected branch survives.
\<close>

definition rollback :: "parser \<Rightarrow> parser \<Rightarrow> parser option" where
  "rollback checkpoint p =
     (if length (par_diagnostics checkpoint) \<le> length (par_diagnostics p) then
        let n = length (par_diagnostics checkpoint);
          kept = find (\<lambda>d. parse_diagnostic_kind d = NestingLimit) (drop n (par_diagnostics p)) in
        Some (p\<lparr>par_cursor := par_cursor checkpoint, par_split := par_split checkpoint,
          par_nesting := par_nesting checkpoint, par_events := take (length (par_events checkpoint)) (par_events p),
          par_diagnostics := take n (par_diagnostics p) @ (case kept of None \<Rightarrow> [] | Some d \<Rightarrow> [d])\<rparr>)
      else None)"

definition attempt_decided_with ::
  "(parser \<Rightarrow> ('a \<times> parser) option) \<Rightarrow> ('a \<Rightarrow> parser \<Rightarrow> bool option) \<Rightarrow> parser \<Rightarrow> ('a option \<times> parser) option" where
  "attempt_decided_with parse accept p = do {
     (value, q) \<leftarrow> parse p;
     accepted \<leftarrow> accept value q;
     if accepted then Some (Some value, q) else map_option (Pair None) (rollback p q) }"

definition attempt_with ::
  "(parser \<Rightarrow> ('a \<times> parser) option) \<Rightarrow> ('a \<Rightarrow> parser \<Rightarrow> bool option) \<Rightarrow> parser \<Rightarrow> ('a option \<times> parser) option" where
  "attempt_with parse accept p =
     attempt_decided_with parse
       (\<lambda>value q. if length (par_diagnostics q) = length (par_diagnostics p) then accept value q else Some False) p"

definition attempt :: "(parser \<Rightarrow> parser option) \<Rightarrow> parser \<Rightarrow> (bool \<times> parser) option" where
  "attempt parse p = do {
     (value, p) \<leftarrow> attempt_with (\<lambda>p. map_option (Pair ()) (parse p)) (\<lambda>_ _. Some True) p;
     Some (value \<noteq> None, p) }"

section \<open>Continuation newlines\<close>

datatype boundary = StatementBoundary | DelimitedBoundary

definition newline_count :: "parser \<Rightarrow> nat option" where
  "newline_count p =
     (if par_split p = None
      then Some (length (takeWhile (\<lambda>t. token_kind t = Newline) (drop (par_cursor p) (source_tokens p))))
      else None)"

definition is_admitted :: "boundary \<Rightarrow> nat \<Rightarrow> bool" where
  "is_admitted b count \<longleftrightarrow> 0 < count \<and> (b = DelimitedBoundary \<or> count = 1)"

fun bump_times :: "nat \<Rightarrow> parser \<Rightarrow> parser option" where
  "bump_times 0 p = Some p"
| "bump_times (Suc n) p = do { p \<leftarrow> bump p; bump_times n p }"

definition newline_before :: "boundary \<Rightarrow> (token_kind \<Rightarrow> bool) \<Rightarrow> parser \<Rightarrow> parser option" where
  "newline_before b is_leader p = do {
     count \<leftarrow> newline_count p;
     if count = 0 then Some p
     else do {
       k \<leftarrow> nth_kind count p;
       if is_leader k \<and> is_admitted b count then bump_times count p else Some p } }"

definition newline_before_token :: "boundary \<Rightarrow> token_kind \<Rightarrow> parser \<Rightarrow> parser option" where
  "newline_before_token b leader = newline_before b (\<lambda>k. k = leader)"

definition newline_after_incomplete :: "boundary \<Rightarrow> parser \<Rightarrow> parser option" where
  "newline_after_incomplete b p = do {
     count \<leftarrow> newline_count p;
     if is_admitted b count then bump_times count p else Some p }"

end
