(* ===== verification/Language_Vocabulary.thy ===== *)
theory Language_Vocabulary
  imports Syntax_Token
begin

text \<open>
  The fixed vocabulary of \<open>nocter-language\<close> that the parser consults: primitive types (\<open>lib.rs\<close>), callable
  modifiers and the prefixes each production admits (\<open>callable_modifier.rs\<close>), and the names of package directives
  (\<open>package.rs\<close>).
\<close>

section \<open>Primitive types\<close>

datatype builtin_type =
    BuiltinBool | BuiltinChar | BuiltinF32 | BuiltinF64 | BuiltinI8 | BuiltinI16 | BuiltinI32 | BuiltinI64
  | BuiltinU8 | BuiltinU16 | BuiltinU32 | BuiltinU64 | BuiltinUsize | BuiltinIsize | BuiltinStr | BuiltinError
  | BuiltinVoid | BuiltinNever

definition all_builtin_types :: "builtin_type list" where
  "all_builtin_types =
     [BuiltinBool, BuiltinChar, BuiltinF32, BuiltinF64, BuiltinI8, BuiltinI16, BuiltinI32, BuiltinI64,
      BuiltinU8, BuiltinU16, BuiltinU32, BuiltinU64, BuiltinUsize, BuiltinIsize, BuiltinStr, BuiltinError,
      BuiltinVoid, BuiltinNever]"

primrec builtin_str :: "builtin_type \<Rightarrow> utf8_text" where
  "builtin_str BuiltinBool = ''bool''"
| "builtin_str BuiltinChar = ''char''"
| "builtin_str BuiltinF32 = ''f32''"
| "builtin_str BuiltinF64 = ''f64''"
| "builtin_str BuiltinI8 = ''i8''"
| "builtin_str BuiltinI16 = ''i16''"
| "builtin_str BuiltinI32 = ''i32''"
| "builtin_str BuiltinI64 = ''i64''"
| "builtin_str BuiltinU8 = ''u8''"
| "builtin_str BuiltinU16 = ''u16''"
| "builtin_str BuiltinU32 = ''u32''"
| "builtin_str BuiltinU64 = ''u64''"
| "builtin_str BuiltinUsize = ''usize''"
| "builtin_str BuiltinIsize = ''isize''"
| "builtin_str BuiltinStr = ''str''"
| "builtin_str BuiltinError = ''error''"
| "builtin_str BuiltinVoid = ''void''"
| "builtin_str BuiltinNever = ''never''"

definition builtin_from_spelling :: "utf8_text \<Rightarrow> builtin_type option" where
  "builtin_from_spelling text = find (\<lambda>b. builtin_str b = text) all_builtin_types"

definition is_declaration_pattern :: "builtin_type \<Rightarrow> bool" where
  "is_declaration_pattern b \<longleftrightarrow> b \<noteq> BuiltinVoid \<and> b \<noteq> BuiltinNever"

text \<open>Spelling and reading back a primitive type.\<close>

lemma builtin_round_trip [simp]: "builtin_from_spelling (builtin_str b) = Some b"
  by (cases b) (simp_all add: builtin_from_spelling_def all_builtin_types_def)

section \<open>Callable modifiers\<close>

datatype callable_modifier =
  CompileTimeModifier | NoAllocationModifier | NoTrapModifier | BlockingModifier | AsyncModifier

definition all_modifiers :: "callable_modifier list" where
  "all_modifiers = [CompileTimeModifier, NoAllocationModifier, NoTrapModifier, BlockingModifier, AsyncModifier]"

text \<open>\<open>Keyword::from\<close>.\<close>

primrec modifier_keyword :: "callable_modifier \<Rightarrow> keyword" where
  "modifier_keyword CompileTimeModifier = KwConst"
| "modifier_keyword NoAllocationModifier = KwNoAlloc"
| "modifier_keyword NoTrapModifier = KwNoTrap"
| "modifier_keyword BlockingModifier = KwBlocking"
| "modifier_keyword AsyncModifier = KwAsync"

datatype callable_prefix_grammar = DeferredAllowed | Immediate | ImmediateGuarantees

primrec admits :: "callable_prefix_grammar \<Rightarrow> callable_modifier \<Rightarrow> bool" where
  "admits DeferredAllowed m \<longleftrightarrow> True"
| "admits Immediate m \<longleftrightarrow> m \<noteq> AsyncModifier"
| "admits ImmediateGuarantees m \<longleftrightarrow> m = NoAllocationModifier \<or> m = NoTrapModifier"

section \<open>Package directives\<close>

datatype package_directive_name = DirectivePackage | DirectiveDependencies | DirectiveExecutable | DirectiveTest

definition package_directive_from_spelling :: "utf8_text \<Rightarrow> package_directive_name option" where
  "package_directive_from_spelling text =
     (if text = ''package'' then Some DirectivePackage
      else if text = ''dependencies'' then Some DirectiveDependencies
      else if text = ''executable'' then Some DirectiveExecutable
      else if text = ''test'' then Some DirectiveTest
      else None)"

end
