(* ===== verification/Parser_Types.thy ===== *)
theory Parser_Types
  imports Parser_State Language_Vocabulary
begin

text \<open>
  The grammar of types (\<open>parser/types.rs\<close>, \<open>parser/place.rs\<close>, \<open>parser/declaration/modifiers.rs\<close>) and of requirements
  (\<open>parser/requirements.rs\<close>). The productions of the parser are mutually recursive; each takes as its first
  argument \<open>rec\<close> the productions that close a cycle, named by \<open>production\<close>, and \<open>Parser_Root\<close> ties the knot.
\<close>

section \<open>Recursive productions\<close>

datatype expression_mode = OrdinaryMode | HeaderMode | DelimitedMode | GenericArgumentMode

datatype production =
  TypeN | ExpressionN expression_mode | BlockN | IfN | BindingPatternN | DirectiveValueN

type_synonym grammar = "production \<Rightarrow> parser \<Rightarrow> (nat \<times> parser) option"

text \<open>A recursive production whose marker is not used.\<close>

definition sub :: "grammar \<Rightarrow> production \<Rightarrow> parser \<Rightarrow> parser option" where
  "sub rec nt p = map_option snd (rec nt p)"

definition node :: "nat \<Rightarrow> node_kind \<Rightarrow> parser \<Rightarrow> (nat \<times> parser) option" where
  "node marker k p = map_option (Pair marker) (complete_node marker k p)"

section \<open>Callable prefixes\<close>

fun scan_modifiers :: "callable_modifier list \<Rightarrow> callable_prefix_grammar \<Rightarrow> parser \<Rightarrow> nat \<Rightarrow> nat option" where
  "scan_modifiers [] g p i = Some i"
| "scan_modifiers (m # ms) g p i =
     (if admits g m then do {
        k \<leftarrow> token_kind_at p i;
        scan_modifiers ms g p (if k = Keyword (modifier_keyword m) then i + 1 else i) }
      else scan_modifiers ms g p i)"

text \<open>\<open>scan\<close>, with the end of the prefix.\<close>

definition scan_prefix :: "parser \<Rightarrow> nat \<Rightarrow> callable_prefix_grammar \<Rightarrow> nat option" where
  "scan_prefix p i g = scan_modifiers all_modifiers g p i"

primrec modifier_node_kind :: "callable_modifier \<Rightarrow> node_kind" where
  "modifier_node_kind CompileTimeModifier = ''compile_time_modifier''"
| "modifier_node_kind NoAllocationModifier = ''no_allocation_modifier''"
| "modifier_node_kind NoTrapModifier = ''no_trap_modifier''"
| "modifier_node_kind BlockingModifier = ''blocking_modifier''"
| "modifier_node_kind AsyncModifier = ''async_modifier''"

definition parse_modifier :: "callable_modifier \<Rightarrow> parser \<Rightarrow> parser option" where
  "parse_modifier m p = do {
     (marker, p) \<leftarrow> start p;
     p \<leftarrow> bump p;
     complete_node marker (modifier_node_kind m) p }"

fun parse_modifiers :: "callable_modifier list \<Rightarrow> callable_prefix_grammar \<Rightarrow> parser \<Rightarrow> parser option" where
  "parse_modifiers [] g p = Some p"
| "parse_modifiers (m # ms) g p = do {
     p \<leftarrow> (if admits g m \<and> at_keyword (modifier_keyword m) p then parse_modifier m p else Some p);
     parse_modifiers ms g p }"

definition parse_prefix :: "callable_prefix_grammar \<Rightarrow> parser \<Rightarrow> parser option" where
  "parse_prefix = parse_modifiers all_modifiers"

section \<open>Places\<close>

definition parse_suffix :: "parser \<Rightarrow> parser option" where
  "parse_suffix p = do {
     (suffix, p) \<leftarrow> start p;
     if at_kind IntegerLiteral p then do { p \<leftarrow> bump p; complete_node suffix ''tuple_element_suffix'' p }
     else do { p \<leftarrow> expect_name p; complete_node suffix ''member_suffix'' p } }"

partial_function (option) place_loop :: "parser \<Rightarrow> parser option" where
  [code]: "place_loop p = do {
     (dot, p) \<leftarrow> eat_punctuation PDot p;
     if dot then do { p \<leftarrow> parse_suffix p; place_loop p } else Some p }"

definition parse_place :: "parser \<Rightarrow> parser option" where
  "parse_place p = do {
     (marker, p) \<leftarrow> start p;
     p \<leftarrow> expect_name p;
     p \<leftarrow> place_loop p;
     complete_node marker ''named_place'' p }"

definition parse_allocator :: "parser \<Rightarrow> parser option" where
  "parse_allocator p = do {
     (marker, p) \<leftarrow> start p;
     p \<leftarrow> parse_place p;
     complete_node marker ''allocator_place'' p }"

section \<open>Names in types\<close>

definition at_builtin_pattern :: "parser \<Rightarrow> bool option" where
  "at_builtin_pattern p =
     (if at_kind Identifier p then do {
        text \<leftarrow> current_text p;
        Some (case builtin_from_spelling text of None \<Rightarrow> False | Some b \<Rightarrow> is_declaration_pattern b) }
      else Some False)"

definition at_builtin_type :: "parser \<Rightarrow> bool option" where
  "at_builtin_type p = do { text \<leftarrow> current_text p; Some (builtin_from_spelling text \<noteq> None) }"

definition expect_pattern_binder :: "parser \<Rightarrow> parser option" where
  "expect_pattern_binder p =
     (if at_kind Identifier p \<and> \<not> at_contextual CtxDiscard p \<and> \<not> at_contextual CtxUpperSelf p then do {
        builtin \<leftarrow> at_builtin_pattern p;
        if builtin then error_token ExpectedName p else bump p }
      else error_token ExpectedName p)"

partial_function (option) provenance_loop :: "parser \<Rightarrow> parser option" where
  [code]: "provenance_loop p = do {
     (pipe, p) \<leftarrow> eat_punctuation PPipe p;
     if pipe then do { p \<leftarrow> expect_name p; provenance_loop p } else Some p }"

definition parse_provenance :: "parser \<Rightarrow> parser option" where
  "parse_provenance p = do {
     (marker, p) \<leftarrow> start p;
     p \<leftarrow> bump p;
     p \<leftarrow> expect_name p;
     p \<leftarrow> provenance_loop p;
     complete_node marker ''provenance_clause'' p }"

definition optional_provenance :: "parser \<Rightarrow> parser option" where
  "optional_provenance p = (if at_contextual CtxFrom p then parse_provenance p else Some p)"

section \<open>Lists between angle brackets\<close>

definition at_type_list_end :: "parser \<Rightarrow> bool" where
  "at_type_list_end p \<longleftrightarrow> at_punctuation PGreater p \<or> at_punctuation PShiftRight p \<or> at_kind EndOfFile p"

partial_function (option) type_list_loop ::
  "expected_syntax \<Rightarrow> (parser \<Rightarrow> parser option) \<Rightarrow> parser \<Rightarrow> parser option" where
  [code]: "type_list_loop expected element p = do {
     q \<leftarrow> element p;
     q \<leftarrow> (if par_cursor q = par_cursor p \<and> par_split q = None then error_token expected q else Some q);
     (comma, q) \<leftarrow> eat_punctuation PComma q;
     (_, q) \<leftarrow> eat_newlines q;
     if at_type_list_end q then Some q
     else if comma then type_list_loop expected element q
     else do {
       q \<leftarrow> report_missing (ExpectedPunctuation PComma) q;
       type_list_loop expected element q } }"

definition type_delimited_list ::
  "bool \<Rightarrow> expected_syntax \<Rightarrow> (parser \<Rightarrow> parser option) \<Rightarrow> parser \<Rightarrow> parser option" where
  "type_delimited_list allow_empty expected element p = do {
     (_, p) \<leftarrow> eat_newlines p;
     if at_type_list_end p then (if allow_empty then Some p else report_missing expected p)
     else type_list_loop expected element p }"

definition parse_pattern_arguments :: "parser \<Rightarrow> parser option" where
  "parse_pattern_arguments p = do {
     (marker, p) \<leftarrow> start p;
     p \<leftarrow> bump p;
     p \<leftarrow> type_delimited_list False ExpectedName expect_pattern_binder p;
     p \<leftarrow> expect_type_greater p;
     complete_node marker ''pattern_arguments'' p }"

section \<open>Generic arguments\<close>

definition at_generic_argument_end :: "parser \<Rightarrow> bool option" where
  "at_generic_argument_end p =
     (if par_split p \<noteq> None then Some (at_punctuation PGreater p)
      else do {
        offset \<leftarrow> newline_count p;
        k \<leftarrow> nth_kind offset p;
        Some (k = Punctuation PComma \<or> k = Punctuation PGreater \<or> k = Punctuation PShiftRight) })"

definition parse_generic_argument :: "grammar \<Rightarrow> parser \<Rightarrow> parser option" where
  "parse_generic_argument rec p = do {
     (marker, p) \<leftarrow> start p;
     (parsed, p) \<leftarrow> attempt_with (\<lambda>p. map_option (Pair ()) (sub rec TypeN p)) (\<lambda>_. at_generic_argument_end) p;
     p \<leftarrow> (if parsed = None then sub rec (ExpressionN GenericArgumentMode) p else Some p);
     complete_node marker ''generic_argument'' p }"

definition parse_type_arguments :: "grammar \<Rightarrow> parser \<Rightarrow> parser option" where
  "parse_type_arguments rec p = do {
     (marker, p) \<leftarrow> start p;
     p \<leftarrow> bump p;
     (entered, p) \<leftarrow> enter_nesting p;
     if entered then do {
       p \<leftarrow> type_delimited_list False ExpectedType (parse_generic_argument rec) p;
       p \<leftarrow> expect_type_greater p;
       p \<leftarrow> leave_nesting p;
       complete_node marker ''generic_arguments'' p }
     else do {
       p \<leftarrow> recover_until [Punctuation PGreater, Punctuation PShiftRight] p;
       p \<leftarrow> expect_type_greater p;
       complete_node marker ''generic_arguments'' p } }"

text \<open>
  The selections of a named type, with whether type arguments were seen and how many plain selections follow
  them.
\<close>

partial_function (option) named_type_loop ::
  "grammar \<Rightarrow> bool \<Rightarrow> nat \<Rightarrow> parser \<Rightarrow> (bool \<times> nat \<times> parser) option" where
  [code]: "named_type_loop rec has_arguments plain p = do {
     (dot, p) \<leftarrow> eat_punctuation PDot p;
     if dot then do {
       p \<leftarrow> expect_name p;
       if at_punctuation PLess p then do {
         (parsed, p) \<leftarrow> attempt (parse_type_arguments rec) p;
         if parsed then named_type_loop rec True 0 p else named_type_loop rec has_arguments plain p }
       else named_type_loop rec has_arguments (if has_arguments then plain + 1 else plain) p }
     else Some (has_arguments, plain, p) }"

definition named_type_with_facts :: "grammar \<Rightarrow> parser \<Rightarrow> ((nat \<times> bool \<times> nat) \<times> parser) option" where
  "named_type_with_facts rec p = do {
     (marker, p) \<leftarrow> start p;
     (has_arguments, p) \<leftarrow>
       (if at_contextual CtxUpperSelf p then do {
          (self_type, p) \<leftarrow> start p;
          p \<leftarrow> bump p;
          p \<leftarrow> complete_node self_type ''self_type'' p;
          Some (False, p) }
        else do {
          p \<leftarrow> bump p;
          if at_punctuation PLess p then attempt (parse_type_arguments rec) p else Some (False, p) });
     (has_arguments, plain, p) \<leftarrow> named_type_loop rec has_arguments 0 p;
     p \<leftarrow> complete_node marker ''named_type'' p;
     Some ((marker, has_arguments, plain), p) }"

definition parse_named_type :: "grammar \<Rightarrow> parser \<Rightarrow> parser option" where
  "parse_named_type rec p = map_option snd (named_type_with_facts rec p)"

definition owner_reference :: "grammar \<Rightarrow> parser \<Rightarrow> ((nat \<times> bool \<times> nat) \<times> parser) option" where
  "owner_reference rec p =
     (if at_kind Identifier p then named_type_with_facts rec p
      else do {
        (marker, p) \<leftarrow> start p;
        p \<leftarrow> error_token ExpectedType p;
        p \<leftarrow> complete_node marker ''error'' p;
        Some ((marker, False, 0), p) })"

section \<open>Parameters\<close>

definition argument_pack_modifier :: "parser \<Rightarrow> (bool \<times> parser) option" where
  "argument_pack_modifier p =
     (if at_punctuation PExpansion p then do {
        (marker, p) \<leftarrow> start p;
        p \<leftarrow> bump p;
        p \<leftarrow> complete_node marker ''argument_pack_modifier'' p;
        Some (True, p) }
      else Some (False, p))"

definition keyed_pack_value_type :: "grammar \<Rightarrow> bool \<Rightarrow> parser \<Rightarrow> parser option" where
  "keyed_pack_value_type rec pack p =
     (if pack \<and> at_punctuation PColon p then do {
        (marker, p) \<leftarrow> start p;
        p \<leftarrow> bump p;
        p \<leftarrow> sub rec TypeN p;
        complete_node marker ''argument_pack_value_type'' p }
      else Some p)"

definition parse_parameter :: "grammar \<Rightarrow> bool \<Rightarrow> parser \<Rightarrow> parser option" where
  "parse_parameter rec contract p = do {
     (marker, p) \<leftarrow> start p;
     (pack, p) \<leftarrow> argument_pack_modifier p;
     p \<leftarrow> expect_name p;
     p \<leftarrow> expect_punctuation PColon p;
     p \<leftarrow> sub rec TypeN p;
     p \<leftarrow> keyed_pack_value_type rec pack p;
     p \<leftarrow> (if contract then optional_provenance p else Some p);
     complete_node marker ''parameter'' p }"

definition parse_parameters :: "grammar \<Rightarrow> bool \<Rightarrow> parser \<Rightarrow> parser option" where
  "parse_parameters rec contracts p = do {
     (marker, p) \<leftarrow> start p;
     p \<leftarrow> expect_punctuation PLeftParen p;
     (entered, p) \<leftarrow> enter_nesting p;
     if entered then do {
       p \<leftarrow> comma_list PRightParen True ExpectedParameter (parse_parameter rec contracts) p;
       p \<leftarrow> expect_punctuation PRightParen p;
       p \<leftarrow> leave_nesting p;
       complete_node marker ''parameters'' p }
     else do {
       p \<leftarrow> recover_until [Punctuation PRightParen] p;
       p \<leftarrow> expect_punctuation PRightParen p;
       complete_node marker ''parameters'' p } }"

definition parse_generic_parameter :: "grammar \<Rightarrow> parser \<Rightarrow> parser option" where
  "parse_generic_parameter rec p = do {
     (marker, p) \<leftarrow> start p;
     if at_keyword KwConst p then do {
       p \<leftarrow> bump p;
       p \<leftarrow> expect_pattern_binder p;
       p \<leftarrow> expect_punctuation PColon p;
       p \<leftarrow> sub rec TypeN p;
       complete_node marker ''constant_generic_parameter'' p }
     else do {
       p \<leftarrow> expect_pattern_binder p;
       complete_node marker ''type_generic_parameter'' p } }"

definition parse_generic_parameters :: "grammar \<Rightarrow> parser \<Rightarrow> parser option" where
  "parse_generic_parameters rec p = do {
     (marker, p) \<leftarrow> start p;
     p \<leftarrow> bump p;
     p \<leftarrow> type_delimited_list False ExpectedName (parse_generic_parameter rec) p;
     p \<leftarrow> expect_type_greater p;
     complete_node marker ''generic_parameters'' p }"

section \<open>Callable types\<close>

definition at_callable_type :: "parser \<Rightarrow> bool option" where
  "at_callable_type p = do {
     stop \<leftarrow> scan_prefix p (par_cursor p + (if at_contextual CtxAny p then 1 else 0)) Immediate;
     let offset = stop - par_cursor p;
     k \<leftarrow> nth_kind offset p;
     if k = Keyword KwFunc then Some True
     else if k = Punctuation PAmpersand \<or> k = Punctuation PReadWrite then do {
       k \<leftarrow> nth_kind (offset + 1) p;
       Some (k = Keyword KwFunc) }
     else Some False }"

definition parse_callable_parameter :: "grammar \<Rightarrow> parser \<Rightarrow> parser option" where
  "parse_callable_parameter rec p = do {
     (marker, p) \<leftarrow> start p;
     (pack, p) \<leftarrow> argument_pack_modifier p;
     named \<leftarrow> (if \<not> pack \<and> at_kind Identifier p
        then do { k \<leftarrow> nth_kind 1 p; Some (k = Punctuation PColon) } else Some False);
     p \<leftarrow> (if named then do { p \<leftarrow> bump p; bump p } else Some p);
     p \<leftarrow> sub rec TypeN p;
     p \<leftarrow> keyed_pack_value_type rec pack p;
     p \<leftarrow> optional_provenance p;
     complete_node marker ''callable_parameter'' p }"

definition erased_callable_modifier :: "parser \<Rightarrow> parser option" where
  "erased_callable_modifier p =
     (if at_contextual CtxAny p then do {
        (erased, p) \<leftarrow> start p;
        p \<leftarrow> bump p;
        complete_node erased ''erased_callable_modifier'' p }
      else Some p)"

definition eat_borrow :: "parser \<Rightarrow> parser option" where
  "eat_borrow p = (if at_punctuation PAmpersand p \<or> at_punctuation PReadWrite p then bump p else Some p)"

definition parse_callable_signature :: "grammar \<Rightarrow> nat \<Rightarrow> parser \<Rightarrow> parser option" where
  "parse_callable_signature rec marker p = do {
     (parameters, p) \<leftarrow> start p;
     p \<leftarrow> expect_punctuation PLeftParen p;
     (entered, p) \<leftarrow> enter_nesting p;
     if entered then do {
       p \<leftarrow> comma_list PRightParen True ExpectedParameter (parse_callable_parameter rec) p;
       p \<leftarrow> expect_punctuation PRightParen p;
       p \<leftarrow> leave_nesting p;
       p \<leftarrow> complete_node parameters ''callable_parameters'' p;
       p \<leftarrow> expect_punctuation PColon p;
       p \<leftarrow> sub rec TypeN p;
       p \<leftarrow> optional_provenance p;
       complete_node marker ''callable_type'' p }
     else do {
       p \<leftarrow> recover_until [Punctuation PRightParen] p;
       p \<leftarrow> expect_punctuation PRightParen p;
       p \<leftarrow> complete_node parameters ''callable_parameters'' p;
       complete_node marker ''callable_type'' p } }"

definition parse_callable_type :: "grammar \<Rightarrow> parser \<Rightarrow> parser option" where
  "parse_callable_type rec p = do {
     (marker, p) \<leftarrow> start p;
     p \<leftarrow> erased_callable_modifier p;
     p \<leftarrow> parse_prefix Immediate p;
     p \<leftarrow> eat_borrow p;
     p \<leftarrow> expect_keyword KwFunc p;
     parse_callable_signature rec marker p }"

section \<open>Types\<close>

definition parse_future_type :: "grammar \<Rightarrow> parser \<Rightarrow> parser option" where
  "parse_future_type rec p = do {
     (marker, p) \<leftarrow> start p;
     p \<leftarrow> bump p;
     (entered, p) \<leftarrow> enter_nesting p;
     p \<leftarrow> (if entered then do { p \<leftarrow> sub rec TypeN p; leave_nesting p } else error_token ExpectedType p);
     complete_node marker ''future_type'' p }"

definition parse_bracket_type :: "grammar \<Rightarrow> parser \<Rightarrow> parser option" where
  "parse_bracket_type rec p = do {
     (marker, p) \<leftarrow> start p;
     p \<leftarrow> bump p;
     (entered, p) \<leftarrow> enter_nesting p;
     if entered then do {
       p \<leftarrow> sub rec TypeN p;
       (array, p) \<leftarrow> eat_punctuation PSemicolon p;
       p \<leftarrow> (if array then sub rec (ExpressionN DelimitedMode) p else Some p);
       p \<leftarrow> expect_punctuation PRightBracket p;
       p \<leftarrow> leave_nesting p;
       complete_node marker (if array then ''fixed_array_type'' else ''slice_type'') p }
     else do {
       p \<leftarrow> recover_until [Punctuation PRightBracket] p;
       p \<leftarrow> expect_punctuation PRightBracket p;
       complete_node marker ''slice_type'' p } }"

text \<open>Further elements of a list: each follows a comma, and a final comma may stand before the end.\<close>

partial_function (option) tuple_loop :: "punctuation \<Rightarrow> (parser \<Rightarrow> parser option) \<Rightarrow> parser \<Rightarrow> parser option" where
  [code]: "tuple_loop closing element p = do {
     (comma, p) \<leftarrow> eat_punctuation PComma p;
     if comma then do {
       (_, p) \<leftarrow> eat_newlines p;
       if at_list_end closing p then Some p
       else do { p \<leftarrow> element p; tuple_loop closing element p } }
     else Some p }"

text \<open>What follows the first element and its comma.\<close>

definition tuple_rest :: "expected_syntax \<Rightarrow> (parser \<Rightarrow> parser option) \<Rightarrow> parser \<Rightarrow> parser option" where
  "tuple_rest expected element p = do {
     (_, p) \<leftarrow> eat_newlines p;
     if at_list_end PRightParen p then report_missing expected p
     else do { p \<leftarrow> element p; tuple_loop PRightParen element p } }"

definition parse_grouped_type :: "grammar \<Rightarrow> parser \<Rightarrow> parser option" where
  "parse_grouped_type rec p = do {
     (marker, p) \<leftarrow> start p;
     p \<leftarrow> bump p;
     (entered, p) \<leftarrow> enter_nesting p;
     if entered then do {
       p \<leftarrow> sub rec TypeN p;
       (tuple, p) \<leftarrow> eat_punctuation PComma p;
       p \<leftarrow> (if tuple then tuple_rest ExpectedType (sub rec TypeN) p else Some p);
       p \<leftarrow> expect_punctuation PRightParen p;
       p \<leftarrow> leave_nesting p;
       complete_node marker (if tuple then ''tuple_type'' else ''grouped_type'') p }
     else do {
       p \<leftarrow> recover_until [Punctuation PRightParen] p;
       p \<leftarrow> expect_punctuation PRightParen p;
       complete_node marker ''grouped_type'' p } }"

definition type_atom :: "grammar \<Rightarrow> parser \<Rightarrow> parser option" where
  "type_atom rec p =
     (if at_keyword KwFuture p then parse_future_type rec p
      else if at_kind Identifier p \<or> at_keyword KwVoid p \<or> at_keyword KwNever p then parse_named_type rec p
      else if at_punctuation PLeftBracket p then parse_bracket_type rec p
      else if at_punctuation PLeftParen p then parse_grouped_type rec p
      else error_token ExpectedType p)"

definition at_readonly_borrow :: "parser \<Rightarrow> bool" where
  "at_readonly_borrow p \<longleftrightarrow> at_punctuation PAmpersand p \<or> at_punctuation PLogicalAnd p"

text \<open>
  The prefixes of a type up to its atom, with their markers, innermost first; \<open>complete_wrappers\<close> then completes
  them in that order.
\<close>

partial_function (option) prefix_type_loop ::
  "grammar \<Rightarrow> bool \<Rightarrow> (nat \<times> node_kind) list \<Rightarrow> parser \<Rightarrow> ((nat \<times> node_kind) list \<times> parser) option" where
  [code]: "prefix_type_loop rec callable_allowed wrappers p = do {
     callable \<leftarrow> (if callable_allowed then at_callable_type p else Some False);
     if callable then map_option (Pair wrappers) (parse_callable_type rec p)
     else if at_punctuation PStar p then do {
       (marker, p) \<leftarrow> start p;
       p \<leftarrow> bump p;
       prefix_type_loop rec True ((marker, ''pointer_type'') # wrappers) p }
     else if \<not> at_readonly_borrow p \<and> \<not> at_punctuation PReadWrite p then map_option (Pair wrappers) (type_atom rec p)
     else do {
       (marker, p) \<leftarrow> start p;
       p \<leftarrow> (if at_punctuation PLogicalAnd p
          then split_current (Punctuation PAmpersand) (Punctuation PAmpersand) p else bump p);
       prefix_type_loop rec False ((marker, ''borrow_type'') # wrappers) p } }"

fun complete_wrappers :: "(nat \<times> node_kind) list \<Rightarrow> parser \<Rightarrow> parser option" where
  "complete_wrappers [] p = Some p"
| "complete_wrappers ((marker, k) # wrappers) p = do { p \<leftarrow> complete_node marker k p; complete_wrappers wrappers p }"

definition prefix_type :: "grammar \<Rightarrow> bool \<Rightarrow> parser \<Rightarrow> parser option" where
  "prefix_type rec callable_allowed p = do {
     (wrappers, p) \<leftarrow> prefix_type_loop rec callable_allowed [] p;
     complete_wrappers wrappers p }"

definition outcome_suffix :: "parser \<Rightarrow> parser option" where
  "outcome_suffix p =
     (if at_punctuation PQuestion p then do {
        p \<leftarrow> bump p;
        (_, p) \<leftarrow> eat_punctuation PBang p;
        Some p }
      else if at_punctuation PBang p then bump p
      else Some p)"

text \<open>\<open>type_\<close>.\<close>

definition parse_type :: "grammar \<Rightarrow> parser \<Rightarrow> (nat \<times> parser) option" where
  "parse_type rec p = do {
     (marker, p) \<leftarrow> start p;
     p \<leftarrow> prefix_type rec True p;
     p \<leftarrow> outcome_suffix p;
     node marker ''type'' p }"

definition parse_borrow_type :: "grammar \<Rightarrow> parser \<Rightarrow> parser option" where
  "parse_borrow_type rec p =
     (if at_readonly_borrow p \<or> at_punctuation PReadWrite p then prefix_type rec False p
      else error_token ExpectedType p)"

section \<open>Interfaces and patterns\<close>

definition at_associated_bindings :: "parser \<Rightarrow> bool option" where
  "at_associated_bindings p =
     (if at_punctuation PLeftBrace p \<and> par_split p = None
      then Some (kind_at p (par_cursor p + 1
         + length (takeWhile (\<lambda>t. token_kind t = Newline) (drop (par_cursor p + 1) (source_tokens p))))
           = Punctuation PDot)
      else if at_punctuation PLeftBrace p then None
      else Some False)"

definition associated_type_binding :: "grammar \<Rightarrow> parser \<Rightarrow> parser option" where
  "associated_type_binding rec p = do {
     (marker, p) \<leftarrow> start p;
     (dot, p) \<leftarrow> eat_punctuation PDot p;
     if dot then do {
       p \<leftarrow> expect_name p;
       p \<leftarrow> expect_punctuation PEqual p;
       p \<leftarrow> sub rec TypeN p;
       complete_node marker ''associated_type_binding'' p }
     else do {
       p \<leftarrow> error_token ExpectedAssociatedTypeBinding p;
       complete_node marker ''associated_type_binding'' p } }"

definition associated_bindings :: "grammar \<Rightarrow> parser \<Rightarrow> parser option" where
  "associated_bindings rec p = do {
     (marker, p) \<leftarrow> start p;
     p \<leftarrow> bump p;
     (entered, p) \<leftarrow> enter_nesting p;
     if entered then do {
       p \<leftarrow> comma_list PRightBrace False ExpectedAssociatedTypeBinding (associated_type_binding rec) p;
       p \<leftarrow> expect_punctuation PRightBrace p;
       p \<leftarrow> leave_nesting p;
       complete_node marker ''associated_bindings'' p }
     else do {
       p \<leftarrow> recover_until [Punctuation PRightBrace] p;
       p \<leftarrow> expect_punctuation PRightBrace p;
       complete_node marker ''associated_bindings'' p } }"

definition interface_application :: "grammar \<Rightarrow> parser \<Rightarrow> parser option" where
  "interface_application rec p = do {
     (marker, p) \<leftarrow> start p;
     named \<leftarrow> (if at_kind Identifier p then map_option Not (at_builtin_type p) else Some False);
     p \<leftarrow> (if named then parse_named_type rec p else error_token ExpectedInterface p);
     bindings \<leftarrow> at_associated_bindings p;
     p \<leftarrow> (if bindings then associated_bindings rec p else Some p);
     complete_node marker ''interface_application'' p }"

definition opaque_result :: "grammar \<Rightarrow> parser \<Rightarrow> parser option" where
  "opaque_result rec p = do {
     (marker, p) \<leftarrow> start p;
     p \<leftarrow> bump p;
     p \<leftarrow> interface_application rec p;
     complete_node marker ''opaque_result'' p }"

definition callable_result :: "grammar \<Rightarrow> parser \<Rightarrow> parser option" where
  "callable_result rec p =
     (if at_contextual CtxSome p then do { p \<leftarrow> opaque_result rec p; outcome_suffix p }
      else sub rec TypeN p)"

definition declaration_type_pattern :: "grammar \<Rightarrow> parser \<Rightarrow> parser option" where
  "declaration_type_pattern rec p = do {
     (marker, p) \<leftarrow> start p;
     (bracket, p) \<leftarrow> eat_punctuation PLeftBracket p;
     p \<leftarrow>
       (if bracket then do { p \<leftarrow> expect_pattern_binder p; expect_punctuation PRightBracket p }
        else do {
          builtin \<leftarrow> at_builtin_pattern p;
          if builtin then parse_named_type rec p
          else if at_kind Identifier p \<and> \<not> at_contextual CtxDiscard p \<and> \<not> at_contextual CtxUpperSelf p then do {
            p \<leftarrow> bump p;
            if at_punctuation PLess p then parse_pattern_arguments p else Some p }
          else error_token ExpectedDeclarationTypePattern p });
     complete_node marker ''declaration_type_pattern'' p }"

section \<open>Requirements\<close>

definition callable_predicate :: "grammar \<Rightarrow> parser \<Rightarrow> parser option" where
  "callable_predicate rec p = do {
     (marker, p) \<leftarrow> start p;
     p \<leftarrow> sub rec TypeN p;
     p \<leftarrow> expect_punctuation PColon p;
     p \<leftarrow> sub rec TypeN p;
     complete_node marker ''callable_predicate'' p }"

definition interface_predicate :: "grammar \<Rightarrow> parser \<Rightarrow> parser option" where
  "interface_predicate rec p = do {
     (marker, p) \<leftarrow> start p;
     p \<leftarrow> sub rec TypeN p;
     p \<leftarrow> expect_keyword KwImpl p;
     p \<leftarrow> interface_application rec p;
     complete_node marker ''interface_predicate'' p }"

definition copy_predicate :: "parser \<Rightarrow> parser option" where
  "copy_predicate p = do {
     (marker, p) \<leftarrow> start p;
     p \<leftarrow> bump p;
     p \<leftarrow> expect_name p;
     complete_node marker ''copy_predicate'' p }"

definition type_equality_predicate :: "grammar \<Rightarrow> parser \<Rightarrow> parser option" where
  "type_equality_predicate rec p = do {
     (marker, q) \<leftarrow> start p;
     q \<leftarrow> sub rec TypeN q;
     q \<leftarrow> (if par_cursor q = par_cursor p \<and> par_split q = None then error_token ExpectedPredicate q else Some q);
     q \<leftarrow> expect_punctuation PEqual q;
     q \<leftarrow> sub rec TypeN q;
     complete_node marker ''type_equality_predicate'' q }"

definition operator_predicate :: "grammar \<Rightarrow> parser \<Rightarrow> parser option" where
  "operator_predicate rec p = do {
     (marker, p) \<leftarrow> start p;
     p \<leftarrow> parse_prefix ImmediateGuarantees p;
     p \<leftarrow> bump p;
     (readonly, p) \<leftarrow> eat_punctuation PAmpersand p;
     p \<leftarrow> (if readonly then Some p else expect_punctuation PReadWrite p);
     p \<leftarrow> sub rec TypeN p;
     (index, p) \<leftarrow> eat_punctuation PLeftBracket p;
     p \<leftarrow>
       (if index then do { p \<leftarrow> sub rec TypeN p; expect_punctuation PRightBracket p }
        else if readonly \<and> (at_punctuation PEqualEqual p \<or> at_punctuation PLess p) then do {
          p \<leftarrow> bump p;
          p \<leftarrow> expect_punctuation PAmpersand p;
          sub rec TypeN p }
        else error_token ExpectedPredicate p);
     p \<leftarrow> expect_punctuation PRightParen p;
     p \<leftarrow> expect_punctuation PColon p;
     p \<leftarrow> sub rec TypeN p;
     complete_node marker ''operator_predicate'' p }"

definition coercion_predicate :: "grammar \<Rightarrow> parser \<Rightarrow> parser option" where
  "coercion_predicate rec p = do {
     (marker, p) \<leftarrow> start p;
     p \<leftarrow> parse_prefix ImmediateGuarantees p;
     p \<leftarrow> bump p;
     p \<leftarrow> sub rec TypeN p;
     p \<leftarrow> expect_keyword KwAs p;
     p \<leftarrow> sub rec TypeN p;
     complete_node marker ''coercion_predicate'' p }"

definition expansion_predicate :: "grammar \<Rightarrow> parser \<Rightarrow> parser option" where
  "expansion_predicate rec p = do {
     (marker, p) \<leftarrow> start p;
     p \<leftarrow> parse_prefix ImmediateGuarantees p;
     p \<leftarrow> bump p;
     p \<leftarrow> bump p;
     p \<leftarrow> eat_borrow p;
     p \<leftarrow> sub rec TypeN p;
     p \<leftarrow> expect_punctuation PRightParen p;
     p \<leftarrow> expect_punctuation PColon p;
     p \<leftarrow> sub rec TypeN p;
     complete_node marker ''expansion_predicate'' p }"

definition parenthesized_predicate :: "grammar \<Rightarrow> parser \<Rightarrow> parser option" where
  "parenthesized_predicate rec p = do {
     stop \<leftarrow> scan_prefix p (par_cursor p) ImmediateGuarantees;
     k \<leftarrow> token_kind_at p (stop + 1);
     if k = Punctuation PExpansion then expansion_predicate rec p else operator_predicate rec p }"

text \<open>The last alternatives of \<open>predicate\<close>, tried when no callable prefix stands before it.\<close>

definition plain_predicate :: "grammar \<Rightarrow> parser \<Rightarrow> parser option" where
  "plain_predicate rec p =
     (if at_kind Identifier p then do {
        k \<leftarrow> nth_kind 1 p;
        if at_contextual CtxCopy p \<and> k = Identifier then copy_predicate p
        else if k = Punctuation PColon then callable_predicate rec p
        else do {
          (parsed, p) \<leftarrow> attempt (interface_predicate rec) p;
          if parsed then Some p else type_equality_predicate rec p } }
      else type_equality_predicate rec p)"

definition parse_predicate :: "grammar \<Rightarrow> parser \<Rightarrow> parser option" where
  "parse_predicate rec p = do {
     stop \<leftarrow> scan_prefix p (par_cursor p) ImmediateGuarantees;
     k \<leftarrow> token_kind_at p stop;
     if k = Punctuation PLeftParen then parenthesized_predicate rec p
     else if k = Punctuation PAmpersand \<or> k = Punctuation PReadWrite then do {
       (parsed, p) \<leftarrow> attempt (coercion_predicate rec) p;
       if parsed then Some p else type_equality_predicate rec p }
     else if stop \<noteq> par_cursor p then error_token ExpectedPredicate p
     else plain_predicate rec p }"

partial_function (option) where_loop :: "grammar \<Rightarrow> parser \<Rightarrow> parser option" where
  [code]: "where_loop rec p = do {
     (comma, p) \<leftarrow> eat_punctuation PComma p;
     if comma then do {
       (_, p) \<leftarrow> eat_newlines p;
       p \<leftarrow> parse_predicate rec p;
       where_loop rec p }
     else Some p }"

definition where_clause :: "grammar \<Rightarrow> parser \<Rightarrow> parser option" where
  "where_clause rec p = do {
     (marker, p) \<leftarrow> start p;
     p \<leftarrow> bump p;
     p \<leftarrow> parse_predicate rec p;
     p \<leftarrow> where_loop rec p;
     complete_node marker ''where_clause'' p }"

definition optional_requirements :: "grammar \<Rightarrow> parser \<Rightarrow> parser option" where
  "optional_requirements rec p = (if at_contextual CtxWhere p then where_clause rec p else Some p)"

end
