(* ===== verification/Parser_Expressions.thy ===== *)
theory Parser_Expressions
  imports Parser_Types
begin

text \<open>
  The grammar of expressions (\<open>parser/expression/mod.rs\<close>, \<open>primary.rs\<close>, \<open>control.rs\<close>), with the string literals of
  \<open>parser/root.rs\<close> and the entry points of \<open>parser/block.rs\<close> that expressions use.
\<close>

section \<open>Blocks, strings and allocators\<close>

definition optional_block :: "grammar \<Rightarrow> parser \<Rightarrow> parser option" where
  "optional_block rec p = (if at_punctuation PLeftBrace p then sub rec BlockN p else Some p)"

definition required_block :: "grammar \<Rightarrow> parser \<Rightarrow> parser option" where
  "required_block rec p =
     (if at_punctuation PLeftBrace p then sub rec BlockN p
      else do {
        (marker, p) \<leftarrow> start p;
        p \<leftarrow> report_missing ExpectedBlock p;
        complete_node marker ''block'' p })"

partial_function (option) skip_string :: "string_delimiter \<Rightarrow> parser \<Rightarrow> parser option" where
  [code]: "skip_string delimiter p =
     (if at_kind (StringEnd delimiter) p \<or> at_kind EndOfFile p then Some p
      else do { p \<leftarrow> error_token ExpectedStringLiteral p; skip_string delimiter p })"

definition string_start :: "token_kind \<Rightarrow> string_delimiter option" where
  "string_start k = (case k of StringStart d \<Rightarrow> Some d | _ \<Rightarrow> None)"

definition parse_string_literal :: "parser \<Rightarrow> parser option" where
  "parse_string_literal p = do {
     (marker, p) \<leftarrow> start p;
     (case string_start (current_kind p) of
        None \<Rightarrow> do { p \<leftarrow> report_missing ExpectedStringLiteral p; complete_node marker ''string_literal'' p }
      | Some delimiter \<Rightarrow> do {
          p \<leftarrow> bump p;
          (_, p) \<leftarrow> eat StringText p;
          p \<leftarrow> (if at_kind InterpolationStart p then skip_string delimiter p else Some p);
          p \<leftarrow> expect (StringEnd delimiter) p;
          complete_node marker ''string_literal'' p }) }"

definition allocation_override :: "parser \<Rightarrow> parser option" where
  "allocation_override p =
     (if at_keyword KwUsing p then do {
        (marker, p) \<leftarrow> start p;
        p \<leftarrow> bump p;
        p \<leftarrow> parse_allocator p;
        complete_node marker ''allocation_override'' p }
      else Some p)"

definition newline_boundary :: "expression_mode \<Rightarrow> boundary" where
  "newline_boundary mode =
     (if mode = DelimitedMode \<or> mode = GenericArgumentMode then DelimitedBoundary else StatementBoundary)"

abbreviation delimited_expression :: "grammar \<Rightarrow> parser \<Rightarrow> parser option" where
  "delimited_expression rec \<equiv> sub rec (ExpressionN DelimitedMode)"

section \<open>Elements of literals and calls\<close>

text \<open>The operand of a spread, after its expansion token and newlines.\<close>

definition spread_operand :: "grammar \<Rightarrow> parser \<Rightarrow> parser option" where
  "spread_operand rec p =
     (if at_punctuation PReadWrite p then error_token ExpectedExpression p else delimited_expression rec p)"

definition call_argument :: "grammar \<Rightarrow> parser \<Rightarrow> parser option" where
  "call_argument rec p =
     (if at_punctuation PExpansion p then do {
        (marker, p) \<leftarrow> start p;
        p \<leftarrow> bump p;
        p \<leftarrow> newline_after_incomplete DelimitedBoundary p;
        p \<leftarrow> spread_operand rec p;
        complete_node marker ''spread_expression'' p }
      else do {
        (key, p) \<leftarrow> rec (ExpressionN DelimitedMode) p;
        if at_punctuation PColon p then do {
          (marker, p) \<leftarrow> precede key p;
          p \<leftarrow> bump p;
          p \<leftarrow> newline_after_incomplete DelimitedBoundary p;
          p \<leftarrow> delimited_expression rec p;
          complete_node marker ''keyed_argument'' p }
        else Some p })"

definition call_suffix :: "grammar \<Rightarrow> parser \<Rightarrow> parser option" where
  "call_suffix rec p = do {
     (marker, p) \<leftarrow> start p;
     p \<leftarrow> bump p;
     (entered, p) \<leftarrow> enter_nesting p;
     if entered then do {
       p \<leftarrow> comma_list PRightParen True ExpectedExpression (call_argument rec) p;
       p \<leftarrow> expect_punctuation PRightParen p;
       p \<leftarrow> leave_nesting p;
       complete_node marker ''call_suffix'' p }
     else do {
       p \<leftarrow> recover_balanced PLeftParen PRightParen p;
       complete_node marker ''call_suffix'' p } }"

definition index_suffix :: "grammar \<Rightarrow> parser \<Rightarrow> parser option" where
  "index_suffix rec p = do {
     (marker, p) \<leftarrow> start p;
     p \<leftarrow> bump p;
     (entered, p) \<leftarrow> enter_nesting p;
     if entered then do {
       (_, p) \<leftarrow> eat_newlines p;
       p \<leftarrow> delimited_expression rec p;
       (_, p) \<leftarrow> eat_newlines p;
       p \<leftarrow> expect_punctuation PRightBracket p;
       p \<leftarrow> leave_nesting p;
       complete_node marker ''index_suffix'' p }
     else do {
       p \<leftarrow> recover_balanced PLeftBracket PRightBracket p;
       complete_node marker ''index_suffix'' p } }"

definition previous_is_joint :: "parser \<Rightarrow> bool" where
  "previous_is_joint p \<longleftrightarrow> 0 < par_cursor p \<and> joint_to_next (source_tokens p ! (par_cursor p - 1))"

definition has_gap_before_current :: "parser \<Rightarrow> bool" where
  "has_gap_before_current p \<longleftrightarrow> 0 < par_cursor p \<and> \<not> joint_to_next (source_tokens p ! (par_cursor p - 1))"

section \<open>Control expressions\<close>

definition payload_slot :: "parser \<Rightarrow> parser option" where
  "payload_slot p = do {
     (marker, p) \<leftarrow> start p;
     p \<leftarrow> expect_name_or_discard p;
     complete_node marker ''payload_slot'' p }"

definition enum_payload :: "parser \<Rightarrow> parser option" where
  "enum_payload p = do {
     (payload, p) \<leftarrow> start p;
     p \<leftarrow> bump p;
     (entered, p) \<leftarrow> enter_nesting p;
     if entered then do {
       p \<leftarrow> comma_list PRightParen True ExpectedName payload_slot p;
       p \<leftarrow> expect_punctuation PRightParen p;
       p \<leftarrow> leave_nesting p;
       complete_node payload ''enum_pattern_payload'' p }
     else do {
       p \<leftarrow> recover_balanced PLeftParen PRightParen p;
       complete_node payload ''enum_pattern_payload'' p } }"

definition enum_pattern :: "parser \<Rightarrow> parser option" where
  "enum_pattern p = do {
     (marker, p) \<leftarrow> start p;
     p \<leftarrow> expect_name p;
     p \<leftarrow> expect_punctuation PDot p;
     p \<leftarrow> expect_name p;
     p \<leftarrow> (if at_punctuation PLeftParen p then enum_payload p else Some p);
     complete_node marker ''enum_pattern'' p }"

definition if_condition :: "grammar \<Rightarrow> parser \<Rightarrow> parser option" where
  "if_condition rec p = do {
     (condition, p) \<leftarrow> start p;
     p \<leftarrow> sub rec (ExpressionN HeaderMode) p;
     p \<leftarrow> newline_before_token StatementBoundary (Keyword KwIs) p;
     (pattern, p) \<leftarrow> eat_keyword KwIs p;
     p \<leftarrow> (if pattern then do { p \<leftarrow> newline_after_incomplete StatementBoundary p; enum_pattern p } else Some p);
     complete_node condition ''if_condition'' p }"

definition else_clause :: "grammar \<Rightarrow> parser \<Rightarrow> parser option" where
  "else_clause rec p = do {
     (clause, p) \<leftarrow> start p;
     p \<leftarrow> bump p;
     p \<leftarrow> (if at_keyword KwIf p then sub rec IfN p else required_block rec p);
     complete_node clause ''else_clause'' p }"

definition if_expression :: "grammar \<Rightarrow> parser \<Rightarrow> (nat \<times> parser) option" where
  "if_expression rec p = do {
     (marker, p) \<leftarrow> start p;
     p \<leftarrow> expect_keyword KwIf p;
     p \<leftarrow> if_condition rec p;
     p \<leftarrow> required_block rec p;
     p \<leftarrow> (if at_keyword KwElse p then else_clause rec p else Some p);
     node marker ''if_expression'' p }"

definition match_arm :: "grammar \<Rightarrow> parser \<Rightarrow> parser option" where
  "match_arm rec p = do {
     (marker, p) \<leftarrow> start p;
     p \<leftarrow> (if at_contextual CtxDiscard p then bump p else enum_pattern p);
     p \<leftarrow> required_block rec p;
     complete_node marker ''match_arm'' p }"

definition match_expression :: "grammar \<Rightarrow> parser \<Rightarrow> (nat \<times> parser) option" where
  "match_expression rec p = do {
     (marker, p) \<leftarrow> start p;
     p \<leftarrow> expect_keyword KwMatch p;
     p \<leftarrow> sub rec (ExpressionN HeaderMode) p;
     p \<leftarrow> braced_line_sequence_with_minimum ExpectedEnumPattern (match_arm rec) False p;
     node marker ''match_expression'' p }"

section \<open>Closures and groups\<close>

text \<open>The scan of \<open>is_closure_start\<close> over the tokens from the cursor, with the parentheses still open.\<close>

fun closure_scan :: "nat \<Rightarrow> token_kind list \<Rightarrow> bool option" where
  "closure_scan depth [] = Some False"
| "closure_scan depth (k # ks) =
     (if k = Punctuation PLeftParen then closure_scan (depth + 1) ks
      else if k = Punctuation PRightParen then
        (if depth = 0 then None
         else if depth = 1 then
           Some (case ks of [] \<Rightarrow> False
             | following # _ \<Rightarrow> following = Punctuation PLeftBrace \<or> following = Punctuation PColon)
         else closure_scan (depth - 1) ks)
      else if k = EndOfFile then Some False
      else closure_scan depth ks)"

definition is_closure_start :: "parser \<Rightarrow> bool option" where
  "is_closure_start p =
     (if par_split p = None then closure_scan 0 (map token_kind (drop (par_cursor p) (source_tokens p))) else None)"

definition grouped_expression :: "grammar \<Rightarrow> parser \<Rightarrow> (nat \<times> parser) option" where
  "grouped_expression rec p = do {
     (marker, p) \<leftarrow> start p;
     p \<leftarrow> bump p;
     (entered, p) \<leftarrow> enter_nesting p;
     if entered then do {
       (_, p) \<leftarrow> eat_newlines p;
       p \<leftarrow> delimited_expression rec p;
       (tuple, p) \<leftarrow> eat_punctuation PComma p;
       p \<leftarrow> (if tuple then tuple_rest ExpectedExpression (delimited_expression rec) p else Some p);
       (_, p) \<leftarrow> eat_newlines p;
       p \<leftarrow> expect_punctuation PRightParen p;
       p \<leftarrow> leave_nesting p;
       node marker (if tuple then ''tuple_expression'' else ''grouped_expression'') p }
     else do {
       p \<leftarrow> recover_balanced PLeftParen PRightParen p;
       node marker ''grouped_expression'' p } }"

definition at_capture :: "parser \<Rightarrow> bool" where
  "at_capture p \<longleftrightarrow> at_punctuation PAmpersand p \<or> at_punctuation PReadWrite p \<or> at_keyword KwMove p"

definition closure_capture :: "parser \<Rightarrow> parser option" where
  "closure_capture p = do {
     (marker, p) \<leftarrow> start p;
     p \<leftarrow> (if at_capture p then do { p \<leftarrow> bump p; expect_name p } else error_token ExpectedClosureHead p);
     complete_node marker ''closure_capture'' p }"

partial_function (option) closure_capture_list :: "parser \<Rightarrow> parser option" where
  [code]: "closure_capture_list p = do {
     q \<leftarrow> closure_capture p;
     q \<leftarrow> (if par_cursor q = par_cursor p then error_token ExpectedClosureHead q else Some q);
     (comma, q) \<leftarrow> eat_punctuation PComma q;
     (_, q) \<leftarrow> eat_newlines q;
     if at_punctuation PSemicolon q \<or> at_punctuation PRightParen q then Some q
     else if comma then closure_capture_list q
     else if at_kind EndOfFile q then Some q
     else do {
       q \<leftarrow> report_missing (ExpectedPunctuation PComma) q;
       closure_capture_list q } }"

definition closure_parameter :: "grammar \<Rightarrow> parser \<Rightarrow> parser option" where
  "closure_parameter rec p = do {
     (marker, p) \<leftarrow> start p;
     p \<leftarrow> expect_name p;
     p \<leftarrow>
       (if at_punctuation PColon p then do {
          (annotation, p) \<leftarrow> start p;
          p \<leftarrow> bump p;
          p \<leftarrow> sub rec TypeN p;
          complete_node annotation ''type_annotation'' p }
        else Some p);
     complete_node marker ''closure_parameter'' p }"

definition closure_parameters :: "grammar \<Rightarrow> parser \<Rightarrow> parser option" where
  "closure_parameters rec p = do {
     (marker, p) \<leftarrow> start p;
     p \<leftarrow> comma_list PRightParen False ExpectedClosureHead (closure_parameter rec) p;
     complete_node marker ''closure_parameters'' p }"

definition closure_captures :: "grammar \<Rightarrow> parser \<Rightarrow> parser option" where
  "closure_captures rec p = do {
     (captures, p) \<leftarrow> start p;
     p \<leftarrow> closure_capture_list p;
     p \<leftarrow> complete_node captures ''closure_captures'' p;
     p \<leftarrow> expect_punctuation PSemicolon p;
     (_, p) \<leftarrow> eat_newlines p;
     if at_punctuation PRightParen p then Some p else closure_parameters rec p }"

definition closure_head :: "grammar \<Rightarrow> parser \<Rightarrow> parser option" where
  "closure_head rec p = do {
     (marker, p) \<leftarrow> start p;
     (_, p) \<leftarrow> eat_newlines p;
     p \<leftarrow>
       (if at_capture p then closure_captures rec p
        else if \<not> at_punctuation PRightParen p then closure_parameters rec p
        else Some p);
     (_, p) \<leftarrow> eat_newlines p;
     complete_node marker ''closure_head'' p }"

definition closure_result :: "grammar \<Rightarrow> parser \<Rightarrow> parser option" where
  "closure_result rec p =
     (if at_punctuation PColon p then do {
        (result, p) \<leftarrow> start p;
        p \<leftarrow> bump p;
        p \<leftarrow> sub rec TypeN p;
        complete_node result ''closure_result'' p }
      else Some p)"

definition closure_expression :: "grammar \<Rightarrow> parser \<Rightarrow> (nat \<times> parser) option" where
  "closure_expression rec p = do {
     (marker, p) \<leftarrow> start p;
     p \<leftarrow> bump p;
     (entered, p) \<leftarrow> enter_nesting p;
     if entered then do {
       p \<leftarrow> closure_head rec p;
       p \<leftarrow> expect_punctuation PRightParen p;
       p \<leftarrow> leave_nesting p;
       p \<leftarrow> closure_result rec p;
       p \<leftarrow> required_block rec p;
       node marker ''closure_expression'' p }
     else do {
       p \<leftarrow> recover_balanced PLeftParen PRightParen p;
       p \<leftarrow> required_block rec p;
       node marker ''closure_expression'' p } }"

definition grouped_or_closure :: "grammar \<Rightarrow> expression_mode \<Rightarrow> parser \<Rightarrow> (nat \<times> parser) option" where
  "grouped_or_closure rec mode p = do {
     closure \<leftarrow> (if mode = HeaderMode then Some False else is_closure_start p);
     if closure then closure_expression rec p else grouped_expression rec p }"

section \<open>Literals\<close>

definition field_initializer :: "grammar \<Rightarrow> parser \<Rightarrow> parser option" where
  "field_initializer rec p = do {
     (marker, p) \<leftarrow> start p;
     p \<leftarrow> expect_name p;
     p \<leftarrow> expect_punctuation PColon p;
     p \<leftarrow> newline_after_incomplete DelimitedBoundary p;
     p \<leftarrow> delimited_expression rec p;
     complete_node marker ''field_initializer'' p }"

definition struct_literal :: "grammar \<Rightarrow> nat \<Rightarrow> parser \<Rightarrow> (nat \<times> parser) option" where
  "struct_literal rec owner p = do {
     (marker, p) \<leftarrow> precede owner p;
     (initializer, p) \<leftarrow> start p;
     p \<leftarrow> bump p;
     (entered, p) \<leftarrow> enter_nesting p;
     if entered then do {
       p \<leftarrow> comma_list PRightBrace True ExpectedExpression (field_initializer rec) p;
       p \<leftarrow> expect_punctuation PRightBrace p;
       p \<leftarrow> leave_nesting p;
       p \<leftarrow> complete_node initializer ''struct_initializer'' p;
       node marker ''struct_literal'' p }
     else do {
       p \<leftarrow> recover_balanced PLeftBrace PRightBrace p;
       p \<leftarrow> complete_node initializer ''struct_initializer'' p;
       node marker ''struct_literal'' p } }"

partial_function (option) array_loop :: "grammar \<Rightarrow> parser \<Rightarrow> parser option" where
  [code]: "array_loop rec p = do {
     (comma, p) \<leftarrow> eat_punctuation PComma p;
     (_, p) \<leftarrow> eat_newlines p;
     if at_list_end PRightBracket p then Some p
     else do {
       p \<leftarrow> (if comma then Some p else report_missing (ExpectedPunctuation PComma) p);
       q \<leftarrow> delimited_expression rec p;
       q \<leftarrow> (if par_cursor q = par_cursor p then error_token ExpectedExpression q else Some q);
       array_loop rec q } }"

text \<open>The elements of a bracketed literal are over; a token other than the closing bracket is missing a comma.\<close>

definition close_bracket :: "parser \<Rightarrow> parser option" where
  "close_bracket p = do {
     p \<leftarrow> (if at_list_end PRightBracket p then Some p else report_missing (ExpectedPunctuation PComma) p);
     p \<leftarrow> expect_punctuation PRightBracket p;
     leave_nesting p }"

definition array_elements :: "grammar \<Rightarrow> nat \<Rightarrow> parser \<Rightarrow> (nat \<times> parser) option" where
  "array_elements rec marker p = do {
     p \<leftarrow> delimited_expression rec p;
     (_, p) \<leftarrow> eat_newlines p;
     (repeated, p) \<leftarrow> eat_punctuation PSemicolon p;
     if repeated then do {
       p \<leftarrow> newline_after_incomplete DelimitedBoundary p;
       p \<leftarrow> delimited_expression rec p;
       (_, p) \<leftarrow> eat_newlines p;
       p \<leftarrow> expect_punctuation PRightBracket p;
       p \<leftarrow> leave_nesting p;
       node marker ''array_repeat_literal'' p }
     else do {
       p \<leftarrow> array_loop rec p;
       p \<leftarrow> close_bracket p;
       node marker ''array_literal'' p } }"

definition array_literal :: "grammar \<Rightarrow> parser \<Rightarrow> (nat \<times> parser) option" where
  "array_literal rec p = do {
     (marker, p) \<leftarrow> start p;
     p \<leftarrow> bump p;
     (entered, p) \<leftarrow> enter_nesting p;
     if entered then do {
       (_, p) \<leftarrow> eat_newlines p;
       if at_list_end PRightBracket p then do {
         p \<leftarrow> expect_punctuation PRightBracket p;
         p \<leftarrow> leave_nesting p;
         node marker ''array_literal'' p }
       else array_elements rec marker p }
     else do {
       p \<leftarrow> recover_balanced PLeftBracket PRightBracket p;
       node marker ''array_literal'' p } }"

definition mapping_element :: "grammar \<Rightarrow> parser \<Rightarrow> parser option" where
  "mapping_element rec p = do {
     (marker, p) \<leftarrow> start p;
     p \<leftarrow> delimited_expression rec p;
     p \<leftarrow> expect_punctuation PColon p;
     p \<leftarrow> newline_after_incomplete DelimitedBoundary p;
     p \<leftarrow> delimited_expression rec p;
     complete_node marker ''mapping_element'' p }"

definition sequence_element :: "grammar \<Rightarrow> parser \<Rightarrow> parser option" where
  "sequence_element rec p = do {
     (marker, p) \<leftarrow> start p;
     (expansion, p) \<leftarrow> eat_punctuation PExpansion p;
     p \<leftarrow>
       (if expansion then do {
          (spread, p) \<leftarrow> start p;
          p \<leftarrow> newline_after_incomplete DelimitedBoundary p;
          p \<leftarrow> spread_operand rec p;
          complete_node spread ''spread_expression'' p }
        else delimited_expression rec p);
     complete_node marker ''sequence_element'' p }"

text \<open>The first element decides between a sequence and a mapping.\<close>

definition first_bracket_element :: "grammar \<Rightarrow> parser \<Rightarrow> (bool \<times> parser) option" where
  "first_bracket_element rec p =
     (if at_punctuation PExpansion p then map_option (Pair False) (sequence_element rec p)
      else do {
        (first, p) \<leftarrow> rec (ExpressionN DelimitedMode) p;
        (marker, q) \<leftarrow> precede first p;
        if at_punctuation PColon p then do {
          q \<leftarrow> bump q;
          q \<leftarrow> newline_after_incomplete DelimitedBoundary q;
          q \<leftarrow> delimited_expression rec q;
          map_option (Pair True) (complete_node marker ''mapping_element'' q) }
        else map_option (Pair False) (complete_node marker ''sequence_element'' q) })"

definition bracket_elements :: "grammar \<Rightarrow> parser \<Rightarrow> (bool \<times> parser) option" where
  "bracket_elements rec p = do {
     (_, p) \<leftarrow> eat_newlines p;
     (colon, p) \<leftarrow> eat_punctuation PColon p;
     (mapping, p) \<leftarrow>
       (if colon then Some (True, p)
        else if at_list_end PRightBracket p then Some (False, p)
        else first_bracket_element rec p);
     p \<leftarrow> tuple_loop PRightBracket (if mapping then mapping_element rec else sequence_element rec) p;
     (_, p) \<leftarrow> eat_newlines p;
     p \<leftarrow> close_bracket p;
     Some (mapping, p) }"

definition typed_bracket_literal :: "grammar \<Rightarrow> nat \<Rightarrow> parser \<Rightarrow> (nat \<times> parser) option" where
  "typed_bracket_literal rec owner p = do {
     (marker, p) \<leftarrow> precede owner p;
     (body, p) \<leftarrow> start p;
     p \<leftarrow> bump p;
     (entered, p) \<leftarrow> enter_nesting p;
     if entered then do {
       (mapping, p) \<leftarrow> bracket_elements rec p;
       p \<leftarrow> complete_node body (if mapping then ''mapping_body'' else ''sequence_body'') p;
       p \<leftarrow> allocation_override p;
       node marker (if mapping then ''typed_mapping_literal'' else ''typed_sequence_literal'') p }
     else do {
       p \<leftarrow> recover_balanced PLeftBracket PRightBracket p;
       p \<leftarrow> complete_node body ''sequence_body'' p;
       node marker ''typed_sequence_literal'' p } }"

definition typed_string_literal :: "nat \<Rightarrow> parser \<Rightarrow> (nat \<times> parser) option" where
  "typed_string_literal owner p = do {
     (marker, p) \<leftarrow> precede owner p;
     p \<leftarrow> parse_string_literal p;
     p \<leftarrow> allocation_override p;
     node marker ''typed_string_literal'' p }"

definition string_part :: "grammar \<Rightarrow> parser \<Rightarrow> parser option" where
  "string_part rec p = do {
     (part, p) \<leftarrow> start p;
     (plain, p) \<leftarrow> eat StringText p;
     p \<leftarrow>
       (if plain then Some p
        else do {
          (interpolation, p) \<leftarrow> eat InterpolationStart p;
          if interpolation then do {
            p \<leftarrow> newline_after_incomplete DelimitedBoundary p;
            p \<leftarrow> delimited_expression rec p;
            (_, p) \<leftarrow> eat_newlines p;
            expect InterpolationEnd p }
          else error_token ExpectedExpression p });
     complete_node part ''string_part'' p }"

partial_function (option) string_loop :: "grammar \<Rightarrow> string_delimiter \<Rightarrow> parser \<Rightarrow> parser option" where
  [code]: "string_loop rec delimiter p =
     (if at_kind (StringEnd delimiter) p \<or> at_kind EndOfFile p then Some p
      else do { p \<leftarrow> string_part rec p; string_loop rec delimiter p })"

definition string_expression :: "grammar \<Rightarrow> string_delimiter \<Rightarrow> parser \<Rightarrow> (nat \<times> parser) option" where
  "string_expression rec delimiter p = do {
     (marker, p) \<leftarrow> start p;
     p \<leftarrow> bump p;
     p \<leftarrow> string_loop rec delimiter p;
     p \<leftarrow> expect (StringEnd delimiter) p;
     node marker ''string_expression'' p }"

definition scalar_literal :: "parser \<Rightarrow> (nat \<times> parser) option" where
  "scalar_literal p = do {
     (marker, p) \<leftarrow> start p;
     p \<leftarrow> bump p;
     node marker ''scalar_literal'' p }"

section \<open>Primary expressions\<close>

definition at_string_start :: "parser \<Rightarrow> bool" where
  "at_string_start p \<longleftrightarrow> string_start (current_kind p) \<noteq> None"

definition at_scalar :: "parser \<Rightarrow> bool" where
  "at_scalar p \<longleftrightarrow>
     current_kind p \<in> {IntegerLiteral, FloatLiteral, ByteLiteral, CharacterLiteral,
       Keyword KwTrue, Keyword KwFalse, Keyword KwNone}"

definition at_expression_boundary :: "parser \<Rightarrow> bool" where
  "at_expression_boundary p \<longleftrightarrow>
     current_kind p \<in> {Newline, InterpolationEnd, EndOfFile, Punctuation PRightParen, Punctuation PRightBracket,
       Punctuation PRightBrace}"

text \<open>Whether what follows an owner makes it the owner of a literal or of a generic member.\<close>

definition owner_accepted :: "expression_mode \<Rightarrow> nat \<times> bool \<times> nat \<Rightarrow> parser \<Rightarrow> bool" where
  "owner_accepted mode facts p \<longleftrightarrow>
     (let (_, has_arguments, plain) = facts in
        (mode \<noteq> HeaderMode \<and> at_punctuation PLeftBrace p)
        \<or> (has_gap_before_current p \<and> (at_punctuation PLeftBracket p \<or> at_string_start p))
        \<or> (has_arguments \<and> 0 < plain))"

definition owned_literal :: "grammar \<Rightarrow> expression_mode \<Rightarrow> nat \<Rightarrow> parser \<Rightarrow> (nat \<times> parser) option" where
  "owned_literal rec mode owner p =
     (if mode \<noteq> HeaderMode \<and> at_punctuation PLeftBrace p then struct_literal rec owner p
      else if has_gap_before_current p \<and> at_punctuation PLeftBracket p then typed_bracket_literal rec owner p
      else if has_gap_before_current p \<and> at_string_start p then typed_string_literal owner p
      else do {
        (marker, p) \<leftarrow> precede owner p;
        node marker ''generic_owner_member'' p })"

definition owner_or_reference :: "grammar \<Rightarrow> expression_mode \<Rightarrow> parser \<Rightarrow> (nat \<times> parser) option" where
  "owner_or_reference rec mode p = do {
     (owner, p) \<leftarrow> attempt_decided_with (owner_reference rec) (\<lambda>facts q. Some (owner_accepted mode facts q)) p;
     (case owner of
        Some facts \<Rightarrow> owned_literal rec mode (fst facts) p
      | None \<Rightarrow> do {
          (marker, p) \<leftarrow> start p;
          p \<leftarrow> bump p;
          node marker ''reference_expression'' p }) }"

definition primary_error :: "parser \<Rightarrow> (nat \<times> parser) option" where
  "primary_error p = do {
     (marker, p) \<leftarrow> start p;
     p \<leftarrow>
       (if at_expression_boundary p then report_missing ExpectedExpression p else error_token ExpectedExpression p);
     node marker ''error'' p }"

definition parse_primary :: "grammar \<Rightarrow> expression_mode \<Rightarrow> parser \<Rightarrow> (nat \<times> parser) option" where
  "parse_primary rec mode p =
     (if mode \<noteq> HeaderMode \<and> at_keyword KwIf p then if_expression rec p
      else if mode \<noteq> HeaderMode \<and> at_keyword KwMatch p then match_expression rec p
      else if at_punctuation PLeftParen p then grouped_or_closure rec mode p
      else if at_punctuation PLeftBracket p then array_literal rec p
      else if at_scalar p then scalar_literal p
      else if at_kind Identifier p \<and> \<not> at_contextual CtxDiscard p then owner_or_reference rec mode p
      else case string_start (current_kind p) of
        Some delimiter \<Rightarrow> string_expression rec delimiter p
      | None \<Rightarrow> primary_error p)"

section \<open>Postfix, prefix and binary layers\<close>

definition member_suffix :: "expression_mode \<Rightarrow> parser \<Rightarrow> parser option" where
  "member_suffix mode p = do {
     (suffix, p) \<leftarrow> start p;
     p \<leftarrow> bump p;
     p \<leftarrow> newline_after_incomplete (newline_boundary mode) p;
     if at_kind IntegerLiteral p then do { p \<leftarrow> bump p; complete_node suffix ''tuple_element_suffix'' p }
     else do { p \<leftarrow> expect_name p; complete_node suffix ''member_suffix'' p } }"

text \<open>A suffix of an expression, as a postfix expression around what stands before it.\<close>

definition parse_postfix_suffix :: "(parser \<Rightarrow> parser option) \<Rightarrow> nat \<Rightarrow> parser \<Rightarrow> (nat \<times> parser) option" where
  "parse_postfix_suffix suffix left p = do {
     (parent, p) \<leftarrow> precede left p;
     p \<leftarrow> suffix p;
     node parent ''postfix_expression'' p }"

partial_function (option) postfix_loop ::
  "grammar \<Rightarrow> expression_mode \<Rightarrow> nat \<Rightarrow> parser \<Rightarrow> (nat \<times> parser) option" where
  [code]: "postfix_loop rec mode left p =
     (if at_punctuation PLeftParen p then do {
        (left, p) \<leftarrow> parse_postfix_suffix (call_suffix rec) left p;
        postfix_loop rec mode left p }
      else do {
        p \<leftarrow> newline_before_token (newline_boundary mode) (Punctuation PDot) p;
        if at_punctuation PDot p then do {
          (left, p) \<leftarrow> parse_postfix_suffix (member_suffix mode) left p;
          postfix_loop rec mode left p }
        else if at_punctuation PLeftBracket p \<and> previous_is_joint p then do {
          (left, p) \<leftarrow> parse_postfix_suffix (index_suffix rec) left p;
          postfix_loop rec mode left p }
        else Some (left, p) })"

definition parse_postfix :: "grammar \<Rightarrow> expression_mode \<Rightarrow> parser \<Rightarrow> (nat \<times> parser) option" where
  "parse_postfix rec mode p = do {
     (left, p) \<leftarrow> parse_primary rec mode p;
     postfix_loop rec mode left p }"

partial_function (option) await_loop ::
  "expression_mode \<Rightarrow> (nat \<times> node_kind) list \<Rightarrow> parser \<Rightarrow> ((nat \<times> node_kind) list \<times> parser) option" where
  [code]: "await_loop mode wrappers p =
     (if at_keyword KwAwait p then do {
        (marker, p) \<leftarrow> start p;
        p \<leftarrow> bump p;
        p \<leftarrow> newline_after_incomplete (newline_boundary mode) p;
        await_loop mode ((marker, ''await_expression'') # wrappers) p }
      else Some (wrappers, p))"

text \<open>Completing wrappers around an expression: the outermost wrapper, which is the last, is the result.\<close>

definition wrapped :: "nat \<Rightarrow> (nat \<times> node_kind) list \<Rightarrow> parser \<Rightarrow> (nat \<times> parser) option" where
  "wrapped inner wrappers p =
     map_option (Pair (if wrappers = [] then inner else fst (last wrappers))) (complete_wrappers wrappers p)"

definition parse_outcome :: "grammar \<Rightarrow> expression_mode \<Rightarrow> parser \<Rightarrow> (nat \<times> parser) option" where
  "parse_outcome rec mode p = do {
     (wrappers, p) \<leftarrow> await_loop mode [] p;
     (inner, p) \<leftarrow> parse_postfix rec mode p;
     (inner, p) \<leftarrow> wrapped inner wrappers p;
     if at_punctuation PQuestion p \<or> at_punctuation PBang p then do {
       (marker, p) \<leftarrow> precede inner p;
       p \<leftarrow> bump p;
       node marker ''outcome_expression'' p }
     else Some (inner, p) }"

definition move_expression :: "expression_mode \<Rightarrow> parser \<Rightarrow> (nat \<times> parser) option" where
  "move_expression mode p = do {
     (marker, p) \<leftarrow> start p;
     p \<leftarrow> bump p;
     p \<leftarrow> newline_after_incomplete (newline_boundary mode) p;
     p \<leftarrow> parse_place p;
     (question, p) \<leftarrow> eat_punctuation PQuestion p;
     p \<leftarrow> (if question then Some p else map_option snd (eat_punctuation PBang p));
     node marker ''move_expression'' p }"

partial_function (option) unary_loop ::
  "expression_mode \<Rightarrow> (nat \<times> node_kind) list \<Rightarrow> parser \<Rightarrow> ((nat \<times> node_kind) list \<times> parser) option" where
  [code]: "unary_loop mode wrappers p =
     (if at_punctuation PLogicalAnd p then do {
        (marker, p) \<leftarrow> start p;
        p \<leftarrow> split_current (Punctuation PAmpersand) (Punctuation PAmpersand) p;
        unary_loop mode ((marker, ''unary_expression'') # wrappers) p }
      else if current_kind p \<in> {Punctuation PBang, Punctuation PMinus, Punctuation PAmpersand, Punctuation PReadWrite}
      then do {
        (marker, p) \<leftarrow> start p;
        p \<leftarrow> bump p;
        p \<leftarrow> newline_after_incomplete (newline_boundary mode) p;
        unary_loop mode ((marker, ''unary_expression'') # wrappers) p }
      else Some (wrappers, p))"

definition parse_unary :: "grammar \<Rightarrow> expression_mode \<Rightarrow> parser \<Rightarrow> (nat \<times> parser) option" where
  "parse_unary rec mode p = do {
     (wrappers, p) \<leftarrow> unary_loop mode [] p;
     (inner, p) \<leftarrow> (if at_keyword KwMove p then move_expression mode p else parse_outcome rec mode p);
     wrapped inner wrappers p }"

partial_function (option) conversion_loop ::
  "grammar \<Rightarrow> expression_mode \<Rightarrow> nat \<Rightarrow> parser \<Rightarrow> (nat \<times> parser) option" where
  [code]: "conversion_loop rec mode left p = do {
     p \<leftarrow> newline_before_token (newline_boundary mode) (Keyword KwAs) p;
     (conversion, p) \<leftarrow> eat_keyword KwAs p;
     if conversion then do {
       (parent, p) \<leftarrow> precede left p;
       p \<leftarrow> newline_after_incomplete (newline_boundary mode) p;
       p \<leftarrow> sub rec TypeN p;
       (left, p) \<leftarrow> node parent ''conversion_expression'' p;
       conversion_loop rec mode left p }
     else Some (left, p) }"

definition parse_conversion :: "grammar \<Rightarrow> expression_mode \<Rightarrow> parser \<Rightarrow> (nat \<times> parser) option" where
  "parse_conversion rec mode p = do {
     (left, p) \<leftarrow> parse_unary rec mode p;
     conversion_loop rec mode left p }"

text \<open>An operator, the newlines after it and its right operand, around the left operand.\<close>

definition binary_operation ::
  "(parser \<Rightarrow> (nat \<times> parser) option) \<Rightarrow> node_kind \<Rightarrow> expression_mode \<Rightarrow> nat \<Rightarrow> parser \<Rightarrow> (nat \<times> parser) option" where
  "binary_operation operand k mode left p = do {
     (marker, p) \<leftarrow> precede left p;
     p \<leftarrow> bump p;
     p \<leftarrow> newline_after_incomplete (newline_boundary mode) p;
     (_, p) \<leftarrow> operand p;
     node marker k p }"

definition at_operator :: "punctuation list \<Rightarrow> parser \<Rightarrow> bool" where
  "at_operator operators p \<longleftrightarrow> (\<exists>c \<in> set operators. at_punctuation c p)"

partial_function (option) binary_loop ::
  "(parser \<Rightarrow> (nat \<times> parser) option) \<Rightarrow> punctuation list \<Rightarrow> node_kind \<Rightarrow> expression_mode \<Rightarrow> nat \<Rightarrow> parser
    \<Rightarrow> (nat \<times> parser) option" where
  [code]: "binary_loop operand operators k mode left p = do {
     p \<leftarrow> newline_before (newline_boundary mode) (\<lambda>t. \<exists>c \<in> set operators. c \<noteq> PMinus \<and> t = Punctuation c) p;
     if at_operator operators p then do {
       (left, p) \<leftarrow> binary_operation operand k mode left p;
       binary_loop operand operators k mode left p }
     else Some (left, p) }"

definition repeated_binary ::
  "(parser \<Rightarrow> (nat \<times> parser) option) \<Rightarrow> punctuation list \<Rightarrow> node_kind \<Rightarrow> expression_mode \<Rightarrow> parser
    \<Rightarrow> (nat \<times> parser) option" where
  "repeated_binary operand operators k mode p = do {
     (left, p) \<leftarrow> operand p;
     binary_loop operand operators k mode left p }"

definition single_binary ::
  "(parser \<Rightarrow> (nat \<times> parser) option) \<Rightarrow> punctuation list \<Rightarrow> node_kind \<Rightarrow> expression_mode \<Rightarrow> parser
    \<Rightarrow> (nat \<times> parser) option" where
  "single_binary operand operators k mode p = do {
     (left, p) \<leftarrow> operand p;
     p \<leftarrow> newline_before (newline_boundary mode) (\<lambda>t. \<exists>c \<in> set operators. t = Punctuation c) p;
     if at_operator operators p then binary_operation operand k mode left p else Some (left, p) }"

definition parse_multiplicative :: "grammar \<Rightarrow> expression_mode \<Rightarrow> parser \<Rightarrow> (nat \<times> parser) option" where
  "parse_multiplicative rec mode =
     repeated_binary (parse_conversion rec mode) [PStar, PSlash, PPercent] ''multiplicative_expression'' mode"

definition parse_additive :: "grammar \<Rightarrow> expression_mode \<Rightarrow> parser \<Rightarrow> (nat \<times> parser) option" where
  "parse_additive rec mode =
     repeated_binary (parse_multiplicative rec mode) [PPlus, PMinus] ''additive_expression'' mode"

definition can_start_expression :: "token_kind \<Rightarrow> bool" where
  "can_start_expression k \<longleftrightarrow>
     k \<in> {Identifier, IntegerLiteral, FloatLiteral, ByteLiteral, CharacterLiteral, StringStart SingleLine,
       StringStart MultiLine, Keyword KwAwait, Keyword KwFalse, Keyword KwIf, Keyword KwMatch, Keyword KwMove,
       Keyword KwNone, Keyword KwTrue, Punctuation PBang, Punctuation PMinus, Punctuation PAmpersand,
       Punctuation PReadWrite, Punctuation PLogicalAnd, Punctuation PLeftParen, Punctuation PLeftBracket}"

definition at_generic_closer :: "expression_mode \<Rightarrow> parser \<Rightarrow> bool option" where
  "at_generic_closer mode p =
     (if mode = GenericArgumentMode \<and> at_punctuation PShiftRight p
      then map_option (\<lambda>k. \<not> can_start_expression k) (nth_kind 1 p)
      else Some False)"

partial_function (option) shift_loop ::
  "grammar \<Rightarrow> expression_mode \<Rightarrow> nat \<Rightarrow> parser \<Rightarrow> (nat \<times> parser) option" where
  [code]: "shift_loop rec mode left p = do {
     closer \<leftarrow> at_generic_closer mode p;
     if (at_punctuation PShiftLeft p \<or> at_punctuation PShiftRight p) \<and> \<not> closer then do {
       (left, p) \<leftarrow> binary_operation (parse_additive rec mode) ''shift_expression'' mode left p;
       shift_loop rec mode left p }
     else Some (left, p) }"

definition parse_shift :: "grammar \<Rightarrow> expression_mode \<Rightarrow> parser \<Rightarrow> (nat \<times> parser) option" where
  "parse_shift rec mode p = do {
     (left, p) \<leftarrow> parse_additive rec mode p;
     shift_loop rec mode left p }"

definition ordering_operators :: "expression_mode \<Rightarrow> punctuation list" where
  "ordering_operators mode =
     (if mode = GenericArgumentMode then [PLess, PLessEqual, PGreaterEqual]
      else [PLess, PLessEqual, PGreater, PGreaterEqual])"

definition parse_ordering :: "grammar \<Rightarrow> expression_mode \<Rightarrow> parser \<Rightarrow> (nat \<times> parser) option" where
  "parse_ordering rec mode =
     single_binary (parse_shift rec mode) (ordering_operators mode) ''ordering_expression'' mode"

definition parse_equality :: "grammar \<Rightarrow> expression_mode \<Rightarrow> parser \<Rightarrow> (nat \<times> parser) option" where
  "parse_equality rec mode =
     single_binary (parse_ordering rec mode) [PEqualEqual, PBangEqual] ''equality_expression'' mode"

definition parse_logical_and :: "grammar \<Rightarrow> expression_mode \<Rightarrow> parser \<Rightarrow> (nat \<times> parser) option" where
  "parse_logical_and rec mode =
     repeated_binary (parse_equality rec mode) [PLogicalAnd] ''logical_and_expression'' mode"

definition parse_logical_or :: "grammar \<Rightarrow> expression_mode \<Rightarrow> parser \<Rightarrow> (nat \<times> parser) option" where
  "parse_logical_or rec mode =
     repeated_binary (parse_logical_and rec mode) [PLogicalOr] ''logical_or_expression'' mode"

section \<open>Recovery and whole expressions\<close>

definition recovery_clause :: "grammar \<Rightarrow> expression_mode \<Rightarrow> parser \<Rightarrow> parser option" where
  "recovery_clause rec mode p = do {
     (marker, p) \<leftarrow> start p;
     (catch, p) \<leftarrow> eat_keyword KwCatch p;
     p \<leftarrow>
       (if catch then do {
          p \<leftarrow> newline_after_incomplete (newline_boundary mode) p;
          expect_name_or_discard p }
        else do {
          p \<leftarrow> expect_keyword KwOtherwise p;
          newline_after_incomplete (newline_boundary mode) p });
     p \<leftarrow> required_block rec p;
     complete_node marker ''recovery_clause'' p }"

partial_function (option) recovery_loop ::
  "grammar \<Rightarrow> expression_mode \<Rightarrow> nat \<Rightarrow> parser \<Rightarrow> (nat \<times> parser) option" where
  [code]: "recovery_loop rec mode left p = do {
     p \<leftarrow> newline_before (newline_boundary mode) (\<lambda>t. t = Keyword KwCatch \<or> t = Keyword KwOtherwise) p;
     if at_keyword KwCatch p \<or> at_keyword KwOtherwise p then do {
       (parent, p) \<leftarrow> precede left p;
       p \<leftarrow> recovery_clause rec mode p;
       (left, p) \<leftarrow> node parent ''recovery_expression'' p;
       recovery_loop rec mode left p }
     else Some (left, p) }"

definition parse_recovery :: "grammar \<Rightarrow> expression_mode \<Rightarrow> parser \<Rightarrow> (nat \<times> parser) option" where
  "parse_recovery rec mode p = do {
     (left, p) \<leftarrow> parse_logical_or rec mode p;
     if mode = HeaderMode then Some (left, p) else recovery_loop rec mode left p }"

definition parse_expression :: "grammar \<Rightarrow> expression_mode \<Rightarrow> parser \<Rightarrow> (nat \<times> parser) option" where
  "parse_expression rec mode p = do {
     (marker, p) \<leftarrow> start p;
     (_, p) \<leftarrow> parse_recovery rec mode p;
     node marker ''expression'' p }"

end
