(* ===== verification/Parser_Statements.thy ===== *)
theory Parser_Statements
  imports Parser_Expressions
begin

text \<open>
  The grammar of statements (\<open>parser/statement.rs\<close>) and blocks (\<open>parser/block.rs\<close>), with the use trees of
  \<open>parser/root.rs\<close> that a block may begin with.
\<close>

section \<open>Use trees\<close>

definition is_module_segment :: "utf8_text \<Rightarrow> bool" where
  "is_module_segment text \<longleftrightarrow>
     text \<noteq> contextual_str CtxDiscard
     \<and> (case text of [] \<Rightarrow> False | b # _ \<Rightarrow> is_ascii_lowercase b)
     \<and> list_all (\<lambda>b. is_ascii_lowercase b \<or> is_ascii_digit b \<or> b = CHR ''_'') text"

definition expect_module_segment :: "parser \<Rightarrow> (bool \<times> parser) option" where
  "expect_module_segment p = do {
     accepted \<leftarrow> (if at_kind Identifier p then map_option is_module_segment (current_text p) else Some False);
     if accepted then map_option (Pair True) (bump p)
     else map_option (Pair False) (error_token ExpectedModuleSegment p) }"

definition parse_selected_name :: "parser \<Rightarrow> parser option" where
  "parse_selected_name p = do {
     (marker, p) \<leftarrow> start p;
     p \<leftarrow> expect_name p;
     (alias, p) \<leftarrow> eat_keyword KwAs p;
     p \<leftarrow> (if alias then expect_name p else Some p);
     complete_node marker ''selected_name'' p }"

partial_function (option) parent_loop :: "parser \<Rightarrow> parser option" where
  [code]: "parent_loop p =
     (if at_punctuation PDot p then do {
        p \<leftarrow> bump p;
        p \<leftarrow> expect_punctuation PDot p;
        p \<leftarrow> expect_punctuation PSlash p;
        parent_loop p }
      else Some p)"

text \<open>The prefix of a relative path after its first dot: the current directory, or parents.\<close>

definition relative_prefix :: "parser \<Rightarrow> parser option" where
  "relative_prefix p = do {
     (current, p) \<leftarrow> eat_punctuation PSlash p;
     if current then Some p
     else do {
       p \<leftarrow> expect_punctuation PDot p;
       p \<leftarrow> expect_punctuation PSlash p;
       parent_loop p } }"

partial_function (option) segment_loop :: "parser \<Rightarrow> parser option" where
  [code]: "segment_loop p = do {
     (slash, p) \<leftarrow> eat_punctuation PSlash p;
     if slash then do { (_, p) \<leftarrow> expect_module_segment p; segment_loop p } else Some p }"

definition module_path :: "parser \<Rightarrow> parser option" where
  "module_path p = do {
     (package_absolute, p) \<leftarrow> eat_punctuation PSlash p;
     p \<leftarrow>
       (if package_absolute then Some p
        else do {
          (dot, p) \<leftarrow> eat_punctuation PDot p;
          if dot then relative_prefix p else Some p });
     if package_absolute \<and> (at_punctuation PDot p \<or> at_keyword KwAs p) then Some p
     else do {
       (accepted, p) \<leftarrow> expect_module_segment p;
       if accepted then segment_loop p else Some p } }"

definition import_selection :: "parser \<Rightarrow> parser option" where
  "import_selection p = do {
     (selection, p) \<leftarrow> start p;
     (brace, p) \<leftarrow> eat_punctuation PLeftBrace p;
     p \<leftarrow>
       (if brace then do {
          p \<leftarrow> comma_list PRightBrace False ExpectedName parse_selected_name p;
          expect_punctuation PRightBrace p }
        else parse_selected_name p);
     complete_node selection ''import_selection'' p }"

definition use_tree :: "parser \<Rightarrow> parser option" where
  "use_tree p = do {
     (path, p) \<leftarrow> start p;
     p \<leftarrow> module_path p;
     p \<leftarrow> complete_node path ''module_path'' p;
     (dot, p) \<leftarrow> eat_punctuation PDot p;
     if dot then import_selection p
     else if at_keyword KwAs p then do {
       (alias, p) \<leftarrow> start p;
       p \<leftarrow> bump p;
       (_, p) \<leftarrow> expect_module_segment p;
       complete_node alias ''module_alias'' p }
     else Some p }"

section \<open>Bindings\<close>

text \<open>The elements of a tuple pattern after its opening parenthesis.\<close>

definition binding_elements :: "grammar \<Rightarrow> parser \<Rightarrow> parser option" where
  "binding_elements rec p = do {
     (_, p) \<leftarrow> eat_newlines p;
     p \<leftarrow> sub rec BindingPatternN p;
     p \<leftarrow> expect_punctuation PComma p;
     tuple_rest ExpectedBindingPattern (sub rec BindingPatternN) p }"

definition binding_pattern :: "grammar \<Rightarrow> parser \<Rightarrow> (nat \<times> parser) option" where
  "binding_pattern rec p = do {
     (marker, p) \<leftarrow> start p;
     (tuple, p) \<leftarrow> eat_punctuation PLeftParen p;
     if tuple then do {
       (entered, p) \<leftarrow> enter_nesting p;
       if entered then do {
         p \<leftarrow> binding_elements rec p;
         p \<leftarrow> expect_punctuation PRightParen p;
         p \<leftarrow> leave_nesting p;
         node marker ''binding_pattern'' p }
       else do {
         p \<leftarrow> recover_balanced PLeftParen PRightParen p;
         node marker ''binding_pattern'' p } }
     else do {
       p \<leftarrow> expect_name_or_discard p;
       node marker ''binding_pattern'' p } }"

definition binding_annotation :: "grammar \<Rightarrow> parser \<Rightarrow> parser option" where
  "binding_annotation rec p =
     (if at_punctuation PColon p then do {
        (annotation, p) \<leftarrow> start p;
        p \<leftarrow> bump p;
        p \<leftarrow> sub rec TypeN p;
        p \<leftarrow> optional_provenance p;
        complete_node annotation ''type_annotation'' p }
      else Some p)"

definition binding :: "grammar \<Rightarrow> parser \<Rightarrow> (nat \<times> parser) option" where
  "binding rec p = do {
     (marker, p) \<leftarrow> start p;
     p \<leftarrow> bump p;
     p \<leftarrow> sub rec BindingPatternN p;
     p \<leftarrow> binding_annotation rec p;
     p \<leftarrow> expect_punctuation PEqual p;
     p \<leftarrow> newline_after_incomplete StatementBoundary p;
     p \<leftarrow> sub rec (ExpressionN OrdinaryMode) p;
     node marker ''binding_statement'' p }"

section \<open>Assignments\<close>

definition is_assignment_operator :: "token_kind \<Rightarrow> bool" where
  "is_assignment_operator k \<longleftrightarrow>
     k \<in> {Punctuation PEqual, Punctuation PPlusEqual, Punctuation PMinusEqual, Punctuation PStarEqual,
       Punctuation PSlashEqual, Punctuation PPercentEqual}"

definition is_opening :: "token_kind \<Rightarrow> bool" where
  "is_opening k \<longleftrightarrow> k \<in> {Punctuation PLeftParen, Punctuation PLeftBracket, Punctuation PLeftBrace}"

definition is_closing :: "token_kind \<Rightarrow> bool" where
  "is_closing k \<longleftrightarrow> k \<in> {Punctuation PRightParen, Punctuation PRightBracket, Punctuation PRightBrace}"

text \<open>
  The scan of \<open>has_possible_assignment\<close> over the tokens from the cursor, with the depths of open delimiters and
  interpolations.
\<close>

fun assignment_scan :: "nat \<Rightarrow> nat \<Rightarrow> token_kind list \<Rightarrow> bool" where
  "assignment_scan depth interpolation [] = False"
| "assignment_scan depth interpolation (k # ks) =
     (if is_opening k then assignment_scan (depth + 1) interpolation ks
      else if is_closing k then depth \<noteq> 0 \<and> assignment_scan (depth - 1) interpolation ks
      else if k = InterpolationStart then assignment_scan depth (interpolation + 1) ks
      else if k = InterpolationEnd then assignment_scan depth (interpolation - 1) ks
      else if depth = 0 \<and> interpolation = 0 \<and> is_assignment_operator k then True
      else if k = Newline \<and> depth = 0 \<and> interpolation = 0 then
        (case ks of [] \<Rightarrow> False | following # _ \<Rightarrow> is_assignment_operator following)
      else if k = EndOfFile then False
      else assignment_scan depth interpolation ks)"

definition has_possible_assignment :: "parser \<Rightarrow> bool option" where
  "has_possible_assignment p =
     (if par_split p = None then Some (assignment_scan 0 0 (map token_kind (drop (par_cursor p) (source_tokens p))))
      else None)"

text \<open>\<open>assignment\<close> returns its marker and whether it saw an operator.\<close>

definition assignment :: "grammar \<Rightarrow> parser \<Rightarrow> ((nat \<times> bool) \<times> parser) option" where
  "assignment rec p = do {
     (marker, p) \<leftarrow> start p;
     (target, p) \<leftarrow> start p;
     (_, p) \<leftarrow> parse_postfix rec OrdinaryMode p;
     p \<leftarrow> complete_node target ''assignment_target'' p;
     p \<leftarrow> newline_before StatementBoundary is_assignment_operator p;
     if is_assignment_operator (current_kind p) then do {
       p \<leftarrow> bump p;
       p \<leftarrow> newline_after_incomplete StatementBoundary p;
       p \<leftarrow> sub rec (ExpressionN OrdinaryMode) p;
       map_option (Pair (marker, True)) (complete_node marker ''assignment_statement'' p) }
     else do {
       p \<leftarrow> report_missing ExpectedAssignmentTarget p;
       map_option (Pair (marker, False)) (complete_node marker ''assignment_statement'' p) } }"

section \<open>Statements\<close>

definition at_line_end :: "parser \<Rightarrow> bool" where
  "at_line_end p \<longleftrightarrow> current_kind p \<in> {Newline, EndOfFile, Punctuation PRightBrace}"

definition return_statement :: "grammar \<Rightarrow> parser \<Rightarrow> (nat \<times> parser) option" where
  "return_statement rec p = do {
     (marker, p) \<leftarrow> start p;
     p \<leftarrow> bump p;
     p \<leftarrow> (if at_line_end p then Some p else sub rec (ExpressionN OrdinaryMode) p);
     node marker ''return_statement'' p }"

definition simple_statement :: "keyword \<Rightarrow> node_kind \<Rightarrow> parser \<Rightarrow> (nat \<times> parser) option" where
  "simple_statement keyword k p = do {
     (marker, p) \<leftarrow> start p;
     p \<leftarrow> expect_keyword keyword p;
     node marker k p }"

definition drop_statement :: "parser \<Rightarrow> (nat \<times> parser) option" where
  "drop_statement p = do {
     (marker, p) \<leftarrow> start p;
     p \<leftarrow> bump p;
     p \<leftarrow> expect_name p;
     node marker ''drop_statement'' p }"

definition while_statement :: "grammar \<Rightarrow> parser \<Rightarrow> (nat \<times> parser) option" where
  "while_statement rec p = do {
     (marker, p) \<leftarrow> start p;
     p \<leftarrow> bump p;
     p \<leftarrow> sub rec (ExpressionN HeaderMode) p;
     p \<leftarrow> required_block rec p;
     node marker ''while_statement'' p }"

definition loop_statement :: "grammar \<Rightarrow> parser \<Rightarrow> (nat \<times> parser) option" where
  "loop_statement rec p = do {
     (marker, p) \<leftarrow> start p;
     p \<leftarrow> bump p;
     p \<leftarrow> required_block rec p;
     node marker ''loop_statement'' p }"

definition for_bindings :: "parser \<Rightarrow> parser option" where
  "for_bindings p = do {
     (bindings, p) \<leftarrow> start p;
     p \<leftarrow> expect_name p;
     (pair, p) \<leftarrow> eat_punctuation PColon p;
     p \<leftarrow> (if pair then expect_name p else Some p);
     complete_node bindings ''for_bindings'' p }"

definition for_source :: "grammar \<Rightarrow> bool \<Rightarrow> parser \<Rightarrow> parser option" where
  "for_source rec asynchronous p = do {
     (source, p) \<leftarrow> start p;
     p \<leftarrow> sub rec (ExpressionN HeaderMode) p;
     p \<leftarrow>
       (if asynchronous then Some p
        else do {
          p \<leftarrow> newline_before_token StatementBoundary (Punctuation PRange) p;
          (ranged, p) \<leftarrow> eat_punctuation PRange p;
          if ranged then do {
            p \<leftarrow> newline_after_incomplete StatementBoundary p;
            sub rec (ExpressionN HeaderMode) p }
          else Some p });
     complete_node source ''for_source'' p }"

definition for_statement :: "grammar \<Rightarrow> parser \<Rightarrow> (nat \<times> parser) option" where
  "for_statement rec p = do {
     (marker, p) \<leftarrow> start p;
     p \<leftarrow> bump p;
     (asynchronous, p) \<leftarrow> eat_keyword KwAwait p;
     p \<leftarrow> for_bindings p;
     p \<leftarrow> expect_keyword KwIn p;
     p \<leftarrow> for_source rec asynchronous p;
     p \<leftarrow> required_block rec p;
     node marker (if asynchronous then ''for_await_statement'' else ''for_statement'') p }"

definition region_statement :: "grammar \<Rightarrow> parser \<Rightarrow> (nat \<times> parser) option" where
  "region_statement rec p = do {
     (marker, p) \<leftarrow> start p;
     p \<leftarrow> bump p;
     p \<leftarrow> expect_name p;
     p \<leftarrow> expect_keyword KwUsing p;
     p \<leftarrow> parse_allocator p;
     p \<leftarrow> required_block rec p;
     node marker ''region_statement'' p }"

definition at_drop_statement :: "parser \<Rightarrow> bool option" where
  "at_drop_statement p =
     (if at_contextual CtxDrop p then do {
        k \<leftarrow> nth_kind 1 p;
        if k = Identifier then do {
          k \<leftarrow> nth_kind 2 p;
          Some (k \<in> {Newline, EndOfFile, Punctuation PRightBrace}) }
        else Some False }
      else Some False)"

text \<open>\<open>executable\<close> returns its marker and whether it is an expression; an assignment is tried before an expression.\<close>

definition assignment_or_expression :: "grammar \<Rightarrow> parser \<Rightarrow> ((nat \<times> bool) \<times> parser) option" where
  "assignment_or_expression rec p = do {
     possible \<leftarrow> has_possible_assignment p;
     (attempted, p) \<leftarrow>
       (if possible then attempt_decided_with (assignment rec) (\<lambda>(_, has_operator) _. Some has_operator) p
        else Some (None, p));
     (case attempted of
        Some (marker, _) \<Rightarrow> Some ((marker, False), p)
      | None \<Rightarrow> map_option (\<lambda>(marker, p). ((marker, True), p)) (rec (ExpressionN OrdinaryMode) p)) }"

definition statement_result :: "(nat \<times> parser) option \<Rightarrow> ((nat \<times> bool) \<times> parser) option" where
  "statement_result r = map_option (\<lambda>(marker, p). ((marker, False), p)) r"

definition parse_executable :: "grammar \<Rightarrow> parser \<Rightarrow> ((nat \<times> bool) \<times> parser) option" where
  "parse_executable rec p =
     (if at_keyword KwLet p \<or> at_keyword KwVar p then statement_result (binding rec p)
      else if at_keyword KwReturn p then statement_result (return_statement rec p)
      else if at_keyword KwBreak p then statement_result (simple_statement KwBreak ''break_statement'' p)
      else if at_keyword KwContinue p then statement_result (simple_statement KwContinue ''continue_statement'' p)
      else if at_keyword KwWhile p then statement_result (while_statement rec p)
      else if at_keyword KwLoop p then statement_result (loop_statement rec p)
      else if at_keyword KwFor p then statement_result (for_statement rec p)
      else if at_keyword KwRegion p then statement_result (region_statement rec p)
      else do {
        is_drop \<leftarrow> (if at_kind Identifier p then at_drop_statement p else Some False);
        if is_drop then statement_result (drop_statement p) else assignment_or_expression rec p })"

section \<open>Blocks\<close>

definition block_use :: "parser \<Rightarrow> parser option" where
  "block_use p = do {
     (marker, p) \<leftarrow> start p;
     p \<leftarrow> expect_keyword KwUse p;
     p \<leftarrow> use_tree p;
     complete_node marker ''block_use_declaration'' p }"

partial_function (option) use_prefix_loop :: "parser \<Rightarrow> parser option" where
  [code]: "use_prefix_loop p =
     (if at_keyword KwUse p then do {
        p \<leftarrow> block_use p;
        if at_list_end PRightBrace p then Some p
        else do {
          p \<leftarrow> separate_lines PRightBrace p;
          use_prefix_loop p } }
      else Some p)"

definition only_newlines_before_close :: "parser \<Rightarrow> bool option" where
  "only_newlines_before_close p = do {
     distance \<leftarrow> newline_count p;
     k \<leftarrow> nth_kind distance p;
     Some (k = Punctuation PRightBrace) }"

text \<open>One element of an executable sequence: an expression becomes a statement, or the result at the end of the block.\<close>

definition sequence_item :: "grammar \<Rightarrow> parser \<Rightarrow> parser option" where
  "sequence_item rec p =
     (if at_keyword KwUse p then do {
        p \<leftarrow> diagnostic LateDependencyDeclaration p;
        block_use p }
      else do {
        ((completed, is_expression), p) \<leftarrow> parse_executable rec p;
        if is_expression then do {
          (wrapper, p) \<leftarrow> precede completed p;
          final \<leftarrow> only_newlines_before_close p;
          complete_node wrapper (if final then ''body_result'' else ''expression_statement'') p }
        else Some p })"

partial_function (option) sequence_loop :: "grammar \<Rightarrow> parser \<Rightarrow> parser option" where
  [code]: "sequence_loop rec p = do {
     p \<leftarrow> sequence_item rec p;
     if at_list_end PRightBrace p then Some p
     else do {
       p \<leftarrow> separate_lines PRightBrace p;
       if at_list_end PRightBrace p then Some p else sequence_loop rec p } }"

definition executable_sequence :: "grammar \<Rightarrow> parser \<Rightarrow> parser option" where
  "executable_sequence rec p = do {
     (marker, p) \<leftarrow> start p;
     p \<leftarrow> sequence_loop rec p;
     complete_node marker ''executable_sequence'' p }"

definition parse_block :: "grammar \<Rightarrow> parser \<Rightarrow> (nat \<times> parser) option" where
  "parse_block rec p = do {
     (marker, p) \<leftarrow> start p;
     p \<leftarrow> bump p;
     (entered, p) \<leftarrow> enter_nesting p;
     if entered then do {
       (_, p) \<leftarrow> eat_newlines p;
       p \<leftarrow> use_prefix_loop p;
       p \<leftarrow> (if at_list_end PRightBrace p then Some p else executable_sequence rec p);
       (_, p) \<leftarrow> eat_newlines p;
       p \<leftarrow> expect_punctuation PRightBrace p;
       p \<leftarrow> leave_nesting p;
       node marker ''block'' p }
     else do {
       p \<leftarrow> recover_balanced PLeftBrace PRightBrace p;
       node marker ''block'' p } }"

end
