(* ===== verification/Parser_Declarations.thy ===== *)
theory Parser_Declarations
  imports Parser_Statements
begin

text \<open>
  The grammar of declarations (\<open>parser/declaration.rs\<close>, \<open>declaration/nominal.rs\<close>, \<open>declaration/construct.rs\<close>,
  \<open>declaration/instance.rs\<close>) and the visibility of \<open>parser/root.rs\<close>.
\<close>

section \<open>Visibility\<close>

definition visibility_scope :: "parser \<Rightarrow> parser option" where
  "visibility_scope p = do {
     (package, p) \<leftarrow> eat_punctuation PSlash p;
     p \<leftarrow>
       (if package then Some p
        else do {
          (dot, p) \<leftarrow> eat_punctuation PDot p;
          if dot then relative_prefix p else report_missing (ExpectedPunctuation PSlash) p });
     expect_punctuation PRightParen p }"

definition parse_visibility :: "parser \<Rightarrow> parser option" where
  "parse_visibility p = do {
     (marker, p) \<leftarrow> start p;
     p \<leftarrow> bump p;
     (scoped, p) \<leftarrow> eat_punctuation PLeftParen p;
     p \<leftarrow> (if scoped then visibility_scope p else Some p);
     complete_node marker ''visibility'' p }"

definition optional_visibility :: "parser \<Rightarrow> parser option" where
  "optional_visibility p = (if at_keyword KwPub p then parse_visibility p else Some p)"

text \<open>The tokens of a parenthesised scope up to its end; \<open>None\<close> when the tokens run out.\<close>

function skip_scope :: "parser \<Rightarrow> nat \<Rightarrow> nat option" where
  "skip_scope p i =
     (if i < length (source_tokens p) then
        (if kind_at p i \<in> {Punctuation PRightParen, Newline, EndOfFile} then Some i else skip_scope p (i + 1))
      else None)"
  by pat_completeness auto

termination
  by (relation "measure (\<lambda>(p, i). length (source_tokens p) - i)") auto

declare skip_scope.simps [simp del]

definition skip_visibility :: "parser \<Rightarrow> nat \<Rightarrow> nat option" where
  "skip_visibility p i = do {
     k \<leftarrow> token_kind_at p (i + 1);
     if k \<noteq> Punctuation PLeftParen then Some (i + 1)
     else do {
       stop \<leftarrow> skip_scope p (i + 2);
       Some (if kind_at p stop = Punctuation PRightParen then stop + 1 else stop) } }"

section \<open>Callables\<close>

definition callable_tail :: "grammar \<Rightarrow> parser \<Rightarrow> parser option" where
  "callable_tail rec p = do {
     (marker, p) \<leftarrow> start p;
     p \<leftarrow> expect_punctuation PColon p;
     p \<leftarrow> callable_result rec p;
     p \<leftarrow> optional_provenance p;
     p \<leftarrow> optional_requirements rec p;
     complete_node marker ''callable_tail'' p }"

definition optional_generic_parameters :: "grammar \<Rightarrow> parser \<Rightarrow> parser option" where
  "optional_generic_parameters rec p = (if at_punctuation PLess p then parse_generic_parameters rec p else Some p)"

definition simple_receiver :: "bool \<Rightarrow> parser \<Rightarrow> parser option" where
  "simple_receiver allow_owned p =
     (if at_punctuation PAmpersand p \<or> at_punctuation PReadWrite p then do {
        p \<leftarrow> bump p;
        expect_contextual CtxLowerSelf p }
      else if allow_owned \<and> at_contextual CtxLowerSelf p then bump p
      else error_token ExpectedReceiver p)"

definition parse_receiver :: "bool \<Rightarrow> parser \<Rightarrow> parser option" where
  "parse_receiver allow_owned p = do {
     (marker, p) \<leftarrow> start p;
     p \<leftarrow> simple_receiver allow_owned p;
     complete_node marker ''receiver'' p }"

definition method_receiver :: "parser \<Rightarrow> parser option" where
  "method_receiver p =
     (if at_punctuation PLeftParen p then do {
        (marker, p) \<leftarrow> start p;
        p \<leftarrow> bump p;
        p \<leftarrow> simple_receiver True p;
        p \<leftarrow> (if at_contextual CtxFrom p then parse_provenance p else error_token ExpectedName p);
        p \<leftarrow> expect_punctuation PRightParen p;
        complete_node marker ''receiver'' p }
      else parse_receiver True p)"

definition method_signature :: "grammar \<Rightarrow> parser \<Rightarrow> parser option" where
  "method_signature rec p = do {
     (marker, p) \<leftarrow> start p;
     p \<leftarrow> expect_keyword KwMethod p;
     p \<leftarrow> method_receiver p;
     p \<leftarrow> expect_punctuation PDot p;
     p \<leftarrow> expect_name p;
     p \<leftarrow> optional_generic_parameters rec p;
     p \<leftarrow> parse_parameters rec True p;
     p \<leftarrow> callable_tail rec p;
     complete_node marker ''method_signature'' p }"

definition parse_function :: "grammar \<Rightarrow> bool \<Rightarrow> parser \<Rightarrow> parser option" where
  "parse_function rec primitive p = do {
     (marker, p) \<leftarrow> start p;
     p \<leftarrow> optional_visibility p;
     p \<leftarrow> parse_prefix (if primitive then Immediate else DeferredAllowed) p;
     p \<leftarrow> (if primitive then expect_keyword KwPrimitive p else Some p);
     p \<leftarrow> expect_keyword KwFunc p;
     p \<leftarrow> expect_name p;
     p \<leftarrow> optional_generic_parameters rec p;
     p \<leftarrow> parse_parameters rec True p;
     p \<leftarrow> callable_tail rec p;
     p \<leftarrow>
       (if primitive then (if at_punctuation PLeftBrace p then error_token ExpectedNewline p else Some p)
        else optional_block rec p);
     complete_node marker ''function_declaration'' p }"

section \<open>Values and types\<close>

text \<open>The type and initial value of \<open>constant\<close> and \<open>static_declaration\<close>.\<close>

definition typed_value :: "grammar \<Rightarrow> parser \<Rightarrow> parser option" where
  "typed_value rec p = do {
     p \<leftarrow> expect_name p;
     p \<leftarrow> expect_punctuation PColon p;
     p \<leftarrow> sub rec TypeN p;
     (equal, p) \<leftarrow> eat_punctuation PEqual p;
     if equal then sub rec (ExpressionN HeaderMode) p else Some p }"

definition parse_constant :: "grammar \<Rightarrow> parser \<Rightarrow> parser option" where
  "parse_constant rec p = do {
     (marker, p) \<leftarrow> start p;
     p \<leftarrow> optional_visibility p;
     p \<leftarrow> expect_keyword KwConst p;
     p \<leftarrow> typed_value rec p;
     complete_node marker ''constant_declaration'' p }"

definition parse_static :: "grammar \<Rightarrow> parser \<Rightarrow> parser option" where
  "parse_static rec p = do {
     (marker, p) \<leftarrow> start p;
     p \<leftarrow> optional_visibility p;
     p \<leftarrow> expect_contextual CtxStatic p;
     p \<leftarrow> typed_value rec p;
     complete_node marker ''static_declaration'' p }"

definition parse_primitive_type :: "parser \<Rightarrow> parser option" where
  "parse_primitive_type p = do {
     (marker, p) \<leftarrow> start p;
     p \<leftarrow> optional_visibility p;
     p \<leftarrow> expect_keyword KwPrimitive p;
     p \<leftarrow> expect_keyword KwType p;
     p \<leftarrow> (if at_kind Identifier p \<or> at_keyword KwVoid p \<or> at_keyword KwNever p then bump p
           else error_token ExpectedName p);
     complete_node marker ''primitive_type_declaration'' p }"

definition parse_type_alias :: "grammar \<Rightarrow> parser \<Rightarrow> parser option" where
  "parse_type_alias rec p = do {
     (marker, p) \<leftarrow> start p;
     p \<leftarrow> optional_visibility p;
     p \<leftarrow> expect_keyword KwType p;
     p \<leftarrow> expect_name p;
     p \<leftarrow> optional_generic_parameters rec p;
     p \<leftarrow> expect_punctuation PEqual p;
     p \<leftarrow> sub rec TypeN p;
     p \<leftarrow> optional_requirements rec p;
     complete_node marker ''type_alias_declaration'' p }"

definition parse_drop :: "grammar \<Rightarrow> parser \<Rightarrow> parser option" where
  "parse_drop rec p = do {
     (marker, p) \<leftarrow> start p;
     p \<leftarrow> parse_prefix ImmediateGuarantees p;
     p \<leftarrow> expect_contextual CtxDrop p;
     p \<leftarrow> declaration_type_pattern rec p;
     p \<leftarrow> expect_punctuation PLeftParen p;
     (borrowed, p) \<leftarrow> eat_punctuation PReadWrite p;
     p \<leftarrow> (if borrowed then expect_contextual CtxLowerSelf p else error_token ExpectedReceiver p);
     p \<leftarrow> expect_punctuation PRightParen p;
     p \<leftarrow> required_block rec p;
     complete_node marker ''drop_declaration'' p }"

definition parse_test :: "grammar \<Rightarrow> parser \<Rightarrow> parser option" where
  "parse_test rec p = do {
     (marker, p) \<leftarrow> start p;
     p \<leftarrow> expect_keyword KwTest p;
     p \<leftarrow> expect_name p;
     p \<leftarrow> required_block rec p;
     complete_node marker ''test_declaration'' p }"

section \<open>Structures, enumerations and interfaces\<close>

definition generic_parameters_and_requirements :: "grammar \<Rightarrow> parser \<Rightarrow> parser option" where
  "generic_parameters_and_requirements rec p = do {
     p \<leftarrow> optional_generic_parameters rec p;
     optional_requirements rec p }"

definition struct_field :: "grammar \<Rightarrow> parser \<Rightarrow> parser option" where
  "struct_field rec p = do {
     (marker, p) \<leftarrow> start p;
     p \<leftarrow> optional_visibility p;
     p \<leftarrow> expect_name p;
     p \<leftarrow> expect_punctuation PColon p;
     p \<leftarrow> sub rec TypeN p;
     complete_node marker ''struct_field'' p }"

definition enum_variant :: "grammar \<Rightarrow> parser \<Rightarrow> parser option" where
  "enum_variant rec p = do {
     (marker, p) \<leftarrow> start p;
     p \<leftarrow> expect_name p;
     p \<leftarrow>
       (if at_punctuation PLeftParen p then do {
          (payload, p) \<leftarrow> start p;
          p \<leftarrow> parse_parameters rec False p;
          complete_node payload ''enum_payload'' p }
        else Some p);
     complete_node marker ''enum_variant'' p }"

definition optional_members :: "(parser \<Rightarrow> parser option) \<Rightarrow> parser \<Rightarrow> parser option" where
  "optional_members element p =
     (if at_punctuation PLeftBrace p then braced_line_sequence_with_minimum ExpectedDeclarationMember element False p
      else Some p)"

definition parse_struct :: "grammar \<Rightarrow> parser \<Rightarrow> parser option" where
  "parse_struct rec p = do {
     (marker, p) \<leftarrow> start p;
     p \<leftarrow> optional_visibility p;
     p \<leftarrow> (if at_contextual CtxCopy p then bump p else Some p);
     p \<leftarrow> expect_keyword KwStruct p;
     p \<leftarrow> expect_name p;
     p \<leftarrow> generic_parameters_and_requirements rec p;
     p \<leftarrow> optional_members (struct_field rec) p;
     complete_node marker ''struct_declaration'' p }"

definition parse_enum :: "grammar \<Rightarrow> parser \<Rightarrow> parser option" where
  "parse_enum rec p = do {
     (marker, p) \<leftarrow> start p;
     p \<leftarrow> optional_visibility p;
     p \<leftarrow> expect_keyword KwEnum p;
     p \<leftarrow> expect_name p;
     p \<leftarrow> generic_parameters_and_requirements rec p;
     p \<leftarrow> optional_members (enum_variant rec) p;
     complete_node marker ''enum_declaration'' p }"

partial_function (option) bounds_loop :: "grammar \<Rightarrow> parser \<Rightarrow> parser option" where
  [code]: "bounds_loop rec p = do {
     (plus, p) \<leftarrow> eat_punctuation PPlus p;
     if plus then do { p \<leftarrow> interface_application rec p; bounds_loop rec p } else Some p }"

definition associated_type :: "grammar \<Rightarrow> parser \<Rightarrow> parser option" where
  "associated_type rec p = do {
     (marker, p) \<leftarrow> start p;
     p \<leftarrow> optional_visibility p;
     p \<leftarrow> bump p;
     p \<leftarrow> expect_name p;
     p \<leftarrow>
       (if at_keyword KwImpl p then do {
          (bounds, p) \<leftarrow> start p;
          p \<leftarrow> bump p;
          p \<leftarrow> interface_application rec p;
          p \<leftarrow> bounds_loop rec p;
          complete_node bounds ''interface_bounds'' p }
        else Some p);
     complete_node marker ''associated_type_declaration'' p }"

definition interface_method :: "grammar \<Rightarrow> bool \<Rightarrow> parser \<Rightarrow> parser option" where
  "interface_method rec is_default p = do {
     (marker, p) \<leftarrow> start p;
     p \<leftarrow> optional_visibility p;
     p \<leftarrow> parse_prefix DeferredAllowed p;
     p \<leftarrow>
       (if is_default then do {
          (modifier, p) \<leftarrow> start p;
          p \<leftarrow> expect_contextual CtxDefault p;
          complete_node modifier ''interface_default_modifier'' p }
        else Some p);
     p \<leftarrow> method_signature rec p;
     p \<leftarrow>
       (if is_default then optional_block rec p
        else if at_punctuation PLeftBrace p then do {
          p \<leftarrow> report_missing (ExpectedContextual (contextual_str CtxDefault)) p;
          optional_block rec p }
        else Some p);
     complete_node marker ''interface_method'' p }"

definition interface_member :: "grammar \<Rightarrow> parser \<Rightarrow> parser option" where
  "interface_member rec p = do {
     first \<leftarrow> token_kind_at p (par_cursor p);
     let has_visibility = first = Keyword KwPub;
     bare \<leftarrow> (if has_visibility then map_option (\<lambda>k. k \<noteq> Punctuation PLeftParen) (token_kind_at p (par_cursor p + 1))
              else Some False);
     i \<leftarrow> (if has_visibility then skip_visibility p (par_cursor p) else Some (par_cursor p));
     stop \<leftarrow> scan_prefix p i DeferredAllowed;
     let is_default = contextual_at stop CtxDefault p;
     k \<leftarrow> token_kind_at p (if is_default then stop + 1 else stop);
     if k = Keyword KwType \<and> bare \<and> stop = i \<and> \<not> is_default then associated_type rec p
     else if k = Keyword KwMethod \<and> (bare \<or> is_default) then interface_method rec is_default p
     else error_token ExpectedDeclarationMember p }"

definition parse_interface :: "grammar \<Rightarrow> parser \<Rightarrow> parser option" where
  "parse_interface rec p = do {
     (marker, p) \<leftarrow> start p;
     p \<leftarrow> optional_visibility p;
     p \<leftarrow> expect_keyword KwInterface p;
     p \<leftarrow> expect_name p;
     p \<leftarrow> generic_parameters_and_requirements rec p;
     p \<leftarrow> braced_line_sequence_with_minimum ExpectedDeclarationMember (interface_member rec) False p;
     complete_node marker ''interface_declaration'' p }"

section \<open>Constructions\<close>

definition literal_shape :: "parser \<Rightarrow> parser option" where
  "literal_shape p = do {
     (marker, p) \<leftarrow> start p;
     (bracket, p) \<leftarrow> eat_punctuation PLeftBracket p;
     p \<leftarrow>
       (if bracket then do {
          (_, p) \<leftarrow> eat_punctuation PColon p;
          expect_punctuation PRightBracket p }
        else do {
          empty_string \<leftarrow>
            (if at_kind (StringStart SingleLine) p then do {
               k \<leftarrow> nth_kind 1 p;
               Some (k = StringEnd SingleLine \<and> joint_to_next (source_tokens p ! par_cursor p)) }
             else Some False);
          if empty_string then do { p \<leftarrow> bump p; bump p } else error_token ExpectedLiteralShape p });
     complete_node marker ''literal_shape'' p }"

definition construction_function :: "grammar \<Rightarrow> parser \<Rightarrow> parser option" where
  "construction_function rec p = do {
     p \<leftarrow> bump p;
     p \<leftarrow> expect_name p;
     p \<leftarrow> optional_generic_parameters rec p;
     p \<leftarrow> parse_parameters rec True p;
     p \<leftarrow> callable_tail rec p;
     optional_block rec p }"

definition literal_declaration :: "grammar \<Rightarrow> parser \<Rightarrow> parser option" where
  "literal_declaration rec p = do {
     p \<leftarrow> bump p;
     p \<leftarrow> literal_shape p;
     p \<leftarrow> parse_parameters rec True p;
     p \<leftarrow> callable_tail rec p;
     optional_block rec p }"

text \<open>
  The prefix of a member: the deferred grammar when its keyword follows, and the guarantees alone when the keyword
  of the other form follows.
\<close>

definition member_prefix :: "(token_kind \<Rightarrow> bool) \<Rightarrow> (token_kind \<Rightarrow> bool) \<Rightarrow> parser \<Rightarrow> parser option" where
  "member_prefix deferred guaranteed p = do {
     stop \<leftarrow> scan_prefix p (par_cursor p) DeferredAllowed;
     k \<leftarrow> token_kind_at p stop;
     stop' \<leftarrow> scan_prefix p (par_cursor p) ImmediateGuarantees;
     k' \<leftarrow> token_kind_at p stop';
     if deferred k then parse_prefix DeferredAllowed p
     else if guaranteed k' then parse_prefix ImmediateGuarantees p
     else Some p }"

definition construct_member :: "grammar \<Rightarrow> parser \<Rightarrow> parser option" where
  "construct_member rec p = do {
     (marker, p) \<leftarrow> start p;
     p \<leftarrow> optional_visibility p;
     p \<leftarrow> member_prefix (\<lambda>k. k = Keyword KwFunc) (\<lambda>k. k = Keyword KwLiteral) p;
     if at_keyword KwFunc p then do {
       p \<leftarrow> construction_function rec p;
       complete_node marker ''construction_function'' p }
     else if at_keyword KwLiteral p then do {
       p \<leftarrow> literal_declaration rec p;
       complete_node marker ''literal_declaration'' p }
     else do {
       p \<leftarrow> error_token ExpectedDeclarationMember p;
       complete_node marker ''error'' p } }"

definition parse_construct :: "grammar \<Rightarrow> parser \<Rightarrow> parser option" where
  "parse_construct rec p = do {
     (marker, p) \<leftarrow> start p;
     p \<leftarrow> expect_keyword KwConstruct p;
     p \<leftarrow> declaration_type_pattern rec p;
     p \<leftarrow> braced_line_sequence_with_minimum ExpectedDeclarationMember (construct_member rec) True p;
     complete_node marker ''construct_declaration'' p }"

section \<open>Instances\<close>

definition optional_provenance_and_requirements :: "grammar \<Rightarrow> parser \<Rightarrow> parser option" where
  "optional_provenance_and_requirements rec p = do {
     p \<leftarrow> optional_provenance p;
     optional_requirements rec p }"

definition coercion :: "grammar \<Rightarrow> parser \<Rightarrow> parser option" where
  "coercion rec p = do {
     p \<leftarrow> expect_contextual CtxCoerce p;
     p \<leftarrow> parse_receiver False p;
     p \<leftarrow> expect_keyword KwAs p;
     p \<leftarrow> sub rec TypeN p;
     p \<leftarrow>
       (if at_contextual CtxFrom p then do {
          (provenance, p) \<leftarrow> start p;
          p \<leftarrow> bump p;
          p \<leftarrow> expect_contextual CtxLowerSelf p;
          complete_node provenance ''coercion_provenance'' p }
        else Some p);
     optional_block rec p }"

definition comparison_operator :: "grammar \<Rightarrow> parser \<Rightarrow> parser option" where
  "comparison_operator rec p = do {
     p \<leftarrow> expect_name p;
     p \<leftarrow> expect_punctuation PColon p;
     p \<leftarrow> expect_punctuation PAmpersand p;
     p \<leftarrow> expect_contextual CtxUpperSelf p;
     p \<leftarrow> expect_punctuation PRightParen p;
     p \<leftarrow> expect_punctuation PColon p;
     p \<leftarrow> expect_identifier_text ''bool'' p;
     p \<leftarrow> optional_requirements rec p;
     optional_block rec p }"

definition index_operator :: "grammar \<Rightarrow> parser \<Rightarrow> parser option" where
  "index_operator rec p = do {
     p \<leftarrow> parse_parameter rec True p;
     p \<leftarrow> expect_punctuation PRightBracket p;
     p \<leftarrow> expect_punctuation PRightParen p;
     p \<leftarrow> expect_punctuation PColon p;
     p \<leftarrow> parse_borrow_type rec p;
     p \<leftarrow> optional_provenance_and_requirements rec p;
     optional_block rec p }"

definition expansion_operator :: "grammar \<Rightarrow> parser \<Rightarrow> parser option" where
  "expansion_operator rec p = do {
     p \<leftarrow> parse_receiver True p;
     p \<leftarrow> expect_punctuation PRightParen p;
     p \<leftarrow> expect_punctuation PColon p;
     p \<leftarrow> sub rec TypeN p;
     p \<leftarrow> optional_provenance_and_requirements rec p;
     optional_block rec p }"

text \<open>\<open>operator\<close> returns the kind of the member; \<open>borrowed_operator\<close> is its part after a plain parenthesis.\<close>

definition borrowed_operator :: "grammar \<Rightarrow> parser \<Rightarrow> (node_kind \<times> parser) option" where
  "borrowed_operator rec p = (let readonly = at_punctuation PAmpersand p in do {
     p \<leftarrow> parse_receiver False p;
     if at_punctuation PLeftBracket p then do {
       p \<leftarrow> bump p;
       map_option (Pair ''index_operator'') (index_operator rec p) }
     else if readonly \<and> at_punctuation PEqualEqual p then do {
       p \<leftarrow> bump p;
       map_option (Pair ''equality_operator'') (comparison_operator rec p) }
     else if readonly \<and> at_punctuation PLess p then do {
       p \<leftarrow> bump p;
       map_option (Pair ''ordering_operator'') (comparison_operator rec p) }
     else do {
       p \<leftarrow> error_token ExpectedDeclarationMember p;
       p \<leftarrow> recover_until [Punctuation PRightParen, Newline] p;
       (_, p) \<leftarrow> eat_punctuation PRightParen p;
       Some (''error'', p) } })"

definition parse_operator :: "grammar \<Rightarrow> parser \<Rightarrow> (node_kind \<times> parser) option" where
  "parse_operator rec p = do {
     p \<leftarrow> bump p;
     p \<leftarrow> expect_punctuation PLeftParen p;
     (expansion, p) \<leftarrow> eat_punctuation PExpansion p;
     if expansion then map_option (Pair ''expansion_operator'') (expansion_operator rec p)
     else borrowed_operator rec p }"

definition instance_member_body :: "grammar \<Rightarrow> parser \<Rightarrow> (node_kind \<times> parser) option" where
  "instance_member_body rec p =
     (if at_keyword KwMethod p then do {
        p \<leftarrow> method_signature rec p;
        p \<leftarrow> optional_block rec p;
        Some (''inherent_method'', p) }
      else if at_kind Identifier p \<and> at_contextual CtxCoerce p then
        map_option (Pair ''coercion_declaration'') (coercion rec p)
      else if at_keyword KwOperator p then parse_operator rec p
      else map_option (Pair ''error'') (error_token ExpectedDeclarationMember p))"

definition instance_member :: "grammar \<Rightarrow> parser \<Rightarrow> parser option" where
  "instance_member rec p = do {
     (marker, p) \<leftarrow> start p;
     if at_keyword KwImpl p then do {
       p \<leftarrow> bump p;
       p \<leftarrow> interface_application rec p;
       complete_node marker ''interface_implementation'' p }
     else do {
       p \<leftarrow> optional_visibility p;
       p \<leftarrow> member_prefix (\<lambda>k. k = Keyword KwMethod) (\<lambda>k. k = Keyword KwOperator \<or> k = Identifier) p;
       (k, p) \<leftarrow> instance_member_body rec p;
       complete_node marker k p } }"

definition parse_instance :: "grammar \<Rightarrow> parser \<Rightarrow> parser option" where
  "parse_instance rec p = do {
     (marker, p) \<leftarrow> start p;
     p \<leftarrow> expect_keyword KwInstance p;
     p \<leftarrow> declaration_type_pattern rec p;
     p \<leftarrow> optional_requirements rec p;
     p \<leftarrow> braced_line_sequence_with_minimum ExpectedDeclarationMember (instance_member rec) False p;
     complete_node marker ''instance_declaration'' p }"

section \<open>Items\<close>

datatype declaration_kind =
    ConstantDeclaration | StaticDeclaration | FunctionDeclaration | PrimitiveFunctionDeclaration
  | PrimitiveTypeDeclaration | TypeAliasDeclaration | StructDeclaration | EnumDeclaration
  | InterfaceDeclaration | ConstructDeclaration | InstanceDeclaration | DropDeclaration | TestDeclaration

definition kind_of_keyword :: "parser \<Rightarrow> nat \<Rightarrow> declaration_kind option option" where
  "kind_of_keyword p i = do {
     k \<leftarrow> token_kind_at p i;
     if k = Keyword KwConst then Some (Some ConstantDeclaration)
     else if k = Identifier \<and> contextual_at i CtxStatic p then Some (Some StaticDeclaration)
     else if k = Keyword KwPrimitive then
       map_option (\<lambda>k. if k = Keyword KwType then Some PrimitiveTypeDeclaration else None) (token_kind_at p (i + 1))
     else if k = Keyword KwType then Some (Some TypeAliasDeclaration)
     else if k = Keyword KwStruct then Some (Some StructDeclaration)
     else if k = Keyword KwEnum then Some (Some EnumDeclaration)
     else if k = Keyword KwInterface then Some (Some InterfaceDeclaration)
     else Some None }"

text \<open>The outer \<open>None\<close> of the kinds is a panic; the inner one is the absence of a kind.\<close>

definition targetable_kind :: "parser \<Rightarrow> declaration_kind option option" where
  "targetable_kind p = do {
     first \<leftarrow> token_kind_at p (par_cursor p);
     i \<leftarrow> (if first = Keyword KwPub then skip_visibility p (par_cursor p) else Some (par_cursor p));
     callable \<leftarrow> scan_prefix p i DeferredAllowed;
     k \<leftarrow> token_kind_at p callable;
     if k = Keyword KwFunc then Some (Some FunctionDeclaration)
     else do {
       primitive \<leftarrow> scan_prefix p i Immediate;
       k \<leftarrow> token_kind_at p primitive;
       is_primitive \<leftarrow> (if k = Keyword KwPrimitive
         then map_option (\<lambda>k. k = Keyword KwFunc) (token_kind_at p (primitive + 1)) else Some False);
       if is_primitive then Some (Some PrimitiveFunctionDeclaration)
       else do {
         copied \<leftarrow> (if contextual_at i CtxCopy p
           then map_option (\<lambda>k. k = Keyword KwStruct) (token_kind_at p (i + 1)) else Some False);
         if copied then Some (Some StructDeclaration) else kind_of_keyword p i } } }"

definition declaration_kind_of :: "parser \<Rightarrow> declaration_kind option option" where
  "declaration_kind_of p = do {
     targetable \<leftarrow> targetable_kind p;
     if targetable \<noteq> None then Some targetable
     else do {
       stop \<leftarrow> scan_prefix p (par_cursor p) ImmediateGuarantees;
       Some (if contextual_at stop CtxDrop p then Some DropDeclaration
         else if at_keyword KwConstruct p then Some ConstructDeclaration
         else if at_keyword KwInstance p then Some InstanceDeclaration
         else if at_keyword KwTest p then Some TestDeclaration
         else None) } }"

text \<open>The production of a kind that a target directive may precede.\<close>

definition parse_targetable :: "grammar \<Rightarrow> declaration_kind \<Rightarrow> parser \<Rightarrow> parser option" where
  "parse_targetable rec k p =
     (case k of
        ConstantDeclaration \<Rightarrow> parse_constant rec p
      | StaticDeclaration \<Rightarrow> parse_static rec p
      | FunctionDeclaration \<Rightarrow> parse_function rec False p
      | PrimitiveFunctionDeclaration \<Rightarrow> parse_function rec True p
      | PrimitiveTypeDeclaration \<Rightarrow> parse_primitive_type p
      | TypeAliasDeclaration \<Rightarrow> parse_type_alias rec p
      | StructDeclaration \<Rightarrow> parse_struct rec p
      | EnumDeclaration \<Rightarrow> parse_enum rec p
      | InterfaceDeclaration \<Rightarrow> parse_interface rec p
      | _ \<Rightarrow> error_token ExpectedTargetableItem p)"

definition parse_targetable_item :: "grammar \<Rightarrow> parser \<Rightarrow> parser option" where
  "parse_targetable_item rec p = do {
     k \<leftarrow> targetable_kind p;
     (case k of None \<Rightarrow> error_token ExpectedTargetableItem p | Some k \<Rightarrow> parse_targetable rec k p) }"

definition parse_declaration :: "grammar \<Rightarrow> parser \<Rightarrow> parser option" where
  "parse_declaration rec p = do {
     k \<leftarrow> declaration_kind_of p;
     (case k of
        None \<Rightarrow> error_token ExpectedItem p
      | Some ConstructDeclaration \<Rightarrow> parse_construct rec p
      | Some InstanceDeclaration \<Rightarrow> parse_instance rec p
      | Some DropDeclaration \<Rightarrow> parse_drop rec p
      | Some TestDeclaration \<Rightarrow> parse_test rec p
      | Some k \<Rightarrow> parse_targetable rec k p) }"

definition target_directive :: "parser \<Rightarrow> parser option" where
  "target_directive p = do {
     (marker, p) \<leftarrow> start p;
     p \<leftarrow> bump p;
     p \<leftarrow> (if at_contextual CtxTarget p then bump p else error_token ExpectedName p);
     p \<leftarrow> expect_punctuation PColon p;
     p \<leftarrow> parse_string_literal p;
     (n, p) \<leftarrow> eat_newlines p;
     p \<leftarrow> (if n = 0 then report_missing ExpectedNewline p else Some p);
     complete_node marker ''target_directive'' p }"

definition parse_item :: "grammar \<Rightarrow> parser \<Rightarrow> parser option" where
  "parse_item rec p = do {
     (marker, p) \<leftarrow> start p;
     p \<leftarrow>
       (if at_punctuation PHash p then do {
          p \<leftarrow> target_directive p;
          parse_targetable_item rec p }
        else parse_declaration rec p);
     complete_node marker ''item'' p }"

end
