(* ===== verification/Parser_Root.thy ===== *)
theory Parser_Root
  imports Lexer Parser_Declarations
begin

text \<open>
  Source files (\<open>parser/root.rs\<close>, \<open>parser/source_visibility.rs\<close>), and the parser as a whole: \<open>grammar\<close> ties the
  recursive productions together and \<open>parse_tree\<close> lexes, parses and builds the tree of a text (\<open>parser/mod.rs\<close>).
  The first argument of \<open>grammar\<close> bounds the depth of the recursion; \<open>Parser_Correct\<close> shows that twice the number
  of tokens is enough, because every recursive production starts after a token that its caller consumed.
\<close>

section \<open>Package directives\<close>

definition at_package_directive_start :: "parser \<Rightarrow> bool" where
  "at_package_directive_start p \<longleftrightarrow>
     at_punctuation PHash p
     \<and> par_cursor p + 1 < length (source_tokens p)
     \<and> (let t = source_tokens p ! (par_cursor p + 1) in
         (token_kind t = Identifier \<or> token_kind t = Keyword KwTest)
         \<and> (case str_get (range_start (token_range t)) (range_end (token_range t)) (source_text p) of
              None \<Rightarrow> False
            | Some text \<Rightarrow> package_directive_from_spelling text \<noteq> None))"

definition is_package_directive_name :: "parser \<Rightarrow> bool option" where
  "is_package_directive_name p =
     (if at_kind Identifier p \<or> at_keyword KwTest p
      then map_option (\<lambda>text. package_directive_from_spelling text \<noteq> None) (current_text p) else Some False)"

definition directive_field :: "grammar \<Rightarrow> parser \<Rightarrow> parser option" where
  "directive_field rec p = do {
     (marker, p) \<leftarrow> start p;
     p \<leftarrow> expect_name p;
     p \<leftarrow> expect_punctuation PColon p;
     p \<leftarrow> sub rec DirectiveValueN p;
     complete_node marker ''directive_field'' p }"

definition directive_record :: "grammar \<Rightarrow> parser \<Rightarrow> parser option" where
  "directive_record rec p = do {
     (marker, p) \<leftarrow> start p;
     p \<leftarrow> bump p;
     (entered, p) \<leftarrow> enter_nesting p;
     if entered then do {
       p \<leftarrow> comma_list PRightBrace True ExpectedName (directive_field rec) p;
       p \<leftarrow> expect_punctuation PRightBrace p;
       p \<leftarrow> leave_nesting p;
       complete_node marker ''directive_record'' p }
     else do {
       p \<leftarrow> recover_balanced PLeftBrace PRightBrace p;
       complete_node marker ''directive_record'' p } }"

definition directive_value :: "grammar \<Rightarrow> parser \<Rightarrow> (nat \<times> parser) option" where
  "directive_value rec p = do {
     (marker, p) \<leftarrow> start p;
     p \<leftarrow>
       (if at_string_start p then parse_string_literal p
        else if at_kind IntegerLiteral p then bump p
        else if at_punctuation PLeftBrace p then directive_record rec p
        else error_token ExpectedDirectiveValue p);
     node marker ''directive_value'' p }"

definition package_directive :: "grammar \<Rightarrow> parser \<Rightarrow> parser option" where
  "package_directive rec p = do {
     (marker, p) \<leftarrow> start p;
     p \<leftarrow> bump p;
     named \<leftarrow> is_package_directive_name p;
     p \<leftarrow> (if named then bump p else error_token ExpectedPackageDirectiveName p);
     p \<leftarrow> expect_punctuation PColon p;
     p \<leftarrow> sub rec DirectiveValueN p;
     complete_node marker ''package_directive'' p }"

section \<open>Dependencies\<close>

partial_function (option) source_prefix_loop :: "parser \<Rightarrow> parser option" where
  [code]: "source_prefix_loop p = do {
     p \<leftarrow> expect_punctuation PDot p;
     (parent, p) \<leftarrow> eat_punctuation PDot p;
     p \<leftarrow> expect_punctuation PSlash p;
     if parent \<and> at_punctuation PDot p then source_prefix_loop p else Some p }"

definition source_visibility :: "parser \<Rightarrow> parser option" where
  "source_visibility p = do {
     (marker, p) \<leftarrow> start p;
     p \<leftarrow> expect_keyword KwSee p;
     (path, p) \<leftarrow> start p;
     p \<leftarrow> source_prefix_loop p;
     (_, p) \<leftarrow> expect_module_segment p;
     p \<leftarrow> segment_loop p;
     p \<leftarrow> expect_punctuation PDot p;
     p \<leftarrow> expect_identifier_text ''nct'' p;
     p \<leftarrow> complete_node path ''source_visibility_path'' p;
     complete_node marker ''source_visibility_declaration'' p }"

definition at_use_start :: "parser \<Rightarrow> bool option" where
  "at_use_start p = do {
     first \<leftarrow> token_kind_at p (par_cursor p);
     i \<leftarrow> (if first = Keyword KwPub then skip_visibility p (par_cursor p) else Some (par_cursor p));
     k \<leftarrow> token_kind_at p i;
     Some (k = Keyword KwUse) }"

definition use_declaration :: "parser \<Rightarrow> parser option" where
  "use_declaration p = do {
     (marker, p) \<leftarrow> start p;
     p \<leftarrow> optional_visibility p;
     p \<leftarrow> expect_keyword KwUse p;
     p \<leftarrow> use_tree p;
     complete_node marker ''use_declaration'' p }"

definition at_dependency_start :: "parser \<Rightarrow> bool option" where
  "at_dependency_start p = (if at_keyword KwSee p then Some True else at_use_start p)"

definition dependency_declaration :: "parser \<Rightarrow> parser option" where
  "dependency_declaration p = (if at_keyword KwSee p then source_visibility p else use_declaration p)"

section \<open>Source files\<close>

partial_function (option) directive_loop :: "grammar \<Rightarrow> parser \<Rightarrow> parser option" where
  [code]: "directive_loop rec p =
     (if at_package_directive_start p then do {
        p \<leftarrow> package_directive rec p;
        p \<leftarrow> require_line_end p;
        directive_loop rec p }
      else Some p)"

partial_function (option) dependency_loop :: "parser \<Rightarrow> parser option" where
  [code]: "dependency_loop p = do {
     dependency \<leftarrow> at_dependency_start p;
     if dependency then do {
       p \<leftarrow> dependency_declaration p;
       p \<leftarrow> require_line_end p;
       dependency_loop p }
     else Some p }"

definition top_level_item :: "grammar \<Rightarrow> parser \<Rightarrow> parser option" where
  "top_level_item rec p = do {
     dependency \<leftarrow> at_dependency_start p;
     if dependency then do {
       p \<leftarrow> diagnostic LateDependencyDeclaration p;
       dependency_declaration p }
     else parse_item rec p }"

partial_function (option) item_loop :: "grammar \<Rightarrow> parser \<Rightarrow> parser option" where
  [code]: "item_loop rec p =
     (if at_kind EndOfFile p then Some p
      else do {
        p \<leftarrow> top_level_item rec p;
        p \<leftarrow> require_line_end p;
        item_loop rec p })"

definition source_file :: "grammar \<Rightarrow> parser \<Rightarrow> parser option" where
  "source_file rec p = do {
     (root, p) \<leftarrow> start p;
     (_, p) \<leftarrow> eat_newlines p;
     p \<leftarrow> directive_loop rec p;
     p \<leftarrow> dependency_loop p;
     p \<leftarrow> item_loop rec p;
     p \<leftarrow> bump p;
     complete_node root ''source_file'' p }"

section \<open>The parser\<close>

definition production_step :: "grammar \<Rightarrow> grammar" where
  "production_step rec nt =
     (case nt of
        TypeN \<Rightarrow> parse_type rec
      | ExpressionN mode \<Rightarrow> parse_expression rec mode
      | BlockN \<Rightarrow> parse_block rec
      | IfN \<Rightarrow> if_expression rec
      | BindingPatternN \<Rightarrow> binding_pattern rec
      | DirectiveValueN \<Rightarrow> directive_value rec)"

fun grammar :: "nat \<Rightarrow> grammar" where
  "grammar 0 nt p = None"
| "grammar (Suc n) nt p = production_step (grammar n) nt p"

definition grammar_depth :: "parser \<Rightarrow> nat" where
  "grammar_depth p = 2 * length (source_tokens p) + 1"

definition parse_events :: "utf8_text \<Rightarrow> lexed_file \<Rightarrow> (event list \<times> parse_diagnostic list) option" where
  "parse_events src lexed = do {
     let p = parser_new src (lexed_tokens lexed);
     p \<leftarrow> source_file (grammar (grammar_depth p)) p;
     parser_finish p }"

record syntax_tree =
  tree_lexed :: lexed_file
  tree_built :: built_tree
  tree_diagnostics :: "parse_diagnostic list"

definition parse_tree :: "utf8_text \<Rightarrow> syntax_tree option" where
  "parse_tree src = do {
     lexed \<leftarrow> lex_file src;
     (events, diagnostics) \<leftarrow> parse_events src lexed;
     built \<leftarrow> build_tree events;
     Some \<lparr>tree_lexed = lexed, tree_built = built, tree_diagnostics = diagnostics\<rparr> }"

end
