(* ===== verification/Event_Forest.thy ===== *)
theory Event_Forest
  imports Syntax_Tree
begin

text \<open>
  The shape of the events a parser emits: forests of nodes, where a node that acquired forward parents is a
  chain of starts. Positions bound the ranges from both sides. \<open>extends\<close> is the shape while nodes are still open,
  with the markers of the open nodes, innermost first.
\<close>

section \<open>Forests\<close>

text \<open>
  \<open>forest a F b\<close>: \<open>F\<close> is a sequence of tokens, missing syntax and completed nodes between the positions \<open>a\<close> and \<open>b\<close>.
  \<open>chain a G b\<close>: \<open>G\<close> is a completed node, and what follows it, that the next start will enclose.
\<close>

inductive forest :: "nat \<Rightarrow> event list \<Rightarrow> nat \<Rightarrow> bool" and chain :: "nat \<Rightarrow> event list \<Rightarrow> nat \<Rightarrow> bool" where
  forest_nil: "a \<le> b \<Longrightarrow> forest a [] b"
| forest_token: "forest a F b \<Longrightarrow> b \<le> range_start (syntax_range t) \<Longrightarrow>
    range_start (syntax_range t) \<le> range_end (syntax_range t) \<Longrightarrow> range_end (syntax_range t) \<le> c \<Longrightarrow>
    forest a (F @ [TokenEvent t]) c"
| forest_missing: "forest a F b \<Longrightarrow> missing_range m = range_empty s \<Longrightarrow> b \<le> s \<Longrightarrow> s \<le> c \<Longrightarrow>
    forest a (F @ [MissingEvent m]) c"
| forest_node: "forest a F b \<Longrightarrow> chain b G c \<Longrightarrow> (G = [] \<longrightarrow> offset = c) \<Longrightarrow> forest c B e \<Longrightarrow>
    forest a (F @ G @ StartEvent k offset None # B @ [FinishEvent]) e"
| chain_nil: "a \<le> b \<Longrightarrow> chain a [] b"
| chain_link: "chain a G b \<Longrightarrow> (G = [] \<longrightarrow> offset = b) \<Longrightarrow> forest b B c \<Longrightarrow> forest c H e \<Longrightarrow>
    d = 2 + length B + length H \<Longrightarrow>
    chain a (G @ StartEvent k offset (Some d) # B @ [FinishEvent] @ H) e"

lemma forest_le: "forest a F b \<Longrightarrow> a \<le> b" and chain_le: "chain a F b \<Longrightarrow> a \<le> b"
  by (induction rule: forest_chain.inducts) auto

lemma forest_widen: "forest a F b \<Longrightarrow> b \<le> b' \<Longrightarrow> forest a F b'" and "chain a G c \<Longrightarrow> True"
proof (induction arbitrary: b' and rule: forest_chain.inducts)
  case (forest_nil a b)
  then show ?case by (intro forest_chain.forest_nil) simp
next
  case (forest_token a F b t c)
  then show ?case by (intro forest_chain.forest_token [OF forest_token.hyps(1)]) auto
next
  case (forest_missing a F b m s c)
  then show ?case by (intro forest_chain.forest_missing [OF forest_missing.hyps(1), where s = s]) auto
next
  case (forest_node a F b G c offset B e k)
  then show ?case by (intro forest_chain.forest_node [OF forest_node.hyps(1,2)]) auto
qed auto

lemma forest_narrow: "forest a F b \<Longrightarrow> a' \<le> a \<Longrightarrow> forest a' F b" and "chain a G c \<Longrightarrow> True"
proof (induction and rule: forest_chain.inducts)
  case (forest_nil a b)
  then show ?case by (intro forest_chain.forest_nil) simp
next
  case (forest_token a F b t c)
  then show ?case by (intro forest_chain.forest_token [where b = b]) auto
next
  case (forest_missing a F b m s c)
  then show ?case by (intro forest_chain.forest_missing [where b = b and s = s]) auto
next
  case (forest_node a F b G c offset B e k)
  then show ?case by (intro forest_chain.forest_node [OF _ forest_node.hyps(2)]) auto
qed auto

lemma forest_append: "forest b F' c \<Longrightarrow> forest a F b \<Longrightarrow> forest a (F @ F') c" and "chain a G c \<Longrightarrow> True"
proof (induction arbitrary: F and rule: forest_chain.inducts)
  case (forest_nil b c)
  then show ?case by (simp add: forest_widen)
next
  case (forest_token b F' c t d)
  from forest_chain.forest_token [OF forest_token.IH [OF forest_token.prems] forest_token.hyps(2-)] show ?case by simp
next
  case (forest_missing b F' c m s d)
  from forest_chain.forest_missing [OF forest_missing.IH [OF forest_missing.prems] forest_missing.hyps(2-)]
  show ?case by simp
next
  case (forest_node b F' c G d offset B e k)
  from forest_chain.forest_node [OF forest_node.IH(1) [OF forest_node.prems] forest_node.hyps(2,3,4)]
  show ?case by simp
qed auto

lemma node_forest:
  "chain a G b \<Longrightarrow> (G = [] \<longrightarrow> offset = b) \<Longrightarrow> forest b B c \<Longrightarrow>
    forest a (G @ StartEvent k offset None # B @ [FinishEvent]) c"
  using forest_chain.forest_node [OF forest_nil [OF order_refl], of a G b offset B c k] by simp

section \<open>Open nodes\<close>

text \<open>
  \<open>extends E a ms E' b\<close>: the events \<open>E\<close>, which ended at position \<open>a\<close>, have grown to \<open>E'\<close>, which end at \<open>b\<close>, and the
  starts at the indices \<open>ms\<close> are open.
\<close>

inductive extends :: "event list \<Rightarrow> nat \<Rightarrow> nat list \<Rightarrow> event list \<Rightarrow> nat \<Rightarrow> bool" where
  extends_nil: "forest a F b \<Longrightarrow> E' = E @ F \<Longrightarrow> extends E a [] E' b"
| extends_open: "extends E a ms E\<^sub>1 b \<Longrightarrow> chain b G c \<Longrightarrow> (G = [] \<longrightarrow> offset = c) \<Longrightarrow> forest c B e \<Longrightarrow>
    m = length (E\<^sub>1 @ G) \<Longrightarrow> E' = E\<^sub>1 @ G @ StartEvent k offset None # B \<Longrightarrow> extends E a (m # ms) E' e"

inductive_cases extends_nilE: "extends E a [] E' b"
inductive_cases extends_openE: "extends E a (m # ms) E' b"

text \<open>\<open>completed_at E a ms E' b m\<close>: moreover the node at index \<open>m\<close> is the last one completed at this level.\<close>

definition completed_at :: "event list \<Rightarrow> nat \<Rightarrow> nat list \<Rightarrow> event list \<Rightarrow> nat \<Rightarrow> nat \<Rightarrow> bool" where
  "completed_at E a ms E' b m \<longleftrightarrow>
     (\<exists>E\<^sub>1 b\<^sub>1 G c k offset B e H. extends E a ms E\<^sub>1 b\<^sub>1 \<and> chain b\<^sub>1 G c \<and> (G = [] \<longrightarrow> offset = c) \<and> forest c B e \<and> forest e H b
        \<and> m = length (E\<^sub>1 @ G) \<and> E' = E\<^sub>1 @ G @ StartEvent k offset None # B @ [FinishEvent] @ H)"

lemma extends_refl: "extends E a [] E a"
  by (rule extends_nil [OF forest_nil]) auto

lemma extends_append:
  assumes "extends E a ms E' b" and "forest b F c"
  shows "extends E a ms (E' @ F) c"
  using assms
proof (cases rule: extends.cases)
  case (extends_nil F')
  with extends.extends_nil [OF forest_append [OF assms(2)], of a F' "E' @ F" E] show ?thesis by simp
next
  case (extends_open ms' E\<^sub>1 b' G c' offset B m k)
  from extends.extends_open [OF extends_open(2,3) extends_open(4) forest_append [OF assms(2) extends_open(5)]
      extends_open(6), of "E' @ F" k] extends_open(1,7) show ?thesis by simp
qed

lemma extends_trans:
  assumes "extends E' b [] E'' c" and "extends E a ms E' b"
  shows "extends E a ms E'' c"
  using assms by (auto elim!: extends_nilE intro: extends_append)

lemma extends_trans_open:
  "extends E' b ms' E'' c \<Longrightarrow> extends E a ms E' b \<Longrightarrow> extends E a (ms' @ ms) E'' c"
proof (induction arbitrary: E a ms rule: extends.induct)
  case (extends_nil b F c E'' E')
  then show ?case by (auto intro: extends_append)
next
  case (extends_open E' b ms' E\<^sub>1 b' G c' offset B e m E'' k)
  from extends.extends_open [OF extends_open.IH [OF extends_open.prems] extends_open.hyps(2-)] show ?case by simp
qed

lemma extends_le: "extends E a ms E' b \<Longrightarrow> a \<le> b"
  by (induction rule: extends.induct) (auto dest!: forest_le chain_le)

lemma extends_prefix: "extends E a ms E' b \<Longrightarrow> \<exists>F. E' = E @ F"
  by (induction rule: extends.induct) auto

lemma extends_widen: "extends E a ms E' b \<Longrightarrow> b \<le> c \<Longrightarrow> extends E a ms E' c"
  using extends_append [OF _ forest_nil, of E a ms E' b c] by simp

lemma extends_token:
  "extends E a ms E' b \<Longrightarrow> b \<le> range_start (syntax_range t) \<Longrightarrow>
    range_start (syntax_range t) \<le> range_end (syntax_range t) \<Longrightarrow> range_end (syntax_range t) \<le> c \<Longrightarrow>
    extends E a ms (E' @ [TokenEvent t]) c"
  using forest_token [OF forest_nil [OF order_refl], of b t c] by (auto intro: extends_append)

lemma extends_missing:
  "extends E a ms E' b \<Longrightarrow> extends E a ms (E' @ [MissingEvent \<lparr>missing_expected = x, missing_range = range_empty b\<rparr>]) b"
  using forest_missing [OF forest_nil [OF order_refl], of "\<lparr>missing_expected = x, missing_range = range_empty b\<rparr>" b b b]
  by (auto intro: extends_append)

lemma extends_start:
  "extends E a ms E' b \<Longrightarrow> extends E a (length E' # ms) (E' @ [StartEvent k b None]) b"
  by (rule extends_open [OF _ chain_nil _ forest_nil]) auto

text \<open>Completing the innermost open node.\<close>

lemma extends_complete:
  assumes "extends E a (m # ms) E' b"
  shows "\<exists>k' offset. m < length E' \<and> E' ! m = StartEvent k' offset None
    \<and> completed_at E a ms (E'[m := StartEvent k offset None] @ [FinishEvent]) b m"
proof -
  from assms obtain E\<^sub>1 b\<^sub>1 G c offset B k' where
    1: "extends E a ms E\<^sub>1 b\<^sub>1" "chain b\<^sub>1 G c" "G = [] \<longrightarrow> offset = c" "forest c B b" "m = length E\<^sub>1 + length G"
    "E' = E\<^sub>1 @ G @ StartEvent k' offset None # B"
    by (cases rule: extends_openE) blast
  have "E'[m := StartEvent k offset None] @ [FinishEvent]
      = E\<^sub>1 @ G @ StartEvent k offset None # B @ [FinishEvent] @ []"
    using 1(5,6) by (simp add: list_update_append)
  moreover have "forest b [] b" by (simp add: forest_nil)
  ultimately have "completed_at E a ms (E'[m := StartEvent k offset None] @ [FinishEvent]) b m"
    unfolding completed_at_def length_append using 1(1-5) by blast
  with 1 show ?thesis by (auto simp: nth_append)
qed

lemma completed_extends: "completed_at E a ms E' b m \<Longrightarrow> extends E a ms E' b"
  unfolding completed_at_def
proof (elim exE conjE)
  fix E\<^sub>1 b\<^sub>1 G c k offset B e H
  assume "extends E a ms E\<^sub>1 b\<^sub>1" "chain b\<^sub>1 G c" "G = [] \<longrightarrow> offset = c" "forest c B e" "forest e H b"
    "E' = E\<^sub>1 @ G @ StartEvent k offset None # B @ [FinishEvent] @ H"
  with forest_append [OF _ node_forest, of e H b b\<^sub>1 G c offset B k] extends_append [of E a ms E\<^sub>1 b\<^sub>1]
  show "extends E a ms E' b" by auto
qed

lemma completed_append: "completed_at E a ms E' b m \<Longrightarrow> forest b F c \<Longrightarrow> completed_at E a ms (E' @ F) c m"
  unfolding completed_at_def by (elim exE conjE) (fastforce intro: forest_append)

lemma completed_trans:
  assumes "completed_at E' b [] E'' c m" and "extends E a ms E' b"
  shows "completed_at E a ms E'' c m"
proof -
  from assms(1) obtain E\<^sub>1 b\<^sub>1 G c\<^sub>1 k offset B e H where
    "extends E' b [] E\<^sub>1 b\<^sub>1" "chain b\<^sub>1 G c\<^sub>1" "G = [] \<longrightarrow> offset = c\<^sub>1" "forest c\<^sub>1 B e" "forest e H c" "m = length (E\<^sub>1 @ G)"
    "E'' = E\<^sub>1 @ G @ StartEvent k offset None # B @ [FinishEvent] @ H"
    unfolding completed_at_def by blast
  with extends_trans [OF this(1) assms(2)] show ?thesis unfolding completed_at_def by blast
qed

text \<open>Opening a node before the last completed one.\<close>

lemma completed_precede:
  assumes "completed_at E a ms E' b m"
  shows "\<exists>k' offset. m < length E' \<and> E' ! m = StartEvent k' offset None
    \<and> extends E a (length E' # ms) (E'[m := StartEvent k' offset (Some (length E' - m))] @ [StartEvent k offset None]) b"
proof -
  from assms obtain E\<^sub>1 b\<^sub>1 G c k' offset B e H where
    *: "extends E a ms E\<^sub>1 b\<^sub>1" "chain b\<^sub>1 G c" "G = [] \<longrightarrow> offset = c" "forest c B e" "forest e H b" "m = length (E\<^sub>1 @ G)"
    "E' = E\<^sub>1 @ G @ StartEvent k' offset None # B @ [FinishEvent] @ H"
    unfolding completed_at_def by blast
  let ?G = "G @ StartEvent k' offset (Some (2 + length B + length H)) # B @ [FinishEvent] @ H"
  have "chain b\<^sub>1 ?G b" using * by (intro chain_link) auto
  from extends_open [OF *(1) this _ forest_nil [OF order_refl], of offset "length (E\<^sub>1 @ ?G)"
      "E\<^sub>1 @ ?G @ [StartEvent k offset None]" k]
  have "extends E a (length (E\<^sub>1 @ ?G) # ms) (E\<^sub>1 @ ?G @ [StartEvent k offset None]) b" by simp
  moreover have "E\<^sub>1 @ ?G @ [StartEvent k offset None]
      = E'[m := StartEvent k' offset (Some (length E' - m))] @ [StartEvent k offset None]"
    using * by (simp add: list_update_append)
  moreover have "length (E\<^sub>1 @ ?G) = length E'" using * by simp
  moreover have "m < length E'" "E' ! m = StartEvent k' offset None" using * by (auto simp: nth_append)
  ultimately show ?thesis by metis
qed

end
