(* ===== verification/Parser_Steps.thy ===== *)
theory Parser_Steps
  imports Lexer_Correct Parser_Root Event_Forest
begin

text \<open>
  The rules by which the productions of the parser are verified. \<open>st c b p ms d q\<close> relates the parser \<open>p\<close> with
  which a production started to its current parser \<open>q\<close>: the tokens emitted so far are the tokens read, the events
  have grown by a forest with the open markers \<open>ms\<close>, the nesting by \<open>d\<close>, and \<open>b\<close> says that a token was
  consumed. \<open>wp c Q r\<close> says that the result \<open>r\<close> satisfies \<open>Q\<close>, and that it is no panic when \<open>c\<close> holds, which
  stands for the absence of the token \<open>>>\<close>.
\<close>

named_theorems wps \<open>one rule per primitive step\<close>
named_theorems oks \<open>one fact per production\<close>
named_theorems conds \<open>side conditions of the rules\<close>

section \<open>Tokens\<close>

definition tokens_ok :: "utf8_text \<Rightarrow> token list \<Rightarrow> bool" where
  "tokens_ok src toks \<longleftrightarrow>
     (\<exists>ts e. toks = ts @ [e] \<and> token_kind e = EndOfFile
        \<and> token_range e = \<lparr>range_start = length src, range_end = length src\<rparr> \<and> tokens_placed src ts (length src))"

lemma tokens_ok_eof:
  assumes "tokens_ok src toks" and "i < length toks"
  shows "token_kind (toks ! i) = EndOfFile \<longleftrightarrow> i = length toks - 1"
proof -
  from assms(1) obtain ts e where "toks = ts @ [e]" "token_kind e = EndOfFile" "list_all (token_fits src) ts"
    by (auto simp: tokens_ok_def tokens_placed_def)
  with assms(2) show ?thesis
    by (auto simp: nth_append list_all_length token_fits_def less_Suc_eq)
qed

lemma tokens_ok_range:
  assumes "tokens_ok src toks" and "i < length toks"
  shows "range_start (token_range (toks ! i)) \<le> range_end (token_range (toks ! i))"
    and "at_boundary src (range_start (token_range (toks ! i)))"
    and "at_boundary src (range_end (token_range (toks ! i)))"
proof -
  from assms(1) obtain ts e where "toks = ts @ [e]" "token_range e = \<lparr>range_start = length src, range_end = length src\<rparr>"
    "list_all (token_fits src) ts"
    by (auto simp: tokens_ok_def tokens_placed_def)
  with assms(2) show "range_start (token_range (toks ! i)) \<le> range_end (token_range (toks ! i))"
    "at_boundary src (range_start (token_range (toks ! i)))" "at_boundary src (range_end (token_range (toks ! i)))"
    by (auto simp: nth_append list_all_length token_fits_def less_Suc_eq less_imp_le)
qed

lemma tokens_ok_sorted:
  assumes "tokens_ok src toks" and "i < j" and "j < length toks"
  shows "range_end (token_range (toks ! i)) \<le> range_start (token_range (toks ! j))"
proof -
  from assms(1) obtain ts e where *: "toks = ts @ [e]"
    "token_range e = \<lparr>range_start = length src, range_end = length src\<rparr>" "tokens_placed src ts (length src)"
    by (auto simp: tokens_ok_def)
  with assms(2,3) show ?thesis
    by (cases "j = length ts") (auto simp: nth_append tokens_placed_def sorted_wrt_iff_nth_less)
qed

lemma tokens_ok_text:
  assumes "tokens_ok src toks" and "i < length toks"
  shows "\<exists>s. str_get (range_start (token_range (toks ! i))) (range_end (token_range (toks ! i))) src = Some s"
  using tokens_ok_range [OF assms] by (simp add: at_boundary_def str_get_def)

lemma tokens_ok_two:
  assumes "tokens_ok src toks" and "i < length toks"
    and "token_kind (toks ! i) = Punctuation PShiftRight \<or> token_kind (toks ! i) = Punctuation PLogicalAnd"
  shows "range_end (token_range (toks ! i)) = range_start (token_range (toks ! i)) + 2"
proof -
  from assms(1) obtain ts e where "toks = ts @ [e]" "token_kind e = EndOfFile" "list_all (token_fits src) ts"
    by (auto simp: tokens_ok_def tokens_placed_def)
  with assms(2,3) have fits: "token_fits src (toks ! i)"
    by (auto simp: nth_append list_all_length less_Suc_eq split: if_splits)
  let ?r = "token_range (toks ! i)"
  from fits assms(3) have "length (spelling src ?r) = 2" "range_start ?r < range_end ?r" "range_end ?r \<le> length src"
    by (auto simp: token_fits_def at_boundary_def)
  then show ?thesis by (simp add: spelling_def)
qed

section \<open>Leaves\<close>

fun leaves :: "event list \<Rightarrow> syntax_token list" where
  "leaves [] = []"
| "leaves (TokenEvent t # es) = t # leaves es"
| "leaves (_ # es) = leaves es"

lemma leaves_append [simp]: "leaves (es @ es') = leaves es @ leaves es'"
  by (induction es rule: leaves.induct) auto

lemma leaves_start [simp]: "E ! m = StartEvent k o1 f \<Longrightarrow> m < length E \<Longrightarrow> leaves (E[m := StartEvent k' o2 f']) = leaves E"
proof (induction E arbitrary: m)
  case (Cons e E)
  then show ?case by (cases m; cases e) auto
qed simp

definition whole :: "token list \<Rightarrow> nat \<Rightarrow> syntax_token" where
  "whole toks i = \<lparr>lexical = i, syntax_kind = token_kind (toks ! i), syntax_range = token_range (toks ! i)\<rparr>"

text \<open>The two halves of a subdivided token.\<close>

definition halves :: "token list \<Rightarrow> nat \<Rightarrow> syntax_token \<Rightarrow> syntax_token \<Rightarrow> bool" where
  "halves toks i l r \<longleftrightarrow> i < length toks \<and> lexical l = i \<and> lexical r = i
     \<and> range_start (syntax_range l) = range_start (token_range (toks ! i))
     \<and> range_end (syntax_range l) = range_start (token_range (toks ! i)) + 1
     \<and> range_start (syntax_range r) = range_start (token_range (toks ! i)) + 1
     \<and> range_end (syntax_range r) = range_end (token_range (toks ! i))
     \<and> range_end (token_range (toks ! i)) = range_start (token_range (toks ! i)) + 2
     \<and> (token_kind (toks ! i) = Punctuation PShiftRight \<and> syntax_kind l = Punctuation PGreater
          \<and> syntax_kind r = Punctuation PGreater
        \<or> token_kind (toks ! i) = Punctuation PLogicalAnd \<and> syntax_kind l = Punctuation PAmpersand
          \<and> syntax_kind r = Punctuation PAmpersand)"

text \<open>
  \<open>covers toks i ts n\<close>: the syntax tokens \<open>ts\<close> are the lexical tokens from \<open>i\<close> up to \<open>n\<close>, each whole or in two halves.
\<close>

fun covers :: "token list \<Rightarrow> nat \<Rightarrow> syntax_token list \<Rightarrow> nat \<Rightarrow> bool" where
  "covers toks i [] n \<longleftrightarrow> i = n"
| "covers toks i [t] n \<longleftrightarrow> i < length toks \<and> t = whole toks i \<and> i + 1 = n"
| "covers toks i (t # t' # ts) n \<longleftrightarrow>
     i < length toks \<and> t = whole toks i \<and> covers toks (i + 1) (t' # ts) n
     \<or> halves toks i t t' \<and> covers toks (i + 1) ts n"

lemma covers_append: "covers toks i ts m \<Longrightarrow> covers toks m ts' n \<Longrightarrow> covers toks i (ts @ ts') n"
proof (induction toks i ts m rule: covers.induct)
  case (2 toks i t n')
  then show ?case by (cases ts') auto
qed auto

section \<open>Parser states\<close>

definition read_tokens :: "parser \<Rightarrow> bool" where
  "read_tokens p \<longleftrightarrow>
     (case par_split p of
        None \<Rightarrow> covers (source_tokens p) 0 (leaves (par_events p)) (par_cursor p)
      | Some r \<Rightarrow> \<exists>ts l. leaves (par_events p) = ts @ [l] \<and> covers (source_tokens p) 0 ts (par_cursor p)
          \<and> halves (source_tokens p) (par_cursor p) l r)"

definition ok :: "bool \<Rightarrow> parser \<Rightarrow> bool" where
  "ok c p \<longleftrightarrow> tokens_ok (source_text p) (source_tokens p) \<and> par_cursor p < length (source_tokens p) \<and> read_tokens p
     \<and> (\<forall>t. par_split p = Some t \<longrightarrow> syntax_kind t = Punctuation PGreater)
     \<and> (c \<longrightarrow> (\<forall>t \<in> set (source_tokens p). token_kind t \<noteq> Punctuation PShiftRight))"

definition pos :: "parser \<Rightarrow> nat" where
  "pos p = (case current_span p of None \<Rightarrow> 0 | Some s \<Rightarrow> range_start s)"

definition remaining :: "parser \<Rightarrow> nat" where
  "remaining p = 2 * (length (source_tokens p) - par_cursor p) - (if par_split p = None then 0 else 1)"

definition st :: "bool \<Rightarrow> bool \<Rightarrow> parser \<Rightarrow> nat list \<Rightarrow> nat \<Rightarrow> parser \<Rightarrow> bool" where
  "st c b p ms d q \<longleftrightarrow> ok c q \<and> source_text q = source_text p \<and> source_tokens q = source_tokens p
     \<and> par_nesting q = par_nesting p + d \<and> (\<exists>ds. par_diagnostics q = par_diagnostics p @ ds)
     \<and> extends (par_events p) (pos p) ms (par_events q) (pos q) \<and> remaining q + (if b then 1 else 0) \<le> remaining p"

definition last_at :: "parser \<Rightarrow> nat list \<Rightarrow> nat \<Rightarrow> parser \<Rightarrow> bool" where
  "last_at p ms m q \<longleftrightarrow> completed_at (par_events p) (pos p) ms (par_events q) (pos q) m"

definition wp :: "bool \<Rightarrow> ('a \<Rightarrow> bool) \<Rightarrow> 'a option \<Rightarrow> bool" where
  "wp c Q r = (case r of None \<Rightarrow> \<not> c | Some x \<Rightarrow> Q x)"

text \<open>The contract of a production without and with a marker.\<close>

definition steps :: "bool \<Rightarrow> parser \<Rightarrow> parser option \<Rightarrow> bool" where
  "steps c p r \<longleftrightarrow> wp c (st c False p [] 0) r"

definition yields :: "bool \<Rightarrow> parser \<Rightarrow> (nat \<times> parser) option \<Rightarrow> bool" where
  "yields c p r \<longleftrightarrow> wp c (\<lambda>(m, q). st c False p [] 0 q \<and> last_at p [] m q) r"

definition same_place :: "parser \<Rightarrow> parser \<Rightarrow> bool" where
  "same_place p q \<longleftrightarrow> source_text q = source_text p \<and> source_tokens q = source_tokens p \<and> par_cursor q = par_cursor p
     \<and> par_split q = par_split p"

lemma same_place_simps:
  assumes "same_place p q"
  shows "current_kind q = current_kind p" "at_kind k q = at_kind k p" "at_contextual s q = at_contextual s p"
    "current_span q = current_span p" "pos q = pos p" "remaining q = remaining p" "current_text q = current_text p"
    "contextual_at i s q = contextual_at i s p" "kind_at q i = kind_at p i" "token_kind_at q i = token_kind_at p i"
    "nth_kind j q = nth_kind j p" "par_cursor q = par_cursor p" "par_split q = par_split p"
    "source_text q = source_text p" "source_tokens q = source_tokens p"
  using assms
  by (auto simp: same_place_def current_kind_def at_kind_def at_contextual_def contextual_at_def current_span_def
      pos_def remaining_def current_text_def kind_at_def token_kind_at_def nth_kind_def Let_def
      split: option.splits)

lemma same_place_refl [simp]: "same_place p p"
  by (simp add: same_place_def)

lemma same_place_sym: "same_place p q \<Longrightarrow> same_place q p"
  by (simp add: same_place_def)

lemma st_ok: "st c b p ms d q \<Longrightarrow> ok c q"
  by (simp add: st_def)

lemma st_weaken: "st c b p ms d q \<Longrightarrow> st c False p ms d q"
  by (auto simp: st_def split: if_splits)

lemma st_refl: "ok c p \<Longrightarrow> st c False p [] 0 p"
  by (simp add: st_def extends_refl)

lemma st_le: "st c b p ms d q \<Longrightarrow> remaining p \<le> R \<Longrightarrow> remaining q \<le> R"
  by (auto simp: st_def split: if_splits)

lemma st_less: "st c True p ms d q \<Longrightarrow> remaining p \<le> R \<Longrightarrow> remaining q < R"
  by (auto simp: st_def)

lemma st_less': "st c b p ms d q \<Longrightarrow> remaining p < R \<Longrightarrow> remaining q < R"
  by (auto simp: st_def split: if_splits)

text \<open>Composing a production with the steps before it.\<close>

lemma st_trans:
  assumes "st c b' q [] 0 q'" and "st c b p ms d q"
  shows "st c (b \<or> b') p ms d q'"
  using assms unfolding st_def
  by (auto split: if_splits intro: extends_trans)

lemma last_trans:
  assumes "last_at q [] m q'" and "st c b p ms d q"
  shows "last_at p ms m q'"
  using assms unfolding last_at_def st_def by (auto intro: completed_trans)

section \<open>Facts of a valid state\<close>

lemma ok_span:
  assumes "ok c p"
  obtains s where "current_span p = Some s" and "range_start s = pos p" and "pos p \<le> range_end s"
    and "pos p \<le> length (source_text p)"
proof -
  let ?i = "par_cursor p" and ?toks = "source_tokens p"
  from assms have toks: "tokens_ok (source_text p) ?toks" "?i < length ?toks" and read: "read_tokens p"
    by (auto simp: ok_def)
  note range = tokens_ok_range [OF toks]
  show thesis
  proof (cases "par_split p")
    case None
    with toks range that show ?thesis by (auto simp: current_span_def pos_def at_boundary_def)
  next
    case (Some t)
    with read have "range_start (syntax_range t) \<le> range_end (syntax_range t)"
      "range_end (syntax_range t) = range_end (token_range (?toks ! ?i))"
      by (auto simp: read_tokens_def halves_def)
    with Some range that show ?thesis by (auto simp: current_span_def pos_def at_boundary_def)
  qed
qed

lemma ok_contextual:
  assumes "ok c p" and "at_contextual s p"
  shows "current_kind p = Identifier" and "par_split p = None"
proof -
  from assms(2) have i: "par_cursor p < length (source_tokens p)" "token_kind (source_tokens p ! par_cursor p) = Identifier"
    by (auto simp: at_contextual_def contextual_at_def Let_def)
  with assms(1) show none: "par_split p = None"
    by (cases "par_split p") (auto simp: ok_def read_tokens_def halves_def)
  with i show "current_kind p = Identifier" by (simp add: current_kind_def kind_at_def)
qed

lemma ok_identifier:
  assumes "ok c p" and "current_kind p = Identifier"
  obtains t where "current_text p = Some t"
proof -
  from assms have "par_split p = None" by (cases "par_split p") (auto simp: ok_def current_kind_def)
  with assms(1) tokens_ok_text [of "source_text p" "source_tokens p" "par_cursor p"] that show thesis
    by (auto simp: ok_def current_text_def current_span_def)
qed

lemma ok_split:
  assumes "ok c p" and "par_split p \<noteq> None"
  shows "\<not> c" and "current_kind p = Punctuation PGreater"
    and "token_kind (source_tokens p ! par_cursor p) = Punctuation PShiftRight"
proof -
  from assms obtain t l ts where t: "par_split p = Some t" "syntax_kind t = Punctuation PGreater"
    "halves (source_tokens p) (par_cursor p) l t"
    by (auto simp: ok_def read_tokens_def)
  then show "current_kind p = Punctuation PGreater" by (simp add: current_kind_def)
  from t show *: "token_kind (source_tokens p ! par_cursor p) = Punctuation PShiftRight" by (auto simp: halves_def)
  with assms(1) show "\<not> c" by (auto simp: ok_def)
qed

text \<open>Before the end of the file there is another token.\<close>

lemma ok_next:
  assumes "ok c p" and "current_kind p \<noteq> EndOfFile"
  shows "par_cursor p + 1 < length (source_tokens p)"
proof (cases "par_split p")
  case None
  with assms tokens_ok_eof [of "source_text p" "source_tokens p" "par_cursor p"] show ?thesis
    by (auto simp: ok_def current_kind_def kind_at_def)
next
  case (Some t)
  with ok_split(3) [OF assms(1)] assms(1) tokens_ok_eof [of "source_text p" "source_tokens p" "par_cursor p"] show ?thesis
    by (auto simp: ok_def)
qed

section \<open>Structural rules\<close>

lemma wp_SomeI: "Q x \<Longrightarrow> wp c Q (Some x)"
  by (simp add: wp_def)

lemma wp_bind:
  "wp c P r \<Longrightarrow> (\<And>x. P x \<Longrightarrow> wp c Q (f x)) \<Longrightarrow> wp c Q (Option.bind r f)"
  by (cases r) (auto simp: wp_def)

lemma wp_mono: "wp c P r \<Longrightarrow> (\<And>x. P x \<Longrightarrow> Q x) \<Longrightarrow> wp c Q r"
  by (cases r) (auto simp: wp_def)

lemma wp_bind_Some: "wp c Q (f x) \<Longrightarrow> wp c Q (Option.bind (Some x) f)"
  by simp

lemma wp_bind_bind: "wp c Q (Option.bind r (\<lambda>x. Option.bind (f x) g)) \<Longrightarrow> wp c Q (Option.bind (Option.bind r f) g)"
  by (cases r) auto

lemma wp_bind_map: "wp c Q (Option.bind r (\<lambda>x. g (f x))) \<Longrightarrow> wp c Q (Option.bind (map_option f r) g)"
  by (cases r) auto

lemma wp_bind_prod: "wp c Q (Option.bind (f x y) g) \<Longrightarrow> wp c Q (Option.bind (case (x, y) of (x, y) \<Rightarrow> f x y) g)"
  by simp

lemma wp_prod: "wp c Q (f x y) \<Longrightarrow> wp c Q (case (x, y) of (x, y) \<Rightarrow> f x y)"
  by simp

lemma wp_let: "wp c Q (f x) \<Longrightarrow> wp c Q (Let x f)"
  by simp

lemma wp_bind_let: "wp c Q (Option.bind (f x) g) \<Longrightarrow> wp c Q (Option.bind (Let x f) g)"
  by simp

lemma wp_if: "(b \<Longrightarrow> wp c Q x) \<Longrightarrow> (\<not> b \<Longrightarrow> wp c Q y) \<Longrightarrow> wp c Q (if b then x else y)"
  by simp

lemma wp_if_kind:
  "(current_kind q = k \<Longrightarrow> wp c Q x) \<Longrightarrow> (current_kind q \<noteq> k \<Longrightarrow> wp c Q y) \<Longrightarrow> wp c Q (if at_kind k q then x else y)"
  by (simp add: at_kind_def)

lemma wp_if_contextual:
  assumes "st c b p ms d q" and "current_kind q = Identifier \<Longrightarrow> at_contextual s q \<Longrightarrow> wp c Q x"
    and "\<not> at_contextual s q \<Longrightarrow> wp c Q y"
  shows "wp c Q (if at_contextual s q then x else y)"
  using assms ok_contextual(1) [OF st_ok [OF assms(1)]] by auto

lemma wp_bind_if: "(b \<Longrightarrow> wp c Q (Option.bind x g)) \<Longrightarrow> (\<not> b \<Longrightarrow> wp c Q (Option.bind y g))
    \<Longrightarrow> wp c Q (Option.bind (if b then x else y) g)"
  by simp

lemma wp_bind_if_kind:
  "(current_kind q = k \<Longrightarrow> wp c Q (Option.bind x g)) \<Longrightarrow> (current_kind q \<noteq> k \<Longrightarrow> wp c Q (Option.bind y g))
    \<Longrightarrow> wp c Q (Option.bind (if at_kind k q then x else y) g)"
  by (simp add: at_kind_def)

lemma wp_bind_if_contextual:
  assumes "st c b p ms d q" and "current_kind q = Identifier \<Longrightarrow> at_contextual s q \<Longrightarrow> wp c Q (Option.bind x g)"
    and "\<not> at_contextual s q \<Longrightarrow> wp c Q (Option.bind y g)"
  shows "wp c Q (Option.bind (if at_contextual s q then x else y) g)"
  using assms ok_contextual(1) [OF st_ok [OF assms(1)]] by auto

text \<open>Entering and leaving the proof of a contract.\<close>

lemma steps_enter:
  "ok c p \<Longrightarrow> (st c False p [] 0 p \<Longrightarrow> wp c (st c False p [] 0) (Option.bind r Some)) \<Longrightarrow> steps c p r"
  by (simp add: steps_def st_refl)

lemma yields_enter:
  "ok c p \<Longrightarrow> (st c False p [] 0 p \<Longrightarrow> wp c (\<lambda>(m, q). st c False p [] 0 q \<and> last_at p [] m q) (Option.bind r Some))
    \<Longrightarrow> yields c p r"
  by (simp add: yields_def st_refl)

lemma wp_done: "st c b p [] 0 q \<Longrightarrow> wp c (st c False p [] 0) (Some q)"
  by (intro wp_SomeI st_weaken)

lemma wp_done_at:
  "st c b p [] 0 q \<Longrightarrow> last_at p [] m q \<Longrightarrow> wp c (\<lambda>(m, q). st c False p [] 0 q \<and> last_at p [] m q) (Some (m, q))"
  by (auto intro!: wp_SomeI intro: st_weaken)

lemma wp_call:
  assumes "steps c q r" and "st c b p ms d q" and "\<And>q'. st c b p ms d q' \<Longrightarrow> wp c Q (g q')"
  shows "wp c Q (Option.bind r g)"
  using assms(1) unfolding steps_def
  by (rule wp_bind) (use assms(2,3) st_trans [of c False] in fastforce)

lemma wp_yield:
  assumes "yields c q r" and "st c b p ms d q"
    and "\<And>m q'. st c b p ms d q' \<Longrightarrow> last_at p ms m q' \<Longrightarrow> wp c Q (g (m, q'))"
  shows "wp c Q (Option.bind r g)"
  using assms(1) unfolding yields_def
proof (rule wp_bind)
  fix x
  assume "case x of (m, q') \<Rightarrow> st c False q [] 0 q' \<and> last_at q [] m q'"
  then obtain m q' where "x = (m, q')" "st c False q [] 0 q'" "last_at q [] m q'" by (cases x) auto
  with assms(3) [of q' m] st_trans [OF this(2) assms(2)] last_trans [OF this(3) assms(2)] show "wp c Q (g x)" by simp
qed

lemma steps_of_yields: "yields c q r \<Longrightarrow> steps c q (map_option snd r)"
  by (cases r) (auto simp: yields_def steps_def wp_def)

section \<open>Markers\<close>

lemma ok_events:
  assumes "ok c p" and "leaves (par_events q) = leaves (par_events p)" and "same_place p q"
  shows "ok c q"
  using assms by (auto simp: ok_def same_place_def read_tokens_def split: option.splits)

lemma start_ok:
  assumes "st c b p ms d q"
  shows "wp c (\<lambda>(m, q'). st c b p (m # ms) d q' \<and> same_place q q') (start q)"
proof -
  from st_ok [OF assms] obtain s where s: "current_span q = Some s" "range_start s = pos q" by (rule ok_span)
  let ?q = "push_event (StartEvent ''error'' (pos q) None) q"
  have same: "same_place q ?q" by (simp add: same_place_def push_event_def)
  have "ok c ?q" by (rule ok_events [OF st_ok [OF assms] _ same]) (simp add: push_event_def)
  moreover have "extends (par_events p) (pos p) (length (par_events q) # ms) (par_events ?q) (pos q)"
    using assms extends_start by (simp add: st_def push_event_def)
  ultimately have "st c b p (length (par_events q) # ms) d ?q"
    using assms same_place_simps [OF same] by (simp add: st_def push_event_def)
  with same s show ?thesis by (simp add: start_def wp_def)
qed

lemma complete_closes:
  assumes "st c b p (m # ms) d q"
  shows "wp c (\<lambda>q'. st c b p ms d q' \<and> last_at p ms m q' \<and> same_place q q') (complete_node m k q)"
proof -
  from assms have "extends (par_events p) (pos p) (m # ms) (par_events q) (pos q)" by (simp add: st_def)
  from extends_complete [OF this, of k] obtain k' offset where
    m: "m < length (par_events q)" "par_events q ! m = StartEvent k' offset None"
    and closed: "completed_at (par_events p) (pos p) ms
      ((par_events q)[m := StartEvent k offset None] @ [FinishEvent]) (pos q) m" by blast
  let ?q = "push_event FinishEvent (q\<lparr>par_events := (par_events q)[m := StartEvent k offset None]\<rparr>)"
  have same: "same_place q ?q" by (simp add: same_place_def push_event_def)
  have "ok c ?q" by (rule ok_events [OF st_ok [OF assms] _ same]) (use m in \<open>simp add: push_event_def\<close>)
  with closed completed_extends [OF closed] assms same_place_simps [OF same]
  have "st c b p ms d ?q" "last_at p ms m ?q" by (simp_all add: st_def last_at_def push_event_def)
  with same m show ?thesis by (simp add: complete_node_def wp_def)
qed

lemma precede_ok:
  assumes "st c b p ms d q" and "last_at p ms m q"
  shows "wp c (\<lambda>(m', q'). st c b p (m' # ms) d q' \<and> same_place q q') (precede m q)"
proof -
  let ?E = "par_events q"
  from completed_precede [OF assms(2) [unfolded last_at_def], of "''error''"] obtain k offset where
    m: "m < length ?E" "?E ! m = StartEvent k offset None"
    and ext: "extends (par_events p) (pos p) (length ?E # ms)
      (?E[m := StartEvent k offset (Some (length ?E - m))] @ [StartEvent ''error'' offset None]) (pos q)" by blast
  let ?q = "push_event (StartEvent ''error'' offset None)
    (q\<lparr>par_events := ?E[m := StartEvent k offset (Some (length ?E - m))]\<rparr>)"
  have same: "same_place q ?q" by (simp add: same_place_def push_event_def)
  have "ok c ?q" by (rule ok_events [OF st_ok [OF assms(1)] _ same]) (use m in \<open>simp add: push_event_def\<close>)
  with ext assms(1) same_place_simps [OF same]
  have "st c b p (length ?E # ms) d ?q" by (simp add: st_def push_event_def)
  with same m show ?thesis by (simp add: precede_def wp_def Let_def)
qed

lemma wp_start [wps]:
  assumes "st c b p ms d q"
    and "\<And>m q'. st c b p (m # ms) d q' \<Longrightarrow> same_place q q' \<Longrightarrow> current_kind q' = current_kind q
      \<Longrightarrow> \<forall>s. at_contextual s q' = at_contextual s q \<Longrightarrow> wp c Q (g (m, q'))"
  shows "wp c Q (Option.bind (start q) g)"
  by (rule wp_bind [OF start_ok [OF assms(1)]]) (auto simp: same_place_simps intro!: assms(2))

lemma wp_complete [wps]:
  assumes "st c b p (m # ms) d q"
    and "\<And>q'. st c b p ms d q' \<Longrightarrow> last_at p ms m q' \<Longrightarrow> current_kind q' = current_kind q
      \<Longrightarrow> \<forall>s. at_contextual s q' = at_contextual s q \<Longrightarrow> wp c Q (g q')"
  shows "wp c Q (Option.bind (complete_node m k q) g)"
  by (rule wp_bind [OF complete_closes [OF assms(1)]]) (auto simp: same_place_simps intro!: assms(2))

lemma wp_node [wps]:
  assumes "st c b p (m # ms) d q"
    and "\<And>q'. st c b p ms d q' \<Longrightarrow> last_at p ms m q' \<Longrightarrow> current_kind q' = current_kind q
      \<Longrightarrow> \<forall>s. at_contextual s q' = at_contextual s q \<Longrightarrow> wp c Q (g (m, q'))"
  shows "wp c Q (Option.bind (node m k q) g)"
  unfolding node_def by (rule wp_bind_map, rule wp_complete [OF assms])

lemma wp_precede [wps]:
  assumes "st c b p ms d q" and "last_at p ms m q"
    and "\<And>m' q'. st c b p (m' # ms) d q' \<Longrightarrow> same_place q q' \<Longrightarrow> current_kind q' = current_kind q
      \<Longrightarrow> \<forall>s. at_contextual s q' = at_contextual s q \<Longrightarrow> wp c Q (g (m', q'))"
  shows "wp c Q (Option.bind (precede m q) g)"
  by (rule wp_bind [OF precede_ok [OF assms(1,2)]]) (auto simp: same_place_simps intro!: assms(3))

section \<open>Consuming and reporting\<close>

lemma last_keep: "last_at p ms m q \<Longrightarrow> st c b q [] 0 q' \<Longrightarrow> last_at p ms m q'"
  by (auto simp: last_at_def st_def elim!: extends_nilE intro: completed_append)

text \<open>A step from a state to itself that only reports.\<close>

lemma st_report:
  assumes "ok c q" and "same_place q q'" and "extends (par_events q) (pos q) [] (par_events q') (pos q)"
    and "leaves (par_events q') = leaves (par_events q)" and "par_nesting q' = par_nesting q"
    and "\<exists>ds. par_diagnostics q' = par_diagnostics q @ ds"
  shows "st c False q [] 0 q'"
  using assms ok_events [OF assms(1,4,2)] same_place_simps [OF assms(2)] by (simp add: st_def)

lemma whole_bump:
  assumes "ok c q" and "current_kind q \<noteq> EndOfFile"
  shows "wp c (st c True q [] 0) (bump q)"
proof -
  let ?i = "par_cursor q" and ?toks = "source_tokens q"
  from assms(1) have toks: "tokens_ok (source_text q) ?toks" "?i < length ?toks" and read: "read_tokens q"
    and calm: "c \<longrightarrow> (\<forall>t \<in> set ?toks. token_kind t \<noteq> Punctuation PShiftRight)"
    by (auto simp: ok_def)
  note succ = ok_next [OF assms]
  have sorted: "range_end (token_range (?toks ! ?i)) \<le> range_start (token_range (?toks ! (?i + 1)))"
    by (rule tokens_ok_sorted [OF toks(1)]) (use succ in auto)
  define t where "t = (case par_split q of None \<Rightarrow> whole ?toks ?i | Some t \<Rightarrow> t)"
  let ?q = "push_event (TokenEvent t) (q\<lparr>par_split := None, par_cursor := ?i + 1\<rparr>)"
  have step: "bump q = Some ?q"
  proof (cases "par_split q")
    case None
    with assms(2) toks(2) show ?thesis
      by (simp add: bump_def Let_def t_def whole_def current_kind_def kind_at_def push_event_def)
  qed (simp add: bump_def t_def)
  have cover: "covers ?toks 0 (leaves (par_events q) @ [t]) (?i + 1)"
  proof (cases "par_split q")
    case None
    with read have "covers ?toks 0 (leaves (par_events q)) ?i" by (simp add: read_tokens_def)
    moreover have "covers ?toks ?i [t] (?i + 1)" using None toks(2) by (simp add: t_def)
    ultimately show ?thesis by (rule covers_append)
  next
    case (Some r)
    with read obtain ts l where l: "leaves (par_events q) = ts @ [l]" "covers ?toks 0 ts ?i" "halves ?toks ?i l r"
      by (auto simp: read_tokens_def)
    then have "covers ?toks ?i [l, t] (?i + 1)" using Some by (simp add: t_def)
    from covers_append [OF l(2) this] l(1) show ?thesis by simp
  qed
  from ok_span [OF assms(1)] obtain s where s: "current_span q = Some s" "range_start s = pos q" "pos q \<le> range_end s" .
  have t: "range_start (syntax_range t) = pos q" "pos q \<le> range_end (syntax_range t)"
    "range_end (syntax_range t) = range_end (token_range (?toks ! ?i))"
    using s toks(2) read
    by (auto simp: t_def current_span_def whole_def read_tokens_def halves_def split: option.splits)
  have pos: "pos ?q = range_start (token_range (?toks ! (?i + 1)))"
    using succ by (simp add: pos_def current_span_def push_event_def)
  have "extends (par_events q) (pos q) [] (par_events ?q) (pos ?q)"
    unfolding pos using extends_token [OF extends_refl, of "pos q" t "range_start (token_range (?toks ! (?i + 1)))"] t sorted
    by (simp add: push_event_def)
  moreover have "remaining ?q < remaining q"
    using toks(2) by (auto simp: remaining_def push_event_def)
  moreover have "ok c ?q"
    using cover toks(1) succ calm by (simp add: ok_def read_tokens_def push_event_def)
  ultimately show ?thesis unfolding step by (simp add: wp_def st_def push_event_def)
qed

lemma wp_move:
  assumes "wp c (st c b' q [] 0) r" and "st c b p ms d q" and "\<And>q'. st c (b \<or> b') p ms d q' \<Longrightarrow> wp c Q (g q')"
  shows "wp c Q (Option.bind r g)"
  using assms(1) by (rule wp_bind) (use assms(2,3) st_trans in blast)

lemma wp_bump [wps]:
  assumes "st c b p ms d q" and "current_kind q \<noteq> EndOfFile" and "\<And>q'. st c True p ms d q' \<Longrightarrow> wp c Q (g q')"
  shows "wp c Q (Option.bind (bump q) g)"
  by (rule wp_move [OF whole_bump [OF st_ok [OF assms(1)] assms(2)] assms(1)]) (use assms(3) in simp)

lemma report_missing_ok:
  assumes "ok c q"
  shows "wp c (\<lambda>q'. st c False q [] 0 q' \<and> same_place q q') (report_missing e q)"
proof -
  from ok_span [OF assms] obtain s where s: "current_span q = Some s" "range_start s = pos q"
    "pos q \<le> length (source_text q)" by metis
  let ?q = "report (Expected e) (range_empty (pos q))
    (push_event (MissingEvent \<lparr>missing_expected = e, missing_range = range_empty (pos q)\<rparr>) q)"
  have same: "same_place q ?q" by (simp add: same_place_def push_event_def report_def)
  have "st c False q [] 0 ?q"
    using extends_missing [OF extends_refl, of "par_events q" "pos q" e]
    by (intro st_report [OF assms same]) (simp_all add: push_event_def report_def)
  with same s show ?thesis by (simp add: report_missing_def empty_current_span_def wp_def)
qed

lemma report_missing_steps [oks]: "ok c q \<Longrightarrow> steps c q (report_missing e q)"
  unfolding steps_def by (rule wp_mono [OF report_missing_ok]) auto

lemma diagnostic_ok:
  assumes "ok c q"
  shows "wp c (\<lambda>q'. st c False q [] 0 q' \<and> same_place q q') (diagnostic k q)"
proof -
  from ok_span [OF assms] obtain s where s: "current_span q = Some s" by metis
  have same: "same_place q (report k s q)" by (simp add: same_place_def report_def)
  have "st c False q [] 0 (report k s q)"
    using extends_refl by (intro st_report [OF assms same]) (simp_all add: report_def)
  with same s show ?thesis by (simp add: diagnostic_def wp_def)
qed

lemma wp_diagnostic [wps]:
  assumes "st c b p ms d q"
    and "\<And>q'. st c b p ms d q' \<Longrightarrow> same_place q q' \<Longrightarrow> current_kind q' = current_kind q
      \<Longrightarrow> \<forall>s. at_contextual s q' = at_contextual s q \<Longrightarrow> wp c Q (g q')"
  shows "wp c Q (Option.bind (diagnostic k q) g)"
  by (rule wp_bind [OF diagnostic_ok [OF st_ok [OF assms(1)]]])
    (use assms(2) st_trans [OF _ assms(1)] in \<open>fastforce simp: same_place_simps\<close>)

lemma wp_missing [wps]:
  assumes "st c b p ms d q"
    and "\<And>q'. st c b p ms d q' \<Longrightarrow> same_place q q' \<Longrightarrow> current_kind q' = current_kind q
      \<Longrightarrow> \<forall>s. at_contextual s q' = at_contextual s q \<Longrightarrow> wp c Q (g q')"
  shows "wp c Q (Option.bind (report_missing e q) g)"
  by (rule wp_bind [OF report_missing_ok [OF st_ok [OF assms(1)]]])
    (use assms(2) st_trans [OF _ assms(1)] in \<open>fastforce simp: same_place_simps\<close>)

end
