(* ===== verification/Parser_Rules.thy ===== *)
theory Parser_Rules
  imports Parser_Steps
begin

text \<open>
  One rule per primitive of \<open>parser/mod.rs\<close> and \<open>parser/newline.rs\<close>, and the contracts of the higher-order list
  parsers under the contract of their elements. The bundle \<open>walk\<close> holds the structural rules.
\<close>

section \<open>Structure\<close>

lemma wp_if_True: "wp c Q x \<Longrightarrow> wp c Q (if True then x else y)"
  and wp_if_False: "wp c Q y \<Longrightarrow> wp c Q (if False then x else y)"
  and wp_bind_if_True: "wp c Q (Option.bind x g) \<Longrightarrow> wp c Q (Option.bind (if True then x else y) g)"
  and wp_bind_if_False: "wp c Q (Option.bind y g) \<Longrightarrow> wp c Q (Option.bind (if False then x else y) g)"
  by simp_all

text \<open>A branch that may leave the parser as it is meets the other branch again.\<close>

lemma wp_join:
  assumes "st c b p ms d q" and "B \<Longrightarrow> wp c (st c b p ms d) (Option.bind x Some)"
    and "\<And>q'. st c b p ms d q' \<Longrightarrow> wp c Q (g q')"
  shows "wp c Q (Option.bind (if B then x else Some q) g)"
  by (rule wp_bind [where P = "st c b p ms d"]) (use assms in \<open>auto intro: wp_SomeI\<close>)

lemma wp_meet:
  assumes "st c b' p ms d q" and "b \<Longrightarrow> b'"
  shows "wp c (st c b p ms d) (Some q)"
  using assms by (auto simp: wp_def st_def split: if_splits)

text \<open>Two branches meet.\<close>

lemma wp_join_both:
  assumes "st c b p ms d q" and "B \<Longrightarrow> wp c (st c b p ms d) (Option.bind x Some)"
    and "\<not> B \<Longrightarrow> wp c (st c b p ms d) (Option.bind y Some)"
    and "\<And>q'. st c b p ms d q' \<Longrightarrow> wp c Q (g q')"
  shows "wp c Q (Option.bind (if B then x else y) g)"
  by (rule wp_bind [where P = "st c b p ms d"]) (use assms in auto)

lemmas walk = wp_bind_bind wp_bind_Some wp_bind_map wp_bind_prod wp_prod wp_let wp_bind_let
  wp_if_True wp_if_False wp_bind_if_True wp_bind_if_False wp_if_kind wp_bind_if_kind wp_if wp_bind_if

text \<open>\<open>keeps q q'\<close>: the last completed node before \<open>q\<close> is the last one before \<open>q'\<close>.\<close>

definition keeps :: "parser \<Rightarrow> parser \<Rightarrow> bool" where
  "keeps q q' \<longleftrightarrow> (\<forall>p ms m. last_at p ms m q \<longrightarrow> last_at p ms m q')"

lemma keepsI: "st c b q [] 0 q' \<Longrightarrow> keeps q q'"
  by (auto simp: keeps_def intro: last_keep)

lemma keepsD: "keeps q q' \<Longrightarrow> last_at p ms m q \<Longrightarrow> last_at p ms m q'"
  by (simp add: keeps_def)

lemma keeps_refl [simp]: "keeps q q"
  by (simp add: keeps_def)

section \<open>Eating\<close>

lemma wp_eat [wps]:
  assumes "st c b p ms d q" and "k \<noteq> EndOfFile"
    and "\<And>q'. current_kind q = k \<Longrightarrow> st c True p ms d q' \<Longrightarrow> keeps q q' \<Longrightarrow> wp c Q (g (True, q'))"
    and "current_kind q \<noteq> k \<Longrightarrow> wp c Q (g (False, q))"
  shows "wp c Q (Option.bind (eat k q) g)"
proof (cases "current_kind q = k")
  case True
  with assms(2) have "wp c (st c True q [] 0) (bump q)" by (intro whole_bump st_ok [OF assms(1)]) simp
  then have "wp c Q (Option.bind (bump q) (\<lambda>q'. g (True, q')))"
    by (rule wp_bind) (use st_trans [OF _ assms(1)] keepsI True assms(3) in fastforce)
  with True show ?thesis by (cases "bump q") (simp_all add: eat_def at_kind_def)
qed (use assms in \<open>simp add: eat_def at_kind_def\<close>)

lemma eat_newlines_ok:
  "ok c q \<Longrightarrow> wp c (\<lambda>(n, q'). st c (0 < n) q [] 0 q' \<and> (n = 0 \<longrightarrow> q' = q) \<and> current_kind q' \<noteq> Newline) (eat_newlines q)"
proof (induction "remaining q" arbitrary: q rule: less_induct)
  case less
  show ?case
  proof (cases "current_kind q = Newline")
    case True
    with less.prems have "wp c (st c True q [] 0) (bump q)" by (intro whole_bump) auto
    then have "wp c (\<lambda>(n, q'). st c (0 < n) q [] 0 q' \<and> (n = 0 \<longrightarrow> q' = q) \<and> current_kind q' \<noteq> Newline)
      (Option.bind (bump q) (\<lambda>q. Option.bind (eat_newlines q) (\<lambda>(n, q). Some (n + 1, q))))"
    proof (rule wp_bind)
      fix q' assume q': "st c True q [] 0 q'"
      then have "wp c (\<lambda>(n, q''). st c (0 < n) q' [] 0 q'' \<and> (n = 0 \<longrightarrow> q'' = q') \<and> current_kind q'' \<noteq> Newline)
        (eat_newlines q')"
        by (intro less.hyps) (auto simp: st_def)
      then show "wp c (\<lambda>(n, q'). st c (0 < n) q [] 0 q' \<and> (n = 0 \<longrightarrow> q' = q) \<and> current_kind q' \<noteq> Newline)
        (Option.bind (eat_newlines q') (\<lambda>(n, q). Some (n + 1, q)))"
        by (rule wp_bind) (use st_trans [OF _ q'] in \<open>fastforce intro: wp_SomeI\<close>)
    qed
    with True show ?thesis
      by (subst eat_newlines.simps) (cases "bump q"; simp add: eat_def at_kind_def)
  next
    case False
    with less.prems show ?thesis
      by (subst eat_newlines.simps) (simp add: eat_def at_kind_def wp_def st_refl)
  qed
qed

lemma wp_eat_newlines [wps]:
  assumes "st c b p ms d q"
    and "\<And>n q'. st c b p ms d q' \<Longrightarrow> (0 < n \<Longrightarrow> st c True p ms d q') \<Longrightarrow> (n = 0 \<Longrightarrow> q' = q)
      \<Longrightarrow> current_kind q' \<noteq> Newline \<Longrightarrow> keeps q q' \<Longrightarrow> wp c Q (g (n, q'))"
  shows "wp c Q (Option.bind (eat_newlines q) g)"
proof (rule wp_bind [OF eat_newlines_ok [OF st_ok [OF assms(1)]]])
  fix x :: "nat \<times> parser"
  assume "case x of (n, q') \<Rightarrow> st c (0 < n) q [] 0 q' \<and> (n = 0 \<longrightarrow> q' = q) \<and> current_kind q' \<noteq> Newline"
  then obtain n q' where x: "x = (n, q')" "st c (0 < n) q [] 0 q'" "n = 0 \<longrightarrow> q' = q" "current_kind q' \<noteq> Newline"
    by (cases x) auto
  from st_trans [OF x(2) assms(1)] have "st c b p ms d q'" "0 < n \<Longrightarrow> st c True p ms d q'"
    by (auto simp: st_def split: if_splits)
  with x keepsI [OF x(2)] show "wp c Q (g x)" by (auto intro: assms(2))
qed

section \<open>Expecting\<close>

text \<open>A contract is proved from its walk, and used on a bound result or at the end.\<close>

lemma steps_bump: "ok c q \<Longrightarrow> current_kind q \<noteq> EndOfFile \<Longrightarrow> steps c q (bump q)"
  unfolding steps_def by (rule wp_mono [OF whole_bump]) (auto intro: st_weaken)

lemma expect_ok [oks]: "ok c q \<Longrightarrow> k \<noteq> EndOfFile \<Longrightarrow> steps c q (expect k q)"
  unfolding expect_def by (auto simp: at_kind_def intro!: steps_bump report_missing_steps)

lemma expect_keyword_ok [oks]: "ok c q \<Longrightarrow> steps c q (expect_keyword k q)"
  unfolding expect_keyword_def by (auto simp: at_kind_def intro!: steps_bump report_missing_steps)

lemma expect_punctuation_ok [oks]: "ok c q \<Longrightarrow> steps c q (expect_punctuation k q)"
  unfolding expect_punctuation_def by (auto simp: at_kind_def intro!: steps_bump report_missing_steps)

lemma expect_contextual_ok [oks]: "ok c q \<Longrightarrow> steps c q (expect_contextual s q)"
  unfolding expect_contextual_def using ok_contextual(1) [of c q s]
  by (auto intro!: steps_bump report_missing_steps)

text \<open>Expecting what is known to stand there.\<close>

lemma expect_keyword_at: "current_kind q = Keyword k \<Longrightarrow> expect_keyword k q = bump q"
  by (simp add: expect_keyword_def at_kind_def)

lemma expect_contextual_at: "at_contextual s q \<Longrightarrow> expect_contextual s q = bump q"
  by (simp add: expect_contextual_def)

lemma wp_error_token [wps]:
  assumes "st c b p ms d q"
    and "\<And>q'. st c (b \<or> current_kind q \<noteq> EndOfFile) p ms d q' \<Longrightarrow> st c b p ms d q'
      \<Longrightarrow> (current_kind q \<noteq> EndOfFile \<Longrightarrow> st c True p ms d q') \<Longrightarrow> (current_kind q = EndOfFile \<Longrightarrow> current_kind q' = EndOfFile)
      \<Longrightarrow> wp c Q (g q')"
  shows "wp c Q (Option.bind (error_token e q) g)"
proof (cases "current_kind q = EndOfFile")
  case True
  then have "error_token e q = report_missing e q" by (simp add: error_token_def at_kind_def)
  with assms True show ?thesis by (auto intro!: wp_missing [OF assms(1)])
next
  case False
  have "wp c Q (Option.bind (Option.bind (diagnostic (Expected e) q)
    (\<lambda>q. Option.bind (start q) (\<lambda>(m, q). Option.bind (bump q) (\<lambda>q. complete_node m ''error'' q)))) g)"
    apply (rule wp_bind_bind, rule wp_diagnostic [OF assms(1)])
    apply (rule wp_bind_bind, rule wp_start, assumption)
    apply (rule wp_bind_prod, rule wp_bind_bind, rule wp_bump, assumption)
    using False apply simp
    apply (rule wp_complete, assumption)
    using False by (auto intro!: assms(2) intro: st_weaken simp: st_def)
  with False show ?thesis by (simp add: error_token_def at_kind_def)
qed


lemma error_token_steps [oks]: "ok c q \<Longrightarrow> steps c q (error_token e q)"
  by (rule steps_enter, assumption) (rule wp_error_token, assumption, rule wp_done)

lemma expect_name_ok [oks]:
  assumes "ok c q"
  shows "steps c q (expect_name q)"
proof (cases "current_kind q = Identifier")
  case True
  with ok_identifier [OF assms] obtain t where "current_text q = Some t" by blast
  with True assms show ?thesis
    by (auto simp: expect_name_def at_kind_def intro: steps_bump error_token_steps)
qed (use assms in \<open>simp add: expect_name_def at_kind_def report_missing_steps\<close>)

lemma expect_name_or_discard_ok [oks]: "ok c q \<Longrightarrow> steps c q (expect_name_or_discard q)"
  unfolding expect_name_or_discard_def using ok_contextual(1) [of c q CtxDiscard]
  by (auto intro!: steps_bump expect_name_ok)

lemma expect_identifier_text_ok [oks]:
  assumes "ok c q"
  shows "steps c q (expect_identifier_text t q)"
proof (cases "current_kind q = Identifier")
  case True
  with ok_identifier [OF assms] obtain t where "current_text q = Some t" by blast
  with True assms show ?thesis
    by (auto simp: expect_identifier_text_def at_kind_def intro: steps_bump report_missing_steps)
qed (use assms in \<open>simp add: expect_identifier_text_def at_kind_def report_missing_steps\<close>)

section \<open>Looking ahead\<close>

lemma wp_nth [wps]:
  assumes "st c b p ms d q" and "par_split q = None \<Longrightarrow> wp c Q (g (kind_at q (par_cursor q + i)))"
  shows "wp c Q (Option.bind (nth_kind i q) g)"
proof (cases "par_split q")
  case (Some t)
  with ok_split(1) [OF st_ok [OF assms(1)]] show ?thesis by (simp add: nth_kind_def wp_def)
qed (use assms in \<open>simp add: nth_kind_def\<close>)

lemma wp_newline_count [wps]:
  assumes "st c b p ms d q" and "\<And>n. wp c Q (g n)"
  shows "wp c Q (Option.bind (newline_count q) g)"
proof (cases "par_split q")
  case (Some t)
  with ok_split(1) [OF st_ok [OF assms(1)]] show ?thesis by (simp add: newline_count_def wp_def)
qed (use assms in \<open>simp add: newline_count_def\<close>)

lemma wp_current_text [wps]:
  assumes "st c b p ms d q" and "current_kind q \<noteq> Punctuation PGreater" and "\<And>t. wp c Q (g t)"
  shows "wp c Q (Option.bind (current_text q) g)"
proof -
  from ok_split(2) [OF st_ok [OF assms(1)]] assms(2) have "par_split q = None" by (cases "par_split q") auto
  with st_ok [OF assms(1)] tokens_ok_text [of "source_text q" "source_tokens q" "par_cursor q"]
  obtain t where "current_text q = Some t" by (auto simp: ok_def current_text_def current_span_def)
  with assms(3) show ?thesis by simp
qed

lemma wp_token_kind_at [wps]:
  assumes "st c b p ms d q" and "i < length (source_tokens q)" and "wp c Q (g (kind_at q i))"
  shows "wp c Q (Option.bind (token_kind_at q i) g)"
  using assms by (simp add: token_kind_at_def kind_at_def)

lemma cursor_in_range: "st c b p ms d q \<Longrightarrow> par_cursor q < length (source_tokens q)"
  by (drule st_ok) (simp add: ok_def)

lemma after_in_range:
  assumes "st c b p ms d q" and "i < length (source_tokens q)" and "kind_at q i \<noteq> EndOfFile"
  shows "i + 1 < length (source_tokens q)"
proof -
  from st_ok [OF assms(1)] have "tokens_ok (source_text q) (source_tokens q)" by (simp add: ok_def)
  from tokens_ok_eof [OF this assms(2)] assms(2,3) show ?thesis by (auto simp: kind_at_def)
qed

lemma current_kind_at: "par_split q = None \<Longrightarrow> current_kind q = kind_at q (par_cursor q)"
  by (simp add: current_kind_def)

section \<open>Recovery\<close>

lemma bump_until_ok:
  "ok c q \<Longrightarrow> wp c (\<lambda>q'. st c (current_kind q \<notin> set (EndOfFile # ks)) q [] 0 q') (bump_until ks q)"
proof (induction "remaining q" arbitrary: q rule: less_induct)
  case less
  show ?case
  proof (cases "current_kind q \<in> set (EndOfFile # ks)")
    case True
    with less.prems show ?thesis by (subst bump_until.simps) (auto simp: at_kind_def wp_def st_refl)
  next
    case False
    with less.prems have "wp c (st c True q [] 0) (bump q)" by (intro whole_bump) auto
    then have "wp c (st c True q [] 0) (Option.bind (bump q) (bump_until ks))"
    proof (rule wp_bind)
      fix q' assume q': "st c True q [] 0 q'"
      then have "wp c (st c (current_kind q' \<notin> set (EndOfFile # ks)) q' [] 0) (bump_until ks q')"
        by (intro less.hyps) (auto simp: st_def)
      then show "wp c (st c True q [] 0) (bump_until ks q')"
        by (rule wp_mono) (use st_trans [OF _ q'] in fastforce)
    qed
    with False show ?thesis by (subst bump_until.simps) (simp add: at_kind_def)
  qed
qed

lemma wp_strict:
  assumes "wp c (st c b' q [] 0) r" and "st c b p ms d q"
    and "\<And>q'. st c b p ms d q' \<Longrightarrow> (b' \<Longrightarrow> st c True p ms d q') \<Longrightarrow> wp c Q (g q')"
  shows "wp c Q (Option.bind r g)"
  using assms(1)
proof (rule wp_bind)
  fix q' assume "st c b' q [] 0 q'"
  from st_trans [OF this assms(2)] show "wp c Q (g q')"
    by (intro assms(3)) (auto simp: st_def split: if_splits)
qed

lemma recover_until_ok:
  assumes "ok c q"
  shows "wp c (st c (current_kind q \<notin> set (EndOfFile # ks)) q [] 0) (recover_until ks q)"
proof (cases "current_kind q \<in> set (EndOfFile # ks)")
  case True
  with assms show ?thesis by (auto simp: recover_until_def at_kind_def wp_def st_refl)
next
  case False
  have "wp c (st c True q [] 0) (Option.bind (start q) (\<lambda>(m, q).
    Option.bind (bump_until ks q) (\<lambda>q. Option.bind (complete_node m ''error'' q) Some)))"
    apply (rule wp_start [OF st_refl [OF assms]], rule wp_prod)
    apply (rule wp_move, rule bump_until_ok, erule st_ok, assumption)
    apply (rule wp_complete, assumption, rule wp_meet, assumption)
    using False by simp
  with False show ?thesis by (simp add: recover_until_def at_kind_def)
qed

lemma wp_recover_until [wps]:
  assumes "st c b p ms d q"
    and "\<And>q'. st c b p ms d q' \<Longrightarrow> (current_kind q \<notin> set (EndOfFile # ks) \<Longrightarrow> st c True p ms d q') \<Longrightarrow> wp c Q (g q')"
  shows "wp c Q (Option.bind (recover_until ks q) g)"
  by (rule wp_strict [OF recover_until_ok [OF st_ok [OF assms(1)]] assms(1)]) (use assms in auto)

lemma require_line_end_ok:
  assumes "ok c q"
  shows "wp c (st c (current_kind q \<noteq> EndOfFile) q [] 0) (require_line_end q)"
proof (cases "current_kind q = EndOfFile")
  case True
  with assms show ?thesis by (auto simp: require_line_end_def at_kind_def wp_def st_refl)
next
  case False
  have "wp c (st c True q [] 0) (Option.bind (eat_newlines q) (\<lambda>(n, q). Option.bind (if 0 < n then Some q
      else Option.bind (report_missing ExpectedNewline q) (\<lambda>q. Option.bind (recover_to_line_end q) (\<lambda>q.
        Option.bind (eat_newlines q) (\<lambda>(_, q). Some q)))) Some))"
    unfolding recover_to_line_end_def
    apply (rule wp_eat_newlines [OF st_refl [OF assms]], rule wp_prod, rule wp_bind_if)
    subgoal by (auto intro: wp_SomeI)
    apply (rule wp_bind_bind, rule wp_missing, assumption)
    apply (rule wp_bind_bind, rule wp_move, rule recover_until_ok, erule st_ok, assumption)
    apply (rule wp_bind_bind, rule wp_eat_newlines, assumption, rule wp_bind_prod, rule wp_bind_Some, rule wp_meet, assumption)
    using False by auto
  with False show ?thesis by (simp add: require_line_end_def at_kind_def)
qed

lemma wp_require_line_end [wps]:
  assumes "st c b p ms d q"
    and "\<And>q'. st c b p ms d q' \<Longrightarrow> (current_kind q \<noteq> EndOfFile \<Longrightarrow> st c True p ms d q') \<Longrightarrow> wp c Q (g q')"
  shows "wp c Q (Option.bind (require_line_end q) g)"
  by (rule wp_strict [OF require_line_end_ok [OF st_ok [OF assms(1)]] assms(1)]) (use assms in auto)

lemma bump_balanced_ok [oks]: "ok c q \<Longrightarrow> steps c q (bump_balanced l r n q)"
proof (induction "remaining q" arbitrary: q n rule: less_induct)
  case less
  show ?case
  proof (cases "n = 0 \<or> current_kind q = EndOfFile")
    case True
    with less.prems show ?thesis
      by (subst bump_balanced.simps) (auto simp: steps_def at_kind_def wp_def st_refl)
  next
    case False
    have "wp c (st c False q [] 0) (Option.bind (bump q) (\<lambda>q'. Option.bind (bump_balanced l r
        (if at_punctuation l q then n + 1 else if at_punctuation r q then n - 1 else n) q') Some))"
      apply (rule wp_bump [OF st_refl [OF less.prems]])
      subgoal using False by simp
      apply (rule wp_call, rule less.hyps, simp add: st_def, erule st_ok, assumption, rule wp_done, assumption)
      done
    with False show ?thesis by (subst bump_balanced.simps) (simp add: steps_def at_kind_def)
  qed
qed

lemma recover_balanced_ok [oks]: "ok c q \<Longrightarrow> steps c q (recover_balanced l r q)"
  unfolding recover_balanced_def
  by (rule steps_enter, assumption)
    (rule walk wps | assumption | rule wp_call, rule oks, erule st_ok | rule wp_done)+

section \<open>Nesting\<close>

lemma wp_enter [wps]:
  assumes "st c b p ms d q"
    and "\<And>q'. st c b p ms (Suc d) q' \<Longrightarrow> same_place q q' \<Longrightarrow> current_kind q' = current_kind q
      \<Longrightarrow> \<forall>s. at_contextual s q' = at_contextual s q \<Longrightarrow> wp c Q (g (True, q'))"
    and "\<And>q'. st c b p ms d q' \<Longrightarrow> wp c Q (g (False, q'))"
  shows "wp c Q (Option.bind (enter_nesting q) g)"
proof (cases "par_nesting q = max_nesting")
  case True
  have "wp c Q (Option.bind (diagnostic NestingLimit q) (\<lambda>q. g (False, q)))"
    by (rule wp_diagnostic [OF assms(1)]) (rule assms(3))
  with True show ?thesis by (cases "diagnostic NestingLimit q") (simp_all add: enter_nesting_def)
next
  case False
  let ?q = "q\<lparr>par_nesting := par_nesting q + 1\<rparr>"
  have same: "same_place q ?q" by (simp add: same_place_def)
  have "st c b p ms (Suc d) ?q"
    using assms(1) ok_events [OF st_ok [OF assms(1)] _ same] same_place_simps [OF same] by (simp add: st_def)
  with assms(2) same same_place_simps [OF same] False show ?thesis by (simp add: enter_nesting_def)
qed

lemma wp_leave [wps]:
  assumes "st c b p ms (Suc d) q"
    and "\<And>q'. st c b p ms d q' \<Longrightarrow> same_place q q' \<Longrightarrow> current_kind q' = current_kind q
      \<Longrightarrow> \<forall>s. at_contextual s q' = at_contextual s q \<Longrightarrow> wp c Q (g q')"
  shows "wp c Q (Option.bind (leave_nesting q) g)"
proof -
  let ?q = "q\<lparr>par_nesting := par_nesting q - 1\<rparr>"
  have same: "same_place q ?q" by (simp add: same_place_def)
  have "st c b p ms d ?q"
    using assms(1) ok_events [OF st_ok [OF assms(1)] _ same] same_place_simps [OF same] by (simp add: st_def)
  moreover have "0 < par_nesting q" using assms(1) by (simp add: st_def)
  ultimately show ?thesis using assms(2) same same_place_simps [OF same] by (simp add: leave_nesting_def)
qed


section \<open>Progress\<close>

lemma st_step: "st c b' q [] 0 q' \<Longrightarrow> st c b p ms d q \<Longrightarrow> st c b p ms d q'"
  and st_step_True: "st c True q [] 0 q' \<Longrightarrow> st c b p ms d q \<Longrightarrow> st c True p ms d q'"
  using st_trans [of c b' q q' b p ms d] st_trans [of c True q q' b p ms d]
  by (auto simp: st_def split: if_splits)

lemma halves_unique: "halves toks i l r \<Longrightarrow> halves toks i l' r' \<Longrightarrow> r = r'"
  by (cases r; cases r'; cases "syntax_range r"; cases "syntax_range r'") (auto simp: halves_def)

lemma ok_halves: "ok c q \<Longrightarrow> par_split q = Some t \<Longrightarrow> \<exists>l. halves (source_tokens q) (par_cursor q) l t"
  by (auto simp: ok_def read_tokens_def)

lemma st_moved:
  assumes "st c b q [] 0 q'" and "ok c q" and "par_cursor q' \<noteq> par_cursor q \<or> par_split q' \<noteq> par_split q"
  shows "st c True q [] 0 q'"
proof -
  let ?n = "length (source_tokens q)"
  from assms(1) have *: "ok c q'" "source_tokens q' = source_tokens q" "remaining q' \<le> remaining q" "ok c q'"
    "par_cursor q' < ?n"
    by (auto simp: st_def ok_def split: if_splits)
  have "remaining q' < remaining q"
  proof (cases "par_cursor q' = par_cursor q")
    case False
    show ?thesis
    proof (cases "par_cursor q < ?n")
      case True
      with False * show ?thesis by (auto simp: remaining_def split: if_splits)
    next
      case False
      with * show ?thesis by (auto simp: remaining_def split: if_splits)
    qed
  next
    case True
    show ?thesis
    proof (cases "par_split q = None \<or> par_split q' = None")
      case True
      with \<open>par_cursor q' = par_cursor q\<close> * assms(3) show ?thesis by (auto simp: remaining_def split: if_splits)
    next
      case False
      then obtain t t' where "par_split q = Some t" "par_split q' = Some t'" by auto
      with ok_halves [OF assms(2)] ok_halves [OF *(1)] True *(2) halves_unique have "par_split q' = par_split q" by metis
      with True assms(3) show ?thesis by simp
    qed
  qed
  with assms(1) show ?thesis by (simp add: st_def)
qed


text \<open>The tail of a step of a list: after an element, at the end of the file or past a token.\<close>

definition moved :: "bool \<Rightarrow> parser \<Rightarrow> parser \<Rightarrow> bool" where
  "moved c q q' \<longleftrightarrow> st c False q [] 0 q' \<and> (current_kind q' = EndOfFile \<or> st c True q [] 0 q')"

lemma moved_st: "moved c q q' \<Longrightarrow> st c False q [] 0 q'"
  by (simp add: moved_def)

lemma moved_less: "moved c q q' \<Longrightarrow> current_kind q' \<noteq> EndOfFile \<Longrightarrow> remaining q' < remaining q"
  by (auto simp: moved_def st_def)

lemma wp_guard:
  assumes "ok c q" and "st c False q [] 0 q'"
    and "\<not> B \<Longrightarrow> par_cursor q' \<noteq> par_cursor q \<or> par_split q' \<noteq> par_split q"
    and "\<And>q''. moved c q q'' \<Longrightarrow> wp c Q (g q'')"
  shows "wp c Q (Option.bind (if B then error_token e q' else Some q') g)"
proof (rule wp_bind_if)
  show "wp c Q (Option.bind (error_token e q') g)"
    by (rule wp_error_token [OF assms(2)], rule assms(4)) (auto simp: moved_def)
  show "wp c Q (Option.bind (Some q') g)" if "\<not> B"
    using assms(2,4) st_moved [OF assms(2,1) assms(3) [OF that]] by (auto simp: moved_def intro: st_weaken)
qed

lemma wp_moved_eat:
  assumes "moved c q q'" and "k \<noteq> EndOfFile" and "\<And>e q''. moved c q q'' \<Longrightarrow> wp c Q (g (e, q''))"
  shows "wp c Q (Option.bind (eat k q') g)"
  by (rule wp_eat [OF moved_st [OF assms(1)] assms(2)])
    (use assms(1,3) in \<open>auto simp: moved_def intro: st_weaken\<close>)

lemma wp_moved_newlines:
  assumes "moved c q q'"
    and "\<And>n q''. moved c q q'' \<Longrightarrow> (0 < n \<Longrightarrow> st c True q [] 0 q'') \<Longrightarrow> current_kind q'' \<noteq> Newline
      \<Longrightarrow> (n = 0 \<Longrightarrow> q'' = q') \<Longrightarrow> wp c Q (g (n, q''))"
  shows "wp c Q (Option.bind (eat_newlines q') g)"
proof (rule wp_eat_newlines [OF moved_st [OF assms(1)]])
  fix n :: nat and q''
  assume *: "st c False q [] 0 q''" "0 < n \<Longrightarrow> st c True q [] 0 q''" "n = 0 \<Longrightarrow> q'' = q'" "current_kind q'' \<noteq> Newline"
  then have "moved c q q''" using assms(1) by (cases "n = 0") (auto simp: moved_def)
  with * show "wp c Q (g (n, q''))" by (intro assms(2))
qed

lemma wp_moved_missing:
  assumes "moved c q q'" and "\<And>q''. moved c q q'' \<Longrightarrow> current_kind q'' = current_kind q' \<Longrightarrow> wp c Q (g q'')"
  shows "wp c Q (Option.bind (report_missing e q') g)"
proof (rule wp_bind [OF report_missing_ok [OF st_ok [OF moved_st [OF assms(1)]]]])
  fix q'' assume q'': "st c False q' [] 0 q'' \<and> same_place q' q''"
  then have "moved c q q''"
    using assms(1) st_step [of c False q' q''] st_step_True [of c q' q''] same_place_simps(1) [of q' q''] st_trans [of c False q' q'' True q]
    by (auto simp: moved_def)
  with q'' show "wp c Q (g q'')" by (auto intro: assms(2) simp: same_place_simps)
qed

section \<open>Lists\<close>

text \<open>The contract of an element from a state on.\<close>

definition elements :: "bool \<Rightarrow> nat \<Rightarrow> (parser \<Rightarrow> parser option) \<Rightarrow> bool" where
  "elements c R f \<longleftrightarrow> (\<forall>q. ok c q \<longrightarrow> remaining q \<le> R \<longrightarrow> steps c q (f q))"

lemma elementsI: "(\<And>q. ok c q \<Longrightarrow> remaining q \<le> R \<Longrightarrow> steps c q (f q)) \<Longrightarrow> elements c R f"
  and elementsD: "elements c R f \<Longrightarrow> ok c q \<Longrightarrow> remaining q \<le> R \<Longrightarrow> steps c q (f q)"
  and elements_le: "elements c R f \<Longrightarrow> R' \<le> R \<Longrightarrow> elements c R' f"
  by (auto simp: elements_def)

lemma comma_loop_ok: "ok c q \<Longrightarrow> elements c (remaining q) f \<Longrightarrow> steps c q (comma_loop close e f q)"
proof (induction "remaining q" arbitrary: q rule: less_induct)
  case less
  have next_ok: "steps c q' (comma_loop close e f q')" if "moved c q q'" "current_kind q' \<noteq> EndOfFile" for q'
    using moved_less [OF that] that less.prems(2)
    by (intro less.hyps) (auto intro: elements_le dest: moved_st st_ok)
  show ?case
    apply (subst comma_loop.simps, rule steps_enter [OF less.prems(1)])
    apply (rule wp_bind_bind, rule wp_call, rule elementsD [OF less.prems(2,1)], rule order_refl, assumption)
    apply (rule wp_bind_bind, rule wp_guard [OF less.prems(1)], assumption, simp)
    apply (rule wp_bind_bind, rule wp_moved_eat, assumption, simp)
    apply (rule wp_bind_prod, rule wp_bind_bind, rule wp_moved_newlines, assumption)
    apply (rule wp_bind_prod, rule wp_bind_if)
     apply (rule wp_bind_Some, rule wp_done, erule moved_st)
    apply (rule wp_bind_if)
     apply (rule wp_call, rule next_ok, assumption, simp add: at_list_end_def at_kind_def, erule moved_st, erule wp_done)
    apply (rule wp_bind_bind, rule wp_moved_missing, assumption)
    apply (rule wp_call, rule next_ok, assumption, simp add: at_list_end_def at_kind_def, erule moved_st, erule wp_done)
    done
qed


lemma comma_list_ok [oks]: "ok c q \<Longrightarrow> elements c (remaining q) f \<Longrightarrow> steps c q (comma_list close b e f q)"
  unfolding comma_list_def
  apply (rule steps_enter, assumption)
  apply (rule wp_bind_bind, rule wp_eat_newlines, assumption)
  apply (rule wp_bind_prod, rule wp_bind_if, rule wp_bind_if)
    apply (rule wp_bind_Some, rule wp_done, assumption)
   apply (rule wp_missing, assumption, rule wp_done, assumption)
  apply (rule wp_call, rule comma_loop_ok, erule st_ok, erule elements_le, erule st_le, simp, assumption, erule wp_done)
  done

lemma type_list_loop_ok:
  "ok c q \<Longrightarrow> \<not> at_type_list_end q \<Longrightarrow> elements c (remaining q) f \<Longrightarrow> steps c q (type_list_loop e f q)"
proof (induction "remaining q" arbitrary: q rule: less_induct)
  case less
  have next_ok: "steps c q' (type_list_loop e f q')" if "moved c q q'" "\<not> at_type_list_end q'" for q'
  proof -
    from that(2) have "current_kind q' \<noteq> EndOfFile" by (simp add: at_type_list_end_def at_kind_def)
    from moved_less [OF that(1) this] that less.prems(3) show ?thesis
      by (intro less.hyps) (auto intro: elements_le dest: moved_st st_ok)
  qed
  have split: "par_split q = None"
    using less.prems(2) ok_split(2) [OF less.prems(1)] by (cases "par_split q") (auto simp: at_type_list_end_def at_kind_def)
  show ?case
    apply (subst type_list_loop.simps, rule steps_enter [OF less.prems(1)])
    apply (rule wp_bind_bind, rule wp_call, rule elementsD [OF less.prems(3,1)], rule order_refl, assumption)
    apply (rule wp_bind_bind, rule wp_guard [OF less.prems(1)], assumption, simp add: split)
    apply (rule wp_bind_bind, rule wp_moved_eat, assumption, simp)
    apply (rule wp_bind_prod, rule wp_bind_bind, rule wp_moved_newlines, assumption)
    apply (rule wp_bind_prod, rule wp_bind_if)
     apply (rule wp_bind_Some, rule wp_done, erule moved_st)
    apply (rule wp_bind_if)
     apply (rule wp_call, rule next_ok, assumption, assumption, erule moved_st, erule wp_done)
    apply (rule wp_bind_bind, rule wp_moved_missing, assumption)
    apply (rule wp_call, rule next_ok, assumption, simp add: at_type_list_end_def at_kind_def, erule moved_st, erule wp_done)
    done
qed

lemma type_delimited_list_ok [oks]:
  "ok c q \<Longrightarrow> elements c (remaining q) f \<Longrightarrow> steps c q (type_delimited_list b e f q)"
  unfolding type_delimited_list_def
  apply (rule steps_enter, assumption)
  apply (rule wp_bind_bind, rule wp_eat_newlines, assumption)
  apply (rule wp_bind_prod, rule wp_bind_if, rule wp_bind_if)
    apply (rule wp_bind_Some, rule wp_done, assumption)
   apply (rule wp_missing, assumption, rule wp_done, assumption)
  apply (rule wp_call, rule type_list_loop_ok, erule st_ok, assumption, erule elements_le, erule st_le, simp, assumption,
      erule wp_done)
  done

text \<open>The separator of lines makes progress unless it stands at an end of the list.\<close>

lemma separate_lines_ok:
  assumes "ok c q" and "\<not> at_list_end close q"
  shows "wp c (st c True q [] 0) (separate_lines close q)"
proof -
  from assms(2) have neq: "current_kind q \<noteq> EndOfFile" "current_kind q \<noteq> Punctuation close"
    by (auto simp: at_list_end_def at_kind_def)
  have "wp c (st c True q [] 0) (Option.bind (separate_lines close q) Some)"
    unfolding separate_lines_def
    apply (rule wp_bind_bind, rule wp_eat_newlines, rule st_refl [OF assms(1)], rule wp_bind_prod, rule wp_bind_if)
     apply (rule wp_bind_bind, rule wp_missing, assumption)
     apply (rule wp_bind_bind, rule wp_move, rule recover_until_ok, erule st_ok, assumption)
     apply (rule wp_bind_bind, rule wp_eat_newlines, assumption, rule wp_bind_prod, rule wp_bind_Some, rule wp_meet, assumption)
    using neq by (auto intro: wp_SomeI)
  then show ?thesis by simp
qed

lemma wp_separate_lines [wps]:
  assumes "st c b p ms d q" and "\<not> at_list_end close q"
    and "\<And>q'. st c b p ms d q' \<Longrightarrow> st c True p ms d q' \<Longrightarrow> wp c Q (g q')"
  shows "wp c Q (Option.bind (separate_lines close q) g)"
  by (rule wp_strict [OF separate_lines_ok [OF st_ok [OF assms(1)] assms(2)] assms(1)]) (use assms in auto)

lemma line_loop_ok: "ok c q \<Longrightarrow> elements c (remaining q) f \<Longrightarrow> steps c q (line_loop close e f q)"
proof (induction "remaining q" arbitrary: q rule: less_induct)
  case less
  have next_ok: "steps c q' (line_loop close e f q')" if "st c True q [] 0 q'" for q'
    using that less.prems(2) by (intro less.hyps) (auto intro: elements_le simp: st_def)
  show ?case
    apply (subst line_loop.simps, rule steps_enter [OF less.prems(1)], rule wp_bind_if)
     apply (rule wp_bind_Some, rule wp_done, assumption)
    apply (rule wp_bind_bind, rule wp_call, rule elementsD [OF less.prems(2,1)], rule order_refl, assumption)
    apply (rule wp_bind_bind, rule wp_guard [OF less.prems(1)], assumption, simp)
    apply (rule wp_bind_if)
     apply (rule wp_bind_Some, rule wp_done, erule moved_st)
    apply (rule wp_bind_bind, rule wp_separate_lines, erule moved_st, assumption)
    apply (rule wp_call, rule next_ok, assumption, assumption, erule wp_done)
    done
qed

lemma line_sequence_ok [oks]: "ok c q \<Longrightarrow> elements c (remaining q) f \<Longrightarrow> steps c q (line_sequence close e f q)"
  unfolding line_sequence_def
  apply (rule steps_enter, assumption)
  apply (rule wp_bind_bind, rule wp_eat_newlines, assumption, rule wp_bind_prod)
  apply (rule wp_call, rule line_loop_ok, erule st_ok, erule elements_le, erule st_le, simp, assumption, erule wp_done)
  done

lemma elements_st: "elements c (remaining q) f \<Longrightarrow> st c b q ms d q' \<Longrightarrow> elements c (remaining q') f"
  by (erule elements_le) (auto simp: st_def split: if_splits)

lemma braced_line_sequence_ok [oks]:
  "ok c q \<Longrightarrow> elements c (remaining q) f \<Longrightarrow> steps c q (braced_line_sequence_with_minimum e f r q)"
  unfolding braced_line_sequence_with_minimum_def
  apply (rule steps_enter, assumption)
  apply (rule walk wps wp_join_both | assumption | (simp; fail) | rule wp_meet wp_done | rule wp_call, rule oks, erule st_ok
    | erule (1) elements_st)+
  done


lemma tuple_loop_ok: "ok c q \<Longrightarrow> elements c (remaining q) f \<Longrightarrow> steps c q (tuple_loop close f q)"
proof (induction "remaining q" arbitrary: q rule: less_induct)
  case less
  have next_ok: "steps c q' (tuple_loop close f q')" if "st c True q [] 0 q'" for q'
    using that less.prems(2) by (intro less.hyps) (auto intro: elements_le simp: st_def)
  have element_ok: "steps c q' (f q')" if "st c b q [] 0 q'" for b q'
    using that less.prems(2) by (intro elementsD [OF less.prems(2)]) (auto simp: st_def split: if_splits)
  show ?case
    by (subst tuple_loop.simps, rule steps_enter [OF less.prems(1)])
      (rule walk wps | assumption | (simp; fail) | rule wp_done | rule wp_call, rule next_ok element_ok)+
qed

lemma tuple_rest_ok [oks]: "ok c q \<Longrightarrow> elements c (remaining q) f \<Longrightarrow> steps c q (tuple_rest e f q)"
  unfolding tuple_rest_def
  apply (rule steps_enter, assumption)
  apply (rule walk wps | assumption | (simp; fail) | rule wp_done | rule wp_call, rule tuple_loop_ok, erule st_ok
    | erule (1) elements_st | rule wp_call, erule elementsD, erule st_ok | erule st_le, rule order_refl)+
  done

section \<open>Transactions\<close>

text \<open>Rolling a step back leaves a state that differs from the first one in its diagnostics.\<close>

lemma rollback_ok:
  assumes "st c b q [] 0 q'" and "ok c q"
  obtains q'' where "rollback q q' = Some q''" and "st c False q [] 0 q''" and "same_place q q''"
proof -
  from assms(1) obtain ds F where ds: "par_diagnostics q' = par_diagnostics q @ ds" and F: "par_events q' = par_events q @ F"
    by (auto simp: st_def dest!: extends_prefix)
  obtain q'' where q'': "rollback q q' = Some q''" "par_events q'' = par_events q" "same_place q q''"
    "par_nesting q'' = par_nesting q" "\<exists>ds. par_diagnostics q'' = par_diagnostics q @ ds"
    using assms(1) ds F by (auto simp: rollback_def Let_def same_place_def st_def)
  have "st c False q [] 0 q''"
    by (rule st_report [OF assms(2) q''(3)]) (use q'' in \<open>auto intro: extends_refl\<close>)
  with q'' that show thesis by blast
qed

lemma wp_attempt_decided:
  assumes "st c b p ms d q" and "wp c (\<lambda>(v, q'). st c False q [] 0 q' \<and> R v q') (parse q)"
    and "\<And>v q'. st c False q [] 0 q' \<Longrightarrow> wp c (\<lambda>_. True) (accept v q')"
    and "\<And>v q'. st c b p ms d q' \<Longrightarrow> st c False q [] 0 q' \<Longrightarrow> R v q' \<Longrightarrow> wp c Q (g (Some v, q'))"
    and "\<And>q'. st c b p ms d q' \<Longrightarrow> same_place q q' \<Longrightarrow> current_kind q' = current_kind q
      \<Longrightarrow> \<forall>s. at_contextual s q' = at_contextual s q \<Longrightarrow> wp c Q (g (None, q'))"
  shows "wp c Q (Option.bind (attempt_decided_with parse accept q) g)"
proof (cases "parse q")
  case (Some x)
  with assms(2) obtain v q' where x: "x = (v, q')" "st c False q [] 0 q'" "R v q'" by (cases x) (auto simp: wp_def)
  from assms(3) [OF x(2), of v] show ?thesis
  proof (cases "accept v q'")
    case (Some a)
    note acc = Some
    from rollback_ok [OF x(2) st_ok [OF assms(1)]] obtain q'' where
      q'': "rollback q q' = Some q''" "st c False q [] 0 q''" "same_place q q''" .
    show ?thesis
    proof (cases a)
      case True
      with acc \<open>parse q = Some x\<close> x assms(4) [OF st_step [OF x(2) assms(1)] x(2,3)] show ?thesis
        by (simp add: attempt_decided_with_def)
    next
      case False
      with acc \<open>parse q = Some x\<close> x q'' assms(5) [OF st_step [OF q''(2) assms(1)]] same_place_simps [OF q''(3)]
      show ?thesis by (simp add: attempt_decided_with_def)
    qed
  qed (use \<open>parse q = Some x\<close> x in \<open>simp add: attempt_decided_with_def wp_def\<close>)
qed (use assms(2) in \<open>simp add: attempt_decided_with_def wp_def\<close>)

lemma wp_attempt:
  assumes "steps c q (parse q)" and "st c b p ms d q"
    and "\<And>q'. st c b p ms d q' \<Longrightarrow> wp c Q (g (True, q'))"
    and "\<And>q'. st c b p ms d q' \<Longrightarrow> same_place q q' \<Longrightarrow> current_kind q' = current_kind q
      \<Longrightarrow> \<forall>s. at_contextual s q' = at_contextual s q \<Longrightarrow> wp c Q (g (False, q'))"
  shows "wp c Q (Option.bind (attempt parse q) g)"
  unfolding attempt_def attempt_with_def
proof (rule wp_bind_bind, rule wp_attempt_decided [OF assms(2), where R = "\<lambda>_ _. True"], goal_cases)
  case 1
  from assms(1) show ?case by (cases "parse q") (simp_all add: steps_def wp_def)
next
  case (2 v q')
  then show ?case by (simp add: wp_def)
qed (use assms(3,4) in simp_all)

section \<open>Continuation newlines\<close>

lemma bump_times_ok:
  assumes "ok c q" and "par_split q = None"
    and "\<forall>j < n. kind_at q (par_cursor q + j) = Newline"
  shows "wp c (st c False q [] 0) (bump_times n q)"
  using assms
proof (induction n arbitrary: q)
  case (Suc n)
  from Suc.prems have kind: "current_kind q = Newline" by (auto simp: current_kind_at)
  then have step: "wp c (st c True q [] 0) (bump q)" using Suc.prems(1) by (intro whole_bump) auto
  from kind Suc.prems(2) have cursor: "par_cursor q' = par_cursor q + 1" "par_split q' = None" if "bump q = Some q'" for q'
    using that by (auto simp: bump_def current_kind_at kind_at_def push_event_def Let_def split: if_splits)
  show ?case
  proof (cases "bump q")
    case (Some q')
    with step have q': "st c True q [] 0 q'" by (simp add: wp_def)
    have "wp c (st c False q' [] 0) (bump_times n q')"
    proof (rule Suc.IH [OF st_ok [OF q']])
      have "kind_at q' = kind_at q" using q' by (auto simp: st_def kind_at_def fun_eq_iff)
      with Suc.prems(3) cursor [OF Some] show "par_split q' = None"
        "\<forall>j < n. kind_at q' (par_cursor q' + j) = Newline" by auto
    qed
    then have "wp c (st c False q [] 0) (bump_times n q')"
      by (rule wp_mono) (use st_trans [OF _ q'] in \<open>auto intro: st_weaken\<close>)
    with Some show ?thesis by simp
  qed (use step in \<open>simp add: wp_def\<close>)
qed (simp add: wp_def st_refl)

lemma newline_count_ok:
  assumes "newline_count q = Some n" and "ok c q"
  shows "par_split q = None" and "\<forall>j < n. kind_at q (par_cursor q + j) = Newline"
proof -
  let ?ts = "drop (par_cursor q) (source_tokens q)"
  from assms(1) show "par_split q = None" by (auto simp: newline_count_def split: if_splits)
  from assms(1) have n: "n = length (takeWhile (\<lambda>t. token_kind t = Newline) ?ts)"
    by (auto simp: newline_count_def split: if_splits)
  show "\<forall>j < n. kind_at q (par_cursor q + j) = Newline"
  proof (intro allI impI)
    fix j assume j: "j < n"
    let ?ws = "takeWhile (\<lambda>t. token_kind t = Newline) ?ts"
    from j n have "?ws ! j \<in> set ?ws" "?ws ! j = ?ts ! j" by (auto intro: nth_mem takeWhile_nth)
    then have "token_kind (?ts ! j) = Newline" by (metis set_takeWhileD)
    moreover have "j < length ?ts"
      using j n length_takeWhile_le [of "\<lambda>t. token_kind t = Newline" ?ts] by simp
    ultimately show "kind_at q (par_cursor q + j) = Newline" by (simp add: kind_at_def)
  qed
qed

lemma newline_before_ok:
  assumes "ok c q"
  shows "wp c (st c False q [] 0) (newline_before bd l q)"
proof (cases "newline_count q")
  case None
  with assms ok_split(1) [OF assms] show ?thesis
    by (auto simp: newline_before_def wp_def newline_count_def split: if_splits)
next
  case (Some n)
  note n = newline_count_ok [OF Some assms]
  from bump_times_ok [OF assms n] n(1) Some assms show ?thesis
    by (auto simp: newline_before_def nth_kind_def wp_def st_refl)
qed

lemma newline_after_incomplete_ok:
  assumes "ok c q"
  shows "wp c (st c False q [] 0) (newline_after_incomplete bd q)"
proof (cases "newline_count q")
  case None
  with assms ok_split(1) [OF assms] show ?thesis
    by (auto simp: newline_after_incomplete_def wp_def newline_count_def split: if_splits)
next
  case (Some n)
  note n = newline_count_ok [OF Some assms]
  from bump_times_ok [OF assms n] Some assms show ?thesis
    by (auto simp: newline_after_incomplete_def wp_def st_refl)
qed

lemma wp_newline_before [wps]:
  assumes "st c b p ms d q" and "\<And>q'. st c b p ms d q' \<Longrightarrow> keeps q q' \<Longrightarrow> wp c Q (g q')"
  shows "wp c Q (Option.bind (newline_before bd l q) g)"
  by (rule wp_bind [OF newline_before_ok [OF st_ok [OF assms(1)]]])
    (rule assms(2), auto intro: st_step [OF _ assms(1)] keepsI)

lemma wp_newline_before_token [wps]:
  assumes "st c b p ms d q" and "\<And>q'. st c b p ms d q' \<Longrightarrow> keeps q q' \<Longrightarrow> wp c Q (g q')"
  shows "wp c Q (Option.bind (newline_before_token bd k q) g)"
  unfolding newline_before_token_def by (rule wp_newline_before [OF assms])

lemma wp_newline_after [wps]:
  assumes "st c b p ms d q" and "\<And>q'. st c b p ms d q' \<Longrightarrow> keeps q q' \<Longrightarrow> wp c Q (g q')"
  shows "wp c Q (Option.bind (newline_after_incomplete bd q) g)"
  by (rule wp_bind [OF newline_after_incomplete_ok [OF st_ok [OF assms(1)]]])
    (rule assms(2), auto intro: st_step [OF _ assms(1)] keepsI)


section \<open>Subdivided tokens\<close>

lemma split_current_ok:
  assumes "ok c q" and "current_kind q = Punctuation w"
    and "w = PShiftRight \<and> h = PGreater \<or> w = PLogicalAnd \<and> h = PAmpersand"
  obtains l r where "split_current (Punctuation h) (Punctuation h) q = Some (push_event (TokenEvent l) (q\<lparr>par_split := Some r\<rparr>))"
    and "halves (source_tokens q) (par_cursor q) l r" and "syntax_kind r = Punctuation h" and "par_split q = None"
    and "range_start (syntax_range l) = pos q" and "range_end (syntax_range l) = pos q + 1"
    and "range_start (syntax_range r) = pos q + 1" and "range_end (syntax_range r) = pos q + 2"
    and "range_end (token_range (source_tokens q ! par_cursor q)) = pos q + 2"
proof -
  let ?i = "par_cursor q" and ?toks = "source_tokens q"
  from assms ok_split(2) [OF assms(1)] have none: "par_split q = None" by (cases "par_split q") auto
  from assms(1) have toks: "tokens_ok (source_text q) ?toks" "?i < length ?toks" by (auto simp: ok_def)
  have kind: "token_kind (?toks ! ?i) = Punctuation w"
    using assms(2) none toks(2) by (simp add: current_kind_def kind_at_def)
  with assms(3) have two: "range_end (token_range (?toks ! ?i)) = range_start (token_range (?toks ! ?i)) + 2"
    by (intro tokens_ok_two [OF toks]) auto
  have pos: "pos q = range_start (token_range (?toks ! ?i))"
    using none toks(2) by (simp add: pos_def current_span_def)
  let ?l = "\<lparr>lexical = ?i, syntax_kind = Punctuation h, syntax_range = \<lparr>range_start = pos q, range_end = pos q + 1\<rparr>\<rparr>"
  let ?r = "\<lparr>lexical = ?i, syntax_kind = Punctuation h, syntax_range = \<lparr>range_start = pos q + 1, range_end = pos q + 2\<rparr>\<rparr>"
  show thesis
    by (rule that [of ?l ?r])
      (use two pos none toks kind assms(3) in \<open>auto simp: split_current_def Let_def range_len_def text_range_new_def halves_def
        push_event_def\<close>)
qed

lemma split_greater_ok:
  assumes "ok c q" and "current_kind q = Punctuation PShiftRight"
  shows "wp c (st c True q [] 0) (split_current (Punctuation PGreater) (Punctuation PGreater) q)"
proof -
  from split_current_ok [OF assms, of PGreater] obtain l r where
    q': "split_current (Punctuation PGreater) (Punctuation PGreater) q
      = Some (push_event (TokenEvent l) (q\<lparr>par_split := Some r\<rparr>))" (is "_ = Some ?q")
    and half: "halves (source_tokens q) (par_cursor q) l r" "syntax_kind r = Punctuation PGreater" "par_split q = None"
    and range: "range_start (syntax_range l) = pos q" "range_end (syntax_range l) = pos q + 1"
      "range_start (syntax_range r) = pos q + 1" by metis
  have read: "read_tokens ?q" using assms(1) half by (simp add: ok_def read_tokens_def push_event_def)
  have okq: "ok c ?q" using assms(1) half read by (simp add: ok_def push_event_def)
  have pos: "pos ?q = pos q + 1" using range by (simp add: pos_def current_span_def push_event_def)
  have ext: "extends (par_events q) (pos q) [] (par_events ?q) (pos ?q)"
    unfolding pos using extends_token [OF extends_refl, of "pos q" l "pos q + 1" "par_events q"] range
    by (simp add: push_event_def)
  have "remaining ?q < remaining q" using assms(1) half by (auto simp: remaining_def ok_def push_event_def)
  with okq ext q' show ?thesis by (simp add: wp_def st_def push_event_def)
qed

lemma eat_type_greater_ok:
  assumes "ok c q"
  shows "wp c (\<lambda>(e, q'). st c e q [] 0 q') (eat_type_greater q)"
proof -
  have "wp c (\<lambda>(e, q'). st c e q [] 0 q') (Option.bind (eat_type_greater q) Some)"
    unfolding eat_type_greater_def
    apply (rule wp_bind_bind, rule wp_eat, rule st_refl [OF assms], simp)
     apply (simp add: wp_def)
    apply (simp add: at_kind_def)
    apply (rule conjI; rule impI)
    subgoal
      apply (rule wp_move, rule split_greater_ok [OF assms], assumption, rule st_refl [OF assms])
      apply (simp add: wp_def)
      done
    subgoal using st_refl [OF assms] by (simp add: wp_def)
    done
  then show ?thesis by simp
qed

lemma expect_type_greater_ok [oks]:
  assumes "ok c q"
  shows "steps c q (expect_type_greater q)"
proof (rule steps_enter [OF assms])
  have walk: "wp c (st c False q [] 0) (Option.bind (if e then Some q'
      else report_missing (ExpectedPunctuation PGreater) q') Some)" if "st c e q [] 0 q'" for e q'
    by (rule wp_bind_if) (rule wp_bind_Some wp_missing wp_done that | assumption)+
  show "wp c (st c False q [] 0) (Option.bind (expect_type_greater q) Some)"
    unfolding expect_type_greater_def
    by (rule wp_bind_bind, rule wp_bind [OF eat_type_greater_ok [OF assms]]) (use walk in auto)
qed

text \<open>
  The two ampersands of \<open>&&\<close> as two operators: after the split, the second one starts a node and is consumed.
\<close>

lemma split_and_ok:
  assumes "st c b p ms d q" and "current_kind q = Punctuation PLogicalAnd"
    and "split_current (Punctuation PAmpersand) (Punctuation PAmpersand) q = Some q1"
  shows "current_kind q1 = Punctuation PAmpersand"
    and "\<exists>m q2 q3. start q1 = Some (m, q2) \<and> bump q2 = Some q3 \<and> st c True p (m # ms) d q3"
proof -
  let ?i = "par_cursor q" and ?toks = "source_tokens q"
  note q = st_ok [OF assms(1)]
  from split_current_ok [OF q assms(2), of PAmpersand] obtain l r where
    "split_current (Punctuation PAmpersand) (Punctuation PAmpersand) q
      = Some (push_event (TokenEvent l) (q\<lparr>par_split := Some r\<rparr>))"
    and half: "halves ?toks ?i l r" "syntax_kind r = Punctuation PAmpersand" "par_split q = None"
    and range: "range_start (syntax_range l) = pos q" "range_end (syntax_range l) = pos q + 1"
      "range_start (syntax_range r) = pos q + 1" "range_end (syntax_range r) = pos q + 2"
      "range_end (token_range (?toks ! ?i)) = pos q + 2"
    by metis
  with assms(3) have q1: "q1 = push_event (TokenEvent l) (q\<lparr>par_split := Some r\<rparr>)" by simp
  show "current_kind q1 = Punctuation PAmpersand" using q1 half by (simp add: current_kind_def push_event_def)
  let ?m = "length (par_events q) + 1"
  let ?E1 = "par_events q @ [TokenEvent l]"
  let ?E2 = "?E1 @ [StartEvent ''error'' (pos q + 1) None]"
  let ?q2 = "q1\<lparr>par_events := ?E2\<rparr>"
  let ?q3 = "q\<lparr>par_events := ?E2 @ [TokenEvent r], par_cursor := ?i + 1\<rparr>"
  have start: "start q1 = Some (?m, ?q2)" using q1 range by (simp add: start_def current_span_def push_event_def)
  have bump: "bump ?q2 = Some ?q3" using q1 half(3) by (simp add: bump_def push_event_def)
  note succ = ok_next [OF q, unfolded assms(2), simplified]
  from q have toks: "tokens_ok (source_text q) ?toks" by (simp add: ok_def)
  from tokens_ok_sorted [OF toks, of ?i "?i + 1"] succ range(5)
  have sorted: "pos q + 2 \<le> range_start (token_range (?toks ! (?i + 1)))" by simp
  have pos3: "pos ?q3 = range_start (token_range (?toks ! (?i + 1)))"
    using succ half(3) by (simp add: pos_def current_span_def)
  from q half(3) have "covers ?toks 0 (leaves (par_events q)) ?i" by (simp add: ok_def read_tokens_def)
  from covers_append [OF this, of "[l, r]" "?i + 1"] half(1)
  have "covers ?toks 0 (leaves (par_events q) @ [l, r]) (?i + 1)" by simp
  then have "ok c ?q3" using q succ half(3) by (simp add: ok_def read_tokens_def)
  moreover have "extends (par_events p) (pos p) (?m # ms) (par_events ?q3) (pos ?q3)"
  proof -
    have "extends (par_events p) (pos p) ms ?E1 (pos q + 1)"
      by (rule extends_token [where b = "pos q"]) (use assms(1) range in \<open>simp_all add: st_def\<close>)
    from extends_start [OF this, of "''error''"] have "extends (par_events p) (pos p) (?m # ms) ?E2 (pos q + 1)" by simp
    from extends_token [OF this, of r "pos ?q3"] range sorted pos3 show ?thesis by simp
  qed
  moreover have "remaining ?q3 < remaining q" using succ half(3) by (auto simp: remaining_def)
  ultimately have "st c True p (?m # ms) d ?q3" using assms(1) by (auto simp: st_def split: if_splits)
  with start bump show "\<exists>m q2 q3. start q1 = Some (m, q2) \<and> bump q2 = Some q3 \<and> st c True p (m # ms) d q3" by blast
qed


section \<open>Recursive productions\<close>

text \<open>
  \<open>good c R rec\<close>: the recursive productions keep their contract on the states with less than \<open>R\<close> left to read,
  where blocks are entered at their brace and conditionals at their keyword.
\<close>

definition enters :: "production \<Rightarrow> parser \<Rightarrow> bool" where
  "enters nt q \<longleftrightarrow> (nt = BlockN \<longrightarrow> current_kind q = Punctuation PLeftBrace) \<and> (nt = IfN \<longrightarrow> current_kind q = Keyword KwIf)"

definition good :: "bool \<Rightarrow> nat \<Rightarrow> grammar \<Rightarrow> bool" where
  "good c R rec \<longleftrightarrow> (\<forall>nt q. ok c q \<longrightarrow> enters nt q \<longrightarrow> remaining q < R \<longrightarrow> yields c q (rec nt q))"

lemma good_yields: "good c R rec \<Longrightarrow> ok c q \<Longrightarrow> remaining q < R \<Longrightarrow> enters nt q \<Longrightarrow> yields c q (rec nt q)"
  and good_sub: "good c R rec \<Longrightarrow> ok c q \<Longrightarrow> remaining q < R \<Longrightarrow> enters nt q \<Longrightarrow> steps c q (sub rec nt q)"
  and good_le: "good c R rec \<Longrightarrow> R' \<le> R \<Longrightarrow> good c R' rec"
  by (auto simp: good_def sub_def intro: steps_of_yields)

lemma enters_simps [simp]:
  "enters TypeN q" "enters (ExpressionN m) q" "enters BindingPatternN q" "enters DirectiveValueN q"
  "enters BlockN q \<longleftrightarrow> current_kind q = Punctuation PLeftBrace" "enters IfN q \<longleftrightarrow> current_kind q = Keyword KwIf"
  by (simp_all add: enters_def)

text \<open>What is left to read after a step.\<close>

lemma step_less: "st c True p ms d q \<Longrightarrow> remaining p \<le> R \<Longrightarrow> remaining q < R"
  "st c b p ms d q \<Longrightarrow> remaining p < R \<Longrightarrow> remaining q < R"
  and step_le: "st c b p ms d q \<Longrightarrow> remaining p \<le> R \<Longrightarrow> remaining q \<le> R"
  by (auto simp: st_def split: if_splits)


section \<open>Results beside the parser\<close>

definition returns :: "bool \<Rightarrow> parser \<Rightarrow> ('a \<times> parser) option \<Rightarrow> bool" where
  "returns c p r \<longleftrightarrow> wp c (\<lambda>(v, q). st c False p [] 0 q) r"

definition yields_at :: "bool \<Rightarrow> ('a \<Rightarrow> nat) \<Rightarrow> parser \<Rightarrow> ('a \<times> parser) option \<Rightarrow> bool" where
  "yields_at c f p r \<longleftrightarrow> wp c (\<lambda>(v, q). st c False p [] 0 q \<and> last_at p [] (f v) q) r"

lemma returns_enter:
  "ok c p \<Longrightarrow> (st c False p [] 0 p \<Longrightarrow> wp c (\<lambda>(v, q). st c False p [] 0 q) (Option.bind r Some)) \<Longrightarrow> returns c p r"
  by (simp add: returns_def st_refl)

lemma yields_at_enter:
  "ok c p \<Longrightarrow> (st c False p [] 0 p \<Longrightarrow> wp c (\<lambda>(v, q). st c False p [] 0 q \<and> last_at p [] (f v) q) (Option.bind r Some))
    \<Longrightarrow> yields_at c f p r"
  by (simp add: yields_at_def st_refl)

lemma wp_done_with: "st c b p [] 0 q \<Longrightarrow> wp c (\<lambda>(v, q). st c False p [] 0 q) (Some (v, q))"
  by (auto intro!: wp_SomeI intro: st_weaken)

lemma wp_done_yield:
  "st c b p [] 0 q \<Longrightarrow> last_at p [] (f v) q \<Longrightarrow> wp c (\<lambda>(v, q). st c False p [] 0 q \<and> last_at p [] (f v) q) (Some (v, q))"
  by (auto intro!: wp_SomeI intro: st_weaken)

lemma wp_return:
  assumes "returns c q r" and "st c b p ms d q" and "\<And>v q'. st c b p ms d q' \<Longrightarrow> wp c Q (g (v, q'))"
  shows "wp c Q (Option.bind r g)"
  using assms(1) unfolding returns_def
  by (rule wp_bind) (use assms(2,3) st_step in fastforce)

lemma wp_yield_at:
  assumes "yields_at c f q r" and "st c b p ms d q"
    and "\<And>v q'. st c b p ms d q' \<Longrightarrow> last_at p ms (f v) q' \<Longrightarrow> wp c Q (g (v, q'))"
  shows "wp c Q (Option.bind r g)"
  using assms(1) unfolding yields_at_def
proof (rule wp_bind)
  fix x
  assume "case x of (v, q') \<Rightarrow> st c False q [] 0 q' \<and> last_at q [] (f v) q'"
  then obtain v q' where "x = (v, q')" "st c False q [] 0 q'" "last_at q [] (f v) q'" by (cases x) auto
  with assms(3) [of q' v] st_step [OF this(2) assms(2)] last_trans [OF this(3) assms(2)] show "wp c Q (g x)" by simp
qed

lemma steps_map_Pair: "steps c q r \<Longrightarrow> returns c q (map_option (Pair v) r)"
  by (cases r) (auto simp: steps_def returns_def wp_def)

lemma steps_snd_at: "yields_at c f q r \<Longrightarrow> steps c q (map_option snd r)"
  by (cases r) (auto simp: steps_def yields_at_def wp_def)

lemma steps_snd: "returns c q r \<Longrightarrow> steps c q (map_option snd r)"
  by (cases r) (auto simp: steps_def returns_def wp_def)

text \<open>A step that happens exactly when \<open>B\<close> holds.\<close>

lemma wp_when:
  assumes "B \<Longrightarrow> wp c (st c True q [] 0) r" and "\<not> B \<Longrightarrow> r = Some q" and "st c b p ms d q"
    and "\<And>q'. B \<Longrightarrow> st c True p ms d q' \<Longrightarrow> wp c Q (g q')" and "\<not> B \<Longrightarrow> wp c Q (g q)"
  shows "wp c Q (Option.bind r g)"
proof (cases B)
  case True
  show ?thesis by (rule wp_bind [OF assms(1) [OF True]]) (rule assms(4) [OF True st_step_True [OF _ assms(3)]])
qed (use assms(2,5) in simp)

lemma wp_unit: "wp c Q (Option.bind r Some) \<Longrightarrow> wp c Q r"
  by simp

text \<open>A token that is known is not the end of the file.\<close>

lemma not_eof:
  "current_kind q = k \<Longrightarrow> k \<noteq> EndOfFile \<Longrightarrow> current_kind q \<noteq> EndOfFile"
  "at_kind k q \<Longrightarrow> k \<noteq> EndOfFile \<Longrightarrow> current_kind q \<noteq> EndOfFile"
  "current_kind q' = current_kind q \<Longrightarrow> current_kind q \<noteq> EndOfFile \<Longrightarrow> current_kind q' \<noteq> EndOfFile"
  by (simp_all add: at_kind_def)

lemma not_eof_contextual: "st c b p ms d q \<Longrightarrow> at_contextual s q \<Longrightarrow> current_kind q \<noteq> EndOfFile"
  using ok_contextual(1) [OF st_ok, of c b p ms d q s] by simp

lemmas ends = wp_done wp_done_at wp_done_with wp_meet

text \<open>Two tokens known by lookahead.\<close>

lemma wp_bump2:
  assumes "st c b p ms d q" and "par_split q = None" and "current_kind q \<noteq> EndOfFile"
    and "kind_at q (par_cursor q + 1) \<noteq> EndOfFile" and "\<And>q'. st c True p ms d q' \<Longrightarrow> wp c Q (g q')"
  shows "wp c Q (Option.bind (bump q) (\<lambda>q. Option.bind (bump q) g))"
proof (cases "bump q")
  case None
  with whole_bump [OF st_ok [OF assms(1)] assms(3)] show ?thesis by (simp add: wp_def)
next
  case (Some q')
  with whole_bump [OF st_ok [OF assms(1)] assms(3)] st_step_True [OF _ assms(1)] have q': "st c True p ms d q'"
    by (simp add: wp_def)
  have "current_kind q' = kind_at q (par_cursor q + 1)"
    using Some assms(2,3) by (auto simp: bump_def current_kind_def kind_at_def push_event_def Let_def split: if_splits)
  with assms(4) Some show ?thesis by (simp add: wp_bump [OF q' _ assms(5)])
qed

section \<open>Wrappers\<close>

lemma st_trans_open:
  assumes "st c b' q ms' d' q'" and "st c b p ms d q"
  shows "st c (b \<or> b') p (ms' @ ms) (d' + d) q'"
  using assms unfolding st_def
  by (auto split: if_splits intro: extends_trans_open)

text \<open>Loops that open wrappers: the new ones are open, and completing them all gives back the state before.\<close>

definition wraps :: "bool \<Rightarrow> (nat \<times> node_kind) list \<Rightarrow> parser \<Rightarrow> ((nat \<times> node_kind) list \<times> parser) option \<Rightarrow> bool" where
  "wraps c ws p r \<longleftrightarrow> wp c (\<lambda>(ws', q). \<exists>new. ws' = new @ ws \<and> st c False p (map fst new) 0 q) r"

lemma wp_wraps:
  assumes "wraps c [] q r" and "st c b p ms d q"
    and "\<And>ws q'. st c b p (map fst ws @ ms) d q' \<Longrightarrow> wp c Q (g (ws, q'))"
  shows "wp c Q (Option.bind r g)"
  using assms(1) unfolding wraps_def
proof (rule wp_bind)
  fix x :: "(nat \<times> node_kind) list \<times> parser"
  assume "case x of (ws', q') \<Rightarrow> \<exists>new. ws' = new @ [] \<and> st c False q (map fst new) 0 q'"
  then obtain ws q' where "x = (ws, q')" "st c False q (map fst ws) 0 q'" by (cases x) auto
  with st_trans_open [OF this(2) assms(2)] assms(3) show "wp c Q (g x)" by simp
qed

lemma complete_wrappers_ok:
  "st c b p (map fst ws @ ms) d q \<Longrightarrow>
    wp c (\<lambda>q'. st c b p ms d q' \<and> (if ws = [] then q' = q else last_at p ms (fst (last ws)) q')) (complete_wrappers ws q)"
proof (induction ws arbitrary: q)
  case (Cons w ws)
  obtain m k where w: "w = (m, k)" by (cases w)
  have "wp c (\<lambda>q'. st c b p ms d q' \<and> (if w # ws = [] then q' = q else last_at p ms (fst (last (w # ws))) q'))
    (Option.bind (complete_node m k q) (complete_wrappers ws))"
  proof (rule wp_complete)
    show "st c b p (m # (map fst ws @ ms)) d q" using Cons.prems w by simp
  next
    fix q' assume q': "st c b p (map fst ws @ ms) d q'" "last_at p (map fst ws @ ms) m q'"
    from Cons.IH [OF q'(1)] q'(2) w
    show "wp c (\<lambda>q'. st c b p ms d q' \<and> (if w # ws = [] then q' = q else last_at p ms (fst (last (w # ws))) q'))
      (complete_wrappers ws q')"
      by (auto elim!: wp_mono)
  qed
  with w show ?case by simp
qed (simp add: wp_def)

lemma wp_complete_wrappers [wps]:
  assumes "st c b p (map fst ws @ ms) d q" and "\<And>q'. st c b p ms d q' \<Longrightarrow> wp c Q (g q')"
  shows "wp c Q (Option.bind (complete_wrappers ws q) g)"
  by (rule wp_bind [OF complete_wrappers_ok [OF assms(1)]]) (rule assms(2), simp)

end
