(* ===== verification/Type_Steps.thy ===== *)
theory Type_Steps
  imports Parser_Rules
begin

text \<open>
  The contracts of the productions of \<open>Parser_Types\<close>. A production that consumes a token before it recurs needs the
  recursive productions on the states with less left to read than its own; the others need them on their own state.
\<close>

lemma wp_bump2_bind:
  assumes "st c b p ms d q" and "par_split q = None" and "current_kind q \<noteq> EndOfFile"
    and "kind_at q (par_cursor q + 1) \<noteq> EndOfFile" and "\<And>q'. st c True p ms d q' \<Longrightarrow> wp c Q (Option.bind (f q') g)"
  shows "wp c Q (Option.bind (bump q) (\<lambda>q. Option.bind (Option.bind (bump q) f) g))"
  using wp_bump2 [OF assms] by simp

section \<open>Callable prefixes and places\<close>

lemma prefix_parts_ok [oks]:
  "ok c q \<Longrightarrow> current_kind q \<noteq> EndOfFile \<Longrightarrow> steps c q (parse_modifier m q)"
  "ok c q \<Longrightarrow> steps c q (parse_suffix q)"
  unfolding parse_modifier_def parse_suffix_def
  by (rule steps_enter, assumption, (rule walk wps ends | assumption | rule wp_call, rule oks | erule st_ok
    | erule not_eof, simp add: at_kind_def; fail | simp add: at_kind_def; fail)+)+

definition at_modifier :: "callable_modifier list \<Rightarrow> callable_prefix_grammar \<Rightarrow> token_kind \<Rightarrow> bool" where
  "at_modifier ms g k \<longleftrightarrow> (\<exists>m \<in> set ms. admits g m \<and> k = Keyword (modifier_keyword m))"

lemma parse_modifier_moves:
  assumes "ok c q" and "current_kind q \<noteq> EndOfFile"
  shows "wp c (st c True q [] 0) (parse_modifier m q)"
proof -
  have "wp c (st c True q [] 0) (Option.bind (parse_modifier m q) Some)"
    unfolding parse_modifier_def
    by (rule wp_bind_bind, rule wp_start, rule st_refl [OF assms(1)])
      (rule walk wps wp_meet | assumption | simp add: assms; fail)+
  then show ?thesis by simp
qed

lemma parse_modifiers_ok:
  "ok c q \<Longrightarrow> wp c (\<lambda>q'. st c (at_modifier ms g (current_kind q)) q [] 0 q'
    \<and> (\<not> at_modifier ms g (current_kind q) \<longrightarrow> q' = q)) (parse_modifiers ms g q)"
proof (induction ms arbitrary: q)
  case (Cons m ms)
  show ?case
  proof (cases "admits g m \<and> at_keyword (modifier_keyword m) q")
    case True
    then have at: "at_modifier (m # ms) g (current_kind q)" by (simp add: at_modifier_def at_kind_def)
    have "wp c (st c True q [] 0) (parse_modifier m q)"
      using True by (intro parse_modifier_moves Cons.prems) (auto simp: at_kind_def)
    then have "wp c (st c True q [] 0) (Option.bind (parse_modifier m q) (parse_modifiers ms g))"
    proof (rule wp_bind)
      fix q' assume q': "st c True q [] 0 q'"
      show "wp c (st c True q [] 0) (parse_modifiers ms g q')"
        by (rule wp_mono [OF Cons.IH [OF st_ok [OF q']]]) (use st_trans [OF _ q'] in fastforce)
    qed
    with True at show ?thesis by simp
  next
    case False
    then have "at_modifier (m # ms) g (current_kind q) \<longleftrightarrow> at_modifier ms g (current_kind q)"
      by (auto simp: at_modifier_def at_kind_def)
    with False Cons.IH [OF Cons.prems] show ?thesis by auto
  qed
qed (simp add: at_modifier_def wp_def st_refl)

lemma parse_prefix_ok [oks]: "ok c q \<Longrightarrow> steps c q (parse_prefix g q)"
  unfolding parse_prefix_def steps_def by (rule wp_mono [OF parse_modifiers_ok]) (auto intro: st_weaken)

lemma scan_modifiers_ok:
  assumes "ok c q" and "i < length (source_tokens q)"
  shows "\<exists>stop. scan_modifiers ms g q i = Some stop \<and> stop < length (source_tokens q)
    \<and> i \<le> stop \<and> (\<not> at_modifier ms g (kind_at q i) \<longrightarrow> stop = i)"
  using assms(2)
proof (induction ms arbitrary: i)
  case (Cons m ms)
  show ?case
  proof (cases "admits g m \<and> kind_at q i = Keyword (modifier_keyword m)")
    case True
    then have "i + 1 < length (source_tokens q)" using after_in_range [OF st_refl [OF assms(1)] Cons.prems] by simp
    from Cons.IH [OF this] True Cons.prems show ?thesis
      by (auto simp: token_kind_at_def kind_at_def at_modifier_def)
  next
    case False
    with Cons.IH [OF Cons.prems] Cons.prems show ?thesis
      by (auto simp: token_kind_at_def kind_at_def at_modifier_def)
  qed
qed simp

lemma wp_scan_prefix [wps]:
  assumes "st c b p ms d q" and "i < length (source_tokens q)"
    and "\<And>stop. stop < length (source_tokens q) \<Longrightarrow> i \<le> stop
      \<Longrightarrow> (\<not> at_modifier all_modifiers g (kind_at q i) \<Longrightarrow> stop = i) \<Longrightarrow> wp c Q (f stop)"
  shows "wp c Q (Option.bind (scan_prefix q i g) f)"
  using scan_modifiers_ok [OF st_ok [OF assms(1)] assms(2), of all_modifiers g] assms(3)
  by (auto simp: scan_prefix_def)

lemma place_loop_ok [oks]: "ok c q \<Longrightarrow> steps c q (place_loop q)"
proof (induction "remaining q" arbitrary: q rule: less_induct)
  case less
  show ?case
    by (subst place_loop.simps, rule steps_enter [OF less.prems])
      (rule walk wps ends | assumption | simp; fail | rule wp_call, rule oks | erule st_ok
        | rule wp_call, rule less.hyps, erule step_less(1), rule order_refl)+
qed

lemma provenance_loop_ok [oks]: "ok c q \<Longrightarrow> steps c q (provenance_loop q)"
proof (induction "remaining q" arbitrary: q rule: less_induct)
  case less
  show ?case
    by (subst provenance_loop.simps, rule steps_enter [OF less.prems])
      (rule walk wps ends | assumption | simp; fail | rule wp_call, rule oks | erule st_ok
        | rule wp_call, rule less.hyps, erule step_less(1), rule order_refl)+
qed

lemma parse_place_ok [oks]: "ok c q \<Longrightarrow> steps c q (parse_place q)"
  unfolding parse_place_def
  by (rule steps_enter, assumption, (rule walk wps ends | assumption | rule wp_call, rule oks | erule st_ok)+)

lemma places_ok [oks]:
  "ok c q \<Longrightarrow> steps c q (parse_allocator q)"
  "ok c q \<Longrightarrow> current_kind q \<noteq> EndOfFile \<Longrightarrow> steps c q (parse_provenance q)"
  unfolding parse_allocator_def parse_provenance_def
  by (rule steps_enter, assumption, (rule walk wps ends | assumption | rule wp_call, rule oks | erule st_ok
    | erule not_eof, simp add: at_kind_def; fail | simp add: at_kind_def; fail | erule (1) not_eof_contextual)+)+


lemma optional_provenance_ok [oks]: "ok c q \<Longrightarrow> steps c q (optional_provenance q)"
  unfolding optional_provenance_def
  by (rule steps_enter, assumption, (rule walk wps ends | assumption | rule wp_call, rule oks | erule st_ok
    | erule not_eof, simp add: at_kind_def; fail | simp add: at_kind_def; fail | erule (1) not_eof_contextual)+)+

section \<open>Named types\<close>

lemma wp_at_builtin_pattern [wps]:
  assumes "st c b p ms d q" and "\<And>v. (v \<Longrightarrow> current_kind q = Identifier) \<Longrightarrow> wp c Q (g v)"
  shows "wp c Q (Option.bind (at_builtin_pattern q) g)"
  unfolding at_builtin_pattern_def
  by (rule walk wp_current_text | rule assms | simp; fail)+

lemma wp_at_builtin_type [wps]:
  assumes "st c b p ms d q" and "current_kind q = Identifier" and "\<And>v. wp c Q (g v)"
  shows "wp c Q (Option.bind (at_builtin_type q) g)"
  unfolding at_builtin_type_def
  by (rule walk wp_current_text | rule assms | simp add: assms(2); fail)+

lemma pattern_binder_ok [oks]: "ok c q \<Longrightarrow> steps c q (expect_pattern_binder q)"
  unfolding expect_pattern_binder_def
  by (rule steps_enter, assumption, (rule walk wps ends | assumption | rule wp_call, rule oks | erule st_ok
    | erule not_eof, simp add: at_kind_def; fail | simp add: at_kind_def; fail)+)

lemma pattern_arguments_ok [oks]:
  "ok c q \<Longrightarrow> current_kind q \<noteq> EndOfFile \<Longrightarrow> steps c q (parse_pattern_arguments q)"
  unfolding parse_pattern_arguments_def
  by (rule steps_enter, assumption, (rule walk wps ends | assumption | rule wp_call, rule oks | erule st_ok
    | rule elementsI oks | erule not_eof, simp add: at_kind_def; fail | simp; fail)+)

lemma wp_at_generic_argument_end:
  assumes "st c b p ms d q"
  shows "wp c (\<lambda>_. True) (at_generic_argument_end q)"
proof -
  have "wp c (\<lambda>_. True) (Option.bind (at_generic_argument_end q) Some)"
    unfolding at_generic_argument_end_def by (rule walk wps assms wp_SomeI TrueI)+
  then show ?thesis by simp
qed

lemma generic_argument_ok [oks]:
  assumes "ok c q" and "good c R rec" and "remaining q < R"
  shows "steps c q (parse_generic_argument rec q)"
proof -
  have sub: "wp c (\<lambda>(v, q'). st c False q' [] 0 q' \<and> st c False r [] 0 q')
    (map_option (Pair ()) (sub rec TypeN r))" if "st c b q ms 0 r" for b ms r
  proof -
    have "steps c r (sub rec TypeN r)"
      by (rule good_sub [OF assms(2)]) (use that assms(3) in \<open>auto intro: st_ok step_less\<close>)
    then show ?thesis
      by (cases "sub rec TypeN r") (auto simp: steps_def wp_def intro: st_refl st_ok)
  qed
  show ?thesis
    unfolding parse_generic_argument_def attempt_with_def
    apply (rule steps_enter [OF assms(1)], rule wp_bind_bind, rule wp_start, assumption)
    apply (rule wp_bind_prod, rule wp_bind_bind, rule wp_attempt_decided [where R = "\<lambda>_ _. True"], assumption)
    subgoal by (drule sub) (auto elim!: wp_mono)
    subgoal by (auto simp: wp_def intro!: wp_at_generic_argument_end [unfolded wp_def])
    apply (rule walk wps ends wp_join | assumption | rule wp_call, rule good_sub [OF assms(2)] | erule st_ok
      | erule step_less, rule assms(3) | erule not_eof, simp add: at_kind_def; fail | simp; fail)+
    done
qed


lemma type_arguments_ok [oks]:
  "ok c q \<Longrightarrow> good c R rec \<Longrightarrow> remaining q \<le> R \<Longrightarrow> current_kind q \<noteq> EndOfFile \<Longrightarrow> steps c q (parse_type_arguments rec q)"
  unfolding parse_type_arguments_def
  by (rule steps_enter, assumption, (rule walk wps ends | assumption | rule wp_call, rule oks | erule st_ok
    | rule elementsI oks | erule le_less_trans, erule (1) step_less | erule not_eof, simp add: at_kind_def; fail | simp; fail)+)

lemma named_type_loop_ok:
  "ok c q \<Longrightarrow> good c R rec \<Longrightarrow> remaining q \<le> R \<Longrightarrow>
    wp c (\<lambda>(h', n', q'). st c False q [] 0 q') (named_type_loop rec h n q)"
proof (induction "remaining q" arbitrary: q h n rule: less_induct)
  case less
  have again: "wp c (\<lambda>(h', n', q'). st c False q [] 0 q') (Option.bind (named_type_loop rec h' n' q') Some)"
    if "st c True q [] 0 q'" for q' h' n'
  proof -
    have "wp c (\<lambda>(h, n, q''). st c False q' [] 0 q'') (named_type_loop rec h' n' q')"
      using that less.prems by (intro less.hyps) (auto simp: st_def)
    then show ?thesis using st_trans [OF _ that] by (auto elim!: wp_mono intro: st_weaken)
  qed
  show ?case
    apply (rule wp_unit, subst named_type_loop.simps)
    apply (rule wp_bind_bind, rule wp_eat, rule st_refl [OF less.prems(1)], simp)
     apply (rule wp_bind_prod walk wps | assumption | rule wp_call, rule oks | erule st_ok
      | rule wp_attempt, rule oks | rule less.prems | erule step_le | rule again | erule not_eof, simp add: at_kind_def; fail | simp; fail)+
    using st_refl [OF less.prems(1)] apply (simp add: wp_def)
    done
qed


lemma wp_named_type_loop [wps]:
  assumes "st c b p ms d q" and "good c R rec" and "remaining q \<le> R" and "\<And>h' n' q'. st c b p ms d q' \<Longrightarrow> wp c Q (g (h', n', q'))"
  shows "wp c Q (Option.bind (named_type_loop rec h n q) g)"
  by (rule wp_bind [OF named_type_loop_ok [OF st_ok [OF assms(1)] assms(2,3)]])
    (use assms(4) st_step [OF _ assms(1)] in fastforce)

lemma named_type_with_facts_ok [oks]:
  "ok c q \<Longrightarrow> good c R rec \<Longrightarrow> remaining q \<le> R \<Longrightarrow> current_kind q \<noteq> EndOfFile \<Longrightarrow>
    yields_at c fst q (named_type_with_facts rec q)"
  unfolding named_type_with_facts_def
  by (rule yields_at_enter, assumption, (rule walk wps | assumption | rule wp_attempt, rule oks | erule st_ok
    | (erule step_le, assumption) | (rule less_imp_le, erule (1) step_less) | rule wp_done_yield | erule not_eof, simp add: at_kind_def; fail | simp; fail)+)

lemma parse_named_type_ok [oks]:
  "ok c q \<Longrightarrow> good c R rec \<Longrightarrow> remaining q \<le> R \<Longrightarrow> current_kind q \<noteq> EndOfFile \<Longrightarrow> steps c q (parse_named_type rec q)"
  unfolding parse_named_type_def by (rule steps_snd_at, rule named_type_with_facts_ok)

lemma owner_reference_ok [oks]:
  "ok c q \<Longrightarrow> good c R rec \<Longrightarrow> remaining q \<le> R \<Longrightarrow> yields_at c fst q (owner_reference rec q)"
  unfolding owner_reference_def
  apply (rule yields_at_enter, assumption)
  apply ((rule walk wps | assumption | rule wp_yield_at, rule oks | erule st_ok
    | rule wp_done_yield | erule not_eof, simp add: at_kind_def; fail | simp; fail)+)
  done

section \<open>Parameters\<close>

lemma argument_pack_modifier_ok [oks]: "ok c q \<Longrightarrow> returns c q (argument_pack_modifier q)"
  unfolding argument_pack_modifier_def
  by (rule returns_enter, assumption, (rule walk wps ends | assumption | erule not_eof, simp add: at_kind_def; fail | simp; fail)+)

lemma keyed_pack_value_type_ok [oks]:
  "ok c q \<Longrightarrow> good c R rec \<Longrightarrow> remaining q \<le> R \<Longrightarrow> steps c q (keyed_pack_value_type rec q' q)"
  unfolding keyed_pack_value_type_def
  by (rule steps_enter, assumption, (rule walk wps ends | assumption | rule wp_call, rule good_sub | erule st_ok
    | erule (1) step_less | erule not_eof, simp add: at_kind_def; fail | simp add: at_kind_def; fail)+)

lemma parameter_ok [oks]:
  "ok c q \<Longrightarrow> good c R rec \<Longrightarrow> remaining q < R \<Longrightarrow> steps c q (parse_parameter rec b q)"
  unfolding parse_parameter_def
  by (rule steps_enter, assumption, (rule wp_join walk wps ends | assumption | rule wp_return, rule oks
    | rule wp_call, rule oks good_sub | erule st_ok | erule (1) step_less | (rule less_imp_le, erule (1) step_less) | erule not_eof, simp add: at_kind_def; fail | simp; fail)+)

lemma parameters_ok [oks]:
  "ok c q \<Longrightarrow> good c R rec \<Longrightarrow> remaining q < R \<Longrightarrow> steps c q (parse_parameters rec b q)"
  unfolding parse_parameters_def
  by (rule steps_enter, assumption, (rule wp_join walk wps ends | assumption | rule wp_call, rule oks | erule st_ok
    | rule elementsI oks | erule le_less_trans, erule (1) step_less | erule not_eof, simp add: at_kind_def; fail | simp; fail)+)


lemma generic_parameter_ok [oks]: "ok c q \<Longrightarrow> good c R rec \<Longrightarrow> remaining q < R \<Longrightarrow> steps c q (parse_generic_parameter rec q)"
  unfolding parse_generic_parameter_def
  by (rule steps_enter, assumption, (rule wp_join walk wps ends | assumption | rule wp_call, rule oks good_sub | rule wp_return, rule oks
    | rule wp_yield, rule oks good_yields | rule wp_attempt, rule oks | erule st_ok | erule (1) step_less step_le
    | rule elementsI oks good_sub | erule le_less_trans | rule less_imp_le | erule not_eof, simp add: at_kind_def; fail
    | erule (1) not_eof_contextual | simp; fail)+)

lemma generic_parameters_ok [oks]:
  "ok c q \<Longrightarrow> good c R rec \<Longrightarrow> remaining q \<le> R \<Longrightarrow> current_kind q \<noteq> EndOfFile \<Longrightarrow> steps c q (parse_generic_parameters rec q)"
  unfolding parse_generic_parameters_def
  by (rule steps_enter, assumption, (rule wp_join walk wps ends | assumption | rule wp_call, rule oks good_sub | rule wp_return, rule oks
    | rule wp_yield, rule oks good_yields | rule wp_attempt, rule oks | erule st_ok | erule (1) step_less step_le
    | rule elementsI oks good_sub | erule le_less_trans | rule less_imp_le | erule not_eof, simp add: at_kind_def; fail
    | erule (1) not_eof_contextual | simp; fail)+)

section \<open>Callable types\<close>




lemma wp_at_callable [wps]:
  assumes "st c b p ms d q" and "\<And>v. at_callable_type q = Some v \<Longrightarrow> wp c Q (g v)"
  shows "wp c Q (Option.bind (at_callable_type q) g)"
proof -
  have "wp c (\<lambda>_. True) (Option.bind (at_callable_type q) Some)"
  proof (cases "par_split q")
    case None
    have range: "par_cursor q + (if at_contextual CtxAny q then 1 else 0) < length (source_tokens q)"
      using after_in_range [OF assms(1) cursor_in_range [OF assms(1)]] not_eof_contextual [OF assms(1)]
        cursor_in_range [OF assms(1)] None
      by (auto simp: current_kind_at)
    show ?thesis unfolding at_callable_type_def by (rule walk wps assms(1) wp_SomeI range TrueI)+
  next
    case (Some t)
    then show ?thesis
      using ok_split(1) [OF st_ok [OF assms(1)]]
      by (auto simp: at_callable_type_def nth_kind_def wp_def Let_def split: option.splits bind_splits)
  qed
  then show ?thesis using assms(2) by (cases "at_callable_type q") (auto simp: wp_def)
qed

lemma callable_parameter_ok [oks]: "ok c q \<Longrightarrow> good c R rec \<Longrightarrow> remaining q < R \<Longrightarrow> steps c q (parse_callable_parameter rec q)"
  unfolding parse_callable_parameter_def
  by (rule steps_enter, assumption, (rule wp_bump2 wp_join walk wps ends | assumption | rule wp_call, rule oks good_sub | rule wp_return, rule oks
    | rule wp_yield, rule oks good_yields | rule wp_attempt, rule oks | erule st_ok | erule (1) step_less step_le
    | rule elementsI oks good_sub | erule le_less_trans | rule less_imp_le | erule not_eof, simp add: at_kind_def; fail
    | erule (1) not_eof_contextual | simp add: at_kind_def; fail)+)

lemma callable_signature_ok:
  "st c True q [m] 0 q' \<Longrightarrow> good c R rec \<Longrightarrow> remaining q \<le> R \<Longrightarrow>
    wp c (st c False q [] 0) (Option.bind (parse_callable_signature rec m q') Some)"
  unfolding parse_callable_signature_def
  by (rule wp_bump2 wp_join walk wps ends | assumption | rule wp_call, rule oks good_sub | rule wp_return, rule oks
    | rule wp_yield, rule oks good_yields | rule wp_attempt, rule oks | erule st_ok | erule (1) step_less step_le
    | rule elementsI oks good_sub | erule le_less_trans | rule less_imp_le | erule not_eof, simp add: at_kind_def; fail
    | erule (1) not_eof_contextual | simp add: at_kind_def; fail)+

text \<open>A callable type begins with a token that its production consumes before the parameters.\<close>

lemma at_callable_type_begins:
  assumes "at_callable_type q = Some True" and "ok c q"
  shows "at_contextual CtxAny q \<or> at_modifier all_modifiers Immediate (current_kind q)
    \<or> current_kind q \<in> {Keyword KwFunc, Punctuation PAmpersand, Punctuation PReadWrite}"
proof (cases "at_contextual CtxAny q \<or> at_modifier all_modifiers Immediate (current_kind q)")
  case False
  from assms(1) have none: "par_split q = None"
    by (auto simp: at_callable_type_def nth_kind_def Let_def split: bind_splits if_splits)
  have range: "par_cursor q < length (source_tokens q)" using assms(2) by (simp add: ok_def)
  from scan_modifiers_ok [OF assms(2) range, of all_modifiers Immediate] False none
  have "scan_prefix q (par_cursor q) Immediate = Some (par_cursor q)"
    by (auto simp: scan_prefix_def current_kind_at)
  with assms(1) False none show ?thesis
    by (auto simp: at_callable_type_def nth_kind_def current_kind_at split: if_splits)
qed auto

lemma erased_callable_modifier_ok:
  assumes "ok c q"
  shows "wp c (st c (at_contextual CtxAny q) q [] 0) (erased_callable_modifier q)"
proof (cases "at_contextual CtxAny q")
  case True
  have "wp c (st c True q [] 0) (Option.bind (erased_callable_modifier q) Some)"
    unfolding erased_callable_modifier_def
    using ok_contextual(1) [OF assms True] True st_refl [OF assms]
    by - (rule walk wps wp_meet | assumption | simp; fail)+
  with True show ?thesis by simp
qed (use assms in \<open>simp add: erased_callable_modifier_def wp_def st_refl\<close>)

lemma eat_borrow_steps [oks]: "ok c q \<Longrightarrow> steps c q (eat_borrow q)"
  unfolding eat_borrow_def
  by (rule steps_enter, assumption, (rule wp_bump2 wp_join walk wps ends | assumption | rule wp_call, rule oks good_sub | rule wp_return, rule oks
    | rule wp_yield, rule oks good_yields | rule wp_attempt, rule oks | erule st_ok | erule (1) step_less step_le
    | rule elementsI oks good_sub | erule le_less_trans | rule less_imp_le | erule not_eof, simp add: at_kind_def; fail
    | erule (1) not_eof_contextual | simp add: at_kind_def; fail
    | auto simp: at_kind_def; fail)+)

lemma callable_head_ok:
  assumes "ok c q" and "at_contextual CtxAny q \<or> at_modifier all_modifiers Immediate (current_kind q)
    \<or> current_kind q \<in> {Keyword KwFunc, Punctuation PAmpersand, Punctuation PReadWrite}"
  shows "wp c (st c True q [] 0) (Option.bind (erased_callable_modifier q) (\<lambda>p. Option.bind (parse_prefix Immediate p)
    (\<lambda>p. Option.bind (eat_borrow p) (\<lambda>p. Option.bind (expect_keyword KwFunc p) Some))))"
proof (cases "at_contextual CtxAny q")
  case True
  with erased_callable_modifier_ok [OF assms(1)] have "wp c (st c True q [] 0) (erased_callable_modifier q)" by simp
  then show ?thesis
    apply (rule wp_move [OF _ st_refl [OF assms(1)]])
    apply (rule wps wp_meet | assumption | rule wp_call, rule oks, erule st_ok | simp; fail)+
    done
next
  case notany: False
  then have erased: "erased_callable_modifier q = Some q" by (simp add: erased_callable_modifier_def)
  show ?thesis
  proof (cases "at_modifier all_modifiers Immediate (current_kind q)")
    case True
    have "wp c (st c True q [] 0) (parse_prefix Immediate q)"
      unfolding parse_prefix_def by (rule wp_mono [OF parse_modifiers_ok [OF assms(1)]]) (use True in simp)
    then show ?thesis unfolding erased bind.bind_lunit
      apply (rule wp_move [OF _ st_refl [OF assms(1)]])
      apply (rule wps wp_meet | assumption | rule wp_call, rule oks, erule st_ok | simp; fail)+
      done
  next
    case False
    have "wp c (\<lambda>q'. q' = q) (parse_prefix Immediate q)"
      unfolding parse_prefix_def by (rule wp_mono [OF parse_modifiers_ok [OF assms(1)]]) (use False in simp)
    moreover have "wp c (st c True q [] 0) (Option.bind (eat_borrow q) (\<lambda>p. Option.bind (expect_keyword KwFunc p) Some))"
      using assms(2) notany False st_refl [OF assms(1)]
      apply (auto simp: eat_borrow_def at_kind_def expect_keyword_at)
        apply (rule wp_unit, (rule walk wps wp_meet | assumption | rule wp_call, rule oks, erule st_ok | simp; fail)+)+
      done
    ultimately show ?thesis unfolding erased by (auto intro: wp_bind)
  qed
qed

lemma callable_type_ok:
  assumes "ok c q" and "at_callable_type q = Some True" and "good c R rec" and "remaining q \<le> R"
  shows "steps c q (parse_callable_type rec q)"
proof -
  have "wp c (st c False q [] 0) (Option.bind (start q) (\<lambda>(m, p). Option.bind
    (Option.bind (erased_callable_modifier p) (\<lambda>p. Option.bind (parse_prefix Immediate p)
      (\<lambda>p. Option.bind (eat_borrow p) (\<lambda>p. Option.bind (expect_keyword KwFunc p) Some))))
    (\<lambda>p. Option.bind (parse_callable_signature rec m p) Some)))"
  proof (rule wp_start [OF st_refl [OF assms(1)]], rule wp_prod, rule wp_move [OF callable_head_ok])
    fix m q1
    assume q1: "st c False q [m] 0 q1" "current_kind q1 = current_kind q" "\<forall>s. at_contextual s q1 = at_contextual s q"
    show "ok c q1" by (rule st_ok [OF q1(1)])
    show "at_contextual CtxAny q1 \<or> at_modifier all_modifiers Immediate (current_kind q1)
      \<or> current_kind q1 \<in> {Keyword KwFunc, Punctuation PAmpersand, Punctuation PReadWrite}"
      using at_callable_type_begins [OF assms(2,1)] q1(2,3) by simp
    show "st c False q [m] 0 q1" by (rule q1(1))
    show "wp c (st c False q [] 0) (Option.bind (parse_callable_signature rec m q2) Some)"
      if "st c (False \<or> True) q [m] 0 q2" for q2
      using callable_signature_ok [of c q m q2 R rec] that assms(3,4) by simp
  qed
  then show ?thesis by (simp add: steps_def parse_callable_type_def)
qed

section \<open>Types\<close>

lemma outcome_suffix_ok [oks]: "ok c q \<Longrightarrow> steps c q (outcome_suffix q)"
  unfolding outcome_suffix_def
  by (rule steps_enter, assumption, (rule wp_bump2 wp_join walk wps ends | assumption | rule wp_call, rule oks good_sub | rule wp_return, rule oks
    | rule wp_yield, rule oks good_yields | rule wp_attempt, rule oks | erule st_ok | erule (1) step_less step_le
    | rule elementsI oks good_sub | erule le_less_trans | rule less_imp_le | erule not_eof, simp add: at_kind_def; fail
    | erule (1) not_eof_contextual | simp add: at_kind_def; fail
    | auto simp: at_kind_def; fail)+)

lemma future_type_ok [oks]:
  "ok c q \<Longrightarrow> good c R rec \<Longrightarrow> remaining q \<le> R \<Longrightarrow> current_kind q \<noteq> EndOfFile \<Longrightarrow> steps c q (parse_future_type rec q)"
  unfolding parse_future_type_def
  by (rule steps_enter, assumption, (rule wp_bump2 wp_join walk wps ends | assumption | rule wp_call, rule oks good_sub | rule wp_return, rule oks
    | rule wp_yield, rule oks good_yields | rule wp_attempt, rule oks | erule st_ok | erule (1) step_less step_le
    | rule elementsI oks good_sub | erule le_less_trans | rule less_imp_le | erule not_eof, simp add: at_kind_def; fail
    | erule (1) not_eof_contextual | simp add: at_kind_def; fail
    | auto simp: at_kind_def; fail)+)

lemma bracket_type_ok [oks]:
  "ok c q \<Longrightarrow> good c R rec \<Longrightarrow> remaining q \<le> R \<Longrightarrow> current_kind q \<noteq> EndOfFile \<Longrightarrow> steps c q (parse_bracket_type rec q)"
  unfolding parse_bracket_type_def
  by (rule steps_enter, assumption, (rule wp_bump2 wp_join walk wps ends | assumption | rule wp_call, rule oks good_sub | rule wp_return, rule oks
    | rule wp_yield, rule oks good_yields | rule wp_attempt, rule oks | erule st_ok | erule (1) step_less step_le
    | rule elementsI oks good_sub | erule le_less_trans | rule less_imp_le | erule not_eof, simp add: at_kind_def; fail
    | erule (1) not_eof_contextual | simp add: at_kind_def; fail
    | auto simp: at_kind_def; fail)+)

lemma grouped_type_ok [oks]:
  "ok c q \<Longrightarrow> good c R rec \<Longrightarrow> remaining q \<le> R \<Longrightarrow> current_kind q \<noteq> EndOfFile \<Longrightarrow> steps c q (parse_grouped_type rec q)"
  unfolding parse_grouped_type_def
  by (rule steps_enter, assumption, (rule wp_bump2 wp_join walk wps ends | assumption | rule wp_call, rule oks good_sub | rule wp_return, rule oks
    | rule wp_yield, rule oks good_yields | rule wp_attempt, rule oks | erule st_ok | erule (1) step_less step_le
    | rule elementsI oks good_sub | erule le_less_trans | rule less_imp_le | erule not_eof, simp add: at_kind_def; fail
    | erule (1) not_eof_contextual | simp add: at_kind_def; fail
    | auto simp: at_kind_def; fail)+)

lemma type_atom_ok [oks]: "ok c q \<Longrightarrow> good c R rec \<Longrightarrow> remaining q \<le> R \<Longrightarrow> steps c q (type_atom rec q)"
  unfolding type_atom_def
  by (rule steps_enter, assumption, (rule wp_bump2 wp_join walk wps ends | assumption | rule wp_call, rule oks good_sub | rule wp_return, rule oks
    | rule wp_yield, rule oks good_yields | rule wp_attempt, rule oks | erule st_ok | erule (1) step_less step_le
    | rule elementsI oks good_sub | erule le_less_trans | rule less_imp_le | erule not_eof, simp add: at_kind_def; fail
    | erule (1) not_eof_contextual | simp add: at_kind_def; fail
    | auto simp: at_kind_def; fail)+)

lemma wraps_none: "steps c q r \<Longrightarrow> wraps c ws q (map_option (Pair ws) r)"
  by (cases r) (auto simp: steps_def wraps_def wp_def)

lemma wraps_more:
  assumes "wraps c (new @ ws) q' r" and "st c b q (map fst new) 0 q'"
  shows "wraps c ws q r"
  using assms(1) unfolding wraps_def
proof (rule wp_mono)
  fix x :: "(nat \<times> node_kind) list \<times> parser"
  assume "case x of (ws', q'') \<Rightarrow> \<exists>more. ws' = more @ new @ ws \<and> st c False q' (map fst more) 0 q''"
  then obtain more q'' where "x = ((more @ new) @ ws, q'')" "st c False q' (map fst more) 0 q''" by (cases x) auto
  with st_trans_open [OF this(2) assms(2)]
  show "case x of (ws', q'') \<Rightarrow> \<exists>new. ws' = new @ ws \<and> st c False q (map fst new) 0 q''" by (auto intro: st_weaken)
qed

lemma wraps_bind:
  assumes "wp c P r" and "\<And>x. P x \<Longrightarrow> wraps c ws q (g x)"
  shows "wraps c ws q (Option.bind r g)"
  using assms unfolding wraps_def by (rule wp_bind)

text \<open>Opening wrappers over the two halves of \<open>&&\<close>.\<close>

lemma start_Some:
  assumes "ok c q"
  obtains m q' where "start q = Some (m, q')"
proof -
  from assms obtain s where "current_span q = Some s" by (rule ok_span)
  with that show thesis by (simp add: start_def)
qed

lemma start_same: "start q = Some (m, q') \<Longrightarrow> same_place q q'"
  by (auto simp: start_def push_event_def same_place_def split: bind_splits)

lemma split_wrapper_ok:
  assumes "ok c q" and "current_kind q = Punctuation PLogicalAnd"
  obtains m q0 q1 m' q2 q' where "start q = Some (m, q0)" and "current_kind q0 = current_kind q"
    and "split_current (Punctuation PAmpersand) (Punctuation PAmpersand) q0 = Some q1"
    and "current_kind q1 = Punctuation PAmpersand" and "start q1 = Some (m', q2)"
    and "current_kind q2 = Punctuation PAmpersand" and "bump q2 = Some q'" and "st c True q [m', m] 0 q'"
proof -
  obtain m q0 where 0: "start q = Some (m, q0)" by (rule start_Some [OF assms(1)])
  with start_ok [OF st_refl [OF assms(1)]] have st0: "st c False q [m] 0 q0" "current_kind q0 = current_kind q"
    by (auto simp: wp_def same_place_simps)
  with assms(2) have kind: "current_kind q0 = Punctuation PLogicalAnd" by simp
  obtain q1 where 1: "split_current (Punctuation PAmpersand) (Punctuation PAmpersand) q0 = Some q1"
    using split_current_ok [OF st_ok [OF st0(1)] kind, of PAmpersand] by metis
  from split_and_ok [OF st0(1) kind 1] obtain m' q2 q' where
    2: "current_kind q1 = Punctuation PAmpersand" "start q1 = Some (m', q2)" "bump q2 = Some q'" "st c True q [m', m] 0 q'"
    by blast
  then have "current_kind q2 = Punctuation PAmpersand" using same_place_simps(1) [OF start_same [OF 2(2)]] by simp
  with 0 1 2 st0(2) that show thesis by blast
qed

lemma prefix_type_loop_ok:
  "ok c q \<Longrightarrow> good c R rec \<Longrightarrow> remaining q \<le> R \<Longrightarrow> wraps c ws q (prefix_type_loop rec a ws q)"
proof (induction "remaining q" arbitrary: q ws a rule: less_induct)
  case less
  let ?Q = "\<lambda>(ws', q'). \<exists>new. ws' = new @ ws \<and> st c False q (map fst new) 0 q'"
  have again: "wp c ?Q (prefix_type_loop rec a' (new @ ws) q')" if "st c True q (map fst new) 0 q'" for new q' a'
    unfolding wraps_def [symmetric]
    by (rule wraps_more [OF less.hyps that]) (use that less.prems in \<open>auto simp: st_def\<close>)
  have one: "wp c ?Q (Option.bind (start q) (\<lambda>(m, p). Option.bind (bump p) (\<lambda>p. prefix_type_loop rec a' ((m, k) # ws) p)))"
    if "current_kind q \<noteq> EndOfFile" for a' k
    by (rule wp_start [OF st_refl [OF less.prems(1)]], rule wp_prod, rule wp_bump, assumption)
      (use that again [of "[(_, k)]"] in auto)
  have main: "wp c ?Q (if callable then map_option (Pair ws) (parse_callable_type rec q)
      else if at_punctuation PStar q then do {
        (marker, p) \<leftarrow> start q;
        p \<leftarrow> bump p;
        prefix_type_loop rec True ((marker, ''pointer_type'') # ws) p }
      else if \<not> at_readonly_borrow q \<and> \<not> at_punctuation PReadWrite q then map_option (Pair ws) (type_atom rec q)
      else do {
        (marker, p) \<leftarrow> start q;
        p \<leftarrow> (if at_punctuation PLogicalAnd p
           then split_current (Punctuation PAmpersand) (Punctuation PAmpersand) p else bump p);
        prefix_type_loop rec False ((marker, ''borrow_type'') # ws) p })"
    if "callable \<Longrightarrow> at_callable_type q = Some True" for callable
  proof (cases "current_kind q = Punctuation PLogicalAnd")
    case True
    obtain m q0 q1 m' q2 q' where *: "start q = Some (m, q0)" "current_kind q0 = current_kind q"
      "split_current (Punctuation PAmpersand) (Punctuation PAmpersand) q0 = Some q1"
      "current_kind q1 = Punctuation PAmpersand" "start q1 = Some (m', q2)"
      "current_kind q2 = Punctuation PAmpersand" "bump q2 = Some q'" "st c True q [m', m] 0 q'"
      by (rule split_wrapper_ok [OF less.prems(1) True])
    have "prefix_type_loop rec False ((m, ''borrow_type'') # ws) q1
        = prefix_type_loop rec False ((m', ''borrow_type'') # (m, ''borrow_type'') # ws) q'"
      by (subst prefix_type_loop.simps) (use * in \<open>simp add: at_kind_def at_readonly_borrow_def\<close>)
    with again [of "[(m', ''borrow_type''), (m, ''borrow_type'')]" q' False] * True
    show ?thesis
      using wraps_none [OF callable_type_ok [OF less.prems(1) that less.prems(2,3)], of ws]
      by (auto simp: at_kind_def at_readonly_borrow_def wraps_def)
  next
    case False
    have keep: "at_punctuation PLogicalAnd p \<longleftrightarrow> False" if "start q = Some (m, p)" for m p
      using same_place_simps(1) [OF start_same [OF that]] False by (simp add: at_kind_def)
    have skip: "Option.bind (start q) (\<lambda>(marker, p). Option.bind (if at_punctuation PLogicalAnd p
        then split_current (Punctuation PAmpersand) (Punctuation PAmpersand) p else bump p) (f marker))
      = Option.bind (start q) (\<lambda>(marker, p). Option.bind (bump p) (f marker))" for f
      by (cases "start q") (auto simp: keep)
    show ?thesis
      unfolding skip
      using wraps_none [OF callable_type_ok [OF less.prems(1) that less.prems(2,3)], of ws]
        wraps_none [OF type_atom_ok [OF less.prems], of ws] one False
      by (auto simp: wraps_def at_kind_def at_readonly_borrow_def)
  qed
  show ?case
  proof (cases a)
    case True
    have "wp c ?Q (Option.bind (at_callable_type q) (\<lambda>callable. if callable then map_option (Pair ws) (parse_callable_type rec q)
      else if at_punctuation PStar q then do {
        (marker, p) \<leftarrow> start q;
        p \<leftarrow> bump p;
        prefix_type_loop rec True ((marker, ''pointer_type'') # ws) p }
      else if \<not> at_readonly_borrow q \<and> \<not> at_punctuation PReadWrite q then map_option (Pair ws) (type_atom rec q)
      else do {
        (marker, p) \<leftarrow> start q;
        p \<leftarrow> (if at_punctuation PLogicalAnd p
           then split_current (Punctuation PAmpersand) (Punctuation PAmpersand) p else bump p);
        prefix_type_loop rec False ((marker, ''borrow_type'') # ws) p }))"
      by (rule wp_at_callable [OF st_refl [OF less.prems(1)]], rule main, simp)
    with True show ?thesis unfolding wraps_def by (subst prefix_type_loop.simps) simp
  next
    case False
    from main [of False] False show ?thesis unfolding wraps_def by (subst prefix_type_loop.simps) simp
  qed
qed

lemma prefix_type_ok [oks]: "ok c q \<Longrightarrow> good c R rec \<Longrightarrow> remaining q \<le> R \<Longrightarrow> steps c q (prefix_type rec a q)"
  unfolding prefix_type_def
  by (rule steps_enter, assumption, rule wp_bind_bind, rule wp_wraps, rule prefix_type_loop_ok, (rule wp_bump2 wp_join walk wps ends | assumption | rule wp_call, rule oks good_sub | rule wp_return, rule oks
    | rule wp_yield, rule oks good_yields | rule wp_attempt, rule oks | erule st_ok | erule (1) step_less step_le
    | rule elementsI oks good_sub | erule le_less_trans | rule less_imp_le | erule not_eof, simp add: at_kind_def; fail
    | erule (1) not_eof_contextual | simp add: at_kind_def; fail
    | auto simp: at_kind_def; fail)+)

lemma parse_type_ok [oks]: "ok c q \<Longrightarrow> good c R rec \<Longrightarrow> remaining q \<le> R \<Longrightarrow> yields c q (parse_type rec q)"
  unfolding parse_type_def
  by (rule yields_enter, assumption, (rule wp_bump2 wp_join walk wps ends | assumption | rule wp_call, rule oks good_sub | rule wp_return, rule oks
    | rule wp_yield, rule oks good_yields | rule wp_attempt, rule oks | erule st_ok | erule (1) step_less step_le
    | rule elementsI oks good_sub | erule le_less_trans | rule less_imp_le | erule not_eof, simp add: at_kind_def; fail
    | erule (1) not_eof_contextual | simp add: at_kind_def; fail
    | auto simp: at_kind_def; fail)+)

lemma borrow_type_ok [oks]: "ok c q \<Longrightarrow> good c R rec \<Longrightarrow> remaining q \<le> R \<Longrightarrow> steps c q (parse_borrow_type rec q)"
  unfolding parse_borrow_type_def
  by (rule steps_enter, assumption, (rule wp_bump2 wp_join walk wps ends | assumption | rule wp_call, rule oks good_sub | rule wp_return, rule oks
    | rule wp_yield, rule oks good_yields | rule wp_attempt, rule oks | erule st_ok | erule (1) step_less step_le
    | rule elementsI oks good_sub | erule le_less_trans | rule less_imp_le | erule not_eof, simp add: at_kind_def; fail
    | erule (1) not_eof_contextual | simp add: at_kind_def; fail
    | auto simp: at_kind_def; fail)+)

section \<open>Interfaces and patterns\<close>

lemma wp_at_associated_bindings [wps]:
  assumes "st c b p ms d q" and "\<And>v. (v \<Longrightarrow> current_kind q = Punctuation PLeftBrace) \<Longrightarrow> wp c Q (g v)"
  shows "wp c Q (Option.bind (at_associated_bindings q) g)"
  using assms(2) ok_split(2) [OF st_ok [OF assms(1)]]
  by (cases "par_split q") (auto simp: at_associated_bindings_def at_kind_def)

lemma associated_type_binding_ok [oks]: "ok c q \<Longrightarrow> good c R rec \<Longrightarrow> remaining q < R \<Longrightarrow> steps c q (associated_type_binding rec q)"
  unfolding associated_type_binding_def
  by (rule steps_enter, assumption, (rule wp_bump2 wp_join walk wps ends | assumption | rule wp_call, rule oks good_sub | rule wp_return, rule oks
    | rule wp_yield, rule oks good_yields | rule wp_attempt, rule oks | erule st_ok | erule (1) step_less step_le
    | rule elementsI oks good_sub | erule le_less_trans | rule less_imp_le | erule not_eof, simp add: at_kind_def; fail
    | erule (1) not_eof_contextual | simp add: at_kind_def; fail
    | auto simp: at_kind_def; fail)+)

lemma associated_bindings_ok [oks]:
  "ok c q \<Longrightarrow> good c R rec \<Longrightarrow> remaining q \<le> R \<Longrightarrow> current_kind q \<noteq> EndOfFile \<Longrightarrow> steps c q (associated_bindings rec q)"
  unfolding associated_bindings_def
  by (rule steps_enter, assumption, (rule wp_bump2 wp_join walk wps ends | assumption | rule wp_call, rule oks good_sub | rule wp_return, rule oks
    | rule wp_yield, rule oks good_yields | rule wp_attempt, rule oks | erule st_ok | erule (1) step_less step_le
    | rule elementsI oks good_sub | erule le_less_trans | rule less_imp_le | erule not_eof, simp add: at_kind_def; fail
    | erule (1) not_eof_contextual | simp add: at_kind_def; fail
    | auto simp: at_kind_def; fail)+)

lemma interface_application_ok [oks]: "ok c q \<Longrightarrow> good c R rec \<Longrightarrow> remaining q \<le> R \<Longrightarrow> steps c q (interface_application rec q)"
  unfolding interface_application_def
  by (rule steps_enter, assumption, (rule wp_bump2 wp_join walk wps ends | assumption | rule wp_call, rule oks good_sub | rule wp_return, rule oks
    | rule wp_yield, rule oks good_yields | rule wp_attempt, rule oks | erule st_ok | erule (1) step_less step_le
    | rule elementsI oks good_sub | erule le_less_trans | rule less_imp_le | erule not_eof, simp add: at_kind_def; fail
    | erule (1) not_eof_contextual | simp add: at_kind_def; fail
    | auto simp: at_kind_def; fail)+)

lemma opaque_result_ok [oks]: "ok c q \<Longrightarrow> good c R rec \<Longrightarrow> remaining q \<le> R \<Longrightarrow> current_kind q \<noteq> EndOfFile \<Longrightarrow> steps c q (opaque_result rec q)"
  unfolding opaque_result_def
  by (rule steps_enter, assumption, (rule wp_bump2 wp_join walk wps ends | assumption | rule wp_call, rule oks good_sub | rule wp_return, rule oks
    | rule wp_yield, rule oks good_yields | rule wp_attempt, rule oks | erule st_ok | erule (1) step_less step_le
    | rule elementsI oks good_sub | erule le_less_trans | rule less_imp_le | erule not_eof, simp add: at_kind_def; fail
    | erule (1) not_eof_contextual | simp add: at_kind_def; fail
    | auto simp: at_kind_def; fail)+)

lemma callable_result_ok [oks]: "ok c q \<Longrightarrow> good c R rec \<Longrightarrow> remaining q < R \<Longrightarrow> steps c q (callable_result rec q)"
  unfolding callable_result_def
  by (rule steps_enter, assumption, (rule wp_bump2 wp_join walk wps ends | assumption | rule wp_call, rule oks good_sub | rule wp_return, rule oks
    | rule wp_yield, rule oks good_yields | rule wp_attempt, rule oks | erule st_ok | erule (1) step_less step_le
    | rule elementsI oks good_sub | erule le_less_trans | rule less_imp_le | erule not_eof, simp add: at_kind_def; fail
    | erule (1) not_eof_contextual | simp add: at_kind_def; fail
    | auto simp: at_kind_def; fail)+)

lemma declaration_type_pattern_ok [oks]: "ok c q \<Longrightarrow> good c R rec \<Longrightarrow> remaining q \<le> R \<Longrightarrow> steps c q (declaration_type_pattern rec q)"
  unfolding declaration_type_pattern_def
  by (rule steps_enter, assumption, (rule wp_bump2 wp_join walk wps ends | assumption | rule wp_call, rule oks good_sub | rule wp_return, rule oks
    | rule wp_yield, rule oks good_yields | rule wp_attempt, rule oks | erule st_ok | erule (1) step_less step_le
    | rule elementsI oks good_sub | erule le_less_trans | rule less_imp_le | erule not_eof, simp add: at_kind_def; fail
    | erule (1) not_eof_contextual | simp add: at_kind_def; fail
    | auto simp: at_kind_def; fail)+)

section \<open>Requirements\<close>

lemma scan_modifiers_tokens: "source_tokens q' = source_tokens q \<Longrightarrow> scan_modifiers ms g q' i = scan_modifiers ms g q i"
  by (induction ms arbitrary: i) (simp_all add: token_kind_at_def)

text \<open>\<open>prefixed g K q\<close>: a token of the kinds \<open>K\<close> stands after the prefix.\<close>

definition prefixed :: "callable_prefix_grammar \<Rightarrow> token_kind set \<Rightarrow> parser \<Rightarrow> bool" where
  "prefixed g K q \<longleftrightarrow> (\<exists>stop. scan_prefix q (par_cursor q) g = Some stop \<and> kind_at q stop \<in> K)"

lemma prefixed_same: "same_place q q' \<Longrightarrow> prefixed g K q \<Longrightarrow> prefixed g K q'"
  by (simp add: prefixed_def scan_prefix_def scan_modifiers_tokens [of q' q] same_place_simps)

lemma modifier_bump:
  assumes "par_split q = None" and "current_kind q \<noteq> EndOfFile" and "parse_modifier m q = Some q'"
  shows "par_split q' = None" and "par_cursor q' = par_cursor q + 1" and "source_tokens q' = source_tokens q"
proof -
  from assms(3) obtain i q1 q2 where *: "start q = Some (i, q1)" "bump q1 = Some q2" "complete_node i (modifier_node_kind m) q2 = Some q'"
    by (auto simp: parse_modifier_def split: bind_splits)
  from same_place_simps [OF start_same [OF *(1)]] assms(1,2) *(2)
  have "par_split q2 = None" "par_cursor q2 = par_cursor q + 1" "source_tokens q2 = source_tokens q"
    by (auto simp: bump_def current_kind_def kind_at_def push_event_def Let_def split: if_splits)
  with *(3) show "par_split q' = None" "par_cursor q' = par_cursor q + 1" "source_tokens q' = source_tokens q"
    by (auto simp: complete_node_def push_event_def split: if_splits event.splits)
qed

lemma parse_modifiers_scan:
  "par_split q = None \<Longrightarrow> scan_modifiers ms g q (par_cursor q) = Some stop \<Longrightarrow> parse_modifiers ms g q = Some q' \<Longrightarrow>
    par_split q' = None \<and> par_cursor q' = stop \<and> source_tokens q' = source_tokens q"
proof (induction ms arbitrary: q)
  case (Cons m ms)
  have "token_kind_at q (par_cursor q) = Some (current_kind q)" if "token_kind_at q (par_cursor q) \<noteq> None"
    using that Cons.prems(1) by (auto simp: token_kind_at_def current_kind_def kind_at_def split: if_splits)
  with Cons.prems(2) have scan: "scan_modifiers ms g q (if admits g m \<and> at_keyword (modifier_keyword m) q then par_cursor q + 1
      else par_cursor q) = Some stop"
    by (auto simp: at_kind_def split: if_splits bind_splits)
  show ?case
  proof (cases "admits g m \<and> at_keyword (modifier_keyword m) q")
    case True
    with Cons.prems(3) obtain q1 where q1: "parse_modifier m q = Some q1" "parse_modifiers ms g q1 = Some q'"
      by (auto split: bind_splits)
    note succ = modifier_bump [OF Cons.prems(1) _ q1(1)]
    from True have "current_kind q \<noteq> EndOfFile" by (simp add: at_kind_def)
    note succ = succ [OF this]
    have "scan_modifiers ms g q1 (par_cursor q1) = Some stop"
      using scan True succ(2) scan_modifiers_tokens [OF succ(3)] by simp
    from Cons.IH [OF succ(1) this q1(2)] succ(3) show ?thesis by simp
  next
    case False
    with Cons.prems scan Cons.IH [OF Cons.prems(1) _ ] show ?thesis by auto
  qed
qed simp

lemma wp_parse_prefix:
  assumes "st c b p ms d q" and "prefixed g K q" and "Punctuation PShiftRight \<notin> K"
    and "\<And>q'. st c b p ms d q' \<Longrightarrow> current_kind q' \<in> K \<Longrightarrow> par_split q' = None
      \<Longrightarrow> scan_prefix q (par_cursor q) g = Some (par_cursor q') \<Longrightarrow> kind_at q' = kind_at q \<Longrightarrow> wp c Q (f q')"
  shows "wp c Q (Option.bind (parse_prefix g q) f)"
proof -
  note q = st_ok [OF assms(1)]
  from assms(2) obtain stop where stop: "scan_prefix q (par_cursor q) g = Some stop" "kind_at q stop \<in> K"
    by (auto simp: prefixed_def)
  have range: "par_cursor q < length (source_tokens q)" by (rule cursor_in_range [OF assms(1)])
  have none: "par_split q = None"
  proof (rule ccontr)
    assume "par_split q \<noteq> None"
    from ok_split(3) [OF q this] range have "kind_at q (par_cursor q) = Punctuation PShiftRight" by (simp add: kind_at_def)
    with scan_modifiers_ok [OF q range, of all_modifiers g] stop assms(3) show False
      by (auto simp: scan_prefix_def at_modifier_def)
  qed
  show ?thesis
  proof (cases "parse_prefix g q")
    case None
    with parse_prefix_ok [OF q, of g] show ?thesis by (simp add: steps_def wp_def)
  next
    case (Some q')
    with parse_prefix_ok [OF q, of g] have q': "st c b p ms d q'"
      by (auto simp: steps_def wp_def intro: st_step [OF _ assms(1)])
    from parse_modifiers_scan [OF none] stop(1) Some
    have *: "par_split q' = None" "par_cursor q' = stop" "source_tokens q' = source_tokens q"
      by (auto simp: parse_prefix_def scan_prefix_def)
    then have "kind_at q' = kind_at q" by (simp add: kind_at_def fun_eq_iff)
    with * stop Some assms(4) [OF q'] show ?thesis by (simp add: current_kind_at)
  qed
qed

lemma callable_predicate_ok [oks]: "ok c q \<Longrightarrow> good c R rec \<Longrightarrow> remaining q < R \<Longrightarrow> steps c q (callable_predicate rec q)"
  unfolding callable_predicate_def
  by (rule steps_enter, assumption, (rule wp_bump2 wp_join walk wps ends | assumption | rule wp_call, rule oks good_sub | rule wp_return, rule oks
    | rule wp_yield, rule oks good_yields | rule wp_attempt, rule oks | erule st_ok | erule (1) step_less step_le
    | rule elementsI oks good_sub | erule le_less_trans | rule less_imp_le | erule not_eof, simp add: at_kind_def; fail
    | erule (1) not_eof_contextual | simp add: at_kind_def; fail
    | auto simp: at_kind_def; fail)+)

lemma interface_predicate_ok [oks]: "ok c q \<Longrightarrow> good c R rec \<Longrightarrow> remaining q < R \<Longrightarrow> steps c q (interface_predicate rec q)"
  unfolding interface_predicate_def
  by (rule steps_enter, assumption, (rule wp_bump2 wp_join walk wps ends | assumption | rule wp_call, rule oks good_sub | rule wp_return, rule oks
    | rule wp_yield, rule oks good_yields | rule wp_attempt, rule oks | erule st_ok | erule (1) step_less step_le
    | rule elementsI oks good_sub | erule le_less_trans | rule less_imp_le | erule not_eof, simp add: at_kind_def; fail
    | erule (1) not_eof_contextual | simp add: at_kind_def; fail
    | auto simp: at_kind_def; fail)+)

lemma copy_predicate_ok [oks]: "ok c q \<Longrightarrow> current_kind q \<noteq> EndOfFile \<Longrightarrow> steps c q (copy_predicate q)"
  unfolding copy_predicate_def
  by (rule steps_enter, assumption, (rule wp_bump2 wp_join walk wps ends | assumption | rule wp_call, rule oks good_sub | rule wp_return, rule oks
    | rule wp_yield, rule oks good_yields | rule wp_attempt, rule oks | erule st_ok | erule (1) step_less step_le
    | rule elementsI oks good_sub | erule le_less_trans | rule less_imp_le | erule not_eof, simp add: at_kind_def; fail
    | erule (1) not_eof_contextual | simp add: at_kind_def; fail
    | auto simp: at_kind_def; fail)+)

lemma type_equality_predicate_ok [oks]: "ok c q \<Longrightarrow> good c R rec \<Longrightarrow> remaining q < R \<Longrightarrow> steps c q (type_equality_predicate rec q)"
  unfolding type_equality_predicate_def
  by (rule steps_enter, assumption, (rule wp_bump2 wp_join walk wps ends | assumption | rule wp_call, rule oks good_sub | rule wp_return, rule oks
    | rule wp_yield, rule oks good_yields | rule wp_attempt, rule oks | erule st_ok | erule (1) step_less step_le
    | rule elementsI oks good_sub | erule le_less_trans | rule less_imp_le | erule not_eof, simp add: at_kind_def; fail
    | erule (1) not_eof_contextual | simp add: at_kind_def; fail
    | auto simp: at_kind_def; fail)+)

lemma operator_predicate_ok:
  "ok c q \<Longrightarrow> good c R rec \<Longrightarrow> remaining q < R \<Longrightarrow> prefixed ImmediateGuarantees {Punctuation PLeftParen} q \<Longrightarrow> steps c q (operator_predicate rec q)"
  unfolding operator_predicate_def
  by (rule steps_enter, assumption, rule wp_bind_bind, rule wp_start, assumption, rule wp_bind_prod,
      rule wp_bind_bind, rule wp_parse_prefix, assumption, erule (1) prefixed_same, simp, simp only: singleton_iff)
    (rule wp_bump2 wp_join walk wps ends | assumption | rule wp_call, rule oks good_sub | rule wp_return, rule oks
    | rule wp_yield, rule oks good_yields | rule wp_attempt, rule oks | erule st_ok | erule (1) step_less step_le
    | rule elementsI oks good_sub | erule le_less_trans | rule less_imp_le | erule not_eof, simp add: at_kind_def; fail
    | erule (1) not_eof_contextual | simp add: at_kind_def; fail
    | auto simp: at_kind_def; fail)+

lemma coercion_predicate_ok:
  "ok c q \<Longrightarrow> good c R rec \<Longrightarrow> remaining q < R \<Longrightarrow> prefixed ImmediateGuarantees {Punctuation PAmpersand, Punctuation PReadWrite} q \<Longrightarrow>
    steps c q (coercion_predicate rec q)"
  unfolding coercion_predicate_def
  by (rule steps_enter, assumption, rule wp_bind_bind, rule wp_start, assumption, rule wp_bind_prod,
      rule wp_bind_bind, rule wp_parse_prefix, assumption, erule (1) prefixed_same, simp)
    (rule wp_bump2 wp_join walk wps ends | assumption | rule wp_call, rule oks good_sub | rule wp_return, rule oks
    | rule wp_yield, rule oks good_yields | rule wp_attempt, rule oks | erule st_ok | erule (1) step_less step_le
    | rule elementsI oks good_sub | erule le_less_trans | rule less_imp_le | erule not_eof, simp add: at_kind_def; fail
    | erule (1) not_eof_contextual | simp add: at_kind_def; fail
    | auto simp: at_kind_def; fail)+

lemma expansion_predicate_ok:
  assumes "ok c q" and "good c R rec" and "remaining q < R" and "prefixed ImmediateGuarantees {Punctuation PLeftParen} q"
    and "\<And>stop. scan_prefix q (par_cursor q) ImmediateGuarantees = Some stop \<Longrightarrow> kind_at q (stop + 1) \<noteq> EndOfFile"
  shows "steps c q (expansion_predicate rec q)"
proof -
  have known: "kind_at q2 (par_cursor q2 + 1) \<noteq> EndOfFile"
    if "same_place q q1" "scan_prefix q1 (par_cursor q1) ImmediateGuarantees = Some (par_cursor q2)" "kind_at q2 = kind_at q1"
    for q1 q2
    using assms(5) [of "par_cursor q2"] that
    by (simp add: same_place_simps scan_prefix_def scan_modifiers_tokens [of q1 q])
  show ?thesis
    unfolding expansion_predicate_def
    apply (rule steps_enter [OF assms(1)], rule wp_bind_bind, rule wp_start, assumption, rule wp_bind_prod)
    apply (rule wp_bind_bind, rule wp_parse_prefix, assumption, erule prefixed_same, rule assms(4), simp, simp only: singleton_iff)
    apply (rule wp_bind_bind, rule wp_bump2_bind, assumption, assumption, simp, rule known, assumption+)
    apply (insert assms(2,3))
    apply (rule wp_bump2 wp_join walk wps ends | assumption | rule wp_call, rule oks good_sub | rule wp_return, rule oks
    | rule wp_yield, rule oks good_yields | rule wp_attempt, rule oks | erule st_ok | erule (1) step_less step_le
    | rule elementsI oks good_sub | erule le_less_trans | rule less_imp_le | erule not_eof, simp add: at_kind_def; fail
    | erule (1) not_eof_contextual | simp add: at_kind_def; fail
    | auto simp: at_kind_def; fail)+
    done
qed

lemma prefixed_range:
  assumes "ok c q" and "scan_prefix q (par_cursor q) g = Some stop"
  shows "stop < length (source_tokens q)"
  using scan_modifiers_ok [OF assms(1), of "par_cursor q" all_modifiers g] assms
  by (auto simp: scan_prefix_def ok_def)

lemma parenthesized_predicate_ok:
  assumes "ok c q" and "good c R rec" and "remaining q < R" and "prefixed ImmediateGuarantees {Punctuation PLeftParen} q"
  shows "steps c q (parenthesized_predicate rec q)"
proof -
  from assms(4) obtain stop where stop: "scan_prefix q (par_cursor q) ImmediateGuarantees = Some stop"
    "kind_at q stop = Punctuation PLeftParen" by (auto simp: prefixed_def)
  with after_in_range [OF st_refl [OF assms(1)] prefixed_range [OF assms(1)], of _ stop]
  have "stop + 1 < length (source_tokens q)" by simp
  then have "token_kind_at q (stop + 1) = Some (kind_at q (stop + 1))" by (simp add: token_kind_at_def kind_at_def)
  with stop operator_predicate_ok [OF assms] expansion_predicate_ok [OF assms] show ?thesis
    by (auto simp: parenthesized_predicate_def)
qed

lemma plain_predicate_ok [oks]: "ok c q \<Longrightarrow> good c R rec \<Longrightarrow> remaining q < R \<Longrightarrow> steps c q (plain_predicate rec q)"
  unfolding plain_predicate_def
  by (rule steps_enter, assumption, (rule wp_bump2 wp_join walk wps ends | assumption | rule wp_call, rule oks good_sub | rule wp_return, rule oks
    | rule wp_yield, rule oks good_yields | rule wp_attempt, rule oks | erule st_ok | erule (1) step_less step_le
    | rule elementsI oks good_sub | erule le_less_trans | rule less_imp_le | erule not_eof, simp add: at_kind_def; fail
    | erule (1) not_eof_contextual | simp add: at_kind_def; fail
    | auto simp: at_kind_def; fail)+)

lemma predicate_ok [oks]:
  assumes "ok c q" and "good c R rec" and "remaining q < R"
  shows "steps c q (parse_predicate rec q)"
proof -
  obtain stop where stop: "scan_prefix q (par_cursor q) ImmediateGuarantees = Some stop"
    using scan_modifiers_ok [OF assms(1), of "par_cursor q" all_modifiers ImmediateGuarantees] assms(1)
    by (auto simp: scan_prefix_def ok_def)
  have kind: "token_kind_at q stop = Some (kind_at q stop)"
    using prefixed_range [OF assms(1) stop] by (simp add: token_kind_at_def kind_at_def)
  have prefixed: "kind_at q stop \<in> K \<Longrightarrow> prefixed ImmediateGuarantees K q" for K
    using stop by (auto simp: prefixed_def)
  note steps = parenthesized_predicate_ok [OF assms prefixed] coercion_predicate_ok [OF assms prefixed]
  have "steps c q (if kind_at q stop = Punctuation PLeftParen then parenthesized_predicate rec q
     else if kind_at q stop = Punctuation PAmpersand \<or> kind_at q stop = Punctuation PReadWrite then do {
       (parsed, p) \<leftarrow> attempt (coercion_predicate rec) q;
       if parsed then Some p else type_equality_predicate rec p }
     else if stop \<noteq> par_cursor q then error_token ExpectedPredicate q
     else plain_predicate rec q)"
    apply (rule steps_enter [OF assms(1)], rule wp_bind_if)
     apply (rule wp_call, rule steps(1), simp, assumption, erule wp_done)
    apply (rule wp_bind_if)
     apply (rule wp_bind_bind, rule wp_attempt, rule steps(2), simp, assumption)
    apply (insert assms(2,3))
    apply (rule wp_bump2 wp_join walk wps ends | assumption | rule wp_call, rule oks good_sub | rule wp_return, rule oks
    | rule wp_yield, rule oks good_yields | rule wp_attempt, rule oks | erule st_ok | erule (1) step_less step_le
    | rule elementsI oks good_sub | erule le_less_trans | rule less_imp_le | erule not_eof, simp add: at_kind_def; fail
    | erule (1) not_eof_contextual | simp add: at_kind_def; fail
    | auto simp: at_kind_def; fail)+
    done
  then show ?thesis by (simp add: parse_predicate_def stop kind)
qed

lemma where_loop_ok: "ok c q \<Longrightarrow> good c R rec \<Longrightarrow> remaining q \<le> R \<Longrightarrow> steps c q (where_loop rec q)"
proof (induction "remaining q" arbitrary: q rule: less_induct)
  case less
  have again: "steps c q' (where_loop rec q')" if "st c True q [] 0 q'" for q'
    using that less.prems by (intro less.hyps) (auto simp: st_def)
  show ?case
    by (subst where_loop.simps, rule steps_enter [OF less.prems(1)])
      (rule wp_join walk wps ends | assumption | rule wp_call, rule again, assumption | rule wp_call, rule oks | erule st_ok
        | rule less.prems | erule step_less | simp; fail)+
qed

lemma where_clause_ok [oks]: "ok c q \<Longrightarrow> good c R rec \<Longrightarrow> remaining q \<le> R \<Longrightarrow> current_kind q \<noteq> EndOfFile \<Longrightarrow> steps c q (where_clause rec q)"
  unfolding where_clause_def
  by (rule steps_enter, assumption, (rule wp_call, rule where_loop_ok | (rule wp_bump2 wp_join walk wps ends | assumption | rule wp_call, rule oks good_sub | rule wp_return, rule oks
    | rule wp_yield, rule oks good_yields | rule wp_attempt, rule oks | erule st_ok | erule (1) step_less step_le
    | rule elementsI oks good_sub | erule le_less_trans | rule less_imp_le | erule not_eof, simp add: at_kind_def; fail
    | erule (1) not_eof_contextual | simp add: at_kind_def; fail
    | auto simp: at_kind_def; fail)+)+)

lemma optional_requirements_ok [oks]: "ok c q \<Longrightarrow> good c R rec \<Longrightarrow> remaining q \<le> R \<Longrightarrow> steps c q (optional_requirements rec q)"
  unfolding optional_requirements_def
  by (rule steps_enter, assumption, (rule wp_bump2 wp_join walk wps ends | assumption | rule wp_call, rule oks good_sub | rule wp_return, rule oks
    | rule wp_yield, rule oks good_yields | rule wp_attempt, rule oks | erule st_ok | erule (1) step_less step_le
    | rule elementsI oks good_sub | erule le_less_trans | rule less_imp_le | erule not_eof, simp add: at_kind_def; fail
    | erule (1) not_eof_contextual | simp add: at_kind_def; fail
    | auto simp: at_kind_def; fail)+)

end
