(* ===== verification/Expression_Steps.thy ===== *)
theory Expression_Steps
  imports Type_Steps Parser_Expressions
begin

text \<open>
  The contracts of the productions of \<open>Parser_Expressions\<close>. A production that grows around the expression before it
  keeps the contract of the state in which that expression began.
\<close>

section \<open>Blocks, strings and allocators\<close>

lemma blocks_ok [oks]:
  "ok c q \<Longrightarrow> good c R rec \<Longrightarrow> remaining q < R \<Longrightarrow> steps c q (optional_block rec q)"
  "ok c q \<Longrightarrow> good c R rec \<Longrightarrow> remaining q < R \<Longrightarrow> steps c q (required_block rec q)"
  unfolding optional_block_def required_block_def
  by (rule steps_enter, assumption, (rule wp_bump2 wp_join walk wps ends | assumption | rule wp_call, rule oks good_sub | rule wp_return, rule oks
    | rule wp_yield, rule oks good_yields | rule wp_attempt, rule oks | erule st_ok | erule (1) step_less step_le
    | rule elementsI oks good_sub | erule le_less_trans | rule less_imp_le | erule not_eof, simp add: at_kind_def; fail
    | erule (1) not_eof_contextual | simp add: at_kind_def; fail
    | auto simp: at_kind_def; fail)+)+

lemma skip_string_ok [oks]: "ok c q \<Longrightarrow> steps c q (skip_string e q)"
proof (induction "remaining q" arbitrary: q rule: less_induct)
  case less
  show ?case
    by (subst skip_string.simps, rule steps_enter [OF less.prems], rule wp_bind_if, rule wp_bind_Some, erule wp_done)
      (rule wp_bind_bind, rule wp_error_token, assumption, rule wp_call, rule less.hyps,
        auto simp: st_def at_kind_def intro: wp_done)
qed

lemma string_start_Some [simp]: "string_start k = Some e \<longleftrightarrow> k = StringStart e"
  by (cases k) (auto simp: string_start_def)

lemma wp_bind_option:
  "(x = None \<Longrightarrow> wp c Q (Option.bind y g)) \<Longrightarrow> (\<And>v. x = Some v \<Longrightarrow> wp c Q (Option.bind (z v) g))
    \<Longrightarrow> wp c Q (Option.bind (case x of None \<Rightarrow> y | Some v \<Rightarrow> z v) g)"
  by (cases x) auto

lemma string_literal_ok [oks]: "ok c q \<Longrightarrow> steps c q (parse_string_literal q)"
  unfolding parse_string_literal_def
  by (rule steps_enter, assumption, (rule wp_bind_option | (rule wp_bump2 wp_join walk wps ends | assumption | rule wp_call, rule oks good_sub | rule wp_return, rule oks
    | rule wp_yield, rule oks good_yields | rule wp_attempt, rule oks | erule st_ok | erule (1) step_less step_le
    | rule elementsI oks good_sub | erule le_less_trans | rule less_imp_le | erule not_eof, simp add: at_kind_def; fail
    | erule (1) not_eof_contextual | simp add: at_kind_def; fail
    | auto simp: at_kind_def; fail)+)+)

lemma allocation_override_ok [oks]: "ok c q \<Longrightarrow> steps c q (allocation_override q)"
  unfolding allocation_override_def
  by (rule steps_enter, assumption, (rule wp_bump2 wp_join walk wps ends | assumption | rule wp_call, rule oks good_sub | rule wp_return, rule oks
    | rule wp_yield, rule oks good_yields | rule wp_attempt, rule oks | erule st_ok | erule (1) step_less step_le
    | rule elementsI oks good_sub | erule le_less_trans | rule less_imp_le | erule not_eof, simp add: at_kind_def; fail
    | erule (1) not_eof_contextual | simp add: at_kind_def; fail
    | auto simp: at_kind_def; fail)+)

section \<open>Elements of literals and calls\<close>

lemma spread_operand_ok [oks]: "ok c q \<Longrightarrow> good c R rec \<Longrightarrow> remaining q < R \<Longrightarrow> steps c q (spread_operand rec q)"
  unfolding spread_operand_def
  by (rule steps_enter, assumption, (rule wp_bump2 wp_join walk wps ends | assumption | rule wp_call, rule oks good_sub | rule wp_return, rule oks
    | rule wp_yield, rule oks good_yields | rule wp_attempt, rule oks | erule st_ok | erule (1) step_less step_le
    | rule elementsI oks good_sub | erule le_less_trans | rule less_imp_le | erule not_eof, simp add: at_kind_def; fail
    | erule (1) not_eof_contextual | simp add: at_kind_def; fail
    | auto simp: at_kind_def; fail)+)

lemma call_argument_ok [oks]: "ok c q \<Longrightarrow> good c R rec \<Longrightarrow> remaining q < R \<Longrightarrow> steps c q (call_argument rec q)"
  unfolding call_argument_def
  by (rule steps_enter, assumption, (rule wp_bump2 wp_join walk wps ends | assumption | rule wp_call, rule oks good_sub | rule wp_return, rule oks
    | rule wp_yield, rule oks good_yields | rule wp_attempt, rule oks | erule st_ok | erule (1) step_less step_le
    | rule elementsI oks good_sub | erule le_less_trans | rule less_imp_le | erule not_eof, simp add: at_kind_def; fail
    | erule (1) not_eof_contextual | simp add: at_kind_def; fail
    | auto simp: at_kind_def; fail)+)

lemma suffixes_ok [oks]:
  "ok c q \<Longrightarrow> good c R rec \<Longrightarrow> remaining q \<le> R \<Longrightarrow> current_kind q \<noteq> EndOfFile \<Longrightarrow> steps c q (call_suffix rec q)"
  "ok c q \<Longrightarrow> good c R rec \<Longrightarrow> remaining q \<le> R \<Longrightarrow> current_kind q \<noteq> EndOfFile \<Longrightarrow> steps c q (index_suffix rec q)"
  unfolding call_suffix_def index_suffix_def
  by (rule steps_enter, assumption, (rule wp_bump2 wp_join walk wps ends | assumption | rule wp_call, rule oks good_sub | rule wp_return, rule oks
    | rule wp_yield, rule oks good_yields | rule wp_attempt, rule oks | erule st_ok | erule (1) step_less step_le
    | rule elementsI oks good_sub | erule le_less_trans | rule less_imp_le | erule not_eof, simp add: at_kind_def; fail
    | erule (1) not_eof_contextual | simp add: at_kind_def; fail
    | auto simp: at_kind_def; fail)+)+

section \<open>Control expressions\<close>

lemma payload_slot_ok [oks]: "ok c q \<Longrightarrow> steps c q (payload_slot q)"
  unfolding payload_slot_def
  by (rule steps_enter, assumption, (rule wp_bump2 wp_join walk wps ends | assumption | rule wp_call, rule oks good_sub | rule wp_return, rule oks
    | rule wp_yield, rule oks good_yields | rule wp_attempt, rule oks | erule st_ok | erule (1) step_less step_le
    | rule elementsI oks good_sub | erule le_less_trans | rule less_imp_le | erule not_eof, simp add: at_kind_def; fail
    | erule (1) not_eof_contextual | simp add: at_kind_def; fail
    | auto simp: at_kind_def; fail)+)

lemma enum_payload_ok [oks]: "ok c q \<Longrightarrow> current_kind q \<noteq> EndOfFile \<Longrightarrow> steps c q (enum_payload q)"
  unfolding enum_payload_def
  by (rule steps_enter, assumption, (rule wp_bump2 wp_join walk wps ends | assumption | rule wp_call, rule oks good_sub | rule wp_return, rule oks
    | rule wp_yield, rule oks good_yields | rule wp_attempt, rule oks | erule st_ok | erule (1) step_less step_le
    | rule elementsI oks good_sub | erule le_less_trans | rule less_imp_le | erule not_eof, simp add: at_kind_def; fail
    | erule (1) not_eof_contextual | simp add: at_kind_def; fail
    | auto simp: at_kind_def; fail)+)

lemma enum_pattern_ok [oks]: "ok c q \<Longrightarrow> steps c q (enum_pattern q)"
  unfolding enum_pattern_def
  by (rule steps_enter, assumption, (rule wp_bump2 wp_join walk wps ends | assumption | rule wp_call, rule oks good_sub | rule wp_return, rule oks
    | rule wp_yield, rule oks good_yields | rule wp_attempt, rule oks | erule st_ok | erule (1) step_less step_le
    | rule elementsI oks good_sub | erule le_less_trans | rule less_imp_le | erule not_eof, simp add: at_kind_def; fail
    | erule (1) not_eof_contextual | simp add: at_kind_def; fail
    | auto simp: at_kind_def; fail)+)

lemma if_condition_ok [oks]: "ok c q \<Longrightarrow> good c R rec \<Longrightarrow> remaining q < R \<Longrightarrow> steps c q (if_condition rec q)"
  unfolding if_condition_def
  by (rule steps_enter, assumption, (rule wp_bump2 wp_join walk wps ends | assumption | rule wp_call, rule oks good_sub | rule wp_return, rule oks
    | rule wp_yield, rule oks good_yields | rule wp_attempt, rule oks | erule st_ok | erule (1) step_less step_le
    | rule elementsI oks good_sub | erule le_less_trans | rule less_imp_le | erule not_eof, simp add: at_kind_def; fail
    | erule (1) not_eof_contextual | simp add: at_kind_def; fail
    | auto simp: at_kind_def; fail)+)

lemma else_clause_ok [oks]: "ok c q \<Longrightarrow> good c R rec \<Longrightarrow> remaining q \<le> R \<Longrightarrow> current_kind q \<noteq> EndOfFile \<Longrightarrow> steps c q (else_clause rec q)"
  unfolding else_clause_def
  by (rule steps_enter, assumption, (rule wp_bump2 wp_join walk wps ends | assumption | rule wp_call, rule oks good_sub | rule wp_return, rule oks
    | rule wp_yield, rule oks good_yields | rule wp_attempt, rule oks | erule st_ok | erule (1) step_less step_le
    | rule elementsI oks good_sub | erule le_less_trans | rule less_imp_le | erule not_eof, simp add: at_kind_def; fail
    | erule (1) not_eof_contextual | simp add: at_kind_def; fail
    | auto simp: at_kind_def; fail)+)

lemma if_expression_ok [oks]: "ok c q \<Longrightarrow> good c R rec \<Longrightarrow> remaining q \<le> R \<Longrightarrow> current_kind q = Keyword KwIf \<Longrightarrow> yields c q (if_expression rec q)"
  unfolding if_expression_def
  by (rule yields_enter, assumption, rule wp_bind_bind, rule wp_start, assumption, rule wp_bind_prod,
      subst expect_keyword_at, simp, (rule wp_bump2 wp_join walk wps ends | assumption | rule wp_call, rule oks good_sub | rule wp_return, rule oks
    | rule wp_yield, rule oks good_yields | rule wp_attempt, rule oks | erule st_ok | erule (1) step_less step_le
    | rule elementsI oks good_sub | erule le_less_trans | rule less_imp_le | erule not_eof, simp add: at_kind_def; fail
    | erule (1) not_eof_contextual | simp add: at_kind_def; fail
    | auto simp: at_kind_def; fail)+)

lemma match_arm_ok [oks]: "ok c q \<Longrightarrow> good c R rec \<Longrightarrow> remaining q < R \<Longrightarrow> steps c q (match_arm rec q)"
  unfolding match_arm_def
  by (rule steps_enter, assumption, (rule wp_bump2 wp_join walk wps ends | assumption | rule wp_call, rule oks good_sub | rule wp_return, rule oks
    | rule wp_yield, rule oks good_yields | rule wp_attempt, rule oks | erule st_ok | erule (1) step_less step_le
    | rule elementsI oks good_sub | erule le_less_trans | rule less_imp_le | erule not_eof, simp add: at_kind_def; fail
    | erule (1) not_eof_contextual | simp add: at_kind_def; fail
    | auto simp: at_kind_def; fail)+)

lemma match_expression_ok [oks]:
  "ok c q \<Longrightarrow> good c R rec \<Longrightarrow> remaining q \<le> R \<Longrightarrow> current_kind q = Keyword KwMatch \<Longrightarrow> yields c q (match_expression rec q)"
  unfolding match_expression_def
  by (rule yields_enter, assumption, rule wp_bind_bind, rule wp_start, assumption, rule wp_bind_prod,
      subst expect_keyword_at, simp, (rule wp_bump2 wp_join walk wps ends | assumption | rule wp_call, rule oks good_sub | rule wp_return, rule oks
    | rule wp_yield, rule oks good_yields | rule wp_attempt, rule oks | erule st_ok | erule (1) step_less step_le
    | rule elementsI oks good_sub | erule le_less_trans | rule less_imp_le | erule not_eof, simp add: at_kind_def; fail
    | erule (1) not_eof_contextual | simp add: at_kind_def; fail
    | auto simp: at_kind_def; fail)+)

section \<open>Closures and groups\<close>

lemma closure_scan_Some: "0 < n \<Longrightarrow> closure_scan n ks \<noteq> None"
  by (induction ks arbitrary: n) auto

lemma wp_is_closure_start [wps]:
  assumes "st c b p ms d q" and "current_kind q = Punctuation PLeftParen" and "\<And>v. wp c Q (g v)"
  shows "wp c Q (Option.bind (is_closure_start q) g)"
proof -
  from ok_split(2) [OF st_ok [OF assms(1)]] assms(2) have none: "par_split q = None" by (cases "par_split q") auto
  from cursor_in_range [OF assms(1)] have i: "par_cursor q < length (source_tokens q)" .
  with none assms(2) have "token_kind (source_tokens q ! par_cursor q) = Punctuation PLeftParen"
    by (simp add: current_kind_def kind_at_def)
  with i closure_scan_Some [of 1] none have "is_closure_start q \<noteq> None"
    by (simp add: is_closure_start_def Cons_nth_drop_Suc [symmetric])
  with assms(3) show ?thesis by auto
qed

lemma grouped_expression_ok [oks]:
  "ok c q \<Longrightarrow> good c R rec \<Longrightarrow> remaining q \<le> R \<Longrightarrow> current_kind q \<noteq> EndOfFile \<Longrightarrow> yields c q (grouped_expression rec q)"
  unfolding grouped_expression_def
  by (rule yields_enter, assumption, (rule wp_bump2 wp_join walk wps ends | assumption | rule wp_call, rule oks good_sub | rule wp_return, rule oks
    | rule wp_yield, rule oks good_yields | rule wp_attempt, rule oks | erule st_ok | erule (1) step_less step_le
    | rule elementsI oks good_sub | erule le_less_trans | rule less_imp_le | erule not_eof, simp add: at_kind_def; fail
    | erule (1) not_eof_contextual | simp add: at_kind_def; fail
    | auto simp: at_kind_def; fail)+)

lemma closure_capture_ok [oks]: "ok c q \<Longrightarrow> steps c q (closure_capture q)"
  unfolding closure_capture_def at_capture_def
  by (rule steps_enter, assumption, (rule wp_bump2 wp_join walk wps ends | assumption | rule wp_call, rule oks good_sub | rule wp_return, rule oks
    | rule wp_yield, rule oks good_yields | rule wp_attempt, rule oks | erule st_ok | erule (1) step_less step_le
    | rule elementsI oks good_sub | erule le_less_trans | rule less_imp_le | erule not_eof, simp add: at_kind_def; fail
    | erule (1) not_eof_contextual | simp add: at_kind_def; fail
    | auto simp: at_kind_def; fail)+)

lemma closure_capture_list_ok [oks]: "ok c q \<Longrightarrow> steps c q (closure_capture_list q)"
proof (induction "remaining q" arbitrary: q rule: less_induct)
  case less
  have next_ok: "steps c q' (closure_capture_list q')" if "moved c q q'" "current_kind q' \<noteq> EndOfFile" for q'
    using moved_less [OF that] that by (intro less.hyps) (auto dest: moved_st st_ok)
  have after_comma: "steps c q' (closure_capture_list q')" if "st c True q [] 0 q'" for q'
    using that by (intro less.hyps) (auto simp: st_def)
  show ?case
    apply (subst closure_capture_list.simps, rule steps_enter [OF less.prems])
    apply (rule wp_bind_bind, rule wp_call, rule closure_capture_ok [OF less.prems], assumption)
    apply (rule wp_bind_bind, rule wp_guard [OF less.prems], assumption, simp)
    apply (rule wp_bind_bind, rule wp_eat, erule moved_st, simp)
    subgoal by (rule walk wps ends | assumption | rule wp_call, rule after_comma | simp; fail)+
    apply (rule wp_bind_prod, rule wp_bind_bind, rule wp_moved_newlines, assumption, rule wp_bind_prod, rule wp_bind_if)
     apply (rule wp_bind_Some, rule wp_done, erule moved_st)
    apply (rule wp_bind_if_False, rule wp_bind_if_kind)
     apply (rule wp_bind_Some, rule wp_done, erule moved_st)
    apply (rule wp_bind_bind, rule wp_moved_missing, assumption)
    apply (rule wp_call, rule next_ok, assumption, simp, erule moved_st, erule wp_done)
    done
qed

lemma closure_parameter_ok [oks]: "ok c q \<Longrightarrow> good c R rec \<Longrightarrow> remaining q < R \<Longrightarrow> steps c q (closure_parameter rec q)"
  unfolding closure_parameter_def
  by (rule steps_enter, assumption, (rule wp_bump2 wp_join walk wps ends | assumption | rule wp_call, rule oks good_sub | rule wp_return, rule oks
    | rule wp_yield, rule oks good_yields | rule wp_attempt, rule oks | erule st_ok | erule (1) step_less step_le
    | rule elementsI oks good_sub | erule le_less_trans | rule less_imp_le | erule not_eof, simp add: at_kind_def; fail
    | erule (1) not_eof_contextual | simp add: at_kind_def; fail
    | auto simp: at_kind_def; fail)+)

lemma closure_parameters_ok [oks]: "ok c q \<Longrightarrow> good c R rec \<Longrightarrow> remaining q < R \<Longrightarrow> steps c q (closure_parameters rec q)"
  unfolding closure_parameters_def
  by (rule steps_enter, assumption, (rule wp_bump2 wp_join walk wps ends | assumption | rule wp_call, rule oks good_sub | rule wp_return, rule oks
    | rule wp_yield, rule oks good_yields | rule wp_attempt, rule oks | erule st_ok | erule (1) step_less step_le
    | rule elementsI oks good_sub | erule le_less_trans | rule less_imp_le | erule not_eof, simp add: at_kind_def; fail
    | erule (1) not_eof_contextual | simp add: at_kind_def; fail
    | auto simp: at_kind_def; fail)+)

lemma closure_captures_ok [oks]: "ok c q \<Longrightarrow> good c R rec \<Longrightarrow> remaining q < R \<Longrightarrow> steps c q (closure_captures rec q)"
  unfolding closure_captures_def
  by (rule steps_enter, assumption, (rule wp_bump2 wp_join walk wps ends | assumption | rule wp_call, rule oks good_sub | rule wp_return, rule oks
    | rule wp_yield, rule oks good_yields | rule wp_attempt, rule oks | erule st_ok | erule (1) step_less step_le
    | rule elementsI oks good_sub | erule le_less_trans | rule less_imp_le | erule not_eof, simp add: at_kind_def; fail
    | erule (1) not_eof_contextual | simp add: at_kind_def; fail
    | auto simp: at_kind_def; fail)+)

lemma closure_head_ok [oks]: "ok c q \<Longrightarrow> good c R rec \<Longrightarrow> remaining q < R \<Longrightarrow> steps c q (closure_head rec q)"
  unfolding closure_head_def
  by (rule steps_enter, assumption, (rule wp_bump2 wp_join walk wps ends | assumption | rule wp_call, rule oks good_sub | rule wp_return, rule oks
    | rule wp_yield, rule oks good_yields | rule wp_attempt, rule oks | erule st_ok | erule (1) step_less step_le
    | rule elementsI oks good_sub | erule le_less_trans | rule less_imp_le | erule not_eof, simp add: at_kind_def; fail
    | erule (1) not_eof_contextual | simp add: at_kind_def; fail
    | auto simp: at_kind_def; fail)+)

lemma closure_result_ok [oks]: "ok c q \<Longrightarrow> good c R rec \<Longrightarrow> remaining q \<le> R \<Longrightarrow> steps c q (closure_result rec q)"
  unfolding closure_result_def
  by (rule steps_enter, assumption, (rule wp_bump2 wp_join walk wps ends | assumption | rule wp_call, rule oks good_sub | rule wp_return, rule oks
    | rule wp_yield, rule oks good_yields | rule wp_attempt, rule oks | erule st_ok | erule (1) step_less step_le
    | rule elementsI oks good_sub | erule le_less_trans | rule less_imp_le | erule not_eof, simp add: at_kind_def; fail
    | erule (1) not_eof_contextual | simp add: at_kind_def; fail
    | auto simp: at_kind_def; fail)+)

lemma closure_expression_ok [oks]:
  "ok c q \<Longrightarrow> good c R rec \<Longrightarrow> remaining q \<le> R \<Longrightarrow> current_kind q \<noteq> EndOfFile \<Longrightarrow> yields c q (closure_expression rec q)"
  unfolding closure_expression_def
  by (rule yields_enter, assumption, (rule wp_bump2 wp_join walk wps ends | assumption | rule wp_call, rule oks good_sub | rule wp_return, rule oks
    | rule wp_yield, rule oks good_yields | rule wp_attempt, rule oks | erule st_ok | erule (1) step_less step_le
    | rule elementsI oks good_sub | erule le_less_trans | rule less_imp_le | erule not_eof, simp add: at_kind_def; fail
    | erule (1) not_eof_contextual | simp add: at_kind_def; fail
    | auto simp: at_kind_def; fail)+)

lemma grouped_or_closure_ok [oks]:
  "ok c q \<Longrightarrow> good c R rec \<Longrightarrow> remaining q \<le> R \<Longrightarrow> current_kind q = Punctuation PLeftParen \<Longrightarrow> yields c q (grouped_or_closure rec mode q)"
  unfolding grouped_or_closure_def
  by (rule yields_enter, assumption, (rule wp_bump2 wp_join walk wps ends | assumption | rule wp_call, rule oks good_sub | rule wp_return, rule oks
    | rule wp_yield, rule oks good_yields | rule wp_attempt, rule oks | erule st_ok | erule (1) step_less step_le
    | rule elementsI oks good_sub | erule le_less_trans | rule less_imp_le | erule not_eof, simp add: at_kind_def; fail
    | erule (1) not_eof_contextual | simp add: at_kind_def; fail
    | auto simp: at_kind_def; fail)+)

section \<open>Literals\<close>

named_theorems carried \<open>productions around the expression before them\<close>

lemma carried_enter:
  "wp c (\<lambda>(m, q). st c False p [] 0 q \<and> last_at p [] m q) (Option.bind r Some) \<Longrightarrow> yields c p r"
  by (simp add: yields_def)

lemma wp_tail:
  "yields c p r \<Longrightarrow> wp c (\<lambda>(m, q). st c False p [] 0 q \<and> last_at p [] m q) (Option.bind r Some)"
  by (simp add: yields_def)

lemma field_initializer_ok [oks]: "ok c q \<Longrightarrow> good c R rec \<Longrightarrow> remaining q < R \<Longrightarrow> steps c q (field_initializer rec q)"
  unfolding field_initializer_def
  by (rule steps_enter, assumption, (rule wp_bump2 wp_join walk wps ends | assumption | rule wp_call, rule oks good_sub | rule wp_return, rule oks
    | rule wp_tail, rule carried | rule wp_yield_at, rule oks | rule wp_yield, rule oks good_yields | erule (1) keepsD | rule wp_attempt, rule oks | erule st_ok | erule (1) step_less step_le
    | rule elementsI oks good_sub | erule le_less_trans | rule less_imp_le | erule not_eof, simp add: at_kind_def; fail
    | erule (1) not_eof_contextual | simp add: at_kind_def; fail
    | auto simp: at_kind_def; fail)+)

lemma struct_literal_ok [carried]:
  "st c b p [] 0 q \<Longrightarrow> last_at p [] m q \<Longrightarrow> good c R rec \<Longrightarrow> remaining p \<le> R \<Longrightarrow> current_kind q \<noteq> EndOfFile \<Longrightarrow>
    yields c p (struct_literal rec m q)"
  unfolding struct_literal_def
  by (rule carried_enter, (rule wp_bump2 wp_join walk wps ends | assumption | rule wp_call, rule oks good_sub | rule wp_return, rule oks
    | rule wp_tail, rule carried | rule wp_yield_at, rule oks | rule wp_yield, rule oks good_yields | erule (1) keepsD | rule wp_attempt, rule oks | erule st_ok | erule (1) step_less step_le
    | rule elementsI oks good_sub | erule le_less_trans | rule less_imp_le | erule not_eof, simp add: at_kind_def; fail
    | erule (1) not_eof_contextual | simp add: at_kind_def; fail
    | auto simp: at_kind_def; fail)+)

text \<open>An element that does not move is an error token, which does, since the list is not at its end.\<close>

lemma wp_guard_strict:
  assumes "ok c q" and "current_kind q \<noteq> EndOfFile" and "st c False q [] 0 q'" and "\<And>q''. st c True q [] 0 q'' \<Longrightarrow> wp c Q (g q'')"
  shows "wp c Q (Option.bind (if par_cursor q' = par_cursor q then error_token e q' else Some q') g)"
proof (cases "par_cursor q' = par_cursor q \<and> par_split q' = par_split q")
  case True
  then have "current_kind q' = current_kind q" using assms(3)
    by (cases "par_split q") (auto simp: current_kind_def kind_at_def st_def)
  with assms(2) True show ?thesis
    by (auto intro!: wp_error_token [OF assms(3)] assms(4))
next
  case False
  with st_moved [OF assms(3,1)] have strict: "st c True q [] 0 q'" by auto
  have "wp c Q (Option.bind (error_token e q') g)" by (rule wp_error_token [OF strict]) (auto intro: assms(4))
  with assms(4) [OF strict] show ?thesis by simp
qed

lemma wp_regroup:
  "wp c Q (Option.bind (Option.bind r f) (\<lambda>x. Option.bind (h x) g)) \<Longrightarrow>
    wp c Q (Option.bind (Option.bind r (\<lambda>x. Option.bind (f x) h)) g)"
  by (cases r) auto

lemma array_loop_ok [oks]: "ok c q \<Longrightarrow> good c R rec \<Longrightarrow> remaining q < R \<Longrightarrow> steps c q (array_loop rec q)"
proof (induction "remaining q" arbitrary: q rule: less_induct)
  case less
  have again: "steps c q' (array_loop rec q')" if "st c True q [] 0 q'" for q'
    using that less.prems by (intro less.hyps) (auto simp: st_def)
  have element: "wp c (st c True q1 [] 0) (Option.bind (delimited_expression rec q1) (\<lambda>q2.
      if par_cursor q2 = par_cursor q1 then error_token ExpectedExpression q2 else Some q2))"
    if q1: "st c b q [] 0 q1" "current_kind q1 \<noteq> EndOfFile" for b q1
  proof -
    have "steps c q1 (delimited_expression rec q1)"
      using q1(1) less.prems(3) by (intro good_sub [OF less.prems(2)] st_ok [OF q1(1)]) (auto simp: st_def split: if_splits)
    then show ?thesis unfolding steps_def
      by (rule wp_bind) (rule wp_unit, rule wp_guard_strict [OF st_ok [OF q1(1)] q1(2)], assumption, rule wp_SomeI)
  qed
  have rest: "wp c (st c False q [] 0) (Option.bind (Option.bind (delimited_expression rec q1) (\<lambda>q2. Option.bind
      (if par_cursor q2 = par_cursor q1 then error_token ExpectedExpression q2 else Some q2) (array_loop rec))) Some)"
    if q1: "st c b q [] 0 q1" "\<not> at_list_end PRightBracket q1" for b q1
  proof -
    from q1(2) have kind: "current_kind q1 \<noteq> EndOfFile" by (simp add: at_list_end_def at_kind_def)
    show ?thesis
      by (rule wp_regroup, rule wp_move [OF element [OF q1(1) kind] q1(1)], rule wp_call, rule again, simp, assumption,
          erule wp_done)
  qed
  show ?case
    apply (subst array_loop.simps, rule steps_enter [OF less.prems(1)])
    apply (rule wp_bind_bind, rule wp_eat, assumption, simp)
     apply (rule wp_bind_prod, rule wp_bind_bind, rule wp_eat_newlines, assumption, rule wp_bind_prod, rule wp_bind_if)
      apply (rule wp_bind_Some, erule wp_done)
     apply (rule wp_bind_bind, rule wp_bind_if_True, rule wp_bind_Some, rule rest, assumption, assumption)
    apply (rule wp_bind_prod, rule wp_bind_bind, rule wp_eat_newlines, assumption, rule wp_bind_prod, rule wp_bind_if)
     apply (rule wp_bind_Some, erule wp_done)
    apply (rule wp_bind_bind, rule wp_bind_if_False, rule wp_missing, assumption, rule rest, assumption)
    apply (simp add: at_list_end_def at_kind_def)
    done
qed

lemma wp_close_bracket:
  assumes "st c b p ms (Suc d) q" and "\<And>q'. st c b p ms d q' \<Longrightarrow> wp c Q (g q')"
  shows "wp c Q (Option.bind (close_bracket q) g)"
proof -
  have "wp c (st c b p ms d) (Option.bind (close_bracket q) Some)"
    unfolding close_bracket_def
    apply (insert assms(1))
    apply (rule wp_bind_bind, rule wp_join_both, assumption)
    apply (rule wp_bump2 wp_join walk wps ends | assumption | rule wp_call, rule oks good_sub | rule wp_return, rule oks
    | rule wp_tail, rule carried | rule wp_yield_at, rule oks | rule wp_yield, rule oks | rule wp_yield, erule good_yields | erule (1) keepsD | rule wp_attempt, rule oks | erule st_ok | erule (1) step_less step_le
    | rule elementsI oks good_sub | erule le_less_trans | rule less_imp_le | erule not_eof, simp add: at_kind_def; fail
    | erule (1) not_eof_contextual | simp add: at_kind_def; fail
    | auto simp: at_kind_def; fail)+
    done
  then show ?thesis using assms(2) by (auto intro: wp_bind)
qed

lemma array_elements_ok:
  "st c True p [m] (Suc 0) q \<Longrightarrow> good c R rec \<Longrightarrow> remaining p \<le> R \<Longrightarrow>
    wp c (\<lambda>(m, q). st c False p [] 0 q \<and> last_at p [] m q) (Option.bind (array_elements rec m q) Some)"
  unfolding array_elements_def
  by (rule wp_close_bracket | (rule wp_bump2 wp_join walk wps ends | assumption | rule wp_call, rule oks good_sub | rule wp_return, rule oks
    | rule wp_tail, rule carried | rule wp_yield_at, rule oks | rule wp_yield, rule oks | rule wp_yield, erule good_yields | erule (1) keepsD | rule wp_attempt, rule oks | erule st_ok | erule (1) step_less step_le
    | rule elementsI oks good_sub | erule le_less_trans | rule less_imp_le | erule not_eof, simp add: at_kind_def; fail
    | erule (1) not_eof_contextual | simp add: at_kind_def; fail
    | auto simp: at_kind_def; fail))+

lemma array_literal_ok [oks]:
  "ok c q \<Longrightarrow> good c R rec \<Longrightarrow> remaining q \<le> R \<Longrightarrow> current_kind q \<noteq> EndOfFile \<Longrightarrow> yields c q (array_literal rec q)"
  unfolding array_literal_def
  by (rule yields_enter, assumption, (rule array_elements_ok | (rule wp_bump2 wp_join walk wps ends | assumption | rule wp_call, rule oks good_sub | rule wp_return, rule oks
    | rule wp_tail, rule carried | rule wp_yield_at, rule oks | rule wp_yield, rule oks | rule wp_yield, erule good_yields | erule (1) keepsD | rule wp_attempt, rule oks | erule st_ok | erule (1) step_less step_le
    | rule elementsI oks good_sub | erule le_less_trans | rule less_imp_le | erule not_eof, simp add: at_kind_def; fail
    | erule (1) not_eof_contextual | simp add: at_kind_def; fail
    | auto simp: at_kind_def; fail))+)

lemma mapping_element_ok [oks]: "ok c q \<Longrightarrow> good c R rec \<Longrightarrow> remaining q < R \<Longrightarrow> steps c q (mapping_element rec q)"
  unfolding mapping_element_def
  by (rule steps_enter, assumption, (rule wp_bump2 wp_join walk wps ends | assumption | rule wp_call, rule oks good_sub | rule wp_return, rule oks
    | rule wp_tail, rule carried | rule wp_yield_at, rule oks | rule wp_yield, rule oks | rule wp_yield, erule good_yields | erule (1) keepsD | rule wp_attempt, rule oks | erule st_ok | erule (1) step_less step_le
    | rule elementsI oks good_sub | erule le_less_trans | rule less_imp_le | erule not_eof, simp add: at_kind_def; fail
    | erule (1) not_eof_contextual | simp add: at_kind_def; fail
    | auto simp: at_kind_def; fail)+)

lemma sequence_element_ok [oks]: "ok c q \<Longrightarrow> good c R rec \<Longrightarrow> remaining q < R \<Longrightarrow> steps c q (sequence_element rec q)"
  unfolding sequence_element_def
  by (rule steps_enter, assumption, (rule wp_bump2 wp_join walk wps ends | assumption | rule wp_call, rule oks good_sub | rule wp_return, rule oks
    | rule wp_tail, rule carried | rule wp_yield_at, rule oks | rule wp_yield, rule oks | rule wp_yield, erule good_yields | erule (1) keepsD | rule wp_attempt, rule oks | erule st_ok | erule (1) step_less step_le
    | rule elementsI oks good_sub | erule le_less_trans | rule less_imp_le | erule not_eof, simp add: at_kind_def; fail
    | erule (1) not_eof_contextual | simp add: at_kind_def; fail
    | auto simp: at_kind_def; fail)+)

lemma first_bracket_element_ok [oks]: "ok c q \<Longrightarrow> good c R rec \<Longrightarrow> remaining q < R \<Longrightarrow> returns c q (first_bracket_element rec q)"
  unfolding first_bracket_element_def
  by (rule returns_enter, assumption, (rule wp_bump2 wp_join walk wps ends | assumption | rule wp_call, rule oks good_sub | rule wp_return, rule oks
    | rule wp_tail, rule carried | rule wp_yield_at, rule oks | rule wp_yield, rule oks | rule wp_yield, erule good_yields | erule (1) keepsD | rule wp_attempt, rule oks | erule st_ok | erule (1) step_less step_le
    | rule elementsI oks good_sub | erule le_less_trans | rule less_imp_le | erule not_eof, simp add: at_kind_def; fail
    | erule (1) not_eof_contextual | simp add: at_kind_def; fail
    | auto simp: at_kind_def; fail)+)

lemma elements_if: "elements c R f \<Longrightarrow> elements c R h \<Longrightarrow> elements c R (if b then f else h)"
  by simp

lemma wp_bracket_elements:
  assumes "st c True p ms (Suc d) q" and "good c R rec" and "remaining p \<le> R"
    and "\<And>v q'. st c True p ms d q' \<Longrightarrow> wp c Q (g (v, q'))"
  shows "wp c Q (Option.bind (bracket_elements rec q) g)"
  using assms(1-3) unfolding bracket_elements_def
  apply -
  apply (rule wp_close_bracket | rule wp_call, rule tuple_loop_ok | rule elements_if | (rule wp_bump2 wp_join walk wps ends | assumption | rule wp_call, rule oks good_sub | rule wp_return, rule oks
    | rule wp_tail, rule carried | rule wp_yield_at, rule oks | rule wp_yield, rule oks | rule wp_yield, erule good_yields | erule (1) keepsD | rule wp_attempt, rule oks | erule st_ok | erule (1) step_less step_le
    | rule elementsI oks good_sub | erule le_less_trans | rule less_imp_le | erule not_eof, simp add: at_kind_def; fail
    | erule (1) not_eof_contextual | simp add: at_kind_def; fail
    | auto simp: at_kind_def; fail) | rule assms(4))+
  done

lemma typed_bracket_literal_ok [carried]:
  "st c b p [] 0 q \<Longrightarrow> last_at p [] m q \<Longrightarrow> good c R rec \<Longrightarrow> remaining p \<le> R \<Longrightarrow> current_kind q \<noteq> EndOfFile \<Longrightarrow>
    yields c p (typed_bracket_literal rec m q)"
  unfolding typed_bracket_literal_def
  by (rule carried_enter, (rule wp_bracket_elements | (rule wp_bump2 wp_join walk wps ends | assumption | rule wp_call, rule oks good_sub | rule wp_return, rule oks
    | rule wp_tail, rule carried | rule wp_yield_at, rule oks | rule wp_yield, rule oks | rule wp_yield, erule good_yields | erule (1) keepsD | rule wp_attempt, rule oks | erule st_ok | erule (1) step_less step_le
    | rule elementsI oks good_sub | erule le_less_trans | rule less_imp_le | erule not_eof, simp add: at_kind_def; fail
    | erule (1) not_eof_contextual | simp add: at_kind_def; fail
    | auto simp: at_kind_def; fail))+)

lemma typed_string_literal_ok [carried]:
  "st c b p [] 0 q \<Longrightarrow> last_at p [] m q \<Longrightarrow> yields c p (typed_string_literal m q)"
  unfolding typed_string_literal_def
  by (rule carried_enter, (rule wp_bump2 wp_join walk wps ends | assumption | rule wp_call, rule oks good_sub | rule wp_return, rule oks
    | rule wp_tail, rule carried | rule wp_yield_at, rule oks | rule wp_yield, rule oks | rule wp_yield, erule good_yields | erule (1) keepsD | rule wp_attempt, rule oks | erule st_ok | erule (1) step_less step_le
    | rule elementsI oks good_sub | erule le_less_trans | rule less_imp_le | erule not_eof, simp add: at_kind_def; fail
    | erule (1) not_eof_contextual | simp add: at_kind_def; fail
    | auto simp: at_kind_def; fail)+)

lemma string_part_moves:
  assumes "ok c q" and "good c R rec" and "remaining q < R" and "current_kind q \<noteq> EndOfFile"
  shows "wp c (st c True q [] 0) (string_part rec q)"
proof -
  have "wp c (st c True q [] 0) (Option.bind (string_part rec q) Some)"
    unfolding string_part_def
    apply (insert assms st_refl [OF assms(1)])
    apply (rule wp_bind_bind, rule wp_start, assumption)
    apply (rule wp_bump2 wp_join walk wps ends | assumption | rule wp_call, rule oks good_sub | rule wp_return, rule oks
    | rule wp_tail, rule carried | rule wp_yield_at, rule oks | rule wp_yield, rule oks | rule wp_yield, erule good_yields | erule (1) keepsD | rule wp_attempt, rule oks | erule st_ok | erule (1) step_less step_le
    | rule elementsI oks good_sub | erule le_less_trans | rule less_imp_le | erule not_eof, simp add: at_kind_def; fail
    | erule (1) not_eof_contextual | simp add: at_kind_def; fail
    | auto simp: at_kind_def; fail)+
    done
  then show ?thesis by simp
qed

lemma string_loop_ok [oks]: "ok c q \<Longrightarrow> good c R rec \<Longrightarrow> remaining q < R \<Longrightarrow> steps c q (string_loop rec e q)"
proof (induction "remaining q" arbitrary: q rule: less_induct)
  case less
  have again: "steps c q' (string_loop rec e q')" if "st c True q [] 0 q'" for q'
    using that less.prems by (intro less.hyps) (auto simp: st_def)
  show ?case
    apply (subst string_loop.simps, rule steps_enter [OF less.prems(1)], rule wp_bind_if)
     apply (rule wp_bind_Some, erule wp_done)
    apply (rule wp_bind_bind, rule wp_move [OF string_part_moves [OF less.prems]])
      apply (simp add: at_kind_def)
     apply assumption
    apply (rule wp_call, rule again, simp, assumption, erule wp_done)
    done
qed

lemma string_expression_ok [oks]:
  "ok c q \<Longrightarrow> good c R rec \<Longrightarrow> remaining q \<le> R \<Longrightarrow> current_kind q \<noteq> EndOfFile \<Longrightarrow> yields c q (string_expression rec e q)"
  unfolding string_expression_def
  by (rule yields_enter, assumption, (rule wp_bump2 wp_join walk wps ends | assumption | rule wp_call, rule oks good_sub | rule wp_return, rule oks
    | rule wp_tail, rule carried | rule wp_yield_at, rule oks | rule wp_yield, rule oks | rule wp_yield, erule good_yields | erule (1) keepsD | rule wp_attempt, rule oks | erule st_ok | erule (1) step_less step_le
    | rule elementsI oks good_sub | erule le_less_trans | rule less_imp_le | erule not_eof, simp add: at_kind_def; fail
    | erule (1) not_eof_contextual | simp add: at_kind_def; fail
    | auto simp: at_kind_def; fail)+)

lemma scalar_literal_ok [oks]: "ok c q \<Longrightarrow> current_kind q \<noteq> EndOfFile \<Longrightarrow> yields c q (scalar_literal q)"
  unfolding scalar_literal_def
  by (rule yields_enter, assumption, (rule wp_bump2 wp_join walk wps ends | assumption | rule wp_call, rule oks good_sub | rule wp_return, rule oks
    | rule wp_tail, rule carried | rule wp_yield_at, rule oks | rule wp_yield, rule oks | rule wp_yield, erule good_yields | erule (1) keepsD | rule wp_attempt, rule oks | erule st_ok | erule (1) step_less step_le
    | rule elementsI oks good_sub | erule le_less_trans | rule less_imp_le | erule not_eof, simp add: at_kind_def; fail
    | erule (1) not_eof_contextual | simp add: at_kind_def; fail
    | auto simp: at_kind_def; fail)+)

section \<open>Primary expressions\<close>

lemma at_string_start_kind: "at_string_start q \<Longrightarrow> current_kind q \<noteq> EndOfFile"
  by (auto simp: at_string_start_def)

lemma owned_literal_ok [carried]:
  "st c b p [] 0 q \<Longrightarrow> last_at p [] m q \<Longrightarrow> good c R rec \<Longrightarrow> remaining p \<le> R \<Longrightarrow>
    yields c p (owned_literal rec mode m q)"
  unfolding owned_literal_def
  by (rule carried_enter, (rule wp_bump2 wp_join walk wps ends | assumption | rule wp_call, rule oks good_sub | rule wp_return, rule oks
    | rule wp_tail, rule carried | rule wp_yield_at, rule oks | rule wp_yield, rule oks | rule wp_yield, erule good_yields | erule (1) keepsD | rule wp_attempt, rule oks | erule st_ok | erule (1) step_less step_le
    | rule elementsI oks good_sub | erule le_less_trans | rule less_imp_le | erule not_eof, simp add: at_kind_def; fail
    | erule (1) not_eof_contextual | simp add: at_kind_def; fail
    | auto simp: at_kind_def; fail)+)

lemma owner_or_reference_ok [oks]:
  assumes "ok c q" and "good c R rec" and "remaining q \<le> R" and "current_kind q = Identifier"
  shows "yields c q (owner_or_reference rec mode q)"
  unfolding owner_or_reference_def
  apply (rule yields_enter [OF assms(1)])
  apply (rule wp_bind_bind, rule wp_attempt_decided [where R = "\<lambda>facts q'. last_at q [] (fst facts) q'"], assumption)
  subgoal using owner_reference_ok [OF assms(1-3)] by (simp add: yields_at_def)
  subgoal by (simp add: wp_def)
  subgoal
    apply (simp only: prod.case option.case)
    apply (insert assms(2,3))
    apply (rule wp_bump2 wp_join walk wps ends | assumption | rule wp_call, rule oks good_sub | rule wp_return, rule oks
    | rule wp_tail, rule carried | rule wp_yield_at, rule oks | rule wp_yield, rule oks | rule wp_yield, erule good_yields | erule (1) keepsD | rule wp_attempt, rule oks | erule st_ok | erule (1) step_less step_le
    | rule elementsI oks good_sub | erule le_less_trans | rule less_imp_le | erule not_eof, simp add: at_kind_def; fail
    | erule (1) not_eof_contextual | simp add: at_kind_def; fail
    | auto simp: at_kind_def; fail)+
    done
  subgoal
    apply (simp only: prod.case option.case)
    apply (insert assms(4))
    apply (rule wp_bump2 wp_join walk wps ends | assumption | rule wp_call, rule oks good_sub | rule wp_return, rule oks
    | rule wp_tail, rule carried | rule wp_yield_at, rule oks | rule wp_yield, rule oks | rule wp_yield, erule good_yields | erule (1) keepsD | rule wp_attempt, rule oks | erule st_ok | erule (1) step_less step_le
    | rule elementsI oks good_sub | erule le_less_trans | rule less_imp_le | erule not_eof, simp add: at_kind_def; fail
    | erule (1) not_eof_contextual | simp add: at_kind_def; fail
    | auto simp: at_kind_def; fail)+
    done
  done

lemma primary_error_ok [oks]: "ok c q \<Longrightarrow> yields c q (primary_error q)"
  unfolding primary_error_def
  by (rule yields_enter, assumption, (rule wp_join_both, assumption | (rule wp_bump2 wp_join walk wps ends | assumption | rule wp_call, rule oks good_sub | rule wp_return, rule oks
    | rule wp_tail, rule carried | rule wp_yield_at, rule oks | rule wp_yield, rule oks | rule wp_yield, erule good_yields | erule (1) keepsD | rule wp_attempt, rule oks | erule st_ok | erule (1) step_less step_le
    | rule elementsI oks good_sub | erule le_less_trans | rule less_imp_le | erule not_eof, simp add: at_kind_def; fail
    | erule (1) not_eof_contextual | simp add: at_kind_def; fail
    | auto simp: at_kind_def; fail))+)

lemma at_scalar_kind: "at_scalar q \<Longrightarrow> current_kind q \<noteq> EndOfFile"
  by (auto simp: at_scalar_def)

lemma primary_ok [oks]: "ok c q \<Longrightarrow> good c R rec \<Longrightarrow> remaining q \<le> R \<Longrightarrow> yields c q (parse_primary rec mode q)"
  unfolding parse_primary_def
  by (rule yields_enter, assumption, (rule wp_bind_option | erule at_scalar_kind | (rule wp_bump2 wp_join walk wps ends | assumption | rule wp_call, rule oks good_sub | rule wp_return, rule oks
    | rule wp_tail, rule carried | rule wp_yield_at, rule oks | rule wp_yield, rule oks | rule wp_yield, erule good_yields | erule (1) keepsD | rule wp_attempt, rule oks | erule st_ok | erule (1) step_less step_le
    | rule elementsI oks good_sub | erule le_less_trans | rule less_imp_le | erule not_eof, simp add: at_kind_def; fail
    | erule (1) not_eof_contextual | simp add: at_kind_def; fail
    | auto simp: at_kind_def; fail))+)

end
