(* ===== verification/Operator_Steps.thy ===== *)
theory Operator_Steps
  imports Expression_Steps
begin

text \<open>
  The contracts of the postfix, prefix, binary and recovery layers of \<open>Parser_Expressions\<close>. Each of their steps puts
  a node around the expression before it, and each of their loops reads a token per step.
\<close>

section \<open>Nodes around an expression\<close>

definition around :: "node_kind \<Rightarrow> (parser \<Rightarrow> parser option) \<Rightarrow> nat \<Rightarrow> parser \<Rightarrow> (nat \<times> parser) option" where
  "around k body m q = do {
     (parent, q) \<leftarrow> precede m q;
     q \<leftarrow> body q;
     node parent k q }"

text \<open>\<open>moves s c R body\<close>: the body keeps its contract at a state like \<open>q\<close>, and with \<open>s\<close> it reads a token.\<close>

definition moves :: "bool \<Rightarrow> bool \<Rightarrow> parser \<Rightarrow> (parser \<Rightarrow> parser option) \<Rightarrow> bool" where
  "moves s c q body \<longleftrightarrow> (\<forall>q'. ok c q' \<longrightarrow> same_place q q' \<longrightarrow> wp c (st c s q' [] 0) (body q'))"

lemma wp_around:
  assumes "st c b p [] 0 q" and "last_at p [] m q" and "moves s c q body"
    and "\<And>m' q'. st c b p [] 0 q' \<Longrightarrow> last_at p [] m' q' \<Longrightarrow> remaining q' + (if s then 1 else 0) \<le> remaining q
      \<Longrightarrow> wp c Q (g (m', q'))"
  shows "wp c Q (Option.bind (around k body m q) g)"
  unfolding around_def
proof (rule wp_bind_bind, rule wp_bind [OF precede_ok [OF assms(1,2)]])
  fix x assume "case x of (m', q') \<Rightarrow> st c b p [m'] 0 q' \<and> same_place q q'"
  then obtain m' q1 where x: "x = (m', q1)" "st c b p [m'] 0 q1" "same_place q q1" by (cases x) auto
  from assms(3) x(3) st_ok [OF x(2)] have body: "wp c (st c s q1 [] 0) (body q1)" by (simp add: moves_def)
  have "wp c Q (Option.bind (body q1) (\<lambda>q. Option.bind (node m' k q) g))"
  proof (rule wp_bind [OF body])
    fix q2 assume q2: "st c s q1 [] 0 q2"
    have "wp c Q (Option.bind (complete_node m' k q2) (\<lambda>q. g (m', q)))"
    proof (rule wp_bind [OF complete_closes [OF st_step [OF q2 x(2)]]])
      fix q3 assume "st c b p [] 0 q3 \<and> last_at p [] m' q3 \<and> same_place q2 q3"
      moreover from q2 same_place_simps(6) [OF x(3)] have "remaining q2 + (if s then 1 else 0) \<le> remaining q"
        by (simp add: st_def)
      ultimately show "wp c Q (g (m', q3))" by (intro assms(4)) (auto simp: same_place_simps)
    qed
    then show "wp c Q (Option.bind (node m' k q2) g)" unfolding node_def by (intro wp_bind_map)
  qed
  with x(1) show "wp c Q (Option.bind (case x of (parent, q) \<Rightarrow> Option.bind (body q) (node parent k)) g)"
    by (simp add: bind_assoc)
qed

text \<open>A step of a loop that puts nodes around the expression before it.\<close>

lemma around_again:
  assumes "st c b p [] 0 q" and "last_at p [] m q" and "moves s c q body" and "remaining q + (if s then 0 else 1) \<le> n"
    and "\<And>m' q'. st c b p [] 0 q' \<Longrightarrow> last_at p [] m' q' \<Longrightarrow> remaining q' < n \<Longrightarrow> yields c p (again m' q')"
  shows "yields c p (Option.bind (around k body m q) (\<lambda>(m, q). again m q))"
  unfolding yields_def
  by (rule wp_around [OF assms(1-3)]) (use assms(4,5) in \<open>auto simp: yields_def split: if_splits\<close>)

lemma around_once:
  assumes "st c b p [] 0 q" and "last_at p [] m q" and "moves s c q body"
  shows "yields c p (around k body m q)"
  by (rule carried_enter, rule wp_around [OF assms], erule (1) wp_done_at)

text \<open>The newlines before an operator.\<close>

lemma after_newlines:
  assumes "st c b p [] 0 q" and "last_at p [] m q"
    and "\<And>q'. st c b p [] 0 q' \<Longrightarrow> last_at p [] m q' \<Longrightarrow> remaining q' \<le> remaining q \<Longrightarrow> yields c p (g q')"
  shows "yields c p (Option.bind (newline_before bd l q) g)"
  unfolding yields_def
proof (rule wp_bind [OF newline_before_ok [OF st_ok [OF assms(1)]]])
  fix q' assume "st c False q [] 0 q'"
  then show "wp c (\<lambda>(m, q). st c False p [] 0 q \<and> last_at p [] m q) (g q')"
    by (intro assms(3) [unfolded yields_def] st_step [OF _ assms(1)] last_keep [OF assms(2)]) (auto simp: st_def)
qed

lemma yields_here: "st c b p [] 0 q \<Longrightarrow> last_at p [] m q \<Longrightarrow> yields c p (Some (m, q))"
  by (simp add: yields_def wp_def st_weaken)

lemma yields_if: "(B \<Longrightarrow> yields c p x) \<Longrightarrow> (\<not> B \<Longrightarrow> yields c p y) \<Longrightarrow> yields c p (if B then x else y)"
  by simp

text \<open>Bodies that begin with a token.\<close>

lemma moves_bump:
  assumes "current_kind q \<noteq> EndOfFile"
    and "\<And>q0 q'. ok c q0 \<Longrightarrow> remaining q0 = remaining q \<Longrightarrow> st c True q0 [] 0 q' \<Longrightarrow> steps c q' (rest q')"
  shows "moves True c q (\<lambda>q. Option.bind (bump q) rest)"
  unfolding moves_def
proof (intro allI impI)
  fix q0 assume q0: "ok c q0" "same_place q q0"
  then have "current_kind q0 \<noteq> EndOfFile" "remaining q0 = remaining q" using assms(1) same_place_simps by simp_all
  then show "wp c (st c True q0 [] 0) (Option.bind (bump q0) rest)"
  proof (intro wp_bind [OF whole_bump [OF q0(1)]])
    fix q' assume q': "st c True q0 [] 0 q'"
    from assms(2) [OF q0(1) same_place_simps(6) [OF q0(2)] q'] show "wp c (st c True q0 [] 0) (rest q')"
      unfolding steps_def by (rule wp_mono) (auto intro: st_step [OF _ q'])
  qed
qed

section \<open>Postfix expressions\<close>

lemma strict_enter:
  assumes "ok c q" and "st c False q [] 0 q \<Longrightarrow> wp c (st c True q [] 0) (Option.bind r Some)"
  shows "wp c (st c True q [] 0) r"
  using assms by (simp add: st_refl)

lemma call_suffix_moves:
  "ok c q \<Longrightarrow> good c R rec \<Longrightarrow> remaining q \<le> R \<Longrightarrow> current_kind q \<noteq> EndOfFile \<Longrightarrow> wp c (st c True q [] 0) (call_suffix rec q)"
  unfolding call_suffix_def by (rule strict_enter, assumption, (rule wp_bump2 wp_join walk wps ends | assumption | rule wp_call, rule oks good_sub | rule wp_return, rule oks
    | rule wp_tail, rule carried | rule wp_yield_at, rule oks | rule wp_yield, rule oks | rule wp_yield, erule good_yields | erule (1) keepsD | rule wp_attempt, rule oks | erule st_ok | erule (1) step_less step_le
    | rule elementsI oks good_sub | erule le_less_trans | rule less_imp_le | erule not_eof, simp add: at_kind_def; fail
    | erule (1) not_eof_contextual | simp add: at_kind_def; fail
    | auto simp: at_kind_def; fail)+)

lemma index_suffix_moves:
  "ok c q \<Longrightarrow> good c R rec \<Longrightarrow> remaining q \<le> R \<Longrightarrow> current_kind q \<noteq> EndOfFile \<Longrightarrow> wp c (st c True q [] 0) (index_suffix rec q)"
  unfolding index_suffix_def by (rule strict_enter, assumption, (rule wp_bump2 wp_join walk wps ends | assumption | rule wp_call, rule oks good_sub | rule wp_return, rule oks
    | rule wp_tail, rule carried | rule wp_yield_at, rule oks | rule wp_yield, rule oks | rule wp_yield, erule good_yields | erule (1) keepsD | rule wp_attempt, rule oks | erule st_ok | erule (1) step_less step_le
    | rule elementsI oks good_sub | erule le_less_trans | rule less_imp_le | erule not_eof, simp add: at_kind_def; fail
    | erule (1) not_eof_contextual | simp add: at_kind_def; fail
    | auto simp: at_kind_def; fail)+)

lemma member_suffix_moves:
  "ok c q \<Longrightarrow> current_kind q \<noteq> EndOfFile \<Longrightarrow> wp c (st c True q [] 0) (member_suffix mode q)"
  unfolding member_suffix_def by (rule strict_enter, assumption, (rule wp_bump2 wp_join walk wps ends | assumption | rule wp_call, rule oks good_sub | rule wp_return, rule oks
    | rule wp_tail, rule carried | rule wp_yield_at, rule oks | rule wp_yield, rule oks | rule wp_yield, erule good_yields | erule (1) keepsD | rule wp_attempt, rule oks | erule st_ok | erule (1) step_less step_le
    | rule elementsI oks good_sub | erule le_less_trans | rule less_imp_le | erule not_eof, simp add: at_kind_def; fail
    | erule (1) not_eof_contextual | simp add: at_kind_def; fail
    | auto simp: at_kind_def; fail)+)

lemma postfix_suffix_around: "parse_postfix_suffix suffix = around ''postfix_expression'' suffix"
  by (simp add: parse_postfix_suffix_def around_def fun_eq_iff)

lemma suffixes_move:
  assumes "good c R rec" and "remaining q \<le> R" and "current_kind q \<noteq> EndOfFile"
  shows "moves True c q (call_suffix rec)" and "moves True c q (index_suffix rec)" and "moves True c q (member_suffix mode)"
  using assms
  by (auto simp: moves_def same_place_simps intro!: call_suffix_moves index_suffix_moves member_suffix_moves)

lemma postfix_loop_ok [carried]:
  "st c b p [] 0 q \<Longrightarrow> last_at p [] m q \<Longrightarrow> good c R rec \<Longrightarrow> remaining p \<le> R \<Longrightarrow> yields c p (postfix_loop rec mode m q)"
proof (induction "remaining q" arbitrary: q m rule: less_induct)
  case less
  have again: "yields c p (postfix_loop rec mode m' q')"
    if "st c b p [] 0 q'" "last_at p [] m' q'" "remaining q' < remaining q" for m' q'
    by (rule less.hyps [OF that(3,1,2) less.prems(3,4)])
  have suffix: "yields c p (Option.bind (around ''postfix_expression'' body m q') (\<lambda>(m, q). postfix_loop rec mode m q))"
    if "st c b p [] 0 q'" "last_at p [] m q'" "remaining q' \<le> remaining q" "moves True c q' body" for q' body
    by (rule around_again [OF that(1,2,4) _ again]) (use that(3) in simp_all)
  have le: "remaining q' \<le> R" if "st c b p [] 0 q'" for q'
    using st_le [OF that less.prems(4)] .
  show ?case
    unfolding postfix_suffix_around [symmetric]
    by (subst postfix_loop.simps, unfold newline_before_token_def postfix_suffix_around,
      intro yields_if suffix after_newlines [OF less.prems(1,2)] yields_here suffixes_move [OF less.prems(3)] less.prems(1,2) le order_refl)
      (auto simp: at_kind_def intro: le)
qed

lemma parse_postfix_ok [oks]: "ok c q \<Longrightarrow> good c R rec \<Longrightarrow> remaining q \<le> R \<Longrightarrow> yields c q (parse_postfix rec mode q)"
  unfolding parse_postfix_def by (rule yields_enter, assumption, (rule wp_bump2 wp_join walk wps ends | assumption | rule wp_call, rule oks good_sub | rule wp_return, rule oks
    | rule wp_tail, rule carried | rule wp_yield_at, rule oks | rule wp_yield, rule oks | rule wp_yield, erule good_yields | erule (1) keepsD | rule wp_attempt, rule oks | erule st_ok | erule (1) step_less step_le
    | rule elementsI oks good_sub | erule le_less_trans | rule less_imp_le | erule not_eof, simp add: at_kind_def; fail
    | erule (1) not_eof_contextual | simp add: at_kind_def; fail
    | auto simp: at_kind_def; fail)+)

section \<open>Prefix operators\<close>

lemma await_loop_ok: "ok c q \<Longrightarrow> wraps c ws q (await_loop mode ws q)"
proof (induction "remaining q" arbitrary: q ws rule: less_induct)
  case less
  let ?Q = "\<lambda>(ws', q'). \<exists>new. ws' = new @ ws \<and> st c False q (map fst new) 0 q'"
  have again: "wp c ?Q (await_loop mode (new @ ws) q')" if "st c True q (map fst new) 0 q'" for new q'
    unfolding wraps_def [symmetric]
    by (rule wraps_more [OF less.hyps that]) (use that in \<open>auto simp: st_def\<close>)
  show ?case
    unfolding wraps_def
    apply (subst await_loop.simps, rule wp_if_kind)
    subgoal
      apply (rule wp_start [OF st_refl [OF less.prems]], rule wp_prod, rule wp_bump, assumption, simp,
        rule wp_newline_after, assumption)
      subgoal for m using again [of "[(m, ''await_expression'')]"] by simp
      done
    subgoal using less.prems by (simp add: wp_def st_refl)
    done
qed

text \<open>The wrappers completed around the expression they hold.\<close>

lemma wp_wrapped [wps]:
  assumes "st c b p (map fst ws @ []) 0 q" and "last_at p (map fst ws @ []) m q"
    and "\<And>m' q'. st c b p [] 0 q' \<Longrightarrow> last_at p [] m' q' \<Longrightarrow> wp c Q (g (m', q'))"
  shows "wp c Q (Option.bind (wrapped m ws q) g)"
  unfolding wrapped_def
  by (rule wp_bind_map, rule wp_bind [OF complete_wrappers_ok [OF assms(1)]]) (use assms(2,3) in \<open>auto split: if_splits\<close>)

lemma parse_outcome_ok [oks]: "ok c q \<Longrightarrow> good c R rec \<Longrightarrow> remaining q \<le> R \<Longrightarrow> yields c q (parse_outcome rec mode q)"
  unfolding parse_outcome_def
  by (rule yields_enter, assumption, rule wp_bind_bind, rule wp_wraps, rule await_loop_ok, (rule wp_wrapped, assumption, assumption | (rule wp_bump2 wp_join walk wps ends | assumption | rule wp_call, rule oks good_sub | rule wp_return, rule oks
    | rule wp_tail, rule carried | rule wp_yield_at, rule oks | rule wp_yield, rule oks | rule wp_yield, erule good_yields | erule (1) keepsD | rule wp_attempt, rule oks | erule st_ok | erule (1) step_less step_le
    | rule elementsI oks good_sub | erule le_less_trans | rule less_imp_le | erule not_eof, simp add: at_kind_def; fail
    | erule (1) not_eof_contextual | simp add: at_kind_def; fail
    | auto simp: at_kind_def; fail))+)

lemma move_expression_ok [oks]: "ok c q \<Longrightarrow> current_kind q \<noteq> EndOfFile \<Longrightarrow> yields c q (move_expression mode q)"
  unfolding move_expression_def by (rule yields_enter, assumption, (rule wp_bump2 wp_join walk wps ends | assumption | rule wp_call, rule oks good_sub | rule wp_return, rule oks
    | rule wp_tail, rule carried | rule wp_yield_at, rule oks | rule wp_yield, rule oks | rule wp_yield, erule good_yields | erule (1) keepsD | rule wp_attempt, rule oks | erule st_ok | erule (1) step_less step_le
    | rule elementsI oks good_sub | erule le_less_trans | rule less_imp_le | erule not_eof, simp add: at_kind_def; fail
    | erule (1) not_eof_contextual | simp add: at_kind_def; fail
    | auto simp: at_kind_def; fail)+)

lemma unary_loop_ok: "ok c q \<Longrightarrow> wraps c ws q (unary_loop mode ws q)"
proof (induction "remaining q" arbitrary: q ws rule: less_induct)
  case less
  let ?Q = "\<lambda>(ws', q'). \<exists>new. ws' = new @ ws \<and> st c False q (map fst new) 0 q'" and ?u = "''unary_expression''"
  have again: "wp c ?Q (unary_loop mode (new @ ws) q')" if "st c True q (map fst new) 0 q'" for new q'
    unfolding wraps_def [symmetric]
    by (rule wraps_more [OF less.hyps that]) (use that in \<open>auto simp: st_def\<close>)
  have after: "wp c ?Q (Option.bind (newline_after_incomplete bd q') (unary_loop mode (new @ ws)))"
    if "st c True q (map fst new) 0 q'" for new q' bd
    by (rule wp_newline_after [OF that]) (rule again)
  show ?case
  proof (cases "current_kind q = Punctuation PLogicalAnd")
    case True
    obtain m q0 q1 m' q2 q' where *: "start q = Some (m, q0)" "current_kind q0 = current_kind q"
      "split_current (Punctuation PAmpersand) (Punctuation PAmpersand) q0 = Some q1"
      "current_kind q1 = Punctuation PAmpersand" "start q1 = Some (m', q2)"
      "current_kind q2 = Punctuation PAmpersand" "bump q2 = Some q'" "st c True q [m', m] 0 q'"
      by (rule split_wrapper_ok [OF less.prems True])
    have "unary_loop mode ((m, ?u) # ws) q1
        = Option.bind (newline_after_incomplete (newline_boundary mode) q') (unary_loop mode ([(m', ?u), (m, ?u)] @ ws))"
      by (subst unary_loop.simps) (use * in \<open>simp add: at_kind_def\<close>)
    with after [of "[(m', ?u), (m, ?u)]"] * True show ?thesis
      unfolding wraps_def by (subst unary_loop.simps) (simp add: at_kind_def)
  next
    case False
    have "wp c ?Q (Option.bind (start q) (\<lambda>(m, q). Option.bind (bump q) (\<lambda>q.
        Option.bind (newline_after_incomplete bd q) (unary_loop mode ((m, ?u) # ws)))))"
      if "current_kind q \<noteq> EndOfFile" for bd
      by (rule wp_start [OF st_refl [OF less.prems]], rule wp_prod, rule wp_bump, assumption)
        (use that after [of "[(_, ?u)]"] in auto)
    with False less.prems show ?thesis
      unfolding wraps_def by (subst unary_loop.simps) (auto simp: at_kind_def wp_def st_refl)
  qed
qed

lemma parse_unary_ok [oks]: "ok c q \<Longrightarrow> good c R rec \<Longrightarrow> remaining q \<le> R \<Longrightarrow> yields c q (parse_unary rec mode q)"
  unfolding parse_unary_def
  by (rule yields_enter, assumption, rule wp_bind_bind, rule wp_wraps, rule unary_loop_ok, (rule wp_wrapped, assumption, assumption | (rule wp_bump2 wp_join walk wps ends | assumption | rule wp_call, rule oks good_sub | rule wp_return, rule oks
    | rule wp_tail, rule carried | rule wp_yield_at, rule oks | rule wp_yield, rule oks | rule wp_yield, erule good_yields | erule (1) keepsD | rule wp_attempt, rule oks | erule st_ok | erule (1) step_less step_le
    | rule elementsI oks good_sub | erule le_less_trans | rule less_imp_le | erule not_eof, simp add: at_kind_def; fail
    | erule (1) not_eof_contextual | simp add: at_kind_def; fail
    | auto simp: at_kind_def; fail))+)

section \<open>Binary operators\<close>

definition operand_ok :: "bool \<Rightarrow> nat \<Rightarrow> (parser \<Rightarrow> (nat \<times> parser) option) \<Rightarrow> bool" where
  "operand_ok c R operand \<longleftrightarrow> (\<forall>q. ok c q \<longrightarrow> remaining q \<le> R \<longrightarrow> yields c q (operand q))"

lemma operandD: "operand_ok c R operand \<Longrightarrow> ok c q \<Longrightarrow> remaining q \<le> R \<Longrightarrow> yields c q (operand q)"
  by (simp add: operand_ok_def)

lemma wp_operand:
  assumes "operand_ok c R operand" and "st c b p ms d q" and "remaining p \<le> R"
    and "\<And>m q'. st c b p ms d q' \<Longrightarrow> last_at p ms m q' \<Longrightarrow> wp c Q (g (m, q'))"
  shows "wp c Q (Option.bind (operand q) g)"
  by (rule wp_yield [OF operandD [OF assms(1) st_ok [OF assms(2)] st_le [OF assms(2,3)]] assms(2)]) (rule assms(4))

lemma binary_operation_around: "binary_operation operand k mode = around k (\<lambda>q. do {
    q \<leftarrow> bump q;
    q \<leftarrow> newline_after_incomplete (newline_boundary mode) q;
    map_option snd (operand q) })"
  by (auto simp: fun_eq_iff binary_operation_def around_def bind_assoc map_conv_bind_option split: prod.splits
      intro!: Option.bind_cong)

lemma operation_moves:
  assumes "operand_ok c R operand" and "remaining q \<le> R" and "current_kind q \<noteq> EndOfFile"
  shows "moves True c q (\<lambda>q. do {
    q \<leftarrow> bump q;
    q \<leftarrow> newline_after_incomplete bd q;
    map_option snd (operand q) })"
proof (rule moves_bump [OF assms(3)])
  fix q0 q' assume q': "ok c q0" "remaining q0 = remaining q" "st c True q0 [] 0 q'"
  have "remaining q' \<le> R" using q'(2) assms(2) by (intro st_le [OF q'(3)]) simp
  then show "steps c q' (Option.bind (newline_after_incomplete bd q') (\<lambda>q. map_option snd (operand q)))"
    by (intro steps_enter [OF st_ok [OF q'(3)]])
      (rule wp_bind_bind, rule wp_newline_after, assumption, rule wp_bind_map, rule wp_operand [OF assms(1)],
        assumption, assumption, simp, erule wp_done)
qed

lemma at_operator_kind: "at_operator ops q \<Longrightarrow> current_kind q \<noteq> EndOfFile"
  by (auto simp: at_operator_def at_kind_def)

lemma binary_loop_ok:
  "st c b p [] 0 q \<Longrightarrow> last_at p [] m q \<Longrightarrow> operand_ok c R operand \<Longrightarrow> remaining p \<le> R \<Longrightarrow>
    yields c p (binary_loop operand ops k mode m q)"
proof (induction "remaining q" arbitrary: q m rule: less_induct)
  case less
  show ?case
    unfolding binary_loop.simps [of operand ops k mode m q] binary_operation_around
    by (intro after_newlines [OF less.prems(1,2)] yields_if around_again [where n = "remaining q" and s = True]
        operation_moves [OF less.prems(3)] at_operator_kind less.hyps less.prems(3,4))
      (auto intro: yields_here st_le less.prems(4))
qed

lemma repeated_binary_ok: "operand_ok c R operand \<Longrightarrow> operand_ok c R (repeated_binary operand ops k mode)"
  unfolding operand_ok_def [of _ _ "repeated_binary _ _ _ _"] repeated_binary_def
  by (intro allI impI, rule yields_enter, assumption, rule wp_bind_bind, rule wp_operand, assumption, assumption,
      assumption, rule wp_bind_prod, rule wp_tail, rule binary_loop_ok)

lemma single_binary_ok:
  assumes "operand_ok c R operand"
  shows "operand_ok c R (single_binary operand ops k mode)"
  unfolding operand_ok_def
proof (intro allI impI)
  fix p assume p: "ok c p" "remaining p \<le> R"
  have rest: "yields c p (Option.bind (newline_before bd l q) (\<lambda>q.
      if at_operator ops q then binary_operation operand k mode m q else Some (m, q)))"
    if "st c b p [] 0 q" "last_at p [] m q" for b q m bd l
    unfolding binary_operation_around
    by (intro after_newlines [OF that] yields_if around_once [where s = True] operation_moves [OF assms] at_operator_kind)
      (auto intro: yields_here st_le p(2))
  show "yields c p (single_binary operand ops k mode p)"
    unfolding single_binary_def
    by (rule yields_enter [OF p(1)], rule wp_bind_bind, rule wp_operand [OF assms], assumption, rule p(2),
        rule wp_bind_prod, rule wp_tail, rule rest)
qed

lemma bind_around: "Option.bind (around k body m q) g =
    Option.bind (precede m q) (\<lambda>(parent, q). Option.bind (body q) (\<lambda>q. Option.bind (node parent k q) g))"
  by (auto simp: around_def bind_assoc split: prod.splits intro!: Option.bind_cong)

lemma conversion_loop_ok [carried]:
  "st c b p [] 0 q \<Longrightarrow> last_at p [] m q \<Longrightarrow> good c R rec \<Longrightarrow> remaining p \<le> R \<Longrightarrow> yields c p (conversion_loop rec mode m q)"
proof (induction "remaining q" arbitrary: b q m rule: less_induct)
  case less
  let ?body = "\<lambda>p. Option.bind (newline_after_incomplete (newline_boundary mode) p) (sub rec TypeN)"
  have moves: "moves False c q' ?body" if "remaining q' < R" for q'
  proof -
    have "steps c p' (?body p')" if "ok c p'" "remaining p' < R" for p'
      by (rule steps_enter [OF that(1)], rule wp_bind_bind, rule wp_newline_after, assumption, rule wp_call,
          rule good_sub [OF less.prems(3)], erule st_ok, erule st_less', rule that(2), simp, assumption, erule wp_done)
    with that show ?thesis by (simp add: moves_def steps_def same_place_simps)
  qed
  have step: "yields c p (Option.bind (eat_keyword KwAs q') (\<lambda>(conversion, q).
      if conversion then Option.bind (around ''conversion_expression'' ?body m q) (\<lambda>(m, q). conversion_loop rec mode m q)
      else Some (m, q)))"
    if q': "st c b p [] 0 q'" "last_at p [] m q'" "remaining q' \<le> remaining q" for q'
  proof (cases "current_kind q' = Keyword KwAs")
    case True
    have eaten: "yields c p (Option.bind (around ''conversion_expression'' ?body m q1) (\<lambda>(m, q). conversion_loop rec mode m q))"
      if q1: "st c True q' [] 0 q1" for q1
    proof (rule around_again [OF st_step_True [OF q1 q'(1)] last_keep [OF q'(2) q1]])
      have "remaining q1 < remaining q'" using q1 by (simp add: st_def)
      with q'(3) st_le [OF q'(1) less.prems(4)] show "moves False c q1 ?body"
        "remaining q1 + (if False then 0 else 1) \<le> remaining q" by (auto intro: moves)
    qed (use less.hyps less.prems(3,4) in blast)
    from True whole_bump [OF st_ok [OF q'(1)]] show ?thesis
      unfolding yields_def
      by (cases "bump q'") (use eaten in \<open>auto simp: eat_def at_kind_def wp_def yields_def\<close>)
  qed (use that in \<open>simp add: eat_def at_kind_def yields_here\<close>)
  show ?case
    unfolding conversion_loop.simps [of rec mode m q] newline_before_token_def
    by (rule after_newlines [OF less.prems(1,2)], drule (2) step, simp add: bind_around bind_assoc cong: if_cong)
qed

text \<open>The layers of binary operators, each over the one before it.\<close>

lemma parse_conversion_ok: "good c R rec \<Longrightarrow> operand_ok c R (parse_conversion rec mode)"
  unfolding operand_ok_def parse_conversion_def
  by (intro allI impI, rule yields_enter, assumption, (rule wp_bump2 wp_join walk wps ends | assumption | rule wp_call, rule oks good_sub | rule wp_return, rule oks
    | rule wp_tail, rule carried | rule wp_yield_at, rule oks | rule wp_yield, rule oks | rule wp_yield, erule good_yields | erule (1) keepsD | rule wp_attempt, rule oks | erule st_ok | erule (1) step_less step_le
    | rule elementsI oks good_sub | erule le_less_trans | rule less_imp_le | erule not_eof, simp add: at_kind_def; fail
    | erule (1) not_eof_contextual | simp add: at_kind_def; fail
    | auto simp: at_kind_def; fail)+)

lemma parse_additive_ok: "good c R rec \<Longrightarrow> operand_ok c R (parse_additive rec mode)"
  unfolding parse_additive_def parse_multiplicative_def by (intro repeated_binary_ok parse_conversion_ok)

lemma generic_closer_some:
  assumes "ok c q"
  obtains v where "at_generic_closer mode q = Some v"
proof -
  have "at_generic_closer mode q \<noteq> None"
    using ok_split(2) [OF assms] by (cases "par_split q") (auto simp: at_generic_closer_def nth_kind_def at_kind_def)
  with that show thesis by blast
qed

lemma shift_loop_ok [carried]:
  "st c b p [] 0 q \<Longrightarrow> last_at p [] m q \<Longrightarrow> good c R rec \<Longrightarrow> remaining p \<le> R \<Longrightarrow> yields c p (shift_loop rec mode m q)"
proof (induction "remaining q" arbitrary: q m rule: less_induct)
  case less
  obtain v where v: "at_generic_closer mode q = Some v" by (rule generic_closer_some [OF st_ok [OF less.prems(1)]])
  have "yields c p (if (at_punctuation PShiftLeft q \<or> at_punctuation PShiftRight q) \<and> \<not> v
      then Option.bind (binary_operation (parse_additive rec mode) ''shift_expression'' mode m q)
        (\<lambda>(m, q). shift_loop rec mode m q) else Some (m, q))"
    unfolding binary_operation_around
    by (intro yields_if around_again [OF less.prems(1,2), where n = "remaining q" and s = True] yields_here [OF less.prems(1,2)]
        operation_moves [OF parse_additive_ok [OF less.prems(3)]] st_le [OF less.prems(1,4)]
        less.hyps less.prems(3,4)) (auto simp: at_kind_def)
  with v show ?case by (subst shift_loop.simps) simp
qed

lemma parse_shift_ok: "good c R rec \<Longrightarrow> operand_ok c R (parse_shift rec mode)"
  unfolding operand_ok_def parse_shift_def
  by (intro allI impI, rule yields_enter, assumption, rule wp_bind_bind, rule wp_operand [OF parse_additive_ok], assumption,
      assumption, assumption, rule wp_bind_prod, rule wp_tail, rule shift_loop_ok)

lemma parse_logical_or_ok: "good c R rec \<Longrightarrow> operand_ok c R (parse_logical_or rec mode)"
  unfolding parse_logical_or_def parse_logical_and_def parse_equality_def parse_ordering_def
  by (intro repeated_binary_ok single_binary_ok parse_shift_ok)

section \<open>Recovery and whole expressions\<close>

lemma recovery_clause_moves:
  assumes "ok c q" and "good c R rec" and "remaining q \<le> R" and "at_keyword KwCatch q \<or> at_keyword KwOtherwise q"
  shows "wp c (st c True q [] 0) (recovery_clause rec mode q)"
  unfolding recovery_clause_def
  apply (insert assms)
  apply (rule strict_enter, assumption, rule wp_bind_bind, rule wp_start, assumption, rule wp_bind_prod)
  apply (rule wp_bind_bind, rule wp_eat, assumption, simp)
  subgoal by (rule wp_bump2 wp_join walk wps ends | assumption | rule wp_call, rule oks good_sub | rule wp_return, rule oks
    | rule wp_tail, rule carried | rule wp_yield_at, rule oks | rule wp_yield, rule oks | rule wp_yield, erule good_yields | erule (1) keepsD | rule wp_attempt, rule oks | erule st_ok | erule (1) step_less step_le
    | rule elementsI oks good_sub | erule le_less_trans | rule less_imp_le | erule not_eof, simp add: at_kind_def; fail
    | erule (1) not_eof_contextual | simp add: at_kind_def; fail
    | auto simp: at_kind_def; fail)+
  subgoal
    apply (rule wp_bind_prod, rule wp_bind_bind, rule wp_bind_if_False, subst expect_keyword_at, simp add: at_kind_def)
    apply (rule wp_bump2 wp_join walk wps ends | assumption | rule wp_call, rule oks good_sub | rule wp_return, rule oks
    | rule wp_tail, rule carried | rule wp_yield_at, rule oks | rule wp_yield, rule oks | rule wp_yield, erule good_yields | erule (1) keepsD | rule wp_attempt, rule oks | erule st_ok | erule (1) step_less step_le
    | rule elementsI oks good_sub | erule le_less_trans | rule less_imp_le | erule not_eof, simp add: at_kind_def; fail
    | erule (1) not_eof_contextual | simp add: at_kind_def; fail
    | auto simp: at_kind_def; fail)+
    done
  done

lemma recovery_loop_ok [carried]:
  "st c b p [] 0 q \<Longrightarrow> last_at p [] m q \<Longrightarrow> good c R rec \<Longrightarrow> remaining p \<le> R \<Longrightarrow> yields c p (recovery_loop rec mode m q)"
proof (induction "remaining q" arbitrary: q m rule: less_induct)
  case less
  have moves: "moves True c q' (recovery_clause rec mode)"
    if "st c b p [] 0 q'" "at_keyword KwCatch q' \<or> at_keyword KwOtherwise q'" for q'
    using that st_le [OF that(1) less.prems(4)] recovery_clause_moves less.prems(3)
    by (simp add: moves_def same_place_simps)
  have step: "yields c p (if at_keyword KwCatch q' \<or> at_keyword KwOtherwise q'
      then Option.bind (around ''recovery_expression'' (recovery_clause rec mode) m q') (\<lambda>(m, q). recovery_loop rec mode m q)
      else Some (m, q'))"
    if "st c b p [] 0 q'" "last_at p [] m q'" "remaining q' \<le> remaining q" for q'
    by (intro yields_if around_again [OF that(1,2), where n = "remaining q" and s = True] yields_here [OF that(1,2)]
        moves [OF that(1)] less.hyps less.prems(3,4)) (use that(3) in auto)
  show ?case
    unfolding recovery_loop.simps [of rec mode m q]
    by (rule after_newlines [OF less.prems(1,2)], drule (2) step, simp add: bind_around bind_assoc cong: if_cong)
qed

lemma parse_recovery_ok [oks]: "ok c q \<Longrightarrow> good c R rec \<Longrightarrow> remaining q \<le> R \<Longrightarrow> yields c q (parse_recovery rec mode q)"
  unfolding parse_recovery_def
  by (rule yields_enter, assumption, rule wp_bind_bind, rule wp_operand [OF parse_logical_or_ok], assumption,
      assumption, assumption, (rule wp_bump2 wp_join walk wps ends | assumption | rule wp_call, rule oks good_sub | rule wp_return, rule oks
    | rule wp_tail, rule carried | rule wp_yield_at, rule oks | rule wp_yield, rule oks | rule wp_yield, erule good_yields | erule (1) keepsD | rule wp_attempt, rule oks | erule st_ok | erule (1) step_less step_le
    | rule elementsI oks good_sub | erule le_less_trans | rule less_imp_le | erule not_eof, simp add: at_kind_def; fail
    | erule (1) not_eof_contextual | simp add: at_kind_def; fail
    | auto simp: at_kind_def; fail)+)

lemma parse_expression_ok [oks]: "ok c q \<Longrightarrow> good c R rec \<Longrightarrow> remaining q \<le> R \<Longrightarrow> yields c q (parse_expression rec mode q)"
  unfolding parse_expression_def by (rule yields_enter, assumption, (rule wp_bump2 wp_join walk wps ends | assumption | rule wp_call, rule oks good_sub | rule wp_return, rule oks
    | rule wp_tail, rule carried | rule wp_yield_at, rule oks | rule wp_yield, rule oks | rule wp_yield, erule good_yields | erule (1) keepsD | rule wp_attempt, rule oks | erule st_ok | erule (1) step_less step_le
    | rule elementsI oks good_sub | erule le_less_trans | rule less_imp_le | erule not_eof, simp add: at_kind_def; fail
    | erule (1) not_eof_contextual | simp add: at_kind_def; fail
    | auto simp: at_kind_def; fail)+)

end
