(* ===== verification/Statement_Steps.thy ===== *)
theory Statement_Steps
  imports Operator_Steps Parser_Statements
begin

text \<open>The contracts of the productions of \<open>Parser_Statements\<close>.\<close>

section \<open>Use trees\<close>

lemma module_segment_ok [oks]: "ok c q \<Longrightarrow> returns c q (expect_module_segment q)"
  unfolding expect_module_segment_def
  by (rule returns_enter, assumption, (rule wp_bump2 wp_join walk wps ends | assumption | rule wp_call, rule oks good_sub | rule wp_return, rule oks
    | rule wp_tail, rule carried | rule wp_yield_at, rule oks | rule wp_yield, rule oks | rule wp_yield, erule good_yields | erule (1) keepsD | rule wp_attempt, rule oks | erule st_ok | erule (1) step_less step_le
    | rule elementsI oks good_sub | erule le_less_trans | rule less_imp_le | erule not_eof, simp add: at_kind_def; fail
    | erule (1) not_eof_contextual | simp add: at_kind_def; fail
    | auto simp: at_kind_def; fail)+)

lemma selected_name_ok [oks]: "ok c q \<Longrightarrow> steps c q (parse_selected_name q)"
  unfolding parse_selected_name_def by (rule steps_enter, assumption, (rule wp_bump2 wp_join walk wps ends | assumption | rule wp_call, rule oks good_sub | rule wp_return, rule oks
    | rule wp_tail, rule carried | rule wp_yield_at, rule oks | rule wp_yield, rule oks | rule wp_yield, erule good_yields | erule (1) keepsD | rule wp_attempt, rule oks | erule st_ok | erule (1) step_less step_le
    | rule elementsI oks good_sub | erule le_less_trans | rule less_imp_le | erule not_eof, simp add: at_kind_def; fail
    | erule (1) not_eof_contextual | simp add: at_kind_def; fail
    | auto simp: at_kind_def; fail)+)

lemma parent_loop_ok [oks]: "ok c q \<Longrightarrow> steps c q (parent_loop q)"
proof (induction "remaining q" arbitrary: q rule: less_induct)
  case less
  have again: "steps c q' (parent_loop q')" if "st c True q [] 0 q'" for q'
    using that by (intro less.hyps) (auto simp: st_def)
  show ?case
    by (subst parent_loop.simps, rule steps_enter [OF less.prems], (rule wp_call, rule again, assumption | (rule wp_bump2 wp_join walk wps ends | assumption | rule wp_call, rule oks good_sub | rule wp_return, rule oks
    | rule wp_tail, rule carried | rule wp_yield_at, rule oks | rule wp_yield, rule oks | rule wp_yield, erule good_yields | erule (1) keepsD | rule wp_attempt, rule oks | erule st_ok | erule (1) step_less step_le
    | rule elementsI oks good_sub | erule le_less_trans | rule less_imp_le | erule not_eof, simp add: at_kind_def; fail
    | erule (1) not_eof_contextual | simp add: at_kind_def; fail
    | auto simp: at_kind_def; fail))+)
qed

lemma relative_prefix_ok [oks]: "ok c q \<Longrightarrow> steps c q (relative_prefix q)"
  unfolding relative_prefix_def by (rule steps_enter, assumption, (rule wp_bump2 wp_join walk wps ends | assumption | rule wp_call, rule oks good_sub | rule wp_return, rule oks
    | rule wp_tail, rule carried | rule wp_yield_at, rule oks | rule wp_yield, rule oks | rule wp_yield, erule good_yields | erule (1) keepsD | rule wp_attempt, rule oks | erule st_ok | erule (1) step_less step_le
    | rule elementsI oks good_sub | erule le_less_trans | rule less_imp_le | erule not_eof, simp add: at_kind_def; fail
    | erule (1) not_eof_contextual | simp add: at_kind_def; fail
    | auto simp: at_kind_def; fail)+)

lemma segment_loop_ok [oks]: "ok c q \<Longrightarrow> steps c q (segment_loop q)"
proof (induction "remaining q" arbitrary: q rule: less_induct)
  case less
  have again: "steps c q' (segment_loop q')" if "st c True q [] 0 q'" for q'
    using that by (intro less.hyps) (auto simp: st_def)
  show ?case
    by (subst segment_loop.simps, rule steps_enter [OF less.prems], (rule wp_call, rule again, assumption | (rule wp_bump2 wp_join walk wps ends | assumption | rule wp_call, rule oks good_sub | rule wp_return, rule oks
    | rule wp_tail, rule carried | rule wp_yield_at, rule oks | rule wp_yield, rule oks | rule wp_yield, erule good_yields | erule (1) keepsD | rule wp_attempt, rule oks | erule st_ok | erule (1) step_less step_le
    | rule elementsI oks good_sub | erule le_less_trans | rule less_imp_le | erule not_eof, simp add: at_kind_def; fail
    | erule (1) not_eof_contextual | simp add: at_kind_def; fail
    | auto simp: at_kind_def; fail))+)
qed

lemma module_path_ok [oks]: "ok c q \<Longrightarrow> steps c q (module_path q)"
  unfolding module_path_def by (rule steps_enter, assumption, (rule wp_bump2 wp_join walk wps ends | assumption | rule wp_call, rule oks good_sub | rule wp_return, rule oks
    | rule wp_tail, rule carried | rule wp_yield_at, rule oks | rule wp_yield, rule oks | rule wp_yield, erule good_yields | erule (1) keepsD | rule wp_attempt, rule oks | erule st_ok | erule (1) step_less step_le
    | rule elementsI oks good_sub | erule le_less_trans | rule less_imp_le | erule not_eof, simp add: at_kind_def; fail
    | erule (1) not_eof_contextual | simp add: at_kind_def; fail
    | auto simp: at_kind_def; fail)+)

lemma import_selection_ok [oks]: "ok c q \<Longrightarrow> steps c q (import_selection q)"
  unfolding import_selection_def by (rule steps_enter, assumption, (rule wp_bump2 wp_join walk wps ends | assumption | rule wp_call, rule oks good_sub | rule wp_return, rule oks
    | rule wp_tail, rule carried | rule wp_yield_at, rule oks | rule wp_yield, rule oks | rule wp_yield, erule good_yields | erule (1) keepsD | rule wp_attempt, rule oks | erule st_ok | erule (1) step_less step_le
    | rule elementsI oks good_sub | erule le_less_trans | rule less_imp_le | erule not_eof, simp add: at_kind_def; fail
    | erule (1) not_eof_contextual | simp add: at_kind_def; fail
    | auto simp: at_kind_def; fail)+)

lemma use_tree_ok [oks]: "ok c q \<Longrightarrow> steps c q (use_tree q)"
  unfolding use_tree_def by (rule steps_enter, assumption, (rule wp_bump2 wp_join walk wps ends | assumption | rule wp_call, rule oks good_sub | rule wp_return, rule oks
    | rule wp_tail, rule carried | rule wp_yield_at, rule oks | rule wp_yield, rule oks | rule wp_yield, erule good_yields | erule (1) keepsD | rule wp_attempt, rule oks | erule st_ok | erule (1) step_less step_le
    | rule elementsI oks good_sub | erule le_less_trans | rule less_imp_le | erule not_eof, simp add: at_kind_def; fail
    | erule (1) not_eof_contextual | simp add: at_kind_def; fail
    | auto simp: at_kind_def; fail)+)

section \<open>Bindings and assignments\<close>

lemma binding_elements_ok [oks]: "ok c q \<Longrightarrow> good c R rec \<Longrightarrow> remaining q < R \<Longrightarrow> steps c q (binding_elements rec q)"
  unfolding binding_elements_def by (rule steps_enter, assumption, (rule wp_bump2 wp_join walk wps ends | assumption | rule wp_call, rule oks good_sub | rule wp_return, rule oks
    | rule wp_tail, rule carried | rule wp_yield_at, rule oks | rule wp_yield, rule oks | rule wp_yield, erule good_yields | erule (1) keepsD | rule wp_attempt, rule oks | erule st_ok | erule (1) step_less step_le
    | rule elementsI oks good_sub | erule le_less_trans | rule less_imp_le | erule not_eof, simp add: at_kind_def; fail
    | erule (1) not_eof_contextual | simp add: at_kind_def; fail
    | auto simp: at_kind_def; fail)+)

lemma binding_pattern_ok [oks]: "ok c q \<Longrightarrow> good c R rec \<Longrightarrow> remaining q \<le> R \<Longrightarrow> yields c q (binding_pattern rec q)"
  unfolding binding_pattern_def by (rule yields_enter, assumption, (rule wp_bump2 wp_join walk wps ends | assumption | rule wp_call, rule oks good_sub | rule wp_return, rule oks
    | rule wp_tail, rule carried | rule wp_yield_at, rule oks | rule wp_yield, rule oks | rule wp_yield, erule good_yields | erule (1) keepsD | rule wp_attempt, rule oks | erule st_ok | erule (1) step_less step_le
    | rule elementsI oks good_sub | erule le_less_trans | rule less_imp_le | erule not_eof, simp add: at_kind_def; fail
    | erule (1) not_eof_contextual | simp add: at_kind_def; fail
    | auto simp: at_kind_def; fail)+)

lemma binding_annotation_ok [oks]: "ok c q \<Longrightarrow> good c R rec \<Longrightarrow> remaining q \<le> R \<Longrightarrow> steps c q (binding_annotation rec q)"
  unfolding binding_annotation_def by (rule steps_enter, assumption, (rule wp_bump2 wp_join walk wps ends | assumption | rule wp_call, rule oks good_sub | rule wp_return, rule oks
    | rule wp_tail, rule carried | rule wp_yield_at, rule oks | rule wp_yield, rule oks | rule wp_yield, erule good_yields | erule (1) keepsD | rule wp_attempt, rule oks | erule st_ok | erule (1) step_less step_le
    | rule elementsI oks good_sub | erule le_less_trans | rule less_imp_le | erule not_eof, simp add: at_kind_def; fail
    | erule (1) not_eof_contextual | simp add: at_kind_def; fail
    | auto simp: at_kind_def; fail)+)

lemma binding_ok [oks]: "ok c q \<Longrightarrow> good c R rec \<Longrightarrow> remaining q \<le> R \<Longrightarrow> current_kind q \<noteq> EndOfFile \<Longrightarrow> yields c q (binding rec q)"
  unfolding binding_def by (rule yields_enter, assumption, (rule wp_bump2 wp_join walk wps ends | assumption | rule wp_call, rule oks good_sub | rule wp_return, rule oks
    | rule wp_tail, rule carried | rule wp_yield_at, rule oks | rule wp_yield, rule oks | rule wp_yield, erule good_yields | erule (1) keepsD | rule wp_attempt, rule oks | erule st_ok | erule (1) step_less step_le
    | rule elementsI oks good_sub | erule le_less_trans | rule less_imp_le | erule not_eof, simp add: at_kind_def; fail
    | erule (1) not_eof_contextual | simp add: at_kind_def; fail
    | auto simp: at_kind_def; fail)+)

lemma wp_possible_assignment [wps]:
  assumes "st c b p ms d q" and "\<And>v. wp c Q (g v)"
  shows "wp c Q (Option.bind (has_possible_assignment q) g)"
  using assms(2) ok_split(1) [OF st_ok [OF assms(1)]]
  by (cases "par_split q") (auto simp: has_possible_assignment_def wp_def)

lemma assignment_operator_kind: "is_assignment_operator (current_kind q) \<Longrightarrow> current_kind q \<noteq> EndOfFile"
  by (auto simp: is_assignment_operator_def)

lemma assignment_ok: "ok c q \<Longrightarrow> good c R rec \<Longrightarrow> remaining q \<le> R \<Longrightarrow> yields_at c fst q (assignment rec q)"
  unfolding assignment_def
  by (rule yields_at_enter, assumption, (rule wp_done_yield, assumption, simp; fail | erule assignment_operator_kind | (rule wp_bump2 wp_join walk wps ends | assumption | rule wp_call, rule oks good_sub | rule wp_return, rule oks
    | rule wp_tail, rule carried | rule wp_yield_at, rule oks | rule wp_yield, rule oks | rule wp_yield, erule good_yields | erule (1) keepsD | rule wp_attempt, rule oks | erule st_ok | erule (1) step_less step_le
    | rule elementsI oks good_sub | erule le_less_trans | rule less_imp_le | erule not_eof, simp add: at_kind_def; fail
    | erule (1) not_eof_contextual | simp add: at_kind_def; fail
    | auto simp: at_kind_def; fail))+)

section \<open>Statements\<close>

lemma simple_statements_ok [oks]:
  "ok c q \<Longrightarrow> good c R rec \<Longrightarrow> remaining q \<le> R \<Longrightarrow> current_kind q \<noteq> EndOfFile \<Longrightarrow> yields c q (return_statement rec q)"
  "ok c q \<Longrightarrow> yields c q (simple_statement k n q)"
  "ok c q \<Longrightarrow> current_kind q \<noteq> EndOfFile \<Longrightarrow> yields c q (drop_statement q)"
  "ok c q \<Longrightarrow> good c R rec \<Longrightarrow> remaining q \<le> R \<Longrightarrow> current_kind q \<noteq> EndOfFile \<Longrightarrow> yields c q (while_statement rec q)"
  "ok c q \<Longrightarrow> good c R rec \<Longrightarrow> remaining q \<le> R \<Longrightarrow> current_kind q \<noteq> EndOfFile \<Longrightarrow> yields c q (loop_statement rec q)"
  unfolding return_statement_def simple_statement_def drop_statement_def while_statement_def loop_statement_def
  by (rule yields_enter, assumption, (rule wp_bump2 wp_join walk wps ends | assumption | rule wp_call, rule oks good_sub | rule wp_return, rule oks
    | rule wp_tail, rule carried | rule wp_yield_at, rule oks | rule wp_yield, rule oks | rule wp_yield, erule good_yields | erule (1) keepsD | rule wp_attempt, rule oks | erule st_ok | erule (1) step_less step_le
    | rule elementsI oks good_sub | erule le_less_trans | rule less_imp_le | erule not_eof, simp add: at_kind_def; fail
    | erule (1) not_eof_contextual | simp add: at_kind_def; fail
    | auto simp: at_kind_def; fail)+)+

lemma for_parts_ok [oks]:
  "ok c q \<Longrightarrow> steps c q (for_bindings q)"
  "ok c q \<Longrightarrow> good c R rec \<Longrightarrow> remaining q < R \<Longrightarrow> steps c q (for_source rec a q)"
  unfolding for_bindings_def for_source_def by (rule steps_enter, assumption, (rule wp_bump2 wp_join walk wps ends | assumption | rule wp_call, rule oks good_sub | rule wp_return, rule oks
    | rule wp_tail, rule carried | rule wp_yield_at, rule oks | rule wp_yield, rule oks | rule wp_yield, erule good_yields | erule (1) keepsD | rule wp_attempt, rule oks | erule st_ok | erule (1) step_less step_le
    | rule elementsI oks good_sub | erule le_less_trans | rule less_imp_le | erule not_eof, simp add: at_kind_def; fail
    | erule (1) not_eof_contextual | simp add: at_kind_def; fail
    | auto simp: at_kind_def; fail)+)+

lemma long_statements_ok [oks]:
  "ok c q \<Longrightarrow> good c R rec \<Longrightarrow> remaining q \<le> R \<Longrightarrow> current_kind q \<noteq> EndOfFile \<Longrightarrow> yields c q (for_statement rec q)"
  "ok c q \<Longrightarrow> good c R rec \<Longrightarrow> remaining q \<le> R \<Longrightarrow> current_kind q \<noteq> EndOfFile \<Longrightarrow> yields c q (region_statement rec q)"
  unfolding for_statement_def region_statement_def by (rule yields_enter, assumption, (rule wp_bump2 wp_join walk wps ends | assumption | rule wp_call, rule oks good_sub | rule wp_return, rule oks
    | rule wp_tail, rule carried | rule wp_yield_at, rule oks | rule wp_yield, rule oks | rule wp_yield, erule good_yields | erule (1) keepsD | rule wp_attempt, rule oks | erule st_ok | erule (1) step_less step_le
    | rule elementsI oks good_sub | erule le_less_trans | rule less_imp_le | erule not_eof, simp add: at_kind_def; fail
    | erule (1) not_eof_contextual | simp add: at_kind_def; fail
    | auto simp: at_kind_def; fail)+)+

lemma wp_at_drop [wps]:
  assumes "st c b p ms d q" and "\<And>v. (v \<Longrightarrow> current_kind q = Identifier) \<Longrightarrow> wp c Q (g v)"
  shows "wp c Q (Option.bind (at_drop_statement q) g)"
  using assms(2) ok_contextual [OF st_ok [OF assms(1)]]
  by (cases "at_contextual CtxDrop q") (auto simp: at_drop_statement_def nth_kind_def)

lemma statement_result_ok: "yields c q r \<Longrightarrow> yields_at c fst q (statement_result r)"
  by (cases r) (auto simp: statement_result_def yields_def yields_at_def wp_def)

lemma wp_statement_result:
  "yields c q r \<Longrightarrow> wp c (\<lambda>(v, q'). st c False q [] 0 q' \<and> last_at q [] (fst v) q') (Option.bind (statement_result r) Some)"
  using statement_result_ok by (simp add: yields_at_def)

lemma assignment_or_expression_ok [oks]:
  assumes "ok c q" and "good c R rec" and "remaining q < R"
  shows "yields_at c fst q (assignment_or_expression rec q)"
proof -
  have expr: "wp c (\<lambda>(v, q'). st c False q [] 0 q' \<and> last_at q [] (fst v) q')
      (Option.bind (map_option (\<lambda>(marker, p). ((marker, True), p)) (rec (ExpressionN OrdinaryMode) q')) Some)"
    if "st c False q [] 0 q'" for q'
    by (rule wp_bind_map, rule wp_yield [OF good_yields [OF assms(2)]], rule st_ok [OF that], rule st_less' [OF that assms(3)],
        simp, rule that, simp, rule wp_done_yield, assumption, simp)
  have tried: "wp c (\<lambda>(v, q'). st c False q [] 0 q' \<and> last_at q [] (fst v) q')
      (Option.bind (attempt_decided_with (assignment rec) (\<lambda>(_, has_operator) _. Some has_operator) q) (\<lambda>(attempted, p).
        Option.bind (case attempted of Some (marker, _) \<Rightarrow> Some ((marker, False), p)
          | None \<Rightarrow> map_option (\<lambda>(marker, p). ((marker, True), p)) (rec (ExpressionN OrdinaryMode) p)) Some))"
    apply (rule wp_attempt_decided [OF st_refl [OF assms(1)], where R = "\<lambda>v q'. last_at q [] (fst v) q'"])
    subgoal using assignment_ok [OF assms(1,2)] assms(3) by (simp add: yields_at_def)
    subgoal by (simp add: wp_def split: prod.splits)
    subgoal for v q' by (cases v) (simp add: wp_def)
    subgoal using expr by simp
    done
  show ?thesis
    unfolding assignment_or_expression_def
    apply (rule yields_at_enter [OF assms(1)], rule wp_bind_bind, rule wp_possible_assignment, assumption, rule wp_bind_bind)
    apply (rule wp_bind_if)
    subgoal using tried by (simp add: case_prod_unfold)
    subgoal using expr by simp
    done
qed

lemma wp_tail_at:
  "yields_at c f q r \<Longrightarrow> wp c (\<lambda>(v, q'). st c False q [] 0 q' \<and> last_at q [] (f v) q') (Option.bind r Some)"
  by (simp add: yields_at_def)

lemma wp_yield_pair:
  assumes "yields_at c fst q r" and "st c b p ms d q"
    and "\<And>m v q'. st c b p ms d q' \<Longrightarrow> last_at p ms m q' \<Longrightarrow> wp c Q (g ((m, v), q'))"
  shows "wp c Q (Option.bind r g)"
  by (rule wp_yield_at [OF assms(1,2)]) (use assms(3) in force)

lemma wp_bind_prod_at: "wp c Q (Option.bind (f x y q) g) \<Longrightarrow> wp c Q (Option.bind ((case (x, y) of (x, y) \<Rightarrow> f x y) q) g)"
  by simp

lemma parse_executable_ok [oks]: "ok c q \<Longrightarrow> good c R rec \<Longrightarrow> remaining q < R \<Longrightarrow> yields_at c fst q (parse_executable rec q)"
  unfolding parse_executable_def
  by (rule yields_at_enter, assumption, (rule wp_statement_result, rule oks | rule wp_tail_at, rule oks | (rule wp_bump2 wp_join walk wps ends | assumption | rule wp_call, rule oks good_sub | rule wp_return, rule oks
    | rule wp_tail, rule carried | rule wp_yield_at, rule oks | rule wp_yield, rule oks | rule wp_yield, erule good_yields | erule (1) keepsD | rule wp_attempt, rule oks | erule st_ok | erule (1) step_less step_le
    | rule elementsI oks good_sub | erule le_less_trans | rule less_imp_le | erule not_eof, simp add: at_kind_def; fail
    | erule (1) not_eof_contextual | simp add: at_kind_def; fail
    | auto simp: at_kind_def; fail))+)

section \<open>Blocks\<close>

lemma block_use_ok [oks]: "ok c q \<Longrightarrow> steps c q (block_use q)"
  unfolding block_use_def by (rule steps_enter, assumption, (rule wp_bump2 wp_join walk wps ends | assumption | rule wp_call, rule oks good_sub | rule wp_return, rule oks
    | rule wp_tail, rule carried | rule wp_yield_at, rule oks | rule wp_yield, rule oks | rule wp_yield, erule good_yields | erule (1) keepsD | rule wp_attempt, rule oks | erule st_ok | erule (1) step_less step_le
    | rule elementsI oks good_sub | erule le_less_trans | rule less_imp_le | erule not_eof, simp add: at_kind_def; fail
    | erule (1) not_eof_contextual | simp add: at_kind_def; fail
    | auto simp: at_kind_def; fail)+)

lemma use_prefix_loop_ok [oks]: "ok c q \<Longrightarrow> steps c q (use_prefix_loop q)"
proof (induction "remaining q" arbitrary: q rule: less_induct)
  case less
  have again: "steps c q' (use_prefix_loop q')" if "st c True q [] 0 q'" for q'
    using that by (intro less.hyps) (auto simp: st_def)
  show ?case
    by (subst use_prefix_loop.simps, rule steps_enter [OF less.prems], (rule wp_call, rule again, assumption | (rule wp_bump2 wp_join walk wps ends | assumption | rule wp_call, rule oks good_sub | rule wp_return, rule oks
    | rule wp_tail, rule carried | rule wp_yield_at, rule oks | rule wp_yield, rule oks | rule wp_yield, erule good_yields | erule (1) keepsD | rule wp_attempt, rule oks | erule st_ok | erule (1) step_less step_le
    | rule elementsI oks good_sub | erule le_less_trans | rule less_imp_le | erule not_eof, simp add: at_kind_def; fail
    | erule (1) not_eof_contextual | simp add: at_kind_def; fail
    | auto simp: at_kind_def; fail))+)
qed

lemma wp_only_newlines [wps]:
  assumes "st c b p ms d q" and "\<And>v. wp c Q (g v)"
  shows "wp c Q (Option.bind (only_newlines_before_close q) g)"
  unfolding only_newlines_before_close_def
  by (rule wp_bind_bind, rule wp_newline_count [OF assms(1)], rule wp_bind_bind, rule wp_nth [OF assms(1)], rule wp_bind_Some)
    (rule assms(2))

lemma sequence_item_ok [oks]: "ok c q \<Longrightarrow> good c R rec \<Longrightarrow> remaining q < R \<Longrightarrow> steps c q (sequence_item rec q)"
  unfolding sequence_item_def
  by (rule steps_enter, assumption, (rule wp_yield_pair, rule oks | rule wp_bind_prod_at | (rule wp_bump2 wp_join walk wps ends | assumption | rule wp_call, rule oks good_sub | rule wp_return, rule oks
    | rule wp_tail, rule carried | rule wp_yield_at, rule oks | rule wp_yield, rule oks | rule wp_yield, erule good_yields | erule (1) keepsD | rule wp_attempt, rule oks | erule st_ok | erule (1) step_less step_le
    | rule elementsI oks good_sub | erule le_less_trans | rule less_imp_le | erule not_eof, simp add: at_kind_def; fail
    | erule (1) not_eof_contextual | simp add: at_kind_def; fail
    | auto simp: at_kind_def; fail))+)

lemma sequence_loop_ok [oks]: "ok c q \<Longrightarrow> good c R rec \<Longrightarrow> remaining q < R \<Longrightarrow> steps c q (sequence_loop rec q)"
proof (induction "remaining q" arbitrary: q rule: less_induct)
  case less
  have again: "steps c q' (sequence_loop rec q')" if "st c True q [] 0 q'" for q'
    using that less.prems by (intro less.hyps) (auto simp: st_def)
  show ?case
    by (subst sequence_loop.simps, rule steps_enter [OF less.prems(1)], insert less.prems(2,3), (rule wp_call, rule again, assumption | (rule wp_bump2 wp_join walk wps ends | assumption | rule wp_call, rule oks good_sub | rule wp_return, rule oks
    | rule wp_tail, rule carried | rule wp_yield_at, rule oks | rule wp_yield, rule oks | rule wp_yield, erule good_yields | erule (1) keepsD | rule wp_attempt, rule oks | erule st_ok | erule (1) step_less step_le
    | rule elementsI oks good_sub | erule le_less_trans | rule less_imp_le | erule not_eof, simp add: at_kind_def; fail
    | erule (1) not_eof_contextual | simp add: at_kind_def; fail
    | auto simp: at_kind_def; fail))+)
qed

lemma executable_sequence_ok [oks]: "ok c q \<Longrightarrow> good c R rec \<Longrightarrow> remaining q < R \<Longrightarrow> steps c q (executable_sequence rec q)"
  unfolding executable_sequence_def by (rule steps_enter, assumption, (rule wp_bump2 wp_join walk wps ends | assumption | rule wp_call, rule oks good_sub | rule wp_return, rule oks
    | rule wp_tail, rule carried | rule wp_yield_at, rule oks | rule wp_yield, rule oks | rule wp_yield, erule good_yields | erule (1) keepsD | rule wp_attempt, rule oks | erule st_ok | erule (1) step_less step_le
    | rule elementsI oks good_sub | erule le_less_trans | rule less_imp_le | erule not_eof, simp add: at_kind_def; fail
    | erule (1) not_eof_contextual | simp add: at_kind_def; fail
    | auto simp: at_kind_def; fail)+)

lemma parse_block_ok [oks]: "ok c q \<Longrightarrow> good c R rec \<Longrightarrow> remaining q \<le> R \<Longrightarrow> current_kind q \<noteq> EndOfFile \<Longrightarrow> yields c q (parse_block rec q)"
  unfolding parse_block_def by (rule yields_enter, assumption, (rule wp_bump2 wp_join walk wps ends | assumption | rule wp_call, rule oks good_sub | rule wp_return, rule oks
    | rule wp_tail, rule carried | rule wp_yield_at, rule oks | rule wp_yield, rule oks | rule wp_yield, erule good_yields | erule (1) keepsD | rule wp_attempt, rule oks | erule st_ok | erule (1) step_less step_le
    | rule elementsI oks good_sub | erule le_less_trans | rule less_imp_le | erule not_eof, simp add: at_kind_def; fail
    | erule (1) not_eof_contextual | simp add: at_kind_def; fail
    | auto simp: at_kind_def; fail)+)

end
