(* ===== verification/Declaration_Steps.thy ===== *)
theory Declaration_Steps
  imports Statement_Steps Parser_Root
begin

text \<open>
  The contracts of the productions of \<open>Parser_Declarations\<close> and \<open>Parser_Root\<close>, with the bounds of the scans that
  look for the keyword of a declaration.
\<close>

section \<open>Visibility and lookahead\<close>

lemma visibility_ok [oks]:
  "ok c q \<Longrightarrow> steps c q (visibility_scope q)"
  unfolding visibility_scope_def by (rule steps_enter, assumption, (rule wp_bump2 wp_join walk wps ends | assumption | rule wp_call, rule oks good_sub | rule wp_return, rule oks
    | rule wp_tail, rule carried | rule wp_yield_at, rule oks | rule wp_yield, rule oks | rule wp_yield, erule good_yields | erule (1) keepsD | rule wp_attempt, rule oks | erule st_ok | erule (1) step_less step_le
    | rule elementsI oks good_sub | erule le_less_trans | rule less_imp_le | erule not_eof, simp add: at_kind_def; fail
    | erule (1) not_eof_contextual | simp add: at_kind_def; fail
    | auto simp: at_kind_def; fail)+)

lemma parse_visibility_ok [oks]: "ok c q \<Longrightarrow> current_kind q \<noteq> EndOfFile \<Longrightarrow> steps c q (parse_visibility q)"
  unfolding parse_visibility_def by (rule steps_enter, assumption, (rule wp_bump2 wp_join walk wps ends | assumption | rule wp_call, rule oks good_sub | rule wp_return, rule oks
    | rule wp_tail, rule carried | rule wp_yield_at, rule oks | rule wp_yield, rule oks | rule wp_yield, erule good_yields | erule (1) keepsD | rule wp_attempt, rule oks | erule st_ok | erule (1) step_less step_le
    | rule elementsI oks good_sub | erule le_less_trans | rule less_imp_le | erule not_eof, simp add: at_kind_def; fail
    | erule (1) not_eof_contextual | simp add: at_kind_def; fail
    | auto simp: at_kind_def; fail)+)

lemma optional_visibility_ok [oks]: "ok c q \<Longrightarrow> steps c q (optional_visibility q)"
  unfolding optional_visibility_def by (rule steps_enter, assumption, (rule wp_bump2 wp_join walk wps ends | assumption | rule wp_call, rule oks good_sub | rule wp_return, rule oks
    | rule wp_tail, rule carried | rule wp_yield_at, rule oks | rule wp_yield, rule oks | rule wp_yield, erule good_yields | erule (1) keepsD | rule wp_attempt, rule oks | erule st_ok | erule (1) step_less step_le
    | rule elementsI oks good_sub | erule le_less_trans | rule less_imp_le | erule not_eof, simp add: at_kind_def; fail
    | erule (1) not_eof_contextual | simp add: at_kind_def; fail
    | auto simp: at_kind_def; fail)+)

lemma skip_scope_ok:
  assumes "ok c q" and "i < length (source_tokens q)"
  obtains stop where "skip_scope q i = Some stop" and "stop < length (source_tokens q)"
    and "kind_at q stop \<in> {Punctuation PRightParen, Newline, EndOfFile}"
proof -
  have "\<exists>stop. skip_scope q i = Some stop \<and> stop < length (source_tokens q)
      \<and> kind_at q stop \<in> {Punctuation PRightParen, Newline, EndOfFile}"
    using assms
  proof (induction "length (source_tokens q) - i" arbitrary: i rule: less_induct)
    case less
    show ?case
    proof (cases "kind_at q i \<in> {Punctuation PRightParen, Newline, EndOfFile}")
      case True
      with less.prems show ?thesis by (subst skip_scope.simps) auto
    next
      case False
      then have "i + 1 < length (source_tokens q)"
        by (intro after_in_range [OF st_refl [OF less.prems(1)] less.prems(2)]) auto
      with less.hyps [of "i + 1"] less.prems False show ?thesis by (subst skip_scope.simps) auto
    qed
  qed
  with that show thesis by blast
qed

lemma wp_skip_visibility [wps]:
  assumes "st c b p ms d q" and "i < length (source_tokens q)" and "kind_at q i \<noteq> EndOfFile"
    and "\<And>j. j < length (source_tokens q) \<Longrightarrow> (kind_at q (i + 1) \<noteq> Punctuation PLeftParen \<Longrightarrow> j = i + 1) \<Longrightarrow> wp c Q (g j)"
  shows "wp c Q (Option.bind (skip_visibility q i) g)"
proof -
  note q = st_ok [OF assms(1)] and more = after_in_range [OF st_refl [OF st_ok [OF assms(1)]]]
  have next1: "i + 1 < length (source_tokens q)" by (rule more [OF assms(2,3)])
  then have kind: "token_kind_at q (i + 1) = Some (kind_at q (i + 1))" by (simp add: token_kind_at_def kind_at_def)
  show ?thesis
  proof (cases "kind_at q (i + 1) = Punctuation PLeftParen")
    case True
    with more [OF next1] have "i + 2 < length (source_tokens q)" by simp
    then obtain stop where stop: "skip_scope q (i + 2) = Some stop" "stop < length (source_tokens q)"
      by (rule skip_scope_ok [OF q])
    with more [OF stop(2)] kind True assms(4) show ?thesis by (auto simp: skip_visibility_def)
  qed (use kind next1 assms(4) in \<open>simp add: skip_visibility_def\<close>)
qed

text \<open>The token after one that is not the end of the file.\<close>

lemma wp_kind_after:
  assumes "st c b p ms d q" and "i < length (source_tokens q)" and "kind_at q i \<noteq> EndOfFile" and "wp c Q (g (kind_at q (i + 1)))"
  shows "wp c Q (Option.bind (token_kind_at q (i + 1)) g)"
  by (rule wp_token_kind_at [OF assms(1) after_in_range [OF assms(1-3)]], rule assms(4))

lemma wp_first_kind:
  assumes "st c b p ms d q" and "wp c Q (g (kind_at q (par_cursor q)))"
  shows "wp c Q (Option.bind (token_kind_at q (par_cursor q)) g)"
  by (rule wp_token_kind_at [OF assms(1) cursor_in_range [OF assms(1)]], rule assms(2))

lemma contextual_kind: "contextual_at i s q \<Longrightarrow> i < length (source_tokens q) \<and> kind_at q i = Identifier"
  by (auto simp: contextual_at_def Let_def kind_at_def)

lemma wp_kind_of_keyword:
  assumes "st c b p ms d q" and "i < length (source_tokens q)" and "\<And>k. wp c Q (g k)"
  shows "wp c Q (Option.bind (kind_of_keyword q i) g)"
  unfolding kind_of_keyword_def
  apply (rule wp_bind_bind, rule wp_token_kind_at [OF assms(1,2)])
  apply (intro wp_bind_if wp_bind_Some wp_bind_map assms(3))
  apply (rule wp_kind_after [OF assms(1,2)], simp, rule assms(3))
  done

lemma wp_next_is:
  assumes "st c b p ms d q" and "B \<Longrightarrow> i < length (source_tokens q) \<and> kind_at q i \<noteq> EndOfFile" and "\<And>v. wp c Q (g v)"
  shows "wp c Q (Option.bind (if B then map_option f (token_kind_at q (i + 1)) else Some e) g)"
  by (rule wp_bind_if, rule wp_bind_map, rule wp_kind_after [OF assms(1)]) (use assms(2,3) in auto)

lemma wp_targetable_kind [wps]:
  assumes "st c b p ms d q" and "\<And>k. wp c Q (g k)"
  shows "wp c Q (Option.bind (targetable_kind q) g)"
proof -
  have found: "wp c Q (Option.bind (scan_prefix q i DeferredAllowed) (\<lambda>callable. Option.bind (token_kind_at q callable) (\<lambda>k.
      if k = Keyword KwFunc then g (Some FunctionDeclaration)
      else Option.bind (scan_prefix q i Immediate) (\<lambda>primitive. Option.bind (token_kind_at q primitive) (\<lambda>k.
        Option.bind (if k = Keyword KwPrimitive then map_option (\<lambda>k. k = Keyword KwFunc) (token_kind_at q (primitive + 1))
          else Some False) (\<lambda>is_primitive. if is_primitive then g (Some PrimitiveFunctionDeclaration)
          else Option.bind (if contextual_at i CtxCopy q then map_option (\<lambda>k. k = Keyword KwStruct) (token_kind_at q (i + 1))
            else Some False) (\<lambda>copied. if copied then g (Some StructDeclaration)
              else Option.bind (kind_of_keyword q i) g)))))))"
    if "i < length (source_tokens q)" for i
    apply (rule wp_scan_prefix [OF assms(1) that], rule wp_token_kind_at [OF assms(1)], assumption)
    apply (rule wp_if, rule assms(2))
    apply (rule wp_scan_prefix [OF assms(1) that], rule wp_token_kind_at [OF assms(1)], assumption)
    apply (rule wp_next_is [OF assms(1)], simp)
    apply (rule wp_if, rule assms(2))
    apply (rule wp_next_is [OF assms(1)], drule contextual_kind, simp)
    apply (rule wp_if, rule assms(2))
    apply (rule wp_kind_of_keyword [OF assms(1) that assms(2)])
    done
  have "wp c Q (Option.bind (token_kind_at q (par_cursor q)) (\<lambda>first. Option.bind
      (if first = Keyword KwPub then skip_visibility q (par_cursor q) else Some (par_cursor q)) F))"
    if "\<And>i. i < length (source_tokens q) \<Longrightarrow> wp c Q (F i)" for F
    by (rule wp_first_kind [OF assms(1)], rule wp_bind_if, rule wp_skip_visibility [OF assms(1) cursor_in_range [OF assms(1)]])
      (use that cursor_in_range [OF assms(1)] in auto)
  from this [OF found] show ?thesis
    unfolding targetable_kind_def by (simp add: bind_assoc if_distrib [of "\<lambda>x. Option.bind x g"] cong: if_cong)
qed

lemma wp_declaration_kind [wps]:
  assumes "st c b p ms d q" and "wp c Q (g None)"
    and "\<And>k. wp c Q (g (Some k))"
  shows "wp c Q (Option.bind (declaration_kind_of q) g)"
proof -
  have all: "wp c Q (g k)" for k using assms(2,3) by (cases k) auto
  show ?thesis
    unfolding declaration_kind_of_def
    by (rule wp_bind_bind, rule wp_targetable_kind [OF assms(1)], rule wp_bind_if, rule wp_bind_Some, rule all,
        rule wp_bind_bind, rule wp_scan_prefix [OF assms(1) cursor_in_range [OF assms(1)]], rule wp_bind_Some, rule all)
qed

section \<open>Callables, values and types\<close>

lemma callable_tail_ok [oks]: "ok c q \<Longrightarrow> good c R rec \<Longrightarrow> remaining q < R \<Longrightarrow> steps c q (callable_tail rec q)"
  unfolding callable_tail_def by (rule steps_enter, assumption, (rule wp_bump2 wp_join walk wps ends | assumption | rule wp_call, rule oks good_sub | rule wp_return, rule oks
    | rule wp_tail, rule carried | rule wp_yield_at, rule oks | rule wp_yield, rule oks | rule wp_yield, erule good_yields | erule (1) keepsD | rule wp_attempt, rule oks | erule st_ok | erule (1) step_less step_le
    | rule elementsI oks good_sub | erule le_less_trans | rule less_imp_le | erule not_eof, simp add: at_kind_def; fail
    | erule (1) not_eof_contextual | simp add: at_kind_def; fail
    | auto simp: at_kind_def; fail)+)

lemma optional_generic_parameters_ok [oks]: "ok c q \<Longrightarrow> good c R rec \<Longrightarrow> remaining q < R \<Longrightarrow> steps c q (optional_generic_parameters rec q)"
  unfolding optional_generic_parameters_def by (rule steps_enter, assumption, (rule wp_bump2 wp_join walk wps ends | assumption | rule wp_call, rule oks good_sub | rule wp_return, rule oks
    | rule wp_tail, rule carried | rule wp_yield_at, rule oks | rule wp_yield, rule oks | rule wp_yield, erule good_yields | erule (1) keepsD | rule wp_attempt, rule oks | erule st_ok | erule (1) step_less step_le
    | rule elementsI oks good_sub | erule le_less_trans | rule less_imp_le | erule not_eof, simp add: at_kind_def; fail
    | erule (1) not_eof_contextual | simp add: at_kind_def; fail
    | auto simp: at_kind_def; fail)+)

lemma simple_receiver_ok [oks]: "ok c q \<Longrightarrow> steps c q (simple_receiver a q)"
  unfolding simple_receiver_def
  by (rule steps_enter, assumption, (erule disjE, simp add: at_kind_def, simp add: at_kind_def; fail | erule conjE, erule (1) not_eof_contextual | (rule wp_bump2 wp_join walk wps ends | assumption | rule wp_call, rule oks good_sub | rule wp_return, rule oks
    | rule wp_tail, rule carried | rule wp_yield_at, rule oks | rule wp_yield, rule oks | rule wp_yield, erule good_yields | erule (1) keepsD | rule wp_attempt, rule oks | erule st_ok | erule (1) step_less step_le
    | rule elementsI oks good_sub | erule le_less_trans | rule less_imp_le | erule not_eof, simp add: at_kind_def; fail
    | erule (1) not_eof_contextual | simp add: at_kind_def; fail
    | auto simp: at_kind_def; fail))+)

lemma receivers_ok [oks]:
  "ok c q \<Longrightarrow> steps c q (parse_receiver a q)"
  "ok c q \<Longrightarrow> steps c q (method_receiver q)"
  unfolding parse_receiver_def method_receiver_def by (rule steps_enter, assumption, (rule wp_bump2 wp_join walk wps ends | assumption | rule wp_call, rule oks good_sub | rule wp_return, rule oks
    | rule wp_tail, rule carried | rule wp_yield_at, rule oks | rule wp_yield, rule oks | rule wp_yield, erule good_yields | erule (1) keepsD | rule wp_attempt, rule oks | erule st_ok | erule (1) step_less step_le
    | rule elementsI oks good_sub | erule le_less_trans | rule less_imp_le | erule not_eof, simp add: at_kind_def; fail
    | erule (1) not_eof_contextual | simp add: at_kind_def; fail
    | auto simp: at_kind_def; fail)+)+

lemma method_signature_ok [oks]: "ok c q \<Longrightarrow> good c R rec \<Longrightarrow> remaining q < R \<Longrightarrow> steps c q (method_signature rec q)"
  unfolding method_signature_def by (rule steps_enter, assumption, (rule wp_bump2 wp_join walk wps ends | assumption | rule wp_call, rule oks good_sub | rule wp_return, rule oks
    | rule wp_tail, rule carried | rule wp_yield_at, rule oks | rule wp_yield, rule oks | rule wp_yield, erule good_yields | erule (1) keepsD | rule wp_attempt, rule oks | erule st_ok | erule (1) step_less step_le
    | rule elementsI oks good_sub | erule le_less_trans | rule less_imp_le | erule not_eof, simp add: at_kind_def; fail
    | erule (1) not_eof_contextual | simp add: at_kind_def; fail
    | auto simp: at_kind_def; fail)+)

lemma parse_function_ok [oks]: "ok c q \<Longrightarrow> good c R rec \<Longrightarrow> remaining q < R \<Longrightarrow> steps c q (parse_function rec a q)"
  unfolding parse_function_def by (rule steps_enter, assumption, (rule wp_bump2 wp_join walk wps ends | assumption | rule wp_call, rule oks good_sub | rule wp_return, rule oks
    | rule wp_tail, rule carried | rule wp_yield_at, rule oks | rule wp_yield, rule oks | rule wp_yield, erule good_yields | erule (1) keepsD | rule wp_attempt, rule oks | erule st_ok | erule (1) step_less step_le
    | rule elementsI oks good_sub | erule le_less_trans | rule less_imp_le | erule not_eof, simp add: at_kind_def; fail
    | erule (1) not_eof_contextual | simp add: at_kind_def; fail
    | auto simp: at_kind_def; fail)+)

lemma typed_value_ok [oks]: "ok c q \<Longrightarrow> good c R rec \<Longrightarrow> remaining q < R \<Longrightarrow> steps c q (typed_value rec q)"
  unfolding typed_value_def by (rule steps_enter, assumption, (rule wp_bump2 wp_join walk wps ends | assumption | rule wp_call, rule oks good_sub | rule wp_return, rule oks
    | rule wp_tail, rule carried | rule wp_yield_at, rule oks | rule wp_yield, rule oks | rule wp_yield, erule good_yields | erule (1) keepsD | rule wp_attempt, rule oks | erule st_ok | erule (1) step_less step_le
    | rule elementsI oks good_sub | erule le_less_trans | rule less_imp_le | erule not_eof, simp add: at_kind_def; fail
    | erule (1) not_eof_contextual | simp add: at_kind_def; fail
    | auto simp: at_kind_def; fail)+)

lemma simple_declarations_ok [oks]:
  "ok c q \<Longrightarrow> good c R rec \<Longrightarrow> remaining q < R \<Longrightarrow> steps c q (parse_constant rec q)"
  "ok c q \<Longrightarrow> good c R rec \<Longrightarrow> remaining q < R \<Longrightarrow> steps c q (parse_static rec q)"
  "ok c q \<Longrightarrow> good c R rec \<Longrightarrow> remaining q < R \<Longrightarrow> steps c q (parse_type_alias rec q)"
  "ok c q \<Longrightarrow> good c R rec \<Longrightarrow> remaining q < R \<Longrightarrow> steps c q (parse_drop rec q)"
  "ok c q \<Longrightarrow> good c R rec \<Longrightarrow> remaining q < R \<Longrightarrow> steps c q (parse_test rec q)"
  unfolding parse_constant_def parse_static_def parse_type_alias_def parse_drop_def parse_test_def
  by (rule steps_enter, assumption, (rule wp_bump2 wp_join walk wps ends | assumption | rule wp_call, rule oks good_sub | rule wp_return, rule oks
    | rule wp_tail, rule carried | rule wp_yield_at, rule oks | rule wp_yield, rule oks | rule wp_yield, erule good_yields | erule (1) keepsD | rule wp_attempt, rule oks | erule st_ok | erule (1) step_less step_le
    | rule elementsI oks good_sub | erule le_less_trans | rule less_imp_le | erule not_eof, simp add: at_kind_def; fail
    | erule (1) not_eof_contextual | simp add: at_kind_def; fail
    | auto simp: at_kind_def; fail)+)+

lemma parse_primitive_type_ok [oks]: "ok c q \<Longrightarrow> steps c q (parse_primitive_type q)"
  unfolding parse_primitive_type_def by (rule steps_enter, assumption, (rule wp_bump2 wp_join walk wps ends | assumption | rule wp_call, rule oks good_sub | rule wp_return, rule oks
    | rule wp_tail, rule carried | rule wp_yield_at, rule oks | rule wp_yield, rule oks | rule wp_yield, erule good_yields | erule (1) keepsD | rule wp_attempt, rule oks | erule st_ok | erule (1) step_less step_le
    | rule elementsI oks good_sub | erule le_less_trans | rule less_imp_le | erule not_eof, simp add: at_kind_def; fail
    | erule (1) not_eof_contextual | simp add: at_kind_def; fail
    | auto simp: at_kind_def; fail)+)

section \<open>Structures, enumerations and interfaces\<close>

lemma generic_requirements_ok [oks]: "ok c q \<Longrightarrow> good c R rec \<Longrightarrow> remaining q < R \<Longrightarrow> steps c q (generic_parameters_and_requirements rec q)"
  unfolding generic_parameters_and_requirements_def by (rule steps_enter, assumption, (rule wp_bump2 wp_join walk wps ends | assumption | rule wp_call, rule oks good_sub | rule wp_return, rule oks
    | rule wp_tail, rule carried | rule wp_yield_at, rule oks | rule wp_yield, rule oks | rule wp_yield, erule good_yields | erule (1) keepsD | rule wp_attempt, rule oks | erule st_ok | erule (1) step_less step_le
    | rule elementsI oks good_sub | erule le_less_trans | rule less_imp_le | erule not_eof, simp add: at_kind_def; fail
    | erule (1) not_eof_contextual | simp add: at_kind_def; fail
    | auto simp: at_kind_def; fail)+)

lemma members_ok [oks]:
  "ok c q \<Longrightarrow> good c R rec \<Longrightarrow> remaining q < R \<Longrightarrow> steps c q (struct_field rec q)"
  "ok c q \<Longrightarrow> good c R rec \<Longrightarrow> remaining q < R \<Longrightarrow> steps c q (enum_variant rec q)"
  unfolding struct_field_def enum_variant_def by (rule steps_enter, assumption, (rule wp_bump2 wp_join walk wps ends | assumption | rule wp_call, rule oks good_sub | rule wp_return, rule oks
    | rule wp_tail, rule carried | rule wp_yield_at, rule oks | rule wp_yield, rule oks | rule wp_yield, erule good_yields | erule (1) keepsD | rule wp_attempt, rule oks | erule st_ok | erule (1) step_less step_le
    | rule elementsI oks good_sub | erule le_less_trans | rule less_imp_le | erule not_eof, simp add: at_kind_def; fail
    | erule (1) not_eof_contextual | simp add: at_kind_def; fail
    | auto simp: at_kind_def; fail)+)+

lemma optional_members_ok [oks]: "ok c q \<Longrightarrow> elements c (remaining q) f \<Longrightarrow> steps c q (optional_members f q)"
  using braced_line_sequence_ok [of c q f ExpectedDeclarationMember False]
  by (auto simp: optional_members_def steps_def wp_def st_refl)

lemma parse_struct_ok [oks]: "ok c q \<Longrightarrow> good c R rec \<Longrightarrow> remaining q < R \<Longrightarrow> steps c q (parse_struct rec q)"
  unfolding parse_struct_def by (rule steps_enter, assumption, (rule wp_bump2 wp_join walk wps ends | assumption | rule wp_call, rule oks good_sub | rule wp_return, rule oks
    | rule wp_tail, rule carried | rule wp_yield_at, rule oks | rule wp_yield, rule oks | rule wp_yield, erule good_yields | erule (1) keepsD | rule wp_attempt, rule oks | erule st_ok | erule (1) step_less step_le
    | rule elementsI oks good_sub | erule le_less_trans | rule less_imp_le | erule not_eof, simp add: at_kind_def; fail
    | erule (1) not_eof_contextual | simp add: at_kind_def; fail
    | auto simp: at_kind_def; fail)+)

lemma parse_enum_ok [oks]: "ok c q \<Longrightarrow> good c R rec \<Longrightarrow> remaining q < R \<Longrightarrow> steps c q (parse_enum rec q)"
  unfolding parse_enum_def by (rule steps_enter, assumption, (rule wp_bump2 wp_join walk wps ends | assumption | rule wp_call, rule oks good_sub | rule wp_return, rule oks
    | rule wp_tail, rule carried | rule wp_yield_at, rule oks | rule wp_yield, rule oks | rule wp_yield, erule good_yields | erule (1) keepsD | rule wp_attempt, rule oks | erule st_ok | erule (1) step_less step_le
    | rule elementsI oks good_sub | erule le_less_trans | rule less_imp_le | erule not_eof, simp add: at_kind_def; fail
    | erule (1) not_eof_contextual | simp add: at_kind_def; fail
    | auto simp: at_kind_def; fail)+)

lemma bounds_loop_ok [oks]: "ok c q \<Longrightarrow> good c R rec \<Longrightarrow> remaining q < R \<Longrightarrow> steps c q (bounds_loop rec q)"
proof (induction "remaining q" arbitrary: q rule: less_induct)
  case less
  have again: "steps c q' (bounds_loop rec q')" if "st c True q [] 0 q'" for q'
    using that less.prems by (intro less.hyps) (auto simp: st_def)
  show ?case
    by (subst bounds_loop.simps, rule steps_enter [OF less.prems(1)], insert less.prems(2,3), (rule wp_call, rule again, assumption | (rule wp_bump2 wp_join walk wps ends | assumption | rule wp_call, rule oks good_sub | rule wp_return, rule oks
    | rule wp_tail, rule carried | rule wp_yield_at, rule oks | rule wp_yield, rule oks | rule wp_yield, erule good_yields | erule (1) keepsD | rule wp_attempt, rule oks | erule st_ok | erule (1) step_less step_le
    | rule elementsI oks good_sub | erule le_less_trans | rule less_imp_le | erule not_eof, simp add: at_kind_def; fail
    | erule (1) not_eof_contextual | simp add: at_kind_def; fail
    | auto simp: at_kind_def; fail))+)
qed

text \<open>The token after a bare \<open>pub\<close>.\<close>

lemma bare_visibility:
  assumes "st c b p ms d q" and "current_kind q = Keyword KwPub" and "par_split q = None"
    and "kind_at q (par_cursor q + 1) = k" and "k \<noteq> Punctuation PLeftParen" and "k \<noteq> EndOfFile"
    and "\<And>q'. st c b p ms d q' \<Longrightarrow> current_kind q' \<noteq> EndOfFile \<Longrightarrow> wp c Q (g q')"
  shows "wp c Q (Option.bind (optional_visibility q) g)"
proof (cases "start q")
  case None
  with start_ok [OF assms(1)] assms(2) show ?thesis
    by (simp add: optional_visibility_def parse_visibility_def at_kind_def wp_def)
next
  case (Some mq)
  then obtain m q1 where 1: "start q = Some (m, q1)" by (cases mq) auto
  with start_ok [OF assms(1)] have q1: "st c b p (m # ms) d q1" "same_place q q1" by (auto simp: wp_def)
  note same = same_place_simps [OF q1(2)]
  have "wp c Q (Option.bind (bump q1) (\<lambda>q. Option.bind (eat_punctuation PLeftParen q) (\<lambda>(scoped, q).
      Option.bind (if scoped then visibility_scope q else Some q) (\<lambda>q. Option.bind (complete_node m ''visibility'' q) g))))"
  proof (cases "bump q1")
    case None
    with wp_bump [OF q1(1), of "\<lambda>_. True" Some] assms(2) same show ?thesis by (simp add: wp_def)
  next
    case (Some q2)
    with whole_bump [OF st_ok [OF q1(1)]] assms(2) same have q2: "st c True q1 [] 0 q2" by (simp add: wp_def)
    have kind: "current_kind q2 = k"
      using Some assms(2-4) same by (auto simp: bump_def current_kind_def kind_at_def push_event_def Let_def split: if_splits)
    have "wp c Q (Option.bind (complete_node m ''visibility'' q2) g)"
      by (rule wp_complete [OF st_step [OF q2 q1(1)]], rule assms(7)) (use kind assms(6) in auto)
    with Some kind assms(5) show ?thesis by (simp add: eat_def at_kind_def)
  qed
  with 1 assms(2) show ?thesis
    by (simp add: optional_visibility_def parse_visibility_def at_kind_def bind_assoc case_prod_unfold)
qed

lemma associated_type_ok:
  assumes "ok c q" and "good c R rec" and "remaining q < R"
    and "current_kind q = Keyword KwPub" "par_split q = None" "kind_at q (par_cursor q + 1) = Keyword KwType"
  shows "steps c q (associated_type rec q)"
  unfolding associated_type_def
  apply (rule steps_enter [OF assms(1)], rule wp_bind_bind, rule wp_start, assumption, rule wp_bind_prod)
  apply (rule wp_bind_bind, rule bare_visibility [where k = "Keyword KwType"], assumption)
       apply (simp add: assms assms(6) [simplified] same_place_simps)
      apply (simp add: assms assms(6) [simplified] same_place_simps)
     apply (simp add: assms assms(6) [simplified] same_place_simps)
    apply simp
   apply simp
  apply (insert assms(2,3))
  apply (rule wp_bump2 wp_join walk wps ends | assumption | rule wp_call, rule oks good_sub | rule wp_return, rule oks
    | rule wp_tail, rule carried | rule wp_yield_at, rule oks | rule wp_yield, rule oks | rule wp_yield, erule good_yields | erule (1) keepsD | rule wp_attempt, rule oks | erule st_ok | erule (1) step_less step_le
    | rule elementsI oks good_sub | erule le_less_trans | rule less_imp_le | erule not_eof, simp add: at_kind_def; fail
    | erule (1) not_eof_contextual | simp add: at_kind_def; fail
    | auto simp: at_kind_def; fail)+
  done

lemma interface_method_ok [oks]: "ok c q \<Longrightarrow> good c R rec \<Longrightarrow> remaining q < R \<Longrightarrow> steps c q (interface_method rec a q)"
  unfolding interface_method_def by (rule steps_enter, assumption, (rule wp_bump2 wp_join walk wps ends | assumption | rule wp_call, rule oks good_sub | rule wp_return, rule oks
    | rule wp_tail, rule carried | rule wp_yield_at, rule oks | rule wp_yield, rule oks | rule wp_yield, erule good_yields | erule (1) keepsD | rule wp_attempt, rule oks | erule st_ok | erule (1) step_less step_le
    | rule elementsI oks good_sub | erule le_less_trans | rule less_imp_le | erule not_eof, simp add: at_kind_def; fail
    | erule (1) not_eof_contextual | simp add: at_kind_def; fail
    | auto simp: at_kind_def; fail)+)

lemma interface_member_ok [oks]:
  assumes "ok c q" and "good c R rec" and "remaining q < R"
  shows "steps c q (interface_member rec q)"
proof -
  note here = st_refl [OF assms(1)] and range = cursor_in_range [OF st_refl [OF assms(1)]]
  have split: "par_split q = None" if "kind_at q (par_cursor q) = Keyword KwPub"
    using ok_split(3) [OF assms(1)] that range by (cases "par_split q") (auto simp: kind_at_def)
  let ?Q = "st c False q [] 0"
  let ?member = "\<lambda>bare i stop default k.
    if k = Keyword KwType \<and> bare \<and> stop = i \<and> \<not> default then associated_type rec q
    else if k = Keyword KwMethod \<and> (bare \<or> default) then interface_method rec default q
    else error_token ExpectedDeclarationMember q"
  let ?rest = "\<lambda>bare i. Option.bind (scan_prefix q i DeferredAllowed) (\<lambda>stop.
      Option.bind (token_kind_at q (if contextual_at stop CtxDefault q then stop + 1 else stop))
        (?member bare i stop (contextual_at stop CtxDefault q)))"
  have rest: "wp c ?Q (?rest bare i)"
    if i: "i < length (source_tokens q)" and bare: "bare \<Longrightarrow> kind_at q (par_cursor q) = Keyword KwPub \<and> i = par_cursor q + 1"
    for i bare
  proof (rule wp_scan_prefix [OF here i])
    fix stop assume stop: "stop < length (source_tokens q)"
    have final: "wp c ?Q (?member bare i stop default k)" if "\<not> default \<Longrightarrow> k = kind_at q stop" for k default
      unfolding steps_def [symmetric] using that bare split
      by (auto simp: current_kind_at intro: associated_type_ok [OF assms] interface_method_ok [OF assms]
          error_token_steps [OF assms(1)])
    show "wp c ?Q (Option.bind (token_kind_at q (if contextual_at stop CtxDefault q then stop + 1 else stop))
        (?member bare i stop (contextual_at stop CtxDefault q)))"
      by (rule wp_token_kind_at [OF here])
        (use stop after_in_range [OF here stop] contextual_kind [of stop CtxDefault q] final in auto)
  qed
  have "wp c ?Q (interface_member rec q)"
    unfolding interface_member_def Let_def
  proof (rule wp_first_kind [OF here], cases "kind_at q (par_cursor q) = Keyword KwPub")
    case True
    have "wp c ?Q (Option.bind (token_kind_at q (par_cursor q + 1)) (\<lambda>k.
        Option.bind (skip_visibility q (par_cursor q)) (?rest (k \<noteq> Punctuation PLeftParen))))"
      by (rule wp_kind_after [OF here range], simp add: True, rule wp_skip_visibility [OF here range], simp add: True,
          rule rest) (simp_all add: True)
    with True show "wp c ?Q (Option.bind (if kind_at q (par_cursor q) = Keyword KwPub
        then map_option (\<lambda>k. k \<noteq> Punctuation PLeftParen) (token_kind_at q (par_cursor q + 1)) else Some False)
        (\<lambda>bare. Option.bind (if kind_at q (par_cursor q) = Keyword KwPub then skip_visibility q (par_cursor q)
          else Some (par_cursor q)) (?rest bare)))"
      by (simp add: map_conv_bind_option bind_assoc)
  next
    case False
    with rest [OF range, of False] show "wp c ?Q (Option.bind (if kind_at q (par_cursor q) = Keyword KwPub
        then map_option (\<lambda>k. k \<noteq> Punctuation PLeftParen) (token_kind_at q (par_cursor q + 1)) else Some False)
        (\<lambda>bare. Option.bind (if kind_at q (par_cursor q) = Keyword KwPub then skip_visibility q (par_cursor q)
          else Some (par_cursor q)) (?rest bare)))"
      by simp
  qed
  then show ?thesis by (simp add: steps_def)
qed

lemma parse_interface_ok [oks]: "ok c q \<Longrightarrow> good c R rec \<Longrightarrow> remaining q < R \<Longrightarrow> steps c q (parse_interface rec q)"
  unfolding parse_interface_def by (rule steps_enter, assumption, (rule wp_bump2 wp_join walk wps ends | assumption | rule wp_call, rule oks good_sub | rule wp_return, rule oks
    | rule wp_tail, rule carried | rule wp_yield_at, rule oks | rule wp_yield, rule oks | rule wp_yield, erule good_yields | erule (1) keepsD | rule wp_attempt, rule oks | erule st_ok | erule (1) step_less step_le
    | rule elementsI oks good_sub | erule le_less_trans | rule less_imp_le | erule not_eof, simp add: at_kind_def; fail
    | erule (1) not_eof_contextual | simp add: at_kind_def; fail
    | auto simp: at_kind_def; fail)+)

section \<open>Constructions\<close>

lemma literal_shape_ok [oks]: "ok c q \<Longrightarrow> steps c q (literal_shape q)"
  unfolding literal_shape_def
  apply (rule steps_enter, assumption, rule wp_bind_bind, rule wp_start, assumption, rule wp_bind_prod)
  apply (rule wp_bind_bind, rule wp_eat, assumption, simp)
  subgoal by (rule wp_bump2 wp_join walk wps ends | assumption | rule wp_call, rule oks good_sub | rule wp_return, rule oks
    | rule wp_tail, rule carried | rule wp_yield_at, rule oks | rule wp_yield, rule oks | rule wp_yield, erule good_yields | erule (1) keepsD | rule wp_attempt, rule oks | erule st_ok | erule (1) step_less step_le
    | rule elementsI oks good_sub | erule le_less_trans | rule less_imp_le | erule not_eof, simp add: at_kind_def; fail
    | erule (1) not_eof_contextual | simp add: at_kind_def; fail
    | auto simp: at_kind_def; fail)+
  apply (rule wp_bind_prod, rule wp_bind_bind, rule wp_bind_if_False, rule wp_bind_bind, rule wp_bind_if_kind)
  subgoal for m q'
    apply (rule wp_bind_bind, rule wp_nth, assumption, rule wp_bind_Some, rule wp_bind_if)
    subgoal by (rule wp_bind_bind, rule wp_bump2, assumption, assumption, (auto)[2], (rule wp_bump2 wp_join walk wps ends | assumption | rule wp_call, rule oks good_sub | rule wp_return, rule oks
    | rule wp_tail, rule carried | rule wp_yield_at, rule oks | rule wp_yield, rule oks | rule wp_yield, erule good_yields | erule (1) keepsD | rule wp_attempt, rule oks | erule st_ok | erule (1) step_less step_le
    | rule elementsI oks good_sub | erule le_less_trans | rule less_imp_le | erule not_eof, simp add: at_kind_def; fail
    | erule (1) not_eof_contextual | simp add: at_kind_def; fail
    | auto simp: at_kind_def; fail)+)
    subgoal by (rule wp_bump2 wp_join walk wps ends | assumption | rule wp_call, rule oks good_sub | rule wp_return, rule oks
    | rule wp_tail, rule carried | rule wp_yield_at, rule oks | rule wp_yield, rule oks | rule wp_yield, erule good_yields | erule (1) keepsD | rule wp_attempt, rule oks | erule st_ok | erule (1) step_less step_le
    | rule elementsI oks good_sub | erule le_less_trans | rule less_imp_le | erule not_eof, simp add: at_kind_def; fail
    | erule (1) not_eof_contextual | simp add: at_kind_def; fail
    | auto simp: at_kind_def; fail)+
    done
  subgoal by (rule wp_bump2 wp_join walk wps ends | assumption | rule wp_call, rule oks good_sub | rule wp_return, rule oks
    | rule wp_tail, rule carried | rule wp_yield_at, rule oks | rule wp_yield, rule oks | rule wp_yield, erule good_yields | erule (1) keepsD | rule wp_attempt, rule oks | erule st_ok | erule (1) step_less step_le
    | rule elementsI oks good_sub | erule le_less_trans | rule less_imp_le | erule not_eof, simp add: at_kind_def; fail
    | erule (1) not_eof_contextual | simp add: at_kind_def; fail
    | auto simp: at_kind_def; fail)+
  done

lemma construct_parts_ok [oks]:
  "ok c q \<Longrightarrow> good c R rec \<Longrightarrow> remaining q < R \<Longrightarrow> current_kind q \<noteq> EndOfFile \<Longrightarrow> steps c q (construction_function rec q)"
  "ok c q \<Longrightarrow> good c R rec \<Longrightarrow> remaining q < R \<Longrightarrow> current_kind q \<noteq> EndOfFile \<Longrightarrow> steps c q (literal_declaration rec q)"
  unfolding construction_function_def literal_declaration_def by (rule steps_enter, assumption, (rule wp_bump2 wp_join walk wps ends | assumption | rule wp_call, rule oks good_sub | rule wp_return, rule oks
    | rule wp_tail, rule carried | rule wp_yield_at, rule oks | rule wp_yield, rule oks | rule wp_yield, erule good_yields | erule (1) keepsD | rule wp_attempt, rule oks | erule st_ok | erule (1) step_less step_le
    | rule elementsI oks good_sub | erule le_less_trans | rule less_imp_le | erule not_eof, simp add: at_kind_def; fail
    | erule (1) not_eof_contextual | simp add: at_kind_def; fail
    | auto simp: at_kind_def; fail)+)+

lemma member_prefix_ok [oks]: "ok c q \<Longrightarrow> steps c q (member_prefix f g q)"
  unfolding member_prefix_def
  by (rule steps_enter, assumption, (rule cursor_in_range, assumption | (rule wp_bump2 wp_join walk wps ends | assumption | rule wp_call, rule oks good_sub | rule wp_return, rule oks
    | rule wp_tail, rule carried | rule wp_yield_at, rule oks | rule wp_yield, rule oks | rule wp_yield, erule good_yields | erule (1) keepsD | rule wp_attempt, rule oks | erule st_ok | erule (1) step_less step_le
    | rule elementsI oks good_sub | erule le_less_trans | rule less_imp_le | erule not_eof, simp add: at_kind_def; fail
    | erule (1) not_eof_contextual | simp add: at_kind_def; fail
    | auto simp: at_kind_def; fail))+)

lemma construct_member_ok [oks]: "ok c q \<Longrightarrow> good c R rec \<Longrightarrow> remaining q < R \<Longrightarrow> steps c q (construct_member rec q)"
  unfolding construct_member_def by (rule steps_enter, assumption, (rule wp_bump2 wp_join walk wps ends | assumption | rule wp_call, rule oks good_sub | rule wp_return, rule oks
    | rule wp_tail, rule carried | rule wp_yield_at, rule oks | rule wp_yield, rule oks | rule wp_yield, erule good_yields | erule (1) keepsD | rule wp_attempt, rule oks | erule st_ok | erule (1) step_less step_le
    | rule elementsI oks good_sub | erule le_less_trans | rule less_imp_le | erule not_eof, simp add: at_kind_def; fail
    | erule (1) not_eof_contextual | simp add: at_kind_def; fail
    | auto simp: at_kind_def; fail)+)

lemma parse_construct_ok [oks]: "ok c q \<Longrightarrow> good c R rec \<Longrightarrow> remaining q < R \<Longrightarrow> steps c q (parse_construct rec q)"
  unfolding parse_construct_def by (rule steps_enter, assumption, (rule wp_bump2 wp_join walk wps ends | assumption | rule wp_call, rule oks good_sub | rule wp_return, rule oks
    | rule wp_tail, rule carried | rule wp_yield_at, rule oks | rule wp_yield, rule oks | rule wp_yield, erule good_yields | erule (1) keepsD | rule wp_attempt, rule oks | erule st_ok | erule (1) step_less step_le
    | rule elementsI oks good_sub | erule le_less_trans | rule less_imp_le | erule not_eof, simp add: at_kind_def; fail
    | erule (1) not_eof_contextual | simp add: at_kind_def; fail
    | auto simp: at_kind_def; fail)+)

section \<open>Instances\<close>

lemma optional_provenance_requirements_ok [oks]: "ok c q \<Longrightarrow> good c R rec \<Longrightarrow> remaining q < R \<Longrightarrow> steps c q (optional_provenance_and_requirements rec q)"
  unfolding optional_provenance_and_requirements_def by (rule steps_enter, assumption, (rule wp_bump2 wp_join walk wps ends | assumption | rule wp_call, rule oks good_sub | rule wp_return, rule oks
    | rule wp_tail, rule carried | rule wp_yield_at, rule oks | rule wp_yield, rule oks | rule wp_yield, erule good_yields | erule (1) keepsD | rule wp_attempt, rule oks | erule st_ok | erule (1) step_less step_le
    | rule elementsI oks good_sub | erule le_less_trans | rule less_imp_le | erule not_eof, simp add: at_kind_def; fail
    | erule (1) not_eof_contextual | simp add: at_kind_def; fail
    | auto simp: at_kind_def; fail)+)

lemma contextual_moved:
  "st c b p ms d q' \<Longrightarrow> \<forall>s. at_contextual s q' = at_contextual s q \<Longrightarrow> at_contextual t q \<Longrightarrow> current_kind q' \<noteq> EndOfFile"
  by (rule not_eof_contextual) auto

lemma coercion_ok [oks]: "ok c q \<Longrightarrow> good c R rec \<Longrightarrow> remaining q < R \<Longrightarrow> steps c q (coercion rec q)"
  unfolding coercion_def
  by (rule steps_enter, assumption, (erule (2) contextual_moved | (rule wp_bump2 wp_join walk wps ends | assumption | rule wp_call, rule oks good_sub | rule wp_return, rule oks
    | rule wp_tail, rule carried | rule wp_yield_at, rule oks | rule wp_yield, rule oks | rule wp_yield, erule good_yields | erule (1) keepsD | rule wp_attempt, rule oks | erule st_ok | erule (1) step_less step_le
    | rule elementsI oks good_sub | erule le_less_trans | rule less_imp_le | erule not_eof, simp add: at_kind_def; fail
    | erule (1) not_eof_contextual | simp add: at_kind_def; fail
    | auto simp: at_kind_def; fail))+)

lemma operator_parts_ok [oks]:
  "ok c q \<Longrightarrow> good c R rec \<Longrightarrow> remaining q < R \<Longrightarrow> steps c q (comparison_operator rec q)"
  "ok c q \<Longrightarrow> good c R rec \<Longrightarrow> remaining q < R \<Longrightarrow> steps c q (index_operator rec q)"
  "ok c q \<Longrightarrow> good c R rec \<Longrightarrow> remaining q < R \<Longrightarrow> steps c q (expansion_operator rec q)"
  unfolding comparison_operator_def index_operator_def expansion_operator_def
  by (rule steps_enter, assumption, (rule wp_bump2 wp_join walk wps ends | assumption | rule wp_call, rule oks good_sub | rule wp_return, rule oks
    | rule wp_tail, rule carried | rule wp_yield_at, rule oks | rule wp_yield, rule oks | rule wp_yield, erule good_yields | erule (1) keepsD | rule wp_attempt, rule oks | erule st_ok | erule (1) step_less step_le
    | rule elementsI oks good_sub | erule le_less_trans | rule less_imp_le | erule not_eof, simp add: at_kind_def; fail
    | erule (1) not_eof_contextual | simp add: at_kind_def; fail
    | auto simp: at_kind_def; fail)+)+

lemma wp_pair_result:
  "steps c q r \<Longrightarrow> st c b p [] 0 q \<Longrightarrow> wp c (\<lambda>(v, q'). st c False p [] 0 q') (Option.bind (map_option (Pair v) r) Some)"
  by (rule wp_bind_map, rule wp_call) (auto intro: wp_done_with)

lemma borrowed_operator_ok [oks]: "ok c q \<Longrightarrow> good c R rec \<Longrightarrow> remaining q < R \<Longrightarrow> returns c q (borrowed_operator rec q)"
  unfolding borrowed_operator_def
  by (rule returns_enter, assumption, (rule wp_bump2 wp_join walk wps ends | assumption | rule wp_call, rule oks good_sub | rule wp_return, rule oks
    | rule wp_tail, rule carried | rule wp_yield_at, rule oks | rule wp_yield, rule oks | rule wp_yield, erule good_yields | erule (1) keepsD | rule wp_attempt, rule oks | erule st_ok | erule (1) step_less step_le
    | rule elementsI oks good_sub | erule le_less_trans | rule less_imp_le | erule not_eof, simp add: at_kind_def; fail
    | erule (1) not_eof_contextual | simp add: at_kind_def; fail
    | auto simp: at_kind_def; fail)+)

lemma parse_operator_ok [oks]: "ok c q \<Longrightarrow> good c R rec \<Longrightarrow> remaining q < R \<Longrightarrow> current_kind q \<noteq> EndOfFile \<Longrightarrow> returns c q (parse_operator rec q)"
  unfolding parse_operator_def
  by (rule returns_enter, assumption, (rule wp_bump2 wp_join walk wps ends | assumption | rule wp_call, rule oks good_sub | rule wp_return, rule oks
    | rule wp_tail, rule carried | rule wp_yield_at, rule oks | rule wp_yield, rule oks | rule wp_yield, erule good_yields | erule (1) keepsD | rule wp_attempt, rule oks | erule st_ok | erule (1) step_less step_le
    | rule elementsI oks good_sub | erule le_less_trans | rule less_imp_le | erule not_eof, simp add: at_kind_def; fail
    | erule (1) not_eof_contextual | simp add: at_kind_def; fail
    | auto simp: at_kind_def; fail)+)

lemma instance_member_body_ok [oks]: "ok c q \<Longrightarrow> good c R rec \<Longrightarrow> remaining q < R \<Longrightarrow> returns c q (instance_member_body rec q)"
  unfolding instance_member_body_def
  by (rule returns_enter, assumption, (rule wp_bump2 wp_join walk wps ends | assumption | rule wp_call, rule oks good_sub | rule wp_return, rule oks
    | rule wp_tail, rule carried | rule wp_yield_at, rule oks | rule wp_yield, rule oks | rule wp_yield, erule good_yields | erule (1) keepsD | rule wp_attempt, rule oks | erule st_ok | erule (1) step_less step_le
    | rule elementsI oks good_sub | erule le_less_trans | rule less_imp_le | erule not_eof, simp add: at_kind_def; fail
    | erule (1) not_eof_contextual | simp add: at_kind_def; fail
    | auto simp: at_kind_def; fail)+)

lemma instance_member_ok [oks]: "ok c q \<Longrightarrow> good c R rec \<Longrightarrow> remaining q < R \<Longrightarrow> steps c q (instance_member rec q)"
  unfolding instance_member_def by (rule steps_enter, assumption, (rule wp_bump2 wp_join walk wps ends | assumption | rule wp_call, rule oks good_sub | rule wp_return, rule oks
    | rule wp_tail, rule carried | rule wp_yield_at, rule oks | rule wp_yield, rule oks | rule wp_yield, erule good_yields | erule (1) keepsD | rule wp_attempt, rule oks | erule st_ok | erule (1) step_less step_le
    | rule elementsI oks good_sub | erule le_less_trans | rule less_imp_le | erule not_eof, simp add: at_kind_def; fail
    | erule (1) not_eof_contextual | simp add: at_kind_def; fail
    | auto simp: at_kind_def; fail)+)

lemma parse_instance_ok [oks]: "ok c q \<Longrightarrow> good c R rec \<Longrightarrow> remaining q < R \<Longrightarrow> steps c q (parse_instance rec q)"
  unfolding parse_instance_def by (rule steps_enter, assumption, (rule wp_bump2 wp_join walk wps ends | assumption | rule wp_call, rule oks good_sub | rule wp_return, rule oks
    | rule wp_tail, rule carried | rule wp_yield_at, rule oks | rule wp_yield, rule oks | rule wp_yield, erule good_yields | erule (1) keepsD | rule wp_attempt, rule oks | erule st_ok | erule (1) step_less step_le
    | rule elementsI oks good_sub | erule le_less_trans | rule less_imp_le | erule not_eof, simp add: at_kind_def; fail
    | erule (1) not_eof_contextual | simp add: at_kind_def; fail
    | auto simp: at_kind_def; fail)+)

section \<open>Items\<close>

lemma parse_targetable_ok [oks]: "ok c q \<Longrightarrow> good c R rec \<Longrightarrow> remaining q < R \<Longrightarrow> steps c q (parse_targetable rec k q)"
  unfolding parse_targetable_def by (cases k) (simp_all add: oks)

lemma targetable_item_ok [oks]: "ok c q \<Longrightarrow> good c R rec \<Longrightarrow> remaining q < R \<Longrightarrow> steps c q (parse_targetable_item rec q)"
  unfolding parse_targetable_item_def
  by (rule steps_enter, assumption, (rule wp_bind_option | (rule wp_bump2 wp_join walk wps ends | assumption | rule wp_call, rule oks good_sub | rule wp_return, rule oks
    | rule wp_tail, rule carried | rule wp_yield_at, rule oks | rule wp_yield, rule oks | rule wp_yield, erule good_yields | erule (1) keepsD | rule wp_attempt, rule oks | erule st_ok | erule (1) step_less step_le
    | rule elementsI oks good_sub | erule le_less_trans | rule less_imp_le | erule not_eof, simp add: at_kind_def; fail
    | erule (1) not_eof_contextual | simp add: at_kind_def; fail
    | auto simp: at_kind_def; fail))+)

lemma parse_declaration_ok [oks]:
  assumes "ok c q" and "good c R rec" and "remaining q < R"
  shows "steps c q (parse_declaration rec q)"
  unfolding parse_declaration_def
proof (rule steps_enter [OF assms(1)], rule wp_bind_bind, rule wp_declaration_kind, assumption)
  have step: "wp c (st c False q [] 0) (Option.bind r Some)" if "steps c q r" for r
    using that by (simp add: steps_def)
  show "wp c (st c False q [] 0) (Option.bind (case Some k of None \<Rightarrow> error_token ExpectedItem q
      | Some ConstructDeclaration \<Rightarrow> parse_construct rec q | Some InstanceDeclaration \<Rightarrow> parse_instance rec q
      | Some DropDeclaration \<Rightarrow> parse_drop rec q | Some TestDeclaration \<Rightarrow> parse_test rec q
      | Some k \<Rightarrow> parse_targetable rec k q) Some)" for k
    by (rule step, cases k) (use assms in \<open>simp_all add: oks\<close>)
  show "wp c (st c False q [] 0) (Option.bind (case None of None \<Rightarrow> error_token ExpectedItem q
      | Some ConstructDeclaration \<Rightarrow> parse_construct rec q | Some InstanceDeclaration \<Rightarrow> parse_instance rec q
      | Some DropDeclaration \<Rightarrow> parse_drop rec q | Some TestDeclaration \<Rightarrow> parse_test rec q
      | Some k \<Rightarrow> parse_targetable rec k q) Some)"
    by (rule step) (use assms in \<open>simp add: oks\<close>)
qed

lemma target_directive_ok [oks]: "ok c q \<Longrightarrow> current_kind q \<noteq> EndOfFile \<Longrightarrow> steps c q (target_directive q)"
  unfolding target_directive_def
  by (rule steps_enter, assumption, (rule wp_join_both, assumption | (rule wp_bump2 wp_join walk wps ends | assumption | rule wp_call, rule oks good_sub | rule wp_return, rule oks
    | rule wp_tail, rule carried | rule wp_yield_at, rule oks | rule wp_yield, rule oks | rule wp_yield, erule good_yields | erule (1) keepsD | rule wp_attempt, rule oks | erule st_ok | erule (1) step_less step_le
    | rule elementsI oks good_sub | erule le_less_trans | rule less_imp_le | erule not_eof, simp add: at_kind_def; fail
    | erule (1) not_eof_contextual | simp add: at_kind_def; fail
    | auto simp: at_kind_def; fail))+)

lemma parse_item_ok [oks]: "ok c q \<Longrightarrow> good c R rec \<Longrightarrow> remaining q < R \<Longrightarrow> steps c q (parse_item rec q)"
  unfolding parse_item_def by (rule steps_enter, assumption, (rule wp_bump2 wp_join walk wps ends | assumption | rule wp_call, rule oks good_sub | rule wp_return, rule oks
    | rule wp_tail, rule carried | rule wp_yield_at, rule oks | rule wp_yield, rule oks | rule wp_yield, erule good_yields | erule (1) keepsD | rule wp_attempt, rule oks | erule st_ok | erule (1) step_less step_le
    | rule elementsI oks good_sub | erule le_less_trans | rule less_imp_le | erule not_eof, simp add: at_kind_def; fail
    | erule (1) not_eof_contextual | simp add: at_kind_def; fail
    | auto simp: at_kind_def; fail)+)

end
