(* ===== verification/Root_Steps.thy ===== *)
theory Root_Steps
  imports Declaration_Steps
begin

text \<open>
  The contracts of the productions of \<open>Parser_Root\<close>, and the recursion of the grammar: with more fuel than there is
  to read, every recursive production keeps its contract.
\<close>

section \<open>Package directives\<close>

lemma wp_directive_name [wps]:
  assumes "st c b p ms d q" and "\<And>v. (v \<Longrightarrow> current_kind q \<noteq> EndOfFile) \<Longrightarrow> wp c Q (g v)"
  shows "wp c Q (Option.bind (is_package_directive_name q) g)"
  unfolding is_package_directive_name_def
proof (rule wp_bind_if)
  assume "at_kind Identifier q \<or> at_keyword KwTest q"
  then have *: "current_kind q \<noteq> EndOfFile" "current_kind q \<noteq> Punctuation PGreater" by (auto simp: at_kind_def)
  show "wp c Q (Option.bind (map_option (\<lambda>text. package_directive_from_spelling text \<noteq> None) (current_text q)) g)"
    by (rule wp_bind_map, rule wp_current_text [OF assms(1) *(2)], rule assms(2)) (rule *(1))
qed (use assms(2) in simp)

lemma directive_field_ok [oks]: "ok c q \<Longrightarrow> good c R rec \<Longrightarrow> remaining q < R \<Longrightarrow> steps c q (directive_field rec q)"
  unfolding directive_field_def by (rule steps_enter, assumption, (rule wp_bump2 wp_join walk wps ends | assumption | rule wp_call, rule oks good_sub | rule wp_return, rule oks
    | rule wp_tail, rule carried | rule wp_yield_at, rule oks | rule wp_yield, rule oks | rule wp_yield, erule good_yields | erule (1) keepsD | rule wp_attempt, rule oks | erule st_ok | erule (1) step_less step_le
    | rule elementsI oks good_sub | erule le_less_trans | rule less_imp_le | erule not_eof, simp add: at_kind_def; fail
    | erule (1) not_eof_contextual | simp add: at_kind_def; fail
    | auto simp: at_kind_def; fail)+)

lemma directive_record_ok [oks]: "ok c q \<Longrightarrow> good c R rec \<Longrightarrow> remaining q \<le> R \<Longrightarrow> current_kind q \<noteq> EndOfFile \<Longrightarrow> steps c q (directive_record rec q)"
  unfolding directive_record_def by (rule steps_enter, assumption, (rule wp_bump2 wp_join walk wps ends | assumption | rule wp_call, rule oks good_sub | rule wp_return, rule oks
    | rule wp_tail, rule carried | rule wp_yield_at, rule oks | rule wp_yield, rule oks | rule wp_yield, erule good_yields | erule (1) keepsD | rule wp_attempt, rule oks | erule st_ok | erule (1) step_less step_le
    | rule elementsI oks good_sub | erule le_less_trans | rule less_imp_le | erule not_eof, simp add: at_kind_def; fail
    | erule (1) not_eof_contextual | simp add: at_kind_def; fail
    | auto simp: at_kind_def; fail)+)

lemma directive_value_ok [oks]: "ok c q \<Longrightarrow> good c R rec \<Longrightarrow> remaining q \<le> R \<Longrightarrow> yields c q (directive_value rec q)"
  unfolding directive_value_def
  by (rule yields_enter, assumption, (rule wp_join_both, assumption | (rule wp_bump2 wp_join walk wps ends | assumption | rule wp_call, rule oks good_sub | rule wp_return, rule oks
    | rule wp_tail, rule carried | rule wp_yield_at, rule oks | rule wp_yield, rule oks | rule wp_yield, erule good_yields | erule (1) keepsD | rule wp_attempt, rule oks | erule st_ok | erule (1) step_less step_le
    | rule elementsI oks good_sub | erule le_less_trans | rule less_imp_le | erule not_eof, simp add: at_kind_def; fail
    | erule (1) not_eof_contextual | simp add: at_kind_def; fail
    | auto simp: at_kind_def; fail))+)

lemma package_directive_ok [oks]: "ok c q \<Longrightarrow> good c R rec \<Longrightarrow> remaining q < R \<Longrightarrow> current_kind q \<noteq> EndOfFile \<Longrightarrow> steps c q (package_directive rec q)"
  unfolding package_directive_def
  by (rule steps_enter, assumption, (rule wp_join_both, assumption | (rule wp_bump2 wp_join walk wps ends | assumption | rule wp_call, rule oks good_sub | rule wp_return, rule oks
    | rule wp_tail, rule carried | rule wp_yield_at, rule oks | rule wp_yield, rule oks | rule wp_yield, erule good_yields | erule (1) keepsD | rule wp_attempt, rule oks | erule st_ok | erule (1) step_less step_le
    | rule elementsI oks good_sub | erule le_less_trans | rule less_imp_le | erule not_eof, simp add: at_kind_def; fail
    | erule (1) not_eof_contextual | simp add: at_kind_def; fail
    | auto simp: at_kind_def; fail))+)

section \<open>Dependencies\<close>

lemma source_prefix_loop_ok [oks]: "ok c q \<Longrightarrow> steps c q (source_prefix_loop q)"
proof (induction "remaining q" arbitrary: q rule: less_induct)
  case less
  have again: "steps c q' (source_prefix_loop q')" if "st c True q [] 0 q'" for q'
    using that less.prems by (intro less.hyps) (auto simp: st_def)
  show ?case
    by (subst source_prefix_loop.simps, rule steps_enter [OF less.prems(1)], (rule wp_call, rule again, assumption | (rule wp_bump2 wp_join walk wps ends | assumption | rule wp_call, rule oks good_sub | rule wp_return, rule oks
    | rule wp_tail, rule carried | rule wp_yield_at, rule oks | rule wp_yield, rule oks | rule wp_yield, erule good_yields | erule (1) keepsD | rule wp_attempt, rule oks | erule st_ok | erule (1) step_less step_le
    | rule elementsI oks good_sub | erule le_less_trans | rule less_imp_le | erule not_eof, simp add: at_kind_def; fail
    | erule (1) not_eof_contextual | simp add: at_kind_def; fail
    | auto simp: at_kind_def; fail))+)
qed

lemma source_visibility_ok [oks]: "ok c q \<Longrightarrow> steps c q (source_visibility q)"
  unfolding source_visibility_def by (rule steps_enter, assumption, (rule wp_bump2 wp_join walk wps ends | assumption | rule wp_call, rule oks good_sub | rule wp_return, rule oks
    | rule wp_tail, rule carried | rule wp_yield_at, rule oks | rule wp_yield, rule oks | rule wp_yield, erule good_yields | erule (1) keepsD | rule wp_attempt, rule oks | erule st_ok | erule (1) step_less step_le
    | rule elementsI oks good_sub | erule le_less_trans | rule less_imp_le | erule not_eof, simp add: at_kind_def; fail
    | erule (1) not_eof_contextual | simp add: at_kind_def; fail
    | auto simp: at_kind_def; fail)+)

lemma wp_at_use_start [wps]:
  assumes "st c b p ms d q" and "\<And>v. (v \<Longrightarrow> current_kind q \<noteq> EndOfFile) \<Longrightarrow> wp c Q (g v)"
  shows "wp c Q (Option.bind (at_use_start q) g)"
proof -
  note range = cursor_in_range [OF assms(1)]
  have eof: "kind_at q (par_cursor q) = EndOfFile" if "current_kind q = EndOfFile"
    using that ok_split(2) [OF st_ok [OF assms(1)]] by (cases "par_split q") (auto simp: current_kind_def)
  show ?thesis
    unfolding at_use_start_def
    apply (rule wp_bind_bind, rule wp_first_kind [OF assms(1)], rule wp_bind_bind, rule wp_bind_if)
    subgoal
      apply (rule wp_skip_visibility [OF assms(1) range], simp)
      apply (rule wp_bind_bind, rule wp_token_kind_at [OF assms(1)], assumption, rule wp_bind_Some, rule assms(2))
      using eof by auto
    subgoal
      apply (rule wp_bind_Some)
      apply (rule wp_bind_bind, rule wp_token_kind_at [OF assms(1) range], rule wp_bind_Some, rule assms(2))
      using eof by auto
    done
qed

lemma use_declaration_ok [oks]: "ok c q \<Longrightarrow> steps c q (use_declaration q)"
  unfolding use_declaration_def by (rule steps_enter, assumption, (rule wp_bump2 wp_join walk wps ends | assumption | rule wp_call, rule oks good_sub | rule wp_return, rule oks
    | rule wp_tail, rule carried | rule wp_yield_at, rule oks | rule wp_yield, rule oks | rule wp_yield, erule good_yields | erule (1) keepsD | rule wp_attempt, rule oks | erule st_ok | erule (1) step_less step_le
    | rule elementsI oks good_sub | erule le_less_trans | rule less_imp_le | erule not_eof, simp add: at_kind_def; fail
    | erule (1) not_eof_contextual | simp add: at_kind_def; fail
    | auto simp: at_kind_def; fail)+)

lemma wp_at_dependency [wps]:
  assumes "st c b p ms d q" and "\<And>v. (v \<Longrightarrow> current_kind q \<noteq> EndOfFile) \<Longrightarrow> wp c Q (g v)"
  shows "wp c Q (Option.bind (at_dependency_start q) g)"
  unfolding at_dependency_start_def
  by (rule wp_bind_if_kind, rule wp_bind_Some, rule assms(2), simp, rule wp_at_use_start [OF assms(1)], rule assms(2))

lemma dependency_declaration_ok [oks]: "ok c q \<Longrightarrow> steps c q (dependency_declaration q)"
  unfolding dependency_declaration_def by (rule steps_enter, assumption, (rule wp_bump2 wp_join walk wps ends | assumption | rule wp_call, rule oks good_sub | rule wp_return, rule oks
    | rule wp_tail, rule carried | rule wp_yield_at, rule oks | rule wp_yield, rule oks | rule wp_yield, erule good_yields | erule (1) keepsD | rule wp_attempt, rule oks | erule st_ok | erule (1) step_less step_le
    | rule elementsI oks good_sub | erule le_less_trans | rule less_imp_le | erule not_eof, simp add: at_kind_def; fail
    | erule (1) not_eof_contextual | simp add: at_kind_def; fail
    | auto simp: at_kind_def; fail)+)

section \<open>Source files\<close>

lemma wp_bind_unit: "wp c Q r \<Longrightarrow> wp c Q (Option.bind r Some)"
  by simp

text \<open>After a line end the file is at its end, or a token was read.\<close>

lemma wp_line_end_again:
  assumes "st c False q [] 0 q'" and "\<And>q''. st c True q [] 0 q'' \<Longrightarrow> steps c q'' (again q'')"
    and "current_kind q' = EndOfFile \<Longrightarrow> steps c q' (again q')"
  shows "wp c (st c False q [] 0) (Option.bind (require_line_end q') again)"
proof (cases "current_kind q' = EndOfFile")
  case True
  with assms(3) have "wp c (st c False q' [] 0) (again q')" by (simp add: steps_def)
  then have "wp c (st c False q [] 0) (again q')" by (rule wp_mono) (rule st_step [OF _ assms(1)])
  with True show ?thesis by (simp add: require_line_end_def at_kind_def)
next
  case False
  show ?thesis
  proof (rule wp_bind [OF require_line_end_ok [OF st_ok [OF assms(1)]]])
    fix q'' assume "st c (current_kind q' \<noteq> EndOfFile) q' [] 0 q''"
    with False have q'': "st c True q [] 0 q''" by (simp add: st_step_True [OF _ assms(1)])
    from assms(2) [OF this] show "wp c (st c False q [] 0) (again q'')"
      unfolding steps_def by (rule wp_mono) (rule st_step [OF _ st_weaken [OF q'']])
  qed
qed

lemma directive_start_kind: "at_package_directive_start q \<Longrightarrow> current_kind q \<noteq> EndOfFile"
  by (auto simp: at_package_directive_start_def at_kind_def)

lemma directive_loop_ok [oks]: "ok c q \<Longrightarrow> good c R rec \<Longrightarrow> remaining q < R \<Longrightarrow> steps c q (directive_loop rec q)"
proof (induction "remaining q" arbitrary: q rule: less_induct)
  case less
  have again: "steps c q' (directive_loop rec q')" if "st c True q [] 0 q'" for q'
    using that less.prems by (intro less.hyps) (auto simp: st_def)
  have stop: "steps c q' (directive_loop rec q')" if "ok c q'" "current_kind q' = EndOfFile" for q'
    using that directive_start_kind by (subst directive_loop.simps) (auto simp: steps_def wp_def st_refl)
  show ?case
    by (subst directive_loop.simps, rule steps_enter [OF less.prems(1)], rule wp_bind_if, rule wp_bind_bind, rule wp_call,
        rule package_directive_ok [OF less.prems], erule directive_start_kind, assumption, rule wp_bind_unit,
        rule wp_line_end_again, assumption, erule again, rule stop, erule st_ok, assumption, rule wp_bind_Some, erule wp_done)
qed

lemma dependency_loop_ok [oks]: "ok c q \<Longrightarrow> steps c q (dependency_loop q)"
proof (induction "remaining q" arbitrary: q rule: less_induct)
  case less
  have again: "steps c q' (dependency_loop q')" if "st c True q [] 0 q'" for q'
    using that less.prems by (intro less.hyps) (auto simp: st_def)
  have stop: "steps c q' (dependency_loop q')" if "ok c q'" "current_kind q' = EndOfFile" for q'
    by (subst dependency_loop.simps, rule steps_enter [OF that(1)], rule wp_bind_bind, rule wp_at_dependency, assumption,
        rule wp_bind_if, use that(2) in simp, rule wp_bind_Some, erule wp_done)
  show ?case
    by (subst dependency_loop.simps, rule steps_enter [OF less.prems], rule wp_bind_bind, rule wp_at_dependency, assumption,
        rule wp_bind_if, rule wp_bind_bind, rule wp_call, rule dependency_declaration_ok [OF less.prems], assumption,
        rule wp_bind_unit, rule wp_line_end_again, assumption, erule again, rule stop, erule st_ok, assumption,
        rule wp_bind_Some, erule wp_done)
qed

lemma top_level_item_ok [oks]: "ok c q \<Longrightarrow> good c R rec \<Longrightarrow> remaining q < R \<Longrightarrow> steps c q (top_level_item rec q)"
  unfolding top_level_item_def by (rule steps_enter, assumption, (rule wp_bump2 wp_join walk wps ends | assumption | rule wp_call, rule oks good_sub | rule wp_return, rule oks
    | rule wp_tail, rule carried | rule wp_yield_at, rule oks | rule wp_yield, rule oks | rule wp_yield, erule good_yields | erule (1) keepsD | rule wp_attempt, rule oks | erule st_ok | erule (1) step_less step_le
    | rule elementsI oks good_sub | erule le_less_trans | rule less_imp_le | erule not_eof, simp add: at_kind_def; fail
    | erule (1) not_eof_contextual | simp add: at_kind_def; fail
    | auto simp: at_kind_def; fail)+)

lemma item_loop_ok:
  "ok c q \<Longrightarrow> good c R rec \<Longrightarrow> remaining q < R \<Longrightarrow> wp c (\<lambda>q'. st c False q [] 0 q' \<and> current_kind q' = EndOfFile) (item_loop rec q)"
proof (induction "remaining q" arbitrary: q rule: less_induct)
  case less
  let ?Q = "\<lambda>q'. st c False q [] 0 q' \<and> current_kind q' = EndOfFile"
  show ?case
  proof (cases "current_kind q = EndOfFile")
    case True
    with less.prems(1) show ?thesis by (subst item_loop.simps) (simp add: at_kind_def wp_def st_refl)
  next
    case False
    have "wp c ?Q (Option.bind (top_level_item rec q) (\<lambda>q. Option.bind (require_line_end q) (item_loop rec)))"
    proof (rule wp_bind [OF top_level_item_ok [OF less.prems, unfolded steps_def]])
      fix q1 assume q1: "st c False q [] 0 q1"
      show "wp c ?Q (Option.bind (require_line_end q1) (item_loop rec))"
      proof (cases "current_kind q1 = EndOfFile")
        case True
        with q1 show ?thesis
          by (simp add: require_line_end_def at_kind_def, subst item_loop.simps) (simp add: at_kind_def wp_def)
      next
        case False
        show ?thesis
        proof (rule wp_bind [OF require_line_end_ok [OF st_ok [OF q1]]])
          fix q2 assume "st c (current_kind q1 \<noteq> EndOfFile) q1 [] 0 q2"
          with False have q2: "st c True q [] 0 q2" by (simp add: st_step_True [OF _ q1])
          have "wp c (\<lambda>q'. st c False q2 [] 0 q' \<and> current_kind q' = EndOfFile) (item_loop rec q2)"
            using less.prems q2 by (intro less.hyps) (auto simp: st_def)
          then show "wp c ?Q (item_loop rec q2)" by (rule wp_mono) (auto intro: st_step [OF _ st_weaken [OF q2]])
        qed
      qed
    qed
    with False show ?thesis by (subst item_loop.simps) (simp add: at_kind_def)
  qed
qed

lemma wp_item_loop:
  assumes "good c R rec" and "st c b p ms d q" and "remaining q < R"
    and "\<And>q'. st c b p ms d q' \<Longrightarrow> current_kind q' = EndOfFile \<Longrightarrow> wp c Q (g q')"
  shows "wp c Q (Option.bind (item_loop rec q) g)"
  by (rule wp_bind [OF item_loop_ok [OF st_ok [OF assms(2)] assms(1,3)]]) (use assms(4) st_step [OF _ assms(2)] in blast)

section \<open>The recursion of the grammar\<close>

lemma production_step_ok:
  assumes "ok c q" and "good c R rec" and "remaining q \<le> R" and "enters nt q"
  shows "yields c q (production_step rec nt q)"
  using assms by (cases nt) (auto simp: production_step_def intro: oks)

lemma grammar_good: "good c n (grammar n)"
proof (induction n)
  case (Suc n)
  show ?case
    unfolding good_def grammar.simps by (intro allI impI production_step_ok [OF _ Suc]) auto
qed (simp add: good_def)

section \<open>Whole files\<close>

lemma parser_new_ok:
  assumes "tokens_ok src toks" and "c \<Longrightarrow> \<forall>t \<in> set toks. token_kind t \<noteq> Punctuation PShiftRight"
  shows "ok c (parser_new src toks)"
proof -
  from assms(1) have "0 < length toks" by (auto simp: tokens_ok_def)
  with assms show ?thesis by (simp add: ok_def parser_new_def read_tokens_def)
qed

text \<open>\<open>file_events src toks E\<close>: the events of a source file are one node, over all tokens of the file.\<close>

definition file_events :: "utf8_text \<Rightarrow> token list \<Rightarrow> event list \<Rightarrow> bool" where
  "file_events src toks E \<longleftrightarrow>
     (\<exists>offset B. E = StartEvent ''source_file'' offset None # B @ [FinishEvent] \<and> forest offset B (length src))
     \<and> covers toks 0 (leaves E) (length toks)"

lemma source_file_end:
  assumes "tokens_ok src toks" and "st c b (parser_new src toks) [0] 0 q" and "current_kind q = EndOfFile"
  shows "\<exists>q'. Option.bind (bump q) (complete_node 0 ''source_file'') = Some q' \<and> file_events src toks (par_events q')
    \<and> par_split q' = None"
proof -
  let ?i = "par_cursor q" and ?p = "parser_new src toks"
  from assms(2) have q: "ok c q" "source_tokens q = toks" "extends [] (pos ?p) [0] (par_events q) (pos q)"
    by (simp_all add: st_def parser_new_def)
  from q ok_split(2) [OF q(1)] assms(3) have none: "par_split q = None" by (cases "par_split q") auto
  from q have range: "?i < length toks" by (simp add: ok_def)
  with assms(3) none q(2) have kind: "token_kind (toks ! ?i) = EndOfFile" by (simp add: current_kind_def kind_at_def)
  with tokens_ok_eof [OF assms(1) range] have i: "?i + 1 = length toks" using range by simp
  from assms(1) obtain e where e: "toks ! ?i = e" "token_range e = \<lparr>range_start = length src, range_end = length src\<rparr>"
    using i by (auto simp: tokens_ok_def)
  with none range q(2) have pos: "pos q = length src" by (simp add: pos_def current_span_def)
  let ?t = "whole toks ?i"
  have bump: "bump q = Some (push_event (TokenEvent ?t) q)"
    using none range q(2) kind by (simp add: bump_def Let_def whole_def push_event_def)
  let ?E = "par_events q @ [TokenEvent ?t]"
  have "extends [] (pos ?p) [0] ?E (length src)"
    by (rule extends_token [where b = "pos q"]) (use q(3) pos e in \<open>simp_all add: whole_def\<close>)
  then obtain k offset B where E: "?E = StartEvent k offset None # B" "forest offset B (length src)"
    by (auto elim!: extends_openE extends_nilE)
  let ?q = "push_event FinishEvent (push_event (TokenEvent ?t) q\<lparr>par_events := ?E[0 := StartEvent ''source_file'' offset None]\<rparr>)"
  have "complete_node 0 ''source_file'' (push_event (TokenEvent ?t) q) = Some ?q"
    using E(1) by (simp add: complete_node_def push_event_def)
  moreover have "par_events ?q = StartEvent ''source_file'' offset None # B @ [FinishEvent]"
    using E(1) by (simp add: push_event_def)
  moreover have "covers toks 0 (leaves ?E) (length toks)"
  proof -
    have "covers toks 0 (leaves (par_events q)) ?i" using q none by (simp add: ok_def read_tokens_def)
    from covers_append [OF this, of "[?t]" "?i + 1"] range i show ?thesis by simp
  qed
  ultimately show ?thesis
    using E bump none by (auto simp: file_events_def push_event_def)
qed

lemma source_file_ok:
  assumes "tokens_ok src toks" and "c \<Longrightarrow> \<forall>t \<in> set toks. token_kind t \<noteq> Punctuation PShiftRight"
    and "good c R rec" and "2 * length toks < R"
  shows "wp c (\<lambda>q. file_events src toks (par_events q) \<and> par_split q = None) (source_file rec (parser_new src toks))"
proof -
  let ?p = "parser_new src toks" and ?Q = "\<lambda>q. file_events src toks (par_events q) \<and> par_split q = None"
  have ok: "ok c ?p" by (rule parser_new_ok [OF assms(1,2)])
  have less: "remaining q < R" if "st c b ?p ms d q" for b ms d q
    by (rule st_less' [OF that]) (use assms(4) in \<open>simp add: remaining_def parser_new_def\<close>)
  obtain m q where start: "start ?p = Some (m, q)" by (rule start_Some [OF ok])
  then have "m = 0" by (auto simp: start_def parser_new_def split: bind_splits)
  with start start_ok [OF st_refl [OF ok]] have q: "st c False ?p [0] 0 q" by (auto simp: wp_def)
  have "wp c ?Q (Option.bind (eat_newlines q) (\<lambda>(_, q). Option.bind (directive_loop rec q) (\<lambda>q.
      Option.bind (dependency_loop q) (\<lambda>q. Option.bind (item_loop rec q) (\<lambda>q.
        Option.bind (bump q) (complete_node 0 ''source_file''))))))"
    apply (rule wp_eat_newlines [OF q], rule wp_prod)
    apply (rule wp_call, rule directive_loop_ok, erule st_ok, rule assms(3), erule less, assumption)
    apply (rule wp_call, rule dependency_loop_ok, erule st_ok, assumption)
    apply (rule wp_item_loop [OF assms(3)], assumption, erule less)
    apply (drule (1) source_file_end [OF assms(1)], auto simp: wp_def)
    done
  with start \<open>m = 0\<close> show ?thesis by (simp add: source_file_def)
qed

lemma parse_events_ok:
  assumes "tokens_ok src (lexed_tokens lexed)"
    and "c \<Longrightarrow> \<forall>t \<in> set (lexed_tokens lexed). token_kind t \<noteq> Punctuation PShiftRight"
  shows "wp c (\<lambda>(E, ds). file_events src (lexed_tokens lexed) E) (parse_events src lexed)"
proof -
  let ?p = "parser_new src (lexed_tokens lexed)"
  have "wp c (\<lambda>(E, ds). file_events src (lexed_tokens lexed) E)
      (Option.bind (source_file (grammar (grammar_depth ?p)) ?p) parser_finish)"
    by (rule wp_bind [OF source_file_ok [OF assms grammar_good]])
      (auto simp: grammar_depth_def parser_new_def parser_finish_def wp_def)
  then show ?thesis by (simp add: parse_events_def Let_def)
qed

end
