(* ===== verification/Syntax_Navigation.thy ===== *)
theory Syntax_Navigation
  imports Parser_Root
begin

text \<open>
  Reading a finished tree (\<open>tree.rs\<close>, \<open>navigation.rs\<close>, \<open>query.rs\<close>, \<open>completeness.rs\<close> of \<open>nocter-syntax\<close>). An iterator
  that the code drains with an explicit stack is a loop over that stack, whose head is the top; an id that is not a
  node of the tree is a panic. Every id belongs to the one tree in question.
\<close>

section \<open>Nodes and children\<close>

definition tree_node :: "syntax_tree \<Rightarrow> nat \<Rightarrow> syntax_node option" where
  "tree_node t i = (let ns = tree_nodes (tree_built t) in if i < length ns then Some (ns ! i) else None)"

definition root_node :: "syntax_tree \<Rightarrow> syntax_node option" where
  "root_node t = tree_node t (tree_root (tree_built t))"

definition tree_children :: "syntax_tree \<Rightarrow> nat \<Rightarrow> syntax_element list option" where
  "tree_children t i = do {
     found \<leftarrow> tree_node t i;
     let es = tree_elements (tree_built t);
     let first = first_child found;
     let stop = first + child_count found;
     (if stop \<le> length es then Some (take (stop - first) (drop first es)) else None) }"

definition tree_has_errors :: "syntax_tree \<Rightarrow> bool" where
  "tree_has_errors t \<longleftrightarrow> lexed_diagnostics (tree_lexed t) \<noteq> [] \<or> tree_diagnostics t \<noteq> []"

fun element_node :: "syntax_element \<Rightarrow> nat option" where
  "element_node (NodeElement i) = Some i"
| "element_node _ = None"

fun element_token :: "syntax_element \<Rightarrow> syntax_token option" where
  "element_token (TokenElement t) = Some t"
| "element_token _ = None"

section \<open>Direct children\<close>

definition child_nodes :: "syntax_tree \<Rightarrow> nat \<Rightarrow> nat list option" where
  "child_nodes t parent = map_option (List.map_filter element_node) (tree_children t parent)"

definition has_kind :: "syntax_tree \<Rightarrow> node_kind \<Rightarrow> nat \<Rightarrow> bool" where
  "has_kind t k i \<longleftrightarrow> (case tree_node t i of None \<Rightarrow> False | Some found \<Rightarrow> node_kind found = k)"

definition direct_nodes :: "syntax_tree \<Rightarrow> nat \<Rightarrow> node_kind \<Rightarrow> nat list option" where
  "direct_nodes t parent k = map_option (List.filter (has_kind t k)) (child_nodes t parent)"

definition first_of :: "'a list \<Rightarrow> 'a option" where
  "first_of xs = (case xs of [] \<Rightarrow> None | x # _ \<Rightarrow> Some x)"

text \<open>The outer \<open>None\<close> is a panic; the inner one is the absence of the node or token.\<close>

definition direct_node :: "syntax_tree \<Rightarrow> nat \<Rightarrow> node_kind \<Rightarrow> nat option option" where
  "direct_node t parent k = map_option first_of (direct_nodes t parent k)"

definition direct_tokens :: "syntax_tree \<Rightarrow> nat \<Rightarrow> syntax_token list option" where
  "direct_tokens t parent = map_option (List.map_filter element_token) (tree_children t parent)"

definition direct_identifiers :: "syntax_tree \<Rightarrow> nat \<Rightarrow> syntax_token list option" where
  "direct_identifiers t parent = map_option (List.filter (\<lambda>x. syntax_kind x = Identifier)) (direct_tokens t parent)"

definition first_direct_token :: "syntax_tree \<Rightarrow> nat \<Rightarrow> syntax_token option option" where
  "first_direct_token t parent = map_option first_of (direct_tokens t parent)"

definition direct_token :: "syntax_tree \<Rightarrow> nat \<Rightarrow> token_kind \<Rightarrow> syntax_token option option" where
  "direct_token t parent k =
     map_option (List.find (\<lambda>x. syntax_kind x = k) \<circ> List.map_filter element_token) (tree_children t parent)"

definition direct_identifier :: "syntax_tree \<Rightarrow> nat \<Rightarrow> syntax_token option option" where
  "direct_identifier t parent = map_option first_of (direct_identifiers t parent)"

section \<open>Descendants\<close>

partial_function (option) descendant_token_loop :: "syntax_tree \<Rightarrow> syntax_element list \<Rightarrow> syntax_token list option" where
  [code]: "descendant_token_loop t pending =
     (case pending of
        [] \<Rightarrow> Some []
      | e # rest \<Rightarrow>
          (case e of
             NodeElement i \<Rightarrow> do { children \<leftarrow> tree_children t i; descendant_token_loop t (children @ rest) }
           | TokenElement x \<Rightarrow> do { found \<leftarrow> descendant_token_loop t rest; Some (x # found) }
           | MissingElement _ \<Rightarrow> descendant_token_loop t rest))"

definition descendant_tokens :: "syntax_tree \<Rightarrow> nat \<Rightarrow> syntax_token list option" where
  "descendant_tokens t parent = do { children \<leftarrow> tree_children t parent; descendant_token_loop t children }"

definition descendant_identifiers :: "syntax_tree \<Rightarrow> nat \<Rightarrow> syntax_token list option" where
  "descendant_identifiers t parent = map_option (List.filter (\<lambda>x. syntax_kind x = Identifier)) (descendant_tokens t parent)"

partial_function (option) descendant_node_loop :: "syntax_tree \<Rightarrow> syntax_element list \<Rightarrow> nat list option" where
  [code]: "descendant_node_loop t pending =
     (case pending of
        [] \<Rightarrow> Some []
      | e # rest \<Rightarrow>
          (case e of
             NodeElement i \<Rightarrow> do {
               children \<leftarrow> tree_children t i;
               found \<leftarrow> descendant_node_loop t (children @ rest);
               Some (i # found) }
           | TokenElement _ \<Rightarrow> descendant_node_loop t rest
           | MissingElement _ \<Rightarrow> descendant_node_loop t rest))"

definition descendant_nodes :: "syntax_tree \<Rightarrow> nat \<Rightarrow> nat list option" where
  "descendant_nodes t parent = do { children \<leftarrow> tree_children t parent; descendant_node_loop t children }"

text \<open>A matching node is not entered.\<close>

partial_function (option) outermost_loop :: "syntax_tree \<Rightarrow> node_kind \<Rightarrow> syntax_element list \<Rightarrow> nat list option" where
  [code]: "outermost_loop t k pending =
     (case pending of
        [] \<Rightarrow> Some []
      | e # rest \<Rightarrow>
          (case e of
             NodeElement i \<Rightarrow>
               if has_kind t k i then do { found \<leftarrow> outermost_loop t k rest; Some (i # found) }
               else do { children \<leftarrow> tree_children t i; outermost_loop t k (children @ rest) }
           | TokenElement _ \<Rightarrow> outermost_loop t k rest
           | MissingElement _ \<Rightarrow> outermost_loop t k rest))"

definition outermost_descendants :: "syntax_tree \<Rightarrow> nat \<Rightarrow> node_kind \<Rightarrow> nat list option" where
  "outermost_descendants t parent k = do { children \<leftarrow> tree_children t parent; outermost_loop t k children }"

section \<open>Completeness\<close>

definition range_is_empty :: "text_range \<Rightarrow> bool" where
  "range_is_empty r \<longleftrightarrow> range_start r = range_end r"

definition contains_cursor :: "text_range \<Rightarrow> nat \<Rightarrow> bool" where
  "contains_cursor r cursor \<longleftrightarrow> range_start r \<le> cursor \<and> cursor \<le> range_end r"

definition ranges_overlap :: "text_range \<Rightarrow> text_range \<Rightarrow> bool" where
  "ranges_overlap r s \<longleftrightarrow> \<not> range_is_empty r \<and> \<not> range_is_empty s \<and> range_start r < range_end s \<and> range_start s < range_end r"

definition range_reaches_diagnostic :: "text_range \<Rightarrow> text_range \<Rightarrow> bool" where
  "range_reaches_diagnostic r d = (if range_is_empty d then contains_cursor r (range_start d) else ranges_overlap r d)"

text \<open>The elements of a node from left to right: the children to visit, or \<open>None\<close> at missing syntax.\<close>

fun pending_children :: "syntax_element list \<Rightarrow> nat list \<Rightarrow> nat list option" where
  "pending_children [] pending = Some pending"
| "pending_children (NodeElement i # es) pending = pending_children es (i # pending)"
| "pending_children (TokenElement _ # es) pending = pending_children es pending"
| "pending_children (MissingElement _ # es) pending = None"

partial_function (option) complete_loop :: "syntax_tree \<Rightarrow> nat list \<Rightarrow> bool option" where
  [code]: "complete_loop t pending =
     (case pending of
        [] \<Rightarrow> Some True
      | i # rest \<Rightarrow>
          (case tree_node t i of
             None \<Rightarrow> Some False
           | Some found \<Rightarrow>
               if node_kind found = ''error'' then Some False
               else do {
                 children \<leftarrow> tree_children t i;
                 (case pending_children children rest of
                    None \<Rightarrow> Some False
                  | Some pending \<Rightarrow> complete_loop t pending) }))"

definition node_is_complete :: "syntax_tree \<Rightarrow> nat \<Rightarrow> bool option" where
  "node_is_complete t root =
     (case tree_node t root of
        None \<Rightarrow> Some False
      | Some found \<Rightarrow>
          if (\<exists>d \<in> set (lexed_diagnostics (tree_lexed t)). range_reaches_diagnostic (node_range found) (lex_diagnostic_range d))
            \<or> (\<exists>d \<in> set (tree_diagnostics t). range_reaches_diagnostic (node_range found) (parse_diagnostic_range d))
          then Some False
          else complete_loop t [root])"

section \<open>Names of declarations\<close>

definition identifier_after :: "(syntax_token \<Rightarrow> bool) \<Rightarrow> syntax_token list \<Rightarrow> syntax_token option" where
  "identifier_after is_marker tokens =
     List.find (\<lambda>x. syntax_kind x = Identifier) (tl (dropWhile (\<lambda>x. \<not> is_marker x) tokens))"

definition name_after :: "(syntax_token \<Rightarrow> bool) \<Rightarrow> syntax_token list \<Rightarrow> syntax_token option" where
  "name_after is_marker tokens =
     List.find (\<lambda>x. syntax_kind x \<in> {Identifier, Keyword KwVoid, Keyword KwNever})
       (tl (dropWhile (\<lambda>x. \<not> is_marker x) tokens))"

definition declaration_contextual_keyword :: "syntax_tree \<Rightarrow> nat \<Rightarrow> syntax_token option option" where
  "declaration_contextual_keyword t i =
     (case tree_node t i of
        None \<Rightarrow> Some None
      | Some found \<Rightarrow>
          if node_kind found = ''static_declaration'' then direct_token t i Identifier else Some None)"

definition declaration_name :: "syntax_tree \<Rightarrow> nat \<Rightarrow> syntax_token option option" where
  "declaration_name t i =
     (case tree_node t i of
        None \<Rightarrow> Some None
      | Some found \<Rightarrow> do {
          tokens \<leftarrow> descendant_tokens t i;
          let k = node_kind found;
          let after_keyword = (\<lambda>w. identifier_after (\<lambda>x. syntax_kind x = Keyword w) tokens);
          (if k = ''constant_declaration'' then Some (after_keyword KwConst)
           else if k = ''static_declaration'' then
             map_option (\<lambda>introducer. case introducer of None \<Rightarrow> None | Some x \<Rightarrow> identifier_after (\<lambda>y. y = x) tokens)
               (declaration_contextual_keyword t i)
           else if k \<in> {''function_declaration'', ''construction_function''} then Some (after_keyword KwFunc)
           else if k = ''primitive_type_declaration'' then Some (name_after (\<lambda>x. syntax_kind x = Keyword KwType) tokens)
           else if k \<in> {''type_alias_declaration'', ''associated_type_declaration''} then Some (after_keyword KwType)
           else if k = ''struct_declaration'' then Some (after_keyword KwStruct)
           else if k = ''enum_declaration'' then Some (after_keyword KwEnum)
           else if k = ''interface_declaration'' then Some (after_keyword KwInterface)
           else if k = ''test_declaration'' then Some (after_keyword KwTest)
           else if k \<in> {''interface_method'', ''inherent_method''} then
             Some (identifier_after (\<lambda>x. syntax_kind x = Punctuation PDot) tokens)
           else if k \<in> {''struct_field'', ''enum_variant''} then Some (List.find (\<lambda>x. syntax_kind x = Identifier) tokens)
           else Some None) })"

end
