(* ===== verification/Tree_Building.thy ===== *)
theory Tree_Building
  imports Parser_Steps
begin

text \<open>
  \<open>build_tree\<close> on the events of a forest. \<open>represents ns es e T\<close> reads the flat arenas of a tree as an ordinary
  tree \<open>T\<close>; \<open>adds\<close> says what a forest of events adds to the frame on top of the builder.
\<close>

section \<open>Trees\<close>

datatype syntax_shape =
    TokenShape syntax_token
  | MissingShape missing_syntax
  | NodeShape nat "syntax_shape list"

fun shape_tokens :: "syntax_shape \<Rightarrow> syntax_token list" where
  "shape_tokens (TokenShape t) = [t]"
| "shape_tokens (MissingShape m) = []"
| "shape_tokens (NodeShape i ts) = concat (map shape_tokens ts)"

fun shape_postorder :: "syntax_shape \<Rightarrow> nat list" where
  "shape_postorder (TokenShape t) = []"
| "shape_postorder (MissingShape m) = []"
| "shape_postorder (NodeShape i ts) = concat (map shape_postorder ts) @ [i]"

definition node_elements :: "syntax_node list \<Rightarrow> syntax_element list \<Rightarrow> nat \<Rightarrow> syntax_element list" where
  "node_elements ns es i = take (child_count (ns ! i)) (drop (first_child (ns ! i)) es)"

definition node_fits :: "syntax_node list \<Rightarrow> syntax_element list \<Rightarrow> nat \<Rightarrow> bool" where
  "node_fits ns es i \<longleftrightarrow> i < length ns \<and> first_child (ns ! i) + child_count (ns ! i) \<le> length es"

inductive represents :: "syntax_node list \<Rightarrow> syntax_element list \<Rightarrow> syntax_element \<Rightarrow> syntax_shape \<Rightarrow> bool" for ns es where
  represents_token: "represents ns es (TokenElement t) (TokenShape t)"
| represents_missing: "represents ns es (MissingElement m) (MissingShape m)"
| represents_node: "node_fits ns es i \<Longrightarrow> list_all2 (represents ns es) (node_elements ns es i) Ts \<Longrightarrow>
    represents ns es (NodeElement i) (NodeShape i Ts)"

lemma node_fits_append: "node_fits ns es i \<Longrightarrow> node_fits (ns @ ns') (es @ es') i"
  by (auto simp: node_fits_def nth_append)

lemma node_elements_append: "node_fits ns es i \<Longrightarrow> node_elements (ns @ ns') (es @ es') i = node_elements ns es i"
  by (auto simp: node_fits_def node_elements_def nth_append)

lemma represents_append: "represents ns es e T \<Longrightarrow> represents (ns @ ns') (es @ es') e T"
proof (induction rule: represents.induct)
  case (represents_node i Ts)
  then show ?case
    by (intro represents.represents_node node_fits_append) (auto simp: node_elements_append elim: list_all2_mono)
qed (auto intro: represents.intros)

section \<open>Ranges in order\<close>

fun placed_elements :: "syntax_node list \<Rightarrow> nat \<Rightarrow> syntax_element list \<Rightarrow> nat \<Rightarrow> bool" where
  "placed_elements ns a [] b \<longleftrightarrow> a \<le> b"
| "placed_elements ns a (e # es) b \<longleftrightarrow> (\<exists>r. element_range ns e = Some r \<and> a \<le> range_start r \<and> range_start r \<le> range_end r
    \<and> placed_elements ns (range_end r) es b)"

lemma placed_le: "placed_elements ns a es b \<Longrightarrow> a \<le> b"
  by (induction es arbitrary: a) (auto, fastforce)

lemma placed_narrow: "placed_elements ns a es b \<Longrightarrow> a' \<le> a \<Longrightarrow> placed_elements ns a' es b"
  by (cases es) auto

lemma placed_append: "placed_elements ns a es b \<Longrightarrow> placed_elements ns b es' c \<Longrightarrow> placed_elements ns a (es @ es') c"
  by (induction es arbitrary: a) (auto intro: placed_narrow)

lemma element_range_append: "element_range ns e = Some r \<Longrightarrow> element_range (ns @ ns') e = Some r"
  by (cases e) (auto simp: element_range_def nth_append split: if_splits)

lemma placed_nodes: "placed_elements ns a es b \<Longrightarrow> placed_elements (ns @ ns') a es b"
  by (induction es arbitrary: a) (auto intro: element_range_append)

lemma placed_last:
  "placed_elements ns a es b \<Longrightarrow> es \<noteq> [] \<Longrightarrow> \<exists>f l. element_range ns (hd es) = Some f \<and> element_range ns (last es) = Some l
    \<and> a \<le> range_start f \<and> range_start f \<le> range_end l \<and> range_end l \<le> b"
proof (induction es arbitrary: a)
  case (Cons e es)
  then obtain r where r: "element_range ns e = Some r" "a \<le> range_start r" "range_start r \<le> range_end r"
    "placed_elements ns (range_end r) es b" by auto
  show ?case
  proof (cases "es = []")
    case False
    with Cons.IH [OF r(4)] r placed_le [OF r(4)] show ?thesis by fastforce
  qed (use r in auto)
qed simp

lemma child_range_placed:
  assumes "placed_elements ns a es b" and "es = [] \<Longrightarrow> a \<le> offset \<and> offset \<le> b"
  shows "\<exists>r. child_range ns offset es = Some r \<and> a \<le> range_start r \<and> range_start r \<le> range_end r \<and> range_end r \<le> b"
proof (cases "es = []")
  case False
  with placed_last [OF assms(1)] show ?thesis by (auto simp: child_range_def text_range_new_def)
qed (use assms(2) in \<open>auto simp: child_range_def range_empty_def\<close>)

section \<open>Consumed starts\<close>

definition mark :: "nat set \<Rightarrow> bool list \<Rightarrow> bool list" where
  "mark S c = map (\<lambda>j. c ! j \<or> j \<in> S) [0..<length c]"

lemma mark_simps [simp]: "length (mark S c) = length c" "j < length c \<Longrightarrow> mark S c ! j \<longleftrightarrow> c ! j \<or> j \<in> S"
  by (simp_all add: mark_def)

lemma mark_mark [simp]: "mark S (mark T c) = mark (S \<union> T) c"
  by (auto simp: mark_def)

lemma mark_empty [simp]: "mark {} c = c"
  by (simp add: mark_def map_nth)

lemma mark_one: "c[j := True] = mark {j} c"
  by (rule nth_equalityI) (simp, metis length_list_update mark_simps(2) nth_list_update_eq nth_list_update_neq singletonD singletonI) 

text \<open>
  The forward parents of a chain: from its first start the builder reaches the start behind it, having passed the
  starts \<open>ks\<close> at the places \<open>J\<close>.
\<close>

definition leads :: "event list \<Rightarrow> (node_kind \<times> nat) list \<Rightarrow> nat set \<Rightarrow> bool" where
  "leads G ks J \<longleftrightarrow> (\<forall>E pre post c. E = pre @ G @ post \<longrightarrow> post \<noteq> [] \<longrightarrow> length c = length E
     \<longrightarrow> (\<forall>j < length G. \<not> c ! (length pre + j))
     \<longrightarrow> forward_chain E (length pre) c = map_option (\<lambda>(ch, c'). (ks @ ch, c'))
           (forward_chain E (length pre + length G) (mark ((+) (length pre) ` J) c)))"

lemma leads_nil: "leads [] [] {}"
  by (auto simp: leads_def option.map_id [unfolded id_def] id_def)

lemma leads_link:
  assumes "leads G ks J" and "J \<subseteq> {..<length G}" and "d = 2 + length B + length H"
  shows "leads (G @ StartEvent k offset (Some d) # B @ [FinishEvent] @ H) (ks @ [(k, offset)]) (insert (length G) J)"
  unfolding leads_def
proof (intro allI impI)
  fix E pre post :: "event list" and c :: "bool list"
  let ?n = "length pre" and ?m = "length pre + length G" and ?G = "G @ StartEvent k offset (Some d) # B @ [FinishEvent] @ H"
  assume E: "E = pre @ ?G @ post" and post: "post \<noteq> []" and len: "length c = length E"
    and fresh_slots: "\<forall>j < length ?G. \<not> c ! (?n + j)"
  let ?c = "mark ((+) ?n ` J) c"
  from assms(1) [unfolded leads_def, rule_format, of E pre "StartEvent k offset (Some d) # B @ [FinishEvent] @ H @ post" c]
    E len fresh_slots
  have step: "forward_chain E ?n c = map_option (\<lambda>(ch, c'). (ks @ ch, c')) (forward_chain E ?m ?c)" by simp
  have at: "E ! ?m = StartEvent k offset (Some d)" "?m < length E" "?m + d < length E" "d \<noteq> 0"
    using E post assms(3) by (simp_all add: nth_append)
  have free: "\<not> ?c ! ?m" using fresh_slots at len assms(2) by auto
  have "forward_chain E ?m ?c = map_option (\<lambda>(ch, c'). ((k, offset) # ch, c')) (forward_chain E (?m + d) (mark {?m} ?c))"
    using at free by (subst forward_chain.simps) (simp add: mark_one)
  moreover have "?m + d = ?n + length ?G" using assms(3) by simp
  moreover have "mark {?m} ?c = mark ((+) ?n ` insert (length G) J) c" by (simp add: insert_commute)
  ultimately show "forward_chain E ?n c = map_option (\<lambda>(ch, c'). ((ks @ [(k, offset)]) @ ch, c'))
      (forward_chain E (?n + length ?G) (mark ((+) ?n ` insert (length G) J) c))"
    unfolding step by (simp add: option.map_comp comp_def case_prod_unfold)
qed

section \<open>What a forest adds\<close>

fun add_children :: "syntax_element list \<Rightarrow> frame list \<Rightarrow> frame list" where
  "add_children els [] = []"
| "add_children els (f # fs) = f\<lparr>frame_children := frame_children f @ els\<rparr> # fs"

lemma add_children_simps [simp]:
  "add_children [] fs = fs" "add_children els fs = [] \<longleftrightarrow> fs = []"
  "add_children els' (add_children els fs) = add_children (els @ els') fs"
  by (cases fs; simp)+

lemma add_child_children: "fs \<noteq> [] \<Longrightarrow> add_child e fs = Some (add_children [e] fs)"
  by (cases fs) (simp_all add: add_child_def)

definition adds :: "nat \<Rightarrow> event list \<Rightarrow> nat \<Rightarrow> frame list \<Rightarrow> builder \<Rightarrow> builder \<Rightarrow> bool" where
  "adds a F c fs b b' \<longleftrightarrow> (\<exists>els Ts ns es. open_frames b' = add_children els fs
     \<and> built_nodes b' = built_nodes b @ ns \<and> built_elements b' = built_elements b @ es \<and> built_root b' = built_root b
     \<and> placed_elements (built_nodes b') a els c \<and> list_all2 (represents (built_nodes b') (built_elements b')) els Ts
     \<and> concat (map shape_tokens Ts) = leaves F
     \<and> concat (map shape_postorder Ts) = [length (built_nodes b)..<length (built_nodes b')]
     \<and> (els = [] \<longrightarrow> FinishEvent \<notin> set F) \<and> length ns \<le> length F)"

lemma adds_nil: "a \<le> b \<Longrightarrow> adds a [] b (open_frames \<beta>) \<beta> \<beta>"
  unfolding adds_def by (rule exI [of _ "[]"], rule exI [of _ "[]"]) auto

lemma adds_trans:
  assumes "adds a F b fs \<beta> \<beta>'" and "adds b F' c (open_frames \<beta>') \<beta>' \<beta>''"
  shows "adds a (F @ F') c fs \<beta> \<beta>''"
proof -
  from assms(1) obtain els Ts ns es where
    1: "open_frames \<beta>' = add_children els fs" "built_nodes \<beta>' = built_nodes \<beta> @ ns"
    "built_elements \<beta>' = built_elements \<beta> @ es" "built_root \<beta>' = built_root \<beta>" "placed_elements (built_nodes \<beta>') a els b"
    "list_all2 (represents (built_nodes \<beta>') (built_elements \<beta>')) els Ts" "concat (map shape_tokens Ts) = leaves F"
    "concat (map shape_postorder Ts) = [length (built_nodes \<beta>)..<length (built_nodes \<beta>')]"
    "els = [] \<longrightarrow> FinishEvent \<notin> set F" "length ns \<le> length F"
    unfolding adds_def by blast
  from assms(2) obtain els' Ts' ns' es' where
    2: "open_frames \<beta>'' = add_children els' (open_frames \<beta>')" "built_nodes \<beta>'' = built_nodes \<beta>' @ ns'"
    "built_elements \<beta>'' = built_elements \<beta>' @ es'" "built_root \<beta>'' = built_root \<beta>'" "placed_elements (built_nodes \<beta>'') b els' c"
    "list_all2 (represents (built_nodes \<beta>'') (built_elements \<beta>'')) els' Ts'" "concat (map shape_tokens Ts') = leaves F'"
    "concat (map shape_postorder Ts') = [length (built_nodes \<beta>')..<length (built_nodes \<beta>'')]"
    "els' = [] \<longrightarrow> FinishEvent \<notin> set F'" "length ns' \<le> length F'"
    unfolding adds_def by blast
  have "list_all2 (represents (built_nodes \<beta>'') (built_elements \<beta>'')) els Ts"
    unfolding 2(2,3) by (rule list_all2_mono [OF 1(6)]) (rule represents_append)
  then have "list_all2 (represents (built_nodes \<beta>'') (built_elements \<beta>'')) (els @ els') (Ts @ Ts')"
    using 2(6) by (rule list_all2_appendI)
  moreover have "placed_elements (built_nodes \<beta>'') a (els @ els') c"
    using placed_append [OF _ 2(5)] placed_nodes [OF 1(5), of ns'] 2(2) by simp
  moreover have "[length (built_nodes \<beta>)..<length (built_nodes \<beta>')] @ [length (built_nodes \<beta>')..<length (built_nodes \<beta>'')]
      = [length (built_nodes \<beta>)..<length (built_nodes \<beta>'')]"
    using 1(2) 2(2) upt_add_eq_append [of "length (built_nodes \<beta>)" "length (built_nodes \<beta>')" "length ns'"]
    by (simp add: add.assoc)
  ultimately show ?thesis
    unfolding adds_def using 1 2
    by (intro exI [of _ "els @ els'"] exI [of _ "Ts @ Ts'"] exI [of _ "ns @ ns'"] exI [of _ "es @ es'"]) simp
qed

section \<open>Closing a node\<close>

text \<open>A node closed over what was added to its frame.\<close>

lemma adds_finish:
  assumes "adds a F c (\<lparr>frame_kind = k, frame_offset = offset, frame_children = []\<rparr> # fs) \<beta> \<beta>'"
    and "fs \<noteq> []" and "FinishEvent \<notin> set F \<Longrightarrow> a \<le> offset \<and> offset \<le> c" and "int (length (built_nodes \<beta>')) < 4294967296"
    and "leaves F' = leaves F" and "length F < length F'"
  obtains \<beta>'' where "finish_node \<beta>' = Some \<beta>''" and "adds a F' c fs \<beta> \<beta>''" and "consumed_starts \<beta>'' = consumed_starts \<beta>'"
proof -
  from assms(1) obtain els Ts ns es where
    1: "open_frames \<beta>' = \<lparr>frame_kind = k, frame_offset = offset, frame_children = els\<rparr> # fs"
    "built_nodes \<beta>' = built_nodes \<beta> @ ns"
    "built_elements \<beta>' = built_elements \<beta> @ es" "built_root \<beta>' = built_root \<beta>" "placed_elements (built_nodes \<beta>') a els c"
    "list_all2 (represents (built_nodes \<beta>') (built_elements \<beta>')) els Ts" "concat (map shape_tokens Ts) = leaves F"
    "concat (map shape_postorder Ts) = [length (built_nodes \<beta>)..<length (built_nodes \<beta>')]"
    "els = [] \<longrightarrow> FinishEvent \<notin> set F" "length ns \<le> length F"
    unfolding adds_def by auto
  let ?i = "length (built_nodes \<beta>')"
  obtain r where r: "child_range (built_nodes \<beta>') offset els = Some r" "a \<le> range_start r" "range_start r \<le> range_end r"
    "range_end r \<le> c"
    using child_range_placed [OF 1(5), of offset] 1(9) assms(3) by blast
  define node where "node = \<lparr>node_kind = k, node_range = r, first_child = length (built_elements \<beta>'), child_count = length els\<rparr>"
  define \<beta>'' where "\<beta>'' = \<beta>'\<lparr>open_frames := add_children [NodeElement ?i] fs, built_nodes := built_nodes \<beta>' @ [node],
    built_elements := built_elements \<beta>' @ els, built_root := built_root \<beta>'\<rparr>"
  have "finish_node \<beta>' = Some \<beta>''"
    using 1(1) r assms(2,4) by (simp add: finish_node_def node_id_def \<beta>''_def node_def add_child_children)
  moreover have "adds a F' c fs \<beta> \<beta>''"
  proof -
    have fits: "node_fits (built_nodes \<beta>'') (built_elements \<beta>'') ?i" "node_elements (built_nodes \<beta>'') (built_elements \<beta>'') ?i = els"
      by (simp_all add: node_fits_def node_elements_def \<beta>''_def node_def)
    have "list_all2 (represents (built_nodes \<beta>'') (built_elements \<beta>'')) els Ts"
      using list_all2_mono [OF 1(6)] represents_append [of "built_nodes \<beta>'" "built_elements \<beta>'"] by (simp add: \<beta>''_def)
    with fits have "represents (built_nodes \<beta>'') (built_elements \<beta>'') (NodeElement ?i) (NodeShape ?i Ts)"
      by (intro represents_node) simp_all
    moreover have "placed_elements (built_nodes \<beta>'') a [NodeElement ?i] c"
      using r by (simp add: element_range_def \<beta>''_def node_def)
    ultimately show ?thesis
      unfolding adds_def
      using 1 assms(5,6)
      by (intro exI [of _ "[NodeElement ?i]"] exI [of _ "[NodeShape ?i Ts]"] exI [of _ "ns @ [node]"] exI [of _ "es @ els"])
        (simp add: \<beta>''_def)
  qed
  ultimately show thesis using that by (simp add: \<beta>''_def)
qed

section \<open>The loop over the events\<close>

lemma build_events_append: "build_events E (is @ js) b = Option.bind (build_events E is b) (build_events E js)"
proof (induction "is" arbitrary: b)
  case (Cons i "is")
  then show ?case by (cases "build_event E i b") auto
qed simp

lemma build_events_range:
  "i \<le> j \<Longrightarrow> j \<le> l \<Longrightarrow> build_events E [i..<l] b = Option.bind (build_events E [i..<j] b) (build_events E [j..<l])"
  using upt_add_eq_append [of i j "l - j"] by (simp flip: build_events_append)

text \<open>An open start pushes the frames of its chain; the chain then begins with a consumed start.\<close>

lemma start_pushes:
  assumes "E ! i = StartEvent k offset d" and "\<not> consumed_starts b ! i" and "i < j"
    and "forward_chain E i (consumed_starts b) = Some (ch, c')" and "c' ! i"
  shows "build_events E [i..<j] b = build_events E [i..<j] (b\<lparr>open_frames := map (\<lambda>(k, offset).
    \<lparr>frame_kind = k, frame_offset = offset, frame_children = []\<rparr>) ch @ open_frames b, consumed_starts := c'\<rparr>)"
  using assms by (simp add: upt_conv_Cons build_event_def)

section \<open>Passing over events\<close>

text \<open>
  \<open>grows_events a F c\<close>: wherever the events \<open>F\<close> stand, with no start of theirs consumed and a frame to add to, the loop
  passes over them and adds their elements. \<open>chains a G c\<close>: the same for a chain whose frames have been pushed.
\<close>

definition fresh_slots :: "nat \<Rightarrow> nat \<Rightarrow> nat set \<Rightarrow> builder \<Rightarrow> bool" where
  "fresh_slots i n J b \<longleftrightarrow> (\<forall>j < n. consumed_starts b ! (i + j) \<longleftrightarrow> j \<in> J)"

definition passes :: "event list \<Rightarrow> nat \<Rightarrow> nat \<Rightarrow> event list \<Rightarrow> nat \<Rightarrow> frame list \<Rightarrow> builder \<Rightarrow> bool" where
  "passes E i a F c fs b \<longleftrightarrow> (\<exists>b' S. build_events E [i..<i + length F] b = Some b' \<and> adds a F c fs b b'
     \<and> consumed_starts b' = mark S (consumed_starts b) \<and> S \<subseteq> {i..<i + length F})"

definition room :: "event list \<Rightarrow> nat \<Rightarrow> builder \<Rightarrow> bool" where
  "room E i b \<longleftrightarrow> length (consumed_starts b) = length E \<and> length (built_nodes b) \<le> i \<and> int (length E) < 4294967296"

definition grows_events :: "nat \<Rightarrow> event list \<Rightarrow> nat \<Rightarrow> bool" where
  "grows_events a F c \<longleftrightarrow> (\<forall>E pre post b. E = pre @ F @ post \<longrightarrow> open_frames b \<noteq> [] \<longrightarrow> room E (length pre) b
     \<longrightarrow> fresh_slots (length pre) (length F) {} b \<longrightarrow> passes E (length pre) a F c (open_frames b) b)"

definition new_frames :: "(node_kind \<times> nat) list \<Rightarrow> frame list" where
  "new_frames ks = map (\<lambda>(k, offset). \<lparr>frame_kind = k, frame_offset = offset, frame_children = []\<rparr>) ks"

definition chains :: "nat \<Rightarrow> event list \<Rightarrow> nat \<Rightarrow> (node_kind \<times> nat) list \<Rightarrow> nat set \<Rightarrow> bool" where
  "chains a G c ks J \<longleftrightarrow> leads G ks J \<and> J \<subseteq> {..<length G} \<and> a \<le> c
     \<and> (G \<noteq> [] \<longrightarrow> FinishEvent \<in> set G \<and> ks \<noteq> [] \<and> 0 \<in> J \<and> (\<exists>k offset d. hd G = StartEvent k offset d))
     \<and> (\<forall>E pre post b fs. E = pre @ G @ post \<longrightarrow> open_frames b = new_frames ks @ fs \<longrightarrow> fs \<noteq> [] \<longrightarrow> room E (length pre) b
       \<longrightarrow> fresh_slots (length pre) (length G) J b \<longrightarrow> passes E (length pre) a G c fs b)"

lemma adds_room: "adds a F c fs b b' \<Longrightarrow> consumed_starts b' = mark S (consumed_starts b) \<Longrightarrow> room E i b \<Longrightarrow> room E (i + length F) b'"
  by (auto simp: adds_def room_def)

lemma passes_trans:
  assumes "passes E i a F b fs \<beta>" and "\<And>\<beta>'. build_events E [i..<i + length F] \<beta> = Some \<beta>' \<Longrightarrow> adds a F b fs \<beta> \<beta>' \<Longrightarrow>
      (\<And>j. j < length (consumed_starts \<beta>) \<Longrightarrow> i + length F \<le> j \<Longrightarrow> consumed_starts \<beta>' ! j = consumed_starts \<beta> ! j) \<Longrightarrow>
      (\<And>E. room E i \<beta> \<Longrightarrow> room E (i + length F) \<beta>') \<Longrightarrow> passes E (i + length F) b F' c (open_frames \<beta>') \<beta>'"
  shows "passes E i a (F @ F') c fs \<beta>"
proof -
  from assms(1) obtain \<beta>' S where
    1: "build_events E [i..<i + length F] \<beta> = Some \<beta>'" "adds a F b fs \<beta> \<beta>'"
    "consumed_starts \<beta>' = mark S (consumed_starts \<beta>)" "S \<subseteq> {i..<i + length F}"
    unfolding passes_def by blast
  have "consumed_starts \<beta>' ! j = consumed_starts \<beta> ! j" if "j < length (consumed_starts \<beta>)" "i + length F \<le> j" for j
    using 1(3,4) that by auto
  from assms(2) [OF 1(1,2) this adds_room [OF 1(2,3)]] obtain \<beta>'' S' where
    2: "build_events E [i + length F..<i + length F + length F'] \<beta>' = Some \<beta>''" "adds b F' c (open_frames \<beta>') \<beta>' \<beta>''"
    "consumed_starts \<beta>'' = mark S' (consumed_starts \<beta>')" "S' \<subseteq> {i + length F..<i + length F + length F'}"
    unfolding passes_def by blast
  have "build_events E [i..<i + length (F @ F')] \<beta> = Some \<beta>''"
    using build_events_range [of i "i + length F" "i + length (F @ F')" E \<beta>] 1(1) 2(1) by (simp add: add.assoc)
  moreover have "consumed_starts \<beta>'' = mark (S' \<union> S) (consumed_starts \<beta>)" using 1(3) 2(3) by simp
  moreover have "S' \<union> S \<subseteq> {i..<i + length (F @ F')}" using 1(4) 2(4) by auto
  ultimately show ?thesis unfolding passes_def using adds_trans [OF 1(2) 2(2)] by blast
qed

section \<open>Single events\<close>

lemma passes_nil: "a \<le> b \<Longrightarrow> fs = open_frames \<beta> \<Longrightarrow> passes E i a [] b fs \<beta>"
  unfolding passes_def by (intro exI [of _ \<beta>] exI [of _ "{}"]) (simp add: adds_nil)

lemma passes_leaf:
  assumes "E ! i = x" and "x = TokenEvent t \<and> el = TokenElement t \<or> x = MissingEvent m \<and> el = MissingElement m"
    and "open_frames \<beta> \<noteq> []" and "placed_elements (built_nodes \<beta>) a [el] b"
  shows "passes E i a [x] b (open_frames \<beta>) \<beta>"
proof -
  obtain T where T: "represents (built_nodes \<beta>) (built_elements \<beta>) el T" "shape_tokens T = leaves [x]" "shape_postorder T = []"
    using assms(2) represents_token represents_missing
    by (metis leaves.simps shape_postorder.simps(1,2) shape_tokens.simps(1,2))
  let ?\<beta> = "\<beta>\<lparr>open_frames := add_children [el] (open_frames \<beta>)\<rparr>"
  have "adds a [x] b (open_frames \<beta>) \<beta> ?\<beta>"
    unfolding adds_def using assms(2,4) T
    by (intro exI [of _ "[el]"] exI [of _ "[T]"] exI [of _ "[]"]) auto
  moreover have "build_events E [i..<i + length [x]] \<beta> = Some ?\<beta>"
    using assms(1-3) by (auto simp: build_event_def add_child_children)
  ultimately show ?thesis unfolding passes_def by (intro exI [of _ ?\<beta>] exI [of _ "{}"]) simp
qed

text \<open>A start that an earlier start consumed.\<close>

lemma passes_start:
  assumes "E ! i = StartEvent k offset d" and "consumed_starts \<beta> ! i" and "a \<le> b"
  shows "passes E i a [StartEvent k offset d] b (open_frames \<beta>) \<beta>"
proof -
  have "adds a [StartEvent k offset d] b (open_frames \<beta>) \<beta> \<beta>"
    using adds_nil [OF assms(3), of \<beta>] by (auto simp: adds_def)
  with assms(1,2) show ?thesis
    unfolding passes_def by (intro exI [of _ \<beta>] exI [of _ "{}"]) (simp add: build_event_def)
qed

lemma adds_builder:
  "built_nodes \<beta>\<^sub>1 = built_nodes \<beta> \<Longrightarrow> built_elements \<beta>\<^sub>1 = built_elements \<beta> \<Longrightarrow> built_root \<beta>\<^sub>1 = built_root \<beta> \<Longrightarrow>
    adds a F c fs \<beta>\<^sub>1 \<beta>' \<longleftrightarrow> adds a F c fs \<beta> \<beta>'"
  by (simp add: adds_def)

text \<open>The body of a node and its end, after what its chain put into its frame.\<close>

lemma passes_close:
  assumes "E = pre @ G @ StartEvent k offset d # B @ [FinishEvent] @ post"
    and "passes E (length pre) a G c (new_frames [(k, offset)] @ fs) \<beta>" and "fs \<noteq> []" and "room E (length pre) \<beta>"
    and "consumed_starts \<beta> ! (length pre + length G)" and "fresh_slots (length pre + length G + 1) (length B) {} \<beta>"
    and "grows_events c B e" and "c \<le> e" and "a \<le> c" and "FinishEvent \<notin> set G \<Longrightarrow> offset = c"
  shows "passes E (length pre) a (G @ StartEvent k offset d # B @ [FinishEvent]) e fs \<beta>"
proof -
  let ?i = "length pre" and ?m = "length pre + length G" and ?S = "StartEvent k offset d"
  have frames: "open_frames \<beta>' \<noteq> []" if "adds a F c' (new_frames [(k, offset)] @ fs) \<beta> \<beta>'" for F c' \<beta>'
    using that by (auto simp: adds_def new_frames_def)
  have len: "length (consumed_starts \<beta>) = length E" using assms(4) by (simp add: room_def)
  have start: "passes E ?i a (G @ [?S]) c (new_frames [(k, offset)] @ fs) \<beta>"
  proof (rule passes_trans [OF assms(2)])
    fix \<beta>' :: builder assume "\<And>j. j < length (consumed_starts \<beta>) \<Longrightarrow> ?m \<le> j \<Longrightarrow> consumed_starts \<beta>' ! j = consumed_starts \<beta> ! j"
    then show "passes E ?m c [?S] c (open_frames \<beta>') \<beta>'"
      using assms(1,5) len by (intro passes_start) (auto simp: nth_append)
  qed
  have body: "passes E ?i a ((G @ [?S]) @ B) e (new_frames [(k, offset)] @ fs) \<beta>"
  proof (rule passes_trans [OF start])
    fix \<beta>' :: builder assume \<beta>': "adds a (G @ [?S]) c (new_frames [(k, offset)] @ fs) \<beta> \<beta>'"
      "\<And>j. j < length (consumed_starts \<beta>) \<Longrightarrow> ?i + length (G @ [?S]) \<le> j \<Longrightarrow> consumed_starts \<beta>' ! j = consumed_starts \<beta> ! j"
      "\<And>E. room E ?i \<beta> \<Longrightarrow> room E (?i + length (G @ [?S])) \<beta>'"
    have E: "E = (pre @ G @ [?S]) @ B @ [FinishEvent] @ post" using assms(1) by simp
    have "fresh_slots (length (pre @ G @ [?S])) (length B) {} \<beta>'"
      using assms(1,6) \<beta>'(2) len by (auto simp: fresh_slots_def)
    with assms(7) [unfolded grows_events_def, rule_format, OF E] \<beta>'(3) [OF assms(4)] frames [OF \<beta>'(1)]
    show "passes E (?i + length (G @ [?S])) c B e (open_frames \<beta>') \<beta>'" by simp
  qed
  let ?F = "(G @ [?S]) @ B" and ?N = "G @ ?S # B @ [FinishEvent]"
  from body obtain \<beta>' S where
    \<beta>': "build_events E [?i..<?i + length ?F] \<beta> = Some \<beta>'" "adds a ?F e (new_frames [(k, offset)] @ fs) \<beta> \<beta>'"
    "consumed_starts \<beta>' = mark S (consumed_starts \<beta>)" "S \<subseteq> {?i..<?i + length ?F}"
    unfolding passes_def by blast
  from adds_room [OF \<beta>'(2,3) assms(4)] have "length (built_nodes \<beta>') \<le> ?i + length ?F" "int (length E) < 4294967296"
    by (simp_all add: room_def)
  with assms(1) have small: "int (length (built_nodes \<beta>')) < 4294967296" by simp
  obtain \<beta>'' where \<beta>'': "finish_node \<beta>' = Some \<beta>''" "adds a ?N e fs \<beta> \<beta>''" "consumed_starts \<beta>'' = consumed_starts \<beta>'"
    by (rule adds_finish [of a ?F e k offset fs \<beta> \<beta>' ?N]) (use small \<beta>'(2) assms(3,8-10) in \<open>auto simp: new_frames_def\<close>)
  have finish: "E ! (?i + length ?F) = FinishEvent" using assms(1) by (simp add: nth_append)
  have "build_events E [?i..<?i + length ?N] \<beta> = Some \<beta>''"
    using build_events_range [of ?i "?i + length ?F" "?i + length ?N" E \<beta>] \<beta>'(1) \<beta>''(1) finish
    by (simp add: upt_conv_Cons build_event_def)
  moreover have "S \<subseteq> {?i..<?i + length ?N}" using \<beta>'(4) by auto
  ultimately show ?thesis unfolding passes_def using \<beta>'(3) \<beta>''(2,3) by metis
qed

section \<open>Nodes and forests\<close>

lemma chain_opens:
  assumes "chains b G c ks J" and "E = pre @ G @ StartEvent k offset None # tail" and "length cs = length E"
    and "\<forall>j < length G + 1. \<not> cs ! (length pre + j)"
  shows "forward_chain E (length pre) cs
    = Some (ks @ [(k, offset)], mark ((+) (length pre) ` insert (length G) J) cs)"
proof -
  let ?m = "length pre + length G" and ?c = "mark ((+) (length pre) ` J) cs"
  from assms(1) have leads: "leads G ks J" and J: "J \<subseteq> {..<length G}" by (simp_all add: chains_def)
  from leads [unfolded leads_def, rule_format, of E pre "StartEvent k offset None # tail" cs] assms(2-4)
  have "forward_chain E (length pre) cs = map_option (\<lambda>(ch, c'). (ks @ ch, c')) (forward_chain E ?m ?c)" by simp
  moreover have "\<not> ?c ! ?m" using assms(2-4) J by auto
  moreover have "E ! ?m = StartEvent k offset None" using assms(2) by (simp add: nth_append)
  ultimately show ?thesis by (simp add: forward_chain.simps [of E ?m] mark_one)
qed

lemma passes_node:
  assumes "chains b G c ks J" and "G = [] \<longrightarrow> offset = c" and "grows_events c B e" and "c \<le> e"
    and "E = pre @ (G @ StartEvent k offset None # B @ [FinishEvent]) @ post" and "open_frames \<beta> \<noteq> []"
    and "room E (length pre) \<beta>" and "fresh_slots (length pre) (length G + 1 + length B) {} \<beta>"
  shows "passes E (length pre) b (G @ StartEvent k offset None # B @ [FinishEvent]) e (open_frames \<beta>) \<beta>"
proof -
  let ?i = "length pre" and ?S = "StartEvent k offset None" and ?J = "insert (length G) J"
  let ?N = "G @ ?S # B @ [FinishEvent]" and ?tail = "B @ [FinishEvent] @ post"
  from assms(1) have J: "J \<subseteq> {..<length G}" and bc: "b \<le> c" by (simp_all add: chains_def)
  have len: "length (consumed_starts \<beta>) = length E" using assms(7) by (simp add: room_def)
  let ?c = "mark ((+) ?i ` ?J) (consumed_starts \<beta>)"
  define \<beta>\<^sub>1 where "\<beta>\<^sub>1 = \<beta>\<lparr>open_frames := new_frames ks @ new_frames [(k, offset)] @ open_frames \<beta>, consumed_starts := ?c\<rparr>"
  have free: "\<not> consumed_starts \<beta> ! (?i + j)" if "j < length G + 1 + length B" for j
    using assms(8) that by (auto simp: fresh_slots_def)
  have E: "E = pre @ G @ ?S # ?tail" using assms(5) by simp
  have chain: "forward_chain E ?i (consumed_starts \<beta>) = Some (ks @ [(k, offset)], ?c)"
    by (rule chain_opens [OF assms(1) E len]) (use free in auto)
  have first: "\<exists>k offset d. E ! ?i = StartEvent k offset d"
    using assms(1,5) by (cases G) (auto simp: chains_def nth_append)
  have at: "?c ! (?i + j) \<longleftrightarrow> j \<in> ?J" if "j < length G + 1 + length B" for j
    using that free len assms(5) by auto
  have "?c ! ?i" using at [of 0] assms(1) by (cases G) (auto simp: chains_def)
  with first chain start_pushes [of E ?i _ _ _ \<beta> "?i + length ?N"] free [of 0]
  have same: "build_events E [?i..<?i + length ?N] \<beta> = build_events E [?i..<?i + length ?N] \<beta>\<^sub>1"
    by (fastforce simp: \<beta>\<^sub>1_def new_frames_def)
  have room: "room E ?i \<beta>\<^sub>1" using assms(7) by (simp add: room_def \<beta>\<^sub>1_def)
  have inner: "passes E ?i b G c (new_frames [(k, offset)] @ open_frames \<beta>) \<beta>\<^sub>1"
  proof -
    have "fresh_slots ?i (length G) J \<beta>\<^sub>1" using at by (auto simp: fresh_slots_def \<beta>\<^sub>1_def)
    with assms(1) E room show ?thesis by (auto simp: chains_def \<beta>\<^sub>1_def new_frames_def)
  qed
  have "passes E ?i b ?N e (open_frames \<beta>) \<beta>\<^sub>1"
  proof (rule passes_close [OF _ inner assms(6) room _ _ assms(3,4) bc])
    show "E = pre @ G @ ?S # B @ [FinishEvent] @ post" using E by simp
    show "consumed_starts \<beta>\<^sub>1 ! (?i + length G)" using at by (simp add: \<beta>\<^sub>1_def)
    show "fresh_slots (?i + length G + 1) (length B) {} \<beta>\<^sub>1"
      using at [of "length G + 1 + _"] J by (auto simp: fresh_slots_def \<beta>\<^sub>1_def add.assoc)
    show "offset = c" if "FinishEvent \<notin> set G" using that assms(1,2) by (auto simp: chains_def)
  qed
  then obtain \<beta>' S where \<beta>': "build_events E [?i..<?i + length ?N] \<beta>\<^sub>1 = Some \<beta>'" "adds b ?N e (open_frames \<beta>) \<beta>\<^sub>1 \<beta>'"
    "consumed_starts \<beta>' = mark S (consumed_starts \<beta>\<^sub>1)" "S \<subseteq> {?i..<?i + length ?N}"
    unfolding passes_def by blast
  have "consumed_starts \<beta>' = mark (S \<union> (+) ?i ` ?J) (consumed_starts \<beta>)" using \<beta>'(3) by (simp add: \<beta>\<^sub>1_def)
  moreover have "S \<union> (+) ?i ` ?J \<subseteq> {?i..<?i + length ?N}" using \<beta>'(4) J by auto
  moreover have "adds b ?N e (open_frames \<beta>) \<beta> \<beta>'"
    using \<beta>'(2) adds_builder [of \<beta>\<^sub>1 \<beta>] by (simp add: \<beta>\<^sub>1_def)
  ultimately show ?thesis unfolding passes_def same using \<beta>'(1) by blast
qed

section \<open>All forests\<close>

lemma adds_frames: "adds a F c fs b b' \<Longrightarrow> fs \<noteq> [] \<Longrightarrow> open_frames b' \<noteq> []"
  unfolding adds_def by (elim exE conjE) simp

text \<open>Passing over a forest after other events.\<close>

lemma passes_grows:
  assumes "passes E (length pre) a F b fs \<beta>" and "E = pre @ F @ F' @ post" and "grows_events b F' c" and "fs \<noteq> []"
    and "room E (length pre) \<beta>" and "fresh_slots (length pre + length F) (length F') {} \<beta>"
  shows "passes E (length pre) a (F @ F') c fs \<beta>"
proof (rule passes_trans [OF assms(1)])
  fix \<beta>' :: builder
  assume \<beta>': "adds a F b fs \<beta> \<beta>'"
    "\<And>j. j < length (consumed_starts \<beta>) \<Longrightarrow> length pre + length F \<le> j \<Longrightarrow> consumed_starts \<beta>' ! j = consumed_starts \<beta> ! j"
    "\<And>E. room E (length pre) \<beta> \<Longrightarrow> room E (length pre + length F) \<beta>'"
  have len: "length (consumed_starts \<beta>) = length E" using assms(5) by (simp add: room_def)
  have "fresh_slots (length (pre @ F)) (length F') {} \<beta>'"
    using assms(2,6) \<beta>'(2) len by (auto simp: fresh_slots_def)
  with assms(3) [unfolded grows_events_def, rule_format, of E "pre @ F" post \<beta>'] assms(2,4,5) \<beta>'(3) adds_frames [OF \<beta>'(1)]
  show "passes E (length pre + length F) b F' c (open_frames \<beta>') \<beta>'" by simp
qed

lemma grows_append:
  assumes "grows_events a F b"
    and "\<And>E pre post \<beta>. E = pre @ F' @ post \<Longrightarrow> open_frames \<beta> \<noteq> [] \<Longrightarrow> room E (length pre) \<beta>
      \<Longrightarrow> fresh_slots (length pre) (length F') {} \<beta> \<Longrightarrow> passes E (length pre) b F' c (open_frames \<beta>) \<beta>"
  shows "grows_events a (F @ F') c"
  unfolding grows_events_def
proof (intro allI impI)
  fix E pre post and \<beta> :: builder
  assume *: "E = pre @ (F @ F') @ post" "open_frames \<beta> \<noteq> []" "room E (length pre) \<beta>"
    "fresh_slots (length pre) (length (F @ F')) {} \<beta>"
  have F: "passes E (length pre) a F b (open_frames \<beta>) \<beta>"
    using assms(1) * by (auto simp: grows_events_def fresh_slots_def)
  show "passes E (length pre) a (F @ F') c (open_frames \<beta>) \<beta>"
  proof (rule passes_trans [OF F])
    fix \<beta>' :: builder
    assume \<beta>': "adds a F b (open_frames \<beta>) \<beta> \<beta>'"
      "\<And>j. j < length (consumed_starts \<beta>) \<Longrightarrow> length pre + length F \<le> j \<Longrightarrow> consumed_starts \<beta>' ! j = consumed_starts \<beta> ! j"
      "\<And>E. room E (length pre) \<beta> \<Longrightarrow> room E (length pre + length F) \<beta>'"
    have len: "length (consumed_starts \<beta>) = length E" using *(3) by (simp add: room_def)
    have "fresh_slots (length (pre @ F)) (length F') {} \<beta>'"
      using *(1,4) \<beta>'(2) len by (auto simp: fresh_slots_def add.assoc)
    moreover have "open_frames \<beta>' \<noteq> []" using adds_frames [OF \<beta>'(1) *(2)] .
    ultimately show "passes E (length pre + length F) b F' c (open_frames \<beta>') \<beta>'"
      using assms(2) [of E "pre @ F" post \<beta>'] *(1,3) \<beta>'(3) by simp
  qed
qed

lemma forest_grows: "forest a F c \<Longrightarrow> grows_events a F c"
  and chain_chains: "chain a G c \<Longrightarrow> \<exists>ks J. chains a G c ks J"
proof (induction rule: forest_chain.inducts)
  case (forest_nil a b)
  then show ?case by (auto simp: grows_events_def intro: passes_nil)
next
  case (forest_token a F b t c)
  then show ?case
    by (intro grows_append [OF forest_token.IH] passes_leaf [where el = "TokenElement t" and t = t])
      (auto simp: nth_append element_range_def)
next
  case (forest_missing a F b m s c)
  then show ?case
    by (intro grows_append [OF forest_missing.IH] passes_leaf [where el = "MissingElement m" and m = m])
      (auto simp: nth_append element_range_def range_empty_def)
next
  case (forest_node a F b G c offset B e k)
  from forest_node.IH(2) obtain ks J where chains: "chains b G c ks J" by blast
  show ?case
    by (rule grows_append [OF forest_node.IH(1)], rule passes_node [OF chains forest_node.hyps(3) forest_node.IH(3)])
      (auto simp: fresh_slots_def forest_le [OF forest_node.hyps(4)])
next
  case (chain_nil a b)
  then show ?case by (intro exI [of _ "[]"] exI [of _ "{}"]) (auto simp: chains_def leads_nil new_frames_def intro: passes_nil)
next
  case (chain_link a G b offset B c H e d k)
  from chain_link.IH(1) obtain ks J where chains: "chains a G b ks J" by blast
  let ?G = "G @ StartEvent k offset (Some d) # B @ [FinishEvent] @ H" and ?J = "insert (length G) J"
  have "passes E (length pre) a ?G e fs \<beta>"
    if E: "E = pre @ ?G @ post" and frames: "open_frames \<beta> = new_frames (ks @ [(k, offset)]) @ fs" "fs \<noteq> []"
      and room: "room E (length pre) \<beta>" and free: "fresh_slots (length pre) (length ?G) ?J \<beta>" for E pre post \<beta> fs
  proof -
    have at: "consumed_starts \<beta> ! (length pre + j) \<longleftrightarrow> j \<in> ?J" if "j < length ?G" for j
      using free that unfolding fresh_slots_def by blast
    have J: "J \<subseteq> {..<length G}" using chains by (simp add: chains_def)
    have inner: "passes E (length pre) a G b (new_frames [(k, offset)] @ fs) \<beta>"
    proof -
      have "fresh_slots (length pre) (length G) J \<beta>" using at by (auto simp: fresh_slots_def)
      with chains E frames room show ?thesis by (auto simp: chains_def new_frames_def)
    qed
    have "passes E (length pre) a (G @ StartEvent k offset (Some d) # B @ [FinishEvent]) c fs \<beta>"
    proof (rule passes_close [OF _ inner frames(2) room _ _ chain_link.IH(2)])
      show "E = pre @ G @ StartEvent k offset (Some d) # B @ [FinishEvent] @ H @ post" using E by simp
      show "consumed_starts \<beta> ! (length pre + length G)" using at [of "length G"] by simp
      show "fresh_slots (length pre + length G + 1) (length B) {} \<beta>"
        using at [of "length G + 1 + _"] J by (auto simp: fresh_slots_def add.assoc)
      show "offset = b" if "FinishEvent \<notin> set G" using that chains chain_link.hyps(2) by (auto simp: chains_def)
    qed (use chains forest_le [OF chain_link.hyps(3)] in \<open>auto simp: chains_def\<close>)
    moreover have "fresh_slots (length pre + length (G @ StartEvent k offset (Some d) # B @ [FinishEvent])) (length H) {} \<beta>"
      unfolding fresh_slots_def
    proof (intro allI impI)
      fix j assume "j < length H"
      then have "length G + length B + 2 + j < length ?G" "length G + length B + 2 + j \<notin> ?J" using J by auto
      with at [of "length G + length B + 2 + j"]
      show "consumed_starts \<beta> ! (length pre + length (G @ StartEvent k offset (Some d) # B @ [FinishEvent]) + j) \<longleftrightarrow> j \<in> {}"
        by (simp add: ac_simps)
    qed
    ultimately show ?thesis using passes_grows [of E pre a "G @ StartEvent k offset (Some d) # B @ [FinishEvent]" c fs \<beta> H post e] E chain_link.IH(3) frames(2) room by simp
  qed
  moreover have "leads ?G (ks @ [(k, offset)]) ?J"
    using chains chain_link.hyps(5) by (intro leads_link) (auto simp: chains_def)
  moreover have "a \<le> e" using chains forest_le [OF chain_link.hyps(3)] forest_le [OF chain_link.hyps(4)] by (simp add: chains_def)
  moreover have "?J \<subseteq> {..<length ?G}" using chains by (auto simp: chains_def)
  moreover have "0 \<in> ?J \<and> (\<exists>k offset d. hd ?G = StartEvent k offset d)" using chains by (cases G) (auto simp: chains_def)
  ultimately have "chains a ?G e (ks @ [(k, offset)]) ?J" unfolding chains_def by (intro conjI) simp_all
  then show ?case by blast
qed

section \<open>Whole trees\<close>

text \<open>The tree that a root node over the tree \<open>T\<close> stands for.\<close>

definition tree_represents :: "built_tree \<Rightarrow> syntax_shape \<Rightarrow> bool" where
  "tree_represents t T \<longleftrightarrow> represents (tree_nodes t) (tree_elements t) (NodeElement (tree_root t)) T
     \<and> shape_postorder T = [0..<length (tree_nodes t)]"

lemma build_tree_forest:
  assumes "E = StartEvent k offset None # B @ [FinishEvent]" and "forest offset B e" and "int (length E) < 4294967296"
  obtains t T where "build_tree E = Some t" and "tree_represents t T" and "shape_tokens T = leaves E"
    and "node_kind (tree_nodes t ! tree_root t) = k"
proof -
  let ?b = "tree_builder_new E" and ?f = "\<lparr>frame_kind = k, frame_offset = offset, frame_children = []\<rparr>"
  let ?n = "length B + 1"
  define \<beta> where "\<beta> = ?b\<lparr>open_frames := [?f], consumed_starts := (consumed_starts ?b)[0 := True]\<rparr>"
  have len: "length E = ?n + 1" and at: "E ! 0 = StartEvent k offset None" "E ! ?n = FinishEvent"
    using assms(1) by (simp_all add: nth_append)
  have "build_event E 0 ?b = Some \<beta>"
    using at(1) len by (simp add: build_event_def tree_builder_new_def forward_chain.simps \<beta>_def)
  then have open_root: "build_events E [0..<1] ?b = Some \<beta>" by simp
  have "room E 1 \<beta>" "fresh_slots 1 (length B) {} \<beta>"
    using assms(3) len by (auto simp: room_def fresh_slots_def \<beta>_def tree_builder_new_def nth_Cons split: nat.splits)
  with forest_grows [OF assms(2), unfolded grows_events_def, rule_format, of E "[StartEvent k offset None]" "[FinishEvent]" \<beta>] assms(1)
  obtain \<beta>' where \<beta>': "build_events E [1..<?n] \<beta> = Some \<beta>'" "adds offset B e [?f] \<beta> \<beta>'"
    by (auto simp: passes_def \<beta>_def)
  from \<beta>'(2) obtain els Ts ns where
    1: "open_frames \<beta>' = [?f\<lparr>frame_children := els\<rparr>]" "built_nodes \<beta>' = built_nodes \<beta> @ ns" "built_root \<beta>' = built_root \<beta>"
    "placed_elements (built_nodes \<beta>') offset els e" "list_all2 (represents (built_nodes \<beta>') (built_elements \<beta>')) els Ts"
    "concat (map shape_tokens Ts) = leaves B" "concat (map shape_postorder Ts) = [length (built_nodes \<beta>)..<length (built_nodes \<beta>')]"
    "length ns \<le> length B"
    unfolding adds_def by auto
  have empty: "built_nodes \<beta> = []" "built_root \<beta> = None" by (simp_all add: \<beta>_def tree_builder_new_def)
  obtain r where r: "child_range (built_nodes \<beta>') offset els = Some r"
    using child_range_placed [OF 1(4), of offset] forest_le [OF assms(2)] by blast
  let ?i = "length (built_nodes \<beta>')"
  define node where "node = \<lparr>node_kind = k, node_range = r, first_child = length (built_elements \<beta>'), child_count = length els\<rparr>"
  define \<beta>'' where "\<beta>'' = \<beta>'\<lparr>open_frames := [], built_nodes := built_nodes \<beta>' @ [node],
    built_elements := built_elements \<beta>' @ els, built_root := Some ?i\<rparr>"
  have "int ?i < 4294967296" using 1(2,8) empty assms(3) len by simp
  with 1(1,3) r empty have "finish_node \<beta>' = Some \<beta>''"
    by (simp add: finish_node_def node_id_def \<beta>''_def node_def)
  then have close: "build_events E [?n..<length E] \<beta>' = Some \<beta>''" using at(2) len by (simp add: build_event_def)
  have "build_events E [0..<length E] ?b = Some \<beta>''"
    using build_events_range [of 0 1 "length E" E ?b] build_events_range [of 1 ?n "length E" E \<beta>] open_root \<beta>'(1) close len
    by (simp del: upt_Suc build_events.simps One_nat_def)
  then have build: "build_tree E = Some \<lparr>tree_nodes = built_nodes \<beta>'', tree_elements = built_elements \<beta>'', tree_root = ?i\<rparr>"
    by (simp add: build_tree_def \<beta>''_def)
  have fits: "node_fits (built_nodes \<beta>'') (built_elements \<beta>'') ?i" "node_elements (built_nodes \<beta>'') (built_elements \<beta>'') ?i = els"
    by (simp_all add: node_fits_def node_elements_def \<beta>''_def node_def)
  have "list_all2 (represents (built_nodes \<beta>'') (built_elements \<beta>'')) els Ts"
    using list_all2_mono [OF 1(5)] represents_append [of "built_nodes \<beta>'" "built_elements \<beta>'"] by (simp add: \<beta>''_def)
  with fits have "represents (built_nodes \<beta>'') (built_elements \<beta>'') (NodeElement ?i) (NodeShape ?i Ts)"
    by (intro represents_node) simp_all
  with that [OF build, of "NodeShape ?i Ts"] 1(6,7) empty assms(1) show thesis
    by (simp add: tree_represents_def \<beta>''_def node_def)
qed

end
