(* ===== verification/Navigation_Correct.thy ===== *)
theory Navigation_Correct
  imports Syntax_Navigation Tree_Building
begin

text \<open>
  The iterators of \<open>Syntax_Navigation\<close> on a tree that its arenas represent: each visits what the recursive
  functions on \<open>syntax_shape\<close> enumerate, in source order, and stops.
\<close>

section \<open>Recursive enumerations\<close>

fun shape_preorder :: "syntax_shape \<Rightarrow> nat list" where
  "shape_preorder (TokenShape t) = []"
| "shape_preorder (MissingShape m) = []"
| "shape_preorder (NodeShape i ts) = i # concat (map shape_preorder ts)"

fun shape_outermost :: "(nat \<Rightarrow> bool) \<Rightarrow> syntax_shape \<Rightarrow> nat list" where
  "shape_outermost P (TokenShape t) = []"
| "shape_outermost P (MissingShape m) = []"
| "shape_outermost P (NodeShape i ts) = (if P i then [i] else concat (map (shape_outermost P) ts))"

fun shape_complete :: "(nat \<Rightarrow> bool) \<Rightarrow> syntax_shape \<Rightarrow> bool" where
  "shape_complete P (TokenShape t) \<longleftrightarrow> True"
| "shape_complete P (MissingShape m) \<longleftrightarrow> False"
| "shape_complete P (NodeShape i ts) \<longleftrightarrow> \<not> P i \<and> list_all (shape_complete P) ts"

fun shape_subtrees :: "syntax_shape \<Rightarrow> syntax_shape list" where
  "shape_subtrees (TokenShape t) = [TokenShape t]"
| "shape_subtrees (MissingShape m) = [MissingShape m]"
| "shape_subtrees (NodeShape i ts) = NodeShape i ts # concat (map shape_subtrees ts)"

abbreviation stands_for :: "syntax_tree \<Rightarrow> syntax_element \<Rightarrow> syntax_shape \<Rightarrow> bool" where
  "stands_for t \<equiv> represents (tree_nodes (tree_built t)) (tree_elements (tree_built t))"

lemma fits_children:
  "node_fits (tree_nodes (tree_built t)) (tree_elements (tree_built t)) i \<Longrightarrow>
    tree_children t i = Some (node_elements (tree_nodes (tree_built t)) (tree_elements (tree_built t)) i)"
  and fits_node: "node_fits (tree_nodes (tree_built t)) (tree_elements (tree_built t)) i \<Longrightarrow>
    tree_node t i = Some (tree_nodes (tree_built t) ! i)"
  by (simp_all add: node_fits_def tree_children_def tree_node_def node_elements_def Let_def)

inductive_cases represents_nodeE: "represents ns es e (NodeShape i Ts)"

lemma stands_children:
  assumes "stands_for t e (NodeShape i Ts)"
  obtains els where "e = NodeElement i" and "tree_children t i = Some els" and "list_all2 (stands_for t) els Ts"
    and "tree_node t i \<noteq> None"
  using assms by (cases rule: represents_nodeE) (auto simp: fits_children fits_node)

lemma subtrees_stand:
  assumes "stands_for t e T" and "S \<in> set (shape_subtrees T)"
  shows "\<exists>e'. stands_for t e' S"
  using assms
proof (induction rule: represents.induct)
  case (represents_node i Ts)
  show ?case
  proof (cases "S = NodeShape i Ts")
    case True
    have "list_all2 (stands_for t) (node_elements (tree_nodes (tree_built t)) (tree_elements (tree_built t)) i) Ts"
      by (rule list_all2_mono [OF represents_node.IH]) simp
    with represents_node.hyps True show ?thesis by (auto intro: represents.represents_node)
  next
    case False
    with represents_node.prems obtain T where "T \<in> set Ts" "S \<in> set (shape_subtrees T)" by auto
    with represents_node.IH show ?thesis by (auto simp: list_all2_conv_all_nth in_set_conv_nth)
  qed
qed (auto intro: represents.intros)

section \<open>The loops over the stack\<close>

lemma map_nothing [simp]: "map_option ((@) []) x = x"
  by (cases x) auto

lemma loop_list:
  assumes "list_all2 (\<lambda>e T. stands_for t e T \<and> (\<forall>rest. loop (e # rest) = map_option ((@) (f T)) (loop rest))) els Ts"
  shows "loop (els @ rest) = map_option ((@) (concat (map f Ts))) (loop rest)"
  using assms
proof (induction els Ts rule: list_all2_induct)
  case (Cons e els T Ts)
  then show ?case by (simp add: option.map_comp comp_def)
qed (simp add: option.map_ident)

lemma token_loop:
  "stands_for t e T \<Longrightarrow> descendant_token_loop t (e # rest) = map_option ((@) (shape_tokens T)) (descendant_token_loop t rest)"
proof (induction arbitrary: rest rule: represents.induct)
  case (represents_token x)
  show ?case by (subst descendant_token_loop.simps) (cases "descendant_token_loop t rest"; simp)
next
  case (represents_missing m)
  show ?case by (subst descendant_token_loop.simps) (simp)
next
  case (represents_node i Ts)
  show ?case
    using loop_list [OF represents_node.IH, of rest] fits_children [OF represents_node.hyps(1)]
    by (subst descendant_token_loop.simps) simp
qed

lemma node_loop:
  "stands_for t e T \<Longrightarrow> descendant_node_loop t (e # rest) = map_option ((@) (shape_preorder T)) (descendant_node_loop t rest)"
proof (induction arbitrary: rest rule: represents.induct)
  case (represents_node i Ts)
  show ?case
    using loop_list [OF represents_node.IH, of rest] fits_children [OF represents_node.hyps(1)]
    by (subst descendant_node_loop.simps) (cases "descendant_node_loop t rest"; simp)
next
  case (represents_token x)
  show ?case by (subst descendant_node_loop.simps) simp
next
  case (represents_missing m)
  show ?case by (subst descendant_node_loop.simps) simp
qed

lemma outermost_list:
  "stands_for t e T \<Longrightarrow> outermost_loop t k (e # rest)
    = map_option ((@) (shape_outermost (has_kind t k) T)) (outermost_loop t k rest)"
proof (induction arbitrary: rest rule: represents.induct)
  case (represents_node i Ts)
  show ?case
    using loop_list [OF represents_node.IH, of rest] fits_children [OF represents_node.hyps(1)]
    by (subst outermost_loop.simps) (cases "outermost_loop t k rest"; simp)
next
  case (represents_token x)
  show ?case by (subst outermost_loop.simps) simp
next
  case (represents_missing m)
  show ?case by (subst outermost_loop.simps) simp
qed

lemma loops_nil [simp]:
  "descendant_token_loop t [] = Some []" "descendant_node_loop t [] = Some []" "outermost_loop t k [] = Some []"
  "complete_loop t [] = Some True"
  by (simp_all add: descendant_token_loop.simps descendant_node_loop.simps outermost_loop.simps complete_loop.simps)

text \<open>The whole of an iterator, on the children of a node.\<close>

lemma iterators_children:
  assumes "stands_for t e (NodeShape i Ts)"
  shows "descendant_tokens t i = Some (concat (map shape_tokens Ts))"
    and "descendant_nodes t i = Some (concat (map shape_preorder Ts))"
    and "outermost_descendants t i k = Some (concat (map (shape_outermost (has_kind t k)) Ts))"
proof -
  from assms obtain els where els: "tree_children t i = Some els" "list_all2 (stands_for t) els Ts"
    by (rule stands_children)
  have "descendant_token_loop t (els @ []) = map_option ((@) (concat (map shape_tokens Ts))) (descendant_token_loop t [])"
    by (rule loop_list, rule list_all2_mono [OF els(2)]) (simp add: token_loop)
  with els(1) show "descendant_tokens t i = Some (concat (map shape_tokens Ts))" by (simp add: descendant_tokens_def)
  have "descendant_node_loop t (els @ []) = map_option ((@) (concat (map shape_preorder Ts))) (descendant_node_loop t [])"
    by (rule loop_list, rule list_all2_mono [OF els(2)]) (simp add: node_loop)
  with els(1) show "descendant_nodes t i = Some (concat (map shape_preorder Ts))" by (simp add: descendant_nodes_def)
  have "outermost_loop t k (els @ []) = map_option ((@) (concat (map (shape_outermost (has_kind t k)) Ts))) (outermost_loop t k [])"
    by (rule loop_list, rule list_all2_mono [OF els(2)]) (simp add: outermost_list)
  with els(1) show "outermost_descendants t i k = Some (concat (map (shape_outermost (has_kind t k)) Ts))"
    by (simp add: outermost_descendants_def)
qed

section \<open>Completeness\<close>

lemma pending_spec:
  "pending_children els pending = (if \<exists>m. MissingElement m \<in> set els then None
    else Some (rev (List.map_filter element_node els) @ pending))"
  by (induction els pending rule: pending_children.induct) (auto simp: map_filter_simps)

definition checks :: "syntax_tree \<Rightarrow> nat list \<Rightarrow> bool \<Rightarrow> bool" where
  "checks t is v \<longleftrightarrow> (\<forall>rest. complete_loop t (is @ rest) = (if v then complete_loop t rest else Some False))"

lemma checks_nil: "checks t [] True"
  by (simp add: checks_def)

lemma checks_append: "checks t is v \<Longrightarrow> checks t js w \<Longrightarrow> checks t (is @ js) (v \<and> w)"
  by (simp add: checks_def)

fun element_checks :: "syntax_tree \<Rightarrow> syntax_element \<Rightarrow> syntax_shape \<Rightarrow> bool" where
  "element_checks t (NodeElement i) T \<longleftrightarrow> checks t [i] (shape_complete (has_kind t ''error'') T)"
| "element_checks t (TokenElement x) T \<longleftrightarrow> shape_complete (has_kind t ''error'') T"
| "element_checks t (MissingElement m) T \<longleftrightarrow> \<not> shape_complete (has_kind t ''error'') T"

lemma children_check:
  "list_all2 (element_checks t) els Ts \<Longrightarrow> \<forall>m. MissingElement m \<notin> set els \<Longrightarrow>
    checks t (rev (List.map_filter element_node els)) (list_all (shape_complete (has_kind t ''error'')) Ts)"
proof (induction els Ts rule: list_all2_induct)
  case (Cons e els T Ts)
  then show ?case
    by (cases e) (auto simp: map_filter_simps conj_commute dest: checks_append [of t "rev _" _ "[_]"])
qed (simp add: map_filter_simps checks_nil)

lemma complete_checks: "stands_for t e T \<Longrightarrow> element_checks t e T"
proof (induction rule: represents.induct)
  case (represents_node i Ts)
  let ?ns = "tree_nodes (tree_built t)" and ?err = "has_kind t ''error''"
  let ?els = "node_elements ?ns (tree_elements (tree_built t)) i"
  have all: "list_all2 (element_checks t) ?els Ts" by (rule list_all2_mono [OF represents_node.IH]) simp
  have err: "?err i \<longleftrightarrow> node_kind (?ns ! i) = ''error''"
    using fits_node [OF represents_node.hyps(1)] by (simp add: has_kind_def)
  have "complete_loop t (i # rest) = (if shape_complete ?err (NodeShape i Ts) then complete_loop t rest else Some False)" for rest
  proof (cases "\<exists>m. MissingElement m \<in> set ?els")
    case True
    then have "\<not> list_all (shape_complete ?err) Ts"
      using all by (auto simp: list_all2_conv_all_nth in_set_conv_nth list_all_length) (metis element_checks.simps(3))
    with True err fits_node [OF represents_node.hyps(1)] fits_children [OF represents_node.hyps(1)] show ?thesis
      by (subst complete_loop.simps) (simp add: pending_spec)
  next
    case False
    with children_check [OF all] err fits_node [OF represents_node.hyps(1)] fits_children [OF represents_node.hyps(1)]
    show ?thesis by (subst complete_loop.simps) (simp add: pending_spec checks_def)
  qed
  then show ?case by (simp add: checks_def)
qed simp_all

end
