(* ===== verification/Parser_Correct.thy ===== *)
theory Parser_Correct
  imports Root_Steps Navigation_Correct "HOL-Library.Multiset"
begin

text \<open>
  The parser as a whole: what \<open>parse_events\<close> and \<open>parse_tree\<close> of \<open>Parser_Root\<close> do with the tokens of a text.
\<close>

section \<open>Lexing, then parsing\<close>

lemma lexed_tokens_ok:
  assumes "source_ok src" and "lex_file src = Some f"
  shows "tokens_ok src (lexed_tokens f)"
  using lex_file_placed [OF assms] by (auto simp: tokens_ok_def)

text \<open>The events of a file make a tree, whose arena holds each node once.\<close>

lemma parse_tree_represents:
  assumes "source_ok src" and "lex_file src = Some f" and "parse_events src f = Some (E, ds)"
    and "int (length E) < 4294967296"
  obtains t T where "parse_tree src = Some t" and "tree_represents (tree_built t) T" and "shape_tokens T = leaves E"
    and "covers (lexed_tokens f) 0 (leaves E) (length (lexed_tokens f))"
proof -
  from parse_events_ok [OF lexed_tokens_ok [OF assms(1,2)], of False] assms(3)
  have "file_events src (lexed_tokens f) E" by (simp add: wp_def)
  then obtain offset B where E: "E = StartEvent ''source_file'' offset None # B @ [FinishEvent]" "forest offset B (length src)"
    and cover: "covers (lexed_tokens f) 0 (leaves E) (length (lexed_tokens f))"
    by (auto simp: file_events_def)
  from build_tree_forest [OF E assms(4)] obtain b T where b: "build_tree E = Some b" "tree_represents b T" "shape_tokens T = leaves E"
    by blast
  let ?t = "\<lparr>tree_lexed = f, tree_built = b, tree_diagnostics = ds\<rparr>"
  have "parse_tree src = Some ?t" using assms(2,3) b(1) by (simp add: parse_tree_def)
  with that [of ?t T] b(2,3) cover show thesis by simp
qed

inductive_cases represents_rootE: "represents ns es (NodeElement i) T"

lemma tree_represents_root:
  assumes "tree_represents b T"
  obtains Ts where "T = NodeShape (tree_root b) Ts"
proof -
  from assms have "represents (tree_nodes b) (tree_elements b) (NodeElement (tree_root b)) T" by (simp add: tree_represents_def)
  with that show thesis by (elim represents_rootE) auto
qed

lemma mset_concat_cong: "(\<And>x. x \<in> set xs \<Longrightarrow> mset (f x) = mset (g x)) \<Longrightarrow> mset (concat (map f xs)) = mset (concat (map g xs))"
  by (induction xs) simp_all

lemma preorder_postorder: "mset (shape_preorder (T :: syntax_shape)) = mset (shape_postorder T)"
proof (induction T)
  case (NodeShape i Ts)
  then have "mset (concat (map shape_preorder Ts)) = mset (concat (map shape_postorder Ts))" by (rule mset_concat_cong)
  then show ?case by (simp)
qed simp_all

section \<open>Sample files\<close>

lemma generic_source: "source_ok ''type X=A<B<C>>''" "source_ok ''type X=A<B>''"
  by (auto intro!: source_ok_ascii simp: code_def)

lemma nested_sample:
  "map_option (length \<circ> fst) (Option.bind (lex_file ''type X=A<B<C>>'') (parse_events ''type X=A<B<C>>'')) = Some 37"
  by code_simp

lemma nested_parse:
  obtains f E ds where "lex_file ''type X=A<B<C>>'' = Some f" and "parse_events ''type X=A<B<C>>'' f = Some (E, ds)"
    and "length E = 37"
proof -
  from nested_sample have "\<exists>f E ds. lex_file ''type X=A<B<C>>'' = Some f \<and> parse_events ''type X=A<B<C>>'' f = Some (E, ds)
    \<and> length E = 37"
    by (cases "lex_file ''type X=A<B<C>>''") auto
  with that show thesis by blast
qed

lemma plain_sample:
  "map_option (\<lambda>f. list_all (\<lambda>t. token_kind t \<noteq> Punctuation PShiftRight) (lexed_tokens f)) (lex_file ''type X=A<B>'') = Some True"
  by code_simp

section \<open>Properties\<close>

text \<open>
  C1: the parser loses nothing and invents nothing: whatever text it returns on, its events are one source-file node
  whose inner nodes are properly nested and in source order, and the tokens among them are exactly the lexed tokens
  from the first to the end of the file, each whole or, for \<open>>>\<close> and \<open>&&\<close>, as its two halves.
\<close>

theorem parse_lossless:
  assumes "source_ok src" and "lex_file src = Some f" and "parse_events src f = Some (E, ds)"
  shows "file_events src (lexed_tokens f) E"
  using parse_events_ok [OF lexed_tokens_ok [OF assms(1,2)], of False] assms(3) by (simp add: wp_def)

theorem parse_lossless_witness:
  "\<exists>f E ds. lex_file ''type X=A<B<C>>'' = Some f \<and> parse_events ''type X=A<B<C>>'' f = Some (E, ds)
    \<and> file_events ''type X=A<B<C>>'' (lexed_tokens f) E"
proof -
  obtain f E ds where "lex_file ''type X=A<B<C>>'' = Some f" "parse_events ''type X=A<B<C>>'' f = Some (E, ds)"
    by (rule nested_parse)
  with parse_lossless [OF generic_source(1) this] show ?thesis by blast
qed

text \<open>
  C14: without a token \<open>>>\<close> the parser always returns, on correct and on erroneous programs: every loop of the grammar
  consumes a token before it repeats, the recursion is never deeper than what is left to read, and no assertion of the
  parser fails.
\<close>

theorem parse_returns:
  assumes "source_ok src" and "lex_file src = Some f"
    and "\<forall>t \<in> set (lexed_tokens f). token_kind t \<noteq> Punctuation PShiftRight"
  shows "\<exists>E ds. parse_events src f = Some (E, ds)"
  using parse_events_ok [OF lexed_tokens_ok [OF assms(1,2)], of True] assms(3)
  by (cases "parse_events src f") (auto simp: wp_def)

theorem parse_returns_witness:
  "\<exists>f E ds. lex_file ''type X=A<B>'' = Some f \<and> parse_events ''type X=A<B>'' f = Some (E, ds)"
proof -
  from plain_sample obtain f where f: "lex_file ''type X=A<B>'' = Some f"
    "\<forall>t \<in> set (lexed_tokens f). token_kind t \<noteq> Punctuation PShiftRight"
    by (auto simp: list_all_iff)
  with parse_returns [OF generic_source(2) f] show ?thesis by blast
qed


text \<open>
  C5: building a tree from the parser's events never fails (below the 32-bit limit of node identities): the tokens
  under the root, in the order of the token iterator, are the tokens of the file, and the root and the nodes under it
  are the nodes of the arena, each once.
\<close>

theorem parse_tree_complete:
  assumes "source_ok src" and "lex_file src = Some f" and "parse_events src f = Some (E, ds)"
    and "int (length E) < 4294967296"
  shows "\<exists>t root ts ns. parse_tree src = Some t \<and> root = tree_root (tree_built t)
    \<and> descendant_tokens t root = Some ts \<and> covers (lexed_tokens f) 0 ts (length (lexed_tokens f))
    \<and> descendant_nodes t root = Some ns \<and> mset (root # ns) = mset [0..<length (tree_nodes (tree_built t))]"
proof -
  from parse_tree_represents [OF assms] obtain t T where t: "parse_tree src = Some t" "tree_represents (tree_built t) T"
    "shape_tokens T = leaves E" "covers (lexed_tokens f) 0 (leaves E) (length (lexed_tokens f))" .
  from tree_represents_root [OF t(2)] obtain Ts where T: "T = NodeShape (tree_root (tree_built t)) Ts" .
  from t(2) T have "stands_for t (NodeElement (tree_root (tree_built t))) (NodeShape (tree_root (tree_built t)) Ts)"
    by (simp add: tree_represents_def)
  note iter = iterators_children [OF this]
  have "mset (tree_root (tree_built t) # concat (map shape_preorder Ts)) = mset [0..<length (tree_nodes (tree_built t))]"
    using preorder_postorder [where T = T] t(2) unfolding tree_represents_def T by (metis shape_preorder.simps(3))
  with t T iter show ?thesis by (intro exI [of _ t]) (simp)
qed

theorem parse_tree_complete_witness:
  "\<exists>f t ts. lex_file ''type X=A<B<C>>'' = Some f \<and> parse_tree ''type X=A<B<C>>'' = Some t
    \<and> descendant_tokens t (tree_root (tree_built t)) = Some ts
    \<and> covers (lexed_tokens f) 0 ts (length (lexed_tokens f))"
proof -
  obtain f E ds where f: "lex_file ''type X=A<B<C>>'' = Some f" "parse_events ''type X=A<B<C>>'' f = Some (E, ds)" "length E = 37"
    by (rule nested_parse)
  from f(3) have "int (length E) < 4294967296" by simp
  from parse_tree_complete [OF generic_source(1) f(1,2) this] f(1) show ?thesis by blast
qed

text \<open>
  C19: every iterator over a tree, an explicit stack in the code, equals the recursive enumeration of the tree its
  arenas stand for: descendant tokens, descendant nodes in preorder, outermost nodes of a kind, and completeness, which
  is the absence of error nodes and missing syntax.
\<close>

theorem navigation_equivalent:
  assumes "tree_represents (tree_built t) T" and "NodeShape i Ts \<in> set (shape_subtrees T)"
  shows "descendant_tokens t i = Some (concat (map shape_tokens Ts))
    \<and> descendant_nodes t i = Some (concat (map shape_preorder Ts))
    \<and> outermost_descendants t i k = Some (concat (map (shape_outermost (has_kind t k)) Ts))
    \<and> complete_loop t [i] = Some (shape_complete (has_kind t ''error'') (NodeShape i Ts))"
proof -
  from subtrees_stand [OF _ assms(2)] assms(1) obtain e where e: "stands_for t e (NodeShape i Ts)"
    by (auto simp: tree_represents_def)
  then have "e = NodeElement i" by (rule stands_children)
  with complete_checks [OF e] have "checks t [i] (shape_complete (has_kind t ''error'') (NodeShape i Ts))" by simp
  then have "complete_loop t ([i] @ []) = Some (shape_complete (has_kind t ''error'') (NodeShape i Ts))"
    unfolding checks_def by (simp only: loops_nil split: if_splits) auto
  with iterators_children [OF e] show ?thesis by simp
qed

theorem navigation_equivalent_witness:
  "\<exists>t Ts. parse_tree ''type X=A<B<C>>'' = Some t
    \<and> descendant_tokens t (tree_root (tree_built t)) = Some (concat (map shape_tokens Ts))
    \<and> complete_loop t [tree_root (tree_built t)] = Some (shape_complete (has_kind t ''error'') (NodeShape (tree_root (tree_built t)) Ts))"
proof -
  obtain f E ds where f: "lex_file ''type X=A<B<C>>'' = Some f" "parse_events ''type X=A<B<C>>'' f = Some (E, ds)" "length E = 37"
    by (rule nested_parse)
  then have "int (length E) < 4294967296" by simp
  from parse_tree_represents [OF generic_source(1) f(1,2) this] obtain t T where
    t: "parse_tree ''type X=A<B<C>>'' = Some t" "tree_represents (tree_built t) T" by metis
  from tree_represents_root [OF t(2)] obtain Ts where T: "T = NodeShape (tree_root (tree_built t)) Ts" .
  with navigation_equivalent [OF t(2), of "tree_root (tree_built t)" Ts "''error''"] t(1) show ?thesis by auto
qed

end
