(* ===== verification/Computation_Database.thy ===== *)
theory Computation_Database
  imports Btree_Map "HOL-Library.Monad_Syntax" "HOL-Library.Char_ord" "HOL-Library.List_Lexorder"
    "HOL-Library.Product_Lexorder"
begin

text \<open>
  The incremental computation engine (\<^verbatim>\<open>nocter-computation/src/database.rs\<close>, \<open>identity.rs\<close>, \<open>error.rs\<close>, \<open>lib.rs\<close>).
  Inputs and queries are the trait parameters of the sources: one \<open>'i\<close> is an input family with a key, one \<open>'q\<close> a
  query family with a key, \<open>'v\<close> the values behind \<open>Arc<dyn Any>\<close> and \<open>'t\<close> their \<open>TypeId\<close>. A provider is a program
  that reads the database and passes a kernel failure on, which is the contract of \<open>Query::execute\<close>.
  A query evaluates, by recursion through its provider, as long as the provider asks; that recursion takes fuel, and
  \<open>None\<close> is an evaluation that does not return or the failed \<open>expect\<close> of the evaluation stack.
\<close>

section \<open>Identities\<close>

datatype computation_category = InputCategory | QueryCategory

datatype computation_identity =
  ComputationIdentity (identity_category: computation_category) (identity_name: string) (identity_key: "u8 list")

definition identity_tuple :: "computation_identity \<Rightarrow> bool \<times> string \<times> u8 list" where
  "identity_tuple i = (identity_category i = QueryCategory, identity_name i, identity_key i)"

lemma identity_tuple_inject: "identity_tuple a = identity_tuple b \<longleftrightarrow> a = b"
  by (cases a; cases b) (auto simp: identity_tuple_def, metis computation_category.exhaust)

instantiation computation_identity :: linorder
begin

definition less_eq_computation_identity :: "computation_identity \<Rightarrow> computation_identity \<Rightarrow> bool" where
  "less_eq_computation_identity a b \<longleftrightarrow> identity_tuple a \<le> identity_tuple b"

definition less_computation_identity :: "computation_identity \<Rightarrow> computation_identity \<Rightarrow> bool" where
  "less_computation_identity a b \<longleftrightarrow> identity_tuple a < identity_tuple b"

instance
  by standard (auto simp: less_eq_computation_identity_def less_computation_identity_def identity_tuple_inject
      less_le_not_le)

end

datatype computation_error =
    MissingInput computation_identity
  | Cycle "computation_identity list"
  | StoredTypeMismatch computation_identity
  | RevisionExhausted

section \<open>Families\<close>

datatype input_retention = Persistent | RevisionDerived

datatype ('q, 'i) request = InputRequest 'i | QueryRequest 'q

text \<open>What a provider does with the database: it ends, or reads an input or a query and goes on with the value.\<close>

datatype ('q, 'i, 'v) provider =
    Finish "computation_error + 'v"
  | Request "('q, 'i) request" "'v \<Rightarrow> ('q, 'i, 'v) provider"

text \<open>\<open>query_key\<close> and \<open>input_key\<close> are the type name of a family with the stable bytes of the key.\<close>

record ('q, 'i, 'v, 't, 'f) families =
  query_key :: "'q \<Rightarrow> string \<times> u8 list"
  input_key :: "'i \<Rightarrow> string \<times> u8 list"
  query_type :: "'q \<Rightarrow> 't"
  input_type :: "'i \<Rightarrow> 't"
  retention_of :: "'i \<Rightarrow> input_retention"
  fingerprint_of :: "'t \<Rightarrow> 'v \<Rightarrow> 'f"
  execute :: "'q \<Rightarrow> ('q, 'i, 'v) provider"

definition input_identity :: "('q, 'i, 'v, 't, 'f) families \<Rightarrow> 'i \<Rightarrow> computation_identity" where
  "input_identity F i = ComputationIdentity InputCategory (fst (input_key F i)) (snd (input_key F i))"

definition query_identity :: "('q, 'i, 'v, 't, 'f) families \<Rightarrow> 'q \<Rightarrow> computation_identity" where
  "query_identity F q = ComputationIdentity QueryCategory (fst (query_key F q)) (snd (query_key F q))"

section \<open>State\<close>

record 'f dependency =
  dep_identity :: computation_identity
  dep_fingerprint :: 'f

record 'f evaluation_frame =
  frame_identity :: computation_identity
  frame_dependencies :: "'f dependency list"

text \<open>The erased key and the evaluator of a query entry are the query they belong to.\<close>

datatype ('q, 'f) entry_kind =
    InputEntry input_retention
  | QueryEntry 'q "'f dependency list"

record ('q, 'v, 't, 'f) entry =
  entry_value :: "'t \<times> 'v"
  entry_fingerprint :: 'f
  verified_at :: nat
  entry_kind :: "('q, 'f) entry_kind"

record ('q, 'v, 't, 'f) database =
  db_revision :: nat
  db_entries :: "(computation_identity, ('q, 'v, 't, 'f) entry) btree_map"
  db_evaluations :: "'f evaluation_frame list"
  db_executions :: "(string, nat) btree_map"
  db_reuses :: "(string, nat) btree_map"

definition database_new :: "('q, 'v, 't, 'f) database" where
  "database_new = \<lparr>db_revision = 0, db_entries = [], db_evaluations = [], db_executions = [], db_reuses = []\<rparr>"

abbreviation entry_at :: "('q, 'v, 't, 'f) database \<Rightarrow> computation_identity \<Rightarrow> ('q, 'v, 't, 'f) entry option" where
  "entry_at db \<equiv> bt_get (db_entries db)"

definition put_entry :: "computation_identity \<Rightarrow> ('q, 'v, 't, 'f) entry \<Rightarrow> ('q, 'v, 't, 'f) database
    \<Rightarrow> ('q, 'v, 't, 'f) database" where
  "put_entry identity e db = db\<lparr>db_entries := bt_insert identity e (db_entries db)\<rparr>"

text \<open>\<open>*entry(name).or_default() += 1\<close>.\<close>

definition count_one :: "string \<Rightarrow> (string, nat) btree_map \<Rightarrow> (string, nat) btree_map" where
  "count_one name m = bt_insert name (case bt_get m name of None \<Rightarrow> 1 | Some n \<Rightarrow> n + 1) m"

definition execution_count :: "('q, 'i, 'v, 't, 'f) families \<Rightarrow> 'q \<Rightarrow> ('q, 'v, 't, 'f) database \<Rightarrow> nat" where
  "execution_count F q db = (case bt_get (db_executions db) (fst (query_key F q)) of None \<Rightarrow> 0 | Some n \<Rightarrow> n)"

definition reuse_count :: "('q, 'i, 'v, 't, 'f) families \<Rightarrow> 'q \<Rightarrow> ('q, 'v, 't, 'f) database \<Rightarrow> nat" where
  "reuse_count F q db = (case bt_get (db_reuses db) (fst (query_key F q)) of None \<Rightarrow> 0 | Some n \<Rightarrow> n)"

definition retained_entry_count :: "('q, 'v, 't, 'f) database \<Rightarrow> nat" where
  "retained_entry_count db = length (db_entries db)"

section \<open>The evaluation stack\<close>

text \<open>The stack grows at the end of the list.\<close>

definition begin_evaluation :: "computation_identity \<Rightarrow> ('q, 'v, 't, 'f) database
    \<Rightarrow> computation_error + ('q, 'v, 't, 'f) database" where
  "begin_evaluation identity db =
     (case position (\<lambda>f. frame_identity f = identity) (db_evaluations db) of
        Some start \<Rightarrow> Inl (Cycle (map frame_identity (drop start (db_evaluations db)) @ [identity]))
      | None \<Rightarrow> Inr (db\<lparr>db_evaluations := db_evaluations db @ [\<lparr>frame_identity = identity, frame_dependencies = []\<rparr>]\<rparr>))"

definition end_evaluation :: "computation_identity \<Rightarrow> ('q, 'v, 't, 'f) database
    \<Rightarrow> ('f dependency list \<times> ('q, 'v, 't, 'f) database) option" where
  "end_evaluation identity db =
     (if db_evaluations db = [] then None
      else let f = last (db_evaluations db) in
        if frame_identity f = identity
        then Some (frame_dependencies f, db\<lparr>db_evaluations := butlast (db_evaluations db)\<rparr>) else None)"

definition record_dependency :: "computation_identity \<Rightarrow> 'f \<Rightarrow> ('q, 'v, 't, 'f) database
    \<Rightarrow> ('q, 'v, 't, 'f) database" where
  "record_dependency identity fp db =
     (if db_evaluations db = [] then db
      else let f = last (db_evaluations db) in
        if \<exists>d \<in> set (frame_dependencies f). dep_identity d = identity then db
        else db\<lparr>db_evaluations := butlast (db_evaluations db)
          @ [f\<lparr>frame_dependencies := frame_dependencies f @ [\<lparr>dep_identity = identity, dep_fingerprint = fp\<rparr>]\<rparr>]\<rparr>)"

section \<open>Values\<close>

text \<open>\<open>value\<close>: the downcast succeeds at the type the value was stored with.\<close>

definition stored_value :: "'t \<Rightarrow> computation_identity \<Rightarrow> ('q, 'v, 't, 'f) database \<Rightarrow> computation_error + 'v" where
  "stored_value ty identity db =
     (case entry_at db identity of
        None \<Rightarrow> Inl (StoredTypeMismatch identity)
      | Some e \<Rightarrow> if fst (entry_value e) = ty then Inr (snd (entry_value e)) else Inl (StoredTypeMismatch identity))"

definition stored_fingerprint :: "computation_identity \<Rightarrow> ('q, 'v, 't, 'f) database \<Rightarrow> computation_error + 'f" where
  "stored_fingerprint identity db =
     (case entry_at db identity of
        None \<Rightarrow> Inl (StoredTypeMismatch identity)
      | Some e \<Rightarrow> Inr (entry_fingerprint e))"

text \<open>Entries found clean, and entries computed.\<close>

definition mark_verified :: "computation_identity \<Rightarrow> ('q, 'v, 't, 'f) database
    \<Rightarrow> computation_error + ('q, 'v, 't, 'f) database" where
  "mark_verified identity db =
     (case entry_at db identity of
        None \<Rightarrow> Inl (StoredTypeMismatch identity)
      | Some e \<Rightarrow> Inr (put_entry identity (e\<lparr>verified_at := db_revision db\<rparr>) db
          \<lparr>db_reuses := count_one (identity_name identity) (db_reuses db)\<rparr>))"

definition store_query :: "('q, 'i, 'v, 't, 'f) families \<Rightarrow> 'q \<Rightarrow> 'v \<Rightarrow> 'f dependency list
    \<Rightarrow> ('q, 'v, 't, 'f) database \<Rightarrow> ('q, 'v, 't, 'f) database" where
  "store_query F q v dependencies db =
     put_entry (query_identity F q)
       \<lparr>entry_value = (query_type F q, v), entry_fingerprint = fingerprint_of F (query_type F q) v,
        verified_at = db_revision db, entry_kind = QueryEntry q dependencies\<rparr> db
       \<lparr>db_executions := count_one (identity_name (query_identity F q)) (db_executions db)\<rparr>"

section \<open>Demand evaluation\<close>

text \<open>
  A failure leaves the database as it is at that point; \<open>bind_ok\<close> is the \<open>?\<close> of the sources.
\<close>

type_synonym ('q, 'v, 't, 'f, 'a) outcome = "((computation_error + 'a) \<times> ('q, 'v, 't, 'f) database) option"

definition bind_ok :: "('q, 'v, 't, 'f, 'a) outcome \<Rightarrow> ('a \<Rightarrow> ('q, 'v, 't, 'f) database \<Rightarrow> ('q, 'v, 't, 'f, 'b) outcome)
    \<Rightarrow> ('q, 'v, 't, 'f, 'b) outcome" where
  "bind_ok x f = do {
     (r, db) \<leftarrow> x;
     (case r of Inl e \<Rightarrow> Some (Inl e, db) | Inr v \<Rightarrow> f v db) }"

text \<open>
  \<open>check_dependencies\<close> is the loop of \<open>ensure\<close> over recorded dependencies; its result says whether one changed.
  \<open>run_provider\<close> is \<open>Q::execute\<close>, whose reads are the methods \<open>input\<close> and \<open>query\<close>. The methods call each other
  through the providers: each is a step on the \<open>ensure\<close> and the \<open>query\<close> of the level below.
\<close>

primrec check_dependencies :: "(computation_identity \<Rightarrow> ('q, 'v, 't, 'f) database \<Rightarrow> ('q, 'v, 't, 'f, 'f) outcome)
    \<Rightarrow> 'f dependency list \<Rightarrow> ('q, 'v, 't, 'f) database \<Rightarrow> ('q, 'v, 't, 'f, bool) outcome" where
  "check_dependencies ens [] db = Some (Inr False, db)"
| "check_dependencies ens (d # rest) db =
     bind_ok (ens (dep_identity d) db) (\<lambda>current db.
       if current \<noteq> dep_fingerprint d then Some (Inr True, db) else check_dependencies ens rest db)"

definition read_input :: "(computation_identity \<Rightarrow> ('q, 'v, 't, 'f) database \<Rightarrow> ('q, 'v, 't, 'f, 'f) outcome)
    \<Rightarrow> ('q, 'i, 'v, 't, 'f) families \<Rightarrow> 'i \<Rightarrow> ('q, 'v, 't, 'f) database \<Rightarrow> ('q, 'v, 't, 'f, 'v) outcome" where
  "read_input ens F i db =
     bind_ok (ens (input_identity F i) db) (\<lambda>fp db.
       case stored_value (input_type F i) (input_identity F i) db of
         Inl e \<Rightarrow> Some (Inl e, db)
       | Inr v \<Rightarrow> Some (Inr v, record_dependency (input_identity F i) fp db))"

primrec run_provider :: "(('q, 'i) request \<Rightarrow> ('q, 'v, 't, 'f) database \<Rightarrow> ('q, 'v, 't, 'f, 'v) outcome)
    \<Rightarrow> ('q, 'i, 'v) provider \<Rightarrow> ('q, 'v, 't, 'f) database \<Rightarrow> ('q, 'v, 't, 'f, 'v) outcome" where
  "run_provider read (Finish r) = (\<lambda>db. Some (r, db))"
| "run_provider read (Request r k) = (\<lambda>db. bind_ok (read r db) (\<lambda>v. run_provider read (k v)))"

definition evaluate :: "(('q, 'i) request \<Rightarrow> ('q, 'v, 't, 'f) database \<Rightarrow> ('q, 'v, 't, 'f, 'v) outcome)
    \<Rightarrow> ('q, 'i, 'v, 't, 'f) families \<Rightarrow> 'q \<Rightarrow> ('q, 'v, 't, 'f) database \<Rightarrow> ('q, 'v, 't, 'f, unit) outcome" where
  "evaluate read F q db =
     (case begin_evaluation (query_identity F q) db of
        Inl e \<Rightarrow> Some (Inl e, db)
      | Inr db \<Rightarrow> do {
          (r, db) \<leftarrow> run_provider read (execute F q) db;
          (dependencies, db) \<leftarrow> end_evaluation (query_identity F q) db;
          (case r of Inl e \<Rightarrow> Some (Inl e, db) | Inr v \<Rightarrow> Some (Inr (), store_query F q v dependencies db)) })"

definition ensure_step :: "(computation_identity \<Rightarrow> ('q, 'v, 't, 'f) database \<Rightarrow> ('q, 'v, 't, 'f, 'f) outcome)
    \<Rightarrow> ('q \<Rightarrow> ('q, 'v, 't, 'f) database \<Rightarrow> ('q, 'v, 't, 'f, unit) outcome)
    \<Rightarrow> computation_identity \<Rightarrow> ('q, 'v, 't, 'f) database \<Rightarrow> ('q, 'v, 't, 'f, 'f) outcome" where
  "ensure_step ens evaluator identity db =
     (case entry_at db identity of
        None \<Rightarrow> Some (Inl (MissingInput identity), db)
      | Some e \<Rightarrow>
          if verified_at e = db_revision db then Some (Inr (entry_fingerprint e), db)
          else case entry_kind e of
            InputEntry _ \<Rightarrow> Some (Inr (entry_fingerprint e), put_entry identity (e\<lparr>verified_at := db_revision db\<rparr>) db)
          | QueryEntry q dependencies \<Rightarrow>
              bind_ok (check_dependencies ens dependencies db) (\<lambda>dirty db.
                if dirty then bind_ok (evaluator q db) (\<lambda>_ db. Some (stored_fingerprint identity db, db))
                else case mark_verified identity db of
                  Inl e \<Rightarrow> Some (Inl e, db)
                | Inr db \<Rightarrow> Some (stored_fingerprint identity db, db)))"

definition query_step :: "(computation_identity \<Rightarrow> ('q, 'v, 't, 'f) database \<Rightarrow> ('q, 'v, 't, 'f, 'f) outcome)
    \<Rightarrow> ('q \<Rightarrow> ('q, 'v, 't, 'f) database \<Rightarrow> ('q, 'v, 't, 'f, unit) outcome)
    \<Rightarrow> ('q, 'i, 'v, 't, 'f) families \<Rightarrow> 'q \<Rightarrow> ('q, 'v, 't, 'f) database \<Rightarrow> ('q, 'v, 't, 'f, 'v) outcome" where
  "query_step ens evaluator F q db =
     bind_ok
       (if bt_contains (db_entries db) (query_identity F q)
        then bind_ok (ens (query_identity F q) db) (\<lambda>_ db. Some (Inr (), db))
        else evaluator q db)
       (\<lambda>_ db. case stored_fingerprint (query_identity F q) db of
          Inl e \<Rightarrow> Some (Inl e, db)
        | Inr fp \<Rightarrow> (case stored_value (query_type F q) (query_identity F q) db of
              Inl e \<Rightarrow> Some (Inl e, db)
            | Inr v \<Rightarrow> Some (Inr v, record_dependency (query_identity F q) fp db)))"

fun ensure :: "nat \<Rightarrow> ('q, 'i, 'v, 't, 'f) families \<Rightarrow> computation_identity \<Rightarrow> ('q, 'v, 't, 'f) database
      \<Rightarrow> ('q, 'v, 't, 'f, 'f) outcome"
  and read_request :: "nat \<Rightarrow> ('q, 'i, 'v, 't, 'f) families \<Rightarrow> ('q, 'i) request \<Rightarrow> ('q, 'v, 't, 'f) database
      \<Rightarrow> ('q, 'v, 't, 'f, 'v) outcome" where
  "ensure 0 F = (\<lambda>identity db. None)"
| "ensure (Suc n) F = ensure_step (ensure n F) (evaluate (read_request n F) F)"
| "read_request 0 F = (\<lambda>r db. None)"
| "read_request (Suc n) F = (\<lambda>r db. case r of
      InputRequest i \<Rightarrow> read_input (ensure n F) F i db
    | QueryRequest q \<Rightarrow> query_step (ensure n F) (evaluate (read_request n F) F) F q db)"

abbreviation query :: "nat \<Rightarrow> ('q, 'i, 'v, 't, 'f) families \<Rightarrow> 'q \<Rightarrow> ('q, 'v, 't, 'f) database
    \<Rightarrow> ('q, 'v, 't, 'f, 'v) outcome" where
  "query n F q \<equiv> read_request n F (QueryRequest q)"

section \<open>Revisions\<close>

text \<open>An \<open>InputRevision\<close> is the next revision with the staged inputs; it borrows its database.\<close>

record ('v, 't, 'f) pending_input =
  pending_value :: "'t \<times> 'v"
  pending_fingerprint :: 'f
  pending_retention :: input_retention

record ('v, 't, 'f) input_revision =
  next_revision :: nat
  pending :: "(computation_identity, ('v, 't, 'f) pending_input) btree_map"

definition advance_revision :: "('q, 'v, 't, 'f) database \<Rightarrow> computation_error + ('v, 't, 'f) input_revision" where
  "advance_revision db =
     (if int (db_revision db) + 1 < 2 ^ 64 then Inr \<lparr>next_revision = db_revision db + 1, pending = []\<rparr>
      else Inl RevisionExhausted)"

definition set_input :: "('q, 'i, 'v, 't, 'f) families \<Rightarrow> 'i \<Rightarrow> 'v \<Rightarrow> ('v, 't, 'f) input_revision
    \<Rightarrow> ('v, 't, 'f) input_revision" where
  "set_input F i v r = r\<lparr>pending := bt_insert (input_identity F i)
     \<lparr>pending_value = (input_type F i, v), pending_fingerprint = fingerprint_of F (input_type F i) v,
      pending_retention = retention_of F i\<rparr> (pending r)\<rparr>"

definition pending_entry :: "nat \<Rightarrow> ('v, 't, 'f) pending_input \<Rightarrow> ('q, 'v, 't, 'f) entry" where
  "pending_entry r p = \<lparr>entry_value = pending_value p, entry_fingerprint = pending_fingerprint p, verified_at = r,
     entry_kind = InputEntry (pending_retention p)\<rparr>"

definition commit_revision :: "('v, 't, 'f) input_revision \<Rightarrow> ('q, 'v, 't, 'f) database
    \<Rightarrow> ('q, 'v, 't, 'f) database" where
  "commit_revision r db =
     fold (\<lambda>(identity, p). put_entry identity (pending_entry (next_revision r) p)) (pending r) db
       \<lparr>db_revision := next_revision r\<rparr>"

text \<open>The number of removed entries, and what is left; an evaluation in progress fails the debug assertion.\<close>

definition collect_inactive :: "nat \<Rightarrow> ('q, 'v, 't, 'f) database \<Rightarrow> (nat \<times> ('q, 'v, 't, 'f) database) option" where
  "collect_inactive oldest db =
     (if db_evaluations db \<noteq> [] then None
      else let cutoff = min oldest (db_revision db);
             kept = filter (\<lambda>(_, e). cutoff \<le> verified_at e \<or> entry_kind e = InputEntry Persistent) (db_entries db) in
        Some (length (db_entries db) - length kept, db\<lparr>db_entries := kept\<rparr>))"

end
