(* ===== verification/Computation_Correct.thy ===== *)
theory Computation_Correct
  imports Computation_Database
begin

text \<open>
  Correctness of the incremental computation engine: what a database answers is what its providers compute from the
  inputs alone, whatever was computed, reused, invalidated and collected before. \<open>answer\<close> is that reference; it knows
  neither revisions nor stored values.
\<close>

section \<open>Evaluation from scratch\<close>

primrec derive :: "(('q, 'i) request \<Rightarrow> (computation_error + 'v) option) \<Rightarrow> ('q, 'i, 'v) provider
    \<Rightarrow> (computation_error + 'v) option" where
  "derive read (Finish r) = Some r"
| "derive read (Request r k) =
     (case read r of None \<Rightarrow> None | Some (Inl e) \<Rightarrow> Some (Inl e) | Some (Inr v) \<Rightarrow> derive read (k v))"

definition resolve :: "('q, 'i, 'v, 't, 'f) families \<Rightarrow> ('i \<Rightarrow> 'v option) \<Rightarrow> ('q \<Rightarrow> (computation_error + 'v) option)
    \<Rightarrow> ('q, 'i) request \<Rightarrow> (computation_error + 'v) option" where
  "resolve F inp ans r =
     (case r of
        InputRequest i \<Rightarrow> Some (case inp i of None \<Rightarrow> Inl (MissingInput (input_identity F i)) | Some v \<Rightarrow> Inr v)
      | QueryRequest q \<Rightarrow> ans q)"

fun answer :: "nat \<Rightarrow> ('q, 'i, 'v, 't, 'f) families \<Rightarrow> ('i \<Rightarrow> 'v option) \<Rightarrow> 'q \<Rightarrow> (computation_error + 'v) option" where
  "answer 0 F inp q = None"
| "answer (Suc n) F inp q = derive (resolve F inp (answer n F inp)) (execute F q)"

abbreviation reads :: "nat \<Rightarrow> ('q, 'i, 'v, 't, 'f) families \<Rightarrow> ('i \<Rightarrow> 'v option) \<Rightarrow> ('q, 'i) request
    \<Rightarrow> (computation_error + 'v) option" where
  "reads n F inp \<equiv> resolve F inp (answer n F inp)"

lemma derive_mono:
  "derive f p = Some x \<Longrightarrow> (\<And>r y. f r = Some y \<Longrightarrow> g r = Some y) \<Longrightarrow> derive g p = Some x"
proof (induction p)
  case (Request r k)
  then obtain y where y: "f r = Some y" "g r = Some y" by (cases "f r") auto
  with Request show ?case by (cases y) auto
qed simp

lemma answer_mono: "answer n F inp q = Some x \<Longrightarrow> n \<le> m \<Longrightarrow> answer m F inp q = Some x"
proof (induction n arbitrary: m q x)
  case (Suc n)
  then obtain k where m: "m = Suc k" "n \<le> k" by (cases m) auto
  have "derive (reads k F inp) (execute F q) = Some x"
    using Suc.prems(1) unfolding answer.simps
  proof (rule derive_mono)
    fix r y assume "reads n F inp r = Some y"
    then show "reads k F inp r = Some y" by (cases r) (simp_all add: resolve_def Suc.IH [OF _ m(2)])
  qed
  with m show ?case by simp
qed simp

text \<open>The value of a request, of a provider: what some depth of recursion yields.\<close>

definition resolves :: "('q, 'i, 'v, 't, 'f) families \<Rightarrow> ('i \<Rightarrow> 'v option) \<Rightarrow> ('q, 'i) request
    \<Rightarrow> computation_error + 'v \<Rightarrow> bool" where
  "resolves F inp r x \<longleftrightarrow> (\<exists>n. reads n F inp r = Some x)"

definition completes :: "('q, 'i, 'v, 't, 'f) families \<Rightarrow> ('i \<Rightarrow> 'v option) \<Rightarrow> ('q, 'i, 'v) provider
    \<Rightarrow> computation_error + 'v \<Rightarrow> bool" where
  "completes F inp p x \<longleftrightarrow> (\<exists>n. derive (reads n F inp) p = Some x)"

lemma reads_mono: "reads n F inp r = Some x \<Longrightarrow> n \<le> m \<Longrightarrow> reads m F inp r = Some x"
  by (auto simp: resolve_def intro: answer_mono split: request.splits)

lemma resolves_fun: "resolves F inp r x \<Longrightarrow> resolves F inp r y \<Longrightarrow> x = y"
  unfolding resolves_def by (metis (no_types) reads_mono nat_le_linear option.inject)

lemma derive_reads_mono: "derive (reads n F inp) p = Some x \<Longrightarrow> n \<le> m \<Longrightarrow> derive (reads m F inp) p = Some x"
  by (erule derive_mono) (erule (1) reads_mono)

lemma completes_fun: "completes F inp p x \<Longrightarrow> completes F inp p y \<Longrightarrow> x = y"
  unfolding completes_def by (metis derive_reads_mono nat_le_linear option.inject)

lemma completes_Finish [simp]: "completes F inp (Finish r) x \<longleftrightarrow> x = r"
  by (auto simp: completes_def)

lemma completes_fails: "resolves F inp r (Inl e) \<Longrightarrow> completes F inp (Request r k) (Inl e)"
  unfolding completes_def resolves_def derive.simps by (erule ex_forward) simp

lemma completes_goes_on:
  assumes "resolves F inp r (Inr v)" and "completes F inp (k v) x"
  shows "completes F inp (Request r k) x"
proof -
  from assms obtain n m where "reads n F inp r = Some (Inr v)" "derive (reads m F inp) (k v) = Some x"
    by (auto simp: resolves_def completes_def)
  then have "reads (max n m) F inp r = Some (Inr v)" "derive (reads (max n m) F inp) (k v) = Some x"
    by (auto intro: reads_mono derive_reads_mono)
  then have "derive (reads (max n m) F inp) (Request r k) = Some x" by simp
  then show ?thesis unfolding completes_def ..
qed

lemma resolves_query: "resolves F inp (QueryRequest q) x \<longleftrightarrow> completes F inp (execute F q) x"
proof
  assume "resolves F inp (QueryRequest q) x"
  then obtain n where n: "answer n F inp q = Some x" by (auto simp: resolves_def resolve_def)
  then show "completes F inp (execute F q) x" by (cases n) (auto simp: completes_def)
next
  assume "completes F inp (execute F q) x"
  then obtain n where "derive (reads n F inp) (execute F q) = Some x" by (auto simp: completes_def)
  then have "answer (Suc n) F inp q = Some x" by simp
  then show "resolves F inp (QueryRequest q) x" unfolding resolves_def resolve_def request.simps ..
qed

lemma resolves_input:
  "resolves F inp (InputRequest i) x \<longleftrightarrow>
     x = (case inp i of None \<Rightarrow> Inl (MissingInput (input_identity F i)) | Some v \<Rightarrow> Inr v)"
  by (auto simp: resolves_def resolve_def)

section \<open>Traces\<close>

text \<open>\<open>traced env p rs v\<close>: asked \<open>rs\<close> and answered by \<open>env\<close>, the provider \<open>p\<close> ends with \<open>v\<close>.\<close>

primrec traced :: "(('q, 'i) request \<Rightarrow> 'v) \<Rightarrow> ('q, 'i, 'v) provider \<Rightarrow> ('q, 'i) request list \<Rightarrow> 'v \<Rightarrow> bool" where
  "traced env (Finish r) rs v \<longleftrightarrow> rs = [] \<and> r = Inr v"
| "traced env (Request r k) rs v \<longleftrightarrow> (\<exists>rest. rs = r # rest \<and> traced env (k (env r)) rest v)"

lemma trace_completes:
  "traced env p rs v \<Longrightarrow> (\<And>r. r \<in> set rs \<Longrightarrow> resolves F inp r (Inr (env r))) \<Longrightarrow> completes F inp p (Inr v)"
  proof (induction p arbitrary: rs)
  case (Request r k)
  then obtain rest where rest: "rs = r # rest" "traced env (k (env r)) rest v" by auto
  with Request.IH [OF rangeI, OF rest(2)] Request.prems(2) show ?case by (auto intro: completes_goes_on)
qed simp

lemma trace_fails:
  "traced env p (rs1 @ r # rs2) v \<Longrightarrow> (\<And>x. x \<in> set rs1 \<Longrightarrow> resolves F inp x (Inr (env x))) \<Longrightarrow>
     resolves F inp r (Inl e) \<Longrightarrow> completes F inp p (Inl e)"
proof (induction rs1 arbitrary: p)
  case Nil
  then show ?case by (cases p) (auto intro: completes_fails)
next
  case (Cons x rs1)
  then show ?case by (cases p) (auto intro: completes_goes_on)
qed

lemma trace_reads:
  assumes "traced env p (rs1 @ r # rs2) v" and "\<And>x. x \<in> set rs1 \<Longrightarrow> resolves F inp x (Inr (env x))"
    and "derive (reads n F inp) p = Some y"
  shows "reads n F inp r \<noteq> None"
  using assms
proof (induction rs1 arbitrary: p)
  case Nil
  then show ?case by (cases p) (auto split: option.splits)
next
  case (Cons x rs1)
  then obtain k where p: "p = Request x k" "traced env (k (env x)) (rs1 @ r # rs2) v" by (cases p) auto
  with Cons.prems(3) obtain z where z: "reads n F inp x = Some z" by (cases "reads n F inp x") auto
  with Cons.prems(2) [of x] have "z = Inr (env x)" by (auto simp: resolves_def intro: resolves_fun [unfolded resolves_def])
  with z p Cons.prems(3) Cons.IH [of "k (env x)"] Cons.prems(2) show ?case by simp
qed

text \<open>The order in which requests first appear.\<close>

definition firsts :: "'a list \<Rightarrow> 'a list" where
  "firsts rs = rev (remdups (rev rs))"

lemma set_firsts [simp]: "set (firsts rs) = set rs"
  by (simp add: firsts_def)

lemma firsts_Nil [simp]: "firsts [] = []"
  by (simp add: firsts_def)

lemma firsts_snoc: "firsts (rs @ [r]) = (if r \<in> set rs then firsts rs else firsts rs @ [r])"
  by (simp add: firsts_def)

lemma firsts_split: "firsts rs = ds1 @ d # ds2 \<Longrightarrow> \<exists>rs1 rs2. rs = rs1 @ d # rs2 \<and> set rs1 \<subseteq> set ds1"
proof (induction rs arbitrary: ds2 rule: rev_induct)
  case (snoc r rs)
  show ?case
  proof (cases "r \<in> set rs")
    case True
    with snoc show ?thesis by (fastforce simp: firsts_snoc)
  next
    case False
    with snoc.prems have eq: "firsts rs @ [r] = ds1 @ d # ds2" by (simp add: firsts_snoc)
    show ?thesis
    proof (cases ds2 rule: rev_cases)
      case Nil
      with eq have "firsts rs = ds1" "r = d" by auto
      then show ?thesis by (metis set_firsts order_refl)
    next
      case (snoc ds x)
      with eq have "firsts rs = ds1 @ d # ds" by auto
      with \<open>\<And>ds2. firsts rs = ds1 @ d # ds2 \<Longrightarrow> _\<close> show ?thesis by fastforce
    qed
  qed
qed simp

end
