(* ===== verification/Computation_Invariant.thy ===== *)
theory Computation_Invariant
  imports Computation_Correct
begin

text \<open>
  The invariant of a computation database and its preservation by demand evaluation: a stored value was traced to the
  values its dependencies had, every dependency is stored and verified no earlier, and what is verified at the current
  revision is what evaluation from scratch yields.
\<close>

section \<open>Requests\<close>

text \<open>
  What the engine relies on: keys and type names identify the families, and fingerprints, which are digests of the
  values, tell different values of one type apart.
\<close>

definition families_ok :: "('q, 'i, 'v, 't, 'f) families \<Rightarrow> bool" where
  "families_ok F \<longleftrightarrow> inj (query_key F) \<and> inj (input_key F) \<and> (\<forall>t. inj (fingerprint_of F t))"

definition request_identity :: "('q, 'i, 'v, 't, 'f) families \<Rightarrow> ('q, 'i) request \<Rightarrow> computation_identity" where
  "request_identity F r = (case r of InputRequest i \<Rightarrow> input_identity F i | QueryRequest q \<Rightarrow> query_identity F q)"

definition request_type :: "('q, 'i, 'v, 't, 'f) families \<Rightarrow> ('q, 'i) request \<Rightarrow> 't" where
  "request_type F r = (case r of InputRequest i \<Rightarrow> input_type F i | QueryRequest q \<Rightarrow> query_type F q)"

lemma request_simps [simp]:
  "request_identity F (InputRequest i) = input_identity F i" "request_identity F (QueryRequest q) = query_identity F q"
  "request_type F (InputRequest i) = input_type F i" "request_type F (QueryRequest q) = query_type F q"
  by (simp_all add: request_identity_def request_type_def)

lemma request_identity_inject: "families_ok F \<Longrightarrow> request_identity F r = request_identity F s \<longleftrightarrow> r = s"
  by (cases r; cases s)
    (auto simp: input_identity_def query_identity_def families_ok_def dest: injD intro: injD prod_eqI)

definition dep_of :: "('q, 'i, 'v, 't, 'f) families \<Rightarrow> (('q, 'i) request \<Rightarrow> 'v) \<Rightarrow> ('q, 'i) request \<Rightarrow> 'f dependency" where
  "dep_of F env r = \<lparr>dep_identity = request_identity F r, dep_fingerprint = fingerprint_of F (request_type F r) (env r)\<rparr>"

definition inputs_of :: "('q, 'i, 'v, 't, 'f) families \<Rightarrow> ('q, 'v, 't, 'f) database \<Rightarrow> 'i \<Rightarrow> 'v option" where
  "inputs_of F db i = map_option (snd \<circ> entry_value) (entry_at db (input_identity F i))"

section \<open>The invariant\<close>

definition kind_fits :: "('q, 'i, 'v, 't, 'f) families \<Rightarrow> ('q, 'i) request \<Rightarrow> 'v \<Rightarrow> ('q, 'f) entry_kind \<Rightarrow> bool" where
  "kind_fits F r v k \<longleftrightarrow>
     (case r of
        InputRequest i \<Rightarrow> k = InputEntry (retention_of F i)
      | QueryRequest q \<Rightarrow> \<exists>env rs. k = QueryEntry q (map (dep_of F env) (firsts rs)) \<and> traced env (execute F q) rs v)"

definition entry_fits :: "('q, 'i, 'v, 't, 'f) families \<Rightarrow> ('q, 'i) request \<Rightarrow> ('q, 'v, 't, 'f) entry \<Rightarrow> bool" where
  "entry_fits F r e \<longleftrightarrow> fst (entry_value e) = request_type F r
     \<and> entry_fingerprint e = fingerprint_of F (request_type F r) (snd (entry_value e))
     \<and> kind_fits F r (snd (entry_value e)) (entry_kind e)"

definition dependencies_kept :: "('q, 'v, 't, 'f) database \<Rightarrow> ('q, 'v, 't, 'f) entry \<Rightarrow> bool" where
  "dependencies_kept db e \<longleftrightarrow> (\<forall>q ds d. entry_kind e = QueryEntry q ds \<longrightarrow> d \<in> set ds \<longrightarrow>
     (\<exists>e'. entry_at db (dep_identity d) = Some e' \<and> verified_at e \<le> verified_at e'))"

text \<open>What an entry verified at the current revision must be: its value, and every value it was traced to, is current.\<close>

definition grounded :: "('q, 'i, 'v, 't, 'f) families \<Rightarrow> ('i \<Rightarrow> 'v option) \<Rightarrow> ('q, 'i) request \<Rightarrow> 'v
    \<Rightarrow> ('q, 'f) entry_kind \<Rightarrow> bool" where
  "grounded F inp r v k \<longleftrightarrow>
     (case r of
        InputRequest i \<Rightarrow> inp i = Some v
      | QueryRequest q \<Rightarrow> \<exists>env rs. k = QueryEntry q (map (dep_of F env) (firsts rs)) \<and> traced env (execute F q) rs v
          \<and> (\<forall>x \<in> set rs. resolves F inp x (Inr (env x))))"

lemma grounded_resolves: "grounded F inp r v k \<Longrightarrow> resolves F inp r (Inr v)"
  by (cases r) (auto simp: grounded_def resolves_input resolves_query intro: trace_completes)

definition entry_ok :: "('q, 'i, 'v, 't, 'f) families \<Rightarrow> ('q, 'v, 't, 'f) database \<Rightarrow> computation_identity
    \<Rightarrow> ('q, 'v, 't, 'f) entry \<Rightarrow> bool" where
  "entry_ok F db identity e \<longleftrightarrow> (\<exists>r. identity = request_identity F r \<and> entry_fits F r e
     \<and> verified_at e \<le> db_revision db \<and> dependencies_kept db e
     \<and> (verified_at e = db_revision db \<longrightarrow> grounded F (inputs_of F db) r (snd (entry_value e)) (entry_kind e)))"

definition db_ok :: "('q, 'i, 'v, 't, 'f) families \<Rightarrow> ('q, 'v, 't, 'f) database \<Rightarrow> bool" where
  "db_ok F db \<longleftrightarrow> bt_sorted (db_entries db) \<and> (\<forall>identity e. entry_at db identity = Some e \<longrightarrow> entry_ok F db identity e)"

lemma db_okD:
  assumes "families_ok F" and "db_ok F db" and "entry_at db (request_identity F r) = Some e"
  shows "entry_fits F r e" and "verified_at e \<le> db_revision db" and "dependencies_kept db e"
    and "verified_at e = db_revision db \<Longrightarrow> resolves F (inputs_of F db) r (Inr (snd (entry_value e)))"
    and "verified_at e = db_revision db \<Longrightarrow> grounded F (inputs_of F db) r (snd (entry_value e)) (entry_kind e)"
proof -
  from assms(2,3) have "entry_ok F db (request_identity F r) e" by (simp add: db_ok_def)
  then obtain s where "request_identity F r = request_identity F s" and ok: "entry_fits F s e" "verified_at e \<le> db_revision db"
    "dependencies_kept db e" "verified_at e = db_revision db \<Longrightarrow> grounded F (inputs_of F db) s (snd (entry_value e)) (entry_kind e)"
    by (auto simp: entry_ok_def)
  then have "s = r" using request_identity_inject [OF assms(1)] by simp
  with ok show "entry_fits F r e" "verified_at e \<le> db_revision db" "dependencies_kept db e"
    "verified_at e = db_revision db \<Longrightarrow> grounded F (inputs_of F db) r (snd (entry_value e)) (entry_kind e)" by simp_all
  then show "verified_at e = db_revision db \<Longrightarrow> resolves F (inputs_of F db) r (Inr (snd (entry_value e)))"
    by (blast intro: grounded_resolves)
qed

text \<open>Evaluation changes entries only to ones verified now, and no input.\<close>

definition evolves :: "('q, 'i, 'v, 't, 'f) families \<Rightarrow> ('q, 'v, 't, 'f) database \<Rightarrow> ('q, 'v, 't, 'f) database \<Rightarrow> bool" where
  "evolves F db db' \<longleftrightarrow> db_ok F db' \<and> db_revision db' = db_revision db \<and> inputs_of F db' = inputs_of F db
     \<and> (\<forall>identity. entry_at db' identity = entry_at db identity
          \<or> (\<exists>e. entry_at db' identity = Some e \<and> verified_at e = db_revision db))"

lemma evolves_refl: "db_ok F db \<Longrightarrow> evolves F db db"
  by (simp add: evolves_def)

lemma evolves_trans: "evolves F a b \<Longrightarrow> evolves F b c \<Longrightarrow> evolves F a c"
  unfolding evolves_def by metis

lemma evolves_ok: "evolves F a b \<Longrightarrow> db_ok F b"
  by (simp add: evolves_def)

lemma evolves_same: "evolves F a b \<Longrightarrow> inputs_of F b = inputs_of F a" "evolves F a b \<Longrightarrow> db_revision b = db_revision a"
  by (simp_all add: evolves_def)

lemma evolves_keeps: "evolves F a b \<Longrightarrow> entry_at a identity \<noteq> None \<Longrightarrow> entry_at b identity \<noteq> None"
  unfolding evolves_def by (metis option.distinct(1))

definition fresh :: "('q, 'i, 'v, 't, 'f) families \<Rightarrow> ('q, 'v, 't, 'f) database \<Rightarrow> ('q, 'i) request \<Rightarrow> 'v \<Rightarrow> bool" where
  "fresh F db r v \<longleftrightarrow> (\<exists>e. entry_at db (request_identity F r) = Some e \<and> verified_at e = db_revision db
     \<and> entry_value e = (request_type F r, v))"

lemma fresh_resolves: "families_ok F \<Longrightarrow> db_ok F db \<Longrightarrow> fresh F db r v \<Longrightarrow> resolves F (inputs_of F db) r (Inr v)"
  using db_okD(4) by (fastforce simp: fresh_def)

lemma fresh_evolves:
  assumes "families_ok F" and "db_ok F a" and "evolves F a b" and "fresh F a r v"
  shows "fresh F b r v"
proof -
  from assms(4) obtain e where e: "entry_at a (request_identity F r) = Some e" "verified_at e = db_revision a"
    "entry_value e = (request_type F r, v)" by (auto simp: fresh_def)
  with assms(3) obtain e' where e': "entry_at b (request_identity F r) = Some e'" "verified_at e' = db_revision b"
    unfolding evolves_def by metis
  from db_okD [OF assms(1) evolves_ok [OF assms(3)] e'(1)] e'(2)
  have "fst (entry_value e') = request_type F r" "resolves F (inputs_of F b) r (Inr (snd (entry_value e')))"
    by (auto simp: entry_fits_def)
  moreover have "resolves F (inputs_of F b) r (Inr v)"
    using fresh_resolves [OF assms(1,2,4)] evolves_same [OF assms(3)] by simp
  ultimately show ?thesis using e' by (auto simp: fresh_def prod_eq_iff dest: resolves_fun)
qed

text \<open>Entries verified now may be added.\<close>

lemma put_fresh:
  assumes "families_ok F" and "db_ok F db" and "entry_fits F r e" and "verified_at e = db_revision db"
    and "dependencies_kept db e" and "grounded F (inputs_of F db) r (snd (entry_value e)) (entry_kind e)"
    and "db_entries db' = bt_insert (request_identity F r) e (db_entries db)" and "db_revision db' = db_revision db"
  shows "evolves F db db'" and "fresh F db' r (snd (entry_value e))"
proof -
  have at: "entry_at db' identity = (if identity = request_identity F r then Some e else entry_at db identity)" for identity
    using assms(2,7) by (simp add: bt_get_insert db_ok_def)
  have inp: "inputs_of F db' = inputs_of F db"
  proof
    fix i
    show "inputs_of F db' i = inputs_of F db i"
    proof (cases "r = InputRequest i")
      case True
      with at [of "input_identity F i"] have "inputs_of F db' i = Some (snd (entry_value e))" by (simp add: inputs_of_def)
      with assms(6) True show ?thesis by (simp add: grounded_def)
    next
      case False
      then have "input_identity F i \<noteq> request_identity F r"
        using request_identity_inject [OF assms(1), of "InputRequest i" r] by auto
      with at [of "input_identity F i"] show ?thesis by (simp add: inputs_of_def)
    qed
  qed
  have kept: "dependencies_kept db' e'" if "dependencies_kept db e'" "verified_at e' \<le> db_revision db" for e'
    using that assms(4) unfolding dependencies_kept_def at by (metis option.inject)
  have ok: "entry_ok F db' identity e'" if "entry_at db' identity = Some e'" for identity e'
  proof (cases "identity = request_identity F r")
    case True
    with that at have "e' = e" by simp
    with True assms(3-6,8) kept inp show ?thesis by (auto simp: entry_ok_def)
  next
    case False
    with that at have "entry_at db identity = Some e'" by simp
    with assms(2) obtain s where s: "identity = request_identity F s" "entry_at db (request_identity F s) = Some e'"
      by (auto simp: db_ok_def entry_ok_def)
    from db_okD [OF assms(1,2) s(2)] s(1) kept assms(8) inp show ?thesis by (auto simp: entry_ok_def)
  qed
  moreover have "bt_sorted (db_entries db')" using assms(2,7) by (simp add: bt_sorted_insert db_ok_def)
  ultimately have "db_ok F db'" by (simp add: db_ok_def)
  with at inp assms(4,8) show "evolves F db db'" by (auto simp: evolves_def)
  show "fresh F db' r (snd (entry_value e))"
    using assms(3,4,8) by (auto simp: fresh_def at entry_fits_def prod_eq_iff)
qed

lemma inputs_cong: "db_entries c = db_entries b \<Longrightarrow> inputs_of F c = inputs_of F b"
  by (simp add: inputs_of_def fun_eq_iff)

lemma db_ok_cong: "db_entries db' = db_entries db \<Longrightarrow> db_revision db' = db_revision db \<Longrightarrow> db_ok F db' \<longleftrightarrow> db_ok F db"
  using inputs_cong [of db' db F] by (simp add: db_ok_def entry_ok_def dependencies_kept_def)

lemma evolves_cong:
  "db_entries c = db_entries b \<Longrightarrow> db_revision c = db_revision b \<Longrightarrow> evolves F a c \<longleftrightarrow> evolves F a b"
  using db_ok_cong [of c b F] inputs_cong [of c b F] by (simp add: evolves_def)

lemma fresh_cong: "db_entries c = db_entries b \<Longrightarrow> db_revision c = db_revision b \<Longrightarrow> fresh F c r v \<longleftrightarrow> fresh F b r v"
  by (simp add: fresh_def)

end
