(* ===== verification/Computation_Sound.thy ===== *)
theory Computation_Sound
  imports Computation_Invariant
begin

text \<open>
  Whatever demand evaluation returns is right: by induction on its depth, each method keeps the invariant, and its
  result is what evaluation from scratch yields, or a cycle.
\<close>

section \<open>Contracts\<close>

fun is_cycle :: "computation_error \<Rightarrow> bool" where
  "is_cycle (Cycle path) \<longleftrightarrow> True"
| "is_cycle _ \<longleftrightarrow> False"

definition fails :: "('q, 'i, 'v, 't, 'f) families \<Rightarrow> ('q, 'v, 't, 'f) database \<Rightarrow> ('q, 'i) request \<Rightarrow> computation_error
    \<Rightarrow> bool" where
  "fails F db r e \<longleftrightarrow> is_cycle e \<or> resolves F (inputs_of F db) r (Inl e)"

text \<open>A result that evolves the database and leaves the stack as it was, with a condition on each outcome.\<close>

definition settles :: "('q, 'i, 'v, 't, 'f) families \<Rightarrow> ('q, 'v, 't, 'f) database
    \<Rightarrow> ('a \<Rightarrow> ('q, 'v, 't, 'f) database \<Rightarrow> bool) \<Rightarrow> (computation_error \<Rightarrow> bool) \<Rightarrow> ('q, 'v, 't, 'f, 'a) outcome \<Rightarrow> bool" where
  "settles F db Q E x \<longleftrightarrow> (\<forall>res db'. x = Some (res, db') \<longrightarrow> evolves F db db' \<and> db_evaluations db' = db_evaluations db
     \<and> (case res of Inr v \<Rightarrow> Q v db' | Inl e \<Rightarrow> E e))"

definition ensures :: "('q, 'i, 'v, 't, 'f) families
    \<Rightarrow> (computation_identity \<Rightarrow> ('q, 'v, 't, 'f) database \<Rightarrow> ('q, 'v, 't, 'f, 'f) outcome) \<Rightarrow> bool" where
  "ensures F ens \<longleftrightarrow> (\<forall>r db. db_ok F db \<longrightarrow> (\<forall>q. r = QueryRequest q \<longrightarrow> entry_at db (request_identity F r) \<noteq> None) \<longrightarrow>
     settles F db (\<lambda>fp db'. \<exists>v. fresh F db' r v \<and> fp = fingerprint_of F (request_type F r) v) (fails F db r)
       (ens (request_identity F r) db))"

definition evaluates :: "('q, 'i, 'v, 't, 'f) families
    \<Rightarrow> ('q \<Rightarrow> ('q, 'v, 't, 'f) database \<Rightarrow> ('q, 'v, 't, 'f, unit) outcome) \<Rightarrow> bool" where
  "evaluates F ev \<longleftrightarrow> (\<forall>q db. db_ok F db \<longrightarrow>
     settles F db (\<lambda>_ db'. \<exists>v. fresh F db' (QueryRequest q) v) (fails F db (QueryRequest q)) (ev q db))"

lemma ensuresD:
  assumes "ensures F ens" and "db_ok F db" and "\<And>q. r = QueryRequest q \<Longrightarrow> entry_at db (request_identity F r) \<noteq> None"
  shows "settles F db (\<lambda>fp db'. \<exists>v. fresh F db' r v \<and> fp = fingerprint_of F (request_type F r) v) (fails F db r)
    (ens (request_identity F r) db)"
  by (rule assms(1) [unfolded ensures_def, rule_format]) (use assms(2,3) in auto)

text \<open>A read also records its dependency.\<close>

definition recorded :: "('q, 'i, 'v, 't, 'f) families \<Rightarrow> ('q, 'i) request \<Rightarrow> 'v \<Rightarrow> ('q, 'v, 't, 'f) database
    \<Rightarrow> 'f evaluation_frame list" where
  "recorded F r v db = db_evaluations (record_dependency (request_identity F r)
     (fingerprint_of F (request_type F r) v) db)"

definition serves :: "('q, 'i, 'v, 't, 'f) families
    \<Rightarrow> (('q, 'i) request \<Rightarrow> ('q, 'v, 't, 'f) database \<Rightarrow> ('q, 'v, 't, 'f, 'v) outcome) \<Rightarrow> bool" where
  "serves F read \<longleftrightarrow> (\<forall>r db res db'. db_ok F db \<longrightarrow> read r db = Some (res, db') \<longrightarrow> evolves F db db'
     \<and> (case res of
          Inr v \<Rightarrow> fresh F db' r v \<and> db_evaluations db' = recorded F r v db
        | Inl e \<Rightarrow> fails F db r e \<and> db_evaluations db' = db_evaluations db))"

lemma fails_evolves: "evolves F a b \<Longrightarrow> fails F b r e \<longleftrightarrow> fails F a r e"
  by (simp add: fails_def evolves_same)

lemma settles_bind:
  assumes "settles F db Q E x"
    and "\<And>v db'. Q v db' \<Longrightarrow> evolves F db db' \<Longrightarrow> db_evaluations db' = db_evaluations db \<Longrightarrow>
      settles F db' Q' E' (f v db')"
    and "\<And>e. E e \<Longrightarrow> E' e"
  shows "settles F db Q' E' (bind_ok x f)"
proof (cases x)
  case (Some y)
  obtain r db' where y: "y = (r, db')" by fastforce
  show ?thesis
  proof (cases r)
    case (Inr v)
    with assms(1) Some y have "Q v db'" "evolves F db db'" "db_evaluations db' = db_evaluations db"
      by (auto simp: settles_def)
    with assms(2) [OF this] Some y Inr show ?thesis
      unfolding settles_def bind_ok_def by (auto intro: evolves_trans)
  qed (use assms Some y in \<open>auto simp: settles_def bind_ok_def\<close>)
qed (simp add: settles_def bind_ok_def)

lemma settles_return:
  "evolves F db db' \<Longrightarrow> db_evaluations db' = db_evaluations db \<Longrightarrow> (\<And>v. r = Inr v \<Longrightarrow> Q v db') \<Longrightarrow>
    (\<And>e. r = Inl e \<Longrightarrow> E e) \<Longrightarrow> settles F db Q E (Some (r, db'))"
  by (auto simp: settles_def split: sum.splits)

lemma settles_mono:
  "settles F db Q E x \<Longrightarrow> (\<And>v db'. Q v db' \<Longrightarrow> evolves F db db' \<Longrightarrow> Q' v db') \<Longrightarrow> (\<And>e. E e \<Longrightarrow> E' e) \<Longrightarrow>
    settles F db Q' E' x"
  by (auto simp: settles_def split: sum.splits)

section \<open>Validation\<close>

lemma check_dependencies_ok:
  assumes "families_ok F" and "ensures F ens" and "db_ok F db"
    and "\<And>r. r \<in> set ds \<Longrightarrow> entry_at db (request_identity F r) \<noteq> None"
  shows "settles F db (\<lambda>dirty db'. dirty \<or> (\<forall>r \<in> set ds. fresh F db' r (env r)))
    (\<lambda>e. is_cycle e \<or> (\<exists>ds1 r ds2. ds = ds1 @ r # ds2 \<and> (\<forall>x \<in> set ds1. resolves F (inputs_of F db) x (Inr (env x)))
        \<and> resolves F (inputs_of F db) r (Inl e)))
    (check_dependencies ens (map (dep_of F env) ds) db)"
  using assms(3,4)
proof (induction ds arbitrary: db)
  case Nil
  then show ?case by (auto intro!: settles_return evolves_refl)
next
  case (Cons d ds)
  from assms(2) Cons.prems(1) Cons.prems(2) [of d] have first: "settles F db (\<lambda>fp db'. \<exists>v. fresh F db' d v \<and> fp = fingerprint_of F (request_type F d) v)
    (fails F db d) (ens (request_identity F d) db)"
    by (intro ensuresD) auto
  show ?case
    unfolding list.map check_dependencies.simps
  proof (rule settles_bind)
    show "settles F db (\<lambda>fp db'. \<exists>v. fresh F db' d v \<and> fp = fingerprint_of F (request_type F d) v)
      (fails F db d) (ens (dep_identity (dep_of F env d)) db)" using first by (simp add: dep_of_def)
  next
    fix e assume "fails F db d e"
    then show "is_cycle e \<or> (\<exists>ds1 r ds2. d # ds = ds1 @ r # ds2
        \<and> (\<forall>x \<in> set ds1. resolves F (inputs_of F db) x (Inr (env x))) \<and> resolves F (inputs_of F db) r (Inl e))"
      unfolding fails_def by (metis append_Nil empty_iff list.set(1))
  next
    fix fp db' assume got: "\<exists>v. fresh F db' d v \<and> fp = fingerprint_of F (request_type F d) v" and ev: "evolves F db db'"
    note ok = evolves_ok [OF ev] and same = evolves_same [OF ev]
    show "settles F db' (\<lambda>dirty db'. dirty \<or> (\<forall>r \<in> set (d # ds). fresh F db' r (env r)))
      (\<lambda>e. is_cycle e \<or> (\<exists>ds1 r ds2. d # ds = ds1 @ r # ds2
        \<and> (\<forall>x \<in> set ds1. resolves F (inputs_of F db) x (Inr (env x))) \<and> resolves F (inputs_of F db) r (Inl e)))
      (if fp \<noteq> dep_fingerprint (dep_of F env d) then Some (Inr True, db')
       else check_dependencies ens (map (dep_of F env) ds) db')"
    proof (cases "fp = dep_fingerprint (dep_of F env d)")
      case True
      with got assms(1) have d: "fresh F db' d (env d)"
        by (auto simp: dep_of_def families_ok_def dest: injD)
      have res: "resolves F (inputs_of F db) d (Inr (env d))" using fresh_resolves [OF assms(1) ok d] same by simp
      have rest: "settles F db' (\<lambda>dirty db'. dirty \<or> (\<forall>r \<in> set ds. fresh F db' r (env r)))
        (\<lambda>e. is_cycle e \<or> (\<exists>ds1 r ds2. ds = ds1 @ r # ds2 \<and> (\<forall>x \<in> set ds1. resolves F (inputs_of F db') x (Inr (env x)))
          \<and> resolves F (inputs_of F db') r (Inl e)))
        (check_dependencies ens (map (dep_of F env) ds) db')"
        using Cons.prems(2) evolves_keeps [OF ev] by (intro Cons.IH ok) auto
      have wider: "\<exists>ds1' r' ds2'. d # ds = ds1' @ r' # ds2' \<and> (\<forall>x \<in> set ds1'. resolves F (inputs_of F db) x (Inr (env x)))
          \<and> resolves F (inputs_of F db) r' (Inl e)"
        if "ds = ds1 @ r # ds2" "\<forall>x \<in> set ds1. resolves F (inputs_of F db) x (Inr (env x))"
          "resolves F (inputs_of F db) r (Inl e)" for e ds1 r ds2
        using that res by (intro exI [of _ "d # ds1"]) auto
      have "settles F db' (\<lambda>dirty db'. dirty \<or> (\<forall>r \<in> set (d # ds). fresh F db' r (env r)))
        (\<lambda>e. is_cycle e \<or> (\<exists>ds1 r ds2. d # ds = ds1 @ r # ds2
          \<and> (\<forall>x \<in> set ds1. resolves F (inputs_of F db) x (Inr (env x))) \<and> resolves F (inputs_of F db) r (Inl e)))
        (check_dependencies ens (map (dep_of F env) ds) db')"
        using rest
      proof (rule settles_mono)
        fix dirty db'' assume "dirty \<or> (\<forall>r \<in> set ds. fresh F db'' r (env r))" and "evolves F db' db''"
        with fresh_evolves [OF assms(1) ok _ d] show "dirty \<or> (\<forall>r \<in> set (d # ds). fresh F db'' r (env r))" by auto
      qed (use wider same in auto)
      with True show ?thesis by simp
    qed (auto intro!: settles_return evolves_refl ok)
  qed
qed

section \<open>Providers\<close>

text \<open>The value of a request at the inputs of a database, where it has one.\<close>

definition current_value :: "('q, 'i, 'v, 't, 'f) families \<Rightarrow> ('q, 'v, 't, 'f) database \<Rightarrow> ('q, 'i) request \<Rightarrow> 'v" where
  "current_value F db r = (THE v. resolves F (inputs_of F db) r (Inr v))"

lemma current_value_eq: "resolves F (inputs_of F db) r (Inr v) \<Longrightarrow> current_value F db r = v"
  unfolding current_value_def by (rule the_equality) (auto dest: resolves_fun)

lemma dep_of_identity [simp]: "dep_identity (dep_of F env r) = request_identity F r"
  by (simp add: dep_of_def)

lemma recorded_frame:
  assumes "families_ok F" and "db_evaluations db = fs @ [f]" and "frame_dependencies f = map (dep_of F env) (firsts rs)"
  shows "recorded F r (env r) db = fs @ [f\<lparr>frame_dependencies := map (dep_of F env) (firsts (rs @ [r]))\<rparr>]"
proof -
  have "(\<exists>d \<in> set (frame_dependencies f). dep_identity d = request_identity F r) \<longleftrightarrow> r \<in> set rs"
    using assms(3) request_identity_inject [OF assms(1)] by auto
  with assms(2,3) show ?thesis
    by (auto simp: recorded_def record_dependency_def Let_def firsts_snoc dep_of_def simp flip: assms(3))
qed

lemma run_provider_ok:
  assumes "families_ok F" and "serves F read" and "db_ok F db" and "db_evaluations db = fs @ [f]"
    and "frame_dependencies f = map (dep_of F env) (firsts rs)" and "\<And>r. r \<in> set rs \<Longrightarrow> fresh F db r (env r)"
    and "env = current_value F db"
    and "run_provider read p db = Some (res, db')"
  shows "evolves F db db' \<and> (\<exists>rs'.
     db_evaluations db' = fs @ [f\<lparr>frame_dependencies := map (dep_of F env) (firsts (rs @ rs'))\<rparr>]
     \<and> (\<forall>r \<in> set (rs @ rs'). fresh F db' r (env r))
     \<and> (case res of Inr v \<Rightarrow> traced env p rs' v | Inl e \<Rightarrow> is_cycle e \<or> completes F (inputs_of F db) p (Inl e)))"
  using assms(3-)
proof (induction p arbitrary: db f rs)
  case (Finish r)
  then show ?case by (auto intro!: exI [of _ "[]"] simp: evolves_refl split: sum.splits)
next
  case (Request r k)
  obtain y db1 where y: "read r db = Some (y, db1)"
    using Request.prems(6) by (cases "read r db") (auto simp: bind_ok_def)
  have ev: "evolves F db db1" and post: "case y of Inr v \<Rightarrow> fresh F db1 r v \<and> db_evaluations db1 = recorded F r v db
      | Inl e \<Rightarrow> fails F db r e \<and> db_evaluations db1 = db_evaluations db"
    using assms(2) Request.prems(1) y unfolding serves_def by blast+
  have old: "fresh F db1 x (env x)" if "x \<in> set rs" for x
    using fresh_evolves [OF assms(1) Request.prems(1) ev] Request.prems(4) that by simp
  show ?case
  proof (cases y)
    case (Inl e)
    with y Request.prems(6) have res: "res = Inl e" "db' = db1" by (simp_all add: bind_ok_def)
    moreover have "is_cycle e \<or> completes F (inputs_of F db) (Request r k) (Inl e)"
      using post Inl by (auto simp: fails_def intro: completes_fails)
    ultimately show ?thesis
      using ev post Inl old Request.prems(2,3) by (intro conjI exI [of _ "[]"]) auto
  next
    case (Inr v)
    with post have v: "fresh F db1 r v" and rec: "db_evaluations db1 = recorded F r v db" by simp_all
    from fresh_resolves [OF assms(1) evolves_ok [OF ev] v] have res: "resolves F (inputs_of F db) r (Inr v)"
      using evolves_same [OF ev] by simp
    with Request.prems(5) have env: "env r = v" by (simp add: current_value_eq)
    let ?f = "f\<lparr>frame_dependencies := map (dep_of F env) (firsts (rs @ [r]))\<rparr>"
    have stack: "db_evaluations db1 = fs @ [?f]"
      using recorded_frame [OF assms(1) Request.prems(2,3), of r] rec env by simp
    have go: "run_provider read (k v) db1 = Some (res, db')" using Request.prems(6) y Inr by (simp add: bind_ok_def)
    have cur: "env = current_value F db1"
      by (rule ext) (simp add: Request.prems(5) current_value_def evolves_same(1) [OF ev])
    have deps: "frame_dependencies ?f = map (dep_of F env) (firsts (rs @ [r]))" by simp
    have fr1: "fresh F db1 x (env x)" if "x \<in> set (rs @ [r])" for x using that old v env by auto
    from Request.IH [OF rangeI evolves_ok [OF ev] stack deps fr1 cur go]
    obtain rs' where ev': "evolves F db1 db'"
      and st: "db_evaluations db' = fs @ [?f\<lparr>frame_dependencies := map (dep_of F env) (firsts ((rs @ [r]) @ rs'))\<rparr>]"
      and fr: "\<forall>x \<in> set ((rs @ [r]) @ rs'). fresh F db' x (env x)"
      and tr: "case res of Inr w \<Rightarrow> traced env (k v) rs' w | Inl e \<Rightarrow> is_cycle e \<or> completes F (inputs_of F db1) (k v) (Inl e)"
      by auto
    show ?thesis
    proof (intro conjI exI [of _ "r # rs'"])
      show "evolves F db db'" using ev ev' by (rule evolves_trans)
      show "case res of Inr w \<Rightarrow> traced env (Request r k) (r # rs') w
        | Inl e \<Rightarrow> is_cycle e \<or> completes F (inputs_of F db) (Request r k) (Inl e)"
        using tr env completes_goes_on [OF res] evolves_same [OF ev] by (auto split: sum.splits)
    qed (use st fr in auto)
  qed
qed

section \<open>Steps\<close>

lemma begin_evaluation_cases:
  obtains (cycle) path where "begin_evaluation i db = Inl (Cycle path)"
  | (begun) "begin_evaluation i db =
      Inr (db\<lparr>db_evaluations := db_evaluations db @ [\<lparr>frame_identity = i, frame_dependencies = []\<rparr>]\<rparr>)"
  by (cases "position (\<lambda>f. frame_identity f = i) (db_evaluations db)") (auto simp: begin_evaluation_def)

lemma evaluate_ok:
  assumes "families_ok F" and "serves F read"
  shows "evaluates F (evaluate read F)"
  unfolding evaluates_def
proof (intro allI impI)
  fix q db assume ok: "db_ok F db"
  let ?i = "query_identity F q"
  let ?f = "\<lparr>frame_identity = ?i, frame_dependencies = []\<rparr>"
  let ?db = "db\<lparr>db_evaluations := db_evaluations db @ [?f]\<rparr>"
  show "settles F db (\<lambda>_ db'. \<exists>v. fresh F db' (QueryRequest q) v) (fails F db (QueryRequest q)) (evaluate read F q db)"
  proof (cases rule: begin_evaluation_cases [of ?i db])
    case (cycle path)
    then show ?thesis using ok by (auto simp: evaluate_def fails_def intro!: settles_return evolves_refl)
  next
    case begun
    show ?thesis
    proof (cases "run_provider read (execute F q) ?db")
      case None
      with begun show ?thesis by (simp add: evaluate_def settles_def)
    next
      case (Some x)
      obtain res db1 where x: "x = (res, db1)" by fastforce
      have ok': "db_ok F ?db" using ok db_ok_cong [of ?db db F] by simp
      define env where "env = current_value F ?db"
      from run_provider_ok [OF assms ok' _ _ _ env_def, of "db_evaluations db" ?f "[]" "execute F q" res db1] Some x
      obtain rs where ev: "evolves F ?db db1"
        and st: "db_evaluations db1 = db_evaluations db @ [?f\<lparr>frame_dependencies := map (dep_of F env) (firsts rs)\<rparr>]"
        and fr: "\<forall>r \<in> set rs. fresh F db1 r (env r)"
        and tr: "case res of Inr v \<Rightarrow> traced env (execute F q) rs v
          | Inl e \<Rightarrow> is_cycle e \<or> completes F (inputs_of F ?db) (execute F q) (Inl e)"
        by auto
      let ?db1 = "db1\<lparr>db_evaluations := db_evaluations db\<rparr>"
      have inp: "inputs_of F ?db = inputs_of F db" using inputs_cong [of ?db db F] by simp
      have ev1: "evolves F db ?db1"
        using ev inp evolves_cong [of ?db1 db1 F db] by (auto simp: evolves_def)
      have ended: "end_evaluation ?i db1 = Some (map (dep_of F env) (firsts rs), ?db1)"
        using st by (simp add: end_evaluation_def)
      show ?thesis
      proof (cases res)
        case (Inl e)
        with tr inp have "fails F db (QueryRequest q) e" by (simp add: fails_def resolves_query)
        with Inl begun Some x ended ev1 show ?thesis by (auto simp: evaluate_def intro!: settles_return)
      next
        case (Inr v)
        let ?e = "\<lparr>entry_value = (query_type F q, v), entry_fingerprint = fingerprint_of F (query_type F q) v,
          verified_at = db_revision ?db1, entry_kind = QueryEntry q (map (dep_of F env) (firsts rs))\<rparr>"
        let ?db2 = "store_query F q v (map (dep_of F env) (firsts rs)) ?db1"
        have trace: "traced env (execute F q) rs v" using tr Inr by simp
        have res_rs: "resolves F (inputs_of F ?db1) r (Inr (env r))" if "r \<in> set rs" for r
          using fresh_resolves [OF assms(1) evolves_ok [OF ev1], of r "env r"] fr that fresh_cong [of ?db1 db1 F r "env r"]
          by simp
        have fits: "entry_fits F (QueryRequest q) ?e" using trace by (auto simp: entry_fits_def kind_fits_def)
        have kept: "dependencies_kept ?db1 ?e" using fr by (fastforce simp: dependencies_kept_def fresh_def)
        have ans: "grounded F (inputs_of F ?db1) (QueryRequest q) (snd (entry_value ?e)) (entry_kind ?e)"
          using trace res_rs by (auto simp: grounded_def)
        have entries: "db_entries ?db2 = bt_insert (request_identity F (QueryRequest q)) ?e (db_entries ?db1)"
          "db_revision ?db2 = db_revision ?db1" by (simp_all add: store_query_def put_entry_def)
        note put = put_fresh [OF assms(1) evolves_ok [OF ev1] fits _ kept ans entries]
        have "evolves F ?db1 ?db2" "fresh F ?db2 (QueryRequest q) v" using put by simp_all
        moreover have "db_evaluations ?db2 = db_evaluations db" by (simp add: store_query_def put_entry_def)
        ultimately show ?thesis
          using Inr begun Some x ended ev1 by (auto simp: evaluate_def intro!: settles_return intro: evolves_trans)
      qed
    qed
  qed
qed

lemma stored_fresh:
  assumes "families_ok F" and "db_ok F db" and "fresh F db r v"
  shows "stored_fingerprint (request_identity F r) db = Inr (fingerprint_of F (request_type F r) v)"
    and "stored_value (request_type F r) (request_identity F r) db = Inr v"
  using assms(3) db_okD(1) [OF assms(1,2)]
  by (fastforce simp: fresh_def stored_fingerprint_def stored_value_def entry_fits_def)+

lemma revisit:
  assumes "families_ok F" and "db_ok F db" and "entry_at db (request_identity F r) = Some e"
    and "dependencies_kept db (e\<lparr>verified_at := db_revision db\<rparr>)"
    and "grounded F (inputs_of F db) r (snd (entry_value e)) (entry_kind e)"
    and "db_entries db' = bt_insert (request_identity F r) (e\<lparr>verified_at := db_revision db\<rparr>) (db_entries db)"
    and "db_revision db' = db_revision db"
  shows "evolves F db db'" and "fresh F db' r (snd (entry_value e))"
proof -
  let ?e = "e\<lparr>verified_at := db_revision db\<rparr>"
  have fits: "entry_fits F r ?e" using db_okD(1) [OF assms(1-3)] by (simp add: entry_fits_def)
  note put = put_fresh [OF assms(1,2) fits _ assms(4) _ assms(6,7)]
  from put assms(5) show "evolves F db db'" "fresh F db' r (snd (entry_value e))" by simp_all
qed

lemma ensure_input_ok:
  assumes "families_ok F" and "db_ok F db"
  shows "settles F db (\<lambda>fp db'. \<exists>v. fresh F db' (InputRequest i) v \<and> fp = fingerprint_of F (input_type F i) v)
    (fails F db (InputRequest i)) (ensure_step ens ev (input_identity F i) db)"
proof (cases "entry_at db (input_identity F i)")
  case None
  then show ?thesis
    by (auto simp: ensure_step_def fails_def resolves_input inputs_of_def intro!: settles_return evolves_refl assms(2))
next
  case (Some e)
  then have at: "entry_at db (request_identity F (InputRequest i)) = Some e" by simp
  note e = db_okD [OF assms at]
  have res: "grounded F (inputs_of F db) (InputRequest i) (snd (entry_value e)) (entry_kind e)"
    using at by (simp add: grounded_def inputs_of_def)
  show ?thesis
  proof (cases "verified_at e = db_revision db")
    case True
    with Some e(1) show ?thesis
      by (auto simp: ensure_step_def fresh_def entry_fits_def prod_eq_iff intro!: settles_return evolves_refl assms(2))
  next
    case False
    have kind: "entry_kind e = InputEntry (retention_of F i)" using e(1) by (simp add: entry_fits_def kind_fits_def)
    then have kept: "dependencies_kept db (e\<lparr>verified_at := db_revision db\<rparr>)" by (simp add: dependencies_kept_def)
    let ?db = "put_entry (input_identity F i) (e\<lparr>verified_at := db_revision db\<rparr>) db"
    have "evolves F db ?db" "fresh F ?db (InputRequest i) (snd (entry_value e))"
      by (rule revisit [OF assms at kept res]; simp add: put_entry_def)+
    moreover have "db_evaluations ?db = db_evaluations db" by (simp add: put_entry_def)
    ultimately show ?thesis
      using Some False kind e(1) by (auto simp: ensure_step_def entry_fits_def intro!: settles_return)
  qed
qed

lemma mark_clean:
  assumes "families_ok F" and "db_ok F db" and "entry_at db (query_identity F q) = Some e"
    and "entry_kind e = QueryEntry q (map (dep_of F env) (firsts rs))" and "traced env (execute F q) rs (snd (entry_value e))"
    and "evolves F db db1" and "\<forall>r \<in> set (firsts rs). fresh F db1 r (env r)"
  obtains db' v where "mark_verified (query_identity F q) db1 = Inr db'" and "evolves F db1 db'"
    and "db_evaluations db' = db_evaluations db1" and "fresh F db' (QueryRequest q) v"
proof -
  let ?r = "QueryRequest q :: ('a, 'b) request"
  note ok1 = evolves_ok [OF assms(6)]
  obtain e1 where e1: "entry_at db1 (query_identity F q) = Some e1" and "e1 = e \<or> verified_at e1 = db_revision db"
    using assms(3,6) unfolding evolves_def by metis
  then have cases: "e1 = e \<or> verified_at e1 = db_revision db1" using evolves_same(2) [OF assms(6)] by simp
  from e1 have at: "entry_at db1 (request_identity F ?r) = Some e1" by simp
  note ok = db_okD [OF assms(1) ok1 at]
  have res_rs: "resolves F (inputs_of F db1) r (Inr (env r))" if "r \<in> set rs" for r
    using that assms(7) fresh_resolves [OF assms(1) ok1] by auto
  have "dependencies_kept db1 (e1\<lparr>verified_at := db_revision db1\<rparr>)
      \<and> grounded F (inputs_of F db1) ?r (snd (entry_value e1)) (entry_kind e1)"
    using cases
  proof
    assume now: "verified_at e1 = db_revision db1"
    then have same: "e1\<lparr>verified_at := db_revision db1\<rparr> = e1" by simp
    show ?thesis unfolding same using ok(3) ok(5) [OF now] by simp
  next
    assume "e1 = e"
    with assms(4,5,7) res_rs show ?thesis
      by (fastforce simp: dependencies_kept_def grounded_def fresh_def)
  qed
  note good = conjunct1 [OF this] conjunct2 [OF this]
  let ?db = "put_entry (query_identity F q) (e1\<lparr>verified_at := db_revision db1\<rparr>) db1
    \<lparr>db_reuses := count_one (identity_name (query_identity F q)) (db_reuses db1)\<rparr>"
  have "evolves F db1 ?db" "fresh F ?db ?r (snd (entry_value e1))"
    by (rule revisit [OF assms(1) ok1 at good]; simp add: put_entry_def)+
  with e1 show thesis by (intro that [of ?db]) (auto simp: mark_verified_def put_entry_def)
qed

lemma ensure_query_ok:
  assumes "families_ok F" and "ensures F ens" and "evaluates F ev" and "db_ok F db"
    and "entry_at db (query_identity F q) = Some e'"
  shows "settles F db (\<lambda>fp db'. \<exists>v. fresh F db' (QueryRequest q) v \<and> fp = fingerprint_of F (query_type F q) v)
    (fails F db (QueryRequest q)) (ensure_step ens ev (query_identity F q) db)"
proof -
  let ?r = "QueryRequest q :: ('a, 'b) request"
  from assms(5) have at: "entry_at db (request_identity F ?r) = Some e'" by simp
  note e = db_okD [OF assms(1,4) at]
  show ?thesis
  proof (cases "verified_at e' = db_revision db")
    case True
    with assms(5) e(1) show ?thesis
      by (auto simp: ensure_step_def fresh_def entry_fits_def prod_eq_iff intro!: settles_return evolves_refl assms(4))
  next
    case False
    from e(1) obtain env rs where kind: "entry_kind e' = QueryEntry q (map (dep_of F env) (firsts rs))"
      and trace: "traced env (execute F q) rs (snd (entry_value e'))" by (auto simp: entry_fits_def kind_fits_def)
    have kept: "entry_at db (request_identity F r) \<noteq> None" if "r \<in> set (firsts rs)" for r
      using e(3) kind that by (fastforce simp: dependencies_kept_def)
    have out: "Q v db' \<Longrightarrow> stored_fingerprint (query_identity F q) db' = Inr (fingerprint_of F (query_type F q) v)"
      if "Q = (\<lambda>v db'. db_ok F db' \<and> fresh F db' ?r v)" for Q v db'
      using stored_fresh(1) [OF assms(1), of db' ?r v] that by simp
    have "settles F db (\<lambda>fp db'. \<exists>v. fresh F db' ?r v \<and> fp = fingerprint_of F (query_type F q) v) (fails F db ?r)
      (bind_ok (check_dependencies ens (map (dep_of F env) (firsts rs)) db) (\<lambda>dirty db.
         if dirty then bind_ok (ev q db) (\<lambda>_ db. Some (stored_fingerprint (query_identity F q) db, db))
         else case mark_verified (query_identity F q) db of
           Inl e \<Rightarrow> Some (Inl e, db)
         | Inr db \<Rightarrow> Some (stored_fingerprint (query_identity F q) db, db)))"
      using check_dependencies_ok [OF assms(1,2,4) kept]
    proof (rule settles_bind)
      fix e assume "is_cycle e \<or> (\<exists>ds1 r ds2. firsts rs = ds1 @ r # ds2
        \<and> (\<forall>x \<in> set ds1. resolves F (inputs_of F db) x (Inr (env x))) \<and> resolves F (inputs_of F db) r (Inl e))"
      then show "fails F db ?r e"
      proof
        assume "\<exists>ds1 r ds2. firsts rs = ds1 @ r # ds2 \<and> (\<forall>x \<in> set ds1. resolves F (inputs_of F db) x (Inr (env x)))
          \<and> resolves F (inputs_of F db) r (Inl e)"
        then obtain ds1 r ds2 where ds: "firsts rs = ds1 @ r # ds2" "\<forall>x \<in> set ds1. resolves F (inputs_of F db) x (Inr (env x))"
          "resolves F (inputs_of F db) r (Inl e)" by blast
        from firsts_split [OF ds(1)] obtain rs1 rs2 where "rs = rs1 @ r # rs2" "set rs1 \<subseteq> set ds1" by blast
        with trace have "traced env (execute F q) (rs1 @ r # rs2) (snd (entry_value e'))" by simp
        then have "completes F (inputs_of F db) (execute F q) (Inl e)"
          by (rule trace_fails) (use ds \<open>set rs1 \<subseteq> set ds1\<close> in auto)
        then show ?thesis by (simp add: fails_def resolves_query)
      qed (simp add: fails_def)
    next
      fix dirty db1 assume post: "dirty \<or> (\<forall>r \<in> set (firsts rs). fresh F db1 r (env r))" and ev: "evolves F db db1"
      note ok1 = evolves_ok [OF ev]
      show "settles F db1 (\<lambda>fp db'. \<exists>v. fresh F db' ?r v \<and> fp = fingerprint_of F (query_type F q) v) (fails F db ?r)
        (if dirty then bind_ok (ev q db1) (\<lambda>_ db. Some (stored_fingerprint (query_identity F q) db, db))
         else case mark_verified (query_identity F q) db1 of
           Inl e \<Rightarrow> Some (Inl e, db1)
         | Inr db \<Rightarrow> Some (stored_fingerprint (query_identity F q) db, db))"
      proof (cases dirty)
        case True
        have "settles F db1 (\<lambda>fp db'. \<exists>v. fresh F db' ?r v \<and> fp = fingerprint_of F (query_type F q) v) (fails F db ?r)
          (bind_ok (ev q db1) (\<lambda>_ db. Some (stored_fingerprint (query_identity F q) db, db)))"
        proof (rule settles_bind)
          show "settles F db1 (\<lambda>_ db'. \<exists>v. fresh F db' ?r v) (fails F db1 ?r) (ev q db1)"
            using assms(3) ok1 by (simp add: evaluates_def)
        next
          fix u db2 assume "\<exists>v. fresh F db2 ?r v" and "evolves F db1 db2"
          then obtain v where "fresh F db2 ?r v" "db_ok F db2" by (auto dest: evolves_ok)
          with out [OF refl, of db2 v] show "settles F db2 (\<lambda>fp db'. \<exists>v. fresh F db' ?r v
              \<and> fp = fingerprint_of F (query_type F q) v) (fails F db ?r) (Some (stored_fingerprint (query_identity F q) db2, db2))"
            by (auto intro!: settles_return evolves_refl)
        qed (simp add: fails_evolves [OF ev])
        with True show ?thesis by simp
      next
        case False
        with post have "\<forall>r \<in> set (firsts rs). fresh F db1 r (env r)" by simp
        from mark_clean [OF assms(1,4,5) kind trace ev this] obtain db2 v where db2:
          "mark_verified (query_identity F q) db1 = Inr db2" "evolves F db1 db2" "db_evaluations db2 = db_evaluations db1"
          "fresh F db2 ?r v" .
        with out [OF refl, of db2 v] evolves_ok [OF db2(2)] False show ?thesis by (auto intro!: settles_return)
      qed
    qed
    with assms(5) False kind show ?thesis by (simp add: ensure_step_def)
  qed
qed

lemma ensure_step_ok:
  assumes "families_ok F" and "ensures F ens" and "evaluates F ev"
  shows "ensures F (ensure_step ens ev)"
  unfolding ensures_def
proof (intro allI impI)
  fix r :: "('a, 'b) request" and db
  assume ok: "db_ok F db" and here: "\<forall>q. r = QueryRequest q \<longrightarrow> entry_at db (request_identity F r) \<noteq> None"
  show "settles F db (\<lambda>fp db'. \<exists>v. fresh F db' r v \<and> fp = fingerprint_of F (request_type F r) v) (fails F db r)
    (ensure_step ens ev (request_identity F r) db)"
  proof (cases r)
    case (InputRequest i)
    with ensure_input_ok [OF assms(1) ok, of i ens ev] show ?thesis by simp
  next
    case (QueryRequest q)
    with here obtain e where "entry_at db (query_identity F q) = Some e" by auto
    from ensure_query_ok [OF assms ok this] QueryRequest show ?thesis by simp
  qed
qed

section \<open>Reads\<close>

lemma record_dependency_simps [simp]:
  "db_entries (record_dependency i fp db) = db_entries db" "db_revision (record_dependency i fp db) = db_revision db"
  by (simp_all add: record_dependency_def Let_def)

lemma recorded_cong: "db_evaluations db' = db_evaluations db \<Longrightarrow> recorded F r v db' = recorded F r v db"
  by (simp add: recorded_def record_dependency_def Let_def)

lemma record_fresh:
  assumes "evolves F db db'" and "db_evaluations db' = db_evaluations db" and "fresh F db' r v"
    and "db'' = record_dependency (request_identity F r) (fingerprint_of F (request_type F r) v) db'"
  shows "evolves F db db'' \<and> fresh F db'' r v \<and> db_evaluations db'' = recorded F r v db"
  using assms evolves_cong [of db'' db' F db] fresh_cong [of db'' db' F r v] recorded_cong [OF assms(2), of F r v]
  by (simp add: recorded_def)

lemma read_input_ok:
  assumes "families_ok F" and "ensures F ens" and "db_ok F db" and "read_input ens F i db = Some (res, db')"
  shows "evolves F db db' \<and> (case res of
      Inr v \<Rightarrow> fresh F db' (InputRequest i) v \<and> db_evaluations db' = recorded F (InputRequest i) v db
    | Inl e \<Rightarrow> fails F db (InputRequest i) e \<and> db_evaluations db' = db_evaluations db)"
proof -
  let ?r = "InputRequest i :: ('a, 'b) request"
  have s: "settles F db (\<lambda>fp db'. \<exists>v. fresh F db' ?r v \<and> fp = fingerprint_of F (input_type F i) v) (fails F db ?r)
    (ens (input_identity F i) db)"
    using ensuresD [OF assms(2,3), of ?r] by simp
  from assms(4) obtain x db1 where x: "ens (input_identity F i) db = Some (x, db1)"
    by (cases "ens (input_identity F i) db") (auto simp: read_input_def bind_ok_def)
  with s have ev: "evolves F db db1" "db_evaluations db1 = db_evaluations db" by (auto simp: settles_def)
  show ?thesis
  proof (cases x)
    case (Inl e)
    with s x ev assms(4) show ?thesis by (auto simp: settles_def read_input_def bind_ok_def)
  next
    case (Inr fp)
    with s x obtain v where v: "fresh F db1 ?r v" "fp = fingerprint_of F (input_type F i) v" by (auto simp: settles_def)
    with assms(4) x Inr stored_fresh(2) [OF assms(1) evolves_ok [OF ev(1)] v(1)]
    have "res = Inr v" "db' = record_dependency (request_identity F ?r) (fingerprint_of F (request_type F ?r) v) db1"
      by (auto simp: read_input_def bind_ok_def)
    with record_fresh [OF ev v(1)] show ?thesis by simp
  qed
qed

lemma query_step_ok:
  assumes "families_ok F" and "ensures F ens" and "evaluates F ev" and "db_ok F db"
    and "query_step ens ev F q db = Some (res, db')"
  shows "evolves F db db' \<and> (case res of
      Inr v \<Rightarrow> fresh F db' (QueryRequest q) v \<and> db_evaluations db' = recorded F (QueryRequest q) v db
    | Inl e \<Rightarrow> fails F db (QueryRequest q) e \<and> db_evaluations db' = db_evaluations db)"
proof -
  let ?r = "QueryRequest q :: ('a, 'b) request"
  let ?x = "if bt_contains (db_entries db) (query_identity F q)
    then bind_ok (ens (query_identity F q) db) (\<lambda>_ db. Some (Inr (), db)) else ev q db"
  have s: "settles F db (\<lambda>_ db'. \<exists>v. fresh F db' ?r v) (fails F db ?r) ?x"
  proof (cases "bt_contains (db_entries db) (query_identity F q)")
    case True
    then have "settles F db (\<lambda>fp db'. \<exists>v. fresh F db' ?r v \<and> fp = fingerprint_of F (query_type F q) v) (fails F db ?r)
      (ens (query_identity F q) db)"
      using ensuresD [OF assms(2,4), of ?r] by (simp add: bt_contains_def)
    then have "settles F db (\<lambda>_ db'. \<exists>v. fresh F db' ?r v) (fails F db ?r)
      (bind_ok (ens (query_identity F q) db) (\<lambda>_ db. Some (Inr (), db)))"
      by (rule settles_bind) (auto intro!: settles_return evolves_refl dest: evolves_ok)
    with True show ?thesis by simp
  qed (use assms(3,4) in \<open>simp add: evaluates_def\<close>)
  from assms(5) obtain x db1 where x: "?x = Some (x, db1)"
    by (cases ?x) (auto simp: query_step_def bind_ok_def simp del: not_None_eq)
  with s have ev: "evolves F db db1" "db_evaluations db1 = db_evaluations db" by (auto simp: settles_def)
  have run: "query_step ens ev F q db = bind_ok (Some (x, db1)) (\<lambda>_ db. case stored_fingerprint (query_identity F q) db of
          Inl e \<Rightarrow> Some (Inl e, db)
        | Inr fp \<Rightarrow> (case stored_value (query_type F q) (query_identity F q) db of
              Inl e \<Rightarrow> Some (Inl e, db)
            | Inr v \<Rightarrow> Some (Inr v, record_dependency (query_identity F q) fp db)))"
    unfolding query_step_def x ..
  show ?thesis
  proof (cases x)
    case (Inl e)
    with s x have "fails F db ?r e" by (auto simp: settles_def)
    with Inl run assms(5) ev show ?thesis by (auto simp: bind_ok_def)
  next
    case (Inr u)
    with s x obtain v where v: "fresh F db1 ?r v" by (auto simp: settles_def)
    with assms(5) run Inr stored_fresh [OF assms(1) evolves_ok [OF ev(1)] v]
    have "res = Inr v" "db' = record_dependency (request_identity F ?r) (fingerprint_of F (request_type F ?r) v) db1"
      by (auto simp: bind_ok_def)
    with record_fresh [OF ev v] show ?thesis by simp
  qed
qed

lemma engine_ok: "families_ok F \<Longrightarrow> ensures F (ensure n F) \<and> serves F (read_request n F)"
proof (induction n)
  case 0
  then show ?case by (simp add: ensures_def serves_def settles_def)
next
  case (Suc n)
  then have IH: "ensures F (ensure n F)" "serves F (read_request n F)" by simp_all
  note ev = evaluate_ok [OF Suc.prems IH(2)]
  have "serves F (read_request (Suc n) F)"
    unfolding serves_def
  proof (intro allI impI)
    fix r :: "('a, 'b) request" and db res db'
    assume "db_ok F db" and "read_request (Suc n) F r db = Some (res, db')"
    then show "evolves F db db' \<and> (case res of
        Inr v \<Rightarrow> fresh F db' r v \<and> db_evaluations db' = recorded F r v db
      | Inl e \<Rightarrow> fails F db r e \<and> db_evaluations db' = db_evaluations db)"
      using read_input_ok [OF Suc.prems IH(1), of db] query_step_ok [OF Suc.prems IH(1) ev, of db] by (cases r) auto
  qed
  with ensure_step_ok [OF Suc.prems IH(1) ev] show ?case by simp
qed

end
