(* ===== verification/Computation_Complete.thy ===== *)
theory Computation_Complete
  imports Computation_Sound
begin

text \<open>
  Demand evaluation returns wherever evaluation from scratch does: an evaluation on the stack needs more depth than what
  is asked within it, so no cycle is reported that is not one, and validation only ever visits what the provider would
  ask again.
\<close>

section \<open>Depth\<close>

definition below :: "('a \<Rightarrow> 'b \<Rightarrow> 'c option) \<Rightarrow> ('a \<Rightarrow> 'b \<Rightarrow> 'c option) \<Rightarrow> bool" where
  "below f g \<longleftrightarrow> (\<forall>a b y. f a b = Some y \<longrightarrow> g a b = Some y)"

lemma belowD: "below f g \<Longrightarrow> f a b = Some y \<Longrightarrow> g a b = Some y"
  by (simp add: below_def)

lemma bind_ok_mono:
  assumes "bind_ok x f = Some y" and "\<And>z. x = Some z \<Longrightarrow> x' = Some z" and "\<And>v db. f v db = Some y \<Longrightarrow> f' v db = Some y"
  shows "bind_ok x' f' = Some y"
proof -
  obtain r db where x: "x = Some (r, db)" using assms(1) by (cases x) (auto simp: bind_ok_def)
  with assms(2) have "x' = Some (r, db)" .
  with x assms(1,3) show ?thesis by (cases r) (auto simp: bind_ok_def)
qed

lemma check_dependencies_mono:
  "check_dependencies f ds db = Some y \<Longrightarrow> below f g \<Longrightarrow> check_dependencies g ds db = Some y"
proof (induction ds arbitrary: db)
  case (Cons d ds)
  from Cons.prems(1) show ?case
    unfolding check_dependencies.simps
    by (rule bind_ok_mono) (use Cons.prems(2) Cons.IH in \<open>auto dest: belowD split: if_splits\<close>)
qed simp

lemma run_provider_mono: "run_provider f p db = Some y \<Longrightarrow> below f g \<Longrightarrow> run_provider g p db = Some y"
proof (induction p arbitrary: db)
  case (Request r k)
  from Request.prems(1) show ?case
    unfolding run_provider.simps
    by (rule bind_ok_mono) (use Request.prems(2) Request.IH in \<open>auto dest: belowD\<close>)
qed simp

lemma evaluate_mono:
  assumes "below f g"
  shows "below (evaluate f F) (evaluate g F)"
  unfolding below_def
proof (intro allI impI)
  fix q db y assume run: "evaluate f F q db = Some y"
  show "evaluate g F q db = Some y"
  proof (cases "begin_evaluation (query_identity F q) db")
    case (Inr db1)
    with run obtain z where "run_provider f (execute F q) db1 = Some z"
      by (cases "run_provider f (execute F q) db1") (auto simp: evaluate_def)
    with run_provider_mono [OF this assms] run Inr show ?thesis by (simp add: evaluate_def)
  qed (use run in \<open>simp add: evaluate_def\<close>)
qed

lemma ensure_step_mono:
  assumes "below f f'" and "below h h'"
  shows "below (ensure_step f h) (ensure_step f' h')"
  unfolding below_def
proof (intro allI impI)
  fix i db y assume run: "ensure_step f h i db = Some y"
  show "ensure_step f' h' i db = Some y"
  proof (cases "\<exists>e q ds. entry_at db i = Some e \<and> verified_at e \<noteq> db_revision db \<and> entry_kind e = QueryEntry q ds")
    case True
    then obtain e q ds where e: "entry_at db i = Some e" "verified_at e \<noteq> db_revision db" "entry_kind e = QueryEntry q ds"
      by blast
    let ?go = "\<lambda>h dirty db. if dirty then bind_ok (h q db) (\<lambda>_ db. Some (stored_fingerprint i db, db))
      else case mark_verified i db of Inl e \<Rightarrow> Some (Inl e, db) | Inr db \<Rightarrow> Some (stored_fingerprint i db, db)"
    from e run have "bind_ok (check_dependencies f ds db) (?go h) = Some y" by (simp add: ensure_step_def)
    then have "bind_ok (check_dependencies f' ds db) (?go h') = Some y"
    proof (rule bind_ok_mono)
      fix dirty db1 assume "?go h dirty db1 = Some y"
      then show "?go h' dirty db1 = Some y"
        by (cases dirty) (simp_all, erule bind_ok_mono, auto dest: belowD [OF assms(2)])
    qed (rule check_dependencies_mono [OF _ assms(1)])
    with e show ?thesis by (simp add: ensure_step_def)
  qed (use run in \<open>auto simp: ensure_step_def split: option.splits if_splits entry_kind.splits\<close>)
qed

lemma query_step_mono:
  assumes "below f f'" and "below h h'" and "query_step f h F q db = Some y"
  shows "query_step f' h' F q db = Some y"
  using assms(3) unfolding query_step_def
proof (rule bind_ok_mono)
  fix z assume "(if bt_contains (db_entries db) (query_identity F q)
    then bind_ok (f (query_identity F q) db) (\<lambda>_ db. Some (Inr (), db)) else h q db) = Some z"
  then show "(if bt_contains (db_entries db) (query_identity F q)
    then bind_ok (f' (query_identity F q) db) (\<lambda>_ db. Some (Inr (), db)) else h' q db) = Some z"
    using bind_ok_mono [of "f (query_identity F q) db" _ z "f' (query_identity F q) db" "\<lambda>_ db. Some (Inr (), db)"]
      belowD [OF assms(1)] belowD [OF assms(2)] by (auto split: if_splits)
qed

lemma read_input_mono: "below f g \<Longrightarrow> read_input f F i db = Some y \<Longrightarrow> read_input g F i db = Some y"
  unfolding read_input_def by (erule bind_ok_mono) (auto dest: belowD)

lemma engine_step_below: "below (ensure n F) (ensure (Suc n) F) \<and> below (read_request n F) (read_request (Suc n) F)"
proof (induction n)
  case 0
  then show ?case by (simp add: below_def)
next
  case (Suc n)
  then have f: "below (ensure n F) (ensure (Suc n) F)" and g: "below (read_request n F) (read_request (Suc n) F)" by simp_all
  note h = evaluate_mono [OF g, of F]
  have "read_request (Suc (Suc n)) F r db = Some y" if "read_request (Suc n) F r db = Some y" for r db y
  proof (cases r)
    case (InputRequest i)
    with that read_input_mono [OF f, of F i db y] show ?thesis by simp
  next
    case (QueryRequest q)
    with that query_step_mono [OF f h, of F q db y] show ?thesis by simp
  qed
  with ensure_step_mono [OF f h] show ?case by (simp add: below_def)
qed

lemma below_trans: "below f g \<Longrightarrow> below g h \<Longrightarrow> below f h"
  by (simp add: below_def)

lemma below_refl: "below f f"
  by (simp add: below_def)

lemma engine_mono:
  assumes "n \<le> m"
  shows "below (ensure n F) (ensure m F)" and "below (read_request n F) (read_request m F)"
  using assms by (induction rule: dec_induct) (blast intro: below_refl below_trans engine_step_below [THEN conjunct1] engine_step_below [THEN conjunct2])+

section \<open>Evaluations on the stack\<close>

text \<open>No evaluation on the stack ends within depth \<open>n\<close>.\<close>

definition idle :: "nat \<Rightarrow> ('q, 'i, 'v, 't, 'f) families \<Rightarrow> ('q, 'v, 't, 'f) database \<Rightarrow> bool" where
  "idle n F db \<longleftrightarrow> (\<forall>i \<in> frame_identity ` set (db_evaluations db). \<forall>q. i = query_identity F q \<longrightarrow>
     answer n F (inputs_of F db) q = None)"

lemma idle_less: "idle n F db \<Longrightarrow> m \<le> n \<Longrightarrow> idle m F db"
  unfolding idle_def by (metis answer_mono not_Some_eq)

lemma idle_same:
  "idle n F db \<Longrightarrow> inputs_of F db' = inputs_of F db \<Longrightarrow>
    frame_identity ` set (db_evaluations db') = frame_identity ` set (db_evaluations db) \<Longrightarrow> idle n F db'"
  by (simp add: idle_def)

lemma idle_evolves: "idle n F db \<Longrightarrow> evolves F db db' \<Longrightarrow> db_evaluations db' = db_evaluations db \<Longrightarrow> idle n F db'"
  by (rule idle_same) (simp_all add: evolves_same)

lemma recorded_frames: "frame_identity ` set (recorded F r v db) = frame_identity ` set (db_evaluations db)"
  by (cases "db_evaluations db" rule: rev_cases) (auto simp: recorded_def record_dependency_def Let_def)

text \<open>What asks and is answered at depth \<open>n\<close> returns; \<open>agrees_with\<close> compares a result with the reference.\<close>

definition agrees_with :: "computation_error + 'v \<Rightarrow> computation_error + 'a \<Rightarrow> bool" where
  "agrees_with x res \<longleftrightarrow> (case x of Inl e \<Rightarrow> res = Inl e | Inr v \<Rightarrow> \<exists>w. res = Inr w)"

definition ensure_returns :: "nat \<Rightarrow> ('q, 'i, 'v, 't, 'f) families \<Rightarrow> bool" where
  "ensure_returns n F \<longleftrightarrow> (\<forall>r db x. db_ok F db \<longrightarrow> idle n F db \<longrightarrow> reads n F (inputs_of F db) r = Some x \<longrightarrow>
     (\<forall>q. r = QueryRequest q \<longrightarrow> entry_at db (request_identity F r) \<noteq> None) \<longrightarrow>
     (\<exists>m res db'. ensure m F (request_identity F r) db = Some (res, db') \<and> agrees_with x res))"

definition read_returns :: "nat \<Rightarrow> ('q, 'i, 'v, 't, 'f) families \<Rightarrow> bool" where
  "read_returns n F \<longleftrightarrow> (\<forall>r db x. db_ok F db \<longrightarrow> idle n F db \<longrightarrow> reads n F (inputs_of F db) r = Some x \<longrightarrow>
     (\<exists>m db'. read_request m F r db = Some (x, db')))"

lemma run_provider_returns:
  assumes "families_ok F" and "read_returns n F" and "db_ok F db" and "idle n F db"
    and "derive (reads n F (inputs_of F db)) p = Some x"
  shows "\<exists>m db'. run_provider (read_request m F) p db = Some (x, db')"
  using assms(3-)
proof (induction p arbitrary: db)
  case (Request r k)
  from Request.prems(3) obtain y where y: "reads n F (inputs_of F db) r = Some y"
    by (cases "reads n F (inputs_of F db) r") auto
  with assms(2) Request.prems(1,2) obtain m db1 where m: "read_request m F r db = Some (y, db1)"
    unfolding read_returns_def by blast
  show ?case
  proof (cases y)
    case (Inl e)
    with y Request.prems(3) have "x = Inl e" by simp
    with Inl m have "run_provider (read_request m F) (Request r k) db = Some (x, db1)" by (simp add: bind_ok_def)
    then show ?thesis by blast
  next
    case (Inr v)
    with engine_ok [OF assms(1), of m] m Request.prems(1)
    have ev: "evolves F db db1" and st: "db_evaluations db1 = recorded F r v db" unfolding serves_def by fastforce+
    have "idle n F db1"
      by (rule idle_same [OF Request.prems(2)]) (use evolves_same(1) [OF ev] st recorded_frames in simp_all)
    moreover have "derive (reads n F (inputs_of F db1)) (k v) = Some x"
      using Request.prems(3) y Inr evolves_same(1) [OF ev] by simp
    ultimately obtain j db' where j: "run_provider (read_request j F) (k v) db1 = Some (x, db')"
      using Request.IH [OF rangeI evolves_ok [OF ev]] by blast
    have "read_request (max m j) F r db = Some (y, db1)"
      by (rule belowD [OF engine_mono(2) m]) simp
    moreover have "run_provider (read_request (max m j) F) (k v) db1 = Some (x, db')"
      by (rule run_provider_mono [OF j engine_mono(2)]) simp
    ultimately have "run_provider (read_request (max m j) F) (Request r k) db = Some (x, db')"
      using Inr by (simp add: bind_ok_def)
    then show ?thesis by blast
  qed
qed auto

lemma evaluate_returns:
  assumes "families_ok F" and "read_returns n F" and "db_ok F db" and "idle (Suc n) F db"
    and "answer (Suc n) F (inputs_of F db) q = Some x" and "answer n F (inputs_of F db) q = None"
  shows "\<exists>m res db'. evaluate (read_request m F) F q db = Some (res, db') \<and> agrees_with x res"
proof -
  let ?i = "query_identity F q"
  let ?f = "\<lparr>frame_identity = ?i, frame_dependencies = []\<rparr>"
  let ?db = "db\<lparr>db_evaluations := db_evaluations db @ [?f]\<rparr>"
  have "\<forall>f \<in> set (db_evaluations db). frame_identity f \<noteq> ?i" using assms(4,5) by (auto simp: idle_def)
  then have begun: "begin_evaluation ?i db = Inr ?db"
    using position_None_iff [of "\<lambda>f. frame_identity f = ?i"] by (auto simp: begin_evaluation_def split: option.splits)
  have inp: "inputs_of F ?db = inputs_of F db" by (rule inputs_cong) simp
  have ok: "db_ok F ?db" using assms(3) db_ok_cong [of ?db db F] by simp
  have same: "query_identity F q = query_identity F g \<longleftrightarrow> q = g" for g
    using request_identity_inject [OF assms(1), of "QueryRequest q" "QueryRequest g"] by simp
  have "idle n F ?db"
    using idle_less [OF assms(4), of n] assms(6) same inp by (auto simp: idle_def)
  then obtain m db1 where run: "run_provider (read_request m F) (execute F q) ?db = Some (x, db1)"
    using run_provider_returns [OF assms(1,2) ok] assms(5) inp by fastforce
  obtain f where "db_evaluations db1 = db_evaluations db @ [f]" "frame_identity f = ?i"
    using run_provider_ok [OF assms(1) conjunct2 [OF engine_ok [OF assms(1)]] ok _ _ _ refl run, of "db_evaluations db" ?f "[]"]
    by auto
  then have "end_evaluation ?i db1 = Some (frame_dependencies f, db1\<lparr>db_evaluations := db_evaluations db\<rparr>)"
    by (simp add: end_evaluation_def)
  with begun run show ?thesis
    by (intro exI [of _ m]) (cases x; simp add: evaluate_def agrees_with_def)
qed

lemma check_returns:
  assumes "families_ok F" and "ensure_returns n F" and "traced env p rs v"
    and "derive (reads n F inp) p = Some x"
    and "db_ok F db" and "idle n F db" and "inputs_of F db = inp" and "firsts rs = ds1 @ ds2"
    and "\<And>r. r \<in> set ds1 \<Longrightarrow> resolves F inp r (Inr (env r))"
    and "\<And>r. r \<in> set ds2 \<Longrightarrow> entry_at db (request_identity F r) \<noteq> None"
  shows "\<exists>m res db'. check_dependencies (ensure m F) (map (dep_of F env) ds2) db = Some (res, db')
    \<and> (\<forall>e. res = Inl e \<longrightarrow> x = Inl e)"
  using assms(5-)
proof (induction ds2 arbitrary: ds1 db)
  case Nil
  then show ?case by simp
next
  case (Cons d ds2)
  from firsts_split [OF Cons.prems(4)] obtain rs1 rs2 where rs: "rs = rs1 @ d # rs2" "set rs1 \<subseteq> set ds1" by blast
  have before: "resolves F inp y (Inr (env y))" if "y \<in> set rs1" for y using Cons.prems(5) rs(2) that by auto
  obtain y where y: "reads n F inp d = Some y"
    using trace_reads [OF assms(3) [unfolded rs(1)] before assms(4)] by blast
  have "entry_at db (request_identity F d) \<noteq> None" by (rule Cons.prems(6)) simp
  with assms(2) Cons.prems(1-3) y
  obtain m res1 db1 where m: "ensure m F (request_identity F d) db = Some (res1, db1)" "agrees_with y res1"
    unfolding ensure_returns_def by blast
  have settled: "settles F db (\<lambda>fp db'. \<exists>v. fresh F db' d v \<and> fp = fingerprint_of F (request_type F d) v) (fails F db d)
    (ensure m F (request_identity F d) db)"
    by (rule ensuresD [OF conjunct1 [OF engine_ok [OF assms(1)]] Cons.prems(1)]) (use Cons.prems(6) [of d] in auto)
  with m(1) have ev: "evolves F db db1" and st: "db_evaluations db1 = db_evaluations db" by (auto simp: settles_def)
  show ?case
  proof (cases res1)
    case (Inl e)
    with m(2) have "y = Inl e" by (cases y) (auto simp: agrees_with_def)
    with y have "resolves F inp d (Inl e)" by (auto simp: resolves_def)
    with trace_fails [OF assms(3) [unfolded rs(1)] before] have "completes F inp p (Inl e)" by blast
    moreover have "completes F inp p x" using assms(4) by (auto simp: completes_def)
    ultimately have "x = Inl e" by (rule completes_fun [symmetric])
    with Inl m(1) show ?thesis by (intro exI [of _ m]) (simp add: bind_ok_def dep_of_def)
  next
    case (Inr fp)
    show ?thesis
    proof (cases "fp = dep_fingerprint (dep_of F env d)")
      case False
      with Inr m(1) show ?thesis by (intro exI [of _ m]) (simp add: bind_ok_def)
    next
      case True
      with settled m(1) Inr assms(1) have "fresh F db1 d (env d)"
        by (auto simp: settles_def dep_of_def families_ok_def dest: injD)
      from fresh_resolves [OF assms(1) evolves_ok [OF ev] this]
      have d: "resolves F inp d (Inr (env d))" using evolves_same(1) [OF ev] Cons.prems(3) by simp
      have "\<exists>j res db'. check_dependencies (ensure j F) (map (dep_of F env) ds2) db1 = Some (res, db')
        \<and> (\<forall>e. res = Inl e \<longrightarrow> x = Inl e)"
      proof (rule Cons.IH [of _ "ds1 @ [d]"])
        show "idle n F db1" by (rule idle_evolves [OF Cons.prems(2) ev st])
        show "resolves F inp r (Inr (env r))" if "r \<in> set (ds1 @ [d])" for r using that d Cons.prems(5) by auto
        show "entry_at db1 (request_identity F r) \<noteq> None" if "r \<in> set ds2" for r
          using evolves_keeps [OF ev] Cons.prems(6) that by simp
      qed (use evolves_ok [OF ev] evolves_same(1) [OF ev] Cons.prems(3,4) in simp_all)
      then obtain j res db' where j: "check_dependencies (ensure j F) (map (dep_of F env) ds2) db1 = Some (res, db')"
        "\<forall>e. res = Inl e \<longrightarrow> x = Inl e" by blast
      have "ensure (max m j) F (request_identity F d) db = Some (res1, db1)"
        by (rule belowD [OF engine_mono(1) m(1)]) simp
      moreover have "check_dependencies (ensure (max m j) F) (map (dep_of F env) ds2) db1 = Some (res, db')"
        by (rule check_dependencies_mono [OF j(1) engine_mono(1)]) simp
      ultimately show ?thesis
        using Inr True j(2) by (intro exI [of _ "max m j"]) (simp add: bind_ok_def)
    qed
  qed
qed

section \<open>Every depth\<close>

lemma ensure_input_returns:
  assumes "families_ok F" and "db_ok F db"
  shows "\<exists>res db'. ensure (Suc 0) F (input_identity F i) db = Some (res, db')
    \<and> agrees_with (case inputs_of F db i of None \<Rightarrow> Inl (MissingInput (input_identity F i)) | Some v \<Rightarrow> Inr v) res"
proof (cases "entry_at db (input_identity F i)")
  case (Some e)
  then have at: "entry_at db (request_identity F (InputRequest i)) = Some e" by simp
  from db_okD(1) [OF assms this] Some show ?thesis
    by (auto simp: ensure_step_def entry_fits_def kind_fits_def agrees_with_def inputs_of_def)
qed (simp add: ensure_step_def agrees_with_def inputs_of_def)

lemma ensure_query_returns:
  assumes "families_ok F" and "ensure_returns n F" and "db_ok F db" and "idle (Suc n) F db"
    and "answer (Suc n) F (inputs_of F db) q = Some x" and "entry_at db (query_identity F q) = Some e"
    and evaluation: "\<And>db'. evolves F db db' \<Longrightarrow> db_evaluations db' = db_evaluations db \<Longrightarrow>
      \<exists>m res db''. evaluate (read_request m F) F q db' = Some (res, db'') \<and> agrees_with x res"
  shows "\<exists>m res db'. ensure m F (query_identity F q) db = Some (res, db') \<and> agrees_with x res"
proof -
  let ?r = "QueryRequest q :: ('a, 'b) request" and ?inp = "inputs_of F db"
  from assms(6) have at: "entry_at db (request_identity F ?r) = Some e" by simp
  note e = db_okD [OF assms(1,3) at]
  have completed: "completes F ?inp (execute F q) x" using assms(5) by (auto simp: completes_def)
  have right: "x = Inr v" if "resolves F ?inp ?r (Inr v)" for v
    using that completed by (simp add: resolves_query completes_fun)
  show ?thesis
  proof (cases "verified_at e = db_revision db")
    case True
    with e(4) right assms(6) show ?thesis by (intro exI [of _ "Suc 0"]) (auto simp: ensure_step_def agrees_with_def)
  next
    case False
    from e(1) obtain env rs where kind: "entry_kind e = QueryEntry q (map (dep_of F env) (firsts rs))"
      and trace: "traced env (execute F q) rs (snd (entry_value e))" by (auto simp: entry_fits_def kind_fits_def)
    have kept: "entry_at db (request_identity F r) \<noteq> None" if "r \<in> set (firsts rs)" for r
      using e(3) kind that by (fastforce simp: dependencies_kept_def)
    obtain m res1 db1 where m: "check_dependencies (ensure m F) (map (dep_of F env) (firsts rs)) db = Some (res1, db1)"
      and err: "\<And>e. res1 = Inl e \<Longrightarrow> x = Inl e"
      using check_returns [OF assms(1,2) trace, of ?inp x db "[]" "firsts rs"] assms(3,5) idle_less [OF assms(4), of n] kept
      by auto
    note ens = conjunct1 [OF engine_ok [OF assms(1)]] and srv = conjunct2 [OF engine_ok [OF assms(1)]]
    have s: "settles F db (\<lambda>dirty db'. dirty \<or> (\<forall>r \<in> set (firsts rs). fresh F db' r (env r)))
      (\<lambda>e. is_cycle e \<or> (\<exists>ds1 r ds2. firsts rs = ds1 @ r # ds2 \<and> (\<forall>x \<in> set ds1. resolves F ?inp x (Inr (env x)))
        \<and> resolves F ?inp r (Inl e))) (Some (res1, db1))"
      unfolding m [symmetric] by (rule check_dependencies_ok [OF assms(1) ens assms(3) kept])
    then have ev: "evolves F db db1" and st: "db_evaluations db1 = db_evaluations db" by (auto simp: settles_def)
    show ?thesis
    proof (cases res1)
      case (Inl e')
      with m False kind assms(6) have "ensure (Suc m) F (query_identity F q) db = Some (Inl e', db1)"
        by (simp add: ensure_step_def bind_ok_def)
      with err [OF Inl] show ?thesis by (intro exI [of _ "Suc m"]) (simp add: agrees_with_def)
    next
      case (Inr dirty)
      show ?thesis
      proof (cases dirty)
        case True
        from evaluation [OF ev st] obtain j res2 db2 where j: "evaluate (read_request j F) F q db1 = Some (res2, db2)"
          "agrees_with x res2" by blast
        have "check_dependencies (ensure (max m j) F) (map (dep_of F env) (firsts rs)) db = Some (res1, db1)"
          by (rule check_dependencies_mono [OF m engine_mono(1)]) simp
        moreover have "evaluate (read_request (max m j) F) F q db1 = Some (res2, db2)"
          by (rule belowD [OF evaluate_mono [OF engine_mono(2)] j(1)]) simp
        ultimately have run: "ensure (Suc (max m j)) F (query_identity F q) db =
          (case res2 of Inl e \<Rightarrow> Some (Inl e, db2) | Inr _ \<Rightarrow> Some (stored_fingerprint (query_identity F q) db2, db2))"
          using False kind assms(6) Inr True by (simp add: ensure_step_def bind_ok_def)
        show ?thesis
        proof (cases res2)
          case (Inl e')
          with j(2) run show ?thesis by (intro exI [of _ "Suc (max m j)"]) (auto simp: agrees_with_def split: sum.splits)
        next
          case (Inr u)
          have "settles F db1 (\<lambda>_ db'. \<exists>v. fresh F db' ?r v) (fails F db1 ?r) (evaluate (read_request j F) F q db1)"
            using evaluate_ok [OF assms(1) srv] evolves_ok [OF ev] by (simp add: evaluates_def)
          with j(1) Inr obtain v where "db_ok F db2" "fresh F db2 ?r v" by (auto simp: settles_def dest: evolves_ok)
          from stored_fresh(1) [OF assms(1) this] j(2) run Inr show ?thesis
            by (intro exI [of _ "Suc (max m j)"]) (auto simp: agrees_with_def split: sum.splits)
        qed
      next
        case clean: False
        with s Inr have now: "\<forall>r \<in> set (firsts rs). fresh F db1 r (env r)" by (simp add: settles_def)
        from mark_clean [OF assms(1,3,6) kind trace ev now] obtain db2 v where db2:
          "mark_verified (query_identity F q) db1 = Inr db2" "evolves F db1 db2" "fresh F db2 ?r v" by metis
        have "resolves F ?inp ?r (Inr v)"
          using fresh_resolves [OF assms(1) evolves_ok [OF db2(2)] db2(3)] evolves_same(1) [OF db2(2)] evolves_same(1) [OF ev]
          by simp
        from right [OF this] stored_fresh(1) [OF assms(1) evolves_ok [OF db2(2)] db2(3)] m False kind assms(6) Inr clean db2(1)
        show ?thesis by (intro exI [of _ "Suc m"]) (simp add: ensure_step_def bind_ok_def agrees_with_def)
      qed
    qed
  qed
qed

lemma least_depth:
  assumes "answer n F inp q = Some x"
  obtains k where "k < n" and "answer (Suc k) F inp q = Some x" and "answer k F inp q = None"
proof -
  define j where "j = (LEAST j. answer j F inp q \<noteq> None)"
  have here: "answer j F inp q \<noteq> None" and "j \<le> n"
    unfolding j_def using assms by (auto intro: LeastI2 Least_le)
  moreover obtain k where "j = Suc k" using here by (cases j) auto
  moreover have "answer k F inp q = None"
    using not_less_Least [of k "\<lambda>j. answer j F inp q \<noteq> None"] \<open>j = Suc k\<close> by (simp add: j_def)
  ultimately show thesis using that [of k] answer_mono [of j F inp q _ n] assms by auto
qed

lemma read_input_returns:
  assumes "families_ok F" and "db_ok F db"
  shows "\<exists>db'. read_request (Suc (Suc 0)) F (InputRequest i) db =
    Some (case inputs_of F db i of None \<Rightarrow> Inl (MissingInput (input_identity F i)) | Some v \<Rightarrow> Inr v, db')"
proof -
  let ?x = "case inputs_of F db i of None \<Rightarrow> Inl (MissingInput (input_identity F i)) | Some v \<Rightarrow> Inr v"
  let ?r = "InputRequest i :: ('a, 'b) request"
  from ensure_input_returns [OF assms] obtain res db1 where e: "ensure (Suc 0) F (input_identity F i) db = Some (res, db1)"
    "agrees_with ?x res" by blast
  show ?thesis
  proof (cases res)
    case (Inl err)
    with e show ?thesis by (auto simp: read_input_def bind_ok_def agrees_with_def simp del: ensure.simps split: sum.splits)
  next
    case (Inr fp)
    have s: "settles F db (\<lambda>fp db'. \<exists>v. fresh F db' ?r v \<and> fp = fingerprint_of F (input_type F i) v) (fails F db ?r)
      (ensure (Suc 0) F (input_identity F i) db)"
      using ensuresD [OF conjunct1 [OF engine_ok [OF assms(1), of "Suc 0"]] assms(2), of ?r] by (simp del: ensure.simps)
    with e(1) Inr obtain v where v: "fresh F db1 ?r v" and ev: "evolves F db db1" by (auto simp: settles_def)
    have "resolves F (inputs_of F db) ?r (Inr v)"
      using fresh_resolves [OF assms(1) evolves_ok [OF ev] v] evolves_same(1) [OF ev] by simp
    then have "?x = Inr v" by (simp add: resolves_input)
    with stored_fresh(2) [OF assms(1) evolves_ok [OF ev] v] e(1) Inr show ?thesis
      by (auto simp: read_input_def bind_ok_def simp del: ensure.simps)
  qed
qed

lemma read_query_returns:
  assumes "families_ok F" and "db_ok F db" and "completes F (inputs_of F db) (execute F q) x"
    and ens: "entry_at db (query_identity F q) \<noteq> None \<Longrightarrow>
      \<exists>m res db'. ensure m F (query_identity F q) db = Some (res, db') \<and> agrees_with x res"
    and ev: "\<exists>m res db'. evaluate (read_request m F) F q db = Some (res, db') \<and> agrees_with x res"
  shows "\<exists>m db'. read_request m F (QueryRequest q) db = Some (x, db')"
proof -
  let ?r = "QueryRequest q :: ('a, 'b) request"
  let ?first = "\<lambda>m. if bt_contains (db_entries db) (query_identity F q)
    then bind_ok (ensure m F (query_identity F q) db) (\<lambda>_ db. Some (Inr (), db)) else evaluate (read_request m F) F q db"
  have "\<exists>m res db'. ?first m = Some (res, db') \<and> agrees_with x res"
  proof (cases "bt_contains (db_entries db) (query_identity F q)")
    case True
    then obtain m res db' where m: "ensure m F (query_identity F q) db = Some (res, db')" "agrees_with x res"
      using ens by (auto simp: bt_contains_def)
    then have "?first m = Some (case res of Inl e \<Rightarrow> Inl e | Inr _ \<Rightarrow> Inr (), db')"
      using True by (cases res) (simp_all add: bind_ok_def)
    with m(2) show ?thesis by (fastforce simp: agrees_with_def split: sum.splits)
  qed (use ev in simp)
  then obtain m res db1 where m: "?first m = Some (res, db1)" "agrees_with x res" by blast
  have run: "read_request (Suc m) F ?r db = bind_ok (Some (res, db1)) (\<lambda>_ db. case stored_fingerprint (query_identity F q) db of
          Inl e \<Rightarrow> Some (Inl e, db)
        | Inr fp \<Rightarrow> (case stored_value (query_type F q) (query_identity F q) db of
              Inl e \<Rightarrow> Some (Inl e, db)
            | Inr v \<Rightarrow> Some (Inr v, record_dependency (query_identity F q) fp db)))"
    unfolding read_request.simps request.simps query_step_def m(1) ..
  note engine = engine_ok [OF assms(1), of m]
  show ?thesis
  proof (cases res)
    case (Inl e)
    with m(2) have "x = Inl e" by (cases x) (auto simp: agrees_with_def)
    with run Inl have "read_request (Suc m) F ?r db = Some (x, db1)" by (simp add: bind_ok_def)
    then show ?thesis by blast
  next
    case (Inr u)
    have "settles F db (\<lambda>_ db'. \<exists>v. fresh F db' ?r v) (fails F db ?r) (?first m)"
    proof (cases "bt_contains (db_entries db) (query_identity F q)")
      case True
      then have "settles F db (\<lambda>fp db'. \<exists>v. fresh F db' ?r v \<and> fp = fingerprint_of F (query_type F q) v) (fails F db ?r)
        (ensure m F (query_identity F q) db)"
        using ensuresD [OF conjunct1 [OF engine] assms(2), of ?r] by (simp add: bt_contains_def)
      then have "settles F db (\<lambda>_ db'. \<exists>v. fresh F db' ?r v) (fails F db ?r)
        (bind_ok (ensure m F (query_identity F q) db) (\<lambda>_ db. Some (Inr (), db)))"
        by (rule settles_bind) (auto intro!: settles_return evolves_refl dest: evolves_ok)
      with True show ?thesis by simp
    qed (use evaluate_ok [OF assms(1) conjunct2 [OF engine]] assms(2) in \<open>simp add: evaluates_def\<close>)
    with m(1) Inr obtain v where v: "fresh F db1 ?r v" and evo: "evolves F db db1" by (auto simp: settles_def)
    have "resolves F (inputs_of F db) ?r (Inr v)"
      using fresh_resolves [OF assms(1) evolves_ok [OF evo] v] evolves_same(1) [OF evo] by simp
    with assms(3) have "x = Inr v" by (simp add: resolves_query completes_fun)
    with run Inr stored_fresh [OF assms(1) evolves_ok [OF evo] v]
    have "read_request (Suc m) F ?r db = Some (x, record_dependency (query_identity F q) (fingerprint_of F (query_type F q) v) db1)"
      by (simp add: bind_ok_def)
    then show ?thesis by blast
  qed
qed

lemma engine_returns: "families_ok F \<Longrightarrow> ensure_returns n F \<and> read_returns n F"
proof (induction n rule: less_induct)
  case (less n)
  have evaluation: "\<exists>m res db''. evaluate (read_request m F) F q db' = Some (res, db'') \<and> agrees_with x res"
    if "db_ok F db'" "idle n F db'" "answer n F (inputs_of F db') q = Some x" for db' q x
  proof -
    from least_depth [OF that(3)] obtain k where k: "k < n" "answer (Suc k) F (inputs_of F db') q = Some x"
      "answer k F (inputs_of F db') q = None" .
    from evaluate_returns [OF less.prems conjunct2 [OF less.IH [OF k(1) less.prems]] that(1) _ k(2,3)]
      idle_less [OF that(2), of "Suc k"] k(1) show ?thesis by simp
  qed
  have query_ensured: "\<exists>m res db'. ensure m F (query_identity F q) db = Some (res, db') \<and> agrees_with x res"
    if "db_ok F db" "idle n F db" "answer n F (inputs_of F db) q = Some x" "entry_at db (query_identity F q) \<noteq> None" for db q x
  proof -
    from least_depth [OF that(3)] obtain k where k: "k < n" "answer (Suc k) F (inputs_of F db) q = Some x"
      "answer k F (inputs_of F db) q = None" .
    from that(4) obtain e where e: "entry_at db (query_identity F q) = Some e" by blast
    show ?thesis
    proof (rule ensure_query_returns [OF less.prems conjunct1 [OF less.IH [OF k(1) less.prems]] that(1) _ k(2) e])
      show "idle (Suc k) F db" using idle_less [OF that(2), of "Suc k"] k(1) by simp
      fix db' assume ev: "evolves F db db'" and "db_evaluations db' = db_evaluations db"
      then show "\<exists>m res db''. evaluate (read_request m F) F q db' = Some (res, db'') \<and> agrees_with x res"
        using evaluation [OF evolves_ok [OF ev] idle_evolves [OF that(2) ev]] evolves_same(1) [OF ev] that(3) by simp
    qed
  qed
  have "ensure_returns n F"
    unfolding ensure_returns_def
  proof (intro allI impI)
    fix r :: "('a, 'b) request" and db x
    assume ok: "db_ok F db" "idle n F db" and x: "reads n F (inputs_of F db) r = Some x"
      and here: "\<forall>q. r = QueryRequest q \<longrightarrow> entry_at db (request_identity F r) \<noteq> None"
    show "\<exists>m res db'. ensure m F (request_identity F r) db = Some (res, db') \<and> agrees_with x res"
    proof (cases r)
      case (InputRequest i)
      with x ensure_input_returns [OF less.prems ok(1), of i] show ?thesis
        by (auto simp: resolve_def simp del: ensure.simps intro: exI [of _ "Suc 0"])
    next
      case (QueryRequest q)
      with x here query_ensured [OF ok, of q x] show ?thesis by (simp add: resolve_def)
    qed
  qed
  moreover have "read_returns n F"
    unfolding read_returns_def
  proof (intro allI impI)
    fix r :: "('a, 'b) request" and db x
    assume ok: "db_ok F db" "idle n F db" and x: "reads n F (inputs_of F db) r = Some x"
    show "\<exists>m db'. read_request m F r db = Some (x, db')"
    proof (cases r)
      case (InputRequest i)
      with x read_input_returns [OF less.prems ok(1), of i] show ?thesis
        by (auto simp: resolve_def simp del: read_request.simps intro: exI [of _ "Suc (Suc 0)"])
    next
      case (QueryRequest q)
      with x have a: "answer n F (inputs_of F db) q = Some x" by (simp add: resolve_def)
      then have "resolves F (inputs_of F db) (QueryRequest q) x" unfolding resolves_def resolve_def by auto
      then have "completes F (inputs_of F db) (execute F q) x" by (simp add: resolves_query)
      from read_query_returns [OF less.prems ok(1) this query_ensured [OF ok a] evaluation [OF ok a]] QueryRequest
      show ?thesis by simp
    qed
  qed
  ultimately show ?case ..
qed

end
