(* ===== verification/Computation_Steps.thy ===== *)
theory Computation_Steps
  imports Computation_Complete
begin

text \<open>
  The computation database as a transition system: revisions of inputs are published, inputs and queries are read, and
  inactive entries are collected, in any order. Every reachable database keeps the invariant, and with it the promises
  of the engine.
\<close>

section \<open>Publishing inputs\<close>

definition pending_of :: "('q, 'i, 'v, 't, 'f) families \<Rightarrow> 'i \<Rightarrow> 'v \<Rightarrow> ('v, 't, 'f) pending_input" where
  "pending_of F i v = \<lparr>pending_value = (input_type F i, v), pending_fingerprint = fingerprint_of F (input_type F i) v,
     pending_retention = retention_of F i\<rparr>"

definition set_inputs :: "('q, 'i, 'v, 't, 'f) families \<Rightarrow> ('i \<times> 'v) list \<Rightarrow> ('v, 't, 'f) input_revision
    \<Rightarrow> ('v, 't, 'f) input_revision" where
  "set_inputs F staged = fold (\<lambda>(i, v). set_input F i v) staged"

lemma set_inputs_pending:
  "bt_sorted (pending r) \<Longrightarrow> bt_sorted (pending (set_inputs F staged r)) \<and> next_revision (set_inputs F staged r) = next_revision r
    \<and> (\<forall>k p. bt_get (pending (set_inputs F staged r)) k = Some p \<longrightarrow>
         bt_get (pending r) k = Some p \<or> (\<exists>i v. k = input_identity F i \<and> p = pending_of F i v))"
proof (induction staged arbitrary: r)
  case (Cons s staged)
  obtain i v where s: "s = (i, v)" by fastforce
  have "bt_sorted (pending (set_input F i v r))" using Cons.prems by (simp add: set_input_def bt_sorted_insert)
  from Cons.IH [OF this] Cons.prems s show ?case
    by (fastforce simp: set_inputs_def set_input_def bt_get_insert pending_of_def split: if_splits)
qed (simp add: set_inputs_def)

lemma set_inputs_value:
  assumes "families_ok F" and "bt_sorted (pending r)"
  shows "bt_get (pending (set_inputs F staged r)) (input_identity F i) =
    (case map_of (rev staged) i of Some v \<Rightarrow> Some (pending_of F i v) | None \<Rightarrow> bt_get (pending r) (input_identity F i))"
  using assms(2)
proof (induction staged arbitrary: r)
  case (Cons s staged)
  obtain j v where s: "s = (j, v)" by fastforce
  have "input_identity F i = input_identity F j \<longleftrightarrow> i = j"
    using request_identity_inject [OF assms(1), of "InputRequest i" "InputRequest j"] by simp
  moreover have "bt_sorted (pending (set_input F j v r))" using Cons.prems by (simp add: set_input_def bt_sorted_insert)
  ultimately show ?case
    using Cons.IH [of "set_input F j v r"] Cons.prems s
    by (auto simp: set_inputs_def set_input_def bt_get_insert pending_of_def map_add_def split: option.splits)
qed (simp add: set_inputs_def)

lemma put_entries:
  "db_entries (fold (\<lambda>(i, p). put_entry i (g p)) ps db) = fold (\<lambda>(k, e). bt_insert k e) (map (\<lambda>(i, p). (i, g p)) ps) (db_entries db)"
  "db_evaluations (fold (\<lambda>(i, p). put_entry i (g p)) ps db) = db_evaluations db"
  by (induction ps arbitrary: db) (auto simp: put_entry_def)

lemma map_of_entries: "map_of (map (\<lambda>(i, p). (i, g p)) ps) k = map_option g (map_of ps k)"
  by (induction ps) auto

lemma commit_entries:
  fixes db :: "('q, 'v, 't, 'f) database"
  assumes "bt_sorted (pending r)" and "bt_sorted (db_entries db)"
  shows "entry_at (commit_revision r db) k = (case bt_get (pending r) k of
      Some p \<Rightarrow> Some (pending_entry (next_revision r) p) | None \<Rightarrow> entry_at db k)"
    and "bt_sorted (db_entries (commit_revision r db))"
proof -
  let ?es = "map (\<lambda>(i, p). (i, pending_entry (next_revision r) p :: ('q, 'v, 't, 'f) entry)) (pending r)"
  have "map fst ?es = map fst (pending r)" by (simp add: comp_def case_prod_unfold)
  then have "distinct (map fst ?es)" using assms(1) by (metis bt_sorted_def strict_sorted_iff)
  then have "map_of (rev ?es) = map_of ?es" by (intro map_of_inject_set [THEN iffD2]) (simp_all flip: rev_map)
  then have "map_of (rev ?es) k = map_option (pending_entry (next_revision r)) (bt_get (pending r) k)"
    unfolding bt_get_def map_of_entries [symmetric] by (rule fun_cong)
  with btree.lookup_inserts [OF assms(2), of ?es k]
  show "entry_at (commit_revision r db) k = (case bt_get (pending r) k of
      Some p \<Rightarrow> Some (pending_entry (next_revision r) p) | None \<Rightarrow> entry_at db k)"
    by (cases "bt_get (pending r) k") (simp_all add: commit_revision_def put_entries)
  show "bt_sorted (db_entries (commit_revision r db))"
    using btree.inv_inserts [OF assms(2), of ?es] by (simp add: commit_revision_def put_entries)
qed

lemma inputs_published:
  assumes "families_ok F" and "bt_sorted (db_entries db)" and "advance_revision db = Inr r"
  shows "inputs_of F (commit_revision (set_inputs F staged r) db) i =
    (case map_of (rev staged) i of Some v \<Rightarrow> Some v | None \<Rightarrow> inputs_of F db i)"
proof -
  have r: "bt_sorted (pending r)" "bt_get (pending r) k = None" for k
    using assms(3) by (auto simp: advance_revision_def split: if_splits)
  have "bt_sorted (pending (set_inputs F staged r))" using set_inputs_pending [OF r(1)] by blast
  from commit_entries(1) [OF this assms(2), of "input_identity F i"] set_inputs_value [OF assms(1) r(1), of staged i] r(2)
  show ?thesis by (simp add: inputs_of_def pending_of_def pending_entry_def split: option.splits)
qed

lemma commit_ok:
  assumes "families_ok F" and "db_ok F db" and "advance_revision db = Inr r"
  shows "db_ok F (commit_revision (set_inputs F staged r) db)"
proof -
  let ?r = "set_inputs F staged r"
  let ?db = "commit_revision ?r db"
  have r: "bt_sorted (pending r)" "bt_get (pending r) k = None" "next_revision r = Suc (db_revision db)" for k
    using assms(3) by (auto simp: advance_revision_def split: if_splits)
  have p: "bt_sorted (pending ?r)" "next_revision ?r = Suc (db_revision db)"
    "\<And>k p. bt_get (pending ?r) k = Some p \<Longrightarrow> \<exists>i v. k = input_identity F i \<and> p = pending_of F i v"
    using set_inputs_pending [OF r(1), of F staged] r(2,3) by auto
  have sorted: "bt_sorted (db_entries db)" using assms(2) by (simp add: db_ok_def)
  have rev: "db_revision ?db = Suc (db_revision db)" using p(2) by (simp add: commit_revision_def)
  note at = commit_entries(1) [OF p(1) sorted]
  have later: "\<exists>e'. entry_at ?db k = Some e' \<and> verified_at e \<le> verified_at e'"
    if "entry_at db k = Some e'" "verified_at e \<le> verified_at e'" "verified_at e \<le> db_revision db" for k e e'
    using that at [of k] p(2) by (auto simp: pending_entry_def split: option.splits)
  have "entry_ok F ?db k e" if e: "entry_at ?db k = Some e" for k e
  proof (cases "bt_get (pending ?r) k")
    case (Some q)
    with p(3) obtain i v where i: "k = input_identity F i" "q = pending_of F i v" by blast
    with Some e at [of k] p(2) have eq: "e = pending_entry (Suc (db_revision db)) (pending_of F i v)" by simp
    have "inputs_of F ?db i = Some v" using e i(1) eq by (simp add: inputs_of_def pending_entry_def pending_of_def)
    with i(1) eq rev show ?thesis
      by (intro entry_ok_def [THEN iffD2] exI [of _ "InputRequest i"])
        (simp add: entry_fits_def kind_fits_def dependencies_kept_def grounded_def pending_entry_def pending_of_def)
  next
    case None
    with e at [of k] have old: "entry_at db k = Some e" by simp
    with assms(2) obtain s where s: "k = request_identity F s" by (auto simp: db_ok_def entry_ok_def)
    note ok = db_okD [OF assms(1,2) old [unfolded s]]
    have "dependencies_kept ?db e"
      using ok(2,3) later unfolding dependencies_kept_def by blast
    with ok(1,2) rev s show ?thesis by (auto simp: entry_ok_def)
  qed
  with commit_entries(2) [OF p(1) sorted] show ?thesis by (simp add: db_ok_def)
qed

section \<open>Collecting entries\<close>

definition retained_entry :: "nat \<Rightarrow> ('q, 'v, 't, 'f) entry \<Rightarrow> bool" where
  "retained_entry cutoff e \<longleftrightarrow> cutoff \<le> verified_at e \<or> entry_kind e = InputEntry Persistent"

lemma bt_get_filter:
  "bt_sorted m \<Longrightarrow> bt_get (filter (\<lambda>(_, v). P v) m) k = (case bt_get m k of Some v \<Rightarrow> if P v then Some v else None | None \<Rightarrow> None)"
proof (induction m)
  case (Cons x m)
  obtain j v where x: "x = (j, v)" by fastforce
  have fresh: "map_of m j = None" "map_of (filter (\<lambda>(_, v). P v) m) j = None"
    using Cons.prems x by (auto simp: bt_sorted_def map_of_eq_None_iff)
  from Cons.prems have "bt_sorted m" by (simp add: bt_sorted_def)
  with Cons.IH Cons.prems x fresh show ?case by (auto simp: bt_get_def split: option.splits)
qed simp

lemma bt_sorted_filter: "bt_sorted m \<Longrightarrow> bt_sorted (filter P m)"
  unfolding bt_sorted_def by (induction m) auto

lemma collect_entries:
  assumes "bt_sorted (db_entries db)" and "collect_inactive oldest db = Some (removed, db')"
  shows "entry_at db' k = (case entry_at db k of
      Some e \<Rightarrow> if retained_entry (min oldest (db_revision db)) e then Some e else None | None \<Rightarrow> None)"
    and "bt_sorted (db_entries db')" and "db_revision db' = db_revision db" and "db_evaluations db' = []"
proof -
  from assms(2) have db': "db' = db\<lparr>db_entries := filter (\<lambda>(_, e). retained_entry (min oldest (db_revision db)) e) (db_entries db)\<rparr>"
    and idle: "db_evaluations db = []"
    by (auto simp: collect_inactive_def Let_def retained_entry_def split: if_splits)
  from db' bt_get_filter [OF assms(1)] show "entry_at db' k = (case entry_at db k of
      Some e \<Rightarrow> if retained_entry (min oldest (db_revision db)) e then Some e else None | None \<Rightarrow> None)" by simp
  show "bt_sorted (db_entries db')"
    using assms(1) db' bt_sorted_filter by simp
qed (use assms(2) in \<open>auto simp: collect_inactive_def Let_def split: if_splits\<close>)

text \<open>What is verified at the current revision keeps its value, because all it was computed from is retained.\<close>

lemma collect_current:
  assumes "families_ok F" and "db_ok F db" and "collect_inactive oldest db = Some (removed, db')"
    and "answer n F (inputs_of F db) q = Some y"
    and "entry_at db (query_identity F q) = Some e" and "verified_at e = db_revision db"
  shows "grounded F (inputs_of F db') (QueryRequest q) (snd (entry_value e)) (entry_kind e)"
  using assms(4-)
proof (induction n arbitrary: q y e)
  case (Suc n)
  have sorted: "bt_sorted (db_entries db)" using assms(2) by (simp add: db_ok_def)
  note at = collect_entries(1) [OF sorted assms(3)]
  have here: "entry_at db (request_identity F (QueryRequest q)) = Some e" using Suc.prems(2) by simp
  note ok = db_okD [OF assms(1,2) here]
  from ok(5) [OF Suc.prems(3)] obtain env rs where kind: "entry_kind e = QueryEntry q (map (dep_of F env) (firsts rs))"
    and trace: "traced env (execute F q) rs (snd (entry_value e))"
    and old: "\<And>x. x \<in> set rs \<Longrightarrow> resolves F (inputs_of F db) x (Inr (env x))"
    by (auto simp: grounded_def)
  have "resolves F (inputs_of F db') x (Inr (env x))" if x: "x \<in> set rs" for x
  proof -
    have "dep_of F env x \<in> set (map (dep_of F env) (firsts rs))" using x by simp
    from ok(3) [unfolded dependencies_kept_def, rule_format, OF kind this] obtain e'
      where e': "entry_at db (request_identity F x) = Some e'" "verified_at e \<le> verified_at e'" by auto
    with db_okD(2) [OF assms(1,2) e'(1)] Suc.prems(3) have now: "verified_at e' = db_revision db" by simp
    then have "retained_entry (min oldest (db_revision db)) e'" by (simp add: retained_entry_def)
    with at e'(1) have kept: "entry_at db' (request_identity F x) = Some e'" by simp
    have same: "snd (entry_value e') = env x"
      using db_okD(4) [OF assms(1,2) e'(1) now] old [OF x] by (auto dest: resolves_fun)
    show ?thesis
    proof (cases x)
      case (InputRequest i)
      with kept same show ?thesis by (simp add: resolves_input inputs_of_def)
    next
      case (QueryRequest g)
      from split_list [OF x] obtain rs1 rs2 where rs: "rs = rs1 @ x # rs2" by blast
      have "reads n F (inputs_of F db) x \<noteq> None"
        by (rule trace_reads [OF trace [unfolded rs]]) (use old rs Suc.prems(1) in auto)
      then obtain z where "answer n F (inputs_of F db) g = Some z" using QueryRequest by (auto simp: resolve_def)
      from grounded_resolves [OF Suc.IH [OF this _ now]] e'(1) QueryRequest same show ?thesis by simp
    qed
  qed
  with kind trace show ?case by (auto simp: grounded_def)
qed simp

lemma collect_inactive_ok:
  assumes "families_ok F" and "db_ok F db" and "collect_inactive oldest db = Some (removed, db')"
  shows "db_ok F db'"
proof -
  have sorted: "bt_sorted (db_entries db)" using assms(2) by (simp add: db_ok_def)
  note collected = collect_entries [OF sorted assms(3)]
  let ?cutoff = "min oldest (db_revision db)"
  have "entry_ok F db' k e" if e: "entry_at db' k = Some e" for k e
  proof -
    from e collected(1) [of k] have old: "entry_at db k = Some e" and kept: "retained_entry ?cutoff e"
      by (auto split: option.splits if_splits)
    from assms(2) old obtain s where s: "k = request_identity F s" by (auto simp: db_ok_def entry_ok_def)
    note ok = db_okD [OF assms(1,2) old [unfolded s]]
    have "dependencies_kept db' e"
      unfolding dependencies_kept_def
    proof (intro allI impI)
      fix q ds d assume q: "entry_kind e = QueryEntry q ds" and d: "d \<in> set ds"
      with ok(3) obtain e' where e': "entry_at db (dep_identity d) = Some e'" "verified_at e \<le> verified_at e'"
        unfolding dependencies_kept_def by blast
      with kept q have "retained_entry ?cutoff e'" by (auto simp: retained_entry_def)
      with e' collected(1) [of "dep_identity d"]
      show "\<exists>e'. entry_at db' (dep_identity d) = Some e' \<and> verified_at e \<le> verified_at e'" by simp
    qed
    moreover have "grounded F (inputs_of F db') s (snd (entry_value e)) (entry_kind e)" if now: "verified_at e = db_revision db"
    proof (cases s)
      case (InputRequest i)
      with e s show ?thesis by (simp add: grounded_def inputs_of_def)
    next
      case (QueryRequest q)
      from ok(4) [OF now] QueryRequest obtain n where "answer n F (inputs_of F db) q = Some (Inr (snd (entry_value e)))"
        by (auto simp: resolves_def resolve_def)
      from collect_current [OF assms this _ now] old s QueryRequest show ?thesis by simp
    qed
    ultimately show ?thesis using ok(1,2) collected(3) s by (auto simp: entry_ok_def)
  qed
  with collected(2) show ?thesis by (simp add: db_ok_def)
qed

section \<open>Reachable databases\<close>

inductive db_step :: "('q, 'i, 'v, 't, 'f) families \<Rightarrow> ('q, 'v, 't, 'f) database \<Rightarrow> ('q, 'v, 't, 'f) database \<Rightarrow> bool"
  for F where
  step_publish: "advance_revision db = Inr r \<Longrightarrow> db_step F db (commit_revision (set_inputs F staged r) db)"
| step_read: "read_request n F r db = Some (res, db') \<Longrightarrow> db_step F db db'"
| step_collect: "collect_inactive oldest db = Some (removed, db') \<Longrightarrow> db_step F db db'"

definition db_resting :: "('q, 'i, 'v, 't, 'f) families \<Rightarrow> ('q, 'v, 't, 'f) database \<Rightarrow> bool" where
  "db_resting F db \<longleftrightarrow> (families_ok F \<longrightarrow> db_ok F db \<and> db_evaluations db = [])"

lemma recorded_resting: "db_evaluations db = [] \<Longrightarrow> recorded F r v db = []"
  by (simp add: recorded_def record_dependency_def)

lemma read_resting:
  assumes "families_ok F" and "db_ok F db" and "db_evaluations db = []" and "read_request n F r db = Some (res, db')"
  shows "evolves F db db'" and "db_evaluations db' = []"
    and "case res of Inr v \<Rightarrow> fresh F db' r v | Inl e \<Rightarrow> fails F db r e"
  using engine_ok [OF assms(1), of n] assms(2-) recorded_resting [OF assms(3)]
  unfolding serves_def by (fastforce split: sum.splits)+

lemma set_inputs_evaluations: "db_evaluations (commit_revision r db) = db_evaluations db"
  by (simp add: commit_revision_def put_entries)

interpretation computation: transition_system "\<lambda>db. db = database_new" "db_step F" "db_resting F" for F
proof
  fix db :: "('a, 'b, 'c, 'd) database"
  show "db = database_new \<Longrightarrow> db_resting F db" for F :: "('a, 'e, 'b, 'c, 'd) families"
    by (simp add: db_resting_def db_ok_def database_new_def)
next
  fix F :: "('a, 'e, 'b, 'c, 'd) families" and db db'
  assume inv: "db_resting F db" and step: "db_step F db db'"
  show "db_resting F db'"
    unfolding db_resting_def
  proof
    assume F: "families_ok F"
    with inv have ok: "db_ok F db" "db_evaluations db = []" by (simp_all add: db_resting_def)
    from step show "db_ok F db' \<and> db_evaluations db' = []"
    proof cases
      case (step_publish r staged)
      with commit_ok [OF F ok(1)] ok(2) show ?thesis by (simp add: set_inputs_evaluations)
    next
      case (step_read n r res)
      from read_resting [OF F ok this] show ?thesis by (simp add: evolves_ok)
    next
      case (step_collect oldest removed)
      have "bt_sorted (db_entries db)" using ok(1) by (simp add: db_ok_def)
      from collect_inactive_ok [OF F ok(1) step_collect] collect_entries(4) [OF this step_collect] show ?thesis by simp
    qed
  qed
qed

lemma reachable_resting:
  "families_ok F \<Longrightarrow> reachable_from (\<lambda>db. db = database_new) (db_step F) db \<Longrightarrow> db_ok F db \<and> db_evaluations db = []"
  using computation.reachable_inv by (auto simp: db_resting_def)

section \<open>A sample\<close>

text \<open>One input and two queries: its parity, and ten more than that.\<close>

definition sample_families :: "(bool, unit, nat, unit, nat) families" where
  "sample_families = \<lparr>query_key = (\<lambda>q. (''query'', [if q then 1 else 0])), input_key = (\<lambda>_. (''input'', [])),
     query_type = (\<lambda>_. ()), input_type = (\<lambda>_. ()), retention_of = (\<lambda>_. RevisionDerived), fingerprint_of = (\<lambda>_ v. v),
     execute = (\<lambda>q. if q then Request (QueryRequest False) (\<lambda>v. Finish (Inr (v + 10)))
       else Request (InputRequest ()) (\<lambda>v. Finish (Inr (v mod 2))))\<rparr>"

lemma sample_ok: "families_ok sample_families"
  by (auto simp: families_ok_def sample_families_def inj_def)

definition sample_db :: "(bool, nat, unit, nat) database" where
  "sample_db = commit_revision (set_inputs sample_families [((), 3)] \<lparr>next_revision = 1, pending = []\<rparr>) database_new"

lemma sample_reachable: "reachable_from (\<lambda>db. db = database_new) (db_step sample_families) sample_db"
proof -
  have "advance_revision (database_new :: (bool, nat, unit, nat) database) = Inr \<lparr>next_revision = 1, pending = []\<rparr>"
    by (simp add: advance_revision_def database_new_def)
  then have "db_step sample_families database_new sample_db" unfolding sample_db_def by (rule step_publish)
  moreover have "reachable_from (\<lambda>db. db = database_new) (db_step sample_families) database_new"
    by (rule reachable_start) (rule refl)
  ultimately show ?thesis by (rule reachable_step [rotated])
qed

lemma sample_answer: "answer 2 sample_families (inputs_of sample_families sample_db) True = Some (Inr 11)"
  by code_simp

definition sample_asked :: "(bool, nat, unit, nat) database" where
  "sample_asked = (case query 4 sample_families True sample_db of Some (_, db) \<Rightarrow> db | None \<Rightarrow> sample_db)"

lemma sample_query: "query 4 sample_families True sample_db = Some (Inr 11, sample_asked)"
proof -
  have "map_option fst (query 4 sample_families True sample_db) = Some (Inr 11)" by code_simp
  then show ?thesis by (cases "query 4 sample_families True sample_db") (auto simp: sample_asked_def)
qed

section \<open>Properties\<close>






lemma sample_collected:
  "\<exists>db'. collect_inactive 1 sample_asked = Some (0, db')
    \<and> (\<exists>e d. entry_at db' (query_identity sample_families True) = Some e
         \<and> entry_kind e = QueryEntry True [\<lparr>dep_identity = query_identity sample_families False, dep_fingerprint = d\<rparr>])"
proof -
  have "(case collect_inactive 1 sample_asked of None \<Rightarrow> False | Some (k, db') \<Rightarrow> k = 0
    \<and> map_option entry_kind (entry_at db' (query_identity sample_families True))
      = Some (QueryEntry True [\<lparr>dep_identity = query_identity sample_families False, dep_fingerprint = 1\<rparr>]))"
    by code_simp
  then show ?thesis by (auto split: option.splits)
qed


text \<open>
  A query answered once is reused: asked again in the same revision it yields the same value and changes nothing,
  so no provider runs.
\<close>

theorem answered_query_is_reused:
  assumes "families_ok F" and "reachable_from (\<lambda>db. db = database_new) (db_step F) db"
    and "query n F q db = Some (Inr v, db')"
  shows "query (Suc (Suc m)) F q db' = Some (Inr v, db')"
proof -
  note ok = reachable_resting [OF assms(1,2)]
  note rest = read_resting [OF assms(1) conjunct1 [OF ok] conjunct2 [OF ok] assms(3)]
  from rest(3) have v: "fresh F db' (QueryRequest q) v" by simp
  from stored_fresh [OF assms(1) evolves_ok [OF rest(1)] v] v rest(2) show ?thesis
    by (auto simp: fresh_def query_step_def ensure_step_def bt_contains_def bind_ok_def record_dependency_def)
qed

theorem answered_query_is_reused_witness: "query 2 sample_families True sample_asked = Some (Inr 11, sample_asked)"
  using answered_query_is_reused [OF sample_ok sample_reachable sample_query, of 0] by (simp only: numeral_2_eq_2)

end
