(* ===== verification/Provenance.thy ===== *)
theory Provenance
  imports Btree_Map "HOL-Library.Monad_Syntax"
begin

text \<open>
  Provenance of callable inputs and results (\<^verbatim>\<open>nocter-model/src/origin.rs\<close>): sets of parameter positions, bounds
  between them, and the search that proves one bound from others. The search memoizes results that were found below
  unfinished ancestors; the theory shows that it still decides the least relation closed under the bounds.
\<close>

section \<open>The search\<close>

text \<open>
  \<open>provenance_is_bounded_by\<close>, with the loop over the origins of a bound as the list \<open>pending\<close>: \<open>active\<close> holds the
  atoms under proof, \<open>memo\<close> the finished ones. It diverges on infinitely many sources, which is \<open>None\<close>.
\<close>

partial_function (option) prove_all :: "('a::linorder \<Rightarrow> 'a list option) \<Rightarrow> 'a list \<Rightarrow> 'a list \<Rightarrow> 'a btree_set
    \<Rightarrow> ('a, bool) btree_map \<Rightarrow> (bool \<times> ('a, bool) btree_map) option" where
  [code]: "prove_all sources allowed pending active memo =
     (case pending of
        [] \<Rightarrow> Some (True, memo)
      | current # rest \<Rightarrow>
          if current \<in> set allowed then prove_all sources allowed rest active memo
          else case bt_get memo current of
            Some result \<Rightarrow> if result then prove_all sources allowed rest active memo else Some (False, memo)
          | None \<Rightarrow>
              if bt_contains active current then Some (False, memo)
              else do {
                (result, memo) \<leftarrow> (case sources current of
                    None \<Rightarrow> Some (False, memo)
                  | Some next_origins \<Rightarrow> prove_all sources allowed next_origins (bset_insert current active) memo);
                let memo = bt_insert current result memo;
                (if result then prove_all sources allowed rest active memo else Some (False, memo)) })"

definition provenance_is_bounded_by :: "'a::linorder \<Rightarrow> 'a list \<Rightarrow> ('a \<Rightarrow> 'a list option) \<Rightarrow> bool option" where
  "provenance_is_bounded_by target allowed sources = map_option fst (prove_all sources allowed [target] [] [])"

text \<open>What it decides: every branch reaches an allowed atom.\<close>

inductive bounded :: "('a \<Rightarrow> 'a list option) \<Rightarrow> 'a set \<Rightarrow> 'a \<Rightarrow> bool" for sources allowed where
  bounded_allowed: "x \<in> allowed \<Longrightarrow> bounded sources allowed x"
| bounded_sources: "sources x = Some ns \<Longrightarrow> (\<And>n. n \<in> set ns \<Longrightarrow> bounded sources allowed n) \<Longrightarrow> bounded sources allowed x"

definition requires :: "('a \<Rightarrow> 'a list option) \<Rightarrow> 'a set \<Rightarrow> ('a \<times> 'a) set" where
  "requires sources allowed = {(n, x). x \<notin> allowed \<and> (\<exists>ns. sources x = Some ns \<and> n \<in> set ns)}"

lemma bounded_iff:
  "x \<notin> allowed \<Longrightarrow> bounded sources allowed x \<longleftrightarrow>
     (\<exists>ns. sources x = Some ns \<and> (\<forall>n \<in> set ns. bounded sources allowed n))"
  by (subst bounded.simps) auto

lemma bounded_acc: "bounded sources allowed x \<Longrightarrow> x \<in> Wellfounded.acc (requires sources allowed)"
  by (induction rule: bounded.induct) (rule accI, auto simp: requires_def)+

lemma acc_irrefl: "x \<in> Wellfounded.acc r \<Longrightarrow> (x, x) \<notin> r\<^sup>+"
proof
  assume "x \<in> Wellfounded.acc r" and "(x, x) \<in> r\<^sup>+"
  then show False
  proof (induction rule: acc.induct)
    case (accI x)
    from accI.prems obtain y where "(x, y) \<in> r\<^sup>*" "(y, x) \<in> r" by (blast dest: tranclD2)
    then have "(y, y) \<in> r\<^sup>+" by auto
    with accI.IH \<open>(y, x) \<in> r\<close> show False by blast
  qed
qed

lemma cycle_not_bounded: "(x, x) \<in> (requires sources allowed)\<^sup>+ \<Longrightarrow> \<not> bounded sources allowed x"
  using acc_irrefl bounded_acc by metis

definition memo_ok :: "('a::linorder \<Rightarrow> 'a list option) \<Rightarrow> 'a set \<Rightarrow> ('a, bool) btree_map \<Rightarrow> bool" where
  "memo_ok sources allowed memo \<longleftrightarrow> bt_sorted memo \<and> (\<forall>x b. bt_get memo x = Some b \<longrightarrow> b = bounded sources allowed x)"

lemma memo_ok_insert: "memo_ok sources allowed memo \<Longrightarrow> memo_ok sources allowed (bt_insert x (bounded sources allowed x) memo)"
  by (simp add: memo_ok_def bt_sorted_insert bt_get_insert)

lemma prove_all_correct:
  fixes U :: "'a::linorder set"
  assumes "finite U" and closed: "\<And>x ns. x \<in> U \<Longrightarrow> sources x = Some ns \<Longrightarrow> set ns \<subseteq> U"
  shows "set pending \<subseteq> U \<Longrightarrow> bt_sorted active \<Longrightarrow> memo_ok sources (set allowed) memo \<Longrightarrow>
    (\<And>a p. bt_contains active a \<Longrightarrow> p \<in> set pending \<Longrightarrow> (p, a) \<in> (requires sources (set allowed))\<^sup>+) \<Longrightarrow>
    \<exists>memo'. prove_all sources allowed pending active memo = Some (\<forall>p \<in> set pending. bounded sources (set allowed) p, memo')
      \<and> memo_ok sources (set allowed) memo'"
proof (induction "(card {x \<in> U. \<not> bt_contains active x}, length pending)" arbitrary: pending active memo
    rule: wf_induct_rule [OF wf_lex_prod [OF wf_less_than wf_less_than]])
  case 1
  let ?B = "bounded sources (set allowed)" and ?E = "requires sources (set allowed)"
  show ?case
  proof (cases pending)
    case Nil
    with "1.prems"(3) show ?thesis by (simp add: prove_all.simps)
  next
    case (Cons current rest)
    have rest: "\<exists>memo'. prove_all sources allowed rest active m = Some (\<forall>p \<in> set rest. ?B p, memo') \<and> memo_ok sources (set allowed) memo'"
      if "memo_ok sources (set allowed) m" for m
      using "1.prems" Cons that by (intro "1.hyps") auto
    consider "current \<in> set allowed" | b where "current \<notin> set allowed" "bt_get memo current = Some b"
      | "current \<notin> set allowed" "bt_get memo current = None" "bt_contains active current"
      | "current \<notin> set allowed" "bt_get memo current = None" "\<not> bt_contains active current" by fastforce
    then show ?thesis
    proof cases
      case 1
      with rest [OF "1.prems"(3)] Cons show ?thesis
        by (subst prove_all.simps) (simp add: bounded_allowed)
    next
      case (2 b)
      with "1.prems"(3) have "b = ?B current" by (simp add: memo_ok_def)
      with 2 rest [OF "1.prems"(3)] "1.prems"(3) Cons show ?thesis
        by (subst prove_all.simps) simp
    next
      case 3
      with "1.prems"(4) [OF 3(3)] Cons have "(current, current) \<in> ?E\<^sup>+" by simp
      with 3 "1.prems"(3) Cons cycle_not_bounded show ?thesis
        by (subst prove_all.simps) fastforce
    next
      case 4
      have U: "current \<in> U" using "1.prems"(1) Cons by simp
      have found: "\<exists>memo'. (case sources current of None \<Rightarrow> Some (False, memo)
          | Some ns \<Rightarrow> prove_all sources allowed ns (bset_insert current active) memo) = Some (?B current, memo')
        \<and> memo_ok sources (set allowed) memo'"
      proof (cases "sources current")
        case None
        with 4 "1.prems"(3) show ?thesis by (simp add: bounded_iff)
      next
        case (Some ns)
        have "{x \<in> U. \<not> bt_contains (bset_insert current active) x} \<subset> {x \<in> U. \<not> bt_contains active x}"
          using U 4 "1.prems"(2) by auto
        then have "card {x \<in> U. \<not> bt_contains (bset_insert current active) x} < card {x \<in> U. \<not> bt_contains active x}"
          using assms(1) by (intro psubset_card_mono) simp_all
        moreover have "(p, a) \<in> ?E\<^sup>+" if "bt_contains (bset_insert current active) a" "p \<in> set ns" for a p
        proof -
          have step: "(p, current) \<in> ?E" using that(2) Some 4 by (auto simp: requires_def)
          show ?thesis
          proof (cases "a = current")
            case False
            with that(1) "1.prems"(2) "1.prems"(4) [of a current] Cons have "(current, a) \<in> ?E\<^sup>+" by simp
            with step show ?thesis by (rule trancl_into_trancl2)
          qed (use step in auto)
        qed
        ultimately have "\<exists>memo'. prove_all sources allowed ns (bset_insert current active) memo = Some (\<forall>p \<in> set ns. ?B p, memo')
          \<and> memo_ok sources (set allowed) memo'"
          using closed [OF U Some] "1.prems"(2,3) by (intro "1.hyps") (auto simp: in_lex_prod)
        with Some 4 show ?thesis by (simp add: bounded_iff)
      qed
      then obtain memo1 where m: "(case sources current of None \<Rightarrow> Some (False, memo)
          | Some ns \<Rightarrow> prove_all sources allowed ns (bset_insert current active) memo) = Some (?B current, memo1)"
        "memo_ok sources (set allowed) memo1" by blast
      have ok: "memo_ok sources (set allowed) (bt_insert current (?B current) memo1)" by (rule memo_ok_insert [OF m(2)])
      show ?thesis
        by (subst prove_all.simps) (cases "?B current"; use rest [OF ok] ok 4 m(1) Cons in simp)
    qed
  qed
qed

lemma bounded_by_correct:
  assumes "finite U" and "\<And>x ns. x \<in> U \<Longrightarrow> sources x = Some ns \<Longrightarrow> set ns \<subseteq> U" and "target \<in> U"
  shows "provenance_is_bounded_by target allowed sources = Some (bounded sources (set allowed) target)"
proof -
  have "\<exists>memo'. prove_all sources allowed [target] [] []
      = Some (\<forall>p \<in> set [target]. bounded sources (set allowed) p, memo') \<and> memo_ok sources (set allowed) memo'"
    by (rule prove_all_correct [OF assms(1,2)]) (use assms(3) in \<open>auto simp: memo_ok_def\<close>)
  then show ?thesis by (auto simp: provenance_is_bounded_by_def)
qed

section \<open>Sets of origins and bounds\<close>

text \<open>A \<open>ParameterOrigin\<close> is its position. The constructors sort; with equal positions the order that an unstable sort
  chooses is not observed, because both constructors then fail with that position.\<close>

fun adjacent_duplicate :: "'a list \<Rightarrow> 'a option" where
  "adjacent_duplicate (x # y # xs) = (if x = y then Some x else adjacent_duplicate (y # xs))"
| "adjacent_duplicate _ = None"

lemma adjacent_duplicate_None: "sorted (xs :: nat list) \<Longrightarrow> adjacent_duplicate xs = None \<longleftrightarrow> distinct xs"
  by (induction xs rule: adjacent_duplicate.induct) (auto simp: dest: order_antisym)

definition provenance_from_origins :: "nat list \<Rightarrow> nat + nat list" where
  "provenance_from_origins origins =
     (let sorted_origins = sort origins in
      case adjacent_duplicate sorted_origins of Some d \<Rightarrow> Inl d | None \<Rightarrow> Inr sorted_origins)"

datatype input_constraint = InputConstraint (constraint_target: nat) (constraint_sources: "nat list")

datatype invalid_input_provenance = DuplicateTarget nat | Tautology nat

definition input_provenance_from :: "input_constraint list \<Rightarrow> invalid_input_provenance + input_constraint list" where
  "input_provenance_from constraints =
     (let ordered = sort_key constraint_target constraints in
      case find (\<lambda>c. constraint_target c \<in> set (constraint_sources c)) ordered of
        Some c \<Rightarrow> Inl (Tautology (constraint_target c))
      | None \<Rightarrow>
          (case adjacent_duplicate (map constraint_target ordered) of
             Some d \<Rightarrow> Inl (DuplicateTarget d)
           | None \<Rightarrow> Inr ordered))"

text \<open>The binary search of the sources finds the only constraint of a target.\<close>

definition input_sources :: "input_constraint list \<Rightarrow> nat \<Rightarrow> nat list option" where
  "input_sources constraints target =
     map_option constraint_sources (find (\<lambda>c. constraint_target c = target) constraints)"

primrec input_implies :: "input_constraint list \<Rightarrow> input_constraint list \<Rightarrow> bool option" where
  "input_implies available [] = Some True"
| "input_implies available (c # required) = do {
     proved \<leftarrow> provenance_is_bounded_by (constraint_target c) (constraint_sources c) (input_sources available);
     (if proved then input_implies available required else Some False) }"

definition input_valid :: "input_constraint list \<Rightarrow> bool" where
  "input_valid cs \<longleftrightarrow> sorted (map constraint_target cs) \<and> distinct (map constraint_target cs)
     \<and> (\<forall>c \<in> set cs. constraint_target c \<notin> set (constraint_sources c))"

lemma input_provenance_valid: "input_provenance_from cs = Inr ip \<Longrightarrow> input_valid ip"
  using adjacent_duplicate_None [of "map constraint_target (sort_key constraint_target cs)"]
  by (auto simp: input_provenance_from_def input_valid_def Let_def find_None_iff split: option.splits)

lemma bounded_by_input:
  "provenance_is_bounded_by target allowed (input_sources cs) = Some (bounded (input_sources cs) (set allowed) target)"
proof (rule bounded_by_correct)
  let ?U = "insert target (\<Union>c \<in> set cs. set (constraint_sources c))"
  show "finite ?U" by simp
  show "set ns \<subseteq> ?U" if "input_sources cs x = Some ns" for x ns
    using that by (auto simp: input_sources_def dest: find_SomeD)
qed simp

definition implied :: "input_constraint list \<Rightarrow> input_constraint list \<Rightarrow> bool" where
  "implied available required \<longleftrightarrow>
     (\<forall>c \<in> set required. bounded (input_sources available) (set (constraint_sources c)) (constraint_target c))"

lemma input_implies_eq: "input_implies available required = Some (implied available required)"
  by (induction required) (simp_all add: bounded_by_input implied_def)

lemma input_sources_of: "input_valid cs \<Longrightarrow> c \<in> set cs \<Longrightarrow> input_sources cs (constraint_target c) = Some (constraint_sources c)"
proof (induction cs)
  case (Cons d cs)
  then show ?case by (force simp: input_sources_def input_valid_def)
qed simp

lemma implied_refl: "input_valid cs \<Longrightarrow> implied cs cs"
  unfolding implied_def by (intro ballI, rule bounded_sources) (auto intro: bounded_allowed simp: input_sources_of)

lemma bounded_cut:
  "bounded sources A x \<Longrightarrow> (\<And>a. a \<in> A \<Longrightarrow> bounded sources B a) \<Longrightarrow> bounded sources B x"
  by (induction rule: bounded.induct) (auto intro: bounded_sources)

lemma implied_trans:
  assumes "implied a b" and "implied b c"
  shows "implied a c"
  unfolding implied_def
proof
  fix r assume "r \<in> set c"
  with assms(2) have "bounded (input_sources b) (set (constraint_sources r)) (constraint_target r)" by (simp add: implied_def)
  then show "bounded (input_sources a) (set (constraint_sources r)) (constraint_target r)"
  proof (induction rule: bounded.induct)
    case (bounded_sources x ns)
    from bounded_sources.hyps(1) obtain d where d: "d \<in> set b" "constraint_target d = x" "constraint_sources d = ns"
      by (auto simp: input_sources_def dest: find_SomeD)
    with assms(1) have "bounded (input_sources a) (set ns) x" by (auto simp: implied_def)
    then show ?case by (rule bounded_cut) (rule bounded_sources.IH)
  qed (rule bounded_allowed)
qed

text \<open>
  C39: The memoizing search decides exactly whether the bounds of one callable's inputs prove those of another, on
  cyclic bounds too, and always returns. The relation it decides is a preorder on normalized bounds, as weakening one
  callable type to another needs.
\<close>

theorem input_implication_correct:
  assumes "input_provenance_from constraints = Inr a"
  shows "input_implies b c = Some (implied b c) \<and> input_implies a a = Some True
    \<and> (input_implies a b = Some True \<longrightarrow> input_implies b c = Some True \<longrightarrow> input_implies a c = Some True)"
  using implied_refl [OF input_provenance_valid [OF assms]] implied_trans [of a b c] by (simp add: input_implies_eq)

theorem input_implication_correct_witness:
  "input_implies [InputConstraint 0 [1, 2], InputConstraint 1 [0]] [InputConstraint 0 [1, 2], InputConstraint 1 [0]] = Some True"
proof -
  have "input_provenance_from [InputConstraint 1 [0], InputConstraint 0 [1, 2]]
      = Inr [InputConstraint 0 [1, 2], InputConstraint 1 [0]]"
    by (simp add: input_provenance_from_def sort_key_def insort_key_def)
  from input_implication_correct [OF this] show ?thesis by blast
qed

end
