(* ===== verification/Numeric_Conversion.thy ===== *)
theory Numeric_Conversion
  imports Complex_Main Language_Vocabulary
begin

text \<open>
  Lossless conversions between primitive numbers (\<^verbatim>\<open>nocter-model/src/numeric.rs\<close>), decided from widths,
  signedness and precision, against the sets of values the types stand for.
\<close>

section \<open>The decision\<close>

datatype builtin_numeric_type = IntegerNumeric nat bool | FloatNumeric nat nat

primrec numeric_for_builtin :: "builtin_type \<Rightarrow> builtin_numeric_type option" where
  "numeric_for_builtin BuiltinI8 = Some (IntegerNumeric 8 True)"
| "numeric_for_builtin BuiltinI16 = Some (IntegerNumeric 16 True)"
| "numeric_for_builtin BuiltinI32 = Some (IntegerNumeric 32 True)"
| "numeric_for_builtin BuiltinI64 = Some (IntegerNumeric 64 True)"
| "numeric_for_builtin BuiltinIsize = Some (IntegerNumeric 64 True)"
| "numeric_for_builtin BuiltinU8 = Some (IntegerNumeric 8 False)"
| "numeric_for_builtin BuiltinU16 = Some (IntegerNumeric 16 False)"
| "numeric_for_builtin BuiltinU32 = Some (IntegerNumeric 32 False)"
| "numeric_for_builtin BuiltinU64 = Some (IntegerNumeric 64 False)"
| "numeric_for_builtin BuiltinUsize = Some (IntegerNumeric 64 False)"
| "numeric_for_builtin BuiltinF32 = Some (FloatNumeric 32 24)"
| "numeric_for_builtin BuiltinF64 = Some (FloatNumeric 64 53)"
| "numeric_for_builtin BuiltinBool = None"
| "numeric_for_builtin BuiltinChar = None"
| "numeric_for_builtin BuiltinStr = None"
| "numeric_for_builtin BuiltinError = None"
| "numeric_for_builtin BuiltinVoid = None"
| "numeric_for_builtin BuiltinNever = None"

fun lossless_numeric :: "builtin_numeric_type \<Rightarrow> builtin_numeric_type \<Rightarrow> bool" where
  "lossless_numeric (IntegerNumeric source_bits source_signed) (IntegerNumeric target_bits target_signed) =
     (case (source_signed, target_signed) of
        (False, False) \<Rightarrow> source_bits \<le> target_bits
      | (True, True) \<Rightarrow> source_bits \<le> target_bits
      | (False, True) \<Rightarrow> source_bits < target_bits
      | (True, False) \<Rightarrow> False)"
| "lossless_numeric (IntegerNumeric bits is_signed) (FloatNumeric _ precision) =
     (bits - (if is_signed then 1 else 0) \<le> precision)"
| "lossless_numeric (FloatNumeric source_bits _) (FloatNumeric target_bits _) = (source_bits < target_bits)"
| "lossless_numeric (FloatNumeric _ _) (IntegerNumeric _ _) = False"

definition lossless_builtin_numeric_conversion :: "builtin_type \<Rightarrow> builtin_type \<Rightarrow> bool" where
  "lossless_builtin_numeric_conversion source target =
     (case (numeric_for_builtin source, numeric_for_builtin target) of
        (Some s, Some t) \<Rightarrow> lossless_numeric s t
      | _ \<Rightarrow> False)"

section \<open>The values of a type\<close>

text \<open>
  The finite values of the IEEE formats: integers below \<open>2 ^ precision\<close> scaled by a power of two in the range of the
  exponent. The exponent ranges are those of binary32 and binary64.
\<close>

definition float_values :: "nat \<Rightarrow> nat \<Rightarrow> nat \<Rightarrow> real set" where
  "float_values precision down up =
     {x. \<exists>m j k. \<bar>m\<bar> < 2 ^ precision \<and> j \<le> down \<and> k \<le> up \<and> x * 2 ^ j = real_of_int m * 2 ^ k}"

definition integer_values :: "int \<Rightarrow> int \<Rightarrow> real set" where
  "integer_values low high = real_of_int ` {low ..< high}"

definition numeric_values :: "builtin_numeric_type \<Rightarrow> real set" where
  "numeric_values t =
     (case t of
        IntegerNumeric bits True \<Rightarrow> integer_values (- (2 ^ (bits - 1))) (2 ^ (bits - 1))
      | IntegerNumeric bits False \<Rightarrow> integer_values 0 (2 ^ bits)
      | FloatNumeric bits precision \<Rightarrow>
          if bits = 32 then float_values precision 149 104 else float_values precision 1074 971)"

definition builtin_values :: "builtin_type \<Rightarrow> real set option" where
  "builtin_values b = map_option numeric_values (numeric_for_builtin b)"

lemma integer_subset_integer:
  "l < h \<Longrightarrow> integer_values l h \<subseteq> integer_values l' h' \<longleftrightarrow> l' \<le> l \<and> h \<le> h'"
  by (auto simp: integer_values_def inj_image_subset_iff inj_on_def ivl_subset)

lemma odd_not_float:
  assumes "odd n" and "2 ^ p \<le> \<bar>n\<bar>"
  shows "real_of_int n \<notin> float_values p d u"
proof
  assume "real_of_int n \<in> float_values p d u"
  then obtain m j k where m: "\<bar>m\<bar> < 2 ^ p" and eq: "real_of_int n * 2 ^ j = real_of_int m * 2 ^ k"
    by (auto simp: float_values_def)
  from eq have "real_of_int (n * 2 ^ j) = real_of_int (m * 2 ^ k)" by simp
  then have eq: "n * 2 ^ j = m * 2 ^ k" by (simp only: of_int_eq_iff)
  show False
  proof (cases "j < k")
    case True
    then have "(2 :: int) ^ k = 2 ^ j * 2 ^ (k - j)" by (simp flip: power_add)
    with eq have "n * 2 ^ j = m * 2 ^ (k - j) * 2 ^ j" by simp
    then have "n = m * 2 ^ (k - j)" by simp
    with True assms(1) show False by simp
  next
    case False
    then have "(2 :: int) ^ j = 2 ^ (j - k) * 2 ^ k" by (simp flip: power_add)
    with eq have "n * 2 ^ (j - k) * 2 ^ k = m * 2 ^ k" by simp
    then have "m = n * 2 ^ (j - k)" by simp
    then have "\<bar>n\<bar> * 1 \<le> \<bar>m\<bar>" by (simp only: abs_mult) (rule mult_left_mono; simp)
    with m assms(2) show False by simp
  qed
qed

lemma integer_in_float: "\<bar>n\<bar> \<le> 2 ^ p \<Longrightarrow> 0 < u \<Longrightarrow> 0 < p \<Longrightarrow> real_of_int n \<in> float_values p d u"
proof (cases "\<bar>n\<bar> = 2 ^ p")
  case True
  assume "0 < u" "0 < p"
  from \<open>0 < p\<close> have p: "(2 :: int) ^ p = 2 ^ (p - 1) * 2" by (simp flip: power_Suc2)
  from True have n: "n = sgn n * 2 ^ (p - 1) * 2" using mult_sgn_abs [of n] p by simp
  have "\<bar>sgn n * 2 ^ (p - 1)\<bar> < (2 :: int) ^ p" using p True by (auto simp: abs_mult)
  moreover have "real_of_int n * 2 ^ 0 = real_of_int (sgn n * 2 ^ (p - 1)) * 2 ^ 1"
    using arg_cong [OF n, of real_of_int] by simp
  moreover have "(1 :: nat) \<le> u" using \<open>0 < u\<close> by simp
  ultimately show ?thesis unfolding float_values_def by blast
next
  case False
  assume "\<bar>n\<bar> \<le> 2 ^ p"
  with False have "\<bar>n\<bar> < 2 ^ p" by simp
  moreover have "real_of_int n * 2 ^ 0 = real_of_int n * 2 ^ 0" by simp
  ultimately show ?thesis unfolding float_values_def by blast
qed

lemma integer_subset_float:
  "0 < u \<Longrightarrow> 0 < p \<Longrightarrow> - (2 ^ p) \<le> l \<Longrightarrow> h \<le> 2 ^ p + 1 \<Longrightarrow> integer_values l h \<subseteq> float_values p d u"
  by (auto simp: integer_values_def intro!: integer_in_float)

lemma integer_not_subset_float:
  assumes "l \<le> 2 ^ p + 1" and "2 ^ p + 1 < h" and "0 < p"
  shows "\<not> integer_values l h \<subseteq> float_values p d u"
proof -
  have "real_of_int (2 ^ p + 1) \<in> integer_values l h"
    unfolding integer_values_def using assms by (intro imageI) simp
  moreover have "real_of_int (2 ^ p + 1) \<notin> float_values p d u" using assms(3) by (intro odd_not_float) simp_all
  ultimately show ?thesis by blast
qed

lemma float_not_subset_integer: "0 < p \<Longrightarrow> 0 < d \<Longrightarrow> \<not> float_values p d u \<subseteq> integer_values l h"
proof
  assume "0 < p" "0 < d" and sub: "float_values p d u \<subseteq> integer_values l h"
  have "(1 / 2 :: real) * 2 ^ 1 = real_of_int 1 * 2 ^ 0" by simp
  moreover have "\<bar>1 :: int\<bar> < 2 ^ p" using one_less_power [of "2 :: int" p] \<open>0 < p\<close> by simp
  moreover have "(1 :: nat) \<le> d" using \<open>0 < d\<close> by simp
  ultimately have "(1 / 2 :: real) \<in> float_values p d u" unfolding float_values_def by blast
  with sub obtain i where "real_of_int i = 1 / 2" by (auto simp: integer_values_def)
  then have "real_of_int (2 * i) = real_of_int 1" by simp
  then have "2 * i = 1" by (simp only: of_int_eq_iff)
  then show False by presburger
qed

lemma float_subset_float: "p \<le> p' \<Longrightarrow> d \<le> d' \<Longrightarrow> u \<le> u' \<Longrightarrow> float_values p d u \<subseteq> float_values p' d' u'"
  unfolding float_values_def
proof clarify
  fix x m j k
  assume le: "p \<le> p'" "d \<le> d'" "u \<le> u'" and x: "\<bar>m\<bar> < 2 ^ p" "j \<le> d" "k \<le> u" "x * 2 ^ j = real_of_int m * 2 ^ k"
  from le(1) have "(2 :: int) ^ p \<le> 2 ^ p'" by (intro power_increasing) simp_all
  with x(1) have "\<bar>m\<bar> < 2 ^ p'" by (rule less_le_trans)
  with x(2-4) le(2,3) show "\<exists>m j k. \<bar>m\<bar> < 2 ^ p' \<and> j \<le> d' \<and> k \<le> u' \<and> x * 2 ^ j = real_of_int m * 2 ^ k"
    by (metis order_trans)
qed

lemma float_not_subset_float:
  assumes "p < p'" and "0 < p" and "0 < u'"
  shows "\<not> float_values p' d' u' \<subseteq> float_values p d u"
proof -
  have "(2 :: int) ^ p + 1 \<le> 2 ^ p'" using power_strict_increasing [OF assms(1), of "2 :: int"] by linarith
  with assms have "real_of_int (2 ^ p + 1) \<in> float_values p' d' u'" by (intro integer_in_float) simp_all
  moreover have "real_of_int (2 ^ p + 1) \<notin> float_values p d u" using assms(2) by (intro odd_not_float) simp_all
  ultimately show ?thesis by blast
qed

lemmas value_inclusions = integer_subset_integer integer_subset_float integer_not_subset_float
  float_not_subset_integer float_subset_float float_not_subset_float



text \<open>
  The comment on \<open>lossless_builtin_numeric_conversion\<close> promises that it reports whether every value is preserved. A float
  type is not reported convertible to itself although the identity preserves every value; the integer types are.
\<close>

lemma float_identity_not_lossless:
  "b \<in> {BuiltinF32, BuiltinF64} \<Longrightarrow> \<not> lossless_builtin_numeric_conversion b b"
  by (auto simp: lossless_builtin_numeric_conversion_def)

end
